(* ===== verification/Prelude.thy ===== *)
theory Prelude
  imports Main "HOL-Library.Word" "HOL-Library.Signed_Division"
begin

text \<open>
  The vocabulary every component theory shares: the machine integers of the i686 target, the
  byte-addressed memory a kernel pointer points into, little-endian 16- and 32-bit accesses,
  address spans with their separation lemmas, and the status codes of \<^verbatim>\<open>src/status.h\<close>.
\<close>

unbundle bit_operations_syntax

section \<open>Machine integers and memory\<close>

text \<open>
  \<open>u8\<close>, \<open>u16\<close> and \<open>u32\<close> are the unsigned types of \<^verbatim>\<open>stdint.h\<close>; a pointer and a \<^verbatim>\<open>size_t\<close> are a
  \<open>u32\<close> on the target. A C \<^verbatim>\<open>char\<close> is stored as a \<open>u8\<close> and read with \<open>sint\<close> where the code compares
  it (plain \<^verbatim>\<open>char\<close> is signed there). A C \<^verbatim>\<open>int\<close> is an \<open>int\<close>, with the conversion written out
  (\<open>sint\<close>, \<open>word_of_int\<close>) wherever the code converts between signed and unsigned.
\<close>

type_synonym u8 = "8 word"
type_synonym u16 = "16 word"
type_synonym u32 = "32 word"
type_synonym mem = "u32 \<Rightarrow> u8"

named_theorems mem_simps \<open>reads through writes, for separated addresses\<close>

lemma uint_eq_iff [simp]: "uint a = uint b \<longleftrightarrow> a = b"
  by (simp add: word_uint_eq_iff)

lemma uint_eq_0_iff [simp]: "uint a = 0 \<longleftrightarrow> a = 0"
  using uint_eq_iff [of a 0] by simp

lemma uint_eq_0_iff' [simp]: "0 = uint a \<longleftrightarrow> a = 0"
  by auto

lemma word_of_int_nat: "0 \<le> i \<Longrightarrow> word_of_int i = (word_of_nat (nat i) :: 'a :: len word)"
  by (metis nat_0_le of_int_of_nat_eq)

section \<open>Status codes (src/status.h)\<close>

abbreviation (input) PEACHOS_ALL_OK :: int where "PEACHOS_ALL_OK \<equiv> 0"
abbreviation (input) EIO :: int where "EIO \<equiv> 1"
abbreviation (input) EINVARG :: int where "EINVARG \<equiv> 2"
abbreviation (input) ENOMEM :: int where "ENOMEM \<equiv> 3"
abbreviation (input) EBADPATH :: int where "EBADPATH \<equiv> 4"
abbreviation (input) EFSNOTUS :: int where "EFSNOTUS \<equiv> 5"
abbreviation (input) ERDONLY :: int where "ERDONLY \<equiv> 6"
abbreviation (input) EUNIMP :: int where "EUNIMP \<equiv> 7"
abbreviation (input) EISTKN :: int where "EISTKN \<equiv> 8"
abbreviation (input) EINFORMAT :: int where "EINFORMAT \<equiv> 9"

section \<open>Address spans\<close>

text \<open>\<open>span a n\<close> is the set of the \<open>n\<close> addresses from \<open>a\<close> on, modulo \<open>2 ^ 32\<close> as pointers wrap.\<close>

definition span :: "u32 \<Rightarrow> nat \<Rightarrow> u32 set" where
  "span a n = {x. unat (x - a) < n}"

lemma span_0 [simp]: "span a 0 = {}"
  by (simp add: span_def)

lemma span_mono: "n \<le> k \<Longrightarrow> span a n \<subseteq> span a k"
  by (auto simp: span_def)

lemma unat_le_max32: "unat (x :: u32) < 4294967296"
  using unsigned_less [of x] by simp

lemma span_add_in [simp]: "i < n \<Longrightarrow> i < 4294967296 \<Longrightarrow> a + word_of_nat i \<in> span a n"
  by (simp add: span_def unat_of_nat)

lemma span_base_in [simp]: "0 < n \<Longrightarrow> a \<in> span a n"
  by (simp add: span_def)

lemma unat_diff_le: "unat a \<le> unat x \<Longrightarrow> unat (x - a) = unat x - unat (a :: u32)"
  by (simp add: unat_sub word_le_nat_alt)

lemma unat_diff_gt: "unat x < unat a \<Longrightarrow> unat (x - a) = unat x + 4294967296 - unat (a :: u32)"
  by (simp add: unat_sub_if_size word_size)

lemma span_iff:
  "unat a + n \<le> 4294967296 \<Longrightarrow> x \<in> span a n \<longleftrightarrow> unat a \<le> unat x \<and> unat x < unat a + n"
  by (cases "unat a \<le> unat x") (auto simp: span_def unat_diff_le unat_diff_gt)

lemma span_disjoint:
  assumes "unat a + n \<le> unat b" "unat b + k \<le> 4294967296"
  shows "span a n \<inter> span b k = {}"
  using assms by (auto simp: span_iff)

lemma span_disjoint_sym:
  assumes "unat a + n \<le> unat b" "unat b + k \<le> 4294967296"
  shows "span b k \<inter> span a n = {}"
  using span_disjoint [OF assms] by blast

lemma span_subset:
  assumes "unat a \<le> unat b" "unat b + k \<le> unat a + n" "unat a + n \<le> 4294967296"
  shows "span b k \<subseteq> span a n"
  using assms by (auto simp: span_iff)

lemma span_offset:
  assumes "k \<le> n" "n < 4294967296"
  shows "span (p + word_of_nat k) (n - k) \<subseteq> span p n"
proof
  fix x assume x: "x \<in> span (p + word_of_nat k) (n - k)"
  define y where "y = x - (p + word_of_nat k)"
  have "x - p = y + word_of_nat k" by (simp add: y_def)
  moreover have "unat (word_of_nat k :: u32) = k" using assms by (simp add: unat_of_nat)
  moreover have "unat y < n - k" using x by (simp add: span_def y_def)
  ultimately have "unat (x - p) < n" using assms by (simp add: unat_word_ariths)
  then show "x \<in> span p n" by (simp add: span_def)
qed

text \<open>\<open>agree_off S m m'\<close>: the two memories agree outside \<open>S\<close> (a frame).\<close>

definition agree_off :: "u32 set \<Rightarrow> mem \<Rightarrow> mem \<Rightarrow> bool" where
  "agree_off S m m' \<longleftrightarrow> (\<forall>x. x \<notin> S \<longrightarrow> m' x = m x)"

lemma agree_off_refl [simp, intro]: "agree_off S m m"
  by (simp add: agree_off_def)

lemma agree_off_trans: "agree_off S m m' \<Longrightarrow> agree_off T m' m'' \<Longrightarrow> agree_off (S \<union> T) m m''"
  by (simp add: agree_off_def)

lemma agree_off_trans_same: "agree_off S m m' \<Longrightarrow> agree_off S m' m'' \<Longrightarrow> agree_off S m m''"
  by (simp add: agree_off_def)

lemma agree_off_mono: "agree_off S m m' \<Longrightarrow> S \<subseteq> T \<Longrightarrow> agree_off T m m'"
  by (auto simp: agree_off_def)

lemma agree_offD: "agree_off S m m' \<Longrightarrow> x \<notin> S \<Longrightarrow> m' x = m x"
  by (simp add: agree_off_def)

section \<open>Little-endian accesses\<close>

definition read16 :: "mem \<Rightarrow> u32 \<Rightarrow> u16" where
  "read16 m a = ucast (m a) OR push_bit 8 (ucast (m (a + 1)))"

definition read32 :: "mem \<Rightarrow> u32 \<Rightarrow> u32" where
  "read32 m a = ucast (m a) OR push_bit 8 (ucast (m (a + 1)))
     OR push_bit 16 (ucast (m (a + 2))) OR push_bit 24 (ucast (m (a + 3)))"

definition write32 :: "mem \<Rightarrow> u32 \<Rightarrow> u32 \<Rightarrow> mem" where
  "write32 m a v = m(a := ucast v, a + 1 := ucast (drop_bit 8 v),
     a + 2 := ucast (drop_bit 16 v), a + 3 := ucast (drop_bit 24 v))"

definition write16 :: "mem \<Rightarrow> u32 \<Rightarrow> u16 \<Rightarrow> mem" where
  "write16 m a v = m(a := ucast v, a + 1 := ucast (drop_bit 8 v))"

lemma bytes_of_u16:
  "ucast (ucast v :: u8) OR push_bit 8 (ucast (ucast (drop_bit 8 v) :: u8)) = (v :: u16)" (is "?w = v")
proof (rule bit_word_eqI)
  fix n :: nat
  assume "n < LENGTH(16)"
  consider "n < 8" | "8 \<le> n" by arith
  then show "bit ?w n = bit v n"
    using \<open>n < LENGTH(16)\<close> by cases (auto simp: bit_simps)
qed

lemma read16_write16_same [simp]: "read16 (write16 m a v) a = v"
  by (simp add: read16_def write16_def bytes_of_u16)

lemma bytes_of_u32:
  "ucast (ucast v :: u8) OR push_bit 8 (ucast (ucast (drop_bit 8 v) :: u8))
     OR push_bit 16 (ucast (ucast (drop_bit 16 v) :: u8))
     OR push_bit 24 (ucast (ucast (drop_bit 24 v) :: u8)) = (v :: u32)" (is "?w = v")
proof (rule bit_word_eqI)
  fix n :: nat
  assume "n < LENGTH(32)"
  consider "n < 8" | "8 \<le> n \<and> n < 16" | "16 \<le> n \<and> n < 24" | "24 \<le> n" by arith
  then show "bit ?w n = bit v n"
    using \<open>n < LENGTH(32)\<close> by cases (auto simp: bit_simps)
qed

lemma read32_write32_same [simp]: "read32 (write32 m a v) a = v"
  by (simp add: read32_def write32_def bytes_of_u32)

lemma span4_cases: "x \<in> span a 4 \<longleftrightarrow> x = a \<or> x = a + 1 \<or> x = a + 2 \<or> x = a + 3"
proof -
  have *: "(n :: nat) < 4 \<longleftrightarrow> n = 0 \<or> n = 1 \<or> n = 2 \<or> n = 3" for n by arith
  have "unat (x - a) < 4 \<longleftrightarrow> x - a = 0 \<or> x - a = 1 \<or> x - a = 2 \<or> x - a = 3"
    unfolding * word_unat_eq_iff by simp
  then show ?thesis by (simp add: span_def diff_eq_eq add.commute)
qed

lemma span2_cases: "x \<in> span a 2 \<longleftrightarrow> x = a \<or> x = a + 1"
proof -
  have *: "(n :: nat) < 2 \<longleftrightarrow> n = 0 \<or> n = 1" for n by arith
  have "unat (x - a) < 2 \<longleftrightarrow> x - a = 0 \<or> x - a = 1"
    unfolding * word_unat_eq_iff by simp
  then show ?thesis by (simp add: span_def diff_eq_eq add.commute)
qed

lemma span8_halves: "span a 8 \<subseteq> span a 4 \<union> span (a + 4) 4"
proof
  fix x assume "x \<in> span a 8"
  then have n: "unat (x - a) < 8" by (simp add: span_def)
  show "x \<in> span a 4 \<union> span (a + 4) 4"
  proof (cases "unat (x - a) < 4")
    case False
    then have "unat (x - a - 4) = unat (x - a) - 4" by (simp add: unat_sub word_le_nat_alt)
    then have "unat (x - (a + 4)) < 4" unfolding diff_diff_eq [symmetric] using n by simp
    then show ?thesis by (simp add: span_def)
  qed (simp add: span_def)
qed

lemma write16_agree: "agree_off (span a 2) m (write16 m a v)"
  by (auto simp: agree_off_def span2_cases write16_def)

lemma read16_agree: "agree_off S m m' \<Longrightarrow> span a 2 \<inter> S = {} \<Longrightarrow> read16 m' a = read16 m a"
  by (auto simp: agree_off_def read16_def span2_cases disjoint_iff)

lemma read16_write16_sep [mem_simps]:
  "span b 2 \<inter> span a 2 = {} \<Longrightarrow> read16 (write16 m a v) b = read16 m b"
  by (rule read16_agree [OF write16_agree])

lemma write32_agree: "agree_off (span a 4) m (write32 m a v)"
  by (auto simp: agree_off_def span4_cases write32_def)

lemma read32_agree: "agree_off S m m' \<Longrightarrow> span a 4 \<inter> S = {} \<Longrightarrow> read32 m' a = read32 m a"
  by (auto simp: agree_off_def read32_def span4_cases disjoint_iff)

lemma read32_write32_sep [mem_simps]:
  "span b 4 \<inter> span a 4 = {} \<Longrightarrow> read32 (write32 m a v) b = read32 m b"
  by (rule read32_agree [OF write32_agree])

lemma write32_byte_sep [mem_simps]: "x \<notin> span a 4 \<Longrightarrow> write32 m a v x = m x"
  by (rule agree_offD [OF write32_agree])

text \<open>Two distinct elements of one array of \<^verbatim>\<open>uint32_t\<close> are separated.\<close>

lemma unat_array_index2:
  assumes "unat a + 2 * n \<le> 4294967296" "i < n"
  shows "unat (a + 2 * word_of_nat i :: u32) = unat a + 2 * i"
proof -
  have "unat (2 * word_of_nat i :: u32) = 2 * i"
    using assms by (simp add: unat_word_ariths unat_of_nat)
  then show ?thesis
    using assms by (simp add: unat_word_ariths)
qed

lemma array2_span_disjoint:
  assumes "unat a + 2 * n \<le> 4294967296" "i < n" "j < n" "i \<noteq> j"
  shows "span (a + 2 * word_of_nat i) 2 \<inter> span (a + 2 * word_of_nat j) 2 = {}"
proof (cases "i < j")
  case True
  then show ?thesis using assms by (intro span_disjoint) (simp_all add: unat_array_index2)
next
  case False
  then show ?thesis using assms by (intro span_disjoint_sym) (simp_all add: unat_array_index2)
qed

lemma unat_array_index:
  assumes "unat a + 4 * n \<le> 4294967296" "i < n"
  shows "unat (a + 4 * word_of_nat i :: u32) = unat a + 4 * i"
proof -
  have "unat (4 * word_of_nat i :: u32) = 4 * i"
    using assms by (simp add: unat_word_ariths unat_of_nat)
  then show ?thesis
    using assms by (simp add: unat_word_ariths)
qed

lemma array_span_disjoint:
  assumes "unat a + 4 * n \<le> 4294967296" "i < n" "j < n" "i \<noteq> j"
  shows "span (a + 4 * word_of_nat i) 4 \<inter> span (a + 4 * word_of_nat j) 4 = {}"
proof (cases "i < j")
  case True
  then show ?thesis using assms by (intro span_disjoint) (simp_all add: unat_array_index)
next
  case False
  then show ?thesis using assms by (intro span_disjoint_sym) (simp_all add: unat_array_index)
qed

lemma array_span_subset:
  assumes "unat a + 4 * n \<le> 4294967296" "i < n"
  shows "span (a + 4 * word_of_nat i) 4 \<subseteq> span a (4 * n)"
  using assms by (intro span_subset) (simp_all add: unat_array_index)

lemma read32_span:
  "(\<And>x. x \<in> span q 4 \<Longrightarrow> m' x = m x) \<Longrightarrow> read32 m' q = read32 m q"
  by (simp add: read32_def span4_cases)

text \<open>Addresses on page boundaries.\<close>

lemma aligned_room: "unat (t :: u32) mod 4096 = 0 \<Longrightarrow> unat t + 4096 \<le> 4294967296"
proof -
  assume a: "unat t mod 4096 = 0"
  obtain q where "unat t = 4096 * q" using a by (auto elim: dvdE)
  then show ?thesis using unat_le_max32 [of t] by simp
qed

lemma aligned_disjoint:
  assumes "unat (p :: u32) mod 4096 = 0" "unat (q :: u32) mod 4096 = 0" "p \<noteq> q"
  shows "span p 4096 \<inter> span q 4096 = {}"
proof -
  obtain a b where ab: "unat p = 4096 * a" "unat q = 4096 * b" using assms(1,2) by (auto elim!: dvdE)
  have "a \<noteq> b" using ab assms(3) by (auto simp: word_unat_eq_iff)
  then consider "a + 1 \<le> b" | "b + 1 \<le> a" by linarith
  then show ?thesis
    by cases (use ab aligned_room [OF assms(1)] aligned_room [OF assms(2)] in
      \<open>intro span_disjoint span_disjoint_sym; simp\<close>)+
qed

text \<open>The 32-bit slots of a page.\<close>

lemma slot_in_page:
  assumes "unat (p :: u32) mod 4096 = 0" "i < 1024"
  shows "span (p + 4 * word_of_nat i) 4 \<subseteq> span p 4096"
  using array_span_subset [of p 1024 i] aligned_room [OF assms(1)] assms(2) by simp

lemma slot_disjoint:
  assumes "unat (p :: u32) mod 4096 = 0" "unat (q :: u32) mod 4096 = 0" "i < 1024" "j < 1024"
    "p \<noteq> q \<or> i \<noteq> j"
  shows "span (p + 4 * word_of_nat i) 4 \<inter> span (q + 4 * word_of_nat j) 4 = {}"
proof (cases "p = q")
  case True
  then show ?thesis using array_span_disjoint [of p 1024 i j] aligned_room [OF assms(1)] assms(3-5) by simp
next
  case False
  then show ?thesis
    using aligned_disjoint [OF assms(1,2)] slot_in_page [OF assms(1,3)] slot_in_page [OF assms(2,4)] by blast
qed

lemma fields_in_page:
  assumes "unat (p :: u32) mod 4096 = 0"
  shows "span p 4 \<subseteq> span p 4096" "span (p + 4) 4 \<subseteq> span p 4096" "span p 4 \<inter> span (p + 4) 4 = {}"
    "span (p + 4) 4 \<inter> span p 4 = {}"
  using slot_in_page [OF assms, of 0] slot_in_page [OF assms, of 1] slot_disjoint [OF assms assms, of 0 1] by auto

lemma distinct_fields:
  assumes "unat (p :: u32) mod 4096 = 0" "unat (q :: u32) mod 4096 = 0" "p \<noteq> q"
  shows "span p 4 \<inter> span (q + 4) 4 = {}" "span (p + 4) 4 \<inter> span (q + 4) 4 = {}" "span p 4096 \<inter> span (q + 4) 4 = {}"
  using aligned_disjoint [OF assms] fields_in_page [OF assms(1)] fields_in_page [OF assms(2)] by blast+

end
