(* ===== verification/CMemory.thy ===== *)
theory CMemory
  imports Prelude
begin

text \<open>
  \<^verbatim>\<open>src/memory/memory.c\<close>: the three byte-block routines of the kernel, on the byte-addressed
  memory. \<^verbatim>\<open>memset\<close> and \<^verbatim>\<open>memcpy\<close> return their first argument, which the model leaves out;
  their result is the memory. Each loop counts the remaining iterations down.
\<close>

section \<open>Byte blocks\<close>

primrec bytes :: "mem \<Rightarrow> u32 \<Rightarrow> nat \<Rightarrow> u8 list" where
  "bytes m p 0 = []"
| "bytes m p (Suc n) = m p # bytes m (p + 1) n"

lemma length_bytes [simp]: "length (bytes m p n) = n"
  by (induction n arbitrary: p) auto

lemma nth_bytes [simp]: "i < n \<Longrightarrow> bytes m p n ! i = m (p + word_of_nat i)"
  by (induction n arbitrary: p i) (auto simp: nth_Cons' add.assoc of_nat_diff gr0_conv_Suc)

lemma bytes_eq_iff: "bytes m p n = bytes m' q n \<longleftrightarrow> (\<forall>i < n. m (p + word_of_nat i) = m' (q + word_of_nat i))"
  by (simp add: list_eq_iff_nth_eq)

lemma bytes_agree:
  assumes "agree_off S m m'" "span p n \<inter> S = {}" "n \<le> 4294967296"
  shows "bytes m' p n = bytes m p n"
  unfolding bytes_eq_iff
proof (intro allI impI)
  fix i assume "i < n"
  then have "p + word_of_nat i \<in> span p n" using assms(3) by (intro span_add_in) auto
  then show "m' (p + word_of_nat i) = m (p + word_of_nat i)"
    using assms by (intro agree_offD) auto
qed

lemma bytes_Suc_snoc: "bytes m p (Suc n) = bytes m p n @ [m (p + word_of_nat n)]"
  by (rule nth_equalityI) (auto simp: nth_append less_Suc_eq simp del: bytes.simps)

text \<open>Storing a list of bytes, as a callee does that fills a buffer from its start.\<close>

primrec store_bytes :: "mem \<Rightarrow> u32 \<Rightarrow> u8 list \<Rightarrow> mem" where
  "store_bytes m p [] = m"
| "store_bytes m p (b # bs) = store_bytes (m(p := b)) (p + 1) bs"

section \<open>memset\<close>

fun memset_loop :: "mem \<Rightarrow> u32 \<Rightarrow> u8 \<Rightarrow> nat \<Rightarrow> nat \<Rightarrow> mem" where
  "memset_loop m c_ptr c i 0 = m"
| "memset_loop m c_ptr c i (Suc n) =
     memset_loop (m(c_ptr + word_of_nat i := c)) c_ptr c (Suc i) n"

definition memset :: "mem \<Rightarrow> u32 \<Rightarrow> int \<Rightarrow> u32 \<Rightarrow> mem" where
  "memset m ptr c sz = memset_loop m ptr (word_of_int c) 0 (unat sz)"

lemma memset_loop_apply:
  "i + n \<le> 4294967296 \<Longrightarrow> memset_loop m p c i n x =
     (if i \<le> unat (x - p) \<and> unat (x - p) < i + n then c else m x)"
proof (induction n arbitrary: m i)
  case 0
  then show ?case by auto
next
  case (Suc n)
  have "x = p + word_of_nat i \<longleftrightarrow> unat (x - p) = i"
  proof
    assume "unat (x - p) = i"
    then have "word_of_nat i = x - p" by auto
    then show "x = p + word_of_nat i" by simp
  qed (use Suc.prems in \<open>simp add: unat_of_nat\<close>)
  then show ?case using Suc by auto
qed

lemma memset_apply: "memset m p c n x = (if x \<in> span p (unat n) then word_of_int c else m x)"
  using memset_loop_apply [of 0 "unat n" m p "word_of_int c" x] unat_le_max32 [of n]
  by (simp add: memset_def span_def)

lemma memset_agree: "agree_off (span p (unat n)) m (memset m p c n)"
  by (simp add: agree_off_def memset_apply)

section \<open>memcmp\<close>

fun memcmp_loop :: "mem \<Rightarrow> u32 \<Rightarrow> u32 \<Rightarrow> nat \<Rightarrow> int" where
  "memcmp_loop m c1 c2 0 = 0"
| "memcmp_loop m c1 c2 (Suc count) =
     (if m c1 \<noteq> m c2 then (if sint (m c1) < sint (m c2) then -1 else 1)
      else memcmp_loop m (c1 + 1) (c2 + 1) count)"

definition memcmp :: "mem \<Rightarrow> u32 \<Rightarrow> u32 \<Rightarrow> int \<Rightarrow> int" where
  "memcmp m s1 s2 count = memcmp_loop m s1 s2 (nat count)"

lemma memcmp_loop_0_iff: "memcmp_loop m s1 s2 n = 0 \<longleftrightarrow> bytes m s1 n = bytes m s2 n"
  by (induction n arbitrary: s1 s2) auto

lemma memcmp_0_iff: "memcmp m s1 s2 n = 0 \<longleftrightarrow> bytes m s1 (nat n) = bytes m s2 (nat n)"
  by (simp add: memcmp_def memcmp_loop_0_iff)

text \<open>The same comparison where the second operand is a constant of the program, given by its bytes.\<close>

fun memcmp_lit :: "mem \<Rightarrow> u32 \<Rightarrow> u8 list \<Rightarrow> int" where
  "memcmp_lit m s1 [] = 0"
| "memcmp_lit m s1 (c # cs) =
     (if m s1 \<noteq> c then (if sint (m s1) < sint c then -1 else 1) else memcmp_lit m (s1 + 1) cs)"

lemma memcmp_lit_loop: "bytes m s2 (length cs) = cs \<Longrightarrow> memcmp_loop m s1 s2 (length cs) = memcmp_lit m s1 cs"
  by (induction cs arbitrary: s1 s2) auto

lemma memcmp_lit_eq: "bytes m s2 (length cs) = cs \<Longrightarrow> memcmp m s1 s2 (int (length cs)) = memcmp_lit m s1 cs"
  by (simp add: memcmp_def memcmp_lit_loop)

lemma memcmp_lit_0_iff: "memcmp_lit m s1 cs = 0 \<longleftrightarrow> bytes m s1 (length cs) = cs"
  by (induction cs arbitrary: s1) auto

section \<open>memcpy\<close>

text \<open>\<^verbatim>\<open>while (len--)\<close> runs once for each unit of \<open>len\<close> read as an unsigned word: a negative
  length is not rejected, it is a copy of almost four gigabytes.\<close>

fun memcpy_loop :: "mem \<Rightarrow> u32 \<Rightarrow> u32 \<Rightarrow> nat \<Rightarrow> mem" where
  "memcpy_loop m d s 0 = m"
| "memcpy_loop m d s (Suc len) = memcpy_loop (m(d := m s)) (d + 1) (s + 1) len"

definition memcpy :: "mem \<Rightarrow> u32 \<Rightarrow> u32 \<Rightarrow> int \<Rightarrow> mem" where
  "memcpy m dest src len = memcpy_loop m dest src (unat (word_of_int len :: u32))"

lemma span_Suc: "n < 4294967296 \<Longrightarrow> span p (Suc n) = insert p (span (p + 1) n)"
proof (rule set_eqI)
  fix x assume n: "n < 4294967296"
  show "x \<in> span p (Suc n) \<longleftrightarrow> x \<in> insert p (span (p + 1) n)"
  proof (cases "x = p")
    case False
    then have "unat (x - p) = Suc (unat (x - p - 1))"
      using unat_minus_one [of "x - p"] by (simp add: unat_gt_0)
    with False show ?thesis by (simp add: span_def diff_diff_eq)
  qed simp
qed

lemma memcpy_loop_agree: "n \<le> 4294967296 \<Longrightarrow> agree_off (span d n) m (memcpy_loop m d s n)"
proof (induction n arbitrary: m d s)
  case (Suc n)
  then have "agree_off (span (d + 1) n) (m(d := m s)) (memcpy_loop (m(d := m s)) (d + 1) (s + 1) n)"
    by simp
  then show ?case using Suc.prems by (auto simp: agree_off_def span_Suc)
qed simp

lemma memcpy_loop_bytes:
  "n \<le> 4294967296 \<Longrightarrow> span d n \<inter> span s n = {} \<Longrightarrow>
     bytes (memcpy_loop m d s n) d n = bytes m s n"
proof (induction n arbitrary: m d s)
  case (Suc n)
  let ?m = "m(d := m s)"
  have sp: "span d (Suc n) = insert d (span (d + 1) n)" "span s (Suc n) = insert s (span (s + 1) n)"
    using Suc.prems by (simp_all add: span_Suc)
  have e: "d - (d + 1) = 4294967295" by simp
  have d: "d \<notin> span (d + 1) n"
    using Suc.prems(1) unfolding span_def mem_Collect_eq e by simp
  have "bytes (memcpy_loop ?m (d + 1) (s + 1) n) (d + 1) n = bytes ?m (s + 1) n"
    using Suc.prems sp by (intro Suc.IH) auto
  also have "\<dots> = bytes m (s + 1) n"
    by (rule bytes_agree [of "{d}"]) (use Suc.prems sp in \<open>auto simp: agree_off_def\<close>)
  finally show ?case
    using memcpy_loop_agree [of n "d + 1" ?m "s + 1"] Suc.prems d by (simp add: agree_off_def)
qed simp

lemma not_in_span_next: "n < 4294967296 \<Longrightarrow> p \<notin> span (p + 1) n"
proof -
  assume n: "n < 4294967296"
  have e: "p - (p + 1) = 4294967295" by simp
  show ?thesis using n unfolding span_def mem_Collect_eq e by simp
qed

lemma word_offset_in: "(k :: u32) = word_of_nat i \<Longrightarrow> i + l \<le> n \<Longrightarrow> n < 4294967296 \<Longrightarrow> span (p + k) l \<subseteq> span p n"
proof -
  assume a: "k = word_of_nat i" "i + l \<le> n" "n < 4294967296"
  have "span (p + word_of_nat i) (n - i) \<subseteq> span p n" by (rule span_offset) (use a in simp_all)
  moreover have "span (p + word_of_nat i) l \<subseteq> span (p + word_of_nat i) (n - i)" by (rule span_mono) (use a in simp)
  ultimately show "span (p + k) l \<subseteq> span p n" unfolding a(1) by blast
qed

section \<open>Stored bytes\<close>

lemma store_bytes_agree: "length bs \<le> 4294967296 \<Longrightarrow> agree_off (span p (length bs)) m (store_bytes m p bs)"
proof (induction bs arbitrary: m p)
  case (Cons b bs)
  then have "agree_off (span (p + 1) (length bs)) (m(p := b)) (store_bytes (m(p := b)) (p + 1) bs)" by simp
  then show ?case using Cons.prems span_Suc [of "length bs" p] by (auto simp: agree_off_def)
qed simp

lemma bytes_store_bytes: "length bs \<le> 4294967296 \<Longrightarrow> bytes (store_bytes m p bs) p (length bs) = bs"
proof (induction bs arbitrary: m p)
  case (Cons b bs)
  have l: "length bs < 4294967296" "length bs \<le> 4294967296" using Cons.prems by simp_all
  have "store_bytes (m(p := b)) (p + 1) bs p = b"
    using agree_offD [OF store_bytes_agree [OF l(2)] not_in_span_next [OF l(1)]] by simp
  then show ?case using Cons.IH [OF l(2)] by simp
qed simp

lemma store_bytes_append: "store_bytes m p (xs @ ys) = store_bytes (store_bytes m p xs) (p + word_of_nat (length xs)) ys"
  by (induction xs arbitrary: m p) (simp_all add: add.assoc)

lemma store_bytes_write32:
  "length bs \<le> 4294967296 \<Longrightarrow> span a 4 \<inter> span p (length bs) = {} \<Longrightarrow>
   store_bytes (write32 m a v) p bs = write32 (store_bytes m p bs) a v"
proof (induction bs arbitrary: m p)
  case (Cons b bs)
  have sp: "span p (Suc (length bs)) = insert p (span (p + 1) (length bs))" using Cons.prems(1) by (intro span_Suc) simp
  then have "p \<notin> span a 4" "span a 4 \<inter> span (p + 1) (length bs) = {}" using Cons.prems(2) by auto
  moreover from this(1) have "(write32 m a v)(p := b) = write32 (m(p := b)) a v"
    by (auto simp: write32_def fun_eq_iff span4_cases)
  ultimately show ?case using Cons.IH [of "p + 1" "m(p := b)"] Cons.prems(1) by (simp del: fun_upd_apply)
qed simp

end
