(* ===== verification/Heap.thy ===== *)
theory Heap
  imports CMemory
begin

text \<open>
  \<^verbatim>\<open>src/memory/heap/heap.c\<close>: the block allocator. A heap is a pool of 4096-byte blocks from
  \<open>hp_saddr\<close> on and a table in memory with one byte per block. The table is read and written
  through memory, so that an index outside it is the access the code would make. The second half
  relates the table to an allocation map (first block to number of blocks).
\<close>

record heap_table =
  ht_entries :: u32
  ht_total :: u32

record heap =
  hp_table :: heap_table
  hp_saddr :: u32

abbreviation (input) PEACHOS_HEAP_BLOCK_SIZE :: "'a :: numeral" where "PEACHOS_HEAP_BLOCK_SIZE \<equiv> 4096"
abbreviation (input) HEAP_BLOCK_TABLE_ENTRY_TAKEN :: u8 where "HEAP_BLOCK_TABLE_ENTRY_TAKEN \<equiv> 0x01"
abbreviation (input) HEAP_BLOCK_TABLE_ENTRY_FREE :: u8 where "HEAP_BLOCK_TABLE_ENTRY_FREE \<equiv> 0x00"
abbreviation (input) HEAP_BLOCK_HAS_NEXT :: u8 where "HEAP_BLOCK_HAS_NEXT \<equiv> 0x80"
abbreviation (input) HEAP_BLOCK_IS_FIRST :: u8 where "HEAP_BLOCK_IS_FIRST \<equiv> 0x40"

section \<open>Operations\<close>

definition heap_validate_table :: "u32 \<Rightarrow> u32 \<Rightarrow> heap_table \<Rightarrow> int" where
  "heap_validate_table ptr en tbl =
     (let table_size = en - ptr; total_blocks = table_size div PEACHOS_HEAP_BLOCK_SIZE in
      if ht_total tbl \<noteq> total_blocks then - EINVARG else 0)"

definition heap_validate_alignment :: "u32 \<Rightarrow> bool" where
  "heap_validate_alignment ptr \<longleftrightarrow> ptr mod PEACHOS_HEAP_BLOCK_SIZE = 0"

definition heap_create :: "mem \<Rightarrow> heap \<Rightarrow> u32 \<Rightarrow> u32 \<Rightarrow> heap_table \<Rightarrow> int \<times> heap \<times> mem" where
  "heap_create m hp ptr en tbl =
     (if \<not> heap_validate_alignment ptr \<or> \<not> heap_validate_alignment en then (- EINVARG, hp, m)
      else let hp' = \<lparr>hp_table = tbl, hp_saddr = ptr\<rparr>; res = heap_validate_table ptr en tbl in
        if res < 0 then (res, hp', m)
        else let table_size = 1 * ht_total tbl in
          (res, hp', memset m (ht_entries tbl) (uint HEAP_BLOCK_TABLE_ENTRY_FREE) table_size))"

definition heap_align_value_to_upper :: "u32 \<Rightarrow> u32" where
  "heap_align_value_to_upper val =
     (if val mod PEACHOS_HEAP_BLOCK_SIZE = 0 then val
      else val - val mod PEACHOS_HEAP_BLOCK_SIZE + PEACHOS_HEAP_BLOCK_SIZE)"

definition heap_get_entry_type :: "u8 \<Rightarrow> u8" where
  "heap_get_entry_type entry = entry AND 0x0f"

text \<open>The loop of \<^verbatim>\<open>heap_get_start_block\<close>, at table index \<open>i\<close> with \<open>n\<close> entries left.\<close>

fun heap_scan :: "mem \<Rightarrow> u32 \<Rightarrow> u32 \<Rightarrow> nat \<Rightarrow> nat \<Rightarrow> int \<Rightarrow> int \<Rightarrow> int" where
  "heap_scan m entries total_blocks i 0 bc bs = bs"
| "heap_scan m entries total_blocks i (Suc n) bc bs =
     (if heap_get_entry_type (m (entries + word_of_nat i)) \<noteq> HEAP_BLOCK_TABLE_ENTRY_FREE
      then heap_scan m entries total_blocks (Suc i) n 0 (-1)
      else let bs' = (if bs = -1 then sint (word_of_nat i :: u32) else bs); bc' = bc + 1 in
        if word_of_int bc' = total_blocks then bs'
        else heap_scan m entries total_blocks (Suc i) n bc' bs')"

definition heap_get_start_block :: "mem \<Rightarrow> heap \<Rightarrow> u32 \<Rightarrow> int" where
  "heap_get_start_block m hp total_blocks =
     (let bs = heap_scan m (ht_entries (hp_table hp)) total_blocks 0 (unat (ht_total (hp_table hp))) 0 (-1)
      in if bs = -1 then - ENOMEM else bs)"

definition heap_block_to_address :: "heap \<Rightarrow> int \<Rightarrow> u32" where
  "heap_block_to_address hp block = hp_saddr hp + word_of_int (block * PEACHOS_HEAP_BLOCK_SIZE)"

fun heap_mark_taken_loop :: "mem \<Rightarrow> u32 \<Rightarrow> int \<Rightarrow> int \<Rightarrow> u8 \<Rightarrow> nat \<Rightarrow> mem" where
  "heap_mark_taken_loop m entries i end_block entry 0 = m"
| "heap_mark_taken_loop m entries i end_block entry (Suc n) =
     heap_mark_taken_loop (m(entries + word_of_int i := entry)) entries (i + 1) end_block
       (if i \<noteq> end_block - 1 then HEAP_BLOCK_TABLE_ENTRY_TAKEN OR HEAP_BLOCK_HAS_NEXT
        else HEAP_BLOCK_TABLE_ENTRY_TAKEN) n"

definition heap_mark_blocks_taken :: "mem \<Rightarrow> heap \<Rightarrow> int \<Rightarrow> int \<Rightarrow> mem" where
  "heap_mark_blocks_taken m hp start_block total_blocks =
     (let end_block = start_block + total_blocks - 1;
          entry = HEAP_BLOCK_TABLE_ENTRY_TAKEN OR HEAP_BLOCK_IS_FIRST;
          entry' = (if total_blocks > 1 then entry OR HEAP_BLOCK_HAS_NEXT else entry)
      in heap_mark_taken_loop m (ht_entries (hp_table hp)) start_block end_block entry'
           (nat (end_block - start_block + 1)))"

definition heap_malloc_blocks :: "mem \<Rightarrow> heap \<Rightarrow> u32 \<Rightarrow> u32 \<times> mem" where
  "heap_malloc_blocks m hp total_blocks =
     (let start_block = heap_get_start_block m hp total_blocks in
      if start_block < 0 then (0, m)
      else (heap_block_to_address hp start_block,
            heap_mark_blocks_taken m hp start_block (sint total_blocks)))"

fun heap_mark_free_loop :: "mem \<Rightarrow> u32 \<Rightarrow> int \<Rightarrow> nat \<Rightarrow> mem" where
  "heap_mark_free_loop m entries i 0 = m"
| "heap_mark_free_loop m entries i (Suc n) =
     (let entry = m (entries + word_of_int i);
          m' = m(entries + word_of_int i := HEAP_BLOCK_TABLE_ENTRY_FREE)
      in if entry AND HEAP_BLOCK_HAS_NEXT = 0 then m'
         else heap_mark_free_loop m' entries (i + 1) n)"

definition heap_mark_blocks_free :: "mem \<Rightarrow> heap \<Rightarrow> int \<Rightarrow> mem" where
  "heap_mark_blocks_free m hp starting_block =
     heap_mark_free_loop m (ht_entries (hp_table hp)) starting_block
       (nat (sint (ht_total (hp_table hp)) - starting_block))"

definition heap_address_to_block :: "heap \<Rightarrow> u32 \<Rightarrow> int" where
  "heap_address_to_block hp address = sint (address - hp_saddr hp) sdiv PEACHOS_HEAP_BLOCK_SIZE"

definition heap_malloc :: "mem \<Rightarrow> heap \<Rightarrow> u32 \<Rightarrow> u32 \<times> mem" where
  "heap_malloc m hp sz =
     (let aligned_size = heap_align_value_to_upper sz;
          total_blocks = aligned_size div PEACHOS_HEAP_BLOCK_SIZE
      in heap_malloc_blocks m hp total_blocks)"

definition heap_free :: "mem \<Rightarrow> heap \<Rightarrow> u32 \<Rightarrow> mem" where
  "heap_free m hp ptr = heap_mark_blocks_free m hp (heap_address_to_block hp ptr)"

section \<open>The search for a start block\<close>

text \<open>\<open>block_free m hp i\<close>: entry \<open>i\<close> is free; \<open>run_free\<close>: so are the \<open>n\<close> entries from \<open>j\<close> on.\<close>

definition block_free :: "mem \<Rightarrow> heap \<Rightarrow> nat \<Rightarrow> bool" where
  "block_free m hp i \<longleftrightarrow>
     heap_get_entry_type (m (ht_entries (hp_table hp) + word_of_nat i)) = HEAP_BLOCK_TABLE_ENTRY_FREE"

definition run_free :: "mem \<Rightarrow> heap \<Rightarrow> nat \<Rightarrow> nat \<Rightarrow> bool" where
  "run_free m hp j n \<longleftrightarrow> (\<forall>k < n. block_free m hp (j + k))"

abbreviation (input) num_blocks :: "heap \<Rightarrow> nat" where
  "num_blocks hp \<equiv> unat (ht_total (hp_table hp))"

text \<open>\<open>fits m hp n j\<close>: a run of \<open>n\<close> free blocks starts at \<open>j\<close> inside the table.\<close>

definition fits :: "mem \<Rightarrow> heap \<Rightarrow> nat \<Rightarrow> nat \<Rightarrow> bool" where
  "fits m hp n j \<longleftrightarrow> j + n \<le> num_blocks hp \<and> run_free m hp j n"

lemma sint_small: "i < 2147483648 \<Longrightarrow> sint (word_of_nat i :: u32) = int i"
  by (simp add: signed_of_nat signed_take_bit_int_eq_self)

lemma word_of_nat_eq_small:
  "k < 4294967296 \<Longrightarrow> word_of_nat k = (w :: u32) \<longleftrightarrow> k = unat w"
  by (auto simp: unat_of_nat)

text \<open>What the loop knows at index \<open>i\<close>: \<open>s\<close> starts the run of free blocks that ends before \<open>i\<close>
  (no run: \<open>s = i\<close>), that run is shorter than \<open>n\<close>, and no earlier run is long enough.\<close>

definition scan_inv :: "mem \<Rightarrow> heap \<Rightarrow> nat \<Rightarrow> nat \<Rightarrow> nat \<Rightarrow> bool" where
  "scan_inv m hp n i s \<longleftrightarrow> s \<le> i \<and> i - s < n \<and> run_free m hp s (i - s)
     \<and> (s = 0 \<or> \<not> block_free m hp (s - 1)) \<and> (\<forall>j. j + n \<le> i \<longrightarrow> \<not> run_free m hp j n)"

lemma run_free_Suc: "run_free m hp j (Suc n) \<longleftrightarrow> run_free m hp j n \<and> block_free m hp (j + n)"
  by (auto simp: run_free_def less_Suc_eq)

lemma run_free_D: "run_free m hp j n \<Longrightarrow> j \<le> k \<Longrightarrow> k < j + n \<Longrightarrow> block_free m hp k"
  unfolding run_free_def by (metis le_add_diff_inverse less_diff_conv2 add.commute)

text \<open>The outcome of the scan: the first run that fits; else the free run at the end of the
  table, short as it is; else -1.\<close>

definition scan_result :: "mem \<Rightarrow> heap \<Rightarrow> nat \<Rightarrow> int \<Rightarrow> bool" where
  "scan_result m hp n r \<longleftrightarrow>
     (\<exists>j. r = int j \<and> fits m hp n j \<and> (\<forall>j' < j. \<not> fits m hp n j'))
   \<or> ((\<forall>j. \<not> fits m hp n j) \<and>
      (\<exists>s < num_blocks hp. r = int s \<and> run_free m hp s (num_blocks hp - s) \<and>
          (s = 0 \<or> \<not> block_free m hp (s - 1))))
   \<or> ((\<forall>j. \<not> fits m hp n j) \<and> r = -1 \<and>
      (num_blocks hp = 0 \<or> \<not> block_free m hp (num_blocks hp - 1)))"

lemma scan_inv_step_taken:
  assumes "scan_inv m hp n i s" "\<not> block_free m hp i" "0 < n"
  shows "scan_inv m hp n (Suc i) (Suc i)"
proof -
  have "\<not> run_free m hp j n" if "j + n \<le> Suc i" for j
  proof (cases "j + n \<le> i")
    case True
    with assms show ?thesis by (simp add: scan_inv_def)
  next
    case False
    with that have "j + n = Suc i" by simp
    with assms(2,3) show ?thesis using run_free_D [of m hp j n i] by auto
  qed
  with assms show ?thesis by (simp add: scan_inv_def run_free_def)
qed

lemma scan_inv_step_free:
  assumes "scan_inv m hp n i s" "block_free m hp i" "Suc i - s < n"
  shows "scan_inv m hp n (Suc i) s"
proof -
  have s: "s \<le> i" "run_free m hp s (i - s)" using assms(1) by (auto simp: scan_inv_def)
  then have "run_free m hp s (Suc i - s)"
    using assms(2) by (simp add: Suc_diff_le run_free_Suc)
  moreover have "\<not> run_free m hp j n" if "j + n \<le> Suc i" for j
  proof (cases "j + n \<le> i")
    case True
    with assms show ?thesis by (simp add: scan_inv_def)
  next
    case False
    then have "j + n = Suc i" "j < s" using that assms(3) by auto
    moreover have "s \<noteq> 0 \<longrightarrow> \<not> block_free m hp (s - 1)"
      using assms(1) by (auto simp: scan_inv_def)
    moreover have "j \<le> s - 1" "s - 1 < j + n" "s \<noteq> 0" using calculation(1,2) s(1) by auto
    ultimately show ?thesis
      using run_free_D [of m hp j n "s - 1"] by blast
  qed
  ultimately show ?thesis using assms by (simp add: scan_inv_def)
qed

lemma scan_inv_found:
  assumes "scan_inv m hp n i s" "block_free m hp i" "Suc i - s = n" "Suc i \<le> num_blocks hp"
  shows "fits m hp n s" "\<forall>j' < s. \<not> fits m hp n j'"
proof -
  have s: "s \<le> i" "run_free m hp s (i - s)" using assms(1) by (auto simp: scan_inv_def)
  then have "run_free m hp s (Suc i - s)"
    using assms(2) by (simp add: Suc_diff_le run_free_Suc)
  then show "fits m hp n s" using assms(3,4) s(1) by (simp add: fits_def)
  show "\<forall>j' < s. \<not> fits m hp n j'"
    using assms(1,3) s(1) by (auto simp: scan_inv_def fits_def)
qed

lemma heap_scan_result:
  "scan_inv m hp (unat tb) i s \<Longrightarrow> 0 < unat tb \<Longrightarrow> i + n = num_blocks hp \<Longrightarrow>
     num_blocks hp < 2147483648 \<Longrightarrow>
     scan_result m hp (unat tb)
       (heap_scan m (ht_entries (hp_table hp)) tb i n (int (i - s)) (if s = i then -1 else int s))"
proof (induction n arbitrary: i s)
  case 0
  then have none: "\<forall>j. \<not> fits m hp (unat tb) j"
    by (simp add: scan_inv_def fits_def)
  show ?case
  proof (cases "s = i")
    case True
    with 0 none show ?thesis by (simp add: scan_result_def scan_inv_def)
  next
    case False
    with 0 none show ?thesis by (auto simp: scan_result_def scan_inv_def)
  qed
next
  case (Suc n)
  let ?e = "ht_entries (hp_table hp)"
  have le: "s \<le> i" "i - s < unat tb" using Suc.prems(1) by (auto simp: scan_inv_def)
  show ?case
  proof (cases "block_free m hp i")
    case False
    then have "scan_inv m hp (unat tb) (Suc i) (Suc i)"
      using scan_inv_step_taken Suc.prems(1,2) by blast
    from Suc.IH [OF this] False Suc.prems show ?thesis by (simp add: block_free_def)
  next
    case True
    then have step: "heap_scan m ?e tb i (Suc n) (int (i - s)) (if s = i then -1 else int s) =
        (if word_of_int (int (i - s) + 1) = tb then int s
         else heap_scan m ?e tb (Suc i) n (int (i - s) + 1) (int s))"
      using Suc.prems(3,4) by (simp add: block_free_def sint_small Let_def)
    have bc: "int (i - s) + 1 = int (Suc i - s)" using le by (simp add: Suc_diff_le)
    have cmp: "word_of_int (int (Suc i - s)) = tb \<longleftrightarrow> Suc i - s = unat tb"
      using word_of_nat_eq_small [of "Suc i - s" tb] Suc.prems(3,4)
      by (simp del: of_nat_diff)
    show ?thesis
    proof (cases "Suc i - s = unat tb")
      case True
      have "scan_result m hp (unat tb) (int s)"
        using scan_inv_found [OF Suc.prems(1) \<open>block_free m hp i\<close> True] Suc.prems(3)
        unfolding scan_result_def by auto
      then show ?thesis unfolding step bc using cmp True by simp
    next
      case False
      then have "scan_inv m hp (unat tb) (Suc i) s"
        using scan_inv_step_free [OF Suc.prems(1) \<open>block_free m hp i\<close>] le by simp
      from Suc.IH [OF this] Suc.prems(2-4) le(1)
      have "scan_result m hp (unat tb) (heap_scan m ?e tb (Suc i) n (int (Suc i - s)) (int s))"
        by (simp del: of_nat_diff)
      then show ?thesis unfolding step bc using cmp False by simp
    qed
  qed
qed

lemma heap_scan_start:
  "0 < unat tb \<Longrightarrow> num_blocks hp < 2147483648 \<Longrightarrow>
     scan_result m hp (unat tb) (heap_scan m (ht_entries (hp_table hp)) tb 0 (num_blocks hp) 0 (-1))"
  using heap_scan_result [of m hp tb 0 0 "num_blocks hp"] by (simp add: scan_inv_def run_free_def)

section \<open>Marking\<close>

text \<open>The table entry of the \<open>k\<close>-th block of an allocation of \<open>n\<close> blocks.\<close>

definition block_entry :: "nat \<Rightarrow> nat \<Rightarrow> u8" where
  "block_entry n k = HEAP_BLOCK_TABLE_ENTRY_TAKEN OR (if k = 0 then HEAP_BLOCK_IS_FIRST else 0)
     OR (if Suc k < n then HEAP_BLOCK_HAS_NEXT else 0)"

lemma block_entry_type [simp]: "heap_get_entry_type (block_entry n k) = 1"
  by (simp add: heap_get_entry_type_def block_entry_def)

lemma block_entry_has_next [simp]: "block_entry n k AND HEAP_BLOCK_HAS_NEXT = 0 \<longleftrightarrow> \<not> Suc k < n"
  by (simp add: block_entry_def)

lemma addr_index: "i < 4294967296 \<Longrightarrow> x = a + word_of_nat i \<longleftrightarrow> unat (x - a :: u32) = i"
proof
  assume "unat (x - a) = i"
  then have "word_of_nat i = x - a" by auto
  then show "x = a + word_of_nat i" by simp
qed (simp add: unat_of_nat)

lemma heap_mark_taken_loop_apply:
  "s \<le> i \<Longrightarrow> i + r = s + n \<Longrightarrow> s + n \<le> 4294967296 \<Longrightarrow> (0 < r \<longrightarrow> e = block_entry n (i - s)) \<Longrightarrow>
     heap_mark_taken_loop m a (int i) (int (s + n) - 1) e r x =
       (if i \<le> unat (x - a) \<and> unat (x - a) < s + n then block_entry n (unat (x - a) - s) else m x)"
proof (induction r arbitrary: m i e)
  case (Suc r)
  let ?e = "if int i \<noteq> int (s + n) - 1 - 1 then HEAP_BLOCK_TABLE_ENTRY_TAKEN OR HEAP_BLOCK_HAS_NEXT
            else HEAP_BLOCK_TABLE_ENTRY_TAKEN"
  have ent: "0 < r \<longrightarrow> ?e = block_entry n (Suc i - s)"
    using Suc.prems(1,2) by (auto simp: block_entry_def)
  have IH: "heap_mark_taken_loop (m(a + word_of_nat i := e)) a (int (Suc i)) (int (s + n) - 1) ?e r x =
      (if Suc i \<le> unat (x - a) \<and> unat (x - a) < s + n then block_entry n (unat (x - a) - s)
       else (m(a + word_of_nat i := e)) x)"
    using Suc.prems(1-3) by (intro Suc.IH ent) simp_all
  have step: "heap_mark_taken_loop m a (int i) (int (s + n) - 1) e (Suc r) x =
      heap_mark_taken_loop (m(a + word_of_nat i := e)) a (int (Suc i)) (int (s + n) - 1) ?e r x"
    by (simp only: heap_mark_taken_loop.simps of_int_of_nat_eq of_nat_Suc add.commute)
  have x: "x = a + word_of_nat i \<longleftrightarrow> unat (x - a) = i"
    using Suc.prems(2,3) by (intro addr_index) simp
  show ?case unfolding step IH using Suc.prems x by (cases "unat (x - a) = i") auto
qed auto

lemma heap_mark_blocks_taken_apply:
  assumes "0 < n" "s + n \<le> 4294967296"
  shows "heap_mark_blocks_taken m hp (int s) (int n) x =
     (let d = unat (x - ht_entries (hp_table hp)) in
      if s \<le> d \<and> d < s + n then block_entry n (d - s) else m x)"
proof -
  have e: "(if int n > 1 then (HEAP_BLOCK_TABLE_ENTRY_TAKEN OR HEAP_BLOCK_IS_FIRST) OR HEAP_BLOCK_HAS_NEXT
            else HEAP_BLOCK_TABLE_ENTRY_TAKEN OR HEAP_BLOCK_IS_FIRST) = block_entry n 0"
    using assms(1) by (auto simp: block_entry_def)
  have "heap_mark_blocks_taken m hp (int s) (int n) =
      heap_mark_taken_loop m (ht_entries (hp_table hp)) (int s) (int (s + n) - 1) (block_entry n 0) n"
    using assms(1) unfolding heap_mark_blocks_taken_def Let_def e by simp
  then show ?thesis
    using heap_mark_taken_loop_apply [of s s n n "block_entry n 0" m "ht_entries (hp_table hp)" x] assms
    by (simp add: Let_def)
qed

lemma heap_mark_free_loop_apply:
  "s \<le> i \<Longrightarrow> i < s + n \<Longrightarrow> s + n \<le> i + r \<Longrightarrow> s + n \<le> 4294967296 \<Longrightarrow>
     (\<forall>k. i \<le> k \<and> k < s + n \<longrightarrow> m (a + word_of_nat k) = block_entry n (k - s)) \<Longrightarrow>
     heap_mark_free_loop m a (int i) r x =
       (if i \<le> unat (x - a) \<and> unat (x - a) < s + n then HEAP_BLOCK_TABLE_ENTRY_FREE else m x)"
proof (induction r arbitrary: m i)
  case (Suc r)
  let ?m = "m(a + word_of_int (int i) := HEAP_BLOCK_TABLE_ENTRY_FREE)"
  have x: "x = a + word_of_nat i \<longleftrightarrow> unat (x - a) = i"
    using Suc.prems(2,4) by (intro addr_index) simp
  have at_i: "m (a + word_of_nat i) = block_entry n (i - s)" using Suc.prems(2,5) by simp
  show ?case
  proof (cases "Suc i < s + n")
    case False
    then have "\<not> Suc (i - s) < n" using Suc.prems(1) by simp
    then have "heap_mark_free_loop m a (int i) (Suc r) = ?m"
      using at_i by (simp add: Let_def)
    then show ?thesis using False Suc.prems(2) x by auto
  next
    case True
    have ne: "word_of_nat k \<noteq> (word_of_nat i :: u32)" if "Suc i \<le> k" "k < s + n" for k
      using that Suc.prems(4) by (simp add: word_of_nat_eq_iff take_bit_eq_mod)
    have "Suc (i - s) < n" using True Suc.prems(1) by simp
    then have "heap_mark_free_loop m a (int i) (Suc r) x = heap_mark_free_loop ?m a (int (Suc i)) r x"
      using at_i by (simp add: Let_def add.commute)
    also have "\<dots> = (if Suc i \<le> unat (x - a) \<and> unat (x - a) < s + n then 0 else ?m x)"
      using Suc.prems True ne by (intro Suc.IH) auto
    finally show ?thesis using x True by auto
  qed
qed auto

section \<open>The allocation map\<close>

text \<open>\<open>A s = Some n\<close>: an allocation of \<open>n\<close> blocks starts at block \<open>s\<close>. \<open>heap_repr\<close> says that the
  table is the table of such a map: disjoint runs with the entries the code writes, all other
  entries free. \<open>heap_ok\<close> is the geometry: table and pool do not overlap or wrap, and block
  offsets fit in the signed difference \<^verbatim>\<open>heap_address_to_block\<close> computes.\<close>

type_synonym alloc_map = "nat \<Rightarrow> nat option"

definition covered :: "alloc_map \<Rightarrow> nat \<Rightarrow> bool" where
  "covered A i \<longleftrightarrow> (\<exists>s n. A s = Some n \<and> s \<le> i \<and> i < s + n)"

lemma coveredI: "A s = Some n \<Longrightarrow> s \<le> i \<Longrightarrow> i < s + n \<Longrightarrow> covered A i"
  by (auto simp: covered_def)

abbreviation (input) entry_at :: "mem \<Rightarrow> heap \<Rightarrow> nat \<Rightarrow> u8" where
  "entry_at m hp i \<equiv> m (ht_entries (hp_table hp) + word_of_nat i)"

definition heap_repr :: "mem \<Rightarrow> heap \<Rightarrow> alloc_map \<Rightarrow> bool" where
  "heap_repr m hp A \<longleftrightarrow>
     (\<forall>s n. A s = Some n \<longrightarrow> 0 < n \<and> s + n \<le> num_blocks hp \<and>
        (\<forall>k < n. entry_at m hp (s + k) = block_entry n k)) \<and>
     (\<forall>s n s' n'. A s = Some n \<longrightarrow> A s' = Some n' \<longrightarrow> s \<noteq> s' \<longrightarrow> s + n \<le> s' \<or> s' + n' \<le> s) \<and>
     (\<forall>i < num_blocks hp. \<not> covered A i \<longrightarrow> entry_at m hp i = HEAP_BLOCK_TABLE_ENTRY_FREE)"

definition heap_ok :: "heap \<Rightarrow> bool" where
  "heap_ok hp \<longleftrightarrow> num_blocks hp \<le> 524288 \<and> hp_saddr hp \<noteq> 0 \<and>
     unat (hp_saddr hp) + num_blocks hp * 4096 \<le> 4294967296 \<and>
     unat (ht_entries (hp_table hp)) + num_blocks hp \<le> 4294967296 \<and>
     unat (hp_saddr hp) mod 4096 = 0 \<and>
     span (ht_entries (hp_table hp)) (num_blocks hp) \<inter> span (hp_saddr hp) (num_blocks hp * 4096) = {}"

definition table_region :: "heap \<Rightarrow> u32 set" where
  "table_region hp = span (ht_entries (hp_table hp)) (num_blocks hp)"

lemma heap_reprD:
  assumes "heap_repr m hp A" "A s = Some n"
  shows "0 < n" "s + n \<le> num_blocks hp" "\<And>k. k < n \<Longrightarrow> entry_at m hp (s + k) = block_entry n k"
  using assms by (auto simp: heap_repr_def)

lemma heap_repr_disjoint:
  "heap_repr m hp A \<Longrightarrow> A s = Some n \<Longrightarrow> A s' = Some n' \<Longrightarrow> s \<noteq> s' \<Longrightarrow> s + n \<le> s' \<or> s' + n' \<le> s"
  by (simp add: heap_repr_def)

lemma heap_repr_free_entry:
  "heap_repr m hp A \<Longrightarrow> i < num_blocks hp \<Longrightarrow> \<not> covered A i \<Longrightarrow>
     entry_at m hp i = HEAP_BLOCK_TABLE_ENTRY_FREE"
  by (simp add: heap_repr_def)

lemma block_free_iff:
  assumes "heap_repr m hp A" "i < num_blocks hp"
  shows "block_free m hp i \<longleftrightarrow> \<not> covered A i"
proof
  assume free: "block_free m hp i"
  show "\<not> covered A i"
  proof
    assume "covered A i"
    then obtain s n where sn: "A s = Some n" "s \<le> i" "i < s + n" by (auto simp: covered_def)
    have "entry_at m hp (s + (i - s)) = block_entry n (i - s)"
      using heap_reprD(3) [OF assms(1) sn(1), of "i - s"] sn(2,3) by simp
    then show False using free sn(2) by (simp add: block_free_def)
  qed
next
  assume "\<not> covered A i"
  then show "block_free m hp i"
    using heap_repr_free_entry [OF assms] by (simp add: block_free_def heap_get_entry_type_def)
qed

text \<open>A run of \<open>n\<close> blocks inside the table that no allocation touches.\<close>

definition hole :: "heap \<Rightarrow> alloc_map \<Rightarrow> nat \<Rightarrow> nat \<Rightarrow> bool" where
  "hole hp A n j \<longleftrightarrow> j + n \<le> num_blocks hp \<and> (\<forall>i. j \<le> i \<and> i < j + n \<longrightarrow> \<not> covered A i)"

lemma fits_iff_hole: "heap_repr m hp A \<Longrightarrow> fits m hp n j \<longleftrightarrow> hole hp A n j"
  unfolding fits_def hole_def run_free_def
  by (auto simp: block_free_iff) (metis add_lessD1 block_free_iff le_add_diff_inverse less_diff_conv2
      add.commute nat_add_left_cancel_less le_trans less_le_trans)

section \<open>Refinement: the operations on the allocation map\<close>

lemma heap_get_start_block_hole:
  assumes "heap_ok hp" "heap_repr m hp A" "0 < unat tb" "hole hp A (unat tb) j"
  shows "\<exists>s. heap_get_start_block m hp tb = int s \<and> hole hp A (unat tb) s
     \<and> (\<forall>j' < s. \<not> hole hp A (unat tb) j')"
proof -
  have "fits m hp (unat tb) j" using assms(2,4) by (simp add: fits_iff_hole)
  then have "\<not> (\<forall>j. \<not> fits m hp (unat tb) j)" by blast
  moreover have "num_blocks hp < 2147483648" using assms(1) by (simp add: heap_ok_def)
  ultimately show ?thesis
    using heap_scan_start [OF assms(3), of hp m] assms(2)
    unfolding scan_result_def heap_get_start_block_def by (auto simp: Let_def fits_iff_hole)
qed

definition block_addr :: "heap \<Rightarrow> nat \<Rightarrow> u32" where
  "block_addr hp s = hp_saddr hp + word_of_nat (s * 4096)"

lemma heap_block_to_address_nat: "heap_block_to_address hp (int s) = block_addr hp s"
  by (simp add: heap_block_to_address_def block_addr_def)

lemma block_address:
  assumes "heap_ok hp" "s \<le> num_blocks hp"
  shows "unat (block_addr hp s) =
     (if unat (hp_saddr hp) + s * 4096 < 4294967296 then unat (hp_saddr hp) + s * 4096 else 0)"
proof -
  have "s * 4096 < 4294967296" "unat (hp_saddr hp) + s * 4096 \<le> 4294967296"
    using assms by (auto simp: heap_ok_def)
  then show ?thesis by (auto simp: block_addr_def unat_word_ariths unat_of_nat)
qed

lemma heap_address_to_block_eq:
  assumes "heap_ok hp" "s < num_blocks hp"
  shows "heap_address_to_block hp (block_addr hp s) = int s"
proof -
  have "s * 4096 < 2147483648" using assms by (auto simp: heap_ok_def)
  then have "sint (word_of_nat (s * 4096) :: u32) = int (s * 4096)" by (rule sint_small)
  then show ?thesis by (simp add: block_addr_def heap_address_to_block_def signed_divide_int_def sgn_if)
qed

lemma in_table_region: "x \<in> table_region hp \<longleftrightarrow> unat (x - ht_entries (hp_table hp)) < num_blocks hp"
  by (simp add: table_region_def span_def)

lemma index_unat:
  "heap_ok hp \<Longrightarrow> i < num_blocks hp \<Longrightarrow> unat (ht_entries (hp_table hp) + word_of_nat i - ht_entries (hp_table hp)) = i"
  by (simp add: heap_ok_def unat_of_nat)

lemma sint_of_small_u32: "unat (w :: u32) < 2147483648 \<Longrightarrow> sint w = int (unat w)"
  using sint_small [of "unat w"] by simp

text \<open>What a successful search makes of the table.\<close>

definition mark_run :: "mem \<Rightarrow> heap \<Rightarrow> nat \<Rightarrow> nat \<Rightarrow> mem" where
  "mark_run m hp s n = (\<lambda>x. let d = unat (x - ht_entries (hp_table hp)) in
     if s \<le> d \<and> d < s + n then block_entry n (d - s) else m x)"

definition clear_run :: "mem \<Rightarrow> heap \<Rightarrow> nat \<Rightarrow> nat \<Rightarrow> mem" where
  "clear_run m hp s n = (\<lambda>x. let d = unat (x - ht_entries (hp_table hp)) in
     if s \<le> d \<and> d < s + n then HEAP_BLOCK_TABLE_ENTRY_FREE else m x)"

lemma heap_malloc_blocks_eq:
  assumes "heap_get_start_block m hp tb = int s" "0 < unat tb" "unat tb < 2147483648" "s < 2147483648"
  shows "heap_malloc_blocks m hp tb = (block_addr hp s, mark_run m hp s (unat tb))"
proof -
  have "sint tb = int (unat tb)" using assms(3) by (rule sint_of_small_u32)
  moreover have "heap_mark_blocks_taken m hp (int s) (int (unat tb)) = mark_run m hp s (unat tb)"
    by (rule ext, subst heap_mark_blocks_taken_apply) (use assms(2-4) in \<open>simp_all add: mark_run_def\<close>)
  ultimately show ?thesis
    using assms(1) by (simp add: heap_malloc_blocks_def heap_block_to_address_nat)
qed

lemma covered_upd: "covered (A(s \<mapsto> n)) i \<longleftrightarrow> (s \<le> i \<and> i < s + n) \<or> covered (A(s := None)) i"
  by (auto simp: covered_def split: if_splits)

lemma covered_mono: "covered (A(s := None)) i \<Longrightarrow> covered A i"
  by (auto simp: covered_def split: if_splits)

lemma hole_not_start: "hole hp A n s \<Longrightarrow> 0 < n \<Longrightarrow> heap_repr m hp A \<Longrightarrow> A s = None"
proof (rule ccontr)
  assume h: "hole hp A n s" "0 < n" "heap_repr m hp A" "A s \<noteq> None"
  then obtain n' where "A s = Some n'" by auto
  moreover have "0 < n'" using heap_reprD(1) [OF h(3)] \<open>A s = Some n'\<close> by blast
  ultimately have "covered A s" by (intro coveredI [of A s n']) auto
  with h(1,2) show False by (simp add: hole_def)
qed

lemma hole_disjoint:
  assumes "hole hp A n s" "heap_repr m hp A" "A s' = Some n'" "0 < n"
  shows "s + n \<le> s' \<or> s' + n' \<le> s"
proof (rule ccontr)
  assume c: "\<not> (s + n \<le> s' \<or> s' + n' \<le> s)"
  then have "covered A (max s s')"
    using heap_reprD(1) [OF assms(2,3)] assms(3,4) by (intro coveredI [of A s' n']) auto
  then show False
    using assms(1) c heap_reprD(1) [OF assms(2,3)] assms(4) by (auto simp: hole_def max_def split: if_splits)
qed

lemma heap_repr_mark_run:
  assumes "heap_ok hp" "heap_repr m hp A" "hole hp A n s" "0 < n"
  shows "heap_repr (mark_run m hp s n) hp (A(s \<mapsto> n))"
proof -
  let ?m = "mark_run m hp s n"
  have None: "A s = None" using hole_not_start assms by blast
  have bound: "s + n \<le> num_blocks hp" using assms(3) by (simp add: hole_def)
  have entry: "entry_at ?m hp i = (if s \<le> i \<and> i < s + n then block_entry n (i - s) else entry_at m hp i)"
    if "i < num_blocks hp" for i
    using index_unat [OF assms(1) that] by (simp add: mark_run_def Let_def)
  have old: "s + n \<le> s' \<or> s' + n' \<le> s" if "A s' = Some n'" for s' n'
    using hole_disjoint assms(2-4) that by blast
  have 1: "0 < n' \<and> s' + n' \<le> num_blocks hp \<and> (\<forall>k < n'. entry_at ?m hp (s' + k) = block_entry n' k)"
    if "(A(s \<mapsto> n)) s' = Some n'" for s' n'
  proof (cases "s' = s")
    case True
    have "entry_at ?m hp (s + k) = block_entry n k" if "k < n" for k
      using that bound by (subst entry) auto
    with True that assms(4) bound show ?thesis by simp
  next
    case False
    with that have A: "A s' = Some n'" by simp
    have "entry_at ?m hp (s' + k) = block_entry n' k" if "k < n'" for k
      using that old [OF A] heap_reprD(2,3) [OF assms(2) A] by (subst entry) auto
    then show ?thesis using heap_reprD [OF assms(2) A] by simp
  qed
  have 2: "a + k \<le> a' \<or> a' + k' \<le> a"
    if "(A(s \<mapsto> n)) a = Some k" "(A(s \<mapsto> n)) a' = Some k'" "a \<noteq> a'" for a k a' k'
    using that old heap_repr_disjoint [OF assms(2)] by (auto split: if_splits)
  have 3: "entry_at ?m hp i = HEAP_BLOCK_TABLE_ENTRY_FREE"
    if "i < num_blocks hp" "\<not> covered (A(s \<mapsto> n)) i" for i
    using that entry [OF that(1)] heap_repr_free_entry [OF assms(2) that(1)] None
    by (auto simp: covered_upd fun_upd_idem)
  show ?thesis unfolding heap_repr_def using 1 2 3 by blast
qed

lemma heap_repr_clear_run:
  assumes "heap_ok hp" "heap_repr m hp A" "A s = Some n"
  shows "heap_repr (clear_run m hp s n) hp (A(s := None))"
proof -
  let ?m = "clear_run m hp s n"
  note bound = heap_reprD(2) [OF assms(2,3)]
  have entry: "entry_at ?m hp i = (if s \<le> i \<and> i < s + n then 0 else entry_at m hp i)"
    if "i < num_blocks hp" for i
    using index_unat [OF assms(1) that] by (simp add: clear_run_def Let_def)
  have 1: "0 < n' \<and> s' + n' \<le> num_blocks hp \<and> (\<forall>k < n'. entry_at ?m hp (s' + k) = block_entry n' k)"
    if "(A(s := None)) s' = Some n'" for s' n'
  proof -
    have A: "A s' = Some n'" "s' \<noteq> s" using that by (auto split: if_splits)
    have "entry_at ?m hp (s' + k) = block_entry n' k" if "k < n'" for k
      using that heap_repr_disjoint [OF assms(2) A(1) assms(3) A(2)] heap_reprD(2,3) [OF assms(2) A(1)]
      by (subst entry) auto
    then show ?thesis using heap_reprD [OF assms(2) A(1)] by simp
  qed
  have 2: "a + k \<le> a' \<or> a' + k' \<le> a"
    if "(A(s := None)) a = Some k" "(A(s := None)) a' = Some k'" "a \<noteq> a'" for a k a' k'
    using that heap_repr_disjoint [OF assms(2)] by (auto split: if_splits)
  have 3: "entry_at ?m hp i = HEAP_BLOCK_TABLE_ENTRY_FREE"
    if i: "i < num_blocks hp" "\<not> covered (A(s := None)) i" for i
  proof (cases "s \<le> i \<and> i < s + n")
    case False
    then have "\<not> covered A i"
      using i(2) assms(3) covered_upd [of A s n i] by (simp add: fun_upd_idem)
    then show ?thesis using False entry [OF i(1)] heap_repr_free_entry [OF assms(2) i(1)] by simp
  qed (simp add: entry [OF i(1)])
  show ?thesis unfolding heap_repr_def using 1 2 3 by blast
qed

lemma heap_free_eq:
  assumes "heap_ok hp" "heap_repr m hp A" "A s = Some n"
  shows "heap_free m hp (block_addr hp s) = clear_run m hp s n"
proof
  fix x
  note r = heap_reprD [OF assms(2,3)]
  have N: "num_blocks hp \<le> 524288" using assms(1) by (simp add: heap_ok_def)
  have "s < num_blocks hp" using r(1,2) by simp
  then have b: "heap_address_to_block hp (block_addr hp s) = int s"
    using assms(1) by (rule heap_address_to_block_eq [rotated])
  have "\<forall>k. s \<le> k \<and> k < s + n \<longrightarrow> entry_at m hp k = block_entry n (k - s)"
    using r(3) by (metis le_add_diff_inverse less_diff_conv2 add.commute)
  then have "heap_mark_free_loop m (ht_entries (hp_table hp)) (int s) (num_blocks hp - s) x =
      clear_run m hp s n x"
    using heap_mark_free_loop_apply [of s s n "num_blocks hp - s" m "ht_entries (hp_table hp)" x] r(1,2) N
    by (simp add: clear_run_def Let_def)
  moreover have "nat (sint (ht_total (hp_table hp)) - int s) = num_blocks hp - s"
    using sint_of_small_u32 [of "ht_total (hp_table hp)"] N by (simp flip: of_nat_diff add: nat_diff_distrib')
  ultimately show "heap_free m hp (block_addr hp s) x = clear_run m hp s n x"
    by (simp add: heap_free_def heap_mark_blocks_free_def b)
qed

lemma mark_run_frame: "s + n \<le> num_blocks hp \<Longrightarrow> agree_off (table_region hp) m (mark_run m hp s n)"
  by (auto simp: agree_off_def in_table_region mark_run_def Let_def)

lemma clear_run_frame: "s + n \<le> num_blocks hp \<Longrightarrow> agree_off (table_region hp) m (clear_run m hp s n)"
  by (auto simp: agree_off_def in_table_region clear_run_def Let_def)

lemma clear_mark_run:
  assumes "heap_ok hp" "heap_repr m hp A" "hole hp A n s"
  shows "clear_run (mark_run m hp s n) hp s n = m"
proof
  fix x
  let ?d = "unat (x - ht_entries (hp_table hp))"
  show "clear_run (mark_run m hp s n) hp s n x = m x"
  proof (cases "s \<le> ?d \<and> ?d < s + n")
    case True
    then have "?d < num_blocks hp" "\<not> covered A ?d" using assms(3) by (auto simp: hole_def)
    then have "entry_at m hp ?d = 0" using heap_repr_free_entry [OF assms(2)] by blast
    then have "m x = 0" by simp
    then show ?thesis using True by (simp add: clear_run_def Let_def)
  next
    case False
    then show ?thesis unfolding clear_run_def mark_run_def Let_def by (simp only: if_False)
  qed
qed

section \<open>Requests in bytes\<close>

lemma unat_div_4096: "unat (w div 4096 :: u32) = unat w div 4096"
  by (simp add: unat_div)

lemma unat_mod_4096: "unat (w mod 4096 :: u32) = unat w mod 4096"
  by (simp add: unat_mod)

lemma round_up_4096: "(x :: nat) mod 4096 \<noteq> 0 \<Longrightarrow> (x + 4095) div 4096 = Suc (x div 4096)"
proof -
  assume "x mod 4096 \<noteq> 0"
  define q r where "q = x div 4096" and "r = x mod 4096"
  have x: "x = q * 4096 + r" and r: "0 < r" "r < 4096"
    using \<open>x mod 4096 \<noteq> 0\<close> by (simp_all add: q_def r_def)
  have "x + 4095 = (r - 1) + Suc q * 4096" using x r by simp
  then have "(x + 4095) div 4096 = (r - 1) div 4096 + Suc q" by (simp only: div_mult_self1)
  then show ?thesis using r by (simp add: q_def)
qed

lemma unat_align_upper:
  assumes "unat v \<le> 4294963200"
  shows "unat (heap_align_value_to_upper v) = (unat v + 4095) div 4096 * 4096"
proof (cases "unat v mod 4096 = 0")
  case True
  then have "v mod 4096 = 0" by (simp add: word_unat_eq_iff unat_mod_4096)
  then show ?thesis using True by (auto simp: heap_align_value_to_upper_def)
next
  case False
  then have ne: "v mod 4096 \<noteq> 0" by (simp add: word_unat_eq_iff unat_mod_4096)
  have "unat (v - v mod 4096) = unat v - unat v mod 4096"
    by (simp add: unat_diff_le unat_mod_4096)
  then have "unat (v - v mod 4096 + 4096) = unat v - unat v mod 4096 + 4096"
    using assms False by (simp add: unat_word_ariths)
  also have "\<dots> = (unat v + 4095) div 4096 * 4096"
    using False by (simp add: round_up_4096 minus_mod_eq_div_mult)
  finally show ?thesis using ne by (simp add: heap_align_value_to_upper_def)
qed

text \<open>The number of blocks a request of \<open>sz\<close> bytes asks for.\<close>

definition blocks_for :: "u32 \<Rightarrow> nat" where
  "blocks_for sz = unat (heap_align_value_to_upper sz div PEACHOS_HEAP_BLOCK_SIZE)"

lemma blocks_for_eq: "unat sz \<le> 4294963200 \<Longrightarrow> blocks_for sz = (unat sz + 4095) div 4096"
  by (simp add: blocks_for_def unat_div_4096 unat_align_upper)

lemma blocks_for_wrap: "4294963200 < unat sz \<Longrightarrow> blocks_for sz = 0"
proof -
  assume big: "4294963200 < unat sz"
  have lt: "unat sz < 4294967296" by (rule unat_le_max32)
  define r where "r = unat sz - 4294963200"
  have r: "unat sz = r + 1048575 * 4096" "r < 4096" using big lt by (simp_all add: r_def)
  have m: "unat sz mod 4096 = unat sz - 4294963200"
    using mod_mult_self1 [of r 1048575 4096] r by simp
  have "sz mod 4096 \<noteq> 0" using m big by (simp add: word_unat_eq_iff unat_mod_4096)
  moreover have "unat (sz - sz mod 4096) = 4294963200"
    using m big by (simp add: unat_diff_le unat_mod_4096)
  then have "sz - sz mod 4096 = 4294963200" by (simp add: word_unat_eq_iff)
  then have "sz - sz mod 4096 + 4096 = 0" by (simp only:) simp
  ultimately show ?thesis by (simp add: blocks_for_def heap_align_value_to_upper_def)
qed

lemma blocks_for_less: "blocks_for sz < 2147483648"
  using unat_le_max32 [of "heap_align_value_to_upper sz"] by (simp add: blocks_for_def unat_div_4096)

lemma heap_malloc_blocks_for:
  "heap_malloc m hp sz = heap_malloc_blocks m hp (word_of_nat (blocks_for sz))"
  by (simp add: heap_malloc_def blocks_for_def Let_def)

lemma unat_blocks_for: "unat (word_of_nat (blocks_for sz) :: u32) = blocks_for sz"
  using blocks_for_less [of sz] by (simp add: unat_of_nat)

section \<open>Properties\<close>

lemma heap_create_empty:
  assumes "ptr mod 4096 = 0" "en mod 4096 = 0" "ht_total tbl = (en - ptr) div 4096"
  shows "\<exists>m'. heap_create m hp ptr en tbl = (0, \<lparr>hp_table = tbl, hp_saddr = ptr\<rparr>, m') \<and>
     heap_repr m' \<lparr>hp_table = tbl, hp_saddr = ptr\<rparr> (\<lambda>_. None) \<and>
     agree_off (table_region \<lparr>hp_table = tbl, hp_saddr = ptr\<rparr>) m m'"
proof -
  let ?hp = "\<lparr>hp_table = tbl, hp_saddr = ptr\<rparr>" and ?m = "memset m (ht_entries tbl) 0 (ht_total tbl)"
  have "heap_create m hp ptr en tbl = (0, ?hp, ?m)"
    using assms by (simp add: heap_create_def heap_validate_alignment_def heap_validate_table_def)
  moreover have "heap_repr ?m ?hp (\<lambda>_. None)"
    using unat_le_max32 [of "ht_total tbl"] by (simp add: heap_repr_def memset_apply)
  moreover have "agree_off (table_region ?hp) m ?m"
    using memset_agree [of "ht_entries tbl" "ht_total tbl" m 0] by (simp add: table_region_def)
  ultimately show ?thesis by blast
qed

text \<open>\<^verbatim>\<open>heap_create\<close> on an aligned pool whose table has one entry per block succeeds, and what it
  leaves is the empty allocation map: all entries free, and no byte outside the table written.\<close>

theorem heap_create_spec:
  assumes "ptr mod 4096 = 0" "en mod 4096 = 0" "ht_total tbl = (en - ptr) div 4096"
  shows "\<exists>m'. heap_create m hp ptr en tbl = (0, \<lparr>hp_table = tbl, hp_saddr = ptr\<rparr>, m') \<and>
     heap_repr m' \<lparr>hp_table = tbl, hp_saddr = ptr\<rparr> (\<lambda>_. None) \<and>
     agree_off (table_region \<lparr>hp_table = tbl, hp_saddr = ptr\<rparr>) m m'"
  by (rule heap_create_empty [OF assms])

theorem heap_create_spec_witness:
  "\<exists>m'. heap_create (\<lambda>_. 7) \<lparr>hp_table = \<lparr>ht_entries = 0, ht_total = 0\<rparr>, hp_saddr = 0\<rparr> 8192 16384
     \<lparr>ht_entries = 256, ht_total = 2\<rparr>
     = (0, \<lparr>hp_table = \<lparr>ht_entries = 256, ht_total = 2\<rparr>, hp_saddr = 8192\<rparr>, m') \<and> m' 257 = 0"
proof -
  obtain m' where m': "heap_create (\<lambda>_. 7) \<lparr>hp_table = \<lparr>ht_entries = 0, ht_total = 0\<rparr>, hp_saddr = 0\<rparr> 8192 16384
     \<lparr>ht_entries = 256, ht_total = 2\<rparr>
     = (0, \<lparr>hp_table = \<lparr>ht_entries = 256, ht_total = 2\<rparr>, hp_saddr = 8192\<rparr>, m')"
     "heap_repr m' \<lparr>hp_table = \<lparr>ht_entries = 256, ht_total = 2\<rparr>, hp_saddr = 8192\<rparr> (\<lambda>_. None)"
    using heap_create_spec [of 8192 16384 "\<lparr>ht_entries = 256, ht_total = 2\<rparr>" "\<lambda>_. 7"
      "\<lparr>hp_table = \<lparr>ht_entries = 0, ht_total = 0\<rparr>, hp_saddr = 0\<rparr>"] by auto
  have "m' 257 = 0" using heap_repr_free_entry [OF m'(2), of 1] by (simp add: covered_def)
  with m'(1) show ?thesis by blast
qed

lemma heap_create_refuses:
  "\<not> (ptr mod 4096 = 0 \<and> en mod 4096 = 0) \<Longrightarrow> heap_create m hp ptr en tbl = (- EINVARG, hp, m)"
  by (simp add: heap_create_def heap_validate_alignment_def)

lemma heap_malloc_first_fit:
  assumes "heap_ok hp" "heap_repr m hp A" "sz \<noteq> 0" "unat sz \<le> 4294963200"
    and "hole hp A ((unat sz + 4095) div 4096) j"
  shows "\<exists>s m'. heap_malloc m hp sz = (block_addr hp s, m') \<and>
     hole hp A ((unat sz + 4095) div 4096) s \<and> (\<forall>i < s. \<not> hole hp A ((unat sz + 4095) div 4096) i) \<and>
     heap_repr m' hp (A(s \<mapsto> (unat sz + 4095) div 4096)) \<and> agree_off (table_region hp) m m'"
proof -
  let ?n = "(unat sz + 4095) div 4096" and ?tb = "word_of_nat (blocks_for sz) :: u32"
  have n: "blocks_for sz = ?n" "unat ?tb = ?n" "0 < ?n"
    using blocks_for_eq [OF assms(4)] unat_blocks_for [of sz] assms(3)
    by (auto simp: unat_gt_0 [symmetric] simp del: unat_gt_0)
  obtain s where s: "heap_get_start_block m hp ?tb = int s" "hole hp A ?n s"
      "\<forall>i < s. \<not> hole hp A ?n i"
    using heap_get_start_block_hole [OF assms(1,2), of ?tb j] n assms(5) by auto
  have "s < 2147483648" using s(2) assms(1) by (simp add: hole_def heap_ok_def)
  then have eq: "heap_malloc m hp sz = (block_addr hp s, mark_run m hp s ?n)"
    using heap_malloc_blocks_eq [OF s(1)] n blocks_for_less [of sz] by (simp add: heap_malloc_blocks_for)
  have "agree_off (table_region hp) m (mark_run m hp s ?n)"
    using s(2) by (intro mark_run_frame) (simp add: hole_def)
  with eq s heap_repr_mark_run [OF assms(1,2) s(2) n(3)] show ?thesis by blast
qed

text \<open>C9: Where the table has room, \<^verbatim>\<open>heap_malloc\<close> is first fit: it returns the address of the
  lowest run of free blocks that holds the request, rounded up to whole blocks; the new table is the
  table of the allocation map with that run added, which no earlier allocation touches; and nothing
  outside the table changes.\<close>

theorem heap_malloc_refines:
  assumes "heap_ok hp" "heap_repr m hp A" "sz \<noteq> 0" "unat sz \<le> 4294963200"
    and "hole hp A ((unat sz + 4095) div 4096) j"
  shows "\<exists>s m'. heap_malloc m hp sz = (block_addr hp s, m') \<and>
     hole hp A ((unat sz + 4095) div 4096) s \<and> (\<forall>i < s. \<not> hole hp A ((unat sz + 4095) div 4096) i) \<and>
     heap_repr m' hp (A(s \<mapsto> (unat sz + 4095) div 4096)) \<and> agree_off (table_region hp) m m'"
  by (rule heap_malloc_first_fit [OF assms])

text \<open>The heap of the examples: two blocks at 8192, the table at 256.\<close>

definition demo_heap :: heap where
  "demo_heap = \<lparr>hp_table = \<lparr>ht_entries = 256, ht_total = 2\<rparr>, hp_saddr = 8192\<rparr>"

lemma demo_heap_ok: "heap_ok demo_heap"
proof -
  have "span 256 2 \<inter> span 8192 (2 * 4096) = {}" by (intro span_disjoint) simp_all
  then show ?thesis by (simp add: heap_ok_def demo_heap_def)
qed

lemma demo_heap_repr: "heap_repr (\<lambda>_. 0) demo_heap (\<lambda>_. None)"
  by (simp add: heap_repr_def)

lemma demo_hole: "hole demo_heap (\<lambda>_. None) n 0 \<longleftrightarrow> n \<le> 2"
  by (simp add: hole_def covered_def demo_heap_def)

theorem heap_malloc_refines_witness:
  "\<exists>s m'. heap_malloc (\<lambda>_. 0) demo_heap 5000 = (block_addr demo_heap s, m') \<and>
     heap_repr m' demo_heap [s \<mapsto> 2]"
  using heap_malloc_refines [OF demo_heap_ok demo_heap_repr, of 5000 0] by (auto simp: demo_hole)

lemma heap_free_clears:
  assumes "heap_ok hp" "heap_repr m hp A" "A s = Some n"
  shows "heap_repr (heap_free m hp (block_addr hp s)) hp (A(s := None)) \<and>
     agree_off (table_region hp) m (heap_free m hp (block_addr hp s))"
  unfolding heap_free_eq [OF assms]
  using heap_repr_clear_run [OF assms] clear_run_frame heap_reprD(2) [OF assms(2,3)] by blast

text \<open>C10: \<^verbatim>\<open>heap_free\<close> of the address of an allocation takes exactly that allocation
  out of the map: its entries are free again, all others and all memory outside the table stay as they were.\<close>

theorem heap_free_refines:
  assumes "heap_ok hp" "heap_repr m hp A" "A s = Some n"
  shows "heap_repr (heap_free m hp (block_addr hp s)) hp (A(s := None)) \<and>
     agree_off (table_region hp) m (heap_free m hp (block_addr hp s))"
  by (rule heap_free_clears [OF assms])

theorem heap_free_refines_witness:
  "heap_repr (heap_free ((\<lambda>_. 0)(256 := 0xc1, 257 := 0x01)) demo_heap (block_addr demo_heap 0)) demo_heap (\<lambda>_. None)"
proof -
  have "heap_repr ((\<lambda>_. 0)(256 := 0xc1, 257 := 0x01)) demo_heap [0 \<mapsto> 2]"
    by (auto simp: heap_repr_def demo_heap_def covered_def block_entry_def less_2_cases_iff)
  from heap_free_refines [OF demo_heap_ok this, of 0 2] show ?thesis by simp
qed

text \<open>C36: For a request of at least one and at most \<open>2 ^ 32 - 4096\<close> bytes for which the table has
  room (a run of free blocks that is long enough), allocating and then freeing what was allocated gives back the
  memory there was before, byte for byte. Other requests are not covered: without room the marks may be written past
  the end of the table (\<open>heap_malloc_without_room\<close>), and a request for zero bytes reserves
  nothing.\<close>

theorem heap_malloc_free_roundtrip:
  assumes "heap_ok hp" "heap_repr m hp A" "sz \<noteq> 0" "unat sz \<le> 4294963200"
    and "hole hp A ((unat sz + 4095) div 4096) j" and "heap_malloc m hp sz = (p, m')"
  shows "heap_free m' hp p = m"
proof -
  let ?n = "(unat sz + 4095) div 4096" and ?tb = "word_of_nat (blocks_for sz) :: u32"
  have n: "blocks_for sz = ?n" "unat ?tb = ?n" "0 < ?n"
    using blocks_for_eq [OF assms(4)] unat_blocks_for [of sz] assms(3)
    by (auto simp: unat_gt_0 [symmetric] simp del: unat_gt_0)
  obtain s where s: "heap_get_start_block m hp ?tb = int s" "hole hp A ?n s"
    using heap_get_start_block_hole [OF assms(1,2), of ?tb j] n assms(5) by auto
  have "s < 2147483648" using s(2) assms(1) by (simp add: hole_def heap_ok_def)
  then have eq: "p = block_addr hp s" "m' = mark_run m hp s ?n"
    using heap_malloc_blocks_eq [OF s(1)] n blocks_for_less [of sz] assms(6)
    by (auto simp: heap_malloc_blocks_for)
  have "heap_free m' hp p = clear_run (mark_run m hp s ?n) hp s ?n"
    unfolding eq
    by (rule heap_free_eq [OF assms(1) heap_repr_mark_run [OF assms(1,2) s(2) n(3)]]) simp
  also have "\<dots> = m" by (rule clear_mark_run [OF assms(1,2) s(2)])
  finally show ?thesis .
qed

theorem heap_malloc_free_roundtrip_witness:
  "\<exists>p m'. heap_malloc (\<lambda>_. 0) demo_heap 5000 = (p, m') \<and> heap_free m' demo_heap p = (\<lambda>_. 0)"
proof -
  obtain p m' where r: "heap_malloc (\<lambda>_. 0) demo_heap 5000 = (p, m')" by force
  have "heap_free m' demo_heap p = (\<lambda>_. 0)"
    by (rule heap_malloc_free_roundtrip [OF demo_heap_ok demo_heap_repr _ _ _ r, of 0])
       (simp_all add: demo_hole)
  with r show ?thesis by blast
qed

lemma block_addr_nonzero: "heap_ok hp \<Longrightarrow> s < num_blocks hp \<Longrightarrow> block_addr hp s \<noteq> 0"
  using block_address [of hp s] by (auto simp: heap_ok_def word_unat_eq_iff split: if_splits)

text \<open>The search when no run fits.\<close>

lemma heap_get_start_block_no_hole:
  assumes "heap_ok hp" "heap_repr m hp A" "0 < unat tb" "\<forall>j. \<not> hole hp A (unat tb) j" "0 < num_blocks hp"
  shows "(covered A (num_blocks hp - 1) \<longrightarrow> heap_get_start_block m hp tb = - ENOMEM) \<and>
     (\<not> covered A (num_blocks hp - 1) \<longrightarrow>
        (\<exists>s < num_blocks hp. heap_get_start_block m hp tb = int s \<and> num_blocks hp < s + unat tb))"
proof -
  let ?N = "num_blocks hp"
  have last: "block_free m hp (?N - 1) \<longleftrightarrow> \<not> covered A (?N - 1)"
    using block_free_iff [OF assms(2)] assms(5) by simp
  have none: "\<not> fits m hp (unat tb) j" for j using assms(2,4) by (simp add: fits_iff_hole)
  have "?N < 2147483648" using assms(1) by (simp add: heap_ok_def)
  from heap_scan_start [OF assms(3) this, of m] none
  consider (tail) s where "s < ?N" "heap_scan m (ht_entries (hp_table hp)) tb 0 ?N 0 (-1) = int s"
      "run_free m hp s (?N - s)"
    | (full) "heap_scan m (ht_entries (hp_table hp)) tb 0 ?N 0 (-1) = -1" "\<not> block_free m hp (?N - 1)"
    using assms(5) unfolding scan_result_def by fastforce
  then show ?thesis
  proof cases
    case tail
    have "block_free m hp (?N - 1)" using run_free_D [OF tail(3), of "?N - 1"] tail(1) by auto
    moreover have "?N < s + unat tb"
    proof (rule ccontr)
      assume "\<not> ?N < s + unat tb"
      then have "fits m hp (unat tb) s" using tail(3) by (auto simp: fits_def run_free_def)
      with none show False by blast
    qed
    ultimately show ?thesis using tail last by (auto simp: heap_get_start_block_def)
  next
    case full
    then show ?thesis using last by (simp add: heap_get_start_block_def)
  qed
qed

text \<open>Where the table has no room for the request, \<^verbatim>\<open>heap_malloc\<close> answers NULL and changes
  nothing only if the last block is taken. If the last block is free, the search falls out of its
  loop with the free run at the end of the table, short as it is: a non-NULL address is returned for
  a run that is too small, and the marks are written on past the end of the table.\<close>

theorem heap_malloc_without_room:
  assumes "heap_ok hp" "heap_repr m hp A" "sz \<noteq> 0" "unat sz \<le> 4294963200" "0 < num_blocks hp"
    and "\<forall>j. \<not> hole hp A ((unat sz + 4095) div 4096) j"
  shows "(covered A (num_blocks hp - 1) \<longrightarrow> heap_malloc m hp sz = (0, m)) \<and>
     (\<not> covered A (num_blocks hp - 1) \<longrightarrow>
        (\<exists>s m'. heap_malloc m hp sz = (block_addr hp s, m') \<and> block_addr hp s \<noteq> 0 \<and>
           s < num_blocks hp \<and> num_blocks hp < s + (unat sz + 4095) div 4096 \<and>
           m' (ht_entries (hp_table hp) + ht_total (hp_table hp)) =
             block_entry ((unat sz + 4095) div 4096) (num_blocks hp - s)))"
proof -
  let ?N = "num_blocks hp" and ?n = "(unat sz + 4095) div 4096" and ?tb = "word_of_nat (blocks_for sz) :: u32"
  have n: "blocks_for sz = ?n" "unat ?tb = ?n" "0 < ?n"
    using blocks_for_eq [OF assms(4)] unat_blocks_for [of sz] assms(3)
    by (auto simp: unat_gt_0 [symmetric] simp del: unat_gt_0)
  note nh = heap_get_start_block_no_hole [OF assms(1,2), of ?tb, unfolded n(2), OF n(3) assms(6,5)]
  have "heap_malloc m hp sz = (0, m)" if "covered A (?N - 1)"
    using nh that by (simp add: heap_malloc_blocks_for heap_malloc_blocks_def)
  moreover have "\<exists>s m'. heap_malloc m hp sz = (block_addr hp s, m') \<and> block_addr hp s \<noteq> 0 \<and>
      s < ?N \<and> ?N < s + ?n \<and> m' (ht_entries (hp_table hp) + ht_total (hp_table hp)) = block_entry ?n (?N - s)"
    if "\<not> covered A (?N - 1)"
  proof -
    obtain s where s: "s < ?N" "heap_get_start_block m hp ?tb = int s" "?N < s + ?n"
      using nh \<open>\<not> covered A (?N - 1)\<close> by auto
    have "s < 2147483648" using s(1) assms(1) by (simp add: heap_ok_def)
    then have eq: "heap_malloc m hp sz = (block_addr hp s, mark_run m hp s ?n)"
      using heap_malloc_blocks_eq [OF s(2)] n blocks_for_less [of sz] by (simp add: heap_malloc_blocks_for)
    have "mark_run m hp s ?n (ht_entries (hp_table hp) + ht_total (hp_table hp)) = block_entry ?n (?N - s)"
      using s by (simp add: mark_run_def)
    with eq s block_addr_nonzero [OF assms(1) s(1)] show ?thesis by blast
  qed
  ultimately show ?thesis by blast
qed

theorem heap_malloc_without_room_witness:
  "\<exists>s m'. heap_malloc (\<lambda>_. 0) demo_heap 12288 = (block_addr demo_heap s, m') \<and> s < 2 \<and> m' 258 \<noteq> 0"
proof -
  have "\<not> covered (\<lambda>_. None) (num_blocks demo_heap - 1)" by (simp add: covered_def)
  moreover have "num_blocks demo_heap = 2" by (simp add: demo_heap_def)
  moreover have "\<forall>j. \<not> hole demo_heap (\<lambda>_. None) 3 j" by (simp add: hole_def demo_heap_def)
  ultimately obtain s m' where r: "heap_malloc (\<lambda>_. 0) demo_heap 12288 = (block_addr demo_heap s, m')"
    "s < 2" "m' (ht_entries (hp_table demo_heap) + ht_total (hp_table demo_heap)) = block_entry 3 (2 - s)"
    using heap_malloc_without_room [OF demo_heap_ok demo_heap_repr, of 12288] by auto
  have "block_entry 3 (2 - s) \<noteq> 0" by (auto simp: block_entry_def)
  with r show ?thesis by (intro exI [of _ s] exI [of _ m']) (simp add: demo_heap_def)
qed

lemma heap_scan_zero:
  "0 \<le> bc \<Longrightarrow> bc + int n < 4294967296 \<Longrightarrow> i + n < 2147483648 \<Longrightarrow> (bs = -1 \<or> (0 \<le> bs \<and> bs < int i)) \<Longrightarrow>
     (let r = heap_scan m e 0 i n bc bs in (r = -1 \<or> (0 \<le> r \<and> r < int (i + n))) \<and>
        (0 < n \<longrightarrow> (r \<noteq> -1 \<longleftrightarrow> heap_get_entry_type (m (e + word_of_nat (i + n - 1))) = 0)))"
proof (induction n arbitrary: i bc bs)
  case (Suc n)
  have no: "word_of_int (bc + 1) \<noteq> (0 :: u32)"
    using word_of_int_nat [of "bc + 1", where 'a = 32] word_of_nat_eq_small [of "nat (bc + 1)" 0] Suc.prems(1,2)
    by (simp del: of_int_add)
  show ?case
  proof (cases "heap_get_entry_type (m (e + word_of_nat i)) = 0")
    case True
    let ?bs = "if bs = -1 then int i else bs"
    have "heap_scan m e 0 i (Suc n) bc bs = heap_scan m e 0 (Suc i) n (bc + 1) ?bs"
      using True no Suc.prems(3) by (simp add: Let_def sint_small)
    moreover have "?bs \<noteq> -1" using Suc.prems(4) by auto
    ultimately show ?thesis
      using Suc.IH [of "bc + 1" "Suc i" ?bs] Suc.prems True by (cases n) (auto simp: Let_def)
  next
    case False
    then show ?thesis using Suc.IH [of 0 "Suc i" "-1"] Suc.prems by (cases n) (auto simp: Let_def)
  qed
qed (auto simp: Let_def)

text \<open>Where the last block is taken, a request for which there is no room, of zero bytes, or of more than
  \<open>2 ^ 32 - 4096\<close> bytes is refused.\<close>

lemma heap_malloc_refused:
  assumes "heap_ok hp" "heap_repr m hp A" "0 < num_blocks hp" "\<not> block_free m hp (num_blocks hp - 1)"
    and "sz = 0 \<or> 4294963200 < unat sz \<or> (\<forall>j. \<not> hole hp A ((unat sz + 4095) div 4096) j)"
  shows "heap_malloc m hp sz = (0, m)"
proof (cases "sz = 0 \<or> 4294963200 < unat sz")
  case True
  obtain N where N: "num_blocks hp = N" by blast
  have bound: "0 < N" "N \<le> 524288" using assms(1,3) by (simp_all add: heap_ok_def N)
  let ?r = "heap_scan m (ht_entries (hp_table hp)) 0 0 N 0 (-1)"
  have tb: "word_of_nat (blocks_for sz) = (0 :: u32)" using True blocks_for_wrap [of sz] blocks_for_eq [of sz] by auto
  have "?r = -1"
    using heap_scan_zero [of 0 N 0 "-1" m "ht_entries (hp_table hp)"] bound assms(4)
    by (simp add: Let_def block_free_def N)
  then show ?thesis by (simp add: heap_malloc_blocks_for tb heap_malloc_blocks_def heap_get_start_block_def N)
next
  case False
  have "covered A (num_blocks hp - 1)" using assms(3,4) block_free_iff [OF assms(2), of "num_blocks hp - 1"] by simp
  then show ?thesis using heap_malloc_without_room [OF assms(1,2) _ _ assms(3)] assms(5) False by auto
qed

text \<open>C39: A request of zero bytes, or of more than \<open>2 ^ 32 - 4096\<close> bytes (whose size wraps to zero
  when it is rounded up), reserves nothing: the table stays as it was, and yet the address of a free
  block is returned whenever the last block of the table is free. The next request may get that
  block again.\<close>

theorem heap_malloc_unreserved:
  assumes "heap_ok hp" "0 < num_blocks hp" "sz = 0 \<or> 4294963200 < unat sz"
  shows "\<exists>p. heap_malloc m hp sz = (p, m) \<and> (p \<noteq> 0 \<longleftrightarrow> block_free m hp (num_blocks hp - 1))"
proof -
  obtain N where N: "num_blocks hp = N" by blast
  have bound: "0 < N" "N \<le> 524288" using assms(1,2) by (simp_all add: heap_ok_def N)
  let ?r = "heap_scan m (ht_entries (hp_table hp)) 0 0 N 0 (-1)"
  have tb: "word_of_nat (blocks_for sz) = (0 :: u32)"
    using assms(3) blocks_for_wrap [of sz] blocks_for_eq [of sz] by auto
  have r: "?r = -1 \<or> (0 \<le> ?r \<and> ?r < int N)" "?r \<noteq> -1 \<longleftrightarrow> block_free m hp (num_blocks hp - 1)"
    using heap_scan_zero [of 0 N 0 "-1" m "ht_entries (hp_table hp)"] bound
    by (simp_all add: Let_def block_free_def N)
  show ?thesis
  proof (cases "?r = -1")
    case True
    with r show ?thesis
      by (simp add: heap_malloc_blocks_for tb heap_malloc_blocks_def heap_get_start_block_def N)
  next
    case False
    with r obtain s where s: "?r = int s" "s < N" by (metis nonneg_int_cases of_nat_less_iff)
    then have "heap_malloc m hp sz = (block_addr hp s, m)"
      by (simp add: heap_malloc_blocks_for tb heap_malloc_blocks_def heap_get_start_block_def
          heap_mark_blocks_taken_def heap_block_to_address_nat N)
    with r False block_addr_nonzero [OF assms(1), of s] s(2) show ?thesis by (simp add: N)
  qed
qed

theorem heap_malloc_unreserved_witness:
  "\<exists>p. p \<noteq> 0 \<and> heap_malloc (\<lambda>_. 0) demo_heap 0xfffff001 = (p, \<lambda>_. 0)"
  using heap_malloc_unreserved [OF demo_heap_ok, of "0xfffff001" "\<lambda>_. 0"]
  by (auto simp: block_free_def heap_get_entry_type_def demo_heap_def)

end
