(* ===== verification/CString.thy ===== *)
theory CString
  imports CMemory
begin

text \<open>
  \<^verbatim>\<open>src/string/string.c\<close>. A pointer into a string is an address; \<open>cstr m p s\<close> says that the
  NUL-terminated string \<open>s\<close> is stored at \<open>p\<close>. A loop that only a NUL byte stops is a
  \<^theory_text>\<open>partial_function\<close> (\<open>None\<close>: it does not return, or the \<^verbatim>\<open>int\<close> that counts overflows, which
  is undefined); a loop with a counter recurs on the iterations that are left.
\<close>

section \<open>NUL-terminated strings in memory\<close>

primrec cstr :: "mem \<Rightarrow> u32 \<Rightarrow> u8 list \<Rightarrow> bool" where
  "cstr m p [] \<longleftrightarrow> m p = 0"
| "cstr m p (c # s) \<longleftrightarrow> c \<noteq> 0 \<and> m p = c \<and> cstr m (p + 1) s"

text \<open>The bytes before the first NUL among the first \<open>n\<close>.\<close>

definition upto_nul :: "mem \<Rightarrow> u32 \<Rightarrow> nat \<Rightarrow> u8 list" where
  "upto_nul m p n = takeWhile (\<lambda>c. c \<noteq> 0) (bytes m p n)"

lemma cstr_nonzero: "cstr m p s \<Longrightarrow> 0 \<notin> set s"
  by (induction s arbitrary: p) auto

lemma cstr_iff:
  "cstr m p s \<longleftrightarrow> 0 \<notin> set s \<and> (\<forall>i < length s. m (p + word_of_nat i) = s ! i)
     \<and> m (p + word_of_nat (length s)) = 0"
proof (induction s arbitrary: p)
  case (Cons c s)
  have "(\<forall>i < Suc (length s). m (p + word_of_nat i) = (c # s) ! i) \<longleftrightarrow>
      m p = c \<and> (\<forall>i < length s. m (p + 1 + word_of_nat i) = s ! i)"
    by (auto simp: All_less_Suc2 add.assoc)
  then show ?case using Cons.IH [of "p + 1"] by (auto simp: add.assoc)
qed simp

lemma cstr_nth: "cstr m p s \<Longrightarrow> i < length s \<Longrightarrow> m (p + word_of_nat i) = s ! i"
  by (simp add: cstr_iff)

lemma cstr_end: "cstr m p s \<Longrightarrow> m (p + word_of_nat (length s)) = 0"
  by (simp add: cstr_iff)

lemma cstr_unique: "cstr m p s \<Longrightarrow> cstr m p t \<Longrightarrow> s = t"
proof (induction s arbitrary: p t)
  case Nil
  then show ?case by (cases t) auto
next
  case (Cons c s)
  then show ?case by (cases t) auto
qed

text \<open>A string with its terminator fits in the address space: past \<open>2 ^ 32\<close> bytes it would
  meet its own characters again instead of the NUL.\<close>

lemma cstr_length: "cstr m p s \<Longrightarrow> length s < 4294967296"
proof (rule ccontr)
  assume s: "cstr m p s" and "\<not> length s < 4294967296"
  then have big: "4294967296 \<le> length s" by simp
  define j where "j = length s mod 4294967296"
  have "j < 4294967296" by (simp add: j_def)
  with big have "j < length s" by simp
  moreover have "word_of_nat (length s) = (word_of_nat j :: u32)"
    by (simp add: j_def word_of_nat_eq_iff take_bit_eq_mod)
  ultimately have "s ! j = 0"
    using cstr_nth [OF s, of j] cstr_end [OF s] by simp
  then show False using cstr_nonzero [OF s] nth_mem [OF \<open>j < length s\<close>] by simp
qed

lemma cstr_agree:
  assumes "cstr m p s" "agree_off S m m'" "span p (Suc (length s)) \<inter> S = {}"
  shows "cstr m' p s"
proof -
  have "m' (p + word_of_nat i) = m (p + word_of_nat i)" if "i \<le> length s" for i
    using that assms cstr_length [OF assms(1)]
    by (intro agree_offD [OF assms(2)]) (auto dest!: disjoint_iff [THEN iffD1])
  then show ?thesis using assms(1) by (simp add: cstr_iff)
qed

lemma cstr_drop: "cstr m p s \<Longrightarrow> i \<le> length s \<Longrightarrow> cstr m (p + word_of_nat i) (drop i s)"
proof (induction s arbitrary: p i)
  case (Cons c s)
  then show ?case by (cases i) (auto simp: add.assoc [symmetric])
qed simp

lemma upto_nul_Suc [simp]:
  "upto_nul m p (Suc n) = (if m p = 0 then [] else m p # upto_nul m (p + 1) n)"
  "upto_nul m p 0 = []"
  by (simp_all add: upto_nul_def)

lemma upto_nul_cstr: "cstr m p s \<Longrightarrow> upto_nul m p n = take n s"
proof (induction n arbitrary: p s)
  case (Suc n)
  then show ?case by (cases s) auto
qed simp

lemma cstr_of_bytes:
  "bytes m p (length s) = s \<Longrightarrow> 0 \<notin> set s \<Longrightarrow> m (p + word_of_nat (length s)) = 0 \<Longrightarrow> cstr m p s"
  by (induction s arbitrary: p) (auto simp: ac_simps)

section \<open>Characters\<close>

definition tolower :: "u8 \<Rightarrow> u8" where
  "tolower s1 = (if 65 \<le> sint s1 \<and> sint s1 \<le> 90 then s1 + 32 else s1)"

definition isdigit :: "u8 \<Rightarrow> bool" where
  "isdigit c \<longleftrightarrow> 48 \<le> sint c \<and> sint c \<le> 57"

definition tonumericdigit :: "u8 \<Rightarrow> int" where
  "tonumericdigit c = sint c - 48"

lemma isdigit_range: "isdigit c \<Longrightarrow> 0 \<le> tonumericdigit c \<and> tonumericdigit c \<le> 9"
  by (simp add: isdigit_def tonumericdigit_def)

section \<open>Lengths\<close>

partial_function (option) strlen_loop :: "mem \<Rightarrow> u32 \<Rightarrow> int \<Rightarrow> int option" where
  "strlen_loop m ptr i =
     (if m ptr \<noteq> 0 then if i = 2147483647 then None else strlen_loop m (ptr + 1) (i + 1) else Some i)"

definition strlen :: "mem \<Rightarrow> u32 \<Rightarrow> int option" where
  "strlen m ptr = strlen_loop m ptr 0"

fun strnlen_loop :: "mem \<Rightarrow> u32 \<Rightarrow> nat \<Rightarrow> nat \<Rightarrow> nat" where
  "strnlen_loop m ptr i 0 = i"
| "strnlen_loop m ptr i (Suc n) =
     (if m (ptr + word_of_nat i) = 0 then i else strnlen_loop m ptr (Suc i) n)"

definition strnlen :: "mem \<Rightarrow> u32 \<Rightarrow> int \<Rightarrow> int" where
  "strnlen m ptr mx = int (strnlen_loop m ptr 0 (nat mx))"

fun strnlen_terminator_loop :: "mem \<Rightarrow> u32 \<Rightarrow> u8 \<Rightarrow> nat \<Rightarrow> nat \<Rightarrow> nat" where
  "strnlen_terminator_loop m str t i 0 = i"
| "strnlen_terminator_loop m str t i (Suc n) =
     (if m (str + word_of_nat i) = 0 \<or> m (str + word_of_nat i) = t then i
      else strnlen_terminator_loop m str t (Suc i) n)"

definition strnlen_terminator :: "mem \<Rightarrow> u32 \<Rightarrow> int \<Rightarrow> u8 \<Rightarrow> int" where
  "strnlen_terminator m str mx terminator =
     int (strnlen_terminator_loop m str terminator 0 (nat mx))"

lemma strlen_loop_cstr:
  "cstr m p s \<Longrightarrow> i + int (length s) < 2147483648 \<Longrightarrow> strlen_loop m p i = Some (i + int (length s))"
proof (induction s arbitrary: p i)
  case Nil
  then show ?case by (simp add: strlen_loop.simps)
next
  case (Cons c s)
  then show ?case by (subst strlen_loop.simps) auto
qed

lemma strlen_cstr: "cstr m p s \<Longrightarrow> length s < 2147483648 \<Longrightarrow> strlen m p = Some (int (length s))"
  by (simp add: strlen_def strlen_loop_cstr)

lemma strlen_loop_Some:
  "strlen_loop m p i = Some r \<Longrightarrow> i < 2147483648 \<Longrightarrow> \<exists>s. cstr m p s \<and> r = i + int (length s) \<and> r < 2147483648"
proof (rule strlen_loop.raw_induct
    [where P = "\<lambda>m p i r. i < 2147483648 \<longrightarrow> (\<exists>s. cstr m p s \<and> r = i + int (length s) \<and> r < 2147483648)", THEN mp])
  fix f m p i r
  assume IH: "\<And>m p i r. f m p i = Some r \<Longrightarrow> i < 2147483648 \<longrightarrow> (\<exists>s. cstr m p s \<and> r = i + int (length s) \<and> r < 2147483648)"
    and eq: "(if m p \<noteq> 0 then if i = 2147483647 then None else f m (p + 1) (i + 1) else Some i) = Some r"
  show "i < 2147483648 \<longrightarrow> (\<exists>s. cstr m p s \<and> r = i + int (length s) \<and> r < 2147483648)"
  proof (intro impI, cases "m p = 0")
    case True
    assume "i < 2147483648"
    with True eq show "\<exists>s. cstr m p s \<and> r = i + int (length s) \<and> r < 2147483648" by (intro exI [of _ "[]"]) simp
  next
    case False
    assume i: "i < 2147483648"
    have e: "i \<noteq> 2147483647" "f m (p + 1) (i + 1) = Some r" using False eq by (auto split: if_splits)
    obtain s where "cstr m (p + 1) s" "r = i + 1 + int (length s)" "r < 2147483648"
      using IH [OF e(2)] e(1) i by auto
    with False show "\<exists>s. cstr m p s \<and> r = i + int (length s) \<and> r < 2147483648" by (intro exI [of _ "m p # s"]) simp
  qed
qed

lemma strlen_Some_iff: "strlen m p = Some r \<longleftrightarrow> (\<exists>s. cstr m p s \<and> r = int (length s) \<and> length s < 2147483648)"
proof
  assume "strlen m p = Some r"
  from strlen_loop_Some [OF this [unfolded strlen_def]] show "\<exists>s. cstr m p s \<and> r = int (length s) \<and> length s < 2147483648" by auto
qed (auto simp: strlen_cstr)

lemma strnlen_loop_eq: "strnlen_loop m p i n = i + length (upto_nul m (p + word_of_nat i) n)"
  by (induction n arbitrary: i) (auto simp: ac_simps)

lemma strnlen_eq: "strnlen m p n = int (length (upto_nul m p (nat n)))"
  by (simp add: strnlen_def strnlen_loop_eq)

lemma strnlen_terminator_loop_eq:
  "strnlen_terminator_loop m p t i n =
     i + length (takeWhile (\<lambda>c. c \<noteq> t) (upto_nul m (p + word_of_nat i) n))"
  by (induction n arbitrary: i) (auto simp: ac_simps)

section \<open>Comparisons\<close>

text \<open>\<^verbatim>\<open>while (n-- > 0)\<close> runs \<open>nat n\<close> times at most. The bytes are compared as \<^verbatim>\<open>unsigned char\<close>.\<close>

fun istrncmp_loop :: "mem \<Rightarrow> u32 \<Rightarrow> u32 \<Rightarrow> nat \<Rightarrow> int" where
  "istrncmp_loop m s1 s2 0 = 0"
| "istrncmp_loop m s1 s2 (Suc n) =
     (let u1 = m s1; u2 = m s2 in
      if u1 \<noteq> u2 \<and> tolower u1 \<noteq> tolower u2 then uint u1 - uint u2
      else if u1 = 0 then 0
      else istrncmp_loop m (s1 + 1) (s2 + 1) n)"

definition istrncmp :: "mem \<Rightarrow> u32 \<Rightarrow> u32 \<Rightarrow> int \<Rightarrow> int" where
  "istrncmp m s1 s2 n = istrncmp_loop m s1 s2 (nat n)"

fun strncmp_loop :: "mem \<Rightarrow> u32 \<Rightarrow> u32 \<Rightarrow> nat \<Rightarrow> int" where
  "strncmp_loop m str1 str2 0 = 0"
| "strncmp_loop m str1 str2 (Suc n) =
     (let u1 = m str1; u2 = m str2 in
      if u1 \<noteq> u2 then uint u1 - uint u2
      else if u1 = 0 then 0
      else strncmp_loop m (str1 + 1) (str2 + 1) n)"

definition strncmp :: "mem \<Rightarrow> u32 \<Rightarrow> u32 \<Rightarrow> int \<Rightarrow> int" where
  "strncmp m str1 str2 n = strncmp_loop m str1 str2 (nat n)"

lemma tolower_0_iff [simp]: "tolower c = 0 \<longleftrightarrow> c = 0"
proof (cases "65 \<le> sint c \<and> sint c \<le> 90")
  case True
  then have "c \<noteq> 0" "c \<noteq> - 32" by auto
  moreover have "c + 32 = 0 \<longleftrightarrow> c = - 32"
    by (simp add: add_eq_0_iff2)
  ultimately show ?thesis using True by (simp add: tolower_def)
qed (auto simp: tolower_def)

lemma tolower_nul [simp]: "tolower 0 = 0"
  by simp

lemma istrncmp_loop_0_iff:
  "istrncmp_loop m s1 s2 n = 0 \<longleftrightarrow> map tolower (upto_nul m s1 n) = map tolower (upto_nul m s2 n)"
proof (induction n arbitrary: s1 s2)
  case (Suc n)
  have "m s1 = 0 \<Longrightarrow> m s2 \<noteq> 0 \<Longrightarrow> tolower (m s1) \<noteq> tolower (m s2)"
    and "m s2 = 0 \<Longrightarrow> m s1 \<noteq> 0 \<Longrightarrow> tolower (m s1) \<noteq> tolower (m s2)"
    by (metis tolower_0_iff)+
  then show ?case using Suc by (auto simp: Let_def)
qed simp

lemma strncmp_loop_0_iff: "strncmp_loop m s1 s2 n = 0 \<longleftrightarrow> upto_nul m s1 n = upto_nul m s2 n"
  by (induction n arbitrary: s1 s2) (auto simp: Let_def)

text \<open>The comparison with a constant of the program, given by its characters.\<close>

fun strncmp_lit :: "mem \<Rightarrow> u32 \<Rightarrow> u8 list \<Rightarrow> nat \<Rightarrow> int" where
  "strncmp_lit m str1 cs 0 = 0"
| "strncmp_lit m str1 cs (Suc n) =
     (let u1 = m str1; u2 = (case cs of [] \<Rightarrow> 0 | c # _ \<Rightarrow> c) in
      if u1 \<noteq> u2 then uint u1 - uint u2
      else if u1 = 0 then 0
      else strncmp_lit m (str1 + 1) (tl cs) n)"

lemma strncmp_lit_loop: "cstr m q cs \<Longrightarrow> strncmp_loop m p q n = strncmp_lit m p cs n"
proof (induction n arbitrary: p q cs)
  case (Suc n)
  then show ?case by (cases cs) (auto simp: Let_def)
qed simp

lemma strncmp_lit_eq: "cstr m q cs \<Longrightarrow> strncmp m p q n = strncmp_lit m p cs (nat n)"
  by (simp add: strncmp_def strncmp_lit_loop)

section \<open>Copies\<close>

partial_function (option) strcpy_loop :: "mem \<Rightarrow> u32 \<Rightarrow> u32 \<Rightarrow> mem option" where
  "strcpy_loop m dest src =
     (if m src \<noteq> 0 then strcpy_loop (m(dest := m src)) (dest + 1) (src + 1)
      else Some (m(dest := 0)))"

definition strcpy :: "mem \<Rightarrow> u32 \<Rightarrow> u32 \<Rightarrow> mem option" where
  "strcpy m dest src = strcpy_loop m dest src"

fun strncpy_loop :: "mem \<Rightarrow> u32 \<Rightarrow> u32 \<Rightarrow> nat \<Rightarrow> nat \<Rightarrow> mem" where
  "strncpy_loop m dest src i 0 = m(dest + word_of_nat i := 0)"
| "strncpy_loop m dest src i (Suc n) =
     (if m (src + word_of_nat i) = 0 then m(dest + word_of_nat i := 0)
      else strncpy_loop (m(dest + word_of_nat i := m (src + word_of_nat i))) dest src (Suc i) n)"

definition strncpy :: "mem \<Rightarrow> u32 \<Rightarrow> u32 \<Rightarrow> int \<Rightarrow> mem" where
  "strncpy m dest src count = strncpy_loop m dest src 0 (nat (count - 1))"

lemma in_span_SucD: "n < 4294967296 \<Longrightarrow> x \<in> span (p + 1) n \<Longrightarrow> x \<in> span p (Suc n)"
  by (simp add: span_Suc)

lemma strcpy_loop_cstr:
  "cstr m s cs \<Longrightarrow> span d (Suc (length cs)) \<inter> span s (Suc (length cs)) = {} \<Longrightarrow>
     \<exists>m'. strcpy_loop m d s = Some m' \<and> cstr m' d cs \<and> agree_off (span d (Suc (length cs))) m m'"
proof (induction cs arbitrary: m d s)
  case Nil
  then show ?case by (subst strcpy_loop.simps) (auto simp: agree_off_def)
next
  case (Cons c cs)
  let ?m = "m(d := c)" and ?n = "Suc (length cs)"
  have len: "Suc (length cs) < 4294967296" using cstr_length [OF Cons.prems(1)] by simp
  have sp: "span d (Suc ?n) = insert d (span (d + 1) ?n)" "span s (Suc ?n) = insert s (span (s + 1) ?n)"
    using len by (simp_all only: span_Suc)
  have "cstr ?m (s + 1) cs"
    by (rule cstr_agree [of m _ _ "{d}"]) (use Cons.prems sp in \<open>auto simp: agree_off_def\<close>)
  moreover have "span (d + 1) ?n \<inter> span (s + 1) ?n = {}"
    using Cons.prems(2) sp by auto
  ultimately obtain m' where m': "strcpy_loop ?m (d + 1) (s + 1) = Some m'" "cstr m' (d + 1) cs"
      "agree_off (span (d + 1) ?n) ?m m'"
    using Cons.IH by blast
  have "m' d = c" using agree_offD [OF m'(3)] not_in_span_next [OF len] by simp
  moreover have "agree_off (span d (Suc ?n)) m m'"
    using m'(3) sp by (auto simp: agree_off_def)
  ultimately show ?case using m' Cons.prems(1) by (subst strcpy_loop.simps) auto
qed

lemma strncpy_loop_agree:
  "i + n < 4294967296 \<Longrightarrow> agree_off (span d (Suc (i + n))) m (strncpy_loop m d s i n)"
proof (induction n arbitrary: m i)
  case (Suc n)
  have d: "d + word_of_nat i \<in> span d (Suc (i + Suc n))" using Suc.prems by simp
  have "agree_off (span d (Suc (i + Suc n))) m (m(d + word_of_nat i := m (s + word_of_nat i)))"
    using d by (auto simp: agree_off_def)
  then show ?case
    using Suc.IH [of "Suc i"] Suc.prems d by (auto simp: agree_off_def)
qed (auto simp: agree_off_def)

text \<open>The loop writes what is left of the source, cut to the room that is left.\<close>

lemma word_of_nat_eq_bounded:
  "i < 4294967296 \<Longrightarrow> j < 4294967296 \<Longrightarrow> (word_of_nat i :: u32) = word_of_nat j \<longleftrightarrow> i = j"
  by (simp add: word_of_nat_eq_iff take_bit_eq_mod)

lemma strncpy_loop_cstr:
  "cstr m (s + word_of_nat i) cs \<Longrightarrow> i + n < 4294967296 \<Longrightarrow>
     span d (Suc (i + n)) \<inter> span (s + word_of_nat i) (Suc (length cs)) = {} \<Longrightarrow>
     cstr (strncpy_loop m d s i n) (d + word_of_nat i) (take n cs)
       \<and> (\<forall>j < i. strncpy_loop m d s i n (d + word_of_nat j) = m (d + word_of_nat j))"
proof (induction n arbitrary: m i cs)
  case 0
  then show ?case by (auto simp: word_of_nat_eq_bounded)
next
  case (Suc n)
  show ?case
  proof (cases cs)
    case Nil
    with Suc.prems show ?thesis by (auto simp: word_of_nat_eq_bounded)
  next
    case (Cons c cs')
    let ?m = "m(d + word_of_nat i := c)"
    have len: "Suc (length cs') < 4294967296"
      using cstr_length [OF Suc.prems(1)] Cons by simp
    have c1: "cstr ?m (s + word_of_nat (Suc i)) cs'"
    proof (rule cstr_agree)
      show "cstr m (s + word_of_nat (Suc i)) cs'"
        using Suc.prems(1) Cons by (simp add: ac_simps)
      show "agree_off {d + word_of_nat i} m ?m" by (simp add: agree_off_def)
      have "d + word_of_nat i \<in> span d (Suc (i + Suc n))" using Suc.prems(2) by simp
      then show "span (s + word_of_nat (Suc i)) (Suc (length cs')) \<inter> {d + word_of_nat i} = {}"
        using Suc.prems(3) Cons span_Suc [OF len, of "s + word_of_nat i"] by (auto simp: ac_simps)
    qed
    have c2: "span d (Suc (Suc i + n)) \<inter> span (s + word_of_nat (Suc i)) (Suc (length cs')) = {}"
      using Suc.prems(3) Cons span_Suc [OF len, of "s + word_of_nat i"] by (auto simp: ac_simps)
    have "Suc i + n < 4294967296" using Suc.prems(2) by simp
    from Suc.IH [OF c1 this c2]
    have IH: "cstr (strncpy_loop ?m d s (Suc i) n) (d + word_of_nat (Suc i)) (take n cs')"
        "\<forall>j < Suc i. strncpy_loop ?m d s (Suc i) n (d + word_of_nat j) = ?m (d + word_of_nat j)"
      by blast+
    have at_i: "strncpy_loop ?m d s (Suc i) n (d + word_of_nat i) = c"
      using IH(2) by simp
    have eq: "strncpy_loop m d s i (Suc n) = strncpy_loop ?m d s (Suc i) n"
      using Suc.prems(1) Cons by simp
    show ?thesis unfolding eq
      using IH at_i Suc.prems Cons by (auto simp: ac_simps word_of_nat_eq_bounded)
  qed
qed

section \<open>Properties\<close>

lemma cstr_first:
  assumes "m (p + word_of_nat n) = 0"
  shows "\<exists>s. cstr m p s \<and> length s \<le> n"
proof -
  define k where "k = (LEAST i. m (p + word_of_nat i) = 0)"
  have k: "m (p + word_of_nat k) = 0" "k \<le> n"
    unfolding k_def by (rule LeastI [of "\<lambda>i. m (p + word_of_nat i) = 0", OF assms])
      (rule Least_le [of "\<lambda>i. m (p + word_of_nat i) = 0", OF assms])
  have "m (p + word_of_nat i) \<noteq> 0" if "i < k" for i
    using that not_less_Least [of i "\<lambda>i. m (p + word_of_nat i) = 0"] unfolding k_def by blast
  then have "0 \<notin> set (map (\<lambda>i. m (p + word_of_nat i)) [0..<k])" by fastforce
  then have "cstr m p (map (\<lambda>i. m (p + word_of_nat i)) [0..<k])"
    using k by (simp add: cstr_iff)
  then show ?thesis using k(2) by (intro exI [of _ "map (\<lambda>i. m (p + word_of_nat i)) [0..<k]"]) simp
qed

text \<open>C40: \<^verbatim>\<open>strlen\<close> returns exactly when one of the first \<open>2 ^ 31\<close> bytes
  at the pointer, whose addresses wrap, is NUL (a longer string overflows the counter, which is undefined), and what
  it returns is the length of the NUL-terminated string at the pointer.\<close>

theorem strlen_terminates_iff:
  "((\<exists>r. strlen m p = Some r) \<longleftrightarrow> (\<exists>i < 2147483648. m (p + word_of_nat i) = 0)) \<and>
   (strlen m p = Some r \<longleftrightarrow> (\<exists>s. cstr m p s \<and> r = int (length s) \<and> length s < 2147483648))"
proof -
  have "(\<exists>s. cstr m p s \<and> length s < 2147483648) \<longleftrightarrow> (\<exists>i < 2147483648. m (p + word_of_nat i) = 0)"
  proof
    assume "\<exists>i < 2147483648. m (p + word_of_nat i) = 0"
    then obtain i where "i < 2147483648" "m (p + word_of_nat i) = 0" by blast
    then show "\<exists>s. cstr m p s \<and> length s < 2147483648" using cstr_first [of m p i] le_less_trans by blast
  qed (use cstr_end in blast)
  then show ?thesis using strlen_Some_iff [of m p] by auto
qed

theorem strlen_terminates_iff_witness:
  "strlen ((\<lambda>_. 0)(0xffffffff := 0x48, 0 := 0x69)) 0xffffffff = Some 2 \<and> strlen (\<lambda>_. 0x41) 0x500 = None"
proof
  have "cstr ((\<lambda>_. 0)(0xffffffff := 0x48, 0 := 0x69)) 0xffffffff [0x48, 0x69]" by simp
  then have "\<exists>s. cstr ((\<lambda>_. 0)(0xffffffff := 0x48, 0 := 0x69)) 0xffffffff s \<and> 2 = int (length s) \<and> length s < 2147483648"
    by (intro exI [of _ "[0x48, 0x69]"]) simp
  then show "strlen ((\<lambda>_. 0)(0xffffffff := 0x48, 0 := 0x69)) 0xffffffff = Some 2"
    using strlen_terminates_iff [of "(\<lambda>_. 0)(0xffffffff := 0x48, 0 := 0x69)" "0xffffffff" 2] by (simp only:)
  show "strlen (\<lambda>_. 0x41) 0x500 = None"
    using strlen_terminates_iff [of "\<lambda>_. 0x41" "0x500"] by (cases "strlen (\<lambda>_. 0x41) 0x500") auto
qed

text \<open>\<^verbatim>\<open>strncmp\<close> answers 0 exactly for strings that agree up to their NUL or the first \<open>n\<close>
  bytes, and \<^verbatim>\<open>istrncmp\<close> exactly for strings that do so once both are lower-cased.\<close>

theorem string_compare_iff:
  "(strncmp m a b n = 0 \<longleftrightarrow> upto_nul m a (nat n) = upto_nul m b (nat n)) \<and>
   (istrncmp m a b n = 0 \<longleftrightarrow> map tolower (upto_nul m a (nat n)) = map tolower (upto_nul m b (nat n)))"
  by (simp add: strncmp_def istrncmp_def strncmp_loop_0_iff istrncmp_loop_0_iff)

lemma strncpy_cstr:
  assumes "cstr m src s" "0 < count" "count < 2147483648"
    and "span dest (nat count) \<inter> span src (Suc (length s)) = {}"
  shows "cstr (strncpy m dest src count) dest (take (nat (count - 1)) s) \<and>
     agree_off (span dest (nat count)) m (strncpy m dest src count)"
proof -
  have n: "Suc (nat (count - 1)) = nat count" "nat (count - 1) < 4294967296" using assms(2,3) by auto
  show ?thesis
    using strncpy_loop_cstr [of m src 0 s "nat (count - 1)" dest]
      strncpy_loop_agree [of 0 "nat (count - 1)" dest m src] assms(1,4) n
    by (simp add: strncpy_def)
qed

text \<open>\<^verbatim>\<open>strncpy\<close> with a positive count always leaves a NUL-terminated string: the source, cut to
  \<open>count - 1\<close> bytes; it writes nothing outside the \<open>count\<close> bytes of the destination.\<close>

theorem strncpy_terminated:
  assumes "cstr m src s" "0 < count" "count < 2147483648"
    and "span dest (nat count) \<inter> span src (Suc (length s)) = {}"
  shows "cstr (strncpy m dest src count) dest (take (nat (count - 1)) s) \<and>
     agree_off (span dest (nat count)) m (strncpy m dest src count)"
  by (rule strncpy_cstr [OF assms])

theorem strncpy_terminated_witness:
  "cstr (strncpy ((\<lambda>_. 0)(64 := 1, 65 := 2, 66 := 3)) 16 64 3) 16 [1, 2]"
proof -
  have "span (16 :: u32) (nat 3) \<inter> span 64 (Suc (length [1, 2, 3 :: u8])) = {}"
    by (intro span_disjoint) simp_all
  with strncpy_terminated [of "(\<lambda>_. 0)(64 := 1, 65 := 2, 66 := 3)" 64 "[1, 2, 3]" 3 16]
  show ?thesis by simp
qed

text \<open>\<^verbatim>\<open>strcpy\<close> from a string that the destination does not overlap returns, leaves the same
  string at the destination, and writes only that string and its NUL.\<close>

theorem strcpy_copies:
  assumes "cstr m src s" "span dest (Suc (length s)) \<inter> span src (Suc (length s)) = {}"
  shows "\<exists>m'. strcpy m dest src = Some m' \<and> cstr m' dest s \<and> agree_off (span dest (Suc (length s))) m m'"
  using strcpy_loop_cstr [OF assms] by (simp add: strcpy_def)

theorem strcpy_copies_witness:
  "\<exists>m'. strcpy ((\<lambda>_. 0)(64 := 1, 65 := 2)) 16 64 = Some m' \<and> cstr m' 16 [1, 2]"
proof -
  have "span (16 :: u32) (Suc (length [1, 2 :: u8])) \<inter> span 64 (Suc (length [1, 2 :: u8])) = {}"
    by (intro span_disjoint) simp_all
  with strcpy_copies [of "(\<lambda>_. 0)(64 := 1, 65 := 2)" 64 "[1, 2]" 16] show ?thesis by auto
qed

end
