(* ===== verification/Terminal.thy ===== *)
theory Terminal
  imports CString
begin

text \<open>
  The text console of \<^verbatim>\<open>src/kernel.c\<close>: 80 columns of 16-bit cells in the memory-mapped video
  buffer, a cursor kept in two \<^verbatim>\<open>uint16_t\<close> globals, and \<^verbatim>\<open>print\<close>. The record is the bottom of the
  kernel's state: the machine memory and the console globals. Later components extend it.
\<close>

record console =
  kmem :: mem
  video_mem :: u32
  terminal_row :: u16
  terminal_col :: u16

abbreviation (input) VGA_WIDTH :: "'a :: numeral" where "VGA_WIDTH \<equiv> 80"
abbreviation (input) VGA_HEIGHT :: "'a :: numeral" where "VGA_HEIGHT \<equiv> 20"

section \<open>Operations\<close>

text \<open>Both characters are promoted to \<^verbatim>\<open>int\<close> before the shift and the or: a negative \<^verbatim>\<open>char\<close> is
  sign-extended over the colour byte.\<close>

definition terminal_make_char :: "u8 \<Rightarrow> u8 \<Rightarrow> u16" where
  "terminal_make_char c colour = push_bit 8 (scast colour) OR scast c"

definition terminal_putchar :: "int \<Rightarrow> int \<Rightarrow> u8 \<Rightarrow> u8 \<Rightarrow> 'z console_scheme \<Rightarrow> 'z console_scheme" where
  "terminal_putchar x y c colour s =
     s\<lparr>kmem := write16 (kmem s) (video_mem s + 2 * word_of_int (y * VGA_WIDTH + x))
                 (terminal_make_char c colour)\<rparr>"

function terminal_backspace :: "'z console_scheme \<Rightarrow> 'z console_scheme"
  and terminal_writechar :: "u8 \<Rightarrow> u8 \<Rightarrow> 'z console_scheme \<Rightarrow> 'z console_scheme" where
  "terminal_backspace s =
     (if terminal_row s = 0 \<and> terminal_col s = 0 then s
      else let s1 = (if terminal_col s = 0
                     then s\<lparr>terminal_row := terminal_row s - 1, terminal_col := VGA_WIDTH\<rparr> else s);
               s2 = s1\<lparr>terminal_col := terminal_col s1 - 1\<rparr>;
               s3 = terminal_writechar 0x20 15 s2
           in s3\<lparr>terminal_col := terminal_col s3 - 1\<rparr>)"
| "terminal_writechar c colour s =
     (if c = 0x0a then s\<lparr>terminal_row := terminal_row s + 1, terminal_col := 0\<rparr>
      else if c = 0x08 then terminal_backspace s
      else let s1 = terminal_putchar (uint (terminal_col s)) (uint (terminal_row s)) c colour s;
               s2 = s1\<lparr>terminal_col := terminal_col s1 + 1\<rparr>
           in if terminal_col s2 \<ge> VGA_WIDTH
              then s2\<lparr>terminal_col := 0, terminal_row := terminal_row s2 + 1\<rparr> else s2)"
  by pat_completeness auto
termination
  by (relation "measure (case_sum (\<lambda>s. 1) (\<lambda>(c, colour, s). if c = 8 then 2 else 0))") auto

declare terminal_backspace.simps [simp del] terminal_writechar.simps [simp del]

text \<open>The two loops of \<^verbatim>\<open>terminal_init\<close>: \<open>n\<close> columns of the row \<open>y\<close> from \<open>x\<close> on, then the rows.\<close>

fun terminal_clear_row :: "int \<Rightarrow> int \<Rightarrow> nat \<Rightarrow> 'z console_scheme \<Rightarrow> 'z console_scheme" where
  "terminal_clear_row x y 0 s = s"
| "terminal_clear_row x y (Suc n) s = terminal_clear_row (x + 1) y n (terminal_putchar x y 0x20 0 s)"

fun terminal_clear_rows :: "int \<Rightarrow> nat \<Rightarrow> 'z console_scheme \<Rightarrow> 'z console_scheme" where
  "terminal_clear_rows y 0 s = s"
| "terminal_clear_rows y (Suc n) s = terminal_clear_rows (y + 1) n (terminal_clear_row 0 y VGA_WIDTH s)"

definition terminal_init :: "'z console_scheme \<Rightarrow> 'z console_scheme" where
  "terminal_init s = terminal_clear_rows 0 VGA_HEIGHT
     (s\<lparr>video_mem := 0xB8000, terminal_row := 0, terminal_col := 0\<rparr>)"

text \<open>\<^verbatim>\<open>print\<close> measures the string once and then reads each character as it goes; \<open>None\<close> is the
  call that never returns, on a memory with no NUL byte. \<open>print_lit\<close> is the same loop over a
  string literal.\<close>

fun print_loop :: "u32 \<Rightarrow> nat \<Rightarrow> nat \<Rightarrow> 'z console_scheme \<Rightarrow> 'z console_scheme" where
  "print_loop str i 0 s = s"
| "print_loop str i (Suc n) s =
     print_loop str (Suc i) n (terminal_writechar (kmem s (str + word_of_nat i)) 15 s)"

definition print :: "u32 \<Rightarrow> 'z console_scheme \<Rightarrow> 'z console_scheme option" where
  "print str s = (case strlen (kmem s) str of None \<Rightarrow> None
     | Some len \<Rightarrow> Some (print_loop str 0 (nat len) s))"

definition print_lit :: "u8 list \<Rightarrow> 'z console_scheme \<Rightarrow> 'z console_scheme" where
  "print_lit cs s = fold (\<lambda>c. terminal_writechar c 15) cs s"

section \<open>Cells and cursor\<close>

text \<open>The screen seen as an array of cells, and the cursor as an index into it.\<close>

definition cell :: "'z console_scheme \<Rightarrow> nat \<Rightarrow> u16" where
  "cell s k = read16 (kmem s) (video_mem s + 2 * word_of_nat k)"

definition cursor :: "'z console_scheme \<Rightarrow> nat" where
  "cursor s = unat (terminal_row s) * 80 + unat (terminal_col s)"

text \<open>The cells the two 16-bit cursor globals can name, and the bytes they take.\<close>

abbreviation (input) cursor_limit :: nat where "cursor_limit \<equiv> 5308416"

definition video_region :: "'z console_scheme \<Rightarrow> u32 set" where
  "video_region s = span (video_mem s) (2 * cursor_limit)"

lemma unat_u16_less: "unat (x :: u16) < 65536"
  using unsigned_less [of x] by simp

lemma cursor_bound: "cursor s < cursor_limit"
  using unat_u16_less [of "terminal_row s"] unat_u16_less [of "terminal_col s"]
  by (simp add: cursor_def)

lemma putchar_at_cursor:
  "terminal_putchar (uint (terminal_col s)) (uint (terminal_row s)) c colour s =
     s\<lparr>kmem := write16 (kmem s) (video_mem s + 2 * word_of_nat (cursor s)) (terminal_make_char c colour)\<rparr>"
proof -
  have "uint (terminal_row s) * 80 + uint (terminal_col s) = int (cursor s)"
    by (simp add: cursor_def)
  then show ?thesis by (simp add: terminal_putchar_def)
qed

lemma cell_span_in_region:
  assumes "unat (video_mem s) + 2 * cursor_limit \<le> 4294967296" "k < cursor_limit"
  shows "span (video_mem s + 2 * word_of_nat k) 2 \<subseteq> video_region s"
  unfolding video_region_def using assms by (intro span_subset) (simp_all add: unat_array_index2 [where n = cursor_limit])

text \<open>One ordinary character: the cell under the cursor changes, the cursor moves on by one cell.\<close>

definition console_fits :: "'z console_scheme \<Rightarrow> bool" where
  "console_fits s \<longleftrightarrow> unat (video_mem s) + 2 * cursor_limit \<le> 4294967296"

lemma writechar_plain:
  assumes "c \<noteq> 0x0a" "c \<noteq> 0x08" "terminal_col s < 80" "unat (terminal_row s) < 65535"
  shows "cursor (terminal_writechar c colour s) = Suc (cursor s)"
    and "terminal_col (terminal_writechar c colour s) < 80"
    and "video_mem (terminal_writechar c colour s) = video_mem s"
    and "kmem (terminal_writechar c colour s) =
           write16 (kmem s) (video_mem s + 2 * word_of_nat (cursor s)) (terminal_make_char c colour)"
proof -
  have col: "unat (terminal_col s) < 80" using assms(3) by (simp add: word_less_nat_alt)
  have col1: "unat (terminal_col s + 1) = Suc (unat (terminal_col s))"
    using col by (simp add: unat_word_ariths)
  have row1: "unat (terminal_row s + 1) = Suc (unat (terminal_row s))"
    using assms(4) by (simp add: unat_word_ariths)
  have wrap: "80 \<le> terminal_col s + 1 \<longleftrightarrow> unat (terminal_col s) = 79"
    using col col1 by (auto simp: word_le_nat_alt)
  have wrap': "terminal_col s + 1 < 80 \<longleftrightarrow> unat (terminal_col s) \<noteq> 79"
    using wrap by (simp add: not_le [symmetric])
  note defs = terminal_writechar.simps putchar_at_cursor Let_def
  show "cursor (terminal_writechar c colour s) = Suc (cursor s)"
    using assms col1 row1 wrap by (simp add: defs) (simp add: cursor_def)
  show "terminal_col (terminal_writechar c colour s) < 80"
    using assms wrap wrap' by (simp add: defs)
  show "video_mem (terminal_writechar c colour s) = video_mem s"
    using assms by (simp add: defs)
  show "kmem (terminal_writechar c colour s) =
      write16 (kmem s) (video_mem s + 2 * word_of_nat (cursor s)) (terminal_make_char c colour)"
    using assms by (simp add: defs)
qed

lemma cell_write16:
  assumes "console_fits s" "k < cursor_limit" "j < cursor_limit"
    "kmem t = write16 (kmem s) (video_mem s + 2 * word_of_nat j) v" "video_mem t = video_mem s"
  shows "cell t k = (if k = j then v else cell s k)"
proof (cases "k = j")
  case False
  then have "span (video_mem s + 2 * word_of_nat k) 2 \<inter> span (video_mem s + 2 * word_of_nat j) 2 = {}"
    using assms unfolding console_fits_def by (intro array2_span_disjoint [where n = cursor_limit]) auto
  then show ?thesis using False assms by (simp add: cell_def mem_simps)
qed (use assms in \<open>simp add: cell_def\<close>)

lemma writechar_plain_cell:
  assumes "c \<noteq> 0x0a" "c \<noteq> 0x08" "terminal_col s < 80" "unat (terminal_row s) < 65535"
    "console_fits s" "k < cursor_limit"
  shows "cell (terminal_writechar c colour s) k =
     (if k = cursor s then terminal_make_char c colour else cell s k)"
  by (rule cell_write16 [OF assms(5,6) cursor_bound writechar_plain(4) writechar_plain(3)])
     (use assms in auto)

text \<open>The console only ever writes to its video region, whatever the characters are.\<close>

lemma putchar_region:
  assumes "console_fits s"
  shows "agree_off (video_region s) (kmem s)
     (kmem (terminal_putchar (uint (terminal_col s)) (uint (terminal_row s)) c colour s))"
  unfolding putchar_at_cursor
  using agree_off_mono [OF write16_agree cell_span_in_region [OF assms [unfolded console_fits_def] cursor_bound]]
  by simp

lemma writechar_frame:
  "c \<noteq> 8 \<Longrightarrow> console_fits s \<Longrightarrow>
     video_mem (terminal_writechar c colour s) = video_mem s \<and>
     agree_off (video_region s) (kmem s) (kmem (terminal_writechar c colour s))"
  using putchar_region [where s = s and c = c and colour = colour]
  by (auto simp: terminal_writechar.simps Let_def terminal_putchar_def)

lemma backspace_frame:
  "console_fits s \<Longrightarrow> video_mem (terminal_backspace s) = video_mem s \<and>
     agree_off (video_region s) (kmem s) (kmem (terminal_backspace s))"
  using writechar_frame [where c = "0x20" and colour = 15
      and s = "s\<lparr>terminal_row := terminal_row s - 1, terminal_col := 79\<rparr>"]
    writechar_frame [where c = "0x20" and colour = 15 and s = "s\<lparr>terminal_col := terminal_col s - 1\<rparr>"]
  by (auto simp: terminal_backspace.simps Let_def console_fits_def video_region_def)

lemma terminal_writechar_frame:
  "console_fits s \<Longrightarrow> video_mem (terminal_writechar c colour s) = video_mem s \<and>
     agree_off (video_region s) (kmem s) (kmem (terminal_writechar c colour s))"
  using writechar_frame [where c = c and s = s and colour = colour] backspace_frame [where s = s]
  by (cases "c = 8") (auto simp: terminal_writechar.simps [of 8])

lemma print_loop_lit:
  "cstr (kmem s) (str + word_of_nat i) cs \<Longrightarrow> console_fits s \<Longrightarrow>
     span (str + word_of_nat i) (Suc (length cs)) \<inter> video_region s = {} \<Longrightarrow>
     print_loop str i (length cs) s = print_lit cs s"
proof (induction cs arbitrary: i s)
  case (Cons c cs)
  let ?s = "terminal_writechar c 15 s"
  have len: "Suc (length cs) < 4294967296" using cstr_length [OF Cons.prems(1)] by simp
  have fr: "video_mem ?s = video_mem s" "agree_off (video_region s) (kmem s) (kmem ?s)"
    using terminal_writechar_frame Cons.prems(2) by blast+
  have reg: "video_region ?s = video_region s" by (simp add: video_region_def fr(1))
  have sp: "span (str + word_of_nat (Suc i)) (Suc (length cs)) \<inter> video_region s = {}"
    using Cons.prems(3) span_Suc [OF len, of "str + word_of_nat i"] by (auto simp: ac_simps)
  have "cstr (kmem s) (str + word_of_nat (Suc i)) cs"
    using Cons.prems(1) by (simp add: ac_simps)
  then have "cstr (kmem ?s) (str + word_of_nat (Suc i)) cs"
    using cstr_agree [OF _ fr(2) sp] by blast
  then have "print_loop str (Suc i) (length cs) ?s = print_lit cs ?s"
    using Cons.IH [of ?s "Suc i"] Cons.prems(2) sp reg fr(1) by (simp add: console_fits_def)
  then show ?case using Cons.prems(1) by (simp add: print_lit_def)
qed (simp add: print_lit_def)

section \<open>Properties\<close>

lemma print_lit_plain:
  "(\<And>c. c \<in> set cs \<Longrightarrow> c \<noteq> 0x0a \<and> c \<noteq> 0x08) \<Longrightarrow> terminal_col s < 80 \<Longrightarrow>
     console_fits s \<Longrightarrow> cursor s + length cs \<le> 65535 * 80 \<Longrightarrow>
     cursor (print_lit cs s) = cursor s + length cs \<and> terminal_col (print_lit cs s) < 80 \<and>
     (\<forall>k < cursor_limit. cell (print_lit cs s) k =
        (if cursor s \<le> k \<and> k < cursor s + length cs
         then terminal_make_char (cs ! (k - cursor s)) 15 else cell s k))"
proof (induction cs arbitrary: s)
  case (Cons c cs)
  let ?s = "terminal_writechar c 15 s"
  have c: "c \<noteq> 0x0a" "c \<noteq> 0x08" using Cons.prems(1) [of c] by auto
  have row: "unat (terminal_row s) < 65535"
    using Cons.prems(4) by (simp add: cursor_def)
  note w = writechar_plain [OF c Cons.prems(2) row, of 15]
  have fits: "console_fits ?s" using Cons.prems(3) w(3) by (simp add: console_fits_def)
  have "cursor (print_lit cs ?s) = cursor ?s + length cs \<and> terminal_col (print_lit cs ?s) < 80 \<and>
     (\<forall>k < cursor_limit. cell (print_lit cs ?s) k =
        (if cursor ?s \<le> k \<and> k < cursor ?s + length cs
         then terminal_make_char (cs ! (k - cursor ?s)) 15 else cell ?s k))"
    by (rule Cons.IH) (use Cons.prems w(1,2) fits in auto)
  moreover have "cell ?s k = (if k = cursor s then terminal_make_char c 15 else cell s k)"
    if "k < cursor_limit" for k
    by (rule writechar_plain_cell [OF c Cons.prems(2) row Cons.prems(3) that])
  ultimately show ?case
    using w(1) by (auto simp: print_lit_def nth_Cons' Suc_diff_Suc)
qed (auto simp: print_lit_def)

text \<open>Ordinary characters that do not lie where they will be shown.\<close>

lemma print_loop_plain:
  "cstr (kmem s) (str + word_of_nat i) cs \<Longrightarrow> \<forall>c \<in> set cs. c \<noteq> 0x0a \<and> c \<noteq> 0x08 \<Longrightarrow> terminal_col s < 80 \<Longrightarrow>
     console_fits s \<Longrightarrow> cursor s + length cs \<le> 65535 * 80 \<Longrightarrow>
     span (str + word_of_nat i) (Suc (length cs)) \<inter> span (video_mem s) (2 * (cursor s + length cs)) = {} \<Longrightarrow>
     print_loop str i (length cs) s = print_lit cs s"
proof (induction cs arbitrary: i s)
  case (Cons c cs)
  let ?s = "terminal_writechar c 15 s" and ?S = "span (video_mem s) (2 * (cursor s + length (c # cs)))"
  have c: "c \<noteq> 0x0a" "c \<noteq> 0x08" "unat (terminal_row s) < 65535" using Cons.prems(2,5) by (auto simp: cursor_def)
  note w = writechar_plain [OF c(1,2) Cons.prems(3) c(3), of 15]
  have len: "Suc (length cs) < 4294967296" using cstr_length [OF Cons.prems(1)] by simp
  have "span (video_mem s + 2 * word_of_nat (cursor s)) 2 \<subseteq> ?S"
    using Cons.prems(4,5) unfolding console_fits_def
    by (intro span_subset) (simp_all add: unat_array_index2 [where n = cursor_limit])
  then have a: "agree_off ?S (kmem s) (kmem ?s)" unfolding w(4) by (rule agree_off_mono [OF write16_agree])
  have sp: "span (str + word_of_nat (Suc i)) (Suc (length cs)) \<inter> ?S = {}"
    using Cons.prems(6) span_Suc [OF len, of "str + word_of_nat i"] by (auto simp: ac_simps)
  have "cstr (kmem s) (str + word_of_nat (Suc i)) cs" using Cons.prems(1) by (simp add: ac_simps)
  then have "cstr (kmem ?s) (str + word_of_nat (Suc i)) cs" using cstr_agree [OF _ a sp] by blast
  moreover have "console_fits ?s" "cursor ?s + length cs \<le> 65535 * 80" "\<forall>c \<in> set cs. c \<noteq> 0x0a \<and> c \<noteq> 0x08"
    using Cons.prems(2,4,5) w by (simp_all add: console_fits_def)
  moreover have "span (str + word_of_nat (Suc i)) (Suc (length cs)) \<inter> span (video_mem ?s) (2 * (cursor ?s + length cs)) = {}"
    using sp w(1,3) by simp
  ultimately have "print_loop str (Suc i) (length cs) ?s = print_lit cs ?s" using Cons.IH w(2) by blast
  then show ?case using Cons.prems(1) by (simp add: print_lit_def)
qed (simp add: print_lit_def)

text \<open>Plain characters change the cells from the cursor on and the position of the cursor, nothing else.\<close>

lemma writechar_shape:
  assumes "c \<noteq> 0x0a" "c \<noteq> 0x08" "console_fits s" "Suc (cursor s) \<le> b" "b \<le> cursor_limit"
  shows "\<exists>m row col. terminal_writechar c colour s = s\<lparr>kmem := m, terminal_row := row, terminal_col := col\<rparr> \<and>
    agree_off (span (video_mem s) (2 * b)) (kmem s) m"
proof -
  let ?m = "write16 (kmem s) (video_mem s + 2 * word_of_nat (cursor s)) (terminal_make_char c colour)"
  have "span (video_mem s + 2 * word_of_nat (cursor s)) 2 \<subseteq> span (video_mem s) (2 * b)"
    using assms(3-5) unfolding console_fits_def
    by (intro span_subset) (simp_all add: unat_array_index2 [where n = cursor_limit])
  then have a: "agree_off (span (video_mem s) (2 * b)) (kmem s) ?m" by (rule agree_off_mono [OF write16_agree])
  show ?thesis
  proof (cases "terminal_col s + 1 < 80")
    case True
    then show ?thesis using assms(1,2) a
      by (intro exI [of _ ?m] exI [of _ "terminal_row s"] exI [of _ "terminal_col s + 1"])
        (simp add: terminal_writechar.simps putchar_at_cursor Let_def not_le)
  next
    case False
    then show ?thesis using assms(1,2) a
      by (intro exI [of _ ?m] exI [of _ "terminal_row s + 1"] exI [of _ 0])
        (simp add: terminal_writechar.simps putchar_at_cursor Let_def not_less)
  qed
qed

lemma print_lit_shape:
  "\<forall>c \<in> set cs. c \<noteq> 0x0a \<and> c \<noteq> 0x08 \<Longrightarrow> terminal_col s < 80 \<Longrightarrow> console_fits s \<Longrightarrow> cursor s + length cs \<le> b \<Longrightarrow>
   b \<le> 65535 * 80 \<Longrightarrow> \<exists>m row col. print_lit cs s = s\<lparr>kmem := m, terminal_row := row, terminal_col := col\<rparr> \<and>
    agree_off (span (video_mem s) (2 * b)) (kmem s) m"
proof (induction cs arbitrary: s)
  case Nil
  then show ?case by (intro exI [of _ "kmem s"] exI [of _ "terminal_row s"] exI [of _ "terminal_col s"]) (simp add: print_lit_def)
next
  case (Cons c cs)
  let ?s = "terminal_writechar c 15 s"
  have c: "c \<noteq> 0x0a" "c \<noteq> 0x08" "unat (terminal_row s) < 65535" using Cons.prems(1,4,5) by (auto simp: cursor_def)
  note w = writechar_plain [OF c(1,2) Cons.prems(2) c(3), of 15]
  obtain m row col where m: "?s = s\<lparr>kmem := m, terminal_row := row, terminal_col := col\<rparr>"
      "agree_off (span (video_mem s) (2 * b)) (kmem s) m"
    using writechar_shape [OF c(1,2) Cons.prems(3), of b 15] Cons.prems(4,5) by auto
  have "\<exists>m row col. print_lit cs ?s = ?s\<lparr>kmem := m, terminal_row := row, terminal_col := col\<rparr> \<and>
    agree_off (span (video_mem ?s) (2 * b)) (kmem ?s) m"
    by (rule Cons.IH) (use Cons.prems w in \<open>simp_all add: console_fits_def\<close>)
  then obtain m' row' col' where "print_lit cs ?s = ?s\<lparr>kmem := m', terminal_row := row', terminal_col := col'\<rparr>"
    "agree_off (span (video_mem ?s) (2 * b)) (kmem ?s) m'" by blast
  moreover have "print_lit (c # cs) s = print_lit cs ?s" by (simp add: print_lit_def)
  ultimately show ?case using m agree_off_trans_same [OF m(2)] by auto
qed

lemma print_shows:
  assumes "cstr (kmem s) str cs" "span str (Suc (length cs)) \<inter> span (video_mem s) (2 * (cursor s + length cs)) = {}"
    and "console_fits s" "terminal_col s < 80" "cursor s + length cs \<le> 65535 * 80"
    and "\<forall>c \<in> set cs. c \<noteq> 0x0a \<and> c \<noteq> 0x08"
  shows "\<exists>m row col s'. print str s = Some s' \<and> s' = s\<lparr>kmem := m, terminal_row := row, terminal_col := col\<rparr> \<and>
     agree_off (span (video_mem s) (2 * (cursor s + length cs))) (kmem s) m \<and> cursor s' = cursor s + length cs \<and>
     (\<forall>k < cursor_limit. cell s' k =
        (if cursor s \<le> k \<and> k < cursor s + length cs
         then terminal_make_char (cs ! (k - cursor s)) 15 else cell s k))"
proof -
  have "print str s = Some (print_lit cs s)"
    using strlen_cstr [OF assms(1)] print_loop_plain [of s str 0 cs] assms by (simp add: print_def)
  moreover have "cursor (print_lit cs s) = cursor s + length cs \<and>
     (\<forall>k < cursor_limit. cell (print_lit cs s) k =
        (if cursor s \<le> k \<and> k < cursor s + length cs then terminal_make_char (cs ! (k - cursor s)) 15 else cell s k))"
    using print_lit_plain [of cs s] assms by simp
  moreover obtain m row col where "print_lit cs s = s\<lparr>kmem := m, terminal_row := row, terminal_col := col\<rparr>"
     "agree_off (span (video_mem s) (2 * (cursor s + length cs))) (kmem s) m"
    using print_lit_shape [OF assms(6,4,3) order_refl assms(5)] by blast
  ultimately show ?thesis by (intro exI [of _ m] exI [of _ row] exI [of _ col] exI [of _ "print_lit cs s"]) simp
qed

lemma print_plain:
  assumes "cstr (kmem s) str cs" "span str (Suc (length cs)) \<inter> span (video_mem s) (2 * (cursor s + length cs)) = {}"
    and "console_fits s" "terminal_col s < 80" "cursor s + length cs \<le> 65535 * 80"
    and "\<forall>c \<in> set cs. c \<noteq> 0x0a \<and> c \<noteq> 0x08"
  shows "\<exists>s'. print str s = Some s' \<and> cursor s' = cursor s + length cs \<and>
     (\<forall>k < cursor_limit. cell s' k =
        (if cursor s \<le> k \<and> k < cursor s + length cs
         then terminal_make_char (cs ! (k - cursor s)) 15 else cell s k))"
  using print_shows [OF assms] by blast

text \<open>\<^verbatim>\<open>print\<close> of a string of ordinary characters that does not lie in the cells up to
  the last one it fills returns, moves the cursor on by the length of the string, writes the characters with colour 15
  into the cells that follow the cursor (going on to the next row after column 79), and leaves
  every other cell as it was.\<close>

theorem print_writes_cells:
  assumes "cstr (kmem s) str cs" "span str (Suc (length cs)) \<inter> span (video_mem s) (2 * (cursor s + length cs)) = {}"
    and "console_fits s" "terminal_col s < 80" "cursor s + length cs \<le> 65535 * 80"
    and "\<forall>c \<in> set cs. c \<noteq> 0x0a \<and> c \<noteq> 0x08"
  shows "\<exists>s'. print str s = Some s' \<and> cursor s' = cursor s + length cs \<and>
     (\<forall>k < cursor_limit. cell s' k =
        (if cursor s \<le> k \<and> k < cursor s + length cs
         then terminal_make_char (cs ! (k - cursor s)) 15 else cell s k))"
  using print_plain [OF assms] .

definition demo_console :: console where
  "demo_console = \<lparr>kmem = (\<lambda>_. 0)(100 := 72, 101 := 105), video_mem = 0xB8000,
     terminal_row = 0, terminal_col = 79\<rparr>"

theorem print_writes_cells_witness:
  "\<exists>s'. print 100 demo_console = Some s' \<and> cursor s' = 81 \<and> cell s' 79 = 0x0f48 \<and> cell s' 80 = 0x0f69"
proof -
  have str: "cstr (kmem demo_console) 100 [72, 105]" by (simp add: demo_console_def)
  have "span 100 (Suc (length [72, 105 :: u8])) \<inter> span (video_mem demo_console) (2 * (cursor demo_console + length [72, 105 :: u8])) = {}"
    by (intro span_disjoint) (simp_all add: demo_console_def cursor_def)
  moreover have "console_fits demo_console" "terminal_col demo_console < 80"
    "cursor demo_console + length [72, 105 :: u8] \<le> 65535 * 80"
    "\<forall>c \<in> set [72, 105 :: u8]. c \<noteq> 0x0a \<and> c \<noteq> 0x08"
    by (simp_all add: demo_console_def console_fits_def cursor_def)
  ultimately obtain s' where s': "print 100 demo_console = Some s'"
    "cursor s' = cursor demo_console + length [72, 105 :: u8]"
    "\<forall>k < cursor_limit. cell s' k = (if cursor demo_console \<le> k \<and> k < cursor demo_console + length [72, 105 :: u8]
       then terminal_make_char ([72, 105] ! (k - cursor demo_console)) 15 else cell demo_console k)"
    using print_writes_cells [OF str] by blast
  have "cursor demo_console = 79" by (simp add: demo_console_def cursor_def)
  with s' show ?thesis by (intro exI [of _ s']) (simp add: terminal_make_char_def)
qed

lemma clear_row_cells:
  "console_fits s \<Longrightarrow> 0 \<le> x \<Longrightarrow> 0 \<le> y \<Longrightarrow> nat (y * 80 + x) + n \<le> cursor_limit \<Longrightarrow>
     video_mem (terminal_clear_row x y n s) = video_mem s \<and>
     terminal_row (terminal_clear_row x y n s) = terminal_row s \<and>
     terminal_col (terminal_clear_row x y n s) = terminal_col s \<and>
     (\<forall>k < cursor_limit. cell (terminal_clear_row x y n s) k =
       (if nat (y * 80 + x) \<le> k \<and> k < nat (y * 80 + x) + n then terminal_make_char 0x20 0 else cell s k))"
proof (induction n arbitrary: x s)
  case (Suc n)
  let ?s = "terminal_putchar x y 0x20 0 s" and ?j = "nat (y * 80 + x)"
  have "word_of_int (y * 80 + x) = (word_of_nat ?j :: u32)"
    using Suc.prems by (simp only: word_of_int_nat)
  then have k: "kmem ?s = write16 (kmem s) (video_mem s + 2 * word_of_nat ?j) (terminal_make_char 0x20 0)"
    by (simp add: terminal_putchar_def)
  have v: "video_mem ?s = video_mem s" "terminal_row ?s = terminal_row s" "terminal_col ?s = terminal_col s"
    by (simp_all add: terminal_putchar_def)
  have j: "?j < cursor_limit" "nat (y * 80 + (x + 1)) = Suc ?j" using Suc.prems by auto
  note IH = Suc.IH [of ?s "x + 1"]
  have "cell ?s i = (if i = ?j then terminal_make_char 0x20 0 else cell s i)" if "i < cursor_limit" for i
    by (rule cell_write16 [OF Suc.prems(1) that j(1) k v(1)])
  with IH v j Suc.prems show ?case by (auto simp: console_fits_def)
qed auto

lemma clear_rows_cells:
  "console_fits s \<Longrightarrow> 0 \<le> y \<Longrightarrow> nat y * 80 + n * 80 \<le> cursor_limit \<Longrightarrow>
     cursor (terminal_clear_rows y n s) = cursor s \<and>
     (\<forall>k < cursor_limit. cell (terminal_clear_rows y n s) k =
       (if nat y * 80 \<le> k \<and> k < nat y * 80 + n * 80 then terminal_make_char 0x20 0 else cell s k))"
proof (induction n arbitrary: y s)
  case (Suc n)
  let ?s = "terminal_clear_row 0 y 80 s"
  have r: "video_mem ?s = video_mem s" "terminal_row ?s = terminal_row s" "terminal_col ?s = terminal_col s"
    "\<forall>k < cursor_limit. cell ?s k =
       (if nat (y * 80) \<le> k \<and> k < nat (y * 80) + 80 then terminal_make_char 0x20 0 else cell s k)"
    using clear_row_cells [of s 0 y 80] Suc.prems by (auto simp: nat_mult_distrib)
  have n: "nat (y * 80) = nat y * 80" "nat (y + 1) * 80 = nat y * 80 + 80"
    using Suc.prems(2) by (auto simp: nat_mult_distrib nat_add_distrib)
  have c: "cursor ?s = cursor s" using r by (simp add: cursor_def)
  note IH = Suc.IH [of ?s "y + 1"]
  show ?case using IH r c n Suc.prems by (auto simp: console_fits_def)
qed auto

text \<open>\<^verbatim>\<open>terminal_init\<close> blanks exactly the 80 x 20 cells of the screen at the video address
  0xB8000, and puts the cursor at the first of them.\<close>

theorem terminal_init_blanks:
  "cursor (terminal_init s) = 0 \<and>
   (\<forall>k < cursor_limit. cell (terminal_init s) k =
      (if k < 1600 then 0x20 else read16 (kmem s) (0xB8000 + 2 * word_of_nat k)))"
proof -
  let ?s = "s\<lparr>video_mem := 0xB8000, terminal_row := 0, terminal_col := 0\<rparr>"
  have "console_fits ?s" "cursor ?s = 0"
    by (simp_all add: console_fits_def cursor_def)
  moreover have "cell ?s k = read16 (kmem s) (0xB8000 + 2 * word_of_nat k)" for k
    by (simp add: cell_def)
  moreover have "terminal_make_char 0x20 0 = 0x20" by (simp add: terminal_make_char_def)
  ultimately show ?thesis
    using clear_rows_cells [of ?s 0 20] by (simp add: terminal_init_def)
qed

theorem terminal_init_blanks_witness:
  "cell (terminal_init demo_console) 1599 = 0x20 \<and> cell (terminal_init demo_console) 1600 = 0"
  using terminal_init_blanks [of demo_console] by (simp add: demo_console_def read16_def)

text \<open>Rubbing out in the middle of a line blanks the cell before the cursor and steps back onto
  it; rubbing out at the start of a line (other than the first) does not reach the end of the line
  above: it leaves the row as it was and the column at 65535, since the blank written over column 79
  has already moved the cursor to column 0 of the next row when the last decrement wraps.\<close>

theorem terminal_backspace_cases:
  "(0 < terminal_col s \<and> terminal_col s < 80 \<longrightarrow>
      terminal_backspace s =
        terminal_putchar (uint (terminal_col s) - 1) (uint (terminal_row s)) 0x20 15 s
          \<lparr>terminal_col := terminal_col s - 1\<rparr>)
   \<and> (terminal_col s = 0 \<and> terminal_row s = 0 \<longrightarrow> terminal_backspace s = s)
   \<and> (terminal_col s = 0 \<and> terminal_row s \<noteq> 0 \<longrightarrow>
        terminal_col (terminal_backspace s) = 65535 \<and>
        terminal_row (terminal_backspace s) = terminal_row s)"
proof (intro conjI impI)
  assume c: "0 < terminal_col s \<and> terminal_col s < 80"
  then have u: "uint (terminal_col s - 1) = uint (terminal_col s) - 1"
    by (simp add: uint_sub_lem [THEN iffD1] word_less_def)
  have nw: "\<not> 80 \<le> terminal_col s" using c by (simp add: not_le)
  show "terminal_backspace s =
      terminal_putchar (uint (terminal_col s) - 1) (uint (terminal_row s)) 0x20 15 s
        \<lparr>terminal_col := terminal_col s - 1\<rparr>"
    unfolding u [symmetric] using c nw
    by (auto simp: terminal_backspace.simps terminal_writechar.simps Let_def terminal_putchar_def)
next
  assume "terminal_col s = 0 \<and> terminal_row s = 0"
  then show "terminal_backspace s = s" by (simp add: terminal_backspace.simps)
next
  assume "terminal_col s = 0 \<and> terminal_row s \<noteq> 0"
  then show "terminal_col (terminal_backspace s) = 65535" "terminal_row (terminal_backspace s) = terminal_row s"
    by (simp_all add: terminal_backspace.simps terminal_writechar.simps Let_def terminal_putchar_def)
qed

definition demo_console2 :: console where
  "demo_console2 = \<lparr>kmem = (\<lambda>_. 0), video_mem = 0xB8000, terminal_row = 3, terminal_col = 0\<rparr>"

theorem terminal_backspace_cases_witness:
  "terminal_col (terminal_backspace demo_console2) = 65535"
  using terminal_backspace_cases [of demo_console2] by (simp add: demo_console2_def)

section \<open>Characters on the screen\<close>

lemma terminal_writechar_shape:
  assumes "console_fits s"
  shows "\<exists>m row col. terminal_writechar c colour s = s\<lparr>kmem := m, terminal_row := row, terminal_col := col\<rparr> \<and>
    agree_off (video_region s) (kmem s) m"
proof -
  have w: "terminal_writechar c k s = s\<lparr>kmem := kmem (terminal_writechar c k s), terminal_row := terminal_row (terminal_writechar c k s),
      terminal_col := terminal_col (terminal_writechar c k s)\<rparr>" if "c \<noteq> 8" for c k and s :: "'a console_scheme"
    using that by (simp add: terminal_writechar.simps Let_def terminal_putchar_def)
  have b: "terminal_backspace s = s\<lparr>kmem := kmem (terminal_backspace s), terminal_row := terminal_row (terminal_backspace s),
      terminal_col := terminal_col (terminal_backspace s)\<rparr>"
    by (simp add: terminal_backspace.simps terminal_writechar.simps Let_def terminal_putchar_def)
  let ?s = "terminal_writechar c colour s"
  have "?s = s\<lparr>kmem := kmem ?s, terminal_row := terminal_row ?s, terminal_col := terminal_col ?s\<rparr>"
    using w [of c colour s] b by (cases "c = 8") (simp_all add: terminal_writechar.simps [of 8])
  then show ?thesis using terminal_writechar_frame [OF assms, of c colour]
    by (intro exI [of _ "kmem ?s"] exI [of _ "terminal_row ?s"] exI [of _ "terminal_col ?s"]) simp
qed

text \<open>A character written while the cursor is on the screen stays on it.\<close>

definition cursor_visible :: "'z console_scheme \<Rightarrow> bool" where
  "cursor_visible s \<longleftrightarrow> terminal_row s < 20 \<and> terminal_col s < 80"

lemma plain_visible:
  assumes "console_fits s" "cursor_visible s" "c \<noteq> 8"
  shows "agree_off (span (video_mem s) 3200) (kmem s) (kmem (terminal_writechar c colour s))"
proof -
  have k: "cursor s < 1600" using assms(2) by (simp add: cursor_visible_def cursor_def word_less_nat_alt)
  have "span (video_mem s + 2 * word_of_nat (cursor s)) 2 \<subseteq> span (video_mem s) 3200"
    using assms(1) k unfolding console_fits_def
    by (intro span_subset) (simp_all add: unat_array_index2 [where n = cursor_limit])
  from agree_off_mono [OF write16_agree this]
  show ?thesis using assms(3) by (simp add: terminal_writechar.simps Let_def putchar_at_cursor)
qed

lemma backspace_visible:
  assumes "console_fits s" "cursor_visible s"
  shows "agree_off (span (video_mem s) 3200) (kmem s) (kmem (terminal_backspace s))"
proof (cases "terminal_row s = 0 \<and> terminal_col s = 0")
  case False
  let ?s1 = "if terminal_col s = 0 then s\<lparr>terminal_row := terminal_row s - 1, terminal_col := 80\<rparr> else s"
  let ?s2 = "?s1\<lparr>terminal_col := terminal_col ?s1 - 1\<rparr>"
  have dec: "x - 1 < n" if "x \<noteq> 0" "x < n" for x n :: u16
    using that by (simp add: word_less_nat_alt unat_minus_one)
  have "cursor_visible ?s2" "console_fits ?s2" using assms False dec [of "terminal_row s" 20] dec [of "terminal_col s" 80]
    by (auto simp: cursor_visible_def console_fits_def)
  from plain_visible [OF this(2,1), of "0x20" 15] show ?thesis using False by (simp add: terminal_backspace.simps [of s] Let_def split: if_splits)
qed (simp add: terminal_backspace.simps)

lemma writechar_visible:
  assumes "console_fits s" "cursor_visible s"
  shows "agree_off (span (video_mem s) 3200) (kmem s) (kmem (terminal_writechar c colour s))"
  using plain_visible [OF assms, of c colour] backspace_visible [OF assms] by (cases "c = 8") (simp_all add: terminal_writechar.simps [of 8])

section \<open>The screen as a grid\<close>

text \<open>What the console shows: the 1600 cells, the row and the column of the cursor. \<open>show_char\<close> is what a character
  does to it, newlines and backspaces included. A backspace in the first column of a line is left out (\<open>char_fits\<close>):
  the code then loses the column (\<open>terminal_backspace_cases\<close>). So is a character behind the last line, for the code
  does not scroll.\<close>

type_synonym screen = "(nat \<Rightarrow> u16) \<times> nat \<times> nat"

definition screen :: "'z console_scheme \<Rightarrow> screen" where
  "screen s = (\<lambda>k. if k < 1600 then cell s k else 0, unat (terminal_row s), unat (terminal_col s))"

fun show_char :: "u8 \<Rightarrow> screen \<Rightarrow> screen" where
  "show_char ch (f, r, c) =
     (if ch = 0x0a then (f, Suc r, 0)
      else if ch = 0x08 then if c = 0 then (f, r, c) else (f(80 * r + c - 1 := terminal_make_char 0x20 15), r, c - 1)
      else (f(80 * r + c := terminal_make_char ch 15), if c = 79 then (Suc r, 0) else (r, Suc c)))"

fun char_fits :: "u8 \<Rightarrow> screen \<Rightarrow> bool" where
  "char_fits ch (f, r, c) \<longleftrightarrow> r < 20 \<and> c < 80 \<and> (ch = 0x08 \<longrightarrow> c = 0 \<longrightarrow> r = 0)"

primrec text_fits :: "u8 list \<Rightarrow> screen \<Rightarrow> bool" where
  "text_fits [] scr \<longleftrightarrow> True"
| "text_fits (ch # cs) scr \<longleftrightarrow> char_fits ch scr \<and> text_fits cs (show_char ch scr)"

lemma char_fits_visible: "char_fits ch (screen s) \<Longrightarrow> cursor_visible s"
  by (simp add: screen_def cursor_visible_def word_less_nat_alt)

lemma screen_cell_write:
  assumes "console_fits s" "j < 1600" "kmem t = write16 (kmem s) (video_mem s + 2 * word_of_nat j) v" "video_mem t = video_mem s"
  shows "(\<lambda>k. if k < 1600 then cell t k else 0) = (\<lambda>k. if k < 1600 then cell s k else 0)(j := v)"
  using cell_write16 [OF assms(1) _ _ assms(3,4)] assms(2) by (auto simp: fun_eq_iff)

lemma plain_screen:
  assumes "console_fits s" "char_fits c (screen s)" "c \<noteq> 0x0a" "c \<noteq> 0x08"
  shows "screen (terminal_writechar c 15 s) = show_char c (screen s)"
proof -
  let ?t = "terminal_writechar c 15 s"
  have rc: "unat (terminal_row s) < 20" "unat (terminal_col s) < 80" using assms(2) by (simp_all add: screen_def)
  have j: "cursor s < 1600" "cursor s = 80 * unat (terminal_row s) + unat (terminal_col s)" using rc by (simp_all add: cursor_def)
  have col: "terminal_col s < 80" using rc(2) by (simp add: word_less_nat_alt)
  have row: "unat (terminal_row s) < 65535" using rc by simp
  note w = writechar_plain [OF assms(3,4) col row, of 15]
  have inc: "unat (terminal_col s + 1) = Suc (unat (terminal_col s))" "unat (terminal_row s + 1) = Suc (unat (terminal_row s))"
    using rc by (simp_all add: unat_word_ariths)
  have wrap: "80 \<le> terminal_col s + 1 \<longleftrightarrow> unat (terminal_col s) = 79" using rc(2) inc(1) by (auto simp: word_le_nat_alt)
  have "(unat (terminal_row ?t), unat (terminal_col ?t)) =
      (if unat (terminal_col s) = 79 then (Suc (unat (terminal_row s)), 0) else (unat (terminal_row s), Suc (unat (terminal_col s))))"
    using assms(3,4) inc wrap by (simp add: terminal_writechar.simps Let_def terminal_putchar_def)
  then show ?thesis using screen_cell_write [OF assms(1) j(1) w(4,3)] assms(3,4) j(2) by (simp add: screen_def)
qed

lemma backspace_screen:
  assumes "console_fits s" "char_fits 0x08 (screen s)"
  shows "screen (terminal_backspace s) = show_char 0x08 (screen s)"
proof (cases "terminal_col s = 0")
  case True
  then have "terminal_row s = 0" using assms(2) by (simp add: screen_def unat_eq_zero)
  then show ?thesis using True by (simp add: terminal_backspace.simps screen_def)
next
  case False
  have rc: "unat (terminal_row s) < 20" "unat (terminal_col s) < 80" using assms(2) by (simp_all add: screen_def)
  have col: "0 < terminal_col s" "terminal_col s < 80" using False rc(2) by (simp_all add: word_less_nat_alt unat_gt_0)
  have pos: "0 < unat (terminal_col s)" using False by (simp add: unat_gt_0)
  let ?t = "terminal_putchar (uint (terminal_col s) - 1) (uint (terminal_row s)) 0x20 15 s\<lparr>terminal_col := terminal_col s - 1\<rparr>"
  have b: "terminal_backspace s = ?t" using terminal_backspace_cases [of s] col by simp
  have j: "80 * unat (terminal_row s) + unat (terminal_col s) - 1 < 1600" using rc pos by simp
  have "uint (terminal_row s) * 80 + (uint (terminal_col s) - 1) = int (80 * unat (terminal_row s) + unat (terminal_col s) - 1)"
    using pos by (simp add: of_nat_diff)
  then have k: "kmem ?t = write16 (kmem s) (video_mem s + 2 * word_of_nat (80 * unat (terminal_row s) + unat (terminal_col s) - 1)) (terminal_make_char 0x20 15)"
    by (simp add: terminal_putchar_def)
  have v: "video_mem ?t = video_mem s" by (simp add: terminal_putchar_def)
  have rc': "unat (terminal_row ?t) = unat (terminal_row s)" "unat (terminal_col ?t) = unat (terminal_col s) - 1"
    using unat_minus_one [OF False] by (simp_all add: terminal_putchar_def)
  have "show_char 0x08 (screen s) = ((\<lambda>k. if k < 1600 then cell s k else 0)
      (80 * unat (terminal_row s) + unat (terminal_col s) - 1 := terminal_make_char 0x20 15), unat (terminal_row s), unat (terminal_col s) - 1)"
    using pos by (simp add: screen_def)
  then show ?thesis unfolding b by (simp only: screen_def [of ?t] screen_cell_write [OF assms(1) j k v] rc')
qed

lemma writechar_screen:
  assumes "console_fits s" "char_fits c (screen s)"
  shows "screen (terminal_writechar c 15 s) = show_char c (screen s)"
proof -
  have "screen (s\<lparr>terminal_row := terminal_row s + 1, terminal_col := 0\<rparr>) = show_char 0x0a (screen s)"
    using assms(2) by (simp add: screen_def cell_def unat_word_ariths cong: if_cong)
  then show ?thesis
    using plain_screen [OF assms] backspace_screen [OF assms(1)] assms(2)
    by (cases "c = 0x0a"; cases "c = 0x08") (simp_all add: terminal_writechar.simps [of 8] terminal_writechar.simps [of 10])
qed

lemma print_loop_screen:
  "cstr (kmem s) (str + word_of_nat i) cs \<Longrightarrow> console_fits s \<Longrightarrow> text_fits cs (screen s) \<Longrightarrow>
   span (str + word_of_nat i) (Suc (length cs)) \<inter> span (video_mem s) 3200 = {} \<Longrightarrow>
   \<exists>m row col s'. print_loop str i (length cs) s = s' \<and> s' = s\<lparr>kmem := m, terminal_row := row, terminal_col := col\<rparr> \<and>
     agree_off (span (video_mem s) 3200) (kmem s) m \<and> screen s' = fold show_char cs (screen s)"
proof (induction cs arbitrary: i s)
  case Nil
  then show ?case by (intro exI [of _ "kmem s"] exI [of _ "terminal_row s"] exI [of _ "terminal_col s"]) simp
next
  case (Cons c cs)
  let ?s = "terminal_writechar c 15 s"
  obtain m row col where sh: "?s = s\<lparr>kmem := m, terminal_row := row, terminal_col := col\<rparr>"
    using terminal_writechar_shape [OF Cons.prems(2)] by blast
  have fit: "char_fits c (screen s)" "text_fits cs (show_char c (screen s))" using Cons.prems(3) by simp_all
  note sc = writechar_screen [OF Cons.prems(2) fit(1)]
  have a: "agree_off (span (video_mem s) 3200) (kmem s) (kmem ?s)"
    by (rule writechar_visible [OF Cons.prems(2) char_fits_visible [OF fit(1)]])
  have v: "video_mem ?s = video_mem s" "console_fits ?s" using Cons.prems(2) sh by (simp_all add: console_fits_def)
  have len: "Suc (length cs) < 4294967296" using cstr_length [OF Cons.prems(1)] by simp
  have sp: "span (str + word_of_nat (Suc i)) (Suc (length cs)) \<inter> span (video_mem s) 3200 = {}"
    using Cons.prems(4) span_Suc [OF len, of "str + word_of_nat i"] by (auto simp: ac_simps)
  have "cstr (kmem s) (str + word_of_nat (Suc i)) cs" using Cons.prems(1) by (simp add: ac_simps)
  then have cs: "cstr (kmem ?s) (str + word_of_nat (Suc i)) cs" using cstr_agree [OF _ a sp] by blast
  obtain m' row' col' s' where r: "print_loop str (Suc i) (length cs) ?s = s'"
      "s' = ?s\<lparr>kmem := m', terminal_row := row', terminal_col := col'\<rparr>"
      "agree_off (span (video_mem s) 3200) (kmem ?s) m'" "screen s' = fold show_char cs (show_char c (screen s))"
    using Cons.IH [OF cs v(2)] fit(2) sp v(1) sc by auto
  have "s' = s\<lparr>kmem := m', terminal_row := row', terminal_col := col'\<rparr>" unfolding r(2) sh by simp
  moreover have "agree_off (span (video_mem s) 3200) (kmem s) m'" by (rule agree_off_trans_same [OF a r(3)])
  moreover have "print_loop str i (length (c # cs)) s = s'" using r(1) Cons.prems(1) by simp
  ultimately show ?case using r(4) by (intro exI conjI) auto
qed

lemma print_screen:
  assumes "cstr (kmem s) str cs" "length cs < 2147483648" "console_fits s" "text_fits cs (screen s)"
    "span str (Suc (length cs)) \<inter> span (video_mem s) 3200 = {}"
  shows "\<exists>m row col s'. print str s = Some s' \<and> s' = s\<lparr>kmem := m, terminal_row := row, terminal_col := col\<rparr> \<and>
     agree_off (span (video_mem s) 3200) (kmem s) m \<and> screen s' = fold show_char cs (screen s)"
  using print_loop_screen [of s str 0 cs] assms strlen_cstr [OF assms(1,2)] by (simp add: print_def)

end
