(* ===== verification/PageSource.thy ===== *)
theory PageSource
  imports Prelude
begin

text \<open>
  The interface between the kernel heap and the components that build structures in memory it hands
  out (page tables, path parts, directory buffers). A provider is a state with a memory; \<open>ready s A\<close>
  says that the state is in order and that \<open>A\<close> maps the base address of every live allocation to
  its length in pages. The laws promise fresh, zeroed, page-aligned extents, that no operation
  touches a live extent, and that memory written outside the provider's \<open>reserved\<close> bookkeeping leaves
  it in order. Clients argue from these laws only.
\<close>

locale page_source =
  fixes ready :: "'s \<Rightarrow> (u32 \<Rightarrow> nat option) \<Rightarrow> bool"
    and room :: "'s \<Rightarrow> nat \<Rightarrow> bool"
    and avail :: "'s \<Rightarrow> nat"
    and memory :: "'s \<Rightarrow> mem"
    and put :: "mem \<Rightarrow> 's \<Rightarrow> 's"
    and reserved :: "'s \<Rightarrow> u32 set"
    and zalloc :: "u32 \<Rightarrow> 's \<Rightarrow> u32 \<times> 's"
    and release :: "u32 \<Rightarrow> 's \<Rightarrow> 's"
  assumes memory_put: "memory (put m s) = m"
    and put_put: "put m (put m' s) = put m s"
    and reserved_put: "reserved (put m s) = reserved s"
    and avail_room: "ready s A \<Longrightarrow> 0 < avail s \<Longrightarrow> room s 1"
    and zalloc_fresh: "ready s A \<Longrightarrow> sz \<noteq> 0 \<Longrightarrow> unat sz \<le> 4294963200 \<Longrightarrow>
      room s ((unat sz + 4095) div 4096) \<Longrightarrow>
      \<exists>p m'. zalloc sz s = (p, put m' s) \<and> p \<noteq> 0 \<and> unat p mod 4096 = 0 \<and>
        unat p + (unat sz + 4095) div 4096 * 4096 \<le> 4294967296 \<and>
        A p = None \<and> ready (put m' s) (A(p \<mapsto> (unat sz + 4095) div 4096)) \<and>
        avail (put m' s) + (unat sz + 4095) div 4096 = avail s \<and>
        (\<forall>x \<in> span p (unat sz). m' x = 0) \<and>
        agree_off (reserved s \<union> span p (unat sz)) (memory s) m'"
    and live_reserved: "ready s A \<Longrightarrow> A p = Some n \<Longrightarrow> span p (n * 4096) \<inter> reserved s = {}"
    and live_disjoint: "ready s A \<Longrightarrow> A p = Some n \<Longrightarrow> A q = Some k \<Longrightarrow> p \<noteq> q \<Longrightarrow>
      span p (n * 4096) \<inter> span q (k * 4096) = {}"
    and live_bounds: "ready s A \<Longrightarrow> A p = Some n \<Longrightarrow>
      0 < n \<and> unat p mod 4096 = 0 \<and> unat p + n * 4096 \<le> 4294967296"
    and put_ready: "ready s A \<Longrightarrow> agree_off S (memory s) m' \<Longrightarrow> S \<inter> reserved s = {} \<Longrightarrow>
      ready (put m' s) A \<and> avail (put m' s) = avail s"
    and release_live: "ready s A \<Longrightarrow> A p = Some n \<Longrightarrow>
      \<exists>m'. release p s = put m' s \<and> ready (put m' s) (A(p := None)) \<and>
        avail (put m' s) = avail s + n \<and> agree_off (reserved s) (memory s) m'"
begin

text \<open>A request of at most a page needs no more than one free page.\<close>

lemma zalloc_page:
  assumes "ready s A" "sz \<noteq> 0" "unat sz \<le> 4096" "0 < avail s"
  shows "\<exists>p m'. zalloc sz s = (p, put m' s) \<and> p \<noteq> 0 \<and> unat p mod 4096 = 0 \<and>
        unat p + 4096 \<le> 4294967296 \<and>
        A p = None \<and> ready (put m' s) (A(p \<mapsto> 1)) \<and> avail (put m' s) + 1 = avail s \<and>
        (\<forall>x \<in> span p (unat sz). m' x = 0) \<and> agree_off (reserved s \<union> span p (unat sz)) (memory s) m'"
proof -
  have "0 < unat sz" using assms(2) by (simp add: unat_gt_0)
  then have n: "(unat sz + 4095) div 4096 = 1" using assms(3) by (simp add: div_nat_eqI)
  have "room s 1" by (rule avail_room [OF assms(1,4)])
  then show ?thesis
    using zalloc_fresh [OF assms(1,2)] assms(3) unfolding n by simp
qed

text \<open>A live extent keeps its bytes when the provider allocates or releases something else.\<close>

lemma live_kept:
  assumes "ready s A" "A q = Some k" "ready (put m' s) (A(p \<mapsto> n))" "A p = None"
    "agree_off (reserved s \<union> span p c) (memory s) m'" "c \<le> n * 4096" "x \<in> span q (k * 4096)"
  shows "m' x = memory s x"
proof -
  have "p \<noteq> q" using assms(2,4) by auto
  then have "span p (n * 4096) \<inter> span q (k * 4096) = {}"
    using live_disjoint [OF assms(3), of p n q k] assms(2) by simp
  then have "x \<notin> span p c" using span_mono [OF assms(6), of p] assms(7) by blast
  moreover have "x \<notin> reserved s" using live_reserved [OF assms(1,2)] assms(7) by blast
  ultimately show ?thesis using agree_offD [OF assms(5)] by blast
qed

lemma live_kept_release:
  assumes "ready s A" "A q = Some k" "agree_off (reserved s) (memory s) m'" "x \<in> span q (k * 4096)"
  shows "m' x = memory s x"
  using live_reserved [OF assms(1,2)] agree_offD [OF assms(3)] assms(4) by blast

text \<open>Writing inside live extents keeps the provider in order.\<close>

lemma write_live:
  assumes "ready s A" "A p = Some n" "agree_off (span p (n * 4096)) (memory s) m'"
  shows "ready (put m' s) A" "avail (put m' s) = avail s"
  using put_ready [OF assms(1,3) live_reserved [OF assms(1,2)]] by auto

end

text \<open>
  A provider that also says which addresses it may still hand out or write: its bookkeeping and the
  memory that is not live. A client's data outside \<open>spare\<close> (static data, stacks, live allocations) is
  never touched.
\<close>

locale page_pool = page_source +
  fixes spare :: "'s \<Rightarrow> u32 set"
  assumes reserved_spare: "ready s A \<Longrightarrow> reserved s \<subseteq> spare s"
    and zalloc_spare: "ready s A \<Longrightarrow> sz \<noteq> 0 \<Longrightarrow> unat sz \<le> 4294963200 \<Longrightarrow>
      room s ((unat sz + 4095) div 4096) \<Longrightarrow> zalloc sz s = (p, s') \<Longrightarrow>
      span p ((unat sz + 4095) div 4096 * 4096) \<subseteq> spare s \<and> spare s' \<subseteq> spare s"
    and put_spare: "ready s A \<Longrightarrow> agree_off S (memory s) m' \<Longrightarrow> S \<inter> reserved s = {} \<Longrightarrow> spare (put m' s) = spare s"
    and release_spare: "ready s A \<Longrightarrow> A p = Some n \<Longrightarrow> spare (release p s) \<subseteq> spare s \<union> span p (n * 4096)"
    and live_spare: "ready s A \<Longrightarrow> A p = Some n \<Longrightarrow> span p (n * 4096) \<inter> spare s = {}"
begin

text \<open>A request of at most a page, with what stays as it was.\<close>

lemma zalloc_page_stable:
  assumes "ready s A" "sz \<noteq> 0" "unat sz \<le> 4096" "0 < avail s"
  shows "\<exists>p m'. zalloc sz s = (p, put m' s) \<and> p \<noteq> 0 \<and> unat p mod 4096 = 0 \<and>
        A p = None \<and> ready (put m' s) (A(p \<mapsto> 1)) \<and> avail (put m' s) + 1 = avail s \<and>
        (\<forall>x \<in> span p (unat sz). m' x = 0) \<and> agree_off (spare s) (memory s) m' \<and>
        span p 4096 \<subseteq> spare s \<and> spare (put m' s) \<subseteq> spare s - span p 4096"
proof -
  obtain p m' where p: "zalloc sz s = (p, put m' s)" "p \<noteq> 0" "unat p mod 4096 = 0" "A p = None"
    "ready (put m' s) (A(p \<mapsto> 1))" "avail (put m' s) + 1 = avail s"
    "\<forall>x \<in> span p (unat sz). m' x = 0" "agree_off (reserved s \<union> span p (unat sz)) (memory s) m'"
    using zalloc_page [OF assms] by (elim exE conjE) (rule that, assumption+)
  have "0 < unat sz" using assms(2) by (simp add: unat_gt_0)
  then have n: "(unat sz + 4095) div 4096 = 1" using assms(3) by (simp add: div_nat_eqI)
  have "unat sz \<le> 4294963200" using assms(3) by simp
  from zalloc_spare [OF assms(1,2) this _ p(1), unfolded n, OF avail_room [OF assms(1,4)]]
  have sp: "span p 4096 \<subseteq> spare s" "spare (put m' s) \<subseteq> spare s" by simp_all
  have "span p 4096 \<inter> spare (put m' s) = {}" using live_spare [OF p(5), of p 1] by simp
  then have "spare (put m' s) \<subseteq> spare s - span p 4096" using sp(2) by blast
  moreover have "agree_off (spare s) (memory s) m'"
    using agree_off_mono [OF p(8)] reserved_spare [OF assms(1)] sp(1) span_mono [OF assms(3), of p] by blast
  ultimately show ?thesis using p(1-7) sp(1) by - (intro exI conjI, assumption+)
qed

lemma write_live_spare:
  assumes "ready s A" "A p = Some n" "agree_off (span p (n * 4096)) (memory s) m'"
  shows "spare (put m' s) = spare s"
  by (rule put_spare [OF assms(1,3) live_reserved [OF assms(1,2)]])

end

end
