(* ===== verification/KHeap.thy ===== *)
theory KHeap
  imports Heap Terminal PageSource
begin

text \<open>
  \<^verbatim>\<open>src/memory/heap/kheap.c\<close>: the kernel's own heap, a global in the kernel state, and the three
  allocation calls every other component uses. The theory ends with the interpretation of the
  \<open>page_source\<close> interface by these calls.
\<close>

record kstate = console +
  kernel_heap :: heap

section \<open>Operations\<close>

abbreviation (input) PEACHOS_HEAP_SIZE_BYTES :: u32 where "PEACHOS_HEAP_SIZE_BYTES \<equiv> 104857600"
abbreviation (input) PEACHOS_HEAP_ADDRESS :: u32 where "PEACHOS_HEAP_ADDRESS \<equiv> 0x01000000"
abbreviation (input) PEACHOS_HEAP_TABLE_ADDRESS :: u32 where "PEACHOS_HEAP_TABLE_ADDRESS \<equiv> 0x00007e00"

text \<open>The bytes of a string literal.\<close>

definition lit :: "string \<Rightarrow> u8 list" where
  "lit cs = map of_char cs"

definition kheap_init :: "'z kstate_scheme \<Rightarrow> 'z kstate_scheme" where
  "kheap_init s =
     (let total_table_entries = PEACHOS_HEAP_SIZE_BYTES div PEACHOS_HEAP_BLOCK_SIZE;
          kernel_heap_table = \<lparr>ht_entries = PEACHOS_HEAP_TABLE_ADDRESS, ht_total = total_table_entries\<rparr>;
          en = PEACHOS_HEAP_ADDRESS + PEACHOS_HEAP_SIZE_BYTES;
          (res, hp, m) = heap_create (kmem s) (kernel_heap s) PEACHOS_HEAP_ADDRESS en kernel_heap_table;
          s' = s\<lparr>kmem := m, kernel_heap := hp\<rparr>
      in if res < 0 then print_lit (lit (''Failed to create heap'' @ [CHR 0x0A])) s' else s')"

definition kmalloc :: "u32 \<Rightarrow> 'z kstate_scheme \<Rightarrow> u32 \<times> 'z kstate_scheme" where
  "kmalloc sz s = (let (p, m) = heap_malloc (kmem s) (kernel_heap s) sz in (p, s\<lparr>kmem := m\<rparr>))"

definition kzalloc :: "u32 \<Rightarrow> 'z kstate_scheme \<Rightarrow> u32 \<times> 'z kstate_scheme" where
  "kzalloc sz s =
     (let (ptr, s') = kmalloc sz s in
      if ptr = 0 then (0, s') else (ptr, s'\<lparr>kmem := memset (kmem s') ptr 0 sz\<rparr>))"

definition kfree :: "u32 \<Rightarrow> 'z kstate_scheme \<Rightarrow> 'z kstate_scheme" where
  "kfree ptr s = s\<lparr>kmem := heap_free (kmem s) (kernel_heap s) ptr\<rparr>"

section \<open>The allocation map by address\<close>

definition live :: "heap \<Rightarrow> alloc_map \<Rightarrow> u32 \<Rightarrow> nat option" where
  "live hp B p = (let d = unat (p - hp_saddr hp) in
     if d mod 4096 = 0 \<and> d div 4096 < num_blocks hp then B (d div 4096) else None)"

definition kheap_ready :: "'z kstate_scheme \<Rightarrow> (u32 \<Rightarrow> nat option) \<Rightarrow> bool" where
  "kheap_ready s A \<longleftrightarrow> heap_ok (kernel_heap s) \<and>
     (\<exists>B. heap_repr (kmem s) (kernel_heap s) B \<and> A = live (kernel_heap s) B)"

definition kheap_room :: "'z kstate_scheme \<Rightarrow> nat \<Rightarrow> bool" where
  "kheap_room s n \<longleftrightarrow> (\<exists>j. fits (kmem s) (kernel_heap s) n j)"

definition kheap_avail :: "'z kstate_scheme \<Rightarrow> nat" where
  "kheap_avail s = card {i. i < num_blocks (kernel_heap s) \<and> block_free (kmem s) (kernel_heap s) i}"

definition kheap_reserved :: "'z kstate_scheme \<Rightarrow> u32 set" where
  "kheap_reserved s = table_region (kernel_heap s)"

definition put_kmem :: "mem \<Rightarrow> 'z kstate_scheme \<Rightarrow> 'z kstate_scheme" where
  "put_kmem m s = s\<lparr>kmem := m\<rparr>"

lemma put_kmem_simps [simp]:
  "kmem (put_kmem m s) = m" "kernel_heap (put_kmem m s) = kernel_heap s"
  "put_kmem m (put_kmem m' s) = put_kmem m s"
  by (simp_all add: put_kmem_def)

lemma block_offset:
  assumes "heap_ok hp" "s < num_blocks hp"
  shows "unat (block_addr hp s - hp_saddr hp) = s * 4096"
proof -
  obtain k where k: "s * 4096 = k" by blast
  have "k < 4294967296" using assms unfolding k [symmetric] by (auto simp: heap_ok_def)
  then show ?thesis unfolding block_addr_def k by (simp add: unat_of_nat)
qed

lemma block_addrI: "unat (p - hp_saddr hp) = s * 4096 \<Longrightarrow> p = block_addr hp s"
  unfolding block_addr_def using addr_index [OF unat_le_max32 [of "p - hp_saddr hp"], of p "hp_saddr hp"]
  by (simp only: simp_thms)

lemma live_block: "heap_ok hp \<Longrightarrow> s < num_blocks hp \<Longrightarrow> live hp B (block_addr hp s) = B s"
  by (simp add: live_def block_offset)

lemma live_SomeD:
  assumes "live hp B p = Some n"
  shows "\<exists>s < num_blocks hp. p = block_addr hp s \<and> B s = Some n"
proof -
  let ?d = "unat (p - hp_saddr hp)"
  have d: "?d mod 4096 = 0" "?d div 4096 < num_blocks hp" "B (?d div 4096) = Some n"
    using assms by (auto simp: live_def Let_def split: if_splits)
  have "?d div 4096 * 4096 = ?d" using d(1) by auto
  then have "p = block_addr hp (?d div 4096)" by (intro block_addrI) (rule sym)
  with d show ?thesis by blast
qed

lemma live_upd:
  assumes "heap_ok hp" "s < num_blocks hp"
  shows "live hp (B(s := v)) = (live hp B)(block_addr hp s := v)"
proof
  fix p
  show "live hp (B(s := v)) p = ((live hp B)(block_addr hp s := v)) p"
  proof (cases "p = block_addr hp s")
    case True
    then show ?thesis using live_block [OF assms] by simp
  next
    case False
    have "unat (p - hp_saddr hp) \<noteq> s * 4096"
    proof
      assume "unat (p - hp_saddr hp) = s * 4096"
      then have "p = block_addr hp s" by (rule block_addrI)
      with False show False by blast
    qed
    then have "unat (p - hp_saddr hp) mod 4096 = 0 \<longrightarrow> unat (p - hp_saddr hp) div 4096 \<noteq> s"
      using mult_div_mod_eq [of 4096 "unat (p - hp_saddr hp)"] by (metis add.right_neutral mult.commute)
    with False show ?thesis unfolding live_def Let_def by simp
  qed
qed

lemma unat_block_addr:
  assumes "heap_ok hp" "s < num_blocks hp"
  shows "unat (block_addr hp s) = unat (hp_saddr hp) + s * 4096"
  using block_address [OF assms(1), of s] assms by (auto simp: heap_ok_def)

lemma block_extent:
  assumes "heap_ok hp" "s + n \<le> num_blocks hp" "0 < n"
  shows "unat (block_addr hp s) + n * 4096 \<le> 4294967296" "unat (block_addr hp s) mod 4096 = 0"
    "span (block_addr hp s) (n * 4096) \<inter> table_region hp = {}"
proof -
  have u: "unat (block_addr hp s) = unat (hp_saddr hp) + s * 4096"
    using assms by (intro unat_block_addr) auto
  have le: "(s + n) * 4096 \<le> num_blocks hp * 4096" using assms(2) by (intro mult_right_mono) auto
  then show b: "unat (block_addr hp s) + n * 4096 \<le> 4294967296"
    using u assms(1) by (auto simp: heap_ok_def algebra_simps)
  show "unat (block_addr hp s) mod 4096 = 0"
    using u assms(1) by (simp add: heap_ok_def)
  have "span (block_addr hp s) (n * 4096) \<subseteq> span (hp_saddr hp) (num_blocks hp * 4096)"
    using u le assms(1) by (intro span_subset) (auto simp: heap_ok_def algebra_simps)
  then show "span (block_addr hp s) (n * 4096) \<inter> table_region hp = {}"
    using assms(1) by (auto simp: heap_ok_def table_region_def)
qed

lemma avail_covered:
  "heap_repr (kmem s) (kernel_heap s) B \<Longrightarrow>
     kheap_avail s = card {i. i < num_blocks (kernel_heap s) \<and> \<not> covered B i}"
  unfolding kheap_avail_def by (rule arg_cong [of _ _ card]) (auto simp: block_free_iff)

lemma avail_alloc:
  assumes "hole hp B n s" "B s = None"
  shows "card {i. i < num_blocks hp \<and> \<not> covered (B(s \<mapsto> n)) i} + n = card {i. i < num_blocks hp \<and> \<not> covered B i}"
proof -
  have "{i. i < num_blocks hp \<and> \<not> covered B i}
      = {i. i < num_blocks hp \<and> \<not> covered (B(s \<mapsto> n)) i} \<union> {s..<s + n}"
    using assms by (auto simp: covered_upd hole_def fun_upd_idem)
  moreover have "{i. i < num_blocks hp \<and> \<not> covered (B(s \<mapsto> n)) i} \<inter> {s..<s + n} = {}"
    by (auto simp: covered_upd)
  ultimately show ?thesis by (simp add: card_Un_disjoint)
qed

section \<open>The kernel heap is a page source\<close>

text \<open>Memory is all an allocation changes, and the heap's geometry is fixed.\<close>

lemma kzalloc_eq:
  assumes "heap_malloc (kmem s) (kernel_heap s) sz = (p, m)" "p \<noteq> 0"
  shows "kzalloc sz s = (p, put_kmem (memset m p 0 sz) s)"
  using assms by (simp add: kzalloc_def kmalloc_def put_kmem_def)

lemma kheap_avail_room:
  assumes "kheap_ready s A" "0 < kheap_avail s"
  shows "kheap_room s 1"
proof -
  have "{i. i < num_blocks (kernel_heap s) \<and> block_free (kmem s) (kernel_heap s) i} \<noteq> {}"
    using assms(2) unfolding kheap_avail_def by (metis card.empty less_irrefl)
  then obtain i where "i < num_blocks (kernel_heap s)" "block_free (kmem s) (kernel_heap s) i" by blast
  then have "fits (kmem s) (kernel_heap s) 1 i" by (simp add: fits_def run_free_def)
  then show ?thesis unfolding kheap_room_def by blast
qed

text \<open>If fewer blocks are taken than the heap has disjoint runs of \<open>n\<close> blocks, one of the runs is free.\<close>

lemma kheap_room_count:
  assumes "w * n \<le> num_blocks (kernel_heap s)" "num_blocks (kernel_heap s) < w + kheap_avail s"
  shows "kheap_room s n"
proof (rule ccontr)
  let ?N = "num_blocks (kernel_heap s)" and ?free = "block_free (kmem s) (kernel_heap s)"
  assume no: "\<not> kheap_room s n"
  have "\<exists>k < n. \<not> ?free (v * n + k)" if v: "v < w" for v
  proof -
    have "(v + 1) * n \<le> w * n" using v by (intro mult_le_mono1) simp
    then have "v * n + n \<le> ?N" using assms(1) by simp
    then show ?thesis using no by (auto simp: kheap_room_def fits_def run_free_def)
  qed
  then obtain g where g: "\<forall>v < w. g v < n \<and> \<not> ?free (v * n + g v)" by metis
  have d: "(v * n + g v) div n = v" if "v < w" for v
    by (rule div_nat_eqI) (use g that in \<open>simp_all add: mult.commute\<close>)
  have inj: "inj_on (\<lambda>v. v * n + g v) {..<w}"
    by (rule inj_on_inverseI [of _ "\<lambda>i. i div n"]) (simp add: d)
  let ?F = "{i. i < ?N \<and> ?free i}" and ?T = "{i. i < ?N \<and> \<not> ?free i}"
  have "(\<lambda>v. v * n + g v) ` {..<w} \<subseteq> ?T"
  proof clarsimp
    fix v assume v: "v < w"
    have "(v + 1) * n \<le> w * n" using v by (intro mult_le_mono1) simp
    then show "v * n + g v < ?N \<and> \<not> ?free (v * n + g v)" using g v assms(1) by fastforce
  qed
  from card_mono [OF _ this] inj have "w \<le> card ?T" by (simp add: card_image)
  moreover have "card ?T + card ?F = ?N"
  proof -
    have "card (?T \<union> ?F) = card ?T + card ?F" by (intro card_Un_disjoint) auto
    moreover have "?T \<union> ?F = {..<?N}" by auto
    ultimately show ?thesis by simp
  qed
  ultimately show False using assms(2) by (simp add: kheap_avail_def)
qed

lemma heap_repr_frame:
  assumes "heap_ok hp" "heap_repr m hp B" "\<And>x. x \<in> table_region hp \<Longrightarrow> m' x = m x"
  shows "heap_repr m' hp B"
proof -
  have e: "entry_at m' hp i = entry_at m hp i" if "i < num_blocks hp" for i
    using that index_unat [OF assms(1) that] by (intro assms(3)) (simp only: in_table_region)
  have k: "entry_at m' hp (s + k) = entry_at m hp (s + k)" if "B s = Some n" "k < n" for s n k
    using heap_reprD(2) [OF assms(2) that(1)] that(2) by (intro e) simp
  from assms(2) show ?thesis unfolding heap_repr_def using e k by simp
qed

lemma kheap_put_ready:
  assumes "kheap_ready s A" "agree_off S (kmem s) m'" "S \<inter> kheap_reserved s = {}"
  shows "kheap_ready (put_kmem m' s) A \<and> kheap_avail (put_kmem m' s) = kheap_avail s"
proof -
  obtain B where B: "heap_ok (kernel_heap s)" "heap_repr (kmem s) (kernel_heap s) B" "A = live (kernel_heap s) B"
    using assms(1) by (auto simp: kheap_ready_def)
  have "heap_repr m' (kernel_heap s) B"
    using assms(2,3) by (intro heap_repr_frame [OF B(1,2)]) (auto simp: agree_off_def kheap_reserved_def)
  then show ?thesis
    using B avail_covered [of "put_kmem m' s" B] avail_covered [OF B(2)] by (auto simp: kheap_ready_def)
qed

lemma kheap_live_block:
  assumes "kheap_ready s A" "A p = Some n"
  obtains B i where "heap_ok (kernel_heap s)" "heap_repr (kmem s) (kernel_heap s) B"
    "A = live (kernel_heap s) B" "i < num_blocks (kernel_heap s)" "p = block_addr (kernel_heap s) i"
    "B i = Some n" "0 < n" "i + n \<le> num_blocks (kernel_heap s)"
proof -
  obtain B where B: "heap_ok (kernel_heap s)" "heap_repr (kmem s) (kernel_heap s) B" "A = live (kernel_heap s) B"
    using assms(1) by (auto simp: kheap_ready_def)
  obtain i where i: "i < num_blocks (kernel_heap s)" "p = block_addr (kernel_heap s) i" "B i = Some n"
    using live_SomeD [of "kernel_heap s" B p n] assms(2) B(3) by auto
  from that [OF B i heap_reprD(1,2) [OF B(2) i(3)]] show thesis .
qed

lemma kheap_live_disjoint:
  assumes "kheap_ready s A" "A p = Some n" "A q = Some k" "p \<noteq> q"
  shows "span p (n * 4096) \<inter> span q (k * 4096) = {}"
proof -
  obtain B i where B: "heap_ok (kernel_heap s)" "heap_repr (kmem s) (kernel_heap s) B"
    "A = live (kernel_heap s) B" and i: "i < num_blocks (kernel_heap s)" "p = block_addr (kernel_heap s) i"
    "B i = Some n" "0 < n" "i + n \<le> num_blocks (kernel_heap s)"
    using kheap_live_block [OF assms(1,2)] .
  obtain j where j: "j < num_blocks (kernel_heap s)" "q = block_addr (kernel_heap s) j" "B j = Some k"
    using live_SomeD [of "kernel_heap s" B q k] assms(3) B(3) by auto
  note k = heap_reprD(1,2) [OF B(2) j(3)]
  have "i \<noteq> j" using assms(4) i(2) j(2) by auto
  then have sep: "i + n \<le> j \<or> j + k \<le> i" using heap_repr_disjoint [OF B(2) i(3) j(3)] by blast
  note u = unat_block_addr [OF B(1) i(1)] unat_block_addr [OF B(1) j(1)]
  note e = block_extent(1) [OF B(1) i(5,4)] block_extent(1) [OF B(1) k(2,1)]
  from sep show ?thesis
  proof
    assume "i + n \<le> j"
    then have "(i + n) * 4096 \<le> j * 4096" by simp
    then show ?thesis unfolding i(2) j(2) by (intro span_disjoint e) (simp only: u, simp add: algebra_simps)
  next
    assume "j + k \<le> i"
    then have "(j + k) * 4096 \<le> i * 4096" by simp
    then show ?thesis unfolding i(2) j(2) by (intro span_disjoint_sym e) (simp only: u, simp add: algebra_simps)
  qed
qed

text \<open>What \<^verbatim>\<open>kzalloc\<close> does to the table: first fit, the pages zeroed up to the size asked for.\<close>

lemma kzalloc_first_fit:
  assumes "heap_ok (kernel_heap s)" "heap_repr (kmem s) (kernel_heap s) B" "sz \<noteq> 0" "unat sz \<le> 4294963200"
    "kheap_room s ((unat sz + 4095) div 4096)"
  obtains i m where "kzalloc sz s = (block_addr (kernel_heap s) i, put_kmem m s)"
    "hole (kernel_heap s) B ((unat sz + 4095) div 4096) i"
    "heap_repr m (kernel_heap s) (B(i \<mapsto> (unat sz + 4095) div 4096))"
    "\<forall>x \<in> span (block_addr (kernel_heap s) i) (unat sz). m x = 0"
    "agree_off (table_region (kernel_heap s) \<union> span (block_addr (kernel_heap s) i) (unat sz)) (kmem s) m"
proof -
  define n where "n = (unat sz + 4095) div 4096"
  let ?hp = "kernel_heap s"
  have "0 < unat sz" using assms(3) by (simp add: unat_gt_0)
  then have n: "0 < n" "unat sz \<le> n * 4096" by (simp_all add: n_def)
  obtain j where "hole ?hp B n j"
    using assms(5) fits_iff_hole [OF assms(2)] by (auto simp: kheap_room_def n_def)
  then obtain i m where i: "heap_malloc (kmem s) ?hp sz = (block_addr ?hp i, m)" "hole ?hp B n i"
    "heap_repr m ?hp (B(i \<mapsto> n))" "agree_off (table_region ?hp) (kmem s) m"
    using heap_malloc_first_fit [OF assms(1-4), folded n_def] by blast
  let ?p = "block_addr ?hp i" and ?m = "memset m (block_addr ?hp i) 0 sz"
  have bound: "i + n \<le> num_blocks ?hp" "i < num_blocks ?hp" using i(2) n(1) by (auto simp: hole_def)
  have sub: "span ?p (unat sz) \<subseteq> span ?p (n * 4096)" by (rule span_mono [OF n(2)])
  have fr: "agree_off (span ?p (unat sz)) m ?m" by (rule memset_agree)
  have "heap_repr ?m ?hp (B(i \<mapsto> n))"
    using block_extent(3) [OF assms(1) bound(1) n(1)] sub
    by (intro heap_repr_frame [OF assms(1) i(3)] agree_offD [OF fr]) blast
  moreover have "kzalloc sz s = (?p, put_kmem ?m s)"
    by (rule kzalloc_eq [OF i(1) block_addr_nonzero [OF assms(1) bound(2)]])
  moreover have "\<forall>x \<in> span ?p (unat sz). ?m x = 0" by (simp add: memset_apply span_def)
  ultimately show thesis
    using that [of i ?m] i(2) agree_off_trans [OF i(4) fr] unfolding n_def by blast
qed

lemma kheap_kzalloc_fresh:
  assumes "kheap_ready s A" "sz \<noteq> 0" "unat sz \<le> 4294963200" "kheap_room s ((unat sz + 4095) div 4096)"
  shows "\<exists>p m'. kzalloc sz s = (p, put_kmem m' s) \<and> p \<noteq> 0 \<and> unat p mod 4096 = 0 \<and>
        unat p + (unat sz + 4095) div 4096 * 4096 \<le> 4294967296 \<and>
        A p = None \<and> kheap_ready (put_kmem m' s) (A(p \<mapsto> (unat sz + 4095) div 4096)) \<and>
        kheap_avail (put_kmem m' s) + (unat sz + 4095) div 4096 = kheap_avail s \<and>
        (\<forall>x \<in> span p (unat sz). m' x = 0) \<and>
        agree_off (kheap_reserved s \<union> span p (unat sz)) (kmem s) m'"
proof -
  define n where "n = (unat sz + 4095) div 4096"
  let ?hp = "kernel_heap s"
  obtain B where B: "heap_ok ?hp" "heap_repr (kmem s) ?hp B" "A = live ?hp B"
    using assms(1) by (auto simp: kheap_ready_def)
  have "0 < unat sz" using assms(2) by (simp add: unat_gt_0)
  then have n: "0 < n" by (simp add: n_def)
  obtain i m where i: "kzalloc sz s = (block_addr ?hp i, put_kmem m s)" "hole ?hp B n i"
    "heap_repr m ?hp (B(i \<mapsto> n))" "\<forall>x \<in> span (block_addr ?hp i) (unat sz). m x = 0"
    "agree_off (table_region ?hp \<union> span (block_addr ?hp i) (unat sz)) (kmem s) m"
    using kzalloc_first_fit [OF B(1,2) assms(2-4)] unfolding n_def by blast
  let ?p = "block_addr ?hp i"
  have bound: "i + n \<le> num_blocks ?hp" "i < num_blocks ?hp" using i(2) n by (auto simp: hole_def)
  have none: "B i = None" by (rule hole_not_start [OF i(2) n B(2)])
  have "kheap_ready (put_kmem m s) (A(?p \<mapsto> n))"
    using B(1,3) i(3) live_upd [OF B(1) bound(2), of B "Some n"] by (auto simp: kheap_ready_def)
  moreover have "kheap_avail (put_kmem m s) + n = kheap_avail s"
    using avail_alloc [OF i(2) none] avail_covered [of "put_kmem m s" "B(i \<mapsto> n)"] i(3)
      avail_covered [OF B(2)] by simp
  moreover have "A ?p = None" using B(3) none live_block [OF B(1) bound(2)] by simp
  ultimately show ?thesis
    unfolding n_def [symmetric] kheap_reserved_def
    using i(1,4,5) block_extent(1,2) [OF B(1) bound(1) n] block_addr_nonzero [OF B(1) bound(2)]
    by - (intro exI conjI, assumption+)
qed

lemma avail_release:
  assumes "heap_repr m hp B" "B i = Some n"
  shows "card {j. j < num_blocks hp \<and> \<not> covered (B(i := None)) j}
    = card {j. j < num_blocks hp \<and> \<not> covered B j} + n"
proof -
  let ?B = "B(i := None)"
  have B: "?B(i \<mapsto> n) = B" using assms(2) by auto
  have un: "\<not> covered ?B j" if "i \<le> j" "j < i + n" for j
  proof
    assume "covered ?B j"
    then obtain s k where "?B s = Some k" "s \<le> j" "j < s + k" by (auto simp: covered_def)
    then show False
      using heap_repr_disjoint [OF assms, of s k] that by (auto split: if_splits)
  qed
  have "hole hp ?B n i" using heap_reprD(2) [OF assms] un by (simp add: hole_def)
  from avail_alloc [OF this] show ?thesis unfolding B by simp
qed

lemma kheap_kfree_live:
  assumes "kheap_ready s A" "A p = Some n"
  shows "\<exists>m'. kfree p s = put_kmem m' s \<and> kheap_ready (put_kmem m' s) (A(p := None)) \<and>
     kheap_avail (put_kmem m' s) = kheap_avail s + n \<and> agree_off (kheap_reserved s) (kmem s) m'"
proof -
  let ?hp = "kernel_heap s" and ?m = "heap_free (kmem s) (kernel_heap s) p"
  obtain B i where B: "heap_ok ?hp" "heap_repr (kmem s) ?hp B" "A = live ?hp B"
    and i: "i < num_blocks ?hp" "p = block_addr ?hp i" "B i = Some n" "0 < n" "i + n \<le> num_blocks ?hp"
    using kheap_live_block [OF assms] .
  have f: "heap_repr ?m ?hp (B(i := None))" "agree_off (table_region ?hp) (kmem s) ?m"
    using heap_free_clears [OF B(1,2) i(3)] unfolding i(2) by blast+
  have "kheap_ready (put_kmem ?m s) (A(p := None))"
    using B(1,3) f(1) live_upd [OF B(1) i(1), of B None] i(2) by (auto simp: kheap_ready_def)
  moreover have "kheap_avail (put_kmem ?m s) = kheap_avail s + n"
    using avail_release [OF B(2) i(3)] avail_covered [of "put_kmem ?m s" "B(i := None)"] f(1)
      avail_covered [OF B(2)] by simp
  moreover have "kfree p s = put_kmem ?m s" by (simp add: kfree_def put_kmem_def)
  ultimately show ?thesis using f(2) unfolding kheap_reserved_def by blast
qed

lemma kheap_live_bounds:
  assumes "kheap_ready s A" "A p = Some n"
  shows "0 < n \<and> unat p mod 4096 = 0 \<and> unat p + n * 4096 \<le> 4294967296"
proof -
  obtain B i where B: "heap_ok (kernel_heap s)" "p = block_addr (kernel_heap s) i" "0 < n"
    "i + n \<le> num_blocks (kernel_heap s)"
    using kheap_live_block [OF assms] .
  from B(3) block_extent(1,2) [OF B(1,4,3)] show ?thesis unfolding B(2) by blast
qed

lemma kheap_live_reserved:
  assumes "kheap_ready s A" "A p = Some n"
  shows "span p (n * 4096) \<inter> kheap_reserved s = {}"
proof -
  obtain B i where B: "heap_ok (kernel_heap s)" "p = block_addr (kernel_heap s) i" "0 < n"
    "i + n \<le> num_blocks (kernel_heap s)"
    using kheap_live_block [OF assms] .
  from block_extent(3) [OF B(1,4,3)] show ?thesis unfolding B(2) kheap_reserved_def .
qed

lemma kheap_reserved_put: "kheap_reserved (put_kmem m s) = kheap_reserved s"
  by (simp add: kheap_reserved_def)

interpretation kh: page_source kheap_ready kheap_room kheap_avail kmem put_kmem kheap_reserved kzalloc kfree
  by (rule page_source.intro)
    (fact put_kmem_simps kheap_reserved_put kheap_avail_room kheap_kzalloc_fresh kheap_live_reserved
      kheap_live_disjoint kheap_live_bounds kheap_put_ready kheap_kfree_live)+

text \<open>The bytes the heap may still hand out: those of its free blocks.\<close>

definition kheap_spare :: "'z kstate_scheme \<Rightarrow> u32 set" where
  "kheap_spare s = kheap_reserved s \<union>
     (\<Union>i \<in> {i. i < num_blocks (kernel_heap s) \<and> block_free (kmem s) (kernel_heap s) i}.
        span (block_addr (kernel_heap s) i) 4096)"

lemma in_block_run:
  assumes "heap_ok hp" "s + n \<le> num_blocks hp" "0 < n"
  shows "x \<in> span (block_addr hp s) (n * 4096) \<longleftrightarrow> (\<exists>i. s \<le> i \<and> i < s + n \<and> x \<in> span (block_addr hp i) 4096)"
proof -
  have u: "unat (block_addr hp i) = unat (hp_saddr hp) + i * 4096" if "i < s + n" for i
    using that assms(2) by (intro unat_block_addr [OF assms(1)]) simp
  have one: "x \<in> span (block_addr hp i) 4096 \<longleftrightarrow>
      unat (hp_saddr hp) + i * 4096 \<le> unat x \<and> unat x < unat (hp_saddr hp) + i * 4096 + 4096" if "i < s + n" for i
    using block_extent(1) [OF assms(1), of i 1] that assms(2) u [OF that] by (subst span_iff) auto
  have all: "x \<in> span (block_addr hp s) (n * 4096) \<longleftrightarrow>
      unat (hp_saddr hp) + s * 4096 \<le> unat x \<and> unat x < unat (hp_saddr hp) + s * 4096 + n * 4096"
    using block_extent(1) [OF assms] u [of s] assms(3) by (subst span_iff) auto
  show ?thesis
  proof
    assume "x \<in> span (block_addr hp s) (n * 4096)"
    then have b: "unat (hp_saddr hp) + s * 4096 \<le> unat x" "unat x < unat (hp_saddr hp) + s * 4096 + n * 4096"
      using all by blast+
    define y where "y = unat x - unat (hp_saddr hp)"
    have "s \<le> y div 4096" "y div 4096 < s + n"
      using b by (auto simp: y_def less_eq_div_iff_mult_less_eq div_less_iff_less_mult)
    moreover have "x \<in> span (block_addr hp (y div 4096)) 4096"
    proof -
      have "unat x = unat (hp_saddr hp) + y" using b(1) by (simp add: y_def)
      moreover have "y div 4096 * 4096 \<le> y" by (rule div_times_less_eq_dividend)
      moreover have "y < y div 4096 * 4096 + 4096" using dividend_less_div_times [of 4096 y] by linarith
      ultimately show ?thesis unfolding one [OF \<open>y div 4096 < s + n\<close>] by linarith
    qed
    ultimately show "\<exists>i. s \<le> i \<and> i < s + n \<and> x \<in> span (block_addr hp i) 4096" by blast
  next
    assume "\<exists>i. s \<le> i \<and> i < s + n \<and> x \<in> span (block_addr hp i) 4096"
    then obtain i where i: "s \<le> i" "i < s + n" "x \<in> span (block_addr hp i) 4096" by blast
    have "s * 4096 \<le> i * 4096" "i * 4096 + 4096 \<le> s * 4096 + n * 4096" using i(1,2) by linarith+
    then show "x \<in> span (block_addr hp s) (n * 4096)" using i(3) unfolding all one [OF i(2)] by linarith
  qed
qed

lemma in_spare:
  assumes "heap_ok (kernel_heap s)" "heap_repr (kmem s) (kernel_heap s) B"
  shows "x \<in> kheap_spare s \<longleftrightarrow> x \<in> kheap_reserved s \<or>
     (\<exists>i < num_blocks (kernel_heap s). \<not> covered B i \<and> x \<in> span (block_addr (kernel_heap s) i) 4096)"
  unfolding kheap_spare_def using block_free_iff [OF assms(2)] by auto

lemma kheap_reserved_spare: "kheap_ready s A \<Longrightarrow> kheap_reserved s \<subseteq> kheap_spare s"
  by (simp add: kheap_spare_def)

lemma blocks_disjoint:
  assumes "heap_ok hp" "i < num_blocks hp" "j < num_blocks hp" "i \<noteq> j"
  shows "span (block_addr hp i) 4096 \<inter> span (block_addr hp j) 4096 = {}"
proof -
  note u = unat_block_addr [OF assms(1,2)] unat_block_addr [OF assms(1,3)]
  have e: "unat (block_addr hp i) + 4096 \<le> 4294967296" "unat (block_addr hp j) + 4096 \<le> 4294967296"
    using block_extent(1) [OF assms(1), of _ 1] assms(2,3) by auto
  from assms(4) consider "i + 1 \<le> j" | "j + 1 \<le> i" by linarith
  then show ?thesis
  proof cases
    case 1
    then have "(i + 1) * 4096 \<le> j * 4096" by simp
    then show ?thesis by (intro span_disjoint e) (simp only: u, simp)
  next
    case 2
    then have "(j + 1) * 4096 \<le> i * 4096" by simp
    then show ?thesis by (intro span_disjoint_sym e) (simp only: u, simp)
  qed
qed

lemma kheap_live_spare:
  assumes "kheap_ready s A" "A p = Some n"
  shows "span p (n * 4096) \<inter> kheap_spare s = {}"
proof -
  obtain B i where B: "heap_ok (kernel_heap s)" "heap_repr (kmem s) (kernel_heap s) B"
    "p = block_addr (kernel_heap s) i" "B i = Some n" "0 < n" "i + n \<le> num_blocks (kernel_heap s)"
    using kheap_live_block [OF assms] .
  have "x \<notin> kheap_spare s" if x: "x \<in> span p (n * 4096)" for x
  proof
    assume "x \<in> kheap_spare s"
    moreover have "x \<notin> kheap_reserved s" using kheap_live_reserved [OF assms] x by blast
    ultimately obtain j where j: "j < num_blocks (kernel_heap s)" "\<not> covered B j"
        "x \<in> span (block_addr (kernel_heap s) j) 4096"
      using in_spare [OF B(1,2)] by blast
    obtain k where k: "i \<le> k" "k < i + n" "x \<in> span (block_addr (kernel_heap s) k) 4096"
      using x in_block_run [OF B(1,6,5)] unfolding B(3) by blast
    have "covered B k" using k(1,2) B(4) by (intro coveredI)
    then have "j \<noteq> k" using j(2) by blast
    then show False using blocks_disjoint [OF B(1) j(1), of k] j(3) k B(6) by auto
  qed
  then show ?thesis by blast
qed

lemma kheap_put_block:
  assumes "kheap_ready s A" "agree_off S (kmem s) m'" "S \<inter> kheap_reserved s = {}" "i < num_blocks (kernel_heap s)"
  shows "block_free m' (kernel_heap s) i = block_free (kmem s) (kernel_heap s) i"
proof -
  have "ht_entries (hp_table (kernel_heap s)) + word_of_nat i \<in> kheap_reserved s"
    unfolding kheap_reserved_def in_table_region
    using index_unat [of "kernel_heap s" i] assms(1,4) by (simp add: kheap_ready_def)
  then show ?thesis using agree_offD [OF assms(2)] assms(3) unfolding block_free_def by (metis disjoint_iff)
qed

lemma kheap_put_spare:
  assumes "kheap_ready s A" "agree_off S (kmem s) m'" "S \<inter> kheap_reserved s = {}"
  shows "kheap_spare (put_kmem m' s) = kheap_spare s"
  using kheap_put_block [OF assms] by (auto simp: kheap_spare_def kheap_reserved_def)

lemma kheap_put_room:
  assumes "kheap_ready s A" "agree_off S (kmem s) m'" "S \<inter> kheap_reserved s = {}"
  shows "kheap_room (put_kmem m' s) n = kheap_room s n"
  using kheap_put_block [OF assms] by (auto simp: kheap_room_def fits_def run_free_def)

text \<open>The state in which the heap refuses what it has no room for: the last block of its table is taken. Where it is free,
  the search falls out of its loop with whatever run ends the table (\<open>heap_malloc_without_room\<close>).\<close>

definition last_block_taken :: "'z kstate_scheme \<Rightarrow> bool" where
  "last_block_taken s \<longleftrightarrow> \<not> block_free (kmem s) (kernel_heap s) (num_blocks (kernel_heap s) - 1)"

lemma kheap_live_blocks: "kheap_ready s A \<Longrightarrow> A p = Some n \<Longrightarrow> 0 < num_blocks (kernel_heap s)"
  unfolding kheap_ready_def by (auto dest: live_SomeD)

lemma kheap_put_last:
  assumes "kheap_ready s A" "A p = Some n" "agree_off S (kmem s) m'" "S \<inter> kheap_reserved s = {}"
  shows "last_block_taken (put_kmem m' s) = last_block_taken s"
  using kheap_put_block [OF assms(1,3,4), of "num_blocks (kernel_heap s) - 1"] kheap_live_blocks [OF assms(1,2)]
  by (simp add: last_block_taken_def)

lemma kzalloc_refused:
  assumes "kheap_ready s A" "A p = Some n" "last_block_taken s"
    and "sz = 0 \<or> 4294963200 < unat sz \<or> \<not> kheap_room s ((unat sz + 4095) div 4096)"
  shows "kzalloc sz s = (0, s)"
proof -
  obtain B where B: "heap_ok (kernel_heap s)" "heap_repr (kmem s) (kernel_heap s) B" using assms(1) by (auto simp: kheap_ready_def)
  have "heap_malloc (kmem s) (kernel_heap s) sz = (0, kmem s)"
    using heap_malloc_refused [OF B kheap_live_blocks [OF assms(1,2)]] assms(3,4)
    by (simp add: last_block_taken_def kheap_room_def fits_iff_hole [OF B(2)])
  then show ?thesis by (simp add: kzalloc_def kmalloc_def)
qed

lemma kheap_kzalloc_spare:
  assumes "kheap_ready s A" "sz \<noteq> 0" "unat sz \<le> 4294963200" "kheap_room s ((unat sz + 4095) div 4096)"
    "kzalloc sz s = (p, s')"
  shows "span p ((unat sz + 4095) div 4096 * 4096) \<subseteq> kheap_spare s \<and> kheap_spare s' \<subseteq> kheap_spare s"
proof -
  define n where "n = (unat sz + 4095) div 4096"
  let ?hp = "kernel_heap s"
  have "0 < unat sz" using assms(2) by (simp add: unat_gt_0)
  then have n: "0 < n" by (simp add: n_def)
  obtain B where B: "heap_ok ?hp" "heap_repr (kmem s) ?hp B"
    using assms(1) by (auto simp: kheap_ready_def)
  obtain i m where i: "kzalloc sz s = (block_addr ?hp i, put_kmem m s)" "hole ?hp B n i"
    "heap_repr m ?hp (B(i \<mapsto> n))"
    using kzalloc_first_fit [OF B assms(2-4)] unfolding n_def by blast
  then have p: "p = block_addr ?hp i" "s' = put_kmem m s" using assms(5) by auto
  have none: "B i = None" by (rule hole_not_start [OF i(2) n B(2)])
  have bound: "i + n \<le> num_blocks ?hp" using i(2) by (simp add: hole_def)
  have "x \<in> kheap_spare s" if "x \<in> span (block_addr ?hp i) (n * 4096)" for x
    using that i(2) bound unfolding in_block_run [OF B(1) bound n] in_spare [OF B] hole_def
    by (meson less_le_trans)
  moreover have "covered (B(i \<mapsto> n)) j" if "covered B j" for j
    using that none unfolding covered_upd by (simp add: fun_upd_idem)
  then have "x \<in> kheap_spare s" if "x \<in> kheap_spare (put_kmem m s)" for x
    using that in_spare [of "put_kmem m s" "B(i \<mapsto> n)" x] i(3) B(1) in_spare [OF B, of x]
    by (auto simp: kheap_reserved_def)
  ultimately show ?thesis unfolding p n_def [symmetric] by blast
qed

lemma kheap_kfree_spare:
  assumes "kheap_ready s A" "A p = Some n"
  shows "kheap_spare (kfree p s) \<subseteq> kheap_spare s \<union> span p (n * 4096)"
proof -
  let ?hp = "kernel_heap s"
  obtain B i where B: "heap_ok ?hp" "heap_repr (kmem s) ?hp B"
    and i: "p = block_addr ?hp i" "B i = Some n" "0 < n" "i + n \<le> num_blocks ?hp"
    using kheap_live_block [OF assms] .
  have f: "heap_repr (heap_free (kmem s) ?hp p) ?hp (B(i := None))"
    using heap_free_clears [OF B(1,2) i(2)] unfolding i(1) by blast
  have cov: "i \<le> j \<and> j < i + n" if "covered B j" "\<not> covered (B(i := None)) j" for j
    using that covered_upd [of B i n j] i(2) by (auto simp: fun_upd_idem)
  have "x \<in> kheap_spare s \<union> span p (n * 4096)" if "x \<in> kheap_spare (kfree p s)" for x
  proof -
    have "x \<in> kheap_reserved s \<or>
        (\<exists>j < num_blocks ?hp. \<not> covered (B(i := None)) j \<and> x \<in> span (block_addr ?hp j) 4096)"
      using that in_spare [of "kfree p s" "B(i := None)" x] f B(1) by (simp add: kfree_def kheap_reserved_def)
    then show ?thesis
      unfolding i(1) Un_iff in_spare [OF B] in_block_run [OF B(1) i(4,3)] using cov by blast
  qed
  then show ?thesis by blast
qed

interpretation kh: page_pool kheap_ready kheap_room kheap_avail kmem put_kmem kheap_reserved kzalloc kfree kheap_spare
  by (unfold_locales; fact kheap_reserved_spare kheap_kzalloc_spare kheap_put_spare kheap_kfree_spare kheap_live_spare)

section \<open>Allocation maps\<close>

lemma kmem_put: "s\<lparr>kmem := m\<rparr> = put_kmem m s"
  by (simp add: put_kmem_def)

text \<open>The allocation map with a page at each of the addresses of a list, and without them.\<close>

definition with_pages :: "(u32 \<Rightarrow> nat option) \<Rightarrow> u32 list \<Rightarrow> u32 \<Rightarrow> nat option" where
  "with_pages A ts = (\<lambda>p. if p \<in> set ts then Some 1 else A p)"

lemma with_pages_simps [simp]:
  "with_pages A [] = A" "with_pages (A(p \<mapsto> Suc 0)) ts = with_pages A (p # ts)"
  "p \<in> set ts \<Longrightarrow> with_pages A ts p = Some 1" "p \<notin> set ts \<Longrightarrow> with_pages A ts p = A p"
  by (auto simp: with_pages_def)

definition without :: "(u32 \<Rightarrow> nat option) \<Rightarrow> u32 list \<Rightarrow> u32 \<Rightarrow> nat option" where
  "without A ts = (\<lambda>p. if p \<in> set ts then None else A p)"

lemma without_simps [simp]:
  "without A [] = A" "without (A(p := None)) ts = without A (p # ts)"
  "(without A ts)(p := None) = without A (p # ts)"
  by (auto simp: without_def)

text \<open>The live allocations hold the same bytes in both memories.\<close>

definition kept :: "(u32 \<Rightarrow> nat option) \<Rightarrow> mem \<Rightarrow> mem \<Rightarrow> bool" where
  "kept A m m' \<longleftrightarrow> (\<forall>q k x. A q = Some k \<longrightarrow> x \<in> span q (k * 4096) \<longrightarrow> m' x = m x)"

lemma keptD: "kept A m m' \<Longrightarrow> A q = Some k \<Longrightarrow> x \<in> span q (k * 4096) \<Longrightarrow> m' x = m x"
  by (simp add: kept_def)

lemma kept_trans: "kept A m m' \<Longrightarrow> kept A m' m'' \<Longrightarrow> kept A m m''"
  by (simp add: kept_def)

lemma kept_off: "agree_off S m m' \<Longrightarrow> (\<And>q k. A q = Some k \<Longrightarrow> span q (k * 4096) \<inter> S = {}) \<Longrightarrow> kept A m m'"
  unfolding kept_def agree_off_def by blast

text \<open>What a mixture of allocations, stores into \<open>L\<close> and releases of fresh pages does to the state: memory
  changes only in \<open>L\<close> and where the heap was free to write, and no more of it is free than before.\<close>

definition grows :: "u32 set \<Rightarrow> 'z kstate_scheme \<Rightarrow> 'z kstate_scheme \<Rightarrow> (u32 \<Rightarrow> nat option) \<Rightarrow> bool" where
  "grows L s s' A' \<longleftrightarrow> (\<exists>m'. s' = put_kmem m' s \<and> agree_off (kheap_spare s \<union> L) (kmem s) m') \<and>
     kheap_ready s' A' \<and> kheap_spare s' \<subseteq> kheap_spare s"

lemma growsD:
  assumes "grows L s s' A'"
  shows "kheap_ready s' A'" "kheap_spare s' \<subseteq> kheap_spare s"
    "agree_off (kheap_spare s \<union> L) (kmem s) (kmem s')" "s' = put_kmem (kmem s') s"
  using assms by (auto simp: grows_def)

lemma grows_trans:
  assumes "grows L s s' A'" "grows M s' s'' A''" "M \<subseteq> L \<union> kheap_spare s"
  shows "grows L s s'' A''"
proof -
  have "kheap_spare s' \<union> M \<subseteq> kheap_spare s \<union> L" using growsD(2) [OF assms(1)] assms(3) by blast
  with growsD(3) [OF assms(1)] agree_off_mono [OF growsD(3) [OF assms(2)]]
  have "agree_off (kheap_spare s \<union> L) (kmem s) (kmem s'')" by (blast intro: agree_off_trans_same)
  moreover have "s'' = put_kmem (kmem s'') s"
    using growsD(4) [OF assms(1)] growsD(4) [OF assms(2)] by (metis put_kmem_simps(3))
  ultimately show ?thesis
    unfolding grows_def using growsD(1) [OF assms(2)] growsD(2) [OF assms(1)] growsD(2) [OF assms(2)] by blast
qed

lemma grows_mono: "grows L s s' A' \<Longrightarrow> L \<subseteq> M \<Longrightarrow> grows M s s' A'"
  unfolding grows_def using agree_off_mono [of _ _ _ "kheap_spare s \<union> M"] by blast

lemma kzalloc_grows:
  assumes "kheap_ready s A" "sz \<noteq> 0" "unat sz \<le> 4096" "0 < kheap_avail s"
  obtains p s' where "kzalloc sz s = (p, s')" "p \<noteq> 0" "unat p mod 4096 = 0" "A p = None"
    "grows {} s s' (A(p \<mapsto> 1))" "kheap_avail s' + 1 = kheap_avail s" "\<forall>x \<in> span p (unat sz). kmem s' x = 0"
    "span p 4096 \<subseteq> kheap_spare s" "kheap_spare s' \<inter> span p 4096 = {}"
proof -
  obtain p m' where p: "kzalloc sz s = (p, put_kmem m' s)" "p \<noteq> 0" "unat p mod 4096 = 0" "A p = None"
    "kheap_ready (put_kmem m' s) (A(p \<mapsto> 1))" "kheap_avail (put_kmem m' s) + 1 = kheap_avail s"
    "\<forall>x \<in> span p (unat sz). m' x = 0" "agree_off (kheap_spare s) (kmem s) m'"
    "span p 4096 \<subseteq> kheap_spare s" "kheap_spare (put_kmem m' s) \<subseteq> kheap_spare s - span p 4096"
    using kh.zalloc_page_stable [OF assms] by (elim exE conjE) (rule that, assumption+)
  have "grows {} s (put_kmem m' s) (A(p \<mapsto> 1))" unfolding grows_def using p(5,8,10) by auto
  moreover have "\<forall>x \<in> span p (unat sz). kmem (put_kmem m' s) x = 0" using p(7) by simp
  moreover have "kheap_spare (put_kmem m' s) \<inter> span p 4096 = {}" using p(10) by blast
  ultimately show thesis using that [OF p(1-4) _ p(6)] p(9) by blast
qed

text \<open>A store inside a live allocation.\<close>

lemma grows_store:
  assumes "kheap_ready s A" "A p = Some n" "S \<subseteq> span p (n * 4096)" "agree_off S (kmem s) m"
  shows "grows S s (put_kmem m s) A" "kheap_avail (put_kmem m s) = kheap_avail s"
    "kheap_spare (put_kmem m s) = kheap_spare s"
proof -
  have a: "agree_off (span p (n * 4096)) (kmem s) m" by (rule agree_off_mono [OF assms(4,3)])
  note w = kh.write_live [OF assms(1,2) a] kh.write_live_spare [OF assms(1,2) a]
  show "kheap_avail (put_kmem m s) = kheap_avail s" "kheap_spare (put_kmem m s) = kheap_spare s"
    using w by blast+
  have "agree_off (kheap_spare s \<union> S) (kmem s) m" by (rule agree_off_mono [OF assms(4)]) blast
  then show "grows S s (put_kmem m s) A" unfolding grows_def using w(1,3) by blast
qed

lemma grows_page:
  assumes "grows L s s' A" "A p = Some 1" "S \<subseteq> span p 4096" "S \<subseteq> L \<union> kheap_spare s" "agree_off S (kmem s') m"
  shows "grows L s (put_kmem m s') A" "kheap_avail (put_kmem m s') = kheap_avail s'"
    "kheap_spare (put_kmem m s') = kheap_spare s'"
proof -
  have "S \<subseteq> span p (1 * 4096)" using assms(3) by simp
  note w = grows_store [OF growsD(1) [OF assms(1)] assms(2) this assms(5)]
  show "grows L s (put_kmem m s') A" by (rule grows_trans [OF assms(1) w(1) assms(4)])
  show "kheap_avail (put_kmem m s') = kheap_avail s'" "kheap_spare (put_kmem m s') = kheap_spare s'"
    using w by blast+
qed

lemma kfree_grows:
  assumes "grows L s s' (A(q \<mapsto> 1))" "A q = None" "span q 4096 \<subseteq> kheap_spare s"
  shows "grows L s (kfree q s') A" "kheap_avail (kfree q s') = kheap_avail s' + 1"
proof -
  have "(A(q \<mapsto> 1)) q = Some 1" by simp
  from kh.release_live [OF growsD(1) [OF assms(1)] this] kh.release_spare [OF growsD(1) [OF assms(1)] this]
  obtain m where m: "kfree q s' = put_kmem m s'" "kheap_ready (put_kmem m s') ((A(q \<mapsto> 1))(q := None))"
    "kheap_avail (put_kmem m s') = kheap_avail s' + 1" "agree_off (kheap_reserved s') (kmem s') m"
    "kheap_spare (kfree q s') \<subseteq> kheap_spare s' \<union> span q (1 * 4096)"
    by (elim exE conjE) (rule that, assumption+)
  have A: "(A(q \<mapsto> 1))(q := None) = A" using assms(2) by auto
  have res: "kheap_reserved s' \<subseteq> kheap_spare s \<union> L"
    using kheap_reserved_spare [OF growsD(1) [OF assms(1)]] growsD(2) [OF assms(1)] by blast
  have "agree_off (kheap_spare s \<union> L) (kmem s) m"
    using growsD(3) [OF assms(1)] agree_off_mono [OF m(4) res] by (rule agree_off_trans_same)
  moreover have "put_kmem m s' = put_kmem m s" using growsD(4) [OF assms(1)] by (metis put_kmem_simps(3))
  ultimately show "grows L s (kfree q s') A"
    unfolding grows_def using m(1,2,5) growsD(2) [OF assms(1)] assms(3) A by auto
  show "kheap_avail (kfree q s') = kheap_avail s' + 1" using m(1,3) by simp
qed

text \<open>What such a run leaves alone: every address outside \<open>L\<close> and the heap's free memory.\<close>

lemma grows_same: "grows L s s' A' \<Longrightarrow> x \<notin> kheap_spare s \<Longrightarrow> x \<notin> L \<Longrightarrow> kmem s' x = kmem s x"
  using agree_offD [OF growsD(3)] by blast

lemma grows_live:
  assumes "grows L s s' A'" "kheap_ready s A" "A p = Some 1" "S \<subseteq> span p 4096" "S \<inter> L = {}" "x \<in> S"
  shows "kmem s' x = kmem s x"
proof (rule grows_same [OF assms(1)])
  show "x \<notin> kheap_spare s" using kh.live_spare [OF assms(2,3)] assms(4,6) by auto
  show "x \<notin> L" using assms(5,6) by blast
qed

section \<open>The heap the kernel boots with\<close>

definition boot_heap :: heap where
  "boot_heap = \<lparr>hp_table = \<lparr>ht_entries = PEACHOS_HEAP_TABLE_ADDRESS, ht_total = 25600\<rparr>, hp_saddr = PEACHOS_HEAP_ADDRESS\<rparr>"

lemma boot_heap_simps [simp]:
  "num_blocks boot_heap = 25600" "ht_entries (hp_table boot_heap) = 0x7e00" "hp_saddr boot_heap = 0x1000000"
  by (simp_all add: boot_heap_def)

lemma boot_heap_ok: "heap_ok boot_heap"
proof -
  have "span 0x7e00 25600 \<inter> span 0x1000000 104857600 = {}" by (intro span_disjoint) simp_all
  then show ?thesis by (simp add: heap_ok_def)
qed

lemma kheap_init_eq:
  "\<exists>m. kheap_init s = s\<lparr>kmem := m, kernel_heap := boot_heap\<rparr> \<and> heap_repr m boot_heap (\<lambda>_. None) \<and>
     agree_off (table_region boot_heap) (kmem s) m"
proof -
  let ?tbl = "\<lparr>ht_entries = 0x7e00, ht_total = 25600\<rparr> :: heap_table"
  obtain m where m: "heap_create (kmem s) (kernel_heap s) 0x1000000 0x7400000 ?tbl = (0, boot_heap, m)"
    "heap_repr m boot_heap (\<lambda>_. None)" "agree_off (table_region boot_heap) (kmem s) m"
    using heap_create_empty [of "0x1000000" "0x7400000" ?tbl "kmem s" "kernel_heap s"]
    by (auto simp: boot_heap_def)
  have "kheap_init s = s\<lparr>kmem := m, kernel_heap := boot_heap\<rparr>"
    by (simp add: kheap_init_def m(1))
  with m(2,3) show ?thesis by blast
qed

lemma kernel_heap_init [simp]: "kernel_heap (kheap_init s) = boot_heap"
  using kheap_init_eq [of s] by auto

lemma kheap_init_avail:
  "kheap_ready (kheap_init s) (\<lambda>_. None) \<and> kheap_avail (kheap_init s) = 25600"
proof -
  obtain m where m: "kheap_init s = s\<lparr>kmem := m, kernel_heap := boot_heap\<rparr>" "heap_repr m boot_heap (\<lambda>_. None)"
    using kheap_init_eq by blast
  have "live boot_heap (\<lambda>_. None) = (\<lambda>_. None)" by (simp add: live_def Let_def fun_eq_iff)
  then have "kheap_ready (kheap_init s) (\<lambda>_. None)"
    unfolding kheap_ready_def m(1) using m(2) boot_heap_ok by (auto intro: exI [of _ "\<lambda>_. None"])
  moreover have "kheap_avail (kheap_init s) = 25600"
    using avail_covered [of "kheap_init s" "\<lambda>_. None"] m by (simp add: covered_def)
  ultimately show ?thesis ..
qed

text \<open>\<^verbatim>\<open>kheap_init\<close> leaves, whatever was in memory, an empty heap of 25600 free blocks of 4096
  bytes at \<^verbatim>\<open>PEACHOS_HEAP_ADDRESS\<close>, prints nothing, and writes only the 25600 table bytes from
  \<^verbatim>\<open>PEACHOS_HEAP_TABLE_ADDRESS\<close> on.\<close>

theorem kheap_init_empty:
  "kheap_ready (kheap_init s) (\<lambda>_. None) \<and> kheap_avail (kheap_init s) = 25600 \<and>
   hp_saddr (kernel_heap (kheap_init s)) = PEACHOS_HEAP_ADDRESS \<and>
   agree_off (span PEACHOS_HEAP_TABLE_ADDRESS 25600) (kmem s) (kmem (kheap_init s)) \<and>
   video_mem (kheap_init s) = video_mem s \<and> terminal_row (kheap_init s) = terminal_row s \<and>
   terminal_col (kheap_init s) = terminal_col s"
proof -
  obtain m where m: "kheap_init s = s\<lparr>kmem := m, kernel_heap := boot_heap\<rparr>"
    "agree_off (table_region boot_heap) (kmem s) m"
    using kheap_init_eq by blast
  have "table_region boot_heap = span 0x7e00 25600" by (simp add: table_region_def)
  then have "agree_off (span 0x7e00 25600) (kmem s) (kmem (kheap_init s))" using m by simp
  with kheap_init_avail [of s] show ?thesis by (simp add: m(1))
qed

section \<open>Static data\<close>

text \<open>Static data: apart from everything the heap hands out or writes.\<close>

definition heap_apart :: "'z kstate_scheme \<Rightarrow> (u32 \<Rightarrow> nat option) \<Rightarrow> u32 set \<Rightarrow> bool" where
  "heap_apart s A S \<longleftrightarrow> S \<inter> kheap_spare s = {} \<and> (\<forall>p n. A p = Some n \<longrightarrow> span p (n * 4096) \<inter> S = {})"

lemma heap_apart_live: "heap_apart s A S \<Longrightarrow> A p = Some n \<Longrightarrow> span p (n * 4096) \<inter> S = {}"
  by (simp add: heap_apart_def)

lemma heap_apart_page: "heap_apart s A S \<Longrightarrow> A p = Some 1 \<Longrightarrow> span p 4096 \<inter> S = {}"
  using heap_apart_live [of s A S p 1] by simp

lemma heap_apart_spare: "heap_apart s A S \<Longrightarrow> S \<inter> kheap_spare s = {}"
  by (simp add: heap_apart_def)

lemma heap_apart_sub: "heap_apart s A S \<Longrightarrow> T \<subseteq> S \<Longrightarrow> heap_apart s A T"
  unfolding heap_apart_def by blast

lemma heap_apart_grow:
  assumes "heap_apart s A S" "kheap_spare s' \<subseteq> kheap_spare s" "span p 4096 \<subseteq> kheap_spare s"
  shows "heap_apart s' (A(p \<mapsto> 1)) S"
proof -
  have "span q (n * 4096) \<inter> S = {}" if "(A(p \<mapsto> 1)) q = Some n" for q n
  proof (cases "q = p")
    case True
    then show ?thesis using that heap_apart_spare [OF assms(1)] assms(3) by auto
  next
    case False
    then show ?thesis using that heap_apart_live [OF assms(1)] by simp
  qed
  moreover have "S \<inter> kheap_spare s' = {}" using heap_apart_spare [OF assms(1)] assms(2) by blast
  ultimately show ?thesis unfolding heap_apart_def by blast
qed

lemma heap_apart_release:
  assumes "heap_apart s A S" "kheap_ready s A" "A p = Some 1"
  shows "heap_apart (kfree p s) (A(p := None)) S"
proof -
  have "kheap_spare (kfree p s) \<subseteq> kheap_spare s \<union> span p 4096"
    using kh.release_spare [OF assms(2,3)] by simp
  then have "S \<inter> kheap_spare (kfree p s) = {}"
    using heap_apart_spare [OF assms(1)] heap_apart_page [OF assms(1,3)] by blast
  moreover have "span q (n * 4096) \<inter> S = {}" if "(A(p := None)) q = Some n" for q n
    using that heap_apart_live [OF assms(1)] by (auto split: if_splits)
  ultimately show ?thesis unfolding heap_apart_def by blast
qed

lemma heap_apart_Un: "heap_apart s A S \<Longrightarrow> heap_apart s A T \<Longrightarrow> heap_apart s A (S \<union> T)"
  unfolding heap_apart_def Int_Un_distrib Int_Un_distrib2 by simp

section \<open>Runs of the kernel heap\<close>

text \<open>The states the kernel's heap can be in, with the live allocations: from \<^verbatim>\<open>kheap_init\<close>, by
  \<^verbatim>\<open>kzalloc\<close> requests of some but not too many bytes for which there is room, by \<^verbatim>\<open>kfree\<close> of live
  addresses, and by writes inside live allocations.\<close>

inductive kheap_run :: "'z kstate_scheme \<Rightarrow> (u32 \<Rightarrow> nat option) \<Rightarrow> bool" where
  boot: "kheap_run (kheap_init s) (\<lambda>_. None)"
| alloc: "kheap_run s A \<Longrightarrow> sz \<noteq> 0 \<Longrightarrow> unat sz \<le> 4294963200 \<Longrightarrow> kheap_room s ((unat sz + 4095) div 4096) \<Longrightarrow>
    kzalloc sz s = (p, s') \<Longrightarrow> kheap_run s' (A(p \<mapsto> (unat sz + 4095) div 4096))"
| free: "kheap_run s A \<Longrightarrow> A p = Some n \<Longrightarrow> kheap_run (kfree p s) (A(p := None))"
| store: "kheap_run s A \<Longrightarrow> A p = Some n \<Longrightarrow> agree_off (span p (n * 4096)) (kmem s) m' \<Longrightarrow>
    kheap_run (put_kmem m' s) A"

lemma kheap_run_ready: "kheap_run s A \<Longrightarrow> kheap_ready s A"
proof (induction rule: kheap_run.induct)
  case (boot s)
  show ?case using kheap_init_avail by blast
next
  case (alloc s A sz p s')
  from kh.zalloc_fresh [OF alloc.IH alloc.hyps(2-4)] alloc.hyps(5) show ?case
    by (metis prod.inject)
next
  case (free s A p n)
  from kh.release_live [OF free.IH free.hyps(2)] show ?case by metis
next
  case (store s A p n m')
  from kh.write_live(1) [OF store.IH store.hyps(2,3)] show ?case .
qed

text \<open>C8: In every run of the kernel heap the live allocations are page-aligned, non-empty, pairwise
  disjoint, and disjoint from the heap's own table.\<close>

theorem kheap_run_disjoint:
  assumes "kheap_run s A" "A p = Some n"
  shows "0 < n \<and> unat p mod 4096 = 0 \<and> unat p + n * 4096 \<le> 4294967296 \<and>
     span p (n * 4096) \<inter> kheap_reserved s = {} \<and>
     (\<forall>q k. A q = Some k \<and> q \<noteq> p \<longrightarrow> span p (n * 4096) \<inter> span q (k * 4096) = {})"
proof -
  note r = kheap_run_ready [OF assms(1)]
  from kh.live_bounds [OF r assms(2)] kh.live_reserved [OF r assms(2)] kh.live_disjoint [OF r assms(2)]
  show ?thesis by blast
qed

lemma boot_room: "n \<le> 25600 \<Longrightarrow> kheap_room (kheap_init s) n"
proof -
  assume n: "n \<le> 25600"
  obtain m where m: "kheap_init s = s\<lparr>kmem := m, kernel_heap := boot_heap\<rparr>" "heap_repr m boot_heap (\<lambda>_. None)"
    using kheap_init_eq by blast
  have "hole boot_heap (\<lambda>_. None) n 0" using n by (simp add: hole_def covered_def)
  then have "fits m boot_heap n 0" using fits_iff_hole [OF m(2)] by simp
  then show ?thesis unfolding kheap_room_def m(1) by auto
qed

definition zero_kstate :: kstate where
  "zero_kstate = \<lparr>kmem = (\<lambda>_. 0), video_mem = 0, terminal_row = 0, terminal_col = 0, kernel_heap = boot_heap\<rparr>"

theorem kheap_run_disjoint_witness:
  "\<exists>s p. kheap_run (s :: kstate) [p \<mapsto> 2] \<and> span p (2 * 4096) \<inter> kheap_reserved s = {}"
proof -
  obtain p s' where r: "kzalloc 5000 (kheap_init zero_kstate) = (p, s')" by force
  have "kheap_run s' [p \<mapsto> 2]"
    using kheap_run.alloc [OF kheap_run.boot _ _ _ r] boot_room [of 2 zero_kstate] by simp
  then show ?thesis using kheap_run_disjoint [of s' "[p \<mapsto> 2]" p 2] by auto
qed

section \<open>Freeing NULL\<close>

lemma heap_mark_free_loop_zero: "m x = 0 \<Longrightarrow> heap_mark_free_loop m e i n x = 0"
  by (induction n arbitrary: m i) (simp_all add: Let_def)

lemma heap_mark_free_loop_first: "heap_mark_free_loop m e i (Suc n) (e + word_of_int i) = 0"
  by (simp add: Let_def heap_mark_free_loop_zero)

text \<open>\<^verbatim>\<open>kfree(0)\<close> is not a no-op: the block number of NULL is -4096, and the byte that many
  entries below the table, at 0x6e00, is cleared.\<close>

theorem kfree_null_writes:
  "kmem (kfree 0 (kheap_init s)) 0x6e00 = 0 \<and> 0x6e00 \<notin> kheap_reserved (kheap_init s)"
proof -
  have b: "heap_address_to_block boot_heap 0 = -4096"
    by (simp add: heap_address_to_block_def signed_divide_int_def)
  have "heap_free m boot_heap 0 0x6e00 = 0" for m
  proof -
    have n: "nat (sint (ht_total (hp_table boot_heap)) - -4096) = Suc 29695"
      by (simp add: boot_heap_def)
    show ?thesis
      using heap_mark_free_loop_first [of m "0x7e00" "-4096" 29695]
      unfolding heap_free_def b heap_mark_blocks_free_def n by simp
  qed
  then show ?thesis by (simp add: kfree_def kheap_reserved_def table_region_def span_iff)
qed

section \<open>Free memory and live blocks\<close>

text \<open>A byte of the heap is spare unless it is in a live allocation.\<close>

lemma kheap_spare_live:
  assumes "kheap_ready s A"
  shows "x \<in> kheap_spare s \<longleftrightarrow> x \<in> kheap_reserved s \<or>
    (\<exists>i < num_blocks (kernel_heap s). x \<in> span (block_addr (kernel_heap s) i) 4096) \<and> (\<forall>p n. A p = Some n \<longrightarrow> x \<notin> span p (n * 4096))"
proof -
  obtain B where B: "heap_ok (kernel_heap s)" "heap_repr (kmem s) (kernel_heap s) B" "A = live (kernel_heap s) B"
    using assms by (auto simp: kheap_ready_def)
  have "x \<notin> span p (n * 4096)" if "x \<in> kheap_spare s" "A p = Some n" for p n
    using kh.live_spare [OF assms that(2)] that(1) by blast
  moreover have "\<not> covered B i" if i: "i < num_blocks (kernel_heap s)" "x \<in> span (block_addr (kernel_heap s) i) 4096"
    and free: "\<forall>p n. A p = Some n \<longrightarrow> x \<notin> span p (n * 4096)" for i
  proof
    assume "covered B i"
    then obtain k n where k: "B k = Some n" "k \<le> i" "i < k + n" by (auto simp: covered_def)
    note r = heap_reprD(1,2) [OF B(2) k(1)]
    have "A (block_addr (kernel_heap s) k) = Some n" using live_block [OF B(1), of k B] r k(1) B(3) by simp
    moreover have "x \<in> span (block_addr (kernel_heap s) k) (n * 4096)" using in_block_run [OF B(1) r(2,1)] i(2) k(2,3) by blast
    ultimately show False using free by blast
  qed
  ultimately show ?thesis unfolding in_spare [OF B(1,2)] using B(3) by blast
qed

lemma live_in_blocks:
  assumes "kheap_ready s A" "A q = Some n" "x \<in> span q (n * 4096)"
  shows "\<exists>i < num_blocks (kernel_heap s). x \<in> span (block_addr (kernel_heap s) i) 4096"
proof -
  obtain i where i: "heap_ok (kernel_heap s)" "q = block_addr (kernel_heap s) i" "0 < n" "i + n \<le> num_blocks (kernel_heap s)"
    using kheap_live_block [OF assms(1,2)] .
  then obtain j where "i \<le> j" "j < i + n" "x \<in> span (block_addr (kernel_heap s) j) 4096"
    using in_block_run [OF i(1,4,3)] assms(3) by blast
  then show ?thesis using i(4) by (intro exI [of _ j]) simp
qed

text \<open>What becomes spare was in an allocation that is no more; a new allocation was spare.\<close>

lemma spare_shift:
  assumes "kheap_ready s A" "kheap_ready s' A'" "kernel_heap s' = kernel_heap s" "x \<in> kheap_spare s'"
  shows "x \<in> kheap_spare s \<or> (\<exists>p n. A p = Some n \<and> A' p \<noteq> Some n \<and> x \<in> span p (n * 4096))"
  using assms(4) unfolding kheap_spare_live [OF assms(1)] kheap_spare_live [OF assms(2)] assms(3) kheap_reserved_def by metis

lemma later_live:
  assumes "kheap_ready s A" "kheap_ready s' A'" "kernel_heap s' = kernel_heap s" "A' q = Some n" "\<And>r. r \<noteq> q \<Longrightarrow> A r \<noteq> None \<Longrightarrow> A' r = A r"
    "A q = None"
  shows "span q (n * 4096) \<subseteq> kheap_spare s"
proof
  fix x assume x: "x \<in> span q (n * 4096)"
  have "x \<notin> span r (j * 4096)" if r: "A r = Some j" for r j
  proof -
    have "r \<noteq> q" using r assms(6) by auto
    then have "A' r = Some j" using assms(5) [of r] r by simp
    then show ?thesis using kh.live_disjoint [OF assms(2,4) _, of r j] \<open>r \<noteq> q\<close> x by blast
  qed
  then show "x \<in> kheap_spare s" using live_in_blocks [OF assms(2,4) x] unfolding kheap_spare_live [OF assms(1)] assms(3) by blast
qed

lemma new_was_spare:
  assumes "kheap_ready s A" "kheap_ready s' (A(q \<mapsto> n))" "kernel_heap s' = kernel_heap s" "A q = None"
  shows "span q (n * 4096) \<subseteq> kheap_spare s" "kheap_spare s' \<subseteq> kheap_spare s"
proof -
  show "span q (n * 4096) \<subseteq> kheap_spare s" by (rule later_live [OF assms(1-3) _ _ assms(4)]) simp_all
  show "kheap_spare s' \<subseteq> kheap_spare s"
  proof
    fix x assume "x \<in> kheap_spare s'"
    from spare_shift [OF assms(1-3) this] assms(4) show "x \<in> kheap_spare s" by (metis fun_upd_other option.distinct(1))
  qed
qed

text \<open>Static data stays apart from what becomes live.\<close>

lemma static_apart:
  assumes "kheap_ready s A" "heap_apart s A T" "kheap_ready s' A'" "kernel_heap s' = kernel_heap s" "\<And>q. A q \<noteq> None \<Longrightarrow> A' q = A q"
  shows "heap_apart s' A' T"
proof -
  have "span q (n * 4096) \<inter> T = {}" if q: "A' q = Some n" for q n
  proof (cases "A q")
    case None
    have "span q (n * 4096) \<subseteq> kheap_spare s" by (rule later_live [OF assms(1,3,4) q assms(5) None])
    then show ?thesis using heap_apart_spare [OF assms(2)] by blast
  next
    case (Some j)
    then show ?thesis using assms(5) [of q] q heap_apart_live [OF assms(2) Some] by simp
  qed
  moreover have "kheap_spare s' \<subseteq> kheap_spare s"
  proof
    fix x assume "x \<in> kheap_spare s'"
    from spare_shift [OF assms(1,3,4) this] show "x \<in> kheap_spare s" using assms(5) by (metis option.distinct(1))
  qed
  ultimately show ?thesis using heap_apart_spare [OF assms(2)] unfolding heap_apart_def by blast
qed

lemma boot_heap_below:
  assumes "kheap_ready s A" "A q = Some k" "kernel_heap s = boot_heap"
  shows "unat q + k * 4096 \<le> 0x7400000"
proof -
  obtain B i where i: "heap_ok (kernel_heap s)" "i < num_blocks (kernel_heap s)" "q = block_addr (kernel_heap s) i"
      "i + k \<le> num_blocks (kernel_heap s)"
    using kheap_live_block [OF assms(1,2)] by metis
  have "(i + k) * 4096 \<le> 25600 * 4096" using i(4) assms(3) by (intro mult_le_mono1) simp
  then show ?thesis using unat_block_addr [OF i(1,2)] i(3) assms(3) by (simp add: add_mult_distrib)
qed

end
