(* ===== verification/Paging.thy ===== *)
theory Paging
  imports KHeap
begin

text \<open>
  \<^verbatim>\<open>src/memory/paging/paging.c\<close>: page directories and tables in memory, two levels of 1024 entries
  each, and the routines that build, edit, switch and free them. A \<^verbatim>\<open>struct paging_4gb_chunk\<close> is the
  one pointer it holds, read and written through memory. The lookup laws are proved for any directory
  whose tables do not overlap; building and freeing rest on the \<open>page_source\<close> laws of the kernel heap.
\<close>

record pstate = kstate +
  current_directory :: u32
  cr3 :: u32

abbreviation (input) PAGING_CACHE_DISABLED :: u8 where "PAGING_CACHE_DISABLED \<equiv> 0x10"
abbreviation (input) PAGING_WRITE_THROUGH :: u8 where "PAGING_WRITE_THROUGH \<equiv> 0x08"
abbreviation (input) PAGING_ACCESS_FROM_ALL :: u8 where "PAGING_ACCESS_FROM_ALL \<equiv> 0x04"
abbreviation (input) PAGING_IS_WRITABLE :: "'a :: numeral" where "PAGING_IS_WRITABLE \<equiv> 0x02"
abbreviation (input) PAGING_IS_PRESENT :: u8 where "PAGING_IS_PRESENT \<equiv> 0x01"
abbreviation (input) PAGING_TOTAL_ENTRIES_PER_TABLE :: "'a :: numeral" where "PAGING_TOTAL_ENTRIES_PER_TABLE \<equiv> 1024"
abbreviation (input) PAGING_PAGE_SIZE :: "'a :: numeral" where "PAGING_PAGE_SIZE \<equiv> 4096"

section \<open>Operations\<close>

text \<open>The inner loop of \<^verbatim>\<open>paging_new_4gb\<close>, from index \<open>b\<close> with \<open>n\<close> entries left.\<close>

fun fill_table :: "u32 \<Rightarrow> u32 \<Rightarrow> u8 \<Rightarrow> nat \<Rightarrow> nat \<Rightarrow> mem \<Rightarrow> mem" where
  "fill_table entry offset flags b 0 m = m"
| "fill_table entry offset flags b (Suc n) m =
     fill_table entry offset flags (Suc b) n
       (write32 m (entry + 4 * word_of_nat b) ((offset + word_of_nat b * PAGING_PAGE_SIZE) OR ucast flags))"

fun new_tables :: "u32 \<Rightarrow> u8 \<Rightarrow> nat \<Rightarrow> nat \<Rightarrow> u32 \<Rightarrow> 'z kstate_scheme \<Rightarrow> 'z kstate_scheme" where
  "new_tables directory flags i 0 offset s = s"
| "new_tables directory flags i (Suc n) offset s =
     (let (entry, s') = kzalloc (4 * PAGING_TOTAL_ENTRIES_PER_TABLE) s;
          m = fill_table entry offset flags 0 PAGING_TOTAL_ENTRIES_PER_TABLE (kmem s');
          m' = write32 m (directory + 4 * word_of_nat i) (entry OR ucast flags OR PAGING_IS_WRITABLE)
      in new_tables directory flags (Suc i) n
           (offset + PAGING_TOTAL_ENTRIES_PER_TABLE * PAGING_PAGE_SIZE) (s'\<lparr>kmem := m'\<rparr>))"

definition paging_new_4gb :: "u8 \<Rightarrow> 'z kstate_scheme \<Rightarrow> u32 \<times> 'z kstate_scheme" where
  "paging_new_4gb flags s =
     (let (directory, s1) = kzalloc (4 * PAGING_TOTAL_ENTRIES_PER_TABLE) s;
          s2 = new_tables directory flags 0 PAGING_TOTAL_ENTRIES_PER_TABLE 0 s1;
          (chunk_4gb, s3) = kzalloc 4 s2
      in (chunk_4gb, s3\<lparr>kmem := write32 (kmem s3) chunk_4gb directory\<rparr>))"

definition directory_entry :: "mem \<Rightarrow> u32 \<Rightarrow> u32" where
  "directory_entry m chunk = read32 m chunk"

text \<open>\<^verbatim>\<open>paging_load_directory\<close> (\<^verbatim>\<open>paging.asm\<close>) moves its argument to the register CR3.\<close>

definition paging_load_directory :: "u32 \<Rightarrow> 'z pstate_scheme \<Rightarrow> 'z pstate_scheme" where
  "paging_load_directory directory s = s\<lparr>cr3 := directory\<rparr>"

definition paging_switch :: "u32 \<Rightarrow> 'z pstate_scheme \<Rightarrow> 'z pstate_scheme" where
  "paging_switch directory s =
     (let s' = paging_load_directory (directory_entry (kmem s) directory) s
      in s'\<lparr>current_directory := directory_entry (kmem s') directory\<rparr>)"

fun free_tables :: "u32 \<Rightarrow> nat \<Rightarrow> nat \<Rightarrow> 'z kstate_scheme \<Rightarrow> 'z kstate_scheme" where
  "free_tables chunk i 0 s = s"
| "free_tables chunk i (Suc n) s =
     (let entry = read32 (kmem s) (directory_entry (kmem s) chunk + 4 * word_of_nat i);
          table = entry AND 0xfffff000
      in free_tables chunk (Suc i) n (kfree table s))"

definition paging_free_4gb :: "u32 \<Rightarrow> 'z kstate_scheme \<Rightarrow> 'z kstate_scheme" where
  "paging_free_4gb chunk s =
     (let s1 = free_tables chunk 0 1024 s;
          s2 = kfree (directory_entry (kmem s1) chunk) s1
      in kfree chunk s2)"

definition paging_4gb_chunk_get_directory :: "mem \<Rightarrow> u32 \<Rightarrow> u32" where
  "paging_4gb_chunk_get_directory m chunk = directory_entry m chunk"

definition paging_is_aligned :: "u32 \<Rightarrow> bool" where
  "paging_is_aligned addr \<longleftrightarrow> addr mod PAGING_PAGE_SIZE = 0"

text \<open>The two out-parameters are returned after the result; \<open>d0\<close> and \<open>t0\<close> are what they hold
  before the call, which the error path leaves in place.\<close>

definition paging_get_indexes :: "u32 \<Rightarrow> u32 \<Rightarrow> u32 \<Rightarrow> int \<times> u32 \<times> u32" where
  "paging_get_indexes virtual_address d0 t0 =
     (if \<not> paging_is_aligned virtual_address then (- EINVARG, d0, t0)
      else (0, virtual_address div (PAGING_TOTAL_ENTRIES_PER_TABLE * PAGING_PAGE_SIZE),
            virtual_address mod (PAGING_TOTAL_ENTRIES_PER_TABLE * PAGING_PAGE_SIZE) div PAGING_PAGE_SIZE))"

definition paging_align_address :: "u32 \<Rightarrow> u32" where
  "paging_align_address ptr =
     (if ptr mod PAGING_PAGE_SIZE \<noteq> 0 then ptr + PAGING_PAGE_SIZE - ptr mod PAGING_PAGE_SIZE else ptr)"

definition paging_align_to_lower_page :: "u32 \<Rightarrow> u32" where
  "paging_align_to_lower_page addr = addr - addr mod PAGING_PAGE_SIZE"

definition paging_set :: "mem \<Rightarrow> u32 \<Rightarrow> u32 \<Rightarrow> u32 \<Rightarrow> int \<times> mem" where
  "paging_set m directory virt val =
     (if \<not> paging_is_aligned virt then (- EINVARG, m)
      else let (res, directory_index, table_index) = paging_get_indexes virt 0 0 in
        if res < 0 then (res, m)
        else let entry = read32 m (directory + 4 * directory_index);
                 table = entry AND 0xfffff000
             in (0, write32 m (table + 4 * table_index) val))"

definition paging_get :: "mem \<Rightarrow> u32 \<Rightarrow> u32 \<Rightarrow> u32" where
  "paging_get m directory virt =
     (let (_, directory_index, table_index) = paging_get_indexes virt 0 0;
          entry = read32 m (directory + 4 * directory_index);
          table = entry AND 0xfffff000
      in read32 m (table + 4 * table_index))"

definition paging_map :: "mem \<Rightarrow> u32 \<Rightarrow> u32 \<Rightarrow> u32 \<Rightarrow> int \<Rightarrow> int \<times> mem" where
  "paging_map m directory virt phys flags =
     (if virt mod PAGING_PAGE_SIZE \<noteq> 0 \<or> phys mod PAGING_PAGE_SIZE \<noteq> 0 then (- EINVARG, m)
      else paging_set m (directory_entry m directory) virt (phys OR word_of_int flags))"

text \<open>The loop of \<^verbatim>\<open>paging_map_range\<close> with \<open>n\<close> pages left; \<open>res\<close> is the result so far.\<close>

fun map_range_loop :: "mem \<Rightarrow> u32 \<Rightarrow> u32 \<Rightarrow> u32 \<Rightarrow> int \<Rightarrow> int \<Rightarrow> nat \<Rightarrow> int \<times> mem" where
  "map_range_loop m directory virt phys flags res 0 = (res, m)"
| "map_range_loop m directory virt phys flags res (Suc n) =
     (let (res', m') = paging_map m directory virt phys flags in
      if res' < 0 then (res', m')
      else map_range_loop m' directory (virt + PAGING_PAGE_SIZE) (phys + PAGING_PAGE_SIZE) flags res' n)"

definition paging_map_range :: "mem \<Rightarrow> u32 \<Rightarrow> u32 \<Rightarrow> u32 \<Rightarrow> int \<Rightarrow> int \<Rightarrow> int \<times> mem" where
  "paging_map_range m directory virt phys count flags = map_range_loop m directory virt phys flags 0 (nat count)"

definition paging_map_to :: "mem \<Rightarrow> u32 \<Rightarrow> u32 \<Rightarrow> u32 \<Rightarrow> u32 \<Rightarrow> int \<Rightarrow> int \<times> mem" where
  "paging_map_to m directory virt phys phys_end flags =
     (if virt mod PAGING_PAGE_SIZE \<noteq> 0 then (- EINVARG, m)
      else if phys mod PAGING_PAGE_SIZE \<noteq> 0 then (- EINVARG, m)
      else if phys_end < phys then (- EINVARG, m)
      else if phys_end mod PAGING_PAGE_SIZE \<noteq> 0 then (- EINVARG, m)
      else let total_bytes = phys_end - phys;
               total_pages = sint (total_bytes div PAGING_PAGE_SIZE)
           in paging_map_range m directory virt phys total_pages flags)"

section \<open>Page frames and indices\<close>

lemma page_mask: "(0xfffff000 :: u32) = NOT (mask 12)"
  by (simp add: mask_eq_exp_minus_1 not_eq_complement)

lemma aligned_bits: "unat (t :: u32) mod 4096 = 0 \<Longrightarrow> n < 12 \<Longrightarrow> \<not> bit t n"
proof -
  assume a: "unat t mod 4096 = 0" and n: "n < 12"
  have "take_bit 12 (unat t) = 0" using a by (simp add: take_bit_eq_mod)
  then have "\<not> bit (take_bit 12 (unat t)) n" by simp
  then show ?thesis using n by (simp add: bit_take_bit_iff bit_unsigned_iff)
qed

lemma page_frame_of_entry:
  assumes "unat (t :: u32) mod 4096 = 0"
  shows "(t OR ucast (f :: u8) OR 2) AND 0xfffff000 = t"
proof (rule bit_word_eqI)
  fix n assume "n < LENGTH(32)"
  have two: "bit (2 :: u32) n \<longleftrightarrow> n = 1" for n by (auto simp: bit_2_iff)
  show "bit ((t OR ucast f OR 2) AND 0xfffff000) n \<longleftrightarrow> bit t n"
    unfolding page_mask using aligned_bits [OF assms, of n] \<open>n < LENGTH(32)\<close> bit_imp_le_length [of f n]
    by (auto simp: bit_simps two)
qed

lemma mask_aligned: "unat ((w :: u32) AND 0xfffff000) mod 4096 = 0"
proof -
  have "take_bit 12 (unat (w AND 0xfffff000)) = 0"
    unfolding page_mask by (rule bit_eqI) (auto simp: bit_simps)
  then show ?thesis by (simp add: take_bit_eq_mod)
qed
text \<open>The page number of an address, and the address of entry \<open>i\<close> of an array of entries.\<close>

definition table_of :: "mem \<Rightarrow> u32 \<Rightarrow> nat \<Rightarrow> u32" where
  "table_of m directory i = read32 m (directory + 4 * word_of_nat i) AND 0xfffff000"

definition dir_index :: "u32 \<Rightarrow> nat" where "dir_index v = unat v div 4194304"
definition tab_index :: "u32 \<Rightarrow> nat" where "tab_index v = unat v mod 4194304 div 4096"

definition entry_addr :: "mem \<Rightarrow> u32 \<Rightarrow> u32 \<Rightarrow> u32" where
  "entry_addr m directory v = table_of m directory (dir_index v) + 4 * word_of_nat (tab_index v)"

lemma index_bounds: "dir_index v < 1024" "tab_index v < 1024"
  using unat_le_max32 [of v] by (auto simp: dir_index_def tab_index_def less_mult_imp_div_less)

lemma aligned_iff: "paging_is_aligned v \<longleftrightarrow> unat v mod 4096 = 0"
  by (simp add: paging_is_aligned_def word_unat_eq_iff unat_mod_4096)

lemma index_inj:
  assumes "paging_is_aligned v" "paging_is_aligned w" "dir_index v = dir_index w" "tab_index v = tab_index w"
  shows "v = w"
proof -
  have e: "unat x = dir_index x * 4194304 + tab_index x * 4096" if "paging_is_aligned x" for x
  proof -
    have "unat x mod 4194304 mod 4096 = 0" using that by (simp add: aligned_iff mod_mod_cancel)
    then have "tab_index x * 4096 = unat x mod 4194304" unfolding tab_index_def by auto
    then show ?thesis unfolding dir_index_def by simp
  qed
  show ?thesis using e [OF assms(1)] e [OF assms(2)] assms(3,4) by (simp add: word_unat_eq_iff)
qed

lemma get_indexes_eq:
  "paging_is_aligned v \<Longrightarrow>
     paging_get_indexes v a b = (0, word_of_nat (dir_index v), word_of_nat (tab_index v))"
proof -
  have "word_of_nat (unat (v div 4194304)) = v div 4194304" by simp
  then have d: "word_of_nat (dir_index v) = v div 4194304" by (simp only: unat_div dir_index_def) simp
  have "word_of_nat (unat (v mod 4194304 div 4096)) = v mod 4194304 div 4096" by simp
  then have t: "word_of_nat (tab_index v) = v mod 4194304 div 4096"
    by (simp only: unat_div unat_mod tab_index_def) simp
  show "paging_is_aligned v \<Longrightarrow> ?thesis" by (simp add: paging_get_indexes_def d t)
qed

lemma paging_get_eq: "paging_is_aligned v \<Longrightarrow> paging_get m d v = read32 m (entry_addr m d v)"
  by (simp add: paging_get_def get_indexes_eq entry_addr_def table_of_def)

lemma paging_set_eq:
  "paging_is_aligned v \<Longrightarrow> paging_set m d v val = (0, write32 m (entry_addr m d v) val)"
  by (simp add: paging_set_def get_indexes_eq entry_addr_def table_of_def)

section \<open>Lookup after update\<close>

text \<open>A directory in order: it and its 1024 tables are page-aligned and occupy different pages.\<close>

definition paging_wf :: "mem \<Rightarrow> u32 \<Rightarrow> bool" where
  "paging_wf m d \<longleftrightarrow> unat d mod 4096 = 0 \<and> (\<forall>i < 1024. table_of m d i \<noteq> d) \<and>
     (\<forall>i < 1024. \<forall>j < 1024. i \<noteq> j \<longrightarrow> table_of m d i \<noteq> table_of m d j)"

lemma table_aligned: "unat (table_of m d i) mod 4096 = 0"
  unfolding table_of_def by (rule mask_aligned)

lemma entry_in_table: "span (entry_addr m d v) 4 \<subseteq> span (table_of m d (dir_index v)) 4096"
  unfolding entry_addr_def by (rule slot_in_page [OF table_aligned index_bounds(2)])

lemma table_of_set:
  assumes "paging_wf m d" "i < 1024"
  shows "table_of (write32 m (entry_addr m d v) val) d i = table_of m d i"
proof -
  have "table_of m d (dir_index v) \<noteq> d" using assms(1) index_bounds(1) by (simp add: paging_wf_def)
  then have "span (d + 4 * word_of_nat i) 4 \<inter> span (entry_addr m d v) 4 = {}"
    unfolding entry_addr_def using assms
    by (intro slot_disjoint table_aligned index_bounds) (auto simp: paging_wf_def)
  then show ?thesis unfolding table_of_def by (simp add: mem_simps)
qed

lemma entry_addr_set:
  "paging_wf m d \<Longrightarrow> entry_addr (write32 m (entry_addr m d v) val) d w = entry_addr m d w"
  unfolding entry_addr_def [of _ _ w] by (simp add: table_of_set index_bounds)

lemma entry_disjoint:
  assumes "paging_wf m d" "paging_is_aligned v" "paging_is_aligned w" "v \<noteq> w"
  shows "span (entry_addr m d w) 4 \<inter> span (entry_addr m d v) 4 = {}"
proof -
  have "dir_index w \<noteq> dir_index v \<or> tab_index w \<noteq> tab_index v"
    using index_inj [OF assms(3,2)] assms(4) by blast
  then have "table_of m d (dir_index w) \<noteq> table_of m d (dir_index v) \<or> tab_index w \<noteq> tab_index v"
    using assms(1) index_bounds(1) unfolding paging_wf_def by blast
  then show ?thesis unfolding entry_addr_def by (intro slot_disjoint table_aligned index_bounds)
qed

lemma set_keeps_wf: "paging_wf m d \<Longrightarrow> paging_wf (write32 m (entry_addr m d v) val) d"
  unfolding paging_wf_def [of "write32 m (entry_addr m d v) val"]
  by (simp add: table_of_set) (simp add: paging_wf_def)

lemma set_get:
  assumes "paging_wf m d" "paging_is_aligned v" "paging_is_aligned w"
  shows "paging_get (write32 m (entry_addr m d v) val) d w = (if w = v then val else paging_get m d w)"
proof (cases "w = v")
  case True
  then show ?thesis using assms by (simp add: paging_get_eq entry_addr_set)
next
  case False
  then show ?thesis using assms entry_disjoint [OF assms] by (simp add: paging_get_eq entry_addr_set mem_simps)
qed

text \<open>\<^verbatim>\<open>paging_set\<close> on a directory in order gives the page the new entry, changes the entry of no
  other page, keeps the directory in order, and writes only inside one of its tables. An unaligned
  address is refused with \<^verbatim>\<open>-EINVARG\<close> and nothing changes.\<close>

theorem paging_set_updates:
  assumes "paging_wf m d"
  shows "(paging_is_aligned v \<longrightarrow> (\<exists>m'. paging_set m d v val = (0, m') \<and> paging_wf m' d \<and>
       paging_get m' d v = val \<and>
       (\<forall>w. paging_is_aligned w \<and> w \<noteq> v \<longrightarrow> paging_get m' d w = paging_get m d w) \<and>
       (\<exists>i < 1024. agree_off (span (table_of m d i) 4096) m m'))) \<and>
     (\<not> paging_is_aligned v \<longrightarrow> paging_set m d v val = (- EINVARG, m))"
proof -
  let ?m = "write32 m (entry_addr m d v) val"
  have "agree_off (span (table_of m d (dir_index v)) 4096) m ?m"
    by (rule agree_off_mono [OF write32_agree entry_in_table])
  then have "\<exists>i < 1024. agree_off (span (table_of m d i) 4096) m ?m" using index_bounds(1) by blast
  then have "\<exists>m'. paging_set m d v val = (0, m') \<and> paging_wf m' d \<and> paging_get m' d v = val \<and>
       (\<forall>w. paging_is_aligned w \<and> w \<noteq> v \<longrightarrow> paging_get m' d w = paging_get m d w) \<and>
       (\<exists>i < 1024. agree_off (span (table_of m d i) 4096) m m')" if "paging_is_aligned v"
    using that set_get [OF assms that] set_keeps_wf [OF assms, of v val] paging_set_eq [OF that, of m d val]
    by (intro exI [of _ ?m]) auto
  then show ?thesis by (simp add: paging_set_def)
qed

section \<open>Mapping ranges\<close>

lemma aligned_dvd: "paging_is_aligned w \<longleftrightarrow> 4096 dvd uint w"
  unfolding uint_nat aligned_iff mod_eq_0_iff_dvd using int_dvd_int_iff [of 4096 "unat w"]
  by (simp only: of_nat_numeral)

lemma aligned_add: "paging_is_aligned a \<Longrightarrow> paging_is_aligned b \<Longrightarrow> paging_is_aligned (a + b)"
  unfolding aligned_dvd by (simp add: uint_word_ariths dvd_mod_iff)

lemma aligned_diff: "paging_is_aligned a \<Longrightarrow> paging_is_aligned b \<Longrightarrow> paging_is_aligned (a - b)"
  unfolding aligned_dvd by (simp add: uint_word_ariths dvd_mod_iff)

lemma aligned_page: "paging_is_aligned 4096"
  by (simp add: paging_is_aligned_def)

lemma aligned_0 [simp]: "paging_is_aligned 0"
  by (simp add: paging_is_aligned_def)

text \<open>A chunk in order: its directory is, and no table overlaps the chunk itself.\<close>

definition chunk_wf :: "mem \<Rightarrow> u32 \<Rightarrow> u32 \<Rightarrow> bool" where
  "chunk_wf m c d \<longleftrightarrow> directory_entry m c = d \<and> paging_wf m d \<and>
     (\<forall>i < 1024. span c 4 \<inter> span (table_of m d i) 4096 = {})"

lemma chunk_wf_set:
  assumes "chunk_wf m c d"
  shows "chunk_wf (write32 m (entry_addr m d v) val) c d"
proof -
  have "span c 4 \<inter> span (entry_addr m d v) 4 = {}"
    using assms entry_in_table [of m d v] index_bounds(1) [of v] unfolding chunk_wf_def by blast
  then show ?thesis
    using assms set_keeps_wf [of m d v val]
    by (auto simp: chunk_wf_def directory_entry_def mem_simps table_of_set)
qed

lemma paging_map_eq:
  assumes "chunk_wf m c d" "paging_is_aligned virt" "paging_is_aligned phys"
  shows "paging_map m c virt phys flags = (0, write32 m (entry_addr m d virt) (phys OR word_of_int flags))"
  using assms by (simp add: paging_map_def paging_is_aligned_def paging_set_eq chunk_wf_def)

text \<open>Moving the start of a range of pages on by one.\<close>

lemma page_range_step:
  assumes "paging_is_aligned w" "paging_is_aligned virt" "Suc n * 4096 \<le> 4294967296"
  shows "unat (w - virt) < Suc n * 4096 \<longleftrightarrow> w = virt \<or> unat (w - (virt + 4096)) < n * 4096"
    and "\<not> unat (virt - (virt + 4096)) < n * 4096"
proof -
  have "virt - (virt + 4096) = - 4096" by simp
  then have "unat (virt - (virt + 4096)) = 4294963200" by (simp only:) simp
  then show *: "\<not> unat (virt - (virt + 4096)) < n * 4096" using assms(3) by simp
  define x where "x = w - virt"
  have ax: "unat x mod 4096 = 0" using aligned_diff [OF assms(1,2)] by (simp add: x_def aligned_iff)
  have eq: "w - (virt + 4096) = x - 4096" by (simp add: x_def)
  show "unat (w - virt) < Suc n * 4096 \<longleftrightarrow> w = virt \<or> unat (w - (virt + 4096)) < n * 4096"
  proof (cases "w = virt")
    case False
    then have "x \<noteq> 0" by (simp add: x_def)
    then have "unat x \<noteq> 0" by (simp add: unat_eq_0)
    then have "4096 \<le> unat x" using ax by (metis mod_less not_le)
    then have "unat (x - 4096) = unat x - 4096" by (subst unat_diff_le) auto
    then show ?thesis unfolding eq x_def [symmetric] using False \<open>4096 \<le> unat x\<close> by auto
  qed simp
qed

definition tables_region :: "mem \<Rightarrow> u32 \<Rightarrow> u32 set" where
  "tables_region m d = (\<Union>i \<in> {..<1024}. span (table_of m d i) 4096)"

lemma entry_in_tables: "span (entry_addr m d v) 4 \<subseteq> tables_region m d"
  using entry_in_table [of m d v] index_bounds(1) [of v] unfolding tables_region_def by blast

lemma map_range_spec:
  "chunk_wf m c d \<Longrightarrow> paging_is_aligned virt \<Longrightarrow> paging_is_aligned phys \<Longrightarrow> n * 4096 \<le> 4294967296 \<Longrightarrow>
     \<exists>m'. map_range_loop m c virt phys flags 0 n = (0, m') \<and> chunk_wf m' c d \<and>
       (\<forall>w. paging_is_aligned w \<longrightarrow> paging_get m' d w =
          (if unat (w - virt) < n * 4096 then (phys + (w - virt)) OR word_of_int flags else paging_get m d w)) \<and>
       agree_off (tables_region m d) m m'"
proof (induction n arbitrary: m virt phys)
  case (Suc n)
  let ?m = "write32 m (entry_addr m d virt) (phys OR word_of_int flags)"
  note al = aligned_add [OF Suc.prems(2) aligned_page] aligned_add [OF Suc.prems(3) aligned_page]
  have wf: "paging_wf m d" using Suc.prems(1) by (simp add: chunk_wf_def)
  have n: "n * 4096 \<le> 4294967296" using Suc.prems(4) by simp
  obtain m' where m': "map_range_loop ?m c (virt + 4096) (phys + 4096) flags 0 n = (0, m')" "chunk_wf m' c d"
    "\<forall>w. paging_is_aligned w \<longrightarrow> paging_get m' d w =
       (if unat (w - (virt + 4096)) < n * 4096 then (phys + 4096 + (w - (virt + 4096))) OR word_of_int flags
        else paging_get ?m d w)" "agree_off (tables_region ?m d) ?m m'"
    using Suc.IH [OF chunk_wf_set [OF Suc.prems(1)] al n] by blast
  have step: "map_range_loop m c virt phys flags 0 (Suc n) = (0, m')"
    using paging_map_eq [OF Suc.prems(1-3)] m'(1) by simp
  have get: "paging_get m' d w =
      (if unat (w - virt) < Suc n * 4096 then (phys + (w - virt)) OR word_of_int flags else paging_get m d w)"
    if w: "paging_is_aligned w" for w
  proof -
    have g: "paging_get ?m d w = (if w = virt then phys OR word_of_int flags else paging_get m d w)"
      by (rule set_get [OF wf Suc.prems(2) w])
    have s: "phys + 4096 + (w - (virt + 4096)) = phys + (w - virt)" by simp
    show ?thesis
      using m'(3) [rule_format, OF w] page_range_step [OF w Suc.prems(2,4)] unfolding g s
      by (cases "w = virt") (simp_all del: mult_Suc)
  qed
  have "tables_region ?m d = tables_region m d"
    unfolding tables_region_def using wf by (simp add: table_of_set)
  then have "agree_off (tables_region m d) m m'"
    using m'(4) agree_off_trans_same [OF agree_off_mono [OF write32_agree entry_in_tables]] by metis
  with step m'(2) get show ?case by blast
qed auto

lemma map_to_pages:
  assumes "paging_is_aligned phys" "paging_is_aligned phys_end" 
  shows "nat (sint ((phys_end - phys) div 4096)) * 4096 = unat (phys_end - phys)"
proof -
  have "unat (phys_end - phys) div 4096 < 2147483648" using unat_le_max32 [of "phys_end - phys"] by auto
  then have "sint ((phys_end - phys) div 4096) = int (unat (phys_end - phys) div 4096)"
    using sint_of_small_u32 [of "(phys_end - phys) div 4096"] by (simp add: unat_div_4096)
  moreover have "unat (phys_end - phys) mod 4096 = 0"
    using aligned_diff [OF assms(2,1)] by (simp add: aligned_iff)
  ultimately show ?thesis by auto
qed

lemma map_to_spec:
  assumes "chunk_wf m c d" "paging_is_aligned virt" "paging_is_aligned phys" "paging_is_aligned phys_end" "phys \<le> phys_end"
  obtains m' where "paging_map_to m c virt phys phys_end flags = (0, m')" "chunk_wf m' c d"
    "\<forall>w. paging_is_aligned w \<longrightarrow> paging_get m' d w =
       (if unat (w - virt) < unat (phys_end - phys) then (phys + (w - virt)) OR word_of_int flags else paging_get m d w)"
    "agree_off (tables_region m d) m m'"
proof -
  let ?n = "nat (sint ((phys_end - phys) div 4096))"
  have n: "?n * 4096 = unat (phys_end - phys)" by (rule map_to_pages [OF assms(3,4)])
  have eq: "paging_map_to m c virt phys phys_end flags = map_range_loop m c virt phys flags 0 ?n"
    using assms(2-5) by (simp add: paging_map_to_def paging_is_aligned_def leD paging_map_range_def)
  have "?n * 4096 \<le> 4294967296" using unat_le_max32 [of "phys_end - phys"] n by simp
  from map_range_spec [OF assms(1-3) this, of flags] that show thesis unfolding eq n by blast
qed

lemma map_to_refused:
  "\<not> (paging_is_aligned virt \<and> paging_is_aligned phys \<and> paging_is_aligned phys_end \<and> phys \<le> phys_end) \<Longrightarrow>
   paging_map_to m c virt phys phys_end flags = (- EINVARG, m)"
  by (auto simp: paging_map_to_def paging_is_aligned_def not_less)

text \<open>C18: \<^verbatim>\<open>paging_map_to\<close> with page-aligned arguments and \<^verbatim>\<open>phys <=
  phys_end\<close> succeeds and maps exactly the pages from \<^verbatim>\<open>virt\<close> on to the frames from
  \<^verbatim>\<open>phys\<close> up to \<^verbatim>\<open>phys_end\<close>, with the given flags: every other page
  keeps its entry and only the tables of the directory are written. In all other cases it answers
  \<^verbatim>\<open>-EINVARG\<close> and changes nothing.\<close>

theorem paging_map_to_maps:
  assumes "chunk_wf m c d"
  shows "(paging_is_aligned virt \<and> paging_is_aligned phys \<and> paging_is_aligned phys_end \<and> phys \<le> phys_end \<longrightarrow>
       (\<exists>m'. paging_map_to m c virt phys phys_end flags = (0, m') \<and> chunk_wf m' c d \<and>
         (\<forall>w. paging_is_aligned w \<longrightarrow> paging_get m' d w =
            (if unat (w - virt) < unat (phys_end - phys) then (phys + (w - virt)) OR word_of_int flags
             else paging_get m d w)) \<and>
         agree_off (tables_region m d) m m')) \<and>
     (\<not> (paging_is_aligned virt \<and> paging_is_aligned phys \<and> paging_is_aligned phys_end \<and> phys \<le> phys_end) \<longrightarrow>
       paging_map_to m c virt phys phys_end flags = (- EINVARG, m))"
proof (intro conjI impI)
  assume a: "paging_is_aligned virt \<and> paging_is_aligned phys \<and> paging_is_aligned phys_end \<and> phys \<le> phys_end"
  show "\<exists>m'. paging_map_to m c virt phys phys_end flags = (0, m') \<and> chunk_wf m' c d \<and>
         (\<forall>w. paging_is_aligned w \<longrightarrow> paging_get m' d w =
            (if unat (w - virt) < unat (phys_end - phys) then (phys + (w - virt)) OR word_of_int flags
             else paging_get m d w)) \<and> agree_off (tables_region m d) m m'"
    by (rule map_to_spec [OF assms, of virt phys phys_end flags]) (use a in blast)+
next
  assume "\<not> (paging_is_aligned virt \<and> paging_is_aligned phys \<and> paging_is_aligned phys_end \<and> phys \<le> phys_end)"
  then show "paging_map_to m c virt phys phys_end flags = (- EINVARG, m)" by (rule map_to_refused)
qed

section \<open>Building an address space\<close>

lemma fill_table_spec:
  assumes "unat entry mod 4096 = 0"
  shows "b + n \<le> 1024 \<Longrightarrow>
     agree_off (span entry 4096) m (fill_table entry off flags b n m) \<and>
     (\<forall>j < 1024. read32 (fill_table entry off flags b n m) (entry + 4 * word_of_nat j) =
        (if b \<le> j \<and> j < b + n then (off + word_of_nat j * 4096) OR ucast flags
         else read32 m (entry + 4 * word_of_nat j)))"
proof (induction n arbitrary: b m)
  case (Suc n)
  let ?m = "write32 m (entry + 4 * word_of_nat b) ((off + word_of_nat b * 4096) OR ucast flags)"
  have b: "b < 1024" using Suc.prems by simp
  have IH: "agree_off (span entry 4096) ?m (fill_table entry off flags (Suc b) n ?m)"
    "\<forall>j < 1024. read32 (fill_table entry off flags (Suc b) n ?m) (entry + 4 * word_of_nat j) =
        (if Suc b \<le> j \<and> j < Suc b + n then (off + word_of_nat j * 4096) OR ucast flags
         else read32 ?m (entry + 4 * word_of_nat j))"
    using Suc.IH [of "Suc b" ?m] Suc.prems by simp_all
  have w: "read32 ?m (entry + 4 * word_of_nat j) =
      (if j = b then (off + word_of_nat j * 4096) OR ucast flags else read32 m (entry + 4 * word_of_nat j))"
    if "j < 1024" for j
    using slot_disjoint [OF assms assms that b] by (auto simp: mem_simps)
  have "agree_off (span entry 4096) m (fill_table entry off flags (Suc b) n ?m)"
    by (rule agree_off_trans_same [OF agree_off_mono [OF write32_agree slot_in_page [OF assms b]] IH(1)])
  moreover have "fill_table entry off flags b (Suc n) m = fill_table entry off flags (Suc b) n ?m" by simp
  ultimately show ?case using IH(2) w by (auto simp: not_less_eq_eq)
qed auto

text \<open>The live allocations other than \<open>d\<close> hold the same bytes in both memories.\<close>

definition kept_but :: "u32 \<Rightarrow> (u32 \<Rightarrow> nat option) \<Rightarrow> mem \<Rightarrow> mem \<Rightarrow> bool" where
  "kept_but d A m m' \<longleftrightarrow> (\<forall>q k x. A q = Some k \<longrightarrow> q \<noteq> d \<longrightarrow> x \<in> span q (k * 4096) \<longrightarrow> m' x = m x)"

lemma kept_butD: "kept_but d A m m' \<Longrightarrow> A q = Some k \<Longrightarrow> q \<noteq> d \<Longrightarrow> x \<in> span q (k * 4096) \<Longrightarrow> m' x = m x"
  by (simp add: kept_but_def)

text \<open>One table: a fresh page \<open>p\<close>, filled, and entered at index \<open>i\<close> of the directory \<open>d\<close>.\<close>

lemma new_table_step:
  assumes "kheap_ready s A" "A d = Some 1" "i < 1024" "0 < kheap_avail s"
  shows "\<exists>p m. new_tables d flags i (Suc n) off s = new_tables d flags (Suc i) n (off + 4194304) (put_kmem m s) \<and>
     A p = None \<and> unat p mod 4096 = 0 \<and> kheap_ready (put_kmem m s) (A(p \<mapsto> 1)) \<and>
     kheap_avail (put_kmem m s) + 1 = kheap_avail s \<and>
     (\<forall>j < 1024. read32 m (d + 4 * word_of_nat j) =
        (if j = i then p OR ucast flags OR 2 else read32 (kmem s) (d + 4 * word_of_nat j))) \<and>
     (\<forall>b < 1024. read32 m (p + 4 * word_of_nat b) = (off + word_of_nat b * 4096) OR ucast flags) \<and>
     kept_but d A (kmem s) m"
proof -
  obtain p m1 where p: "kzalloc 4096 s = (p, put_kmem m1 s)" "unat p mod 4096 = 0" "A p = None"
    and r1: "kheap_ready (put_kmem m1 s) (A(p \<mapsto> 1))" "kheap_avail (put_kmem m1 s) + 1 = kheap_avail s"
    and a1: "agree_off (kheap_reserved s \<union> span p 4096) (kmem s) m1"
    using kh.zalloc_page [OF assms(1) _ _ assms(4), of 4096] by auto
  let ?A = "A(p \<mapsto> 1)"
  let ?m2 = "fill_table p off flags 0 1024 m1"
  let ?m3 = "write32 ?m2 (d + 4 * word_of_nat i) (p OR ucast flags OR 2)"
  have pd: "p \<noteq> d" using p(3) assms(2) by auto
  have dA: "?A d = Some 1" "?A p = Some 1" using pd assms(2) by auto
  have dal: "unat d mod 4096 = 0" using kh.live_bounds [OF assms(1,2)] by blast
  note fl = fill_table_spec [OF p(2), of 0 1024 m1 off flags, simplified]
  have a2: "agree_off (span p (1 * 4096)) m1 ?m2" using fl by simp
  have a3: "agree_off (span d (1 * 4096)) ?m2 ?m3"
    using agree_off_mono [OF write32_agree slot_in_page [OF dal assms(3)]] by simp
  have r2: "kheap_ready (put_kmem ?m2 s) ?A" "kheap_avail (put_kmem ?m2 s) = kheap_avail (put_kmem m1 s)"
    using kh.write_live [OF r1(1) dA(2), of ?m2] a2 by (simp_all del: fun_upd_apply)
  have r3: "kheap_ready (put_kmem ?m3 s) ?A" "kheap_avail (put_kmem ?m3 s) = kheap_avail (put_kmem m1 s)"
    using kh.write_live [OF r2(1) dA(1), of ?m3] a3 r2(2) by (simp_all del: fun_upd_apply)
  have sep: "span d 4096 \<inter> span p 4096 = {}" by (rule aligned_disjoint [OF dal p(2)]) (use pd in simp)
  have k1: "m1 x = kmem s x" if "A q = Some k" "x \<in> span q (k * 4096)" for q k x
    by (rule kh.live_kept [OF assms(1) that(1) r1(1) p(3) a1 _ that(2)]) simp
  have k2: "?m2 x = m1 x" if "A q = Some k" "x \<in> span q (k * 4096)" for q k x
  proof -
    have "q \<noteq> p" using that(1) p(3) by auto
    then have "span q (k * 4096) \<inter> span p (1 * 4096) = {}"
      using kh.live_disjoint [OF r1(1), of q k p 1] that(1) by simp
    then show ?thesis using that(2) agree_offD [OF a2] by blast
  qed
  have k3: "?m3 x = ?m2 x" if "A q = Some k" "x \<in> span q (k * 4096)" "q \<noteq> d" for q k x
    using kh.live_disjoint [OF assms(1) that(1) assms(2) that(3)] that(2) agree_offD [OF a3] by blast
  have kept: "kept_but d A (kmem s) ?m3" unfolding kept_but_def using k1 k2 k3 by metis
  have dir: "read32 ?m3 (d + 4 * word_of_nat j) =
      (if j = i then p OR ucast flags OR 2 else read32 (kmem s) (d + 4 * word_of_nat j))" if "j < 1024" for j
  proof -
    have "read32 ?m2 (d + 4 * word_of_nat j) = read32 (kmem s) (d + 4 * word_of_nat j)"
      using k1 [OF assms(2)] k2 [OF assms(2)] slot_in_page [OF dal that] by (intro read32_span) auto
    then show ?thesis using slot_disjoint [OF dal dal that assms(3)] by (auto simp: mem_simps)
  qed
  have tab: "read32 ?m3 (p + 4 * word_of_nat b) = (off + word_of_nat b * 4096) OR ucast flags" if "b < 1024" for b
  proof -
    have "span (p + 4 * word_of_nat b) 4 \<inter> span (d + 4 * word_of_nat i) 4 = {}"
      using slot_disjoint [OF p(2) dal that assms(3)] pd by blast
    then have "read32 ?m3 (p + 4 * word_of_nat b) = read32 ?m2 (p + 4 * word_of_nat b)" by (simp add: mem_simps)
    then show ?thesis using fl that by simp
  qed
  have "new_tables d flags i (Suc n) off s = new_tables d flags (Suc i) n (off + 4194304) (put_kmem ?m3 s)"
    by (simp add: p(1) kmem_put)
  moreover have "kheap_avail (put_kmem ?m3 s) + 1 = kheap_avail s" using r3(2) r1(2) by simp
  moreover have "\<forall>j < 1024. read32 ?m3 (d + 4 * word_of_nat j) =
      (if j = i then p OR ucast flags OR 2 else read32 (kmem s) (d + 4 * word_of_nat j))"
    using dir by blast
  moreover have "\<forall>b < 1024. read32 ?m3 (p + 4 * word_of_nat b) = (off + word_of_nat b * 4096) OR ucast flags"
    using tab by blast
  ultimately show ?thesis using p(2,3) r3(1) kept by - (intro exI conjI, assumption+)
qed

lemma new_tables_spec:
  "kheap_ready s A \<Longrightarrow> A d = Some 1 \<Longrightarrow> i + n \<le> 1024 \<Longrightarrow> n \<le> kheap_avail s \<Longrightarrow>
   \<exists>ts m'. new_tables d flags i n off s = put_kmem m' s \<and> length ts = n \<and> distinct ts \<and>
     (\<forall>t \<in> set ts. A t = None \<and> unat t mod 4096 = 0) \<and>
     kheap_ready (put_kmem m' s) (with_pages A ts) \<and> kheap_avail (put_kmem m' s) + n = kheap_avail s \<and>
     (\<forall>j < 1024. read32 m' (d + 4 * word_of_nat j) =
        (if i \<le> j \<and> j < i + n then ts ! (j - i) OR ucast flags OR 2
         else read32 (kmem s) (d + 4 * word_of_nat j))) \<and>
     (\<forall>j < n. \<forall>b < 1024. read32 m' (ts ! j + 4 * word_of_nat b) =
        (off + word_of_nat j * 4194304 + word_of_nat b * 4096) OR ucast flags) \<and>
     kept_but d A (kmem s) m'"
proof (induction n arbitrary: s A i off)
  case 0
  show ?case
    by (rule exI [of _ "[]"], rule exI [of _ "kmem s"]) (use 0 in \<open>auto simp: put_kmem_def kept_but_def\<close>)
next
  case (Suc n)
  have i: "i < 1024" "0 < kheap_avail s" using Suc.prems(3,4) by auto
  obtain p m where p: "new_tables d flags i (Suc n) off s = new_tables d flags (Suc i) n (off + 4194304) (put_kmem m s)"
      "A p = None" "unat p mod 4096 = 0" "kheap_ready (put_kmem m s) (A(p \<mapsto> 1))"
      "kheap_avail (put_kmem m s) + 1 = kheap_avail s"
    and dir: "\<forall>j < 1024. read32 m (d + 4 * word_of_nat j) =
        (if j = i then p OR ucast flags OR 2 else read32 (kmem s) (d + 4 * word_of_nat j))"
    and tab: "\<forall>b < 1024. read32 m (p + 4 * word_of_nat b) = (off + word_of_nat b * 4096) OR ucast flags"
    and kept: "kept_but d A (kmem s) m"
    using new_table_step [OF Suc.prems(1,2) i, of flags n off] by (elim exE conjE) (rule that, assumption+)
  have pd: "p \<noteq> d" using p(2) Suc.prems(2) by auto
  have "(A(p \<mapsto> 1)) d = Some 1" "Suc i + n \<le> 1024" "n \<le> kheap_avail (put_kmem m s)"
    using pd Suc.prems p(5) by auto
  from Suc.IH [OF p(4) this, of "off + 4194304"] obtain ts m' where
      ts: "new_tables d flags (Suc i) n (off + 4194304) (put_kmem m s) = put_kmem m' s" "length ts = n" "distinct ts"
        "\<forall>t \<in> set ts. (A(p \<mapsto> 1)) t = None \<and> unat t mod 4096 = 0"
        "kheap_ready (put_kmem m' s) (with_pages (A(p \<mapsto> 1)) ts)" "kheap_avail (put_kmem m' s) + n = kheap_avail (put_kmem m s)"
    and dir': "\<forall>j < 1024. read32 m' (d + 4 * word_of_nat j) =
        (if Suc i \<le> j \<and> j < Suc i + n then ts ! (j - Suc i) OR ucast flags OR 2
         else read32 m (d + 4 * word_of_nat j))"
    and tab': "\<forall>j < n. \<forall>b < 1024. read32 m' (ts ! j + 4 * word_of_nat b) =
        (off + 4194304 + word_of_nat j * 4194304 + word_of_nat b * 4096) OR ucast flags"
    and kept': "kept_but d (A(p \<mapsto> 1)) m m'"
    unfolding put_kmem_simps by (elim exE conjE) (rule that, assumption+)
  have new: "p \<notin> set ts" "\<forall>t \<in> set ts. A t = None" using ts(4) by (auto split: if_splits)
  have pk: "read32 m' (p + 4 * word_of_nat b) = read32 m (p + 4 * word_of_nat b)" if "b < 1024" for b
    using kept_butD [OF kept', of p 1] pd slot_in_page [OF p(3) that] by (intro read32_span) auto
  have k: "kept_but d A (kmem s) m'"
    unfolding kept_but_def
  proof (intro allI impI)
    fix q k x
    assume q: "A q = Some k" "q \<noteq> d" "x \<in> span q (k * 4096)"
    then have "(A(p \<mapsto> 1)) q = Some k" using p(2) by auto
    then show "m' x = kmem s x" using kept_butD [OF kept' _ q(2,3)] kept_butD [OF kept q] by simp
  qed
  have d: "\<forall>j < 1024. read32 m' (d + 4 * word_of_nat j) =
      (if i \<le> j \<and> j < i + Suc n then (p # ts) ! (j - i) OR ucast flags OR 2
       else read32 (kmem s) (d + 4 * word_of_nat j))"
    using dir dir' by (auto simp: nth_Cons' Suc_le_eq)
  have t: "\<forall>j < Suc n. \<forall>b < 1024. read32 m' ((p # ts) ! j + 4 * word_of_nat b) =
      (off + word_of_nat j * 4194304 + word_of_nat b * 4096) OR ucast flags"
    using tab tab' pk by (auto simp: All_less_Suc2 algebra_simps)
  have "length (p # ts) = Suc n" "distinct (p # ts)" "\<forall>t \<in> set (p # ts). A t = None \<and> unat t mod 4096 = 0"
    "kheap_ready (put_kmem m' s) (with_pages A (p # ts))" "kheap_avail (put_kmem m' s) + Suc n = kheap_avail s"
    using ts new p(2,3,5) by auto
  moreover have "new_tables d flags i (Suc n) off s = put_kmem m' s" using p(1) ts(1) by simp
  ultimately show ?case using d t k by - (intro exI conjI, assumption+)
qed
text \<open>\<open>chunk_owns s A c d ts\<close>: the chunk at \<open>c\<close>, its directory \<open>d\<close> and the tables \<open>ts\<close> of the directory
  are pages of their own among the live allocations \<open>A\<close>.\<close>

definition chunk_owns :: "'z kstate_scheme \<Rightarrow> (u32 \<Rightarrow> nat option) \<Rightarrow> u32 \<Rightarrow> u32 \<Rightarrow> u32 list \<Rightarrow> bool" where
  "chunk_owns s A c d ts \<longleftrightarrow> kheap_ready s A \<and> directory_entry (kmem s) c = d \<and> length ts = 1024 \<and>
     distinct (c # d # ts) \<and> (\<forall>p \<in> set (c # d # ts). A p = Some 1) \<and>
     (\<forall>i < 1024. table_of (kmem s) d i = ts ! i)"

lemma chunk_owns_page:
  "chunk_owns s A c d ts \<Longrightarrow> p \<in> set (c # d # ts) \<Longrightarrow> A p = Some 1 \<and> unat p mod 4096 = 0"
  using kh.live_bounds [of s A p 1] by (auto simp: chunk_owns_def)

lemma chunk_owns_wf:
  assumes "chunk_owns s A c d ts"
  shows "chunk_wf (kmem s) c d"
proof -
  have o: "directory_entry (kmem s) c = d" "length ts = 1024" "distinct (c # d # ts)"
    "\<forall>i < 1024. table_of (kmem s) d i = ts ! i"
    using assms by (auto simp: chunk_owns_def)
  have in_ts: "ts ! i \<in> set ts" if "i < 1024" for i using o(2) that by simp
  have "span c 4 \<inter> span (ts ! i) 4096 = {}" if "i < 1024" for i
  proof -
    have "c \<noteq> ts ! i" using o(3) in_ts [OF that] by auto
    then have "span c 4096 \<inter> span (ts ! i) 4096 = {}"
      using chunk_owns_page [OF assms, of c] chunk_owns_page [OF assms, of "ts ! i"] in_ts [OF that]
      by (intro aligned_disjoint) auto
    then show ?thesis using span_mono [of 4 4096 c] by auto
  qed
  moreover have "ts ! i \<noteq> d" if "i < 1024" for i using o(3) in_ts [OF that] by auto
  moreover have "ts ! i \<noteq> ts ! j" if "i < 1024" "j < 1024" "i \<noteq> j" for i j
    using o(2,3) that by (simp add: nth_eq_iff_index_eq)
  moreover have "unat d mod 4096 = 0" using chunk_owns_page [OF assms, of d] by simp
  ultimately show ?thesis using o by (simp add: chunk_wf_def paging_wf_def)
qed

lemma page_of_indices:
  assumes "paging_is_aligned v"
  shows "(word_of_nat (dir_index v) * 4194304 + word_of_nat (tab_index v) * 4096 :: u32) = v"
proof -
  have "unat v mod 4194304 mod 4096 = 0" using assms by (simp add: aligned_iff mod_mod_cancel)
  then have t: "tab_index v * 4096 = unat v mod 4194304" unfolding tab_index_def by auto
  have "dir_index v * 4194304 + tab_index v * 4096 = unat v" unfolding t by (simp add: dir_index_def)
  then have "word_of_nat (dir_index v * 4194304 + tab_index v * 4096) = v" by simp
  then show ?thesis by simp
qed

lemma kzalloc_kept:
  assumes "kheap_ready s A" "kheap_ready (put_kmem m' s) (A(p \<mapsto> n))" "A p = None"
    "agree_off (kheap_reserved s \<union> span p c) (kmem s) m'" "c \<le> n * 4096"
  shows "kept A (kmem s) m'"
  unfolding kept_def using kh.live_kept [OF assms(1) _ assms(2-5)] by blast

text \<open>The directory and its tables, before the chunk is allocated.\<close>

lemma directory_built:
  assumes "kheap_ready s A" "1025 \<le> kheap_avail s"
  shows "\<exists>d m1 ts m. kzalloc 4096 s = (d, put_kmem m1 s) \<and>
     new_tables d flags 0 1024 0 (put_kmem m1 s) = put_kmem m s \<and> length ts = 1024 \<and> distinct (d # ts) \<and>
     (\<forall>p \<in> set (d # ts). A p = None \<and> unat p mod 4096 = 0) \<and>
     kheap_ready (put_kmem m s) (with_pages A (d # ts)) \<and> kheap_avail (put_kmem m s) + 1025 = kheap_avail s \<and>
     (\<forall>i < 1024. table_of m d i = ts ! i) \<and>
     (\<forall>i < 1024. read32 m (d + 4 * word_of_nat i) = ts ! i OR ucast flags OR 2) \<and>
     (\<forall>v. paging_is_aligned v \<longrightarrow> paging_get m d v = v OR ucast flags) \<and> kept A (kmem s) m"
proof -
  have "0 < kheap_avail s" using assms(2) by simp
  from kh.zalloc_page [OF assms(1) _ _ this, of 4096]
  obtain d m1 where d: "kzalloc 4096 s = (d, put_kmem m1 s)" "unat d mod 4096 = 0" "A d = None"
    and r1: "kheap_ready (put_kmem m1 s) (A(d \<mapsto> 1))" "kheap_avail (put_kmem m1 s) + 1 = kheap_avail s"
    and a1: "agree_off (kheap_reserved s \<union> span d 4096) (kmem s) m1"
    by auto
  let ?A1 = "A(d \<mapsto> 1)"
  have d1: "?A1 d = Some 1" by simp
  have av: "1024 \<le> kheap_avail (put_kmem m1 s)" and le: "0 + 1024 \<le> (1024 :: nat)" using r1(2) assms(2) by simp_all
  obtain ts m where t: "new_tables d flags 0 1024 0 (put_kmem m1 s) = put_kmem m s" "length ts = 1024"
      "distinct ts" "\<forall>t \<in> set ts. ?A1 t = None \<and> unat t mod 4096 = 0"
      "kheap_ready (put_kmem m s) (with_pages ?A1 ts)" "kheap_avail (put_kmem m s) + 1024 = kheap_avail (put_kmem m1 s)"
    and dir: "\<forall>j < 1024. read32 m (d + 4 * word_of_nat j) =
        (if 0 \<le> j \<and> j < 0 + 1024 then ts ! (j - 0) OR ucast flags OR 2
         else read32 m1 (d + 4 * word_of_nat j))"
    and tab: "\<forall>j < 1024. \<forall>b < 1024. read32 m (ts ! j + 4 * word_of_nat b) =
        (0 + word_of_nat j * 4194304 + word_of_nat b * 4096) OR ucast flags"
    and k2: "kept_but d ?A1 m1 m"
    using new_tables_spec [OF r1(1) d1 le av, of flags 0]
    unfolding put_kmem_simps by (elim exE conjE) (rule that, assumption+)
  have new: "\<forall>p \<in> set ts. A p = None \<and> unat p mod 4096 = 0" "d \<notin> set ts" using t(4) by (auto split: if_splits)
  have tb: "\<forall>i < 1024. table_of m d i = ts ! i"
    using dir new(1) t(2) by (simp add: table_of_def page_frame_of_entry)
  have de: "\<forall>i < 1024. read32 m (d + 4 * word_of_nat i) = ts ! i OR ucast flags OR 2" using dir by simp
  have "paging_get m d v = v OR ucast flags" if "paging_is_aligned v" for v
    using tab index_bounds [of v] that tb by (simp add: paging_get_eq entry_addr_def page_of_indices)
  moreover have "kept A (kmem s) m"
  proof (rule kept_trans)
    show "kept A (kmem s) m1"
      by (rule kzalloc_kept [OF assms(1) r1(1) d(3) a1]) simp
    have "(?A1 q = Some k) \<and> q \<noteq> d" if "A q = Some k" for q k using that d(3) by auto
    then show "kept A m1 m" unfolding kept_def using kept_butD [OF k2] by blast
  qed
  moreover have "with_pages ?A1 ts = with_pages A (d # ts)" by (auto simp: with_pages_def)
  then have "kheap_ready (put_kmem m s) (with_pages A (d # ts))" using t(5) by simp
  moreover have "\<forall>p \<in> set (d # ts). A p = None \<and> unat p mod 4096 = 0" "distinct (d # ts)"
    using new d(2,3) t(3) by auto
  moreover have "kheap_avail (put_kmem m s) + 1025 = kheap_avail s" using t(6) r1(2) by simp
  ultimately show ?thesis using d(1) t(1,2) tb de by - (intro exI conjI allI impI, assumption+, blast+)
qed

lemma paging_get_agree:
  assumes "paging_is_aligned v" "\<And>x. x \<in> span d 4096 \<union> tables_region m d \<Longrightarrow> m' x = m x" "unat d mod 4096 = 0"
  shows "paging_get m' d v = paging_get m d v"
proof -
  have d: "table_of m' d i = table_of m d i" if "i < 1024" for i
    unfolding table_of_def using slot_in_page [OF assms(3) that] assms(2)
    by (subst read32_span [of "d + 4 * word_of_nat i" m' m]) auto
  have "read32 m' (entry_addr m d v) = read32 m (entry_addr m d v)"
    using entry_in_tables [of m d v] assms(2) by (intro read32_span) auto
  then show ?thesis using assms(1) d [OF index_bounds(1)] by (simp add: paging_get_eq entry_addr_def)
qed

lemma paging_new_4gb_owns:
  assumes "kheap_ready s A" "1026 \<le> kheap_avail s"
  shows "\<exists>c d ts m'. paging_new_4gb flags s = (c, put_kmem m' s) \<and>
     chunk_owns (put_kmem m' s) (with_pages A (c # d # ts)) c d ts \<and>
     (\<forall>p \<in> set (c # d # ts). A p = None) \<and> c \<noteq> 0 \<and>
     kheap_avail (put_kmem m' s) + 1026 = kheap_avail s \<and>
     (\<forall>i < 1024. read32 m' (d + 4 * word_of_nat i) = ts ! i OR ucast flags OR 2) \<and>
     (\<forall>v. paging_is_aligned v \<longrightarrow> paging_get m' d v = v OR ucast flags) \<and> kept A (kmem s) m'"
proof -
  have "1025 \<le> kheap_avail s" using assms(2) by simp
  from directory_built [OF assms(1) this, of flags]
  obtain d m1 ts m2 where t: "kzalloc 4096 s = (d, put_kmem m1 s)"
      "new_tables d flags 0 1024 0 (put_kmem m1 s) = put_kmem m2 s" "length ts = 1024" "distinct (d # ts)"
      "\<forall>p \<in> set (d # ts). A p = None \<and> unat p mod 4096 = 0"
      "kheap_ready (put_kmem m2 s) (with_pages A (d # ts))" "kheap_avail (put_kmem m2 s) + 1025 = kheap_avail s"
      "\<forall>i < 1024. table_of m2 d i = ts ! i"
      "\<forall>i < 1024. read32 m2 (d + 4 * word_of_nat i) = ts ! i OR ucast flags OR 2"
      "\<forall>v. paging_is_aligned v \<longrightarrow> paging_get m2 d v = v OR ucast flags" "kept A (kmem s) m2"
    by (elim exE conjE) (rule that, assumption+)
  let ?A = "with_pages A (d # ts)"
  have "0 < kheap_avail (put_kmem m2 s)" using t(7) assms(2) by simp
  from kh.zalloc_page [OF t(6) _ _ this, of 4]
  obtain c m3 where c: "kzalloc 4 (put_kmem m2 s) = (c, put_kmem m3 s)" "c \<noteq> 0" "unat c mod 4096 = 0" "?A c = None"
    and r: "kheap_ready (put_kmem m3 s) (?A(c \<mapsto> 1))" "kheap_avail (put_kmem m3 s) + 1 = kheap_avail (put_kmem m2 s)"
    and a: "agree_off (kheap_reserved s \<union> span c 4) m2 m3"
    by (auto simp: kheap_reserved_put)
  let ?m = "write32 m3 c d" and ?Ac = "with_pages A (c # d # ts)"
  have Ac: "?A(c \<mapsto> 1) = ?Ac" by (auto simp: with_pages_def)
  have cn: "c \<notin> set (d # ts)" "A c = None" using c(4) by (auto simp: with_pages_def split: if_splits)
  have sub: "span c 4 \<subseteq> span c (1 * 4096)" by (intro span_mono) simp
  have "agree_off (span c (1 * 4096)) m3 ?m" by (rule agree_off_mono [OF write32_agree sub])
  with kh.write_live [OF r(1), of c 1 ?m]
  have r2: "kheap_ready (put_kmem ?m s) ?Ac" "kheap_avail (put_kmem ?m s) + 1026 = kheap_avail s"
    using r(2) t(7) Ac by simp_all
  have k3: "kept ?A m2 ?m"
  proof (rule kept_trans)
    show "kept ?A m2 m3"
      using kzalloc_kept [OF t(6), of m3 c 1 4] r(1) c(4) a
      by (simp add: kheap_reserved_put del: fun_upd_apply)
    have "span q (k * 4096) \<inter> span c 4 = {}" if "?A q = Some k" for q k
    proof -
      have "(?A(c \<mapsto> 1)) q = Some k" "q \<noteq> c" using that c(4) by auto
      then have "span q (k * 4096) \<inter> span c (1 * 4096) = {}"
        using kh.live_disjoint [OF r(1), of q k c 1] by simp
      then show ?thesis using sub by blast
    qed
    then show "kept ?A m3 ?m" by (rule kept_off [OF write32_agree])
  qed
  have pages: "?m x = m2 x" if "p \<in> set (d # ts)" "x \<in> span p 4096" for p x
    using keptD [OF k3, of p 1] that by (simp add: with_pages_def)
  have in_ts: "ts ! i \<in> set (d # ts)" if "i < 1024" for i using that t(3) by simp
  have dal: "unat d mod 4096 = 0" using t(5) by simp
  have de: "read32 ?m (d + 4 * word_of_nat i) = read32 m2 (d + 4 * word_of_nat i)" if "i < 1024" for i
    using slot_in_page [OF dal that] by (intro read32_span pages [of d]) auto
  have tb: "\<forall>i < 1024. table_of ?m d i = ts ! i" using t(8) by (simp add: table_of_def de)
  have de': "\<forall>i < 1024. read32 ?m (d + 4 * word_of_nat i) = ts ! i OR ucast flags OR 2" using t(9) by (simp add: de)
  have get: "\<forall>v. paging_is_aligned v \<longrightarrow> paging_get ?m d v = v OR ucast flags"
  proof (intro allI impI)
    fix v
    assume v: "paging_is_aligned v"
    have "?m x = m2 x" if "x \<in> span d 4096 \<union> tables_region m2 d" for x
      using that t(8) pages in_ts unfolding tables_region_def by auto
    then show "paging_get ?m d v = v OR ucast flags"
      using paging_get_agree [OF v _ dal, of m2 ?m] t(10) v by metis
  qed
  have "kept A m2 ?m" using keptD [OF k3] t(5) unfolding kept_def with_pages_def by (metis option.distinct(1))
  then have kA: "kept A (kmem s) ?m" by (rule kept_trans [OF t(11)])
  have "chunk_owns (put_kmem ?m s) ?Ac c d ts"
    unfolding chunk_owns_def using r2(1) t(3,4) cn tb by (auto simp: directory_entry_def)
  moreover have "paging_new_4gb flags s = (c, put_kmem ?m s)"
    by (simp add: paging_new_4gb_def t(1,2) c(1) kmem_put)
  moreover have "\<forall>p \<in> set (c # d # ts). A p = None" using t(5) cn by auto
  ultimately show ?thesis using r2(2) de' get kA c(2) by - (intro exI conjI, assumption+)
qed
section \<open>Freeing an address space\<close>

lemma live_page_agree:
  assumes "kheap_ready s A" "A p = Some 1" "agree_off (kheap_reserved s) (kmem s) m" "span q 4 \<subseteq> span p 4096"
  shows "read32 m q = read32 (kmem s) q"
  using kh.live_reserved [OF assms(1,2)] assms(4) by (intro read32_agree [OF assms(3)]) auto

lemma free_tables_spec:
  "kheap_ready s A \<Longrightarrow> A c = Some 1 \<Longrightarrow> A d = Some 1 \<Longrightarrow> directory_entry (kmem s) c = d \<Longrightarrow>
   i + length ts \<le> 1024 \<Longrightarrow> \<forall>j < length ts. table_of (kmem s) d (i + j) = ts ! j \<Longrightarrow> distinct ts \<Longrightarrow>
   \<forall>t \<in> set ts. A t = Some 1 \<Longrightarrow> c \<notin> set ts \<Longrightarrow> d \<notin> set ts \<Longrightarrow>
   \<exists>m'. free_tables c i (length ts) s = put_kmem m' s \<and> kheap_ready (put_kmem m' s) (without A ts) \<and>
     kheap_avail (put_kmem m' s) = kheap_avail s + length ts \<and> agree_off (kheap_reserved s) (kmem s) m'"
proof (induction ts arbitrary: s A i)
  case Nil
  then show ?case by (intro exI [of _ "kmem s"]) (simp add: put_kmem_def)
next
  case (Cons t ts)
  have "A t = Some 1" using Cons.prems(8) by simp
  from kh.release_live [OF Cons.prems(1) this]
  obtain m1 where m1: "kfree t s = put_kmem m1 s" "kheap_ready (put_kmem m1 s) (A(t := None))"
      "kheap_avail (put_kmem m1 s) = kheap_avail s + 1" "agree_off (kheap_reserved s) (kmem s) m1"
    by (elim exE conjE) (rule that, assumption+)
  have al: "unat d mod 4096 = 0" using kh.live_bounds [OF Cons.prems(1,3)] by blast
  have c: "read32 m1 c = read32 (kmem s) c"
    by (rule live_page_agree [OF Cons.prems(1,2) m1(4)]) (rule span_mono, simp)
  have d: "table_of m1 d j = table_of (kmem s) d j" if "j < 1024" for j
    unfolding table_of_def using live_page_agree [OF Cons.prems(1,3) m1(4) slot_in_page [OF al that]] by simp
  have pre: "(A(t := None)) c = Some 1" "(A(t := None)) d = Some 1" "directory_entry (kmem (put_kmem m1 s)) c = d"
    "Suc i + length ts \<le> 1024" "distinct ts" "\<forall>p \<in> set ts. (A(t := None)) p = Some 1" "c \<notin> set ts" "d \<notin> set ts"
    using Cons.prems c by (auto simp: directory_entry_def)
  have tb: "\<forall>j < length ts. table_of (kmem (put_kmem m1 s)) d (Suc i + j) = ts ! j"
  proof (intro allI impI)
    fix j
    assume j: "j < length ts"
    then show "table_of (kmem (put_kmem m1 s)) d (Suc i + j) = ts ! j"
      using Cons.prems(5) Cons.prems(6) [rule_format, of "Suc j"] by (simp add: d)
  qed
  obtain m2 where m2: "free_tables c (Suc i) (length ts) (put_kmem m1 s) = put_kmem m2 s"
      "kheap_ready (put_kmem m2 s) (without A (t # ts))"
      "kheap_avail (put_kmem m2 s) = kheap_avail (put_kmem m1 s) + length ts" "agree_off (kheap_reserved s) m1 m2"
    using Cons.IH [OF m1(2) pre(1-4) tb pre(5-8)]
    unfolding without_simps put_kmem_simps kheap_reserved_put by (elim exE conjE) (rule that, assumption+)
  have "table_of (kmem s) d i = t" using Cons.prems(6) by force
  then have "free_tables c i (length (t # ts)) s = put_kmem m2 s"
    using Cons.prems(4) m1(1) m2(1) by (simp add: table_of_def)
  moreover have "agree_off (kheap_reserved s) (kmem s) m2" by (rule agree_off_trans_same [OF m1(4) m2(4)])
  ultimately show ?case using m1(3) m2(2,3) by auto
qed

lemma paging_free_4gb_spec:
  assumes "chunk_owns s A c d ts"
  shows "\<exists>m'. paging_free_4gb c s = put_kmem m' s \<and> kheap_ready (put_kmem m' s) (without A (c # d # ts)) \<and>
     kheap_avail (put_kmem m' s) = kheap_avail s + 1026 \<and> agree_off (kheap_reserved s) (kmem s) m'"
proof -
  have o: "kheap_ready s A" "directory_entry (kmem s) c = d" "length ts = 1024" "distinct (c # d # ts)"
    "\<forall>i < 1024. table_of (kmem s) d i = ts ! i" "A c = Some 1" "A d = Some 1" "\<forall>t \<in> set ts. A t = Some 1"
    using assms by (auto simp: chunk_owns_def)
  obtain m1 where m1: "free_tables c 0 1024 s = put_kmem m1 s" "kheap_ready (put_kmem m1 s) (without A ts)"
      "kheap_avail (put_kmem m1 s) = kheap_avail s + 1024" "agree_off (kheap_reserved s) (kmem s) m1"
    using free_tables_spec [OF o(1,6,7,2), of 0 ts] o by auto
  have d1: "read32 m1 c = d"
    using live_page_agree [OF o(1,6) m1(4), of c] o(2) span_mono [of 4 4096 c] by (simp add: directory_entry_def)
  have "without A ts d = Some 1" using o(4,7) by (simp add: without_def)
  from kh.release_live [OF m1(2) this]
  obtain m2 where m2: "kfree d (put_kmem m1 s) = put_kmem m2 s" "kheap_ready (put_kmem m2 s) (without A (d # ts))"
      "kheap_avail (put_kmem m2 s) = kheap_avail (put_kmem m1 s) + 1" "agree_off (kheap_reserved s) m1 m2"
    unfolding without_simps put_kmem_simps kheap_reserved_put by (elim exE conjE) (rule that, assumption+)
  have "without A (d # ts) c = Some 1" using o(4,6) by (simp add: without_def)
  from kh.release_live [OF m2(2) this]
  obtain m3 where m3: "kfree c (put_kmem m2 s) = put_kmem m3 s" "kheap_ready (put_kmem m3 s) (without A (c # d # ts))"
      "kheap_avail (put_kmem m3 s) = kheap_avail (put_kmem m2 s) + 1" "agree_off (kheap_reserved s) m2 m3"
    unfolding without_simps put_kmem_simps kheap_reserved_put by (elim exE conjE) (rule that, assumption+)
  have "paging_free_4gb c s = put_kmem m3 s"
    by (simp add: paging_free_4gb_def m1(1) directory_entry_def d1 m2(1) m3(1))
  moreover have "agree_off (kheap_reserved s) (kmem s) m3"
    using agree_off_trans_same m1(4) m2(4) m3(4) by blast
  ultimately show ?thesis using m1(3) m2(3) m3(2,3) by auto
qed

section \<open>Properties\<close>

text \<open>C33: \<^verbatim>\<open>paging_new_4gb\<close>, given 1026 free pages in the kernel heap, builds an
  address space that maps every page of the 4 GiB to itself with the given flags. The chunk, the directory and its
  1024 tables are fresh pages of their own, and nothing in any allocation that was live before changes.\<close>

theorem paging_new_4gb_identity:
  assumes "kheap_ready s A" "1026 \<le> kheap_avail s"
  shows "\<exists>c d ts m'. paging_new_4gb flags s = (c, put_kmem m' s) \<and> c \<noteq> 0 \<and>
     chunk_owns (put_kmem m' s) (with_pages A (c # d # ts)) c d ts \<and>
     (\<forall>p \<in> set (c # d # ts). A p = None) \<and>
     (\<forall>v. paging_is_aligned v \<longrightarrow> paging_get m' d v = v OR ucast flags) \<and> kept A (kmem s) m'"
  using paging_new_4gb_owns [OF assms, of flags] by (elim exE conjE) (intro exI conjI, assumption+)

theorem paging_new_4gb_identity_witness:
  "\<exists>c d m'. paging_new_4gb 7 (kheap_init zero_kstate) = (c, put_kmem m' (kheap_init zero_kstate)) \<and>
     c \<noteq> 0 \<and> paging_get m' d 0xb8000 = 0xb8007"
proof -
  have a: "kheap_ready (kheap_init zero_kstate) (\<lambda>_. None)" "1026 \<le> kheap_avail (kheap_init zero_kstate)"
    using kheap_init_avail [of zero_kstate] by simp_all
  from paging_new_4gb_identity [OF a, of 7]
  obtain c d m' where r: "paging_new_4gb 7 (kheap_init zero_kstate) = (c, put_kmem m' (kheap_init zero_kstate))"
    "c \<noteq> 0" "\<forall>v. paging_is_aligned v \<longrightarrow> paging_get m' d v = v OR ucast (7 :: u8)"
    by (elim exE conjE) (rule that, assumption+)
  have "paging_get m' d 0xb8000 = 0xb8007" using r(3) by (simp add: paging_is_aligned_def)
  with r(1,2) show ?thesis by - (intro exI conjI, assumption+)
qed

text \<open>C34: \<^verbatim>\<open>paging_free_4gb\<close> of an address space gives back exactly its pages: the
  chunk, the directory and all its tables leave the map of live allocations, 1026 pages become free, and only the
  heap's own table is written.\<close>

theorem paging_free_4gb_releases:
  assumes "chunk_owns s A c d ts"
  shows "kheap_ready (paging_free_4gb c s) (without A (c # d # ts)) \<and>
     kheap_avail (paging_free_4gb c s) = kheap_avail s + 1026 \<and>
     agree_off (kheap_reserved s) (kmem s) (kmem (paging_free_4gb c s))"
proof -
  obtain m' where "paging_free_4gb c s = put_kmem m' s" "kheap_ready (put_kmem m' s) (without A (c # d # ts))"
    "kheap_avail (put_kmem m' s) = kheap_avail s + 1026" "agree_off (kheap_reserved s) (kmem s) m'"
    using paging_free_4gb_spec [OF assms] by (elim exE conjE) (rule that, assumption+)
  then show ?thesis by simp
qed

text \<open>A fresh address space on the heap the kernel boots with.\<close>

lemma boot_chunk:
  "\<exists>c d ts m. paging_new_4gb flags (kheap_init zero_kstate) = (c, put_kmem m (kheap_init zero_kstate)) \<and>
     chunk_owns (put_kmem m (kheap_init zero_kstate)) (with_pages (\<lambda>_. None) (c # d # ts)) c d ts \<and>
     kheap_avail (put_kmem m (kheap_init zero_kstate)) = 24574 \<and>
     (\<forall>v. paging_is_aligned v \<longrightarrow> paging_get m d v = v OR ucast flags)"
proof -
  have a: "kheap_ready (kheap_init zero_kstate) (\<lambda>_. None)" "kheap_avail (kheap_init zero_kstate) = 25600"
    using kheap_init_avail by blast+
  have "1026 \<le> kheap_avail (kheap_init zero_kstate)" using a(2) by simp
  from paging_new_4gb_owns [OF a(1) this, of flags] obtain c d ts m where
    r: "paging_new_4gb flags (kheap_init zero_kstate) = (c, put_kmem m (kheap_init zero_kstate))"
    "chunk_owns (put_kmem m (kheap_init zero_kstate)) (with_pages (\<lambda>_. None) (c # d # ts)) c d ts"
    "kheap_avail (put_kmem m (kheap_init zero_kstate)) + 1026 = kheap_avail (kheap_init zero_kstate)"
    "\<forall>v. paging_is_aligned v \<longrightarrow> paging_get m d v = v OR ucast flags"
    by (elim exE conjE) (rule that, assumption+)
  moreover have "kheap_avail (put_kmem m (kheap_init zero_kstate)) = 24574" using r(3) a(2) by simp
  ultimately show ?thesis by - (intro exI conjI, assumption+)
qed

theorem paging_free_4gb_releases_witness:
  "\<exists>c s. paging_new_4gb 7 (kheap_init zero_kstate) = (c, s) \<and> kheap_avail (paging_free_4gb c s) = 25600"
proof -
  obtain c d ts m where r: "paging_new_4gb 7 (kheap_init zero_kstate) = (c, put_kmem m (kheap_init zero_kstate))"
    "chunk_owns (put_kmem m (kheap_init zero_kstate)) (with_pages (\<lambda>_. None) (c # d # ts)) c d ts"
    "kheap_avail (put_kmem m (kheap_init zero_kstate)) = 24574"
    using boot_chunk [of 7] by (elim exE conjE) (rule that, assumption+)
  from paging_free_4gb_releases [OF r(2)] r(1,3) show ?thesis by auto
qed
text \<open>Witnesses for the lookup laws, on that address space.\<close>

lemma boot_chunk_wf:
  "\<exists>m c d. chunk_wf m c d \<and> (\<forall>v. paging_is_aligned v \<longrightarrow> paging_get m d v = v OR 7)"
proof -
  obtain c d ts m where r:
    "chunk_owns (put_kmem m (kheap_init zero_kstate)) (with_pages (\<lambda>_. None) (c # d # ts)) c d ts"
    "\<forall>v. paging_is_aligned v \<longrightarrow> paging_get m d v = v OR ucast (7 :: u8)"
    using boot_chunk [of 7] by (elim exE conjE) (rule that, assumption+)
  from chunk_owns_wf [OF r(1)] r(2) show ?thesis by auto
qed

theorem paging_set_updates_witness:
  "\<exists>m d m'. paging_set m d 0x400000 0x1000007 = (0, m') \<and> paging_get m' d 0x400000 = 0x1000007 \<and>
     paging_get m' d 0x401000 = 0x401007"
proof -
  obtain m c d where w: "chunk_wf m c d" "\<forall>v. paging_is_aligned v \<longrightarrow> paging_get m d v = v OR 7"
    using boot_chunk_wf by blast
  have al: "paging_is_aligned 0x400000" "paging_is_aligned 0x401000" by (simp_all add: paging_is_aligned_def)
  have "paging_wf m d" using w(1) by (simp add: chunk_wf_def)
  from paging_set_updates [OF this, of "0x400000" "0x1000007"] al(1)
  obtain m' where m': "paging_set m d 0x400000 0x1000007 = (0, m')" "paging_get m' d 0x400000 = 0x1000007"
    "\<forall>w. paging_is_aligned w \<and> w \<noteq> 0x400000 \<longrightarrow> paging_get m' d w = paging_get m d w" by auto
  have "paging_get m' d 0x401000 = 0x401007" using m'(3) w(2) al(2) by simp
  with m'(1,2) show ?thesis by blast
qed

theorem paging_map_to_maps_witness:
  "\<exists>m c d m'. paging_map_to m c 0x400000 0x1000000 0x1002000 7 = (0, m') \<and>
     paging_get m' d 0x401000 = 0x1001007 \<and> paging_get m' d 0x402000 = 0x402007"
proof -
  obtain m c d where w: "chunk_wf m c d" "\<forall>v. paging_is_aligned v \<longrightarrow> paging_get m d v = v OR 7"
    using boot_chunk_wf by blast
  have al: "paging_is_aligned 0x400000" "paging_is_aligned 0x401000" "paging_is_aligned 0x402000"
    "paging_is_aligned 0x1000000" "paging_is_aligned 0x1002000" by (simp_all add: paging_is_aligned_def)
  from paging_map_to_maps [OF w(1), of "0x400000" "0x1000000" "0x1002000" 7] al
  obtain m' where m': "paging_map_to m c 0x400000 0x1000000 0x1002000 7 = (0, m')"
    "\<forall>w. paging_is_aligned w \<longrightarrow> paging_get m' d w =
       (if unat (w - 0x400000) < unat (0x1002000 - 0x1000000 :: u32) then (0x1000000 + (w - 0x400000)) OR word_of_int 7
        else paging_get m d w)" by auto
  have "paging_get m' d 0x401000 = 0x1001007" "paging_get m' d 0x402000 = 0x402007"
    using m'(2) w(2) al(2,3) by simp_all
  with m'(1) show ?thesis by blast
qed

text \<open>The two rounding routines: \<^verbatim>\<open>paging_align_to_lower_page\<close> gives the greatest page boundary not
  above the address; \<^verbatim>\<open>paging_align_address\<close> the least one not below it, which wraps to 0 exactly for
  the addresses above the last page boundary.\<close>

theorem paging_align_rounds:
  "unat (paging_align_to_lower_page a) = unat a div 4096 * 4096 \<and>
   unat (paging_align_address a) = (unat a + 4095) div 4096 * 4096 mod 4294967296"
proof
  have low: "unat (a - a mod 4096) = unat a div 4096 * 4096"
    by (subst unat_diff_le) (simp_all add: unat_mod_4096 minus_mod_eq_div_mult)
  then show "unat (paging_align_to_lower_page a) = unat a div 4096 * 4096"
    by (simp only: paging_align_to_lower_page_def)
  show "unat (paging_align_address a) = (unat a + 4095) div 4096 * 4096 mod 4294967296"
  proof (cases "unat a mod 4096 = 0")
    case True
    then have "a mod 4096 = 0" by (simp add: word_unat_eq_iff unat_mod_4096)
    moreover have "(unat a + 4095) div 4096 * 4096 = unat a" using True by auto
    ultimately show ?thesis using unat_le_max32 [of a] by (simp add: paging_align_address_def)
  next
    case False
    then have ne: "a mod 4096 \<noteq> 0" by (simp add: word_unat_eq_iff unat_mod_4096)
    have "a + 4096 - a mod 4096 = (a - a mod 4096) + 4096" by (rule diff_add_eq [symmetric])
    with ne have "paging_align_address a = (a - a mod 4096) + 4096" by (simp only: paging_align_address_def if_True not_False_eq_True)
    moreover have "unat ((a - a mod 4096) + 4096) = (unat a div 4096 * 4096 + 4096) mod 4294967296"
      by (simp only: unat_word_ariths low) simp
    moreover have "(unat a + 4095) div 4096 * 4096 = unat a div 4096 * 4096 + 4096"
      by (simp only: round_up_4096 [OF False] mult_Suc add.commute)
    ultimately show ?thesis by (simp only:)
  qed
qed

end
