(* ===== verification/Disk.thy ===== *)
theory Disk
  imports Paging "HOL-Library.Monad_Syntax"
begin

text \<open>
  \<^verbatim>\<open>src/disk/disk.c\<close>, \<^verbatim>\<open>src/disk/streamer.c\<close> and the port instructions of \<^verbatim>\<open>src/io/io.asm\<close>. The ATA drive is not
  part of the program: it is a function \<open>dev\<close> from the history of port accesses to the value the next
  read of a port returns, and \<open>ata_disk\<close> states the documented behaviour the driver relies on. On top of
  it the stream reads are the reads of a flat sequence of bytes.
\<close>

section \<open>Ports\<close>

datatype io_event = Outb u16 u8 | Outw u16 u16 | Insb u16 | Insw u16

text \<open>The history is kept latest first.\<close>

type_synonym device = "io_event list \<Rightarrow> u16 \<Rightarrow> u16"

text \<open>The one disk of the system, \<^verbatim>\<open>struct disk disk\<close>, is a field of the state; \<open>disk_at\<close> is its
  address, fixed at link time, which the code compares pointers with.\<close>

record disk =
  disk_type :: u32
  sector_size :: int
  disk_id :: int
  disk_filesystem :: u32
  disk_fs_private :: u32

record dstate = pstate +
  iolog :: "io_event list"
  the_disk :: disk
  disk_at :: u32

definition outb :: "u16 \<Rightarrow> u8 \<Rightarrow> 'z dstate_scheme \<Rightarrow> 'z dstate_scheme" where
  "outb port v s = s\<lparr>iolog := Outb port v # iolog s\<rparr>"

definition outw :: "u16 \<Rightarrow> u16 \<Rightarrow> 'z dstate_scheme \<Rightarrow> 'z dstate_scheme" where
  "outw port v s = s\<lparr>iolog := Outw port v # iolog s\<rparr>"

definition insb :: "device \<Rightarrow> u16 \<Rightarrow> 'z dstate_scheme \<Rightarrow> u8 \<times> 'z dstate_scheme" where
  "insb dev port s = (ucast (dev (iolog s) port), s\<lparr>iolog := Insb port # iolog s\<rparr>)"

definition insw :: "device \<Rightarrow> u16 \<Rightarrow> 'z dstate_scheme \<Rightarrow> u16 \<times> 'z dstate_scheme" where
  "insw dev port s = (dev (iolog s) port, s\<lparr>iolog := Insw port # iolog s\<rparr>)"

section \<open>Sectors (disk.c)\<close>

abbreviation (input) PEACHOS_SECTOR_SIZE :: "'a :: numeral" where "PEACHOS_SECTOR_SIZE \<equiv> 512"

text \<open>\<^verbatim>\<open>lba\<close> is an \<^verbatim>\<open>int\<close>: its shifts are arithmetic, and each \<^verbatim>\<open>outb\<close> takes the low byte.\<close>

definition lba_byte :: "int \<Rightarrow> nat \<Rightarrow> u8" where
  "lba_byte lba n = ucast (signed_drop_bit n (word_of_int lba :: u32))"

text \<open>Poll the status port until DRQ is set. \<open>None\<close>: it never is.\<close>

partial_function (option) ata_wait :: "device \<Rightarrow> 'z dstate_scheme \<Rightarrow> 'z dstate_scheme option" where
  "ata_wait dev s =
     (let (c, s') = insb dev 0x1f7 s in if c AND 0x08 = 0 then ata_wait dev s' else Some s')"

fun read_words :: "device \<Rightarrow> nat \<Rightarrow> 'z dstate_scheme \<Rightarrow> u16 list \<times> 'z dstate_scheme" where
  "read_words dev 0 s = ([], s)"
| "read_words dev (Suc n) s =
     (let (w, s1) = insw dev 0x1f0 s; (ws, s2) = read_words dev n s1 in (w # ws, s2))"

fun read_sectors :: "device \<Rightarrow> nat \<Rightarrow> 'z dstate_scheme \<Rightarrow> (u16 list \<times> 'z dstate_scheme) option" where
  "read_sectors dev 0 s = Some ([], s)"
| "read_sectors dev (Suc n) s = do {
     s1 \<leftarrow> ata_wait dev s;
     let (ws, s2) = read_words dev 256 s1;
     (ws', s3) \<leftarrow> read_sectors dev n s2;
     Some (ws @ ws', s3)
   }"

text \<open>The bytes a run of 16-bit stores leaves in the buffer.\<close>

definition word_bytes :: "u16 list \<Rightarrow> u8 list" where
  "word_bytes ws = concat (map (\<lambda>w. [ucast w, ucast (drop_bit 8 w)]) ws)"

text \<open>The buffer is local to the caller: its new contents are a result.\<close>

definition disk_read_sector :: "device \<Rightarrow> int \<Rightarrow> int \<Rightarrow> 'z dstate_scheme \<Rightarrow> (int \<times> u8 list \<times> 'z dstate_scheme) option" where
  "disk_read_sector dev lba tot s = do {
     let s1 = outb 0x1f6 (lba_byte lba 24 OR 0xe0) s;
     let s2 = outb 0x1f2 (word_of_int tot) s1;
     let s3 = outb 0x1f3 (lba_byte lba 0) s2;
     let s4 = outb 0x1f4 (lba_byte lba 8) s3;
     let s5 = outb 0x1f5 (lba_byte lba 16) s4;
     let s6 = outb 0x1f7 0x20 s5;
     (ws, s7) \<leftarrow> read_sectors dev (nat tot) s6;
     Some (0, word_bytes ws, s7)
   }"

definition disk_get :: "int \<Rightarrow> 'z dstate_scheme \<Rightarrow> u32" where
  "disk_get index s = (if index \<noteq> 0 then 0 else disk_at s)"

definition disk_read_block :: "device \<Rightarrow> u32 \<Rightarrow> u32 \<Rightarrow> int \<Rightarrow> 'z dstate_scheme \<Rightarrow> (int \<times> u8 list \<times> 'z dstate_scheme) option" where
  "disk_read_block dev idisk lba tot s =
     (if idisk \<noteq> disk_at s then Some (- EIO, [], s) else disk_read_sector dev (sint lba) tot s)"

section \<open>Streams (streamer.c)\<close>

text \<open>A \<^verbatim>\<open>struct disk_stream\<close> is eight bytes of kernel heap: the position and the disk.\<close>

definition stream_pos :: "mem \<Rightarrow> u32 \<Rightarrow> int" where "stream_pos m st = sint (read32 m st)"
definition stream_disk :: "mem \<Rightarrow> u32 \<Rightarrow> u32" where "stream_disk m st = read32 m (st + 4)"

definition set_stream_pos :: "mem \<Rightarrow> u32 \<Rightarrow> int \<Rightarrow> mem" where
  "set_stream_pos m st pos = write32 m st (word_of_int pos)"

definition diskstreamer_new :: "int \<Rightarrow> 'z dstate_scheme \<Rightarrow> u32 \<times> 'z dstate_scheme" where
  "diskstreamer_new disk_no s =
     (let disk = disk_get disk_no s in
      if disk = 0 then (0, s)
      else let (streamer, s1) = kzalloc 8 s;
               m = set_stream_pos (kmem s1) streamer 0
           in (streamer, put_kmem (write32 m (streamer + 4) disk) s1))"

definition diskstreamer_seek :: "u32 \<Rightarrow> int \<Rightarrow> 'z dstate_scheme \<Rightarrow> int \<times> 'z dstate_scheme" where
  "diskstreamer_seek stream pos s = (0, put_kmem (set_stream_pos (kmem s) stream pos) s)"

text \<open>\<open>out\<close> is where the bytes go: an address of memory, in which the loop stores them before the position of the
  stream is read again, or a variable of the caller (\<open>None\<close>), which no pointer reaches. The bytes are a result too, in
  order. \<open>None\<close> as the result stands for a call that does not return, or that would index its sector buffer below
  zero (a negative position).\<close>

definition store_out :: "u32 option \<Rightarrow> u8 list \<Rightarrow> mem \<Rightarrow> mem" where
  "store_out out bs m = (case out of None \<Rightarrow> m | Some p \<Rightarrow> store_bytes m p bs)"

definition advance_out :: "nat \<Rightarrow> u32 option \<Rightarrow> u32 option" where
  "advance_out n out = map_option (\<lambda>p. p + word_of_nat n) out"

partial_function (option) diskstreamer_read ::
  "device \<Rightarrow> u32 \<Rightarrow> u32 option \<Rightarrow> int \<Rightarrow> 'z dstate_scheme \<Rightarrow> (int \<times> u8 list \<times> 'z dstate_scheme) option" where
  "diskstreamer_read dev stream out tot s =
     (let sector = stream_pos (kmem s) stream sdiv PEACHOS_SECTOR_SIZE;
          offset = stream_pos (kmem s) stream smod PEACHOS_SECTOR_SIZE;
          overflow = offset + tot \<ge> PEACHOS_SECTOR_SIZE;
          total_to_read = (if overflow then tot - (offset + tot - PEACHOS_SECTOR_SIZE) else tot)
      in do {
        (res, buf, s1) \<leftarrow> disk_read_block dev (stream_disk (kmem s) stream) (word_of_int sector) 1 s;
        if res < 0 then Some (res, [], s1)
        else if offset < 0 \<and> 0 < total_to_read then None
        else do {
          let bs = take (nat total_to_read) (drop (nat offset) buf);
          let m = store_out out bs (kmem s1);
          let s2 = put_kmem (set_stream_pos m stream (stream_pos m stream + total_to_read)) s1;
          if overflow
          then do { (res', rest, s3) \<leftarrow> diskstreamer_read dev stream (advance_out (nat total_to_read) out) (tot - total_to_read) s2;
                    Some (res', bs @ rest, s3) }
          else Some (res, bs, s2)
        }
      })"

definition diskstreamer_close :: "u32 \<Rightarrow> 'z dstate_scheme \<Rightarrow> 'z dstate_scheme" where
  "diskstreamer_close stream s = kfree stream s"

section \<open>The drive\<close>

text \<open>The command the driver writes for one sector, latest access first.\<close>

definition ata_command :: "nat \<Rightarrow> io_event list" where
  "ata_command lba =
     [Outb 0x1f7 0x20, Outb 0x1f5 (word_of_nat (lba div 65536)), Outb 0x1f4 (word_of_nat (lba div 256)),
      Outb 0x1f3 (word_of_nat lba), Outb 0x1f2 1, Outb 0x1f6 (word_of_nat (lba div 16777216) OR 0xe0)]"

text \<open>What the driver relies on: after the command for one sector the drive becomes ready after some
  number of status reads, and then hands out the 256 words of that sector.\<close>

definition ata_disk :: "device \<Rightarrow> (nat \<Rightarrow> u8 list) \<Rightarrow> bool" where
  "ata_disk dev D \<longleftrightarrow> (\<forall>h lba. lba < 268435456 \<longrightarrow> length (D lba) = 512 \<and>
     (\<exists>k. (\<forall>i < k. \<not> bit (dev (replicate i (Insb 0x1f7) @ ata_command lba @ h) 0x1f7) 3) \<and>
          bit (dev (replicate k (Insb 0x1f7) @ ata_command lba @ h) 0x1f7) 3 \<and>
          word_bytes (map (\<lambda>i. dev (replicate i (Insw 0x1f0) @ replicate (Suc k) (Insb 0x1f7) @ ata_command lba @ h) 0x1f0)
            [0..<256]) = D lba))"

section \<open>Reading one sector\<close>

lemma word_of_nat_u8: "ucast (word_of_nat k :: u32) = (word_of_nat k :: u8)"
  by (simp add: unsigned_of_nat word_of_nat_eq_iff)

lemma lba_byte_eq:
  assumes "lba < 268435456"
  shows "lba_byte (int lba) n = word_of_nat (lba div 2 ^ n)"
proof -
  have "sint (signed_drop_bit n (word_of_nat lba :: u32)) = drop_bit n (sint (word_of_nat lba :: u32))"
    by (rule sint_signed_drop_bit_eq)
  also have "\<dots> = int (lba div 2 ^ n)"
    using sint_small [of lba] assms by (simp add: drop_bit_eq_div zdiv_int)
  finally have "word_of_int (sint (signed_drop_bit n (word_of_nat lba :: u32))) = (word_of_int (int (lba div 2 ^ n)) :: u32)"
    by (simp only:)
  then have e: "signed_drop_bit n (word_of_nat lba :: u32) = word_of_nat (lba div 2 ^ n)" by simp
  show ?thesis unfolding lba_byte_def of_int_of_nat_eq e by (rule word_of_nat_u8)
qed

lemma drq_bit: "(ucast (v :: u16) :: u8) AND 8 = 0 \<longleftrightarrow> \<not> bit v 3"
proof -
  have "(8 :: u8) = 2 ^ 3" by simp
  then show ?thesis using and_exp_eq_0_iff_not_bit [of "ucast v :: u8" 3] by (simp add: bit_simps)
qed

lemma ata_wait_ready:
  "\<forall>i < k. \<not> bit (dev (replicate i (Insb 0x1f7) @ iolog s) 0x1f7) 3 \<Longrightarrow>
   bit (dev (replicate k (Insb 0x1f7) @ iolog s) 0x1f7) 3 \<Longrightarrow>
   ata_wait dev s = Some (s\<lparr>iolog := replicate (Suc k) (Insb 0x1f7) @ iolog s\<rparr>)"
proof (induction k arbitrary: s)
  case 0
  then show ?case by (subst ata_wait.simps) (simp add: insb_def drq_bit)
next
  case (Suc k)
  let ?s = "s\<lparr>iolog := Insb 0x1f7 # iolog s\<rparr>"
  have app: "replicate i (Insb 0x1f7) @ iolog ?s = replicate (Suc i) (Insb 0x1f7) @ iolog s" for i
    by (simp add: replicate_app_Cons_same)
  have "\<forall>i < k. \<not> bit (dev (replicate i (Insb 0x1f7) @ iolog ?s) 0x1f7) 3"
    using Suc.prems(1) unfolding app by (metis Suc_less_eq)
  moreover have "bit (dev (replicate k (Insb 0x1f7) @ iolog ?s) 0x1f7) 3"
    using Suc.prems(2) unfolding app .
  ultimately have "ata_wait dev ?s = Some (?s\<lparr>iolog := replicate (Suc k) (Insb 0x1f7) @ iolog ?s\<rparr>)" by (rule Suc.IH)
  moreover have "\<not> bit (dev (iolog s) 0x1f7) 3" using Suc.prems(1) by (metis append_Nil replicate_0 zero_less_Suc)
  ultimately show ?case unfolding app by (subst ata_wait.simps) (simp add: insb_def drq_bit)
qed

lemma read_words_eq:
  "read_words dev n s = (map (\<lambda>i. dev (replicate i (Insw 0x1f0) @ iolog s) 0x1f0) [0..<n],
     s\<lparr>iolog := replicate n (Insw 0x1f0) @ iolog s\<rparr>)"
proof (induction n arbitrary: s)
  case (Suc n)
  have app: "replicate i (Insw 0x1f0) @ Insw 0x1f0 # iolog s = replicate (Suc i) (Insw 0x1f0) @ iolog s" for i
    by (simp add: replicate_app_Cons_same)
  show ?case
    unfolding map_upt_Suc by (simp add: insw_def Suc.IH app del: upt_Suc)
qed simp

lemma disk_read_sector_eq:
  assumes "ata_disk dev D" "lba < 268435456"
  shows "\<exists>L. disk_read_sector dev (int lba) 1 s = Some (0, D lba, s\<lparr>iolog := L\<rparr>)"
proof -
  let ?h = "ata_command lba @ iolog s"
  let ?s = "s\<lparr>iolog := ?h\<rparr>"
  obtain k where k: "\<forall>i < k. \<not> bit (dev (replicate i (Insb 0x1f7) @ ?h) 0x1f7) 3"
    "bit (dev (replicate k (Insb 0x1f7) @ ?h) 0x1f7) 3"
    "word_bytes (map (\<lambda>i. dev (replicate i (Insw 0x1f0) @ replicate (Suc k) (Insb 0x1f7) @ ?h) 0x1f0) [0..<256]) = D lba"
    using assms unfolding ata_disk_def by blast
  let ?s' = "s\<lparr>iolog := replicate (Suc k) (Insb 0x1f7) @ ?h\<rparr>"
  have w: "ata_wait dev ?s = Some ?s'" using ata_wait_ready [of k dev ?s] k(1,2) by simp
  have r: "read_words dev 256 ?s' = (map (\<lambda>i. dev (replicate i (Insw 0x1f0) @ replicate (Suc k) (Insb 0x1f7) @ ?h) 0x1f0) [0..<256],
      s\<lparr>iolog := replicate 256 (Insw 0x1f0) @ replicate (Suc k) (Insb 0x1f7) @ ?h\<rparr>)"
    unfolding read_words_eq by simp
  have cmd: "outb 0x1f7 0x20 (outb 0x1f5 (lba_byte (int lba) 16) (outb 0x1f4 (lba_byte (int lba) 8)
      (outb 0x1f3 (lba_byte (int lba) 0) (outb 0x1f2 (word_of_int 1) (outb 0x1f6 (lba_byte (int lba) 24 OR 0xe0) s))))) = ?s"
    by (simp add: outb_def ata_command_def lba_byte_eq [OF assms(2)])
  have "read_sectors dev 1 ?s = Some (map (\<lambda>i. dev (replicate i (Insw 0x1f0) @ replicate (Suc k) (Insb 0x1f7) @ ?h) 0x1f0) [0..<256],
      s\<lparr>iolog := replicate 256 (Insw 0x1f0) @ replicate (Suc k) (Insb 0x1f7) @ ?h\<rparr>)"
    unfolding One_nat_def read_sectors.simps w bind.bind_lunit r by simp
  then show ?thesis
    unfolding disk_read_sector_def Let_def cmd using k(3) by (intro exI) simp
qed

section \<open>The disk as a sequence of bytes\<close>

definition disk_bytes :: "(nat \<Rightarrow> u8 list) \<Rightarrow> nat \<Rightarrow> nat \<Rightarrow> u8 list" where
  "disk_bytes D p n = map (\<lambda>i. D (i div 512) ! (i mod 512)) [p..<p + n]"

lemma disk_bytes_append: "disk_bytes D p (n + k) = disk_bytes D p n @ disk_bytes D (p + n) k"
  using upt_add_eq_append [of p "p + n" k] by (simp add: disk_bytes_def add.assoc)

lemma length_disk_bytes [simp]: "length (disk_bytes D p n) = n"
  by (simp add: disk_bytes_def)

lemma disk_bytes_sector:
  assumes "length (D (p div 512)) = 512" "p mod 512 + n \<le> 512"
  shows "take n (drop (p mod 512) (D (p div 512))) = disk_bytes D p n"
proof (rule nth_equalityI)
  show "length (take n (drop (p mod 512) (D (p div 512)))) = length (disk_bytes D p n)" using assms by simp
  fix i assume "i < length (take n (drop (p mod 512) (D (p div 512))))"
  then have i: "i < n" "p mod 512 + i < 512" using assms by auto
  define q r where "q = p div 512" and "r = p mod 512"
  have "p + i = (r + i) + q * 512" by (simp add: q_def r_def)
  then have "(p + i) div 512 = q" "(p + i) mod 512 = r + i" using i(2) by (simp_all only: div_mult_self1 mod_mult_self1 r_def) simp_all
  then show "take n (drop (p mod 512) (D (p div 512))) ! i = disk_bytes D p n ! i"
    using i assms by (simp add: disk_bytes_def q_def r_def)
qed

lemma fields_apart: "span (p :: u32) 4 \<inter> span (p + 4) 4 = {}" "span (p + 4) 4 \<inter> span p 4 = {}"
  by (auto simp: span4_cases add.assoc)

lemma write32_twice: "write32 (write32 m a v) a w = write32 m a w"
  by (simp add: write32_def fun_eq_iff)

lemma stream_pos_set: "k < 2147483648 \<Longrightarrow> stream_pos (set_stream_pos m st (int k)) st = int k"
  by (simp add: stream_pos_def set_stream_pos_def sint_small)

lemma stream_disk_set: "stream_disk (set_stream_pos m st k) st = stream_disk m st"
  by (simp add: stream_disk_def set_stream_pos_def mem_simps fields_apart)

lemma set_stream_pos_twice: "set_stream_pos (set_stream_pos m st k) st j = set_stream_pos m st j"
  by (simp add: set_stream_pos_def write32_twice)

lemma set_stream_pos_agree: "agree_off (span st 4) m (set_stream_pos m st k)"
  unfolding set_stream_pos_def by (rule write32_agree)

lemma sdiv_smod_512: "int p sdiv 512 = int (p div 512)" "int p smod 512 = int (p mod 512)"
  by (simp_all add: signed_divide_int_def signed_modulo_int_def sgn_if zdiv_int zmod_int)

text \<open>A destination apart from the stream.\<close>

definition out_region :: "u32 option \<Rightarrow> nat \<Rightarrow> u32 set" where
  "out_region out n = (case out of None \<Rightarrow> {} | Some p \<Rightarrow> span p n)"

lemma store_out_spec:
  assumes "length bs \<le> 4294967296" "span st 8 \<inter> out_region out (length bs) = {}"
  shows "stream_pos (store_out out bs m) st = stream_pos m st" "stream_disk (store_out out bs m) st = stream_disk m st"
    "set_stream_pos (store_out out bs m) st k = store_out out bs (set_stream_pos m st k)"
proof -
  have "span st 4 \<subseteq> span st 8" "span (st + 4) 4 \<subseteq> span st 8"
    using word_offset_in [of 4 4 4 8 st] by (simp_all add: span_mono)
  then have d: "span st 4 \<inter> out_region out (length bs) = {}" "span (st + 4) 4 \<inter> out_region out (length bs) = {}"
    using assms(2) by blast+
  show "stream_pos (store_out out bs m) st = stream_pos m st" "stream_disk (store_out out bs m) st = stream_disk m st"
    using d read32_agree [OF store_bytes_agree [OF assms(1)]]
    by (auto simp: store_out_def out_region_def stream_pos_def stream_disk_def split: option.splits)
  show "set_stream_pos (store_out out bs m) st k = store_out out bs (set_stream_pos m st k)"
    using d(1) by (auto simp: store_out_def out_region_def set_stream_pos_def store_bytes_write32 [OF assms(1)] split: option.splits)
qed

lemma store_out_agree: "length bs \<le> 4294967296 \<Longrightarrow> agree_off (out_region out (length bs)) m (store_out out bs m)"
  by (auto simp: store_out_def out_region_def store_bytes_agree split: option.splits)

lemma store_out_append: "store_out (advance_out (length xs) out) ys (store_out out xs m) = store_out out (xs @ ys) m"
  by (auto simp: store_out_def advance_out_def store_bytes_append split: option.splits)

lemma out_region_split:
  assumes "n \<le> t" "t < 4294967296"
  shows "out_region out n \<subseteq> out_region out t" "out_region (advance_out n out) (t - n) \<subseteq> out_region out t"
proof -
  show "out_region out n \<subseteq> out_region out t" using span_mono [OF assms(1)] by (auto simp: out_region_def split: option.splits)
  have "unat (word_of_nat n :: u32) = n" using assms by (simp add: unat_of_nat)
  then show "out_region (advance_out n out) (t - n) \<subseteq> out_region out t"
    using word_offset_in [of "word_of_nat n" n "t - n" t] assms
    by (auto simp: out_region_def advance_out_def split: option.splits)
qed

text \<open>One call, unfolded on a stream in order.\<close>

lemma diskstreamer_read_step:
  assumes "ata_disk dev D" "stream_pos (kmem s) st = int p" "stream_disk (kmem s) st = disk_at s"
    "p + t < 2147483648" "span st 8 \<inter> out_region out t = {}"
  shows "\<exists>L. diskstreamer_read dev st out (int t) s =
    (let n = (if 512 \<le> p mod 512 + t then 512 - p mod 512 else t);
         s2 = put_kmem (store_out out (disk_bytes D p n) (set_stream_pos (kmem s) st (int (p + n)))) (s\<lparr>iolog := L\<rparr>) in
     if 512 \<le> p mod 512 + t
     then do { (res', rest, s3) \<leftarrow> diskstreamer_read dev st (advance_out n out) (int (t - n)) s2; Some (res', disk_bytes D p n @ rest, s3) }
     else Some (0, disk_bytes D p n, s2))"
proof -
  define k where "k = (if 512 \<le> p mod 512 + t then 512 - p mod 512 else t)"
  have lba: "p div 512 < 268435456" using assms(4) by auto
  then obtain L where L: "disk_read_sector dev (int (p div 512)) 1 s = Some (0, D (p div 512), s\<lparr>iolog := L\<rparr>)"
    using disk_read_sector_eq [OF assms(1)] by blast
  have len: "length (D (p div 512)) = 512" using assms(1) lba by (simp add: ata_disk_def)
  have "sint (word_of_nat (p div 512) :: u32) = int (p div 512)" using lba by (intro sint_small) simp
  then have rb: "disk_read_block dev (disk_at s) (word_of_int (int (p div 512))) 1 s = Some (0, D (p div 512), s\<lparr>iolog := L\<rparr>)"
    using L by (simp add: disk_read_block_def)
  have small: "p mod 512 < 512" by simp
  have o: "(int (p mod 512) + int t \<ge> 512) \<longleftrightarrow> 512 \<le> p mod 512 + t" by linarith
  have n: "(if 512 \<le> p mod 512 + t then int t - (int (p mod 512) + int t - 512) else int t) = int k"
    using small by (auto simp: k_def)
  have tk: "take k (drop (p mod 512) (D (p div 512))) = disk_bytes D p k"
    by (rule disk_bytes_sector) (use len small in \<open>auto simp: k_def\<close>)
  have le: "k \<le> t" using small by (auto simp: k_def)
  have ln: "length (disk_bytes D p k) \<le> 4294967296" using le assms(4) by simp
  have "out_region out k \<subseteq> out_region out t" by (rule out_region_split(1) [OF le]) (use assms(4) in simp)
  then have ap: "span st 8 \<inter> out_region out (length (disk_bytes D p k)) = {}"
    unfolding length_disk_bytes using assms(5) by blast
  note so = store_out_spec [OF ln ap]
  have e: "int t - int k = int (t - k)" "int p + int k = int (p + k)"
    using le by (simp_all only: of_nat_diff of_nat_add)
  have step: "diskstreamer_read dev st out (int t) s =
    (let m = store_out out (disk_bytes D p k) (kmem (s\<lparr>iolog := L\<rparr>));
         s2 = put_kmem (set_stream_pos m st (stream_pos m st + int k)) (s\<lparr>iolog := L\<rparr>) in
     if 512 \<le> p mod 512 + t
     then do { (res', rest, s3) \<leftarrow> diskstreamer_read dev st (advance_out k out) (int t - int k) s2;
               Some (res', disk_bytes D p k @ rest, s3) }
     else Some (0, disk_bytes D p k, s2))"
    by (subst diskstreamer_read.simps)
      (simp only: assms(2,3) sdiv_smod_512 n o rb Let_def bind.bind_lunit split nat_int tk less_irrefl of_nat_less_0_iff if_False simp_thms)
  have m: "kmem (s\<lparr>iolog := L\<rparr>) = kmem s" by simp
  show ?thesis
    unfolding k_def [symmetric] step Let_def m so e assms(2) by (rule exI [of _ L]) (rule refl)
qed

lemma diskstreamer_read_spec:
  "ata_disk dev D \<Longrightarrow> stream_pos (kmem s) st = int p \<Longrightarrow> stream_disk (kmem s) st = disk_at s \<Longrightarrow>
   p + t < 2147483648 \<Longrightarrow> span st 8 \<inter> out_region out t = {} \<Longrightarrow>
   \<exists>L. diskstreamer_read dev st out (int t) s =
     Some (0, disk_bytes D p t, put_kmem (store_out out (disk_bytes D p t) (set_stream_pos (kmem s) st (int (p + t)))) (s\<lparr>iolog := L\<rparr>))"
proof (induction t arbitrary: p s out rule: less_induct)
  case (less t)
  obtain L where L: "diskstreamer_read dev st out (int t) s =
    (let n = (if 512 \<le> p mod 512 + t then 512 - p mod 512 else t);
         s2 = put_kmem (store_out out (disk_bytes D p n) (set_stream_pos (kmem s) st (int (p + n)))) (s\<lparr>iolog := L\<rparr>) in
     if 512 \<le> p mod 512 + t
     then do { (res', rest, s3) \<leftarrow> diskstreamer_read dev st (advance_out n out) (int (t - n)) s2; Some (res', disk_bytes D p n @ rest, s3) }
     else Some (0, disk_bytes D p n, s2))"
    using diskstreamer_read_step [OF less.prems] by blast
  show ?case
  proof (cases "512 \<le> p mod 512 + t")
    case False
    then show ?thesis unfolding L by (auto simp: Let_def)
  next
    case True
    let ?n = "512 - p mod 512" and ?o = "advance_out (512 - p mod 512) out"
    let ?xs = "disk_bytes D p ?n" and ?ys = "disk_bytes D (p + ?n) (t - ?n)"
    let ?m = "store_out out ?xs (set_stream_pos (kmem s) st (int (p + ?n)))"
    let ?s = "put_kmem ?m (s\<lparr>iolog := L\<rparr>)"
    have "p mod 512 < 512" by simp
    then have n: "0 < ?n" "?n \<le> t" using True by linarith+
    then have lt: "t - ?n < t" and b: "p + ?n + (t - ?n) < 2147483648" "t < 4294967296" using less.prems(4) by linarith+
    note os = out_region_split(1) [OF n(2) b(2), where out = out] out_region_split(2) [OF n(2) b(2), where out = out]
    have ap: "span st 8 \<inter> out_region out (length ?xs) = {}" "span st 8 \<inter> out_region ?o (t - ?n) = {}"
      using less.prems(5) os by (simp, blast)+
    have ln: "length ?xs \<le> 4294967296" "length ?ys \<le> 4294967296" using n(2) b(2) by simp_all
    note so = store_out_spec [OF ln(1) ap(1)]
    have pos: "stream_pos (kmem ?s) st = int (p + ?n)" using b by (simp add: so stream_pos_set del: of_nat_add of_nat_diff)
    have dk: "stream_disk (kmem ?s) st = disk_at ?s" using less.prems(3) so by (simp add: stream_disk_set put_kmem_def)
    obtain L' where "diskstreamer_read dev st ?o (int (t - ?n)) ?s =
        Some (0, ?ys, put_kmem (store_out ?o ?ys (set_stream_pos (kmem ?s) st (int (p + ?n + (t - ?n))))) (?s\<lparr>iolog := L'\<rparr>))"
      using less.IH [OF lt less.prems(1) pos dk b(1) ap(2)] by blast
    moreover have "store_out ?o ?ys (set_stream_pos (kmem ?s) st (int (p + ?n + (t - ?n))))
        = store_out out (?xs @ ?ys) (set_stream_pos (kmem s) st (int (p + t)))"
      using n(2) store_out_append [of ?xs out ?ys] by (simp add: so set_stream_pos_twice del: of_nat_add of_nat_diff)
    moreover have "?xs @ ?ys = disk_bytes D p t"
      using disk_bytes_append [of D p ?n "t - ?n"] n(2) by simp
    ultimately show ?thesis unfolding L using True by (intro exI [of _ L']) (simp add: Let_def put_kmem_def del: of_nat_add of_nat_diff)
  qed
qed

section \<open>Properties\<close>

text \<open>C26: On a drive that behaves as documented, \<^verbatim>\<open>diskstreamer_read\<close> returns 0 and
  stores exactly the \<open>t\<close> bytes of the disk from the position of the stream on, across any number of
  sector boundaries, in a destination apart from the stream; the stream is left after them and no other memory is
  written.\<close>

theorem diskstreamer_reads_bytes:
  assumes "ata_disk dev D" "stream_pos (kmem s) st = int p" "stream_disk (kmem s) st = disk_at s"
    "p + t < 2147483648" "span st 8 \<inter> out_region out t = {}"
  shows "\<exists>s'. diskstreamer_read dev st out (int t) s = Some (0, disk_bytes D p t, s') \<and>
     (\<forall>q. out = Some q \<longrightarrow> bytes (kmem s') q t = disk_bytes D p t) \<and>
     stream_pos (kmem s') st = int (p + t) \<and> stream_disk (kmem s') st = disk_at s' \<and>
     agree_off (span st 4 \<union> out_region out t) (kmem s) (kmem s')"
proof -
  let ?b = "disk_bytes D p t" and ?m0 = "set_stream_pos (kmem s) st (int (p + t))"
  obtain L where L: "diskstreamer_read dev st out (int t) s = Some (0, ?b, put_kmem (store_out out ?b ?m0) (s\<lparr>iolog := L\<rparr>))"
    using diskstreamer_read_spec [OF assms] by blast
  have ln: "length ?b \<le> 4294967296" using assms(4) by simp
  have ap: "span st 8 \<inter> out_region out (length ?b) = {}" using assms(5) by simp
  note so = store_out_spec [OF ln ap]
  have "agree_off (span st 4 \<union> out_region out t) (kmem s) (store_out out ?b ?m0)"
    using agree_off_trans [OF set_stream_pos_agree store_out_agree [OF ln]] by simp
  moreover have "bytes (store_out (Some q) ?b ?m0) q t = ?b" for q
    using bytes_store_bytes [OF ln, of ?m0 q] by (simp add: store_out_def)
  ultimately show ?thesis unfolding L
    using stream_pos_set [OF assms(4)] assms(3) so
    by (intro exI [of _ "put_kmem (store_out out ?b ?m0) (s\<lparr>iolog := L\<rparr>)"]) (auto simp: stream_disk_set put_kmem_def simp del: of_nat_add)
qed

text \<open>A drive whose sector \<open>n\<close> holds 256 times the low byte of \<open>n\<close> and a zero byte.\<close>

fun last_out :: "u16 \<Rightarrow> io_event list \<Rightarrow> u8" where
  "last_out p [] = 0"
| "last_out p (Outb q v # h) = (if q = p then v else last_out p h)"
| "last_out p (e # h) = last_out p h"

definition demo_drive :: device where
  "demo_drive h port = (if port = 0x1f7 then 0x08 else ucast (last_out 0x1f3 h))"

definition demo_sectors :: "nat \<Rightarrow> u8 list" where
  "demo_sectors lba = word_bytes (replicate 256 (ucast (word_of_nat lba :: u8)))"

lemma last_out_reads [simp]:
  "last_out p (replicate i (Insb q) @ h) = last_out p h" "last_out p (replicate i (Insw q) @ h) = last_out p h"
  by (induction i) simp_all

lemma demo_drive_ok: "ata_disk demo_drive demo_sectors"
proof -
  have "length (word_bytes ws) = 2 * length ws" for ws by (induction ws) (simp_all add: word_bytes_def)
  then have len: "length (demo_sectors lba) = 512" for lba by (simp add: demo_sectors_def)
  have "last_out 0x1f3 (ata_command lba @ h) = word_of_nat lba" for lba h by (simp add: ata_command_def)
  then have w: "map (\<lambda>i. demo_drive (replicate i (Insw 0x1f0) @ replicate (Suc 0) (Insb 0x1f7) @ ata_command lba @ h) 0x1f0)
      [0..<256] = replicate 256 (ucast (word_of_nat lba :: u8))" for lba h
    by (simp add: demo_drive_def map_replicate_const)
  have "bit (8 :: u16) 3" by (simp add: bit_numeral_rec)
  then show ?thesis
    unfolding ata_disk_def using len w
    by (intro allI impI conjI exI [of _ 0]) (simp_all add: demo_drive_def demo_sectors_def)
qed

lemma word_bytes_replicate_nth:
  "i < 2 * n \<Longrightarrow> word_bytes (replicate n w) ! i = (if even i then ucast w else ucast (drop_bit 8 w))"
proof (induction n arbitrary: i)
  case (Suc n)
  have "word_bytes (replicate (Suc n) w) = ucast w # ucast (drop_bit 8 w) # word_bytes (replicate n w)"
    by (simp add: word_bytes_def)
  then show ?case using Suc by (cases i; cases "i - 1") auto
qed simp

definition demo_dstate :: dstate where
  "demo_dstate = \<lparr>kmem = set_stream_pos (write32 (\<lambda>_. 0) 0x1004 0x300) 0x1000 510, video_mem = 0, terminal_row = 0,
     terminal_col = 0, kernel_heap = boot_heap, current_directory = 0, cr3 = 0, iolog = [],
     the_disk = \<lparr>disk_type = 0, sector_size = 512, disk_id = 0, disk_filesystem = 0, disk_fs_private = 0\<rparr>,
     disk_at = 0x300\<rparr>"

theorem diskstreamer_reads_bytes_witness:
  "\<exists>s'. diskstreamer_read demo_drive 0x1000 (Some 0x2000) 4 demo_dstate = Some (0, [0, 0, 1, 0], s') \<and>
     bytes (kmem s') 0x2000 4 = [0, 0, 1, 0] \<and> stream_pos (kmem s') 0x1000 = 514"
proof -
  have "stream_pos (kmem demo_dstate) 0x1000 = int 510"
    using stream_pos_set [of 510] by (simp add: demo_dstate_def)
  moreover have "stream_disk (kmem demo_dstate) 0x1000 = disk_at demo_dstate"
    unfolding demo_dstate_def by (simp add: stream_disk_set) (simp add: stream_disk_def)
  moreover have "span 0x1000 8 \<inter> out_region (Some 0x2000) 4 = {}" unfolding out_region_def by (simp, intro span_disjoint) simp_all
  ultimately have "\<exists>s'. diskstreamer_read demo_drive 0x1000 (Some 0x2000) (int 4) demo_dstate = Some (0, disk_bytes demo_sectors 510 4, s') \<and>
     (\<forall>q. Some 0x2000 = Some q \<longrightarrow> bytes (kmem s') q 4 = disk_bytes demo_sectors 510 4) \<and>
     stream_pos (kmem s') 0x1000 = int (510 + 4) \<and> stream_disk (kmem s') 0x1000 = disk_at s' \<and>
     agree_off (span 0x1000 4 \<union> out_region (Some 0x2000) 4) (kmem demo_dstate) (kmem s')"
    by (intro diskstreamer_reads_bytes [OF demo_drive_ok]) simp_all
  then obtain s' where s': "diskstreamer_read demo_drive 0x1000 (Some 0x2000) (int 4) demo_dstate = Some (0, disk_bytes demo_sectors 510 4, s')"
    "bytes (kmem s') 0x2000 4 = disk_bytes demo_sectors 510 4" "stream_pos (kmem s') 0x1000 = int (510 + 4)"
    by blast
  have "disk_bytes demo_sectors 510 4 = [0, 0, 1, 0]"
    by (simp add: disk_bytes_def demo_sectors_def word_bytes_replicate_nth upt_rec)
  with s' show ?thesis by (intro exI [of _ s']) simp
qed

end
