(* ===== verification/PathParser.thy ===== *)
theory PathParser
  imports KHeap "HOL-Library.Monad_Syntax"
begin

text \<open>
  \<^verbatim>\<open>src/fs/pparser.c\<close>: from a path such as \<^verbatim>\<open>0:/dir/file\<close> to a root (drive number, first part)
  and a linked list of parts, all in memory from the kernel heap. A root and a part are 8 bytes each,
  two 32-bit fields; a pointer that C passes by reference (\<^verbatim>\<open>const char **path\<close>) is an argument and a
  result. The loops that only the data ends are \<^theory_text>\<open>partial_function\<close>s.
\<close>

abbreviation (input) PEACHOS_MAX_PATH :: "'a :: numeral" where "PEACHOS_MAX_PATH \<equiv> 108"

section \<open>Fields\<close>

definition root_drive :: "mem \<Rightarrow> u32 \<Rightarrow> int" where "root_drive m r = sint (read32 m r)"
definition root_first :: "mem \<Rightarrow> u32 \<Rightarrow> u32" where "root_first m r = read32 m (r + 4)"
definition part_str :: "mem \<Rightarrow> u32 \<Rightarrow> u32" where "part_str m p = read32 m p"
definition part_next :: "mem \<Rightarrow> u32 \<Rightarrow> u32" where "part_next m p = read32 m (p + 4)"

section \<open>Operations\<close>

definition pathparser_path_valid_format :: "mem \<Rightarrow> u32 \<Rightarrow> bool" where
  "pathparser_path_valid_format m filename \<longleftrightarrow>
     (let len = strnlen m filename PEACHOS_MAX_PATH in
      3 \<le> len \<and> isdigit (m filename) \<and> memcmp_lit m (filename + 1) [0x3a, 0x2f] = 0)"

definition pathparser_get_drive_by_path :: "mem \<Rightarrow> u32 \<Rightarrow> int \<times> u32" where
  "pathparser_get_drive_by_path m path =
     (if \<not> pathparser_path_valid_format m path then (- EBADPATH, path)
      else (tonumericdigit (m path), path + 3))"

definition pathparser_create_root :: "int \<Rightarrow> 'z kstate_scheme \<Rightarrow> u32 \<times> 'z kstate_scheme" where
  "pathparser_create_root drive_number s =
     (let (path_r, s') = kzalloc 8 s;
          m = write32 (kmem s') path_r (word_of_int drive_number)
      in (path_r, put_kmem (write32 m (path_r + 4) 0) s'))"

partial_function (option) path_part_loop :: "u32 \<Rightarrow> mem \<Rightarrow> u32 \<Rightarrow> int \<Rightarrow> (mem \<times> u32 \<times> int) option" where
  "path_part_loop dst m path i =
     (if m path \<noteq> 0x2f \<and> m path \<noteq> 0
      then path_part_loop dst (m(dst + word_of_int i := m path)) (path + 1) (i + 1)
      else Some (m, path, i))"

definition pathparser_get_path_part :: "u32 \<Rightarrow> 'z kstate_scheme \<Rightarrow> (u32 \<times> u32 \<times> 'z kstate_scheme) option" where
  "pathparser_get_path_part path s = do {
     let (result_path_part, s1) = kzalloc PEACHOS_MAX_PATH s;
     (m, path', i) \<leftarrow> path_part_loop result_path_part (kmem s1) path 0;
     let path'' = (if m path' = 0x2f then path' + 1 else path');
     let s2 = put_kmem m s1;
     Some (if i = 0 then (0, path'', kfree result_path_part s2) else (result_path_part, path'', s2))
   }"

definition pathparser_parse_path_part ::
  "u32 \<Rightarrow> u32 \<Rightarrow> 'z kstate_scheme \<Rightarrow> (u32 \<times> u32 \<times> 'z kstate_scheme) option" where
  "pathparser_parse_path_part last_part path s = do {
     (path_part_str, path', s1) \<leftarrow> pathparser_get_path_part path s;
     Some (if path_part_str = 0 then (0, path', s1)
       else let (part, s2) = kzalloc 8 s1;
                m = write32 (write32 (kmem s2) part path_part_str) (part + 4) 0;
                m' = (if last_part \<noteq> 0 then write32 m (last_part + 4) part else m)
            in (part, path', put_kmem m' s2))
   }"

partial_function (option) free_parts :: "u32 \<Rightarrow> 'z kstate_scheme \<Rightarrow> 'z kstate_scheme option" where
  "free_parts part s =
     (if part \<noteq> 0
      then let next_part = part_next (kmem s) part;
               s1 = kfree (part_str (kmem s) part) s
           in free_parts next_part (kfree part s1)
      else Some s)"

definition pathparser_free :: "u32 \<Rightarrow> 'z kstate_scheme \<Rightarrow> 'z kstate_scheme option" where
  "pathparser_free root s = do {
     s' \<leftarrow> free_parts (root_first (kmem s) root) s;
     Some (kfree root s')
   }"

partial_function (option) parse_rest :: "u32 \<Rightarrow> u32 \<Rightarrow> 'z kstate_scheme \<Rightarrow> 'z kstate_scheme option" where
  "parse_rest part path s =
     (if part \<noteq> 0
      then do { (part', path', s') \<leftarrow> pathparser_parse_path_part part path s; parse_rest part' path' s' }
      else Some s)"

definition pathparser_parse :: "u32 \<Rightarrow> u32 \<Rightarrow> 'z kstate_scheme \<Rightarrow> (u32 \<times> 'z kstate_scheme) option" where
  "pathparser_parse path current_dir_path s = do {
     len \<leftarrow> strlen (kmem s) path;
     if len > PEACHOS_MAX_PATH then Some (0, s)
     else let (res, tmp_path) = pathparser_get_drive_by_path (kmem s) path in
       if res < 0 then Some (0, s)
       else let (path_root, s1) = pathparser_create_root res s in
         if path_root = 0 then Some (0, s1)
         else do {
           (first_part, tmp_path, s2) \<leftarrow> pathparser_parse_path_part 0 tmp_path s1;
           if first_part = 0 then Some (path_root, s2)
           else do {
             let s3 = put_kmem (write32 (kmem s2) (path_root + 4) first_part) s2;
             (part, tmp_path, s4) \<leftarrow> pathparser_parse_path_part first_part tmp_path s3;
             s5 \<leftarrow> parse_rest part tmp_path s4;
             Some (path_root, s5)
           }
         }
   }"

section \<open>The parts of a path\<close>

text \<open>The text after the drive: the components between slashes, up to the first empty one.\<close>

function path_parts :: "u8 list \<Rightarrow> u8 list list" where
  "path_parts cs = (let p = takeWhile (\<lambda>c. c \<noteq> 0x2f) cs in
     if p = [] then [] else p # path_parts (tl (dropWhile (\<lambda>c. c \<noteq> 0x2f) cs)))"
  by auto
termination
proof (relation "measure length", simp)
  fix cs p assume p: "p = takeWhile (\<lambda>c. c \<noteq> 0x2f) cs" "p \<noteq> ([] :: u8 list)"
  have "length cs = length p + length (dropWhile (\<lambda>c. c \<noteq> 0x2f) cs)"
    unfolding p(1) by (metis length_append takeWhile_dropWhile_id)
  then show "(tl (dropWhile (\<lambda>c. c \<noteq> 0x2f) cs), cs) \<in> measure length"
    using p(2) by (cases p) auto
qed

declare path_parts.simps [simp del]

text \<open>A list of parts in memory: at each cell the record, the page of its string, the string.\<close>

primrec parts_chain :: "mem \<Rightarrow> u32 \<Rightarrow> (u32 \<times> u32 \<times> u8 list) list \<Rightarrow> bool" where
  "parts_chain m p [] \<longleftrightarrow> p = 0"
| "parts_chain m p (c # cs) \<longleftrightarrow> (case c of (r, q, x) \<Rightarrow>
     p = r \<and> r \<noteq> 0 \<and> part_str m r = q \<and> cstr m q x \<and> parts_chain m (part_next m r) cs)"

definition chain_pages :: "(u32 \<times> u32 \<times> u8 list) list \<Rightarrow> u32 list" where
  "chain_pages cs = concat (map (\<lambda>(r, q, x). [r, q]) cs)"

definition chain_strs :: "(u32 \<times> u32 \<times> u8 list) list \<Rightarrow> u8 list list" where
  "chain_strs cs = map (\<lambda>(r, q, x). x) cs"

lemma chain_pages_simps [simp]:
  "chain_pages [] = []" "chain_pages ((r, q, x) # cs) = r # q # chain_pages cs"
  "chain_strs [] = []" "chain_strs ((r, q, x) # cs) = x # chain_strs cs"
  by (simp_all add: chain_pages_def chain_strs_def)

section \<open>Reading one component\<close>

lemma path_part_loop_spec:
  "cstr m path cs \<Longrightarrow> span (dst + word_of_nat k) (length cs) \<inter> span path (Suc (length cs)) = {} \<Longrightarrow>
   k + length cs < 4294967296 \<Longrightarrow>
   \<exists>m'. path_part_loop dst m path (int k) =
          Some (m', path + word_of_nat (length (takeWhile (\<lambda>c. c \<noteq> 0x2f) cs)), int (k + length (takeWhile (\<lambda>c. c \<noteq> 0x2f) cs))) \<and>
     bytes m' (dst + word_of_nat k) (length (takeWhile (\<lambda>c. c \<noteq> 0x2f) cs)) = takeWhile (\<lambda>c. c \<noteq> 0x2f) cs \<and>
     agree_off (span (dst + word_of_nat k) (length (takeWhile (\<lambda>c. c \<noteq> 0x2f) cs))) m m'"
proof (induction cs arbitrary: m path k)
  case Nil
  then show ?case by (subst path_part_loop.simps) auto
next
  case (Cons c cs)
  show ?case
  proof (cases "c = 0x2f")
    case True
    with Cons.prems show ?thesis by (subst path_part_loop.simps) auto
  next
    case False
    let ?d = "dst + word_of_nat k" and ?m = "m(dst + word_of_nat k := c)"
    let ?p = "takeWhile (\<lambda>c. c \<noteq> 0x2f) cs"
    have len: "Suc (length cs) < 4294967296" using Cons.prems(3) by simp
    have d: "?d + 1 = dst + word_of_nat (Suc k)" by (simp add: ac_simps)
    have sp: "span ?d (Suc (length cs)) = insert ?d (span (?d + 1) (length cs))"
      "span path (Suc (Suc (length cs))) = insert path (span (path + 1) (Suc (length cs)))"
      using len by (simp_all add: span_Suc)
    have c1: "cstr ?m (path + 1) cs"
    proof (rule cstr_agree)
      show "cstr m (path + 1) cs" using Cons.prems(1) by simp
      show "agree_off {?d} m ?m" by (simp add: agree_off_def)
      show "span (path + 1) (Suc (length cs)) \<inter> {?d} = {}" using Cons.prems(2) sp by auto
    qed
    have c2: "span (dst + word_of_nat (Suc k)) (length cs) \<inter> span (path + 1) (Suc (length cs)) = {}"
      using Cons.prems(2) sp unfolding d [symmetric] by auto
    have c3: "Suc k + length cs < 4294967296" using Cons.prems(3) by simp
    obtain m' where m':
      "path_part_loop dst ?m (path + 1) (int (Suc k)) =
         Some (m', path + 1 + word_of_nat (length ?p), int (Suc k + length ?p))"
      "bytes m' (?d + 1) (length ?p) = ?p" "agree_off (span (?d + 1) (length ?p)) ?m m'"
      using Cons.IH [OF c1 c2 c3] unfolding d [symmetric] by blast
    have plen: "Suc (length ?p) < 4294967296" using len length_takeWhile_le [of "\<lambda>c. c \<noteq> 0x2f" cs] by linarith
    have "m' ?d = c" using agree_offD [OF m'(3)] not_in_span_next [of "length ?p" ?d] plen by simp
    moreover have "agree_off (span ?d (Suc (length ?p))) m m'"
      using m'(3) span_Suc [of "length ?p" ?d] plen by (auto simp: agree_off_def)
    moreover have "path_part_loop dst m path (int k) = path_part_loop dst ?m (path + 1) (int (Suc k))"
      using Cons.prems(1) False by (subst path_part_loop.simps) (simp add: add.commute)
    ultimately show ?thesis using m' False by (simp add: ac_simps)
  qed
qed

lemma untouched_cstr:
  "grows L s s' A' \<Longrightarrow> cstr (kmem s) p cs \<Longrightarrow> span p (Suc (length cs)) \<inter> (kheap_spare s \<union> L) = {} \<Longrightarrow>
     cstr (kmem s') p cs"
  by (rule cstr_agree [OF _ growsD(3)])

abbreviation (input) first_part :: "u8 list \<Rightarrow> u8 list" where
  "first_part cs \<equiv> takeWhile (\<lambda>c. c \<noteq> 0x2f) cs"
abbreviation (input) later_parts :: "u8 list \<Rightarrow> u8 list" where
  "later_parts cs \<equiv> tl (dropWhile (\<lambda>c. c \<noteq> 0x2f) cs)"

text \<open>Where the scan stops, and what is left there once a slash is skipped.\<close>

lemma scan_stop:
  assumes "cstr m path cs" "length cs < 4294967295"
  shows "\<exists>path'. (let p = path + word_of_nat (length (first_part cs)) in if m p = 0x2f then p + 1 else p) = path' \<and>
     cstr m path' (later_parts cs) \<and> span path' (Suc (length (later_parts cs))) \<subseteq> span path (Suc (length cs))"
proof -
  let ?n = "length (first_part cs)" and ?r = "dropWhile (\<lambda>c. c \<noteq> 0x2f) cs"
  let ?p = "path + word_of_nat ?n"
  have cs: "cs = first_part cs @ ?r" by simp
  have n: "?n \<le> length cs" by (rule length_takeWhile_le)
  have d: "drop ?n cs = ?r" by (metis cs append_eq_conv_conj)
  have r: "cstr m ?p ?r" using cstr_drop [OF assms(1) n] by (simp add: d)
  have sub: "span (path + word_of_nat k) (Suc (length cs) - k) \<subseteq> span path (Suc (length cs))" if "k \<le> length cs" for k
    by (rule span_offset) (use that assms(2) in simp_all)
  have len: "length cs = ?n + length ?r" by (metis cs length_append)
  show ?thesis
  proof (cases ?r)
    case Nil
    have "m ?p = 0" using r unfolding Nil by simp
    moreover have "cstr m ?p []" using r unfolding Nil .
    moreover have "span ?p (Suc 0) \<subseteq> span path (Suc (length cs))" using sub [OF n] len unfolding Nil by simp
    ultimately show ?thesis unfolding Nil by (intro exI [of _ ?p]) (simp add: Let_def)
  next
    case (Cons c r')
    then have c: "c = 0x2f" using hd_dropWhile [of "\<lambda>c. c \<noteq> 0x2f" cs] by simp
    have q: "?p + 1 = path + word_of_nat (Suc ?n)" by (simp add: ac_simps)
    have "Suc ?n \<le> length cs" using len Cons by simp
    from sub [OF this] have "span (?p + 1) (Suc (length r')) \<subseteq> span path (Suc (length cs))"
      unfolding q using len Cons by simp
    moreover have "m ?p = 0x2f" "cstr m (?p + 1) r'" using r Cons c by auto
    ultimately show ?thesis using Cons by (intro exI [of _ "?p + 1"]) (simp add: Let_def)
  qed
qed

lemma get_path_part_spec:
  assumes "kheap_ready s A" "0 < kheap_avail s" "cstr (kmem s) path cs"
    "span path (Suc (length cs)) \<inter> kheap_spare s = {}" "length cs < 108"
  obtains q path' s' where "pathparser_get_path_part path s = Some (q, path', s')"
    "cstr (kmem s') path' (later_parts cs)" "span path' (Suc (length (later_parts cs))) \<subseteq> span path (Suc (length cs))"
    "first_part cs = [] \<longrightarrow> q = 0 \<and> grows {} s s' A \<and> kheap_avail s' = kheap_avail s"
    "first_part cs \<noteq> [] \<longrightarrow> q \<noteq> 0 \<and> A q = None \<and> grows {} s s' (A(q \<mapsto> 1)) \<and> kheap_avail s' + 1 = kheap_avail s \<and>
       cstr (kmem s') q (first_part cs) \<and> span q 4096 \<subseteq> kheap_spare s"
proof -
  let ?p = "first_part cs"
  have "108 \<noteq> (0 :: u32)" "unat (108 :: u32) \<le> 4096" by simp_all
  from kzalloc_grows [OF assms(1) this assms(2)]
  obtain q s1 where q: "kzalloc 108 s = (q, s1)" "q \<noteq> 0" "unat q mod 4096 = 0" "A q = None"
    "grows {} s s1 (A(q \<mapsto> 1))" "kheap_avail s1 + 1 = kheap_avail s" "\<forall>x \<in> span q (unat (108 :: u32)). kmem s1 x = 0"
    "span q 4096 \<subseteq> kheap_spare s" "kheap_spare s1 \<inter> span q 4096 = {}" .
  have path1: "cstr (kmem s1) path cs" by (rule untouched_cstr [OF q(5) assms(3)]) (use assms(4) in simp)
  have sub: "span q (length cs) \<subseteq> span q 4096" using assms(5) by (intro span_mono) simp
  have sep: "span (q + word_of_nat 0) (length cs) \<inter> span path (Suc (length cs)) = {}"
    using sub q(8) assms(4) by auto
  have plen: "length ?p \<le> length cs" by (rule length_takeWhile_le)
  obtain m where m: "path_part_loop q (kmem s1) path 0 = Some (m, path + word_of_nat (length ?p), int (length ?p))"
    "bytes m q (length ?p) = ?p" "agree_off (span q (length ?p)) (kmem s1) m"
    using path_part_loop_spec [OF path1 sep] assms(5) by auto
  let ?s2 = "put_kmem m s1"
  have pm: "agree_off (span q 4096) (kmem s1) m"
    using agree_off_mono [OF m(3) span_mono, of 4096] plen assms(5) by simp
  have live: "(A(q \<mapsto> 1)) q = Some 1" and fresh: "span q 4096 \<subseteq> {} \<union> kheap_spare s" using q(8) by simp_all
  note w = grows_page [OF q(5) live subset_refl fresh pm]
  have path2: "cstr (kmem ?s2) path cs" by (rule untouched_cstr [OF w(1) assms(3)]) (use assms(4) in simp)
  have len: "length cs < 4294967295" using assms(5) by simp
  from scan_stop [OF path2 len] obtain path' where p': 
    "(let p = path + word_of_nat (length ?p) in if kmem ?s2 p = 0x2f then p + 1 else p) = path'"
    "cstr (kmem ?s2) path' (later_parts cs)" "span path' (Suc (length (later_parts cs))) \<subseteq> span path (Suc (length cs))"
    by blast
  have eq: "pathparser_get_path_part path s =
      Some (if length ?p = 0 then (0, path', kfree q ?s2) else (q, path', ?s2))"
    using p'(1) by (auto simp: pathparser_get_path_part_def q(1) m(1) Let_def)
  show thesis
  proof (cases "?p = []")
    case True
    note f = kfree_grows [OF w(1) q(4,8)]
    have "cstr (kmem (kfree q ?s2)) path' (later_parts cs)"
    proof -
      have 1: "kheap_ready ?s2 (A(q \<mapsto> 1))" by (rule growsD(1) [OF w(1)])
      have "(A(q \<mapsto> 1)) q = Some 1" by simp
      from kh.release_live [OF 1 this]
      obtain m2 where m2: "kfree q ?s2 = put_kmem m2 ?s2" "agree_off (kheap_reserved ?s2) (kmem ?s2) m2" by blast
      have "kheap_reserved ?s2 \<subseteq> kheap_spare s"
        using kheap_reserved_spare [OF 1] growsD(2) [OF w(1)] by blast
      then have "span path' (Suc (length (later_parts cs))) \<inter> kheap_reserved ?s2 = {}" using p'(3) assms(4) by blast
      from cstr_agree [OF p'(2) m2(2) this] show ?thesis by (simp add: m2(1))
    qed
    moreover have "kheap_avail (kfree q ?s2) = kheap_avail s" using f(2) w(2) q(6) by simp
    ultimately show ?thesis using that [of 0 path' "kfree q ?s2"] eq True p'(3) f(1) by simp
  next
    case False
    have "m (q + word_of_nat (length ?p)) = kmem s1 (q + word_of_nat (length ?p))"
      using plen assms(5) by (intro agree_offD [OF m(3)]) (simp add: span_def unat_of_nat)
    also have "\<dots> = 0" using q(7) plen assms(5) by simp
    finally have "cstr m q ?p"
      using cstr_nonzero [OF assms(3)] set_takeWhileD [of 0 "\<lambda>c. c \<noteq> 0x2f" cs] by (intro cstr_of_bytes m(2)) auto
    moreover have "kheap_avail ?s2 + 1 = kheap_avail s" using w(2) q(6) by simp
    ultimately show ?thesis using that [of q path' ?s2] eq False p'(2,3) q(2,4,8) w(1) by (simp del: fun_upd_apply)
  qed
qed

text \<open>Storing the two fields of a fresh record.\<close>

lemma store_fields:
  assumes "unat p mod 4096 = 0"
  shows "agree_off (span p 4096) m (write32 (write32 m p a) (p + 4) b)"
    "read32 (write32 (write32 m p a) (p + 4) b) p = a" "read32 (write32 (write32 m p a) (p + 4) b) (p + 4) = b"
proof -
  note f = fields_in_page [OF assms]
  show "agree_off (span p 4096) m (write32 (write32 m p a) (p + 4) b)"
    using agree_off_mono [OF write32_agree f(1)] agree_off_mono [OF write32_agree f(2)]
    by (rule agree_off_trans_same)
  show "read32 (write32 (write32 m p a) (p + 4) b) p = a" using f(3) by (simp add: mem_simps)
  show "read32 (write32 (write32 m p a) (p + 4) b) (p + 4) = b" by simp
qed

abbreviation (input) link_slot :: "u32 \<Rightarrow> u32 set" where
  "link_slot prev \<equiv> (if prev = 0 then {} else span (prev + 4) 4)"

lemma parse_path_part_none:
  assumes "kheap_ready s A" "0 < kheap_avail s" "cstr (kmem s) path cs"
    "span path (Suc (length cs)) \<inter> kheap_spare s = {}" "length cs < 108" "first_part cs = []"
  obtains path' s' where "pathparser_parse_path_part prev path s = Some (0, path', s')"
    "grows {} s s' A" "kheap_avail s' = kheap_avail s"
proof -
  obtain q path' s1 where "pathparser_get_path_part path s = Some (q, path', s1)"
    "cstr (kmem s1) path' (later_parts cs)" "span path' (Suc (length (later_parts cs))) \<subseteq> span path (Suc (length cs))"
    "first_part cs = [] \<longrightarrow> q = 0 \<and> grows {} s s1 A \<and> kheap_avail s1 = kheap_avail s"
    "first_part cs \<noteq> [] \<longrightarrow> q \<noteq> 0 \<and> A q = None \<and> grows {} s s1 (A(q \<mapsto> 1)) \<and> kheap_avail s1 + 1 = kheap_avail s \<and>
       cstr (kmem s1) q (first_part cs) \<and> span q 4096 \<subseteq> kheap_spare s"
    using get_path_part_spec [OF assms(1-5)] .
  then show thesis using that assms(6) by (simp add: pathparser_parse_path_part_def)
qed

lemma parse_path_part_some:
  assumes "kheap_ready s A" "2 \<le> kheap_avail s" "cstr (kmem s) path cs"
    "span path (Suc (length cs)) \<inter> (kheap_spare s \<union> link_slot prev) = {}" "length cs < 108"
    "first_part cs \<noteq> []" "prev = 0 \<or> A prev = Some 1"
  obtains r q path' s' where "pathparser_parse_path_part prev path s = Some (r, path', s')"
    "r \<noteq> 0" "A r = None" "A q = None" "r \<noteq> q" "unat r mod 4096 = 0" "unat q mod 4096 = 0"
    "grows (link_slot prev) s s' (with_pages A [r, q])" "kheap_avail s' + 2 = kheap_avail s"
    "part_str (kmem s') r = q" "part_next (kmem s') r = 0" "prev \<noteq> 0 \<longrightarrow> part_next (kmem s') prev = r"
    "cstr (kmem s') q (first_part cs)" "cstr (kmem s') path' (later_parts cs)"
    "span path' (Suc (length (later_parts cs))) \<subseteq> span path (Suc (length cs))"
    "span r 4096 \<subseteq> kheap_spare s" "span q 4096 \<subseteq> kheap_spare s"
proof -
  have av: "0 < kheap_avail s" using assms(2) by simp
  have pth: "span path (Suc (length cs)) \<inter> kheap_spare s = {}" using assms(4) by blast
  obtain q path' s1 where g0: "pathparser_get_path_part path s = Some (q, path', s1)"
    "cstr (kmem s1) path' (later_parts cs)" "span path' (Suc (length (later_parts cs))) \<subseteq> span path (Suc (length cs))"
    "first_part cs = [] \<longrightarrow> q = 0 \<and> grows {} s s1 A \<and> kheap_avail s1 = kheap_avail s"
    "first_part cs \<noteq> [] \<longrightarrow> q \<noteq> 0 \<and> A q = None \<and> grows {} s s1 (A(q \<mapsto> 1)) \<and> kheap_avail s1 + 1 = kheap_avail s \<and>
       cstr (kmem s1) q (first_part cs) \<and> span q 4096 \<subseteq> kheap_spare s"
    using get_path_part_spec [OF assms(1) av assms(3) pth assms(5)] .
  note g = g0(1-3) g0(5) [rule_format, OF assms(6), THEN conjunct1] g0(5) [rule_format, OF assms(6), THEN conjunct2, THEN conjunct1]
    g0(5) [rule_format, OF assms(6), THEN conjunct2, THEN conjunct2, THEN conjunct1]
  have g7: "kheap_avail s1 + 1 = kheap_avail s" "cstr (kmem s1) q (first_part cs)" "span q 4096 \<subseteq> kheap_spare s"
    using g0(5) [rule_format, OF assms(6)] by blast+
  let ?A1 = "A(q \<mapsto> 1)"
  have av1: "0 < kheap_avail s1" using g7(1) assms(2) by simp
  have sz: "8 \<noteq> (0 :: u32)" "unat (8 :: u32) \<le> 4096" by simp_all
  from kzalloc_grows [OF growsD(1) [OF g(6)] sz av1]
  obtain r s2 where r: "kzalloc 8 s1 = (r, s2)" "r \<noteq> 0" "unat r mod 4096 = 0" "?A1 r = None"
    "grows {} s1 s2 (?A1(r \<mapsto> 1))" "kheap_avail s2 + 1 = kheap_avail s1"
    "\<forall>x \<in> span r (unat (8 :: u32)). kmem s2 x = 0" "span r 4096 \<subseteq> kheap_spare s1"
    "kheap_spare s2 \<inter> span r 4096 = {}" .
  let ?A2 = "?A1(r \<mapsto> 1)" and ?m = "write32 (write32 (kmem s2) r q) (r + 4) 0"
  let ?s3 = "put_kmem ?m s2"
  have A2: "?A2 = with_pages A [r, q]" by (auto simp: with_pages_def)
  have rq: "r \<noteq> q" "A r = None" using r(4) by (auto split: if_splits)
  have qal: "unat q mod 4096 = 0" using kh.live_bounds [OF growsD(1) [OF g(6)], of q 1] by simp
  have r_spare: "span r 4096 \<subseteq> kheap_spare s" using r(8) growsD(2) [OF g(6)] by blast
  note st = store_fields [OF r(3), of "kmem s2" q 0]
  have live: "?A2 r = Some 1" by simp
  have g12: "grows {} s s2 ?A2" by (rule grows_trans [OF g(6) r(5)]) simp
  have fresh: "span r 4096 \<subseteq> {} \<union> kheap_spare s" using r_spare by simp
  note g3 = grows_page [OF g12 live subset_refl fresh st(1)]
  let ?m4 = "if prev \<noteq> 0 then write32 ?m (prev + 4) r else ?m"
  let ?s4 = "put_kmem ?m4 ?s3"
  have eq: "pathparser_parse_path_part prev path s = Some (r, path', ?s4)"
    using g(1,4) r(1) by (simp add: pathparser_parse_path_part_def Let_def)
  have prevp: "prev \<noteq> 0 \<Longrightarrow> unat prev mod 4096 = 0 \<and> prev \<noteq> r \<and> prev \<noteq> q \<and> ?A2 prev = Some 1"
    using assms(7) kh.live_bounds [OF assms(1), of prev 1] rq(2) g(5) by auto
  have m4: "agree_off (link_slot prev) ?m ?m4" using write32_agree [of "prev + 4" ?m r] by auto
  have g4: "grows (link_slot prev) s ?s4 ?A2 \<and> kheap_avail ?s4 = kheap_avail ?s3"
  proof -
    have *: "grows (link_slot prev) s ?s3 ?A2" by (rule grows_mono [OF g3(1)]) blast
    show ?thesis
    proof (cases "prev = 0")
      case True
      then show ?thesis using * by simp
    next
      case False
      then have p: "span (prev + 4) 4 \<subseteq> span prev 4096" "?A2 prev = Some 1"
        using prevp [OF False] fields_in_page(2) [of prev] by auto
      have "span (prev + 4) 4 \<subseteq> link_slot prev \<union> kheap_spare s" using False by simp
      moreover have "agree_off (span (prev + 4) 4) (kmem ?s3) ?m4" using m4 False by simp
      ultimately show ?thesis using grows_page [OF * p(2,1)] by blast
    qed
  qed
  have rslot: "span r 4096 \<inter> link_slot prev = {}" "span q 4096 \<inter> link_slot prev = {}"
    using distinct_fields(3) [OF r(3), of prev] distinct_fields(3) [OF qal, of prev] prevp by (auto split: if_splits)
  have keep_r: "read32 ?m4 x = read32 ?m x" if "span x 4 \<subseteq> span r 4096" for x
    using rslot(1) that by (intro read32_agree [OF m4]) blast
  have str: "part_str (kmem ?s4) r = q" "part_next (kmem ?s4) r = 0"
    using st(2,3) keep_r fields_in_page [OF r(3)] by (simp_all add: part_str_def part_next_def)
  have nxt: "prev \<noteq> 0 \<longrightarrow> part_next (kmem ?s4) prev = r" by (simp add: part_next_def)
  text \<open>The string and the rest of the path keep their bytes.\<close>
  have q2: "kmem s2 x = kmem s1 x" if "x \<in> span q 4096" for x
    using grows_live [OF r(5) growsD(1) [OF g(6)], of q "span q 4096" x] that by simp
  have "cstr (kmem ?s4) q (first_part cs)"
  proof (rule cstr_agree [OF g7(2)])
    show "agree_off (- span q 4096) (kmem s1) (kmem ?s4)"
      using q2 agree_offD [OF m4] rslot(2) agree_offD [OF st(1)] aligned_disjoint [OF qal r(3)] rq(1)
      by (auto simp: agree_off_def disjoint_iff)
    have "length (first_part cs) < 4096" using length_takeWhile_le [of "\<lambda>c. c \<noteq> 0x2f" cs] assms(5) by linarith
    then show "span q (Suc (length (first_part cs))) \<inter> - span q 4096 = {}" 
      using span_mono [of "Suc (length (first_part cs))" 4096 q] by auto
  qed
  moreover have "cstr (kmem ?s4) path' (later_parts cs)"
  proof (rule cstr_agree [OF g(2)])
    show "agree_off (kheap_spare s \<union> link_slot prev) (kmem s1) (kmem ?s4)"
    proof (rule agree_off_trans_same)
      have "kheap_spare s1 \<union> {} \<subseteq> kheap_spare s \<union> link_slot prev" "span r 4096 \<subseteq> kheap_spare s \<union> link_slot prev"
        using growsD(2) [OF g(6)] r_spare by blast+
      then show "agree_off (kheap_spare s \<union> link_slot prev) (kmem s1) ?m"
        by (rule agree_off_trans_same [OF agree_off_mono [OF growsD(3) [OF r(5)]] agree_off_mono [OF st(1)]])
      show "agree_off (kheap_spare s \<union> link_slot prev) ?m (kmem ?s4)" using agree_off_mono [OF m4] by auto
    qed
    show "span path' (Suc (length (later_parts cs))) \<inter> (kheap_spare s \<union> link_slot prev) = {}"
      using g(3) assms(4) by blast
  qed
  moreover have "kheap_avail ?s4 + 2 = kheap_avail s" using g4 g3(2) r(6) g7(1) by simp
  ultimately show thesis
    using that [OF eq r(2) rq(2) g(5) rq(1) r(3) qal _ _ str nxt _ _ g(3) r_spare g7(3)] g4 unfolding A2 by blast
qed

lemma path_parts_none: "first_part cs = [] \<Longrightarrow> path_parts cs = []"
  by (simp add: path_parts.simps)

lemma path_parts_some: "first_part cs \<noteq> [] \<Longrightarrow> path_parts cs = first_part cs # path_parts (later_parts cs)"
  by (subst path_parts.simps) (simp add: Let_def)

lemma later_parts_length: "length (later_parts cs) \<le> length cs"
  using length_dropWhile_le [of "\<lambda>c. c \<noteq> 0x2f" cs] by simp

lemma with_pages_append: "with_pages (with_pages A ps) qs = with_pages A (ps @ qs)"
  by (auto simp: with_pages_def)

text \<open>The list grows at its end: from a last part without successor, the rest of the path adds one cell
  per component.\<close>

lemma parse_rest_spec:
  "kheap_ready s A \<Longrightarrow> A part = Some 1 \<Longrightarrow> part \<noteq> 0 \<Longrightarrow> part_next (kmem s) part = 0 \<Longrightarrow>
   2 * length (path_parts cs) + 1 \<le> kheap_avail s \<Longrightarrow> cstr (kmem s) path cs \<Longrightarrow> length cs < 108 \<Longrightarrow>
   span path (Suc (length cs)) \<inter> (kheap_spare s \<union> span (part + 4) 4) = {} \<Longrightarrow>
   \<exists>s' cells. parse_rest part path s = Some s' \<and> grows (span (part + 4) 4) s s' (with_pages A (chain_pages cells)) \<and>
     parts_chain (kmem s') (part_next (kmem s') part) cells \<and> chain_strs cells = path_parts cs \<and>
     distinct (chain_pages cells) \<and> (\<forall>p \<in> set (chain_pages cells). A p = None \<and> span p 4096 \<subseteq> kheap_spare s) \<and>
     kheap_avail s' + 2 * length cells = kheap_avail s"
proof (induction "length (path_parts cs)" arbitrary: s A part path cs)
  case 0
  have fp: "first_part cs = []"
  proof (rule ccontr)
    assume "first_part cs \<noteq> []"
    from path_parts_some [OF this] show False using "0.hyps" by simp
  qed
  have av: "0 < kheap_avail s" using "0.prems"(5) by simp
  have pth: "span path (Suc (length cs)) \<inter> kheap_spare s = {}" using "0.prems"(8) by blast
  obtain path' s' where r: "pathparser_parse_path_part part path s = Some (0, path', s')"
    "grows {} s s' A" "kheap_avail s' = kheap_avail s"
    using parse_path_part_none [OF "0.prems"(1) av "0.prems"(6) pth "0.prems"(7) fp] .
  have "parse_rest part path s = Some s'"
    using "0.prems"(3) by (subst parse_rest.simps) (simp add: r(1) parse_rest.simps [of 0])
  moreover have al: "unat part mod 4096 = 0" using kh.live_bounds [OF "0.prems"(1,2)] by blast
  have "part_next (kmem s') part = part_next (kmem s) part"
    unfolding part_next_def
    using grows_live [OF r(2) "0.prems"(1,2) fields_in_page(2) [OF al]] by (intro read32_span) simp
  then have "part_next (kmem s') part = 0" using "0.prems"(4) by simp
  moreover have "grows (span (part + 4) 4) s s' A" by (rule grows_mono [OF r(2)]) blast
  ultimately show ?case using "0.hyps" r(3) by (intro exI [of _ s'] exI [of _ "[]"]) simp
next
  case (Suc n)
  have fp: "first_part cs \<noteq> []" using Suc.hyps(2) path_parts_none [of cs] by force
  have pp: "path_parts cs = first_part cs # path_parts (later_parts cs)" by (rule path_parts_some [OF fp])
  have av: "2 \<le> kheap_avail s" using Suc.prems(5) pp by simp
  have al: "unat part mod 4096 = 0" using kh.live_bounds [OF Suc.prems(1,2)] by blast
  have pth: "span path (Suc (length cs)) \<inter> (kheap_spare s \<union> link_slot part) = {}" using Suc.prems(3,8) by simp
  obtain r q path' s1 where r: "pathparser_parse_path_part part path s = Some (r, path', s1)"
    "r \<noteq> 0" "A r = None" "A q = None" "r \<noteq> q" "unat r mod 4096 = 0" "unat q mod 4096 = 0"
    "grows (link_slot part) s s1 (with_pages A [r, q])" "kheap_avail s1 + 2 = kheap_avail s"
    "part_str (kmem s1) r = q" "part_next (kmem s1) r = 0" "part \<noteq> 0 \<longrightarrow> part_next (kmem s1) part = r"
    "cstr (kmem s1) q (first_part cs)" "cstr (kmem s1) path' (later_parts cs)"
    "span path' (Suc (length (later_parts cs))) \<subseteq> span path (Suc (length cs))"
    "span r 4096 \<subseteq> kheap_spare s" "span q 4096 \<subseteq> kheap_spare s"
    using parse_path_part_some [OF Suc.prems(1) av Suc.prems(6) pth Suc.prems(7) fp disjI2 [OF Suc.prems(2)]] .
  let ?A = "with_pages A [r, q]"
  have g1: "grows (span (part + 4) 4) s s1 ?A" using r(8) Suc.prems(3) by simp
  note rd = growsD(1) [OF g1] growsD(2) [OF g1]
  have Ar: "?A r = Some 1" "?A q = Some 1" "?A part = Some 1" using Suc.prems(2) by (auto simp: with_pages_def)
  have neq: "part \<noteq> r" "part \<noteq> q" using Suc.prems(2) r(3,4) by auto
  have rslot: "span (r + 4) 4 \<subseteq> kheap_spare s" using fields_in_page(2) [OF r(6)] r(16) by blast
  have "n = length (path_parts (later_parts cs))" "2 * length (path_parts (later_parts cs)) + 1 \<le> kheap_avail s1"
    "length (later_parts cs) < 108"
    using Suc.hyps(2) Suc.prems(5,7) pp r(9) later_parts_length [of cs] by simp_all
  moreover have "span path' (Suc (length (later_parts cs))) \<inter> (kheap_spare s1 \<union> span (r + 4) 4) = {}"
    using r(15) Suc.prems(8) rd(2) rslot by blast
  ultimately obtain s2 cells where c: "parse_rest r path' s1 = Some s2"
    "grows (span (r + 4) 4) s1 s2 (with_pages ?A (chain_pages cells))"
    "parts_chain (kmem s2) (part_next (kmem s2) r) cells" "chain_strs cells = path_parts (later_parts cs)"
    "distinct (chain_pages cells)" "\<forall>p \<in> set (chain_pages cells). ?A p = None \<and> span p 4096 \<subseteq> kheap_spare s1"
    "kheap_avail s2 + 2 * length cells = kheap_avail s1"
    using Suc.hyps(1) [of "later_parts cs" s1 ?A r path'] rd(1) Ar(1) r(2,11,14) by blast
  have g2: "grows (span (part + 4) 4) s s2 (with_pages ?A (chain_pages cells))"
    by (rule grows_trans [OF g1 c(2)]) (use rslot in blast)
  have keep: "kmem s2 x = kmem s1 x" if "S \<subseteq> span p 4096" "?A p = Some 1" "S \<inter> span (r + 4) 4 = {}" "x \<in> S" for S p x
    by (rule grows_live [OF c(2) rd(1) that(2,1,3,4)])
  have "part_str (kmem s2) r = q"
    using keep [OF fields_in_page(1) [OF r(6)] Ar(1) fields_in_page(3) [OF r(6)]] r(10)
    unfolding part_str_def by (subst read32_span [of r "kmem s2" "kmem s1"]) auto
  moreover have "part_next (kmem s2) part = r"
    using keep [OF fields_in_page(2) [OF al] Ar(3) distinct_fields(2) [OF al r(6) neq(1)]] r(12) [rule_format, OF Suc.prems(3)]
    unfolding part_next_def by (subst read32_span [of "part + 4" "kmem s2" "kmem s1"]) auto
  moreover have "cstr (kmem s2) q (first_part cs)"
  proof (rule cstr_agree [OF r(13)])
    show "agree_off (- span q 4096) (kmem s1) (kmem s2)"
      using keep [OF subset_refl Ar(2) distinct_fields(3) [OF r(7,6) r(5) [symmetric]]] by (auto simp: agree_off_def)
    have "length (first_part cs) < 4096" using length_takeWhile_le [of "\<lambda>c. c \<noteq> 0x2f" cs] Suc.prems(7) by linarith
    then show "span q (Suc (length (first_part cs))) \<inter> - span q 4096 = {}"
      using span_mono [of "Suc (length (first_part cs))" 4096 q] by auto
  qed
  ultimately have "parts_chain (kmem s2) (part_next (kmem s2) part) ((r, q, first_part cs) # cells)"
    using c(3) r(2) by simp
  moreover have "chain_strs ((r, q, first_part cs) # cells) = path_parts cs" using c(4) pp by simp
  moreover have new: "p \<noteq> r \<and> p \<noteq> q \<and> A p = None \<and> span p 4096 \<subseteq> kheap_spare s" if "p \<in> set (chain_pages cells)" for p
  proof -
    have "?A p = None" "span p 4096 \<subseteq> kheap_spare s1" using c(6) that by blast+
    then show ?thesis using rd(2) by (auto simp: with_pages_def split: if_splits)
  qed
  then have "distinct (chain_pages ((r, q, first_part cs) # cells))" using c(5) r(5) by auto
  moreover have "\<forall>p \<in> set (chain_pages ((r, q, first_part cs) # cells)). A p = None \<and> span p 4096 \<subseteq> kheap_spare s"
    using new r(3,4,16,17) by simp
  moreover have "parse_rest part path s = Some s2"
    using Suc.prems(3) c(1) by (subst parse_rest.simps) (simp add: r(1))
  moreover have "grows (span (part + 4) 4) s s2 (with_pages A (chain_pages ((r, q, first_part cs) # cells)))"
    using g2 by (simp add: with_pages_append)
  moreover have "kheap_avail s2 + 2 * length ((r, q, first_part cs) # cells) = kheap_avail s" using c(7) r(9) by simp
  ultimately show ?case by - (intro exI conjI, assumption+)
qed

lemma parse_rest_first:
  assumes "first \<noteq> 0"
  shows "(do { (part, tmp_path, s4) \<leftarrow> pathparser_parse_path_part first path s; s5 \<leftarrow> parse_rest part tmp_path s4; Some (root, s5) })
    = (do { s5 \<leftarrow> parse_rest first path s; Some (root, s5) })"
  using assms by (subst (2) parse_rest.simps) (simp split: bind_split)

section \<open>Freeing a path\<close>

text \<open>\<open>path_owned s A root cells\<close>: the root and the cells of its list are pages of their own among the
  live allocations.\<close>

definition path_owned :: "'z kstate_scheme \<Rightarrow> (u32 \<Rightarrow> nat option) \<Rightarrow> u32 \<Rightarrow> (u32 \<times> u32 \<times> u8 list) list \<Rightarrow> bool" where
  "path_owned s A root cells \<longleftrightarrow> kheap_ready s A \<and> parts_chain (kmem s) (root_first (kmem s) root) cells \<and>
     distinct (root # chain_pages cells) \<and> (\<forall>p \<in> set (root # chain_pages cells). A p = Some 1)"

lemma release_page:
  assumes "kheap_ready s A" "A p = Some 1"
  obtains s' where "kfree p s = s'" "s' = put_kmem (kmem s') s" "kheap_ready s' (A(p := None))"
    "kheap_avail s' = kheap_avail s + 1" "agree_off (kheap_reserved s) (kmem s) (kmem s')"
    "kheap_reserved s' = kheap_reserved s"
proof -
  obtain m where m: "kfree p s = put_kmem m s" "kheap_ready (put_kmem m s) (A(p := None))"
    "kheap_avail (put_kmem m s) = kheap_avail s + 1" "agree_off (kheap_reserved s) (kmem s) m"
    using kh.release_live [OF assms] by (elim exE conjE) (rule that, assumption+)
  have "put_kmem m s = put_kmem (kmem (put_kmem m s)) s" "agree_off (kheap_reserved s) (kmem s) (kmem (put_kmem m s))"
    using m(4) by simp_all
  from that [OF m(1) this(1) m(2,3) this(2) kheap_reserved_put] show thesis .
qed

lemma live_page_bytes:
  assumes "kheap_ready s A" "A p = Some 1" "agree_off (kheap_reserved s) (kmem s) m" "x \<in> span p 4096"
  shows "m x = kmem s x"
  using kh.live_reserved [OF assms(1,2)] assms(4) by (intro agree_offD [OF assms(3)]) auto

lemma parts_chain_keep:
  assumes "kheap_ready s A" "agree_off (kheap_reserved s) (kmem s) m"
  shows "\<forall>p \<in> set (chain_pages cells). A p = Some 1 \<Longrightarrow> \<forall>(r, q, x) \<in> set cells. length x < 4096 \<Longrightarrow>
    parts_chain (kmem s) p cells \<Longrightarrow> parts_chain m p cells"
proof (induction cells arbitrary: p)
  case (Cons c cells)
  obtain r q x where c: "c = (r, q, x)" by (cases c)
  have A: "A r = Some 1" "A q = Some 1" and x: "length x < 4096" using Cons.prems(1,2) c by auto
  have al: "unat r mod 4096 = 0" using kh.live_bounds [OF assms(1) A(1)] by blast
  have f: "part_str m r = part_str (kmem s) r" "part_next m r = part_next (kmem s) r"
    unfolding part_str_def part_next_def
    using fields_in_page [OF al] live_page_bytes [OF assms(1) A(1) assms(2)] by (auto intro!: read32_span)
  have "cstr m q x" if "cstr (kmem s) q x"
  proof (rule cstr_agree [OF that assms(2)])
    have "span q (Suc (length x)) \<subseteq> span q (1 * 4096)" using x by (intro span_mono) simp
    then show "span q (Suc (length x)) \<inter> kheap_reserved s = {}" using kh.live_reserved [OF assms(1) A(2)] by blast
  qed
  then show ?case using Cons f c by auto
qed simp

lemma free_parts_spec:
  "kheap_ready s A \<Longrightarrow> parts_chain (kmem s) p cells \<Longrightarrow> distinct (chain_pages cells) \<Longrightarrow>
   \<forall>q \<in> set (chain_pages cells). A q = Some 1 \<Longrightarrow> \<forall>(r, q, x) \<in> set cells. length x < 4096 \<Longrightarrow>
   \<exists>s'. free_parts p s = Some s' \<and> s' = put_kmem (kmem s') s \<and> kheap_ready s' (without A (chain_pages cells)) \<and>
     kheap_avail s' = kheap_avail s + 2 * length cells \<and> agree_off (kheap_reserved s) (kmem s) (kmem s')"
proof (induction cells arbitrary: s A p)
  case Nil
  then show ?case by (subst free_parts.simps) (simp add: put_kmem_def)
next
  case (Cons c cells)
  obtain r q x where c: "c = (r, q, x)" by (cases c)
  have p: "p = r" "r \<noteq> 0" "part_str (kmem s) r = q" "parts_chain (kmem s) (part_next (kmem s) r) cells"
    using Cons.prems(2) c by auto
  have d: "r \<noteq> q" "r \<notin> set (chain_pages cells)" "q \<notin> set (chain_pages cells)" "distinct (chain_pages cells)"
    using Cons.prems(3) c by auto
  have A: "A r = Some 1" "A q = Some 1" "\<forall>q \<in> set (chain_pages cells). A q = Some 1" using Cons.prems(4) c by auto
  obtain s1 where s1: "kfree q s = s1" "s1 = put_kmem (kmem s1) s" "kheap_ready s1 (A(q := None))"
    "kheap_avail s1 = kheap_avail s + 1" "agree_off (kheap_reserved s) (kmem s) (kmem s1)"
    "kheap_reserved s1 = kheap_reserved s" using release_page [OF Cons.prems(1) A(2)] .
  have "(A(q := None)) r = Some 1" using A(1) d(1) by simp
  then obtain s2 where s2: "kfree r s1 = s2" "s2 = put_kmem (kmem s2) s1" "kheap_ready s2 ((A(q := None))(r := None))"
    "kheap_avail s2 = kheap_avail s1 + 1" "agree_off (kheap_reserved s1) (kmem s1) (kmem s2)"
    "kheap_reserved s2 = kheap_reserved s1" using release_page [OF s1(3)] by blast
  have ag: "agree_off (kheap_reserved s) (kmem s) (kmem s2)"
    by (rule agree_off_trans_same [OF s1(5) s2(5)[unfolded s1(6)]])
  have len: "\<forall>(r, q, x) \<in> set cells. length x < 4096" using Cons.prems(5) by simp
  have "parts_chain (kmem s2) (part_next (kmem s) r) cells"
    by (rule parts_chain_keep [OF Cons.prems(1) ag A(3) len p(4)])
  moreover have "\<forall>p \<in> set (chain_pages cells). ((A(q := None))(r := None)) p = Some 1" using A(3) d(2,3) by auto
  ultimately obtain s' where s': "free_parts (part_next (kmem s) r) s2 = Some s'" "s' = put_kmem (kmem s') s2"
    "kheap_ready s' (without ((A(q := None))(r := None)) (chain_pages cells))"
    "kheap_avail s' = kheap_avail s2 + 2 * length cells" "agree_off (kheap_reserved s2) (kmem s2) (kmem s')"
    using Cons.IH [OF s2(3) _ d(4) _ len] by blast
  have "free_parts p s = Some s'" using s'(1) p(1-3) s1(1) s2(1) by (subst free_parts.simps) (simp add: Let_def)
  moreover have "without ((A(q := None))(r := None)) (chain_pages cells) = without A (chain_pages (c # cells))"
    by (auto simp: c without_def)
  moreover have "s' = put_kmem (kmem s') s" using s'(2) s2(2) s1(2) by (metis put_kmem_simps(3))
  moreover have "agree_off (kheap_reserved s) (kmem s) (kmem s')"
    by (rule agree_off_trans_same [OF ag s'(5)[unfolded s2(6) s1(6)]])
  ultimately show ?case using s'(3,4) s2(4) s1(4) by (intro exI [of _ s']) simp
qed

lemma pathparser_free_spec:
  assumes "path_owned s A root cells" "\<forall>(r, q, x) \<in> set cells. length x < 4096"
  shows "\<exists>s'. pathparser_free root s = Some s' \<and> kheap_ready s' (without A (root # chain_pages cells)) \<and>
     kheap_avail s' = kheap_avail s + 1 + 2 * length cells \<and> agree_off (kheap_reserved s) (kmem s) (kmem s')"
proof -
  have o: "kheap_ready s A" "parts_chain (kmem s) (root_first (kmem s) root) cells" "distinct (chain_pages cells)"
    "\<forall>q \<in> set (chain_pages cells). A q = Some 1" "root \<notin> set (chain_pages cells)" "A root = Some 1"
    using assms(1) by (auto simp: path_owned_def)
  obtain s1 where s1: "free_parts (root_first (kmem s) root) s = Some s1" "s1 = put_kmem (kmem s1) s"
    "kheap_ready s1 (without A (chain_pages cells))" "kheap_avail s1 = kheap_avail s + 2 * length cells"
    "agree_off (kheap_reserved s) (kmem s) (kmem s1)"
    using free_parts_spec [OF o(1-4) assms(2)] by blast
  have "without A (chain_pages cells) root = Some 1" using o(5,6) by (simp add: without_def)
  then obtain s2 where s2: "kfree root s1 = s2" "s2 = put_kmem (kmem s2) s1"
    "kheap_ready s2 ((without A (chain_pages cells))(root := None))"
    "kheap_avail s2 = kheap_avail s1 + 1" "agree_off (kheap_reserved s1) (kmem s1) (kmem s2)"
    "kheap_reserved s2 = kheap_reserved s1" using release_page [OF s1(3)] by blast
  have "kheap_reserved s1 = kheap_reserved s" by (subst s1(2)) (rule kheap_reserved_put)
  then have "agree_off (kheap_reserved s) (kmem s) (kmem s2)" using agree_off_trans_same [OF s1(5)] s2(5) by simp
  moreover have "pathparser_free root s = Some s2" by (simp add: pathparser_free_def s1(1) s2(1))
  ultimately show ?thesis using s2(3,4) s1(4) by (intro exI [of _ s2]) (simp add: without_simps)
qed

section \<open>Parsing a path\<close>

lemma create_root_spec:
  assumes "kheap_ready s A" "0 < kheap_avail s"
  obtains root s' where "pathparser_create_root d s = (root, s')" "root \<noteq> 0" "A root = None"
    "unat root mod 4096 = 0" "grows {} s s' (A(root \<mapsto> 1))" "kheap_avail s' + 1 = kheap_avail s"
    "root_drive (kmem s') root = sint (word_of_int d :: u32)" "root_first (kmem s') root = 0"
    "span root 4096 \<subseteq> kheap_spare s"
proof -
  have sz: "8 \<noteq> (0 :: u32)" "unat (8 :: u32) \<le> 4096" by simp_all
  obtain r s2 where r: "kzalloc 8 s = (r, s2)" "r \<noteq> 0" "unat r mod 4096 = 0" "A r = None"
    "grows {} s s2 (A(r \<mapsto> 1))" "kheap_avail s2 + 1 = kheap_avail s"
    "\<forall>x \<in> span r (unat (8 :: u32)). kmem s2 x = 0" "span r 4096 \<subseteq> kheap_spare s"
    "kheap_spare s2 \<inter> span r 4096 = {}" using kzalloc_grows [OF assms(1) sz assms(2)] .
  note st = store_fields [OF r(3), of "kmem s2" "word_of_int d" 0]
  have live: "(A(r \<mapsto> 1)) r = Some 1" and fresh: "span r 4096 \<subseteq> {} \<union> kheap_spare s" using r(8) by simp_all
  note g = grows_page [OF r(5) live subset_refl fresh st(1)]
  have "pathparser_create_root d s = (r, put_kmem (write32 (write32 (kmem s2) r (word_of_int d)) (r + 4) 0) s2)"
    by (simp add: pathparser_create_root_def r(1) Let_def)
  then show thesis
    using that [OF _ r(2,4,3) g(1)] g(2) r(6,8) st(2,3) by (simp add: root_drive_def root_first_def)
qed

lemma valid_format:
  assumes "cstr m path (d # 0x3a # 0x2f # cs)" "isdigit d"
  shows "pathparser_get_drive_by_path m path = (tonumericdigit d, path + 3)"
proof -
  have b: "m path = d" "m (path + 1) = 0x3a" "m (path + 2) = 0x2f" "cstr m (path + 3) cs"
    using assms(1) by (simp_all add: add.assoc)
  have "strnlen m path 108 = int (length (take 108 (d # 0x3a # 0x2f # cs)))"
    by (simp only: strnlen_eq upto_nul_cstr [OF assms(1)]) simp
  then have "3 \<le> strnlen m path 108" by simp
  then have "pathparser_path_valid_format m path"
    using b assms(2) by (simp add: pathparser_path_valid_format_def add.assoc)
  then show ?thesis using b by (simp add: pathparser_get_drive_by_path_def)
qed

lemma path_parts_short: "\<forall>x \<in> set (path_parts cs). length x \<le> length cs"
proof (induction cs rule: path_parts.induct)
  case (1 cs)
  show ?case
  proof (cases "first_part cs = []")
    case True
    then show ?thesis by (simp add: path_parts_none)
  next
    case False
    have "\<forall>x \<in> set (path_parts (later_parts cs)). length x \<le> length (later_parts cs)"
      using 1 [OF refl] False by blast
    then show ?thesis unfolding path_parts_some [OF False]
      using later_parts_length [of cs] length_takeWhile_le [of "\<lambda>c. c \<noteq> 0x2f" cs] by fastforce
  qed
qed

lemma pathparser_parse_spec:
  assumes "kheap_ready s A" "cstr (kmem s) path (d # 0x3a # 0x2f # cs)" "isdigit d" "length cs \<le> 105"
    "span path (length cs + 4) \<inter> kheap_spare s = {}" "2 * length (path_parts cs) + 2 \<le> kheap_avail s"
  shows "\<exists>root s' cells. pathparser_parse path cdp s = Some (root, s') \<and> root \<noteq> 0 \<and>
     root_drive (kmem s') root = tonumericdigit d \<and> chain_strs cells = path_parts cs \<and>
     path_owned s' (with_pages A (root # chain_pages cells)) root cells \<and>
     (\<forall>p \<in> set (root # chain_pages cells). A p = None) \<and>
     kheap_avail s' + 1 + 2 * length cells = kheap_avail s \<and> agree_off (kheap_spare s) (kmem s) (kmem s') \<and>
     grows {} s s' (with_pages A (root # chain_pages cells))"
proof -
  have sl: "strlen (kmem s) path = Some (int (length cs) + 3)" using strlen_cstr [OF assms(2)] assms(4) by simp
  have dr: "0 \<le> tonumericdigit d" "tonumericdigit d \<le> 9" using isdigit_range [OF assms(3)] by blast+
  have av: "0 < kheap_avail s" using assms(6) by simp
  obtain root s1 where r: "pathparser_create_root (tonumericdigit d) s = (root, s1)" "root \<noteq> 0" "A root = None"
    "unat root mod 4096 = 0" "grows {} s s1 (A(root \<mapsto> 1))" "kheap_avail s1 + 1 = kheap_avail s"
    "root_drive (kmem s1) root = sint (word_of_int (tonumericdigit d) :: u32)" "root_first (kmem s1) root = 0"
    "span root 4096 \<subseteq> kheap_spare s"
    using create_root_spec [OF assms(1) av] .
  let ?A1 = "A(root \<mapsto> 1)"
  have rdy: "kheap_ready s1 ?A1" "kheap_spare s1 \<subseteq> kheap_spare s" using growsD [OF r(5)] by blast+
  have drive: "root_drive (kmem s1) root = tonumericdigit d"
  proof -
    obtain n where n: "tonumericdigit d = int n" using dr(1) by (elim nonneg_int_cases)
    then have "n < 2147483648" using dr(2) by simp
    from sint_small [OF this] show ?thesis using r(7) unfolding n of_int_of_nat_eq by simp
  qed
  have "span (path + word_of_nat 3) (length cs + 4 - 3) \<subseteq> span path (length cs + 4)"
    by (rule span_offset) (use assms(4) in simp_all)
  then have sub: "span (path + 3) (Suc (length cs)) \<subseteq> span path (length cs + 4)" by simp
  have c0: "cstr (kmem s) (path + 3) cs" using assms(2) by (simp add: add.assoc)
  have c1: "cstr (kmem s1) (path + 3) cs"
    by (rule untouched_cstr [OF r(5) c0]) (use sub assms(5) in auto)
  have head: "pathparser_parse path cdp s = (case pathparser_parse_path_part 0 (path + 3) s1 of None \<Rightarrow> None
      | Some (first, tmp, s2) \<Rightarrow> if first = 0 then Some (root, s2) else
          (do { s5 \<leftarrow> parse_rest first tmp (put_kmem (write32 (kmem s2) (root + 4) first) s2); Some (root, s5) }))"
    using assms(4) dr r(2)
    by (simp add: pathparser_parse_def sl valid_format [OF assms(2,3)] r(1) Let_def parse_rest_first split: option.splits)
  have lt: "length cs < 108" using assms(4) by simp
  show ?thesis
  proof (cases "first_part cs = []")
    case True
    have "0 < kheap_avail s1" "span (path + 3) (Suc (length cs)) \<inter> kheap_spare s1 = {}"
      using r(6) assms(5,6) sub rdy(2) by auto
    then obtain path' s2 where f: "pathparser_parse_path_part 0 (path + 3) s1 = Some (0, path', s2)"
      "grows {} s1 s2 ?A1" "kheap_avail s2 = kheap_avail s1"
      using parse_path_part_none [OF rdy(1) _ c1 _ lt True, of 0] by blast
    have g: "grows {} s s2 ?A1" by (rule grows_trans [OF r(5) f(2)]) simp
    have live: "?A1 root = Some 1" by simp
    have k: "kmem s2 x = kmem s1 x" if "x \<in> span root 4096" for x
      by (rule grows_live [OF f(2) rdy(1) live subset_refl _ that]) simp
    have "read32 (kmem s2) root = read32 (kmem s1) root" "read32 (kmem s2) (root + 4) = read32 (kmem s1) (root + 4)"
      by (rule read32_span, rule k, use fields_in_page [OF r(4)] in blast)+
    then have "root_drive (kmem s2) root = tonumericdigit d" "root_first (kmem s2) root = 0"
      using drive r(8) by (simp_all add: root_drive_def root_first_def)
    moreover have w: "?A1 = with_pages A [root]" by (auto simp: with_pages_def)
    ultimately have "path_owned s2 (with_pages A (root # chain_pages [])) root []" "root_drive (kmem s2) root = tonumericdigit d"
      using growsD(1) [OF g] by (simp_all add: path_owned_def)
    moreover have "pathparser_parse path cdp s = Some (root, s2)" by (simp add: head f(1))
    moreover have "agree_off (kheap_spare s) (kmem s) (kmem s2)" "grows {} s s2 (with_pages A (root # chain_pages []))"
      using growsD(3) [OF g] g w by (simp_all del: with_pages_simps(2) fun_upd_apply)
    ultimately show ?thesis using r(2,3,6) f(3) path_parts_none [OF True]
      by (intro exI [of _ root] exI [of _ s2] exI [of _ "[]"]) simp
  next
    case False
    have pp: "path_parts cs = first_part cs # path_parts (later_parts cs)" by (rule path_parts_some [OF False])
    have av1: "2 \<le> kheap_avail s1" and sp: "span (path + 3) (Suc (length cs)) \<inter> (kheap_spare s1 \<union> link_slot 0) = {}"
      using r(6) assms(5,6) sub rdy(2) pp by auto
    obtain a q path' s2 where f: "pathparser_parse_path_part 0 (path + 3) s1 = Some (a, path', s2)"
      "a \<noteq> 0" "?A1 a = None" "?A1 q = None" "a \<noteq> q" "unat a mod 4096 = 0" "unat q mod 4096 = 0"
      "grows (link_slot 0) s1 s2 (with_pages ?A1 [a, q])" "kheap_avail s2 + 2 = kheap_avail s1"
      "part_str (kmem s2) a = q" "part_next (kmem s2) a = 0" "(0 :: u32) \<noteq> 0 \<longrightarrow> part_next (kmem s2) 0 = a"
      "cstr (kmem s2) q (first_part cs)" "cstr (kmem s2) path' (later_parts cs)"
      "span path' (Suc (length (later_parts cs))) \<subseteq> span (path + 3) (Suc (length cs))"
      "span a 4096 \<subseteq> kheap_spare s1" "span q 4096 \<subseteq> kheap_spare s1"
      using parse_path_part_some [OF rdy(1) av1 c1 sp lt False disjI1 [OF refl]] .
    let ?A2 = "with_pages ?A1 [a, q]" and ?m = "write32 (kmem s2) (root + 4) a"
    let ?s3 = "put_kmem ?m s2"
    have f8: "grows {} s1 s2 ?A2" using f(8) by (simp only: refl if_True)
    have g2: "grows {} s s2 ?A2" by (rule grows_trans [OF r(5) f8]) simp
    have neq: "root \<noteq> a" "root \<noteq> q" using f(3,4) by auto
    have A2: "?A2 root = Some 1" "?A2 a = Some 1" "?A2 q = Some 1" using neq by (auto simp: with_pages_def)
    have rs: "span (root + 4) 4 \<subseteq> span root 4096" by (rule fields_in_page(2) [OF r(4)])
    have rs': "span (root + 4) 4 \<subseteq> {} \<union> kheap_spare s" using rs r(9) by blast
    note g3 = grows_page [OF g2 A2(1) rs rs' write32_agree]
    have al: "span (root + 4) 4 \<inter> span a 4096 = {}" "span (root + 4) 4 \<inter> span q 4096 = {}"
      using aligned_disjoint [OF r(4) f(6) neq(1)] aligned_disjoint [OF r(4) f(7) neq(2)] rs by blast+
    have a3: "agree_off (span (root + 4) 4) (kmem s2) (kmem ?s3)" using write32_agree by simp
    have pdis: "span path' (Suc (length (later_parts cs))) \<inter> kheap_spare s = {}" using f(15) sub assms(5) by blast
    have aslot: "span (a + 4) 4 \<subseteq> kheap_spare s" using fields_in_page(2) [OF f(6)] f(16) rdy(2) by blast
    have c3: "cstr (kmem ?s3) path' (later_parts cs)"
      by (rule cstr_agree [OF f(14) a3]) (use pdis rs' in auto)
    have nx: "part_next (kmem ?s3) a = 0"
      using f(11) read32_agree [OF a3, of "a + 4"] al(1) fields_in_page(2) [OF f(6)] by (auto simp: part_next_def)
    have "2 * length (path_parts (later_parts cs)) + 1 \<le> kheap_avail ?s3"
      using g3(2) f(9) r(6) assms(6) pp by simp
    moreover have "span path' (Suc (length (later_parts cs))) \<inter> (kheap_spare ?s3 \<union> span (a + 4) 4) = {}"
      using pdis aslot growsD(2) [OF g3(1)] by blast
    moreover have "length (later_parts cs) < 108" using later_parts_length [of cs] lt by linarith
    ultimately obtain s' cells where c: "parse_rest a path' ?s3 = Some s'"
      "grows (span (a + 4) 4) ?s3 s' (with_pages ?A2 (chain_pages cells))"
      "parts_chain (kmem s') (part_next (kmem s') a) cells" "chain_strs cells = path_parts (later_parts cs)"
      "distinct (chain_pages cells)" "\<forall>p \<in> set (chain_pages cells). ?A2 p = None \<and> span p 4096 \<subseteq> kheap_spare ?s3"
      "kheap_avail s' + 2 * length cells = kheap_avail ?s3"
      using parse_rest_spec [OF growsD(1) [OF g3(1)] A2(2) f(2) nx _ c3] by blast
    let ?cells = "(a, q, first_part cs) # cells"
    have keep: "kmem s' x = kmem ?s3 x" if "S \<subseteq> span p 4096" "?A2 p = Some 1" "S \<inter> span (a + 4) 4 = {}" "x \<in> S" for S p x
      by (rule grows_live [OF c(2) growsD(1) [OF g3(1)] that(2,1,3,4)])
    have g: "grows {} s s' (with_pages ?A2 (chain_pages cells))"
      by (rule grows_trans [OF g3(1) c(2)]) (use aslot in simp)
    have ra: "span root 4096 \<inter> span (a + 4) 4 = {}" "span q 4096 \<inter> span (a + 4) 4 = {}"
      using distinct_fields(3) [OF r(4) f(6) neq(1)] distinct_fields(3) [OF f(7,6) f(5) [symmetric]] by blast+
    have kr: "kmem s' x = kmem ?s3 x" if "x \<in> span root 4096" for x by (rule keep [OF subset_refl A2(1) ra(1) that])
    have k1: "kmem s2 x = kmem s1 x" if "x \<in> span root 4096" for x
      by (rule grows_live [OF f8 rdy(1) _ subset_refl _ that]) simp_all
    have rd: "root_drive (kmem s') root = tonumericdigit d" "root_first (kmem s') root = a"
    proof -
      have "read32 (kmem s') root = read32 (kmem ?s3) root" using fields_in_page(1) [OF r(4)] kr by (intro read32_span) auto
      also have "\<dots> = read32 (kmem s2) root" by (rule read32_agree [OF a3]) (rule fields_in_page(3) [OF r(4)])
      also have "\<dots> = read32 (kmem s1) root" using fields_in_page(1) [OF r(4)] k1 by (intro read32_span) auto
      finally show "root_drive (kmem s') root = tonumericdigit d" using drive by (simp add: root_drive_def)
      have "read32 (kmem s') (root + 4) = read32 (kmem ?s3) (root + 4)" using rs kr by (intro read32_span) auto
      then show "root_first (kmem s') root = a" by (simp add: root_first_def)
    qed
    have "read32 (kmem s') a = read32 (kmem ?s3) a"
      using keep [OF fields_in_page(1) [OF f(6)] A2(2) fields_in_page(3) [OF f(6)]] by (intro read32_span) auto
    also have "\<dots> = q"
      using f(10) read32_agree [OF a3, of a] al(1) fields_in_page(1) [OF f(6)] by (auto simp: part_str_def)
    finally have str: "part_str (kmem s') a = q" by (simp add: part_str_def)
    have flen: "Suc (length (first_part cs)) \<le> 4096" using length_takeWhile_le [of "\<lambda>c. c \<noteq> 0x2f" cs] lt by linarith
    have cq: "cstr (kmem s') q (first_part cs)"
    proof (rule cstr_agree [OF f(13)])
      show "agree_off (- span q 4096) (kmem s2) (kmem s')"
        using keep [OF subset_refl A2(3) ra(2)] agree_offD [OF a3] al(2) by (auto simp: agree_off_def disjoint_iff)
      show "span q (Suc (length (first_part cs))) \<inter> - span q 4096 = {}" using span_mono [OF flen, of q] by auto
    qed
    have new: "p \<noteq> root \<and> p \<noteq> a \<and> p \<noteq> q \<and> A p = None" if "p \<in> set (chain_pages cells)" for p
    proof -
      have "?A2 p = None" using c(6) that by blast
      then show ?thesis by (auto simp: with_pages_def split: if_splits)
    qed
    have AA: "with_pages ?A2 (chain_pages cells) = with_pages A (root # chain_pages ?cells)"
      by (auto simp: with_pages_def)
    then have own: "path_owned s' (with_pages A (root # chain_pages ?cells)) root ?cells"
      using growsD(1) [OF g] rd(2) f(2,5) str cq c(3,5) new neq
      by (auto simp: path_owned_def with_pages_def)
    have none: "\<forall>p \<in> set (root # chain_pages ?cells). A p = None"
      using new r(3) f(3,4) by (auto split: if_splits)
    have "pathparser_parse path cdp s = Some (root, s')" using f(2) by (simp add: head f(1) c(1))
    moreover have "chain_strs ?cells = path_parts cs" using c(4) pp by simp
    moreover have "kheap_avail s' + 1 + 2 * length ?cells = kheap_avail s" using c(7) g3(2) f(9) r(6) by simp
    moreover have "agree_off (kheap_spare s) (kmem s) (kmem s')" using growsD(3) [OF g] by simp
    moreover note g [unfolded AA]
    ultimately show ?thesis using r(2) rd(1) own none by - (intro exI conjI, assumption+)
  qed
qed

section \<open>Properties\<close>

text \<open>C25: \<^verbatim>\<open>pathparser_parse\<close> of a path \<open>d:/rest\<close> with a digit
  \<open>d\<close>, of at most 108 characters and stored outside the memory the heap may hand out, returns, given
  enough free pages, a root with the drive number and a linked list of exactly the components of the rest up to the
  first empty one. The root and the cells are fresh pages, and nothing outside the free memory of the heap is
  written.\<close>

theorem pathparser_parse_lists:
  assumes "kheap_ready s A" "cstr (kmem s) path (d # 0x3a # 0x2f # cs)" "isdigit d" "length cs \<le> 105"
    "span path (length cs + 4) \<inter> kheap_spare s = {}" "2 * length (path_parts cs) + 2 \<le> kheap_avail s"
  shows "\<exists>root s' cells. pathparser_parse path cdp s = Some (root, s') \<and> root \<noteq> 0 \<and>
     root_drive (kmem s') root = tonumericdigit d \<and>
     parts_chain (kmem s') (root_first (kmem s') root) cells \<and> chain_strs cells = path_parts cs \<and>
     path_owned s' (with_pages A (root # chain_pages cells)) root cells \<and>
     (\<forall>p \<in> set (root # chain_pages cells). A p = None) \<and> agree_off (kheap_spare s) (kmem s) (kmem s')"
proof -
  obtain root s' cells where r: "pathparser_parse path cdp s = Some (root, s')" "root \<noteq> 0"
    "root_drive (kmem s') root = tonumericdigit d" "chain_strs cells = path_parts cs"
    "path_owned s' (with_pages A (root # chain_pages cells)) root cells"
    "\<forall>p \<in> set (root # chain_pages cells). A p = None" "agree_off (kheap_spare s) (kmem s) (kmem s')"
    using pathparser_parse_spec [OF assms, of cdp] by (elim exE conjE) (rule that, assumption+)
  have "parts_chain (kmem s') (root_first (kmem s') root) cells" using r(5) by (simp add: path_owned_def)
  with r show ?thesis by - (intro exI conjI, assumption+)
qed

text \<open>\<^verbatim>\<open>pathparser_free\<close> gives back exactly the pages of a root and its list of parts, and
  writes nothing but the table of the heap.\<close>

theorem pathparser_free_releases:
  assumes "path_owned s A root cells" "\<forall>(r, q, x) \<in> set cells. length x < 4096"
  shows "\<exists>s'. pathparser_free root s = Some s' \<and> kheap_ready s' (without A (root # chain_pages cells)) \<and>
     kheap_avail s' = kheap_avail s + 1 + 2 * length cells \<and> agree_off (kheap_reserved s) (kmem s) (kmem s')"
  by (rule pathparser_free_spec [OF assms])

lemma parse_refused:
  assumes "cstr (kmem s) path cs" "length cs < 2147483648"
    "108 < length cs \<or> (\<nexists>d rest. cs = d # 0x3a # 0x2f # rest \<and> isdigit d)"
  shows "pathparser_parse path cdp s = Some (0, s)"
proof (cases "108 < length cs")
  case True
  then show ?thesis using strlen_cstr [OF assms(1,2)] by (simp add: pathparser_parse_def)
next
  case False
  have "\<not> pathparser_path_valid_format (kmem s) path"
  proof
    assume v: "pathparser_path_valid_format (kmem s) path"
    then have l: "3 \<le> int (length (take 108 cs))" "isdigit (kmem s path)" "bytes (kmem s) (path + 1) 2 = [0x3a, 0x2f]"
      using memcmp_lit_0_iff [of "kmem s" "path + 1" "[0x3a, 0x2f]"]
      by (auto simp: pathparser_path_valid_format_def strnlen_eq upto_nul_cstr [OF assms(1)] numeral_2_eq_2)
    then obtain a b c rest where cs: "cs = a # b # c # rest"
      by (cases cs; cases "tl cs"; cases "tl (tl cs)") auto
    then have "a = kmem s path" "b = 0x3a" "c = 0x2f"
      using assms(1) l(3) by (auto simp: numeral_2_eq_2)
    then show False using assms(3) False cs l(2) by auto
  qed
  then show ?thesis using False strlen_cstr [OF assms(1,2)]
    by (simp add: pathparser_parse_def pathparser_get_drive_by_path_def)
qed

text \<open>C35: A path of more than 108 characters (and less than \<open>2 ^ 31\<close>), or one that does not start
  with a digit, a colon and a slash, is answered with NULL, and nothing is allocated or written.\<close>

theorem pathparser_parse_refuses:
  assumes "cstr (kmem s) path cs" "length cs < 2147483648"
    "108 < length cs \<or> (\<nexists>d rest. cs = d # 0x3a # 0x2f # rest \<and> isdigit d)"
  shows "pathparser_parse path cdp s = Some (0, s)"
  by (rule parse_refused [OF assms])

lemma boot_heap_spare:
  assumes "kernel_heap s = boot_heap"
  shows "kheap_spare s \<subseteq> span 0x7e00 25600 \<union> span 0x1000000 104857600"
proof
  fix x assume "x \<in> kheap_spare s"
  then consider "x \<in> table_region boot_heap" | i where "i < 25600" "x \<in> span (block_addr boot_heap i) 4096"
    using assms by (auto simp: kheap_spare_def kheap_reserved_def)
  then show "x \<in> span 0x7e00 25600 \<union> span 0x1000000 104857600"
  proof cases
    case 1
    then show ?thesis by (simp add: table_region_def)
  next
    case (2 i)
    have "block_addr boot_heap 0 = 0x1000000" by (simp add: block_addr_def)
    then show ?thesis using 2 in_block_run [OF boot_heap_ok, of 0 25600 x] by auto
  qed
qed

lemmas boot_spare = boot_heap_spare [OF kernel_heap_init]

text \<open>The path \<^verbatim>\<open>0:/ab\<close> at address 0x500, on the heap the kernel boots with.\<close>

definition path_kstate :: kstate where
  "path_kstate = zero_kstate\<lparr>kmem := (\<lambda>_. 0)(0x500 := 0x30, 0x501 := 0x3a, 0x502 := 0x2f, 0x503 := 0x61, 0x504 := 0x62)\<rparr>"

lemma path_kstate_str: "cstr (kmem (kheap_init path_kstate)) 0x500 [0x30, 0x3a, 0x2f, 0x61, 0x62]"
proof -
  obtain m where m: "kheap_init path_kstate = path_kstate\<lparr>kmem := m, kernel_heap := boot_heap\<rparr>"
    "agree_off (table_region boot_heap) (kmem path_kstate) m" using kheap_init_eq by blast
  have "span 0x500 (Suc (length [0x30, 0x3a, 0x2f, 0x61, 0x62 :: u8])) \<inter> table_region boot_heap = {}"
    unfolding table_region_def by (intro span_disjoint) simp_all
  moreover have "cstr (kmem path_kstate) 0x500 [0x30, 0x3a, 0x2f, 0x61, 0x62]" by (simp add: path_kstate_def)
  ultimately have "cstr m 0x500 [0x30, 0x3a, 0x2f, 0x61, 0x62]" 
    by (rule cstr_agree [OF _ m(2), rotated])
  then show ?thesis by (simp add: m(1))
qed

lemma path_kstate_parts: "path_parts [0x61, 0x62] = [[0x61, 0x62]]"
  by (simp add: path_parts_some path_parts_none)

lemma path_kstate_apart: "span 0x500 6 \<inter> kheap_spare (kheap_init path_kstate) = {}"
proof -
  have "span 0x500 6 \<inter> span 0x7e00 25600 = {}" "span 0x500 6 \<inter> span 0x1000000 104857600 = {}"
    by (intro span_disjoint; simp)+
  then show ?thesis using boot_spare [of path_kstate] by blast
qed

lemma path_kstate_facts:
  "kheap_ready (kheap_init path_kstate) (\<lambda>_. None)" "isdigit 0x30" "length [0x61, 0x62 :: u8] \<le> 105"
  "span 0x500 (length [0x61, 0x62 :: u8] + 4) \<inter> kheap_spare (kheap_init path_kstate) = {}"
  "2 * length (path_parts [0x61, 0x62]) + 2 \<le> kheap_avail (kheap_init path_kstate)"
  using kheap_init_avail [of path_kstate] path_kstate_apart by (simp_all add: isdigit_def path_kstate_parts)

theorem pathparser_parse_lists_witness:
  "\<exists>root s' cells. pathparser_parse 0x500 0 (kheap_init path_kstate) = Some (root, s') \<and>
     root_drive (kmem s') root = 0 \<and> chain_strs cells = [[0x61, 0x62]] \<and>
     parts_chain (kmem s') (root_first (kmem s') root) cells"
proof -
  obtain root s' cells where r: "pathparser_parse 0x500 0 (kheap_init path_kstate) = Some (root, s')"
    "root_drive (kmem s') root = tonumericdigit 0x30" "parts_chain (kmem s') (root_first (kmem s') root) cells"
    "chain_strs cells = path_parts [0x61, 0x62]"
    using pathparser_parse_lists [OF path_kstate_facts(1) path_kstate_str path_kstate_facts(2-5), of 0]
    by (elim exE conjE) (rule that, assumption+)
  have "root_drive (kmem s') root = 0" "chain_strs cells = [[0x61, 0x62]]"
    using r(2,4) by (simp_all add: tonumericdigit_def path_kstate_parts)
  with r(1,3) show ?thesis by blast
qed

theorem pathparser_free_releases_witness:
  "\<exists>root s s'. pathparser_parse 0x500 0 (kheap_init path_kstate) = Some (root, s) \<and>
     pathparser_free root s = Some s' \<and> kheap_avail s' = 25600"
proof -
  obtain root s cells where r: "pathparser_parse 0x500 0 (kheap_init path_kstate) = Some (root, s)"
    "chain_strs cells = path_parts [0x61, 0x62]"
    "path_owned s (with_pages (\<lambda>_. None) (root # chain_pages cells)) root cells"
    "kheap_avail s + 1 + 2 * length cells = kheap_avail (kheap_init path_kstate)"
    using pathparser_parse_spec [OF path_kstate_facts(1) path_kstate_str path_kstate_facts(2-5), of 0]
    by (elim exE conjE) (rule that, assumption+)
  have "\<forall>(r, q, x) \<in> set cells. x \<in> set (chain_strs cells)" by (force simp: chain_strs_def)
  then have "\<forall>(r, q, x) \<in> set cells. length x < 4096" using r(2) by (auto simp: path_kstate_parts)
  from pathparser_free_releases [OF r(3) this] obtain s' where "pathparser_free root s = Some s'"
    "kheap_avail s' = kheap_avail s + 1 + 2 * length cells" by blast
  then show ?thesis using r(1,4) kheap_init_avail [of path_kstate] by auto
qed

theorem pathparser_parse_refuses_witness:
  "pathparser_parse 0x501 0 path_kstate = Some (0, path_kstate)"
proof -
  have "cstr (kmem path_kstate) 0x501 [0x3a, 0x2f, 0x61, 0x62]" by (simp add: path_kstate_def)
  from pathparser_parse_refuses [OF this] show ?thesis by simp
qed

end
