(* ===== verification/FAT16.thy ===== *)
theory FAT16
  imports Disk PathParser
begin

text \<open>
  \<^verbatim>\<open>src/fs/fat/fat16.c\<close>: the read-only FAT16 driver. Its packed structures are read from memory at the
  offsets the C layout gives them. Every function that takes a \<^verbatim>\<open>struct disk *\<close> is called with the one
  disk of the system, whose fields are \<open>the_disk\<close> of the state, so that argument is dropped. \<open>None\<close> is
  a call that does not return: a drive that never gets ready, a scan or copy that never meets its
  end mark, a division by a cluster size of zero, a position below zero.
\<close>

abbreviation (input) PEACHOS_FAT16_BAD_SECTOR :: int where "PEACHOS_FAT16_BAD_SECTOR \<equiv> 0xff7"
abbreviation (input) FAT_ITEM_TYPE_DIRECTORY :: u32 where "FAT_ITEM_TYPE_DIRECTORY \<equiv> 0"
abbreviation (input) FAT_ITEM_TYPE_FILE :: u32 where "FAT_ITEM_TYPE_FILE \<equiv> 1"
abbreviation (input) FAT_FILE_READ_ONLY :: u8 where "FAT_FILE_READ_ONLY \<equiv> 0x01"
abbreviation (input) FAT_FILE_SUBDIRECTORY :: u8 where "FAT_FILE_SUBDIRECTORY \<equiv> 0x10"
abbreviation (input) FILE_MODE_READ :: u32 where "FILE_MODE_READ \<equiv> 0"
abbreviation (input) FILE_MODE_WRITE :: u32 where "FILE_MODE_WRITE \<equiv> 1"
abbreviation (input) FILE_MODE_APPEND :: u32 where "FILE_MODE_APPEND \<equiv> 2"
abbreviation (input) FILE_MODE_INVALID :: u32 where "FILE_MODE_INVALID \<equiv> 3"
abbreviation (input) SEEK_SET :: u32 where "SEEK_SET \<equiv> 0"
abbreviation (input) SEEK_CURRENT :: u32 where "SEEK_CURRENT \<equiv> 1"
abbreviation (input) SEEK_END :: u32 where "SEEK_END \<equiv> 2"
abbreviation (input) FILE_STAT_READ_ONLY :: u32 where "FILE_STAT_READ_ONLY \<equiv> 1"

text \<open>\<open>fat16_fs_at\<close> is the address of the static \<^verbatim>\<open>struct filesystem fat16_fs\<close>, and \<open>tmp_filename_at\<close> the
  stack address of the local array of \<^verbatim>\<open>fat16_find_item_in_directory\<close>.\<close>

record fatstate = dstate +
  fat16_fs_at :: u32
  tmp_filename_at :: u32

section \<open>Structures\<close>

text \<open>\<^verbatim>\<open>struct fat_private\<close>, 92 bytes: the 62 bytes of the header, padding, the root directory, three streams.\<close>

definition hdr_sectors_per_cluster :: "mem \<Rightarrow> u32 \<Rightarrow> int" where "hdr_sectors_per_cluster m p = uint (m (p + 13))"
definition hdr_reserved_sectors :: "mem \<Rightarrow> u32 \<Rightarrow> int" where "hdr_reserved_sectors m p = uint (read16 m (p + 14))"
definition hdr_fat_copies :: "mem \<Rightarrow> u32 \<Rightarrow> int" where "hdr_fat_copies m p = uint (m (p + 16))"
definition hdr_root_dir_entries :: "mem \<Rightarrow> u32 \<Rightarrow> int" where "hdr_root_dir_entries m p = uint (read16 m (p + 17))"
definition hdr_sectors_per_fat :: "mem \<Rightarrow> u32 \<Rightarrow> int" where "hdr_sectors_per_fat m p = uint (read16 m (p + 22))"
definition hdr_signature :: "mem \<Rightarrow> u32 \<Rightarrow> u8" where "hdr_signature m p = m (p + 38)"

abbreviation (input) root_directory :: "u32 \<Rightarrow> u32" where "root_directory p \<equiv> p + 64"
definition cluster_read_stream :: "mem \<Rightarrow> u32 \<Rightarrow> u32" where "cluster_read_stream m p = read32 m (p + 80)"
definition fat_read_stream :: "mem \<Rightarrow> u32 \<Rightarrow> u32" where "fat_read_stream m p = read32 m (p + 84)"
definition directory_stream :: "mem \<Rightarrow> u32 \<Rightarrow> u32" where "directory_stream m p = read32 m (p + 88)"

text \<open>\<^verbatim>\<open>struct fat_directory\<close>, 16 bytes.\<close>

definition dir_item :: "mem \<Rightarrow> u32 \<Rightarrow> u32" where "dir_item m d = read32 m d"
definition dir_total :: "mem \<Rightarrow> u32 \<Rightarrow> int" where "dir_total m d = sint (read32 m (d + 4))"
definition dir_ending_sector_pos :: "mem \<Rightarrow> u32 \<Rightarrow> int" where "dir_ending_sector_pos m d = sint (read32 m (d + 12))"

text \<open>\<^verbatim>\<open>struct fat_directory_item\<close>, 32 bytes, packed.\<close>

abbreviation (input) item_filename :: "u32 \<Rightarrow> u32" where "item_filename i \<equiv> i"
abbreviation (input) item_ext :: "u32 \<Rightarrow> u32" where "item_ext i \<equiv> i + 8"
definition item_attribute :: "mem \<Rightarrow> u32 \<Rightarrow> u8" where "item_attribute m i = m (i + 11)"
definition item_high_cluster :: "mem \<Rightarrow> u32 \<Rightarrow> u16" where "item_high_cluster m i = read16 m (i + 20)"
definition item_low_cluster :: "mem \<Rightarrow> u32 \<Rightarrow> u16" where "item_low_cluster m i = read16 m (i + 26)"
definition item_filesize :: "mem \<Rightarrow> u32 \<Rightarrow> u32" where "item_filesize m i = read32 m (i + 28)"

text \<open>\<^verbatim>\<open>struct fat_item\<close>: the union of two pointers, and the type. \<^verbatim>\<open>struct fat_file_descriptor\<close>: item, position.\<close>

definition fitem_ptr :: "mem \<Rightarrow> u32 \<Rightarrow> u32" where "fitem_ptr m f = read32 m f"
definition fitem_type :: "mem \<Rightarrow> u32 \<Rightarrow> u32" where "fitem_type m f = read32 m (f + 4)"
definition fdesc_item :: "mem \<Rightarrow> u32 \<Rightarrow> u32" where "fdesc_item m d = read32 m d"
definition fdesc_pos :: "mem \<Rightarrow> u32 \<Rightarrow> u32" where "fdesc_pos m d = read32 m (d + 4)"

section \<open>Mounting\<close>

definition fat16_init :: "'z fatstate_scheme \<Rightarrow> u32 \<times> 'z fatstate_scheme" where
  "fat16_init s = (fat16_fs_at s, put_kmem (store_bytes (kmem s) (fat16_fs_at s + 24) [0x46, 0x41, 0x54, 0x31, 0x36, 0]) s)"

definition fat16_init_private :: "u32 \<Rightarrow> 'z dstate_scheme \<Rightarrow> 'z dstate_scheme" where
  "fat16_init_private private s =
     (let s1 = put_kmem (memset (kmem s) private 0 92) s;
          (c, s2) = diskstreamer_new (disk_id (the_disk s1)) s1;
          s3 = put_kmem (write32 (kmem s2) (private + 80) c) s2;
          (f, s4) = diskstreamer_new (disk_id (the_disk s3)) s3;
          s5 = put_kmem (write32 (kmem s4) (private + 84) f) s4;
          (d, s6) = diskstreamer_new (disk_id (the_disk s5)) s5
      in put_kmem (write32 (kmem s6) (private + 88) d) s6)"

definition fat16_sector_to_absolute :: "disk \<Rightarrow> int \<Rightarrow> int" where
  "fat16_sector_to_absolute d sector = sector * sector_size d"

text \<open>The loop of \<^verbatim>\<open>fat16_get_total_items_for_directory\<close>: the count \<open>i\<close> passes over deleted entries.\<close>

partial_function (option) count_items :: "device \<Rightarrow> u32 \<Rightarrow> int \<Rightarrow> 'z dstate_scheme \<Rightarrow> (int \<times> 'z dstate_scheme) option" where
  "count_items dev stream i s = do {
     (res, item, s1) \<leftarrow> diskstreamer_read dev stream None 32 s;
     if res \<noteq> PEACHOS_ALL_OK then Some (- EIO, s1)
     else if item ! 0 = 0x00 then Some (i, s1)
     else if item ! 0 = 0xe5 then count_items dev stream i s1
     else count_items dev stream (i + 1) s1
   }"

definition fat16_get_total_items_for_directory ::
  "device \<Rightarrow> u32 \<Rightarrow> 'z dstate_scheme \<Rightarrow> (int \<times> 'z dstate_scheme) option" where
  "fat16_get_total_items_for_directory dev directory_start_sector s =
     (let fat_private = disk_fs_private (the_disk s);
          directory_start_pos = sint (directory_start_sector * word_of_int (sector_size (the_disk s)));
          stream = directory_stream (kmem s) fat_private;
          (res, s1) = diskstreamer_seek stream directory_start_pos s
      in if res \<noteq> PEACHOS_ALL_OK then Some (- EIO, s1) else count_items dev stream 0 s1)"

definition fat16_get_root_directory :: "device \<Rightarrow> u32 \<Rightarrow> u32 \<Rightarrow> 'z dstate_scheme \<Rightarrow> (int \<times> 'z dstate_scheme) option" where
  "fat16_get_root_directory dev fat_private directory s =
     (let m = kmem s;
          root_dir_sector_pos = hdr_fat_copies m fat_private * hdr_sectors_per_fat m fat_private + hdr_reserved_sectors m fat_private;
          root_dir_entries = hdr_root_dir_entries m fat_private;
          root_dir_size = root_dir_entries * 32
      in do {
        (total_items, s1) \<leftarrow> fat16_get_total_items_for_directory dev (word_of_int root_dir_sector_pos) s;
        let (dir, s2) = kzalloc (word_of_int root_dir_size) s1;
        if dir = 0 then Some (- ENOMEM, s2)
        else do {
          let stream = directory_stream (kmem s2) fat_private;
          let (r, s3) = diskstreamer_seek stream (fat16_sector_to_absolute (the_disk s2) root_dir_sector_pos) s2;
          if r \<noteq> PEACHOS_ALL_OK then Some (- EIO, s3)
          else do {
            (r', _, s4) \<leftarrow> diskstreamer_read dev stream (Some dir) root_dir_size s3;
            if r' \<noteq> PEACHOS_ALL_OK then Some (- EIO, s4)
            else do {
              let m1 = write32 (kmem s4) directory dir;
              let m2 = write32 m1 (directory + 4) (word_of_int total_items);
              let m3 = write32 m2 (directory + 8) (word_of_int root_dir_sector_pos);
              let m4 = write32 m3 (directory + 12)
                (word_of_int (root_dir_sector_pos + root_dir_size sdiv sector_size (the_disk s4)));
              Some (0, put_kmem m4 s4)
            }
          }
        }
      })"

definition fat16_resolve :: "device \<Rightarrow> 'z fatstate_scheme \<Rightarrow> (int \<times> 'z fatstate_scheme) option" where
  "fat16_resolve dev s =
     (let (fat_private, s1) = kzalloc 92 s;
          s2 = fat16_init_private fat_private s1;
          s3 = s2\<lparr>the_disk := (the_disk s2)\<lparr>disk_fs_private := fat_private, disk_filesystem := fat16_fs_at s2\<rparr>\<rparr>;
          (stream, s4) = diskstreamer_new (disk_id (the_disk s3)) s3
      in do {
        (res, s5) \<leftarrow>
          (if stream = 0 then Some (- ENOMEM, s4)
           else do {
             (r, _, s5) \<leftarrow> diskstreamer_read dev stream (Some fat_private) 62 s4;
             if r \<noteq> PEACHOS_ALL_OK then Some (- EIO, s5)
             else if hdr_signature (kmem s5) fat_private \<noteq> 0x29 then Some (- EFSNOTUS, s5)
             else do {
               (r', s6) \<leftarrow> fat16_get_root_directory dev fat_private (root_directory fat_private) s5;
               if r' \<noteq> PEACHOS_ALL_OK then Some (- EIO, s6) else Some (0, s6)
             }
           });
        let s6 = (if stream \<noteq> 0 then diskstreamer_close stream s5 else s5);
        Some (if res < 0
              then (res, let s7 = kfree fat_private s6 in s7\<lparr>the_disk := (the_disk s7)\<lparr>disk_fs_private := 0\<rparr>\<rparr>)
              else (res, s6))
      })"

section \<open>Names\<close>

text \<open>\<^verbatim>\<open>fat16_to_proper_string\<close> copies up to a NUL or a space, whatever array that is in, and returns
  the advanced \<^verbatim>\<open>*out\<close>.\<close>

partial_function (option) proper_string_loop :: "mem \<Rightarrow> u32 \<Rightarrow> u32 \<Rightarrow> (mem \<times> u32 \<times> u32) option" where
  "proper_string_loop m out inp =
     (if m inp \<noteq> 0x00 \<and> m inp \<noteq> 0x20 then proper_string_loop (m(out := m inp)) (out + 1) (inp + 1)
      else Some (m, out, inp))"

definition fat16_to_proper_string :: "mem \<Rightarrow> u32 \<Rightarrow> u32 \<Rightarrow> (mem \<times> u32) option" where
  "fat16_to_proper_string m out inp = do {
     (m', out', inp') \<leftarrow> proper_string_loop m out inp;
     Some (if m' inp' = 0x20 then m'(out' := 0x00) else m', out')
   }"

definition fat16_get_full_relative_filename :: "mem \<Rightarrow> u32 \<Rightarrow> u32 \<Rightarrow> int \<Rightarrow> mem option" where
  "fat16_get_full_relative_filename m item out max_len = do {
     let m1 = memset m out 0x00 (word_of_int max_len);
     (m2, out_tmp) \<leftarrow> fat16_to_proper_string m1 out (item_filename item);
     if m2 (item_ext item) \<noteq> 0x00 \<and> m2 (item_ext item) \<noteq> 0x20
     then do {
       (m3, _) \<leftarrow> fat16_to_proper_string (m2(out_tmp := 0x2e)) (out_tmp + 1) (item_ext item);
       Some m3
     }
     else Some m2
   }"

definition fat16_clone_directory_item :: "u32 \<Rightarrow> int \<Rightarrow> 'z kstate_scheme \<Rightarrow> u32 \<times> 'z kstate_scheme" where
  "fat16_clone_directory_item item size_b s =
     (if (word_of_int size_b :: u32) < 32 then (0, s)
      else let (item_copy, s1) = kzalloc (word_of_int size_b) s in
        if item_copy = 0 then (0, s1)
        else (item_copy, put_kmem (memcpy (kmem s1) item_copy item size_b) s1))"

section \<open>Clusters\<close>

definition fat16_get_first_cluster :: "mem \<Rightarrow> u32 \<Rightarrow> u32" where
  "fat16_get_first_cluster m item = ucast (item_high_cluster m item) OR ucast (item_low_cluster m item)"

definition fat16_cluster_to_sector :: "mem \<Rightarrow> u32 \<Rightarrow> int \<Rightarrow> int" where
  "fat16_cluster_to_sector m private cluster =
     dir_ending_sector_pos m (root_directory private) + (cluster - 2) * hdr_sectors_per_cluster m private"

definition fat16_get_first_fat_sector :: "mem \<Rightarrow> u32 \<Rightarrow> u32" where
  "fat16_get_first_fat_sector m private = word_of_int (hdr_reserved_sectors m private)"

definition fat16_get_fat_entry :: "device \<Rightarrow> int \<Rightarrow> 'z dstate_scheme \<Rightarrow> (int \<times> 'z dstate_scheme) option" where
  "fat16_get_fat_entry dev cluster s =
     (let private = disk_fs_private (the_disk s); stream = fat_read_stream (kmem s) private in
      if stream = 0 then Some (-1, s)
      else let fat_table_position = fat16_get_first_fat_sector (kmem s) private * word_of_int (sector_size (the_disk s));
               (res, s1) = diskstreamer_seek stream (sint (fat_table_position * word_of_int (cluster * 2))) s
        in if res < 0 then Some (res, s1)
        else do {
          (res, result, s2) \<leftarrow> diskstreamer_read dev stream None 2 s1;
          Some (if res < 0 then res else uint (result ! 0) + 256 * uint (result ! 1), s2)
        })"

text \<open>The loop of \<^verbatim>\<open>fat16_get_cluster_for_offset\<close>, with \<open>n\<close> clusters to go.\<close>

fun walk_clusters :: "device \<Rightarrow> nat \<Rightarrow> int \<Rightarrow> 'z dstate_scheme \<Rightarrow> (int \<times> 'z dstate_scheme) option" where
  "walk_clusters dev 0 cluster_to_use s = Some (cluster_to_use, s)"
| "walk_clusters dev (Suc n) cluster_to_use s = do {
     (entry, s1) \<leftarrow> fat16_get_fat_entry dev cluster_to_use s;
     if entry = 0xff8 \<or> entry = 0xfff then Some (- EIO, s1)
     else if entry = PEACHOS_FAT16_BAD_SECTOR then Some (- EIO, s1)
     else if entry = 0xff0 \<or> entry = 0xff6 then Some (- EIO, s1)
     else if entry = 0x00 then Some (- EIO, s1)
     else walk_clusters dev n entry s1
   }"

definition cluster_bytes :: "mem \<Rightarrow> u32 \<Rightarrow> disk \<Rightarrow> int" where
  "cluster_bytes m private d = hdr_sectors_per_cluster m private * sector_size d"

definition fat16_get_cluster_for_offset :: "device \<Rightarrow> int \<Rightarrow> int \<Rightarrow> 'z dstate_scheme \<Rightarrow> (int \<times> 'z dstate_scheme) option" where
  "fat16_get_cluster_for_offset dev starting_cluster offset s =
     (let size_of_cluster_bytes = cluster_bytes (kmem s) (disk_fs_private (the_disk s)) (the_disk s) in
      if size_of_cluster_bytes = 0 then None
      else walk_clusters dev (nat (offset sdiv size_of_cluster_bytes)) starting_cluster s)"

partial_function (option) fat16_read_internal_from_stream ::
  "device \<Rightarrow> u32 \<Rightarrow> int \<Rightarrow> int \<Rightarrow> int \<Rightarrow> u32 \<Rightarrow> 'z dstate_scheme \<Rightarrow> (int \<times> 'z dstate_scheme) option" where
  "fat16_read_internal_from_stream dev stream cluster offset n out s = do {
     let private = disk_fs_private (the_disk s);
     let size_of_cluster_bytes = cluster_bytes (kmem s) private (the_disk s);
     (cluster_to_use, s1) \<leftarrow> fat16_get_cluster_for_offset dev cluster offset s;
     if cluster_to_use < 0 then Some (cluster_to_use, s1)
     else do {
       let offset_from_cluster = offset smod size_of_cluster_bytes;
       let starting_sector = fat16_cluster_to_sector (kmem s1) private cluster_to_use;
       let starting_pos = starting_sector * sector_size (the_disk s1) + offset_from_cluster;
       let total_to_read = (if n > size_of_cluster_bytes then size_of_cluster_bytes else n);
       let (res, s2) = diskstreamer_seek stream starting_pos s1;
       if res \<noteq> PEACHOS_ALL_OK then Some (res, s2)
       else do {
         (res, _, s3) \<leftarrow> diskstreamer_read dev stream (Some out) total_to_read s2;
         if res \<noteq> PEACHOS_ALL_OK then Some (res, s3)
         else if n - total_to_read > 0
         then fat16_read_internal_from_stream dev stream cluster (offset + total_to_read) (n - total_to_read)
                (out + word_of_int total_to_read) s3
         else Some (res, s3)
       }
     }
   }"

definition fat16_read_internal :: "device \<Rightarrow> int \<Rightarrow> int \<Rightarrow> int \<Rightarrow> u32 \<Rightarrow> 'z dstate_scheme \<Rightarrow> (int \<times> 'z dstate_scheme) option" where
  "fat16_read_internal dev starting_cluster offset n out s =
     (let stream = cluster_read_stream (kmem s) (disk_fs_private (the_disk s))
      in fat16_read_internal_from_stream dev stream starting_cluster offset n out s)"

section \<open>Items\<close>

definition fat16_free_directory :: "u32 \<Rightarrow> 'z kstate_scheme \<Rightarrow> 'z kstate_scheme" where
  "fat16_free_directory directory s =
     (if directory = 0 then s
      else let s1 = (if dir_item (kmem s) directory \<noteq> 0 then kfree (dir_item (kmem s) directory) s else s)
           in kfree directory s1)"

definition fat16_fat_item_free :: "u32 \<Rightarrow> 'z kstate_scheme \<Rightarrow> 'z kstate_scheme" where
  "fat16_fat_item_free item s =
     (let s1 = (if fitem_type (kmem s) item = FAT_ITEM_TYPE_DIRECTORY then fat16_free_directory (fitem_ptr (kmem s) item) s
                else if fitem_type (kmem s) item = FAT_ITEM_TYPE_FILE then kfree (fitem_ptr (kmem s) item) s
                else s)
      in kfree item s1)"

text \<open>On failure the directory is freed and its address returned all the same.\<close>

definition fat16_load_fat_directory :: "device \<Rightarrow> u32 \<Rightarrow> 'z dstate_scheme \<Rightarrow> (u32 \<times> 'z dstate_scheme) option" where
  "fat16_load_fat_directory dev item s =
     (let fat_private = disk_fs_private (the_disk s) in
      if item_attribute (kmem s) item AND FAT_FILE_SUBDIRECTORY = 0 then Some (0, fat16_free_directory 0 s)
      else let (directory, s1) = kzalloc 16 s in
        if directory = 0 then Some (0, fat16_free_directory 0 s1)
        else do {
          let cluster = sint (fat16_get_first_cluster (kmem s1) item);
          let cluster_sector = fat16_cluster_to_sector (kmem s1) fat_private cluster;
          (total_items, s2) \<leftarrow> fat16_get_total_items_for_directory dev (word_of_int cluster_sector) s1;
          let s3 = put_kmem (write32 (kmem s2) (directory + 4) (word_of_int total_items)) s2;
          let directory_size = dir_total (kmem s3) directory * 32;
          let (items, s4) = kzalloc (word_of_int directory_size) s3;
          let s5 = put_kmem (write32 (kmem s4) directory items) s4;
          if items = 0 then Some (directory, fat16_free_directory directory s5)
          else do {
            (res, s6) \<leftarrow> fat16_read_internal dev cluster 0 directory_size (dir_item (kmem s5) directory) s5;
            Some (directory, if res \<noteq> PEACHOS_ALL_OK then fat16_free_directory directory s6 else s6)
          }
        })"

definition fat16_new_fat_item_for_directory_item :: "device \<Rightarrow> u32 \<Rightarrow> 'z dstate_scheme \<Rightarrow> (u32 \<times> 'z dstate_scheme) option" where
  "fat16_new_fat_item_for_directory_item dev item s =
     (let (f_item, s1) = kzalloc 8 s in
      if f_item = 0 then Some (0, s1)
      else do {
        s3 \<leftarrow> (if item_attribute (kmem s1) item AND FAT_FILE_SUBDIRECTORY \<noteq> 0
               then do {
                 (directory, s2) \<leftarrow> fat16_load_fat_directory dev item s1;
                 Some (put_kmem (write32 (write32 (kmem s2) f_item directory) (f_item + 4) FAT_ITEM_TYPE_DIRECTORY) s2)
               }
               else Some s1);
        let s4 = put_kmem (write32 (kmem s3) (f_item + 4) FAT_ITEM_TYPE_FILE) s3;
        let (copy, s5) = fat16_clone_directory_item item 32 s4;
        Some (f_item, put_kmem (write32 (kmem s5) f_item copy) s5)
      })"

partial_function (option) find_item_loop ::
  "device \<Rightarrow> u32 \<Rightarrow> u32 \<Rightarrow> int \<Rightarrow> u32 \<Rightarrow> 'z fatstate_scheme \<Rightarrow> (u32 \<times> 'z fatstate_scheme) option" where
  "find_item_loop dev directory name i f_item s =
     (if i < dir_total (kmem s) directory
      then do {
        let item = dir_item (kmem s) directory + 32 * word_of_int i;
        m \<leftarrow> fat16_get_full_relative_filename (kmem s) item (tmp_filename_at s) PEACHOS_MAX_PATH;
        let s1 = put_kmem m s;
        if istrncmp m (tmp_filename_at s) name PEACHOS_MAX_PATH = 0
        then do {
          (f_item', s2) \<leftarrow> fat16_new_fat_item_for_directory_item dev (dir_item (kmem s1) directory + 32 * word_of_int i) s1;
          find_item_loop dev directory name (i + 1) f_item' s2
        }
        else find_item_loop dev directory name (i + 1) f_item s1
      }
      else Some (f_item, s))"

definition fat16_find_item_in_directory :: "device \<Rightarrow> u32 \<Rightarrow> u32 \<Rightarrow> 'z fatstate_scheme \<Rightarrow> (u32 \<times> 'z fatstate_scheme) option" where
  "fat16_find_item_in_directory dev directory name s = find_item_loop dev directory name 0 0 s"

text \<open>The loop over the parts below the root directory.\<close>

partial_function (option) descend :: "device \<Rightarrow> u32 \<Rightarrow> u32 \<Rightarrow> 'z fatstate_scheme \<Rightarrow> (u32 \<times> 'z fatstate_scheme) option" where
  "descend dev current_item next_part s =
     (if next_part \<noteq> 0
      then if fitem_type (kmem s) current_item \<noteq> FAT_ITEM_TYPE_DIRECTORY then Some (0, s)
        else do {
          (tmp_item, s1) \<leftarrow> fat16_find_item_in_directory dev (fitem_ptr (kmem s) current_item) (part_str (kmem s) next_part) s;
          let s2 = fat16_fat_item_free current_item s1;
          descend dev tmp_item (part_next (kmem s2) next_part) s2
        }
      else Some (current_item, s))"

definition fat16_get_directory_entry :: "device \<Rightarrow> u32 \<Rightarrow> 'z fatstate_scheme \<Rightarrow> (u32 \<times> 'z fatstate_scheme) option" where
  "fat16_get_directory_entry dev path s =
     (let fat_private = disk_fs_private (the_disk s) in do {
        (root_item, s1) \<leftarrow> fat16_find_item_in_directory dev (root_directory fat_private) (part_str (kmem s) path) s;
        if root_item = 0 then Some (0, s1)
        else descend dev root_item (part_next (kmem s1) path) s1
      })"

section \<open>The file operations\<close>

text \<open>A pointer that carries an error is the negative number cast to a pointer.\<close>

definition fat16_open :: "device \<Rightarrow> u32 \<Rightarrow> u32 \<Rightarrow> 'z fatstate_scheme \<Rightarrow> (u32 \<times> 'z fatstate_scheme) option" where
  "fat16_open dev path mode s =
     (if mode \<noteq> FILE_MODE_READ then Some (word_of_int (- ERDONLY), s)
      else let (descriptor, s1) = kzalloc 8 s in
        if descriptor = 0 then Some (word_of_int (- ENOMEM), s1)
        else do {
          (item, s2) \<leftarrow> fat16_get_directory_entry dev path s1;
          let s3 = put_kmem (write32 (kmem s2) descriptor item) s2;
          if fdesc_item (kmem s3) descriptor = 0 then Some (word_of_int (- EIO), s3)
          else Some (descriptor, put_kmem (write32 (kmem s3) (descriptor + 4) 0) s3)
        })"

definition fat16_free_file_descriptor :: "u32 \<Rightarrow> 'z kstate_scheme \<Rightarrow> 'z kstate_scheme" where
  "fat16_free_file_descriptor desc s = kfree desc (fat16_fat_item_free (fdesc_item (kmem s) desc) s)"

definition fat16_close :: "u32 \<Rightarrow> 'z kstate_scheme \<Rightarrow> int \<times> 'z kstate_scheme" where
  "fat16_close private s = (0, fat16_free_file_descriptor private s)"

text \<open>\<^verbatim>\<open>struct file_stat\<close>: the flags, then the size.\<close>

definition fat16_stat :: "u32 \<Rightarrow> u32 \<Rightarrow> 'z kstate_scheme \<Rightarrow> int \<times> 'z kstate_scheme" where
  "fat16_stat private stat s =
     (let desc_item = fdesc_item (kmem s) private in
      if fitem_type (kmem s) desc_item \<noteq> FAT_ITEM_TYPE_FILE then (- EINVARG, s)
      else let ritem = fitem_ptr (kmem s) desc_item;
               m1 = write32 (kmem s) (stat + 4) (item_filesize (kmem s) ritem);
               m2 = write32 m1 stat 0;
               m3 = (if item_attribute m2 ritem AND FAT_FILE_READ_ONLY \<noteq> 0
                     then write32 m2 stat (read32 m2 stat OR FILE_STAT_READ_ONLY) else m2)
        in (0, put_kmem m3 s))"

fun fat16_read_loop :: "device \<Rightarrow> u32 \<Rightarrow> u32 \<Rightarrow> nat \<Rightarrow> int \<Rightarrow> u32 \<Rightarrow> 'z dstate_scheme \<Rightarrow> (int option \<times> 'z dstate_scheme) option" where
  "fat16_read_loop dev item size_b 0 offset out_ptr s = Some (None, s)"
| "fat16_read_loop dev item size_b (Suc n) offset out_ptr s = do {
     (res, s1) \<leftarrow> fat16_read_internal dev (sint (fat16_get_first_cluster (kmem s) item)) offset (sint size_b) out_ptr s;
     if res < 0 then Some (Some res, s1)
     else fat16_read_loop dev item size_b n (sint (word_of_int offset + size_b)) (out_ptr + size_b) s1
   }"

definition fat16_read :: "device \<Rightarrow> u32 \<Rightarrow> u32 \<Rightarrow> u32 \<Rightarrow> u32 \<Rightarrow> 'z dstate_scheme \<Rightarrow> (int \<times> 'z dstate_scheme) option" where
  "fat16_read dev descriptor size_b nmemb out_ptr s =
     (let item = fitem_ptr (kmem s) (fdesc_item (kmem s) descriptor);
          offset = sint (fdesc_pos (kmem s) descriptor)
      in do {
        (r, s1) \<leftarrow> fat16_read_loop dev item size_b (unat nmemb) offset out_ptr s;
        Some (case r of None \<Rightarrow> sint nmemb | Some res \<Rightarrow> res, s1)
      })"

definition fat16_seek :: "u32 \<Rightarrow> u32 \<Rightarrow> u32 \<Rightarrow> 'z kstate_scheme \<Rightarrow> int \<times> 'z kstate_scheme" where
  "fat16_seek private offset seek_mode s =
     (let desc_item = fdesc_item (kmem s) private in
      if fitem_type (kmem s) desc_item \<noteq> FAT_ITEM_TYPE_FILE then (- EINVARG, s)
      else let ritem = fitem_ptr (kmem s) desc_item in
        if offset \<ge> item_filesize (kmem s) ritem then (- EIO, s)
        else if seek_mode = SEEK_SET then (0, put_kmem (write32 (kmem s) (private + 4) offset) s)
        else if seek_mode = SEEK_END then (- EUNIMP, s)
        else if seek_mode = SEEK_CURRENT
        then (0, put_kmem (write32 (kmem s) (private + 4) (fdesc_pos (kmem s) private + offset)) s)
        else (- EINVARG, s))"

section \<open>Reading within a cluster\<close>

lemma sdiv_smod_small: "0 \<le> k \<Longrightarrow> k < n \<Longrightarrow> k sdiv n = 0 \<and> k smod n = (k :: int)"
  by (simp add: signed_divide_int_def signed_modulo_int_def sgn_if)

lemma fat16_read_internal_eq:
  assumes "ata_disk dev D" "sector_size (the_disk s) = 512"
    and "st = cluster_read_stream (kmem s) (disk_fs_private (the_disk s))" "stream_disk (kmem s) st = disk_at s"
    and "int start = fat16_cluster_to_sector (kmem s) (disk_fs_private (the_disk s)) cl * 512 + offset"
    and "0 \<le> offset" "offset < cluster_bytes (kmem s) (disk_fs_private (the_disk s)) (the_disk s)"
    and "int n \<le> cluster_bytes (kmem s) (disk_fs_private (the_disk s)) (the_disk s)" "0 \<le> cl" "start + n < 2147483648"
    and "span st 8 \<inter> span out n = {}"
  shows "\<exists>L. fat16_read_internal dev cl offset (int n) out s = Some (0,
    put_kmem (store_bytes (set_stream_pos (kmem s) st (int (start + n))) out (disk_bytes D start n)) (s\<lparr>iolog := L\<rparr>))"
proof -
  let ?s2 = "put_kmem (set_stream_pos (kmem s) st (int start)) s"
  have p: "stream_pos (kmem ?s2) st = int start" "stream_disk (kmem ?s2) st = disk_at ?s2"
    using assms(4,10) by (simp_all add: stream_pos_set stream_disk_set put_kmem_def)
  have "span st 8 \<inter> out_region (Some out) n = {}" using assms(11) by (simp add: out_region_def)
  then obtain L where L: "diskstreamer_read dev st (Some out) (int n) ?s2 =
     Some (0, disk_bytes D start n, put_kmem (store_out (Some out) (disk_bytes D start n) (set_stream_pos (kmem ?s2) st (int (start + n)))) (?s2\<lparr>iolog := L\<rparr>))"
    using diskstreamer_read_spec [OF assms(1) p assms(10)] by blast
  then have L': "diskstreamer_read dev st (Some out) (int n) (s\<lparr>kmem := set_stream_pos (kmem s) st (int start)\<rparr>) =
     Some (0, disk_bytes D start n, s\<lparr>iolog := L, kmem := store_bytes (set_stream_pos (kmem s) st (int (start + n))) out (disk_bytes D start n)\<rparr>)"
    by (simp add: put_kmem_def store_out_def set_stream_pos_twice del: of_nat_add)
  note sm = sdiv_smod_small [OF assms(6,7)]
  have walk: "fat16_get_cluster_for_offset dev cl offset s = Some (cl, s)"
    using assms(6,7) sm by (simp add: fat16_get_cluster_for_offset_def Let_def)
  have "fat16_read_internal_from_stream dev st cl offset (int n) out s = Some (0,
    put_kmem (store_bytes (set_stream_pos (kmem s) st (int (start + n))) out (disk_bytes D start n)) (s\<lparr>iolog := L\<rparr>))"
    using assms(8,9) sm
    by (subst fat16_read_internal_from_stream.simps)
      (simp add: walk diskstreamer_seek_def assms(2) assms(5) [symmetric] L' put_kmem_def not_less Let_def del: of_nat_add)
  then show ?thesis by (auto simp: fat16_read_internal_def assms(3))
qed

section \<open>Names of directory entries\<close>

text \<open>\<open>field_run m p xs\<close>: the bytes from \<open>p\<close> up to the first NUL or space are \<open>xs\<close>.\<close>

primrec field_run :: "mem \<Rightarrow> u32 \<Rightarrow> u8 list \<Rightarrow> bool" where
  "field_run m p [] \<longleftrightarrow> m p = 0 \<or> m p = 0x20"
| "field_run m p (c # xs) \<longleftrightarrow> c \<noteq> 0 \<and> c \<noteq> 0x20 \<and> m p = c \<and> field_run m (p + 1) xs"

lemma field_run_agree:
  "agree_off S m m' \<Longrightarrow> length xs < 4294967295 \<Longrightarrow> span p (Suc (length xs)) \<inter> S = {} \<Longrightarrow> field_run m p xs \<Longrightarrow> field_run m' p xs"
proof (induction xs arbitrary: p)
  case Nil
  have "p \<in> span p (Suc 0)" by simp
  moreover have "span p (Suc 0) \<inter> S = {}" using Nil.prems(3) by (simp only: list.size)
  ultimately have "p \<notin> S" by (meson disjoint_iff)
  then have "m' p = m p" by (rule agree_offD [OF Nil.prems(1)])
  then show ?case using Nil.prems(4) by simp
next
  case (Cons c xs)
  have sp: "span p (Suc (Suc (length xs))) = insert p (span (p + 1) (Suc (length xs)))"
    using Cons.prems(2) by (intro span_Suc) simp
  have "m' p = m p" using Cons.prems(3) sp by (intro agree_offD [OF Cons.prems(1)]) auto
  then show ?case using Cons sp by auto
qed

lemma field_run_end: "field_run m p xs \<Longrightarrow> m (p + word_of_nat (length xs)) = 0 \<or> m (p + word_of_nat (length xs)) = 0x20"
proof (induction xs arbitrary: p)
  case (Cons c xs)
  then show ?case using Cons.IH [of "p + 1"] by (simp add: add.assoc)
qed simp

lemma field_run_nonzero: "field_run m p xs \<Longrightarrow> 0 \<notin> set xs"
  by (induction xs arbitrary: p) auto

lemma bytes_append: "bytes m p (a + b) = bytes m p a @ bytes m (p + word_of_nat a) b"
  by (induction a arbitrary: p) (simp_all add: ac_simps)

lemma proper_string_loop_spec:
  "field_run m inp xs \<Longrightarrow> span out (length xs) \<inter> span inp (Suc (length xs)) = {} \<Longrightarrow> length xs < 4294967295 \<Longrightarrow>
   \<exists>m'. proper_string_loop m out inp = Some (m', out + word_of_nat (length xs), inp + word_of_nat (length xs)) \<and>
     bytes m' out (length xs) = xs \<and> agree_off (span out (length xs)) m m'"
proof (induction xs arbitrary: m out inp)
  case Nil
  then show ?case by (subst proper_string_loop.simps) auto
next
  case (Cons c xs)
  let ?m = "m(out := c)"
  have sp: "span out (Suc (length xs)) = insert out (span (out + 1) (length xs))"
    "span inp (Suc (Suc (length xs))) = insert inp (span (inp + 1) (Suc (length xs)))"
    using Cons.prems(3) by (simp_all add: span_Suc)
  have "agree_off {out} m ?m" by (simp add: agree_off_def)
  then have f: "field_run ?m (inp + 1) xs"
    by (rule field_run_agree) (use Cons.prems sp in auto)
  have d: "span (out + 1) (length xs) \<inter> span (inp + 1) (Suc (length xs)) = {}" using Cons.prems(2) sp by auto
  have l: "length xs < 4294967295" using Cons.prems(3) by simp
  obtain m' where m': "proper_string_loop ?m (out + 1) (inp + 1) =
      Some (m', out + 1 + word_of_nat (length xs), inp + 1 + word_of_nat (length xs))"
    "bytes m' (out + 1) (length xs) = xs" "agree_off (span (out + 1) (length xs)) ?m m'"
    using Cons.IH [OF f d l] by blast
  have "m' out = c" using agree_offD [OF m'(3) not_in_span_next] Cons.prems(3) by simp
  moreover have "agree_off (span out (Suc (length xs))) m m'" using m'(3) sp by (auto simp: agree_off_def)
  moreover have "proper_string_loop m out inp = proper_string_loop ?m (out + 1) (inp + 1)"
    using Cons.prems(1) by (subst proper_string_loop.simps) simp
  ultimately show ?case using m' by (simp add: ac_simps)
qed

lemma span_index: "x \<in> span (p + word_of_nat a) k \<Longrightarrow> \<exists>j < k. x = p + word_of_nat (a + j)"
  by (rule exI [of _ "unat (x - (p + word_of_nat a))"]) (simp add: span_def)

text \<open>One field, copied to a place that is zero behind it.\<close>

lemma to_proper_string_spec:
  assumes "field_run m inp xs" "span out k \<inter> span inp (Suc (length xs)) = {}" "length xs < k" "k < 4294967295"
    "\<forall>x \<in> span out k. m x = 0"
  shows "\<exists>m'. fat16_to_proper_string m out inp = Some (m', out + word_of_nat (length xs)) \<and>
     bytes m' out (length xs) = xs \<and> agree_off (span out (length xs)) m m'"
proof -
  have "span out (length xs) \<subseteq> span out k" by (rule span_mono) (use assms(3) in simp)
  then have "span out (length xs) \<inter> span inp (Suc (length xs)) = {}" using assms(2) by blast
  then obtain m' where m': "proper_string_loop m out inp = Some (m', out + word_of_nat (length xs), inp + word_of_nat (length xs))"
     "bytes m' out (length xs) = xs" "agree_off (span out (length xs)) m m'"
    using proper_string_loop_spec [OF assms(1)] assms(3,4) by fastforce
  let ?e = "out + word_of_nat (length xs)"
  have "?e \<notin> span out (length xs)" using assms(3,4) by (simp add: span_def unat_of_nat)
  then have "m' ?e = m ?e" by (rule agree_offD [OF m'(3)])
  moreover have "?e \<in> span out k" using assms(3,4) by (intro span_add_in) simp_all
  ultimately have "m'(?e := 0) = m'" using assms(5) by (auto simp: fun_eq_iff)
  then show ?thesis using m' by (simp add: fat16_to_proper_string_def)
qed

lemma full_relative_filename_spec:
  assumes "field_run m item nm" "field_run m (item + 8) ex" "length nm + length ex < 107"
    "span out 108 \<inter> span item (Suc (length nm)) = {}" "span out 108 \<inter> span (item + 8) (Suc (length ex)) = {}"
  shows "\<exists>m'. fat16_get_full_relative_filename m item out 108 = Some m' \<and>
     cstr m' out (nm @ (if ex = [] then [] else 0x2e # ex)) \<and> agree_off (span out 108) m m'"
proof -
  let ?m1 = "memset m out 0 108" and ?n = "length nm" and ?e = "length ex"
  have a1: "agree_off (span out 108) m ?m1" using memset_agree [of out 108 m 0] by simp
  have z1: "\<forall>x \<in> span out 108. ?m1 x = 0" by (simp add: memset_apply)
  have n1: "field_run ?m1 item nm" "field_run ?m1 (item + 8) ex"
    using assms by (auto intro!: field_run_agree [OF a1])
  have le: "length nm < 108" "(108 :: nat) < 4294967295" using assms(3) by simp_all
  obtain m2 where m2: "fat16_to_proper_string ?m1 out item = Some (m2, out + word_of_nat ?n)"
    "bytes m2 out ?n = nm" "agree_off (span out ?n) ?m1 m2"
    using to_proper_string_spec [OF n1(1) assms(4) le z1] by blast
  have sub: "span out ?n \<subseteq> span out 108" by (rule span_mono) (use le in simp)
  have a2: "agree_off (span out 108) m m2" by (rule agree_off_trans_same [OF a1 agree_off_mono [OF m2(3) sub]])
  have e2: "field_run m2 (item + 8) ex" by (rule field_run_agree [OF a2 _ _ assms(2)]) (use assms(3,5) in auto)
  have z2: "m2 (out + word_of_nat i) = 0" if "?n \<le> i" "i < 108" for i
  proof -
    have "out + word_of_nat i \<notin> span out ?n" using that by (simp add: span_def unat_of_nat)
    then have "m2 (out + word_of_nat i) = ?m1 (out + word_of_nat i)" by (rule agree_offD [OF m2(3)])
    then show ?thesis using z1 that by simp
  qed
  show ?thesis
  proof (cases "ex = []")
    case True
    have "cstr m2 out nm"
      using field_run_nonzero [OF assms(1)] z2 [of ?n] le by (intro cstr_of_bytes [OF m2(2)]) simp_all
    moreover have "m2 (item + 8) = 0 \<or> m2 (item + 8) = 0x20" using e2 True by simp
    then have "fat16_get_full_relative_filename m item out 108 = Some m2"
      using m2(1) by (auto simp: fat16_get_full_relative_filename_def)
    ultimately show ?thesis using True a2 by (intro exI [of _ m2]) simp
  next
    case False
    then obtain c ex' where ex: "ex = c # ex'" by (cases ex) auto
    then have first: "m2 (item + 8) \<noteq> 0" "m2 (item + 8) \<noteq> 0x20" using e2 by auto
    let ?d = "out + word_of_nat ?n" and ?k = "107 - ?n"
    let ?m3 = "m2(?d := 0x2e)"
    have d1: "?d + 1 = out + word_of_nat (Suc ?n)" by (simp add: ac_simps)
    have sub2: "span (?d + 1) ?k \<subseteq> span out 108"
      unfolding d1 using span_offset [of "Suc ?n" 108 out] le by (simp add: Suc_diff_Suc)
    have din: "?d \<in> span out 108" using le by (intro span_add_in) simp_all
    have a3: "agree_off (span out 108) m ?m3" using a2 din by (auto simp: agree_off_def)
    have e3: "field_run ?m3 (item + 8) ex" by (rule field_run_agree [OF a3 _ _ assms(2)]) (use assms(3,5) in auto)
    have z3: "\<forall>x \<in> span (?d + 1) ?k. ?m3 x = 0"
    proof
      fix x assume x: "x \<in> span (?d + 1) ?k"
      define j where "j = unat (x - (?d + 1))"
      have j: "j < ?k" using x by (simp add: span_def j_def)
      have "word_of_nat j = x - (?d + 1)" by (simp add: j_def)
      then have xe: "x = out + word_of_nat (Suc ?n + j)" by (simp add: ac_simps)
      have "x \<noteq> ?d" using x not_in_span_next [of ?k ?d] by auto
      moreover have "m2 x = 0" unfolding xe using z2 [of "Suc ?n + j"] j by simp
      ultimately show "?m3 x = 0" by simp
    qed
    have sep: "span (?d + 1) ?k \<inter> span (item + 8) (Suc ?e) = {}" using sub2 assms(5) by blast
    have lt: "?e < ?k" "?k < 4294967295" using assms(3) by simp_all
    obtain m4 where m4: "fat16_to_proper_string ?m3 (?d + 1) (item + 8) = Some (m4, ?d + 1 + word_of_nat ?e)"
      "bytes m4 (?d + 1) ?e = ex" "agree_off (span (?d + 1) ?e) ?m3 m4"
      using to_proper_string_spec [OF e3 sep lt z3] by blast
    have "span (?d + 1) ?e \<subseteq> span out 108" using sub2 span_mono [of ?e ?k "?d + 1"] lt by force
    then have a4: "agree_off (span out 108) m m4" using agree_off_trans_same [OF a3 agree_off_mono [OF m4(3)]] by blast
    have low: "m4 (out + word_of_nat i) = ?m3 (out + word_of_nat i)" if "i \<le> ?n" for i
    proof (rule agree_offD [OF m4(3)], rule notI)
      assume "out + word_of_nat i \<in> span (?d + 1) ?e"
      then obtain j where "j < ?e" "out + word_of_nat i = out + word_of_nat (Suc ?n + j)"
        unfolding d1 using span_index [of _ out "Suc ?n" ?e] by blast
      then have e: "(word_of_nat i :: u32) = word_of_nat (Suc ?n + j)" by (simp only: add_left_cancel)
      have b: "i < 4294967296" "Suc ?n + j < 4294967296" using that le lt \<open>j < ?e\<close> by linarith+
      have "i = Suc ?n + j" using e word_of_nat_eq_bounded [OF b] by blast
      then show False using that by simp
    qed
    have b1: "bytes m4 out ?n = nm"
    proof -
      have "m4 (out + word_of_nat i) = m2 (out + word_of_nat i)" if "i < ?n" for i
        using low [of i] that le by (simp add: word_of_nat_eq_bounded)
      then have "bytes m4 out ?n = bytes m2 out ?n" by (simp add: bytes_eq_iff)
      then show ?thesis using m2(2) by simp
    qed
    have b2: "m4 ?d = 0x2e" using low [of ?n] by simp
    have "bytes m4 out (?n + Suc ?e) = nm @ 0x2e # ex" unfolding bytes_append bytes.simps b1 b2 m4(2) ..
    moreover have "m4 (out + word_of_nat (?n + Suc ?e)) = 0"
    proof -
      let ?x = "?d + 1 + word_of_nat ?e"
      have "?x \<notin> span (?d + 1) ?e" using lt by (simp add: span_def unat_of_nat)
      then have "m4 ?x = ?m3 ?x" by (rule agree_offD [OF m4(3)])
      also have "\<dots> = 0" using z3 by (rule bspec) (use lt in \<open>intro span_add_in; simp\<close>)
      finally show ?thesis by (simp add: ac_simps)
    qed
    ultimately have "cstr m4 out (nm @ 0x2e # ex)"
      using field_run_nonzero [OF assms(1)] field_run_nonzero [OF assms(2)] by (intro cstr_of_bytes) simp_all
    then show ?thesis using False a4 m2(1) m4(1) first
      by (intro exI [of _ m4]) (simp add: fat16_get_full_relative_filename_def)
  qed
qed

section \<open>Reading a file inside its first cluster\<close>

text \<open>What the reads of \<open>fat16_read\<close> depend on: the sizes, the start of the data, and the stream.\<close>

definition reads_at :: "'z dstate_scheme \<Rightarrow> u32 \<Rightarrow> u32 \<Rightarrow> int \<Rightarrow> int \<Rightarrow> bool" where
  "reads_at s item st cb base \<longleftrightarrow>
     (let private = disk_fs_private (the_disk s); cl = sint (fat16_get_first_cluster (kmem s) item) in
      sector_size (the_disk s) = 512 \<and> cluster_read_stream (kmem s) private = st \<and>
      stream_disk (kmem s) st = disk_at s \<and> cluster_bytes (kmem s) private (the_disk s) = cb \<and>
      fat16_cluster_to_sector (kmem s) private cl * 512 = base \<and> 0 \<le> cl)"

lemma reads_at_agree:
  assumes "agree_off S (kmem s) m" "span (disk_fs_private (the_disk s)) 92 \<inter> S = {}"
    "span item 32 \<inter> S = {}" "span (st + 4) 4 \<inter> S = {}" "reads_at s item st cb base"
  shows "reads_at (s\<lparr>kmem := m, iolog := L\<rparr>) item st cb base"
proof -
  let ?p = "disk_fs_private (the_disk s)"
  have sub: "span (?p + 13) 1 \<subseteq> span ?p 92" "span (?p + 76) 4 \<subseteq> span ?p 92" "span (?p + 80) 4 \<subseteq> span ?p 92"
    "span (item + 20) 2 \<subseteq> span item 32" "span (item + 26) 2 \<subseteq> span item 32"
    using word_offset_in [of 13 13 1 92 ?p] word_offset_in [of 76 76 4 92 ?p] word_offset_in [of 80 80 4 92 ?p]
      word_offset_in [of 20 20 2 32 item] word_offset_in [of 26 26 2 32 item] by simp_all
  have "?p + 13 \<in> span (?p + 13) 1" by simp
  then have "m (?p + 13) = kmem s (?p + 13)" using assms(2) sub(1) by (intro agree_offD [OF assms(1)]) blast
  moreover have "read32 m (?p + 76) = read32 (kmem s) (?p + 76)" "read32 m (?p + 80) = read32 (kmem s) (?p + 80)"
    "read32 m (st + 4) = read32 (kmem s) (st + 4)"
    using assms(2,4) sub by (blast intro: read32_agree [OF assms(1)])+
  moreover have "read16 m (item + 20) = read16 (kmem s) (item + 20)" "read16 m (item + 26) = read16 (kmem s) (item + 26)"
    using assms(3) sub by (blast intro: read16_agree [OF assms(1)])+
  ultimately have "m (?p + 13) = kmem s (?p + 13)" "read32 m (76 + ?p) = read32 (kmem s) (76 + ?p)"
    "read32 m (?p + 80) = read32 (kmem s) (?p + 80)" "read32 m (st + 4) = read32 (kmem s) (st + 4)"
    "read16 m (item + 20) = read16 (kmem s) (item + 20)" "read16 m (item + 26) = read16 (kmem s) (item + 26)"
    by (simp_all only: add.commute)
  then show ?thesis using assms(5)
    by (auto simp: reads_at_def Let_def fat16_get_first_cluster_def item_high_cluster_def item_low_cluster_def
      cluster_read_stream_def stream_disk_def cluster_bytes_def hdr_sectors_per_cluster_def fat16_cluster_to_sector_def
      dir_ending_sector_pos_def)
qed

lemma sint_add_small:
  assumes "0 \<le> k" "k + uint (w :: u32) < 2147483648"
  shows "sint (word_of_int k + w) = k + uint w"
proof -
  have "word_of_int k + w = word_of_int (k + uint w)" by simp
  moreover have "- 2147483648 \<le> k + uint w" using assms(1) uint_ge_0 [of w] by linarith
  ultimately show ?thesis using assms signed_take_bit_int_eq_self [of 31 "k + uint w"]
    by (simp only: sint_sbintrunc') simp
qed

lemma fat16_read_loop_spec:
  assumes "ata_disk dev D"
  shows "reads_at s item st cb base \<Longrightarrow> int start = base + offset \<Longrightarrow> 0 \<le> offset \<Longrightarrow>
    (n = 0 \<or> offset + int ((n - 1) * unat sz) < cb) \<Longrightarrow> uint sz \<le> cb \<Longrightarrow> offset + int (n * unat sz) < 2147483648 \<Longrightarrow>
    start + n * unat sz < 2147483648 \<Longrightarrow>
    span (disk_fs_private (the_disk s)) 92 \<inter> (span st 4 \<union> span out (n * unat sz)) = {} \<Longrightarrow>
    span item 32 \<inter> (span st 4 \<union> span out (n * unat sz)) = {} \<Longrightarrow>
    span (st + 4) 4 \<inter> span out (n * unat sz) = {} \<Longrightarrow> span st 4 \<inter> span out (n * unat sz) = {} \<Longrightarrow>
    \<exists>m L. fat16_read_loop dev item sz n offset out s = Some (None, s\<lparr>kmem := m, iolog := L\<rparr>) \<and>
      bytes m out (n * unat sz) = disk_bytes D start (n * unat sz) \<and>
      agree_off (span st 4 \<union> span out (n * unat sz)) (kmem s) m"
proof (induction n arbitrary: s start offset out)
  case 0
  show ?case by (intro exI [of _ "kmem s"] exI [of _ "iolog s"]) (simp add: disk_bytes_def)
next
  case (Suc n)
  let ?z = "unat sz" and ?cl = "sint (fat16_get_first_cluster (kmem s) item)"
  let ?T = "span out (Suc n * ?z)"
  have r: "sector_size (the_disk s) = 512" "st = cluster_read_stream (kmem s) (disk_fs_private (the_disk s))"
    "stream_disk (kmem s) st = disk_at s" "cluster_bytes (kmem s) (disk_fs_private (the_disk s)) (the_disk s) = cb"
    "fat16_cluster_to_sector (kmem s) (disk_fs_private (the_disk s)) ?cl * 512 = base" "0 \<le> ?cl"
    using Suc.prems(1) by (auto simp: reads_at_def Let_def)
  have off: "offset < cb" "0 \<le> int (n * ?z)" "int ?z \<le> cb" 
  proof -
    have "offset + int (n * ?z) < cb" using Suc.prems(4) by (simp del: of_nat_mult of_nat_unat)
    moreover show "0 \<le> int (n * ?z)" by (rule of_nat_0_le_iff)
    ultimately show "offset < cb" by linarith
    show "int ?z \<le> cb" using Suc.prems(5) by simp
  qed
  have tot: "Suc n * ?z = ?z + n * ?z" by simp
  have b0: "start + ?z < 2147483648" "int ?z < 2147483648 - offset" using Suc.prems(6,7) unfolding tot by linarith+
  have e: "int start = fat16_cluster_to_sector (kmem s) (disk_fs_private (the_disk s)) ?cl * 512 + offset"
    using Suc.prems(2) r(5) by simp
  have cbs: "offset < cluster_bytes (kmem s) (disk_fs_private (the_disk s)) (the_disk s)"
    "int ?z \<le> cluster_bytes (kmem s) (disk_fs_private (the_disk s)) (the_disk s)" using off r(4) by simp_all
  have "span st 8 \<subseteq> span st 4 \<union> span (st + 4) 4" by (rule span8_halves)
  then have st8: "span st 8 \<inter> span out ?z = {}" using Suc.prems(10,11) span_mono [of ?z "Suc n * ?z" out] by auto
  obtain L where L: "fat16_read_internal dev ?cl offset (int ?z) out s = Some (0,
      put_kmem (store_bytes (set_stream_pos (kmem s) st (int (start + ?z))) out (disk_bytes D start ?z)) (s\<lparr>iolog := L\<rparr>))"
    using fat16_read_internal_eq [OF assms r(1,2,3) e Suc.prems(3) cbs r(6) b0(1) st8] by blast
  define m1 where "m1 = store_bytes (set_stream_pos (kmem s) st (int (start + ?z))) out (disk_bytes D start ?z)"
  have len: "length (disk_bytes D start ?z) \<le> 4294967296" using b0(1) by simp
  have a1: "agree_off (span st 4 \<union> span out ?z) (kmem s) m1"
    using agree_off_trans [OF set_stream_pos_agree store_bytes_agree [OF len]] by (simp add: m1_def)
  have b1: "bytes m1 out ?z = disk_bytes D start ?z" unfolding m1_def using bytes_store_bytes [OF len] by simp
  have lt: "Suc n * ?z < 4294967296" using Suc.prems(7) by linarith
  have sub1: "span out ?z \<subseteq> ?T" by (rule span_mono) simp
  have sub2: "span (out + sz) (n * ?z) \<subseteq> ?T" by (rule word_offset_in [of _ ?z]) (use lt in simp_all)
  let ?s = "s\<lparr>kmem := m1, iolog := L\<rparr>"
  have ra: "reads_at ?s item st cb base"
  proof (rule reads_at_agree [OF a1 _ _ _ Suc.prems(1)])
    show "span (disk_fs_private (the_disk s)) 92 \<inter> (span st 4 \<union> span out ?z) = {}" using Suc.prems(8) sub1 by blast
    show "span item 32 \<inter> (span st 4 \<union> span out ?z) = {}" using Suc.prems(9) sub1 by blast
    show "span (st + 4) 4 \<inter> (span st 4 \<union> span out ?z) = {}" using Suc.prems(10) sub1 fields_apart(2) [of st] by blast
  qed
  have nxt: "sint (word_of_int offset + sz) = offset + int ?z"
    using sint_add_small [OF Suc.prems(3), of sz] b0(2) by simp
  have "\<exists>m L'. fat16_read_loop dev item sz n (offset + int ?z) (out + sz) ?s = Some (None, ?s\<lparr>kmem := m, iolog := L'\<rparr>) \<and>
      bytes m (out + sz) (n * ?z) = disk_bytes D (start + ?z) (n * ?z) \<and>
      agree_off (span st 4 \<union> span (out + sz) (n * ?z)) (kmem ?s) m"
  proof (rule Suc.IH [OF ra])
    show "int (start + ?z) = base + (offset + int ?z)" using Suc.prems(2) by simp
    show "0 \<le> offset + int ?z" using Suc.prems(3) by simp
    show "n = 0 \<or> offset + int ?z + int ((n - 1) * ?z) < cb" using Suc.prems(4) by (cases n) (simp_all add: add.assoc)
    show "uint sz \<le> cb" by (rule Suc.prems(5))
    show "offset + int ?z + int (n * ?z) < 2147483648" using Suc.prems(6) by (simp add: add.assoc)
    show "start + ?z + n * ?z < 2147483648" using Suc.prems(7) by (simp add: add.assoc)
  qed (use Suc.prems(8-11) sub2 in \<open>simp; blast\<close>)+
  then obtain m L' where m: "fat16_read_loop dev item sz n (offset + int ?z) (out + sz) ?s = Some (None, ?s\<lparr>kmem := m, iolog := L'\<rparr>)"
    "bytes m (out + sz) (n * ?z) = disk_bytes D (start + ?z) (n * ?z)"
    "agree_off (span st 4 \<union> span (out + sz) (n * ?z)) m1 m" by auto
  have sep: "span out ?z \<inter> (span st 4 \<union> span (out + sz) (n * ?z)) = {}"
  proof -
    have "x \<notin> span (out + sz) (n * ?z)" if xin: "x \<in> span out ?z" for x
    proof
      assume "x \<in> span (out + sz) (n * ?z)"
      then obtain j where j: "j < n * ?z" "x = out + word_of_nat (?z + j)" using span_index [of x out ?z "n * ?z"] by (auto simp del: of_nat_add)
      obtain i where i: "i < ?z" "x = out + word_of_nat i" using span_index [of x out 0 ?z] xin by (auto simp del: of_nat_add)
      have "(word_of_nat i :: u32) = word_of_nat (?z + j)" using i(2) j(2) by (simp only: add_left_cancel)
      moreover have "i < 4294967296" "?z + j < 4294967296" using i(1) j(1) lt tot by linarith+
      ultimately have "i = ?z + j" using word_of_nat_eq_bounded by blast
      then show False using i(1) by simp
    qed
    then show ?thesis using Suc.prems(11) sub1 by blast
  qed
  have "bytes m out ?z = disk_bytes D start ?z" using bytes_agree [OF m(3) sep] len b1 by simp
  then have "bytes m out (Suc n * ?z) = disk_bytes D start (Suc n * ?z)"
    unfolding tot bytes_append disk_bytes_append using m(2) by simp
  moreover have "agree_off (span st 4 \<union> ?T) (kmem s) m"
    using agree_off_mono [OF agree_off_trans [OF a1 m(3)]] sub1 sub2 by (meson Un_least Un_mono order_refl sup_ge1 sup_ge2 subset_trans)
  moreover have "fat16_read_loop dev item sz (Suc n) offset out s = Some (None, s\<lparr>kmem := m, iolog := L'\<rparr>)"
  proof -
    have "sint sz = int ?z" using sint_add_small [of 0 sz] b0(2) Suc.prems(3) by simp
    moreover have "s\<lparr>iolog := L, kmem := m1\<rparr> = ?s" by simp
    ultimately show ?thesis using L m(1)
      by (simp only: fat16_read_loop.simps m1_def [symmetric] put_kmem_def nxt) simp
  qed
  ultimately show ?case by blast
qed

section \<open>Properties\<close>

text \<open>The name \<^verbatim>\<open>fat16_get_full_relative_filename\<close> builds is the run of bytes at the name field up to the
  first space or NUL, then, if the extension field does not start with one, a dot and the run at the
  extension field. The runs are not cut at 8 and 3 bytes: a name of eight characters runs on into the
  extension.\<close>

theorem fat16_filename_joins:
  assumes "field_run m item nm" "field_run m (item + 8) ex" "length nm + length ex < 107"
    "span out 108 \<inter> span item (Suc (length nm)) = {}" "span out 108 \<inter> span (item + 8) (Suc (length ex)) = {}"
  shows "\<exists>m'. fat16_get_full_relative_filename m item out 108 = Some m' \<and>
     cstr m' out (nm @ (if ex = [] then [] else 0x2e # ex)) \<and> agree_off (span out 108) m m'"
  by (rule full_relative_filename_spec [OF assms])

text \<open>The entry \<^verbatim>\<open>LONGNAME.TXT\<close> is found under the name \<^verbatim>\<open>LONGNAMETXT.TXT\<close>.\<close>

definition longname_entry :: mem where
  "longname_entry = store_bytes (\<lambda>_. 0) 0x2000
     [0x4c, 0x4f, 0x4e, 0x47, 0x4e, 0x41, 0x4d, 0x45, 0x54, 0x58, 0x54, 0x20]"

theorem fat16_filename_joins_witness:
  "\<exists>m'. fat16_get_full_relative_filename longname_entry 0x2000 0x3000 108 = Some m' \<and>
     cstr m' 0x3000 [0x4c, 0x4f, 0x4e, 0x47, 0x4e, 0x41, 0x4d, 0x45, 0x54, 0x58, 0x54, 0x2e, 0x54, 0x58, 0x54]"
proof -
  let ?nm = "[0x4c, 0x4f, 0x4e, 0x47, 0x4e, 0x41, 0x4d, 0x45, 0x54, 0x58, 0x54] :: u8 list"
  have "field_run longname_entry 0x2000 ?nm" "field_run longname_entry (0x2000 + 8) [0x54, 0x58, 0x54]"
    by (simp_all add: longname_entry_def)
  moreover have "length ?nm + length [0x54, 0x58, 0x54 :: u8] < 107" by simp
  moreover have "span (0x3000 :: u32) 108 \<inter> span 0x2000 (Suc (length ?nm)) = {}"
    "span (0x3000 :: u32) 108 \<inter> span (0x2000 + 8) (Suc (length [0x54, 0x58, 0x54 :: u8])) = {}"
    by (intro span_disjoint_sym; simp)+
  ultimately have "\<exists>m'. fat16_get_full_relative_filename longname_entry 0x2000 0x3000 108 = Some m' \<and>
     cstr m' 0x3000 (?nm @ (if [0x54, 0x58, 0x54 :: u8] = [] then [] else 0x2e # [0x54, 0x58, 0x54])) \<and>
     agree_off (span 0x3000 108) longname_entry m'"
    by (rule fat16_filename_joins)
  then show ?thesis by auto
qed

text \<open>C27: On a drive that behaves as documented, \<^verbatim>\<open>fat16_read\<close> of \<open>n\<close>
  elements, all of which start inside the first cluster of the file, copies the bytes of the disk from the position of
  the descriptor on and returns \<open>n\<close>. It writes only the buffer and the position of the stream, so the
  position of the descriptor stays where it was. An element that starts in the cluster and ends behind it is read from
  the sectors that follow on the disk, not from the next cluster of the chain.\<close>

theorem fat16_read_copies:
  assumes "ata_disk dev D" "reads_at s (fitem_ptr (kmem s) (fdesc_item (kmem s) desc)) st cb base"
    "sint (fdesc_pos (kmem s) desc) = pos" "0 \<le> pos" "int start = base + pos"
    "n = 0 \<or> pos + int ((unat n - 1) * unat sz) < cb" "uint sz \<le> cb"
    "pos + int (unat n * unat sz) < 2147483648" "start + unat n * unat sz < 2147483648"
    "span (disk_fs_private (the_disk s)) 92 \<inter> (span st 4 \<union> span out (unat n * unat sz)) = {}"
    "span (fitem_ptr (kmem s) (fdesc_item (kmem s) desc)) 32 \<inter> (span st 4 \<union> span out (unat n * unat sz)) = {}"
    "span (st + 4) 4 \<inter> span out (unat n * unat sz) = {}" "span st 4 \<inter> span out (unat n * unat sz) = {}"
  shows "\<exists>s'. fat16_read dev desc sz n out s = Some (sint n, s') \<and>
     bytes (kmem s') out (unat n * unat sz) = disk_bytes D start (unat n * unat sz) \<and>
     agree_off (span st 4 \<union> span out (unat n * unat sz)) (kmem s) (kmem s') \<and> the_disk s' = the_disk s"
proof -
  have "unat n = 0 \<or> pos + int ((unat n - 1) * unat sz) < cb" using assms(6) by auto
  then obtain m L where "fat16_read_loop dev (fitem_ptr (kmem s) (fdesc_item (kmem s) desc)) sz (unat n) pos out s
      = Some (None, s\<lparr>kmem := m, iolog := L\<rparr>)"
    "bytes m out (unat n * unat sz) = disk_bytes D start (unat n * unat sz)"
    "agree_off (span st 4 \<union> span out (unat n * unat sz)) (kmem s) m"
    using fat16_read_loop_spec [OF assms(1,2,5,4) _ assms(7-13)] by blast
  then show ?thesis
    by (intro exI [of _ "s\<lparr>kmem := m, iolog := L\<rparr>"]) (simp add: fat16_read_def assms(3) del: of_nat_mult)
qed

text \<open>\<^verbatim>\<open>fat16_seek\<close> on a file: an offset at or behind the end of the file is refused with -EIO,
  \<^verbatim>\<open>SEEK_SET\<close> and \<^verbatim>\<open>SEEK_CURRENT\<close> set or advance the position and write nothing else, \<^verbatim>\<open>SEEK_END\<close> and other
  modes are refused without effect, and so is any seek on a directory. For \<^verbatim>\<open>SEEK_CURRENT\<close> the offset is
  checked and not the sum, so a position behind the end is reached.\<close>

theorem fat16_seek_cases:
  assumes "item = fdesc_item (kmem s) desc" "sz = item_filesize (kmem s) (fitem_ptr (kmem s) item)"
  shows "(fitem_type (kmem s) item \<noteq> FAT_ITEM_TYPE_FILE \<longrightarrow> fat16_seek desc off mode s = (- EINVARG, s)) \<and>
    (fitem_type (kmem s) item = FAT_ITEM_TYPE_FILE \<longrightarrow>
      (sz \<le> off \<longrightarrow> fat16_seek desc off mode s = (- EIO, s)) \<and>
      (off < sz \<longrightarrow>
        (mode \<noteq> SEEK_SET \<and> mode \<noteq> SEEK_CURRENT \<longrightarrow>
           fat16_seek desc off mode s = (if mode = SEEK_END then - EUNIMP else - EINVARG, s)) \<and>
        (mode = SEEK_SET \<or> mode = SEEK_CURRENT \<longrightarrow>
          (\<exists>m. fat16_seek desc off mode s = (0, put_kmem m s) \<and> agree_off (span (desc + 4) 4) (kmem s) m \<and>
             fdesc_item m desc = item \<and>
             fdesc_pos m desc = (if mode = SEEK_SET then off else fdesc_pos (kmem s) desc + off)))))"
proof -
  have "agree_off (span (desc + 4) 4) (kmem s) (write32 (kmem s) (desc + 4) v)" for v by (rule write32_agree)
  moreover have "fdesc_item (write32 (kmem s) (desc + 4) v) desc = fdesc_item (kmem s) desc" for v
    by (simp add: fdesc_item_def mem_simps fields_apart)
  moreover have "fdesc_pos (write32 (kmem s) (desc + 4) v) desc = v" for v by (simp add: fdesc_pos_def)
  ultimately show ?thesis using assms by (auto simp: fat16_seek_def Let_def not_le)
qed

lemma fat16_get_fat_entry_eq:
  assumes "ata_disk dev D" "st = fat_read_stream (kmem s) (disk_fs_private (the_disk s))" "st \<noteq> 0"
    "stream_disk (kmem s) st = disk_at s" "sector_size (the_disk s) = 512" "0 \<le> cluster"
    "int q = hdr_reserved_sectors (kmem s) (disk_fs_private (the_disk s)) * 512 * (cluster * 2)" "q + 2 < 2147483648"
  shows "\<exists>L. fat16_get_fat_entry dev cluster s =
    Some (uint (D (q div 512) ! (q mod 512)) + 256 * uint (D ((q + 1) div 512) ! ((q + 1) mod 512)),
      put_kmem (set_stream_pos (kmem s) st (int (q + 2))) (s\<lparr>iolog := L\<rparr>))"
proof -
  let ?s2 = "put_kmem (set_stream_pos (kmem s) st (int q)) s"
  have p: "stream_pos (kmem ?s2) st = int q" "stream_disk (kmem ?s2) st = disk_at ?s2"
    using assms(4,8) by (simp_all add: stream_pos_set stream_disk_set put_kmem_def)
  have "span st 8 \<inter> out_region None 2 = {}" by (simp add: out_region_def)
  then obtain L where "diskstreamer_read dev st None (int 2) ?s2 =
     Some (0, disk_bytes D q 2, put_kmem (store_out None (disk_bytes D q 2) (set_stream_pos (kmem ?s2) st (int (q + 2)))) (?s2\<lparr>iolog := L\<rparr>))"
    using diskstreamer_read_spec [OF assms(1) p assms(8)] by blast
  then have L: "diskstreamer_read dev st None (int 2) ?s2 =
     Some (0, disk_bytes D q 2, put_kmem (set_stream_pos (kmem ?s2) st (int (q + 2))) (?s2\<lparr>iolog := L\<rparr>))"
    by (simp add: store_out_def)
  have "fat16_get_first_fat_sector (kmem s) (disk_fs_private (the_disk s)) * word_of_int (sector_size (the_disk s))
      * word_of_int (cluster * 2) = word_of_int (int q)"
    unfolding assms(5,7) fat16_get_first_fat_sector_def by simp
  moreover have "sint (word_of_int (int q) :: u32) = int q" using sint_small [of q] assms(8) by simp
  ultimately have pos: "sint (fat16_get_first_fat_sector (kmem s) (disk_fs_private (the_disk s)) * word_of_int (sector_size (the_disk s))
      * word_of_int (cluster * 2)) = int q" by (simp only:)
  have db: "disk_bytes D q 2 = [D (q div 512) ! (q mod 512), D ((q + 1) div 512) ! ((q + 1) mod 512)]"
    by (simp add: disk_bytes_def numeral_2_eq_2)
  show ?thesis
    unfolding fat16_get_fat_entry_def Let_def assms(2) [symmetric] pos diskstreamer_seek_def
    using assms(3) L db by (intro exI [of _ L]) (simp add: put_kmem_def set_stream_pos_twice del: of_nat_add)
qed

text \<open>On a drive that behaves as documented, \<^verbatim>\<open>fat16_get_fat_entry\<close> returns the 16-bit value the disk
  holds at the product of the FAT's byte position and twice the cluster number, and writes only the
  position of its stream. An entry of the FAT is at the sum of the two.\<close>

theorem fat16_get_fat_entry_reads:
  assumes "ata_disk dev D" "st = fat_read_stream (kmem s) (disk_fs_private (the_disk s))" "st \<noteq> 0"
    "stream_disk (kmem s) st = disk_at s" "sector_size (the_disk s) = 512" "0 \<le> cluster"
    "int q = hdr_reserved_sectors (kmem s) (disk_fs_private (the_disk s)) * 512 * (cluster * 2)" "q + 2 < 2147483648"
  shows "\<exists>s'. fat16_get_fat_entry dev cluster s =
      Some (uint (D (q div 512) ! (q mod 512)) + 256 * uint (D ((q + 1) div 512) ! ((q + 1) mod 512)), s') \<and>
    agree_off (span st 4) (kmem s) (kmem s')"
proof -
  obtain L where "fat16_get_fat_entry dev cluster s =
    Some (uint (D (q div 512) ! (q mod 512)) + 256 * uint (D ((q + 1) div 512) ! ((q + 1) mod 512)),
      put_kmem (set_stream_pos (kmem s) st (int (q + 2))) (s\<lparr>iolog := L\<rparr>))"
    using fat16_get_fat_entry_eq [OF assms] by blast
  then show ?thesis
    by (intro exI [of _ "put_kmem (set_stream_pos (kmem s) st (int (q + 2))) (s\<lparr>iolog := L\<rparr>)"])
      (simp add: put_kmem_def set_stream_pos_agree)
qed

text \<open>\<^verbatim>\<open>fat16_open\<close> refuses every mode but reading with -ERDONLY, before it allocates anything.\<close>

theorem fat16_open_readonly:
  "mode \<noteq> FILE_MODE_READ \<Longrightarrow> fat16_open dev path mode s = Some (word_of_int (- ERDONLY), s)"
  by (simp add: fat16_open_def)

text \<open>A mounted volume: one sector per cluster, one reserved sector, the data area from sector 10 on, and an
  open file of 600 bytes in cluster 2 at position 510.\<close>

definition demo_fat_mem :: mem where
  "demo_fat_mem = (\<lambda>_. 0)(0x1000D := 1, 0x1000E := 1, 0x1004C := 10, 0x10052 := 2, 0x10054 := 0x10, 0x10056 := 2,
     0x20005 := 3, 0x20015 := 3, 0x30001 := 1, 0x30002 := 3, 0x30004 := 0xfe, 0x30005 := 1,
     0x30101 := 2, 0x30102 := 3, 0x30104 := 1, 0x3021A := 2, 0x3021C := 0x58, 0x3021D := 2)"

definition demo_fatstate :: fatstate where
  "demo_fatstate = \<lparr>kmem = demo_fat_mem, video_mem = 0, terminal_row = 0, terminal_col = 0, kernel_heap = boot_heap,
     current_directory = 0, cr3 = 0, iolog = [],
     the_disk = \<lparr>disk_type = 0, sector_size = 512, disk_id = 0, disk_filesystem = 0, disk_fs_private = 0x10000\<rparr>,
     disk_at = 0x300, fat16_fs_at = 0, tmp_filename_at = 0x40000\<rparr>"

lemma demo_fat_fields:
  "hdr_sectors_per_cluster demo_fat_mem 0x10000 = 1" "hdr_reserved_sectors demo_fat_mem 0x10000 = 1"
  "cluster_read_stream demo_fat_mem 0x10000 = 0x20000" "fat_read_stream demo_fat_mem 0x10000 = 0x20010"
  "stream_disk demo_fat_mem 0x20000 = 0x300" "stream_disk demo_fat_mem 0x20010 = 0x300"
  "fdesc_item demo_fat_mem 0x30000 = 0x30100" "fdesc_pos demo_fat_mem 0x30000 = 510"
  "fitem_ptr demo_fat_mem 0x30100 = 0x30200" "fitem_type demo_fat_mem 0x30100 = 1"
  "fat16_get_first_cluster demo_fat_mem 0x30200 = 2" "item_filesize demo_fat_mem 0x30200 = 600"
  by (simp_all add: demo_fat_mem_def hdr_sectors_per_cluster_def hdr_reserved_sectors_def dir_ending_sector_pos_def
      cluster_read_stream_def fat_read_stream_def stream_disk_def fdesc_item_def fdesc_pos_def fitem_ptr_def fitem_type_def
      fat16_get_first_cluster_def item_high_cluster_def item_low_cluster_def item_filesize_def read16_def read32_def)

lemma demo_fat_ending: "dir_ending_sector_pos demo_fat_mem 0x10040 = 10"
proof -
  have "read32 demo_fat_mem (0x10040 + 12) = 10" by (simp add: read32_def demo_fat_mem_def)
  then show ?thesis by (simp only: dir_ending_sector_pos_def) simp
qed

lemma demo_reads_at: "reads_at demo_fatstate 0x30200 0x20000 512 5120"
  by (simp add: reads_at_def demo_fatstate_def demo_fat_fields demo_fat_ending cluster_bytes_def fat16_cluster_to_sector_def)

text \<open>Four bytes from 510 on: two of the file's cluster, two of the next sector.\<close>

theorem fat16_read_copies_witness:
  "\<exists>s'. fat16_read demo_drive 0x30000 4 1 0x50000 demo_fatstate = Some (1, s') \<and>
     bytes (kmem s') 0x50000 4 = [10, 0, 11, 0]"
proof -
  have k: "kmem demo_fatstate = demo_fat_mem" "disk_fs_private (the_disk demo_fatstate) = 0x10000"
    by (simp_all add: demo_fatstate_def)
  have "\<exists>s'. fat16_read demo_drive 0x30000 4 1 0x50000 demo_fatstate = Some (sint (1 :: u32), s') \<and>
     bytes (kmem s') 0x50000 (unat (1 :: u32) * unat (4 :: u32)) = disk_bytes demo_sectors 5630 (unat (1 :: u32) * unat (4 :: u32)) \<and>
     agree_off (span 0x20000 4 \<union> span 0x50000 (unat (1 :: u32) * unat (4 :: u32))) (kmem demo_fatstate) (kmem s') \<and>
     the_disk s' = the_disk demo_fatstate"
    by (rule fat16_read_copies [OF demo_drive_ok, where pos = 510 and base = 5120 and cb = 512])
      (simp_all add: k demo_fat_fields demo_reads_at Int_Un_distrib span_disjoint span_disjoint_sym)
  moreover have "disk_bytes demo_sectors 5630 4 = [10, 0, 11, 0]"
    by (simp add: disk_bytes_def demo_sectors_def word_bytes_replicate_nth upt_rec)
  ultimately show ?thesis by auto
qed

theorem fat16_seek_cases_witness:
  "fat16_seek 0x30000 600 SEEK_SET demo_fatstate = (- EIO, demo_fatstate) \<and>
   (\<exists>m. fat16_seek 0x30000 599 SEEK_CURRENT demo_fatstate = (0, put_kmem m demo_fatstate) \<and> fdesc_pos m 0x30000 = 1109)"
proof -
  have k: "kmem demo_fatstate = demo_fat_mem" by (simp add: demo_fatstate_def)
  note w = fat16_seek_cases [of "0x30100" demo_fatstate "0x30000" 600]
  have "fat16_seek 0x30000 600 SEEK_SET demo_fatstate = (- EIO, demo_fatstate)"
    using w [of 600 SEEK_SET] by (simp add: k demo_fat_fields)
  moreover have "\<exists>m. fat16_seek 0x30000 599 SEEK_CURRENT demo_fatstate = (0, put_kmem m demo_fatstate) \<and> fdesc_pos m 0x30000 = 1109"
    using w [of 599 SEEK_CURRENT] by (auto simp: k demo_fat_fields)
  ultimately show ?thesis ..
qed

text \<open>The entry of cluster 2 is at byte 516, in sector 1; the routine reads sector 4.\<close>

theorem fat16_get_fat_entry_reads_witness:
  "\<exists>s'. fat16_get_fat_entry demo_drive 2 demo_fatstate = Some (4, s') \<and> disk_bytes demo_sectors 516 2 = [1, 0]"
proof -
  have k: "kmem demo_fatstate = demo_fat_mem" "disk_fs_private (the_disk demo_fatstate) = 0x10000"
    "sector_size (the_disk demo_fatstate) = 512" "disk_at demo_fatstate = 0x300"
    by (simp_all add: demo_fatstate_def)
  have "\<exists>s'. fat16_get_fat_entry demo_drive 2 demo_fatstate =
      Some (uint (demo_sectors (2048 div 512) ! (2048 mod 512)) + 256 * uint (demo_sectors ((2048 + 1) div 512) ! ((2048 + 1) mod 512)), s') \<and>
    agree_off (span 0x20010 4) (kmem demo_fatstate) (kmem s')"
    by (rule fat16_get_fat_entry_reads [OF demo_drive_ok]) (simp_all add: k demo_fat_fields)
  moreover have "demo_sectors 4 ! 0 = 4" "demo_sectors 4 ! 1 = 0" "disk_bytes demo_sectors 516 2 = [1, 0]"
    by (simp_all add: disk_bytes_def demo_sectors_def word_bytes_replicate_nth upt_rec)
  ultimately show ?thesis by auto
qed

theorem fat16_open_readonly_witness:
  "fat16_open demo_drive 0 FILE_MODE_WRITE demo_fatstate = Some (word_of_int (- ERDONLY), demo_fatstate)"
  by (rule fat16_open_readonly) simp

end
