(* ===== verification/Slots.thy ===== *)
theory Slots
  imports Prelude
begin

text \<open>
  Tables of pointers in memory (the file systems, the file descriptors, the processes, the allocations of a
  process) and the scan for the first empty entry that several components share.
\<close>

section \<open>Reading and writing entries\<close>

definition slot :: "mem \<Rightarrow> u32 \<Rightarrow> nat \<Rightarrow> u32" where
  "slot m a i = read32 m (a + 4 * word_of_nat i)"

definition set_slot :: "mem \<Rightarrow> u32 \<Rightarrow> nat \<Rightarrow> u32 \<Rightarrow> mem" where
  "set_slot m a i v = write32 m (a + 4 * word_of_nat i) v"

definition slots :: "mem \<Rightarrow> u32 \<Rightarrow> nat \<Rightarrow> u32 list" where
  "slots m a n = map (slot m a) [0..<n]"

lemma length_slots [simp]: "length (slots m a n) = n"
  by (simp add: slots_def)

lemma nth_slots [simp]: "i < n \<Longrightarrow> slots m a n ! i = slot m a i"
  by (simp add: slots_def)

lemma slot_set_slot:
  assumes "unat a + 4 * n \<le> 4294967296" "i < n" "j < n"
  shows "slot (set_slot m a i v) a j = (if j = i then v else slot m a j)"
  using array_span_disjoint [OF assms(1,3,2)] by (simp add: slot_def set_slot_def mem_simps)

lemma slots_set_slot:
  assumes "unat a + 4 * n \<le> 4294967296" "i < n"
  shows "slots (set_slot m a i v) a n = (slots m a n)[i := v]"
  by (rule nth_equalityI) (use slot_set_slot [OF assms] in \<open>auto simp: nth_list_update\<close>)

lemma set_slot_agree:
  assumes "unat a + 4 * n \<le> 4294967296" "i < n"
  shows "agree_off (span a (4 * n)) m (set_slot m a i v)"
  unfolding set_slot_def by (rule agree_off_mono [OF write32_agree array_span_subset [OF assms]])

lemma slot_agree:
  assumes "unat a + 4 * n \<le> 4294967296" "i < n" "agree_off S m m'" "span a (4 * n) \<inter> S = {}"
  shows "slot m' a i = slot m a i"
  unfolding slot_def using array_span_subset [OF assms(1,2)] assms(4) by (intro read32_agree [OF assms(3)]) blast

lemma slots_agree:
  assumes "unat a + 4 * n \<le> 4294967296" "agree_off S m m'" "span a (4 * n) \<inter> S = {}"
  shows "slots m' a n = slots m a n"
  by (rule nth_equalityI) (use slot_agree [OF assms(1) _ assms(2,3)] in simp_all)

section \<open>The first empty entry\<close>

fun zero_slot :: "mem \<Rightarrow> u32 \<Rightarrow> nat \<Rightarrow> nat \<Rightarrow> nat option" where
  "zero_slot m a i 0 = None"
| "zero_slot m a i (Suc n) = (if slot m a i = 0 then Some i else zero_slot m a (Suc i) n)"

lemma zero_slot_Some:
  "zero_slot m a i n = Some k \<longleftrightarrow> i \<le> k \<and> k < i + n \<and> slot m a k = 0 \<and> (\<forall>j. i \<le> j \<and> j < k \<longrightarrow> slot m a j \<noteq> 0)"
proof (induction n arbitrary: i)
  case (Suc n)
  show ?case
  proof (cases "slot m a i = 0")
    case True
    then show ?thesis by (auto simp: le_less)
  next
    case False
    then have "(\<forall>j. i \<le> j \<and> j < k \<longrightarrow> slot m a j \<noteq> 0) \<longleftrightarrow> (\<forall>j. Suc i \<le> j \<and> j < k \<longrightarrow> slot m a j \<noteq> 0)"
      by (metis Suc_leD le_antisym not_less_eq_eq)
    then show ?thesis using Suc.IH [of "Suc i"] False by (auto simp: Suc_le_eq le_less)
  qed
qed auto

lemma zero_slot_None: "zero_slot m a i n = None \<longleftrightarrow> (\<forall>j. i \<le> j \<and> j < i + n \<longrightarrow> slot m a j \<noteq> 0)"
proof (induction n arbitrary: i)
  case (Suc n)
  have "(\<forall>j. i \<le> j \<and> j < i + Suc n \<longrightarrow> slot m a j \<noteq> 0) \<longleftrightarrow>
    slot m a i \<noteq> 0 \<and> (\<forall>j. Suc i \<le> j \<and> j < Suc i + n \<longrightarrow> slot m a j \<noteq> 0)"
    by (metis Suc_leD add_Suc_right add_Suc_shift le_antisym le_add1 less_add_Suc1 not_less_eq_eq)
  then show ?case using Suc.IH [of "Suc i"] by simp
qed auto

lemma zero_slot_first:
  "zero_slot m a 0 n = Some k \<longleftrightarrow> k < n \<and> slots m a n ! k = 0 \<and> (\<forall>j < k. slots m a n ! j \<noteq> 0)"
  by (cases "k < n") (auto simp: zero_slot_Some)

lemma zero_slot_full: "zero_slot m a 0 n = None \<longleftrightarrow> 0 \<notin> set (slots m a n)"
  by (auto simp: zero_slot_None slots_def)

lemma first_zero:
  assumes "0 \<in> set (xs :: u32 list)"
  obtains i where "i < length xs" "xs ! i = 0" "\<forall>j < i. xs ! j \<noteq> 0"
proof -
  let ?i = "LEAST i. i < length xs \<and> xs ! i = 0"
  have ex: "\<exists>i. i < length xs \<and> xs ! i = 0" using assms by (auto simp: in_set_conv_nth)
  have "\<forall>j < ?i. xs ! j \<noteq> 0"
  proof (intro allI impI)
    fix j assume j: "j < ?i"
    then have "j < length xs" using LeastI_ex [OF ex] by simp
    then show "xs ! j \<noteq> 0" using not_less_Least [OF j] by blast
  qed
  then show ?thesis using that LeastI_ex [OF ex] by blast
qed

end
