(* ===== verification/File.thy ===== *)
theory File
  imports FAT16 Slots
begin

text \<open>
  \<^verbatim>\<open>src/fs/file.c\<close>, the virtual file system, and \<^verbatim>\<open>disk_search_and_init\<close> of \<^verbatim>\<open>src/disk/disk.c\<close>, which
  calls it. The tables of file systems and of open descriptors are arrays of pointers in memory, at the
  link-time addresses \<open>filesystems_at\<close> and \<open>file_descriptors_at\<close>; a \<^verbatim>\<open>struct file_descriptor\<close> is sixteen bytes
  of kernel heap. The program has one \<^verbatim>\<open>struct filesystem\<close>, \<^verbatim>\<open>fat16_fs\<close>, with constant function pointers: a
  call through a file system at any other address is undefined, \<open>None\<close> here. The fields of \<^verbatim>\<open>struct disk\<close>
  are read from \<open>the_disk\<close>.
\<close>

abbreviation (input) PEACHOS_MAX_FILESYSTEMS :: nat where "PEACHOS_MAX_FILESYSTEMS \<equiv> 12"
abbreviation (input) PEACHOS_MAX_FILE_DESCRIPTORS :: nat where "PEACHOS_MAX_FILE_DESCRIPTORS \<equiv> 512"
abbreviation (input) PEACHOS_DISK_TYPE_REAL :: u32 where "PEACHOS_DISK_TYPE_REAL \<equiv> 0"

record filestate = fatstate +
  filesystems_at :: u32
  file_descriptors_at :: u32

section \<open>File systems\<close>

text \<open>The index of the slot found stands for its address.\<close>

definition fs_get_free_filesystem :: "'z filestate_scheme \<Rightarrow> nat option" where
  "fs_get_free_filesystem s = zero_slot (kmem s) (filesystems_at s) 0 PEACHOS_MAX_FILESYSTEMS"

text \<open>\<open>None\<close>: no slot is free, the message is printed and the routine spins for ever.\<close>

definition fs_insert_filesystem :: "u32 \<Rightarrow> 'z filestate_scheme \<Rightarrow> 'z filestate_scheme option" where
  "fs_insert_filesystem filesystem s =
     (case fs_get_free_filesystem s of
        None \<Rightarrow> None
      | Some fs \<Rightarrow> Some (put_kmem (set_slot (kmem s) (filesystems_at s) fs filesystem) s))"

definition fs_static_load :: "'z filestate_scheme \<Rightarrow> 'z filestate_scheme option" where
  "fs_static_load s = (let (fs, s1) = fat16_init s in fs_insert_filesystem fs s1)"

definition fs_load :: "'z filestate_scheme \<Rightarrow> 'z filestate_scheme option" where
  "fs_load s = fs_static_load (put_kmem (memset (kmem s) (filesystems_at s) 0 48) s)"

definition fs_init :: "'z filestate_scheme \<Rightarrow> 'z filestate_scheme option" where
  "fs_init s = fs_load (put_kmem (memset (kmem s) (file_descriptors_at s) 0 2048) s)"

text \<open>The calls through the function pointers of a \<^verbatim>\<open>struct filesystem\<close>.\<close>

definition call_resolve :: "device \<Rightarrow> u32 \<Rightarrow> 'z filestate_scheme \<Rightarrow> (int \<times> 'z filestate_scheme) option" where
  "call_resolve dev fs s = (if fs = fat16_fs_at s then fat16_resolve dev s else None)"

definition call_open :: "device \<Rightarrow> u32 \<Rightarrow> u32 \<Rightarrow> u32 \<Rightarrow> 'z filestate_scheme \<Rightarrow> (u32 \<times> 'z filestate_scheme) option" where
  "call_open dev fs path mode s = (if fs = fat16_fs_at s then fat16_open dev path mode s else None)"

definition call_read :: "device \<Rightarrow> u32 \<Rightarrow> u32 \<Rightarrow> u32 \<Rightarrow> u32 \<Rightarrow> u32 \<Rightarrow> 'z filestate_scheme \<Rightarrow> (int \<times> 'z filestate_scheme) option" where
  "call_read dev fs private sz nmemb out s = (if fs = fat16_fs_at s then fat16_read dev private sz nmemb out s else None)"

definition call_seek :: "u32 \<Rightarrow> u32 \<Rightarrow> u32 \<Rightarrow> u32 \<Rightarrow> 'z filestate_scheme \<Rightarrow> (int \<times> 'z filestate_scheme) option" where
  "call_seek fs private offset mode s = (if fs = fat16_fs_at s then Some (fat16_seek private offset mode s) else None)"

definition call_stat :: "u32 \<Rightarrow> u32 \<Rightarrow> u32 \<Rightarrow> 'z filestate_scheme \<Rightarrow> (int \<times> 'z filestate_scheme) option" where
  "call_stat fs private stat s = (if fs = fat16_fs_at s then Some (fat16_stat private stat s) else None)"

definition call_close :: "u32 \<Rightarrow> u32 \<Rightarrow> 'z filestate_scheme \<Rightarrow> (int \<times> 'z filestate_scheme) option" where
  "call_close fs private s = (if fs = fat16_fs_at s then Some (fat16_close private s) else None)"

text \<open>The loop of \<^verbatim>\<open>fs_resolve\<close>, from slot \<open>i\<close> on with \<open>n\<close> slots to go.\<close>

fun fs_resolve_loop :: "device \<Rightarrow> nat \<Rightarrow> nat \<Rightarrow> 'z filestate_scheme \<Rightarrow> (u32 \<times> 'z filestate_scheme) option" where
  "fs_resolve_loop dev i 0 s = Some (0, s)"
| "fs_resolve_loop dev i (Suc n) s =
     (let fs = slot (kmem s) (filesystems_at s) i in
      if fs = 0 then fs_resolve_loop dev (Suc i) n s
      else do {
        (res, s1) \<leftarrow> call_resolve dev fs s;
        if res = 0 then Some (slot (kmem s1) (filesystems_at s1) i, s1)
        else fs_resolve_loop dev (Suc i) n s1
      })"

definition fs_resolve :: "device \<Rightarrow> 'z filestate_scheme \<Rightarrow> (u32 \<times> 'z filestate_scheme) option" where
  "fs_resolve dev s = fs_resolve_loop dev 0 PEACHOS_MAX_FILESYSTEMS s"

definition disk_search_and_init :: "device \<Rightarrow> 'z filestate_scheme \<Rightarrow> 'z filestate_scheme option" where
  "disk_search_and_init dev s = do {
     let s1 = s\<lparr>the_disk := \<lparr>disk_type = PEACHOS_DISK_TYPE_REAL, sector_size = PEACHOS_SECTOR_SIZE, disk_id = 0,
       disk_filesystem = 0, disk_fs_private = 0\<rparr>\<rparr>;
     (fs, s2) \<leftarrow> fs_resolve dev s1;
     Some (s2\<lparr>the_disk := (the_disk s2)\<lparr>disk_filesystem := fs\<rparr>\<rparr>)
   }"

section \<open>Descriptors\<close>

definition fd_index :: "mem \<Rightarrow> u32 \<Rightarrow> int" where "fd_index m d = sint (read32 m d)"
definition fd_filesystem :: "mem \<Rightarrow> u32 \<Rightarrow> u32" where "fd_filesystem m d = read32 m (d + 4)"
definition fd_private :: "mem \<Rightarrow> u32 \<Rightarrow> u32" where "fd_private m d = read32 m (d + 8)"

definition file_free_descriptor :: "u32 \<Rightarrow> 'z filestate_scheme \<Rightarrow> 'z filestate_scheme" where
  "file_free_descriptor desc s =
     kfree desc (put_kmem (write32 (kmem s) (file_descriptors_at s + 4 * word_of_int (fd_index (kmem s) desc - 1)) 0) s)"

text \<open>The descriptor stored through \<^verbatim>\<open>desc_out\<close> is a result, 0 if nothing was stored.\<close>

definition file_new_descriptor :: "'z filestate_scheme \<Rightarrow> int \<times> u32 \<times> 'z filestate_scheme" where
  "file_new_descriptor s =
     (case zero_slot (kmem s) (file_descriptors_at s) 0 PEACHOS_MAX_FILE_DESCRIPTORS of
        None \<Rightarrow> (- ENOMEM, 0, s)
      | Some i \<Rightarrow>
          let (desc, s1) = kzalloc 16 s;
              m = write32 (kmem s1) desc (word_of_nat (i + 1))
          in (0, desc, put_kmem (set_slot m (file_descriptors_at s1) i desc) s1))"

definition file_get_descriptor :: "int \<Rightarrow> 'z filestate_scheme \<Rightarrow> u32" where
  "file_get_descriptor fd s =
     (if fd \<le> 0 \<or> fd \<ge> int PEACHOS_MAX_FILE_DESCRIPTORS then 0
      else slot (kmem s) (file_descriptors_at s) (nat (fd - 1)))"

definition file_get_mode_by_string :: "mem \<Rightarrow> u32 \<Rightarrow> u32" where
  "file_get_mode_by_string m str =
     (if strncmp_lit m str (lit ''r'') 1 = 0 then FILE_MODE_READ
      else if strncmp_lit m str (lit ''w'') 1 = 0 then FILE_MODE_WRITE
      else if strncmp_lit m str (lit ''a'') 1 = 0 then FILE_MODE_APPEND
      else FILE_MODE_INVALID)"

section \<open>The file operations\<close>

text \<open>The result before the negative codes are turned into 0.\<close>

definition fopen_result :: "device \<Rightarrow> u32 \<Rightarrow> u32 \<Rightarrow> 'z filestate_scheme \<Rightarrow> (int \<times> 'z filestate_scheme) option" where
  "fopen_result dev filename mode_str s = do {
     (root_path, s1) \<leftarrow> pathparser_parse filename 0 s;
     if root_path = 0 then Some (- EINVARG, s1)
     else if root_first (kmem s1) root_path = 0 then Some (- EINVARG, s1)
     else if disk_get (root_drive (kmem s1) root_path) s1 = 0 then Some (- EIO, s1)
     else if disk_filesystem (the_disk s1) = 0 then Some (- EIO, s1)
     else do {
       let mode = file_get_mode_by_string (kmem s1) mode_str;
       if mode = FILE_MODE_INVALID then Some (- EINVARG, s1)
       else do {
         (descriptor_private_data, s2) \<leftarrow>
           call_open dev (disk_filesystem (the_disk s1)) (root_first (kmem s1) root_path) mode s1;
         if sint descriptor_private_data < 0 then Some (sint descriptor_private_data, s2)
         else do {
           let (res, desc, s3) = file_new_descriptor s2;
           if res < 0 then Some (res, s3)
           else do {
             let m1 = write32 (kmem s3) (desc + 4) (disk_filesystem (the_disk s3));
             let m2 = write32 m1 (desc + 8) descriptor_private_data;
             let m3 = write32 m2 (desc + 12) (disk_at s3);
             Some (fd_index m3 desc, put_kmem m3 s3)
           }
         }
       }
     }
   }"

definition fopen :: "device \<Rightarrow> u32 \<Rightarrow> u32 \<Rightarrow> 'z filestate_scheme \<Rightarrow> (int \<times> 'z filestate_scheme) option" where
  "fopen dev filename mode_str s = do {
     (res, s1) \<leftarrow> fopen_result dev filename mode_str s;
     Some (if res < 0 then 0 else res, s1)
   }"

definition fstat :: "int \<Rightarrow> u32 \<Rightarrow> 'z filestate_scheme \<Rightarrow> (int \<times> 'z filestate_scheme) option" where
  "fstat fd stat s =
     (let desc = file_get_descriptor fd s in
      if desc = 0 then Some (- EIO, s)
      else call_stat (fd_filesystem (kmem s) desc) (fd_private (kmem s) desc) stat s)"

definition fclose :: "int \<Rightarrow> 'z filestate_scheme \<Rightarrow> (int \<times> 'z filestate_scheme) option" where
  "fclose fd s =
     (let desc = file_get_descriptor fd s in
      if desc = 0 then Some (- EIO, s)
      else do {
        (res, s1) \<leftarrow> call_close (fd_filesystem (kmem s) desc) (fd_private (kmem s) desc) s;
        Some (res, if res = PEACHOS_ALL_OK then file_free_descriptor desc s1 else s1)
      })"

definition fseek :: "int \<Rightarrow> int \<Rightarrow> u32 \<Rightarrow> 'z filestate_scheme \<Rightarrow> (int \<times> 'z filestate_scheme) option" where
  "fseek fd offset whence s =
     (let desc = file_get_descriptor fd s in
      if desc = 0 then Some (- EIO, s)
      else call_seek (fd_filesystem (kmem s) desc) (fd_private (kmem s) desc) (word_of_int offset) whence s)"

definition fread :: "device \<Rightarrow> u32 \<Rightarrow> u32 \<Rightarrow> u32 \<Rightarrow> int \<Rightarrow> 'z filestate_scheme \<Rightarrow> (int \<times> 'z filestate_scheme) option" where
  "fread dev ptr sz nmemb fd s =
     (if sz = 0 \<or> nmemb = 0 \<or> fd < 1 then Some (- EINVARG, s)
      else let desc = file_get_descriptor fd s in
        if desc = 0 then Some (- EINVARG, s)
        else call_read dev (fd_filesystem (kmem s) desc) (fd_private (kmem s) desc) sz nmemb ptr s)"

section \<open>The table of descriptors\<close>

definition fd_table :: "'z filestate_scheme \<Rightarrow> u32 list" where
  "fd_table s = slots (kmem s) (file_descriptors_at s) 512"

text \<open>The table is static and the heap is in order; every open descriptor is a page of its own that
  carries its number.\<close>

definition fd_room :: "'z filestate_scheme \<Rightarrow> (u32 \<Rightarrow> nat option) \<Rightarrow> bool" where
  "fd_room s A \<longleftrightarrow> kheap_ready s A \<and> unat (file_descriptors_at s) + 2048 \<le> 4294967296 \<and>
     heap_apart s A (span (file_descriptors_at s) 2048)"

definition fd_ok :: "'z filestate_scheme \<Rightarrow> (u32 \<Rightarrow> nat option) \<Rightarrow> bool" where
  "fd_ok s A \<longleftrightarrow> fd_room s A \<and>
     (\<forall>i < 512. fd_table s ! i \<noteq> 0 \<longrightarrow>
        A (fd_table s ! i) = Some 1 \<and> fd_index (kmem s) (fd_table s ! i) = int i + 1)"

lemma fd_table_put_slot:
  assumes "unat (file_descriptors_at s) + 2048 \<le> 4294967296" "i < 512"
  shows "fd_table (put_kmem (set_slot m (file_descriptors_at s) i v) s)
    = (slots m (file_descriptors_at s) 512)[i := v]"
  using slots_set_slot [of "file_descriptors_at s" 512 i m v] assms by (simp add: fd_table_def put_kmem_def)

lemma file_descriptors_at_put [simp]: "file_descriptors_at (put_kmem m s) = file_descriptors_at s"
  by (simp add: put_kmem_def)

lemma fd_index_agree: "agree_off S m m' \<Longrightarrow> span d 4 \<inter> S = {} \<Longrightarrow> fd_index m' d = fd_index m d"
  by (simp add: fd_index_def read32_agree)

lemma file_new_descriptor_full: "0 \<notin> set (fd_table s) \<Longrightarrow> file_new_descriptor s = (- ENOMEM, 0, s)"
  using zero_slot_full [of "kmem s" "file_descriptors_at s" 512] by (simp add: file_new_descriptor_def fd_table_def)

lemma file_new_descriptor_step:
  assumes "fd_room s A" "0 < kheap_avail s" "i < 512" "fd_table s ! i = 0" "\<forall>j < i. fd_table s ! j \<noteq> 0"
  obtains d s' where "file_new_descriptor s = (0, d, s')" "d \<noteq> 0" "A d = None" "fd_room s' (A(d \<mapsto> 1))"
    "fd_table s' = (fd_table s)[i := d]" "fd_index (kmem s') d = int i + 1" "kheap_avail s' + 1 = kheap_avail s"
    "grows (span (file_descriptors_at s) 2048) s s' (A(d \<mapsto> 1))"
    "\<forall>q. A q = Some 1 \<longrightarrow> fd_index (kmem s') q = fd_index (kmem s) q"
proof -
  let ?a = "file_descriptors_at s"
  have r: "kheap_ready s A" "unat ?a + 2048 \<le> 4294967296" "heap_apart s A (span ?a 2048)"
    using assms(1) by (auto simp: fd_room_def)
  have z: "zero_slot (kmem s) ?a 0 512 = Some i" using assms(3-5) by (simp add: zero_slot_first fd_table_def)
  have "(16 :: u32) \<noteq> 0" "unat (16 :: u32) \<le> 4096" by simp_all
  then obtain d s1 where d: "kzalloc 16 s = (d, s1)" "d \<noteq> 0" "unat d mod 4096 = 0" "A d = None"
    "grows {} s s1 (A(d \<mapsto> 1))" "kheap_avail s1 + 1 = kheap_avail s" "span d 4096 \<subseteq> kheap_spare s"
    "kheap_spare s1 \<inter> span d 4096 = {}"
    using kzalloc_grows [OF r(1) _ _ assms(2)] by metis
  note g = growsD [OF d(5)]
  have a1: "file_descriptors_at s1 = ?a" by (subst g(4)) simp
  let ?m1 = "write32 (kmem s1) d (word_of_nat (i + 1))"
  let ?m2 = "set_slot ?m1 ?a i d"
  let ?s' = "put_kmem ?m2 s1"
  have ap1: "heap_apart s1 (A(d \<mapsto> 1)) (span ?a 2048)" by (rule heap_apart_grow [OF r(3) g(2) d(7)])
  have d4: "span d 4 \<subseteq> span d 4096" by (rule span_mono) simp
  have da: "span d 4096 \<inter> span ?a 2048 = {}" using heap_apart_page [OF ap1, of d] by simp
  have m1: "agree_off (span d 4) (kmem s1) ?m1" by (rule write32_agree)
  have m2: "agree_off (span ?a 2048) ?m1 ?m2" using set_slot_agree [of ?a 512 i ?m1 d] r(2) assms(3) by simp
  have tab: "slots (kmem s1) ?a 512 = fd_table s" unfolding fd_table_def
    by (rule slots_agree [OF _ g(3)]) (use r(2) heap_apart_spare [OF r(3)] in simp_all)
  have "slots ?m1 ?a 512 = fd_table s" unfolding tab [symmetric]
    by (rule slots_agree [OF _ m1]) (use r(2) da d4 in auto)
  then have T: "fd_table ?s' = (fd_table s)[i := d]"
    using fd_table_put_slot [of s1 i ?m1 d] r(2) assms(3) a1 by simp
  have "fd_index ?m2 d = fd_index ?m1 d" by (rule fd_index_agree [OF m2]) (use da d4 in blast)
  also have "\<dots> = int i + 1" using assms(3) sint_small [of "Suc i"] by (simp add: fd_index_def)
  finally have ix: "fd_index (kmem ?s') d = int i + 1" by simp
  have gr1: "grows (span ?a 2048) s (put_kmem ?m1 s1) (A(d \<mapsto> 1))"
    "kheap_avail (put_kmem ?m1 s1) = kheap_avail s1" "kheap_spare (put_kmem ?m1 s1) = kheap_spare s1"
    using grows_page [OF grows_mono [OF d(5)], of "span ?a 2048" d "span d 4" ?m1] d4 d(7) m1 by auto
  have ap2: "heap_apart (put_kmem ?m1 s1) (A(d \<mapsto> 1)) (span ?a 2048)" using ap1 gr1(3) by (simp add: heap_apart_def)
  have res: "span ?a 2048 \<inter> kheap_reserved (put_kmem ?m1 s1) = {}"
    using heap_apart_spare [OF ap2] kh.reserved_spare [OF growsD(1) [OF gr1(1)]] by blast
  have put: "kheap_ready ?s' (A(d \<mapsto> 1))" "kheap_avail ?s' = kheap_avail s1" "kheap_spare ?s' = kheap_spare s1"
    using kh.put_ready [OF growsD(1) [OF gr1(1)] _ res, of ?m2] kh.put_spare [OF growsD(1) [OF gr1(1)] _ res, of ?m2] m2 gr1
    by simp_all
  have room: "fd_room ?s' (A(d \<mapsto> 1))"
    using put ap1 r(2) a1 by (simp add: fd_room_def heap_apart_def)
  have "agree_off (kheap_spare s \<union> span ?a 2048) (kmem s) ?m2"
    using agree_off_trans_same [OF growsD(3) [OF gr1(1)], of ?m2] agree_off_mono [OF m2] by simp
  then have gr: "grows (span ?a 2048) s ?s' (A(d \<mapsto> 1))"
    unfolding grows_def using put g(2) by (intro conjI exI [of _ ?m2]) (simp_all add: put_kmem_def [of _ s] put_kmem_def [of _ s1] g(4) [symmetric], subst g(4), simp add: put_kmem_def)
  have keep: "fd_index (kmem ?s') q = fd_index (kmem s) q" if q: "A q = Some 1" for q
  proof (rule fd_index_agree [OF growsD(3) [OF gr]])
    have "span q 4 \<subseteq> span q 4096" by (rule span_mono) simp
    then show "span q 4 \<inter> (kheap_spare s \<union> span ?a 2048) = {}"
      using kh.live_spare [OF r(1) q] heap_apart_page [OF r(3) q] by auto
  qed
  have "file_new_descriptor s = (0, d, ?s')" by (simp add: file_new_descriptor_def z d(1) a1)
  then show ?thesis using that d(2,4) room T ix put(2) d(6) gr keep by simp
qed

lemma fd_ok_room: "fd_ok s A \<Longrightarrow> fd_room s A"
  by (simp add: fd_ok_def)

lemma fd_okD:
  assumes "fd_ok s A" "i < 512" "fd_table s ! i \<noteq> 0"
  shows "A (fd_table s ! i) = Some 1" "fd_index (kmem s) (fd_table s ! i) = int i + 1"
  using assms by (simp_all add: fd_ok_def)

lemma fd_ok_new:
  assumes "fd_ok s A" "0 < kheap_avail s" "i < 512" "fd_table s ! i = 0" "\<forall>j < i. fd_table s ! j \<noteq> 0"
  obtains d s' where "file_new_descriptor s = (0, d, s')" "d \<noteq> 0" "A d = None" "fd_ok s' (A(d \<mapsto> 1))"
    "fd_table s' = (fd_table s)[i := d]" "fd_index (kmem s') d = int i + 1" "kheap_avail s' + 1 = kheap_avail s"
proof -
  obtain d s' where d: "file_new_descriptor s = (0, d, s')" "d \<noteq> 0" "A d = None" "fd_room s' (A(d \<mapsto> 1))"
    "fd_table s' = (fd_table s)[i := d]" "fd_index (kmem s') d = int i + 1" "kheap_avail s' + 1 = kheap_avail s"
    "\<forall>q. A q = Some 1 \<longrightarrow> fd_index (kmem s') q = fd_index (kmem s) q"
    using file_new_descriptor_step [OF fd_ok_room [OF assms(1)] assms(2-5)] by metis
  have len: "length (fd_table s) = 512" by (simp add: fd_table_def)
  have "(A(d \<mapsto> 1)) (fd_table s' ! j) = Some 1 \<and> fd_index (kmem s') (fd_table s' ! j) = int j + 1"
    if j: "j < 512" "fd_table s' ! j \<noteq> 0" for j
  proof (cases "j = i")
    case True
    then show ?thesis using d(5,6) len assms(3) by simp
  next
    case False
    then have t: "fd_table s' ! j = fd_table s ! j" using d(5) len j(1) by simp
    note o = fd_okD [OF assms(1) j(1) j(2) [unfolded t]]
    have "fd_table s ! j \<noteq> d" using o(1) d(3) by auto
    then show ?thesis using o d(8) t by simp
  qed
  then have "fd_ok s' (A(d \<mapsto> 1))" using d(4) by (simp add: fd_ok_def)
  then show ?thesis using that d(1-3,5-7) by blast
qed

lemma fd_ok_free:
  assumes "fd_ok s A" "i < 512" "fd_table s ! i = d" "d \<noteq> 0"
  shows "fd_ok (file_free_descriptor d s) (A(d := None))" "fd_table (file_free_descriptor d s) = (fd_table s)[i := 0]"
    "kheap_avail (file_free_descriptor d s) = kheap_avail s + 1"
proof -
  let ?a = "file_descriptors_at s"
  have r: "kheap_ready s A" "unat ?a + 2048 \<le> 4294967296" "heap_apart s A (span ?a 2048)"
    using fd_ok_room [OF assms(1)] by (auto simp: fd_room_def)
  have o: "A d = Some 1" "fd_index (kmem s) d = int i + 1" using fd_okD [OF assms(1,2)] assms(3,4) by auto
  let ?m = "set_slot (kmem s) ?a i 0"
  let ?s1 = "put_kmem ?m s"
  have e: "file_free_descriptor d s = kfree d ?s1" by (simp add: file_free_descriptor_def o(2) set_slot_def)
  have m: "agree_off (span ?a 2048) (kmem s) ?m" using set_slot_agree [of ?a 512 i "kmem s" 0] r(2) assms(2) by simp
  have res: "span ?a 2048 \<inter> kheap_reserved s = {}" using heap_apart_spare [OF r(3)] kh.reserved_spare [OF r(1)] by blast
  have s1: "kheap_ready ?s1 A" "kheap_avail ?s1 = kheap_avail s" "kheap_spare ?s1 = kheap_spare s"
    using kh.put_ready [OF r(1) m res] kh.put_spare [OF r(1) m res] by simp_all
  obtain m' where m': "kfree d ?s1 = put_kmem m' ?s1" "kheap_ready (put_kmem m' ?s1) (A(d := None))"
    "kheap_avail (put_kmem m' ?s1) = kheap_avail ?s1 + 1" "agree_off (kheap_reserved ?s1) ?m m'"
    using kh.release_live [OF s1(1) o(1)] by auto
  have rs: "kheap_reserved ?s1 = kheap_reserved s" by (rule kh.reserved_put)
  have ap1: "heap_apart ?s1 A (span ?a 2048)" using r(3) s1(3) by (simp add: heap_apart_def)
  have ap: "heap_apart (kfree d ?s1) (A(d := None)) (span ?a 2048)" by (rule heap_apart_release [OF ap1 s1(1) o(1)])
  have at: "file_descriptors_at (kfree d ?s1) = ?a" using m'(1) by simp
  have "slots m' ?a 512 = slots ?m ?a 512"
    by (rule slots_agree [OF _ m'(4)]) (use r(2) res rs in simp_all)
  then have T: "fd_table (kfree d ?s1) = (fd_table s)[i := 0]"
    using slots_set_slot [of ?a 512 i "kmem s" 0] r(2) assms(2) m'(1) by (simp add: fd_table_def)
  show "fd_table (file_free_descriptor d s) = (fd_table s)[i := 0]" unfolding e by (rule T)
  show "kheap_avail (file_free_descriptor d s) = kheap_avail s + 1" unfolding e m'(1) using m'(3) s1(2) by simp
  have len: "length (fd_table s) = 512" by (simp add: fd_table_def)
  have "(A(d := None)) (fd_table (kfree d ?s1) ! j) = Some 1 \<and>
      fd_index (kmem (kfree d ?s1)) (fd_table (kfree d ?s1) ! j) = int j + 1"
    if j: "j < 512" "fd_table (kfree d ?s1) ! j \<noteq> 0" for j
  proof -
    have ji: "j \<noteq> i" using j T len assms(2) by auto
    then have t: "fd_table (kfree d ?s1) ! j = fd_table s ! j" using T len j(1) by simp
    note oj = fd_okD [OF assms(1) j(1) j(2) [unfolded t]]
    have "fd_table s ! j \<noteq> d" using oj(2) o(2) ji by auto
    moreover have "fd_index (kmem (kfree d ?s1)) (fd_table s ! j) = fd_index (kmem s) (fd_table s ! j)"
    proof -
      let ?q = "fd_table s ! j"
      have q4: "span ?q 4 \<subseteq> span ?q 4096" by (rule span_mono) simp
      have "agree_off (span ?a 2048 \<union> kheap_reserved s) (kmem s) m'"
        using agree_off_trans [OF m, of "kheap_reserved s" m'] m'(4) rs by simp
      moreover have "span ?q 4 \<inter> (span ?a 2048 \<union> kheap_reserved s) = {}"
        using q4 heap_apart_page [OF r(3) oj(1)] kh.live_reserved [OF r(1) oj(1)] by auto
      ultimately show ?thesis using fd_index_agree m'(1) by simp
    qed
    ultimately show ?thesis using oj t by simp
  qed
  moreover have "fd_room (kfree d ?s1) (A(d := None))"
    using m'(1,2) ap at r(2) by (simp add: fd_room_def)
  ultimately show "fd_ok (file_free_descriptor d s) (A(d := None))" unfolding e fd_ok_def by blast
qed

lemma fd_ok_frame:
  assumes "fd_ok s A" "grows L s s' A'" "file_descriptors_at s' = file_descriptors_at s"
    "\<forall>i < 512. fd_table s ! i \<noteq> 0 \<longrightarrow> A' (fd_table s ! i) = Some 1 \<and> span (fd_table s ! i) 4 \<inter> L = {}"
    "span (file_descriptors_at s) 2048 \<inter> L = {}" "heap_apart s' A' (span (file_descriptors_at s) 2048)"
  shows "fd_ok s' A'"
proof -
  let ?a = "file_descriptors_at s"
  have r: "kheap_ready s A" "unat ?a + 2048 \<le> 4294967296" "heap_apart s A (span ?a 2048)"
    using fd_ok_room [OF assms(1)] by (auto simp: fd_room_def)
  note g = growsD [OF assms(2)]
  have T: "fd_table s' = fd_table s"
    unfolding fd_table_def assms(3)
    by (rule slots_agree [OF _ g(3)]) (use r(2) heap_apart_spare [OF r(3)] assms(5) in auto)
  have "fd_index (kmem s') (fd_table s ! i) = fd_index (kmem s) (fd_table s ! i)" if i: "i < 512" "fd_table s ! i \<noteq> 0" for i
  proof (rule fd_index_agree [OF g(3)])
    have "span (fd_table s ! i) 4 \<subseteq> span (fd_table s ! i) 4096" by (rule span_mono) simp
    then show "span (fd_table s ! i) 4 \<inter> (kheap_spare s \<union> L) = {}"
      using kh.live_spare [OF r(1) fd_okD(1) [OF assms(1) i]] assms(4) i by auto
  qed
  then show ?thesis
    using assms(1,3,4,6) g(1) r(2) T by (auto simp: fd_ok_def fd_room_def)
qed

section \<open>Starting up\<close>

text \<open>Where the static data of \<^verbatim>\<open>file.c\<close> and \<^verbatim>\<open>fat16.c\<close> is: apart from each other and from the heap.\<close>

definition file_layout :: "'z filestate_scheme \<Rightarrow> (u32 \<Rightarrow> nat option) \<Rightarrow> bool" where
  "file_layout s A \<longleftrightarrow> kheap_ready s A \<and> unat (file_descriptors_at s) + 2048 \<le> 4294967296 \<and>
     unat (filesystems_at s) + 48 \<le> 4294967296 \<and> fat16_fs_at s \<noteq> 0 \<and>
     heap_apart s A (span (file_descriptors_at s) 2048) \<and> heap_apart s A (span (filesystems_at s) 48) \<and>
     heap_apart s A (span (fat16_fs_at s + 24) 6) \<and>
     span (file_descriptors_at s) 2048 \<inter> span (filesystems_at s) 48 = {} \<and>
     span (file_descriptors_at s) 2048 \<inter> span (fat16_fs_at s + 24) 6 = {} \<and>
     span (filesystems_at s) 48 \<inter> span (fat16_fs_at s + 24) 6 = {}"

lemma slots_memset: "unat a + 4 * n \<le> 4294967296 \<Longrightarrow> unat (word_of_nat (4 * n) :: u32) = 4 * n \<Longrightarrow>
   slots (memset m a 0 (word_of_nat (4 * n))) a n = replicate n 0"
proof (rule nth_equalityI)
  fix i assume a: "unat a + 4 * n \<le> 4294967296" "unat (word_of_nat (4 * n) :: u32) = 4 * n"
    and "i < length (slots (memset m a 0 (word_of_nat (4 * n))) a n)"
  then have i: "i < n" by simp
  have z: "memset m a 0 (word_of_nat (4 * n)) x = 0" if "x \<in> span a (4 * n)" for x
    using that a(2) by (simp add: memset_apply del: of_nat_mult)
  have "span (a + 4 * word_of_nat i) 4 \<subseteq> span a (4 * n)" by (rule array_span_subset [OF a(1) i])
  then have "slot (memset m a 0 (word_of_nat (4 * n))) a i = read32 (\<lambda>_. 0) (a + 4 * word_of_nat i)"
    unfolding slot_def by (intro read32_span) (use z in blast)
  also have "\<dots> = 0" by (simp add: read32_def)
  finally show "slots (memset m a 0 (word_of_nat (4 * n))) a n ! i = replicate n 0 ! i" using i by simp
qed simp

lemma fs_init_spec:
  assumes "file_layout s A"
  obtains s' where "fs_init s = Some s'" "fd_ok s' A" "fd_table s' = replicate 512 0"
    "slots (kmem s') (filesystems_at s') 12 = (replicate 12 0)[0 := fat16_fs_at s]" "kheap_avail s' = kheap_avail s"
    "s' = put_kmem (kmem s') s"
proof -
  let ?a = "file_descriptors_at s" and ?f = "filesystems_at s" and ?n = "fat16_fs_at s + 24"
  note l = assms [unfolded file_layout_def]
  let ?m1 = "memset (kmem s) ?a 0 2048" and ?name = "[0x46, 0x41, 0x54, 0x31, 0x36, 0] :: u8 list"
  let ?m2 = "memset ?m1 ?f 0 48"
  let ?m3 = "store_bytes ?m2 ?n ?name"
  let ?m4 = "set_slot ?m3 ?f 0 (fat16_fs_at s)"
  have a1: "agree_off (span ?a 2048) (kmem s) ?m1" using memset_agree [of ?a 2048 "kmem s" 0] by simp
  have a2: "agree_off (span ?f 48) ?m1 ?m2" using memset_agree [of ?f 48 ?m1 0] by simp
  have n6: "length ?name = 6" by simp
  have a3: "agree_off (span ?n 6) ?m2 ?m3" by (rule store_bytes_agree [of ?name ?n ?m2, unfolded n6]) simp
  have a4: "agree_off (span ?f 48) ?m3 ?m4" using set_slot_agree [of ?f 12 0 ?m3 "fat16_fs_at s"] l by simp
  have t1: "slots ?m1 ?a 512 = replicate 512 0" using slots_memset [of ?a 512 "kmem s"] l by simp
  have "slots ?m4 ?a 512 = slots ?m3 ?a 512" by (rule slots_agree [OF _ a4]) (use l in simp_all)
  also have "\<dots> = slots ?m2 ?a 512" by (rule slots_agree [OF _ a3]) (use l in simp_all)
  also have "\<dots> = slots ?m1 ?a 512" by (rule slots_agree [OF _ a2]) (use l in simp_all)
  finally have T: "slots ?m4 ?a 512 = replicate 512 0" using t1 by simp
  have f2: "slots ?m2 ?f 12 = replicate 12 0" using slots_memset [of ?f 12 ?m1] l by simp
  have f3: "slots ?m3 ?f 12 = replicate 12 0" using slots_agree [of ?f 12 "span ?n 6" ?m2 ?m3] a3 l f2 by simp
  have F: "slots ?m4 ?f 12 = (replicate 12 0)[0 := fat16_fs_at s]"
    using slots_set_slot [of ?f 12 0 ?m3 "fat16_fs_at s"] l f3 by simp
  have "zero_slot ?m3 ?f 0 12 = Some 0" using f3 by (simp add: zero_slot_first)
  then have e: "fs_init s = Some (put_kmem ?m4 s)"
    by (simp add: fs_init_def fs_load_def fs_static_load_def fat16_init_def fs_insert_filesystem_def
        fs_get_free_filesystem_def put_kmem_def)
  let ?S = "span ?a 2048 \<union> span ?f 48 \<union> span ?n 6"
  have ag: "agree_off ?S (kmem s) ?m4"
    by (rule agree_off_mono [OF agree_off_trans [OF agree_off_trans [OF agree_off_trans [OF a1 a2] a3] a4]]) blast
  have ap: "heap_apart s A ?S"
    using heap_apart_Un [OF heap_apart_Un, of s A "span ?a 2048" "span ?f 48" "span ?n 6"] l by simp
  have res: "?S \<inter> kheap_reserved s = {}" using heap_apart_spare [OF ap] kh.reserved_spare l by blast
  have k: "kheap_ready (put_kmem ?m4 s) A" "kheap_avail (put_kmem ?m4 s) = kheap_avail s"
    "kheap_spare (put_kmem ?m4 s) = kheap_spare s"
    using kh.put_ready [OF _ ag res, of A] kh.put_spare [OF _ ag res, of A] l by simp_all
  have TT: "fd_table (put_kmem ?m4 s) = replicate 512 0" using T by (simp add: fd_table_def)
  have "fd_ok (put_kmem ?m4 s) A"
    using k l TT by (simp add: fd_ok_def fd_room_def heap_apart_def)
  then show ?thesis using that [OF e _ TT _ k(2)] F by (simp add: put_kmem_def)
qed

section \<open>Runs\<close>

text \<open>The states the descriptor table can be in, with the live pages of the heap: from \<^verbatim>\<open>fs_init\<close>, by
  \<^verbatim>\<open>file_new_descriptor\<close>, by \<^verbatim>\<open>file_free_descriptor\<close> of a descriptor \<^verbatim>\<open>file_get_descriptor\<close> finds, and by what
  the rest of the kernel does to the heap and to memory outside the table and the descriptors' numbers.\<close>

inductive fd_run :: "'z filestate_scheme \<Rightarrow> (u32 \<Rightarrow> nat option) \<Rightarrow> bool" where
  init: "file_layout s A \<Longrightarrow> fs_init s = Some s' \<Longrightarrow> fd_run s' A"
| new: "fd_run s A \<Longrightarrow> 0 < kheap_avail s \<Longrightarrow> file_new_descriptor s = (r, d, s') \<Longrightarrow>
    fd_run s' (if r = 0 then A(d \<mapsto> 1) else A)"
| free: "fd_run s A \<Longrightarrow> file_get_descriptor fd s = d \<Longrightarrow> d \<noteq> 0 \<Longrightarrow>
    fd_run (file_free_descriptor d s) (A(d := None))"
| other: "fd_run s A \<Longrightarrow> grows L s s' A' \<Longrightarrow> file_descriptors_at s' = file_descriptors_at s \<Longrightarrow>
    span (file_descriptors_at s) 2048 \<inter> L = {} \<Longrightarrow> heap_apart s' A' (span (file_descriptors_at s) 2048) \<Longrightarrow>
    \<forall>i < 512. fd_table s ! i \<noteq> 0 \<longrightarrow> A' (fd_table s ! i) = Some 1 \<and> span (fd_table s ! i) 4 \<inter> L = {} \<Longrightarrow>
    fd_run s' A'"

lemma file_get_descriptor_slot:
  "file_get_descriptor fd s = d \<Longrightarrow> d \<noteq> 0 \<Longrightarrow> nat (fd - 1) < 511 \<and> fd_table s ! nat (fd - 1) = d"
  by (auto simp: file_get_descriptor_def fd_table_def split: if_splits)

lemma fd_run_ok: "fd_run s A \<Longrightarrow> fd_ok s A"
proof (induction rule: fd_run.induct)
  case (init s A s')
  then show ?case using fs_init_spec [of s A] by (metis option.inject)
next
  case (new s A r d s')
  show ?case
  proof (cases "zero_slot (kmem s) (file_descriptors_at s) 0 512")
    case None
    then show ?thesis using new.hyps(3) new.IH by (simp add: file_new_descriptor_def)
  next
    case (Some i)
    then have i: "i < 512" "fd_table s ! i = 0" "\<forall>j < i. fd_table s ! j \<noteq> 0"
      unfolding zero_slot_first fd_table_def by blast+
    obtain d' s'' where "file_new_descriptor s = (0, d', s'')" "fd_ok s'' (A(d' \<mapsto> 1))"
      by (rule fd_ok_new [OF new.IH new.hyps(2) i]) (rule that; assumption)
    then show ?thesis using new.hyps(3) by (simp del: fun_upd_apply)
  qed
next
  case (free s A fd d)
  note g = file_get_descriptor_slot [OF free.hyps(2,3)]
  show ?case by (rule fd_ok_free(1) [OF free.IH, of "nat (fd - 1)"]) (use g free.hyps(3) in auto)
next
  case (other s A L s' A')
  then show ?case using fd_ok_frame [OF other.IH other.hyps(2,3,6,4,5)] by blast
qed

section \<open>The contract of a file system driver\<close>

text \<open>What the virtual file system may rely on: a seek that is refused changes nothing and any other
  writes only the position of its descriptor; \<^verbatim>\<open>stat\<close> writes only the caller's structure.\<close>

locale fs_driver =
  fixes mem_of :: "'s \<Rightarrow> mem"
    and put_mem :: "mem \<Rightarrow> 's \<Rightarrow> 's"
    and seek :: "u32 \<Rightarrow> u32 \<Rightarrow> u32 \<Rightarrow> 's \<Rightarrow> int \<times> 's"
    and stat :: "u32 \<Rightarrow> u32 \<Rightarrow> 's \<Rightarrow> int \<times> 's"
    and position :: "u32 \<Rightarrow> u32 set"
  assumes mem_of_put: "mem_of (put_mem m s) = m"
    and seek_refused: "seek p off mode s = (r, s') \<Longrightarrow> r < 0 \<Longrightarrow> s' = s"
    and seek_frame: "seek p off mode s = (r, s') \<Longrightarrow> \<exists>m. s' = put_mem m s \<and> agree_off (position p) (mem_of s) m"
    and stat_refused: "stat p buf s = (r, s') \<Longrightarrow> r < 0 \<Longrightarrow> s' = s"
    and stat_frame: "stat p buf s = (r, s') \<Longrightarrow> \<exists>m. s' = put_mem m s \<and> agree_off (span buf 8) (mem_of s) m"
begin

text \<open>Tables in memory that the driver does not own survive.\<close>

lemma seek_keeps_slots:
  assumes "seek p off mode s = (r, s')" "unat a + 4 * n \<le> 4294967296" "span a (4 * n) \<inter> position p = {}"
  shows "slots (mem_of s') a n = slots (mem_of s) a n"
proof -
  obtain m where "s' = put_mem m s" "agree_off (position p) (mem_of s) m" using seek_frame [OF assms(1)] by blast
  then show ?thesis using slots_agree [OF assms(2) _ assms(3)] by (simp add: mem_of_put)
qed

lemma stat_keeps_slots:
  assumes "stat p buf s = (r, s')" "unat a + 4 * n \<le> 4294967296" "span a (4 * n) \<inter> span buf 8 = {}"
  shows "slots (mem_of s') a n = slots (mem_of s) a n"
proof -
  obtain m where "s' = put_mem m s" "agree_off (span buf 8) (mem_of s) m" using stat_frame [OF assms(1)] by blast
  then show ?thesis using slots_agree [OF assms(2) _ assms(3)] by (simp add: mem_of_put)
qed

end

lemma put_kmem_same: "put_kmem (kmem s) s = s"
  by (simp add: put_kmem_def)

lemma fat16_seek_result:
  "fat16_seek p off mode s = (r, s') \<Longrightarrow> s' = s \<or> r = 0 \<and> (\<exists>v. s' = put_kmem (write32 (kmem s) (p + 4) v) s)"
  by (auto simp: fat16_seek_def Let_def split: if_splits)

lemma fat16_stat_result:
  assumes "fat16_stat p buf s = (r, s')"
  shows "s' = s \<or> r = 0 \<and> (\<exists>m. s' = put_kmem m s \<and> agree_off (span buf 8) (kmem s) m)"
proof -
  let ?S = "span buf 8"
  have sub: "span buf 4 \<subseteq> ?S" "span (buf + 4) 4 \<subseteq> ?S"
    using span_mono [of 4 8 buf] word_offset_in [of 4 4 4 8 buf] by simp_all
  have w: "agree_off ?S m (write32 m buf v)" "agree_off ?S m (write32 m (buf + 4) v)" for m v
    using agree_off_mono [OF write32_agree sub(1)] agree_off_mono [OF write32_agree sub(2)] by auto
  have ww: "agree_off ?S m (write32 (write32 m (buf + 4) v) buf u)" for m u v
    by (rule agree_off_trans_same [OF w(2) w(1)])
  have www: "agree_off ?S m (write32 (write32 (write32 m (buf + 4) v) buf u) buf t)" for m t u v
    by (rule agree_off_trans_same [OF ww w(1)])
  have "\<exists>m. s' = put_kmem m s \<and> agree_off ?S (kmem s) m" if "s' \<noteq> s"
    using assms that by (auto simp: fat16_stat_def Let_def split: if_splits intro: ww www)
  moreover have "s' \<noteq> s \<Longrightarrow> r = 0" using assms by (auto simp: fat16_stat_def Let_def split: if_splits)
  ultimately show ?thesis by blast
qed

interpretation fat: fs_driver kmem put_kmem fat16_seek fat16_stat "\<lambda>p. span (p + 4) 4"
proof
  fix p off mode s r and s' :: "'a kstate_scheme"
  assume "fat16_seek p off mode s = (r, s')"
  note c = fat16_seek_result [OF this]
  show "r < 0 \<Longrightarrow> s' = s" using c by auto
  show "\<exists>m. s' = put_kmem m s \<and> agree_off (span (p + 4) 4) (kmem s) m"
    using c write32_agree put_kmem_same agree_off_refl by metis
next
  fix p buf s r and s' :: "'a kstate_scheme"
  assume "fat16_stat p buf s = (r, s')"
  note c = fat16_stat_result [OF this]
  show "r < 0 \<Longrightarrow> s' = s" using c by auto
  show "\<exists>m. s' = put_kmem m s \<and> agree_off (span buf 8) (kmem s) m"
    using c put_kmem_same agree_off_refl by metis
qed simp

section \<open>Properties\<close>

text \<open>C21: In every run of the descriptor table, each entry in use points to a live page of the kernel heap
  that carries the number of the entry plus one, and two entries in use point to disjoint pages.\<close>

theorem fd_run_invariant:
  assumes "fd_run s A" "i < 512" "fd_table s ! i \<noteq> 0"
  shows "A (fd_table s ! i) = Some 1 \<and> fd_index (kmem s) (fd_table s ! i) = int i + 1 \<and>
    (\<forall>j < 512. j \<noteq> i \<and> fd_table s ! j \<noteq> 0 \<longrightarrow> span (fd_table s ! i) 4096 \<inter> span (fd_table s ! j) 4096 = {})"
proof -
  note ok = fd_run_ok [OF assms(1)]
  note o = fd_okD [OF ok assms(2,3)]
  have r: "kheap_ready s A" using fd_ok_room [OF ok] by (simp add: fd_room_def)
  have "span (fd_table s ! i) 4096 \<inter> span (fd_table s ! j) 4096 = {}" if j: "j < 512" "j \<noteq> i" "fd_table s ! j \<noteq> 0" for j
  proof -
    note oj = fd_okD [OF ok j(1,3)]
    have "fd_table s ! i \<noteq> fd_table s ! j" using o(2) oj(2) j(2) by auto
    then show ?thesis using kh.live_disjoint [OF r o(1) oj(1)] by simp
  qed
  then show ?thesis using o by blast
qed

text \<open>\<^verbatim>\<open>file_new_descriptor\<close> takes the first empty entry \<open>i\<close> for a fresh page numbered \<open>i + 1\<close>, and
  answers -ENOMEM without effect if there is none. \<^verbatim>\<open>file_get_descriptor\<close> finds the new descriptor under
  its number, but not the one numbered 512, which is issued all the same.\<close>

theorem file_new_descriptor_issues:
  assumes "fd_run s A" "0 < kheap_avail s"
  shows "(0 \<notin> set (fd_table s) \<longrightarrow> file_new_descriptor s = (- ENOMEM, 0, s)) \<and>
    (i < 512 \<and> fd_table s ! i = 0 \<and> (\<forall>j < i. fd_table s ! j \<noteq> 0) \<longrightarrow>
      (\<exists>d s'. file_new_descriptor s = (0, d, s') \<and> d \<noteq> 0 \<and> A d = None \<and> fd_run s' (A(d \<mapsto> 1)) \<and>
         fd_table s' = (fd_table s)[i := d] \<and> fd_index (kmem s') d = int i + 1 \<and>
         file_get_descriptor (int i + 1) s' = (if i = 511 then 0 else d)))"
proof (intro conjI impI)
  assume i: "i < 512 \<and> fd_table s ! i = 0 \<and> (\<forall>j < i. fd_table s ! j \<noteq> 0)"
  then have i': "i < 512" "fd_table s ! i = 0" "\<forall>j < i. fd_table s ! j \<noteq> 0" by blast+
  obtain d s' where d: "file_new_descriptor s = (0, d, s')" "d \<noteq> 0" "A d = None"
      "fd_table s' = (fd_table s)[i := d]" "fd_index (kmem s') d = int i + 1"
    by (rule fd_ok_new [OF fd_run_ok [OF assms(1)] assms(2) i']) (rule that; assumption)
  have "fd_run s' (A(d \<mapsto> 1))" using fd_run.new [OF assms(1,2) d(1)] by simp
  moreover have "fd_table s' ! i = d" using d(4) i'(1) by (simp add: fd_table_def)
  then have "file_get_descriptor (int i + 1) s' = (if i = 511 then 0 else d)"
    using i'(1) by (auto simp: file_get_descriptor_def fd_table_def)
  ultimately show "\<exists>d s'. file_new_descriptor s = (0, d, s') \<and> d \<noteq> 0 \<and> A d = None \<and> fd_run s' (A(d \<mapsto> 1)) \<and>
      fd_table s' = (fd_table s)[i := d] \<and> fd_index (kmem s') d = int i + 1 \<and>
      file_get_descriptor (int i + 1) s' = (if i = 511 then 0 else d)"
    using d by (intro exI [of _ d] exI [of _ s']) blast
qed (rule file_new_descriptor_full)

text \<open>Freeing a descriptor that was just issued gives back its page and its entry: the table, the live
  pages and the number of free pages are what they were.\<close>

theorem file_descriptor_roundtrip:
  assumes "fd_run s A" "0 < kheap_avail s" "file_new_descriptor s = (0, d, s')"
  shows "fd_table (file_free_descriptor d s') = fd_table s \<and> kheap_ready (file_free_descriptor d s') A \<and>
    kheap_avail (file_free_descriptor d s') = kheap_avail s"
proof -
  obtain i where "zero_slot (kmem s) (file_descriptors_at s) 0 512 = Some i"
    using assms(3) by (auto simp: file_new_descriptor_def split: option.splits)
  then have i: "i < 512" "fd_table s ! i = 0" "\<forall>j < i. fd_table s ! j \<noteq> 0"
    unfolding zero_slot_first fd_table_def by blast+
  obtain d' s'' where "file_new_descriptor s = (0, d', s'')" "d' \<noteq> 0" "A d' = None" "fd_ok s'' (A(d' \<mapsto> 1))"
      "fd_table s'' = (fd_table s)[i := d']" "kheap_avail s'' + 1 = kheap_avail s"
    by (rule fd_ok_new [OF fd_run_ok [OF assms(1)] assms(2) i]) (rule that; assumption)
  then have n: "d \<noteq> 0" "A d = None" "fd_ok s' (A(d \<mapsto> 1))" "fd_table s' = (fd_table s)[i := d]"
      "kheap_avail s' + 1 = kheap_avail s" using assms(3) by simp_all
  have "fd_table s' ! i = d" using n(4) i(1) by (simp add: fd_table_def)
  note f = fd_ok_free [OF n(3) i(1) this n(1)]
  have "(A(d \<mapsto> 1))(d := None) = A" using n(2) by auto
  moreover have "(fd_table s)[i := 0] = fd_table s" using i(2) list_update_id [of "fd_table s" i] by simp
  ultimately show ?thesis using f n(4,5) by (simp add: fd_ok_def fd_room_def)
qed

text \<open>A number that is not open is refused by every file operation without any effect: -EIO by
  \<^verbatim>\<open>fstat\<close>, \<^verbatim>\<open>fseek\<close> and \<^verbatim>\<open>fclose\<close>, -EINVARG by \<^verbatim>\<open>fread\<close>; \<^verbatim>\<open>fread\<close> also refuses empty reads. Numbers
  below 1 and above 511 are never open.\<close>

theorem file_ops_refuse:
  "((fd \<le> 0 \<or> 512 \<le> fd) \<longrightarrow> file_get_descriptor fd s = 0) \<and>
   (file_get_descriptor fd s = 0 \<longrightarrow>
     fstat fd buf s = Some (- EIO, s) \<and> fseek fd off mode s = Some (- EIO, s) \<and> fclose fd s = Some (- EIO, s) \<and>
     fread dev p sz n fd s = Some (- EINVARG, s)) \<and>
   ((sz = 0 \<or> n = 0) \<longrightarrow> fread dev p sz n fd s = Some (- EINVARG, s))"
  by (auto simp: file_get_descriptor_def fstat_def fseek_def fclose_def fread_def Let_def)

text \<open>\<^verbatim>\<open>fseek\<close> and \<^verbatim>\<open>fstat\<close> on an open file with the FAT16 driver return; a refusal changes nothing, and
  the table of descriptors survives either call unless the driver's position or the caller's structure
  lies in it.\<close>

theorem fseek_fstat_keep_table:
  assumes "d = file_get_descriptor fd s" "d \<noteq> 0" "fd_filesystem (kmem s) d = fat16_fs_at s"
    "unat (file_descriptors_at s) + 2048 \<le> 4294967296"
    "span (file_descriptors_at s) 2048 \<inter> span (fd_private (kmem s) d + 4) 4 = {}"
    "span (file_descriptors_at s) 2048 \<inter> span buf 8 = {}"
  shows "\<exists>r s' q s''. fseek fd off mode s = Some (r, s') \<and> fstat fd buf s = Some (q, s'') \<and>
     (r < 0 \<longrightarrow> s' = s) \<and> (q < 0 \<longrightarrow> s'' = s) \<and> fd_table s' = fd_table s \<and> fd_table s'' = fd_table s"
proof -
  obtain r s' where a: "fat16_seek (fd_private (kmem s) d) (word_of_int off) mode s = (r, s')" by force
  obtain q s'' where b: "fat16_stat (fd_private (kmem s) d) buf s = (q, s'')" by force
  have n: "unat (file_descriptors_at s) + 4 * 512 \<le> 4294967296" "(4 :: nat) * 512 = 2048" using assms(4) by simp_all
  have at: "file_descriptors_at s' = file_descriptors_at s" "file_descriptors_at s'' = file_descriptors_at s"
    using fat.seek_frame [OF a] fat.stat_frame [OF b] by auto
  have "fd_table s' = fd_table s" "fd_table s'' = fd_table s"
    unfolding fd_table_def at
    using fat.seek_keeps_slots [OF a n(1)] fat.stat_keeps_slots [OF b n(1)] assms(5,6) by (simp_all add: n(2))
  moreover have "fseek fd off mode s = Some (r, s')" "fstat fd buf s = Some (q, s'')"
    using assms(1-3) a b by (simp_all add: fseek_def fstat_def call_seek_def call_stat_def Let_def)
  ultimately show ?thesis using fat.seek_refused [OF a] fat.stat_refused [OF b] by blast
qed

section \<open>Witnesses\<close>

definition file_boot :: filestate where
  "file_boot = \<lparr>kmem = demo_fat_mem(0x2001 := 0x50, 0x5005 := 0x31, 0x500A := 3), video_mem = 0, terminal_row = 0,
     terminal_col = 0, kernel_heap = boot_heap, current_directory = 0, cr3 = 0, iolog = [],
     the_disk = \<lparr>disk_type = 0, sector_size = 512, disk_id = 0, disk_filesystem = 0, disk_fs_private = 0x10000\<rparr>,
     disk_at = 0x300, fat16_fs_at = 0x3100, tmp_filename_at = 0x40000, filesystems_at = 0x3000, file_descriptors_at = 0x2000\<rparr>"

lemma boot_apart:
  assumes "unat a + n \<le> 0x7e00"
  shows "heap_apart (kheap_init s) (\<lambda>_. None) (span a n)"
proof -
  have "span a n \<inter> span 0x7e00 25600 = {}" "span a n \<inter> span 0x1000000 104857600 = {}"
    by (intro span_disjoint; use assms in simp)+
  then show ?thesis unfolding heap_apart_def using boot_spare [of s] by blast
qed

lemma file_boot_layout: "file_layout (kheap_init file_boot) (\<lambda>_. None)"
proof -
  have a: "file_descriptors_at (kheap_init file_boot) = 0x2000" "filesystems_at (kheap_init file_boot) = 0x3000"
    "fat16_fs_at (kheap_init file_boot) = 0x3100"
    using kheap_init_eq [of file_boot] by (auto simp: file_boot_def)
  show ?thesis unfolding file_layout_def a
    using kheap_init_avail [of file_boot] boot_apart [of "0x2000" 2048 file_boot] boot_apart [of "0x3000" 48 file_boot]
      boot_apart [of "0x3100 + 24" 6 file_boot]
    by (simp add: span_disjoint)
qed

lemma file_boot_run:
  obtains s where "fs_init (kheap_init file_boot) = Some s" "fd_run s (\<lambda>_. None)" "fd_table s = replicate 512 0"
    "kheap_avail s = 25600"
proof -
  obtain s where s: "fs_init (kheap_init file_boot) = Some s" "fd_table s = replicate 512 0"
      "kheap_avail s = kheap_avail (kheap_init file_boot)"
    by (rule fs_init_spec [OF file_boot_layout]) (rule that; assumption)
  then show ?thesis using that fd_run.init [OF file_boot_layout s(1)] kheap_init_avail [of file_boot] by simp
qed

theorem file_new_descriptor_issues_witness:
  "\<exists>s d s'. fs_init (kheap_init file_boot) = Some s \<and> file_new_descriptor s = (0, d, s') \<and> file_get_descriptor 1 s' = d \<and>
     d \<noteq> 0"
proof -
  obtain s where s: "fs_init (kheap_init file_boot) = Some s" "fd_run s (\<lambda>_. None)" "fd_table s = replicate 512 0"
    "kheap_avail s = 25600" by (rule file_boot_run)
  have "0 < kheap_avail s" using s(4) by simp
  from file_new_descriptor_issues [OF s(2) this, of 0] s(1,3) show ?thesis by auto
qed

theorem file_descriptor_roundtrip_witness:
  "\<exists>s d s'. fs_init (kheap_init file_boot) = Some s \<and> file_new_descriptor s = (0, d, s') \<and>
     kheap_avail (file_free_descriptor d s') = 25600"
proof -
  obtain s where s: "fs_init (kheap_init file_boot) = Some s" "fd_run s (\<lambda>_. None)" "fd_table s = replicate 512 0"
    "kheap_avail s = 25600" by (rule file_boot_run)
  have p: "0 < kheap_avail s" using s(4) by simp
  have i: "(0 :: nat) < 512" "fd_table s ! 0 = 0" "\<forall>j < (0 :: nat). fd_table s ! j \<noteq> 0" using s(3) by simp_all
  obtain d s' where d: "file_new_descriptor s = (0, d, s')"
    by (rule fd_ok_new [OF fd_run_ok [OF s(2)] p i]) (rule that; assumption)
  from file_descriptor_roundtrip [OF s(2) p d] s d show ?thesis by auto
qed

theorem fd_run_invariant_witness:
  "\<exists>s A d. fd_run (s :: filestate) A \<and> fd_table s ! 0 = d \<and> d \<noteq> 0 \<and> A d = Some 1 \<and> fd_index (kmem s) d = 1"
proof -
  obtain s where s: "fs_init (kheap_init file_boot) = Some s" "fd_run s (\<lambda>_. None)" "fd_table s = replicate 512 0"
    "kheap_avail s = 25600" by (rule file_boot_run)
  have p: "0 < kheap_avail s" using s(4) by simp
  have i: "(0 :: nat) < 512" "fd_table s ! 0 = 0" "\<forall>j < (0 :: nat). fd_table s ! j \<noteq> 0" using s(3) by simp_all
  obtain d s' where d: "file_new_descriptor s = (0, d, s')" "d \<noteq> 0" "fd_table s' = (fd_table s)[0 := d]"
    by (rule fd_ok_new [OF fd_run_ok [OF s(2)] p i]) (rule that; assumption)
  have "fd_run s' [d \<mapsto> 1]" using fd_run.new [OF s(2) p d(1)] by simp
  moreover have "fd_table s' ! 0 = d" using d(3) s(3) by simp
  ultimately show ?thesis using fd_run_invariant [of s' "[d \<mapsto> 1]" 0] d(2)
    by (intro exI [of _ s'] exI [of _ "[d \<mapsto> 1]"] exI [of _ d]) simp
qed

theorem file_ops_refuse_witness:
  "file_get_descriptor 512 file_boot = 0 \<and> fclose 0 file_boot = Some (- EIO, file_boot) \<and>
   fread demo_drive 0x50000 0 1 1 file_boot = Some (- EINVARG, file_boot)"
proof -
  have "file_get_descriptor 512 file_boot = 0" using file_ops_refuse [of 512 file_boot] by simp
  moreover have "fclose 0 file_boot = Some (- EIO, file_boot)" using file_ops_refuse [of 0 file_boot] by simp
  moreover have "fread demo_drive 0x50000 0 1 1 file_boot = Some (- EINVARG, file_boot)"
    using file_ops_refuse [of 1 file_boot 0 0 0 demo_drive "0x50000" 0 1] by simp
  ultimately show ?thesis by blast
qed

lemma file_boot_open:
  "file_get_descriptor 1 file_boot = 0x5000" "fd_filesystem (kmem file_boot) 0x5000 = fat16_fs_at file_boot"
  "fd_private (kmem file_boot) 0x5000 = 0x30000" "file_descriptors_at file_boot = 0x2000"
  by (simp_all add: file_get_descriptor_def fd_filesystem_def fd_private_def slot_def file_boot_def demo_fat_mem_def read32_def)

theorem fseek_fstat_keep_table_witness:
  "\<exists>r s' q s''. fseek 1 599 SEEK_CURRENT file_boot = Some (r, s') \<and> fstat 1 0x6000 file_boot = Some (q, s'') \<and>
     fd_table s' = fd_table file_boot \<and> fd_table s'' = fd_table file_boot"
proof -
  have "\<exists>r s' q s''. fseek 1 599 SEEK_CURRENT file_boot = Some (r, s') \<and> fstat 1 0x6000 file_boot = Some (q, s'') \<and>
     (r < 0 \<longrightarrow> s' = file_boot) \<and> (q < 0 \<longrightarrow> s'' = file_boot) \<and> fd_table s' = fd_table file_boot \<and>
     fd_table s'' = fd_table file_boot"
    by (rule fseek_fstat_keep_table [of "0x5000"]) (simp_all add: file_boot_open span_disjoint)
  then show ?thesis by blast
qed

end
