(* ===== verification/Elf.thy ===== *)
theory Elf
  imports File
begin

text \<open>
  \<^verbatim>\<open>src/loader/formats\<close>: the layout of ELF files (\<^verbatim>\<open>elf.h\<close>, \<^verbatim>\<open>elf.c\<close>) and the loader (\<^verbatim>\<open>elfloader.c\<close>).
  The packed structures are read from memory at their offsets. The local \<^verbatim>\<open>struct file_stat\<close> of \<^verbatim>\<open>elf_load\<close>
  is on the stack at \<open>elf_stat_at\<close>; the literal \<^verbatim>\<open>"r"\<close> is at \<open>mode_r_at\<close>.
\<close>

record loadstate = filestate +
  elf_stat_at :: u32
  mode_r_at :: u32

section \<open>Structures\<close>

text \<open>\<^verbatim>\<open>struct elf_header\<close>, 52 bytes.\<close>

definition e_ident :: "mem \<Rightarrow> u32 \<Rightarrow> nat \<Rightarrow> u8" where "e_ident m h i = m (h + word_of_nat i)"
definition e_type :: "mem \<Rightarrow> u32 \<Rightarrow> u16" where "e_type m h = read16 m (h + 16)"
definition e_entry :: "mem \<Rightarrow> u32 \<Rightarrow> u32" where "e_entry m h = read32 m (h + 24)"
definition e_phoff :: "mem \<Rightarrow> u32 \<Rightarrow> int" where "e_phoff m h = sint (read32 m (h + 28))"
definition e_shoff :: "mem \<Rightarrow> u32 \<Rightarrow> int" where "e_shoff m h = sint (read32 m (h + 32))"
definition e_phnum :: "mem \<Rightarrow> u32 \<Rightarrow> u16" where "e_phnum m h = read16 m (h + 44)"
definition e_shstrndx :: "mem \<Rightarrow> u32 \<Rightarrow> u16" where "e_shstrndx m h = read16 m (h + 50)"

text \<open>\<^verbatim>\<open>struct elf32_phdr\<close>, 32 bytes, and the one field of \<^verbatim>\<open>struct elf32_shdr\<close> (40 bytes) that is used.\<close>

definition p_type :: "mem \<Rightarrow> u32 \<Rightarrow> u32" where "p_type m p = read32 m p"
definition p_offset :: "mem \<Rightarrow> u32 \<Rightarrow> u32" where "p_offset m p = read32 m (p + 4)"
definition p_vaddr :: "mem \<Rightarrow> u32 \<Rightarrow> u32" where "p_vaddr m p = read32 m (p + 8)"
definition p_filesz :: "mem \<Rightarrow> u32 \<Rightarrow> u32" where "p_filesz m p = read32 m (p + 16)"
definition p_memsz :: "mem \<Rightarrow> u32 \<Rightarrow> u32" where "p_memsz m p = read32 m (p + 20)"
definition p_flags :: "mem \<Rightarrow> u32 \<Rightarrow> u32" where "p_flags m p = read32 m (p + 24)"
definition sh_offset :: "mem \<Rightarrow> u32 \<Rightarrow> u32" where "sh_offset m p = read32 m (p + 16)"

abbreviation (input) PT_LOAD :: u32 where "PT_LOAD \<equiv> 1"
abbreviation (input) PF_W :: u32 where "PF_W \<equiv> 2"
abbreviation (input) ET_EXEC :: u16 where "ET_EXEC \<equiv> 2"
abbreviation (input) PEACHOS_PROGRAM_VIRTUAL_ADDRESS :: u32 where "PEACHOS_PROGRAM_VIRTUAL_ADDRESS \<equiv> 0x400000"

text \<open>\<^verbatim>\<open>struct elf_file\<close>, 132 bytes.\<close>

definition elf_memory :: "mem \<Rightarrow> u32 \<Rightarrow> u32" where "elf_memory m f = read32 m (f + 112)"
definition elf_virtual_base :: "mem \<Rightarrow> u32 \<Rightarrow> u32" where "elf_virtual_base m f = read32 m (f + 116)"
definition elf_virtual_end :: "mem \<Rightarrow> u32 \<Rightarrow> u32" where "elf_virtual_end m f = read32 m (f + 120)"
definition elf_phys_base :: "mem \<Rightarrow> u32 \<Rightarrow> u32" where "elf_phys_base m f = read32 m (f + 124)"
definition elf_phys_end :: "mem \<Rightarrow> u32 \<Rightarrow> u32" where "elf_phys_end m f = read32 m (f + 128)"

section \<open>Access\<close>

definition elf_get_entry_ptr :: "mem \<Rightarrow> u32 \<Rightarrow> u32" where "elf_get_entry_ptr m h = e_entry m h"
definition elf_get_entry :: "mem \<Rightarrow> u32 \<Rightarrow> u32" where "elf_get_entry m h = e_entry m h"

definition elf_header :: "mem \<Rightarrow> u32 \<Rightarrow> u32" where "elf_header m f = elf_memory m f"

definition elf_sheader :: "mem \<Rightarrow> u32 \<Rightarrow> u32" where "elf_sheader m h = h + word_of_int (e_shoff m h)"

definition elf_pheader :: "mem \<Rightarrow> u32 \<Rightarrow> u32" where
  "elf_pheader m h = (if e_phoff m h = 0 then 0 else h + word_of_int (e_phoff m h))"

definition elf_program_header :: "mem \<Rightarrow> u32 \<Rightarrow> int \<Rightarrow> u32" where
  "elf_program_header m h index = elf_pheader m h + 32 * word_of_int index"

definition elf_section :: "mem \<Rightarrow> u32 \<Rightarrow> int \<Rightarrow> u32" where
  "elf_section m h index = elf_sheader m h + 40 * word_of_int index"

definition elf_phdr_phys_address :: "mem \<Rightarrow> u32 \<Rightarrow> u32 \<Rightarrow> u32" where
  "elf_phdr_phys_address m f phdr = elf_memory m f + p_offset m phdr"

definition elf_str_table :: "mem \<Rightarrow> u32 \<Rightarrow> u32" where
  "elf_str_table m h = h + sh_offset m (elf_section m h (uint (e_shstrndx m h)))"

section \<open>Validation\<close>

definition elf_valid_signature :: "mem \<Rightarrow> u32 \<Rightarrow> bool" where
  "elf_valid_signature m buffer \<longleftrightarrow> memcmp_lit m buffer [0x7f, 0x45, 0x4c, 0x46] = 0"

definition elf_valid_class :: "mem \<Rightarrow> u32 \<Rightarrow> bool" where
  "elf_valid_class m h \<longleftrightarrow> e_ident m h 4 = 0 \<or> e_ident m h 4 = 1"

definition elf_valid_encoding :: "mem \<Rightarrow> u32 \<Rightarrow> bool" where
  "elf_valid_encoding m h \<longleftrightarrow> e_ident m h 5 = 0 \<or> e_ident m h 5 = 1"

definition elf_is_executable :: "mem \<Rightarrow> u32 \<Rightarrow> bool" where
  "elf_is_executable m h \<longleftrightarrow> e_type m h = ET_EXEC \<and> e_entry m h \<ge> PEACHOS_PROGRAM_VIRTUAL_ADDRESS"

definition elf_has_program_header :: "mem \<Rightarrow> u32 \<Rightarrow> bool" where
  "elf_has_program_header m h \<longleftrightarrow> e_phoff m h \<noteq> 0"

definition elf_validate_loaded :: "mem \<Rightarrow> u32 \<Rightarrow> int" where
  "elf_validate_loaded m h =
     (if elf_valid_signature m h \<and> elf_valid_class m h \<and> elf_valid_encoding m h \<and> elf_has_program_header m h
      then PEACHOS_ALL_OK else - EINFORMAT)"

section \<open>Program headers\<close>

definition elf_process_phdr_pt_load :: "mem \<Rightarrow> u32 \<Rightarrow> u32 \<Rightarrow> int \<times> mem" where
  "elf_process_phdr_pt_load m f phdr =
     (let m1 = (if elf_virtual_base m f \<ge> p_vaddr m phdr \<or> elf_virtual_base m f = 0
                then let m' = write32 m (f + 116) (p_vaddr m phdr)
                     in write32 m' (f + 124) (elf_memory m' f + p_offset m' phdr)
                else m);
          end_virtual_address = p_vaddr m1 phdr + p_filesz m1 phdr;
          m2 = (if elf_virtual_end m1 f \<le> end_virtual_address \<or> elf_virtual_end m1 f = 0
                then let m' = write32 m1 (f + 120) end_virtual_address
                     in write32 m' (f + 128) (elf_memory m' f + p_offset m' phdr + p_filesz m' phdr)
                else m1)
      in (0, m2))"

definition elf_process_pheader :: "mem \<Rightarrow> u32 \<Rightarrow> u32 \<Rightarrow> int \<times> mem" where
  "elf_process_pheader m f phdr = (if p_type m phdr = PT_LOAD then elf_process_phdr_pt_load m f phdr else (0, m))"

lemma unat_le_max16: "unat (x :: u16) < 65536"
  using unsigned_less [of x] by simp

function elf_pheaders_loop :: "mem \<Rightarrow> u32 \<Rightarrow> u32 \<Rightarrow> nat \<Rightarrow> int \<Rightarrow> int \<times> mem" where
  "elf_pheaders_loop m f h i res =
     (if i < unat (e_phnum m h)
      then let (res, m1) = elf_process_pheader m f (elf_program_header m h (int i))
           in if res < 0 then (res, m1) else elf_pheaders_loop m1 f h (Suc i) res
      else (res, m))"
  by pat_completeness auto
termination
proof (relation "measure (\<lambda>(m, f, h, i, res). 65536 - i)")
  fix m f h i
  assume "i < unat (e_phnum m h)"
  then have "i < 65536" using unat_le_max16 [of "e_phnum m h"] by simp
  then show "((m', f, h, Suc i, r), m, f, h, i, res) \<in> measure (\<lambda>(m, f, h, i, res). 65536 - i)" for m' r res by simp
qed simp

definition elf_process_pheaders :: "mem \<Rightarrow> u32 \<Rightarrow> int \<times> mem" where
  "elf_process_pheaders m f = elf_pheaders_loop m f (elf_header m f) 0 0"

definition elf_process_loaded :: "mem \<Rightarrow> u32 \<Rightarrow> int \<times> mem" where
  "elf_process_loaded m f =
     (let res = elf_validate_loaded m (elf_header m f) in
      if res < 0 then (res, m) else elf_process_pheaders m f)"

section \<open>Loading\<close>

text \<open>The part after \<^verbatim>\<open>fopen\<close>; the pointer stored through \<^verbatim>\<open>file_out\<close> is a result, \<open>None\<close> if none is stored.\<close>

definition elf_load_from :: "device \<Rightarrow> u32 \<Rightarrow> int \<Rightarrow> 'z loadstate_scheme \<Rightarrow> (int \<times> u32 option \<times> 'z loadstate_scheme) option" where
  "elf_load_from dev elf_file fd s = do {
     (res, s1) \<leftarrow> fstat fd (elf_stat_at s) s;
     if res < 0 then Some (res, None, s1)
     else do {
       let filesize = read32 (kmem s1) (elf_stat_at s1 + 4);
       let (p, s2) = kzalloc filesize s1;
       let s3 = put_kmem (write32 (kmem s2) (elf_file + 112) p) s2;
       (res, s4) \<leftarrow> fread dev (elf_memory (kmem s3) elf_file) filesize 1 fd s3;
       if res < 0 then Some (res, None, s4)
       else do {
         let (res, m) = elf_process_loaded (kmem s4) elf_file;
         let s5 = put_kmem m s4;
         Some (res, if res < 0 then None else Some elf_file, s5)
       }
     }
   }"

definition elf_load :: "device \<Rightarrow> u32 \<Rightarrow> 'z loadstate_scheme \<Rightarrow> (int \<times> u32 option \<times> 'z loadstate_scheme) option" where
  "elf_load dev filename s = do {
     let (elf_file, s1) = kzalloc 132 s;
     (res, s2) \<leftarrow> fopen dev filename (mode_r_at s1) s1;
     (fd, res, out, s3) \<leftarrow> (if res < 0 then Some (0, res, None, s2)
       else do { (r, out, s3) \<leftarrow> elf_load_from dev elf_file res s2; Some (res, r, out, s3) });
     (r, s4) \<leftarrow> fclose fd s3;
     Some (res, out, s4)
   }"

definition elf_close :: "u32 \<Rightarrow> 'z kstate_scheme \<Rightarrow> 'z kstate_scheme" where
  "elf_close f s = (if f = 0 then s else kfree f (kfree (elf_memory (kmem s) f) s))"


section \<open>The extent of the segments\<close>

declare elf_pheaders_loop.simps [simp del]

definition phdr_at :: "mem \<Rightarrow> u32 \<Rightarrow> nat \<Rightarrow> u32" where
  "phdr_at m h j = elf_program_header m h (int j)"

definition load_segments :: "mem \<Rightarrow> u32 \<Rightarrow> nat \<Rightarrow> u32 list" where
  "load_segments m h n = filter (\<lambda>p. p_type m p = PT_LOAD) (map (phdr_at m h) [0..<n])"

abbreviation (input) segment_end :: "mem \<Rightarrow> u32 \<Rightarrow> u32" where
  "segment_end m p \<equiv> p_vaddr m p + p_filesz m p"

lemma elf_fields_apart:
  "span (f + 112 :: u32) 4 \<inter> span (f + 116) 16 = {}"
  "span (f + 116 :: u32) 4 \<inter> span (f + 120) 4 = {}" "span (f + 116 :: u32) 4 \<inter> span (f + 124) 4 = {}"
  "span (f + 116 :: u32) 4 \<inter> span (f + 128) 4 = {}" "span (f + 120 :: u32) 4 \<inter> span (f + 124) 4 = {}"
  "span (f + 120 :: u32) 4 \<inter> span (f + 128) 4 = {}" "span (f + 124 :: u32) 4 \<inter> span (f + 128) 4 = {}"
  "span (f + 116 :: u32) 4 \<subseteq> span (f + 116) 16" "span (f + 120 :: u32) 4 \<subseteq> span (f + 116) 16"
  "span (f + 124 :: u32) 4 \<subseteq> span (f + 116) 16" "span (f + 128 :: u32) 4 \<subseteq> span (f + 116) 16"
proof -
  show "span (f + 112 :: u32) 4 \<inter> span (f + 116) 16 = {}"
    by (auto simp: span4_cases) (simp_all add: span_def unsigned_minus_1_eq_mask mask_eq_exp_minus_1)
  show "span (f + 116 :: u32) 4 \<inter> span (f + 120) 4 = {}" "span (f + 116 :: u32) 4 \<inter> span (f + 124) 4 = {}"
    "span (f + 116 :: u32) 4 \<inter> span (f + 128) 4 = {}" "span (f + 120 :: u32) 4 \<inter> span (f + 124) 4 = {}"
    "span (f + 120 :: u32) 4 \<inter> span (f + 128) 4 = {}" "span (f + 124 :: u32) 4 \<inter> span (f + 128) 4 = {}"
    by (auto simp: span4_cases add.assoc)
  show "span (f + 116 :: u32) 4 \<subseteq> span (f + 116) 16" "span (f + 120 :: u32) 4 \<subseteq> span (f + 116) 16"
    "span (f + 124 :: u32) 4 \<subseteq> span (f + 116) 16" "span (f + 128 :: u32) 4 \<subseteq> span (f + 116) 16"
    by (auto simp: span4_cases) (simp_all add: span_def)
qed


lemmas elf_fields_sep = elf_fields_apart(2-7) elf_fields_apart(2-7) [THEN trans [OF Int_commute]]

text \<open>The program header \<open>p\<close> and the header \<open>h\<close> read the same in two memories that differ in the extent
  fields of \<open>f\<close> only.\<close>

abbreviation (input) extent :: "u32 \<Rightarrow> u32 set" where
  "extent f \<equiv> span (f + 116) 16"

lemma phdr_agree:
  assumes "agree_off S m m'" "span p 32 \<inter> S = {}"
  shows "p_type m' p = p_type m p" "p_offset m' p = p_offset m p" "p_vaddr m' p = p_vaddr m p" "p_filesz m' p = p_filesz m p"
proof -
  have "span p 4 \<subseteq> span p 32" "span (p + 4) 4 \<subseteq> span p 32" "span (p + 8) 4 \<subseteq> span p 32" "span (p + 16) 4 \<subseteq> span p 32"
    using span_mono [of 4 32 p] word_offset_in [of 4 4 4 32 p] word_offset_in [of 8 8 4 32 p] word_offset_in [of 16 16 4 32 p]
    by simp_all
  then show "p_type m' p = p_type m p" "p_offset m' p = p_offset m p" "p_vaddr m' p = p_vaddr m p" "p_filesz m' p = p_filesz m p"
    unfolding p_type_def p_offset_def p_vaddr_def p_filesz_def
    using assms(2) by (blast intro: read32_agree [OF assms(1)])+
qed

lemma header_agree:
  assumes "agree_off S m m'" "span h 52 \<inter> S = {}"
  shows "e_phnum m' h = e_phnum m h" "phdr_at m' h j = phdr_at m h j"
proof -
  have "span (h + 28) 4 \<subseteq> span h 52" "span (h + 44) 2 \<subseteq> span h 52"
    using word_offset_in [of 28 28 4 52 h] word_offset_in [of 44 44 2 52 h] by simp_all
  then have "read32 m' (h + 28) = read32 m (h + 28)" "read16 m' (h + 44) = read16 m (h + 44)"
    using assms(2) by (blast intro: read32_agree [OF assms(1)] read16_agree [OF assms(1)])+
  then show "e_phnum m' h = e_phnum m h" "phdr_at m' h j = phdr_at m h j"
    by (simp_all add: e_phnum_def phdr_at_def elf_program_header_def elf_pheader_def e_phoff_def)
qed

lemma elf_memory_agree: "agree_off (extent f) m m' \<Longrightarrow> elf_memory m' f = elf_memory m f"
  unfolding elf_memory_def by (erule read32_agree) (rule elf_fields_apart(1))

lemma base_part:
  fixes m :: mem and f p :: u32
  assumes "span p 32 \<inter> extent f = {}"
  defines "m1 \<equiv> if elf_virtual_base m f \<ge> p_vaddr m p \<or> elf_virtual_base m f = 0
     then let m' = write32 m (f + 116) (p_vaddr m p) in write32 m' (f + 124) (elf_memory m' f + p_offset m' p) else m"
  defines "c \<equiv> elf_virtual_base m f \<ge> p_vaddr m p \<or> elf_virtual_base m f = 0"
  shows "agree_off (extent f) m m1" "elf_virtual_base m1 f = (if c then p_vaddr m p else elf_virtual_base m f)"
    "elf_phys_base m1 f = (if c then elf_memory m f + p_offset m p else elf_phys_base m f)"
    "elf_virtual_end m1 f = elf_virtual_end m f" "elf_phys_end m1 f = elf_phys_end m f"
proof -
  let ?m' = "write32 m (f + 116) (p_vaddr m p)"
  have a: "agree_off (extent f) m ?m'" using agree_off_mono [OF write32_agree elf_fields_apart(8)] .
  have e: "elf_memory ?m' f = elf_memory m f" "p_offset ?m' p = p_offset m p"
    using elf_memory_agree [OF a] phdr_agree(2) [OF a assms(1)] by simp_all
  have m1: "m1 = (if c then write32 ?m' (f + 124) (elf_memory m f + p_offset m p) else m)"
    unfolding m1_def Let_def e c_def ..
  show "agree_off (extent f) m m1" unfolding m1
    using agree_off_trans_same [OF a agree_off_mono [OF write32_agree elf_fields_apart(10)]] by simp
  show "elf_virtual_base m1 f = (if c then p_vaddr m p else elf_virtual_base m f)"
    "elf_phys_base m1 f = (if c then elf_memory m f + p_offset m p else elf_phys_base m f)"
    "elf_virtual_end m1 f = elf_virtual_end m f" "elf_phys_end m1 f = elf_phys_end m f"
    unfolding m1 by (simp_all add: elf_virtual_base_def elf_phys_base_def elf_virtual_end_def elf_phys_end_def mem_simps elf_fields_sep)
qed

lemma end_part:
  fixes m :: mem and f p :: u32
  assumes "span p 32 \<inter> extent f = {}"
  defines "e \<equiv> segment_end m p"
  defines "m1 \<equiv> if elf_virtual_end m f \<le> e \<or> elf_virtual_end m f = 0
     then let m' = write32 m (f + 120) e in write32 m' (f + 128) (elf_memory m' f + p_offset m' p + p_filesz m' p) else m"
  defines "c \<equiv> elf_virtual_end m f \<le> e \<or> elf_virtual_end m f = 0"
  shows "agree_off (extent f) m m1" "elf_virtual_end m1 f = (if c then e else elf_virtual_end m f)"
    "elf_phys_end m1 f = (if c then elf_memory m f + p_offset m p + p_filesz m p else elf_phys_end m f)"
    "elf_virtual_base m1 f = elf_virtual_base m f" "elf_phys_base m1 f = elf_phys_base m f"
proof -
  let ?m' = "write32 m (f + 120) e"
  have a: "agree_off (extent f) m ?m'" using agree_off_mono [OF write32_agree elf_fields_apart(9)] .
  have o: "elf_memory ?m' f = elf_memory m f" "p_offset ?m' p = p_offset m p" "p_filesz ?m' p = p_filesz m p"
    using elf_memory_agree [OF a] phdr_agree(2,4) [OF a assms(1)] by simp_all
  have m1: "m1 = (if c then write32 ?m' (f + 128) (elf_memory m f + p_offset m p + p_filesz m p) else m)"
    unfolding m1_def Let_def o c_def ..
  show "agree_off (extent f) m m1" unfolding m1
    using agree_off_trans_same [OF a agree_off_mono [OF write32_agree elf_fields_apart(11)]] by simp
  show "elf_virtual_end m1 f = (if c then e else elf_virtual_end m f)"
    "elf_phys_end m1 f = (if c then elf_memory m f + p_offset m p + p_filesz m p else elf_phys_end m f)"
    "elf_virtual_base m1 f = elf_virtual_base m f" "elf_phys_base m1 f = elf_phys_base m f"
    unfolding m1 by (simp_all add: elf_virtual_base_def elf_phys_base_def elf_virtual_end_def elf_phys_end_def mem_simps elf_fields_sep)
qed


text \<open>What the four fields hold after the segments \<open>ps\<close> of \<open>m\<close> have been seen: nothing, or the least start
  and the greatest end, each with the address in the loaded file of a segment that attains it.\<close>

definition extent_of :: "mem \<Rightarrow> u32 \<Rightarrow> mem \<Rightarrow> u32 list \<Rightarrow> bool" where
  "extent_of m f m' ps \<longleftrightarrow>
     (if ps = [] then elf_virtual_base m' f = 0 \<and> elf_virtual_end m' f = 0
      else elf_virtual_base m' f = Min (p_vaddr m ` set ps) \<and> elf_virtual_end m' f = Max (segment_end m ` set ps) \<and>
        (\<exists>p \<in> set ps. p_vaddr m p = elf_virtual_base m' f \<and> elf_phys_base m' f = elf_memory m f + p_offset m p) \<and>
        (\<exists>p \<in> set ps. segment_end m p = elf_virtual_end m' f \<and>
           elf_phys_end m' f = elf_memory m f + p_offset m p + p_filesz m p))"

lemma pt_load_extent:
  assumes "agree_off (extent f) m mi" "span p 32 \<inter> extent f = {}" "extent_of m f mi ps"
    "\<forall>q \<in> set ps. p_vaddr m q \<noteq> 0 \<and> segment_end m q \<noteq> 0"
  obtains m' where "elf_process_phdr_pt_load mi f p = (0, m')" "agree_off (extent f) m m'" "extent_of m f m' (ps @ [p])"
proof -
  note r = phdr_agree [OF assms(1,2)] elf_memory_agree [OF assms(1)]
  define c where "c \<longleftrightarrow> elf_virtual_base mi f \<ge> p_vaddr mi p \<or> elf_virtual_base mi f = 0"
  define m1 where "m1 = (if elf_virtual_base mi f \<ge> p_vaddr mi p \<or> elf_virtual_base mi f = 0
     then let m' = write32 mi (f + 116) (p_vaddr mi p) in write32 m' (f + 124) (elf_memory m' f + p_offset m' p) else mi)"
  note b = base_part [OF assms(2), of mi, folded m1_def c_def]
  have a1: "agree_off (extent f) m m1" by (rule agree_off_trans_same [OF assms(1) b(1)])
  note r1 = phdr_agree [OF a1 assms(2)] elf_memory_agree [OF a1]
  define d where "d \<longleftrightarrow> elf_virtual_end m1 f \<le> segment_end m1 p \<or> elf_virtual_end m1 f = 0"
  define m2 where "m2 = (if elf_virtual_end m1 f \<le> segment_end m1 p \<or> elf_virtual_end m1 f = 0
     then let m' = write32 m1 (f + 120) (segment_end m1 p) in write32 m' (f + 128) (elf_memory m' f + p_offset m' p + p_filesz m' p)
     else m1)"
  note e = end_part [OF assms(2), of m1, folded m2_def d_def]
  have a2: "agree_off (extent f) m m2" by (rule agree_off_trans_same [OF a1 e(1)])
  have run: "elf_process_phdr_pt_load mi f p = (0, m2)"
    unfolding elf_process_phdr_pt_load_def m2_def m1_def Let_def ..
  have base: "elf_virtual_base m2 f = (if c then p_vaddr m p else elf_virtual_base mi f)"
    "elf_phys_base m2 f = (if c then elf_memory m f + p_offset m p else elf_phys_base mi f)"
    using b e r by simp_all
  have en: "elf_virtual_end m2 f = (if d then segment_end m p else elf_virtual_end mi f)"
    "elf_phys_end m2 f = (if d then elf_memory m f + p_offset m p + p_filesz m p else elf_phys_end mi f)"
    using b e r1 by simp_all
  have "extent_of m f m2 (ps @ [p])"
  proof (cases "ps = []")
    case True
    then have "c" "d" using assms(3) b(4) unfolding c_def d_def by (simp_all add: extent_of_def)
    then show ?thesis using True base en by (simp add: extent_of_def)
  next
    case False
    note x = assms(3) [unfolded extent_of_def, simplified False if_False]
    have v: "elf_virtual_base mi f = Min (p_vaddr m ` set ps)" "elf_virtual_end mi f = Max (segment_end m ` set ps)"
      and w: "\<exists>p \<in> set ps. p_vaddr m p = elf_virtual_base mi f \<and> elf_phys_base mi f = elf_memory m f + p_offset m p"
        "\<exists>p \<in> set ps. segment_end m p = elf_virtual_end mi f \<and> elf_phys_end mi f = elf_memory m f + p_offset m p + p_filesz m p"
      using x by blast+
    have nz: "elf_virtual_base mi f \<noteq> 0" "elf_virtual_end mi f \<noteq> 0" using w assms(4) by force+
    have cd: "c \<longleftrightarrow> p_vaddr m p \<le> elf_virtual_base mi f" "d \<longleftrightarrow> elf_virtual_end mi f \<le> segment_end m p"
      using nz b(4) r r1 unfolding c_def d_def by simp_all
    have sets: "set (ps @ [p]) = insert p (set ps)" by auto
    have "Min (p_vaddr m ` set (ps @ [p])) = min (p_vaddr m p) (elf_virtual_base mi f)"
      "Max (segment_end m ` set (ps @ [p])) = max (segment_end m p) (elf_virtual_end mi f)"
      unfolding sets v image_insert using False by (simp_all add: Min_insert Max_insert)
    then have "elf_virtual_base m2 f = Min (p_vaddr m ` set (ps @ [p]))" "elf_virtual_end m2 f = Max (segment_end m ` set (ps @ [p]))"
      using base(1) en(1) cd by (auto simp: min_def max_def)
    moreover have "\<exists>q \<in> set (ps @ [p]). p_vaddr m q = elf_virtual_base m2 f \<and> elf_phys_base m2 f = elf_memory m f + p_offset m q"
      using base w(1) by (cases c) auto
    moreover have "\<exists>q \<in> set (ps @ [p]). segment_end m q = elf_virtual_end m2 f \<and>
        elf_phys_end m2 f = elf_memory m f + p_offset m q + p_filesz m q"
      using en w(2) by (cases d) auto
    ultimately show ?thesis by (simp add: extent_of_def)
  qed
  then show ?thesis using that run a2 by blast
qed

lemma pheaders_loop_extent:
  assumes "span h 52 \<inter> extent f = {}" "\<forall>j < k. span (phdr_at m h j) 32 \<inter> extent f = {}" "unat (e_phnum m h) = k"
    "\<forall>q \<in> set (load_segments m h k). p_vaddr m q \<noteq> 0 \<and> segment_end m q \<noteq> 0"
  shows "i \<le> k \<Longrightarrow> agree_off (extent f) m mi \<Longrightarrow> extent_of m f mi (load_segments m h i) \<Longrightarrow>
    \<exists>m'. elf_pheaders_loop mi f h i 0 = (0, m') \<and> agree_off (extent f) m m' \<and> extent_of m f m' (load_segments m h k)"
proof (induction "k - i" arbitrary: i mi)
  case 0
  then have "i = k" by simp
  moreover have "unat (e_phnum mi h) = k" using header_agree(1) [OF 0(3) assms(1)] assms(3) by simp
  ultimately show ?case using 0 by (subst elf_pheaders_loop.simps) auto
next
  case (Suc n)
  have ik: "i < k" using Suc.hyps(2) by simp
  let ?p = "phdr_at m h i"
  note hd = header_agree [OF Suc.prems(2) assms(1)]
  have sp: "span ?p 32 \<inter> extent f = {}" using assms(2) ik by blast
  have pt: "p_type mi ?p = p_type m ?p" by (rule phdr_agree(1) [OF Suc.prems(2) sp])
  have segs: "load_segments m h (Suc i) = load_segments m h i @ (if p_type m ?p = PT_LOAD then [?p] else [])"
    by (simp add: load_segments_def)
  have "set (load_segments m h i) \<subseteq> set (load_segments m h k)" using ik by (auto simp: load_segments_def)
  then have nz: "\<forall>q \<in> set (load_segments m h i). p_vaddr m q \<noteq> 0 \<and> segment_end m q \<noteq> 0" using assms(4) by blast
  have "\<exists>m1. elf_process_pheader mi f ?p = (0, m1) \<and> agree_off (extent f) m m1 \<and> extent_of m f m1 (load_segments m h (Suc i))"
  proof (cases "p_type m ?p = PT_LOAD")
    case True
    obtain m' where "elf_process_phdr_pt_load mi f ?p = (0, m')" "agree_off (extent f) m m'"
        "extent_of m f m' (load_segments m h i @ [?p])"
      by (rule pt_load_extent [OF Suc.prems(2) sp Suc.prems(3) nz])
    then show ?thesis using True pt segs by (simp add: elf_process_pheader_def)
  next
    case False
    then show ?thesis using Suc.prems(2,3) pt segs by (simp add: elf_process_pheader_def)
  qed
  then obtain m1 where m1: "elf_process_pheader mi f ?p = (0, m1)" "agree_off (extent f) m m1"
    "extent_of m f m1 (load_segments m h (Suc i))" by blast
  have "elf_pheaders_loop mi f h i 0 = elf_pheaders_loop m1 f h (Suc i) 0"
    using ik hd(1) assms(3) m1(1) hd(2) [of i] by (subst elf_pheaders_loop.simps) (simp add: phdr_at_def)
  moreover have "n = k - Suc i" "Suc i \<le> k" using Suc.hyps(2) ik by simp_all
  ultimately show ?case using Suc.hyps(1) [of "Suc i" m1] m1(2,3) by simp
qed


section \<open>Properties\<close>

definition elf_acceptable :: "mem \<Rightarrow> u32 \<Rightarrow> bool" where
  "elf_acceptable m h \<longleftrightarrow> bytes m h 4 = [0x7f, 0x45, 0x4c, 0x46] \<and> m (h + 4) \<in> {0, 1} \<and> m (h + 5) \<in> {0, 1} \<and>
     read32 m (h + 28) \<noteq> 0"

lemma elf_validate_loaded_iff:
  "elf_validate_loaded m h = (if elf_acceptable m h then 0 else - EINFORMAT)"
proof -
  have n: "length [0x7f, 0x45, 0x4c, 0x46 :: u8] = 4" by simp
  have "elf_valid_signature m h \<longleftrightarrow> bytes m h 4 = [0x7f, 0x45, 0x4c, 0x46]"
    unfolding elf_valid_signature_def memcmp_lit_0_iff n ..
  moreover have "elf_has_program_header m h \<longleftrightarrow> read32 m (h + 28) \<noteq> 0"
    by (simp add: elf_has_program_header_def e_phoff_def signed_eq_0_iff)
  ultimately show ?thesis
    by (auto simp: elf_validate_loaded_def elf_acceptable_def elf_valid_class_def elf_valid_encoding_def e_ident_def)
qed

text \<open>C32: \<^verbatim>\<open>elf_process_loaded\<close> refuses with -EINFORMAT, and writes nothing, unless the
  file starts with the ELF signature, its class and encoding bytes are 0 or 1 and it has a program header table.
  Otherwise it returns 0 and leaves in the four extent fields of the \<^verbatim>\<open>struct elf_file\<close>, and
  nowhere else, the least address at which a loadable segment starts and the greatest at which one ends, each with the
  place in the loaded file of a segment that attains it, provided no segment starts or ends at address 0.\<close>

theorem elf_process_loaded_extent:
  assumes "h = elf_memory m f" "k = unat (e_phnum m h)" "elf_virtual_base m f = 0" "elf_virtual_end m f = 0"
    "span h 52 \<inter> span (f + 116) 16 = {}" "\<forall>j < k. span (phdr_at m h j) 32 \<inter> span (f + 116) 16 = {}"
    "\<forall>q \<in> set (load_segments m h k). p_vaddr m q \<noteq> 0 \<and> p_vaddr m q + p_filesz m q \<noteq> 0"
  shows "if elf_acceptable m h
    then \<exists>m'. elf_process_loaded m f = (0, m') \<and> agree_off (span (f + 116) 16) m m' \<and>
      extent_of m f m' (load_segments m h k)
    else elf_process_loaded m f = (- EINFORMAT, m)"
proof -
  have "extent_of m f m (load_segments m h 0)" using assms(3,4) by (simp add: extent_of_def load_segments_def)
  then have "\<exists>m'. elf_pheaders_loop m f h 0 0 = (0, m') \<and> agree_off (span (f + 116) 16) m m' \<and>
      extent_of m f m' (load_segments m h k)"
    by (intro pheaders_loop_extent [OF assms(5,6) assms(2) [symmetric] assms(7)]) simp_all
  then show ?thesis
    using elf_validate_loaded_iff [of m h]
    by (simp add: elf_process_loaded_def elf_process_pheaders_def elf_header_def assms(1) [symmetric])
qed

text \<open>When \<^verbatim>\<open>fopen\<close> fails, which it reports by 0, \<^verbatim>\<open>elf_load\<close> goes on with descriptor 0; \<^verbatim>\<open>fstat\<close> then
  refuses it, and the result is -EIO whatever the reason was. The zeroed \<^verbatim>\<open>struct elf_file\<close> stays allocated.\<close>

theorem elf_load_unopened:
  assumes "kzalloc 132 s = (f, s1)" "fopen dev filename (mode_r_at s1) s1 = Some (0, s2)"
  shows "elf_load dev filename s = Some (- EIO, None, s2)"
  using assms by (simp add: elf_load_def elf_load_from_def fstat_def fclose_def file_get_descriptor_def)

text \<open>Two loadable segments and one that is not, at addresses 0x402000, 0x400000 and 0x900000.\<close>

definition demo_elf_mem :: mem where
  "demo_elf_mem = (\<lambda>_. 0)(0x1071 := 0x20, 0x2000 := 0x7f, 0x2001 := 0x45, 0x2002 := 0x4c, 0x2003 := 0x46, 0x2004 := 1,
     0x2005 := 1, 0x201c := 52, 0x202c := 3, 0x2034 := 1, 0x2038 := 0x80, 0x203d := 0x20, 0x203e := 0x40, 0x2044 := 0x10,
     0x2054 := 1, 0x2058 := 0x90, 0x205e := 0x40, 0x2064 := 0x20, 0x2074 := 4, 0x207e := 0x90)"

lemma bytes4: "bytes m p 4 = [m p, m (p + 1), m (p + 2), m (p + 3)]"
  by (simp add: eval_nat_numeral add.assoc)

lemma demo_elf_header:
  "elf_memory demo_elf_mem 0x1000 = 0x2000" "elf_virtual_base demo_elf_mem 0x1000 = 0" "elf_virtual_end demo_elf_mem 0x1000 = 0"
  "e_phnum demo_elf_mem 0x2000 = 3" "elf_pheader demo_elf_mem 0x2000 = 0x2034" "elf_acceptable demo_elf_mem 0x2000"
proof -
  have "bytes demo_elf_mem 0x2000 4 = [0x7f, 0x45, 0x4c, 0x46]"
    unfolding bytes4 by (simp add: demo_elf_mem_def)
  then show "elf_acceptable demo_elf_mem 0x2000"
    by (simp add: elf_acceptable_def) (simp add: demo_elf_mem_def read32_def)
qed (simp_all add: demo_elf_mem_def elf_memory_def elf_virtual_base_def elf_virtual_end_def e_phnum_def elf_pheader_def e_phoff_def
    read32_def read16_def)

lemma demo_elf_phdrs:
  "p_type demo_elf_mem 0x2034 = 1" "p_type demo_elf_mem 0x2054 = 1" "p_type demo_elf_mem 0x2074 = 4"
  "p_vaddr demo_elf_mem 0x2034 = 0x402000" "p_vaddr demo_elf_mem 0x2054 = 0x400000"
  "p_filesz demo_elf_mem 0x2034 = 0x10" "p_filesz demo_elf_mem 0x2054 = 0x20"
  by (simp_all add: demo_elf_mem_def p_type_def p_vaddr_def p_filesz_def read32_def)

lemma demo_elf_places:
  "phdr_at demo_elf_mem 0x2000 0 = 0x2034" "phdr_at demo_elf_mem 0x2000 (Suc 0) = 0x2054" "phdr_at demo_elf_mem 0x2000 2 = 0x2074"
  by (simp_all add: phdr_at_def elf_program_header_def demo_elf_header)

lemma demo_elf_segments: "load_segments demo_elf_mem 0x2000 3 = [0x2034, 0x2054]"
proof -
  have "[0..<3] = [0, Suc 0, 2]" by (simp add: upt_rec)
  then show ?thesis by (simp add: load_segments_def demo_elf_places demo_elf_phdrs)
qed

theorem elf_process_loaded_extent_witness:
  "\<exists>m'. elf_process_loaded demo_elf_mem 0x1000 = (0, m') \<and> elf_virtual_base m' 0x1000 = 0x400000 \<and>
     elf_virtual_end m' 0x1000 = 0x402010"
proof -
  have l3: "j < 3 \<longleftrightarrow> j = 0 \<or> j = Suc 0 \<or> j = 2" for j :: nat by auto
  have "if elf_acceptable demo_elf_mem 0x2000
    then \<exists>m'. elf_process_loaded demo_elf_mem 0x1000 = (0, m') \<and> agree_off (span (0x1000 + 116) 16) demo_elf_mem m' \<and>
      extent_of demo_elf_mem 0x1000 m' (load_segments demo_elf_mem 0x2000 3)
    else elf_process_loaded demo_elf_mem 0x1000 = (- EINFORMAT, demo_elf_mem)"
    by (rule elf_process_loaded_extent)
      (auto simp: demo_elf_header demo_elf_segments demo_elf_phdrs l3 demo_elf_places span_disjoint_sym)
  then obtain m' where m': "elf_process_loaded demo_elf_mem 0x1000 = (0, m')"
    "extent_of demo_elf_mem 0x1000 m' [0x2034, 0x2054]" unfolding demo_elf_segments using demo_elf_header(6) by auto
  then show ?thesis by (simp add: extent_of_def demo_elf_phdrs)
qed

definition demo_loadstate :: loadstate where
  "demo_loadstate = \<lparr>kmem = (\<lambda>_. 0), video_mem = 0, terminal_row = 0, terminal_col = 0, kernel_heap = boot_heap,
     current_directory = 0, cr3 = 0, iolog = [],
     the_disk = \<lparr>disk_type = 0, sector_size = 512, disk_id = 0, disk_filesystem = 0, disk_fs_private = 0\<rparr>,
     disk_at = 0x300, fat16_fs_at = 0x3100, tmp_filename_at = 0x40000, filesystems_at = 0x3000, file_descriptors_at = 0x2000,
     elf_stat_at = 0x6000, mode_r_at = 0x500\<rparr>"

theorem elf_load_unopened_witness:
  "\<exists>s1 f. kzalloc 132 (kheap_init demo_loadstate) = (f, s1) \<and>
     elf_load demo_drive 0x600 (kheap_init demo_loadstate) = Some (- EIO, None, s1)"
proof -
  have p: "0 < kheap_avail (kheap_init demo_loadstate)" "kheap_ready (kheap_init demo_loadstate) (\<lambda>_. None)"
    using kheap_init_avail [of demo_loadstate] by simp_all
  have "(132 :: u32) \<noteq> 0" "unat (132 :: u32) \<le> 4096" by simp_all
  then obtain f s1 where f: "kzalloc 132 (kheap_init demo_loadstate) = (f, s1)" "grows {} (kheap_init demo_loadstate) s1 [f \<mapsto> 1]"
    using kzalloc_grows [OF p(2) _ _ p(1)] by metis
  have "heap_apart (kheap_init demo_loadstate) (\<lambda>_. None) (span 0x600 1)" by (rule boot_apart) simp
  then have n: "0x600 \<notin> kheap_spare (kheap_init demo_loadstate)"
    using heap_apart_spare [of "kheap_init demo_loadstate" "\<lambda>_. None" "span 0x600 1"] span_base_in [OF zero_less_one, of "0x600 :: u32"]
    by (meson disjoint_iff)
  have "kmem (kheap_init demo_loadstate) 0x600 = 0"
  proof -
    obtain m where "kheap_init demo_loadstate = demo_loadstate\<lparr>kmem := m, kernel_heap := boot_heap\<rparr>"
      "agree_off (table_region boot_heap) (kmem demo_loadstate) m" using kheap_init_eq by blast
    then show ?thesis using agree_offD [of "table_region boot_heap" "kmem demo_loadstate" m "0x600"]
      by (simp add: table_region_def span_iff demo_loadstate_def)
  qed
  then have "cstr (kmem s1) 0x600 []" using grows_same [OF f(2) n] by simp
  then have "pathparser_parse 0x600 0 s1 = Some (0, s1)" by (rule parse_refused) simp_all
  then have "fopen demo_drive 0x600 (mode_r_at s1) s1 = Some (0, s1)" by (simp add: fopen_def fopen_result_def)
  then show ?thesis using elf_load_unopened [OF f(1)] f(1) by blast
qed

end
