(* ===== verification/Task.thy ===== *)
theory Task
  imports Elf
begin

text \<open>
  \<^verbatim>\<open>src/task/task.c\<close>, the register switches of \<^verbatim>\<open>task.asm\<close> and \<^verbatim>\<open>kernel.asm\<close>, and \<^verbatim>\<open>kernel_page\<close> of
  \<^verbatim>\<open>kernel.c\<close>. A \<^verbatim>\<open>struct task\<close> is 64 bytes of kernel heap: the address space, twelve saved registers, the
  process and the two links of the task list. Where the code reads or writes through the address space of a
  task, the access is translated by the page tables in memory; every other access of the kernel goes through
  pages that all address spaces map to themselves. An access to a page that is not present faults for
  ever: \<open>None\<close>.
\<close>

record taskstate = loadstate +
  current_task :: u32
  task_tail :: u32
  task_head :: u32
  kernel_chunk :: u32
  data_segments :: u16

abbreviation (input) USER_DATA_SEGMENT :: u32 where "USER_DATA_SEGMENT \<equiv> 0x23"
abbreviation (input) USER_CODE_SEGMENT :: u32 where "USER_CODE_SEGMENT \<equiv> 0x1b"
abbreviation (input) PEACHOS_PROGRAM_VIRTUAL_STACK_ADDRESS_START :: u32 where "PEACHOS_PROGRAM_VIRTUAL_STACK_ADDRESS_START \<equiv> 0x3ff000"
abbreviation (input) PROCESS_FILETYPE_ELF :: u8 where "PROCESS_FILETYPE_ELF \<equiv> 0"
abbreviation (input) PROCESS_FILETYPE_BINARY :: u8 where "PROCESS_FILETYPE_BINARY \<equiv> 1"

section \<open>Structures\<close>

definition task_page_directory :: "mem \<Rightarrow> u32 \<Rightarrow> u32" where "task_page_directory m t = read32 m t"
definition task_process :: "mem \<Rightarrow> u32 \<Rightarrow> u32" where "task_process m t = read32 m (t + 52)"
definition task_next :: "mem \<Rightarrow> u32 \<Rightarrow> u32" where "task_next m t = read32 m (t + 56)"
definition task_prev :: "mem \<Rightarrow> u32 \<Rightarrow> u32" where "task_prev m t = read32 m (t + 60)"

text \<open>The fields of \<^verbatim>\<open>struct process\<close> that a task reads.\<close>

definition process_filetype :: "mem \<Rightarrow> u32 \<Rightarrow> u8" where "process_filetype m p = m (p + 4212)"
definition process_ptr :: "mem \<Rightarrow> u32 \<Rightarrow> u32" where "process_ptr m p = read32 m (p + 4216)"

section \<open>Address spaces and segments\<close>

definition kernel_registers :: "'z taskstate_scheme \<Rightarrow> 'z taskstate_scheme" where
  "kernel_registers s = s\<lparr>data_segments := 0x10\<rparr>"

definition user_registers :: "'z taskstate_scheme \<Rightarrow> 'z taskstate_scheme" where
  "user_registers s = s\<lparr>data_segments := 0x23\<rparr>"

definition kernel_page :: "'z taskstate_scheme \<Rightarrow> 'z taskstate_scheme" where
  "kernel_page s = (let s1 = kernel_registers s in paging_switch (kernel_chunk s1) s1)"

text \<open>The page walk of the processor for the directory \<open>d\<close>.\<close>

definition translate :: "mem \<Rightarrow> u32 \<Rightarrow> u32 \<Rightarrow> u32 option" where
  "translate m d va =
     (let pde = read32 m (d + 4 * (va div 0x400000));
          pte = read32 m ((pde AND 0xfffff000) + 4 * (va mod 0x400000 div 4096))
      in if pde AND 1 = 0 \<or> pte AND 1 = 0 then None else Some ((pte AND 0xfffff000) OR (va AND 0xfff)))"

definition vread :: "mem \<Rightarrow> u32 \<Rightarrow> u32 \<Rightarrow> u8 option" where
  "vread m d va = do { a \<leftarrow> translate m d va; Some (m a) }"

definition vwrite :: "mem \<Rightarrow> u32 \<Rightarrow> u32 \<Rightarrow> u8 \<Rightarrow> mem option" where
  "vwrite m d va v = do { a \<leftarrow> translate m d va; Some (m(a := v)) }"

definition vread32 :: "mem \<Rightarrow> u32 \<Rightarrow> u32 \<Rightarrow> u32 option" where
  "vread32 m d va = do {
     b0 \<leftarrow> vread m d va;
     b1 \<leftarrow> vread m d (va + 1);
     b2 \<leftarrow> vread m d (va + 2);
     b3 \<leftarrow> vread m d (va + 3);
     Some (ucast b0 OR push_bit 8 (ucast b1) OR push_bit 16 (ucast b2) OR push_bit 24 (ucast b3))
   }"

text \<open>\<^verbatim>\<open>strncpy\<close> run in the address space \<open>d\<close>.\<close>

fun vstrncpy_loop :: "mem \<Rightarrow> u32 \<Rightarrow> u32 \<Rightarrow> u32 \<Rightarrow> nat \<Rightarrow> nat \<Rightarrow> mem option" where
  "vstrncpy_loop m d dest src i 0 = vwrite m d (dest + word_of_nat i) 0"
| "vstrncpy_loop m d dest src i (Suc n) = do {
     c \<leftarrow> vread m d (src + word_of_nat i);
     if c = 0 then vwrite m d (dest + word_of_nat i) 0
     else do { m' \<leftarrow> vwrite m d (dest + word_of_nat i) c; vstrncpy_loop m' d dest src (Suc i) n }
   }"

definition vstrncpy :: "mem \<Rightarrow> u32 \<Rightarrow> u32 \<Rightarrow> u32 \<Rightarrow> int \<Rightarrow> mem option" where
  "vstrncpy m d dest src count = vstrncpy_loop m d dest src 0 (nat (count - 1))"

section \<open>The task list\<close>

definition task_get_next :: "'z taskstate_scheme \<Rightarrow> u32" where
  "task_get_next s =
     (if task_next (kmem s) (current_task s) = 0 then task_head s else task_next (kmem s) (current_task s))"

definition task_list_remove :: "u32 \<Rightarrow> 'z taskstate_scheme \<Rightarrow> 'z taskstate_scheme" where
  "task_list_remove task s =
     (let s1 = (if task_prev (kmem s) task \<noteq> 0
                then put_kmem (write32 (kmem s) (task_prev (kmem s) task + 56) (task_next (kmem s) task)) s else s);
          s2 = (if task = task_head s1 then s1\<lparr>task_head := task_next (kmem s1) task\<rparr> else s1);
          s3 = (if task = task_tail s2 then s2\<lparr>task_tail := task_prev (kmem s2) task\<rparr> else s2)
      in if task = current_task s3 then s3\<lparr>current_task := task_get_next s3\<rparr> else s3)"

definition task_free :: "u32 \<Rightarrow> 'z taskstate_scheme \<Rightarrow> int \<times> 'z taskstate_scheme" where
  "task_free task s =
     (let s1 = paging_free_4gb (task_page_directory (kmem s) task) s;
          s2 = task_list_remove task s1
      in (0, kfree task s2))"

definition task_init :: "u32 \<Rightarrow> u32 \<Rightarrow> 'z taskstate_scheme \<Rightarrow> int \<times> 'z taskstate_scheme" where
  "task_init task process s =
     (let s1 = put_kmem (memset (kmem s) task 0 64) s;
          (chunk, s2) = paging_new_4gb (PAGING_IS_PRESENT OR PAGING_ACCESS_FROM_ALL) s1;
          m3 = write32 (kmem s2) task chunk
      in if task_page_directory m3 task = 0 then (- EIO, put_kmem m3 s2)
         else let m4 = write32 m3 (task + 32) PEACHOS_PROGRAM_VIRTUAL_ADDRESS;
                  m5 = (if process_filetype m4 process = PROCESS_FILETYPE_ELF
                        then write32 m4 (task + 32) (e_entry m4 (elf_header m4 (process_ptr m4 process))) else m4);
                  m6 = write32 m5 (task + 48) USER_DATA_SEGMENT;
                  m7 = write32 m6 (task + 36) USER_CODE_SEGMENT;
                  m8 = write32 m7 (task + 44) PEACHOS_PROGRAM_VIRTUAL_STACK_ADDRESS_START;
                  m9 = write32 m8 (task + 52) process
              in (0, put_kmem m9 s2))"

text \<open>An error is returned as the negative number cast to a pointer.\<close>

definition task_new :: "u32 \<Rightarrow> 'z taskstate_scheme \<Rightarrow> u32 \<times> 'z taskstate_scheme" where
  "task_new process s =
     (let (task, s1) = kzalloc 64 s in
      if task = 0 then let (_, s2) = task_free task s1 in (word_of_int (- ENOMEM), s2)
      else let (res, s2) = task_init task process s1 in
        if res \<noteq> PEACHOS_ALL_OK
        then if res < 0 then let (_, s3) = task_free task s2 in (word_of_int res, s3) else (task, s2)
        else if task_head s2 = 0
        then (task, s2\<lparr>task_head := task, task_tail := task, current_task := task\<rparr>)
        else let m3 = write32 (kmem s2) (task_tail s2 + 56) task;
                 m4 = write32 m3 (task + 60) (task_tail s2)
             in (task, (put_kmem m4 s2)\<lparr>task_tail := task\<rparr>))"

section \<open>Switching\<close>

definition task_switch :: "u32 \<Rightarrow> 'z taskstate_scheme \<Rightarrow> 'z taskstate_scheme" where
  "task_switch task s =
     (let s1 = s\<lparr>current_task := task\<rparr> in paging_switch (task_page_directory (kmem s1) task) s1)"

text \<open>Both structures as arrays of words: destination in \<^verbatim>\<open>struct task\<close> and source in
  \<^verbatim>\<open>struct interrupt_frame\<close>, in the order of the assignments, which is ip, cs, flags, esp, ss, eax, ebp, ebx,
  ecx, edi, edx, esi.\<close>

definition saved_registers :: "(nat \<times> nat) list" where
  "saved_registers = [(8, 8), (9, 9), (10, 10), (11, 11), (12, 12), (7, 7), (3, 2), (4, 4), (6, 6), (1, 0), (5, 5), (2, 1)]"

definition task_save_state :: "mem \<Rightarrow> u32 \<Rightarrow> u32 \<Rightarrow> mem" where
  "task_save_state m task frame = fold (\<lambda>(d, f) m. set_slot m task d (slot m frame f)) saved_registers m"

text \<open>\<open>None\<close>: there is no task, the kernel panics.\<close>

definition task_current_save_state :: "u32 \<Rightarrow> 'z taskstate_scheme \<Rightarrow> 'z taskstate_scheme option" where
  "task_current_save_state frame s =
     (if current_task s = 0 then None else Some (put_kmem (task_save_state (kmem s) (current_task s) frame) s))"

definition task_page :: "'z taskstate_scheme \<Rightarrow> int \<times> 'z taskstate_scheme" where
  "task_page s = (let s1 = user_registers s in (0, task_switch (current_task s1) s1))"

definition task_page_task :: "u32 \<Rightarrow> 'z taskstate_scheme \<Rightarrow> int \<times> 'z taskstate_scheme" where
  "task_page_task task s = (let s1 = user_registers s in (0, paging_switch (task_page_directory (kmem s1) task) s1))"

text \<open>What \<^verbatim>\<open>task_return\<close> and \<^verbatim>\<open>restore_general_purpose_registers\<close> load before they leave for user mode.
  The four data segment registers, which the code always loads together, are the field \<open>data_segments\<close> of the state;
  \<open>flags\<close> and \<open>ebp\<close> are the processor's: EFLAGS with the interrupt flag set, and the kernel's frame pointer,
  which the last \<^verbatim>\<open>pop ebp\<close> puts back over the saved one.\<close>

record user_context =
  uc_edi :: u32
  uc_esi :: u32
  uc_ebp :: u32
  uc_ebx :: u32
  uc_edx :: u32
  uc_ecx :: u32
  uc_eax :: u32
  uc_ip :: u32
  uc_cs :: u32
  uc_flags :: u32
  uc_esp :: u32
  uc_ss :: u32

definition restore_general_purpose_registers :: "mem \<Rightarrow> u32 \<Rightarrow> u32 \<Rightarrow> user_context \<Rightarrow> user_context" where
  "restore_general_purpose_registers m regs ebp c =
     c\<lparr>uc_edi := read32 m regs, uc_esi := read32 m (regs + 4), uc_edx := read32 m (regs + 16), uc_ecx := read32 m (regs + 20),
       uc_eax := read32 m (regs + 24), uc_ebx := read32 m (regs + 12), uc_ebp := ebp\<rparr>"

definition task_return :: "u32 \<Rightarrow> u32 \<Rightarrow> u32 \<Rightarrow> 'z taskstate_scheme \<Rightarrow> user_context \<times> 'z taskstate_scheme" where
  "task_return regs flags ebp s =
     (restore_general_purpose_registers (kmem s) regs ebp
        \<lparr>uc_edi = 0, uc_esi = 0, uc_ebp = 0, uc_ebx = 0, uc_edx = 0, uc_ecx = 0, uc_eax = 0,
         uc_ip = read32 (kmem s) (regs + 28), uc_cs = read32 (kmem s) (regs + 32), uc_flags = flags OR 0x200,
         uc_esp = read32 (kmem s) (regs + 40), uc_ss = read32 (kmem s) (regs + 44)\<rparr>,
      s\<lparr>data_segments := ucast (read32 (kmem s) (regs + 44))\<rparr>)"

text \<open>The result is the registers with which user mode is entered, and the state; \<open>None\<close> is a panic.\<close>

definition task_run_first_ever_task ::
  "u32 \<Rightarrow> u32 \<Rightarrow> 'z taskstate_scheme \<Rightarrow> (user_context \<times> 'z taskstate_scheme) option" where
  "task_run_first_ever_task flags ebp s =
     (if current_task s = 0 then None
      else let s1 = task_switch (task_head s) s in Some (task_return (task_head s1 + 4) flags ebp s1))"

section \<open>Reading the memory of a task\<close>

definition copy_string_from_task ::
  "u32 \<Rightarrow> u32 \<Rightarrow> u32 \<Rightarrow> int \<Rightarrow> 'z taskstate_scheme \<Rightarrow> (int \<times> 'z taskstate_scheme) option" where
  "copy_string_from_task task virtual phys mx s =
     (if mx \<ge> PAGING_PAGE_SIZE then Some (- EINVARG, s)
      else let (tmp, s1) = kzalloc (word_of_int mx) s in
        if tmp = 0 then Some (- ENOMEM, s1)
        else do {
          let chunk = task_page_directory (kmem s1) task;
          let task_directory = directory_entry (kmem s1) chunk;
          let old_entry = paging_get (kmem s1) task_directory tmp;
          let (_, m2) = paging_map (kmem s1) chunk tmp tmp 7;
          let s2 = put_kmem m2 s1;
          let s3 = paging_switch (task_page_directory (kmem s2) task) s2;
          m4 \<leftarrow> vstrncpy (kmem s3) (cr3 s3) tmp virtual mx;
          let s4 = kernel_page (put_kmem m4 s3);
          let (res, m5) = paging_set (kmem s4) task_directory tmp old_entry;
          let s5 = put_kmem m5 s4;
          if res < 0 then Some (- EIO, kfree tmp s5)
          else Some (res, kfree tmp (put_kmem (strncpy (kmem s5) phys tmp mx) s5))
        })"

definition task_get_stack_item :: "u32 \<Rightarrow> int \<Rightarrow> 'z taskstate_scheme \<Rightarrow> (u32 \<times> 'z taskstate_scheme) option" where
  "task_get_stack_item task index s = do {
     let sp_ptr = read32 (kmem s) (task + 44);
     let (_, s1) = task_page_task task s;
     result \<leftarrow> vread32 (kmem s1) (cr3 s1) (sp_ptr + 4 * word_of_int index);
     Some (result, kernel_page s1)
   }"

section \<open>The list of tasks\<close>

text \<open>\<open>task_chain m p pr ts\<close>: from \<open>p\<close> on, whose predecessor is \<open>pr\<close>, the tasks \<open>ts\<close> are linked both ways.\<close>

primrec task_chain :: "mem \<Rightarrow> u32 \<Rightarrow> u32 \<Rightarrow> u32 list \<Rightarrow> bool" where
  "task_chain m p pr [] \<longleftrightarrow> p = 0"
| "task_chain m p pr (t # ts) \<longleftrightarrow> p = t \<and> t \<noteq> 0 \<and> task_prev m t = pr \<and> task_chain m (task_next m t) t ts"

text \<open>The state of the scheduler: the list from \<open>task_head\<close> to \<open>task_tail\<close>, and a current task in it.\<close>

definition task_queue :: "'z taskstate_scheme \<Rightarrow> u32 list \<Rightarrow> bool" where
  "task_queue s ts \<longleftrightarrow> task_chain (kmem s) (task_head s) 0 ts \<and> distinct ts \<and>
     (if ts = [] then task_tail s = 0 \<and> current_task s = 0
      else task_tail s = last ts \<and> current_task s \<in> set ts)"

lemma task_chain_nonzero: "task_chain m p pr ts \<Longrightarrow> t \<in> set ts \<Longrightarrow> t \<noteq> 0"
  by (induction ts arbitrary: p pr) auto

lemma task_chain_next:
  "task_chain m p pr ts \<Longrightarrow> i < length ts \<Longrightarrow>
   task_next m (ts ! i) = (if Suc i < length ts then ts ! Suc i else 0)"
proof (induction ts arbitrary: p pr i)
  case (Cons t ts)
  then show ?case by (cases i; cases ts) auto
qed simp

lemma task_chain_prev:
  "task_chain m p pr ts \<Longrightarrow> i < length ts \<Longrightarrow> task_prev m (ts ! i) = (if i = 0 then pr else ts ! (i - 1))"
proof (induction ts arbitrary: p pr i)
  case (Cons t ts)
  then show ?case by (cases i) (auto split: if_splits)
qed simp

lemma task_chain_head: "task_chain m p pr ts \<Longrightarrow> p = (if ts = [] then 0 else hd ts)"
  by (cases ts) auto

text \<open>The chain is the list of its links.\<close>

lemma task_chainI:
  assumes "p = (if ts = [] then 0 else hd ts)" "0 \<notin> set ts"
    "\<And>i. i < length ts \<Longrightarrow> task_next m (ts ! i) = (if Suc i < length ts then ts ! Suc i else 0)"
    "\<And>i. i < length ts \<Longrightarrow> task_prev m (ts ! i) = (if i = 0 then pr else ts ! (i - 1))"
  shows "task_chain m p pr ts"
  using assms
proof (induction ts arbitrary: p pr)
  case (Cons t ts)
  have n: "task_next m t = (if ts = [] then 0 else hd ts)" using Cons.prems(3) [of 0] by (cases ts) auto
  have "task_chain m (task_next m t) t ts"
  proof (rule Cons.IH [OF n])
    show "0 \<notin> set ts" using Cons.prems(2) by simp
    show "task_next m (ts ! i) = (if Suc i < length ts then ts ! Suc i else 0)" if "i < length ts" for i
      using Cons.prems(3) [of "Suc i"] that by simp
    show "task_prev m (ts ! i) = (if i = 0 then t else ts ! (i - 1))" if "i < length ts" for i
      using Cons.prems(4) [of "Suc i"] that by (cases i) auto
  qed
  then show ?case using Cons.prems(1,2) Cons.prems(4) [of 0] by auto
qed simp

lemma task_get_next_robin:
  assumes "task_queue s ts" "i < length ts" "current_task s = ts ! i"
  shows "task_get_next s = ts ! (Suc i mod length ts)"
proof -
  have c: "task_chain (kmem s) (task_head s) 0 ts" using assms(1) by (simp add: task_queue_def)
  note n = task_chain_next [OF c assms(2)]
  show ?thesis
  proof (cases "Suc i < length ts")
    case True
    then have "ts ! Suc i \<noteq> 0" using task_chain_nonzero [OF c] by simp
    then show ?thesis using True n assms(3) by (simp add: task_get_next_def)
  next
    case False
    then have "Suc i = length ts" using assms(2) by simp
    moreover have "task_head s = ts ! 0" using task_chain_head [OF c] assms(2) by (cases ts) auto
    ultimately show ?thesis using n assms(3) by (simp add: task_get_next_def)
  qed
qed

section \<open>Saving registers\<close>

lemma fold_set_slot:
  assumes "unat t + 4 * n \<le> 4294967296" "unat fr + 4 * k \<le> 4294967296" "span fr (4 * k) \<inter> span t (4 * n) = {}"
  defines "save \<equiv> fold (\<lambda>(d, f) m. set_slot m t d (slot m fr f))"
  shows "\<forall>x \<in> set ps. fst x < n \<and> snd x < k \<Longrightarrow> distinct (map fst ps) \<Longrightarrow>
    agree_off (span t (4 * n)) m (save ps m) \<and> (\<forall>x \<in> set ps. slot (save ps m) t (fst x) = slot m fr (snd x)) \<and>
    (\<forall>j < n. j \<notin> fst ` set ps \<longrightarrow> slot (save ps m) t j = slot m t j)"
proof (induction ps arbitrary: m)
  case Nil
  then show ?case by (simp add: save_def)
next
  case (Cons p ps)
  let ?m = "set_slot m t (fst p) (slot m fr (snd p))"
  have b: "fst p < n" "snd p < k" using Cons.prems(1) by simp_all
  have e: "save (p # ps) m = save ps ?m" by (simp add: save_def split: prod.split)
  have a: "agree_off (span t (4 * n)) m ?m" by (rule set_slot_agree [OF assms(1) b(1)])
  have fr: "slot ?m fr j = slot m fr j" if "j < k" for j by (rule slot_agree [OF assms(2) that a assms(3)])
  have t: "slot ?m t j = (if j = fst p then slot m fr (snd p) else slot m t j)" if "j < n" for j
    by (rule slot_set_slot [OF assms(1) b(1) that])
  have IH: "agree_off (span t (4 * n)) ?m (save ps ?m)" "\<forall>x \<in> set ps. slot (save ps ?m) t (fst x) = slot ?m fr (snd x)"
    "\<forall>j < n. j \<notin> fst ` set ps \<longrightarrow> slot (save ps ?m) t j = slot ?m t j"
    using Cons.IH [of ?m] Cons.prems by simp_all
  have "slot (save ps ?m) t (fst x) = slot m fr (snd x)" if "x \<in> set (p # ps)" for x
  proof (cases "x = p")
    case True
    have "fst p \<notin> fst ` set ps" using Cons.prems(2) by simp
    then show ?thesis using IH(3) b t True by simp
  next
    case False
    then show ?thesis using IH(2) fr Cons.prems(1) that by simp
  qed
  moreover have "slot (save ps ?m) t j = slot m t j" if "j < n" "j \<notin> fst ` set (p # ps)" for j
    using IH(3) t that by simp
  ultimately show ?case unfolding e using agree_off_trans_same [OF a IH(1)] by blast
qed

lemma task_save_state_spec:
  assumes "unat task + 64 \<le> 4294967296" "unat frame + 52 \<le> 4294967296" "span frame 52 \<inter> span task 64 = {}"
  shows "agree_off (span task 64) m (task_save_state m task frame) \<and>
    (\<forall>(d, f) \<in> set saved_registers. slot (task_save_state m task frame) task d = slot m frame f) \<and>
    (\<forall>j \<in> {0, 13, 14, 15}. slot (task_save_state m task frame) task j = slot m task j)"
proof -
  have a: "unat task + 4 * 16 \<le> 4294967296" "unat frame + 4 * 13 \<le> 4294967296" "span frame (4 * 13) \<inter> span task (4 * 16) = {}"
    using assms by simp_all
  have b: "\<forall>x \<in> set saved_registers. fst x < 16 \<and> snd x < 13" "distinct (map fst saved_registers)"
    "\<forall>j \<in> {0, 13, 14, 15}. j < 16 \<and> j \<notin> fst ` set saved_registers" by (simp_all add: saved_registers_def)
  show ?thesis using fold_set_slot [OF a b(1,2), of m] b(3) unfolding task_save_state_def by (auto split: prod.split)
qed

section \<open>Making a task\<close>

lemma kept_read32:
  assumes "kept A m m'" "A p = Some 1" "span q 4 \<subseteq> span p 4096"
  shows "read32 m' q = read32 m q"
  by (rule read32_span) (use keptD [OF assms(1,2)] assms(3) in auto)

lemma kept_except: "kept A m m' \<Longrightarrow> kept (A(p := None)) m m'"
  unfolding kept_def by auto

lemma kept_sub: "kept B m m' \<Longrightarrow> (\<And>q k. A q = Some k \<Longrightarrow> B q = Some k) \<Longrightarrow> kept A m m'"
  unfolding kept_def by blast

text \<open>Writing outside an address space and the heap's own data leaves the address space in order.\<close>

lemma chunk_owns_frame:
  assumes "chunk_owns s A c d ts" "agree_off S (kmem s) m" "S \<inter> kheap_reserved s = {}"
    "\<forall>p \<in> set (c # d # ts). span p 4096 \<inter> S = {}"
  shows "chunk_owns (put_kmem m s) A c d ts" "kheap_avail (put_kmem m s) = kheap_avail s"
    "\<forall>v. paging_is_aligned v \<longrightarrow> paging_get m d v = paging_get (kmem s) d v"
proof -
  have o: "kheap_ready s A" "directory_entry (kmem s) c = d" "length ts = 1024" "distinct (c # d # ts)"
    "\<forall>p \<in> set (c # d # ts). A p = Some 1" "\<forall>i < 1024. table_of (kmem s) d i = ts ! i"
    using assms(1) by (simp_all add: chunk_owns_def)
  note r = kh.put_ready [OF o(1) assms(2,3)]
  show "kheap_avail (put_kmem m s) = kheap_avail s" using r by simp
  have c: "read32 m c = read32 (kmem s) c"
    by (rule read32_agree [OF assms(2)]) (use assms(4) span_mono [of 4 4096 c] in auto)
  have al: "unat p mod 4096 = 0" if "p \<in> set (c # d # ts)" for p using chunk_owns_page [OF assms(1) that] by simp
  have e: "read32 m (p + 4 * word_of_nat i) = read32 (kmem s) (p + 4 * word_of_nat i)"
    if "p \<in> set (c # d # ts)" "i < 1024" for p i
  proof (rule read32_agree [OF assms(2)])
    have "span p 4096 \<inter> S = {}" using assms(4) that(1) by blast
    then show "span (p + 4 * word_of_nat i) 4 \<inter> S = {}" using slot_in_page [OF al [OF that(1)] that(2)] by blast
  qed
  have t: "table_of m d i = table_of (kmem s) d i" if "i < 1024" for i
    unfolding table_of_def using e [of d i] that by simp
  show "chunk_owns (put_kmem m s) A c d ts"
    using o r c t by (simp add: chunk_owns_def directory_entry_def)
  show "\<forall>v. paging_is_aligned v \<longrightarrow> paging_get m d v = paging_get (kmem s) d v"
  proof (intro allI impI)
    fix v assume v: "paging_is_aligned v"
    have i: "dir_index v < 1024" "tab_index v < 1024" using index_bounds by simp_all
    have "ts ! dir_index v \<in> set (c # d # ts)" using i(1) o(3) by simp
    then have "read32 m (entry_addr m d v) = read32 (kmem s) (entry_addr (kmem s) d v)"
      unfolding entry_addr_def t [OF i(1)] using e [OF _ i(2), of "table_of (kmem s) d (dir_index v)"] o(6) i(1) by simp
    then show "paging_get m d v = paging_get (kmem s) d v" using v by (simp add: paging_get_eq)
  qed
qed


text \<open>The words of a \<^verbatim>\<open>struct task\<close>.\<close>

lemma task_words:
  "task_page_directory m t = slot m t 0" "task_process m t = slot m t 13" "task_next m t = slot m t 14" "task_prev m t = slot m t 15"
  "write32 m (t + 32) v = set_slot m t 8 v" "write32 m (t + 36) v = set_slot m t 9 v"
  "write32 m (t + 44) v = set_slot m t 11 v" "write32 m (t + 48) v = set_slot m t 12 v" "write32 m (t + 52) v = set_slot m t 13 v"
  "write32 m (t + 56) v = set_slot m t 14 v" "write32 m (t + 60) v = set_slot m t 15 v"
  by (simp_all add: task_page_directory_def task_process_def task_next_def task_prev_def slot_def set_slot_def)

lemma task_word0: "write32 m t v = set_slot m t 0 v"
  by (simp add: set_slot_def)

lemma task_page_room: "kheap_ready s A \<Longrightarrow> A t = Some 1 \<Longrightarrow> unat t + 4 * 16 \<le> 4294967296 \<and> span t 64 \<subseteq> span t 4096"
  using kh.live_bounds [of s A t 1] span_mono [of 64 4096 t] by simp

lemma set_slot_task_agree: "unat t + 4 * 16 \<le> 4294967296 \<Longrightarrow> i < 16 \<Longrightarrow> agree_off (span t 64) m (set_slot m t i v)"
  using set_slot_agree [of t 16 i m v] by simp

text \<open>Where a program starts: at the entry point of its ELF file, and a plain binary at its first byte.\<close>

definition entry_point :: "mem \<Rightarrow> u32 \<Rightarrow> u32" where
  "entry_point m process = (if process_filetype m process = PROCESS_FILETYPE_ELF
     then e_entry m (elf_header m (process_ptr m process)) else PEACHOS_PROGRAM_VIRTUAL_ADDRESS)"

text \<open>What it is read from, and memory that is in live blocks.\<close>

definition entry_region :: "mem \<Rightarrow> u32 \<Rightarrow> u32 set" where
  "entry_region m process = insert (process + 4212) (if process_filetype m process = PROCESS_FILETYPE_ELF
     then span (process + 4216) 4 \<union> span (process_ptr m process + 112) 4 \<union> span (elf_header m (process_ptr m process) + 24) 4 else {})"

definition held :: "(u32 \<Rightarrow> nat option) \<Rightarrow> u32 set \<Rightarrow> bool" where
  "held A R \<longleftrightarrow> (\<forall>x \<in> R. \<exists>q k. A q = Some k \<and> x \<in> span q (k * 4096))"

lemma entry_point_same:
  assumes "\<And>x. x \<in> entry_region m process \<Longrightarrow> m' x = m x"
  shows "entry_point m' process = entry_point m process"
proof -
  have ft: "process_filetype m' process = process_filetype m process"
    using assms by (simp add: process_filetype_def entry_region_def)
  show ?thesis
  proof (cases "process_filetype m process = PROCESS_FILETYPE_ELF")
    case True
    have "process_ptr m' process = process_ptr m process" unfolding process_ptr_def
      by (rule read32_span) (use assms True in \<open>simp add: entry_region_def\<close>)
    moreover have "elf_header m' (process_ptr m process) = elf_header m (process_ptr m process)" unfolding elf_header_def elf_memory_def
      by (rule read32_span) (use assms True in \<open>simp add: entry_region_def\<close>)
    moreover have "e_entry m' (elf_header m (process_ptr m process)) = e_entry m (elf_header m (process_ptr m process))" unfolding e_entry_def
      by (rule read32_span) (use assms True in \<open>simp add: entry_region_def\<close>)
    ultimately show ?thesis using ft True by (simp add: entry_point_def)
  qed (simp add: entry_point_def ft)
qed

lemma task_init_spec:
  assumes "kheap_ready s A" "A t = Some 1" "1026 \<le> kheap_avail s"
  obtains c d ts m where "task_init t process s = (0, put_kmem m s)" "c \<noteq> 0"
    "chunk_owns (put_kmem m s) (with_pages A (c # d # ts)) c d ts" "\<forall>p \<in> set (c # d # ts). A p = None"
    "kheap_avail (put_kmem m s) + 1026 = kheap_avail s" "\<forall>v. paging_is_aligned v \<longrightarrow> paging_get m d v = v OR 5"
    "slot m t 0 = c" "slot m t 9 = USER_CODE_SEGMENT" "slot m t 11 = PEACHOS_PROGRAM_VIRTUAL_STACK_ADDRESS_START"
    "slot m t 12 = USER_DATA_SEGMENT" "slot m t 13 = process" "slot m t 14 = 0" "slot m t 15 = 0"
    "kept (A(t := None)) (kmem s) m" "\<exists>m4. agree_off (span t 64) m m4 \<and> slot m t 8 = entry_point m4 process"
    "\<forall>j \<in> {1..<8}. slot m t j = 0"
proof -
  note room = task_page_room [OF assms(1,2)]
  let ?m1 = "memset (kmem s) t 0 64"
  let ?s1 = "put_kmem ?m1 s"
  have a1: "agree_off (span t 64) (kmem s) ?m1" using memset_agree [of t 64 "kmem s" 0] by simp
  have a1': "agree_off (span t (1 * 4096)) (kmem s) ?m1" using agree_off_mono [OF a1] room by simp
  have r1: "kheap_ready ?s1 A" "kheap_avail ?s1 = kheap_avail s" using kh.write_live [OF assms(1,2) a1'] by simp_all
  have z: "slot ?m1 t i = 0" if "i < 16" for i
    using slots_memset [of t 16 "kmem s"] room that nth_slots [of i 16 ?m1 t] by simp
  have av: "1026 \<le> kheap_avail ?s1" using r1(2) assms(3) by simp
  obtain c d ts m2 where p: "paging_new_4gb 5 ?s1 = (c, put_kmem m2 ?s1)"
    "chunk_owns (put_kmem m2 ?s1) (with_pages A (c # d # ts)) c d ts" "\<forall>p \<in> set (c # d # ts). A p = None" "c \<noteq> 0"
    "kheap_avail (put_kmem m2 ?s1) + 1026 = kheap_avail ?s1"
    "\<forall>v. paging_is_aligned v \<longrightarrow> paging_get m2 d v = v OR ucast (5 :: u8)" "kept A (kmem ?s1) m2"
    using paging_new_4gb_owns [OF r1(1) av, of 5] by (elim exE conjE) (rule that, assumption+)
  have p7: "kept A ?m1 m2" using p(7) by simp
  have z2: "slot m2 t i = 0" if "i < 16" for i
  proof -
    have "span (t + 4 * word_of_nat i) 4 \<subseteq> span t (4 * 16)" using array_span_subset [of t 16 i] room that by simp
    then have "span (t + 4 * word_of_nat i) 4 \<subseteq> span t 4096" using room by auto
    then have "slot m2 t i = slot ?m1 t i" using kept_read32 [OF p7 assms(2)] by (simp add: slot_def)
    then show ?thesis using z that by simp
  qed
  define m3 where "m3 = set_slot m2 t 0 c"
  define m4 where "m4 = set_slot m3 t 8 PEACHOS_PROGRAM_VIRTUAL_ADDRESS"
  define m5 where "m5 = (if process_filetype m4 process = PROCESS_FILETYPE_ELF
      then set_slot m4 t 8 (e_entry m4 (elf_header m4 (process_ptr m4 process))) else m4)"
  define m9 where "m9 = set_slot (set_slot (set_slot (set_slot m5 t 12 USER_DATA_SEGMENT) t 9 USER_CODE_SEGMENT) t 11
      PEACHOS_PROGRAM_VIRTUAL_STACK_ADDRESS_START) t 13 process"
  have sl: "slot (set_slot m t i v) t j = (if j = i then v else slot m t j)" if "i < 16" "j < 16" for m i j v
    using slot_set_slot [of t 16 i j m v] room that by simp
  have "slot m3 t 0 = c" by (simp add: m3_def sl)
  then have run: "task_init t process s = (0, put_kmem m9 s)"
    using p(1,4) unfolding task_init_def Let_def by (simp add: task_words task_word0 [of _ t] m3_def [symmetric] m4_def [symmetric] m9_def m5_def)
  have ag: "agree_off (span t 64) m2 m9"
  proof -
    have st: "agree_off (span t 64) m2 m \<Longrightarrow> i < 16 \<Longrightarrow> agree_off (span t 64) m2 (set_slot m t i v)" for m i v
      using agree_off_trans_same set_slot_task_agree room by blast
    have "agree_off (span t 64) m2 m3" "agree_off (span t 64) m2 m4" "agree_off (span t 64) m2 m5"
      unfolding m5_def m4_def m3_def by (simp_all add: st)
    then show ?thesis unfolding m9_def by (simp add: st)
  qed
  have en: "\<exists>m4. agree_off (span t 64) m9 m4 \<and> slot m9 t 8 = entry_point m4 process"
  proof (intro exI [of _ m4] conjI)
    have st: "agree_off (span t 64) m4 m \<Longrightarrow> i < 16 \<Longrightarrow> agree_off (span t 64) m4 (set_slot m t i v)" for m i v
      using agree_off_trans_same set_slot_task_agree room by blast
    have "agree_off (span t 64) m4 m9" unfolding m9_def m5_def by (simp add: st)
    then show "agree_off (span t 64) m9 m4" by (simp add: agree_off_def)
    show "slot m9 t 8 = entry_point m4 process" by (simp add: m9_def sl m5_def m4_def [symmetric] entry_point_def) (simp add: m4_def sl)
  qed
  have s5: "slot m5 t j = slot m4 t j" if "j < 16" "j \<noteq> 8" for j using that by (simp add: m5_def sl)
  have fields: "slot m9 t 0 = c" "slot m9 t 9 = USER_CODE_SEGMENT" "slot m9 t 11 = PEACHOS_PROGRAM_VIRTUAL_STACK_ADDRESS_START"
    "slot m9 t 12 = USER_DATA_SEGMENT" "slot m9 t 13 = process" "slot m9 t 14 = 0" "slot m9 t 15 = 0"
    using z2 by (simp_all add: m9_def sl s5 m4_def m3_def)
  have zs: "\<forall>j \<in> {1..<8}. slot m9 t j = 0" using z2 by (auto simp: m9_def sl s5 m4_def m3_def)
  let ?A = "with_pages A (c # d # ts)"
  have tA: "?A t = Some 1" using assms(2) by (simp add: with_pages_def)
  have ck: "kheap_ready (put_kmem m2 ?s1) ?A" using p(2) by (simp add: chunk_owns_def)
  have res: "span t 64 \<inter> kheap_reserved (put_kmem m2 ?s1) = {}" using kh.live_reserved [OF ck tA] room by auto
  have "span q 4096 \<inter> span t 64 = {}" if "q \<in> set (c # d # ts)" for q
  proof -
    have "q \<noteq> t" using p(3) that assms(2) by auto
    moreover have "?A q = Some 1" using that by (simp add: with_pages_def)
    ultimately show ?thesis using kh.live_disjoint [OF ck _ tA, of q 1] room by auto
  qed
  then have sep: "\<forall>q \<in> set (c # d # ts). span q 4096 \<inter> span t 64 = {}" by blast
  have ag': "agree_off (span t 64) (kmem (put_kmem m2 ?s1)) m9" using ag by simp
  note f = chunk_owns_frame [OF p(2) ag' res sep]
  have pt: "\<forall>v. paging_is_aligned v \<longrightarrow> paging_get m9 d v = v OR 5" using f(3) p(6) by simp
  have kp: "kept (A(t := None)) (kmem s) m9"
  proof -
    have nt: "span q (k * 4096) \<inter> span t 64 = {}" if "(A(t := None)) q = Some k" for q k
    proof -
      have "q \<noteq> t" "A q = Some k" using that by (auto split: if_splits)
      then show ?thesis using kh.live_disjoint [OF assms(1), of q k t 1] assms(2) room by auto
    qed
    have "kept (A(t := None)) (kmem s) ?m1" by (rule kept_off [OF a1 nt])
    moreover have "kept (A(t := None)) ?m1 m2" by (rule kept_except [OF p7])
    moreover have "kept (A(t := None)) m2 m9" by (rule kept_off [OF ag nt])
    ultimately show ?thesis using kept_trans by blast
  qed
  have "kheap_avail (put_kmem m9 s) + 1026 = kheap_avail s" using f(2) p(5) r1(2) by simp
  moreover have "chunk_owns (put_kmem m9 s) ?A c d ts" using f(1) by simp
  ultimately show ?thesis using that [OF run p(4) _ p(3) _ pt fields kp en zs] by blast
qed

lemma put_kmem_task [simp]:
  "current_task (put_kmem m s) = current_task s" "task_head (put_kmem m s) = task_head s"
  "task_tail (put_kmem m s) = task_tail s" "kernel_chunk (put_kmem m s) = kernel_chunk s"
  by (simp_all add: put_kmem_def)

lemma kzalloc_page_kept:
  assumes "kheap_ready s A" "sz \<noteq> 0" "unat sz \<le> 4096" "0 < kheap_avail s"
  obtains p m where "kzalloc sz s = (p, put_kmem m s)" "p \<noteq> 0" "A p = None" "kheap_ready (put_kmem m s) (A(p \<mapsto> 1))"
    "kheap_avail (put_kmem m s) + 1 = kheap_avail s" "kept A (kmem s) m" "\<forall>x \<in> span p (unat sz). m x = 0"
proof -
  obtain p s' where p: "kzalloc sz s = (p, s')" "p \<noteq> 0" "A p = None" "grows {} s s' (A(p \<mapsto> 1))"
    "kheap_avail s' + 1 = kheap_avail s" "\<forall>x \<in> span p (unat sz). kmem s' x = 0"
    using kzalloc_grows [OF assms] by metis
  note g = growsD [OF p(4)]
  have "kept A (kmem s) (kmem s')"
    by (rule kept_off [OF g(3)]) (use kh.live_spare [OF assms(1)] in auto)
  then show ?thesis using that [of p "kmem s'"] p g(1,4) by simp
qed

text \<open>Tasks in live pages keep their links when live memory is kept.\<close>

lemma kept_slot: "kept A m m' \<Longrightarrow> kheap_ready s A \<Longrightarrow> A t = Some 1 \<Longrightarrow> i < 16 \<Longrightarrow> slot m' t i = slot m t i"
proof -
  assume a: "kept A m m'" "kheap_ready s A" "A t = Some 1" "i < 16"
  note room = task_page_room [OF a(2,3)]
  have "span (t + 4 * word_of_nat i) 4 \<subseteq> span t (4 * 16)" using array_span_subset [of t 16 i] room a(4) by simp
  then have "span (t + 4 * word_of_nat i) 4 \<subseteq> span t 4096" using room by auto
  then show "slot m' t i = slot m t i" using kept_read32 [OF a(1,3)] by (simp add: slot_def)
qed

lemma task_chain_cong:
  "(\<And>t. t \<in> set ts \<Longrightarrow> task_next m' t = task_next m t \<and> task_prev m' t = task_prev m t) \<Longrightarrow>
   task_chain m' p pr ts = task_chain m p pr ts"
  by (induction ts arbitrary: p pr) auto

lemma task_chain_append:
  assumes "task_chain m p pr ts" "ts \<noteq> []" "distinct (ts @ [t])" "t \<noteq> 0"
    "\<And>x. x \<in> set ts \<Longrightarrow> task_prev m' x = task_prev m x"
    "\<And>x. x \<in> set ts \<Longrightarrow> x \<noteq> last ts \<Longrightarrow> task_next m' x = task_next m x"
    "task_next m' (last ts) = t" "task_prev m' t = last ts" "task_next m' t = 0"
  shows "task_chain m' p pr (ts @ [t])"
proof (rule task_chainI)
  let ?n = "length ts"
  have nz: "0 \<notin> set ts" using task_chain_nonzero [OF assms(1)] by blast
  show "p = (if ts @ [t] = [] then 0 else hd (ts @ [t]))" using task_chain_head [OF assms(1)] assms(2) by simp
  show "0 \<notin> set (ts @ [t])" using nz assms(4) by simp
  have last: "last ts = ts ! (?n - 1)" using assms(2) by (simp add: last_conv_nth)
  fix i assume i: "i < length (ts @ [t])"
  show "task_next m' ((ts @ [t]) ! i) = (if Suc i < length (ts @ [t]) then (ts @ [t]) ! Suc i else 0)"
  proof (cases "i = ?n")
    case True
    then show ?thesis using assms(9) by (simp add: nth_append)
  next
    case False
    then have il: "i < ?n" using i by simp
    show ?thesis
    proof (cases "Suc i = ?n")
      case True
      then have "i = ?n - 1" by simp
      then show ?thesis using il True assms(7) last by (simp add: nth_append)
    next
      case False
      then have s: "Suc i < ?n" "i \<noteq> ?n - 1" using il by simp_all
      have "ts ! i \<noteq> last ts" using s il assms(3) last by (simp add: nth_eq_iff_index_eq)
      then show ?thesis using assms(6) il s task_chain_next [OF assms(1) il] by (simp add: nth_append)
    qed
  qed
  show "task_prev m' ((ts @ [t]) ! i) = (if i = 0 then pr else (ts @ [t]) ! (i - 1))"
  proof (cases "i = ?n")
    case True
    then show ?thesis using assms(2,8) last by (simp add: nth_append)
  next
    case False
    then have il: "i < ?n" "i - 1 < ?n" using i by simp_all
    then show ?thesis using assms(5) task_chain_prev [OF assms(1) il(1)] by (simp add: nth_append)
  qed
qed

lemma task_new_spec:
  assumes "kheap_ready s A" "1027 \<le> kheap_avail s" "task_queue s ts" "\<forall>x \<in> set ts. A x = Some 1"
  obtains t c d ps s' where "task_new process s = (t, s')" "A t = None" "c \<noteq> 0"
    "chunk_owns s' (with_pages A (t # c # d # ps)) c d ps" "t \<notin> set (c # d # ps)" "\<forall>p \<in> set (c # d # ps). A p = None"
    "kheap_avail s' + 1027 = kheap_avail s" "\<forall>v. paging_is_aligned v \<longrightarrow> paging_get (kmem s') d v = v OR 5"
    "task_queue s' (ts @ [t])" "current_task s' = (if ts = [] then t else current_task s)"
    "task_page_directory (kmem s') t = c" "task_process (kmem s') t = process" "slot (kmem s') t 9 = USER_CODE_SEGMENT"
    "slot (kmem s') t 11 = PEACHOS_PROGRAM_VIRTUAL_STACK_ADDRESS_START" "slot (kmem s') t 12 = USER_DATA_SEGMENT"
    "s' = s\<lparr>kmem := kmem s', task_head := task_head s', task_tail := task_tail s', current_task := current_task s'\<rparr>"
    "kept (A |` (- set ts)) (kmem s) (kmem s')"
    "\<exists>m4. agree_off (\<Union>x \<in> insert t (set ts). span x 64) (kmem s') m4 \<and> slot (kmem s') t 8 = entry_point m4 process"
    "\<forall>j \<in> {1..<8}. slot (kmem s') t j = 0"
proof -
  have "(64 :: u32) \<noteq> 0" "unat (64 :: u32) \<le> 4096" "0 < kheap_avail s" using assms(2) by simp_all
  then obtain t m1 where t: "kzalloc 64 s = (t, put_kmem m1 s)" "t \<noteq> 0" "A t = None"
    "kheap_ready (put_kmem m1 s) (A(t \<mapsto> 1))" "kheap_avail (put_kmem m1 s) + 1 = kheap_avail s" "kept A (kmem s) m1"
    using kzalloc_page_kept [OF assms(1)] by metis
  let ?s1 = "put_kmem m1 s" and ?A = "A(t \<mapsto> 1)"
  have av: "1026 \<le> kheap_avail ?s1" "?A t = Some 1" using t(5) assms(2) by simp_all
  obtain c d ps m where i: "task_init t process ?s1 = (0, put_kmem m ?s1)" "c \<noteq> 0"
    "chunk_owns (put_kmem m ?s1) (with_pages ?A (c # d # ps)) c d ps" "\<forall>p \<in> set (c # d # ps). ?A p = None"
    "kheap_avail (put_kmem m ?s1) + 1026 = kheap_avail ?s1" "\<forall>v. paging_is_aligned v \<longrightarrow> paging_get m d v = v OR 5"
    "slot m t 0 = c" "slot m t 9 = USER_CODE_SEGMENT" "slot m t 11 = PEACHOS_PROGRAM_VIRTUAL_STACK_ADDRESS_START"
    "slot m t 12 = USER_DATA_SEGMENT" "slot m t 13 = process" "slot m t 14 = 0" "slot m t 15 = 0"
    "kept (?A(t := None)) (kmem ?s1) m" "\<exists>m4. agree_off (span t 64) m m4 \<and> slot m t 8 = entry_point m4 process"
    "\<forall>j \<in> {1..<8}. slot m t j = 0"
    by (rule task_init_spec [OF t(4) av(2,1)]) (rule that; assumption)
  have fresh: "t \<notin> set (c # d # ps)" "\<forall>p \<in> set (c # d # ps). A p = None" using i(4) by (auto split: if_splits)
  have AA: "with_pages ?A (c # d # ps) = with_pages A (t # c # d # ps)" by (auto simp: with_pages_def)
  have "?A(t := None) = A" using t(3) by auto
  then have km: "kept A (kmem s) m" using kept_trans [OF t(6)] i(14) by simp
  have kr: "kept (A |` (- set ts)) (kmem s) m" by (rule kept_sub [OF km]) (simp add: restrict_map_def split: if_splits)
  have sl: "slot m x j = slot (kmem s) x j" if "x \<in> set ts" "j < 16" for x j
    using kept_slot [OF km assms(1)] assms(4) that by blast
  have q: "task_chain (kmem s) (task_head s) 0 ts" "distinct ts" using assms(3) by (simp_all add: task_queue_def)
  have tn: "t \<notin> set ts" using assms(4) t(3) by auto
  have chain: "task_chain m (task_head s) 0 ts"
    using q(1) task_chain_cong [of ts m "kmem s"] sl by (simp add: task_words)
  show ?thesis
  proof (cases "ts = []")
    case True
    then have "task_head s = 0" using q(1) by simp
    let ?s' = "(put_kmem m s)\<lparr>task_head := t, task_tail := t, current_task := t\<rparr>"
    have n: "task_new process s = (t, ?s')"
      using t(1,2) i(1) \<open>task_head s = 0\<close> by (simp add: task_new_def put_kmem_def)
    have "task_queue ?s' [t]" using t(2) i(12,13) by (simp add: task_queue_def task_words)
    moreover have "chunk_owns ?s' (with_pages A (t # c # d # ps)) c d ps" "kheap_avail ?s' = kheap_avail (put_kmem m ?s1)"
      using i(3) AA by (simp_all add: chunk_owns_def kheap_ready_def kheap_avail_def)
    ultimately show ?thesis
      using that [OF n t(3) i(2) _ fresh] True i t(5) kr by (simp add: task_words put_kmem_def)
  next
    case False
    let ?l = "task_tail s"
    have l: "?l = last ts" "?l \<in> set ts" using assms(3) False by (simp_all add: task_queue_def)
    have cur: "current_task s \<in> set ts" using assms(3) False by (simp add: task_queue_def)
    have hd: "task_head s \<noteq> 0" using task_chain_head [OF q(1)] task_chain_nonzero [OF q(1)] False by simp
    define m3 where "m3 = set_slot m ?l 14 t"
    define m4 where "m4 = set_slot m3 t 15 ?l"
    let ?s' = "(put_kmem m4 s)\<lparr>task_tail := t\<rparr>"
    have n: "task_new process s = (t, ?s')"
      using t(1,2) i(1) hd by (simp add: task_new_def task_words m3_def [symmetric] m4_def put_kmem_def)
    let ?B = "with_pages A (t # c # d # ps)"
    have own: "chunk_owns (put_kmem m s) ?B c d ps" using i(3) AA by simp
    then have rB: "kheap_ready (put_kmem m s) ?B" by (simp add: chunk_owns_def)
    have B: "?B x = Some 1" if "x = t \<or> x \<in> set ts" for x using that assms(4) by (auto simp: with_pages_def)
    have room: "unat x + 4 * 16 \<le> 4294967296" "span x 64 \<subseteq> span x 4096" if "x = t \<or> x \<in> set ts" for x
      using task_page_room [OF rB B [OF that]] by auto
    have apart: "span x 64 \<inter> span y 64 = {}" if "x = t \<or> x \<in> set ts" "y = t \<or> y \<in> set ts" "x \<noteq> y" for x y
      using kh.live_disjoint [OF rB B [OF that(1)] B [OF that(2)] that(3)] room(2) [OF that(1)] room(2) [OF that(2)] by auto
    have sep: "slot (set_slot m' x i v) y j = (if y = x \<and> j = i then v else slot m' y j)"
      if "x = t \<or> x \<in> set ts" "y = t \<or> y \<in> set ts" "i < 16" "j < 16" for m' x y i j v
    proof (cases "x = y")
      case True
      then show ?thesis using slot_set_slot [OF room(1) [OF that(1)] that(3,4)] by simp
    next
      case False
      have "span y (4 * 16) \<inter> span x 64 = {}" using apart [OF that(2,1)] False by auto
      then show ?thesis
        using slot_agree [OF room(1) [OF that(2)] that(4) set_slot_task_agree [OF room(1) [OF that(1)] that(3)]] False by simp
    qed
    have lt: "?l \<noteq> t" using l tn by auto
    have s4: "slot m4 x j = (if x = t \<and> j = 15 then ?l else if x = ?l \<and> j = 14 then t else slot m x j)"
      if "x = t \<or> x \<in> set ts" "j < 16" for x j
      using that l(2) lt unfolding m4_def m3_def by (simp add: sep)
    have "task_chain m4 (task_head s) 0 (ts @ [t])"
      by (rule task_chain_append [OF chain False _ t(2)])
        (use q(2) tn l lt i(12) in \<open>auto simp: task_words s4\<close>)
    then have Q: "task_queue ?s' (ts @ [t])" using q(2) tn cur by (simp add: task_queue_def put_kmem_def)
    have ag: "agree_off (span ?l 64 \<union> span t 64) (kmem (put_kmem m s)) m4"
      unfolding m4_def m3_def put_kmem_simps
      by (rule agree_off_trans [OF set_slot_task_agree set_slot_task_agree]) (use room l in auto)
    have res: "(span ?l 64 \<union> span t 64) \<inter> kheap_reserved (put_kmem m s) = {}"
      using kh.live_reserved [OF rB B] room(2) l(2) by fastforce
    have cs: "\<forall>p \<in> set (c # d # ps). span p 4096 \<inter> (span ?l 64 \<union> span t 64) = {}"
    proof
      fix p assume p: "p \<in> set (c # d # ps)"
      have "p \<noteq> t" "p \<noteq> ?l" using p fresh assms(4) l(2) by auto
      moreover have "?B p = Some 1" using p by (simp add: with_pages_def)
      moreover have "?B t = Some 1" "?B ?l = Some 1" using B l(2) by auto
      ultimately show "span p 4096 \<inter> (span ?l 64 \<union> span t 64) = {}"
        using kh.live_disjoint [OF rB, of p 1 t 1] kh.live_disjoint [OF rB, of p 1 ?l 1] room(2) l(2) by fastforce
    qed
    have kr4: "kept (A |` (- set ts)) (kmem s) m4"
    proof (rule kept_trans [OF kr], unfold kept_def, intro allI impI)
      fix q k x assume q: "(A |` (- set ts)) q = Some k" "x \<in> span q (k * 4096)"
      then have Aq: "A q = Some k" "q \<notin> set ts" by (simp_all add: restrict_map_def split: if_splits)
      have "q \<notin> set (t # c # d # ps)" using Aq(1) t(3) fresh(2) by auto
      then have "?B q = Some k" "q \<noteq> t" "q \<noteq> ?l" using Aq l(2) by (auto simp: with_pages_def)
      then have "span q (k * 4096) \<inter> (span ?l 64 \<union> span t 64) = {}"
        using kh.live_disjoint [OF rB, of q k ?l 1] kh.live_disjoint [OF rB, of q k t 1] B [of ?l] B [of t] l(2) room(2) [of ?l] room(2) [of t] by fastforce
      then show "m4 x = m x" using agree_offD [OF ag, of x] q(2) by auto
    qed
    note f = chunk_owns_frame [OF own ag res cs]
    have f1: "chunk_owns ?s' ?B c d ps" "kheap_avail ?s' = kheap_avail (put_kmem m s)"
      using f(1,2) by (simp_all add: chunk_owns_def kheap_ready_def kheap_avail_def)
    have f3: "\<forall>v. paging_is_aligned v \<longrightarrow> paging_get (kmem ?s') d v = v OR 5" using f(3) i(6) by simp
    have st: "slot m4 t j = slot m t j" if "j < 16" "j \<noteq> 15" for j using s4 [of t j] that lt by simp
    have en: "\<exists>m'. agree_off (\<Union>x \<in> insert t (set ts). span x 64) m4 m' \<and> slot m4 t 8 = entry_point m' process"
    proof -
      obtain m' where m': "agree_off (span t 64) m m'" "slot m t 8 = entry_point m' process" using i(15) by blast
      have "agree_off (span ?l 64 \<union> span t 64) m4 m" using ag by (simp add: agree_off_def)
      from agree_off_trans [OF this m'(1)] have "agree_off (\<Union>x \<in> insert t (set ts). span x 64) m4 m'"
        by (rule agree_off_mono) (use l(2) in blast)
      then show ?thesis using m'(2) st [of 8] by (intro exI [of _ m']) simp
    qed
    show ?thesis
      using that [OF n t(3) i(2) f1(1) fresh _ f3 Q] False f1(2) i t(5) kr4 en by (simp add: task_words st put_kmem_def)
  qed
qed

text \<open>The entry point is that of the process before the call, when what it is read from is in live blocks other than tasks.\<close>

lemma task_new_starts:
  assumes "kheap_ready s A" "1027 \<le> kheap_avail s" "task_queue s ts" "\<forall>x \<in> set ts. A x = Some 1"
    "held (A |` (- set ts)) (entry_region (kmem s) process)"
  obtains t c d ps s' where "task_new process s = (t, s')" "A t = None" "chunk_owns s' (with_pages A (t # c # d # ps)) c d ps"
    "\<forall>v. paging_is_aligned v \<longrightarrow> paging_get (kmem s') d v = v OR 5"
    "task_queue s' (ts @ [t])" "current_task s' = (if ts = [] then t else current_task s)"
    "task_page_directory (kmem s') t = c" "task_process (kmem s') t = process"
    "slot (kmem s') t 8 = entry_point (kmem s) process" "slot (kmem s') t 9 = USER_CODE_SEGMENT"
    "slot (kmem s') t 11 = PEACHOS_PROGRAM_VIRTUAL_STACK_ADDRESS_START" "slot (kmem s') t 12 = USER_DATA_SEGMENT"
    "\<forall>j \<in> {1..<8}. slot (kmem s') t j = 0"
proof -
  obtain t c d ps s' where t: "task_new process s = (t, s')" "A t = None" "chunk_owns s' (with_pages A (t # c # d # ps)) c d ps"
    "\<forall>v. paging_is_aligned v \<longrightarrow> paging_get (kmem s') d v = v OR 5"
    "task_queue s' (ts @ [t])" "current_task s' = (if ts = [] then t else current_task s)"
    "task_page_directory (kmem s') t = c" "task_process (kmem s') t = process" "slot (kmem s') t 9 = USER_CODE_SEGMENT"
    "slot (kmem s') t 11 = PEACHOS_PROGRAM_VIRTUAL_STACK_ADDRESS_START" "slot (kmem s') t 12 = USER_DATA_SEGMENT"
    "kept (A |` (- set ts)) (kmem s) (kmem s')" "\<forall>j \<in> {1..<8}. slot (kmem s') t j = 0"
    "\<exists>m4. agree_off (\<Union>x \<in> insert t (set ts). span x 64) (kmem s') m4 \<and> slot (kmem s') t 8 = entry_point m4 process"
    "\<forall>p \<in> set (c # d # ps). A p = None"
    by (rule task_new_spec [OF assms(1-4), of process]) (rule that; assumption)
  obtain m4 where m4: "agree_off (\<Union>x \<in> insert t (set ts). span x 64) (kmem s') m4" "slot (kmem s') t 8 = entry_point m4 process"
    using t(14) by blast
  let ?B = "with_pages A (t # c # d # ps)"
  have r: "kheap_ready s' ?B" using t(3) by (simp add: chunk_owns_def)
  have "m4 x = kmem s x" if x: "x \<in> entry_region (kmem s) process" for x
  proof -
    obtain q k where q: "(A |` (- set ts)) q = Some k" "x \<in> span q (k * 4096)" using assms(5) x unfolding held_def by blast
    then have Aq: "A q = Some k" "q \<notin> set ts" by (simp_all add: restrict_map_def split: if_splits)
    have "q \<notin> set (t # c # d # ps)" using Aq(1) t(2,15) by auto
    then have Bq: "?B q = Some k" using Aq(1) by (simp add: with_pages_def)
    have "x \<notin> span y 64" if y: "y \<in> insert t (set ts)" for y
    proof -
      have "?B y = Some 1" "q \<noteq> y" using y assms(4) Aq t(2) by (auto simp: with_pages_def)
      then have "span q (k * 4096) \<inter> span y (1 * 4096) = {}" using kh.live_disjoint [OF r Bq] by blast
      then show ?thesis using q(2) span_mono [of 64 4096 y] by auto
    qed
    then have "x \<notin> (\<Union>x \<in> insert t (set ts). span x 64)" by blast
    then have "m4 x = kmem s' x" by (rule agree_offD [OF m4(1)])
    also have "\<dots> = kmem s x" by (rule keptD [OF t(12) q])
    finally show ?thesis .
  qed
  then have "slot (kmem s') t 8 = entry_point (kmem s) process" using m4(2) entry_point_same [of "kmem s" process m4] by simp
  then show ?thesis using that [OF t(1-8) _ t(9-11,13)] by blast
qed

section \<open>Removing a task\<close>

text \<open>The list as its next links alone.\<close>

primrec task_links :: "mem \<Rightarrow> u32 \<Rightarrow> u32 list \<Rightarrow> bool" where
  "task_links m p [] \<longleftrightarrow> p = 0"
| "task_links m p (t # ts) \<longleftrightarrow> p = t \<and> t \<noteq> 0 \<and> task_links m (task_next m t) ts"

lemma task_chain_links: "task_chain m p pr ts \<Longrightarrow> task_links m p ts"
  by (induction ts arbitrary: p pr) auto

lemma task_links_cong: "(\<And>t. t \<in> set ts \<Longrightarrow> task_next m' t = task_next m t) \<Longrightarrow> task_links m' p ts = task_links m p ts"
  by (induction ts arbitrary: p) auto

lemma task_chain_mid:
  "task_chain m p pr (us @ t # vs) \<Longrightarrow>
   task_prev m t = (if us = [] then pr else last us) \<and> task_chain m (task_next m t) t vs \<and> t \<noteq> 0 \<and> p = hd (us @ [t])"
proof (induction us arbitrary: p pr)
  case (Cons u us)
  have c: "task_chain m (task_next m u) u (us @ t # vs)" "p = u" using Cons.prems by simp_all
  show ?case using Cons.IH [OF c(1)] c(2) by simp
qed simp

lemma task_links_snip:
  "task_chain m p pr (us @ t # vs) \<Longrightarrow> us \<noteq> [] \<Longrightarrow> distinct (us @ t # vs) \<Longrightarrow>
   (\<And>x. x \<in> set (us @ vs) \<Longrightarrow> task_next m' x = (if x = last us then task_next m t else task_next m x)) \<Longrightarrow>
   task_links m' p (us @ vs)"
proof (induction us arbitrary: p pr)
  case (Cons u us)
  show ?case
  proof (cases "us = []")
    case True
    have "task_chain m (task_next m t) t vs" using Cons.prems(1) True by simp
    then have "task_links m (task_next m t) vs" by (rule task_chain_links)
    moreover have "task_links m' (task_next m t) vs = task_links m (task_next m t) vs"
      by (rule task_links_cong) (use Cons.prems(3,4) True in auto)
    ultimately show ?thesis using Cons.prems(1,4) True by simp
  next
    case False
    have "task_links m' (task_next m u) (us @ vs)"
      by (rule Cons.IH) (use Cons.prems False in auto)
    moreover have "u \<noteq> last us" using Cons.prems(3) False by auto
    ultimately show ?thesis using Cons.prems(1,4) False by auto
  qed
qed simp

text \<open>Tasks in pages of their own: the words of one are not the words of another.\<close>

lemma task_slots_apart:
  assumes "kheap_ready s A" "A x = Some 1" "A y = Some 1" "i < 16" "j < 16"
  shows "slot (set_slot m x i v) y j = (if y = x \<and> j = i then v else slot m y j)"
proof (cases "x = y")
  case True
  then show ?thesis using slot_set_slot [OF _ assms(4,5)] task_page_room [OF assms(1,2)] by simp
next
  case False
  have "span y (4 * 16) \<inter> span x 64 = {}"
    using kh.live_disjoint [OF assms(1,3,2)] False task_page_room [OF assms(1,2)] task_page_room [OF assms(1,3)] by auto
  then show ?thesis
    using slot_agree [OF _ assms(5) set_slot_task_agree [OF _ assms(4)]] task_page_room [OF assms(1,2)]
      task_page_room [OF assms(1,3)] False by simp
qed

lemma task_list_remove_spec:
  assumes "kheap_ready s A" "\<forall>x \<in> set (us @ t # vs). A x = Some 1" "task_queue s (us @ t # vs)"
  defines "s' \<equiv> task_list_remove t s"
  shows "task_links (kmem s') (task_head s') (us @ vs) \<and> task_tail s' = (if us @ vs = [] then 0 else last (us @ vs)) \<and>
    current_task s' = (if current_task s = t then if us @ vs = [] then 0 else hd (vs @ us) else current_task s) \<and>
    (\<forall>x \<in> set (us @ t # vs). task_prev (kmem s') x = task_prev (kmem s) x)"
proof -
  let ?ts = "us @ t # vs"
  have q: "task_chain (kmem s) (task_head s) 0 ?ts" "distinct ?ts" "task_tail s = last ?ts"
    using assms(3) by (simp_all add: task_queue_def)
  note mid = task_chain_mid [OF q(1)]
  have nx: "task_next (kmem s) t = (if vs = [] then 0 else hd vs)" using mid task_chain_head by blast
  have nz: "x \<in> set ?ts \<Longrightarrow> x \<noteq> 0" for x using task_chain_nonzero [OF q(1)] by simp
  show ?thesis
  proof (cases "us = []")
    case True
    have h: "task_head s = t" "task_prev (kmem s) t = 0" using mid True by simp_all
    have l: "task_links (kmem s) (task_next (kmem s) t) vs" using mid task_chain_links by blast
    have lt: "(t = last ?ts) = (vs = [])" using q(2) True by (cases vs rule: rev_cases) auto
    have k: "kmem s' = kmem s" "task_head s' = task_next (kmem s) t" "task_tail s' = (if vs = [] then 0 else last vs)"
      "current_task s' = (if current_task s = t then task_get_next (s\<lparr>task_head := task_next (kmem s) t\<rparr>) else current_task s)"
      using h q(3) True lt by (auto simp: s'_def task_list_remove_def task_get_next_def Let_def)
    moreover have "task_get_next (s\<lparr>task_head := task_next (kmem s) t\<rparr>) = (if us @ vs = [] then 0 else hd (vs @ us))"
      if "current_task s = t"
      using that nx True nz by (auto simp: task_get_next_def)
    ultimately show ?thesis using l True by simp
  next
    case False
    let ?u = "last us"
    have p: "task_prev (kmem s) t = ?u" "?u \<noteq> 0" "?u \<noteq> t" "?u \<in> set ?ts"
      using mid False nz [of ?u] q(2) last_in_set [OF False] by auto
    have hd: "task_head s = hd us" "hd us \<noteq> t" "hd us \<in> set ?ts"
      using mid False q(2) hd_in_set [OF False] by auto
    have lt: "(t = last ?ts) = (vs = [])" using q(2) by (cases vs rule: rev_cases) auto
    let ?m = "set_slot (kmem s) ?u 14 (task_next (kmem s) t)"
    have sl: "slot ?m x j = (if x = ?u \<and> j = 14 then task_next (kmem s) t else slot (kmem s) x j)"
      if "x \<in> set ?ts" "j < 16" for x j
      by (rule task_slots_apart [OF assms(1)]) (use assms(2) p(4) that in auto)
    have "t \<in> set ?ts" by simp
    then have t14: "task_next ?m t = task_next (kmem s) t" "task_prev ?m t = ?u"
      using sl [of t] p(1,3) by (simp_all add: task_words)
    have k: "kmem s' = ?m" "task_head s' = hd us" "task_tail s' = (if vs = [] then ?u else last vs)"
      "current_task s' = (if current_task s = t then task_get_next (put_kmem ?m s) else current_task s)"
      using p hd q(3) t14 lt by (auto simp: s'_def task_list_remove_def task_get_next_def task_words put_kmem_def Let_def)
    have "task_links ?m (task_head s) (us @ vs)"
      by (rule task_links_snip [OF q(1) False q(2)]) (use sl in \<open>auto simp: task_words\<close>)
    moreover have "task_get_next (put_kmem ?m s) = (if us @ vs = [] then 0 else hd (vs @ us))" if "current_task s = t"
      using that t14 nx False nz hd by (auto simp: task_get_next_def)
    moreover have "task_prev ?m x = task_prev (kmem s) x" if "x \<in> set ?ts" for x using sl [OF that] by (simp add: task_words)
    ultimately show ?thesis using k hd False by simp
  qed
qed

section \<open>Properties\<close>

text \<open>C20: With 1027 free blocks, \<^verbatim>\<open>task_new\<close> returns a task in a fresh block and
  appends it to the task list, both ways linked, with the current task unchanged unless the list was empty. The task
  owns a new address space, in which every page is mapped to itself, present and for all privileges but not writable;
  its saved registers hold the entry point, which is the one in the header of an ELF image and
  \<^verbatim>\<open>0x400000\<close> for a plain binary, the user segments and the program stack, and it points to
  its process. What names the entry point has to be in live memory.\<close>

theorem task_new_appends:
  assumes "kheap_ready s A" "1027 \<le> kheap_avail s" "task_queue s ts" "\<forall>x \<in> set ts. A x = Some 1"
    "held (A |` (- set ts)) (entry_region (kmem s) process)"
  shows "\<exists>t c d ps s'. task_new process s = (t, s') \<and> A t = None \<and> chunk_owns s' (with_pages A (t # c # d # ps)) c d ps \<and>
    (\<forall>v. paging_is_aligned v \<longrightarrow> paging_get (kmem s') d v = v OR 5) \<and> task_queue s' (ts @ [t]) \<and>
    current_task s' = (if ts = [] then t else current_task s) \<and> task_page_directory (kmem s') t = c \<and>
    task_process (kmem s') t = process \<and>
    slot (kmem s') t 8 = (if process_filetype (kmem s) process = PROCESS_FILETYPE_ELF
      then e_entry (kmem s) (elf_header (kmem s) (process_ptr (kmem s) process)) else PEACHOS_PROGRAM_VIRTUAL_ADDRESS) \<and>
    slot (kmem s') t 9 = USER_CODE_SEGMENT \<and>
    slot (kmem s') t 11 = PEACHOS_PROGRAM_VIRTUAL_STACK_ADDRESS_START \<and> slot (kmem s') t 12 = USER_DATA_SEGMENT"
  by (rule task_new_starts [OF assms]) (unfold entry_point_def [symmetric], intro exI conjI, assumption+)

text \<open>C29: The first task enters user mode: after \<^verbatim>\<open>task_new\<close> on an empty list,
  \<^verbatim>\<open>task_run_first_ever_task\<close> loads the address space of that task and leaves the kernel for
  the entry point of its process, on the user stack, with the user's code segment, the user's data segment in the
  stack segment and in the four data segment registers, interrupts enabled and the general registers zero, but for
  \<^verbatim>\<open>ebp\<close>, which is the kernel's. It writes no memory.\<close>

theorem first_task_enters:
  assumes "kheap_ready s A" "1027 \<le> kheap_avail s" "task_queue s []" "held A (entry_region (kmem s) process)"
  shows "\<exists>t c d ps s' s''. task_new process s = (t, s') \<and> chunk_owns s' (with_pages A (t # c # d # ps)) c d ps \<and>
    task_run_first_ever_task flags ebp s' = Some (\<lparr>uc_edi = 0, uc_esi = 0, uc_ebp = ebp, uc_ebx = 0, uc_edx = 0, uc_ecx = 0, uc_eax = 0,
      uc_ip = (if process_filetype (kmem s) process = PROCESS_FILETYPE_ELF
        then e_entry (kmem s) (elf_header (kmem s) (process_ptr (kmem s) process)) else PEACHOS_PROGRAM_VIRTUAL_ADDRESS),
      uc_cs = USER_CODE_SEGMENT, uc_flags = flags OR 0x200, uc_esp = PEACHOS_PROGRAM_VIRTUAL_STACK_ADDRESS_START,
      uc_ss = USER_DATA_SEGMENT\<rparr>, s'') \<and>
    current_task s'' = t \<and> cr3 s'' = d \<and> data_segments s'' = ucast USER_DATA_SEGMENT \<and> kmem s'' = kmem s'"
proof -
  have h: "\<forall>x \<in> set []. A x = Some 1" "held (A |` (- set [])) (entry_region (kmem s) process)"
    using assms(4) by (simp_all add: restrict_map_def)
  obtain t c d ps s' where t: "task_new process s = (t, s')" "A t = None" "chunk_owns s' (with_pages A (t # c # d # ps)) c d ps"
    "\<forall>v. paging_is_aligned v \<longrightarrow> paging_get (kmem s') d v = v OR 5"
    "task_queue s' ([] @ [t])" "current_task s' = (if [] = ([] :: u32 list) then t else current_task s)"
    "task_page_directory (kmem s') t = c" "task_process (kmem s') t = process"
    "slot (kmem s') t 8 = entry_point (kmem s) process" "slot (kmem s') t 9 = USER_CODE_SEGMENT"
    "slot (kmem s') t 11 = PEACHOS_PROGRAM_VIRTUAL_STACK_ADDRESS_START" "slot (kmem s') t 12 = USER_DATA_SEGMENT"
    "\<forall>j \<in> {1..<8}. slot (kmem s') t j = 0"
    by (rule task_new_starts [OF assms(1-3) h])
  have q: "task_head s' = t" "t \<noteq> 0" "current_task s' = t" using t(5,6) by (auto simp: task_queue_def)
  have d: "directory_entry (kmem s') c = d" using t(3) by (simp add: chunk_owns_def)
  let ?s1 = "task_switch t s'"
  have s1: "kmem ?s1 = kmem s'" "current_task ?s1 = t" "cr3 ?s1 = d" "task_head ?s1 = t"
    using t(7) d q(1) by (simp_all add: task_switch_def paging_switch_def paging_load_directory_def Let_def)
  have w: "read32 (kmem s') (t + 4 + 4 * word_of_nat j) = slot (kmem s') t (Suc j)" for j by (simp add: slot_def algebra_simps)
  have z: "slot (kmem s') t j = 0" if "1 \<le> j" "j < 8" for j using t(13) that by simp
  have "task_return (t + 4) flags ebp ?s1 = (\<lparr>uc_edi = 0, uc_esi = 0, uc_ebp = ebp, uc_ebx = 0, uc_edx = 0, uc_ecx = 0, uc_eax = 0,
      uc_ip = entry_point (kmem s) process, uc_cs = USER_CODE_SEGMENT, uc_flags = flags OR 0x200,
      uc_esp = PEACHOS_PROGRAM_VIRTUAL_STACK_ADDRESS_START, uc_ss = USER_DATA_SEGMENT\<rparr>, ?s1\<lparr>data_segments := ucast USER_DATA_SEGMENT\<rparr>)"
    using w [of 0] w [of 1] w [of 3] w [of 4] w [of 5] w [of 6] w [of 7] w [of 8] w [of 10] w [of 11]
      z [of 1] z [of 2] z [of 4] z [of 5] z [of 6] z [of 7] t(9-12)
    by (simp add: task_return_def restore_general_purpose_registers_def s1(1) numeral_2_eq_2 [symmetric])
  then have "task_run_first_ever_task flags ebp s' = Some (\<lparr>uc_edi = 0, uc_esi = 0, uc_ebp = ebp, uc_ebx = 0, uc_edx = 0, uc_ecx = 0,
      uc_eax = 0, uc_ip = entry_point (kmem s) process, uc_cs = USER_CODE_SEGMENT, uc_flags = flags OR 0x200,
      uc_esp = PEACHOS_PROGRAM_VIRTUAL_STACK_ADDRESS_START, uc_ss = USER_DATA_SEGMENT\<rparr>, ?s1\<lparr>data_segments := ucast USER_DATA_SEGMENT\<rparr>)"
    using q s1(4) by (simp add: task_run_first_ever_task_def Let_def)
  then show ?thesis using t(1,3) s1
    by (intro exI [of _ t] exI [of _ c] exI [of _ d] exI [of _ ps] exI [of _ s'] exI [of _ "?s1\<lparr>data_segments := ucast USER_DATA_SEGMENT\<rparr>"])
      (simp add: entry_point_def)
qed

text \<open>C19: \<^verbatim>\<open>task_list_remove\<close> takes the task out of the list as it is linked forwards,
  moves the head and the tail with it, and if it was the current task makes its successor in the round the current
  one. The back links of the others are left as they were, so the successor of the removed task still names it as its
  predecessor.\<close>

theorem task_list_remove_unlinks:
  assumes "kheap_ready s A" "\<forall>x \<in> set (us @ t # vs). A x = Some 1" "task_queue s (us @ t # vs)" "s' = task_list_remove t s"
  shows "task_links (kmem s') (task_head s') (us @ vs) \<and> task_tail s' = (if us @ vs = [] then 0 else last (us @ vs)) \<and>
    current_task s' = (if current_task s = t then if us @ vs = [] then 0 else hd (vs @ us) else current_task s) \<and>
    (vs \<noteq> [] \<longrightarrow> task_prev (kmem s') (hd vs) = t)"
proof -
  have c: "task_chain (kmem s) (task_head s) 0 (us @ t # vs)" using assms(3) by (simp add: task_queue_def)
  note r = task_list_remove_spec [OF assms(1-3), folded assms(4)]
  have "task_prev (kmem s') (hd vs) = t" if "vs \<noteq> []"
  proof -
    have "task_prev (kmem s) (hd vs) = t" using task_chain_mid [OF c] that by (cases vs) auto
    moreover have "hd vs \<in> set (us @ t # vs)" using that by simp
    ultimately show ?thesis using r by metis
  qed
  then show ?thesis using r by blast
qed

text \<open>C30: A task that was interrupted and is returned to later goes on with the registers of the interrupt
  frame, the stack and code segments and addresses included, and with its stack segment in the data segment registers,
  but for two: \<open>ebp\<close> is the kernel's own, which
  \<^verbatim>\<open>restore_general_purpose_registers\<close> pops last, and the flags are the current ones with
  interrupts enabled. Saving writes the task structure only and keeps its page directory, process and links.\<close>

theorem task_resumes:
  assumes "unat task + 64 \<le> 4294967296" "unat frame + 52 \<le> 4294967296" "span frame 52 \<inter> span task 64 = {}"
    "m' = task_save_state m task frame" "kmem s = m'"
  shows "task_return (task + 4) flags ebp s =
      (\<lparr>uc_edi = slot m frame 0, uc_esi = slot m frame 1, uc_ebp = ebp, uc_ebx = slot m frame 4, uc_edx = slot m frame 5,
       uc_ecx = slot m frame 6, uc_eax = slot m frame 7, uc_ip = slot m frame 8, uc_cs = slot m frame 9,
       uc_flags = flags OR 0x200, uc_esp = slot m frame 11, uc_ss = slot m frame 12\<rparr>,
       s\<lparr>data_segments := ucast (slot m frame 12)\<rparr>) \<and>
    agree_off (span task 64) m m' \<and> (\<forall>j \<in> {0, 13, 14, 15}. slot m' task j = slot m task j)"
proof -
  note s = task_save_state_spec [OF assms(1-3), of m, folded assms(4)]
  have "read32 m' (task + 4 + 4 * word_of_nat j) = slot m' task (Suc j)" for j by (simp add: slot_def algebra_simps)
  from this [of 0] this [of 1] this [of 3] this [of 4] this [of 5] this [of 6] this [of 7] this [of 8] this [of 10] this [of 11]
  show ?thesis using s assms(5)
    by (simp add: task_return_def restore_general_purpose_registers_def saved_registers_def numeral_2_eq_2 [symmetric])
qed

section \<open>Witnesses\<close>

definition demo_taskstate :: taskstate where
  "demo_taskstate = loadstate.extend demo_loadstate
     \<lparr>current_task = 0, task_tail = 0, task_head = 0, kernel_chunk = 0, data_segments = 0x10\<rparr>"

lemma demo_taskstate_boot:
  "kheap_ready (kheap_init demo_taskstate) (\<lambda>_. None)" "1027 * 2 \<le> kheap_avail (kheap_init demo_taskstate)"
  "task_queue (kheap_init demo_taskstate) []"
proof -
  show "kheap_ready (kheap_init demo_taskstate) (\<lambda>_. None)" "1027 * 2 \<le> kheap_avail (kheap_init demo_taskstate)"
    using kheap_init_avail [of demo_taskstate] by simp_all
  obtain m where "kheap_init demo_taskstate = demo_taskstate\<lparr>kmem := m, kernel_heap := boot_heap\<rparr>"
    using kheap_init_eq by blast
  then show "task_queue (kheap_init demo_taskstate) []"
    by (simp add: task_queue_def demo_taskstate_def loadstate.defs)
qed

lemma task_new_live:
  assumes "kheap_ready s A" "1027 \<le> kheap_avail s" "task_queue s ts" "\<forall>x \<in> set ts. A x = Some 1"
  obtains t s' A' where "task_new process s = (t, s')" "kheap_ready s' A'" "kheap_avail s' + 1027 = kheap_avail s"
    "task_queue s' (ts @ [t])" "\<forall>x \<in> set (ts @ [t]). A' x = Some 1" "current_task s' = (if ts = [] then t else current_task s)"
proof (rule task_new_spec [OF assms, of process])
  fix t c d ps s'
  assume a: "task_new process s = (t, s')" "chunk_owns s' (with_pages A (t # c # d # ps)) c d ps"
    "kheap_avail s' + 1027 = kheap_avail s" "task_queue s' (ts @ [t])" "current_task s' = (if ts = [] then t else current_task s)"
  let ?A = "with_pages A (t # c # d # ps)"
  have "kheap_ready s' ?A" "\<forall>x \<in> set (ts @ [t]). ?A x = Some 1"
    using a(2) assms(4) by (auto simp: chunk_owns_def with_pages_def)
  then show thesis using that a by blast
qed

text \<open>Two tasks after boot.\<close>

lemma demo_two_tasks:
  obtains s A t u where "kheap_ready s A" "A t = Some 1" "A u = Some 1" "task_queue (s :: taskstate) [t, u]" "current_task s = t"
proof -
  note b = demo_taskstate_boot
  have a: "1027 \<le> kheap_avail (kheap_init demo_taskstate)" "\<forall>x \<in> set []. (\<lambda>_. None :: nat option) x = Some 1" using b(2) by simp_all
  obtain t s1 A1 where s1: "kheap_ready s1 A1" "kheap_avail s1 + 1027 = kheap_avail (kheap_init demo_taskstate)"
    "task_queue (s1 :: taskstate) [t]" "\<forall>x \<in> set [t]. A1 x = Some 1" "current_task s1 = t"
    by (rule task_new_live [OF b(1) a(1) b(3) a(2), of 0]) simp
  have "1027 \<le> kheap_avail s1" using s1(2) b(2) by linarith
  then obtain u s2 A2 where "kheap_ready s2 A2" "task_queue (s2 :: taskstate) [t, u]" "\<forall>x \<in> set [t, u]. A2 x = Some 1"
    "current_task s2 = current_task s1"
    by (rule task_new_live [OF s1(1) _ s1(3,4), of 0]) simp
  then show ?thesis using that [of s2 A2 t u] s1(5) by simp
qed

text \<open>A process structure on the heap that is its own image: the entry point is 0x400044.\<close>

lemma demo_elf_process:
  obtains s A p where "kheap_ready (s :: taskstate) A" "1027 \<le> kheap_avail s" "task_queue s []"
    "held A (entry_region (kmem s) p)" "entry_point (kmem s) p = 0x400044" "process_filetype (kmem s) p = PROCESS_FILETYPE_ELF"
proof -
  note b = demo_taskstate_boot
  have z: "(5260 :: u32) \<noteq> 0" "unat (5260 :: u32) \<le> 4294963200" by simp_all
  have rm: "kheap_room (kheap_init demo_taskstate) ((unat (5260 :: u32) + 4095) div 4096)" using boot_room [of "(unat (5260 :: u32) + 4095) div 4096"] by simp
  obtain p m where p: "kheap_ready (put_kmem m (kheap_init demo_taskstate)) [p \<mapsto> (unat (5260 :: u32) + 4095) div 4096]"
    "kheap_avail (put_kmem m (kheap_init demo_taskstate)) + (unat (5260 :: u32) + 4095) div 4096 = kheap_avail (kheap_init demo_taskstate)"
    "\<forall>x \<in> span p (unat (5260 :: u32)). m x = 0"
    using kh.zalloc_fresh [OF b(1) z rm] by (elim exE conjE) (rule that, assumption+)
  have n: "(unat (5260 :: u32) + 4095) div 4096 = 2" by simp
  let ?s = "put_kmem m (kheap_init demo_taskstate)" and ?A = "[p \<mapsto> 2 :: nat]"
  let ?m = "write32 (write32 (write32 m (p + 4216) p) (p + 112) p) (p + 24) 0x400044"
  have r: "kheap_ready ?s ?A" "?A p = Some 2" using p(1) n by simp_all
  have u: "unat p + 8192 \<le> 4294967296" using kh.live_bounds [OF r] by simp
  have o: "unat (p + word_of_nat k) = unat p + k" if "k < 8192" for k
    using that u by (simp add: unat_word_ariths unat_of_nat)
  note o1 = o [of 24] o [of 112] o [of 4212] o [of 4216]
  have sub: "span (p + 4216) 4 \<subseteq> span p 8192" "span (p + 112) 4 \<subseteq> span p 8192" "span (p + 24) 4 \<subseteq> span p 8192" "span (p + 4212) 1 \<subseteq> span p 8192"
    by (rule span_subset; use u o1 in simp)+
  have "agree_off (span p (2 * 4096)) (kmem ?s) ?m"
    using agree_off_trans_same [OF agree_off_trans_same [OF agree_off_mono [OF write32_agree sub(1)] agree_off_mono [OF write32_agree sub(2)]]
      agree_off_mono [OF write32_agree sub(3)], of m] by simp
  note k = kh.write_live [OF r this]
  have d: "span (p + 4216) 4 \<inter> span (p + 112) 4 = {}" "span (p + 4216) 4 \<inter> span (p + 24) 4 = {}" "span (p + 112) 4 \<inter> span (p + 24) 4 = {}"
    by (rule span_disjoint_sym; use u o1 in simp)+
  have f: "p + 4212 \<notin> span (p + 4216) 4" "p + 4212 \<notin> span (p + 112) 4" "p + 4212 \<notin> span (p + 24) 4" "p + 4212 \<in> span p 5260"
    using o1 u by (simp_all add: span_iff)
  have pt: "process_ptr ?m p = p" "elf_header ?m p = p" "e_entry ?m p = 0x400044" "process_filetype ?m p = 0"
    using d f p(3) by (simp_all add: process_ptr_def elf_header_def elf_memory_def e_entry_def process_filetype_def mem_simps)
  have "entry_region ?m p \<subseteq> span p 8192" using sub by (auto simp: entry_region_def pt)
  then have h: "held ?A (entry_region ?m p)" using r(2) unfolding held_def by fastforce
  let ?t = "put_kmem ?m ?s"
  have t: "kheap_ready ?t ?A" "kheap_avail ?t = kheap_avail ?s" by (rule k)+
  have km: "kmem ?t = ?m" by simp
  show ?thesis
  proof (rule that)
    show "kheap_ready ?t ?A" by (rule t(1))
    show "1027 \<le> kheap_avail ?t" using t(2) b(2) p(2) n by simp
    show "task_queue ?t []" using b(3) by (simp add: task_queue_def)
    show "held ?A (entry_region (kmem ?t) p)" unfolding km by (rule h)
    show "entry_point (kmem ?t) p = 0x400044" unfolding km by (simp add: entry_point_def pt)
    show "process_filetype (kmem ?t) p = PROCESS_FILETYPE_ELF" unfolding km by (rule pt(4))
  qed
qed

theorem task_new_appends_witness:
  "\<exists>s p t s'. task_new p (s :: taskstate) = (t, s') \<and> task_queue s' [t] \<and> task_process (kmem s') t = p \<and> slot (kmem s') t 8 = 0x400044"
proof -
  obtain s A p where s: "kheap_ready (s :: taskstate) A" "1027 \<le> kheap_avail s" "task_queue s []"
    "held A (entry_region (kmem s) p)" "entry_point (kmem s) p = 0x400044" "process_filetype (kmem s) p = PROCESS_FILETYPE_ELF" by (rule demo_elf_process)
  have h: "\<forall>x \<in> set []. A x = Some 1" "held (A |` (- set [])) (entry_region (kmem s) p)"
    using s(4) by (simp_all add: restrict_map_def)
  show ?thesis using task_new_appends [OF s(1-3) h] s(5,6) by (auto simp: entry_point_def)
qed

theorem first_task_enters_witness:
  "\<exists>s' s'' ctx. task_run_first_ever_task 0x86 9 (s' :: taskstate) = Some (ctx, s'') \<and> uc_ip ctx = 0x400044 \<and> uc_flags ctx = 0x286 \<and>
     data_segments s'' = 0x23"
proof -
  obtain s A p where s: "kheap_ready (s :: taskstate) A" "1027 \<le> kheap_avail s" "task_queue s []"
    "held A (entry_region (kmem s) p)" "entry_point (kmem s) p = 0x400044" "process_filetype (kmem s) p = PROCESS_FILETYPE_ELF" by (rule demo_elf_process)
  have "e_entry (kmem s) (elf_header (kmem s) (process_ptr (kmem s) p)) = 0x400044" using s(5,6) by (simp add: entry_point_def)
  then show ?thesis using first_task_enters [OF s(1-4), of "0x86" 9] s(6) by fastforce
qed

definition demo_task_mem :: mem where
  "demo_task_mem = (\<lambda>_. 0)(0x1039 := 0x20, 0x203d := 0x10, 0x5000 := 7, 0x5020 := 0x44, 0x5022 := 0x40)"

definition demo_queue :: taskstate where
  "demo_queue = put_kmem demo_task_mem (demo_taskstate\<lparr>current_task := 0x1000, task_tail := 0x2000, task_head := 0x1000\<rparr>)"

lemma demo_queue_ok: "task_queue demo_queue [0x1000, 0x2000]" "current_task demo_queue = 0x1000"
  by (simp_all add: task_queue_def demo_queue_def put_kmem_def demo_task_mem_def task_next_def task_prev_def read32_def)

theorem task_list_remove_unlinks_witness:
  "\<exists>s t u. task_queue (s :: taskstate) [t, u] \<and> current_task (task_list_remove t s) = u \<and>
     task_prev (kmem (task_list_remove t s)) u = t"
proof -
  obtain s A t u where s: "kheap_ready s A" "A t = Some 1" "A u = Some 1" "task_queue (s :: taskstate) [t, u]" "current_task s = t"
    by (rule demo_two_tasks)
  then show ?thesis using task_list_remove_unlinks [of s A "[]" t "[u]" "task_list_remove t s"]
    by (intro exI [of _ s] exI [of _ t] exI [of _ u]) auto
qed

theorem task_resumes_witness:
  "\<exists>s ctx s'. task_return 0x1004 0 9 (s :: taskstate) = (ctx, s') \<and> uc_edi ctx = 7 \<and> uc_ip ctx = 0x400044 \<and> data_segments s' = 0x23"
proof -
  let ?m = "demo_task_mem(0x5030 := 0x23)" let ?s = "put_kmem (task_save_state ?m 0x1000 0x5000) demo_taskstate"
  have "span (0x5000 :: u32) 52 \<inter> span 0x1000 64 = {}" by (rule span_disjoint_sym) simp_all
  then have "task_return (0x1000 + 4) 0 9 ?s =
      (\<lparr>uc_edi = slot ?m 0x5000 0, uc_esi = slot ?m 0x5000 1, uc_ebp = 9, uc_ebx = slot ?m 0x5000 4, uc_edx = slot ?m 0x5000 5,
       uc_ecx = slot ?m 0x5000 6, uc_eax = slot ?m 0x5000 7, uc_ip = slot ?m 0x5000 8, uc_cs = slot ?m 0x5000 9,
       uc_flags = 0 OR 0x200, uc_esp = slot ?m 0x5000 11, uc_ss = slot ?m 0x5000 12\<rparr>,
       ?s\<lparr>data_segments := ucast (slot ?m 0x5000 12)\<rparr>)"
    using task_resumes [of "0x1000" "0x5000" "task_save_state ?m 0x1000 0x5000" ?m ?s 0 9] by simp
  moreover have "(0x1000 :: u32) + 4 = 0x1004" by simp
  ultimately have r: "task_return 0x1004 0 9 ?s =
      (\<lparr>uc_edi = slot ?m 0x5000 0, uc_esi = slot ?m 0x5000 1, uc_ebp = 9, uc_ebx = slot ?m 0x5000 4, uc_edx = slot ?m 0x5000 5,
       uc_ecx = slot ?m 0x5000 6, uc_eax = slot ?m 0x5000 7, uc_ip = slot ?m 0x5000 8, uc_cs = slot ?m 0x5000 9,
       uc_flags = 0 OR 0x200, uc_esp = slot ?m 0x5000 11, uc_ss = slot ?m 0x5000 12\<rparr>,
       ?s\<lparr>data_segments := ucast (slot ?m 0x5000 12)\<rparr>)" by (simp only:)
  have "slot ?m 0x5000 0 = 7" "slot ?m 0x5000 8 = 0x400044" "slot ?m 0x5000 12 = 0x23" by (simp_all add: slot_def demo_task_mem_def read32_def)
  then show ?thesis by - (rule exI [of _ ?s], intro exI conjI, rule r, simp_all)
qed

end
