(* ===== verification/Process.thy ===== *)
theory Process
  imports Task
begin

text \<open>
  \<^verbatim>\<open>src/task/process.c\<close>. A \<^verbatim>\<open>struct process\<close> is 5260 bytes of kernel heap: id, file name, task, the table of
  1024 allocations, file type, the loaded program (\<open>ptr\<close>, a union with the \<^verbatim>\<open>elf_file\<close> pointer), stack, size
  and the keyboard buffer. The table of the twelve processes is static, at \<open>processes_at\<close>; the local
  \<^verbatim>\<open>struct file_stat\<close> of \<^verbatim>\<open>process_load_binary\<close> is at \<open>process_stat_at\<close> and its literal \<^verbatim>\<open>"r"\<close> at
  \<open>process_mode_r_at\<close>. A pointer stored through an out-parameter is a result, \<open>None\<close> if none is stored.
\<close>

abbreviation (input) PEACHOS_MAX_PROCESSES :: nat where "PEACHOS_MAX_PROCESSES \<equiv> 12"
abbreviation (input) PEACHOS_MAX_PROGRAM_ALLOCATIONS :: nat where "PEACHOS_MAX_PROGRAM_ALLOCATIONS \<equiv> 1024"
abbreviation (input) PEACHOS_USER_PROGRAM_STACK_SIZE :: u32 where "PEACHOS_USER_PROGRAM_STACK_SIZE \<equiv> 16384"
abbreviation (input) PEACHOS_PROGRAM_VIRTUAL_STACK_ADDRESS_END :: u32 where "PEACHOS_PROGRAM_VIRTUAL_STACK_ADDRESS_END \<equiv> 0x3fb000"

record procstate = taskstate +
  current_process :: u32
  processes_at :: u32
  process_stat_at :: u32
  process_mode_r_at :: u32

section \<open>Structures\<close>

definition process_id :: "mem \<Rightarrow> u32 \<Rightarrow> u16" where "process_id m p = read16 m p"
definition process_filename :: "u32 \<Rightarrow> u32" where "process_filename p = p + 2"
definition process_task :: "mem \<Rightarrow> u32 \<Rightarrow> u32" where "process_task m p = read32 m (p + 112)"
definition process_allocations :: "u32 \<Rightarrow> u32" where "process_allocations p = p + 116"
definition process_stack :: "mem \<Rightarrow> u32 \<Rightarrow> u32" where "process_stack m p = read32 m (p + 4220)"
definition process_size :: "mem \<Rightarrow> u32 \<Rightarrow> u32" where "process_size m p = read32 m (p + 4224)"

section \<open>The table of processes\<close>

definition process_init :: "u32 \<Rightarrow> mem \<Rightarrow> mem" where
  "process_init process m = memset m process 0 5260"

definition process_get :: "int \<Rightarrow> 'z procstate_scheme \<Rightarrow> u32" where
  "process_get i s =
     (if i < 0 \<or> i \<ge> int PEACHOS_MAX_PROCESSES then 0 else slot (kmem s) (processes_at s) (nat i))"

definition process_switch :: "u32 \<Rightarrow> 'z procstate_scheme \<Rightarrow> int \<times> 'z procstate_scheme" where
  "process_switch process s = (0, s\<lparr>current_process := process\<rparr>)"

definition process_get_free_slot :: "'z procstate_scheme \<Rightarrow> int" where
  "process_get_free_slot s =
     (case zero_slot (kmem s) (processes_at s) 0 PEACHOS_MAX_PROCESSES of Some i \<Rightarrow> int i | None \<Rightarrow> EISTKN)"

section \<open>Allocations of a process\<close>

definition process_find_free_allocation_index :: "mem \<Rightarrow> u32 \<Rightarrow> int" where
  "process_find_free_allocation_index m process =
     (case zero_slot m (process_allocations process) 0 PEACHOS_MAX_PROGRAM_ALLOCATIONS of Some i \<Rightarrow> int i | None \<Rightarrow> - ENOMEM)"

definition process_malloc :: "u32 \<Rightarrow> u32 \<Rightarrow> 'z kstate_scheme \<Rightarrow> u32 \<times> 'z kstate_scheme" where
  "process_malloc process sz s =
     (let (ptr, s1) = kzalloc sz s in
      if ptr = 0 then (0, s1)
      else let index = process_find_free_allocation_index (kmem s1) process in
        if index < 0 then (0, s1)
        else (ptr, put_kmem (set_slot (kmem s1) (process_allocations process) (nat index) ptr) s1))"

definition process_is_process_pointer :: "mem \<Rightarrow> u32 \<Rightarrow> u32 \<Rightarrow> bool" where
  "process_is_process_pointer m process ptr =
     list_ex (\<lambda>i. slot m (process_allocations process) i = ptr) [0..<PEACHOS_MAX_PROGRAM_ALLOCATIONS]"

definition process_allocation_unjoin :: "u32 \<Rightarrow> u32 \<Rightarrow> mem \<Rightarrow> mem" where
  "process_allocation_unjoin process ptr m =
     fold (\<lambda>i m. if slot m (process_allocations process) i = ptr then set_slot m (process_allocations process) i 0 else m)
       [0..<PEACHOS_MAX_PROGRAM_ALLOCATIONS] m"

definition process_free :: "u32 \<Rightarrow> u32 \<Rightarrow> 'z kstate_scheme \<Rightarrow> 'z kstate_scheme" where
  "process_free process ptr s =
     (if \<not> process_is_process_pointer (kmem s) process ptr then s
      else kfree ptr (put_kmem (process_allocation_unjoin process ptr (kmem s)) s))"

section \<open>Loading a program\<close>

definition process_load_binary :: "device \<Rightarrow> u32 \<Rightarrow> u32 \<Rightarrow> 'z procstate_scheme \<Rightarrow> (int \<times> 'z procstate_scheme) option" where
  "process_load_binary dev filename process s = do {
     (fd, s1) \<leftarrow> fopen dev filename (process_mode_r_at s) s;
     (res, s2) \<leftarrow> (if fd = 0 then Some (- EIO, s1)
       else do {
         (res, s2) \<leftarrow> fstat fd (process_stat_at s1) s1;
         if res \<noteq> PEACHOS_ALL_OK then Some (res, s2)
         else do {
           let filesize = read32 (kmem s2) (process_stat_at s2 + 4);
           let (program_data_ptr, s3) = kzalloc filesize s2;
           if program_data_ptr = 0 then Some (- ENOMEM, s3)
           else do {
             (n, s4) \<leftarrow> fread dev program_data_ptr (read32 (kmem s3) (process_stat_at s3 + 4)) 1 fd s3;
             if n \<noteq> 1 then Some (- EIO, s4)
             else let m5 = (kmem s4)(process + 4212 := PROCESS_FILETYPE_BINARY);
                      m6 = write32 m5 (process + 4216) program_data_ptr;
                      m7 = write32 m6 (process + 4224) (read32 m6 (process_stat_at s4 + 4))
                  in Some (res, put_kmem m7 s4)
           }
         }
       });
     (_, s3) \<leftarrow> fclose fd s2;
     Some (res, s3)
   }"

definition process_load_elf :: "device \<Rightarrow> u32 \<Rightarrow> u32 \<Rightarrow> 'z procstate_scheme \<Rightarrow> (int \<times> 'z procstate_scheme) option" where
  "process_load_elf dev filename process s = do {
     (res, out, s1) \<leftarrow> elf_load dev filename s;
     let elf_file = (case out of None \<Rightarrow> 0 | Some f \<Rightarrow> f);
     if res < 0 then Some (res, s1)
     else Some (res, put_kmem (write32 ((kmem s1)(process + 4212 := PROCESS_FILETYPE_ELF)) (process + 4216) elf_file) s1)
   }"

definition process_load_data :: "device \<Rightarrow> u32 \<Rightarrow> u32 \<Rightarrow> 'z procstate_scheme \<Rightarrow> (int \<times> 'z procstate_scheme) option" where
  "process_load_data dev filename process s = do {
     (res, s1) \<leftarrow> process_load_elf dev filename process s;
     if res = - EINFORMAT then process_load_binary dev filename process s1 else Some (res, s1)
   }"

section \<open>Mapping its memory\<close>

definition process_page_directory :: "mem \<Rightarrow> u32 \<Rightarrow> u32" where
  "process_page_directory m process = task_page_directory m (process_task m process)"

definition process_map_binary :: "mem \<Rightarrow> u32 \<Rightarrow> int \<times> mem" where
  "process_map_binary m process =
     (let (_, m') = paging_map_to m (process_page_directory m process) PEACHOS_PROGRAM_VIRTUAL_ADDRESS (process_ptr m process)
        (paging_align_address (process_ptr m process + process_size m process)) 7
      in (0, m'))"

definition process_phdr_flags :: "mem \<Rightarrow> u32 \<Rightarrow> int" where
  "process_phdr_flags m phdr = (if p_flags m phdr AND PF_W \<noteq> 0 then 7 else 5)"

function process_map_elf_loop :: "mem \<Rightarrow> u32 \<Rightarrow> u32 \<Rightarrow> u32 \<Rightarrow> u32 \<Rightarrow> nat \<Rightarrow> int \<Rightarrow> int \<times> mem" where
  "process_map_elf_loop m process elf_file header phdrs i res =
     (if i < unat (e_phnum m header)
      then let phdr = phdrs + 32 * word_of_nat i;
               phdr_phys_address = elf_phdr_phys_address m elf_file phdr;
               (res, m1) = paging_map_to m (process_page_directory m process) (paging_align_to_lower_page (p_vaddr m phdr))
                 (paging_align_to_lower_page phdr_phys_address)
                 (paging_align_address (phdr_phys_address + p_memsz m phdr)) (process_phdr_flags m phdr)
           in if res < 0 then (res, m1) else process_map_elf_loop m1 process elf_file header phdrs (Suc i) res
      else (res, m))"
  by pat_completeness auto
termination
proof (relation "measure (\<lambda>(m, process, elf_file, header, phdrs, i, res). 65536 - i)")
  fix m process elf_file header phdrs i
  assume "i < unat (e_phnum m header)"
  then have "i < 65536" using unat_le_max16 [of "e_phnum m header"] by simp
  then show "((m', process, elf_file, header, phdrs, Suc i, r), m, process, elf_file, header, phdrs, i, res)
    \<in> measure (\<lambda>(m, process, elf_file, header, phdrs, i, res). 65536 - i)" for m' r res by simp
qed simp

declare process_map_elf_loop.simps [simp del]

definition process_map_elf :: "mem \<Rightarrow> u32 \<Rightarrow> int \<times> mem" where
  "process_map_elf m process =
     (let elf_file = process_ptr m process;
          header = elf_header m elf_file;
          phdrs = elf_pheader m header
      in process_map_elf_loop m process elf_file header phdrs 0 0)"

text \<open>\<open>None\<close>: the file type is neither, the kernel panics.\<close>

definition process_map_memory :: "mem \<Rightarrow> u32 \<Rightarrow> (int \<times> mem) option" where
  "process_map_memory m process = do {
     (res, m1) \<leftarrow> (if process_filetype m process = PROCESS_FILETYPE_ELF then Some (process_map_elf m process)
       else if process_filetype m process = PROCESS_FILETYPE_BINARY then Some (process_map_binary m process) else None);
     if res < 0 then Some (res, m1)
     else let (_, m2) = paging_map_to m1 (process_page_directory m1 process) PEACHOS_PROGRAM_VIRTUAL_STACK_ADDRESS_END
            (process_stack m1 process) (paging_align_address (process_stack m1 process + PEACHOS_USER_PROGRAM_STACK_SIZE)) 7
          in Some (res, m2)
   }"

section \<open>Creating a process\<close>

text \<open>The part of \<^verbatim>\<open>process_load_for_slot\<close> between the loading of the program and \<^verbatim>\<open>out:\<close>, and with the loading
  before it. The second component of the result tells whether the process was stored.\<close>

definition process_set_up :: "u32 \<Rightarrow> u32 \<Rightarrow> int \<Rightarrow> 'z procstate_scheme \<Rightarrow> (int \<times> bool \<times> 'z procstate_scheme) option" where
  "process_set_up filename process process_slot s = do {
     let (program_stack_ptr, s1) = kzalloc PEACHOS_USER_PROGRAM_STACK_SIZE s;
     if program_stack_ptr = 0 then Some (- ENOMEM, False, s1)
     else do {
       let m2 = strncpy (kmem s1) (process_filename process) filename 108;
       let m3 = write32 m2 (process + 4220) program_stack_ptr;
       let s2 = put_kmem (write16 m3 process (word_of_int process_slot)) s1;
       let (task, s3) = task_new process s2;
       if sint task = 0 then Some (sint task, False, s3)
       else do {
         let m4 = write32 (kmem s3) (process + 112) task;
         (res, m5) \<leftarrow> process_map_memory m4 process;
         let s4 = put_kmem m5 s3;
         if res < 0 then Some (res, False, s4)
         else Some (res, True, put_kmem (set_slot (kmem s4) (processes_at s4) (nat process_slot) process) s4)
       }
     }
   }"

definition process_load_into :: "device \<Rightarrow> u32 \<Rightarrow> u32 \<Rightarrow> int \<Rightarrow> 'z procstate_scheme \<Rightarrow> (int \<times> bool \<times> 'z procstate_scheme) option" where
  "process_load_into dev filename process process_slot s = do {
     let s1 = put_kmem (process_init process (kmem s)) s;
     (res, s2) \<leftarrow> process_load_data dev filename process s1;
     if res < 0 then Some (res, False, s2) else process_set_up filename process process_slot s2
   }"

text \<open>\<open>uninit\<close> is what the local \<^verbatim>\<open>_process\<close> holds before it is assigned; the first error path reads it.\<close>

definition process_load_for_slot ::
  "device \<Rightarrow> u32 \<Rightarrow> u32 \<Rightarrow> int \<Rightarrow> 'z procstate_scheme \<Rightarrow> (int \<times> u32 option \<times> 'z procstate_scheme) option" where
  "process_load_for_slot dev uninit filename process_slot s = do {
     (res, process, stored, s1) \<leftarrow> (if process_get process_slot s \<noteq> 0 then Some (- EISTKN, uninit, False, s)
       else let (process, s1) = kzalloc 5260 s in
         if process = 0 then Some (- ENOMEM, 0, False, s1)
         else do { (res, stored, s2) \<leftarrow> process_load_into dev filename process process_slot s1; Some (res, process, stored, s2) });
     let s2 = (if res < 0 \<and> process \<noteq> 0 \<and> process_task (kmem s1) process \<noteq> 0
       then snd (task_free (process_task (kmem s1) process) s1) else s1);
     Some (res, if stored then Some process else None, s2)
   }"

definition process_load :: "device \<Rightarrow> u32 \<Rightarrow> u32 \<Rightarrow> 'z procstate_scheme \<Rightarrow> (int \<times> u32 option \<times> 'z procstate_scheme) option" where
  "process_load dev uninit filename s =
     (let process_slot = process_get_free_slot s in
      if process_slot < 0 then Some (- EISTKN, None, s) else process_load_for_slot dev uninit filename process_slot s)"

text \<open>\<open>old\<close> is the value of the caller's variable before the call.\<close>

definition process_load_switch :: "device \<Rightarrow> u32 \<Rightarrow> u32 \<Rightarrow> u32 \<Rightarrow> 'z procstate_scheme \<Rightarrow> (int \<times> u32 \<times> 'z procstate_scheme) option" where
  "process_load_switch dev uninit filename old s = do {
     (res, out, s1) \<leftarrow> process_load dev uninit filename s;
     let process = (case out of None \<Rightarrow> old | Some p \<Rightarrow> p);
     Some (res, process, if res = PEACHOS_ALL_OK then snd (process_switch process s1) else s1)
   }"

section \<open>The table of allocations\<close>

definition alloc_table :: "mem \<Rightarrow> u32 \<Rightarrow> u32 list" where
  "alloc_table m p = slots m (process_allocations p) 1024"

lemma length_alloc_table [simp]: "length (alloc_table m p) = 1024"
  by (simp add: alloc_table_def)

text \<open>A \<^verbatim>\<open>struct process\<close> takes two blocks of the heap.\<close>

lemma alloc_table_room:
  assumes "kheap_ready s A" "A p = Some 2"
  shows "unat (process_allocations p) + 4 * 1024 \<le> 4294967296" "span (process_allocations p) (4 * 1024) \<subseteq> span p (2 * 4096)"
proof -
  have b: "unat p + 8192 \<le> 4294967296" using kh.live_bounds [OF assms] by simp
  then have u: "unat (p + 116) = unat p + 116" by (simp add: unat_word_ariths)
  show "unat (process_allocations p) + 4 * 1024 \<le> 4294967296" using b u by (simp add: process_allocations_def)
  show "span (process_allocations p) (4 * 1024) \<subseteq> span p (2 * 4096)"
    unfolding process_allocations_def by (rule span_subset) (use b u in simp_all)
qed

lemma alloc_table_agree:
  assumes "kheap_ready s A" "A p = Some 2" "agree_off S m m'" "span p (2 * 4096) \<inter> S = {}"
  shows "alloc_table m' p = alloc_table m p"
  unfolding alloc_table_def
  by (rule slots_agree [OF _ assms(3)]) (use alloc_table_room [OF assms(1,2)] assms(4) in auto)

lemma alloc_table_kept:
  assumes "kheap_ready s A" "A p = Some 2" "kept A m m'"
  shows "alloc_table m' p = alloc_table m p"
proof (rule alloc_table_agree [OF assms(1,2)])
  show "agree_off (- span p (2 * 4096)) m m'" using keptD [OF assms(3,2)] by (simp add: agree_off_def)
qed simp

lemma alloc_table_set:
  assumes "kheap_ready s A" "A p = Some 2" "i < 1024"
  shows "alloc_table (set_slot m (process_allocations p) i v) p = (alloc_table m p)[i := v]"
    "agree_off (span p (2 * 4096)) m (set_slot m (process_allocations p) i v)"
proof -
  note r = alloc_table_room [OF assms(1,2)]
  show "alloc_table (set_slot m (process_allocations p) i v) p = (alloc_table m p)[i := v]"
    unfolding alloc_table_def by (rule slots_set_slot [OF r(1) assms(3)])
  show "agree_off (span p (2 * 4096)) m (set_slot m (process_allocations p) i v)"
    by (rule agree_off_mono [OF set_slot_agree [OF r(1) assms(3)] r(2)])
qed

lemma find_free_index:
  "process_find_free_allocation_index m p =
     (case zero_slot m (process_allocations p) 0 1024 of Some i \<Rightarrow> int i | None \<Rightarrow> - 3)"
  by (simp add: process_find_free_allocation_index_def)

lemma is_process_pointer_iff: "process_is_process_pointer m p q \<longleftrightarrow> q \<in> set (alloc_table m p)"
  by (auto simp: process_is_process_pointer_def alloc_table_def slots_def list_ex_iff)

lemma unjoin_spec:
  assumes "kheap_ready s A" "A p = Some 2"
  shows "alloc_table (process_allocation_unjoin p q m) p = map (\<lambda>x. if x = q then 0 else x) (alloc_table m p) \<and>
    agree_off (span p (2 * 4096)) m (process_allocation_unjoin p q m)"
proof -
  let ?f = "\<lambda>i m. if slot m (process_allocations p) i = q then set_slot m (process_allocations p) i 0 else m"
  have "alloc_table (fold ?f [0..<n] m) p = map (\<lambda>x. if x = q then 0 else x) (take n (alloc_table m p)) @ drop n (alloc_table m p) \<and>
      agree_off (span p (2 * 4096)) m (fold ?f [0..<n] m)" if "n \<le> 1024" for n
    using that
  proof (induction n)
    case (Suc n)
    let ?m = "fold ?f [0..<n] m" and ?T = "alloc_table m p"
    have n: "n < 1024" using Suc.prems by simp
    have IH: "alloc_table ?m p = map (\<lambda>x. if x = q then 0 else x) (take n ?T) @ drop n ?T" "agree_off (span p (2 * 4096)) m ?m"
      using Suc by simp_all
    have e: "slot ?m (process_allocations p) n = ?T ! n"
    proof -
      have "slot ?m (process_allocations p) n = alloc_table ?m p ! n" using n by (simp add: alloc_table_def)
      then show ?thesis using IH(1) n by (simp add: nth_append)
    qed
    have d: "drop n ?T = ?T ! n # drop (Suc n) ?T" using n by (simp add: Cons_nth_drop_Suc)
    have t: "take (Suc n) ?T = take n ?T @ [?T ! n]" using n by (simp add: take_Suc_conv_app_nth)
    show ?case
    proof (cases "?T ! n = q")
      case True
      note w = alloc_table_set [OF assms n, of ?m 0]
      have "alloc_table (?f n ?m) p = map (\<lambda>x. if x = q then 0 else x) (take (Suc n) ?T) @ drop (Suc n) ?T"
        using w(1) IH(1) e True d t n by (simp add: list_update_append)
      moreover have "agree_off (span p (2 * 4096)) m (?f n ?m)" using agree_off_trans_same [OF IH(2) w(2)] e True by simp
      ultimately show ?thesis by simp
    next
      case False
      then show ?thesis using IH e d t by simp
    qed
  qed simp
  from this [of 1024] show ?thesis by (simp add: process_allocation_unjoin_def)
qed

section \<open>Processes own their allocations\<close>

text \<open>\<open>procs_ok s A P\<close>: the processes \<open>P\<close> are live structures, and every pointer recorded by one of them is a live
  block that nobody else has recorded, and not one of the structures.\<close>

definition procs_ok :: "'z kstate_scheme \<Rightarrow> (u32 \<Rightarrow> nat option) \<Rightarrow> u32 set \<Rightarrow> bool" where
  "procs_ok s A P \<longleftrightarrow> kheap_ready s A \<and> (\<forall>p \<in> P. A p = Some 2) \<and>
     (\<forall>p \<in> P. \<forall>i < 1024. alloc_table (kmem s) p ! i \<noteq> 0 \<longrightarrow>
        A (alloc_table (kmem s) p ! i) \<noteq> None \<and> alloc_table (kmem s) p ! i \<notin> P \<and>
        (\<forall>p' \<in> P. \<forall>j < 1024. alloc_table (kmem s) p' ! j = alloc_table (kmem s) p ! i \<longrightarrow> p' = p \<and> j = i))"

lemma procs_okD:
  assumes "procs_ok s A P"
  shows "kheap_ready s A" "p \<in> P \<Longrightarrow> A p = Some 2"
    "p \<in> P \<Longrightarrow> i < 1024 \<Longrightarrow> alloc_table (kmem s) p ! i \<noteq> 0 \<Longrightarrow>
      A (alloc_table (kmem s) p ! i) \<noteq> None \<and> alloc_table (kmem s) p ! i \<notin> P"
    "p \<in> P \<Longrightarrow> i < 1024 \<Longrightarrow> alloc_table (kmem s) p ! i \<noteq> 0 \<Longrightarrow> p' \<in> P \<Longrightarrow> j < 1024 \<Longrightarrow>
      alloc_table (kmem s) p' ! j = alloc_table (kmem s) p ! i \<Longrightarrow> p' = p \<and> j = i"
  using assms unfolding procs_ok_def by blast+

text \<open>New tables that record less, or one fresh block more, are in order.\<close>

lemma procs_okI_frame:
  assumes "procs_ok s A P" "kheap_ready s' A'" "\<forall>p \<in> P. A' p = Some 2"
    "\<forall>p \<in> P. \<forall>i < 1024. alloc_table (kmem s') p ! i \<noteq> 0 \<longrightarrow>
       alloc_table (kmem s') p ! i = alloc_table (kmem s) p ! i \<and> A' (alloc_table (kmem s) p ! i) = A (alloc_table (kmem s) p ! i)"
  shows "procs_ok s' A' P"
  unfolding procs_ok_def
proof (intro conjI ballI allI impI)
  fix p i assume p: "p \<in> P" "i < 1024" "alloc_table (kmem s') p ! i \<noteq> 0"
  have "alloc_table (kmem s') p ! i = alloc_table (kmem s) p ! i \<and> A' (alloc_table (kmem s) p ! i) = A (alloc_table (kmem s) p ! i)"
    using assms(4) p by blast
  with p(3) have e: "alloc_table (kmem s') p ! i = alloc_table (kmem s) p ! i" "alloc_table (kmem s) p ! i \<noteq> 0"
    "A' (alloc_table (kmem s) p ! i) = A (alloc_table (kmem s) p ! i)" by simp_all
  note o = procs_okD(3) [OF assms(1) p(1,2) e(2)]
  show "A' (alloc_table (kmem s') p ! i) \<noteq> None" "alloc_table (kmem s') p ! i \<notin> P" using e o by simp_all
  fix p' j assume p': "p' \<in> P" "j < 1024" "alloc_table (kmem s') p' ! j = alloc_table (kmem s') p ! i"
  have "alloc_table (kmem s') p' ! j \<noteq> 0" using p'(3) p(3) by simp
  then have "alloc_table (kmem s') p' ! j = alloc_table (kmem s) p' ! j" using assms(4) p'(1,2) by blast
  then have "alloc_table (kmem s) p' ! j = alloc_table (kmem s) p ! i" using p'(3) e(1) by simp
  from procs_okD(4) [OF assms(1) p(1,2) e(2) p'(1,2) this] show "p' = p" "j = i" by blast+
qed (use assms(2,3) in blast)+

lemma procs_okI_record:
  assumes "procs_ok s A P" "kheap_ready s' (A(q \<mapsto> n))" "A q = None" "q \<noteq> 0" "p \<in> P" "i < 1024"
    "alloc_table (kmem s') p = (alloc_table (kmem s) p)[i := q]"
    "\<forall>p' \<in> P - {p}. alloc_table (kmem s') p' = alloc_table (kmem s) p'"
  shows "procs_ok s' (A(q \<mapsto> n)) P"
proof -
  let ?T = "alloc_table (kmem s)" and ?T' = "alloc_table (kmem s')"
  have qP: "q \<notin> P" using procs_okD(2) [OF assms(1)] assms(3) by auto
  have t: "?T' p' ! j = (if p' = p \<and> j = i then q else ?T p' ! j)" if "p' \<in> P" "j < 1024" for p' j
    using assms(6-8) that by (cases "p' = p") auto
  have nq: "?T p' ! j \<noteq> q" if "p' \<in> P" "j < 1024" for p' j
  proof
    assume e: "?T p' ! j = q"
    then have "?T p' ! j \<noteq> 0" using assms(4) by simp
    from procs_okD(3) [OF assms(1) that this] e assms(3) show False by simp
  qed
  show ?thesis
    unfolding procs_ok_def
  proof (intro conjI ballI allI impI)
    show "kheap_ready s' (A(q \<mapsto> n))" by (rule assms(2))
  next
    fix r assume "r \<in> P"
    then show "(A(q \<mapsto> n)) r = Some 2" using procs_okD(2) [OF assms(1)] qP by auto
  next
    fix r j assume r: "r \<in> P" "j < 1024" "?T' r ! j \<noteq> 0"
    show "(A(q \<mapsto> n)) (?T' r ! j) \<noteq> None" "?T' r ! j \<notin> P"
      using procs_okD(3) [OF assms(1) r(1,2)] r qP t [OF r(1,2)] by (auto split: if_splits)
    fix r' k assume r': "r' \<in> P" "k < 1024" "?T' r' ! k = ?T' r ! j"
    have "r' = r \<and> k = j"
    proof (cases "r = p \<and> j = i")
      case True
      then have "?T' r' ! k = q" using r' t [OF r(1,2)] by simp
      then show ?thesis using t [OF r'(1,2)] nq [OF r'(1,2)] True by (auto split: if_splits)
    next
      case False
      then have e: "?T' r ! j = ?T r ! j" using t [OF r(1,2)] by auto
      have "\<not> (r' = p \<and> k = i)"
      proof
        assume "r' = p \<and> k = i"
        then have "?T' r' ! k = q" using t [OF r'(1,2)] by simp
        then show False using r'(3) e nq [OF r(1,2)] by simp
      qed
      then have "?T' r' ! k = ?T r' ! k" using t [OF r'(1,2)] by (simp only: if_False)
      then have "?T r' ! k = ?T r ! j" "?T r ! j \<noteq> 0" using e r(3) r'(3) by simp_all
      then show ?thesis using procs_okD(4) [OF assms(1) r(1,2) _ r'(1,2)] by blast
    qed
    then show "r' = r" "k = j" by simp_all
  qed
qed

lemma procs_ok_tables:
  assumes "procs_ok s A P" "agree_off R (kmem s) m" "R \<inter> kheap_reserved s = {}"
    "\<And>p. p \<in> P \<Longrightarrow> span (process_allocations p) 4096 \<inter> R = {}"
  shows "procs_ok (put_kmem m s) A P" "p \<in> P \<Longrightarrow> alloc_table m p = alloc_table (kmem s) p"
proof -
  note r = procs_okD(1) [OF assms(1)]
  show t: "alloc_table m p = alloc_table (kmem s) p" if "p \<in> P" for p
    unfolding alloc_table_def
    by (rule slots_agree [OF alloc_table_room(1) [OF r procs_okD(2) [OF assms(1) that]] assms(2)]) (use assms(4) [OF that] in simp)
  show "procs_ok (put_kmem m s) A P"
    by (rule procs_okI_frame [OF assms(1)])
      (use kh.put_ready [OF r assms(2,3)] t procs_okD(2) [OF assms(1)] in auto)
qed

lemma procs_ok_apart:
  assumes "procs_ok s A P" "agree_off R (kmem s) m" "R \<inter> kheap_reserved s = {}" "(\<Union>p \<in> P. span p 8192) \<inter> R = {}"
  shows "procs_ok (put_kmem m s) A P" "p \<in> P \<Longrightarrow> alloc_table m p = alloc_table (kmem s) p"
proof -
  have d: "span (process_allocations p) 4096 \<inter> R = {}" if "p \<in> P" for p
    using alloc_table_room(2) [OF procs_okD(1,2) [OF assms(1)], OF that] assms(4) that by auto
  show "procs_ok (put_kmem m s) A P" "p \<in> P \<Longrightarrow> alloc_table m p = alloc_table (kmem s) p"
    using procs_ok_tables [OF assms(1-3)] d by blast+
qed

abbreviation blocks_of :: "u32 \<Rightarrow> nat" where
  "blocks_of sz \<equiv> (unat sz + 4095) div 4096"

text \<open>The allocation a process asks for, up to the entry in its table.\<close>

lemma procs_kzalloc:
  assumes "procs_ok s A P" "sz \<noteq> 0" "unat sz \<le> 4294963200" "kheap_room s (blocks_of sz)"
  obtains q m where "kzalloc sz s = (q, put_kmem m s)" "q \<noteq> 0" "A q = None" "kheap_ready (put_kmem m s) (A(q \<mapsto> blocks_of sz))"
    "\<forall>p \<in> P. alloc_table m p = alloc_table (kmem s) p" "\<forall>x \<in> span q (unat sz). m x = 0" "kept A (kmem s) m"
    "kheap_avail (put_kmem m s) + blocks_of sz = kheap_avail s" "agree_off (kheap_spare s) (kmem s) m"
    "span q (unat sz) \<subseteq> kheap_spare s"
proof -
  note r = procs_okD(1) [OF assms(1)]
  obtain q m where q: "kzalloc sz s = (q, put_kmem m s)" "q \<noteq> 0" "A q = None" "kheap_ready (put_kmem m s) (A(q \<mapsto> blocks_of sz))"
    "\<forall>x \<in> span q (unat sz). m x = 0" "agree_off (kheap_reserved s \<union> span q (unat sz)) (kmem s) m"
    "kheap_avail (put_kmem m s) + blocks_of sz = kheap_avail s"
    using kh.zalloc_fresh [OF r assms(2-4)] by (elim exE conjE) (rule that, assumption+)
  have "unat sz \<le> blocks_of sz * 4096" by linarith
  then have k: "kept A (kmem s) m"
    unfolding kept_def using kh.live_kept [OF r _ q(4,3,6)] by blast
  then have "\<forall>p \<in> P. alloc_table m p = alloc_table (kmem s) p"
    using alloc_table_kept [OF r procs_okD(2) [OF assms(1)]] by blast
  moreover have sub: "span q (unat sz) \<subseteq> kheap_spare s"
  proof -
    have "span q (unat sz) \<subseteq> span q (blocks_of sz * 4096)" by (rule span_mono) linarith
    then show ?thesis using kh.zalloc_spare [OF r assms(2-4) q(1)] by blast
  qed
  moreover have "agree_off (kheap_spare s) (kmem s) m"
    by (rule agree_off_mono [OF q(6)]) (use sub kh.reserved_spare [OF r] in blast)
  ultimately show ?thesis using that q k by blast
qed

lemma procs_malloc:
  assumes "procs_ok s A P" "p \<in> P" "sz \<noteq> 0" "unat sz \<le> 4294963200" "kheap_room s (blocks_of sz)"
    "i < 1024" "alloc_table (kmem s) p ! i = 0" "\<forall>j < i. alloc_table (kmem s) p ! j \<noteq> 0"
  obtains q s' where "process_malloc p sz s = (q, s')" "q \<noteq> 0" "A q = None" "procs_ok s' (A(q \<mapsto> blocks_of sz)) P"
    "alloc_table (kmem s') p = (alloc_table (kmem s) p)[i := q]" "\<forall>x \<in> span q (unat sz). kmem s' x = 0"
    "\<forall>p' \<in> P - {p}. alloc_table (kmem s') p' = alloc_table (kmem s) p'" "kheap_avail s' + blocks_of sz = kheap_avail s"
    "s' = put_kmem (kmem s') s" "agree_off (kheap_spare s \<union> span p 8192) (kmem s) (kmem s')"
    "span q (unat sz) \<subseteq> kheap_spare s"
proof -
  obtain q m where q: "kzalloc sz s = (q, put_kmem m s)" "q \<noteq> 0" "A q = None" "kheap_ready (put_kmem m s) (A(q \<mapsto> blocks_of sz))"
    "\<forall>p \<in> P. alloc_table m p = alloc_table (kmem s) p" "\<forall>x \<in> span q (unat sz). m x = 0"
    "kheap_avail (put_kmem m s) + blocks_of sz = kheap_avail s" "agree_off (kheap_spare s) (kmem s) m"
    "span q (unat sz) \<subseteq> kheap_spare s"
    by (rule procs_kzalloc [OF assms(1,3-5)])
  let ?A = "A(q \<mapsto> blocks_of sz)" and ?s1 = "put_kmem m s"
  have A: "?A r = Some 2" if "r \<in> P" for r using procs_okD(2) [OF assms(1) that] q(3) by auto
  have "zero_slot m (process_allocations p) 0 1024 = Some i"
    using assms(2,6-8) q(5) by (simp add: zero_slot_first alloc_table_def [symmetric])
  then have ix: "process_find_free_allocation_index m p = int i" by (simp add: find_free_index)
  let ?m = "set_slot m (process_allocations p) i q"
  have run: "process_malloc p sz s = (q, put_kmem ?m s)" using q(1,2) ix by (simp add: process_malloc_def)
  note w = alloc_table_set [OF q(4) A [OF assms(2)] assms(6), of m q]
  have w': "agree_off (span p (2 * 4096)) (kmem ?s1) ?m" using w(2) by simp
  have "kheap_ready (put_kmem ?m ?s1) ?A" "kheap_avail (put_kmem ?m ?s1) = kheap_avail ?s1"
    by (rule kh.write_live [OF q(4) A [OF assms(2)] w'])+
  then have rd: "kheap_ready (put_kmem ?m s) ?A" "kheap_avail (put_kmem ?m s) + blocks_of sz = kheap_avail s" using q(7) by simp_all
  have oth: "\<forall>p' \<in> P - {p}. alloc_table ?m p' = alloc_table (kmem s) p'"
  proof
    fix r assume r: "r \<in> P - {p}"
    have "alloc_table ?m r = alloc_table m r"
      by (rule alloc_table_agree [OF q(4) A w(2)]) (use r kh.live_disjoint [OF q(4) A A [OF assms(2)], of r] in auto)
    then show "alloc_table ?m r = alloc_table (kmem s) r" using q(5) r by simp
  qed
  have own: "alloc_table ?m p = (alloc_table (kmem s) p)[i := q]" using w(1) q(5) assms(2) by simp
  have ok: "procs_ok (put_kmem ?m s) ?A P"
    by (rule procs_okI_record [OF assms(1) rd(1) q(3,2) assms(2,6)]) (simp_all add: own oth)
  have "?A q = Some (blocks_of sz)" "q \<noteq> p" using q(3) procs_okD(2) [OF assms(1,2)] by auto
  then have d: "span q (blocks_of sz * 4096) \<inter> span p (2 * 4096) = {}" using kh.live_disjoint [OF q(4) _ A [OF assms(2)]] by blast
  have sp: "span q (unat sz) \<subseteq> span q (blocks_of sz * 4096)" by (rule span_mono) linarith
  have "?m x = 0" if "x \<in> span q (unat sz)" for x
  proof -
    have "x \<notin> span p (2 * 4096)" using that sp d by blast
    then show ?thesis using q(6) that agree_offD [OF w(2)] by simp
  qed
  then have "\<forall>x \<in> span q (unat sz). ?m x = 0" by blast
  moreover have "agree_off (kheap_spare s \<union> span p 8192) (kmem s) ?m" using agree_off_trans [OF q(8) w(2)] by simp
  ultimately show ?thesis using that [OF run q(2,3) ok] own oth rd(2) q(9) by simp
qed

lemma procs_malloc_full:
  assumes "procs_ok s A P" "p \<in> P" "sz \<noteq> 0" "unat sz \<le> 4294963200" "kheap_room s (blocks_of sz)"
    "0 \<notin> set (alloc_table (kmem s) p)"
  obtains q s' where "process_malloc p sz s = (0, s')" "A q = None" "procs_ok s' (A(q \<mapsto> blocks_of sz)) P"
    "\<forall>p' \<in> P. alloc_table (kmem s') p' = alloc_table (kmem s) p'"
    "s' = put_kmem (kmem s') s" "agree_off (kheap_spare s) (kmem s) (kmem s')"
proof -
  obtain q m where q: "kzalloc sz s = (q, put_kmem m s)" "q \<noteq> 0" "A q = None" "kheap_ready (put_kmem m s) (A(q \<mapsto> blocks_of sz))"
    "\<forall>p \<in> P. alloc_table m p = alloc_table (kmem s) p" "agree_off (kheap_spare s) (kmem s) m"
    by (rule procs_kzalloc [OF assms(1,3-5)])
  have "zero_slot m (process_allocations p) 0 1024 = None"
    using assms(2,6) q(5) by (simp add: zero_slot_full alloc_table_def [symmetric])
  then have "process_malloc p sz s = (0, put_kmem m s)" using q(1,2) by (simp add: process_malloc_def find_free_index)
  moreover have "procs_ok (put_kmem m s) (A(q \<mapsto> blocks_of sz)) P"
  proof (rule procs_okI_frame [OF assms(1) q(4)])
    show "\<forall>p \<in> P. (A(q \<mapsto> blocks_of sz)) p = Some 2" using procs_okD(2) [OF assms(1)] q(3) by auto
    show "\<forall>p \<in> P. \<forall>i < 1024. alloc_table (kmem (put_kmem m s)) p ! i \<noteq> 0 \<longrightarrow>
       alloc_table (kmem (put_kmem m s)) p ! i = alloc_table (kmem s) p ! i \<and>
       (A(q \<mapsto> blocks_of sz)) (alloc_table (kmem s) p ! i) = A (alloc_table (kmem s) p ! i)"
      using q(3,5) procs_okD(3) [OF assms(1)] by (metis fun_upd_other put_kmem_simps(1))
  qed
  ultimately show ?thesis using that q(3,5,6) by simp
qed

lemma procs_free:
  assumes "procs_ok s A P" "p \<in> P" "i < 1024" "q = alloc_table (kmem s) p ! i" "q \<noteq> 0"
  obtains s' where "process_free p q s = s'" "procs_ok s' (A(q := None)) P" "alloc_table (kmem s') p = (alloc_table (kmem s) p)[i := 0]"
    "\<forall>p' \<in> P - {p}. alloc_table (kmem s') p' = alloc_table (kmem s) p'"
    "s' = put_kmem (kmem s') s" "agree_off (kheap_reserved s \<union> span p 8192) (kmem s) (kmem s')"
proof -
  let ?T = "alloc_table (kmem s)"
  note r = procs_okD(1) [OF assms(1)]
  have p2: "A r = Some 2" if "r \<in> P" for r by (rule procs_okD(2) [OF assms(1) that])
  obtain n where n: "A q = Some n" "q \<notin> P" using procs_okD(3) [OF assms(1-3)] assms(4,5) by auto
  let ?m = "process_allocation_unjoin p q (kmem s)" and ?s1 = "put_kmem (process_allocation_unjoin p q (kmem s)) s"
  note u = unjoin_spec [OF r p2 [OF assms(2)], of q "kmem s"]
  have T1: "alloc_table ?m p = (?T p)[i := 0]"
  proof (rule nth_equalityI)
    fix j assume "j < length (alloc_table ?m p)"
    then have j: "j < 1024" by simp
    have "?T p ! j = q \<longleftrightarrow> j = i" using procs_okD(4) [OF assms(1-3) _ assms(2) j] assms(4,5) by auto
    then show "alloc_table ?m p ! j = (?T p)[i := 0] ! j" using u j assms(3) by (simp add: nth_list_update)
  qed simp
  have w: "agree_off (span p (2 * 4096)) (kmem s) ?m" using u by blast
  have r1: "kheap_ready ?s1 A" by (rule kh.write_live(1) [OF r p2 [OF assms(2)] w])
  obtain m' where m': "kfree q ?s1 = put_kmem m' ?s1" "kheap_ready (put_kmem m' ?s1) (A(q := None))"
    "agree_off (kheap_reserved ?s1) ?m m'"
    using kh.release_live [OF r1 n(1)] by auto
  have run: "process_free p q s = put_kmem m' s"
    using m'(1) assms(3-5) is_process_pointer_iff [of "kmem s" p q] by (simp add: process_free_def)
  have keep: "alloc_table m' r = alloc_table ?m r" if "r \<in> P" for r
    by (rule alloc_table_agree [OF r1 p2 [OF that] m'(3) kh.live_reserved [OF r1 p2 [OF that]]])
  have oth: "alloc_table m' r = ?T r" if "r \<in> P - {p}" for r
  proof -
    have "r \<in> P" "r \<noteq> p" using that by auto
    have "alloc_table ?m r = ?T r"
      by (rule alloc_table_agree [OF r p2 [OF \<open>r \<in> P\<close>] w kh.live_disjoint [OF r p2 [OF \<open>r \<in> P\<close>] p2 [OF assms(2)] \<open>r \<noteq> p\<close>]])
    then show ?thesis using keep [OF \<open>r \<in> P\<close>] by simp
  qed
  have own: "alloc_table m' p = (?T p)[i := 0]" using keep [OF assms(2)] T1 by simp
  have ok: "procs_ok (put_kmem m' s) (A(q := None)) P"
  proof (rule procs_okI_frame [OF assms(1)])
    show "kheap_ready (put_kmem m' s) (A(q := None))" using m'(2) by simp
    show "\<forall>p \<in> P. (A(q := None)) p = Some 2" using p2 n(2) by auto
    show "\<forall>r \<in> P. \<forall>j < 1024. alloc_table (kmem (put_kmem m' s)) r ! j \<noteq> 0 \<longrightarrow>
       alloc_table (kmem (put_kmem m' s)) r ! j = ?T r ! j \<and> (A(q := None)) (?T r ! j) = A (?T r ! j)"
    proof (intro ballI allI impI)
      fix r j assume a: "r \<in> P" "j < 1024" "alloc_table (kmem (put_kmem m' s)) r ! j \<noteq> 0"
      have t: "alloc_table m' r ! j = (if r = p \<and> j = i then 0 else ?T r ! j)"
        using own oth [of r] a assms(3) by (cases "r = p") auto
      then have n: "\<not> (r = p \<and> j = i)" using a(3) by auto
      then have "?T r ! j \<noteq> q" using procs_okD(4) [OF assms(1-3) _ a(1,2)] assms(4,5) by auto
      then show "alloc_table (kmem (put_kmem m' s)) r ! j = ?T r ! j \<and> (A(q := None)) (?T r ! j) = A (?T r ! j)"
        using t n by simp
    qed
  qed
  have "agree_off (kheap_reserved s \<union> span p 8192) (kmem s) m'"
    using agree_off_trans [OF w m'(3)] by (simp add: Un_commute kheap_reserved_put)
  then show ?thesis using that [OF run ok] own oth by simp
qed

lemma procs_free_denied: "q \<notin> set (alloc_table (kmem s) p) \<Longrightarrow> process_free p q s = s"
  by (simp add: process_free_def is_process_pointer_iff)

text \<open>What the processes \<open>P\<close> do with their memory: ask for some, whether their table has an entry left or not,
  hand back a pointer, theirs or not, and write to a block of theirs.\<close>

inductive proc_run :: "'z kstate_scheme \<Rightarrow> (u32 \<Rightarrow> nat option) \<Rightarrow> u32 set \<Rightarrow> bool" where
  start: "kheap_ready s A \<Longrightarrow> (\<forall>p \<in> P. A p = Some 2 \<and> set (alloc_table (kmem s) p) = {0}) \<Longrightarrow> proc_run s A P"
| malloc: "proc_run s A P \<Longrightarrow> p \<in> P \<Longrightarrow> sz \<noteq> 0 \<Longrightarrow> unat sz \<le> 4294963200 \<Longrightarrow> kheap_room s (blocks_of sz) \<Longrightarrow>
    0 \<in> set (alloc_table (kmem s) p) \<Longrightarrow> process_malloc p sz s = (q, s') \<Longrightarrow> proc_run s' (A(q \<mapsto> blocks_of sz)) P"
| malloc_full: "proc_run s A P \<Longrightarrow> p \<in> P \<Longrightarrow> sz \<noteq> 0 \<Longrightarrow> unat sz \<le> 4294963200 \<Longrightarrow> kheap_room s (blocks_of sz) \<Longrightarrow>
    0 \<notin> set (alloc_table (kmem s) p) \<Longrightarrow> process_malloc p sz s = (r, s') \<Longrightarrow> kzalloc sz s = (q, s'') \<Longrightarrow>
    proc_run s' (A(q \<mapsto> blocks_of sz)) P"
| free: "proc_run s A P \<Longrightarrow> p \<in> P \<Longrightarrow> q \<noteq> 0 \<Longrightarrow>
    proc_run (process_free p q s) (if q \<in> set (alloc_table (kmem s) p) then A(q := None) else A) P"
| store: "proc_run s A P \<Longrightarrow> p \<in> P \<Longrightarrow> q \<noteq> 0 \<Longrightarrow> q \<in> set (alloc_table (kmem s) p) \<Longrightarrow>
    A q = Some n \<Longrightarrow> agree_off (span q (n * 4096)) (kmem s) m \<Longrightarrow> proc_run (put_kmem m s) A P"

lemma procs_kzalloc_eq: "kzalloc sz s = (q, s'') \<Longrightarrow> q \<noteq> 0 \<Longrightarrow> process_malloc p sz s = (r, s') \<Longrightarrow> r \<noteq> 0 \<Longrightarrow> r = q"
  by (auto simp: process_malloc_def Let_def split: if_splits)

lemma proc_run_ok: "proc_run s A P \<Longrightarrow> procs_ok s A P"
proof (induction rule: proc_run.induct)
  case (start s A P)
  have "alloc_table (kmem s) p ! i = 0" if "p \<in> P" "i < 1024" for p i
    using start(2) that nth_mem [of i "alloc_table (kmem s) p"] by auto
  then show ?case using start by (simp add: procs_ok_def)
next
  case (malloc s A P p sz q s')
  obtain i where i: "i < 1024" "alloc_table (kmem s) p ! i = 0" "\<forall>j < i. alloc_table (kmem s) p ! j \<noteq> 0"
    using first_zero [OF malloc.hyps(6)] by auto
  obtain q' t where q': "process_malloc p sz s = (q', t)" "procs_ok t (A(q' \<mapsto> blocks_of sz)) P"
    by (rule procs_malloc [OF malloc.IH malloc.hyps(2-5) i])
  have "q' = q" "t = s'" using q'(1) malloc.hyps(7) by simp_all
  then show ?case using q'(2) by (simp only: simp_thms)
next
  case (malloc_full s A P p sz r s' q s'')
  obtain q' m where q': "kzalloc sz s = (q', put_kmem m s)" "q' \<noteq> 0" "A q' = None" "kheap_ready (put_kmem m s) (A(q' \<mapsto> blocks_of sz))"
    "\<forall>p \<in> P. alloc_table m p = alloc_table (kmem s) p"
    by (rule procs_kzalloc [OF malloc_full.IH malloc_full.hyps(3-5)])
  have "zero_slot m (process_allocations p) 0 1024 = None"
    using malloc_full.hyps(2,6) q'(5) by (simp add: zero_slot_full alloc_table_def [symmetric])
  then have s': "s' = put_kmem m s" "q = q'"
    using q'(1,2) malloc_full.hyps(7,8) by (simp_all add: process_malloc_def find_free_index)
  show ?case unfolding s'
  proof (rule procs_okI_frame [OF malloc_full.IH q'(4)])
    show "\<forall>p \<in> P. (A(q' \<mapsto> blocks_of sz)) p = Some 2" using procs_okD(2) [OF malloc_full.IH] q'(3) by auto
    show "\<forall>p \<in> P. \<forall>i < 1024. alloc_table (kmem (put_kmem m s)) p ! i \<noteq> 0 \<longrightarrow>
       alloc_table (kmem (put_kmem m s)) p ! i = alloc_table (kmem s) p ! i \<and>
       (A(q' \<mapsto> blocks_of sz)) (alloc_table (kmem s) p ! i) = A (alloc_table (kmem s) p ! i)"
      using q'(3,5) procs_okD(3) [OF malloc_full.IH] by (metis fun_upd_other put_kmem_simps(1))
  qed
next
  case (free s A P p q)
  show ?case
  proof (cases "q \<in> set (alloc_table (kmem s) p)")
    case True
    then obtain i where i: "i < 1024" "q = alloc_table (kmem s) p ! i" by (auto simp: in_set_conv_nth)
    show ?thesis by (rule procs_free [OF free.IH free.hyps(2) i free.hyps(3)]) (simp only: True if_True)
  next
    case False
    then show ?thesis using free.IH by (simp add: procs_free_denied)
  qed
next
  case (store s A P p q n m)
  note r = procs_okD(1) [OF store.IH]
  obtain i where i: "i < 1024" "q = alloc_table (kmem s) p ! i" using store.hyps(4) by (auto simp: in_set_conv_nth)
  have qP: "q \<notin> P" using procs_okD(3) [OF store.IH store.hyps(2) i(1)] i(2) store.hyps(3) by simp
  have t: "alloc_table m r = alloc_table (kmem s) r" if "r \<in> P" for r
  proof (rule alloc_table_agree [OF r _ store.hyps(6)])
    show r2: "A r = Some 2" by (rule procs_okD(2) [OF store.IH that])
    have "r \<noteq> q" using that qP by auto
    then show "span r (2 * 4096) \<inter> span q (n * 4096) = {}" by (rule kh.live_disjoint [OF r r2 store.hyps(5)])
  qed
  show ?case
    by (rule procs_okI_frame [OF store.IH kh.write_live(1) [OF r store.hyps(5,6)]])
      (use procs_okD(2) [OF store.IH] t in auto)
qed

text \<open>Isolation of the memory of processes. However the processes \<open>P\<close> ask for memory (some, but not
  more than there is), hand pointers back, theirs or not, and write to what they hold: any two pointers in their
  tables are blocks that share no byte, and no such block shares a byte with the structures of the processes or
  with the heap's own table.\<close>

theorem proc_run_isolated:
  assumes "proc_run s A P" "p \<in> P" "p' \<in> P" "i < 1024" "j < 1024" "a = alloc_table (kmem s) p ! i" "b = alloc_table (kmem s) p' ! j"
    "a \<noteq> 0" "b \<noteq> 0" "(p, i) \<noteq> (p', j)"
  shows "\<exists>n k. A a = Some n \<and> A b = Some k \<and> span a (n * 4096) \<inter> span b (k * 4096) = {} \<and>
    span a (n * 4096) \<inter> span p' 5260 = {} \<and> span a (n * 4096) \<inter> kheap_reserved s = {}"
proof -
  note o = proc_run_ok [OF assms(1)]
  note r = procs_okD(1) [OF o]
  obtain n where n: "A a = Some n" "a \<notin> P" using procs_okD(3) [OF o assms(2,4)] assms(6,8) by auto
  obtain k where k: "A b = Some k" using procs_okD(3) [OF o assms(3,5)] assms(7,9) by auto
  have "a \<noteq> b" using procs_okD(4) [OF o assms(2,4) _ assms(3,5)] assms(6-8,10) by auto
  note d = kh.live_disjoint [OF r n(1) k this]
  have "a \<noteq> p'" using n(2) assms(3) by auto
  then have "span a (n * 4096) \<inter> span p' (2 * 4096) = {}"
    using kh.live_disjoint [OF r n(1) procs_okD(2) [OF o assms(3)]] by blast
  then have "span a (n * 4096) \<inter> span p' 5260 = {}" using span_mono [of 5260 "2 * 4096" p'] by auto
  then show ?thesis using n(1) k d kh.live_reserved [OF r n(1)] by blast
qed

text \<open>\<^verbatim>\<open>process_malloc\<close>, for some bytes for which there is room, gives the process a fresh, zeroed block and
  records it in the first empty entry of its table; the tables of the others stay. When the table is full it
  answers 0, but the block it got stays allocated and is recorded nowhere.\<close>

theorem process_malloc_records:
  assumes "procs_ok s A P" "p \<in> P" "sz \<noteq> 0" "unat sz \<le> 4294963200" "kheap_room s (blocks_of sz)"
  shows "\<exists>q s'. A q = None \<and> procs_ok s' (A(q \<mapsto> blocks_of sz)) P \<and>
    (\<forall>p' \<in> P - {p}. alloc_table (kmem s') p' = alloc_table (kmem s) p') \<and>
    (if 0 \<in> set (alloc_table (kmem s) p)
     then process_malloc p sz s = (q, s') \<and> q \<noteq> 0 \<and> (\<forall>x \<in> span q (unat sz). kmem s' x = 0) \<and>
       (\<exists>i < 1024. alloc_table (kmem s) p ! i = 0 \<and> (\<forall>j < i. alloc_table (kmem s) p ! j \<noteq> 0) \<and>
          alloc_table (kmem s') p = (alloc_table (kmem s) p)[i := q])
     else process_malloc p sz s = (0, s') \<and> alloc_table (kmem s') p = alloc_table (kmem s) p)"
proof (cases "0 \<in> set (alloc_table (kmem s) p)")
  case True
  obtain i where i: "i < 1024" "alloc_table (kmem s) p ! i = 0" "\<forall>j < i. alloc_table (kmem s) p ! j \<noteq> 0"
    using first_zero [OF True] by auto
  obtain q s' where q: "process_malloc p sz s = (q, s')" "q \<noteq> 0" "A q = None" "procs_ok s' (A(q \<mapsto> blocks_of sz)) P"
    "alloc_table (kmem s') p = (alloc_table (kmem s) p)[i := q]" "\<forall>x \<in> span q (unat sz). kmem s' x = 0"
    "\<forall>p' \<in> P - {p}. alloc_table (kmem s') p' = alloc_table (kmem s) p'"
    by (rule procs_malloc [OF assms i])
  show ?thesis unfolding if_P [OF True] using q i by blast
next
  case False
  obtain q s' where q: "process_malloc p sz s = (0, s')" "A q = None" "procs_ok s' (A(q \<mapsto> blocks_of sz)) P"
    "\<forall>p' \<in> P. alloc_table (kmem s') p' = alloc_table (kmem s) p'"
    by (rule procs_malloc_full [OF assms False])
  show ?thesis unfolding if_not_P [OF False] using q assms(2) by blast
qed

text \<open>C28: \<^verbatim>\<open>process_free\<close> of a pointer other than NULL hands it back if the process has
  recorded it, and forgets it; for a non-null pointer that it has not recorded, of another process or of the kernel,
  nothing changes. NULL is left out: an empty entry of the table passes for it, and \<^verbatim>\<open>kfree\<close>
  then frees address 0, which is no block of the heap.\<close>

theorem process_free_own_only:
  assumes "procs_ok s A P" "p \<in> P" "q \<noteq> 0" "s' = process_free p q s"
  shows "if q \<in> set (alloc_table (kmem s) p)
    then procs_ok s' (A(q := None)) P \<and> alloc_table (kmem s') p = map (\<lambda>x. if x = q then 0 else x) (alloc_table (kmem s) p) \<and>
      (\<forall>p' \<in> P - {p}. alloc_table (kmem s') p' = alloc_table (kmem s) p')
    else s' = s"
proof (cases "q \<in> set (alloc_table (kmem s) p)")
  case True
  then obtain i where i: "i < 1024" "q = alloc_table (kmem s) p ! i" by (auto simp: in_set_conv_nth)
  have "procs_ok s' (A(q := None)) P \<and> alloc_table (kmem s') p = (alloc_table (kmem s) p)[i := 0] \<and>
      (\<forall>p' \<in> P - {p}. alloc_table (kmem s') p' = alloc_table (kmem s) p')"
    by (rule procs_free [OF assms(1,2) i assms(3)]) (use assms(4) in blast)
  moreover have "(alloc_table (kmem s) p)[i := 0] = map (\<lambda>x. if x = q then 0 else x) (alloc_table (kmem s) p)"
  proof (rule nth_equalityI)
    fix j assume "j < length ((alloc_table (kmem s) p)[i := 0])"
    then have j: "j < 1024" by simp
    have "alloc_table (kmem s) p ! j = q \<longleftrightarrow> j = i"
      using procs_okD(4) [OF assms(1,2) i(1) _ assms(2) j] i(2) assms(3) by auto
    then show "(alloc_table (kmem s) p)[i := 0] ! j = map (\<lambda>x. if x = q then 0 else x) (alloc_table (kmem s) p) ! j"
      using i(1) j by (simp add: nth_list_update)
  qed simp
  ultimately show ?thesis using True by simp
next
  case False
  then show ?thesis using assms(4) by (simp add: procs_free_denied)
qed

section \<open>Failures\<close>

text \<open>With all twelve entries taken, \<^verbatim>\<open>process_get_free_slot\<close> answers 8 (\<^verbatim>\<open>EISTKN\<close>, not negated), which passes for
  a slot: \<^verbatim>\<open>process_load\<close> then fails with -EISTKN in \<^verbatim>\<open>process_load_for_slot\<close>, whose clean-up reads the
  process pointer that was never assigned, and frees the task it finds there.\<close>

theorem process_load_full:
  assumes "0 \<notin> set (slots (kmem s) (processes_at s) 12)"
  shows "process_get_free_slot s = 8 \<and>
    process_load dev uninit filename s = Some (- EISTKN, None,
      if uninit \<noteq> 0 \<and> process_task (kmem s) uninit \<noteq> 0 then snd (task_free (process_task (kmem s) uninit) s) else s)"
proof -
  have f: "process_get_free_slot s = 8"
    using assms zero_slot_full [of "kmem s" "processes_at s" 12] by (simp add: process_get_free_slot_def)
  have "slot (kmem s) (processes_at s) 8 \<in> set (slots (kmem s) (processes_at s) 12)" by (simp add: slots_def)
  then have "process_get 8 s \<noteq> 0" using assms by (auto simp: process_get_def)
  then show ?thesis using f by (simp add: process_load_def process_load_for_slot_def)
qed

section \<open>The address space of a process\<close>

lemma tables_region_frame:
  assumes "chunk_wf m c d" "agree_off (tables_region m d) m m'"
  shows "tables_region m' d = tables_region m d"
proof -
  have w: "unat d mod 4096 = 0" "\<forall>i < 1024. table_of m d i \<noteq> d" using assms(1) by (simp_all add: chunk_wf_def paging_wf_def)
  have "table_of m' d i = table_of m d i" if "i < 1024" for i
  proof -
    have "span d 4096 \<inter> span (table_of m d j) 4096 = {}" if "j < 1024" for j
      using aligned_disjoint [OF w(1) table_aligned] w(2) that by metis
    then have "span d 4096 \<inter> tables_region m d = {}" unfolding tables_region_def by blast
    then have "span (d + 4 * word_of_nat i) 4 \<inter> tables_region m d = {}" using slot_in_page [OF w(1) that] by blast
    then show ?thesis unfolding table_of_def by (simp add: read32_agree [OF assms(2)])
  qed
  then show ?thesis by (simp add: tables_region_def)
qed

text \<open>What the entry of page \<open>w\<close> becomes when \<open>len\<close> bytes from \<open>virt\<close> on are mapped to \<open>phys\<close>.\<close>

definition mapped :: "u32 \<Rightarrow> u32 \<Rightarrow> u32 \<Rightarrow> int \<Rightarrow> u32 \<Rightarrow> u32 \<Rightarrow> u32" where
  "mapped virt phys len flags w old = (if w - virt < len then (phys + (w - virt)) OR word_of_int flags else old)"

lemma map_to_mapped:
  assumes "chunk_wf m c d" "paging_is_aligned virt" "paging_is_aligned phys" "paging_is_aligned phys_end" "phys \<le> phys_end"
  obtains m' where "paging_map_to m c virt phys phys_end flags = (0, m')" "chunk_wf m' c d"
    "\<forall>w. paging_is_aligned w \<longrightarrow> paging_get m' d w = mapped virt phys (phys_end - phys) flags w (paging_get m d w)"
    "agree_off (tables_region m d) m m'" "tables_region m' d = tables_region m d"
proof -
  obtain m' where m': "paging_map_to m c virt phys phys_end flags = (0, m')" "chunk_wf m' c d"
    "\<forall>w. paging_is_aligned w \<longrightarrow> paging_get m' d w =
       (if unat (w - virt) < unat (phys_end - phys) then (phys + (w - virt)) OR word_of_int flags else paging_get m d w)"
    "agree_off (tables_region m d) m m'"
    by (rule map_to_spec [OF assms])
  then show ?thesis using that tables_region_frame [OF assms(1) m'(4)] by (simp add: mapped_def word_less_nat_alt)
qed

text \<open>The fields of a process and its task are where the mapping does not write.\<close>

definition reads_apart :: "mem \<Rightarrow> u32 \<Rightarrow> u32 set \<Rightarrow> bool" where
  "reads_apart m p S \<longleftrightarrow> span p 5260 \<inter> S = {} \<and> span (process_task m p) 4 \<inter> S = {}"

lemma process_field_in: "n + k \<le> 5260 \<Longrightarrow> w = word_of_nat n \<Longrightarrow> span (p + w) k \<subseteq> span p 5260"
  using word_offset_in [of w n k 5260 p] by (simp add: unat_of_nat)

lemma process_fields_agree:
  assumes "agree_off S m m'" "reads_apart m p S"
  shows "process_page_directory m' p = process_page_directory m p" "process_ptr m' p = process_ptr m p"
    "process_size m' p = process_size m p" "process_stack m' p = process_stack m p" "process_filetype m' p = process_filetype m p"
proof -
  have f: "read32 m' (p + w) = read32 m (p + w)" if "n + 4 \<le> 5260" "w = word_of_nat n" for w n
    by (rule read32_agree [OF assms(1)]) (use process_field_in [of n 4 w p] that assms(2) in \<open>auto simp: reads_apart_def\<close>)
  have "p + 4212 \<in> span p 5260" using process_field_in [of 4212 1 4212 p] by (auto simp: span_def)
  then show "process_filetype m' p = process_filetype m p"
    using agree_offD [OF assms(1)] assms(2) by (auto simp: reads_apart_def process_filetype_def)
  have t: "process_task m' p = process_task m p" using f [of 112] by (simp add: process_task_def)
  show "process_page_directory m' p = process_page_directory m p"
    unfolding process_page_directory_def t task_page_directory_def
    by (rule read32_agree [OF assms(1)]) (use assms(2) in \<open>simp add: reads_apart_def\<close>)
  show "process_ptr m' p = process_ptr m p" using f [of 4216] by (simp add: process_ptr_def)
  show "process_size m' p = process_size m p" using f [of 4224] by (simp add: process_size_def)
  show "process_stack m' p = process_stack m p" using f [of 4220] by (simp add: process_stack_def)
qed

lemma reads_apart_agree: "agree_off S m m' \<Longrightarrow> reads_apart m p S \<Longrightarrow> reads_apart m' p S"
proof -
  assume a: "agree_off S m m'" "reads_apart m p S"
  have "process_task m' p = process_task m p" unfolding process_task_def
    by (rule read32_agree [OF a(1)]) (use process_field_in [of 112 4 112 p] a(2) in \<open>auto simp: reads_apart_def\<close>)
  then show ?thesis using a(2) by (simp add: reads_apart_def)
qed

text \<open>The segments of an ELF file, one after the other.\<close>

definition segment_mapped :: "mem \<Rightarrow> u32 \<Rightarrow> u32 \<Rightarrow> u32 \<Rightarrow> u32 \<Rightarrow> u32" where
  "segment_mapped m f w phdr = (let phys = elf_phdr_phys_address m f phdr; low = paging_align_to_lower_page phys in
     mapped (paging_align_to_lower_page (p_vaddr m phdr)) low (paging_align_address (phys + p_memsz m phdr) - low)
       (if p_flags m phdr AND PF_W \<noteq> 0 then 7 else 5) w)"

definition segment_fits :: "mem \<Rightarrow> u32 \<Rightarrow> u32 \<Rightarrow> bool" where
  "segment_fits m f phdr \<longleftrightarrow> (let phys = elf_phdr_phys_address m f phdr in
     paging_align_to_lower_page phys \<le> paging_align_address (phys + p_memsz m phdr))"

lemma lower_aligned: "paging_is_aligned (paging_align_to_lower_page a)"
proof -
  have "unat (paging_align_to_lower_page a) = unat a div 4096 * 4096"
    unfolding paging_align_to_lower_page_def by (subst unat_diff_le) (simp_all add: unat_mod_4096 minus_mod_eq_div_mult)
  then show ?thesis by (simp add: aligned_iff)
qed

lemma align_aligned: "paging_is_aligned (paging_align_address a)"
proof (cases "a mod 4096 = 0")
  case True
  then show ?thesis by (simp add: paging_align_address_def paging_is_aligned_def)
next
  case False
  have "paging_align_address a = paging_align_to_lower_page a + 4096"
    using False by (simp add: paging_align_address_def paging_align_to_lower_page_def)
  then show ?thesis using aligned_add [OF lower_aligned aligned_page] by simp
qed

lemma phdr_agree_more:
  assumes "agree_off S m m'" "span p 32 \<inter> S = {}"
  shows "p_memsz m' p = p_memsz m p" "process_phdr_flags m' p = process_phdr_flags m p"
proof -
  have "span (p + 20) 4 \<subseteq> span p 32" "span (p + 24) 4 \<subseteq> span p 32"
    using word_offset_in [of 20 20 4 32 p] word_offset_in [of 24 24 4 32 p] by simp_all
  then show "p_memsz m' p = p_memsz m p" "process_phdr_flags m' p = process_phdr_flags m p"
    unfolding p_memsz_def process_phdr_flags_def p_flags_def
    using assms(2) by (simp_all add: read32_agree [OF assms(1)] inf.coboundedI2 disjoint_iff subset_iff)
qed

text \<open>The parts of the loaded file that the mapping reads.\<close>

definition elf_apart :: "mem \<Rightarrow> u32 \<Rightarrow> u32 set \<Rightarrow> bool" where
  "elf_apart m f S \<longleftrightarrow> span (f + 112) 4 \<inter> S = {} \<and> span (elf_memory m f) 52 \<inter> S = {} \<and>
     (\<forall>j < unat (e_phnum m (elf_memory m f)). span (phdr_at m (elf_memory m f) j) 32 \<inter> S = {})"

lemma segment_agree:
  assumes "agree_off S m m'" "elf_apart m f S" "j < unat (e_phnum m (elf_memory m f))" "ph = phdr_at m (elf_memory m f) j"
  shows "p_vaddr m' ph = p_vaddr m ph" "p_memsz m' ph = p_memsz m ph"
    "process_phdr_flags m' ph = process_phdr_flags m ph" "elf_phdr_phys_address m' f ph = elf_phdr_phys_address m f ph"
proof -
  have a: "span ph 32 \<inter> S = {}" using assms(2-4) by (simp add: elf_apart_def)
  show "p_vaddr m' ph = p_vaddr m ph" "p_memsz m' ph = p_memsz m ph" "process_phdr_flags m' ph = process_phdr_flags m ph"
    using phdr_agree(3) [OF assms(1) a] phdr_agree_more [OF assms(1) a] by simp_all
  have "elf_memory m' f = elf_memory m f" unfolding elf_memory_def
    by (rule read32_agree [OF assms(1)]) (use assms(2) in \<open>simp add: elf_apart_def\<close>)
  then show "elf_phdr_phys_address m' f ph = elf_phdr_phys_address m f ph"
    using phdr_agree(2) [OF assms(1) a] by (simp add: elf_phdr_phys_address_def)
qed

lemma elf_map_loop_spec:
  assumes "chunk_wf m c d" "process_page_directory m p = c" "h = elf_memory m f" "n = unat (e_phnum m h)"
    "reads_apart m p (tables_region m d)" "elf_apart m f (tables_region m d)"
  shows "chunk_wf m1 c d \<Longrightarrow> agree_off (tables_region m d) m m1 \<Longrightarrow> i \<le> n \<Longrightarrow>
    \<exists>m'. process_map_elf_loop m1 p f h (elf_pheader m h) i 0 =
        (if \<forall>j. i \<le> j \<and> j < n \<longrightarrow> segment_fits m f (phdr_at m h j) then 0 else - EINVARG, m') \<and>
      chunk_wf m' c d \<and> agree_off (tables_region m d) m m' \<and>
      (\<forall>w. paging_is_aligned w \<longrightarrow> paging_get m' d w =
         fold (segment_mapped m f w) (takeWhile (segment_fits m f) (map (phdr_at m h) [i..<n])) (paging_get m1 d w))"
proof (induction "n - i" arbitrary: i m1)
  case 0
  have "e_phnum m1 h = e_phnum m h"
    using header_agree(1) [OF 0(3)] assms(3,6) by (simp add: elf_apart_def)
  then have "process_map_elf_loop m1 p f h (elf_pheader m h) i 0 = (0, m1)"
    using 0(1) assms(4) by (subst process_map_elf_loop.simps) simp
  then show ?case using 0 by auto
next
  case (Suc k)
  have i: "i < n" using Suc.hyps(2) by simp
  let ?ph = "phdr_at m h i" and ?R = "tables_region m d"
  have "e_phnum m1 h = e_phnum m h"
    using header_agree(1) [OF Suc.prems(2)] assms(3,6) by (simp add: elf_apart_def)
  moreover have "elf_pheader m h + 32 * word_of_nat i = ?ph" by (simp add: phdr_at_def elf_program_header_def)
  moreover note sa = segment_agree [OF Suc.prems(2) assms(6), of i ?ph]
  moreover have pd: "process_page_directory m1 p = c" using process_fields_agree(1) [OF Suc.prems(2) assms(5)] assms(2) by simp
  moreover define v where "v = paging_align_to_lower_page (p_vaddr m ?ph)"
  moreover define lo where "lo = paging_align_to_lower_page (elf_phdr_phys_address m f ?ph)"
  moreover define hi where "hi = paging_align_address (elf_phdr_phys_address m f ?ph + p_memsz m ?ph)"
  ultimately have step: "process_map_elf_loop m1 p f h (elf_pheader m h) i 0 =
    (let (res, m2) = paging_map_to m1 c v lo hi (process_phdr_flags m ?ph) in
     if res < 0 then (res, m2) else process_map_elf_loop m2 p f h (elf_pheader m h) (Suc i) res)"
    using i assms(3,4) by (subst process_map_elf_loop.simps) (simp add: Let_def)
  have al: "paging_is_aligned v" "paging_is_aligned lo" "paging_is_aligned hi"
    by (simp_all add: v_def lo_def hi_def lower_aligned align_aligned)
  have fits: "segment_fits m f ?ph \<longleftrightarrow> lo \<le> hi" by (simp add: segment_fits_def lo_def hi_def Let_def)
  have upt: "map (phdr_at m h) [i..<n] = ?ph # map (phdr_at m h) [Suc i..<n]" using i by (simp add: upt_conv_Cons)
  show ?case
  proof (cases "lo \<le> hi")
    case False
    then have "paging_map_to m1 c v lo hi (process_phdr_flags m ?ph) = (- EINVARG, m1)"
      using map_to_refused by blast
    then have "process_map_elf_loop m1 p f h (elf_pheader m h) i 0 = (- EINVARG, m1)" using step by simp
    moreover have "\<not> (\<forall>j. i \<le> j \<and> j < n \<longrightarrow> segment_fits m f (phdr_at m h j))" using i False fits by auto
    ultimately show ?thesis using Suc.prems(1,2) False fits upt by (intro exI [of _ m1]) simp
  next
    case True
    obtain m2 where m2: "paging_map_to m1 c v lo hi (process_phdr_flags m ?ph) = (0, m2)" "chunk_wf m2 c d"
      "\<forall>w. paging_is_aligned w \<longrightarrow> paging_get m2 d w = mapped v lo (hi - lo) (process_phdr_flags m ?ph) w (paging_get m1 d w)"
      "agree_off (tables_region m1 d) m1 m2"
      by (rule map_to_mapped [OF Suc.prems(1) al True])
    have "tables_region m1 d = ?R" by (rule tables_region_frame [OF assms(1) Suc.prems(2)])
    then have a2: "agree_off ?R m m2" using agree_off_trans_same [OF Suc.prems(2)] m2(4) by simp
    have "k = n - Suc i" "Suc i \<le> n" using Suc.hyps(2) i by simp_all
    from Suc.hyps(1) [OF this(1) m2(2) a2 this(2)]
    obtain m' where m': "process_map_elf_loop m2 p f h (elf_pheader m h) (Suc i) 0 =
        (if \<forall>j. Suc i \<le> j \<and> j < n \<longrightarrow> segment_fits m f (phdr_at m h j) then 0 else - EINVARG, m')"
      "chunk_wf m' c d" "agree_off ?R m m'"
      "\<forall>w. paging_is_aligned w \<longrightarrow> paging_get m' d w =
         fold (segment_mapped m f w) (takeWhile (segment_fits m f) (map (phdr_at m h) [Suc i..<n])) (paging_get m2 d w)" by blast
    have all: "(\<forall>j. i \<le> j \<and> j < n \<longrightarrow> segment_fits m f (phdr_at m h j)) \<longleftrightarrow>
        (\<forall>j. Suc i \<le> j \<and> j < n \<longrightarrow> segment_fits m f (phdr_at m h j))"
      using True fits by (metis Suc_leD Suc_le_eq le_neq_implies_less)
    have seg: "segment_mapped m f w ?ph = mapped v lo (hi - lo) (process_phdr_flags m ?ph) w" for w
      by (simp add: segment_mapped_def process_phdr_flags_def v_def lo_def hi_def Let_def)
    have "process_map_elf_loop m1 p f h (elf_pheader m h) i 0 =
        (if \<forall>j. i \<le> j \<and> j < n \<longrightarrow> segment_fits m f (phdr_at m h j) then 0 else - EINVARG, m')"
      unfolding step m2(1) all using m'(1) by simp
    moreover have "\<forall>w. paging_is_aligned w \<longrightarrow> paging_get m' d w =
         fold (segment_mapped m f w) (takeWhile (segment_fits m f) (map (phdr_at m h) [i..<n])) (paging_get m1 d w)"
      using m'(4) m2(3) True fits upt seg by simp
    ultimately show ?thesis using m'(2,3) by blast
  qed
qed

lemma stack_mapped:
  assumes "chunk_wf m c d" "process_page_directory m p = c" "paging_is_aligned (process_stack m p)" "process_stack m p \<le> 0xffffb000"
  obtains m' where "paging_map_to m (process_page_directory m p) PEACHOS_PROGRAM_VIRTUAL_STACK_ADDRESS_END (process_stack m p)
      (paging_align_address (process_stack m p + PEACHOS_USER_PROGRAM_STACK_SIZE)) 7 = (0, m')" "chunk_wf m' c d"
    "\<forall>w. paging_is_aligned w \<longrightarrow> paging_get m' d w = mapped 0x3fb000 (process_stack m p) 16384 7 w (paging_get m d w)"
    "agree_off (tables_region m d) m m'"
proof -
  let ?s = "process_stack m p"
  have al: "paging_is_aligned (0x3fb000 :: u32)" "paging_is_aligned (16384 :: u32)" by (simp_all add: paging_is_aligned_def)
  have e: "paging_is_aligned (?s + 16384)" by (rule aligned_add [OF assms(3) al(2)])
  then have a: "paging_align_address (?s + 16384) = ?s + 16384" by (simp add: paging_align_address_def paging_is_aligned_def)
  have le: "?s \<le> ?s + 16384"
    using assms(4) by (simp add: word_le_nat_alt unat_word_ariths)
  show ?thesis
    by (rule map_to_mapped [OF assms(1) al(1) assms(3) e le, of 7]) (use that a assms(2) in simp)
qed

abbreviation elf_phdrs :: "mem \<Rightarrow> u32 \<Rightarrow> u32 list" where
  "elf_phdrs m f \<equiv> map (phdr_at m (elf_memory m f)) [0..<unat (e_phnum m (elf_memory m f))]"

lemma map_memory_elf:
  assumes "chunk_wf m c d" "process_page_directory m p = c" "f = process_ptr m p" "process_filetype m p = PROCESS_FILETYPE_ELF"
    "reads_apart m p (tables_region m d)" "elf_apart m f (tables_region m d)"
    "paging_is_aligned (process_stack m p)" "process_stack m p \<le> 0xffffb000"
  shows "\<exists>m'. process_map_memory m p = Some (if list_all (segment_fits m f) (elf_phdrs m f) then 0 else - EINVARG, m') \<and>
    chunk_wf m' c d \<and> agree_off (tables_region m d) m m' \<and>
    (\<forall>w. paging_is_aligned w \<longrightarrow> paging_get m' d w =
       (if list_all (segment_fits m f) (elf_phdrs m f)
        then mapped 0x3fb000 (process_stack m p) 16384 7 w (fold (segment_mapped m f w) (elf_phdrs m f) (paging_get m d w))
        else fold (segment_mapped m f w) (takeWhile (segment_fits m f) (elf_phdrs m f)) (paging_get m d w)))"
proof -
  let ?h = "elf_memory m f" and ?R = "tables_region m d"
  let ?n = "unat (e_phnum m ?h)"
  obtain m1 where m1: "process_map_elf_loop m p f ?h (elf_pheader m ?h) 0 0 =
        (if \<forall>j. 0 \<le> j \<and> j < ?n \<longrightarrow> segment_fits m f (phdr_at m ?h j) then 0 else - EINVARG, m1)"
      "chunk_wf m1 c d" "agree_off ?R m m1"
      "\<forall>w. paging_is_aligned w \<longrightarrow> paging_get m1 d w =
         fold (segment_mapped m f w) (takeWhile (segment_fits m f) (elf_phdrs m f)) (paging_get m d w)"
    using elf_map_loop_spec [OF assms(1,2) refl refl assms(5,6) assms(1) agree_off_refl le0] by blast
  have ok: "(\<forall>j. 0 \<le> j \<and> j < ?n \<longrightarrow> segment_fits m f (phdr_at m ?h j)) = list_all (segment_fits m f) (elf_phdrs m f)"
    by (auto simp: list_all_iff)
  have e: "process_map_elf m p = (if list_all (segment_fits m f) (elf_phdrs m f) then 0 else - EINVARG, m1)"
    using m1(1) unfolding ok by (simp add: process_map_elf_def elf_header_def assms(3) [symmetric] Let_def)
  show ?thesis
  proof (cases "list_all (segment_fits m f) (elf_phdrs m f)")
    case True
    then have t: "takeWhile (segment_fits m f) (elf_phdrs m f) = elf_phdrs m f" by (simp add: list_all_iff takeWhile_eq_all_conv)
    note fields = process_fields_agree [OF m1(3) assms(5)]
    have pre: "process_page_directory m1 p = c" "paging_is_aligned (process_stack m1 p)" "process_stack m1 p \<le> 0xffffb000"
      using fields assms(2,7,8) by simp_all
    obtain m2 where m2: "paging_map_to m1 (process_page_directory m1 p) PEACHOS_PROGRAM_VIRTUAL_STACK_ADDRESS_END (process_stack m1 p)
      (paging_align_address (process_stack m1 p + PEACHOS_USER_PROGRAM_STACK_SIZE)) 7 = (0, m2)" "chunk_wf m2 c d"
      "\<forall>w. paging_is_aligned w \<longrightarrow> paging_get m2 d w = mapped 0x3fb000 (process_stack m1 p) 16384 7 w (paging_get m1 d w)"
      "agree_off (tables_region m1 d) m1 m2"
      by (rule stack_mapped [OF m1(2) pre])
    have "agree_off ?R m m2" using agree_off_trans_same [OF m1(3)] m2(4) tables_region_frame [OF assms(1) m1(3)] by simp
    moreover have "process_map_memory m p = Some (0, m2)"
      using assms(4) e True m2(1) by (simp add: process_map_memory_def)
    ultimately show ?thesis using True m2(2,3) m1(4) t fields(4) by (intro exI [of _ m2]) simp
  next
    case False
    then have "process_map_memory m p = Some (- EINVARG, m1)" using assms(4) e by (simp add: process_map_memory_def)
    then show ?thesis using False m1(2-4) by (intro exI [of _ m1]) simp
  qed
qed

text \<open>C11: The address space of a process loaded from an ELF file. If each header spans an interval that does
  not wrap, \<^verbatim>\<open>process_map_memory\<close> succeeds, and what it makes of the page tables is what
  mapping the headers one after the other, whatever their type, and then the stack makes of each entry: from the page
  of \<^verbatim>\<open>p_vaddr\<close> on, \<^verbatim>\<open>p_memsz\<close> bytes from the place in the file buffer
  on, writable only for PF_W. At the first header that wraps it stops with -EINVARG, and there is no stack. Only page
  tables are written.\<close>

theorem process_map_memory_elf:
  assumes "chunk_wf m c d" "process_page_directory m p = c" "f = process_ptr m p" "process_filetype m p = PROCESS_FILETYPE_ELF"
    "reads_apart m p (tables_region m d)" "elf_apart m f (tables_region m d)"
    "paging_is_aligned (process_stack m p)" "process_stack m p \<le> 0xffffb000"
  shows "\<exists>m'. process_map_memory m p = Some (if list_all (segment_fits m f) (elf_phdrs m f) then 0 else - EINVARG, m') \<and>
    agree_off (tables_region m d) m m' \<and>
    (\<forall>w. paging_is_aligned w \<longrightarrow> paging_get m' d w =
       (if list_all (segment_fits m f) (elf_phdrs m f)
        then mapped 0x3fb000 (process_stack m p) 16384 7 w (fold (segment_mapped m f w) (elf_phdrs m f) (paging_get m d w))
        else fold (segment_mapped m f w) (takeWhile (segment_fits m f) (elf_phdrs m f)) (paging_get m d w)))"
  using map_memory_elf [OF assms] by blast

text \<open>The address space of a process loaded from a plain binary: the program from 0x400000 on, unless its
  place or size make \<^verbatim>\<open>paging_map_to\<close> refuse, which goes unnoticed, and the stack; the result is 0 in
  both cases. With a file type that is neither, the kernel panics.\<close>

theorem process_map_memory_binary:
  assumes "chunk_wf m c d" "process_page_directory m p = c" "reads_apart m p (tables_region m d)"
    "paging_is_aligned (process_stack m p)" "process_stack m p \<le> 0xffffb000"
    "en = paging_align_address (process_ptr m p + process_size m p)"
    "process_filetype m p \<noteq> PROCESS_FILETYPE_ELF"
  shows "if process_filetype m p = PROCESS_FILETYPE_BINARY
    then \<exists>m'. process_map_memory m p = Some (0, m') \<and> agree_off (tables_region m d) m m' \<and>
      (\<forall>w. paging_is_aligned w \<longrightarrow> paging_get m' d w = mapped 0x3fb000 (process_stack m p) 16384 7 w
         (if paging_is_aligned (process_ptr m p) \<and> process_ptr m p \<le> en
          then mapped 0x400000 (process_ptr m p) (en - process_ptr m p) 7 w (paging_get m d w) else paging_get m d w))
    else process_map_memory m p = None"
proof (cases "process_filetype m p = PROCESS_FILETYPE_BINARY")
  case True
  let ?ok = "paging_is_aligned (process_ptr m p) \<and> process_ptr m p \<le> en"
  have v: "paging_is_aligned (0x400000 :: u32)" by (simp add: paging_is_aligned_def)
  have "\<exists>r m1. paging_map_to m c PEACHOS_PROGRAM_VIRTUAL_ADDRESS (process_ptr m p) en 7 = (r, m1) \<and> chunk_wf m1 c d \<and>
     agree_off (tables_region m d) m m1 \<and> (\<forall>w. paging_is_aligned w \<longrightarrow> paging_get m1 d w =
       (if ?ok then mapped 0x400000 (process_ptr m p) (en - process_ptr m p) 7 w (paging_get m d w) else paging_get m d w))"
  proof (cases ?ok)
    case True
    then show ?thesis
      using map_to_mapped [OF assms(1) v, of "process_ptr m p" en 7] assms(6) align_aligned by (metis (no_types, lifting))
  next
    case False
    then have "paging_map_to m c PEACHOS_PROGRAM_VIRTUAL_ADDRESS (process_ptr m p) en 7 = (- EINVARG, m)"
      using map_to_refused by blast
    then show ?thesis using False assms(1) by auto
  qed
  then obtain r m1 where m1: "paging_map_to m c PEACHOS_PROGRAM_VIRTUAL_ADDRESS (process_ptr m p) en 7 = (r, m1)" "chunk_wf m1 c d"
    "agree_off (tables_region m d) m m1" "\<forall>w. paging_is_aligned w \<longrightarrow> paging_get m1 d w =
       (if ?ok then mapped 0x400000 (process_ptr m p) (en - process_ptr m p) 7 w (paging_get m d w) else paging_get m d w)"
    by blast
  note fields = process_fields_agree [OF m1(3) assms(3)]
  have pre: "process_page_directory m1 p = c" "paging_is_aligned (process_stack m1 p)" "process_stack m1 p \<le> 0xffffb000"
    using fields assms(2,4,5) by simp_all
  obtain m2 where m2: "paging_map_to m1 (process_page_directory m1 p) PEACHOS_PROGRAM_VIRTUAL_STACK_ADDRESS_END (process_stack m1 p)
      (paging_align_address (process_stack m1 p + PEACHOS_USER_PROGRAM_STACK_SIZE)) 7 = (0, m2)" "chunk_wf m2 c d"
      "\<forall>w. paging_is_aligned w \<longrightarrow> paging_get m2 d w = mapped 0x3fb000 (process_stack m1 p) 16384 7 w (paging_get m1 d w)"
      "agree_off (tables_region m1 d) m1 m2"
    by (rule stack_mapped [OF m1(2) pre])
  have "process_map_memory m p = Some (0, m2)"
    using True m1(1) m2(1) assms(2,6) by (simp add: process_map_memory_def process_map_binary_def)
  moreover have "agree_off (tables_region m d) m m2"
    using agree_off_trans_same [OF m1(3)] m2(4) tables_region_frame [OF assms(1) m1(3)] by simp
  ultimately show ?thesis using True m2(3) m1(4) fields(4) by auto
next
  case False
  then show ?thesis using assms(7) by (simp add: process_map_memory_def)
qed

section \<open>Witnesses\<close>

lemma alloc_table_zero:
  assumes "kheap_ready s A" "A p = Some 2" "\<forall>x \<in> span p 5260. kmem s x = 0"
  shows "set (alloc_table (kmem s) p) = {0}"
proof -
  have "slot (kmem s) (process_allocations p) i = 0" if i: "i < 1024" for i
  proof -
    note r = alloc_table_room [OF assms(1,2)]
    have "span (process_allocations p + 4 * word_of_nat i) 4 \<subseteq> span (process_allocations p) (4 * 1024)"
      by (rule array_span_subset [OF r(1) i])
    also have "\<dots> \<subseteq> span p 5260" unfolding process_allocations_def by (rule process_field_in [of 116]) simp_all
    finally have "\<forall>x \<in> span (process_allocations p + 4 * word_of_nat i) 4. kmem s x = 0" using assms(3) by blast
    then show ?thesis by (simp add: slot_def read32_def span4_cases)
  qed
  then show ?thesis unfolding alloc_table_def slots_def by (auto intro: image_eqI [of _ _ 0])
qed

text \<open>After boot, a process of its own.\<close>

lemma demo_process:
  obtains s A p where "proc_run (s :: kstate) A {p}" "alloc_table (kmem s) p = replicate 1024 0" "100 \<le> kheap_avail s"
proof -
  have b: "kheap_ready (kheap_init zero_kstate) (\<lambda>_. None)" "kheap_avail (kheap_init zero_kstate) = 25600"
    using kheap_init_avail by blast+
  have c: "(5260 :: u32) \<noteq> 0" "unat (5260 :: u32) \<le> 4294963200" by simp_all
  have r: "kheap_room (kheap_init zero_kstate) (blocks_of 5260)" by (rule boot_room) simp
  obtain p m where p: "kheap_ready (put_kmem m (kheap_init zero_kstate)) [p \<mapsto> blocks_of 5260]"
    "kheap_avail (put_kmem m (kheap_init zero_kstate)) + blocks_of 5260 = kheap_avail (kheap_init zero_kstate)"
    "\<forall>x \<in> span p (unat (5260 :: u32)). m x = 0"
    using kh.zalloc_fresh [OF b(1) c r] by (elim exE conjE) (rule that, assumption+)
  let ?s = "put_kmem m (kheap_init zero_kstate)" and ?A = "[p \<mapsto> blocks_of 5260]"
  have t: "set (alloc_table (kmem ?s) p) = {0}" by (rule alloc_table_zero [OF p(1)]) (use p(3) in simp_all)
  then have "proc_run ?s ?A {p}" by (intro proc_run.start p(1)) simp
  moreover have "alloc_table (kmem ?s) p = replicate 1024 0" using t by (simp add: replicate_length_same [symmetric] list_eq_iff_nth_eq) (metis length_alloc_table nth_mem singletonD t put_kmem_simps(1))
  ultimately show ?thesis using that p(2) b(2) by simp
qed

lemma demo_malloc:
  assumes "proc_run (s :: kstate) A {p}" "0 < kheap_avail s" "i < 1024" "alloc_table (kmem s) p ! i = 0"
    "\<forall>j < i. alloc_table (kmem s) p ! j \<noteq> 0"
  obtains q s' where "process_malloc p 100 s = (q, s')" "proc_run s' (A(q \<mapsto> blocks_of 100)) {p}" "q \<noteq> 0"
    "alloc_table (kmem s') p = (alloc_table (kmem s) p)[i := q]" "kheap_avail s' + 1 = kheap_avail s"
proof -
  note o = proc_run_ok [OF assms(1)]
  have c: "p \<in> {p}" "(100 :: u32) \<noteq> 0" "unat (100 :: u32) \<le> 4294963200" by simp_all
  have "kheap_room s 1" by (rule kh.avail_room [OF procs_okD(1) [OF o] assms(2)])
  then have r: "kheap_room s (blocks_of 100)" by simp
  obtain q s' where q: "process_malloc p 100 s = (q, s')" "q \<noteq> 0" "alloc_table (kmem s') p = (alloc_table (kmem s) p)[i := q]"
    "kheap_avail s' + blocks_of 100 = kheap_avail s"
    by (rule procs_malloc [OF o c r assms(3-5)])
  have "0 \<in> set (alloc_table (kmem s) p)" using nth_mem [of i "alloc_table (kmem s) p"] assms(3,4) by simp
  from proc_run.malloc [OF assms(1) c r this q(1)] show ?thesis using that q(1-3) q(4) by simp
qed

theorem proc_run_isolated_witness:
  "\<exists>s A p a b. proc_run (s :: kstate) A {p} \<and> alloc_table (kmem s) p ! 0 = a \<and> a \<noteq> 0 \<and>
     alloc_table (kmem s) p ! 1 = b \<and> b \<noteq> 0 \<and> (\<exists>n k. A a = Some n \<and> A b = Some k \<and> span a (n * 4096) \<inter> span b (k * 4096) = {})"
proof -
  obtain s A p where s: "proc_run (s :: kstate) A {p}" "alloc_table (kmem s) p = replicate 1024 0" "100 \<le> kheap_avail s"
    by (rule demo_process)
  have i0: "0 < kheap_avail s" "(0 :: nat) < 1024" "alloc_table (kmem s) p ! 0 = 0" using s(2,3) by simp_all
  obtain a t where a: "process_malloc p 100 s = (a, t)" "proc_run t (A(a \<mapsto> blocks_of 100)) {p}" "a \<noteq> 0"
    "alloc_table (kmem t) p = (alloc_table (kmem s) p)[0 := a]"
    "kheap_avail t + 1 = kheap_avail s"
    by (rule demo_malloc [OF s(1) i0]) simp
  have i1: "0 < kheap_avail t" "(1 :: nat) < 1024" "alloc_table (kmem t) p ! 1 = 0" "\<forall>j < 1. alloc_table (kmem t) p ! j \<noteq> 0"
    using a(3-5) s(2,3) by simp_all
  obtain b u where b: "process_malloc p 100 t = (b, u)" "proc_run u (A(a \<mapsto> blocks_of 100, b \<mapsto> blocks_of 100)) {p}" "b \<noteq> 0"
    "alloc_table (kmem u) p = (alloc_table (kmem t) p)[1 := b]"
    by (rule demo_malloc [OF a(2) i1])
  have e: "a = alloc_table (kmem u) p ! 0" "b = alloc_table (kmem u) p ! 1" using a(4) b(4) by simp_all
  have "p \<in> {p}" "(0 :: nat) < 1024" "(p, 0 :: nat) \<noteq> (p, 1)" by simp_all
  let ?B = "A(a \<mapsto> blocks_of 100, b \<mapsto> blocks_of 100)"
  have "\<exists>n k. ?B a = Some n \<and> ?B b = Some k \<and> span a (n * 4096) \<inter> span b (k * 4096) = {}"
    using proc_run_isolated [OF b(2) \<open>p \<in> {p}\<close> \<open>p \<in> {p}\<close> \<open>0 < 1024\<close> i1(2) e a(3) b(3) \<open>(p, 0) \<noteq> (p, 1)\<close>] by blast
  then have "proc_run u ?B {p} \<and> alloc_table (kmem u) p ! 0 = a \<and> a \<noteq> 0 \<and> alloc_table (kmem u) p ! 1 = b \<and> b \<noteq> 0 \<and>
      (\<exists>n k. ?B a = Some n \<and> ?B b = Some k \<and> span a (n * 4096) \<inter> span b (k * 4096) = {})"
    by (intro conjI b(2,3) a(3) e [symmetric])
  then show ?thesis by (intro exI)
qed

theorem process_malloc_records_witness:
  "\<exists>s p q s'. process_malloc p 100 (s :: kstate) = (q, s') \<and> q \<noteq> 0 \<and> q \<in> set (alloc_table (kmem s') p)"
proof -
  obtain s A p where s: "proc_run (s :: kstate) A {p}" "alloc_table (kmem s) p = replicate 1024 0" "100 \<le> kheap_avail s"
    by (rule demo_process)
  note o = proc_run_ok [OF s(1)]
  have c: "p \<in> {p}" "(100 :: u32) \<noteq> 0" "unat (100 :: u32) \<le> 4294963200" by simp_all
  have "kheap_room s 1" using kh.avail_room [OF procs_okD(1) [OF o]] s(3) by simp
  then have r: "kheap_room s (blocks_of 100)" by simp
  have z: "0 \<in> set (alloc_table (kmem s) p)" by (simp add: s(2))
  from process_malloc_records [OF o c r] z
  obtain q s' i where q: "process_malloc p 100 s = (q, s')" "q \<noteq> 0" "i < 1024" "alloc_table (kmem s') p = (alloc_table (kmem s) p)[i := q]"
    by auto
  moreover have "q \<in> set (alloc_table (kmem s') p)" unfolding q(4) by (rule set_update_memI) (simp add: q(3))
  ultimately show ?thesis by blast
qed

theorem process_free_own_only_witness:
  "\<exists>s p q. q \<in> set (alloc_table (kmem (s :: kstate)) p) \<and> q \<notin> set (alloc_table (kmem (process_free p q s)) p)"
proof -
  obtain s A p where s: "proc_run (s :: kstate) A {p}" "alloc_table (kmem s) p = replicate 1024 0" "100 \<le> kheap_avail s"
    by (rule demo_process)
  have i0: "0 < kheap_avail s" "(0 :: nat) < 1024" "alloc_table (kmem s) p ! 0 = 0" using s(2,3) by simp_all
  obtain a t where a: "process_malloc p 100 s = (a, t)" "proc_run t (A(a \<mapsto> blocks_of 100)) {p}" "a \<noteq> 0"
    "alloc_table (kmem t) p = (alloc_table (kmem s) p)[0 := a]"
    by (rule demo_malloc [OF s(1) i0]) simp
  have "a \<in> set (alloc_table (kmem t) p)" unfolding a(4) by (rule set_update_memI) simp
  then show ?thesis
    using process_free_own_only [OF proc_run_ok [OF a(2)] _ a(3) refl, of p] a(3)
    by (intro exI [of _ t] exI [of _ p] exI [of _ a]) auto
qed

definition demo_procstate :: "mem \<Rightarrow> procstate" where
  "demo_procstate m = taskstate.extend (put_kmem m demo_queue)
     \<lparr>current_process = 0, processes_at = 0x8000, process_stat_at = 0x6100, process_mode_r_at = 0x504\<rparr>"

theorem process_load_full_witness:
  "process_load demo_drive 0 0x600 (demo_procstate (\<lambda>_. 1)) = Some (- EISTKN, None, demo_procstate (\<lambda>_. 1))"
proof -
  have "slot (\<lambda>_. 1) a i \<noteq> 0" for a i by (simp add: slot_def read32_def)
  then have "0 \<notin> set (slots (kmem (demo_procstate (\<lambda>_. 1))) (processes_at (demo_procstate (\<lambda>_. 1))) 12)"
    by (simp add: slots_def demo_procstate_def taskstate.defs image_iff)
  from process_load_full [OF this] show ?thesis by simp
qed

text \<open>A process with its task, its program and its stack in memory below the heap, on top of a new address
  space: \<open>c\<close> is the address space, \<open>ty\<close> the file type.\<close>

definition demo_base :: "u8 \<Rightarrow> mem" where
  "demo_base ty = (\<lambda>_. 0)(0x201074 := ty, 0x200071 := 0x20, 0x200072 := 0x20, 0x201079 := 0x30, 0x20107a := 0x20,
     0x20107e := 0x30, 0x201081 := 0x10, 0x203071 := 0x40, 0x203072 := 0x20, 0x20401c := 0x34, 0x20402c := 1,
     0x204039 := 0x10, 0x20403e := 0x40, 0x204049 := 0x10)"

definition demo_elf_image :: "u32 \<Rightarrow> u8 \<Rightarrow> mem" where
  "demo_elf_image c ty = write32 (demo_base ty) 0x202000 c"

definition demo_room :: "u32 set" where "demo_room = span 0x200000 0x10000"

definition demo_mem :: "mem \<Rightarrow> u32 \<Rightarrow> u8 \<Rightarrow> mem" where
  "demo_mem m c ty = (\<lambda>x. if x \<in> demo_room then demo_elf_image c ty x else m x)"

lemma demo_room_reads:
  "span a 4 \<subseteq> demo_room \<Longrightarrow> read32 (demo_mem m c ty) a = read32 (demo_elf_image c ty) a"
  by (rule read32_span) (auto simp: demo_mem_def)

lemma demo_room_span: "0x200000 \<le> unat a \<Longrightarrow> unat a + k \<le> 0x210000 \<Longrightarrow> span a k \<subseteq> demo_room"
  unfolding demo_room_def by (rule span_subset) simp_all

lemma demo_image_fields:
  fixes m :: mem and c :: u32 and ty :: u8
  defines "m' \<equiv> demo_mem m c ty"
  shows "process_task m' 0x200000 = 0x202000" "process_page_directory m' 0x200000 = c" "process_ptr m' 0x200000 = 0x203000"
    "process_stack m' 0x200000 = 0x300000" "process_size m' 0x200000 = 0x1000" "process_filetype m' 0x200000 = ty"
    "elf_memory m' 0x203000 = 0x204000" "e_phnum m' 0x204000 = 1" "elf_pheader m' 0x204000 = 0x204034"
    "p_vaddr m' 0x204034 = 0x400000" "p_offset m' 0x204034 = 0x1000" "p_memsz m' 0x204034 = 0x1000" "p_flags m' 0x204034 = 0"
proof -
  have b: "m' a = demo_base ty a" if "0x200000 \<le> unat a" "unat a + 1 \<le> 0x210000" "a \<notin> span 0x202000 4" for a
  proof -
    have "a \<in> demo_room" using demo_room_span [OF that(1,2)] span_base_in [OF zero_less_one, of a] by blast
    then show ?thesis using that(3) by (simp add: m'_def demo_mem_def demo_elf_image_def mem_simps)
  qed
  have r: "read32 m' a = read32 (demo_base ty) a"
    if "0x200000 \<le> unat a" "unat a + 4 \<le> 0x210000" "span a 4 \<inter> span 0x202000 4 = {}" for a
    unfolding m'_def demo_room_reads [OF demo_room_span [OF that(1,2)]] using that(3) by (simp add: demo_elf_image_def mem_simps)
  have sep: "span a 4 \<inter> span (0x202000 :: u32) 4 = {}" if "unat a + 4 \<le> 0x202000 \<or> 0x202004 \<le> unat a" "unat a \<le> 0x300000" for a
    using that span_disjoint [of a 4 "0x202000" 4] span_disjoint_sym [of "0x202000" 4 a 4] by auto
  note r' = r [OF _ _ sep]
  show t: "process_task m' 0x200000 = 0x202000"
    using r' [of "0x200070"] by (simp add: process_task_def) (simp add: read32_def demo_base_def)
  have "read32 m' 0x202000 = c"
    unfolding m'_def using demo_room_reads [OF demo_room_span [of "0x202000" 4]] by (simp add: demo_elf_image_def)
  then show "process_page_directory m' 0x200000 = c" by (simp add: process_page_directory_def task_page_directory_def t)
  show "process_ptr m' 0x200000 = 0x203000"
    using r' [of "0x201078"] by (simp add: process_ptr_def) (simp add: read32_def demo_base_def)
  show "process_stack m' 0x200000 = 0x300000"
    using r' [of "0x20107c"] by (simp add: process_stack_def) (simp add: read32_def demo_base_def)
  show "process_size m' 0x200000 = 0x1000"
    using r' [of "0x201080"] by (simp add: process_size_def) (simp add: read32_def demo_base_def)
  show "process_filetype m' 0x200000 = ty"
    using b [of "0x201074"] by (simp add: process_filetype_def span_iff) (simp add: demo_base_def)
  show "elf_memory m' 0x203000 = 0x204000"
    using r' [of "0x203070"] by (simp add: elf_memory_def) (simp add: read32_def demo_base_def)
  show "e_phnum m' 0x204000 = 1"
    using b [of "0x20402c"] b [of "0x20402d"] by (simp add: e_phnum_def read16_def span_iff) (simp add: demo_base_def)
  show "elf_pheader m' 0x204000 = 0x204034"
    using r' [of "0x20401c"] by (simp add: elf_pheader_def e_phoff_def) (simp add: read32_def demo_base_def)
  show "p_vaddr m' 0x204034 = 0x400000" using r' [of "0x20403c"] by (simp add: p_vaddr_def) (simp add: read32_def demo_base_def)
  show "p_offset m' 0x204034 = 0x1000" using r' [of "0x204038"] by (simp add: p_offset_def) (simp add: read32_def demo_base_def)
  show "p_memsz m' 0x204034 = 0x1000" using r' [of "0x204048"] by (simp add: p_memsz_def) (simp add: read32_def demo_base_def)
  show "p_flags m' 0x204034 = 0" using r' [of "0x20404c"] by (simp add: p_flags_def) (simp add: read32_def demo_base_def)
qed

lemma kheap_live_above:
  assumes "kheap_ready s A" "A q = Some k" "kernel_heap s = boot_heap"
  shows "0x1000000 \<le> unat q"
proof -
  obtain B i where i: "heap_ok (kernel_heap s)" "i < num_blocks (kernel_heap s)" "q = block_addr (kernel_heap s) i"
    using kheap_live_block [OF assms(1,2)] by metis
  show ?thesis using unat_block_addr [OF i(1,2)] i(3) assms(3) by simp
qed

lemma demo_space:
  obtains m c d where "\<forall>ty. chunk_wf (demo_mem m c ty) c d"
    "\<forall>ty v. paging_is_aligned v \<longrightarrow> paging_get (demo_mem m c ty) d v = v OR 5"
    "\<forall>ty. tables_region (demo_mem m c ty) d \<inter> demo_room = {}"
proof -
  obtain c d ts m where r: "chunk_owns (put_kmem m (kheap_init zero_kstate)) (with_pages (\<lambda>_. None) (c # d # ts)) c d ts"
    "\<forall>v. paging_is_aligned v \<longrightarrow> paging_get m d v = v OR ucast (5 :: u8)"
    using boot_chunk [of 5] by (elim exE conjE) (rule that, assumption+)
  let ?s = "put_kmem m (kheap_init zero_kstate)"
  have k: "kheap_ready ?s (with_pages (\<lambda>_. None) (c # d # ts))" using r(1) by (simp add: chunk_owns_def)
  have pg: "span p 4096 \<inter> demo_room = {}" if "p \<in> set (c # d # ts)" for p
  proof -
    have "with_pages (\<lambda>_. None) (c # d # ts) p = Some 1" using that by (simp add: with_pages_def)
    from kheap_live_above [OF k this] kh.live_bounds [OF k this]
    show ?thesis unfolding demo_room_def by (intro span_disjoint_sym) simp_all
  qed
  have res: "demo_room \<inter> kheap_reserved ?s = {}"
    unfolding demo_room_def kheap_reserved_def table_region_def by (simp, intro span_disjoint_sym) simp_all
  have all: "chunk_wf (demo_mem m c ty) c d \<and> (\<forall>v. paging_is_aligned v \<longrightarrow> paging_get (demo_mem m c ty) d v = v OR 5) \<and>
    tables_region (demo_mem m c ty) d \<inter> demo_room = {}" for ty
  proof (intro conjI)
    let ?m = "demo_mem m c ty"
    have a: "agree_off demo_room (kmem ?s) ?m" by (simp add: agree_off_def demo_mem_def)
    have pg': "\<forall>p \<in> set (c # d # ts). span p 4096 \<inter> demo_room = {}" using pg by blast
    note f = chunk_owns_frame [OF r(1) a res pg']
    show "chunk_wf ?m c d" using chunk_owns_wf [OF f(1)] by simp
    show "\<forall>v. paging_is_aligned v \<longrightarrow> paging_get ?m d v = v OR 5" using f(3) r(2) by simp
    have "\<forall>i < 1024. table_of ?m d i = ts ! i" "length ts = 1024" using f(1) by (simp_all add: chunk_owns_def)
    then have "\<forall>i < 1024. table_of ?m d i \<in> set (c # d # ts)" by simp
    then show "tables_region ?m d \<inter> demo_room = {}" unfolding tables_region_def using pg by blast
  qed
  show ?thesis by (rule that [of m c d]) (use all in blast)+
qed

lemma demo_room_apart:
  fixes m :: mem and c :: u32 and ty :: u8
  defines "m' \<equiv> demo_mem m c ty"
  assumes "S \<inter> demo_room = {}"
  shows "reads_apart m' 0x200000 S" "elf_apart m' 0x203000 S"
proof -
  note f = demo_image_fields [of m c ty, folded m'_def]
  have a: "span x k \<inter> S = {}" if "0x200000 \<le> unat x" "unat x + k \<le> 0x210000" for x k
    using demo_room_span [OF that] assms(2) by blast
  show "reads_apart m' 0x200000 S" by (simp add: reads_apart_def f a)
  have "phdr_at m' 0x204000 0 = 0x204034" by (simp add: phdr_at_def elf_program_header_def f)
  then show "elf_apart m' 0x203000 S" by (simp add: elf_apart_def f a)
qed

theorem process_map_memory_elf_witness:
  "\<exists>m d m'. process_map_memory m 0x200000 = Some (0, m') \<and> paging_get m d 0x400000 = 0x400005 \<and>
     paging_get m' d 0x400000 = 0x205005 \<and> paging_get m' d 0x401000 = 0x401005 \<and> paging_get m' d 0x3fb000 = 0x300007"
proof -
  obtain m0 c d where w: "\<forall>ty. chunk_wf (demo_mem m0 c ty) c d"
    "\<forall>ty v. paging_is_aligned v \<longrightarrow> paging_get (demo_mem m0 c ty) d v = v OR 5"
    "\<forall>ty. tables_region (demo_mem m0 c ty) d \<inter> demo_room = {}"
    by (rule demo_space)
  define m where "m = demo_mem m0 c 0"
  have w: "chunk_wf m c d" "\<forall>v. paging_is_aligned v \<longrightarrow> paging_get m d v = v OR 5" "tables_region m d \<inter> demo_room = {}"
    using w unfolding m_def by blast+
  note f = demo_image_fields [of m0 c 0, folded m_def]
  have ph: "elf_phdrs m 0x203000 = [0x204034]"
    by (simp add: f phdr_at_def elf_program_header_def)
  have al: "paging_is_aligned 0x400000" "paging_is_aligned 0x401000" "paging_is_aligned 0x3fb000" "paging_is_aligned 0x300000"
    by (simp_all add: paging_is_aligned_def)
  have seg: "segment_mapped m 0x203000 v 0x204034 old = mapped 0x400000 0x205000 0x1000 5 v old" "segment_fits m 0x203000 0x204034" for v old
    by (simp_all add: segment_mapped_def segment_fits_def elf_phdr_phys_address_def f paging_align_to_lower_page_def
      paging_align_address_def process_phdr_flags_def)
  have "\<exists>m'. process_map_memory m 0x200000 = Some (if list_all (segment_fits m 0x203000) (elf_phdrs m 0x203000) then 0 else - EINVARG, m') \<and>
    agree_off (tables_region m d) m m' \<and>
    (\<forall>w. paging_is_aligned w \<longrightarrow> paging_get m' d w =
       (if list_all (segment_fits m 0x203000) (elf_phdrs m 0x203000)
        then mapped 0x3fb000 (process_stack m 0x200000) 16384 7 w (fold (segment_mapped m 0x203000 w) (elf_phdrs m 0x203000) (paging_get m d w))
        else fold (segment_mapped m 0x203000 w) (takeWhile (segment_fits m 0x203000) (elf_phdrs m 0x203000)) (paging_get m d w)))"
    by (rule process_map_memory_elf [OF w(1)]) (simp_all add: f al demo_room_apart [of "tables_region m d" m0 c 0, folded m_def, OF w(3)])
  then obtain m' where m': "process_map_memory m 0x200000 = Some (0, m')"
    "\<forall>w. paging_is_aligned w \<longrightarrow> paging_get m' d w = mapped 0x3fb000 0x300000 16384 7 w (mapped 0x400000 0x205000 0x1000 5 w (paging_get m d w))"
    unfolding ph using f by (auto simp: seg)
  have "paging_get m d 0x400000 = 0x400005" "paging_get m' d 0x400000 = 0x205005" "paging_get m' d 0x401000 = 0x401005"
    "paging_get m' d 0x3fb000 = 0x300007"
    using m'(2) w(2) al by (simp_all add: mapped_def)
  then show ?thesis using m'(1) by blast
qed

theorem process_map_memory_binary_witness:
  "\<exists>m d m'. process_map_memory m 0x200000 = Some (0, m') \<and> paging_get m' d 0x400000 = 0x203007 \<and>
     paging_get m' d 0x3fb000 = 0x300007"
proof -
  obtain m0 c d where w: "\<forall>ty. chunk_wf (demo_mem m0 c ty) c d"
    "\<forall>ty v. paging_is_aligned v \<longrightarrow> paging_get (demo_mem m0 c ty) d v = v OR 5"
    "\<forall>ty. tables_region (demo_mem m0 c ty) d \<inter> demo_room = {}"
    by (rule demo_space)
  define m where "m = demo_mem m0 c 1"
  have w: "chunk_wf m c d" "\<forall>v. paging_is_aligned v \<longrightarrow> paging_get m d v = v OR 5" "tables_region m d \<inter> demo_room = {}"
    using w unfolding m_def by blast+
  note f = demo_image_fields [of m0 c 1, folded m_def]
  have al: "paging_is_aligned 0x400000" "paging_is_aligned 0x3fb000" "paging_is_aligned 0x300000" "paging_is_aligned 0x203000"
    by (simp_all add: paging_is_aligned_def)
  have en: "0x204000 = paging_align_address (process_ptr m 0x200000 + process_size m 0x200000)"
    by (simp add: f paging_align_address_def)
  have "if process_filetype m 0x200000 = PROCESS_FILETYPE_BINARY
    then \<exists>m'. process_map_memory m 0x200000 = Some (0, m') \<and> agree_off (tables_region m d) m m' \<and>
      (\<forall>w. paging_is_aligned w \<longrightarrow> paging_get m' d w = mapped 0x3fb000 (process_stack m 0x200000) 16384 7 w
         (if paging_is_aligned (process_ptr m 0x200000) \<and> process_ptr m 0x200000 \<le> 0x204000
          then mapped 0x400000 (process_ptr m 0x200000) (0x204000 - process_ptr m 0x200000) 7 w (paging_get m d w) else paging_get m d w))
    else process_map_memory m 0x200000 = None"
    by (rule process_map_memory_binary [OF w(1) f(2) _ _ _ en])
      (simp_all add: f al demo_room_apart [of "tables_region m d" m0 c 1, folded m_def, OF w(3)])
  then obtain m' where m': "process_map_memory m 0x200000 = Some (0, m')"
    "\<forall>w. paging_is_aligned w \<longrightarrow> paging_get m' d w = mapped 0x3fb000 0x300000 16384 7 w (mapped 0x400000 0x203000 0x1000 7 w (paging_get m d w))"
    by (auto simp: f al)
  have "paging_get m' d 0x400000 = 0x203007" "paging_get m' d 0x3fb000 = 0x300007"
    using m'(2) al by (simp_all add: mapped_def)
  then show ?thesis using m'(1) by blast
qed

end
