(* ===== verification/Keyboard.thy ===== *)
theory Keyboard
  imports Process
begin

text \<open>
  \<^verbatim>\<open>src/keyboard/keyboard.c\<close>: the keyboard buffer of a process, a ring of 1024 characters in its \<^verbatim>\<open>struct
  process\<close> with a head and a tail counter. What is typed goes to the current process; what is read comes from
  the process of the current task. The list of keyboard drivers is with the interrupts, in \<open>Interrupts\<close>.
\<close>

definition keyboard_tail :: "mem \<Rightarrow> u32 \<Rightarrow> u32" where "keyboard_tail m p = read32 m (p + 5252)"
definition keyboard_head :: "mem \<Rightarrow> u32 \<Rightarrow> u32" where "keyboard_head m p = read32 m (p + 5256)"

section \<open>Operations\<close>

text \<open>\<^verbatim>\<open>tail % sizeof(buffer)\<close> is computed in unsigned arithmetic.\<close>

definition keyboard_get_tail_index :: "mem \<Rightarrow> u32 \<Rightarrow> u32" where
  "keyboard_get_tail_index m process = keyboard_tail m process mod 1024"

definition keyboard_backspace :: "u32 \<Rightarrow> mem \<Rightarrow> mem" where
  "keyboard_backspace process m =
     (let m1 = write32 m (process + 5252) (keyboard_tail m process - 1)
      in m1(process + 4228 + keyboard_get_tail_index m1 process := 0))"

definition keyboard_push :: "u8 \<Rightarrow> 'z procstate_scheme \<Rightarrow> 'z procstate_scheme" where
  "keyboard_push c s =
     (let process = current_process s in
      if process = 0 then s
      else if c = 0 then s
      else let m1 = (kmem s)(process + 4228 + keyboard_get_tail_index (kmem s) process := c)
           in put_kmem (write32 m1 (process + 5252) (keyboard_tail m1 process + 1)) s)"

definition keyboard_pop :: "'z procstate_scheme \<Rightarrow> u8 \<times> 'z procstate_scheme" where
  "keyboard_pop s =
     (if current_task s = 0 then (0, s)
      else let process = task_process (kmem s) (current_task s);
               a = process + 4228 + keyboard_head (kmem s) process mod 1024;
               c = kmem s a
           in if c = 0 then (0, s)
              else let m1 = (kmem s)(a := 0)
                   in (c, put_kmem (write32 m1 (process + 5256) (keyboard_head m1 process + 1)) s))"

section \<open>Bounded queues\<close>

text \<open>A queue of at most \<open>bound\<close> elements in a state, read by an operation that returns \<open>none\<close> when it is
  empty. The client of the keyboard buffer argues from these laws.\<close>

locale bounded_fifo =
  fixes repr :: "'s \<Rightarrow> 'a list \<Rightarrow> bool"
    and bound :: nat
    and none :: 'a
    and put :: "'a \<Rightarrow> 's \<Rightarrow> 's"
    and get :: "'s \<Rightarrow> 'a \<times> 's"
  assumes put_repr: "repr s q \<Longrightarrow> c \<noteq> none \<Longrightarrow> length q < bound \<Longrightarrow> repr (put c s) (q @ [c])"
    and get_empty: "repr s [] \<Longrightarrow> get s = (none, s)"
    and get_first: "repr s (c # q) \<Longrightarrow> c \<noteq> none \<and> (\<exists>s'. get s = (c, s') \<and> repr s' q)"
begin

text \<open>A schedule of writes (\<open>Some c\<close>) and reads (\<open>None\<close>), and what the reads return.\<close>

fun run :: "'a option list \<Rightarrow> 's \<Rightarrow> 'a list \<times> 's" where
  "run [] s = ([], s)"
| "run (Some c # ops) s = run ops (put c s)"
| "run (None # ops) s = (let (c, s1) = get s; (cs, s2) = run ops s1 in (c # cs, s2))"

end

text \<open>The same schedule on a list; \<open>None\<close> if a write finds the queue full or writes \<open>e\<close>.\<close>

fun queue_run :: "nat \<Rightarrow> 'a \<Rightarrow> 'a option list \<Rightarrow> 'a list \<Rightarrow> ('a list \<times> 'a list) option" where
  "queue_run n e [] q = Some ([], q)"
| "queue_run n e (Some c # ops) q = (if c \<noteq> e \<and> length q < n then queue_run n e ops (q @ [c]) else None)"
| "queue_run n e (None # ops) [] = map_option (\<lambda>(cs, q). (e # cs, q)) (queue_run n e ops [])"
| "queue_run n e (None # ops) (c # q) = map_option (\<lambda>(cs, q). (c # cs, q)) (queue_run n e ops q)"

context bounded_fifo
begin

lemma run_refines:
  "repr s q \<Longrightarrow> queue_run bound none ops q = Some (cs, q') \<Longrightarrow> fst (run ops s) = cs \<and> repr (snd (run ops s)) q'"
proof (induction ops arbitrary: s q cs)
  case (Cons x ops)
  show ?case
  proof (cases x)
    case (Some c)
    then have c: "c \<noteq> none" "length q < bound" "queue_run bound none ops (q @ [c]) = Some (cs, q')"
      using Cons.prems(2) by (simp_all split: if_splits)
    show ?thesis using Cons.IH [OF put_repr [OF Cons.prems(1) c(1,2)] c(3)] Some by simp
  next
    case None
    show ?thesis
    proof (cases q)
      case Nil
      obtain cs' where cs': "queue_run bound none ops [] = Some (cs', q')" "cs = none # cs'"
        using Cons.prems(2) None Nil by auto
      have "repr s []" using Cons.prems(1) Nil by simp
      from Cons.IH [OF this cs'(1)] get_empty [OF this] show ?thesis using None cs'(2) by (auto split: prod.splits)
    next
      case q: (Cons c q1)
      obtain cs' where cs': "queue_run bound none ops q1 = Some (cs', q')" "cs = c # cs'"
        using Cons.prems(2) None q by auto
      obtain s' where s': "get s = (c, s')" "repr s' q1" using get_first Cons.prems(1) q by blast
      from Cons.IH [OF s'(2) cs'(1)] s'(1) show ?thesis using None cs'(2) by (auto split: prod.splits)
    qed
  qed
qed simp

end

section \<open>The ring is a queue\<close>

definition kb_at :: "u32 \<Rightarrow> nat \<Rightarrow> u32" where
  "kb_at p k = p + 4228 + word_of_nat (k mod 1024)"

definition kb_queue :: "mem \<Rightarrow> u32 \<Rightarrow> u8 list \<Rightarrow> bool" where
  "kb_queue m p q \<longleftrightarrow> length q \<le> 1024 \<and> 0 \<notin> set q \<and> keyboard_tail m p = keyboard_head m p + word_of_nat (length q) \<and>
     (\<forall>i < 1024. m (kb_at p (unat (keyboard_head m p) + i)) = (if i < length q then q ! i else 0))"

definition kb_room :: "u32 \<Rightarrow> bool" where
  "kb_room p \<longleftrightarrow> unat p + 5260 \<le> 4294967296"

lemma unat_kb_at: "kb_room p \<Longrightarrow> unat (kb_at p k) = unat p + 4228 + k mod 1024"
proof -
  assume r: "kb_room p"
  have k: "k mod 1024 < 1024" by simp
  define j where "j = k mod 1024"
  have "unat (word_of_nat j :: u32) = j" using k by (simp add: j_def unat_of_nat)
  moreover have "unat (p + 4228) = unat p + 4228" using r by (simp add: kb_room_def unat_word_ariths)
  ultimately show ?thesis using r k unfolding kb_at_def j_def [symmetric] by (simp add: kb_room_def unat_word_ariths)
qed

lemma kb_at_eq: "kb_room p \<Longrightarrow> kb_at p j = kb_at p k \<longleftrightarrow> j mod 1024 = k mod 1024"
  using unat_kb_at [of p j] unat_kb_at [of p k] by (auto simp: word_unat_eq_iff)

lemma kb_counters: "kb_room p \<Longrightarrow> unat (p + 5252) = unat p + 5252" "kb_room p \<Longrightarrow> unat (p + 5256) = unat p + 5256"
  by (simp_all add: kb_room_def unat_word_ariths)

lemma kb_at_apart: "kb_room p \<Longrightarrow> kb_at p k \<notin> span (p + 5252) 4 \<and> kb_at p k \<notin> span (p + 5256) 4"
proof -
  assume r: "kb_room p"
  have k: "k mod 1024 < 1024" by simp
  show ?thesis using r k unat_kb_at [OF r, of k] kb_counters [OF r] unfolding kb_room_def
    by (simp add: span_iff del: mod_less_divisor)
qed

lemma kb_counters_apart: "kb_room p \<Longrightarrow> span (p + 5252) 4 \<inter> span (p + 5256) 4 = {}" "kb_room p \<Longrightarrow> span (p + 5256) 4 \<inter> span (p + 5252) 4 = {}"
  using kb_counters [of p] span_disjoint [of "p + 5252" 4 "p + 5256" 4] by (auto simp: kb_room_def)

lemma read32_upd: "a \<notin> span b 4 \<Longrightarrow> read32 (m(a := v)) b = read32 m b"
  by (rule read32_span) auto

lemma kb_index: "p + 4228 + n mod 1024 = kb_at p (unat n)"
proof -
  have "n mod 1024 = word_of_nat (unat n mod 1024)"
    by (simp add: word_unat_eq_iff unat_mod unat_of_nat)
  then show ?thesis by (simp add: kb_at_def)
qed

lemma kb_at_tail: "kb_at p (unat ((n :: u32) + word_of_nat k)) = kb_at p (unat n + k)"
proof -
  have "unat (n + word_of_nat k) mod 1024 = (unat n + k) mod 1024"
  proof -
    have "unat (n + word_of_nat k) = (unat n + k) mod 4294967296"
      by (simp add: unat_word_ariths unat_of_nat mod_add_right_eq)
    moreover have "(1024 :: nat) dvd 4294967296" by simp
    ultimately show ?thesis by (simp add: mod_mod_cancel)
  qed
  then show ?thesis by (simp add: kb_at_def)
qed

lemma kb_cong: "i < 1024 \<Longrightarrow> j < 1024 \<Longrightarrow> (h + i) mod 1024 = (h + j) mod 1024 \<longleftrightarrow> i = (j :: nat)"
proof -
  have *: "i = j" if "i \<le> j" "j < 1024" "(h + i) mod 1024 = (h + j) mod 1024" for i j :: nat
  proof -
    have "1024 dvd (h + j) - (h + i)" using that(1,3) mod_eq_dvd_iff_nat [of "h + i" "h + j" 1024] by simp
    then have "1024 dvd j - i" by simp
    then show ?thesis using that(1,2) by (auto dest: dvd_imp_le)
  qed
  show "i < 1024 \<Longrightarrow> j < 1024 \<Longrightarrow> ?thesis" using * [of i j] * [of j i] by (cases "i \<le> j") auto
qed

lemma kb_writes:
  assumes "kb_room p"
  shows "keyboard_tail (m(kb_at p k := c)) p = keyboard_tail m p" "keyboard_head (m(kb_at p k := c)) p = keyboard_head m p"
    "keyboard_tail (write32 m (p + 5252) v) p = v" "keyboard_head (write32 m (p + 5252) v) p = keyboard_head m p"
    "keyboard_tail (write32 m (p + 5256) v) p = keyboard_tail m p" "keyboard_head (write32 m (p + 5256) v) p = v"
    "write32 m (p + 5252) v (kb_at p k) = m (kb_at p k)" "write32 m (p + 5256) v (kb_at p k) = m (kb_at p k)"
  using kb_at_apart [OF assms, of k] kb_counters_apart [OF assms]
  by (simp_all add: keyboard_tail_def keyboard_head_def read32_upd mem_simps)

lemma kb_room_span: "kb_room p \<Longrightarrow> kb_at p k \<in> span (p + 4228) 1032 \<and> span (p + 5252) 4 \<subseteq> span (p + 4228) 1032 \<and>
    span (p + 5256) 4 \<subseteq> span (p + 4228) 1032"
proof -
  assume r: "kb_room p"
  have u: "unat (p + 4228) = unat p + 4228" using r by (simp add: kb_room_def unat_word_ariths)
  have k: "k mod 1024 < 1024" by simp
  have "kb_at p k \<in> span (p + 4228) 1032"
    using r k u unat_kb_at [OF r, of k] unfolding kb_room_def by (simp add: span_iff del: mod_less_divisor)
  moreover have "span (p + 5252) 4 \<subseteq> span (p + 4228) 1032" "span (p + 5256) 4 \<subseteq> span (p + 4228) 1032"
    using word_offset_in [of 1024 1024 4 1032 "p + 4228"] word_offset_in [of 1028 1028 4 1032 "p + 4228"] by (simp_all add: add.assoc)
  ultimately show ?thesis by blast
qed

text \<open>Storing a character behind the last, and taking the first.\<close>

lemma kb_store:
  assumes "kb_room p" "kb_queue m p q" "c \<noteq> 0" "length q < 1024"
  defines "a \<equiv> p + 4228 + keyboard_tail m p mod 1024"
  shows "kb_queue (write32 (m(a := c)) (p + 5252) (keyboard_tail (m(a := c)) p + 1)) p (q @ [c])"
proof -
  let ?h = "keyboard_head m p"
  have q: "0 \<notin> set q" "keyboard_tail m p = ?h + word_of_nat (length q)"
    "\<forall>i < 1024. m (kb_at p (unat ?h + i)) = (if i < length q then q ! i else 0)" using assms(2) by (simp_all add: kb_queue_def)
  have a: "a = kb_at p (unat ?h + length q)" unfolding a_def kb_index q(2) by (rule kb_at_tail)
  have "(m(a := c)) (kb_at p (unat ?h + i)) = (if i < Suc (length q) then (q @ [c]) ! i else 0)" if i: "i < 1024" for i
  proof (cases "i = length q")
    case True
    then show ?thesis by (simp add: a)
  next
    case False
    then have "kb_at p (unat ?h + i) \<noteq> a" unfolding a kb_at_eq [OF assms(1)] using kb_cong [OF i assms(4)] by simp
    then show ?thesis using q(3) i False by (auto simp: nth_append)
  qed
  then show ?thesis
    using assms(3,4) q(1,2) unfolding a by (simp add: kb_queue_def kb_writes [OF assms(1)] add.assoc)
qed

lemma kb_take:
  assumes "kb_room p" "kb_queue m p (c # q)"
  defines "a \<equiv> p + 4228 + keyboard_head m p mod 1024"
  shows "m a = c" "c \<noteq> 0" "kb_queue (write32 (m(a := 0)) (p + 5256) (keyboard_head (m(a := 0)) p + 1)) p q"
proof -
  let ?h = "keyboard_head m p"
  have q: "length q < 1024" "0 \<notin> set (c # q)" "keyboard_tail m p = ?h + word_of_nat (Suc (length q))"
    "\<forall>i < 1024. m (kb_at p (unat ?h + i)) = (if i < Suc (length q) then (c # q) ! i else 0)" using assms(2) by (simp_all add: kb_queue_def)
  have a: "a = kb_at p (unat ?h + 0)" unfolding a_def kb_index by simp
  show "m a = c" "c \<noteq> 0" using q(2) spec [OF q(4), of 0] unfolding a by simp_all
  have "(m(a := 0)) (kb_at p (unat (?h + 1) + i)) = (if i < length q then q ! i else 0)" if i: "i < 1024" for i
  proof -
    have e: "kb_at p (unat (?h + 1) + i) = kb_at p (unat ?h + Suc i)"
      using kb_at_tail [of p "?h + 1" i] kb_at_tail [of p ?h "Suc i"] by (simp add: add.assoc)
    show ?thesis
    proof (cases "i = 1023")
      case True
      have "kb_at p (unat ?h + Suc i) = a" unfolding a kb_at_eq [OF assms(1)] using True by simp
      then show ?thesis unfolding e using True q(1) by simp
    next
      case False
      then have s: "Suc i < 1024" using i by simp
      have "kb_at p (unat ?h + Suc i) \<noteq> a" unfolding a kb_at_eq [OF assms(1)] using kb_cong [OF s, of 0] by simp
      then show ?thesis unfolding e using spec [OF q(4), of "Suc i"] s by simp
    qed
  qed
  then show "kb_queue (write32 (m(a := 0)) (p + 5256) (keyboard_head (m(a := 0)) p + 1)) p q"
    using q(1-3) unfolding a by (simp add: kb_queue_def kb_writes [OF assms(1)] add.assoc)
qed

lemma kb_empty: "kb_queue m p [] \<Longrightarrow> m (p + 4228 + keyboard_head m p mod 1024) = 0"
  unfolding kb_queue_def kb_index by (metis add_0_right less_nat_zero_code list.size(3) zero_less_numeral)

text \<open>The state in which the running process is also the current one, with \<open>q\<close> typed and not yet read.\<close>

definition keyboard_holds :: "u32 \<Rightarrow> 'z procstate_scheme \<Rightarrow> u8 list \<Rightarrow> bool" where
  "keyboard_holds p s q \<longleftrightarrow> current_process s = p \<and> p \<noteq> 0 \<and> current_task s \<noteq> 0 \<and> task_process (kmem s) (current_task s) = p \<and>
     kb_room p \<and> kb_queue (kmem s) p q \<and> span (current_task s + 52) 4 \<inter> span (p + 4228) 1032 = {}"

lemma put_kmem_proc [simp]:
  "current_process (put_kmem m s) = current_process s" "processes_at (put_kmem m s) = processes_at s"
  by (simp_all add: put_kmem_def)

lemma keyboard_holds_put:
  assumes "keyboard_holds p s q" "agree_off (span (p + 4228) 1032) (kmem s) m" "kb_queue m p q'"
  shows "keyboard_holds p (put_kmem m s) q'"
proof -
  have "task_process m (current_task s) = task_process (kmem s) (current_task s)"
    unfolding task_process_def by (rule read32_agree [OF assms(2)]) (use assms(1) in \<open>simp add: keyboard_holds_def\<close>)
  then show ?thesis using assms(1,3) by (simp add: keyboard_holds_def)
qed

lemma kb_write_agree:
  assumes "kb_room p" "b = p + 5252 \<or> b = p + 5256"
  shows "agree_off (span (p + 4228) 1032) m (write32 (m(kb_at p k := c)) b v)"
proof -
  have "agree_off (span (p + 4228) 1032) m (m(kb_at p k := c))" using kb_room_span [OF assms(1)] by (auto simp: agree_off_def)
  moreover have "agree_off (span (p + 4228) 1032) (m(kb_at p k := c)) (write32 (m(kb_at p k := c)) b v)"
    by (rule agree_off_mono [OF write32_agree]) (use kb_room_span [OF assms(1)] assms(2) in auto)
  ultimately show ?thesis by (rule agree_off_trans_same)
qed

interpretation kb: bounded_fifo "keyboard_holds p :: 'z procstate_scheme \<Rightarrow> u8 list \<Rightarrow> bool" 1024 0 keyboard_push keyboard_pop for p
proof
  fix s :: "'z procstate_scheme" and q and c :: u8
  assume h: "keyboard_holds p s q" "c \<noteq> 0" "length q < 1024"
  note r = h(1) [unfolded keyboard_holds_def]
  let ?a = "p + 4228 + keyboard_tail (kmem s) p mod 1024"
  let ?m = "write32 ((kmem s)(?a := c)) (p + 5252) (keyboard_tail ((kmem s)(?a := c)) p + 1)"
  have e: "keyboard_push c s = put_kmem ?m s" using r h(2) by (simp add: keyboard_push_def keyboard_get_tail_index_def Let_def)
  show "keyboard_holds p (keyboard_push c s) (q @ [c])"
    unfolding e by (rule keyboard_holds_put [OF h(1)]) (use r kb_store [OF _ _ h(2,3)] in \<open>simp_all add: kb_index kb_write_agree\<close>)
next
  fix s :: "'z procstate_scheme"
  assume h: "keyboard_holds p s []"
  then show "keyboard_pop s = (0, s)" using kb_empty [of "kmem s" p] by (simp add: keyboard_pop_def keyboard_holds_def)
next
  fix s :: "'z procstate_scheme" and c :: u8 and q
  assume h: "keyboard_holds p s (c # q)"
  note r = h [unfolded keyboard_holds_def]
  let ?a = "p + 4228 + keyboard_head (kmem s) p mod 1024"
  let ?m = "write32 ((kmem s)(?a := 0)) (p + 5256) (keyboard_head ((kmem s)(?a := 0)) p + 1)"
  have t: "kmem s ?a = c" "c \<noteq> 0" "kb_queue ?m p q" using kb_take [of p "kmem s" c q] r by simp_all
  have e: "keyboard_pop s = (c, put_kmem ?m s)" using r t(1,2) by (simp add: keyboard_pop_def Let_def)
  have "keyboard_holds p (put_kmem ?m s) q"
    by (rule keyboard_holds_put [OF h _ t(3)]) (use r in \<open>simp add: kb_index kb_write_agree\<close>)
  then show "c \<noteq> 0 \<and> (\<exists>s'. keyboard_pop s = (c, s') \<and> keyboard_holds p s' q)" using e t(2) by blast
qed

section \<open>Properties\<close>

text \<open>C22: The keyboard buffer is a first-in first-out queue: whatever the order in which characters are pushed
  and popped while the process that is typed to is also the one that reads, the pops return what they return
  on a list, 0 when it is empty, as long as no push finds 1024 characters waiting and none pushes 0. The head
  and tail counters may wrap.\<close>

theorem keyboard_fifo:
  assumes "keyboard_holds p s q" "queue_run 1024 0 ops q = Some (cs, q')"
  shows "fst (kb.run ops s) = cs \<and> keyboard_holds p (snd (kb.run ops s)) q'"
  by (rule kb.run_refines [OF assms])

text \<open>A push into a full buffer overwrites the oldest character: the next pop returns the newest one.
  Without a current process, or of 0, a push does nothing.\<close>

theorem keyboard_overrun:
  "(keyboard_holds p s q \<longrightarrow> length q = 1024 \<longrightarrow> c \<noteq> 0 \<longrightarrow> fst (keyboard_pop (keyboard_push c s)) = c) \<and>
   (current_process s = 0 \<or> c = 0 \<longrightarrow> keyboard_push c s = s) \<and>
   (current_task s = 0 \<longrightarrow> keyboard_pop s = (0, s))"
proof (intro conjI impI)
  assume h: "keyboard_holds p s q" "length q = 1024" "c \<noteq> 0"
  note r = h(1) [unfolded keyboard_holds_def]
  let ?m = "kmem s"
  have q: "keyboard_tail ?m p = keyboard_head ?m p + word_of_nat 1024" using r h(2) by (simp add: kb_queue_def)
  have a: "p + 4228 + keyboard_tail ?m p mod 1024 = kb_at p (unat (keyboard_head ?m p))"
    unfolding kb_index q kb_at_tail using r kb_at_eq by simp
  let ?a = "kb_at p (unat (keyboard_head ?m p))"
  let ?m' = "write32 (?m(?a := c)) (p + 5252) (keyboard_tail (?m(?a := c)) p + 1)"
  have e: "keyboard_push c s = put_kmem ?m' s"
    using r h(3) a by (simp add: keyboard_push_def keyboard_get_tail_index_def Let_def)
  have ag: "agree_off (span (p + 4228) 1032) ?m ?m'" using r by (simp add: kb_write_agree)
  have "task_process ?m' (current_task s) = p"
    using r read32_agree [OF ag, of "current_task s + 52"] by (simp add: task_process_def)
  moreover have "keyboard_head ?m' p = keyboard_head ?m p" "?m' ?a = c" using r by (simp_all add: kb_writes)
  ultimately show "fst (keyboard_pop (keyboard_push c s)) = c"
    unfolding e using r h(3) by (simp add: keyboard_pop_def Let_def kb_index)
qed (auto simp: keyboard_push_def keyboard_pop_def Let_def)

text \<open>\<^verbatim>\<open>keyboard_backspace\<close> takes the last character back. On an empty buffer it moves the tail in front of the
  head, and what is pushed next is not where the next pop looks: the pop finds nothing.\<close>

theorem keyboard_backspace_cases:
  assumes "kb_room p" "kb_queue m p q" "m' = keyboard_backspace p m"
  shows "(q \<noteq> [] \<longrightarrow> kb_queue m' p (butlast q)) \<and>
    (q = [] \<longrightarrow> keyboard_tail m' p = keyboard_head m' p - 1 \<and> (\<forall>i < 1024. m' (kb_at p i) = 0))"
proof -
  let ?h = "keyboard_head m p" and ?n = "length q"
  have q: "?n \<le> 1024" "0 \<notin> set q" "keyboard_tail m p = ?h + word_of_nat ?n"
    "\<forall>i < 1024. m (kb_at p (unat ?h + i)) = (if i < ?n then q ! i else 0)" using assms(2) by (simp_all add: kb_queue_def)
  let ?m1 = "write32 m (p + 5252) (keyboard_tail m p - 1)"
  define a where "a = p + 4228 + (keyboard_tail m p - 1) mod 1024"
  have m': "m' = ?m1(a := 0)"
    using assms(1,3) by (simp add: keyboard_backspace_def keyboard_get_tail_index_def Let_def kb_writes a_def)
  have ak: "a = kb_at p (unat (keyboard_tail m p - 1))" unfolding a_def kb_index ..
  have c: "keyboard_tail m' p = keyboard_tail m p - 1" "keyboard_head m' p = ?h"
    unfolding m' ak by (simp_all add: kb_writes [OF assms(1)])
  show ?thesis
  proof (cases "q = []")
    case True
    have "m (kb_at p i) = 0" if "i < 1024" for i
    proof -
      obtain j where j: "j < 1024" "(unat ?h + j) mod 1024 = i mod 1024"
      proof (rule that [of "(i + (1024 - unat ?h mod 1024)) mod 1024"])
        have "(unat ?h + (i + (1024 - unat ?h mod 1024)) mod 1024) mod 1024 = (unat ?h + (i + (1024 - unat ?h mod 1024))) mod 1024"
          by (rule mod_add_right_eq)
        also have "\<dots> = (unat ?h mod 1024 + (i + (1024 - unat ?h mod 1024))) mod 1024"
          by (rule mod_add_left_eq [symmetric])
        finally have "(unat ?h + (i + (1024 - unat ?h mod 1024)) mod 1024) mod 1024
            = (unat ?h mod 1024 + (i + (1024 - unat ?h mod 1024))) mod 1024" .
        moreover have "unat ?h mod 1024 + (i + (1024 - unat ?h mod 1024)) = i + 1024"
          using mod_less_divisor [of 1024 "unat ?h"] by linarith
        ultimately show "(unat ?h + (i + (1024 - unat ?h mod 1024)) mod 1024) mod 1024 = i mod 1024" by simp
      qed simp
      have "kb_at p (unat ?h + j) = kb_at p i" using kb_at_eq [OF assms(1)] j(2) by simp
      then show ?thesis using q(4) j(1) True by (metis length_0_conv not_less_zero)
    qed
    then have "m' (kb_at p i) = 0" if "i < 1024" for i using that unfolding m' by (simp add: kb_writes [OF assms(1)])
    then show ?thesis using True c q(3) by simp
  next
    case False
    then obtain n where n: "?n = Suc n" by (cases q) auto
    then have t: "keyboard_tail m p - 1 = ?h + word_of_nat n" using q(3) by simp
    have a: "a = kb_at p (unat ?h + n)" unfolding ak t kb_at_tail ..
    have nb: "n < 1024" using q(1) n by simp
    have "m' (kb_at p (unat ?h + i)) = (if i < n then butlast q ! i else 0)" if i: "i < 1024" for i
    proof (cases "i = n")
      case True
      then show ?thesis unfolding m' a by simp
    next
      case f: False
      then have "kb_at p (unat ?h + i) \<noteq> a" unfolding a kb_at_eq [OF assms(1)] using kb_cong [OF i nb] by simp
      then have "m' (kb_at p (unat ?h + i)) = m (kb_at p (unat ?h + i))" unfolding m' by (simp add: kb_writes [OF assms(1)])
      then show ?thesis using q(4) i f n by (auto simp: nth_butlast)
    qed
    moreover have "0 \<notin> set (butlast q)" using q(2) in_set_butlastD by metis
    ultimately have "kb_queue m' p (butlast q)" using q(1) c t n by (simp add: kb_queue_def)
    then show ?thesis using False by simp
  qed
qed

section \<open>Witnesses\<close>

definition demo_keyboard :: "mem \<Rightarrow> procstate" where
  "demo_keyboard m = (demo_procstate (m(0x1036 := 1)))\<lparr>current_process := 0x10000\<rparr>"

lemma demo_keyboard_simps [simp]:
  "kmem (demo_keyboard m) = m(0x1036 := 1)" "current_process (demo_keyboard m) = 0x10000" "current_task (demo_keyboard m) = 0x1000"
  by (simp_all add: demo_keyboard_def demo_procstate_def taskstate.defs demo_queue_ok)

lemma demo_keyboard_holds:
  assumes "\<forall>x \<in> span 0x1034 4. m x = 0" "kb_queue m 0x10000 q"
  shows "keyboard_holds 0x10000 (demo_keyboard m) q"
proof -
  have r: "kb_room 0x10000" by (simp add: kb_room_def)
  have a: "agree_off {0x1036} m (m(0x1036 := 1))" by (simp add: agree_off_def)
  have n: "(0x1036 :: u32) \<notin> span (0x10000 + 4228) 1032" by (simp add: span_iff)
  have "kb_at 0x10000 k \<noteq> 0x1036" for k using kb_room_span [OF r, of k] n by auto
  moreover have "keyboard_tail (m(0x1036 := 1)) 0x10000 = keyboard_tail m 0x10000"
    "keyboard_head (m(0x1036 := 1)) 0x10000 = keyboard_head m 0x10000"
    using n kb_room_span [OF r] unfolding keyboard_tail_def keyboard_head_def by (auto intro!: read32_upd)
  ultimately have "kb_queue (m(0x1036 := 1)) 0x10000 q" using assms(2) by (simp add: kb_queue_def)
  moreover have "task_process (m(0x1036 := 1)) 0x1000 = 0x10000"
    using assms(1) by (simp add: task_process_def read32_def span4_cases)
  moreover have "span (0x1034 :: u32) 4 \<inter> span 0x11084 1032 = {}" by (rule span_disjoint) simp_all
  ultimately show ?thesis using r by (simp add: keyboard_holds_def)
qed

lemma kb_queue_blank: "kb_queue (\<lambda>_. 0) p []"
  by (simp add: kb_queue_def keyboard_tail_def keyboard_head_def read32_def)

theorem keyboard_fifo_witness:
  "fst (kb.run [Some 0x61, Some 0x62, None, None, None] (demo_keyboard (\<lambda>_. 0))) = [0x61, 0x62, 0]"
proof -
  have "keyboard_holds 0x10000 (demo_keyboard (\<lambda>_. 0)) []" by (rule demo_keyboard_holds) (simp_all add: kb_queue_blank)
  moreover have "queue_run 1024 0 [Some 0x61, Some 0x62, None, None, None] [] = Some ([0x61, 0x62, 0 :: u8], [])" by simp
  ultimately show ?thesis using keyboard_fifo by blast
qed

definition full_ring :: mem where
  "full_ring = (\<lambda>x. if x \<in> span 0x11084 1024 then 1 else 0)(0x11485 := 4)"

lemma full_ring_queue: "kb_queue full_ring 0x10000 (replicate 1024 1)"
proof -
  have r: "kb_room 0x10000" by (simp add: kb_room_def)
  have z: "x \<notin> span 0x11084 1024" if "unat x < 0x11084 \<or> 0x11484 \<le> unat x" for x :: u32 using that by (auto simp: span_iff)
  have "keyboard_tail full_ring 0x10000 = 1024" "keyboard_head full_ring 0x10000 = 0"
    by (simp_all add: keyboard_tail_def keyboard_head_def read32_def full_ring_def z)
  moreover have "full_ring (kb_at 0x10000 i) = 1" for i
  proof -
    have i: "i mod 1024 < 1024" by simp
    have "kb_at 0x10000 i \<in> span 0x11084 1024" "kb_at 0x10000 i \<noteq> 0x11485"
      using unat_kb_at [OF r, of i] i by (auto simp: span_iff simp del: mod_less_divisor)
    then show ?thesis by (simp add: full_ring_def)
  qed
  ultimately show ?thesis by (simp add: kb_queue_def)
qed

theorem keyboard_overrun_witness:
  "fst (keyboard_pop (keyboard_push 0x7a (demo_keyboard full_ring))) = 0x7a"
proof -
  have "keyboard_holds 0x10000 (demo_keyboard full_ring) (replicate 1024 1)"
    by (rule demo_keyboard_holds [OF _ full_ring_queue]) (auto simp: span4_cases full_ring_def span_iff)
  then show ?thesis using keyboard_overrun [of "0x10000" "demo_keyboard full_ring" "replicate 1024 1" "0x7a"] by simp
qed

theorem keyboard_backspace_cases_witness:
  "keyboard_tail (keyboard_backspace 0x10000 (\<lambda>_. 0)) 0x10000 = - 1"
proof -
  have "kb_room 0x10000" by (simp add: kb_room_def)
  from keyboard_backspace_cases [OF this kb_queue_blank refl]
  have "keyboard_tail (keyboard_backspace 0x10000 (\<lambda>_. 0)) 0x10000 = keyboard_head (keyboard_backspace 0x10000 (\<lambda>_. 0)) 0x10000 - 1"
    by simp
  moreover have "keyboard_head (keyboard_backspace 0x10000 (\<lambda>_. 0)) 0x10000 = 0"
    by (simp add: keyboard_backspace_def keyboard_head_def keyboard_tail_def keyboard_get_tail_index_def read32_def write32_def)
  ultimately show ?thesis by simp
qed

section \<open>What the operations write\<close>

lemma keyboard_push_shape:
  assumes "kb_room (current_process s)"
  shows "\<exists>m. keyboard_push c s = put_kmem m s \<and> agree_off (span (current_process s + 4228) 1032) (kmem s) m"
proof (cases "current_process s = 0 \<or> c = 0")
  case True
  then show ?thesis by (intro exI [of _ "kmem s"]) (auto simp: keyboard_push_def put_kmem_def Let_def)
next
  case False
  let ?p = "current_process s" let ?a = "?p + 4228 + keyboard_get_tail_index (kmem s) ?p"
  let ?m = "write32 ((kmem s)(?a := c)) (?p + 5252) (keyboard_tail ((kmem s)(?a := c)) ?p + 1)"
  note r = kb_room_span [OF assms]
  have "?a \<in> span (?p + 4228) 1032" using r unfolding keyboard_get_tail_index_def kb_index by blast
  then have "agree_off (span (?p + 4228) 1032) (kmem s) ((kmem s)(?a := c))" by (simp add: agree_off_def)
  then have "agree_off (span (?p + 4228) 1032) (kmem s) ?m"
    by (rule agree_off_trans_same [OF _ agree_off_mono [OF write32_agree]]) (use r in blast)
  then show ?thesis using False by (intro exI [of _ ?m]) (simp add: keyboard_push_def Let_def)
qed

lemma keyboard_pop_shape:
  assumes "kb_room p" "p = task_process (kmem s) (current_task s)"
  shows "\<exists>c m. keyboard_pop s = (c, put_kmem m s) \<and> agree_off (span (p + 4228) 1032) (kmem s) m"
proof -
  let ?a = "p + 4228 + keyboard_head (kmem s) p mod 1024"
  let ?m = "write32 ((kmem s)(?a := 0)) (p + 5256) (keyboard_head ((kmem s)(?a := 0)) p + 1)"
  note r = kb_room_span [OF assms(1)]
  have "?a \<in> span (p + 4228) 1032" using r unfolding kb_index by blast
  then have "agree_off (span (p + 4228) 1032) (kmem s) ((kmem s)(?a := 0))" by (simp add: agree_off_def)
  then have a: "agree_off (span (p + 4228) 1032) (kmem s) ?m"
    by (rule agree_off_trans_same [OF _ agree_off_mono [OF write32_agree]]) (use r in blast)
  have "s = put_kmem (kmem s) s" by (simp add: put_kmem_def)
  then have "\<exists>c m. keyboard_pop s = (c, put_kmem m s) \<and> (m = kmem s \<or> m = ?m)"
    using assms(2) unfolding keyboard_pop_def Let_def by (simp split: if_split) metis
  then show ?thesis using a agree_off_refl by blast
qed

end
