(* ===== verification/Interrupts.thy ===== *)
theory Interrupts
  imports Keyboard
begin

text \<open>
  \<^verbatim>\<open>src/idt/idt.c\<close>, \<^verbatim>\<open>src/keyboard/classic.c\<close>, the driver list of \<^verbatim>\<open>src/keyboard/keyboard.c\<close> and the system calls
  of \<^verbatim>\<open>src/isr80h\<close>. The interrupt descriptors are bytes of memory. The tables of callbacks and of commands hold
  function pointers: each is a list with a constructor per function, \<open>None\<close> for a null pointer. Addresses that
  the linker fixes (of the entry points of \<^verbatim>\<open>idt.asm\<close>, of the static keyboard structure, of the local buffer of
  the print command) are fields of the state that no operation changes.
\<close>

abbreviation (input) PEACHOS_TOTAL_INTERRUPTS :: nat where "PEACHOS_TOTAL_INTERRUPTS \<equiv> 512"
abbreviation (input) PEACHOS_MAX_ISR80H_COMMANDS :: nat where "PEACHOS_MAX_ISR80H_COMMANDS \<equiv> 1024"
abbreviation (input) KERNEL_CODE_SELECTOR :: u16 where "KERNEL_CODE_SELECTOR \<equiv> 0x08"
abbreviation (input) ISR_KEYBOARD_INTERRUPT :: nat where "ISR_KEYBOARD_INTERRUPT \<equiv> 0x21"
abbreviation (input) KEYBOARD_INPUT_PORT :: u16 where "KEYBOARD_INPUT_PORT \<equiv> 0x60"
abbreviation (input) CLASSIC_KEYBOARD_KEY_RELEASED :: u8 where "CLASSIC_KEYBOARD_KEY_RELEASED \<equiv> 0x80"

datatype interrupt_callback = Classic_Keyboard_Handle_Interrupt

datatype isr80h_command = Command0_Sum | Command1_Print | Command2_Getkey | Command3_Putchar | Command4_Malloc | Command5_Free

record idtstate = procstate +
  interrupt_callbacks :: "interrupt_callback option list"
  isr80h_commands :: "isr80h_command option list"
  idt_descriptors_at :: u32
  idtr_descriptor :: "u16 \<times> u32"
  idtr :: "u16 \<times> u32"
  interrupt_pointer_table :: "nat \<Rightarrow> u32"
  idt_zero_at :: u32
  isr80h_wrapper_at :: u32
  keyboard_list_head :: u32
  keyboard_list_last :: u32
  classic_keyboard_at :: u32
  classic_keyboard_init_at :: u32
  scan_set_one_next :: u8
  print_buf_at :: u32

section \<open>The interrupt descriptor table\<close>

text \<open>\<^verbatim>\<open>struct idt_desc\<close> is 8 bytes: low half of the offset, selector, zero, type, high half of the offset.\<close>

definition idt_set :: "u32 \<Rightarrow> nat \<Rightarrow> u32 \<Rightarrow> mem \<Rightarrow> mem" where
  "idt_set table interrupt_no address m =
     (let desc = table + 8 * word_of_nat interrupt_no;
          m1 = write16 m desc (ucast (address AND 0xffff));
          m2 = write16 m1 (desc + 2) KERNEL_CODE_SELECTOR;
          m3 = m2(desc + 4 := 0);
          m4 = m3(desc + 5 := 0xEE)
      in write16 m4 (desc + 6) (ucast (drop_bit 16 address)))"

fun idt_set_all :: "u32 \<Rightarrow> (nat \<Rightarrow> u32) \<Rightarrow> nat \<Rightarrow> nat \<Rightarrow> mem \<Rightarrow> mem" where
  "idt_set_all table entries i 0 m = m"
| "idt_set_all table entries i (Suc n) m = idt_set_all table entries (Suc i) n (idt_set table i (entries i) m)"

definition idt_load :: "u16 \<times> u32 \<Rightarrow> 'z idtstate_scheme \<Rightarrow> 'z idtstate_scheme" where
  "idt_load desc s = s\<lparr>idtr := desc\<rparr>"

definition idt_init :: "'z idtstate_scheme \<Rightarrow> 'z idtstate_scheme" where
  "idt_init s =
     (let a = idt_descriptors_at s;
          m0 = memset (kmem s) a 0 4096;
          s1 = (put_kmem m0 s)\<lparr>idtr_descriptor := (4095, a)\<rparr>;
          m1 = idt_set_all a (interrupt_pointer_table s1) 0 PEACHOS_TOTAL_INTERRUPTS (kmem s1);
          m2 = idt_set a 0 (idt_zero_at s1) m1;
          m3 = idt_set a 0x80 (isr80h_wrapper_at s1) m2
      in idt_load (idtr_descriptor s1) (put_kmem m3 s1))"

definition idt_zero :: "'z console_scheme \<Rightarrow> 'z console_scheme" where
  "idt_zero s = print_lit (lit (''Divide by zero error'' @ [CHR 0x0A])) s"

definition no_interrupt_handler :: "'z dstate_scheme \<Rightarrow> 'z dstate_scheme" where
  "no_interrupt_handler s = outb 0x20 0x20 s"

definition idt_register_interrupt_callback :: "int \<Rightarrow> interrupt_callback \<Rightarrow> 'z idtstate_scheme \<Rightarrow> int \<times> 'z idtstate_scheme" where
  "idt_register_interrupt_callback interrupt cb s =
     (if interrupt < 0 \<or> interrupt \<ge> int PEACHOS_TOTAL_INTERRUPTS then (- EINVARG, s)
      else (0, s\<lparr>interrupt_callbacks := (interrupt_callbacks s)[nat interrupt := Some cb]\<rparr>))"

section \<open>The keyboard driver\<close>

definition keyboard_scan_set_one :: "u8 list" where
  "keyboard_scan_set_one =
    [0x00, 0x1B, 0x31, 0x32, 0x33, 0x34, 0x35,
     0x36, 0x37, 0x38, 0x39, 0x30, 0x2D, 0x3D,
     0x08, 0x09, 0x51, 0x57, 0x45, 0x52, 0x54,
     0x59, 0x55, 0x49, 0x4F, 0x50, 0x5B, 0x5D,
     0x0D, 0x00, 0x41, 0x53, 0x44, 0x46, 0x47,
     0x48, 0x4A, 0x4B, 0x4C, 0x3B, 0x27, 0x60,
     0x00, 0x5C, 0x5A, 0x58, 0x43, 0x56, 0x42,
     0x4E, 0x4D, 0x2C, 0x2E, 0x2F, 0x00, 0x2A,
     0x00, 0x20, 0x00, 0x00, 0x00, 0x00,
     0x00, 0x00, 0x00, 0x00, 0x00, 0x00,
     0x00, 0x37, 0x38, 0x39, 0x2D, 0x34, 0x35,
     0x36, 0x2B, 0x31, 0x32, 0x33, 0x30, 0x2E]"

text \<open>The test lets the length itself pass: then the byte behind the table is read.\<close>

definition classic_keyboard_scancode_to_char :: "u8 \<Rightarrow> u8 \<Rightarrow> u8" where
  "classic_keyboard_scancode_to_char behind scancode =
     (if unat scancode > length keyboard_scan_set_one then 0
      else if unat scancode = length keyboard_scan_set_one then behind
      else keyboard_scan_set_one ! unat scancode)"

definition classic_keyboard_handle_interrupt :: "device \<Rightarrow> 'z idtstate_scheme \<Rightarrow> 'z idtstate_scheme" where
  "classic_keyboard_handle_interrupt dev s =
     (let s1 = kernel_page s;
          (scancode, s2) = insb dev KEYBOARD_INPUT_PORT s1;
          (_, s3) = insb dev KEYBOARD_INPUT_PORT s2
      in if scancode AND CLASSIC_KEYBOARD_KEY_RELEASED \<noteq> 0 then s3
         else let c = classic_keyboard_scancode_to_char (scan_set_one_next s3) scancode;
                  s4 = (if c \<noteq> 0 then keyboard_push c s3 else s3)
              in snd (task_page s4))"

definition classic_keyboard_init :: "'z idtstate_scheme \<Rightarrow> int \<times> 'z idtstate_scheme" where
  "classic_keyboard_init s =
     (let (_, s1) = idt_register_interrupt_callback (int ISR_KEYBOARD_INTERRUPT) Classic_Keyboard_Handle_Interrupt s
      in (0, outb 0x64 0xAE s1))"

definition classic_init :: "'z idtstate_scheme \<Rightarrow> u32" where
  "classic_init s = classic_keyboard_at s"

text \<open>\<^verbatim>\<open>struct keyboard\<close>: the function \<open>init\<close>, the name and, 24 bytes in, the next keyboard. A call through any
  pointer but that of \<open>classic_keyboard_init\<close> does not return.\<close>

definition call_keyboard_init :: "u32 \<Rightarrow> 'z idtstate_scheme \<Rightarrow> (int \<times> 'z idtstate_scheme) option" where
  "call_keyboard_init f s = (if f = classic_keyboard_init_at s then Some (classic_keyboard_init s) else None)"

definition keyboard_insert :: "u32 \<Rightarrow> 'z idtstate_scheme \<Rightarrow> (int \<times> 'z idtstate_scheme) option" where
  "keyboard_insert keyboard s =
     (if read32 (kmem s) keyboard = 0 then Some (EINVARG, s)
      else let s1 = (if keyboard_list_last s \<noteq> 0
                     then (put_kmem (write32 (kmem s) (keyboard_list_last s + 24) keyboard) s)\<lparr>keyboard_list_last := keyboard\<rparr>
                     else s\<lparr>keyboard_list_head := keyboard, keyboard_list_last := keyboard\<rparr>)
           in call_keyboard_init (read32 (kmem s1) keyboard) s1)"

definition keyboard_init :: "'z idtstate_scheme \<Rightarrow> 'z idtstate_scheme option" where
  "keyboard_init s = do { (_, s1) \<leftarrow> keyboard_insert (classic_init s) s; Some s1 }"

text \<open>The call through the table of callbacks.\<close>

fun call_interrupt_callback :: "device \<Rightarrow> interrupt_callback \<Rightarrow> 'z idtstate_scheme \<Rightarrow> 'z idtstate_scheme" where
  "call_interrupt_callback dev Classic_Keyboard_Handle_Interrupt s = classic_keyboard_handle_interrupt dev s"

text \<open>The interrupt number is one of the 512 that the entry points push. \<open>None\<close>: there is no task, the kernel
  panics.\<close>

definition interrupt_handler :: "device \<Rightarrow> nat \<Rightarrow> u32 \<Rightarrow> 'z idtstate_scheme \<Rightarrow> 'z idtstate_scheme option" where
  "interrupt_handler dev interrupt frame s = do {
     let s1 = kernel_page s;
     s2 \<leftarrow> (case interrupt_callbacks s1 ! interrupt of
        None \<Rightarrow> Some s1
      | Some cb \<Rightarrow> do { s2 \<leftarrow> task_current_save_state frame s1; Some (call_interrupt_callback dev cb s2) });
     Some (outb 0x20 0x20 (snd (task_page s2)))
   }"

section \<open>System calls\<close>

definition isr80h_command0_sum :: "'z idtstate_scheme \<Rightarrow> (u32 \<times> 'z idtstate_scheme) option" where
  "isr80h_command0_sum s = do {
     (v2, s1) \<leftarrow> task_get_stack_item (current_task s) 1 s;
     (v1, s2) \<leftarrow> task_get_stack_item (current_task s1) 0 s1;
     Some (v1 + v2, s2)
   }"

definition isr80h_command1_print :: "'z idtstate_scheme \<Rightarrow> (u32 \<times> 'z idtstate_scheme) option" where
  "isr80h_command1_print s = do {
     (user_space_msg_buffer, s1) \<leftarrow> task_get_stack_item (current_task s) 0 s;
     (_, s2) \<leftarrow> copy_string_from_task (current_task s1) user_space_msg_buffer (print_buf_at s1) 1024 s1;
     s3 \<leftarrow> print (print_buf_at s2) s2;
     Some (0, s3)
   }"

definition isr80h_command2_getkey :: "'z idtstate_scheme \<Rightarrow> (u32 \<times> 'z idtstate_scheme) option" where
  "isr80h_command2_getkey s = (let (c, s1) = keyboard_pop s in Some (scast c, s1))"

definition isr80h_command3_putchar :: "'z idtstate_scheme \<Rightarrow> (u32 \<times> 'z idtstate_scheme) option" where
  "isr80h_command3_putchar s = do {
     (c, s1) \<leftarrow> task_get_stack_item (current_task s) 0 s;
     Some (0, terminal_writechar (ucast c) 15 s1)
   }"

definition isr80h_command4_malloc :: "'z idtstate_scheme \<Rightarrow> (u32 \<times> 'z idtstate_scheme) option" where
  "isr80h_command4_malloc s = do {
     (sz, s1) \<leftarrow> task_get_stack_item (current_task s) 0 s;
     Some (process_malloc (task_process (kmem s1) (current_task s1)) sz s1)
   }"

definition isr80h_command5_free :: "'z idtstate_scheme \<Rightarrow> (u32 \<times> 'z idtstate_scheme) option" where
  "isr80h_command5_free s = do {
     (ptr_to_free, s1) \<leftarrow> task_get_stack_item (current_task s) 0 s;
     Some (0, process_free (task_process (kmem s1) (current_task s1)) ptr_to_free s1)
   }"

text \<open>The commands are passed the frame, which none of them uses.\<close>

fun call_isr80h_command :: "isr80h_command \<Rightarrow> 'z idtstate_scheme \<Rightarrow> (u32 \<times> 'z idtstate_scheme) option" where
  "call_isr80h_command Command0_Sum s = isr80h_command0_sum s"
| "call_isr80h_command Command1_Print s = isr80h_command1_print s"
| "call_isr80h_command Command2_Getkey s = isr80h_command2_getkey s"
| "call_isr80h_command Command3_Putchar s = isr80h_command3_putchar s"
| "call_isr80h_command Command4_Malloc s = isr80h_command4_malloc s"
| "call_isr80h_command Command5_Free s = isr80h_command5_free s"

text \<open>\<open>None\<close>: the command is out of bounds or registered already, the kernel panics.\<close>

definition isr80h_register_command :: "int \<Rightarrow> isr80h_command \<Rightarrow> 'z idtstate_scheme \<Rightarrow> 'z idtstate_scheme option" where
  "isr80h_register_command command_id command s =
     (if command_id < 0 \<or> command_id \<ge> int PEACHOS_MAX_ISR80H_COMMANDS then None
      else if isr80h_commands s ! nat command_id \<noteq> None then None
      else Some (s\<lparr>isr80h_commands := (isr80h_commands s)[nat command_id := Some command]\<rparr>))"

definition isr80h_register_commands :: "'z idtstate_scheme \<Rightarrow> 'z idtstate_scheme option" where
  "isr80h_register_commands s = do {
     s \<leftarrow> isr80h_register_command 0 Command0_Sum s;
     s \<leftarrow> isr80h_register_command 1 Command1_Print s;
     s \<leftarrow> isr80h_register_command 2 Command2_Getkey s;
     s \<leftarrow> isr80h_register_command 3 Command3_Putchar s;
     s \<leftarrow> isr80h_register_command 4 Command4_Malloc s;
     isr80h_register_command 5 Command5_Free s
   }"

definition isr80h_handle_command :: "int \<Rightarrow> 'z idtstate_scheme \<Rightarrow> (u32 \<times> 'z idtstate_scheme) option" where
  "isr80h_handle_command command s =
     (if command < 0 \<or> command \<ge> int PEACHOS_MAX_ISR80H_COMMANDS then Some (0, s)
      else case isr80h_commands s ! nat command of None \<Rightarrow> Some (0, s) | Some f \<Rightarrow> call_isr80h_command f s)"

definition isr80h_handler :: "int \<Rightarrow> u32 \<Rightarrow> 'z idtstate_scheme \<Rightarrow> (u32 \<times> 'z idtstate_scheme) option" where
  "isr80h_handler command frame s = do {
     s1 \<leftarrow> task_current_save_state frame (kernel_page s);
     (res, s2) \<leftarrow> isr80h_handle_command command s1;
     Some (res, snd (task_page s2))
   }"

section \<open>Gates\<close>

definition gate :: "mem \<Rightarrow> u32 \<Rightarrow> nat \<Rightarrow> u32 \<times> u16 \<times> u8 \<times> u8" where
  "gate m table i = (let d = table + 8 * word_of_nat i in
     (ucast (read16 m d) OR push_bit 16 (ucast (read16 m (d + 6))), read16 m (d + 2), m (d + 4), m (d + 5)))"

lemma halves_of_u32:
  "ucast (ucast (x AND 0xffff) :: u16) OR push_bit 16 (ucast (ucast (drop_bit 16 x) :: u16)) = (x :: u32)" (is "?w = x")
proof (rule bit_word_eqI)
  fix n :: nat
  assume "n < LENGTH(32)"
  have m: "(0xffff :: u32) = mask 16" by (simp add: mask_eq_exp_minus_1)
  consider "n < 16" | "16 \<le> n" by arith
  then show "bit ?w n = bit x n"
    using \<open>n < LENGTH(32)\<close> unfolding m by cases (auto simp: bit_simps)
qed

lemma idt_set_same: "gate (idt_set table i address m) table i = (address, KERNEL_CODE_SELECTOR, 0, 0xEE)"
proof -
  define d where "d = table + 8 * word_of_nat i"
  let ?m' = "idt_set table i address m"
  have e: "read16 ?m' d = ucast (address AND 0xffff)" "read16 ?m' (d + 2) = KERNEL_CODE_SELECTOR" "?m' (d + 4) = 0" "?m' (d + 5) = 0xEE"
    "read16 ?m' (d + 6) = ucast (drop_bit 16 address)"
    unfolding idt_set_def d_def [symmetric] Let_def
    by (simp_all add: mem_simps read16_write16_sep span2_cases disjoint_iff)
       (simp_all add: read16_def write16_def add.assoc bytes_of_u16)
  show ?thesis unfolding gate_def d_def [symmetric] Let_def e halves_of_u32 ..
qed

lemma unat_gate:
  assumes "unat table + 4096 \<le> 4294967296" "i < 512"
  shows "unat (table + 8 * word_of_nat i :: u32) = unat table + 8 * i"
proof -
  have "unat (8 * word_of_nat i :: u32) = 8 * i" using assms by (simp add: unat_word_ariths unat_of_nat)
  then show ?thesis using assms by (simp add: unat_word_ariths)
qed

lemma gate_spans:
  assumes "unat table + 4096 \<le> 4294967296" "i < 512"
  shows "span (table + 8 * word_of_nat i) 8 \<subseteq> span table 4096"
    "j < 512 \<Longrightarrow> j \<noteq> i \<Longrightarrow> span (table + 8 * word_of_nat j) 8 \<inter> span (table + 8 * word_of_nat i) 8 = {}"
proof -
  show "span (table + 8 * word_of_nat i) 8 \<subseteq> span table 4096"
    by (rule span_subset) (use assms unat_gate [OF assms] in simp_all)
  assume j: "j < 512" "j \<noteq> i"
  note u = unat_gate [OF assms] unat_gate [OF assms(1) j(1)]
  show "span (table + 8 * word_of_nat j) 8 \<inter> span (table + 8 * word_of_nat i) 8 = {}"
  proof (cases "j < i")
    case True
    then show ?thesis by (intro span_disjoint) (use u assms in simp_all)
  next
    case False
    then show ?thesis using j by (intro span_disjoint_sym) (use u assms in simp_all)
  qed
qed

lemma gate_fields: "span (d + 2 :: u32) 2 \<subseteq> span d 8" "span (d + 6 :: u32) 2 \<subseteq> span d 8" "span d 2 \<subseteq> span d 8"
    "d + 4 \<in> span d 8" "d + 5 \<in> span d 8"
proof -
  show "span (d + 2 :: u32) 2 \<subseteq> span d 8" "span (d + 6 :: u32) 2 \<subseteq> span d 8"
    using word_offset_in [of 2 2 2 8 d] word_offset_in [of 6 6 2 8 d] by simp_all
  show "span d 2 \<subseteq> span d 8" by (rule span_mono) simp
  show "d + 4 \<in> span d 8" "d + 5 \<in> span d 8" by (simp_all add: span_def)
qed

lemma idt_set_agree:
  "agree_off (span (table + 8 * word_of_nat i) 8) m (idt_set table i address m)"
proof -
  define d where "d = table + 8 * word_of_nat i"
  note f = gate_fields [of d]
  have w: "agree_off (span d 8) m m' \<Longrightarrow> span x 2 \<subseteq> span d 8 \<Longrightarrow> agree_off (span d 8) m (write16 m' x v)" for m' x v
    by (rule agree_off_trans_same [OF _ agree_off_mono [OF write16_agree]])
  have b: "agree_off (span d 8) m m' \<Longrightarrow> x \<in> span d 8 \<Longrightarrow> agree_off (span d 8) m (m'(x := v))" for m' x v
    by (auto simp: agree_off_def)
  show ?thesis unfolding idt_set_def d_def [symmetric] Let_def by (intro w b agree_off_refl f)
qed

lemma gate_agree:
  assumes "agree_off S m m'" "span (table + 8 * word_of_nat i) 8 \<inter> S = {}"
  shows "gate m' table i = gate m table i"
proof -
  define d where "d = table + 8 * word_of_nat i"
  note f = gate_fields [of d]
  have s: "span d 8 \<inter> S = {}" using assms(2) by (simp add: d_def)
  have "read16 m' d = read16 m d" "read16 m' (d + 2) = read16 m (d + 2)" "read16 m' (d + 6) = read16 m (d + 6)"
    using f s by (blast intro: read16_agree [OF assms(1)])+
  moreover have "m' (d + 4) = m (d + 4)" "m' (d + 5) = m (d + 5)"
    using f s by (blast intro: agree_offD [OF assms(1)])+
  ultimately show ?thesis unfolding gate_def d_def [symmetric] by (simp add: Let_def)
qed

lemma gate_idt_set:
  assumes "unat table + 4096 \<le> 4294967296" "i < 512" "j < 512"
  shows "gate (idt_set table i address m) table j = (if j = i then (address, KERNEL_CODE_SELECTOR, 0, 0xEE) else gate m table j)"
  using gate_agree [OF idt_set_agree gate_spans(2) [OF assms]] idt_set_same by simp

lemma idt_set_in: "unat table + 4096 \<le> 4294967296 \<Longrightarrow> i < 512 \<Longrightarrow> agree_off (span table 4096) m (idt_set table i address m)"
  using agree_off_mono [OF idt_set_agree gate_spans(1)] .

lemma idt_set_all_spec:
  assumes "unat table + 4096 \<le> 4294967296"
  shows "i + n \<le> 512 \<Longrightarrow>
    (\<forall>j < 512. gate (idt_set_all table entries i n m) table j =
       (if i \<le> j \<and> j < i + n then (entries j, KERNEL_CODE_SELECTOR, 0, 0xEE) else gate m table j)) \<and>
    agree_off (span table 4096) m (idt_set_all table entries i n m)"
proof (induction n arbitrary: i m)
  case (Suc n)
  let ?m = "idt_set table i (entries i) m"
  have i: "i < 512" "Suc i + n \<le> 512" using Suc.prems by simp_all
  note IH = Suc.IH [OF i(2), of ?m]
  have "agree_off (span table 4096) m (idt_set_all table entries (Suc i) n ?m)"
    using agree_off_trans_same [OF idt_set_in [OF assms i(1)]] IH by blast
  moreover have "gate (idt_set_all table entries (Suc i) n ?m) table j =
       (if i \<le> j \<and> j < i + Suc n then (entries j, KERNEL_CODE_SELECTOR, 0, 0xEE) else gate m table j)" if j: "j < 512" for j
    using IH j gate_idt_set [OF assms i(1) j] by auto
  ultimately show ?case by simp
qed auto

text \<open>C23: After \<^verbatim>\<open>idt_init\<close> each of the 512 gates holds its entry point, gate 0
  \<^verbatim>\<open>idt_zero\<close> and gate 0x80 \<^verbatim>\<open>isr80h_wrapper\<close>, in the kernel's code
  segment, as a present 32-bit interrupt gate that user programs may call (type 0xEE); IDTR describes the table, and
  nothing outside the table is written.\<close>

theorem idt_init_gates:
  assumes "a = idt_descriptors_at s" "unat a + 4096 \<le> 4294967296" "s' = idt_init s"
  shows "(\<forall>i < 512. gate (kmem s') a i =
      (if i = 0 then idt_zero_at s else if i = 0x80 then isr80h_wrapper_at s else interrupt_pointer_table s i,
       KERNEL_CODE_SELECTOR, 0, 0xEE)) \<and>
    idtr s' = (4095, a) \<and> agree_off (span a 4096) (kmem s) (kmem s')"
proof -
  let ?m0 = "memset (kmem s) a 0 4096"
  let ?m1 = "idt_set_all a (interrupt_pointer_table s) 0 512 ?m0"
  let ?m3 = "idt_set a 0x80 (isr80h_wrapper_at s) (idt_set a 0 (idt_zero_at s) ?m1)"
  have e: "kmem s' = ?m3" "idtr s' = (4095, a)"
    unfolding assms(3) idt_init_def idt_load_def Let_def by (simp_all add: put_kmem_def assms(1))
  note s = idt_set_all_spec [OF assms(2), of 0 512 "interrupt_pointer_table s" ?m0]
  have "agree_off (span a 4096) (kmem s) ?m0" using memset_agree [of a 4096 "kmem s" 0] by simp
  then have "agree_off (span a 4096) (kmem s) ?m1" using agree_off_trans_same s by simp
  then have "agree_off (span a 4096) (kmem s) (idt_set a 0 (idt_zero_at s) ?m1)"
    by (rule agree_off_trans_same [OF _ idt_set_in [OF assms(2)]]) simp
  then have ag: "agree_off (span a 4096) (kmem s) ?m3"
    by (rule agree_off_trans_same [OF _ idt_set_in [OF assms(2)]]) simp
  have "gate ?m3 a i = (if i = 0 then idt_zero_at s else if i = 0x80 then isr80h_wrapper_at s else interrupt_pointer_table s i,
       KERNEL_CODE_SELECTOR, 0, 0xEE)" if i: "i < 512" for i
    using s i gate_idt_set [OF assms(2) _ i] by simp
  then show ?thesis using e ag by simp
qed

section \<open>Registration\<close>

text \<open>From tables without entries, \<^verbatim>\<open>isr80h_register_commands\<close> installs the six system calls under their
  numbers and nothing else, and doing so again panics; \<^verbatim>\<open>keyboard_init\<close> makes the classic keyboard the only
  one of the list, installs its callback at 0x21 and enables the first PS/2 port.\<close>

theorem boot_registers:
  assumes "isr80h_commands s = replicate 1024 None" "read32 (kmem s) (classic_keyboard_at s) = classic_keyboard_init_at s"
    "classic_keyboard_init_at s \<noteq> 0" "keyboard_list_last s = 0"
  shows "isr80h_register_commands s = Some (s\<lparr>isr80h_commands :=
        map Some [Command0_Sum, Command1_Print, Command2_Getkey, Command3_Putchar, Command4_Malloc, Command5_Free] @ replicate 1018 None\<rparr>) \<and>
    Option.bind (isr80h_register_commands s) isr80h_register_commands = None \<and>
    keyboard_init s = Some (s\<lparr>keyboard_list_head := classic_keyboard_at s, keyboard_list_last := classic_keyboard_at s,
        interrupt_callbacks := (interrupt_callbacks s)[0x21 := Some Classic_Keyboard_Handle_Interrupt],
        iolog := Outb 0x64 0xAE # iolog s\<rparr>)"
proof -
  have "replicate 6 (None :: isr80h_command option) = [None, None, None, None, None, None]" by (simp add: numeral_eq_Suc)
  then have r: "replicate 1024 None = [None, None, None, None, None, None] @ replicate 1018 (None :: isr80h_command option)"
    using replicate_add [of 6 1018 "None :: isr80h_command option"] by simp
  let ?s = "s\<lparr>isr80h_commands :=
        map Some [Command0_Sum, Command1_Print, Command2_Getkey, Command3_Putchar, Command4_Malloc, Command5_Free] @ replicate 1018 None\<rparr>"
  have c: "isr80h_register_commands s = Some ?s"
    unfolding isr80h_register_commands_def isr80h_register_command_def assms(1) r by simp
  moreover have "isr80h_register_commands ?s = None"
    by (simp add: isr80h_register_commands_def isr80h_register_command_def)
  moreover have "keyboard_init s = Some (s\<lparr>keyboard_list_head := classic_keyboard_at s, keyboard_list_last := classic_keyboard_at s,
        interrupt_callbacks := (interrupt_callbacks s)[0x21 := Some Classic_Keyboard_Handle_Interrupt],
        iolog := Outb 0x64 0xAE # iolog s\<rparr>)"
    using assms(2-4) by (simp add: keyboard_init_def keyboard_insert_def classic_init_def call_keyboard_init_def
      classic_keyboard_init_def idt_register_interrupt_callback_def outb_def)
  ultimately show ?thesis by simp
qed

section \<open>Switching address spaces\<close>

text \<open>The state with other segments and another address space; memory is the same.\<close>

definition switched :: "u16 \<Rightarrow> u32 \<Rightarrow> 'z taskstate_scheme \<Rightarrow> 'z taskstate_scheme" where
  "switched sel d s = s\<lparr>data_segments := sel, cr3 := d, current_directory := d\<rparr>"

lemma switched_simps [simp]:
  "kmem (switched sel d s) = kmem s" "current_task (switched sel d s) = current_task s" "cr3 (switched sel d s) = d"
  "kernel_chunk (switched sel d s) = kernel_chunk s" "data_segments (switched sel d s) = sel"
  "switched sel d (switched sel' d' s) = switched sel d s" "put_kmem m (switched sel d s) = switched sel d (put_kmem m s)"
  "iolog (switched sel d s) = iolog s"
  by (simp_all add: switched_def put_kmem_def)

lemma switched_more [simp]:
  "current_process (switched sel d s) = current_process s" "interrupt_callbacks (switched sel d t) = interrupt_callbacks t"
  "isr80h_commands (switched sel d t) = isr80h_commands t" "scan_set_one_next (switched sel d t) = scan_set_one_next t"
  by (simp_all add: switched_def)

lemma put_kmem_idt [simp]:
  "interrupt_callbacks (put_kmem m t) = interrupt_callbacks t" "isr80h_commands (put_kmem m t) = isr80h_commands t"
  "scan_set_one_next (put_kmem m t) = scan_set_one_next t" "iolog (put_kmem m r) = iolog r"
  by (simp_all add: put_kmem_def)

definition task_directory :: "mem \<Rightarrow> u32 \<Rightarrow> u32" where
  "task_directory m t = directory_entry m (task_page_directory m t)"

definition in_kernel :: "'z taskstate_scheme \<Rightarrow> 'z taskstate_scheme" where
  "in_kernel s = switched 0x10 (directory_entry (kmem s) (kernel_chunk s)) s"

definition in_task :: "'z taskstate_scheme \<Rightarrow> 'z taskstate_scheme" where
  "in_task s = switched 0x23 (task_directory (kmem s) (current_task s)) s"

lemma kernel_page_eq: "kernel_page s = in_kernel s"
  by (simp add: kernel_page_def kernel_registers_def paging_switch_def paging_load_directory_def in_kernel_def switched_def Let_def)

lemma task_page_eq: "snd (task_page s) = in_task s"
  by (simp add: task_page_def user_registers_def task_switch_def paging_switch_def paging_load_directory_def in_task_def
    switched_def task_directory_def Let_def)

lemma in_task_in_kernel [simp]: "in_task (in_kernel s) = in_task s" "in_kernel (in_kernel s) = in_kernel s"
  "in_task (switched sel d s) = in_task s"
  by (simp_all add: in_task_def in_kernel_def)

lemma in_kernel_simps [simp]:
  "kmem (in_kernel s) = kmem s" "current_task (in_kernel s) = current_task s" "put_kmem m (in_kernel s) = switched 0x10 (directory_entry (kmem s) (kernel_chunk s)) (put_kmem m s)"
  "current_process (in_kernel r) = current_process r" "iolog (in_kernel s) = iolog s"
  "interrupt_callbacks (in_kernel t) = interrupt_callbacks t"
  "isr80h_commands (in_kernel t) = isr80h_commands t" "scan_set_one_next (in_kernel t) = scan_set_one_next t"
  by (simp_all add: in_kernel_def)

lemma in_task_simps [simp]:
  "in_task (in_task s) = in_task s" "kmem (in_task s) = kmem s" "current_task (in_task s) = current_task s"
  "current_process (in_task r) = current_process r" "iolog (in_task s) = iolog s" "data_segments (in_task s) = 0x23"
  "cr3 (in_task s) = task_directory (kmem s) (current_task s)"
  by (simp_all add: in_task_def)

text \<open>The \<open>i\<close>-th word from the saved stack pointer of a task, read in its address space.\<close>

definition stack_word :: "mem \<Rightarrow> u32 \<Rightarrow> int \<Rightarrow> u32 option" where
  "stack_word m t i = vread32 m (task_directory m t) (slot m t 11 + 4 * word_of_int i)"

lemma task_get_stack_item_eq: "task_get_stack_item t i s = map_option (\<lambda>v. (v, in_kernel s)) (stack_word (kmem s) t i)"
proof -
  have "kernel_page (switched sel d s) = in_kernel s" for sel d by (simp add: kernel_page_eq in_kernel_def)
  moreover have "task_page_task t s = (0, switched 0x23 (task_directory (kmem s) t) s)"
    by (simp add: task_page_task_def user_registers_def paging_switch_def paging_load_directory_def switched_def task_directory_def Let_def)
  ultimately show ?thesis
    by (simp add: task_get_stack_item_def stack_word_def slot_def map_option_case split: option.split)
qed

text \<open>The state at the entry of a command: the registers of the interrupted task are in its structure.\<close>

definition saved :: "u32 \<Rightarrow> 'z taskstate_scheme \<Rightarrow> 'z taskstate_scheme" where
  "saved frame s = put_kmem (task_save_state (kmem s) (current_task s) frame) s"

lemma handler_eq:
  assumes "current_task s \<noteq> 0"
  shows "isr80h_handler command frame s =
    map_option (\<lambda>(r, s'). (r, in_task s')) (isr80h_handle_command command (switched 0x10 (directory_entry (kmem s) (kernel_chunk s)) (saved frame s)))"
  using assms by (simp add: isr80h_handler_def task_current_save_state_def kernel_page_eq saved_def task_page_eq map_option_case
    split: option.split)

lemma saved_simps [simp]:
  "kmem (saved frame s) = task_save_state (kmem s) (current_task s) frame" "current_task (saved frame s) = current_task s"
  "isr80h_commands (saved frame t) = isr80h_commands t" "interrupt_callbacks (saved frame t) = interrupt_callbacks t"
  "current_process (saved frame r) = current_process r" "scan_set_one_next (saved frame t) = scan_set_one_next t"
  "iolog (saved frame s) = iolog s"
  by (simp_all add: saved_def)

text \<open>A system call by a number that is out of range or has no command returns 0 and does nothing but save
  the registers of the task; without a current task the kernel panics.\<close>

theorem isr80h_unknown_command:
  "(current_task s = 0 \<longrightarrow> isr80h_handler command frame s = None) \<and>
   (current_task s \<noteq> 0 \<longrightarrow> command < 0 \<or> command \<ge> 1024 \<or> isr80h_commands s ! nat command = None \<longrightarrow>
      isr80h_handler command frame s = Some (0, in_task (saved frame s)))"
proof (intro conjI impI)
  assume "current_task s \<noteq> 0" "command < 0 \<or> command \<ge> 1024 \<or> isr80h_commands s ! nat command = None"
  then show "isr80h_handler command frame s = Some (0, in_task (saved frame s))"
    by (auto simp: handler_eq isr80h_handle_command_def)
qed (simp add: isr80h_handler_def task_current_save_state_def kernel_page_eq)

text \<open>The sum call: the result is the sum, modulo 2 ^ 32, of the two words on top of the stack of the calling
  program, read in its address space; it faults if they are not mapped. On return the address space and the
  segments of the task are loaded, and memory is as it was but for the saved registers.\<close>

theorem isr80h_sum:
  assumes "current_task s \<noteq> 0" "isr80h_commands s ! 0 = Some Command0_Sum" "m = kmem (saved frame s)"
  shows "isr80h_handler 0 frame s =
    (case (stack_word m (current_task s) 0, stack_word m (current_task s) 1) of
       (Some v1, Some v2) \<Rightarrow> Some (v1 + v2, in_task (saved frame s)) | _ \<Rightarrow> None)"
  using assms
  by (cases "stack_word m (current_task s) 1"; cases "stack_word m (current_task s) 0")
    (simp_all add: handler_eq isr80h_handle_command_def isr80h_command0_sum_def task_get_stack_item_eq)

text \<open>The free call with a pointer that the calling process has not recorded, of another process or of the
  kernel: it returns 0 and nothing is freed or written. The pointer is the word on top of the program's stack.\<close>

theorem isr80h_free_foreign:
  assumes "current_task s \<noteq> 0" "isr80h_commands s ! 5 = Some Command5_Free" "m = kmem (saved frame s)"
    "stack_word m (current_task s) 0 = Some q" "q \<notin> set (alloc_table m (task_process m (current_task s)))"
  shows "isr80h_handler 5 frame s = Some (0, in_task (saved frame s))"
  using assms
  by (simp add: handler_eq isr80h_handle_command_def isr80h_command5_free_def task_get_stack_item_eq process_free_def
    is_process_pointer_iff)

section \<open>Keys\<close>

lemma kb_queue_agree:
  assumes "kb_room p" "agree_off S m m'" "span (p + 4228) 1032 \<inter> S = {}"
  shows "kb_queue m' p q = kb_queue m p q"
proof -
  have "keyboard_tail m' p = keyboard_tail m p" "keyboard_head m' p = keyboard_head m p"
    unfolding keyboard_tail_def keyboard_head_def
    using kb_room_span [OF assms(1)] assms(3) by (blast intro: read32_agree [OF assms(2)])+
  moreover have "m' (kb_at p k) = m (kb_at p k)" for k
    using kb_room_span [OF assms(1), of k] assms(3) by (intro agree_offD [OF assms(2)]) blast
  ultimately show ?thesis by (simp add: kb_queue_def)
qed

lemma keyboard_holds_cong:
  "keyboard_holds p s q \<Longrightarrow> current_process s' = current_process s \<Longrightarrow> current_task s' = current_task s \<Longrightarrow> kmem s' = kmem s \<Longrightarrow>
   keyboard_holds p s' q"
  by (simp add: keyboard_holds_def)

text \<open>A task structure and an interrupt frame that are apart from each other and from the keyboard buffer.\<close>

definition frame_fits :: "u32 \<Rightarrow> u32 \<Rightarrow> u32 \<Rightarrow> bool" where
  "frame_fits p t frame \<longleftrightarrow> unat t + 64 \<le> 4294967296 \<and> unat frame + 52 \<le> 4294967296 \<and> span frame 52 \<inter> span t 64 = {} \<and>
     span (p + 4228) 1032 \<inter> span t 64 = {}"

lemma keyboard_holds_saved:
  assumes "keyboard_holds p s q" "frame_fits p (current_task s) frame"
  shows "keyboard_holds p (saved frame s) q"
proof -
  note f = assms(2) [unfolded frame_fits_def]
  note sp = task_save_state_spec [of "current_task s" frame "kmem s"]
  have a: "agree_off (span (current_task s) 64) (kmem s) (kmem (saved frame s))" using sp f by simp
  have "slot (kmem (saved frame s)) (current_task s) 13 = slot (kmem s) (current_task s) 13" using sp f by simp
  then have "task_process (kmem (saved frame s)) (current_task s) = task_process (kmem s) (current_task s)"
    by (simp only: task_words)
  moreover have "kb_queue (kmem (saved frame s)) p q"
    using assms(1) kb_queue_agree [OF _ a, of p q] f by (simp add: keyboard_holds_def)
  ultimately show ?thesis using assms(1) by (simp add: keyboard_holds_def)
qed

lemma key_interrupt_eq:
  assumes "current_task s \<noteq> 0" "interrupt_callbacks s ! 0x21 = Some Classic_Keyboard_Handle_Interrupt" "scancode = ucast (dev (iolog s) 0x60)"
    "c = classic_keyboard_scancode_to_char (scan_set_one_next s) scancode"
    "s2 = (in_kernel (switched 0x10 (directory_entry (kmem s) (kernel_chunk s)) (saved frame s)))\<lparr>iolog := Insb 0x60 # Insb 0x60 # iolog s\<rparr>"
  shows "interrupt_handler dev 0x21 frame s =
    Some (outb 0x20 0x20 (in_task (if scancode AND 0x80 = 0 \<and> c \<noteq> 0 then keyboard_push c s2 else s2)))"
  using assms by (cases "scancode AND 0x80 = 0") (simp_all add: interrupt_handler_def kernel_page_eq task_page_eq
    task_current_save_state_def classic_keyboard_handle_interrupt_def insb_def saved_def Let_def)

text \<open>The first word of the task and its link to the process.\<close>

lemma task_words_kept:
  assumes "agree_off R m m'" "span t 64 \<inter> R = {}"
  shows "task_page_directory m' t = task_page_directory m t" "task_process m' t = task_process m t"
proof -
  have "span (t + 52) 4 \<subseteq> span t 64" "span t 4 \<subseteq> span t 64"
    using word_offset_in [of 52 52 4 64 t] span_mono [of 4 64 t] by simp_all
  then show "task_page_directory m' t = task_page_directory m t" "task_process m' t = task_process m t"
    unfolding task_page_directory_def task_process_def using assms(2) by (blast intro: read32_agree [OF assms(1)])+
qed

lemma key_interrupt_effect:
  assumes "keyboard_holds p s q" "frame_fits p (current_task s) frame" "length q < 1024"
    "interrupt_callbacks s ! 0x21 = Some Classic_Keyboard_Handle_Interrupt" "scancode = ucast (dev (iolog s) 0x60)"
    "c = classic_keyboard_scancode_to_char (scan_set_one_next s) scancode"
  shows "\<exists>s'. interrupt_handler dev 0x21 frame s = Some s' \<and>
    keyboard_holds p s' (if scancode AND 0x80 = 0 \<and> c \<noteq> 0 then q @ [c] else q) \<and>
    iolog s' = Outb 0x20 0x20 # Insb 0x60 # Insb 0x60 # iolog s \<and> data_segments s' = 0x23 \<and>
    current_task s' = current_task s \<and> isr80h_commands s' = isr80h_commands s \<and> cr3 s' = task_directory (kmem s') (current_task s') \<and>
    task_page_directory (kmem s') (current_task s) = task_page_directory (kmem s) (current_task s) \<and>
    agree_off (span (current_task s) 64 \<union> span (p + 4228) 1032) (kmem s) (kmem s')"
proof -
  let ?s1 = "switched 0x10 (directory_entry (kmem s) (kernel_chunk s)) (saved frame s)"
  let ?s2 = "(in_kernel ?s1)\<lparr>iolog := Insb 0x60 # Insb 0x60 # iolog s\<rparr>"
  let ?s3 = "if scancode AND 0x80 = 0 \<and> c \<noteq> 0 then keyboard_push c ?s2 else ?s2"
  have t: "current_task s \<noteq> 0" and room: "kb_room p" and p: "current_process s = p" using assms(1) by (simp_all add: keyboard_holds_def)
  have h2: "keyboard_holds p ?s2 q" by (rule keyboard_holds_cong [OF keyboard_holds_saved [OF assms(1,2)]]) simp_all
  have h3: "keyboard_holds p ?s3 (if scancode AND 0x80 = 0 \<and> c \<noteq> 0 then q @ [c] else q)"
    using h2 kb.put_repr [OF h2 _ assms(3), of c] by simp
  have run: "interrupt_handler dev 0x21 frame s = Some (outb 0x20 0x20 (in_task ?s3))"
    by (rule key_interrupt_eq [where dev = dev, OF t assms(4-6) refl])
  have "keyboard_holds p (outb 0x20 0x20 (in_task ?s3)) (if scancode AND 0x80 = 0 \<and> c \<noteq> 0 then q @ [c] else q)"
    by (rule keyboard_holds_cong [OF h3]) (simp_all add: outb_def)
  moreover have a3: "agree_off (span (p + 4228) 1032) (kmem ?s2) (kmem ?s3)"
    using keyboard_push_shape [of ?s2 c] room p by auto
  note sv = task_save_state_spec [of "current_task s" frame "kmem s"]
  have "agree_off (span (current_task s) 64) (kmem s) (kmem ?s2)" using sv assms(2) by (simp add: frame_fits_def)
  then have "agree_off (span (current_task s) 64 \<union> span (p + 4228) 1032) (kmem s) (kmem ?s3)" by (rule agree_off_trans [OF _ a3])
  moreover have "task_page_directory (kmem ?s3) (current_task s) = task_page_directory (kmem s) (current_task s)"
  proof -
    have "span (current_task s) 64 \<inter> span (p + 4228) 1032 = {}" using assms(2) by (auto simp: frame_fits_def)
    from task_words_kept(1) [OF a3 this]
    show ?thesis using sv assms(2) by (simp add: frame_fits_def task_words)
  qed
  moreover have "iolog ?s3 = Insb 0x60 # Insb 0x60 # iolog s" "current_task ?s3 = current_task s" "isr80h_commands ?s3 = isr80h_commands s"
    by (simp_all add: keyboard_push_def Let_def put_kmem_def in_kernel_def saved_def switched_def)
  ultimately show ?thesis unfolding run by (simp add: outb_def in_task_def switched_def)
qed

text \<open>C31: A key press: the interrupt handler saves the registers, reads the scan code and the byte behind it,
  puts the key's character at the end of the keyboard buffer of the current process, acknowledges the
  interrupt and returns to the address space of the task. A release, or a key without a character, leaves the
  buffer as it was.\<close>

theorem keyboard_interrupt_queues:
  assumes "keyboard_holds p s q" "frame_fits p (current_task s) frame" "length q < 1024"
    "interrupt_callbacks s ! 0x21 = Some Classic_Keyboard_Handle_Interrupt" "scancode = ucast (dev (iolog s) 0x60)"
    "c = classic_keyboard_scancode_to_char (scan_set_one_next s) scancode"
  shows "\<exists>s'. interrupt_handler dev 0x21 frame s = Some s' \<and>
    keyboard_holds p s' (if scancode AND 0x80 = 0 \<and> c \<noteq> 0 then q @ [c] else q) \<and>
    iolog s' = Outb 0x20 0x20 # Insb 0x60 # Insb 0x60 # iolog s \<and> data_segments s' = 0x23 \<and>
    cr3 s' = task_directory (kmem s') (current_task s')"
  using key_interrupt_effect [where dev = dev, OF assms] by (elim exE conjE) (intro exI conjI, assumption+)

lemma getkey_effect:
  assumes "keyboard_holds p s q" "frame_fits p (current_task s) frame" "isr80h_commands s ! 2 = Some Command2_Getkey"
  shows "\<exists>s'. isr80h_handler 2 frame s = Some (if q = [] then 0 else scast (hd q), s') \<and> keyboard_holds p s' (tl q) \<and>
    data_segments s' = 0x23 \<and> current_task s' = current_task s \<and> cr3 s' = task_directory (kmem s') (current_task s') \<and>
    task_page_directory (kmem s') (current_task s) = task_page_directory (kmem s) (current_task s) \<and>
    agree_off (span (current_task s) 64 \<union> span (p + 4228) 1032) (kmem s) (kmem s')"
proof -
  let ?s1 = "switched 0x10 (directory_entry (kmem s) (kernel_chunk s)) (saved frame s)"
  have t: "current_task s \<noteq> 0" using assms(1) by (simp add: keyboard_holds_def)
  have h: "keyboard_holds p ?s1 q" by (rule keyboard_holds_cong [OF keyboard_holds_saved [OF assms(1,2)]]) simp_all
  have room: "kb_room p" "p = task_process (kmem ?s1) (current_task ?s1)" using h by (simp_all add: keyboard_holds_def)
  obtain c s2 where c: "keyboard_pop ?s1 = (c, s2)" "c = (if q = [] then 0 else hd q)" "keyboard_holds p s2 (tl q)"
  proof (cases q)
    case Nil
    then show ?thesis using kb.get_empty [of p ?s1] h that [of 0 ?s1] by simp
  next
    case (Cons c q1)
    then show ?thesis using kb.get_first [of p ?s1 c q1] h that by auto
  qed
  have "isr80h_handler 2 frame s = Some (scast c, in_task s2)"
    using t assms(3) c(1) by (simp add: handler_eq isr80h_handle_command_def isr80h_command2_getkey_def)
  moreover have "keyboard_holds p (in_task s2) (tl q)" by (rule keyboard_holds_cong [OF c(3)]) simp_all
  moreover have "scast c = (if q = [] then 0 else scast (hd q) :: u32)" using c(2) by simp
  moreover obtain m where m: "s2 = put_kmem m ?s1" "agree_off (span (p + 4228) 1032) (kmem ?s1) m"
    using keyboard_pop_shape [OF room] c(1) by auto
  note sv = task_save_state_spec [of "current_task s" frame "kmem s"]
  have "agree_off (span (current_task s) 64) (kmem s) (kmem ?s1)" using sv assms(2) by (simp add: frame_fits_def)
  then have "agree_off (span (current_task s) 64 \<union> span (p + 4228) 1032) (kmem s) (kmem s2)" using agree_off_trans [OF _ m(2)] m(1) by simp
  moreover have "task_page_directory (kmem s2) (current_task s) = task_page_directory (kmem s) (current_task s)"
  proof -
    have "span (current_task s) 64 \<inter> span (p + 4228) 1032 = {}" using assms(2) by (auto simp: frame_fits_def)
    from task_words_kept(1) [OF m(2) this]
    show ?thesis using sv assms(2) m(1) by (simp add: frame_fits_def task_words)
  qed
  moreover have "current_task s2 = current_task s" unfolding m(1) by simp
  ultimately show ?thesis by (intro exI [of _ "in_task s2"]) simp
qed

text \<open>The getkey call gives a program the oldest character typed to its process, sign-extended, and takes it out
  of the buffer; with nothing typed it gives 0.\<close>

theorem isr80h_getkey:
  assumes "keyboard_holds p s q" "frame_fits p (current_task s) frame" "isr80h_commands s ! 2 = Some Command2_Getkey"
  shows "\<exists>s'. isr80h_handler 2 frame s = Some (if q = [] then 0 else scast (hd q), s') \<and> keyboard_holds p s' (tl q)"
  using getkey_effect [OF assms] by (elim exE conjE) (intro exI conjI, assumption+)

text \<open>The scan code table: the digit and letter rows give the keys of scan code set 1, but the keys of the
  numeric pad come two codes too early (0x47, which is 7, gives 9), code 82 (0 on the pad) reads the byte behind
  the table, and every later code gives no character.\<close>

theorem scancode_table:
  "map (classic_keyboard_scancode_to_char behind) [0x02, 0x0b, 0x10, 0x19, 0x1e, 0x26, 0x2c, 0x32, 0x39] = lit ''10QPALZM '' \<and>
   map (classic_keyboard_scancode_to_char behind) [0x45, 0x46, 0x47, 0x48, 0x49, 0x4a, 0x4b, 0x4c, 0x4d, 0x4e, 0x4f, 0x50, 0x51]
     = lit ''789-456+1230.'' \<and>
   classic_keyboard_scancode_to_char behind 82 = behind \<and>
   (\<forall>sc > 82. classic_keyboard_scancode_to_char behind sc = 0)"
proof (intro conjI allI impI)
  have c: "classic_keyboard_scancode_to_char behind sc = keyboard_scan_set_one ! unat sc" if "unat sc < 82" for sc
    using that by (simp add: classic_keyboard_scancode_to_char_def keyboard_scan_set_one_def)
  show "map (classic_keyboard_scancode_to_char behind) [0x02, 0x0b, 0x10, 0x19, 0x1e, 0x26, 0x2c, 0x32, 0x39] = lit ''10QPALZM ''"
    by (simp add: c lit_def) (simp add: keyboard_scan_set_one_def of_char_def)
  show "map (classic_keyboard_scancode_to_char behind) [0x45, 0x46, 0x47, 0x48, 0x49, 0x4a, 0x4b, 0x4c, 0x4d, 0x4e, 0x4f, 0x50, 0x51]
     = lit ''789-456+1230.''"
    by (simp add: c lit_def) (simp add: keyboard_scan_set_one_def of_char_def)
  show "classic_keyboard_scancode_to_char behind 82 = behind"
    by (simp add: classic_keyboard_scancode_to_char_def keyboard_scan_set_one_def)
  fix sc :: u8 assume "82 < sc"
  then show "classic_keyboard_scancode_to_char behind sc = 0"
    by (simp add: classic_keyboard_scancode_to_char_def keyboard_scan_set_one_def word_less_nat_alt)
qed

section \<open>Witnesses\<close>

text \<open>A task at 0x1000 of the process at 0x10000, interrupted with its frame at 0x5000; its address space maps the
  page of its stack, 0x6000, to 0x7000, where there are the words 3 and 4.\<close>

definition demo_call_mem :: mem where
  "demo_call_mem = (\<lambda>_. 0)(0x1002 := 2, 0x20001 := 0x10, 0x20002 := 2, 0x21000 := 1, 0x21001 := 0x20, 0x21002 := 2,
     0x22018 := 1, 0x22019 := 0x70, 0x502d := 0x60, 0x7000 := 3, 0x7004 := 4)"

definition demo_idt :: "isr80h_command option list \<Rightarrow> idtstate" where
  "demo_idt cmds = procstate.extend (demo_keyboard demo_call_mem)
     \<lparr>interrupt_callbacks = (replicate 512 None)[0x21 := Some Classic_Keyboard_Handle_Interrupt], isr80h_commands = cmds,
      idt_descriptors_at = 0x9000, idtr_descriptor = (0, 0), idtr = (0, 0), interrupt_pointer_table = (\<lambda>i. 0x100000 + 16 * word_of_nat i),
      idt_zero_at = 0x100100, isr80h_wrapper_at = 0x100200, keyboard_list_head = 0, keyboard_list_last = 0,
      classic_keyboard_at = 0x1002, classic_keyboard_init_at = 2, scan_set_one_next = 0, print_buf_at = 0xc000\<rparr>"

lemma demo_idt_simps [simp]:
  "kmem (demo_idt cmds) = demo_call_mem(0x1036 := 1)" "current_process (demo_idt cmds) = 0x10000" "current_task (demo_idt cmds) = 0x1000"
  "isr80h_commands (demo_idt cmds) = cmds" "idt_descriptors_at (demo_idt cmds) = 0x9000"
  "interrupt_callbacks (demo_idt cmds) = (replicate 512 None)[0x21 := Some Classic_Keyboard_Handle_Interrupt]"
  "classic_keyboard_at (demo_idt cmds) = 0x1002" "classic_keyboard_init_at (demo_idt cmds) = 2" "keyboard_list_last (demo_idt cmds) = 0"
  "scan_set_one_next (demo_idt cmds) = 0" "interrupt_pointer_table (demo_idt cmds) = (\<lambda>i. 0x100000 + 16 * word_of_nat i)"
  by (simp_all add: demo_idt_def procstate.defs demo_keyboard_def demo_procstate_def taskstate.defs demo_queue_ok)

theorem idt_init_gates_witness:
  "gate (kmem (idt_init (demo_idt []))) 0x9000 0x21 = (0x100210, 8, 0, 0xEE)"
  using idt_init_gates [of "0x9000" "demo_idt []" "idt_init (demo_idt [])"] by simp

theorem boot_registers_witness:
  "\<exists>s. isr80h_register_commands (demo_idt (replicate 1024 None)) = Some s \<and> isr80h_commands s ! 2 = Some Command2_Getkey"
  using boot_registers [of "demo_idt (replicate 1024 None)"] by (simp add: demo_call_mem_def read32_def)

lemma demo_frame: "frame_fits 0x10000 0x1000 0x5000"
  by (simp add: frame_fits_def span_disjoint_sym)

lemma demo_saved_mem:
  "x \<notin> span 0x1000 64 \<Longrightarrow> kmem (saved 0x5000 (demo_idt cmds)) x = demo_call_mem x"
  "slot (kmem (saved 0x5000 (demo_idt cmds))) 0x1000 11 = 0x6000"
  "slot (kmem (saved 0x5000 (demo_idt cmds))) 0x1000 0 = 0x20000"
  "slot (kmem (saved 0x5000 (demo_idt cmds))) 0x1000 13 = 0x10000"
proof -
  have sp: "agree_off (span 0x1000 64) (demo_call_mem(0x1036 := 1)) (kmem (saved 0x5000 (demo_idt cmds))) \<and>
    (\<forall>(d, f) \<in> set saved_registers. slot (kmem (saved 0x5000 (demo_idt cmds))) 0x1000 d = slot (demo_call_mem(0x1036 := 1)) 0x5000 f) \<and>
    (\<forall>j \<in> {0, 13, 14, 15}. slot (kmem (saved 0x5000 (demo_idt cmds))) 0x1000 j = slot (demo_call_mem(0x1036 := 1)) 0x1000 j)"
    using task_save_state_spec [of "0x1000" "0x5000" "demo_call_mem(0x1036 := 1)"] by (simp add: span_disjoint_sym)
  show "x \<notin> span 0x1000 64 \<Longrightarrow> kmem (saved 0x5000 (demo_idt cmds)) x = demo_call_mem x"
    using agree_offD [OF conjunct1 [OF sp], of x] by (auto simp: span_iff)
  show "slot (kmem (saved 0x5000 (demo_idt cmds))) 0x1000 11 = 0x6000"
    using sp by (simp add: saved_registers_def) (simp add: slot_def read32_def demo_call_mem_def)
  show "slot (kmem (saved 0x5000 (demo_idt cmds))) 0x1000 0 = 0x20000"
    using sp by (simp add: slot_def read32_def demo_call_mem_def)
  show "slot (kmem (saved 0x5000 (demo_idt cmds))) 0x1000 13 = 0x10000"
    using sp by (simp add: slot_def read32_def demo_call_mem_def)
qed

lemma demo_saved_byte: "unat x < 0x1000 \<or> 0x1040 \<le> unat x \<Longrightarrow> kmem (saved 0x5000 (demo_idt cmds)) x = demo_call_mem x"
  by (rule demo_saved_mem(1)) (auto simp: span_iff)

lemma demo_stack:
  "stack_word (kmem (saved 0x5000 (demo_idt cmds))) 0x1000 0 = Some 3"
  "stack_word (kmem (saved 0x5000 (demo_idt cmds))) 0x1000 1 = Some 4"
proof -
  let ?m = "kmem (saved 0x5000 (demo_idt cmds))"
  have d: "task_directory ?m 0x1000 = 0x21000"
  proof -
    have "task_page_directory ?m 0x1000 = 0x20000" using demo_saved_mem(3) by (simp only: task_words)
    then show ?thesis by (simp add: task_directory_def directory_entry_def read32_def demo_saved_byte del: saved_simps)
      (simp add: demo_call_mem_def)
  qed
  have e: "read32 ?m 0x21000 = 0x22001" "read32 ?m 0x22018 = 0x7001"
    by (simp_all add: read32_def demo_saved_byte del: saved_simps) (simp_all add: demo_call_mem_def)
  have t: "translate ?m 0x21000 (0x6000 + k) = Some (0x7000 + k)" if "k \<in> {0, 1, 2, 3, 4, 5, 6, 7}" for k
    using that e unfolding translate_def Let_def by auto
  have r: "vread ?m 0x21000 (0x6000 + k) = Some (demo_call_mem (0x7000 + k))" if "k \<in> {0, 1, 2, 3, 4, 5, 6, 7}" for k
    using that t [OF that] demo_saved_byte [of "0x7000 + k" cmds] by (auto simp: vread_def simp del: saved_simps)
  show "stack_word ?m 0x1000 0 = Some 3" "stack_word ?m 0x1000 1 = Some 4"
    unfolding stack_word_def demo_saved_mem(2) d vread32_def
    using r [of 0] r [of 1] r [of 2] r [of 3] r [of 4] r [of 5] r [of 6] r [of 7]
    by (simp_all del: saved_simps) (simp_all add: demo_call_mem_def)
qed

theorem isr80h_unknown_command_witness:
  "isr80h_handler 77 0x5000 (demo_idt (replicate 1024 None)) = Some (0, in_task (saved 0x5000 (demo_idt (replicate 1024 None))))"
  using isr80h_unknown_command [of "demo_idt (replicate 1024 None)" 77 "0x5000"] by simp

theorem isr80h_sum_witness:
  "\<exists>s. isr80h_handler 0 0x5000 (demo_idt [Some Command0_Sum]) = Some (7, s)"
  using isr80h_sum [of "demo_idt [Some Command0_Sum]" _ "0x5000", OF _ _ refl] by (simp add: demo_stack del: saved_simps(1))

theorem isr80h_free_foreign_witness:
  "\<exists>cmds. isr80h_handler 5 0x5000 (demo_idt cmds) = Some (0, in_task (saved 0x5000 (demo_idt cmds)))"
proof -
  let ?c = "replicate 5 None @ [Some Command5_Free]"
  let ?m = "kmem (saved 0x5000 (demo_idt ?c))"
  have p: "task_process ?m 0x1000 = 0x10000" using demo_saved_mem(4) by (simp only: task_words)
  have "slot ?m (process_allocations 0x10000) i = 0" if i: "i < 1024" for i
  proof -
    have s: "span (0x10074 + 4 * word_of_nat i) 4 \<subseteq> span 0x10074 4096" using array_span_subset [of "0x10074" 1024 i] i by simp
    have z: "?m x = 0" if "x \<in> span (0x10074 + 4 * word_of_nat i) 4" for x
    proof -
      have "0x10074 \<le> unat x" "unat x < 0x11074" using that s by (auto simp: span_iff)
      then show ?thesis using demo_saved_byte [of x ?c] by (auto simp: demo_call_mem_def simp del: saved_simps)
    qed
    show ?thesis using z by (simp add: slot_def process_allocations_def read32_def span4_cases del: saved_simps)
  qed
  then have "3 \<notin> set (alloc_table ?m (task_process ?m 0x1000))" unfolding p by (auto simp: alloc_table_def slots_def)
  then have "isr80h_handler 5 0x5000 (demo_idt ?c) = Some (0, in_task (saved 0x5000 (demo_idt ?c)))"
    using isr80h_free_foreign [of "demo_idt ?c" _ "0x5000" 3, OF _ _ refl] demo_stack(1) by (simp add: nth_append del: saved_simps(1))
  then show ?thesis by blast
qed

lemma demo_idt_holds: "keyboard_holds 0x10000 (demo_idt cmds) []"
proof -
  have "kb_queue demo_call_mem 0x10000 []"
    using kb_queue_agree [of "0x10000" "span 0x1000 0x8000 \<union> span 0x20000 0x3000" "\<lambda>_. 0" demo_call_mem "[]"] kb_queue_blank
    by (simp add: kb_room_def agree_off_def demo_call_mem_def span_iff Int_Un_distrib span_disjoint span_disjoint_sym)
  then have "keyboard_holds 0x10000 (demo_keyboard demo_call_mem) []"
    by (rule demo_keyboard_holds [rotated]) (auto simp: span4_cases demo_call_mem_def)
  then show ?thesis by (rule keyboard_holds_cong) simp_all
qed

theorem keyboard_interrupt_queues_witness:
  "\<exists>s'. interrupt_handler (\<lambda>_ _. 0x1e) 0x21 0x5000 (demo_idt []) = Some s' \<and> keyboard_holds 0x10000 s' [0x41]"
  using keyboard_interrupt_queues [OF demo_idt_holds, of "[]" "0x5000" "0x1e" "\<lambda>_ _. 0x1e" "0x41"] demo_frame
  by (auto simp: classic_keyboard_scancode_to_char_def keyboard_scan_set_one_def)

theorem isr80h_getkey_witness:
  "\<exists>s'. isr80h_handler 2 0x5000 (demo_idt [None, None, Some Command2_Getkey]) = Some (0, s')"
  using isr80h_getkey [OF demo_idt_holds, of "[None, None, Some Command2_Getkey]" "0x5000"] demo_frame by auto

theorem scancode_table_witness: "classic_keyboard_scancode_to_char 9 100 = 0"
  using scancode_table [of 9] by simp

end
