(* ===== verification/Gdt.thy ===== *)
theory Gdt
  imports CMemory
begin

text \<open>
  \<^verbatim>\<open>src/gdt/gdt.c\<close>: the encoding of segment descriptors. The table of \<^verbatim>\<open>struct gdt_structured\<close> (twelve bytes
  each) is read from memory and the encoded descriptors (eight bytes each) are written to it. A call that
  panics does not return: \<open>None\<close>.
\<close>

record gdt_structured =
  gdt_base :: u32
  gdt_limit :: u32
  gdt_type :: u8

definition read_gdt_structured :: "mem \<Rightarrow> u32 \<Rightarrow> gdt_structured" where
  "read_gdt_structured m p = \<lparr>gdt_base = read32 m p, gdt_limit = read32 m (p + 4), gdt_type = m (p + 8)\<rparr>"

definition encodeGdtEntry :: "mem \<Rightarrow> u32 \<Rightarrow> gdt_structured \<Rightarrow> mem option" where
  "encodeGdtEntry m target source =
     (if gdt_limit source > 65536 \<and> gdt_limit source AND 0xfff \<noteq> 0xfff then None
      else
        let m1 = m(target + 6 := 0x40);
            big = gdt_limit source > 65536;
            limit = (if big then drop_bit 12 (gdt_limit source) else gdt_limit source);
            m2 = (if big then m1(target + 6 := 0xc0) else m1);
            m3 = m2(target := ucast (limit AND 0xff));
            m4 = m3(target + 1 := ucast (drop_bit 8 limit AND 0xff));
            m5 = m4(target + 6 := m4 (target + 6) OR ucast (drop_bit 16 limit AND 0x0f));
            m6 = m5(target + 2 := ucast (gdt_base source AND 0xff));
            m7 = m6(target + 3 := ucast (drop_bit 8 (gdt_base source) AND 0xff));
            m8 = m7(target + 4 := ucast (drop_bit 16 (gdt_base source) AND 0xff));
            m9 = m8(target + 7 := ucast (drop_bit 24 (gdt_base source) AND 0xff))
        in Some (m9(target + 5 := gdt_type source)))"

text \<open>The loop with \<open>n\<close> entries to go from entry \<open>i\<close> on.\<close>

fun gdt_loop :: "mem \<Rightarrow> u32 \<Rightarrow> u32 \<Rightarrow> nat \<Rightarrow> nat \<Rightarrow> mem option" where
  "gdt_loop m gdt structured_gdt i 0 = Some m"
| "gdt_loop m gdt structured_gdt i (Suc n) =
     (case encodeGdtEntry m (gdt + 8 * word_of_nat i) (read_gdt_structured m (structured_gdt + 12 * word_of_nat i)) of
        None \<Rightarrow> None
      | Some m' \<Rightarrow> gdt_loop m' gdt structured_gdt (Suc i) n)"

definition gdt_structured_to_gdt :: "mem \<Rightarrow> u32 \<Rightarrow> u32 \<Rightarrow> int \<Rightarrow> mem option" where
  "gdt_structured_to_gdt m gdt structured_gdt total_entries = gdt_loop m gdt structured_gdt 0 (nat total_entries)"

section \<open>What the processor reads\<close>

text \<open>The fields of a segment descriptor as the processor decodes them: with the granularity bit the limit
  counts pages.\<close>

definition desc_base :: "mem \<Rightarrow> u32 \<Rightarrow> u32" where
  "desc_base m t = ucast (m (t + 2)) OR push_bit 8 (ucast (m (t + 3))) OR push_bit 16 (ucast (m (t + 4)))
     OR push_bit 24 (ucast (m (t + 7)))"

definition desc_limit :: "mem \<Rightarrow> u32 \<Rightarrow> u32" where
  "desc_limit m t =
     (let l = ucast (m t) OR push_bit 8 (ucast (m (t + 1))) OR push_bit 16 (ucast (m (t + 6) AND 0x0f))
      in if bit (m (t + 6)) 7 then push_bit 12 l OR 0xfff else l)"

lemma gdt_masks:
  "(0xff :: 'a :: len word) = mask 8" "(0x0f :: 'a word) = mask 4" "(0xfff :: 'a word) = mask 12"
  by (simp_all add: mask_eq_exp_minus_1)

lemma low_byte: "ucast (w AND 0xff) = (ucast w :: u8)" for w :: u32
  by (rule bit_word_eqI) (simp add: gdt_masks bit_simps)

text \<open>The flag bits 6 and 7 do not disturb the four limit bits below them.\<close>

lemma limit_nibble:
  fixes l :: u32
  shows "((0x40 :: u8) OR ucast (drop_bit 16 l AND 0x0f)) AND 0x0f = ucast (drop_bit 16 l AND 0x0f)"
    "((0xc0 :: u8) OR ucast (drop_bit 16 l AND 0x0f)) AND 0x0f = ucast (drop_bit 16 l AND 0x0f)"
    "\<not> bit ((0x40 :: u8) OR ucast (drop_bit 16 l AND 0x0f)) 7"
    "bit ((0xc0 :: u8) OR ucast (drop_bit 16 l AND 0x0f)) 7"
proof -
  have z: "(0x40 :: u8) AND 0x0f = 0" "(0xc0 :: u8) AND 0x0f = 0" by simp_all
  have i: "ucast (drop_bit 16 l AND 0x0f) AND 0x0f = (ucast (drop_bit 16 l AND 0x0f) :: u8)"
    by (rule bit_word_eqI) (auto simp: gdt_masks bit_simps)
  show "((0x40 :: u8) OR ucast (drop_bit 16 l AND 0x0f)) AND 0x0f = ucast (drop_bit 16 l AND 0x0f)"
    "((0xc0 :: u8) OR ucast (drop_bit 16 l AND 0x0f)) AND 0x0f = ucast (drop_bit 16 l AND 0x0f)"
    by (simp_all only: bit.conj_disj_distrib2 z i or.left_neutral)
  have "\<not> bit (0x40 :: u8) 7" "bit (0xc0 :: u8) 7" by (simp_all add: bit_numeral_rec)
  then show "\<not> bit ((0x40 :: u8) OR ucast (drop_bit 16 l AND 0x0f)) 7"
    "bit ((0xc0 :: u8) OR ucast (drop_bit 16 l AND 0x0f)) 7"
    by (simp_all add: bit_or_iff bit_simps gdt_masks)
qed

lemma limit20:
  fixes l :: u32
  assumes "l < 1048576"
  shows "ucast (ucast l :: u8) OR push_bit 8 (ucast (ucast (drop_bit 8 l) :: u8)) OR
     push_bit 16 (ucast (ucast (drop_bit 16 l AND 0x0f) :: u8)) = l" (is "?w = l")
proof (rule bit_word_eqI)
  fix n :: nat assume n: "n < LENGTH(32)"
  have "l = take_bit 20 l" using assms by (simp add: take_bit_word_eq_self word_less_nat_alt take_bit_eq_mod word_unat_eq_iff unat_mod)
  then have hi: "20 \<le> n \<Longrightarrow> \<not> bit l n" by (metis bit_take_bit_iff not_less)
  consider "n < 8" | "8 \<le> n \<and> n < 16" | "16 \<le> n \<and> n < 20" | "20 \<le> n" by arith
  then show "bit ?w n = bit l n"
    using n hi by cases (auto simp: bit_simps gdt_masks)
qed

lemma big_limit:
  fixes l :: u32
  assumes "l AND 0xfff = 0xfff"
  shows "push_bit 12 (drop_bit 12 l) OR 0xfff = l" "drop_bit 12 l < 1048576"
proof -
  have m: "bit l n" if "n < 12" for n
  proof -
    have "bit (l AND mask 12) n = bit (mask 12 :: u32) n" using assms by (simp only: gdt_masks)
    then show ?thesis using that by (simp add: bit_simps)
  qed
  show "push_bit 12 (drop_bit 12 l) OR 0xfff = l"
    by (rule bit_word_eqI) (auto simp: gdt_masks bit_simps m)
  show "drop_bit 12 l < 1048576"
  proof -
    have "unat (drop_bit 12 l) = drop_bit 12 (unat l)" by (rule unat_drop_bit_eq)
    also have "\<dots> = unat l div 2 ^ 12" by (rule drop_bit_eq_div)
    finally have "unat (drop_bit 12 l) < 1048576" using unat_le_max32 [of l] by simp
    then show ?thesis by (simp add: word_less_nat_alt)
  qed
qed


section \<open>Encoding and decoding\<close>

definition encodable :: "gdt_structured \<Rightarrow> bool" where
  "encodable g \<longleftrightarrow> gdt_limit g \<le> 65536 \<or> gdt_limit g AND 0xfff = 0xfff"

definition decodes :: "mem \<Rightarrow> u32 \<Rightarrow> gdt_structured \<Rightarrow> bool" where
  "decodes m t g \<longleftrightarrow> desc_base m t = gdt_base g \<and> desc_limit m t = gdt_limit g \<and> m (t + 5) = gdt_type g \<and>
     bit (m (t + 6)) 6 \<and> (bit (m (t + 6)) 7 \<longleftrightarrow> 65536 < gdt_limit g)"

lemma encodeGdtEntry_None: "encodeGdtEntry m t g = None \<longleftrightarrow> \<not> encodable g"
  by (auto simp: encodeGdtEntry_def encodable_def Let_def not_le)

lemma encodeGdtEntry_bytes:
  assumes "encodeGdtEntry m t g = Some m'"
  defines "l \<equiv> if 65536 < gdt_limit g then drop_bit 12 (gdt_limit g) else gdt_limit g"
  shows "m' t = ucast l \<and> m' (t + 1) = ucast (drop_bit 8 l) \<and>
    m' (t + 2) = ucast (gdt_base g) \<and> m' (t + 3) = ucast (drop_bit 8 (gdt_base g)) \<and>
    m' (t + 4) = ucast (drop_bit 16 (gdt_base g)) \<and> m' (t + 7) = ucast (drop_bit 24 (gdt_base g)) \<and> m' (t + 5) = gdt_type g \<and>
    m' (t + 6) = (if 65536 < gdt_limit g then 0xc0 else 0x40) OR ucast (drop_bit 16 l AND 0x0f) \<and>
    (\<forall>x. x \<notin> {t, t + 1, t + 2, t + 3, t + 4, t + 5, t + 6, t + 7} \<longrightarrow> m' x = m x)"
proof -
  have "ucast (w AND 0x0f) = ucast w AND (0x0f :: u8)" for w :: u32
    by (rule bit_word_eqI) (auto simp: gdt_masks bit_simps)
  then show ?thesis
    using assms(1) unfolding encodeGdtEntry_def Let_def l_def
    by (auto simp: low_byte split: if_splits)
qed

lemma span8_cases: "{t, t + 1, t + 2, t + 3, t + 4, t + 5, t + 6, t + 7} \<subseteq> span (t :: u32) 8"
  by (simp add: span_def)

lemma encodeGdtEntry_decodes:
  assumes "encodable g"
  obtains m' where "encodeGdtEntry m t g = Some m'" "decodes m' t g" "agree_off (span t 8) m m'"
proof -
  define l where "l = (if 65536 < gdt_limit g then drop_bit 12 (gdt_limit g) else gdt_limit g)"
  obtain m' where s: "encodeGdtEntry m t g = Some m'" using encodeGdtEntry_None [of m t g] assms by auto
  have m': "encodeGdtEntry m t g = Some m'" "m' t = ucast l" "m' (t + 1) = ucast (drop_bit 8 l)"
    "m' (t + 2) = ucast (gdt_base g)" "m' (t + 3) = ucast (drop_bit 8 (gdt_base g))"
    "m' (t + 4) = ucast (drop_bit 16 (gdt_base g))" "m' (t + 7) = ucast (drop_bit 24 (gdt_base g))" "m' (t + 5) = gdt_type g"
    "m' (t + 6) = (if 65536 < gdt_limit g then 0xc0 else 0x40) OR ucast (drop_bit 16 l AND 0x0f)"
    "\<forall>x. x \<notin> {t, t + 1, t + 2, t + 3, t + 4, t + 5, t + 6, t + 7} \<longrightarrow> m' x = m x"
    using s encodeGdtEntry_bytes [OF s] unfolding l_def [symmetric] by blast+
  have base: "desc_base m' t = gdt_base g" unfolding desc_base_def m'(4-7) by (rule bytes_of_u32)
  have lim: "desc_limit m' t = gdt_limit g \<and> bit (m' (t + 6)) 6 \<and> (bit (m' (t + 6)) 7 \<longleftrightarrow> 65536 < gdt_limit g)"
  proof (cases "65536 < gdt_limit g")
    case True
    then have f: "gdt_limit g AND 0xfff = 0xfff" using assms by (auto simp: encodable_def)
    have l: "l = drop_bit 12 (gdt_limit g)" using True by (simp add: l_def)
    have b6: "bit (0xc0 :: u8) 6" by (simp add: bit_numeral_rec)
    have e: "m' (t + 6) = 0xc0 OR ucast (drop_bit 16 l AND 0x0f)" using m'(9) True by simp
    have "desc_limit m' t = push_bit 12 l OR 0xfff"
      unfolding desc_limit_def e m'(2,3) limit_nibble(2) Let_def limit20 [OF big_limit(2) [OF f], folded l]
      using limit_nibble(4) [of l] by simp
    then show ?thesis using big_limit(1) [OF f] True b6 limit_nibble(4) [of l] unfolding e l by (simp add: bit_or_iff)
  next
    case False
    then have l: "l = gdt_limit g" by (simp add: l_def)
    have b6: "bit (0x40 :: u8) 6" by (simp add: bit_numeral_rec)
    have e: "m' (t + 6) = 0x40 OR ucast (drop_bit 16 l AND 0x0f)" using m'(9) False by simp
    have lt: "l < 1048576" using False l by (simp add: word_less_nat_alt)
    have "desc_limit m' t = l"
      unfolding desc_limit_def e m'(2,3) limit_nibble(1) Let_def limit20 [OF lt] using limit_nibble(3) [of l] by simp
    then show ?thesis using False b6 limit_nibble(3) [of l] unfolding e l by (simp add: bit_or_iff)
  qed
  have "agree_off (span t 8) m m'" using m'(10) span8_cases [of t] unfolding agree_off_def by blast
  then show ?thesis using that m'(1,8) base lim by (simp add: decodes_def)
qed

lemma decodes_agree:
  assumes "agree_off S m m'" "span t 8 \<inter> S = {}" "decodes m t g"
  shows "decodes m' t g"
proof -
  have e: "m' x = m x" if "x \<in> span t 8" for x using that assms(2) by (intro agree_offD [OF assms(1)]) blast
  have same: "m' t = m t" "m' (t + 1) = m (t + 1)" "m' (t + 2) = m (t + 2)" "m' (t + 3) = m (t + 3)"
    "m' (t + 4) = m (t + 4)" "m' (t + 5) = m (t + 5)" "m' (t + 6) = m (t + 6)" "m' (t + 7) = m (t + 7)"
    using span8_cases [of t] by (simp_all add: e)
  have "decodes m' t g \<longleftrightarrow> decodes m t g" by (simp only: decodes_def desc_base_def desc_limit_def same)
  then show ?thesis using assms(3) by simp
qed

text \<open>Entry \<open>i\<close> of an array of \<open>k\<close>-byte elements.\<close>

lemma unat_element:
  assumes "unat (a :: u32) + k * n \<le> 4294967296" "i < n" "0 < k"
  shows "unat (a + word_of_nat (k * i)) = unat a + k * i"
proof -
  have "k * Suc i \<le> k * n" using assms(2) by (intro mult_le_mono) auto
  then have "unat a + k * i < 4294967296" using assms(1,3) by simp
  then show ?thesis by (simp add: unat_word_ariths unat_of_nat del: of_nat_mult)
qed

lemma element_span:
  assumes "unat (a :: u32) + k * n \<le> 4294967296" "i < n" "0 < k"
  shows "span (a + word_of_nat (k * i)) k \<subseteq> span a (k * n)"
proof -
  have "k * Suc i \<le> k * n" using assms(2) by (intro mult_le_mono) auto
  then show ?thesis using assms by (intro span_subset) (simp_all add: unat_element del: of_nat_mult)
qed

lemma elements_disjoint:
  assumes "unat (a :: u32) + k * n \<le> 4294967296" "i < j" "j < n" "0 < k"
  shows "span (a + word_of_nat (k * j)) k \<inter> span (a + word_of_nat (k * i)) k = {}"
proof -
  have "k * Suc i \<le> k * j" "k * Suc j \<le> k * n" using assms(2,3) by (intro mult_le_mono; simp)+
  then show ?thesis
    using assms by (intro span_disjoint_sym) (simp_all add: unat_element del: of_nat_mult)
qed

lemma read_gdt_agree:
  assumes "agree_off S m m'" "span p 12 \<inter> S = {}"
  shows "read_gdt_structured m' p = read_gdt_structured m p"
proof -
  have "span p 4 \<subseteq> span p 12" "span (p + 4) 4 \<subseteq> span p 12" "p + 8 \<in> span p 12"
    using span_mono [of 4 12 p] span_offset [of 4 12 p] span_mono [of 4 8 "p + 4"] by (auto simp: span_def)
  then have "read32 m' p = read32 m p" "read32 m' (p + 4) = read32 m (p + 4)" "m' (p + 8) = m (p + 8)"
    using assms(2) by (blast intro: read32_agree [OF assms(1)] agree_offD [OF assms(1)])+
  then show ?thesis by (simp add: read_gdt_structured_def)
qed

lemma gdt_loop_decodes:
  assumes "unat g + 8 * k \<le> 4294967296" "unat sg + 12 * k \<le> 4294967296" "span g (8 * k) \<inter> span sg (12 * k) = {}"
  shows "i + n = k \<Longrightarrow> \<forall>j. i \<le> j \<and> j < k \<longrightarrow> encodable (read_gdt_structured m (sg + 12 * word_of_nat j)) \<Longrightarrow>
    \<forall>j < i. decodes m (g + 8 * word_of_nat j) (read_gdt_structured m (sg + 12 * word_of_nat j)) \<Longrightarrow>
    \<exists>m'. gdt_loop m g sg i n = Some m' \<and> agree_off (span g (8 * k)) m m' \<and>
      (\<forall>j < k. decodes m' (g + 8 * word_of_nat j) (read_gdt_structured m (sg + 12 * word_of_nat j)))"
proof (induction n arbitrary: i m)
  case (Suc n)
  let ?t = "g + 8 * word_of_nat i" and ?src = "\<lambda>m j. read_gdt_structured m (sg + 12 * word_of_nat j)"
  have i: "i < k" using Suc.prems(1) by simp
  have "encodable (?src m i)" using Suc.prems(2) i by simp
  then obtain m1 where m1: "encodeGdtEntry m ?t (?src m i) = Some m1" "decodes m1 ?t (?src m i)" "agree_off (span ?t 8) m m1"
    by (rule encodeGdtEntry_decodes)
  have sub: "span ?t 8 \<subseteq> span g (8 * k)" using element_span [OF assms(1) i] by simp
  have a1: "agree_off (span g (8 * k)) m m1" by (rule agree_off_mono [OF m1(3) sub])
  have src: "?src m1 j = ?src m j" if "j < k" for j
    by (rule read_gdt_agree [OF a1]) (use element_span [OF assms(2) that] assms(3) in auto)
  have "decodes m1 (g + 8 * word_of_nat j) (?src m1 j)" if j: "j < Suc i" for j
  proof (cases "j = i")
    case True
    then show ?thesis using m1(2) src i by simp
  next
    case False
    then have ji: "j < i" using j by simp
    have "span (g + 8 * word_of_nat j) 8 \<inter> span ?t 8 = {}" using elements_disjoint [OF assms(1) ji i] by (simp add: Int_commute)
    then have "decodes m1 (g + 8 * word_of_nat j) (?src m j)" using decodes_agree [OF m1(3)] Suc.prems(3) ji by blast
    then show ?thesis using src ji i by simp
  qed
  moreover have "\<forall>j. Suc i \<le> j \<and> j < k \<longrightarrow> encodable (?src m1 j)" using Suc.prems(2) src by simp
  moreover have "Suc i + n = k" using Suc.prems(1) by simp
  ultimately obtain m' where m': "gdt_loop m1 g sg (Suc i) n = Some m'" "agree_off (span g (8 * k)) m1 m'"
    "\<forall>j < k. decodes m' (g + 8 * word_of_nat j) (?src m1 j)"
    using Suc.IH [of "Suc i" m1] by blast
  then show ?case using m1(1) src agree_off_trans_same [OF a1 m'(2)] by auto
qed auto

section \<open>Properties\<close>

text \<open>\<^verbatim>\<open>gdt_structured_to_gdt\<close> on tables that do not overlap, whose limits are at most 65536 or end in
  twelve one bits, returns, and the processor decodes from each descriptor the base, limit and type of its
  source, with byte granularity up to a limit of 65536 and page granularity above.\<close>

theorem gdt_encodes:
  assumes "unat g + 8 * k \<le> 4294967296" "unat sg + 12 * k \<le> 4294967296" "span g (8 * k) \<inter> span sg (12 * k) = {}"
    "\<forall>i < k. encodable (read_gdt_structured m (sg + 12 * word_of_nat i))"
  shows "\<exists>m'. gdt_structured_to_gdt m g sg (int k) = Some m' \<and> agree_off (span g (8 * k)) m m' \<and>
    (\<forall>i < k. decodes m' (g + 8 * word_of_nat i) (read_gdt_structured m (sg + 12 * word_of_nat i)))"
  using gdt_loop_decodes [OF assms(1-3), of 0 k m] assms(4) by (simp add: gdt_structured_to_gdt_def)

text \<open>A flat code segment of four gigabytes and a segment of 65536 bytes.\<close>

definition demo_gdt_mem :: mem where
  "demo_gdt_mem = (\<lambda>_. 0)(0x104 := 0xff, 0x105 := 0xff, 0x106 := 0xff, 0x107 := 0xff, 0x108 := 0x9a, 0x112 := 1)"

theorem gdt_encodes_witness:
  "\<exists>m'. gdt_structured_to_gdt demo_gdt_mem 0x200 0x100 2 = Some m' \<and> desc_limit m' 0x200 = 0xffffffff \<and>
     desc_limit m' 0x208 = 65536"
proof -
  have r: "read_gdt_structured demo_gdt_mem 0x100 = \<lparr>gdt_base = 0, gdt_limit = 0xffffffff, gdt_type = 0x9a\<rparr>"
    "read_gdt_structured demo_gdt_mem 0x10c = \<lparr>gdt_base = 0, gdt_limit = 65536, gdt_type = 0\<rparr>"
    by (simp_all add: read_gdt_structured_def demo_gdt_mem_def read32_def)
  have "\<forall>i < 2. encodable (read_gdt_structured demo_gdt_mem (0x100 + 12 * word_of_nat i))"
    by (auto simp: less_2_cases_iff r encodable_def)
  moreover have "unat (0x200 :: u32) + 8 * 2 \<le> 4294967296" "unat (0x100 :: u32) + 12 * 2 \<le> 4294967296"
    "span (0x200 :: u32) (8 * 2) \<inter> span 0x100 (12 * 2) = {}" by (simp_all add: span_disjoint_sym)
  ultimately obtain m' where m': "gdt_structured_to_gdt demo_gdt_mem 0x200 0x100 (int 2) = Some m'"
    "\<forall>i < 2. decodes m' (0x200 + 8 * word_of_nat i) (read_gdt_structured demo_gdt_mem (0x100 + 12 * word_of_nat i))"
    using gdt_encodes [of "0x200" 2 "0x100" demo_gdt_mem] by blast
  have "decodes m' 0x200 (read_gdt_structured demo_gdt_mem 0x100)" "decodes m' 0x208 (read_gdt_structured demo_gdt_mem 0x10c)"
    using m'(2) [rule_format, of 0] m'(2) [rule_format, of 1] by simp_all
  then show ?thesis using m'(1) by (simp add: r decodes_def)
qed

end
