(* ===== verification/Kernel.thy ===== *)
theory Kernel
  imports Interrupts Gdt
begin

text \<open>
  \<^verbatim>\<open>kernel_main\<close> and the static data of \<^verbatim>\<open>src/kernel.c\<close>: the segment table, the task state segment, and the
  order in which the components are started, up to the entry into the first program. The registers that the
  assembler routines load (GDTR, TR, the paging bit of CR0) are fields of the state.
\<close>

abbreviation (input) PEACHOS_TOTAL_GDT_SEGMENTS :: int where "PEACHOS_TOTAL_GDT_SEGMENTS \<equiv> 6"

record kernelstate = idtstate +
  gdt_real_at :: u32
  gdt_structured_at :: u32
  gdtr :: "u16 \<times> u32"
  tss_at :: u32
  task_register :: u16
  paging_enabled :: bool
  blank_path_at :: u32

text \<open>The initial value of the array \<^verbatim>\<open>gdt_structured\<close>, for the address of \<^verbatim>\<open>tss\<close>, which is 100 bytes.\<close>

definition gdt_structured_table :: "u32 \<Rightarrow> gdt_structured list" where
  "gdt_structured_table tss =
    [\<lparr>gdt_base = 0, gdt_limit = 0, gdt_type = 0\<rparr>,
     \<lparr>gdt_base = 0, gdt_limit = 0xffffffff, gdt_type = 0x9a\<rparr>,
     \<lparr>gdt_base = 0, gdt_limit = 0xffffffff, gdt_type = 0x92\<rparr>,
     \<lparr>gdt_base = 0, gdt_limit = 0xffffffff, gdt_type = 0xf8\<rparr>,
     \<lparr>gdt_base = 0, gdt_limit = 0xffffffff, gdt_type = 0xf2\<rparr>,
     \<lparr>gdt_base = tss, gdt_limit = 100, gdt_type = 0xe9\<rparr>]"

section \<open>Registers\<close>

definition gdt_load :: "u32 \<Rightarrow> int \<Rightarrow> 'z kernelstate_scheme \<Rightarrow> 'z kernelstate_scheme" where
  "gdt_load gdt sz s = s\<lparr>gdtr := (word_of_int sz, gdt)\<rparr>"

definition tss_load :: "int \<Rightarrow> 'z kernelstate_scheme \<Rightarrow> 'z kernelstate_scheme" where
  "tss_load tss_segment s = s\<lparr>task_register := word_of_int tss_segment\<rparr>"

definition enable_paging :: "'z kernelstate_scheme \<Rightarrow> 'z kernelstate_scheme" where
  "enable_paging s = s\<lparr>paging_enabled := True\<rparr>"

section \<open>Starting up\<close>

text \<open>\<open>None\<close> in what follows: the kernel panics or a component does not return.\<close>

definition kernel_segments :: "'z kernelstate_scheme \<Rightarrow> 'z kernelstate_scheme option" where
  "kernel_segments s = do {
     let s1 = terminal_init s;
     let m2 = memset (kmem s1) (gdt_real_at s1) 0 48;
     m3 \<leftarrow> gdt_structured_to_gdt m2 (gdt_real_at s1) (gdt_structured_at s1) PEACHOS_TOTAL_GDT_SEGMENTS;
     Some (gdt_load (gdt_real_at s1) 48 (put_kmem m3 s1))
   }"

definition kernel_tss :: "'z kernelstate_scheme \<Rightarrow> 'z kernelstate_scheme" where
  "kernel_tss s =
     (let m1 = memset (kmem s) (tss_at s) 0 100;
          m2 = write32 m1 (tss_at s + 4) 0x600000;
          m3 = write32 m2 (tss_at s + 8) 0x10
      in tss_load 0x28 (put_kmem m3 s))"

definition kernel_paging :: "'z kernelstate_scheme \<Rightarrow> 'z kernelstate_scheme" where
  "kernel_paging s =
     (let (chunk, s1) = paging_new_4gb (PAGING_IS_WRITABLE OR PAGING_IS_PRESENT OR PAGING_ACCESS_FROM_ALL) s;
          s2 = s1\<lparr>kernel_chunk := chunk\<rparr>
      in enable_paging (paging_switch (kernel_chunk s2) s2))"

definition kernel_components :: "device \<Rightarrow> 'z kernelstate_scheme \<Rightarrow> 'z kernelstate_scheme option" where
  "kernel_components dev s = do {
     s1 \<leftarrow> kernel_segments s;
     s2 \<leftarrow> fs_init (kheap_init s1);
     s3 \<leftarrow> disk_search_and_init dev s2;
     s4 \<leftarrow> isr80h_register_commands (kernel_paging (kernel_tss (idt_init s3)));
     keyboard_init s4
   }"

text \<open>The result is what user mode is entered with. \<open>uninit\<close> is the indeterminate local of
  \<open>process_load_for_slot\<close>; \<open>flags\<close> and \<open>ebp\<close> are the processor's.\<close>

definition kernel_main ::
  "device \<Rightarrow> u32 \<Rightarrow> u32 \<Rightarrow> u32 \<Rightarrow> 'z kernelstate_scheme \<Rightarrow> (user_context \<times> 'z kernelstate_scheme) option" where
  "kernel_main dev uninit flags ebp s = do {
     s1 \<leftarrow> kernel_components dev s;
     (res, process, s2) \<leftarrow> process_load_switch dev uninit (blank_path_at s1) 0 s1;
     if res \<noteq> PEACHOS_ALL_OK then None else task_run_first_ever_task flags ebp s2
   }"

text \<open>\<^verbatim>\<open>_start\<close> of \<^verbatim>\<open>kernel.asm\<close> up to the call of \<^verbatim>\<open>kernel_main\<close>: the data segments, the A20 line, the initialisation
  of the interrupt controller.\<close>

definition kernel_start :: "device \<Rightarrow> 'z taskstate_scheme \<Rightarrow> 'z taskstate_scheme" where
  "kernel_start dev s =
     (let s1 = s\<lparr>data_segments := 0x10\<rparr>;
          (al, s2) = insb dev 0x92 s1;
          s3 = outb 0x92 (al OR 2) s2;
          s4 = outb 0x20 0x11 s3;
          s5 = outb 0x21 0x20 s4
      in outb 0x21 0x01 s5)"

text \<open>The A20 bit is set and the other bits of the port are left as they were; memory is not touched.\<close>

lemma kernel_start_effect:
  fixes dev :: device and s :: "'z taskstate_scheme"
  defines "v \<equiv> (ucast (dev (iolog s) 0x92) OR 2 :: u8)"
  shows "iolog (kernel_start dev s) =
      [Outb 0x21 0x01, Outb 0x21 0x20, Outb 0x20 0x11, Outb 0x92 v, Insb 0x92] @ iolog s"
    "bit v i \<longleftrightarrow> i = 1 \<or> bit (ucast (dev (iolog s) 0x92) :: u8) i" "kmem (kernel_start dev s) = kmem s"
    "data_segments (kernel_start dev s) = 0x10"
proof -
  have "bit (2 :: u8) i \<longleftrightarrow> i = 1" using bit_double_iff [of "1 :: u8" i] by (auto simp: bit_1_iff)
  then show "bit v i \<longleftrightarrow> i = 1 \<or> bit (ucast (dev (iolog s) 0x92) :: u8) i"
    unfolding v_def bit_or_iff by blast
qed (simp_all add: kernel_start_def insb_def outb_def v_def Let_def)

section \<open>Segments\<close>

text \<open>The table is in memory, apart from the descriptors and from the screen, and the descriptors do not
  overlap the task state segment.\<close>

definition gdt_ready :: "'z kernelstate_scheme \<Rightarrow> bool" where
  "gdt_ready s \<longleftrightarrow> unat (gdt_real_at s) + 48 \<le> 4294967296 \<and> unat (gdt_structured_at s) + 72 \<le> 4294967296 \<and>
     span (gdt_real_at s) 48 \<inter> span (gdt_structured_at s) 72 = {} \<and> span (gdt_structured_at s) 72 \<inter> span 0xB8000 3200 = {} \<and>
     unat (tss_at s) + 100 \<le> 4294967296 \<and> span (gdt_real_at s) 48 \<inter> span (tss_at s) 100 = {} \<and>
     (\<forall>i < 6. read_gdt_structured (kmem s) (gdt_structured_at s + 12 * word_of_nat i) = gdt_structured_table (tss_at s) ! i)"


section \<open>The page walk\<close>

text \<open>The walk uses the directory entry and the table entry of the page of the address; the table entry is what
  \<^verbatim>\<open>paging_get\<close> reads.\<close>

lemma page_of_unat: "unat (va AND 0xfffff000 :: u32) = unat va div 4096 * 4096"
proof -
  have m: "(va AND 0xfffff000 :: u32) = push_bit 12 (drop_bit 12 va)"
    by (rule bit_word_eqI) (auto simp: bit_simps page_mask)
  have "unat (push_bit 12 (drop_bit 12 va) :: u32) = unat va div 4096 * 4096"
    using unat_le_max32 [of va]
    by (simp add: push_bit_eq_mult unat_word_ariths unat_drop_bit_eq drop_bit_eq_div)
  then show ?thesis by (simp only: m)
qed

lemma page_of_aligned: "paging_is_aligned (va AND 0xfffff000)"
  by (simp add: aligned_iff page_of_unat)

lemma page_of_index:
  "dir_index (va AND 0xfffff000) = dir_index va" "tab_index (va AND 0xfffff000) = tab_index va"
proof -
  have "unat va div 4096 * 4096 div 4194304 = unat va div 4194304"
    using div_mult2_eq [of "unat va div 4096 * 4096" 4096 1024] div_mult2_eq [of "unat va" 4096 1024] by simp
  then show "dir_index (va AND 0xfffff000) = dir_index va" by (simp add: dir_index_def page_of_unat)
  have "unat va div 4096 * 4096 mod 4194304 = unat va div 4096 mod 1024 * 4096"
    using mult_mod_left [of "unat va div 4096" 1024 4096] by simp
  moreover have "unat va mod 4194304 div 4096 = unat va div 4096 mod 1024"
    using mod_mult2_eq [of "unat va" 4096 1024] by simp
  ultimately show "tab_index (va AND 0xfffff000) = tab_index va" by (simp add: tab_index_def page_of_unat)
qed

lemma index_words:
  "va div 0x400000 = (word_of_nat (dir_index va) :: u32)" "va mod 0x400000 div 4096 = (word_of_nat (tab_index va) :: u32)"
proof -
  have "(word_of_nat (unat (va div 0x400000)) :: u32) = va div 0x400000" by simp
  then show "va div 0x400000 = (word_of_nat (dir_index va) :: u32)" by (simp only: unat_div dir_index_def) simp
  have "(word_of_nat (unat (va mod 0x400000 div 4096)) :: u32) = va mod 0x400000 div 4096" by simp
  then show "va mod 0x400000 div 4096 = (word_of_nat (tab_index va) :: u32)"
    by (simp only: unat_div unat_mod tab_index_def) simp
qed

lemma translate_page:
  "translate m d va =
     (if read32 m (d + 4 * word_of_nat (dir_index va)) AND 1 = 0 \<or> paging_get m d (va AND 0xfffff000) AND 1 = 0 then None
      else Some ((paging_get m d (va AND 0xfffff000) AND 0xfffff000) OR (va AND 0xfff)))"
  by (simp add: translate_def Let_def index_words paging_get_eq [OF page_of_aligned] entry_addr_def table_of_def page_of_index)

lemma page_and_offset: "(va AND 0xfffff000) OR (va AND 0xfff) = (va :: u32)"
proof -
  have "(0xfff :: u32) = mask 12" by (simp add: mask_eq_exp_minus_1)
  then show ?thesis unfolding page_mask by (simp only:) (rule bit_word_eqI, auto simp: bit_simps)
qed

lemma page_entry_frame: "((va AND 0xfffff000) OR ucast (f :: u8)) AND 0xfffff000 = (va AND 0xfffff000 :: u32)"
  unfolding page_mask
proof (rule bit_word_eqI)
  fix n
  show "n < LENGTH(32) \<Longrightarrow> bit ((va AND NOT (mask 12) OR ucast f) AND NOT (mask 12)) n \<longleftrightarrow> bit (va AND NOT (mask 12) :: u32) n"
    using bit_imp_le_length [of f n] by (auto simp: bit_simps)
qed

lemma present_entry: "(x OR ucast (f :: u8)) AND 1 \<noteq> (0 :: u32)" if "bit f 0"
proof -
  have "bit ((x OR ucast f) AND 1 :: u32) 0" using that by (simp add: bit_simps bit_1_iff)
  then show ?thesis by auto
qed

text \<open>The address spaces that \<^verbatim>\<open>paging_new_4gb\<close> builds translate every address to itself.\<close>

lemma present_directory: "bit f 0 \<Longrightarrow> (t OR ucast (f :: u8) OR 2) AND 1 \<noteq> (0 :: u32)"
  using present_entry [of f "t OR 2"] by (simp only: or.assoc or.commute or.left_commute simp_thms)

lemma translate_identity:
  assumes "bit f 0" "\<forall>v. paging_is_aligned v \<longrightarrow> paging_get m d v = v OR ucast (f :: u8)"
    "\<forall>i < 1024. read32 m (d + 4 * word_of_nat i) AND 1 \<noteq> 0"
  shows "translate m d va = Some va"
proof -
  have "read32 m (d + 4 * word_of_nat (dir_index va)) AND 1 \<noteq> 0" using assms(3) index_bounds(1) by simp
  moreover have "paging_get m d (va AND 0xfffff000) = (va AND 0xfffff000) OR ucast f" using assms(2) page_of_aligned by blast
  ultimately show ?thesis
    using present_entry [OF assms(1), of "va AND 0xfffff000"] by (simp only: translate_page page_entry_frame page_and_offset simp_thms if_False)
qed

section \<open>The screen is all that \<^verbatim>\<open>terminal_init\<close> writes\<close>

lemma clear_row_frame:
  "0 \<le> x \<Longrightarrow> 0 \<le> y \<Longrightarrow> nat (y * 80 + x) + n \<le> 1600 \<Longrightarrow> unat (video_mem s) + 3200 \<le> 4294967296 \<Longrightarrow>
     \<exists>m. terminal_clear_row x y n s = s\<lparr>kmem := m\<rparr> \<and> agree_off (span (video_mem s) 3200) (kmem s) m"
proof (induction n arbitrary: x s)
  case 0
  then show ?case by (intro exI [of _ "kmem s"]) simp
next
  case (Suc n)
  let ?j = "nat (y * 80 + x)" and ?v = "video_mem s"
  let ?m = "write16 (kmem s) (?v + 2 * word_of_nat ?j) (terminal_make_char 0x20 0)"
  have "word_of_int (y * 80 + x) = (word_of_nat ?j :: u32)" using Suc.prems by (simp only: word_of_int_nat)
  then have p: "terminal_putchar x y 0x20 0 s = s\<lparr>kmem := ?m\<rparr>" by (simp add: terminal_putchar_def)
  have j: "?j < 1600" "nat (y * 80 + (x + 1)) + n \<le> 1600" using Suc.prems by auto
  have "span (?v + 2 * word_of_nat ?j) 2 \<subseteq> span ?v 3200"
    using Suc.prems(4) j(1) by (intro span_subset) (simp_all add: unat_array_index2 [where n = 1600])
  then have a: "agree_off (span ?v 3200) (kmem s) ?m" by (rule agree_off_mono [OF write16_agree])
  obtain m where "terminal_clear_row (x + 1) y n (s\<lparr>kmem := ?m\<rparr>) = s\<lparr>kmem := m\<rparr>" "agree_off (span ?v 3200) ?m m"
    using Suc.IH [of "x + 1" "s\<lparr>kmem := ?m\<rparr>"] Suc.prems(1,2,4) j(2) by auto
  then show ?case using p agree_off_trans_same [OF a] by auto
qed

lemma clear_rows_frame:
  "0 \<le> y \<Longrightarrow> nat y * 80 + n * 80 \<le> 1600 \<Longrightarrow> unat (video_mem s) + 3200 \<le> 4294967296 \<Longrightarrow>
     \<exists>m. terminal_clear_rows y n s = s\<lparr>kmem := m\<rparr> \<and> agree_off (span (video_mem s) 3200) (kmem s) m"
proof (induction n arbitrary: y s)
  case 0
  then show ?case by (intro exI [of _ "kmem s"]) simp
next
  case (Suc n)
  have y: "nat (y * 80 + 0) + 80 \<le> 1600" "nat (y + 1) * 80 + n * 80 \<le> 1600"
    using Suc.prems(1,2) by (auto simp: nat_mult_distrib nat_add_distrib)
  obtain m1 where m1: "terminal_clear_row 0 y 80 s = s\<lparr>kmem := m1\<rparr>" "agree_off (span (video_mem s) 3200) (kmem s) m1"
    using clear_row_frame [of 0 y 80 s] Suc.prems y(1) by auto
  obtain m2 where "terminal_clear_rows (y + 1) n (s\<lparr>kmem := m1\<rparr>) = s\<lparr>kmem := m2\<rparr>" "agree_off (span (video_mem s) 3200) m1 m2"
    using Suc.IH [of "y + 1" "s\<lparr>kmem := m1\<rparr>"] Suc.prems y(2) by auto
  then show ?case using m1 agree_off_trans_same [OF m1(2)] by auto
qed

lemma terminal_init_frame:
  "\<exists>m. terminal_init s = s\<lparr>video_mem := 0xB8000, terminal_row := 0, terminal_col := 0, kmem := m\<rparr> \<and>
     agree_off (span 0xB8000 3200) (kmem s) m"
  using clear_rows_frame [of 0 20 "s\<lparr>video_mem := 0xB8000, terminal_row := 0, terminal_col := 0\<rparr>"]
  by (simp add: terminal_init_def)

section \<open>Properties\<close>

lemma less_6_cases:
  assumes "(i :: nat) < 6"
  obtains "i = 0" | "i = 1" | "i = 2" | "i = 3" | "i = 4" | "i = 5"
  using assms by linarith

lemma table_encodable: "i < 6 \<Longrightarrow> encodable (gdt_structured_table tss ! i)"
  by (elim less_6_cases) (simp_all add: gdt_structured_table_def encodable_def)

lemma kernel_segments_spec:
  assumes "gdt_ready s"
  shows "\<exists>m v r c. kernel_segments s = Some (s\<lparr>video_mem := v, terminal_row := r, terminal_col := c, kmem := m,
       gdtr := (48, gdt_real_at s)\<rparr>) \<and>
     (\<forall>i < 6. decodes m (gdt_real_at s + 8 * word_of_nat i) (gdt_structured_table (tss_at s) ! i))"
proof -
  let ?g = "gdt_real_at s" and ?sg = "gdt_structured_at s"
  note r = assms [unfolded gdt_ready_def]
  obtain m0 where m0: "terminal_init s = s\<lparr>video_mem := 0xB8000, terminal_row := 0, terminal_col := 0, kmem := m0\<rparr>"
    "agree_off (span 0xB8000 3200) (kmem s) m0" using terminal_init_frame [of s] by blast
  let ?m = "memset m0 ?g 0 48"
  have "agree_off (span ?g 48) m0 ?m" using memset_agree [of ?g 48 m0 0] by simp
  then have a: "agree_off (span 0xB8000 3200 \<union> span ?g 48) (kmem s) ?m" by (rule agree_off_trans [OF m0(2)])
  have src: "read_gdt_structured ?m (?sg + 12 * word_of_nat i) = gdt_structured_table (tss_at s) ! i" if "i < 6" for i
  proof -
    have "span (?sg + 12 * word_of_nat i) 12 \<subseteq> span ?sg (12 * 6)" using element_span [of ?sg 12 6 i] r that by simp
    then have "span (?sg + 12 * word_of_nat i) 12 \<inter> (span 0xB8000 3200 \<union> span ?g 48) = {}" using r by auto
    then have "read_gdt_structured ?m (?sg + 12 * word_of_nat i) = read_gdt_structured (kmem s) (?sg + 12 * word_of_nat i)"
      by (rule read_gdt_agree [OF a])
    then show ?thesis using r that by simp
  qed
  have "unat ?g + 8 * 6 \<le> 4294967296" "unat ?sg + 12 * 6 \<le> 4294967296" "span ?g (8 * 6) \<inter> span ?sg (12 * 6) = {}"
    using r by auto
  moreover have "\<forall>j. 0 \<le> j \<and> j < 6 \<longrightarrow> encodable (read_gdt_structured ?m (?sg + 12 * word_of_nat j))"
    using src table_encodable by simp
  ultimately obtain m where m: "gdt_loop ?m ?g ?sg 0 6 = Some m"
    "\<forall>j < 6. decodes m (?g + 8 * word_of_nat j) (read_gdt_structured ?m (?sg + 12 * word_of_nat j))"
    using gdt_loop_decodes [of ?g 6 ?sg 0 6 ?m] by auto
  then show ?thesis using src
    by (simp add: kernel_segments_def m0(1) gdt_structured_to_gdt_def gdt_load_def put_kmem_def Let_def) blast
qed

lemma kernel_tss_spec:
  assumes "unat (tss_at s) + 100 \<le> 4294967296"
  shows "\<exists>m. kernel_tss s = s\<lparr>kmem := m, task_register := 0x28\<rparr> \<and> agree_off (span (tss_at s) 100) (kmem s) m \<and>
     read32 m (tss_at s + 4) = 0x600000 \<and> read32 m (tss_at s + 8) = 0x10"
proof -
  let ?t = "tss_at s"
  let ?m1 = "memset (kmem s) ?t 0 100" and ?m2 = "write32 (memset (kmem s) ?t 0 100) (?t + 4) 0x600000"
  have f: "span (?t + 4) 4 \<subseteq> span ?t 100" "span (?t + 8) 4 \<subseteq> span ?t 100"
    using span_offset [of 4 100 ?t] span_offset [of 8 100 ?t] span_mono [of 4 96 "?t + 4"] span_mono [of 4 92 "?t + 8"] by auto
  have "agree_off (span ?t 100) (kmem s) ?m1" using memset_agree [of ?t 100 "kmem s" 0] by simp
  moreover have "agree_off (span ?t 100) ?m1 ?m2" by (rule agree_off_mono [OF write32_agree f(1)])
  moreover have "agree_off (span ?t 100) ?m2 (write32 ?m2 (?t + 8) 0x10)" by (rule agree_off_mono [OF write32_agree f(2)])
  ultimately have "agree_off (span ?t 100) (kmem s) (write32 ?m2 (?t + 8) 0x10)" by (blast intro: agree_off_trans_same)
  moreover have "span (?t + 4) 4 \<inter> span (?t + 8) 4 = {}" using assms by (intro span_disjoint) (simp_all add: unat_word_ariths)
  then have "read32 (write32 ?m2 (?t + 8) 0x10) (?t + 4) = 0x600000" by (simp add: mem_simps)
  ultimately show ?thesis
    by (intro exI [of _ "write32 ?m2 (?t + 8) 0x10"]) (simp add: kernel_tss_def tss_load_def put_kmem_def Let_def)
qed

lemma kernel_paging_spec:
  assumes "kheap_ready s A" "1026 \<le> kheap_avail s"
  shows "paging_enabled (kernel_paging s) \<and> kept A (kmem s) (kmem (kernel_paging s)) \<and>
     translate (kmem (kernel_paging s)) (cr3 (kernel_paging s)) va = Some va"
proof -
  let ?f = "PAGING_IS_WRITABLE OR PAGING_IS_PRESENT OR PAGING_ACCESS_FROM_ALL :: u8"
  obtain c d ts m where p: "paging_new_4gb ?f s = (c, put_kmem m s)" "chunk_owns (put_kmem m s) (with_pages A (c # d # ts)) c d ts"
      "\<forall>i < 1024. read32 m (d + 4 * word_of_nat i) = ts ! i OR ucast ?f OR 2"
      "\<forall>v. paging_is_aligned v \<longrightarrow> paging_get m d v = v OR ucast ?f" "kept A (kmem s) m"
    using paging_new_4gb_owns [OF assms, of ?f] by (elim exE conjE) (rule that, assumption+)
  let ?s = "kernel_paging s"
  have d: "directory_entry m c = d" using p(2) by (simp add: chunk_owns_def)
  have s: "kmem ?s = m" "cr3 ?s = d" "paging_enabled ?s"
    using p(1) d by (simp_all add: kernel_paging_def enable_paging_def paging_switch_def paging_load_directory_def put_kmem_def)
  have f0: "bit ?f 0" by simp
  have "\<forall>i < 1024. read32 m (d + 4 * word_of_nat i) AND 1 \<noteq> 0" using p(3) present_directory [OF f0] by simp
  then have "translate m d va = Some va" using translate_identity [OF f0 p(4)] by simp
  then show ?thesis using s p(5) by simp
qed

text \<open>C24: When the compiled-in segment table is in memory, the first step of
  \<^verbatim>\<open>kernel_main\<close> returns and the GDT register names a table of 48 bytes whose six descriptors
  the processor decodes to the bases, limits and types of the source. When the task state segment is set up later, in
  any state in which that table is unchanged, the task register selects the descriptor whose base is the segment, and
  the segment names the kernel's stack at 0x600000 and its data selector.\<close>

theorem kernel_boot_segments:
  assumes "gdt_ready s"
  shows "\<exists>s1. kernel_segments s = Some s1 \<and> gdtr s1 = (48, gdt_real_at s) \<and>
     (\<forall>t. gdtr t = gdtr s1 \<and> tss_at t = tss_at s \<and> (\<forall>x \<in> span (gdt_real_at s) 48. kmem t x = kmem s1 x) \<longrightarrow>
       (let s2 = kernel_tss t; d = snd (gdtr s2) + ucast (task_register s2) in
         (\<forall>i < 6. decodes (kmem s2) (gdt_real_at s + 8 * word_of_nat i) (gdt_structured_table (tss_at s) ! i)) \<and>
         desc_base (kmem s2) d = tss_at s \<and>
         read32 (kmem s2) (desc_base (kmem s2) d + 4) = 0x600000 \<and> read32 (kmem s2) (desc_base (kmem s2) d + 8) = 0x10))"
proof -
  let ?g = "gdt_real_at s" and ?T = "gdt_structured_table (tss_at s)"
  note r = assms [unfolded gdt_ready_def]
  obtain s1 where s1: "kernel_segments s = Some s1" "gdtr s1 = (48, ?g)"
    "\<forall>i < 6. decodes (kmem s1) (?g + 8 * word_of_nat i) (?T ! i)"
    using kernel_segments_spec [OF assms] by auto
  have *: "let s2 = kernel_tss t; d = snd (gdtr s2) + ucast (task_register s2) in
      (\<forall>i < 6. decodes (kmem s2) (?g + 8 * word_of_nat i) (?T ! i)) \<and> desc_base (kmem s2) d = tss_at s \<and>
      read32 (kmem s2) (desc_base (kmem s2) d + 4) = 0x600000 \<and> read32 (kmem s2) (desc_base (kmem s2) d + 8) = 0x10"
    if t: "gdtr t = gdtr s1" "tss_at t = tss_at s" "\<forall>x \<in> span ?g 48. kmem t x = kmem s1 x" for t
  proof -
    have "unat (tss_at t) + 100 \<le> 4294967296" using r t(2) by simp
    then obtain m where m: "kernel_tss t = t\<lparr>kmem := m, task_register := 0x28\<rparr>" "agree_off (span (tss_at s) 100) (kmem t) m"
      "read32 m (tss_at s + 4) = 0x600000" "read32 m (tss_at s + 8) = 0x10"
      using kernel_tss_spec [of t] t(2) by auto
    have off: "agree_off (- span ?g 48) (kmem s1) m"
      using m(2) t(3) r by (auto simp: agree_off_def)
    have dec: "decodes m (?g + 8 * word_of_nat i) (?T ! i)" if i: "i < 6" for i
      using element_span [of ?g 8 6 i] r i s1(3) by (intro decodes_agree [OF off]) auto
    have "desc_base m (?g + 0x28) = tss_at s" using dec [of 5] by (simp add: decodes_def gdt_structured_table_def)
    then show ?thesis using dec m t(1) s1(2) by (simp add: Let_def)
  qed
  show ?thesis
    using s1(1,2) by - (rule exI [of _ s1], intro conjI allI impI, assumption, assumption, elim conjE, rule *)
qed

text \<open>C12: Turning paging on with 1026 pages free in the kernel heap changes no address: in the address space that
  CR3 then names, every one of the \<open>2 ^ 32\<close> virtual addresses is translated to itself; and no allocation that
  was live before is written.\<close>

theorem kernel_paging_identity:
  assumes "kheap_ready s A" "1026 \<le> kheap_avail s"
  shows "paging_enabled (kernel_paging s) \<and> kept A (kmem s) (kmem (kernel_paging s)) \<and>
     (\<forall>va. translate (kmem (kernel_paging s)) (cr3 (kernel_paging s)) va = Some va)"
  using kernel_paging_spec [OF assms] by blast

section \<open>Witnesses\<close>

text \<open>The segment table at 0x8000, the descriptors at 0x8100 and the task state segment at 0x8200.\<close>

definition demo_gdt_table :: mem where
  "demo_gdt_table = (\<lambda>_. 0)
     (0x8010 := 0xff, 0x8011 := 0xff, 0x8012 := 0xff, 0x8013 := 0xff, 0x8014 := 0x9a,
      0x801c := 0xff, 0x801d := 0xff, 0x801e := 0xff, 0x801f := 0xff, 0x8020 := 0x92,
      0x8028 := 0xff, 0x8029 := 0xff, 0x802a := 0xff, 0x802b := 0xff, 0x802c := 0xf8,
      0x8034 := 0xff, 0x8035 := 0xff, 0x8036 := 0xff, 0x8037 := 0xff, 0x8038 := 0xf2,
      0x803d := 0x82, 0x8040 := 100, 0x8044 := 0xe9)"

definition demo_kernel :: kernelstate where
  "demo_kernel = idtstate.extend (demo_idt []\<lparr>kmem := demo_gdt_table\<rparr>)
     \<lparr>gdt_real_at = 0x8100, gdt_structured_at = 0x8000, gdtr = (0, 0), tss_at = 0x8200, task_register = 0,
      paging_enabled = False, blank_path_at = 0x8300\<rparr>"

lemma demo_kernel_simps [simp]:
  "gdt_real_at demo_kernel = 0x8100" "gdt_structured_at demo_kernel = 0x8000" "tss_at demo_kernel = 0x8200"
  "kmem demo_kernel = demo_gdt_table"
  by (simp_all add: demo_kernel_def idtstate.defs demo_idt_def)

lemma demo_kernel_table:
  assumes "i < 6"
  shows "read_gdt_structured demo_gdt_table (0x8000 + 12 * word_of_nat i) = gdt_structured_table 0x8200 ! i"
  using assms by (elim less_6_cases)
    (simp_all add: read_gdt_structured_def gdt_structured_table_def demo_gdt_table_def read32_def)

lemma demo_kernel_ready: "gdt_ready demo_kernel"
  using demo_kernel_table by (simp add: gdt_ready_def span_disjoint span_disjoint_sym)

theorem kernel_boot_segments_witness:
  "\<exists>s1. kernel_segments demo_kernel = Some s1 \<and> gdtr s1 = (48, 0x8100)"
  using kernel_boot_segments [OF demo_kernel_ready] by (elim exE conjE) (intro exI conjI, assumption, simp)

theorem kernel_paging_identity_witness:
  "translate (kmem (kernel_paging (kheap_init demo_kernel))) (cr3 (kernel_paging (kheap_init demo_kernel))) 0xb8001 = Some 0xb8001"
proof -
  have a: "kheap_ready (kheap_init demo_kernel) (\<lambda>_. None)" "1026 \<le> kheap_avail (kheap_init demo_kernel)"
    using kheap_init_avail [of demo_kernel] by simp_all
  show ?thesis using kernel_paging_identity [OF a] by blast
qed

end
