(* ===== verification/UserMemory.thy ===== *)
theory UserMemory
  imports Kernel
begin

text \<open>
  Data that crosses from a program into the kernel: \<^verbatim>\<open>copy_string_from_task\<close> of \<^verbatim>\<open>src/task/task.c\<close> and the print
  call of \<^verbatim>\<open>src/isr80h/io.c\<close> that rests on it. The operations themselves are in \<open>Task\<close> and \<open>Interrupts\<close>; this
  theory shows what they do together: the kernel borrows a page of its heap, maps it into the program's address
  space, copies the string through the program's page tables, puts the table entry back and frees the page.
\<close>

section \<open>The page walk after an update\<close>

lemma page_of_offset:
  assumes "unat p mod 4096 = 0" "j < 4096"
  shows "(p + word_of_nat j) AND 0xfffff000 = (p :: u32)"
proof -
  have "unat (p + word_of_nat j) = unat p + j"
  proof -
    have "unat (word_of_nat j :: u32) = j" using assms(2) by (simp add: unat_of_nat)
    moreover have "unat p + j < 4294967296" using aligned_room [OF assms(1)] assms(2) by linarith
    ultimately show ?thesis using unat_add_lem [of p "word_of_nat j"] by simp
  qed
  moreover obtain k where k: "unat p = 4096 * k" using assms(1) by (metis mod_0_imp_dvd dvdE)
  then have "(unat p + j) div 4096 * 4096 = unat p" using assms(2) by simp
  ultimately have "unat ((p + word_of_nat j) AND 0xfffff000) = unat p" by (simp add: page_of_unat)
  then show ?thesis by (simp add: word_unat_eq_iff)
qed

definition walk_region :: "mem \<Rightarrow> u32 \<Rightarrow> u32 set" where
  "walk_region m d = span d 4096 \<union> tables_region m d"

lemma translate_agree:
  assumes "agree_off S m m'" "walk_region m d \<inter> S = {}" "unat d mod 4096 = 0"
  shows "translate m' d va = translate m d va" "paging_get m' d (va AND 0xfffff000) = paging_get m d (va AND 0xfffff000)"
proof -
  have x: "m' x = m x" if "x \<in> span d 4096 \<union> tables_region m d" for x
    using agree_offD [OF assms(1)] assms(2) that unfolding walk_region_def by blast
  show p: "paging_get m' d (va AND 0xfffff000) = paging_get m d (va AND 0xfffff000)"
    by (rule paging_get_agree [OF page_of_aligned x assms(3)])
  have "read32 m' (d + 4 * word_of_nat (dir_index va)) = read32 m (d + 4 * word_of_nat (dir_index va))"
    using slot_in_page [OF assms(3) index_bounds(1), of va] x by (intro read32_span) auto
  then show "translate m' d va = translate m d va" by (simp only: translate_page p)
qed

lemma directory_set:
  assumes "paging_wf m d" "i < 1024"
  shows "read32 (write32 m (entry_addr m d v) val) (d + 4 * word_of_nat i) = read32 m (d + 4 * word_of_nat i)"
proof -
  have "table_of m d (dir_index v) \<noteq> d" using assms(1) index_bounds(1) by (simp add: paging_wf_def)
  then have "span (d + 4 * word_of_nat i) 4 \<inter> span (entry_addr m d v) 4 = {}"
    unfolding entry_addr_def using assms
    by (intro slot_disjoint table_aligned index_bounds) (auto simp: paging_wf_def)
  then show ?thesis by (simp add: mem_simps)
qed

lemma translate_set:
  assumes "paging_wf m d" "paging_is_aligned p"
  shows "translate (write32 m (entry_addr m d p) val) d va =
    (if va AND 0xfffff000 \<noteq> p then translate m d va
     else if read32 m (d + 4 * word_of_nat (dir_index va)) AND 1 = 0 \<or> val AND 1 = 0 then None
     else Some ((val AND 0xfffff000) OR (va AND 0xfff)))"
  unfolding translate_page directory_set [OF assms(1) index_bounds(1)] set_get [OF assms page_of_aligned] by simp

text \<open>A page that is mapped to itself.\<close>

lemma page_val: "unat p mod 4096 = 0 \<Longrightarrow> (p OR 7) AND 0xfffff000 = (p :: u32)" "(p OR 7) AND 1 \<noteq> (0 :: u32)"
proof -
  show "(p OR 7) AND 0xfffff000 = p" if a: "unat p mod 4096 = 0"
    using page_frame_of_entry [OF a, of 5] by (simp add: or.assoc)
  have "bit ((p OR 7) AND 1 :: u32) 0" by (simp add: bit_simps bit_1_iff)
  then show "(p OR 7) AND 1 \<noteq> (0 :: u32)" by auto
qed

lemma translate_mapped:
  assumes "paging_wf m d" "unat p mod 4096 = 0" "j < 4096" "read32 m (d + 4 * word_of_nat (dir_index p)) AND 1 \<noteq> 0"
  shows "translate (write32 m (entry_addr m d p) (p OR 7)) d (p + word_of_nat j) = Some (p + word_of_nat j)"
proof -
  have pg: "(p + word_of_nat j) AND 0xfffff000 = p" by (rule page_of_offset [OF assms(2,3)])
  then have di: "dir_index (p + word_of_nat j) = dir_index p" using page_of_index(1) [of "p + word_of_nat j"] by simp
  have "(p AND 0xfffff000) = p" using page_of_offset [OF assms(2), of 0] by simp
  then have "p OR ((p + word_of_nat j) AND 0xfff) = p + word_of_nat j"
    using page_and_offset [of "p + word_of_nat j"] unfolding pg by simp
  then show ?thesis
    using translate_set [OF assms(1), of p "p OR 7" "p + word_of_nat j"] assms(2,4)
    by (simp add: pg di page_val aligned_iff)
qed

text \<open>Writing back what was there restores the bytes.\<close>

lemma read32_bytes:
  "ucast (read32 m a) = m a" "ucast (drop_bit 8 (read32 m a)) = m (a + 1)"
  "ucast (drop_bit 16 (read32 m a)) = m (a + 2)" "ucast (drop_bit 24 (read32 m a)) = m (a + 3)"
  unfolding read32_def by (rule bit_word_eqI, auto simp: bit_simps dest: bit_imp_le_length)+

lemma write32_restores: "x \<in> span a 4 \<Longrightarrow> write32 m a (read32 m0 a) x = m0 x"
  by (auto simp: span4_cases write32_def read32_bytes)

section \<open>Copying through the page tables\<close>

text \<open>\<open>user_string m d va cs U\<close>: in the address space \<open>d\<close> the NUL-terminated string \<open>cs\<close> is at \<open>va\<close>, and neither
  its addresses nor the places they are translated to are in \<open>U\<close>.\<close>

definition user_string :: "mem \<Rightarrow> u32 \<Rightarrow> u32 \<Rightarrow> u8 list \<Rightarrow> u32 set \<Rightarrow> bool" where
  "user_string m d va cs U \<longleftrightarrow> 0 \<notin> set cs \<and> (\<forall>j \<le> length cs. va + word_of_nat j \<notin> U \<and>
     (\<exists>a. translate m d (va + word_of_nat j) = Some a \<and> a \<notin> U \<and> m a = (cs @ [0]) ! j))"

lemma vstrncpy_loop_copies:
  assumes tr: "\<And>m' va. agree_off (span dest N) m0 m' \<Longrightarrow> translate m' d va = translate m0 d va"
    and id: "\<And>j. j < N \<Longrightarrow> translate m0 d (dest + word_of_nat j) = Some (dest + word_of_nat j)"
    and N: "N < 4294967296"
  shows "agree_off (span dest N) m0 m \<Longrightarrow> 0 \<notin> set cs \<Longrightarrow> i + n < N \<Longrightarrow>
    \<forall>j \<le> length cs. \<exists>a. translate m0 d (src + word_of_nat (i + j)) = Some a \<and> a \<notin> span dest N \<and> m0 a = (cs @ [0]) ! j \<Longrightarrow>
    \<exists>m'. vstrncpy_loop m d dest src i n = Some m' \<and> cstr m' (dest + word_of_nat i) (take n cs) \<and>
      agree_off (span dest N) m0 m' \<and> (\<forall>j < i. m' (dest + word_of_nat j) = m (dest + word_of_nat j))"
proof (induction n arbitrary: m i cs)
  have w: "vwrite m d (dest + word_of_nat i) v = Some (m(dest + word_of_nat i := v))"
    "agree_off (span dest N) m0 (m(dest + word_of_nat i := v))"
    "\<forall>j < i. (m(dest + word_of_nat i := v)) (dest + word_of_nat j) = m (dest + word_of_nat j)"
    if "i < N" "agree_off (span dest N) m0 m" for m i v
    using that tr [OF that(2)] id [OF that(1)] N word_of_nat_eq_bounded [of i] span_add_in [of i N dest]
    by (auto simp: vwrite_def agree_off_def word_of_nat_eq_bounded)
  {
    case 0
    then show ?case using w [of i m 0] by simp
  next
    case (Suc n)
    have iN: "i < N" "Suc i + n < N" using Suc.prems(3) by simp_all
    obtain a where a: "translate m0 d (src + word_of_nat i) = Some a" "a \<notin> span dest N" "m0 a = (cs @ [0]) ! 0"
      using Suc.prems(4) [rule_format, of 0] by auto
    have r: "vread m d (src + word_of_nat i) = Some ((cs @ [0]) ! 0)"
      using a tr [OF Suc.prems(1)] agree_offD [OF Suc.prems(1) a(2)] by (simp add: vread_def)
    show ?case
    proof (cases cs)
      case Nil
      then show ?thesis using r w [OF iN(1) Suc.prems(1), of 0] by simp
    next
      case (Cons c cs')
      let ?m = "m(dest + word_of_nat i := c)"
      have c: "c \<noteq> 0" "0 \<notin> set cs'" using Suc.prems(2) Cons by auto
      have "\<forall>j \<le> length cs'. \<exists>a. translate m0 d (src + word_of_nat (Suc i + j)) = Some a \<and> a \<notin> span dest N \<and> m0 a = (cs' @ [0]) ! j"
      proof (intro allI impI)
        fix j assume "j \<le> length cs'"
        then show "\<exists>a. translate m0 d (src + word_of_nat (Suc i + j)) = Some a \<and> a \<notin> span dest N \<and> m0 a = (cs' @ [0]) ! j"
          using Suc.prems(4) [rule_format, of "Suc j"] Cons by simp
      qed
      from Suc.IH [OF w(2) [OF iN(1) Suc.prems(1)] c(2) iN(2) this, of c]
      obtain m' where m': "vstrncpy_loop ?m d dest src (Suc i) n = Some m'" "cstr m' (dest + word_of_nat (Suc i)) (take n cs')"
        "agree_off (span dest N) m0 m'" "\<forall>j < Suc i. m' (dest + word_of_nat j) = ?m (dest + word_of_nat j)" by blast
      have "cstr m' (dest + word_of_nat i) (take (Suc n) cs)"
        using m'(2,4) c(1) Cons by (simp add: ac_simps)
      moreover have "\<forall>j < i. m' (dest + word_of_nat j) = m (dest + word_of_nat j)"
        using m'(4) w(3) [OF iN(1) Suc.prems(1), of c] by simp
      ultimately show ?thesis using m'(1,3) r c(1) Cons w(1) [OF iN(1) Suc.prems(1), of c] by simp
    qed
  }
qed

lemma paging_switch_eq: "paging_switch chunk s = switched (data_segments s) (directory_entry (kmem s) chunk) s"
  by (simp add: paging_switch_def paging_load_directory_def switched_def Let_def)

lemma kfree_switched: "kfree p (switched sel d s) = switched sel d (kfree p s)"
  by (simp add: kfree_def switched_def)

lemma in_page: "(va :: u32) AND 0xfffff000 = p \<Longrightarrow> va \<in> span p 4096"
proof -
  assume p: "va AND 0xfffff000 = p"
  have "unat p = unat va div 4096 * 4096" using page_of_unat [of va] p by simp
  then have "unat p \<le> unat va" "unat va - unat p < 4096" using mod_less_divisor [of 4096 "unat va"] by (simp_all add: minus_div_mult_eq_mod)
  then show ?thesis using unat_diff_le [of p va] by (simp add: span_def)
qed

text \<open>An address space that is live on the heap, with every table present.\<close>

lemma owns_live:
  assumes "chunk_owns s A c d ts"
  shows "walk_region (kmem s) d \<inter> kheap_spare s = {}" "span c 4 \<inter> kheap_spare s = {}"
proof -
  have o: "kheap_ready s A" "length ts = 1024" "\<forall>p \<in> set (c # d # ts). A p = Some 1" "\<forall>i < 1024. table_of (kmem s) d i = ts ! i"
    using assms by (simp_all add: chunk_owns_def)
  have l: "span p 4096 \<inter> kheap_spare s = {}" if "p \<in> set (c # d # ts)" for p
  proof -
    have "A p = Some 1" using o(3) that by blast
    then show ?thesis using kh.live_spare [OF o(1), of p 1] by simp
  qed
  have "span (table_of (kmem s) d i) 4096 \<inter> kheap_spare s = {}" if "i < 1024" for i
    using l [of "ts ! i"] o(2,4) that by simp
  then show "walk_region (kmem s) d \<inter> kheap_spare s = {}"
    using l [of d] unfolding walk_region_def tables_region_def by auto
  show "span c 4 \<inter> kheap_spare s = {}" using l [of c] span_mono [of 4 4096 c] by auto
qed

text \<open>After an allocation the address space is as it was.\<close>

lemma owns_after:
  assumes "chunk_owns s A c d ts" "agree_off (kheap_spare s) (kmem s) m"
  shows "chunk_wf m c d" "walk_region m d = walk_region (kmem s) d" "unat d mod 4096 = 0"
    "i < 1024 \<Longrightarrow> read32 m (d + 4 * word_of_nat i) = read32 (kmem s) (d + 4 * word_of_nat i)"
proof -
  note w = chunk_owns_wf [OF assms(1)] and l = owns_live [OF assms(1)]
  show al: "unat d mod 4096 = 0" using w by (simp add: chunk_wf_def paging_wf_def)
  show e: "read32 m (d + 4 * word_of_nat i) = read32 (kmem s) (d + 4 * word_of_nat i)" if "i < 1024" for i
    using slot_in_page [OF al that] l(1) unfolding walk_region_def by (intro read32_agree [OF assms(2)]) auto
  have t: "table_of m d i = table_of (kmem s) d i" if "i < 1024" for i using e [OF that] by (simp add: table_of_def)
  show "walk_region m d = walk_region (kmem s) d" unfolding walk_region_def tables_region_def using t by auto
  have "directory_entry m c = directory_entry (kmem s) c"
    unfolding directory_entry_def by (rule read32_agree [OF assms(2) l(2)])
  then show "chunk_wf m c d" using w t by (simp add: chunk_wf_def paging_wf_def)
qed

text \<open>The copy into a fresh page \<open>p\<close> that is mapped to itself for the time of the copy.\<close>

lemma copy_through_tables:
  assumes own: "chunk_owns s A c d ts" and a1: "agree_off (kheap_spare s) (kmem s) m1"
    and p: "unat p mod 4096 = 0" "span p 4096 \<subseteq> kheap_spare s"
    and present: "\<forall>i < 1024. read32 (kmem s) (d + 4 * word_of_nat i) AND 1 \<noteq> 0"
    and mx: "0 < mx" "mx < 4096"
    and str: "user_string (kmem s) d virtual cs (kheap_spare s \<union> walk_region (kmem s) d)"
    and e: "e = entry_addr m1 d p" and m2: "m2 = write32 m1 e (p OR 7)"
  shows "\<exists>m4. vstrncpy m2 d p virtual mx = Some m4 \<and> entry_addr m4 d p = e \<and> agree_off (span p (nat mx)) m2 m4 \<and>
    cstr (write32 m4 e (read32 m1 e)) p (take (nat (mx - 1)) cs) \<and>
    agree_off (span p (nat mx)) m1 (write32 m4 e (read32 m1 e))"
proof -
  let ?P = "span p (nat mx)" and ?W = "walk_region (kmem s) d"
  note af = owns_after [OF own a1]
  have wf: "paging_wf m1 d" using af(1) by (simp add: chunk_wf_def)
  have pal: "paging_is_aligned p" using p(1) by (simp add: aligned_iff)
  have P: "?P \<subseteq> span p 4096" using mx by (intro span_mono) simp
  have WP: "?W \<inter> ?P = {}" using owns_live(1) [OF own] p(2) P by blast
  have eW: "span e 4 \<subseteq> ?W" unfolding e af(2) [symmetric] by (rule subset_trans [OF entry_in_tables]) (simp add: walk_region_def)
  have a2: "agree_off (span e 4) m1 m2" unfolding m2 by (rule write32_agree)
  have tab: "table_of m2 d i = table_of m1 d i" if "i < 1024" for i
    unfolding m2 e by (rule table_of_set [OF wf that])
  have W2: "walk_region m2 d = ?W" unfolding af(2) [symmetric] by (simp add: walk_region_def tables_region_def tab)
  have tr: "translate m' d va = translate m2 d va" if "agree_off ?P m2 m'" for m' va
    by (rule translate_agree(1) [OF that _ af(3)]) (simp add: W2 WP)
  have "read32 m1 (d + 4 * word_of_nat (dir_index p)) AND 1 \<noteq> 0" using af(4) [OF index_bounds(1)] present index_bounds(1) by simp
  then have id: "translate m2 d (p + word_of_nat j) = Some (p + word_of_nat j)" if "j < nat mx" for j
    unfolding m2 e using that mx by (intro translate_mapped [OF wf p(1)]) auto
  have src: "\<exists>a. translate m2 d (virtual + word_of_nat (0 + j)) = Some a \<and> a \<notin> ?P \<and> m2 a = (cs @ [0]) ! j"
    if j: "j \<le> length cs" for j
  proof -
    let ?va = "virtual + word_of_nat j"
    obtain a where a: "?va \<notin> kheap_spare s \<union> ?W" "translate (kmem s) d ?va = Some a" "a \<notin> kheap_spare s \<union> ?W" "kmem s a = (cs @ [0]) ! j"
      using str j unfolding user_string_def by blast
    have "?va AND 0xfffff000 \<noteq> p" using in_page [of ?va p] a(1) p(2) by blast
    then have "translate m2 d ?va = translate m1 d ?va" unfolding m2 e translate_set [OF wf pal] by simp
    also have "\<dots> = translate (kmem s) d ?va"
      by (rule translate_agree(1) [OF a1 owns_live(1) [OF own] af(3)])
    finally have "translate m2 d ?va = Some a" using a(2) by simp
    moreover have "m2 a = kmem s a" using agree_offD [OF a2, of a] agree_offD [OF a1, of a] a(3) eW by auto
    moreover have "a \<notin> ?P" using a(3) p(2) P by blast
    ultimately show ?thesis using a(4) by simp
  qed
  have cs: "0 \<notin> set cs" using str by (simp add: user_string_def)
  have nb: "nat mx < 4294967296" "0 + nat (mx - 1) < nat mx" using mx by auto
  obtain m4 where m4: "vstrncpy m2 d p virtual mx = Some m4" "cstr m4 p (take (nat (mx - 1)) cs)" "agree_off ?P m2 m4"
    using vstrncpy_loop_copies [OF tr id nb(1) agree_off_refl cs nb(2), of virtual] src unfolding vstrncpy_def by auto
  let ?m5 = "write32 m4 e (read32 m1 e)"
  have eP: "span e 4 \<inter> ?P = {}" using eW WP by blast
  have "cstr ?m5 p (take (nat (mx - 1)) cs)"
  proof (rule cstr_agree [OF m4(2) write32_agree])
    have "span p (Suc (length (take (nat (mx - 1)) cs))) \<subseteq> ?P" using mx by (intro span_mono) simp
    then show "span p (Suc (length (take (nat (mx - 1)) cs))) \<inter> span e 4 = {}" using eP by blast
  qed
  moreover have "agree_off ?P m1 ?m5"
  proof -
    have "?m5 x = m1 x" if "x \<notin> ?P" for x
      using that write32_restores [of x e m4 m1] agree_offD [OF write32_agree, of x e m4] agree_offD [OF m4(3), of x] agree_offD [OF a2, of x]
      by (cases "x \<in> span e 4") auto
    then show ?thesis by (simp add: agree_off_def)
  qed
  moreover have "entry_addr m4 d p = e"
  proof -
    have "table_of m4 d (dir_index p) = table_of m2 d (dir_index p)"
    proof -
      have "span (d + 4 * word_of_nat (dir_index p)) 4 \<inter> ?P = {}"
        using slot_in_page [OF af(3) index_bounds(1)] WP unfolding walk_region_def by blast
      then show ?thesis unfolding table_of_def by (simp add: read32_agree [OF m4(3)])
    qed
    then show ?thesis unfolding e entry_addr_def using tab [OF index_bounds(1)] by simp
  qed
  ultimately show ?thesis using m4(1,3) by blast
qed

text \<open>The chunk itself is none of the tables.\<close>

lemma chunk_apart:
  assumes "chunk_owns s A c d ts"
  shows "span c 4 \<inter> (kheap_spare s \<union> walk_region (kmem s) d) = {}"
proof -
  have o: "kheap_ready s A" "length ts = 1024" "\<forall>p \<in> set (c # d # ts). A p = Some 1" "\<forall>i < 1024. table_of (kmem s) d i = ts ! i"
    "distinct (c # d # ts)" using assms by (simp_all add: chunk_owns_def)
  have l: "span c 4096 \<inter> span q 4096 = {}" if "q \<in> set (d # ts)" for q
  proof -
    have "A c = Some 1" "A q = Some 1" "c \<noteq> q" using o(3,5) that by auto
    then show ?thesis using kh.live_disjoint [OF o(1), of c 1 q 1] by simp
  qed
  have "span c 4096 \<inter> span (table_of (kmem s) d i) 4096 = {}" if "i < 1024" for i using l [of "ts ! i"] o(2,4) that by simp
  then have "span c 4096 \<inter> walk_region (kmem s) d = {}" using l [of d] unfolding walk_region_def tables_region_def by auto
  then show ?thesis using owns_live(2) [OF assms] span_mono [of 4 4096 c] by auto
qed

text \<open>What lies outside the heap's free memory and the tables, while the page is mapped.\<close>

lemma words_kept:
  assumes own: "chunk_owns s A c d ts" and a1: "agree_off (kheap_spare s) (kmem s) m1" and p: "span p 4096 \<subseteq> kheap_spare s"
    and mx: "mx < 4096" and e_def: "e = entry_addr m1 d p" and m2_def: "m2 = write32 m1 e (p OR 7)" and m4: "agree_off (span p (nat mx)) m2 m4"
    and q: "span q 4 \<inter> (kheap_spare s \<union> walk_region (kmem s) d) = {}"
  shows "read32 m1 q = read32 (kmem s) q" "read32 m2 q = read32 (kmem s) q" "read32 m4 q = read32 (kmem s) q"
proof -
  have P: "span p (nat mx) \<subseteq> span p 4096" using mx by (intro span_mono) simp
  have e: "span e 4 \<subseteq> walk_region (kmem s) d"
    unfolding e_def owns_after(2) [OF own a1, symmetric] by (rule subset_trans [OF entry_in_tables]) (simp add: walk_region_def)
  show r1: "read32 m1 q = read32 (kmem s) q" using q by (intro read32_agree [OF a1]) blast
  have "read32 m2 q = read32 m1 q" using q e unfolding m2_def by (intro read32_agree [OF write32_agree]) blast
  then show r2: "read32 m2 q = read32 (kmem s) q" using r1 by simp
  have "read32 m4 q = read32 m2 q" using q p P by (intro read32_agree [OF m4]) blast
  then show "read32 m4 q = read32 (kmem s) q" using r2 by simp
qed

text \<open>Writing into the page and outside the heap, and then releasing the page.\<close>

lemma release_after:
  assumes "kheap_ready s A" "kheap_ready (put_kmem m1 s) (A(p \<mapsto> 1))" "A p = None" "span p 4096 \<subseteq> kheap_spare s"
    "kheap_avail (put_kmem m1 s) + 1 = kheap_avail s" "agree_off (kheap_spare s) (kmem s) m1"
    "agree_off (span p 4096 \<union> D) m1 m6" "D \<inter> kheap_spare s = {}"
  shows "\<exists>m7. kfree p (put_kmem m6 s) = put_kmem m7 s \<and> kheap_ready (put_kmem m7 s) A \<and>
    kheap_avail (put_kmem m7 s) = kheap_avail s \<and> agree_off (kheap_reserved s) m6 m7 \<and>
    agree_off (kheap_spare s \<union> D) (kmem s) m7"
proof -
  have res: "kheap_reserved s \<subseteq> kheap_spare s" by (rule kh.reserved_spare [OF assms(1)])
  have "(span p 4096 \<union> D) \<inter> kheap_reserved (put_kmem m1 s) = {}"
    using kh.live_reserved [OF assms(2), of p 1] assms(8) res by (auto simp: kheap_reserved_put)
  then have r6: "kheap_ready (put_kmem m6 s) (A(p \<mapsto> 1))" "kheap_avail (put_kmem m6 s) + 1 = kheap_avail s"
    using kh.put_ready [OF assms(2), of _ m6] assms(5,7) by auto
  have "(A(p \<mapsto> 1)) p = Some 1" by simp
  from kh.release_live [OF r6(1) this]
  obtain m7 where m7: "kfree p (put_kmem m6 s) = put_kmem m7 s" "kheap_ready (put_kmem m7 s) ((A(p \<mapsto> 1))(p := None))"
      "kheap_avail (put_kmem m7 s) = kheap_avail (put_kmem m6 s) + 1" "agree_off (kheap_reserved s) m6 m7"
    unfolding put_kmem_simps kheap_reserved_put by (elim exE conjE) (rule that, assumption+)
  have A: "(A(p \<mapsto> 1))(p := None) = A" using assms(3) by (auto simp: fun_eq_iff)
  have "agree_off (kheap_spare s \<union> D) (kmem s) m7"
    using agree_off_trans [OF assms(6) agree_off_trans [OF assms(7) m7(4)]] assms(4) res by (rule_tac agree_off_mono) auto
  then show ?thesis using m7 r6(2) A by auto
qed

lemma copy_string_spec:
  assumes own: "chunk_owns s A c d ts"
    and task: "span task 4 \<inter> (kheap_spare s \<union> walk_region (kmem s) d) = {}" "task_page_directory (kmem s) task = c"
    and kernel: "span (kernel_chunk s) 4 \<inter> (kheap_spare s \<union> walk_region (kmem s) d) = {}"
    and present: "\<forall>i < 1024. read32 (kmem s) (d + 4 * word_of_nat i) AND 1 \<noteq> 0"
    and room: "0 < kheap_avail s" and mx: "0 < mx" "mx < 4096"
    and str: "user_string (kmem s) d virtual cs (kheap_spare s \<union> walk_region (kmem s) d)"
    and phys: "span phys (nat mx) \<inter> kheap_spare s = {}"
  shows "\<exists>m. copy_string_from_task task virtual phys mx s =
      Some (0, switched 0x10 (directory_entry (kmem s) (kernel_chunk s)) (put_kmem m s)) \<and>
    cstr m phys (take (nat (mx - 1)) cs) \<and> agree_off (kheap_spare s \<union> span phys (nat mx)) (kmem s) m \<and>
    kheap_ready (put_kmem m s) A \<and> kheap_avail (put_kmem m s) = kheap_avail s"
proof -
  let ?sz = "word_of_int mx :: u32" and ?P = "\<lambda>p. span p (nat mx)" and ?D = "span phys (nat mx)"
  have ready: "kheap_ready s A" using own by (simp add: chunk_owns_def)
  have sz: "unat ?sz = nat mx"
  proof -
    have "0 \<le> mx" and n: "nat mx < 4096" using mx by linarith+
    then have w: "?sz = word_of_nat (nat mx)" by (intro word_of_int_nat)
    show ?thesis unfolding w using n by (simp add: unat_of_nat)
  qed
  have sz': "?sz \<noteq> 0" "unat ?sz \<le> 4096" using sz mx by (auto simp: word_unat_eq_iff)
  obtain p m1 where z: "kzalloc ?sz s = (p, put_kmem m1 s)" "p \<noteq> 0" "unat p mod 4096 = 0" "A p = None"
    "kheap_ready (put_kmem m1 s) (A(p \<mapsto> 1))" "kheap_avail (put_kmem m1 s) + 1 = kheap_avail s"
    "agree_off (kheap_spare s) (kmem s) m1" "span p 4096 \<subseteq> kheap_spare s"
    using kh.zalloc_page_stable [OF ready sz' room] by (elim exE conjE) (rule that, assumption+)
  define e where "e = entry_addr m1 d p"
  define m2 where "m2 = write32 m1 e (p OR 7)"
  note af = owns_after [OF own z(7)]
  have al: "paging_is_aligned p" using z(3) by (simp add: aligned_iff)
  have dir: "directory_entry m1 c = d" using af(1) by (simp add: chunk_wf_def)
  obtain m4 where m4: "vstrncpy m2 d p virtual mx = Some m4" "entry_addr m4 d p = e" "agree_off (?P p) m2 m4"
      "cstr (write32 m4 e (read32 m1 e)) p (take (nat (mx - 1)) cs)" "agree_off (?P p) m1 (write32 m4 e (read32 m1 e))"
    using copy_through_tables [OF own z(7,3,8) present mx str e_def m2_def] by blast
  define m5 where "m5 = write32 m4 e (read32 m1 e)"
  define m6 where "m6 = strncpy m5 phys p mx"
  have P: "?P p \<subseteq> span p 4096" using mx by (intro span_mono) simp
  note same = words_kept [OF own z(7,8) mx(2) e_def m2_def m4(3)]
  have t: "task_page_directory m1 task = c" "task_page_directory m2 task = c" "directory_entry m2 c = d"
      "directory_entry m4 (kernel_chunk s) = directory_entry (kmem s) (kernel_chunk s)"
    using same [OF task(1)] same [OF chunk_apart [OF own]] same [OF kernel] task(2) own
    by (simp_all add: task_page_directory_def directory_entry_def chunk_owns_def)
  have map: "paging_map m1 c p p 7 = (0, m2)"
    using paging_map_eq [OF af(1) al al, of 7] by (simp add: m2_def e_def)
  have old: "paging_get m1 d p = read32 m1 e" using al by (simp add: paging_get_eq e_def)
  have set: "paging_set m4 d p (read32 m1 e) = (0, m5)" using al m4(2) by (simp add: paging_set_eq m5_def)
  have apart: "?D \<inter> ?P p = {}" using phys z(8) P by blast
  have cp: "cstr m6 phys (take (nat (mx - 1)) cs)" "agree_off ?D m5 m6"
  proof -
    have "Suc (length (take (nat (mx - 1)) cs)) \<le> nat mx" using mx by simp
    then have "?D \<inter> span p (Suc (length (take (nat (mx - 1)) cs))) = {}" using apart span_mono by blast
    then show "cstr m6 phys (take (nat (mx - 1)) cs)" "agree_off ?D m5 m6"
      using strncpy_cstr [of m5 p "take (nat (mx - 1)) cs" mx phys] m4(4) mx unfolding m5_def m6_def by simp_all
  qed
  have S: "agree_off (span p 4096 \<union> ?D) m1 m6"
    by (rule agree_off_trans [OF agree_off_mono [OF m4(5) P] cp(2) [unfolded m5_def]])
  have res: "kheap_reserved s \<subseteq> kheap_spare s" by (rule kh.reserved_spare [OF ready])
  obtain m7 where m7: "kfree p (put_kmem m6 s) = put_kmem m7 s" "kheap_ready (put_kmem m7 s) A"
      "kheap_avail (put_kmem m7 s) = kheap_avail s" "agree_off (kheap_reserved s) m6 m7"
      "agree_off (kheap_spare s \<union> ?D) (kmem s) m7"
    using release_after [OF ready z(5,4,8,6,7) S phys] by blast
  have "copy_string_from_task task virtual phys mx s =
      Some (0, switched 0x10 (directory_entry (kmem s) (kernel_chunk s)) (put_kmem m7 s))"
    using mx z(1,2) m4(1) set m7(1)
    by (simp add: copy_string_from_task_def Let_def t dir old map paging_switch_eq kernel_page_eq in_kernel_def kfree_switched m6_def)
  moreover have "cstr m7 phys (take (nat (mx - 1)) cs)"
  proof (rule cstr_agree [OF cp(1) m7(4)])
    have "span phys (Suc (length (take (nat (mx - 1)) cs))) \<subseteq> ?D" using mx by (intro span_mono) simp
    then show "span phys (Suc (length (take (nat (mx - 1)) cs))) \<inter> kheap_reserved s = {}" using phys res by blast
  qed
  ultimately show ?thesis using m7(2,3,5) by blast
qed

lemma heap_switched [simp]:
  "kernel_heap (switched sel d s) = kernel_heap s" "kheap_spare (switched sel d s) = kheap_spare s"
  "kheap_ready (switched sel d s) A = kheap_ready s A" "kheap_avail (switched sel d s) = kheap_avail s"
  "chunk_owns (switched sel d s) A c e ts = chunk_owns s A c e ts"
  by (simp_all add: switched_def kheap_spare_def kheap_reserved_def kheap_ready_def kheap_avail_def chunk_owns_def)

text \<open>C17: Copying a string out of a program: with the program's address space live on the heap, a
  NUL-terminated string in it, and one free block, \<^verbatim>\<open>copy_string_from_task\<close> returns 0, the
  first \<open>mx - 1\<close> characters of the string are at the destination with a NUL behind them, the program's
  page tables translate every address as before, and the heap has as many free blocks as before.\<close>

theorem copy_string_from_task_copies:
  assumes "chunk_owns s A c d ts" "task_page_directory (kmem s) task = c"
    and "\<forall>i < 1024. read32 (kmem s) (d + 4 * word_of_nat i) AND 1 \<noteq> 0" "0 < kheap_avail s" "0 < mx" "mx < 4096"
    and "U = kheap_spare s \<union> walk_region (kmem s) d" "span task 4 \<inter> U = {}" "span (kernel_chunk s) 4 \<inter> U = {}"
    and "user_string (kmem s) d virtual cs U" "span phys (nat mx) \<inter> U = {}"
  shows "\<exists>s'. copy_string_from_task task virtual phys mx s = Some (0, s') \<and>
    cstr (kmem s') phys (take (nat (mx - 1)) cs) \<and> (\<forall>va. translate (kmem s') d va = translate (kmem s) d va) \<and>
    kheap_avail s' = kheap_avail s"
proof -
  let ?S = "kheap_spare s \<union> span phys (nat mx)"
  note U = assms(7)
  have "span phys (nat mx) \<inter> kheap_spare s = {}" using assms(11) U by blast
  from copy_string_spec [OF assms(1) assms(8) [unfolded U] assms(2) assms(9) [unfolded U] assms(3-6) assms(10) [unfolded U] this]
  obtain m where m: "copy_string_from_task task virtual phys mx s =
      Some (0, switched 0x10 (directory_entry (kmem s) (kernel_chunk s)) (put_kmem m s))"
      "cstr m phys (take (nat (mx - 1)) cs)" "agree_off ?S (kmem s) m" "kheap_avail (put_kmem m s) = kheap_avail s"
    by (elim exE conjE) (rule that, assumption+)
  have "span phys (nat mx) \<inter> walk_region (kmem s) d = {}" using assms(7,11) by blast
  then have w: "walk_region (kmem s) d \<inter> ?S = {}" using owns_live(1) [OF assms(1)] by blast
  have "unat d mod 4096 = 0" by (rule owns_after(3) [OF assms(1) agree_off_refl])
  then have "translate m d va = translate (kmem s) d va" for va by (rule translate_agree(1) [OF m(3) w])
  then show ?thesis using m by (simp add: heap_switched)
qed

section \<open>The print call\<close>

lemma console_switched [simp]:
  "cursor (switched sel d s) = cursor s" "cell (switched sel d s) k = cell s k" "console_fits (switched sel d s) = console_fits s"
  "video_mem (switched sel d s) = video_mem s" "terminal_col (switched sel d s) = terminal_col s"
  "cursor (put_kmem m r) = cursor r" "console_fits (put_kmem m r) = console_fits r"
  "video_mem (put_kmem m r) = video_mem r" "terminal_col (put_kmem m r) = terminal_col r"
  "print_buf_at (switched sel d t) = print_buf_at t" "print_buf_at (put_kmem m t) = print_buf_at t"
  "print_buf_at (saved frame t) = print_buf_at t"
  by (simp_all add: switched_def put_kmem_def saved_def cursor_def cell_def console_fits_def)

lemma screen_switched [simp]: "screen (switched sel d s) = screen s" "screen (in_task t) = screen t" "screen (in_kernel t) = screen t"
  by (simp_all add: screen_def cell_def switched_def in_task_def in_kernel_def cong: if_cong)

text \<open>The call, when the copy succeeds.\<close>

lemma print_call:
  assumes "current_task s \<noteq> 0" "isr80h_commands s ! 1 = Some Command1_Print" "t = saved frame s"
    "stack_word (kmem t) (current_task s) 0 = Some msg"
    "copy_string_from_task (current_task s) msg (print_buf_at s) 1024 (in_kernel t) = Some (0, switched sel d (put_kmem m t))"
    "print (print_buf_at s) (switched sel d (put_kmem m t)) = Some s3"
  shows "isr80h_handler 1 frame s = Some (0, in_task s3)"
proof -
  let ?u = "switched 0x10 (directory_entry (kmem s) (kernel_chunk s)) (saved frame s)"
  have "isr80h_command1_print ?u = Some (0, s3)"
    using assms(3-6) by (simp add: isr80h_command1_print_def task_get_stack_item_eq) (simp add: in_kernel_def)
  then show ?thesis using assms(1,2) by (simp add: handler_eq isr80h_handle_command_def)
qed

lemma saved_console [simp]:
  "cursor (saved frame s) = cursor s" "console_fits (saved frame s) = console_fits s" "video_mem (saved frame s) = video_mem s"
  "terminal_col (saved frame s) = terminal_col s" "kernel_chunk (saved frame s) = kernel_chunk s"
  by (simp_all add: saved_def put_kmem_def cursor_def console_fits_def)

lemma screen_cell_kept:
  assumes "agree_off S (kmem s) m" "span (video_mem s) 3200 \<inter> S = {}" "console_fits s" "k < 1600"
  shows "cell (put_kmem m s) k = cell s k"
proof -
  have "span (video_mem s + 2 * word_of_nat k) 2 \<subseteq> span (video_mem s) 3200"
    using assms(3,4) unfolding console_fits_def
    by (intro span_subset) (simp_all add: unat_array_index2 [where n = cursor_limit])
  then show ?thesis using assms(2) by (simp add: cell_def) (intro read16_agree [OF assms(1)], blast)
qed

lemma screen_kept:
  assumes "agree_off S (kmem s) m" "span (video_mem s) 3200 \<inter> S = {}" "console_fits s"
  shows "screen (put_kmem m s) = screen s"
  using screen_cell_kept [OF assms] by (simp add: screen_def fun_eq_iff) (simp add: put_kmem_def)

lemma text_fits_cong: "snd scr = snd scr' \<Longrightarrow> text_fits cs scr = text_fits cs scr'"
proof (induction cs arbitrary: scr scr')
  case (Cons c cs)
  obtain f g r k where e: "scr = (f, r, k)" "scr' = (g, r, k)" using Cons.prems by (metis prod.collapse)
  have "snd (show_char c scr) = snd (show_char c scr')" by (simp add: e)
  note ih = Cons.IH [OF this]
  have "char_fits c scr = char_fits c scr'" by (simp add: e)
  then show ?case by (simp only: text_fits.simps ih)
qed simp

text \<open>The print call, from the program to the screen.\<close>

lemma print_reaches_screen:
  assumes "current_task s \<noteq> 0" "isr80h_commands s ! 1 = Some Command1_Print" "t = saved frame s"
    and "chunk_owns t A c d ts" "task_page_directory (kmem t) (current_task s) = c"
    and "\<forall>i < 1024. read32 (kmem t) (d + 4 * word_of_nat i) AND 1 \<noteq> 0" "0 < kheap_avail t"
    and "U = kheap_spare t \<union> walk_region (kmem t) d" "span (current_task s) 4 \<inter> U = {}" "span (kernel_chunk s) 4 \<inter> U = {}"
    and "stack_word (kmem t) (current_task s) 0 = Some msg" "user_string (kmem t) d msg cs U"
    and "span (print_buf_at s) 1024 \<inter> kheap_spare t = {}"
    and "span (video_mem s) 3200 \<inter> (kheap_spare t \<union> span (print_buf_at s) 1024) = {}"
    and "console_fits s" "shown = take 1023 cs" "text_fits shown (screen t)"
  shows "\<exists>s3. isr80h_handler 1 frame s = Some (0, in_task s3) \<and> current_task s3 = current_task s \<and>
    agree_off (kheap_spare t \<union> span (print_buf_at s) 1024 \<union> span (video_mem s) 3200) (kmem t) (kmem s3) \<and>
    video_mem s3 = video_mem s \<and> screen s3 = fold show_char shown (screen t) \<and>
    kheap_ready s3 A \<and> (\<exists>k m row col. s3 = (switched 0x10 k t)\<lparr>kmem := m, terminal_row := row, terminal_col := col\<rparr>)"
proof -
  let ?b = "print_buf_at s" and ?u = "in_kernel t"
  have kc: "kernel_chunk t = kernel_chunk s" using assms(3) by simp
  have n: "nat (1024 - 1) = 1023" "nat 1024 = 1024" by simp_all
  obtain k where u: "?u = switched 0x10 k t" by (simp add: in_kernel_def)
  obtain m where m: "copy_string_from_task (current_task s) msg ?b 1024 ?u = Some (0, switched 0x10 (directory_entry (kmem t) (kernel_chunk s)) (put_kmem m t))"
      "cstr m ?b shown" "agree_off (kheap_spare t \<union> span ?b 1024) (kmem t) m" "kheap_ready (put_kmem m t) A"
    using copy_string_spec [of ?u A c d ts "current_task s" 1024 msg cs ?b] assms(4-13) unfolding u by (auto simp: kc n assms(16))
  let ?v = "switched 0x10 (directory_entry (kmem t) (kernel_chunk s)) (put_kmem m t)"
  have ct: "console_fits t" "video_mem t = video_mem s" using assms(3,15) by simp_all
  have len: "Suc (length shown) \<le> 1024" using assms(16) by simp
  have "span ?b (Suc (length shown)) \<subseteq> span ?b 1024" by (rule span_mono [OF len])
  then have "span ?b (Suc (length shown)) \<inter> span (video_mem ?v) 3200 = {}" using assms(14) ct(2) by auto
  moreover have sv: "screen ?v = screen t"
    using screen_kept [OF m(3) _ ct(1)] assms(14) ct(2) by simp
  moreover have "cstr (kmem ?v) ?b shown" "length shown < 2147483648" "console_fits ?v" using m(2) len ct(1) by simp_all
  ultimately obtain m3 row col s3 where s3: "print ?b ?v = Some s3" "s3 = ?v\<lparr>kmem := m3, terminal_row := row, terminal_col := col\<rparr>"
      "agree_off (span (video_mem s) 3200) m m3" "screen s3 = fold show_char shown (screen t)"
    using print_screen [of ?v ?b shown] assms(17) ct(2) by auto
  have "isr80h_handler 1 frame s = Some (0, in_task s3)"
    by (rule print_call [OF assms(1-3,11) m(1) s3(1)])
  moreover have "agree_off (kheap_spare t \<union> span ?b 1024 \<union> span (video_mem s) 3200) (kmem t) m3"
    by (rule agree_off_trans [OF m(3) s3(3)])
  moreover have "current_task s3 = current_task s" "kmem s3 = m3" "video_mem s3 = video_mem s"
    unfolding s3(2) by (simp_all add: assms(3) switched_def put_kmem_def saved_def)
  moreover have "kheap_ready s3 A"
  proof -
    have "kheap_reserved t \<subseteq> kheap_spare t" using kh.reserved_spare [of t A] assms(4) by (simp add: chunk_owns_def)
    then have "span (video_mem s) 3200 \<inter> kheap_reserved (put_kmem m t) = {}"
      using assms(14) unfolding kheap_reserved_put by blast
    from kh.put_ready [OF m(4) _ this, of m3] s3(3) show ?thesis unfolding s3(2) by (simp add: kheap_ready_def switched_def)
  qed
  moreover have "\<exists>k m row col. s3 = (switched 0x10 k t)\<lparr>kmem := m, terminal_row := row, terminal_col := col\<rparr>"
    unfolding s3(2) by (intro exI [of _ "directory_entry (kmem t) (kernel_chunk s)"] exI [of _ m3] exI [of _ row] exI [of _ col])
      (simp add: switched_def put_kmem_def)
  ultimately show ?thesis using s3(4) by (intro exI [of _ s3]) simp
qed

text \<open>C16: The print call, from the program to the screen. The calling task has an address space on the heap
  whose tables are present; the word on top of its stack points to a NUL-terminated string in its memory. If the
  string, its page tables, the task and the kernel's chunk are apart from the free memory of the heap, the kernel's
  buffer of 1024 bytes and the screen are apart from it and from one another, and the first 1023 characters of the
  string fit the screen (\<open>text_fits\<close>: each is written while the cursor is on it, for the code does not
  scroll, and no backspace is in the first column of a line), then the call returns 0 and the screen is what these
  characters, newlines and backspaces included, make of the screen there was when the registers had been saved; the
  kernel's memory changes only in that buffer, on the screen and in the free memory of the heap, the user's data
  segment and the address space of the task are loaded.\<close>

theorem isr80h_print_shows:
  assumes "current_task s \<noteq> 0" "isr80h_commands s ! 1 = Some Command1_Print" "t = saved frame s"
    and "chunk_owns t A c d ts" "task_page_directory (kmem t) (current_task s) = c"
    and "\<forall>i < 1024. read32 (kmem t) (d + 4 * word_of_nat i) AND 1 \<noteq> 0" "0 < kheap_avail t"
    and "U = kheap_spare t \<union> walk_region (kmem t) d" "span (current_task s) 4 \<inter> U = {}" "span (kernel_chunk s) 4 \<inter> U = {}"
    and "stack_word (kmem t) (current_task s) 0 = Some msg" "user_string (kmem t) d msg cs U"
    and "span (print_buf_at s) 1024 \<inter> kheap_spare t = {}"
    and "span (video_mem s) 3200 \<inter> (kheap_spare t \<union> span (print_buf_at s) 1024) = {}"
    and "console_fits s" "shown = take 1023 cs" "text_fits shown (screen t)"
  shows "\<exists>s'. isr80h_handler 1 frame s = Some (0, s') \<and> screen s' = fold show_char shown (screen t) \<and>
    agree_off (kheap_spare t \<union> span (print_buf_at s) 1024 \<union> span (video_mem s) 3200) (kmem t) (kmem s') \<and>
    data_segments s' = 0x23 \<and> cr3 s' = task_directory (kmem s') (current_task s)"
proof -
  obtain s3 where "isr80h_handler 1 frame s = Some (0, in_task s3)" "current_task s3 = current_task s"
    "agree_off (kheap_spare t \<union> span (print_buf_at s) 1024 \<union> span (video_mem s) 3200) (kmem t) (kmem s3)"
    "screen s3 = fold show_char shown (screen t)"
    using print_reaches_screen [OF assms] by (elim exE conjE) (rule that, assumption+)
  then show ?thesis by (intro exI [of _ "in_task s3"]) simp
qed

section \<open>Witnesses\<close>

text \<open>A booted heap with one address space; the 64 kilobytes at 0x200000 are left to the example.\<close>

definition demo_system :: idtstate where
  "demo_system = kheap_init (demo_idt (map Some [Command0_Sum, Command1_Print, Command2_Getkey, Command3_Putchar, Command4_Malloc, Command5_Free])
     \<lparr>current_task := 0x202000, print_buf_at := 0x208000, kernel_chunk := 0x209000, video_mem := 0xb8000, terminal_row := 0, terminal_col := 79\<rparr>)"

definition demo_overlay :: "mem \<Rightarrow> mem \<Rightarrow> mem" where
  "demo_overlay m f = (\<lambda>x. if x \<in> demo_room then f x else m x)"

lemma demo_system_simps [simp]:
  "kernel_heap demo_system = boot_heap" "current_task demo_system = 0x202000" "print_buf_at demo_system = 0x208000"
  "kernel_chunk demo_system = 0x209000" "isr80h_commands demo_system = map Some [Command0_Sum, Command1_Print, Command2_Getkey, Command3_Putchar, Command4_Malloc, Command5_Free]"
  "video_mem demo_system = 0xb8000" "terminal_row demo_system = 0" "terminal_col demo_system = 79"
proof -
  let ?s = "demo_idt (map Some [Command0_Sum, Command1_Print, Command2_Getkey, Command3_Putchar, Command4_Malloc, Command5_Free])\<lparr>current_task := 0x202000, print_buf_at := 0x208000,
     kernel_chunk := 0x209000, video_mem := 0xb8000, terminal_row := 0, terminal_col := 79\<rparr>"
  obtain m where "kheap_init ?s = ?s\<lparr>kmem := m, kernel_heap := boot_heap\<rparr>"
    using kheap_init_eq by blast
  then have e: "demo_system = ?s\<lparr>kmem := m, kernel_heap := boot_heap\<rparr>" by (simp only: demo_system_def)
  show "kernel_heap demo_system = boot_heap" "current_task demo_system = 0x202000" "print_buf_at demo_system = 0x208000"
    "kernel_chunk demo_system = 0x209000" "isr80h_commands demo_system = map Some [Command0_Sum, Command1_Print, Command2_Getkey, Command3_Putchar, Command4_Malloc, Command5_Free]"
    "video_mem demo_system = 0xb8000" "terminal_row demo_system = 0" "terminal_col demo_system = 79"
    unfolding e by simp_all
qed

definition demo_space :: "mem \<Rightarrow> (u32 \<Rightarrow> nat option) \<Rightarrow> u32 \<Rightarrow> u32 \<Rightarrow> u32 list \<Rightarrow> u32 \<Rightarrow> bool" where
  "demo_space m' A c d ts q \<longleftrightarrow>
     chunk_owns (put_kmem m' demo_system) A c d ts \<and> 1000 \<le> kheap_avail (put_kmem m' demo_system) \<and>
     (\<forall>i < 1024. read32 m' (d + 4 * word_of_nat i) AND 1 \<noteq> 0) \<and> (\<forall>va. translate m' d va = Some va) \<and>
     (kheap_spare (put_kmem m' demo_system) \<union> walk_region m' d) \<inter> demo_room = {} \<and>
     span 0xb8000 3200 \<inter> kheap_spare (put_kmem m' demo_system) = {} \<and>
     (\<forall>p \<in> set (c # d # ts). span p 4096 \<inter> (demo_room \<union> span 0xb8000 3200) = {}) \<and>
     procs_ok (put_kmem m' demo_system) A {q} \<and> set (alloc_table m' q) = {0} \<and> span q 8192 \<inter> demo_room = {} \<and>
     (\<forall>p \<in> set (c # d # ts). p \<noteq> q)"

lemma demo_spaceD:
  assumes "demo_space m' A c d ts q"
  shows "chunk_owns (put_kmem m' demo_system) A c d ts" "0 < kheap_avail (put_kmem m' demo_system)"
    "\<forall>i < 1024. read32 m' (d + 4 * word_of_nat i) AND 1 \<noteq> 0" "\<forall>va. translate m' d va = Some va"
    "(kheap_spare (put_kmem m' demo_system) \<union> walk_region m' d) \<inter> demo_room = {}"
    "span 0xb8000 3200 \<inter> kheap_spare (put_kmem m' demo_system) = {}"
    "\<forall>p \<in> set (c # d # ts). span p 4096 \<inter> (demo_room \<union> span 0xb8000 3200) = {}"
    "procs_ok (put_kmem m' demo_system) A {q}" "0 \<in> set (alloc_table m' q)" "span q 8192 \<inter> demo_room = {}"
    "\<forall>p \<in> set (c # d # ts). p \<noteq> q" "1000 \<le> kheap_avail (put_kmem m' demo_system)" "set (alloc_table m' q) = {0}"
  using assms unfolding demo_space_def by - (elim conjE, assumption | elim conjE, simp)+

lemma demo_system_space:
  obtains m A c d ts q where "\<forall>m'. agree_off demo_room m m' \<longrightarrow> demo_space m' A c d ts q"
proof -
  have b: "kheap_ready demo_system (\<lambda>_. None)" "kheap_avail demo_system = 25600" "kheap_room demo_system (blocks_of 5260)"
    unfolding demo_system_def using kheap_init_avail boot_room [of "blocks_of 5260"] by auto
  have z: "(5260 :: u32) \<noteq> 0" "unat (5260 :: u32) \<le> 4294963200" by simp_all
  obtain q m1 where q: "kheap_ready (put_kmem m1 demo_system) [q \<mapsto> blocks_of 5260]"
    "kheap_avail (put_kmem m1 demo_system) + blocks_of 5260 = kheap_avail demo_system" "\<forall>x \<in> span q (unat (5260 :: u32)). m1 x = 0"
    using kh.zalloc_fresh [OF b(1) z b(3)] by (elim exE conjE) (rule that, assumption+)
  have q2: "kheap_ready (put_kmem m1 demo_system) [q \<mapsto> 2]" and q0: "set (alloc_table m1 q) = {0}"
    using q(1) alloc_table_zero [OF q(1), of q] q(3) by simp_all
  have "1026 \<le> kheap_avail (put_kmem m1 demo_system)" using b(2) q(2) by simp
  from paging_new_4gb_owns [OF q2 this, of 5] obtain c d ts m where
    r': "chunk_owns (put_kmem m (put_kmem m1 demo_system)) (with_pages [q \<mapsto> 2] (c # d # ts)) c d ts"
      "kheap_avail (put_kmem m (put_kmem m1 demo_system)) + 1026 = kheap_avail (put_kmem m1 demo_system)"
      "\<forall>i < 1024. read32 m (d + 4 * word_of_nat i) = ts ! i OR ucast (5 :: u8) OR 2"
      "\<forall>v. paging_is_aligned v \<longrightarrow> paging_get m d v = v OR ucast (5 :: u8)"
      "\<forall>p \<in> set (c # d # ts). [q \<mapsto> (2 :: nat)] p = None" "kept [q \<mapsto> 2] (kmem (put_kmem m1 demo_system)) m"
    by (elim exE conjE) (rule that, assumption+)
  let ?A = "with_pages [q \<mapsto> 2] (c # d # ts)"
  note r = r'(1,2) [unfolded put_kmem_simps] r'(3,4)
  have nq: "\<forall>p \<in> set (c # d # ts). p \<noteq> q" using r'(5) by auto
  then have Aq: "?A q = Some 2" by (auto simp: with_pages_def)
  have qt: "set (alloc_table m q) = {0}" using alloc_table_kept [OF q2 _ r'(6)] q0 by simp
  have ok: "procs_ok (put_kmem m demo_system) ?A {q}"
  proof -
    have "alloc_table m q ! i = 0" if "i < 1024" for i using qt nth_mem [of i "alloc_table m q"] that by simp
    then show ?thesis using r(1) Aq by (simp add: procs_ok_def chunk_owns_def)
  qed
  have f0: "bit (5 :: u8) 0" by simp
  have pg: "span p 4096 \<inter> demo_room = {}" "span p 4096 \<inter> span 0xb8000 3200 = {}" if "p \<in> set (c # d # ts)" for p
  proof -
    have k: "kheap_ready (put_kmem m demo_system) ?A" "?A p = Some 1" using r(1) that by (simp_all add: chunk_owns_def with_pages_def)
    from kheap_live_above [OF k] kh.live_bounds [OF k]
    show "span p 4096 \<inter> demo_room = {}" "span p 4096 \<inter> span 0xb8000 3200 = {}"
      unfolding demo_room_def by (intro span_disjoint_sym; simp)+
  qed
  have qr: "span q 8192 \<inter> demo_room = {}"
  proof -
    have k: "kheap_ready (put_kmem m demo_system) ?A" using r(1) by (simp add: chunk_owns_def)
    from kheap_live_above [OF k Aq] kh.live_bounds [OF k Aq]
    show ?thesis unfolding demo_room_def by (intro span_disjoint_sym) simp_all
  qed
  have res: "demo_room \<inter> kheap_reserved (put_kmem m demo_system) = {}"
    unfolding demo_room_def kheap_reserved_def table_region_def by (simp, intro span_disjoint_sym) simp_all
  have "demo_space m' ?A c d ts q" if a: "agree_off demo_room m m'" for m'
    unfolding demo_space_def
  proof (intro conjI)
    have a': "agree_off demo_room (kmem (put_kmem m demo_system)) m'" using a by simp
    have pg': "\<forall>p \<in> set (c # d # ts). span p 4096 \<inter> demo_room = {}" using pg by blast
    note f = chunk_owns_frame [OF r(1) a' res pg', unfolded put_kmem_simps]
    show own: "chunk_owns (put_kmem m' demo_system) ?A c d ts" by (rule f(1))
    show "1000 \<le> kheap_avail (put_kmem m' demo_system)" using f(2) r(2) b(2) q(2) by simp
    have al: "unat d mod 4096 = 0" using chunk_owns_page [OF own, of d] by simp
    have "read32 m' (d + 4 * word_of_nat i) = read32 m (d + 4 * word_of_nat i)" if "i < 1024" for i
      using slot_in_page [OF al that] pg [of d] by (intro read32_agree [OF a]) auto
    then show pres: "\<forall>i < 1024. read32 m' (d + 4 * word_of_nat i) AND 1 \<noteq> 0" using r(3) present_directory [OF f0] by simp
    have "\<forall>v. paging_is_aligned v \<longrightarrow> paging_get m' d v = v OR ucast (5 :: u8)" using f(3) r(4) by simp
    then show "\<forall>va. translate m' d va = Some va" using translate_identity [OF f0 _ pres] by blast
    have t: "\<forall>i < 1024. table_of m' d i \<in> set (c # d # ts)" using own by (simp add: chunk_owns_def)
    then have w: "walk_region m' d \<inter> demo_room = {}" unfolding walk_region_def tables_region_def using pg by auto
    have sp: "kheap_spare (put_kmem m' demo_system) \<subseteq> span 0x7e00 25600 \<union> span 0x1000000 104857600"
      by (rule boot_heap_spare) simp
    have "(span 0x7e00 25600 \<union> span 0x1000000 104857600) \<inter> demo_room = {}"
      unfolding demo_room_def by (auto simp: span_iff)
    then show "(kheap_spare (put_kmem m' demo_system) \<union> walk_region m' d) \<inter> demo_room = {}" using w sp by blast
    have "span 0xb8000 3200 \<inter> (span 0x7e00 25600 \<union> span (0x1000000 :: u32) 104857600) = {}" by (auto simp: span_iff)
    then show "span 0xb8000 3200 \<inter> kheap_spare (put_kmem m' demo_system) = {}" using sp by blast
    show "\<forall>p \<in> set (c # d # ts). span p 4096 \<inter> (demo_room \<union> span 0xb8000 3200) = {}" using pg by (simp add: Int_Un_distrib)
    have "(\<Union>p \<in> {q}. span p 8192) \<inter> demo_room = {}" using qr by simp
    note oa = procs_ok_apart [OF ok a' res this, unfolded put_kmem_simps]
    show "procs_ok (put_kmem m' demo_system) ?A {q}" by (rule oa(1))
    show "set (alloc_table m' q) = {0}" using oa(2) [of q] qt by simp
    show "span q 8192 \<inter> demo_room = {}" "\<forall>p \<in> set (c # d # ts). p \<noteq> q" by (rule qr nq)+
  qed
  then show ?thesis by (intro that [of m ?A c d ts q] allI impI)
qed

definition demo_call_bytes :: "u32 \<Rightarrow> mem" where
  "demo_call_bytes c = write32 ((\<lambda>_. 0)(0x20502d := 0x60, 0x20502e := 0x20, 0x206001 := 0x70, 0x206002 := 0x20,
     0x207000 := 0x48, 0x207001 := 0x0a)) 0x202000 c"

lemma demo_call_overlay:
  fixes m :: mem and c :: u32
  defines "s \<equiv> put_kmem (demo_overlay m (demo_call_bytes c)) demo_system"
  defines "t \<equiv> saved 0x205000 s"
  shows "agree_off demo_room m (kmem t)" "read32 (kmem t) 0x202000 = c" "slot (kmem t) 0x202000 11 = 0x206000"
    "read32 (kmem t) 0x206000 = 0x207000" "kmem t 0x207000 = 0x48" "kmem t 0x207001 = 0x0a" "kmem t 0x207002 = 0"
proof -
  let ?o = "demo_overlay m (demo_call_bytes c)"
  have t: "kmem t = task_save_state ?o 0x202000 0x205000" by (simp add: t_def s_def saved_def)
  have sp: "span (0x205000 :: u32) 52 \<inter> span 0x202000 64 = {}" by (rule span_disjoint_sym) simp_all
  note sv = task_save_state_spec [of "0x202000" "0x205000" ?o, folded t, simplified, OF sp]
  have a: "agree_off (span 0x202000 64) ?o (kmem t)" using sv by blast
  have o: "agree_off demo_room m ?o" by (simp add: agree_off_def demo_overlay_def)
  have room: "span 0x202000 64 \<subseteq> demo_room" by (rule demo_room_span) simp_all
  show "agree_off demo_room m (kmem t)" by (rule agree_off_trans_same [OF o agree_off_mono [OF a room]])
  have r: "read32 ?o x = read32 (demo_call_bytes c) x" if "span x 4 \<subseteq> demo_room" for x
    using that by (intro read32_span) (auto simp: demo_overlay_def)
  have b: "?o x = demo_call_bytes c x" if "x \<in> demo_room" for x using that by (simp add: demo_overlay_def)
  have s0: "slot (kmem t) 0x202000 0 = slot ?o 0x202000 0" and s11: "slot (kmem t) 0x202000 11 = slot ?o 0x205000 11"
    using sv by (auto simp: saved_registers_def)
  show "read32 (kmem t) 0x202000 = c"
    using s0 r [OF demo_room_span [of "0x202000" 4]] by (simp add: slot_def demo_call_bytes_def)
  have apart: "span a 4 \<inter> span 0x202000 4 = {}" if "0x202004 \<le> unat (a :: u32)" "unat a \<le> 0x210000" for a
    using that by (intro span_disjoint_sym) simp_all
  show "slot (kmem t) 0x202000 11 = 0x206000"
    using r [OF demo_room_span [of "0x20502c" 4]] apart [of "0x20502c"]
    by (simp add: s11, simp add: slot_def demo_call_bytes_def read32_write32_sep) (simp add: read32_def)
  have "span 0x206000 4 \<inter> span (0x202000 :: u32) 64 = {}" by (rule span_disjoint_sym) simp_all
  from read32_agree [OF a this] show "read32 (kmem t) 0x206000 = 0x207000"
    using r [OF demo_room_span [of "0x206000" 4]] apart [of "0x206000"]
    by (simp add: demo_call_bytes_def read32_write32_sep) (simp add: read32_def)
  have k: "kmem t x = demo_call_bytes c x" if "0x202040 \<le> unat x" "unat x < 0x210000" for x
    using agree_offD [OF a, of x] b [of x] that by (simp add: span_iff demo_room_def)
  show "kmem t 0x207000 = 0x48" "kmem t 0x207001 = 0x0a" "kmem t 0x207002 = 0"
    using k [of "0x207000"] k [of "0x207001"] k [of "0x207002"] by (simp_all add: demo_call_bytes_def span_iff write32_byte_sep)
qed

lemma demo_call_string:
  assumes "\<forall>va. translate m d va = Some va" "m 0x207000 = 0x48" "m 0x207001 = 0x0a" "m 0x207002 = 0" "U \<inter> span 0x207000 3 = {}"
  shows "user_string m d 0x207000 [0x48, 0x0a] U"
proof -
  have "0x207000 \<in> span 0x207000 3" "0x207001 \<in> span 0x207000 3" "0x207002 \<in> span (0x207000 :: u32) 3" by (simp_all add: span_iff)
  then have u: "0x207000 \<notin> U" "0x207001 \<notin> U" "0x207002 \<notin> U" using assms(5) by blast+
  have "va + word_of_nat j \<notin> U \<and> m (va + word_of_nat j) = ([0x48, 0x0a] @ [0]) ! j" if "j \<le> 2" "va = 0x207000" for j and va :: u32
  proof -
    consider "j = 0" | "j = 1" | "j = 2" using \<open>j \<le> 2\<close> by linarith
    then show ?thesis using u assms(2-4) that(2) by cases (simp_all add: numeral_2_eq_2)
  qed
  then show ?thesis using assms(1) unfolding user_string_def by simp
qed

lemma demo_call_word:
  assumes "\<forall>va. translate m (task_directory m t) va = Some va" "slot m t 11 = a" "read32 m a = v"
  shows "stack_word m t 0 = Some v"
  using assms by (simp add: stack_word_def vread32_def vread_def read32_def)

theorem copy_string_from_task_copies_witness:
  "\<exists>(s :: idtstate) s'. copy_string_from_task 0x202000 0x207000 0x208000 2 s = Some (0, s') \<and> cstr (kmem s') 0x208000 [0x48]"
proof -
  obtain m A c d ts q where f: "\<forall>m'. agree_off demo_room m m' \<longrightarrow> demo_space m' A c d ts q"
    by (rule demo_system_space)
  define t where "t = saved 0x205000 (put_kmem (demo_overlay m (demo_call_bytes c)) demo_system)"
  note o = demo_call_overlay [of m c, folded t_def]
  have t: "t = put_kmem (kmem t) demo_system" by (simp add: t_def saved_def)
  have k: "kernel_chunk t = 0x209000" by (simp add: t_def)
  note g = demo_spaceD [OF f [rule_format, OF o(1)], folded t]
  let ?U = "kheap_spare t \<union> walk_region (kmem t) d"
  have c: "task_page_directory (kmem t) 0x202000 = c" using o(2) by (simp add: task_page_directory_def)
  have room: "span a k \<inter> ?U = {}" if "0x200000 \<le> unat a" "unat a + k \<le> 0x210000" for a k
    using demo_room_span [OF that(1,2)] g(5) by blast
  have str: "user_string (kmem t) d 0x207000 [0x48, 0x0a] ?U"
    by (rule demo_call_string [OF g(4) o(5-7)]) (use room [of "0x207000" 3] in \<open>simp add: Int_commute\<close>)
  have apart: "span 0x202000 4 \<inter> ?U = {}" "span 0x209000 4 \<inter> ?U = {}" "span 0x208000 2 \<inter> ?U = {}"
    by (rule room; simp)+
  have "\<exists>s'. copy_string_from_task 0x202000 0x207000 0x208000 2 t = Some (0, s') \<and> cstr (kmem s') 0x208000 (take (nat (2 - 1)) [0x48, 0x0a]) \<and>
    (\<forall>va. translate (kmem s') d va = translate (kmem t) d va) \<and> kheap_avail s' = kheap_avail t"
    by (rule copy_string_from_task_copies [OF g(1) c, where U = ?U]) (use g(2,3) str apart k in simp_all)
  then show ?thesis by - (rule exI [of _ t], auto)
qed

theorem isr80h_print_shows_witness:
  "\<exists>(s :: idtstate) s' f. isr80h_handler 1 0x205000 s = Some (0, s') \<and> screen s = (f, 0, 79) \<and> screen s' = (f(79 := 0x0f48), 2, 0)"
proof -
  obtain m A c d ts q where f: "\<forall>m'. agree_off demo_room m m' \<longrightarrow> demo_space m' A c d ts q"
    by (rule demo_system_space)
  define s where "s = put_kmem (demo_overlay m (demo_call_bytes c)) demo_system"
  define t where "t = saved 0x205000 s"
  note o = demo_call_overlay [of m c, folded s_def, folded t_def]
  have t: "t = put_kmem (kmem t) demo_system" by (simp add: t_def s_def saved_def)
  note g = demo_spaceD [OF f [rule_format, OF o(1)], folded t]
  let ?U = "kheap_spare t \<union> walk_region (kmem t) d"
  have c: "task_page_directory (kmem t) 0x202000 = c" using o(2) by (simp add: task_page_directory_def)
  have d: "task_directory (kmem t) 0x202000 = d" using g(1) c by (simp add: task_directory_def chunk_owns_def)
  have room: "span a k \<inter> X = {}" if "0x200000 \<le> unat a" "unat a + k \<le> 0x210000" "X \<inter> demo_room = {}" for a k X
    using demo_room_span [OF that(1,2)] that(3) by blast
  have top: "stack_word (kmem t) 0x202000 0 = Some 0x207000"
    by (rule demo_call_word [OF _ o(3,4)]) (use g(4) d in simp)
  have scr: "span (0xb8000 :: u32) 3200 \<inter> (kheap_spare t \<union> span 0x208000 1024) = {}"
    using g(6) span_disjoint [of "0xb8000" 3200 "0x208000" 1024] by (simp add: Int_Un_distrib)
  have sel: "current_task s = 0x202000" "isr80h_commands s ! Suc 0 = Some Command1_Print" "print_buf_at s = 0x208000"
    "kernel_chunk s = 0x209000" "video_mem s = 0xb8000" "terminal_col s = 79" "terminal_row s = 0" "console_fits s"
    by (simp_all add: s_def put_kmem_def cursor_def console_fits_def)
  have U: "?U \<inter> demo_room = {}" "kheap_spare t \<inter> demo_room = {}" using g(5) by blast+
  have str: "user_string (kmem t) d 0x207000 [0x48, 0x0a] ?U"
    by (rule demo_call_string [OF g(4) o(5-7)]) (use room [of "0x207000" 3, OF _ _ U(1)] in \<open>simp add: Int_commute\<close>)
  have apart: "span 0x202000 4 \<inter> ?U = {}" "span 0x209000 4 \<inter> ?U = {}" "span 0x208000 1024 \<inter> kheap_spare t = {}"
    using room [OF _ _ U(1)] room [OF _ _ U(2)] by simp_all
  obtain f where scr_s: "screen s = (f, 0, 79)"
    using sel by (simp add: screen_def)
  have "span (0x205000 :: u32) 52 \<inter> span 0x202000 64 = {}" by (rule span_disjoint_sym) simp_all
  from task_save_state_spec [of "0x202000" "0x205000" "kmem s", simplified, OF this]
  have sv: "agree_off (span 0x202000 64) (kmem s) (kmem t)" using sel(1) by (simp add: t_def saved_def)
  have "t = put_kmem (kmem t) s" by (simp add: t_def saved_def)
  moreover have "span (0xb8000 :: u32) 3200 \<inter> span 0x202000 64 = {}" by (rule span_disjoint) simp_all
  ultimately have scr_t: "screen t = (f, 0, 79)" using screen_kept [OF sv _ sel(8)] sel(5) scr_s by simp
  have fit: "text_fits [0x48, 0x0a] (screen t)" by (simp add: scr_t)
  obtain s' where "isr80h_handler 1 0x205000 s = Some (0, s')" "screen s' = fold show_char [0x48, 0x0a] (screen t)"
    using isr80h_print_shows [OF _ _ t_def g(1), where U = ?U and msg = "0x207000" and cs = "[0x48, 0x0a]" and shown = "[0x48, 0x0a]"]
      g(2,3) c str top scr apart fit by (auto simp: sel)
  then show ?thesis using scr_s scr_t by - (rule exI [of _ s], rule exI [of _ s'], rule exI [of _ f], simp add: terminal_make_char_def)
qed

end
