(* ===== verification/UserCalls.thy ===== *)
theory UserCalls
  imports UserMemory
begin

text \<open>
  A system call from the program's side: the routines of \<^verbatim>\<open>programs/stdlib/src/peachos.asm\<close> and
  \<^verbatim>\<open>isr80h_wrapper\<close> of \<^verbatim>\<open>src/idt/idt.asm\<close> as lists of instructions, \<^verbatim>\<open>malloc\<close>, \<^verbatim>\<open>free\<close> and \<^verbatim>\<open>putchar\<close> of the
  library, and a machine that runs them. The registers are those of \<open>user_context\<close>, memory is read and written through
  the page tables of the loaded address space, the kernel is \<open>isr80h_handler\<close> of \<open>Interrupts\<close>. The instruction pointer is
  followed only where it is pushed or popped: \<^verbatim>\<open>int 0x80\<close> pushes the one it has, and \<^verbatim>\<open>iretd\<close> and \<^verbatim>\<open>ret\<close> restore it.
  The theory shows that \<^verbatim>\<open>print\<close> called by a program reaches the screen, and that \<^verbatim>\<open>malloc\<close> returns a block the kernel
  has recorded for the program's process.
\<close>

section \<open>Instructions\<close>

text \<open>What the assembler routines use of the processor. An operand is a register; \<open>PUSH_AT q k\<close> pushes the word at
  \<open>[q + k]\<close>, \<open>MOV_TO\<close> and \<open>MOV_FROM\<close> store and load a register at a fixed address. \<open>INT80\<close> in a program and \<open>CALL\<close> in
  the kernel leave the routine: what they do is a parameter of the executor.\<close>

datatype reg = EAX | EBX | ECX | EDX | ESI | EDI | EBP | ESP

datatype instr = PUSH reg | PUSH_IMM u32 | PUSH_AT reg u32 | POP reg | MOV reg reg | MOV_IMM reg u32 | ADD_IMM reg u32 | RET | INT80
  | PUSHAD | POPAD | MOV_TO u32 reg | MOV_FROM reg u32 | CALL | IRETD

fun get_reg :: "reg \<Rightarrow> user_context \<Rightarrow> u32" where
  "get_reg EAX r = uc_eax r" | "get_reg EBX r = uc_ebx r" | "get_reg ECX r = uc_ecx r" | "get_reg EDX r = uc_edx r"
| "get_reg ESI r = uc_esi r" | "get_reg EDI r = uc_edi r" | "get_reg EBP r = uc_ebp r" | "get_reg ESP r = uc_esp r"

fun set_reg :: "reg \<Rightarrow> u32 \<Rightarrow> user_context \<Rightarrow> user_context" where
  "set_reg EAX v r = r\<lparr>uc_eax := v\<rparr>" | "set_reg EBX v r = r\<lparr>uc_ebx := v\<rparr>" | "set_reg ECX v r = r\<lparr>uc_ecx := v\<rparr>"
| "set_reg EDX v r = r\<lparr>uc_edx := v\<rparr>" | "set_reg ESI v r = r\<lparr>uc_esi := v\<rparr>" | "set_reg EDI v r = r\<lparr>uc_edi := v\<rparr>"
| "set_reg EBP v r = r\<lparr>uc_ebp := v\<rparr>" | "set_reg ESP v r = r\<lparr>uc_esp := v\<rparr>"

text \<open>The status flags that an addition sets: carry, parity, auxiliary carry, zero, sign, overflow.\<close>

definition add_flags :: "u32 \<Rightarrow> u32 \<Rightarrow> u32 \<Rightarrow> u32" where
  "add_flags x y f =
     (let z = x + y; put = (\<lambda>i b. if b then 2 ^ i else 0) in
      (f AND NOT 0x8d5) OR put 0 (unat x + unat y \<ge> 2 ^ 32) OR put 2 (even (length (filter (bit z) [0..<8]))) OR
      put 4 (unat (x AND 15) + unat (y AND 15) > 15) OR put 6 (z = 0) OR put 7 (bit z 31) OR
      put 11 (sint x + sint y \<noteq> sint z))"

text \<open>A store of a word in the address space \<open>d\<close>.\<close>

definition vwrite32 :: "mem \<Rightarrow> u32 \<Rightarrow> u32 \<Rightarrow> u32 \<Rightarrow> mem option" where
  "vwrite32 m d va v = do {
     m1 \<leftarrow> vwrite m d va (ucast v);
     m2 \<leftarrow> vwrite m1 d (va + 1) (ucast (drop_bit 8 v));
     m3 \<leftarrow> vwrite m2 d (va + 2) (ucast (drop_bit 16 v));
     vwrite m3 d (va + 3) (ucast (drop_bit 24 v))
   }"

type_synonym 'z cpu = "user_context \<times> 'z idtstate_scheme"

text \<open>Memory is accessed in the address space that is loaded; \<open>None\<close> is a fault or a call that does not return.\<close>

definition load :: "u32 \<Rightarrow> 'z cpu \<Rightarrow> u32 option" where
  "load va c = vread32 (kmem (snd c)) (cr3 (snd c)) va"

definition store :: "u32 \<Rightarrow> u32 \<Rightarrow> 'z cpu \<Rightarrow> 'z cpu option" where
  "store va v c = do { m \<leftarrow> vwrite32 (kmem (snd c)) (cr3 (snd c)) va v; Some (fst c, put_kmem m (snd c)) }"

definition push :: "u32 \<Rightarrow> 'z cpu \<Rightarrow> 'z cpu option" where
  "push v c = (let sp = uc_esp (fst c) - 4 in do { c' \<leftarrow> store sp v c; Some ((fst c')\<lparr>uc_esp := sp\<rparr>, snd c') })"

fun push_all :: "u32 list \<Rightarrow> 'z cpu \<Rightarrow> 'z cpu option" where
  "push_all [] c = Some c"
| "push_all (v # vs) c = do { c' \<leftarrow> push v c; push_all vs c' }"

fun pop_all :: "nat \<Rightarrow> 'z cpu \<Rightarrow> (u32 list \<times> 'z cpu) option" where
  "pop_all 0 c = Some ([], c)"
| "pop_all (Suc n) c = do {
     v \<leftarrow> load (uc_esp (fst c)) c;
     (vs, c') \<leftarrow> pop_all n ((fst c)\<lparr>uc_esp := uc_esp (fst c) + 4\<rparr>, snd c);
     Some (v # vs, c')
   }"

fun exec :: "('z cpu \<Rightarrow> 'z cpu option) \<Rightarrow> instr \<Rightarrow> 'z cpu \<Rightarrow> 'z cpu option" where
  "exec out (PUSH q) (r, s) = push (get_reg q r) (r, s)"
| "exec out (PUSH_IMM v) c = push v c"
| "exec out (PUSH_AT q k) (r, s) = do { v \<leftarrow> load (get_reg q r + k) (r, s); push v (r, s) }"
| "exec out (POP q) (r, s) = do { v \<leftarrow> load (uc_esp r) (r, s); Some (set_reg q v (r\<lparr>uc_esp := uc_esp r + 4\<rparr>), s) }"
| "exec out (MOV q q') (r, s) = Some (set_reg q (get_reg q' r) r, s)"
| "exec out (MOV_IMM q v) (r, s) = Some (set_reg q v r, s)"
| "exec out (ADD_IMM q v) (r, s) =
     Some (set_reg q (get_reg q r + v) (r\<lparr>uc_flags := add_flags (get_reg q r) v (uc_flags r)\<rparr>), s)"
| "exec out RET (r, s) = do { v \<leftarrow> load (uc_esp r) (r, s); Some (r\<lparr>uc_ip := v, uc_esp := uc_esp r + 4\<rparr>, s) }"
| "exec out INT80 c = out c"
| "exec out PUSHAD (r, s) =
     push_all [uc_eax r, uc_ecx r, uc_edx r, uc_ebx r, uc_esp r, uc_ebp r, uc_esi r, uc_edi r] (r, s)"
| "exec out POPAD c = do {
     (vs, (r, s)) \<leftarrow> pop_all 8 c;
     Some (r\<lparr>uc_edi := vs ! 0, uc_esi := vs ! 1, uc_ebp := vs ! 2, uc_ebx := vs ! 4, uc_edx := vs ! 5, uc_ecx := vs ! 6,
       uc_eax := vs ! 7\<rparr>, s)
   }"
| "exec out (MOV_TO a q) (r, s) = store a (get_reg q r) (r, s)"
| "exec out (MOV_FROM q a) (r, s) = do { v \<leftarrow> load a (r, s); Some (set_reg q v r, s) }"
| "exec out CALL c = out c"
| "exec out IRETD c = do {
     (vs, (r, s)) \<leftarrow> pop_all 5 c;
     Some (r\<lparr>uc_ip := vs ! 0, uc_cs := vs ! 1, uc_flags := vs ! 2, uc_esp := vs ! 3, uc_ss := vs ! 4\<rparr>, s)
   }"

fun run :: "('z cpu \<Rightarrow> 'z cpu option) \<Rightarrow> instr list \<Rightarrow> 'z cpu \<Rightarrow> 'z cpu option" where
  "run out [] c = Some c"
| "run out (i # is) c = do { c' \<leftarrow> exec out i c; run out is c' }"

section \<open>Entering the kernel\<close>

text \<open>A call of a C function of two arguments. It finds them on the stack and leaves its result in \<^verbatim>\<open>eax\<close>; the other registers
  that it may clobber, and \<^verbatim>\<open>eax\<close> after a function without a result, are restored by the caller before they are used.\<close>

fun call_c :: "(u32 \<Rightarrow> u32 \<Rightarrow> 'z idtstate_scheme \<Rightarrow> (u32 \<times> 'z idtstate_scheme) option) \<Rightarrow> 'z cpu \<Rightarrow> 'z cpu option" where
  "call_c f (r, s) = do {
     x \<leftarrow> load (uc_esp r) (r, s);
     y \<leftarrow> load (uc_esp r + 4) (r, s);
     (res, s') \<leftarrow> f x y s;
     Some (r\<lparr>uc_eax := res\<rparr>, s')
   }"

text \<open>The routine behind the gate of interrupt 0x80, where \<^verbatim>\<open>tmp_res\<close> is a word of the kernel's data, and the routine that the
  macro \<^verbatim>\<open>interrupt\<close> makes for each of the 512 gates.\<close>

definition isr80h_wrapper :: "u32 \<Rightarrow> instr list" where
  "isr80h_wrapper tmp_res =
     [PUSHAD, PUSH ESP, PUSH EAX, CALL, MOV_TO tmp_res EAX, ADD_IMM ESP 8, POPAD, MOV_FROM EAX tmp_res, IRETD]"

definition interrupt_entry :: "nat \<Rightarrow> instr list" where
  "interrupt_entry n = [PUSHAD, PUSH ESP, PUSH_IMM (word_of_nat n), CALL, ADD_IMM ESP 8, POPAD, IRETD]"

text \<open>At an interrupt the processor takes the kernel's stack from the task state segment, pushes what \<^verbatim>\<open>iretd\<close> pops, clears
  the interrupt flag and goes to the routine of the gate in the kernel's code segment.\<close>

definition enter_kernel :: "u32 \<Rightarrow> ('z cpu \<Rightarrow> 'z cpu option) \<Rightarrow> instr list \<Rightarrow> 'z cpu \<Rightarrow> 'z cpu option" where
  "enter_kernel tss out routine c = (case c of (r, s) \<Rightarrow> do {
     esp0 \<leftarrow> load (tss + 4) (r, s);
     ss0 \<leftarrow> load (tss + 8) (r, s);
     c1 \<leftarrow> push_all [uc_ss r, uc_esp r, uc_flags r, uc_cs r, uc_ip r]
       (r\<lparr>uc_esp := esp0, uc_ss := ss0, uc_cs := 8, uc_flags := uc_flags r AND NOT 0x200\<rparr>, s);
     run out routine c1
   })"

definition int80 :: "u32 \<Rightarrow> u32 \<Rightarrow> 'z cpu \<Rightarrow> 'z cpu option" where
  "int80 tss tmp_res c = enter_kernel tss (call_c (\<lambda>command. isr80h_handler (sint command))) (isr80h_wrapper tmp_res) c"

definition raise_interrupt :: "device \<Rightarrow> u32 \<Rightarrow> nat \<Rightarrow> 'z cpu \<Rightarrow> 'z cpu option" where
  "raise_interrupt dev tss n c = enter_kernel tss
     (call_c (\<lambda>i frame s. map_option (Pair 0) (interrupt_handler dev (unat i) frame s))) (interrupt_entry n) c"

section \<open>The routines of the user library\<close>

definition print_stub :: "instr list" where
  "print_stub = [PUSH EBP, MOV EBP ESP, PUSH_AT EBP 8, MOV_IMM EAX 1, INT80, ADD_IMM ESP 4, POP EBP, RET]"

definition getkey_stub :: "instr list" where
  "getkey_stub = [PUSH EBP, MOV EBP ESP, MOV_IMM EAX 2, INT80, POP EBP, RET]"

definition peachos_putchar_stub :: "instr list" where
  "peachos_putchar_stub = [PUSH EBP, MOV EBP ESP, MOV_IMM EAX 3, PUSH_AT EBP 8, INT80, ADD_IMM ESP 4, POP EBP, RET]"

definition peachos_malloc_stub :: "instr list" where
  "peachos_malloc_stub = [PUSH EBP, MOV EBP ESP, MOV_IMM EAX 4, PUSH_AT EBP 8, INT80, ADD_IMM ESP 4, POP EBP, RET]"

definition peachos_free_stub :: "instr list" where
  "peachos_free_stub = [PUSH EBP, MOV EBP ESP, MOV_IMM EAX 5, PUSH_AT EBP 8, INT80, ADD_IMM ESP 4, POP EBP, RET]"

section \<open>Stacks\<close>

text \<open>\<open>stack_at m d va pa n\<close>: the \<open>n\<close> words at the virtual address \<open>va\<close> are the \<open>n\<close> words at the physical address
  \<open>pa\<close>, and the page tables that say so are elsewhere.\<close>

definition stack_at :: "mem \<Rightarrow> u32 \<Rightarrow> u32 \<Rightarrow> u32 \<Rightarrow> nat \<Rightarrow> bool" where
  "stack_at m d va pa n \<longleftrightarrow> (\<forall>j < 4 * n. translate m d (va + word_of_nat j) = Some (pa + word_of_nat j)) \<and>
     unat d mod 4096 = 0 \<and> walk_region m d \<inter> span pa (4 * n) = {} \<and> unat pa + 4 * n \<le> 4294967296"

lemma walk_region_agree:
  assumes "agree_off S m m'" "walk_region m d \<inter> S = {}" "unat d mod 4096 = 0"
  shows "walk_region m' d = walk_region m d"
proof -
  have "table_of m' d i = table_of m d i" if "i < 1024" for i
  proof -
    have "span d 4096 \<inter> S = {}" using assms(2) unfolding walk_region_def by blast
    then have "span (d + 4 * word_of_nat i) 4 \<inter> S = {}" using slot_in_page [OF assms(3) that] by blast
    then show ?thesis by (simp add: table_of_def read32_agree [OF assms(1)])
  qed
  then show ?thesis unfolding walk_region_def tables_region_def by auto
qed

lemma stack_agree:
  assumes "stack_at m d va pa n" "agree_off S m m'" "walk_region m d \<inter> S = {}"
  shows "stack_at m' d va pa n"
  using assms(1) translate_agree(1) [OF assms(2,3)] walk_region_agree [OF assms(2,3)] by (simp add: stack_at_def)

lemma stack_set:
  assumes "stack_at m d va pa n" "i < n"
  shows "stack_at (set_slot m pa i v) d va pa n"
  using assms by (intro stack_agree [OF assms(1) set_slot_agree [of _ n]]) (simp_all add: stack_at_def)

lemma stack_translate:
  assumes "stack_at m d va pa n" "i < n" "k < 4" "x = va + 4 * word_of_nat i + word_of_nat k"
  shows "translate m d x = Some (pa + 4 * word_of_nat i + word_of_nat k)"
proof -
  have "4 * i + k < 4 * n" using assms(2,3) by simp
  then have "translate m d (va + word_of_nat (4 * i + k)) = Some (pa + word_of_nat (4 * i + k))"
    using assms(1) unfolding stack_at_def by blast
  then show ?thesis using assms(4) by (simp add: add.assoc)
qed

lemma stack_load:
  assumes "stack_at m d va pa n" "i < n"
  shows "vread32 m d (va + 4 * word_of_nat i) = Some (slot m pa i)"
  using stack_translate [OF assms, of 0] stack_translate [OF assms, of 1] stack_translate [OF assms, of 2] stack_translate [OF assms, of 3]
  by (simp add: vread32_def vread_def slot_def read32_def)

lemma stack_store:
  assumes "stack_at m d va pa n" "i < n"
  shows "vwrite32 m d (va + 4 * word_of_nat i) v = Some (set_slot m pa i v)"
proof -
  let ?p = "pa + 4 * word_of_nat i"
  have w: "vwrite m' d (va + 4 * word_of_nat i + word_of_nat k) b = Some (m'(?p + word_of_nat k := b)) \<and>
      agree_off (span pa (4 * n)) m (m'(?p + word_of_nat k := b))"
    if "agree_off (span pa (4 * n)) m m'" "k < 4" for m' k b
  proof -
    have s: "walk_region m d \<inter> span pa (4 * n) = {}" "unat pa + 4 * n \<le> 4294967296" using assms(1) by (simp_all add: stack_at_def)
    have "?p + word_of_nat k \<in> span ?p 4" using that(2) by simp
    then have "?p + word_of_nat k \<in> span pa (4 * n)" using array_span_subset [OF s(2) assms(2)] by blast
    then have "agree_off (span pa (4 * n)) m (m'(?p + word_of_nat k := b))" using that(1) by (auto simp: agree_off_def)
    moreover have "translate m' d (va + 4 * word_of_nat i + word_of_nat k) = Some (?p + word_of_nat k)"
      by (rule stack_translate [OF stack_agree [OF assms(1) that(1) s(1)] assms(2) that(2)]) simp
    ultimately show ?thesis by (simp add: vwrite_def)
  qed
  note w0 = w [OF agree_off_refl, of 0] and w1 = w [where k = 1] and w2 = w [where k = 2] and w3 = w [where k = 3]
  show ?thesis using w0 w1 w2 w3 by (simp add: vwrite32_def set_slot_def write32_def bytes_of_u32 del: fun_upd_apply)
qed

lemma stack_array:
  assumes "stack_at m d va pa n"
  shows "unat pa + 4 * n \<le> 4294967296" "walk_region m d \<inter> span pa (4 * n) = {}"
  using assms by (simp_all add: stack_at_def)

text \<open>The memory after pushing a list of words down to entry \<open>i\<close>.\<close>

fun push_mem :: "mem \<Rightarrow> u32 \<Rightarrow> nat \<Rightarrow> u32 list \<Rightarrow> mem" where
  "push_mem m pa i [] = m"
| "push_mem m pa i (v # vs) = push_mem (set_slot m pa (i + length vs) v) pa i vs"

lemma push_mem_spec:
  assumes "unat pa + 4 * n \<le> 4294967296"
  shows "i + length vs \<le> n \<Longrightarrow> agree_off (span pa (4 * n)) m (push_mem m pa i vs) \<and>
    (\<forall>k < n. slot (push_mem m pa i vs) pa k = (if i \<le> k \<and> k < i + length vs then rev vs ! (k - i) else slot m pa k))"
proof (induction vs arbitrary: m)
  case (Cons v vs)
  let ?m = "set_slot m pa (i + length vs) v"
  have l: "i + length vs < n" using Cons.prems by simp
  have a: "agree_off (span pa (4 * n)) m (push_mem ?m pa i vs)"
    using agree_off_trans_same [OF set_slot_agree [OF assms l]] conjunct1 [OF Cons.IH [of ?m]] Cons.prems by simp
  have "slot (push_mem ?m pa i vs) pa k = (if i \<le> k \<and> k < i + length (v # vs) then rev (v # vs) ! (k - i) else slot m pa k)"
    if "k < n" for k
  proof -
    have "slot (push_mem ?m pa i vs) pa k = (if i \<le> k \<and> k < i + length vs then rev vs ! (k - i) else slot ?m pa k)"
      using Cons.IH [of ?m] Cons.prems that by simp
    moreover have "slot ?m pa k = (if k = i + length vs then v else slot m pa k)" by (rule slot_set_slot [OF assms l that])
    ultimately show ?thesis by (auto simp: nth_append)
  qed
  then show ?case using a by simp
qed auto

lemma stack_push_mem:
  assumes "stack_at m d va pa n" "i + length vs \<le> n"
  shows "stack_at (push_mem m pa i vs) d va pa n"
  using push_mem_spec [OF stack_array(1) [OF assms(1)] assms(2)] stack_array(2) [OF assms(1)] by (intro stack_agree [OF assms(1)]) auto

lemma push_stack:
  assumes "stack_at (kmem s) (cr3 s) va pa n" "i < n" "uc_esp r = va + 4 * word_of_nat (Suc i)"
  shows "push v (r, s) = Some (r\<lparr>uc_esp := va + 4 * word_of_nat i\<rparr>, put_kmem (set_slot (kmem s) pa i v) s)"
proof -
  have "uc_esp r - 4 = va + 4 * word_of_nat i" using assms(3) by (simp add: algebra_simps)
  then show ?thesis using stack_store [OF assms(1,2)] by (simp add: push_def store_def Let_def)
qed

lemma push_all_stack:
  "stack_at (kmem s) (cr3 s) va pa n \<Longrightarrow> i + length vs \<le> n \<Longrightarrow> uc_esp r = va + 4 * word_of_nat (i + length vs) \<Longrightarrow>
   push_all vs (r, s) = Some (r\<lparr>uc_esp := va + 4 * word_of_nat i\<rparr>, put_kmem (push_mem (kmem s) pa i vs) s)"
proof (induction vs arbitrary: r s)
  case Nil
  then show ?case by (cases r) (simp add: put_kmem_def)
next
  case (Cons v vs)
  have l: "i + length vs < n" using Cons.prems(2) by simp
  have p: "push v (r, s) = Some (r\<lparr>uc_esp := va + 4 * word_of_nat (i + length vs)\<rparr>, put_kmem (set_slot (kmem s) pa (i + length vs) v) s)"
    using Cons.prems(3) by (intro push_stack [OF Cons.prems(1) l]) simp
  let ?s = "put_kmem (set_slot (kmem s) pa (i + length vs) v) s"
  have c: "cr3 ?s = cr3 s" by (simp add: put_kmem_def)
  have "push_all vs (r\<lparr>uc_esp := va + 4 * word_of_nat (i + length vs)\<rparr>, ?s) =
    Some (r\<lparr>uc_esp := va + 4 * word_of_nat i\<rparr>, put_kmem (push_mem (kmem ?s) pa i vs) ?s)"
    using Cons.IH [of ?s "r\<lparr>uc_esp := va + 4 * word_of_nat (i + length vs)\<rparr>"] stack_set [OF Cons.prems(1) l] l by (simp add: c)
  then show ?case using p by simp
qed

lemma pop_all_stack:
  "stack_at (kmem s) (cr3 s) va pa n \<Longrightarrow> i + k \<le> n \<Longrightarrow> uc_esp r = va + 4 * word_of_nat i \<Longrightarrow>
   pop_all k (r, s) = Some (map (slot (kmem s) pa) [i..<i + k], (r\<lparr>uc_esp := va + 4 * word_of_nat (i + k)\<rparr>, s))"
proof (induction k arbitrary: r i)
  case 0
  then show ?case by (cases r) simp
next
  case (Suc k)
  have l: "load (uc_esp r) (r, s) = Some (slot (kmem s) pa i)"
    using stack_load [OF Suc.prems(1), of i] Suc.prems(2,3) by (simp add: load_def)
  have e: "uc_esp r + 4 = va + 4 * word_of_nat (Suc i)" using Suc.prems(3) by (simp add: algebra_simps)
  have "pop_all k (r\<lparr>uc_esp := va + 4 * word_of_nat (Suc i)\<rparr>, s) =
    Some (map (slot (kmem s) pa) [Suc i..<Suc i + k], (r\<lparr>uc_esp := va + 4 * word_of_nat (Suc i + k)\<rparr>, s))"
    using Suc.IH [of "Suc i" "r\<lparr>uc_esp := va + 4 * word_of_nat (Suc i)\<rparr>"] Suc.prems(1,2) by simp
  then show ?case by (simp only: pop_all.simps fst_conv snd_conv l e bind.simps prod.case) (simp add: upt_conv_Cons del: upt_Suc)
qed

section \<open>Into the kernel and out of it\<close>

lemma run_Cons: "run out (i # is) c = (case exec out i c of None \<Rightarrow> None | Some c' \<Rightarrow> run out is c')"
  by (simp split: option.split)

text \<open>What the entry into the kernel puts on its stack, from the highest address down: the frame for \<^verbatim>\<open>iretd\<close>, the general
  registers, the address of the frame and a number, which is the command of a system call or the interrupt.\<close>

definition entry_words :: "u32 \<Rightarrow> u32 \<Rightarrow> user_context \<Rightarrow> u32 list" where
  "entry_words kb n r = [uc_ss r, uc_esp r, uc_flags r, uc_cs r, uc_ip r, uc_eax r, uc_ecx r, uc_edx r, uc_ebx r,
     kb + 40, uc_ebp r, uc_esi r, uc_edi r, kb + 8, n]"

definition entry_mem :: "u32 \<Rightarrow> u32 \<Rightarrow> user_context \<Rightarrow> mem \<Rightarrow> mem" where
  "entry_mem kb n r m = push_mem m kb 0 (entry_words kb n r)"

abbreviation trap_mem :: "u32 \<Rightarrow> user_context \<Rightarrow> mem \<Rightarrow> mem" where
  "trap_mem kb r m \<equiv> entry_mem kb (uc_eax r) r m"

lemma entry_mem_spec:
  assumes "unat kb + 60 \<le> 4294967296"
  shows "agree_off (span kb 60) m (entry_mem kb n r m)" "i < 15 \<Longrightarrow> slot (entry_mem kb n r m) kb i = rev (entry_words kb n r) ! i"
proof -
  have l: "length (entry_words kb n r) = 15" by (simp add: entry_words_def)
  note p = push_mem_spec [of kb 15 0 "entry_words kb n r" m, unfolded l]
  show "agree_off (span kb 60) m (entry_mem kb n r m)" using p assms unfolding entry_mem_def by simp
  show "i < 15 \<Longrightarrow> slot (entry_mem kb n r m) kb i = rev (entry_words kb n r) ! i" using p assms unfolding entry_mem_def by simp
qed

lemma stack_entry_mem: "stack_at m d kb kb 15 \<Longrightarrow> stack_at (entry_mem kb n r m) d kb kb 15"
  unfolding entry_mem_def by (rule stack_push_mem) (simp_all add: entry_words_def)

declare push_mem.simps [simp del] push_all.simps [simp del]

text \<open>Up to the call of the C function.\<close>

lemma kernel_entered:
  assumes "stack_at (kmem s) (cr3 s) kb kb 15" "load (tss + 4) (r, s) = Some (kb + 60)" "load (tss + 8) (r, s) = Some ss0"
    and "f n (kb + 8) (put_kmem (entry_mem kb n r (kmem s)) s) = Some (res, s1)" "i = PUSH EAX \<and> n = uc_eax r \<or> i = PUSH_IMM n"
  shows "\<exists>r1. enter_kernel tss (call_c f) (PUSHAD # PUSH ESP # i # CALL # routine) (r, s) =
    run (call_c f) routine (r1\<lparr>uc_esp := kb, uc_eax := res\<rparr>, s1)"
proof -
  let ?m = "kmem s" and ?hw = "[uc_ss r, uc_esp r, uc_flags r, uc_cs r, uc_ip r]"
  let ?r0 = "r\<lparr>uc_esp := kb + 60, uc_ss := ss0, uc_cs := 8, uc_flags := uc_flags r AND NOT 0x200\<rparr>"
  let ?rs = "[uc_eax r, uc_ecx r, uc_edx r, uc_ebx r, kb + 40, uc_ebp r, uc_esi r, uc_edi r]"
  let ?m1 = "push_mem ?m kb 10 ?hw" and ?m2 = "push_mem (push_mem ?m kb 10 ?hw) kb 2 ?rs"
  have st1: "stack_at ?m1 (cr3 s) kb kb 15" by (rule stack_push_mem [OF assms(1)]) simp
  have st2: "stack_at ?m2 (cr3 s) kb kb 15" by (rule stack_push_mem [OF st1]) simp
  let ?m3 = "set_slot ?m2 kb 1 (kb + 8)" let ?m4 = "set_slot ?m3 kb 0 n"
  have st3: "stack_at ?m3 (cr3 s) kb kb 15" by (rule stack_set [OF st2]) simp
  have st4: "stack_at ?m4 (cr3 s) kb kb 15" by (rule stack_set [OF st3]) simp
  have c [simp]: "cr3 (put_kmem m s) = cr3 s" for m by (simp add: put_kmem_def)
  have m4: "entry_mem kb n r ?m = ?m4"
    by (simp add: entry_mem_def entry_words_def push_mem.simps eval_nat_numeral)
  have p1: "push_all ?hw (?r0, s) = Some (?r0\<lparr>uc_esp := kb + 40\<rparr>, put_kmem ?m1 s)"
    using push_all_stack [OF assms(1), of 10 ?hw ?r0] by simp
  let ?r1 = "?r0\<lparr>uc_esp := kb + 40\<rparr>"
  have p2: "push_all ?rs (?r1, put_kmem ?m1 s) = Some (?r0\<lparr>uc_esp := kb + 8\<rparr>, put_kmem ?m2 s)"
    using push_all_stack [of "put_kmem ?m1 s" kb kb 15 2 ?rs ?r1] st1 by simp
  have p3: "push (kb + 8) (?r0\<lparr>uc_esp := kb + 8\<rparr>, put_kmem ?m2 s) = Some (?r0\<lparr>uc_esp := kb + 4\<rparr>, put_kmem ?m3 s)"
    using push_stack [of "put_kmem ?m2 s" kb kb 15 1 "?r0\<lparr>uc_esp := kb + 8\<rparr>" "kb + 8"] st2 by simp
  have "push n (?r0\<lparr>uc_esp := kb + 4\<rparr>, put_kmem ?m3 s) = Some (?r0\<lparr>uc_esp := kb\<rparr>, put_kmem ?m4 s)"
    using push_stack [of "put_kmem ?m3 s" kb kb 15 0 "?r0\<lparr>uc_esp := kb + 4\<rparr>" n] st3 by simp
  then have p4: "exec (call_c f) i (?r0\<lparr>uc_esp := kb + 4\<rparr>, put_kmem ?m3 s) = Some (?r0\<lparr>uc_esp := kb\<rparr>, put_kmem ?m4 s)"
    using assms(5) by auto
  have "vread32 (entry_mem kb n r ?m) (cr3 s) kb = Some n" "vread32 (entry_mem kb n r ?m) (cr3 s) (kb + 4) = Some (kb + 8)"
    using stack_load [OF st4 [folded m4], of 0] stack_load [OF st4 [folded m4], of 1] entry_mem_spec(2) [of kb _ n r ?m]
      stack_array(1) [OF assms(1)] by (simp_all add: entry_words_def)
  note l = this [unfolded m4] and h = assms(4) [unfolded m4]
  have "enter_kernel tss (call_c f) (PUSHAD # PUSH ESP # i # CALL # routine) (r, s) =
      run (call_c f) routine (?r0\<lparr>uc_esp := kb, uc_eax := res\<rparr>, s1)"
    using h by (simp add: enter_kernel_def assms(2,3) [unfolded load_def, simplified] p1 [simplified] p2 [simplified] p3 [simplified]
      p4 [simplified] load_def l [simplified])
  then show ?thesis by blast
qed

lemma trap_leaves:
  assumes "stack_at (kmem s) (cr3 s) kb kb 15" "stack_at (kmem s) (cr3 s) tmp tmp 1" "span tmp 4 \<inter> span kb 60 = {}"
    and "\<forall>i \<in> {2..<15}. slot (kmem s) kb i = rev (entry_words kb (uc_eax r) r) ! i"
  shows "run out (drop 4 (isr80h_wrapper tmp)) (r1\<lparr>uc_esp := kb, uc_eax := res\<rparr>, s) =
    Some (r\<lparr>uc_eax := res\<rparr>, put_kmem (write32 (kmem s) tmp res) s)"
proof -
  let ?m = "write32 (kmem s) tmp res" let ?s = "put_kmem ?m s" and ?w = "rev (entry_words kb (uc_eax r) r)"
  have c [simp]: "cr3 (put_kmem m s) = cr3 s" for m by (simp add: put_kmem_def)
  have tm: "set_slot (kmem s) tmp 0 res = ?m" by (simp add: set_slot_def)
  have st: "stack_at ?m (cr3 s) tmp tmp 1" "stack_at ?m (cr3 s) kb kb 15"
    using stack_set [OF assms(2), of 0 res] stack_agree [OF assms(1) write32_agree] stack_array(2) [OF assms(2)] by (simp_all add: tm)
  have sl: "slot ?m kb i = ?w ! i" if "2 \<le> i" "i < 15" for i
    using slot_agree [of kb 15 i, OF _ that(2) write32_agree] stack_array(1) [OF assms(1)] assms(3,4) that by (simp add: Int_commute)
  have w: "store tmp res (r0, s) = Some (r0, ?s)" for r0
    using stack_store [OF assms(2), of 0 res] by (simp add: store_def tm)
  have p8: "pop_all 8 (r0, ?s) = Some (map ((!) ?w) [2..<10], (r0\<lparr>uc_esp := kb + 40\<rparr>, ?s))" if "uc_esp r0 = kb + 8" for r0
    using pop_all_stack [of ?s kb kb 15 2 8 r0] st(2) that sl by simp
  have p5: "pop_all 5 (r0, ?s) = Some (map ((!) ?w) [10..<15], (r0\<lparr>uc_esp := kb + 60\<rparr>, ?s))" if "uc_esp r0 = kb + 40" for r0
    using pop_all_stack [of ?s kb kb 15 10 5 r0] st(2) that sl by simp
  have l: "load tmp (r0, ?s) = Some res" for r0
    using stack_load [OF st(1), of 0] by (simp add: load_def slot_def)
  show ?thesis
    by (simp add: isr80h_wrapper_def w p8 p5 l) (simp add: entry_words_def upt_rec)
qed

section \<open>The library routines\<close>

text \<open>In the address space \<open>d\<close> the kernel's stack below \<open>kb + 60\<close>, the word \<open>tmp\<close> and the task state segment are at
  their physical addresses, and the segment names that stack.\<close>

definition trap_ready :: "u32 \<Rightarrow> u32 \<Rightarrow> u32 \<Rightarrow> mem \<Rightarrow> u32 \<Rightarrow> bool" where
  "trap_ready tss tmp kb m d \<longleftrightarrow> stack_at m d kb kb 15 \<and> stack_at m d tmp tmp 1 \<and> span tmp 4 \<inter> span kb 60 = {} \<and>
     stack_at m d tss tss 3 \<and> slot m tss 1 = kb + 60"

lemma trap_ready_agree:
  assumes "trap_ready tss tmp kb m d" "agree_off S m m'" "(walk_region m d \<union> span tss 12) \<inter> S = {}"
  shows "trap_ready tss tmp kb m' d"
proof -
  have w: "walk_region m d \<inter> S = {}" "span tss 12 \<inter> S = {}" using assms(3) by blast+
  have "slot m' tss 1 = slot m tss 1"
    using assms(1) w(2) slot_agree [of tss 3 1, OF _ _ assms(2)] by (simp add: trap_ready_def stack_at_def)
  then show ?thesis using assms(1) by (simp add: trap_ready_def stack_agree [OF _ assms(2) w(1)])
qed

lemma int80_frame:
  assumes "trap_ready tss tmp kb (kmem s) (cr3 s)"
    and "isr80h_handler (sint (uc_eax r)) (kb + 8) (put_kmem (trap_mem kb r (kmem s)) s) = Some (res, s1)"
    and "agree_off S (trap_mem kb r (kmem s)) (kmem s1)" "cr3 s1 = cr3 s" "(walk_region (kmem s) (cr3 s) \<union> span kb 60) \<inter> S = {}"
  shows "int80 tss tmp (r, s) = Some (r\<lparr>uc_eax := res\<rparr>, put_kmem (write32 (kmem s1) tmp res) s1)"
proof -
  let ?m = "trap_mem kb r (kmem s)"
  note t = assms(1) [unfolded trap_ready_def]
  have k: "unat kb + 60 \<le> 4294967296" "walk_region (kmem s) (cr3 s) \<inter> span kb 60 = {}" "unat (cr3 s) mod 4096 = 0"
    using t by (simp_all add: stack_at_def)
  note tm = entry_mem_spec [OF k(1), where n = "uc_eax r" and r = r and m = "kmem s"]
  have ld: "load (tss + 4) (r, s) = Some (kb + 60)" "load (tss + 8) (r, s) = Some (slot (kmem s) tss 2)"
    using t stack_load [of "kmem s" "cr3 s" tss tss 3 1] stack_load [of "kmem s" "cr3 s" tss tss 3 2] by (simp_all add: load_def)
  let ?f = "\<lambda>command. isr80h_handler (sint command)"
  have w: "isr80h_wrapper tmp = PUSHAD # PUSH ESP # PUSH EAX # CALL # drop 4 (isr80h_wrapper tmp)" by (simp add: isr80h_wrapper_def)
  obtain r1 where "enter_kernel tss (call_c ?f) (PUSHAD # PUSH ESP # PUSH EAX # CALL # drop 4 (isr80h_wrapper tmp)) (r, s) =
      run (call_c ?f) (drop 4 (isr80h_wrapper tmp)) (r1\<lparr>uc_esp := kb, uc_eax := res\<rparr>, s1)"
    using kernel_entered [OF conjunct1 [OF t] ld, where f = ?f, OF assms(2)] by blast
  then have r1: "int80 tss tmp (r, s) = run (call_c ?f) (drop 4 (isr80h_wrapper tmp)) (r1\<lparr>uc_esp := kb, uc_eax := res\<rparr>, s1)"
    unfolding int80_def w [symmetric] .
  have "walk_region ?m (cr3 s) \<inter> S = {}" using walk_region_agree [OF tm(1) k(2,3)] assms(5) by blast
  moreover have "stack_at ?m (cr3 s) tmp tmp 1" by (rule stack_agree [OF _ tm(1) k(2)]) (use t in blast)
  ultimately have "stack_at (kmem s1) (cr3 s1) kb kb 15" "stack_at (kmem s1) (cr3 s1) tmp tmp 1"
    using stack_agree [OF stack_entry_mem [OF conjunct1 [OF t]] assms(3)] stack_agree [OF _ assms(3)] by (simp_all add: assms(4))
  moreover have "\<forall>i \<in> {2..<15}. slot (kmem s1) kb i = rev (entry_words kb (uc_eax r) r) ! i"
    using slot_agree [of kb 15, OF _ _ assms(3)] k(1) tm(2) assms(5) by (auto simp: Int_Un_distrib2)
  ultimately show ?thesis unfolding r1 using t by (intro trap_leaves) simp_all
qed

lemma run_append: "run out (xs @ ys) c = do { c' \<leftarrow> run out xs c; run out ys c' }"
  by (induction xs arbitrary: c) (simp_all split: bind_split)

text \<open>The state in which a routine with one argument traps; \<open>va\<close> is the address of the copied argument.\<close>

definition stub_mem :: "u32 \<Rightarrow> user_context \<Rightarrow> mem \<Rightarrow> mem" where
  "stub_mem pa r m = set_slot (set_slot m pa 1 (uc_ebp r)) pa 0 (slot m pa 3)"

definition stub_regs :: "u32 \<Rightarrow> u32 \<Rightarrow> user_context \<Rightarrow> user_context" where
  "stub_regs command va r = r\<lparr>uc_ebp := va + 4, uc_esp := va, uc_eax := command\<rparr>"

lemma stub_enters:
  assumes "stack_at (kmem s) (cr3 s) va pa 4" "uc_esp r = va + 8"
  shows "run out [PUSH EBP, MOV EBP ESP, PUSH_AT EBP 8, MOV_IMM EAX k] (r, s) = Some (stub_regs k va r, put_kmem (stub_mem pa r (kmem s)) s)"
    "run out [PUSH EBP, MOV EBP ESP, MOV_IMM EAX k, PUSH_AT EBP 8] (r, s) = Some (stub_regs k va r, put_kmem (stub_mem pa r (kmem s)) s)"
proof -
  let ?m1 = "set_slot (kmem s) pa 1 (uc_ebp r)" let ?s1 = "put_kmem ?m1 s"
  have c [simp]: "cr3 (put_kmem m s) = cr3 s" for m by (simp add: put_kmem_def)
  have st: "stack_at ?m1 (cr3 s) va pa 4" by (rule stack_set [OF assms(1)]) simp
  have p1: "push (uc_ebp r) (r, s) = Some (r\<lparr>uc_esp := va + 4\<rparr>, ?s1)"
    using push_stack [OF assms(1), of 1 r] assms(2) by simp
  have "slot ?m1 pa 3 = slot (kmem s) pa 3" using slot_set_slot [OF stack_array(1) [OF assms(1)], of 1 3] by simp
  then have l: "load (12 + va) (r0, ?s1) = Some (slot (kmem s) pa 3)" for r0
    using stack_load [OF st, of 3] by (simp add: load_def add.commute)
  have p2: "push (slot (kmem s) pa 3) (r0, ?s1) = Some (r0\<lparr>uc_esp := va\<rparr>, put_kmem (stub_mem pa r (kmem s)) s)" if "uc_esp r0 = va + 4" for r0
    using push_stack [of ?s1 va pa 4 0 r0] st that by (simp add: stub_mem_def)
  show "run out [PUSH EBP, MOV EBP ESP, PUSH_AT EBP 8, MOV_IMM EAX k] (r, s) = Some (stub_regs k va r, put_kmem (stub_mem pa r (kmem s)) s)"
    "run out [PUSH EBP, MOV EBP ESP, MOV_IMM EAX k, PUSH_AT EBP 8] (r, s) = Some (stub_regs k va r, put_kmem (stub_mem pa r (kmem s)) s)"
    by (simp_all add: p1 [simplified] l [simplified] p2 [simplified] stub_regs_def)
qed

definition argument_stubs :: "(instr list \<times> u32) list" where
  "argument_stubs = [(print_stub, 1), (peachos_putchar_stub, 3), (peachos_malloc_stub, 4), (peachos_free_stub, 5)]"

lemma argument_stub_runs:
  assumes "(stub, command) \<in> set argument_stubs" "stack_at (kmem s) (cr3 s) va pa 4" "uc_esp r = va + 8"
  shows "run out stub (r, s) = do {
     c \<leftarrow> out (stub_regs command va r, put_kmem (stub_mem pa r (kmem s)) s);
     run out [ADD_IMM ESP 4, POP EBP, RET] c }"
proof -
  let ?c = "(stub_regs command va r, put_kmem (stub_mem pa r (kmem s)) s)"
  note e = stub_enters [OF assms(2,3), of out command]
  have "run out ([PUSH EBP, MOV EBP ESP, PUSH_AT EBP 8, MOV_IMM EAX command] @ [INT80, ADD_IMM ESP 4, POP EBP, RET]) (r, s) =
      run out [INT80, ADD_IMM ESP 4, POP EBP, RET] ?c"
    "run out ([PUSH EBP, MOV EBP ESP, MOV_IMM EAX command, PUSH_AT EBP 8] @ [INT80, ADD_IMM ESP 4, POP EBP, RET]) (r, s) =
      run out [INT80, ADD_IMM ESP 4, POP EBP, RET] ?c"
    unfolding run_append e by (simp_all del: run.simps)
  then show ?thesis
    using assms(1) by (auto simp: argument_stubs_def print_stub_def peachos_putchar_stub_def peachos_malloc_stub_def
      peachos_free_stub_def run.simps(2) [of out INT80] simp del: run.simps)
qed

lemma stub_leaves:
  assumes "stack_at (kmem s) (cr3 s) va pa 4" "uc_esp r = va"
  shows "run out [ADD_IMM ESP 4, POP EBP, RET] (r, s) = Some (r\<lparr>uc_flags := add_flags va 4 (uc_flags r),
     uc_ebp := slot (kmem s) pa 1, uc_ip := slot (kmem s) pa 2, uc_esp := va + 12\<rparr>, s)"
  using stack_load [OF assms(1), of 1] stack_load [OF assms(1), of 2] assms(2) by (simp add: load_def add.commute)

lemma stub_mem_spec:
  assumes "stack_at m d va pa 4"
  shows "stack_at (stub_mem pa r m) d va pa 4" "agree_off (span pa 16) m (stub_mem pa r m)"
    "slot (stub_mem pa r m) pa 0 = slot m pa 3" "slot (stub_mem pa r m) pa 1 = uc_ebp r" "slot (stub_mem pa r m) pa 2 = slot m pa 2"
    "walk_region (stub_mem pa r m) d = walk_region m d"
proof -
  have s: "stack_at (set_slot m pa 1 (uc_ebp r)) d va pa 4" by (rule stack_set [OF assms]) simp
  show "stack_at (stub_mem pa r m) d va pa 4" unfolding stub_mem_def by (rule stack_set [OF s]) simp
  note b = stack_array(1) [OF assms]
  show a: "agree_off (span pa 16) m (stub_mem pa r m)"
    using agree_off_trans_same [OF set_slot_agree [OF b, of 1] set_slot_agree [OF b, of 0]] by (simp add: stub_mem_def)
  show "slot (stub_mem pa r m) pa 0 = slot m pa 3" "slot (stub_mem pa r m) pa 1 = uc_ebp r" "slot (stub_mem pa r m) pa 2 = slot m pa 2"
    using slot_set_slot [OF b] by (simp_all add: stub_mem_def)
  show "walk_region (stub_mem pa r m) d = walk_region m d"
    using walk_region_agree [OF a] assms by (simp add: stack_at_def)
qed

text \<open>A call of a routine with one argument, from its first instruction to its return, in terms of the handler.\<close>

lemma stub_call:
  assumes "(stub, command) \<in> set argument_stubs" "trap_ready tss tmp kb (kmem s) (cr3 s)"
    and "stack_at (kmem s) (cr3 s) va pa 4" "uc_esp r = va + 8"
    and "m = trap_mem kb (stub_regs command va r) (stub_mem pa r (kmem s))"
    and "isr80h_handler (sint command) (kb + 8) (put_kmem m s) = Some (res, s1)"
    and "agree_off S m (kmem s1)" "cr3 s1 = cr3 s" "(walk_region (kmem s) (cr3 s) \<union> span kb 60 \<union> span pa 16) \<inter> S = {}"
    and "span pa 16 \<inter> (span kb 60 \<union> span tmp 4 \<union> span tss 12) = {}"
  shows "run (int80 tss tmp) stub (r, s) = Some (r\<lparr>uc_eax := res, uc_esp := va + 12, uc_ip := slot (kmem s) pa 2,
     uc_flags := add_flags va 4 (uc_flags r)\<rparr>, put_kmem (write32 (kmem s1) tmp res) s1)"
proof -
  let ?m0 = "stub_mem pa r (kmem s)" and ?r0 = "stub_regs command va r" and ?d = "cr3 s"
  let ?s0 = "put_kmem ?m0 s" and ?s2 = "put_kmem (write32 (kmem s1) tmp res) s1"
  have c [simp]: "cr3 (put_kmem m' s') = cr3 s'" for m' and s' :: "'z idtstate_scheme" by (simp add: put_kmem_def)
  have S: "walk_region (kmem s) ?d \<inter> S = {}" "span kb 60 \<inter> S = {}" "span pa 16 \<inter> S = {}"
    and P: "span pa 16 \<inter> span kb 60 = {}" "span pa 16 \<inter> span tmp 4 = {}" "span tss 12 \<inter> span pa 16 = {}"
    using assms(9,10) by blast+
  note sm = stub_mem_spec [OF assms(3), of r]
  have "(walk_region (kmem s) ?d \<union> span tss 12) \<inter> span pa 16 = {}" using P(3) stack_array(2) [OF assms(3)] by (simp add: Int_Un_distrib2)
  then have tr: "trap_ready tss tmp kb (kmem ?s0) (cr3 ?s0)" using trap_ready_agree [OF assms(2) sm(2)] by simp
  have kb: "unat kb + 60 \<le> 4294967296" "walk_region (kmem s) ?d \<inter> span kb 60 = {}"
    using assms(2) by (simp_all add: trap_ready_def stack_at_def)
  have mm: "agree_off (span kb 60) ?m0 m" unfolding assms(5) by (rule entry_mem_spec(1) [OF kb(1)])
  have i: "int80 tss tmp (?r0, ?s0) = Some (?r0\<lparr>uc_eax := res\<rparr>, ?s2)"
    by (rule int80_frame [OF tr, where S = S])
      (use assms(5-8) S sm(6) in \<open>simp_all add: stub_regs_def put_kmem_def Int_Un_distrib2\<close>)
  have tw: "walk_region (kmem s) ?d \<inter> span tmp 4 = {}" using assms(2) by (simp add: trap_ready_def stack_at_def)
  have ag: "agree_off (span kb 60 \<union> (S \<union> span tmp 4)) ?m0 (kmem ?s2)"
    using agree_off_trans [OF mm agree_off_trans [OF assms(7) write32_agree]] by simp
  have st: "stack_at (kmem ?s2) (cr3 ?s2) va pa 4"
    using stack_agree [OF sm(1) ag] sm(6) S(1) kb(2) tw by (simp add: assms(8) Int_Un_distrib)
  have "slot (kmem ?s2) pa k = slot ?m0 pa k" if "k < 4" for k
    using slot_agree [OF stack_array(1) [OF assms(3)] that ag] P(1,2) S(3) by (simp add: Int_Un_distrib)
  then show ?thesis
    unfolding argument_stub_runs [OF assms(1,3,4)] i using stub_leaves [OF st, of "?r0\<lparr>uc_eax := res\<rparr>"] sm(4,5)
    by (simp add: stub_regs_def del: run.simps)
qed

section \<open>What the handler finds\<close>

lemma words_of_task:
  assumes "agree_off S m m'" "span t 4 \<inter> S = {}" "span (task_page_directory m t) 4 \<inter> S = {}"
  shows "task_page_directory m' t = task_page_directory m t" "task_directory m' t = task_directory m t"
  using assms by (simp_all add: task_directory_def directory_entry_def task_page_directory_def read32_agree [OF assms(1)])

text \<open>The routine traps in the address space of the current task: the handler has saved the registers of the
  program in the task, and the word on top of the program's stack is the argument.\<close>

lemma argument_at_handler:
  fixes kb va pa k :: u32 and r :: user_context and s :: "'z taskstate_scheme"
  defines "m \<equiv> trap_mem kb (stub_regs k va r) (stub_mem pa r (kmem s))"
  assumes "task_directory (kmem s) (current_task s) = d" "stack_at (kmem s) d va pa 4" "unat kb + 60 \<le> 4294967296"
    and "unat (current_task s) + 64 \<le> 4294967296" "t = saved (kb + 8) (put_kmem m s)" "R = span pa 16 \<union> span kb 60 \<union> span (current_task s) 64"
    and "walk_region (kmem s) d \<inter> R = {}" "span (task_page_directory (kmem s) (current_task s)) 4 \<inter> R = {}"
    and "span pa 16 \<inter> span kb 60 = {}" "span (current_task s) 64 \<inter> (span pa 16 \<union> span kb 60) = {}"
  shows "agree_off R (kmem s) (kmem t)" "agree_off (span (current_task s) 64) m (kmem t)"
    "task_page_directory (kmem t) (current_task s) = task_page_directory (kmem s) (current_task s)"
    "stack_at (kmem t) d va pa 4" "stack_word (kmem t) (current_task s) 0 = Some (slot (kmem s) pa 3)"
    "task_process (kmem t) (current_task s) = task_process (kmem s) (current_task s)"
proof -
  let ?t = "current_task s" and ?r = "stub_regs k va r" and ?m0 = "stub_mem pa r (kmem s)"
  have T: "span ?t 64 \<inter> span pa 16 = {}" "span ?t 64 \<inter> span kb 60 = {}" using assms(11) by (simp_all add: Int_Un_distrib)
  have kb8: "unat (kb + 8) = unat kb + 8" using assms(4) by (simp add: unat_word_ariths)
  have f: "span (kb + 8) 52 \<subseteq> span kb 60" using kb8 assms(4) by (intro span_subset) simp_all
  then have fr: "span (kb + 8) 52 \<inter> span ?t 64 = {}" using T(2) by blast
  note sv = task_save_state_spec [OF assms(5) _ fr, of m]
  have kt: "kmem t = task_save_state m ?t (kb + 8)" using assms(6) by simp
  note sm = stub_mem_spec [OF assms(3), of r] and tm = entry_mem_spec [OF assms(4), where m = ?m0 and r = ?r and n = "uc_eax ?r", folded m_def]
  show a3: "agree_off (span ?t 64) m (kmem t)" using sv kb8 assms(4) by (simp add: kt)
  show a: "agree_off R (kmem s) (kmem t)"
    unfolding assms(7) by (rule agree_off_trans [OF agree_off_trans [OF sm(2) tm(1)] a3])
  show "task_process (kmem t) ?t = task_process (kmem s) ?t"
  proof -
    have "slot m ?t 13 = slot (kmem s) ?t 13"
      using slot_agree [of ?t 16 13, OF _ _ agree_off_trans [OF sm(2) tm(1)]] assms(5,11) by simp
    moreover have "slot (kmem t) ?t 13 = slot m ?t 13" using sv kb8 assms(4) by (simp add: kt)
    ultimately show ?thesis by (simp add: task_words)
  qed
  have "span ?t 4 \<inter> (span pa 16 \<union> span kb 60) = {}" using assms(11) span_mono [of 4 64 ?t] by auto
  moreover have "task_page_directory (kmem t) ?t = slot (kmem t) ?t 0" by (simp add: slot_def task_page_directory_def)
  ultimately show pd: "task_page_directory (kmem t) ?t = task_page_directory (kmem s) ?t"
    using sv kb8 assms(4) read32_agree [OF agree_off_trans [OF sm(2) tm(1)], of ?t] by (simp add: kt slot_def task_page_directory_def)
  then have "task_directory (kmem t) ?t = d"
    using assms(2,9) read32_agree [OF a] by (simp add: task_directory_def directory_entry_def)
  moreover show st: "stack_at (kmem t) d va pa 4" by (rule stack_agree [OF assms(3) a assms(8)])
  moreover have "slot (kmem t) ?t 11 = va"
  proof -
    have "slot (kmem t) ?t 11 = slot m (kb + 8) 11" using sv kb8 assms(4) by (auto simp: kt saved_registers_def)
    also have "slot m (kb + 8) 11 = slot m kb 13" by (simp add: slot_def add.commute)
    also have "\<dots> = va" using tm(2) [of 13] by (simp add: entry_words_def stub_regs_def)
    finally show ?thesis .
  qed
  moreover have "slot (kmem t) pa 0 = slot (kmem s) pa 3"
  proof -
    have "agree_off (span kb 60 \<union> span ?t 64) ?m0 (kmem t)" by (rule agree_off_trans [OF tm(1) a3])
    then have "slot (kmem t) pa 0 = slot ?m0 pa 0"
      by (rule slot_agree [OF stack_array(1) [OF assms(3)], of 0, rotated]) (use assms(10) T(1) in \<open>simp_all add: Int_Un_distrib Int_commute\<close>)
    then show ?thesis using sm(3) by simp
  qed
  ultimately show "stack_word (kmem t) ?t 0 = Some (slot (kmem s) pa 3)"
    using stack_load [OF st, of 0] by (simp add: stack_word_def)
qed

section \<open>Printing from a program\<close>

fun apart :: "u32 set list \<Rightarrow> bool" where
  "apart [] = True"
| "apart (X # Xs) = ((\<forall>Y \<in> set Xs. X \<inter> Y = {}) \<and> apart Xs)"

lemma user_string_agree:
  assumes "user_string m d va cs W" "agree_off R m m'" "R \<subseteq> W" "walk_region m d \<inter> R = {}" "unat d mod 4096 = 0" "U \<subseteq> W"
  shows "user_string m' d va cs U"
proof -
  have k: "a \<notin> U" "m' a = m a" if "a \<notin> W" for a using that assms(3,6) agree_offD [OF assms(2), of a] by auto
  note tr = translate_agree(1) [OF assms(2,4,5)]
  have "va + word_of_nat j \<notin> U \<and> (\<exists>a. translate m' d (va + word_of_nat j) = Some a \<and> a \<notin> U \<and> m' a = (cs @ [0]) ! j)"
    if j: "j \<le> length cs" for j
  proof -
    obtain a where "va + word_of_nat j \<notin> W" "translate m d (va + word_of_nat j) = Some a" "a \<notin> W" "m a = (cs @ [0]) ! j"
      using assms(1) j unfolding user_string_def by blast
    then show ?thesis using k tr by simp
  qed
  then show ?thesis using assms(1) unfolding user_string_def by blast
qed

definition space_pages :: "u32 \<Rightarrow> u32 \<Rightarrow> u32 list \<Rightarrow> u32 set" where
  "space_pages c d ts = (\<Union>p \<in> set (c # d # ts). span p 4096)"

lemma space_pages_cover:
  assumes "chunk_owns s A c d ts"
  shows "walk_region (kmem s) d \<subseteq> space_pages c d ts" "span c 4 \<subseteq> space_pages c d ts" "unat d mod 4096 = 0"
    "kheap_reserved s \<subseteq> kheap_spare s"
proof -
  have o: "length ts = 1024" "\<forall>i < 1024. table_of (kmem s) d i = ts ! i" using assms by (simp_all add: chunk_owns_def)
  then have "table_of (kmem s) d i \<in> set ts" if "i < 1024" for i using that by simp
  then show "walk_region (kmem s) d \<subseteq> space_pages c d ts" unfolding walk_region_def tables_region_def space_pages_def by auto
  show "span c 4 \<subseteq> space_pages c d ts" using span_mono [of 4 4096 c] unfolding space_pages_def by auto
  show "unat d mod 4096 = 0" using chunk_owns_page [OF assms, of d] by simp
  show "kheap_reserved s \<subseteq> kheap_spare s" by (rule kh.reserved_spare [of s A]) (use assms in \<open>simp add: chunk_owns_def\<close>)
qed

lemma chunk_owns_apart:
  assumes "chunk_owns s A c d ts" "agree_off R (kmem s) m" "(kheap_spare s \<union> space_pages c d ts) \<inter> R = {}"
  shows "chunk_owns (put_kmem m s) A c d ts" "kheap_avail (put_kmem m s) = kheap_avail s" "walk_region m d = walk_region (kmem s) d"
    "kheap_spare (put_kmem m s) = kheap_spare s"
    "i < 1024 \<Longrightarrow> read32 m (d + 4 * word_of_nat i) = read32 (kmem s) (d + 4 * word_of_nat i)"
proof -
  note sp = space_pages_cover [OF assms(1)]
  have r: "R \<inter> kheap_reserved s = {}" and p: "\<forall>p \<in> set (c # d # ts). span p 4096 \<inter> R = {}"
    using assms(3) sp(4) unfolding space_pages_def by blast+
  show "chunk_owns (put_kmem m s) A c d ts" "kheap_avail (put_kmem m s) = kheap_avail s"
    using chunk_owns_frame(1,2) [OF assms(1,2) r p] .
  have "kheap_ready s A" using assms(1) by (simp add: chunk_owns_def)
  from kh.put_spare [OF this assms(2) r] show "kheap_spare (put_kmem m s) = kheap_spare s" .
  have w: "walk_region (kmem s) d \<inter> R = {}" using sp(1) assms(3) by blast
  show "walk_region m d = walk_region (kmem s) d" by (rule walk_region_agree [OF assms(2) w sp(3)])
  show "i < 1024 \<Longrightarrow> read32 m (d + 4 * word_of_nat i) = read32 (kmem s) (d + 4 * word_of_nat i)"
    using slot_in_page [OF sp(3)] w unfolding walk_region_def by (intro read32_agree [OF assms(2)]) blast
qed

lemma sub_disjoint: "A \<subseteq> B \<Longrightarrow> C \<subseteq> D \<Longrightarrow> B \<inter> D = {} \<Longrightarrow> A \<inter> C = {}"
  by blast

text \<open>A program that is about to call a library routine: its address space is live on the heap and loaded, its stack and
  what the trap uses are mapped, and these parts of memory, and those in \<open>Xs\<close>, are apart.\<close>

definition call_setting ::
  "u32 set list \<Rightarrow> 'z idtstate_scheme \<Rightarrow> (u32 \<Rightarrow> nat option) \<Rightarrow> u32 \<Rightarrow> u32 \<Rightarrow> u32 list \<Rightarrow> u32 \<Rightarrow> u32 \<Rightarrow> u32 \<Rightarrow> u32 \<Rightarrow> u32 \<Rightarrow> bool" where
  "call_setting Xs s A c d ts tss tmp kb va pa \<longleftrightarrow>
     chunk_owns s A c d ts \<and> (\<forall>i < 1024. read32 (kmem s) (d + 4 * word_of_nat i) AND 1 \<noteq> 0) \<and>
     current_task s \<noteq> 0 \<and> unat (current_task s) + 64 \<le> 4294967296 \<and> task_page_directory (kmem s) (current_task s) = c \<and>
     cr3 s = d \<and> trap_ready tss tmp kb (kmem s) d \<and> stack_at (kmem s) d va pa 4 \<and>
     apart ([kheap_spare s \<union> space_pages c d ts, span (current_task s) 64, span kb 60, span tmp 4, span tss 12, span pa 16] @ Xs)"

text \<open>The state in which the handler has saved the registers.\<close>

lemma saved_at_trap:
  fixes s :: "'z idtstate_scheme" and c d kb va pa k :: u32 and ts :: "u32 list" and r :: user_context
  defines "H \<equiv> kheap_spare s \<union> space_pages c d ts" and "T \<equiv> span (current_task s) 64"
    and "m \<equiv> trap_mem kb (stub_regs k va r) (stub_mem pa r (kmem s))"
  defines "t \<equiv> saved (kb + 8) (put_kmem m s)"
  assumes set: "call_setting Xs s A c d ts tss tmp kb va pa"
  shows "chunk_owns t A c d ts" "kheap_avail t = kheap_avail s" "kheap_spare t = kheap_spare s"
    "\<forall>i < 1024. read32 (kmem t) (d + 4 * word_of_nat i) AND 1 \<noteq> 0" "task_page_directory (kmem t) (current_task s) = c"
    "stack_word (kmem t) (current_task s) 0 = Some (slot (kmem s) pa 3)"
    "agree_off (span pa 16 \<union> span kb 60 \<union> T) (kmem s) (kmem t)" "agree_off T m (kmem t)"
    "kheap_spare t \<union> walk_region (kmem t) d \<subseteq> H" "put_kmem (kmem t) s = t"
    "user_string (kmem s) d msg cs (H \<union> T \<union> span kb 60 \<union> span pa 16) \<Longrightarrow>
     user_string (kmem t) d msg cs (kheap_spare t \<union> walk_region (kmem t) d)"
    "task_process (kmem t) (current_task s) = task_process (kmem s) (current_task s)"
proof -
  let ?R = "span pa 16 \<union> span kb 60 \<union> T"
  note p = set [unfolded call_setting_def, folded H_def T_def]
  have own: "chunk_owns s A c d ts" and ap: "apart ([H, T, span kb 60, span tmp 4, span tss 12, span pa 16] @ Xs)" using p by blast+
  have D: "H \<inter> T = {}" "H \<inter> span kb 60 = {}" "H \<inter> span pa 16 = {}" "T \<inter> span kb 60 = {}" "T \<inter> span pa 16 = {}"
    "span kb 60 \<inter> span pa 16 = {}" using ap by simp_all
  note sp = space_pages_cover [OF own]
  have HR: "H \<inter> ?R = {}" using D by (simp add: Int_Un_distrib)
  have wH: "walk_region (kmem s) d \<subseteq> H" "span c 4 \<subseteq> H" using sp(1,2) unfolding H_def by blast+
  have TD: "task_directory (kmem s) (current_task s) = d" "unat kb + 60 \<le> 4294967296"
    using p by (simp_all add: task_directory_def chunk_owns_def trap_ready_def stack_at_def)
  have dis: "walk_region (kmem s) d \<inter> ?R = {}" "span (task_page_directory (kmem s) (current_task s)) 4 \<inter> ?R = {}"
    "span pa 16 \<inter> span kb 60 = {}" "span (current_task s) 64 \<inter> (span pa 16 \<union> span kb 60) = {}"
    using sub_disjoint [OF wH(1) order_refl HR] sub_disjoint [OF wH(2) order_refl HR] p D unfolding T_def
    by (simp_all add: Int_Un_distrib Int_commute)
  have st: "stack_at (kmem s) d va pa 4" "unat (current_task s) + 64 \<le> 4294967296" using p by blast+
  note ah = argument_at_handler [OF TD(1) st(1) TD(2) st(2) refl refl dis [unfolded T_def], where k = k and r = r, folded T_def m_def, folded t_def]
  show "stack_word (kmem t) (current_task s) 0 = Some (slot (kmem s) pa 3)"
    "agree_off ?R (kmem s) (kmem t)" "agree_off T m (kmem t)"
    "task_process (kmem t) (current_task s) = task_process (kmem s) (current_task s)" by (rule ah)+
  show "task_page_directory (kmem t) (current_task s) = c" using ah(3) p by simp
  note co = chunk_owns_apart [OF own ah(1) HR [unfolded H_def]]
  show t: "put_kmem (kmem t) s = t" by (simp add: t_def saved_def put_kmem_def)
  show "chunk_owns t A c d ts" "kheap_avail t = kheap_avail s" and ks: "kheap_spare t = kheap_spare s" using co(1,2,4) by (simp_all add: t)
  show "\<forall>i < 1024. read32 (kmem t) (d + 4 * word_of_nat i) AND 1 \<noteq> 0" using co(5) p by simp
  show U: "kheap_spare t \<union> walk_region (kmem t) d \<subseteq> H" using co(3) ks wH(1) unfolding H_def by blast
  assume us: "user_string (kmem s) d msg cs (H \<union> T \<union> span kb 60 \<union> span pa 16)"
  show "user_string (kmem t) d msg cs (kheap_spare t \<union> walk_region (kmem t) d)"
    by (rule user_string_agree [OF us ah(1) _ dis(1) sp(3)]) (use U in auto)
qed

section \<open>Printing from a program\<close>

abbreviation print_regions :: "'z idtstate_scheme \<Rightarrow> u32 set list" where
  "print_regions s \<equiv> [span (kernel_chunk s) 4, span (print_buf_at s) 1024, span (video_mem s) 3200]"

lemma print_at_handler:
  fixes s :: "'z idtstate_scheme" and c d kb va pa :: u32 and ts :: "u32 list" and r :: user_context
  defines "H \<equiv> kheap_spare s \<union> space_pages c d ts" and "T \<equiv> span (current_task s) 64"
    and "m \<equiv> trap_mem kb (stub_regs 1 va r) (stub_mem pa r (kmem s))"
  assumes set: "call_setting (print_regions s) s A c d ts tss tmp kb va pa" "0 < kheap_avail s"
    and cmd: "isr80h_commands s ! 1 = Some Command1_Print"
    and str: "user_string (kmem s) d (slot (kmem s) pa 3) cs (H \<union> T \<union> span kb 60 \<union> span pa 16)"
    and con: "console_fits s" "shown = take 1023 cs" "text_fits shown (screen s)"
  shows "\<exists>s3. isr80h_handler 1 (kb + 8) (put_kmem m s) = Some (0, in_task s3) \<and> cr3 (in_task s3) = d \<and>
    agree_off (kheap_spare s \<union> T \<union> span (print_buf_at s) 1024 \<union> span (video_mem s) 3200) m (kmem s3) \<and>
    video_mem s3 = video_mem s \<and> screen s3 = fold show_char shown (screen s)"
proof -
  let ?P = "span (print_buf_at s) 1024" and ?V = "span (video_mem s) 3200" and ?K = "span (kernel_chunk s) 4" and ?s = "put_kmem m s"
  define t where "t = saved (kb + 8) ?s"
  note st = saved_at_trap [OF set(1), where k = 1 and r = r, folded H_def T_def m_def, folded t_def]
  note p = set(1) [unfolded call_setting_def, folded H_def T_def]
  let ?U = "kheap_spare t \<union> walk_region (kmem t) d"
  have own: "chunk_owns s A c d ts" "current_task s \<noteq> 0" using p by blast+
  have D: "H \<inter> T = {}" "H \<inter> ?P = {}" "H \<inter> ?V = {}" "?K \<inter> H = {}" "T \<inter> ?P = {}" "T \<inter> ?V = {}" "?P \<inter> ?V = {}"
    "?V \<inter> span kb 60 = {}" "?V \<inter> span pa 16 = {}" using p by (simp_all add: Int_commute)
  have sub: "span (current_task s) 4 \<subseteq> T" "kheap_spare s \<subseteq> H" "span c 4 \<subseteq> H"
    using space_pages_cover(2) [OF own(1)] span_mono [of 4 64 "current_task s"] unfolding T_def H_def by auto
  note DK = sub_disjoint [OF sub(2) order_refl D(2)] sub_disjoint [OF sub(2) order_refl D(3)]
    sub_disjoint [OF sub(1) sub(2), unfolded Int_commute [of T H], OF D(1)]
  have dj: "span (current_task s) 4 \<inter> ?U = {}" "?K \<inter> ?U = {}" "?P \<inter> kheap_spare t = {}" "?V \<inter> (kheap_spare t \<union> ?P) = {}"
    using sub_disjoint [OF sub(1) st(9)] sub_disjoint [OF order_refl st(9) D(4)] DK D
    unfolding st(3) by (simp_all add: Int_Un_distrib Int_commute)
  have sel: "current_task ?s = current_task s" "isr80h_commands ?s = isr80h_commands s" "print_buf_at ?s = print_buf_at s"
    "kernel_chunk ?s = kernel_chunk s" "video_mem ?s = video_mem s" "console_fits ?s = console_fits s"
    by simp_all
  have scr: "screen t = screen s"
    using screen_kept [OF st(7) _ con(1)] D(6,8,9) by (simp add: Int_Un_distrib Int_commute st(10))
  have fit: "text_fits shown (screen t)" using con(3) by (simp add: scr)
  have av: "0 < kheap_avail t" using st(2) set(2) by simp
  from print_reaches_screen [of ?s t "kb + 8" A c d ts ?U, unfolded sel,
      OF own(2) cmd t_def st(1,5,4) av refl dj(1,2) st(6) st(11) [OF str] dj(3,4) con(1,2) fit]
  obtain s3 where s3: "isr80h_handler 1 (kb + 8) ?s = Some (0, in_task s3)" "current_task s3 = current_task s"
    "agree_off (kheap_spare s \<union> ?P \<union> ?V) (kmem t) (kmem s3)" "video_mem s3 = video_mem s" "screen s3 = fold show_char shown (screen s)"
    unfolding st(3) scr by (elim exE conjE) (rule that, assumption+)
  have "agree_off (kheap_spare s \<union> T \<union> ?P \<union> ?V) m (kmem s3)"
    using agree_off_trans [OF st(8) s3(3)] by (rule agree_off_mono) auto
  moreover have "task_directory (kmem s3) (current_task s) = task_directory (kmem t) (current_task s)"
    using sub_disjoint [OF sub(1) order_refl D(5)] sub_disjoint [OF sub(1) order_refl D(6)] DK(3) owns_live(2) [OF own(1)]
      sub_disjoint [OF sub(3) order_refl D(2)] sub_disjoint [OF sub(3) order_refl D(3)]
    by (intro words_of_task(2) [OF s3(3)]) (simp_all add: st(5) Int_Un_distrib)
  then have "cr3 (in_task s3) = d" using st(1,5) by (simp add: s3(2) task_directory_def chunk_owns_def)
  ultimately show ?thesis using s3 by (intro exI [of _ s3]) simp
qed

text \<open>C3: Printing from a program. A program in an address space of the kernel's calls
  \<^verbatim>\<open>print\<close> with a NUL-terminated string of its memory, whose first 1023 characters fit the
  screen (\<open>text_fits\<close>: each is written while the cursor is on it, for the code does not scroll, and no
  backspace is in the first column of a line). The routine of the library traps, the kernel saves the program's
  registers, copies the string through the program's page tables and shows these characters, newlines and backspaces
  included: the screen afterwards is what \<open>show_char\<close> makes of the screen there was. The routine returns
  to its caller with 0 in \<^verbatim>\<open>eax\<close>, the return address popped, every other register as it was
  but for the status flags, the user's selector in the data segment registers and the program's address space loaded.
  The memory that the call uses has to be apart.\<close>

theorem print_from_program:
  assumes "call_setting (print_regions s) s A c d ts tss tmp kb va pa" "0 < kheap_avail s" "uc_esp r = va + 8"
    and "isr80h_commands s ! 1 = Some Command1_Print" "H = kheap_spare s \<union> space_pages c d ts"
    and "user_string (kmem s) d (slot (kmem s) pa 3) cs (H \<union> span (current_task s) 64 \<union> span kb 60 \<union> span pa 16)"
    and "console_fits s" "shown = take 1023 cs" "text_fits shown (screen s)"
  shows "\<exists>s'. run (int80 tss tmp) print_stub (r, s) = Some (r\<lparr>uc_eax := 0, uc_esp := uc_esp r + 4,
      uc_ip := slot (kmem s) pa 2, uc_flags := add_flags va 4 (uc_flags r)\<rparr>, s') \<and>
    screen s' = fold show_char shown (screen s) \<and> data_segments s' = 0x23 \<and> cr3 s' = cr3 s"
proof -
  let ?T = "span (current_task s) 64" and ?P = "span (print_buf_at s) 1024" and ?V = "span (video_mem s) 3200"
  let ?m = "trap_mem kb (stub_regs 1 va r) (stub_mem pa r (kmem s))" and ?S = "kheap_spare s \<union> ?T \<union> ?P \<union> ?V"
  note p = assms(1) [unfolded call_setting_def]
  note sub = space_pages_cover(1) [OF conjunct1 [OF p]] owns_live(1) [OF conjunct1 [OF p]]
  obtain s3 where s3: "isr80h_handler 1 (kb + 8) (put_kmem ?m s) = Some (0, in_task s3)" "cr3 (in_task s3) = d"
    "agree_off ?S ?m (kmem s3)" "video_mem s3 = video_mem s" "screen s3 = fold show_char shown (screen s)"
    using print_at_handler [OF assms(1,2,4) assms(6) [unfolded assms(5)] assms(7-9), of r] by (elim exE conjE) (rule that, assumption+)
  have ap: "space_pages c d ts \<inter> ?T = {}" "space_pages c d ts \<inter> ?P = {}" "space_pages c d ts \<inter> ?V = {}"
    "span kb 60 \<inter> ?S = {}" "span pa 16 \<inter> ?S = {}" "span pa 16 \<inter> (span kb 60 \<union> span tmp 4 \<union> span tss 12) = {}" "?V \<inter> span tmp 4 = {}"
    using p by (simp_all add: Int_Un_distrib Int_Un_distrib2 Int_commute)
  have w: "walk_region (kmem s) d \<inter> ?S = {}"
    using sub_disjoint [OF sub(1) order_refl ap(1)] sub_disjoint [OF sub(1) order_refl ap(2)] sub_disjoint [OF sub(1) order_refl ap(3)]
      sub(2) by (simp add: Int_Un_distrib)
  have cr: "cr3 s = d" using p by blast
  let ?s' = "put_kmem (write32 (kmem (in_task s3)) tmp 0) (in_task s3)"
  have "run (int80 tss tmp) print_stub (r, s) = Some (r\<lparr>uc_eax := 0, uc_esp := va + 12, uc_ip := slot (kmem s) pa 2,
      uc_flags := add_flags va 4 (uc_flags r)\<rparr>, ?s')"
    by (rule stub_call [where S = ?S and command = 1, OF _ _ _ assms(3) refl])
      (use p s3(1-3) w ap(4-6) cr in \<open>simp_all add: argument_stubs_def Int_Un_distrib2\<close>)
  moreover have "screen ?s' = screen (in_task s3)"
    using assms(7) s3(4) ap(7) by (intro screen_kept [OF write32_agree]) (simp_all add: console_fits_def in_task_def)
  moreover have "data_segments ?s' = 0x23" "cr3 ?s' = cr3 s" using s3(2) cr by (simp_all add: put_kmem_def)
  ultimately show ?thesis using s3(5) assms(3) by (intro exI [of _ ?s']) simp
qed

section \<open>Calls from C\<close>

text \<open>A C function calls a routine with one argument: it pushes the argument and its own address, and drops the argument
  when the routine has returned. The result is in \<^verbatim>\<open>eax\<close>.\<close>

definition ccall :: "('z cpu \<Rightarrow> 'z cpu option) \<Rightarrow> instr list \<Rightarrow> u32 \<Rightarrow> 'z cpu \<Rightarrow> 'z cpu option" where
  "ccall out routine arg c = do {
     c1 \<leftarrow> push arg c;
     c2 \<leftarrow> push (uc_ip (fst c1)) c1;
     c3 \<leftarrow> run out routine c2;
     exec out (ADD_IMM ESP 4) c3
   }"

definition malloc :: "('z cpu \<Rightarrow> 'z cpu option) \<Rightarrow> u32 \<Rightarrow> 'z cpu \<Rightarrow> 'z cpu option" where
  "malloc out sz c = ccall out peachos_malloc_stub sz c"

definition free :: "('z cpu \<Rightarrow> 'z cpu option) \<Rightarrow> u32 \<Rightarrow> 'z cpu \<Rightarrow> 'z cpu option" where
  "free out ptr c = ccall out peachos_free_stub ptr c"

definition putchar :: "('z cpu \<Rightarrow> 'z cpu option) \<Rightarrow> u32 \<Rightarrow> 'z cpu \<Rightarrow> 'z cpu option" where
  "putchar out ch c = do { c' \<leftarrow> ccall out peachos_putchar_stub (scast (ucast ch :: u8)) c; exec out (MOV_IMM EAX 0) c' }"

definition call_mem :: "u32 \<Rightarrow> u32 \<Rightarrow> u32 \<Rightarrow> mem \<Rightarrow> mem" where
  "call_mem pa arg ret m = set_slot (set_slot m pa 3 arg) pa 2 ret"

lemma call_mem_spec:
  assumes "unat pa + 16 \<le> 4294967296"
  shows "agree_off (span pa 16) m (call_mem pa arg ret m)" "slot (call_mem pa arg ret m) pa 2 = ret" "slot (call_mem pa arg ret m) pa 3 = arg"
proof -
  have b: "unat pa + 4 * 4 \<le> 4294967296" using assms by simp
  show "agree_off (span pa 16) m (call_mem pa arg ret m)"
    using agree_off_trans_same [OF set_slot_agree [OF b, of 3] set_slot_agree [OF b, of 2]] by (simp add: call_mem_def)
  show "slot (call_mem pa arg ret m) pa 2 = ret" "slot (call_mem pa arg ret m) pa 3 = arg"
    using slot_set_slot [OF b] by (simp_all add: call_mem_def)
qed

lemma ccall_run:
  assumes "stack_at (kmem s) (cr3 s) va pa 4" "uc_esp r = va + 16"
    and "run out routine (r\<lparr>uc_esp := va + 8\<rparr>, put_kmem (call_mem pa arg (uc_ip r) (kmem s)) s) =
      Some (r\<lparr>uc_eax := res, uc_esp := va + 12, uc_ip := ip, uc_flags := f\<rparr>, s')"
  shows "ccall out routine arg (r, s) = Some (r\<lparr>uc_eax := res, uc_esp := va + 16, uc_ip := ip, uc_flags := add_flags (va + 12) 4 f\<rparr>, s')"
proof -
  have c: "cr3 (put_kmem m s) = cr3 s" for m by (simp add: put_kmem_def)
  let ?m1 = "set_slot (kmem s) pa 3 arg"
  have p1: "push arg (r, s) = Some (r\<lparr>uc_esp := va + 12\<rparr>, put_kmem ?m1 s)"
    using push_stack [OF assms(1), of 3 r arg] assms(2) by simp
  have st: "stack_at ?m1 (cr3 s) va pa 4" by (rule stack_set [OF assms(1)]) simp
  have p2: "push (uc_ip r) (r\<lparr>uc_esp := va + 12\<rparr>, put_kmem ?m1 s) = Some (r\<lparr>uc_esp := va + 8\<rparr>, put_kmem (call_mem pa arg (uc_ip r) (kmem s)) s)"
    using push_stack [of "put_kmem ?m1 s" va pa 4 2 "r\<lparr>uc_esp := va + 12\<rparr>" "uc_ip r"] st by (simp add: c call_mem_def)
  show ?thesis by (simp add: ccall_def p1 p2 assms(3) add.commute)
qed

lemma malloc_call:
  assumes "current_task s \<noteq> 0" "isr80h_commands s ! 4 = Some Command4_Malloc" "t = saved frame s"
    "stack_word (kmem t) (current_task s) 0 = Some sz"
    "process_malloc (task_process (kmem t) (current_task s)) sz (in_kernel t) = (q, s1)"
  shows "isr80h_handler 4 frame s = Some (q, in_task s1)"
proof -
  let ?u = "switched 0x10 (directory_entry (kmem s) (kernel_chunk s)) (saved frame s)"
  have u: "in_kernel ?u = in_kernel t" using assms(3) by (simp add: in_kernel_def)
  have "isr80h_command4_malloc ?u = Some (q, s1)"
    using assms(3-5) u by (simp add: isr80h_command4_malloc_def task_get_stack_item_eq)
  then show ?thesis using assms(1,2) by (simp add: handler_eq isr80h_handle_command_def)
qed

lemma procs_ok_in_kernel [simp]: "procs_ok (in_kernel s) A P = procs_ok s A P" "procs_ok (in_task s) A P = procs_ok s A P"
  by (simp_all add: procs_ok_def in_kernel_def in_task_def)

section \<open>Asking for memory from a program\<close>

lemma malloc_at_handler:
  fixes s :: "'z idtstate_scheme" and c d kb va pa :: u32 and ts :: "u32 list" and r :: user_context and P :: "u32 set"
  defines "T \<equiv> span (current_task s) 64" and "m \<equiv> trap_mem kb (stub_regs 4 va r) (stub_mem pa r (kmem s))"
    and "S \<equiv> \<Union>p \<in> P. span p 8192"
  assumes set: "call_setting [\<Union>p \<in> P. span p 8192] s A c d ts tss tmp kb va pa" and cmd: "isr80h_commands s ! 4 = Some Command4_Malloc"
    and ok: "procs_ok s A P" "p = task_process (kmem s) (current_task s)" "p \<in> P" "0 \<in> set (alloc_table (kmem s) p)"
    and sz: "sz = slot (kmem s) pa 3" "sz \<noteq> 0" "unat sz \<le> 4294963200" "kheap_room s (blocks_of sz)"
  shows "\<exists>q s3. isr80h_handler 4 (kb + 8) (put_kmem m s) = Some (q, in_task s3) \<and> cr3 (in_task s3) = d \<and>
    agree_off (kheap_spare s \<union> T \<union> span p 8192) m (kmem s3) \<and> q \<noteq> 0 \<and> A q = None \<and>
    procs_ok s3 (A(q \<mapsto> blocks_of sz)) P \<and> q \<in> set (alloc_table (kmem s3) p) \<and> span q (unat sz) \<subseteq> kheap_spare s \<and>
    (\<forall>x \<in> span q (unat sz). kmem s3 x = 0) \<and> kheap_reserved s3 = kheap_reserved s"
proof -
  let ?s = "put_kmem m s" and ?R = "span pa 16 \<union> span kb 60 \<union> T"
  define t where "t = saved (kb + 8) ?s"
  note st = saved_at_trap [OF set, where k = 4 and r = r, folded T_def m_def, folded t_def]
  note p = set [unfolded call_setting_def, folded T_def S_def]
  have own: "chunk_owns s A c d ts" "current_task s \<noteq> 0" using p by blast+
  note cov = space_pages_cover [OF own(1)]
  have D: "kheap_spare s \<inter> ?R = {}" "S \<inter> ?R = {}" "T \<inter> kheap_spare s = {}" "space_pages c d ts \<inter> S = {}" "T \<inter> S = {}"
    using p by (simp_all add: Int_Un_distrib Int_Un_distrib2 Int_commute)
  have RR: "?R \<inter> kheap_reserved s = {}" using sub_disjoint [OF cov(4) order_refl D(1)] by (simp add: Int_commute)
  note oa = procs_ok_apart [OF ok(1) st(7) RR D(2) [unfolded S_def], unfolded st(10)]
  have rm: "kheap_room (in_kernel t) (blocks_of sz)"
    using kheap_put_room [OF procs_okD(1) [OF ok(1)] st(7) RR] sz(4) st(10) by (simp add: in_kernel_def switched_def kheap_room_def)
  have tp: "task_process (kmem t) (current_task s) = p" using st(12) ok(2) by simp
  have al: "alloc_table (kmem (in_kernel t)) p = alloc_table (kmem s) p" using oa(2) [OF ok(3)] by simp
  obtain i where i: "i < 1024" "alloc_table (kmem s) p ! i = 0" "\<forall>j < i. alloc_table (kmem s) p ! j \<noteq> 0"
    using first_zero [OF ok(4)] by auto
  have "procs_ok (in_kernel t) A P" using oa(1) by simp
  from procs_malloc [OF this ok(3) sz(2,3) rm i [folded al]]
  obtain q s3 where q: "process_malloc p sz (in_kernel t) = (q, s3)" "q \<noteq> 0" "A q = None" "procs_ok s3 (A(q \<mapsto> blocks_of sz)) P"
    "alloc_table (kmem s3) p = (alloc_table (kmem (in_kernel t)) p)[i := q]" "\<forall>x \<in> span q (unat sz). kmem s3 x = 0"
    "s3 = put_kmem (kmem s3) (in_kernel t)" "agree_off (kheap_spare (in_kernel t) \<union> span p 8192) (kmem (in_kernel t)) (kmem s3)"
    "span q (unat sz) \<subseteq> kheap_spare (in_kernel t)"
    by metis
  have ks: "kheap_spare (in_kernel t) = kheap_spare s" using st(3) by (simp add: in_kernel_def)
  have "isr80h_handler 4 (kb + 8) ?s = Some (q, in_task s3)"
    by (rule malloc_call [OF _ _ t_def]) (use own(2) cmd st(6) tp q(1) sz(1) in simp_all)
  moreover have "agree_off (kheap_spare s \<union> T \<union> span p 8192) m (kmem s3)"
    using agree_off_trans [OF st(8), of "kheap_spare s \<union> span p 8192"] q(8) by (simp add: ks Un_ac)
  moreover have "cr3 (in_task s3) = d"
  proof -
    have T4: "span (current_task s) 4 \<subseteq> T" unfolding T_def by (rule span_mono) simp
    have pS: "span p 8192 \<subseteq> S" unfolding S_def using ok(3) by blast
    have "task_directory (kmem s3) (current_task s) = task_directory (kmem t) (current_task s)"
      using sub_disjoint [OF T4 pS D(5)] sub_disjoint [OF T4 order_refl D(3)] sub_disjoint [OF cov(2) pS D(4)] owns_live(2) [OF own(1)] q(8)
      by (intro words_of_task(2) [where S = "kheap_spare s \<union> span p 8192"]) (simp_all add: st(5) ks Int_Un_distrib)
    moreover have "current_task s3 = current_task s" by (subst q(7)) (simp add: t_def)
    ultimately show ?thesis using st(1,5) by (simp add: task_directory_def chunk_owns_def)
  qed
  moreover have "q \<in> set (alloc_table (kmem s3) p)" unfolding q(5) using i(1) by (simp add: set_update_memI)
  moreover have "kheap_reserved s3 = kheap_reserved s"
    by (subst q(7)) (simp add: kheap_reserved_def in_kernel_def switched_def t_def saved_def)
  ultimately show ?thesis using q ks by blast
qed

text \<open>The argument and the return address on the stack leave the setting as it is.\<close>

lemma call_setting_call:
  assumes "call_setting Xs s A c d ts tss tmp kb va pa" "m = call_mem pa arg ret (kmem s)"
  shows "call_setting Xs (put_kmem m s) A c d ts tss tmp kb va pa" "agree_off (span pa 16) (kmem s) m"
    "span pa 16 \<inter> kheap_reserved s = {}" "kheap_spare (put_kmem m s) = kheap_spare s"
    "task_process m (current_task s) = task_process (kmem s) (current_task s)"
proof -
  note p = assms(1) [unfolded call_setting_def]
  let ?H = "kheap_spare s \<union> space_pages c d ts" and ?T = "span (current_task s) 64"
  have own: "chunk_owns s A c d ts" using p by blast
  note cov = space_pages_cover [OF own]
  have D: "?H \<inter> span pa 16 = {}" "?T \<inter> span pa 16 = {}" "span tss 12 \<inter> span pa 16 = {}" using p by simp_all
  have b: "unat pa + 16 \<le> 4294967296" using p by (simp add: stack_at_def)
  show a: "agree_off (span pa 16) (kmem s) m" unfolding assms(2) by (rule call_mem_spec(1) [OF b])
  note co = chunk_owns_apart [OF own a D(1)]
  show "kheap_spare (put_kmem m s) = kheap_spare s" by (rule co(4))
  show "span pa 16 \<inter> kheap_reserved s = {}" using sub_disjoint [OF cov(4) order_refl] D(1) by (auto simp: Int_commute)
  have w: "walk_region (kmem s) d \<inter> span pa 16 = {}" by (rule sub_disjoint [OF cov(1) order_refl]) (use D(1) in blast)
  have "(walk_region (kmem s) d \<union> span tss 12) \<inter> span pa 16 = {}" using w D(3) by (simp add: Int_Un_distrib2)
  then have tr: "trap_ready tss tmp kb m d" using trap_ready_agree [OF _ a] p by blast
  have st: "stack_at m d va pa 4" using stack_agree [OF _ a w] p by blast
  have T: "span (current_task s) 4 \<subseteq> ?T" "span (current_task s + 52) 4 \<subseteq> ?T"
  proof -
    show "span (current_task s) 4 \<subseteq> ?T" by (rule span_mono) simp
    have "unat (current_task s + 52) = unat (current_task s) + 52" using p by (simp add: unat_word_ariths)
    then show "span (current_task s + 52) 4 \<subseteq> ?T" using p by (intro span_subset) simp_all
  qed
  show "task_process m (current_task s) = task_process (kmem s) (current_task s)"
    unfolding task_process_def by (rule read32_agree [OF a sub_disjoint [OF T(2) order_refl D(2)]])
  have "task_page_directory m (current_task s) = task_page_directory (kmem s) (current_task s)"
    unfolding task_page_directory_def by (rule read32_agree [OF a sub_disjoint [OF T(1) order_refl D(2)]])
  moreover have "cr3 (put_kmem m s) = cr3 s" by (simp add: put_kmem_def)
  ultimately show "call_setting Xs (put_kmem m s) A c d ts tss tmp kb va pa"
    using p co(1,4,5) tr st by (simp add: call_setting_def)
qed

lemma malloc_routine:
  assumes "call_setting [\<Union>p \<in> P. span p 8192] s A c d ts tss tmp kb va pa" "uc_esp r = va + 8"
    and "isr80h_commands s ! 4 = Some Command4_Malloc" "procs_ok s A P" "p = task_process (kmem s) (current_task s)" "p \<in> P"
    and "0 \<in> set (alloc_table (kmem s) p)" "sz = slot (kmem s) pa 3" "sz \<noteq> 0" "unat sz \<le> 4294963200" "kheap_room s (blocks_of sz)"
  shows "\<exists>q s'. run (int80 tss tmp) peachos_malloc_stub (r, s) = Some (r\<lparr>uc_eax := q, uc_esp := va + 12, uc_ip := slot (kmem s) pa 2,
      uc_flags := add_flags va 4 (uc_flags r)\<rparr>, s') \<and> q \<noteq> 0 \<and> A q = None \<and> procs_ok s' (A(q \<mapsto> blocks_of sz)) P \<and>
    q \<in> set (alloc_table (kmem s') p) \<and> (\<forall>x \<in> span q (unat sz). kmem s' x = 0) \<and> data_segments s' = 0x23 \<and> cr3 s' = cr3 s"
proof -
  let ?T = "span (current_task s) 64" and ?U = "\<Union>p \<in> P. span p 8192" and ?S = "kheap_spare s \<union> span (current_task s) 64 \<union> span p 8192"
  let ?m = "trap_mem kb (stub_regs 4 va r) (stub_mem pa r (kmem s))"
  note p = assms(1) [unfolded call_setting_def]
  have D: "?U \<inter> span pa 16 = {}" "?U \<inter> span kb 60 = {}" "?U \<inter> span tmp 4 = {}" "space_pages c d ts \<inter> ?U = {}" "space_pages c d ts \<inter> ?T = {}"
    "span pa 16 \<inter> (kheap_spare s \<union> ?T) = {}" "span kb 60 \<inter> (kheap_spare s \<union> ?T) = {}" "span tmp 4 \<inter> kheap_spare s = {}"
    "span pa 16 \<inter> (span kb 60 \<union> span tmp 4 \<union> span tss 12) = {}" using p by (simp_all add: Int_Un_distrib Int_commute)
  obtain q s3 where q: "isr80h_handler 4 (kb + 8) (put_kmem ?m s) = Some (q, in_task s3)" "cr3 (in_task s3) = d"
    "agree_off ?S ?m (kmem s3)" "q \<noteq> 0" "A q = None" "procs_ok s3 (A(q \<mapsto> blocks_of sz)) P" "q \<in> set (alloc_table (kmem s3) p)"
    "span q (unat sz) \<subseteq> kheap_spare s" "\<forall>x \<in> span q (unat sz). kmem s3 x = 0" "kheap_reserved s3 = kheap_reserved s"
    using malloc_at_handler [OF assms(1,3-11), of r] by (elim exE conjE) (rule that, assumption+)
  have pU: "span p 8192 \<subseteq> ?U" using assms(6) by blast
  note w = space_pages_cover(1) [OF conjunct1 [OF p]] owns_live(1) [OF conjunct1 [OF p]]
  have cr: "cr3 s = d" using p by blast
  have dj: "(walk_region (kmem s) (cr3 s) \<union> span kb 60 \<union> span pa 16) \<inter> ?S = {}"
    using w(2) sub_disjoint [OF w(1) pU D(4)] sub_disjoint [OF w(1) order_refl D(5)] sub_disjoint [OF pU order_refl D(1)]
      sub_disjoint [OF pU order_refl D(2)] D(6,7) cr by (simp add: Int_Un_distrib Int_Un_distrib2 Int_commute)
  let ?s' = "put_kmem (write32 (kmem (in_task s3)) tmp q) (in_task s3)"
  have "run (int80 tss tmp) peachos_malloc_stub (r, s) = Some (r\<lparr>uc_eax := q, uc_esp := va + 12, uc_ip := slot (kmem s) pa 2,
      uc_flags := add_flags va 4 (uc_flags r)\<rparr>, ?s')"
    by (rule stub_call [where command = 4, OF _ _ _ assms(2) refl _ _ _ dj D(9)])
      (use p q(1-3) cr in \<open>simp_all add: argument_stubs_def\<close>)
  moreover have tm: "span tmp 4 \<inter> kheap_reserved (in_task s3) = {}"
    using sub_disjoint [OF order_refl space_pages_cover(4) [OF conjunct1 [OF p]] D(8)] q(10) by (simp add: kheap_reserved_def in_task_def switched_def)
  have "procs_ok (in_task s3) (A(q \<mapsto> blocks_of sz)) P" using q(6) by simp
  note ob = procs_ok_apart [OF this write32_agree tm D(3)]
  moreover have "kmem ?s' x = 0" if x: "x \<in> span q (unat sz)" for x
  proof -
    have "x \<notin> span tmp 4" using sub_disjoint [OF order_refl q(8) D(8)] x by (simp add: disjoint_iff) blast
    then show "kmem ?s' x = 0" using q(9) x by (simp add: write32_byte_sep)
  qed
  moreover have "data_segments ?s' = 0x23" "cr3 ?s' = cr3 s" using q(2) cr by (simp_all add: put_kmem_def)
  ultimately show ?thesis using q(4,5,7) ob(1) ob(2) [OF assms(6)] by (intro exI [of _ q] exI [of _ ?s']) simp
qed

text \<open>C4: Asking for memory from a program: \<^verbatim>\<open>malloc\<close> of the library, called from C with
  a size for which there is room, returns through the system call with the address of a fresh, zeroed block that the
  kernel has recorded for the calling process, so that the processes stay isolated; the caller's registers are as
  before but for \<^verbatim>\<open>eax\<close> and the flags, with the user's selector in the data segment registers
  and the address space it had. The structures of the processes and what the call uses have to be apart.\<close>

theorem malloc_from_program:
  assumes "call_setting [\<Union>p \<in> P. span p 8192] s A c d ts tss tmp kb va pa" "uc_esp r = va + 16"
    and "isr80h_commands s ! 4 = Some Command4_Malloc" "procs_ok s A P" "p = task_process (kmem s) (current_task s)" "p \<in> P"
    and "0 \<in> set (alloc_table (kmem s) p)" "sz \<noteq> 0" "unat sz \<le> 4294963200" "kheap_room s (blocks_of sz)"
  shows "\<exists>q f s'. malloc (int80 tss tmp) sz (r, s) = Some (r\<lparr>uc_eax := q, uc_flags := f\<rparr>, s') \<and> q \<noteq> 0 \<and> A q = None \<and>
    procs_ok s' (A(q \<mapsto> blocks_of sz)) P \<and> q \<in> set (alloc_table (kmem s') p) \<and> (\<forall>x \<in> span q (unat sz). kmem s' x = 0) \<and>
    data_segments s' = 0x23 \<and> cr3 s' = cr3 s"
proof -
  let ?r = "r\<lparr>uc_esp := va + 8\<rparr>"
  define m1 where "m1 = call_mem pa sz (uc_ip r) (kmem s)"
  let ?s = "put_kmem m1 s"
  note cs = call_setting_call [OF assms(1) m1_def] and p = assms(1) [unfolded call_setting_def]
  have U: "(\<Union>p \<in> P. span p 8192) \<inter> span pa 16 = {}" using p by (simp add: Int_commute)
  note oa = procs_ok_apart [OF assms(4) cs(2,3) U]
  have b: "unat pa + 16 \<le> 4294967296" "stack_at (kmem s) (cr3 s) va pa 4" using p by (simp_all add: stack_at_def)
  note cm = call_mem_spec(2,3) [OF b(1), of sz "uc_ip r" "kmem s", folded m1_def]
  have rm: "kheap_room ?s (blocks_of sz)" using kheap_put_room [OF procs_okD(1) [OF assms(4)] cs(2,3)] assms(10) by simp
  obtain q s' where q: "run (int80 tss tmp) peachos_malloc_stub (?r, ?s) = Some (?r\<lparr>uc_eax := q, uc_esp := va + 12, uc_ip := uc_ip r,
      uc_flags := add_flags va 4 (uc_flags r)\<rparr>, s')" "q \<noteq> 0" "A q = None" "procs_ok s' (A(q \<mapsto> blocks_of sz)) P"
    "q \<in> set (alloc_table (kmem s') p)" "\<forall>x \<in> span q (unat sz). kmem s' x = 0" "data_segments s' = 0x23" "cr3 s' = cr3 ?s"
    using malloc_routine [OF cs(1) _ _ oa(1) _ assms(6) _ _ assms(8,9) rm, of ?r] assms(3,5,7) cs(5) cm oa(2) [OF assms(6)] by auto
  have "malloc (int80 tss tmp) sz (r, s) = Some (r\<lparr>uc_eax := q, uc_esp := va + 16, uc_ip := uc_ip r,
      uc_flags := add_flags (va + 12) 4 (add_flags va 4 (uc_flags r))\<rparr>, s')"
    unfolding malloc_def by (rule ccall_run [OF b(2) assms(2)]) (use q(1) in \<open>simp add: m1_def\<close>)
  moreover have "r\<lparr>uc_eax := q, uc_esp := va + 16, uc_ip := uc_ip r, uc_flags := f\<rparr> = r\<lparr>uc_eax := q, uc_flags := f\<rparr>" for f
    using assms(2) by (cases r) simp
  moreover have "cr3 ?s = cr3 s" by (simp add: put_kmem_def)
  ultimately show ?thesis using q(2-8) by (intro exI [of _ q] exI [of _ "add_flags (va + 12) 4 (add_flags va 4 (uc_flags r))"] exI [of _ s']) simp
qed

section \<open>Witnesses\<close>

text \<open>The address space of \<open>UserMemory\<close>; the program's stack is at 0x20a000, the kernel's at 0x20b000, the task state
  segment at 0x20c000, and the string of an \<open>H\<close> and a newline at 0x207000.\<close>

definition demo_stub_bytes :: "u32 \<Rightarrow> u32 \<Rightarrow> mem" where
  "demo_stub_bytes c q = write32 (write32 ((\<lambda>_. 0)(0x20a008 := 0x23, 0x20a009 := 0x01, 0x20a00a := 0x40, 0x20a00d := 0x70, 0x20a00e := 0x20,
     0x20c004 := 0x3c, 0x20c005 := 0xb0, 0x20c006 := 0x20, 0x207000 := 0x48, 0x207001 := 0x0a)) 0x202000 c) 0x202034 q"

definition demo_user :: user_context where
  "demo_user = \<lparr>uc_edi = 1, uc_esi = 2, uc_ebp = 3, uc_ebx = 4, uc_edx = 5, uc_ecx = 6, uc_eax = 7, uc_ip = 0x400100,
     uc_cs = 0x1b, uc_flags = 0x200, uc_esp = 0x20a008, uc_ss = 0x23\<rparr>"

lemma demo_stub_overlay:
  fixes m :: mem and c q :: u32
  defines "m' \<equiv> demo_overlay m (demo_stub_bytes c q)"
  shows "agree_off demo_room m m'" "read32 m' 0x202000 = c" "read32 m' 0x202034 = q" "slot m' 0x20a000 2 = 0x400123"
    "slot m' 0x20a000 3 = 0x207000" "slot m' 0x20c000 1 = 0x20b03c" "m' 0x207000 = 0x48" "m' 0x207001 = 0x0a" "m' 0x207002 = 0"
proof -
  show "agree_off demo_room m m'" by (simp add: m'_def agree_off_def demo_overlay_def)
  have r: "read32 m' x = read32 (demo_stub_bytes c q) x" if "0x200000 \<le> unat x" "unat x + 4 \<le> 0x210000" for x
    using demo_room_span [OF that] by (intro read32_span) (auto simp: m'_def demo_overlay_def)
  have "span 0x202000 4 \<inter> span (0x202034 :: u32) 4 = {}" by (rule span_disjoint) simp_all
  then show "read32 m' 0x202000 = c" "read32 m' 0x202034 = q"
    using r [of "0x202000"] r [of "0x202034"] by (simp_all add: demo_stub_bytes_def read32_write32_sep)
  have far: "read32 m' x = read32 ((\<lambda>_. 0)(0x20a008 := 0x23, 0x20a009 := 0x01, 0x20a00a := 0x40, 0x20a00d := 0x70, 0x20a00e := 0x20,
     0x20c004 := 0x3c, 0x20c005 := 0xb0, 0x20c006 := 0x20, 0x207000 := 0x48, 0x207001 := 0x0a)) x"
    if "0x202038 \<le> unat x" "unat x + 4 \<le> 0x210000" for x :: u32
  proof -
    have "span x 4 \<inter> span 0x202000 4 = {}" "span x 4 \<inter> span 0x202034 4 = {}" using that by (intro span_disjoint_sym; simp)+
    then show ?thesis using r [of x] that by (simp add: demo_stub_bytes_def read32_write32_sep)
  qed
  show "slot m' 0x20a000 2 = 0x400123" "slot m' 0x20a000 3 = 0x207000" "slot m' 0x20c000 1 = 0x20b03c"
    using far [of "0x20a008"] far [of "0x20a00c"] far [of "0x20c004"] by (simp_all add: slot_def) (simp_all add: read32_def)
  have b: "m' x = demo_stub_bytes c q x" if "0x200000 \<le> unat x" "unat x < 0x210000" for x
    using that by (simp add: m'_def demo_overlay_def demo_room_def span_iff)
  show "m' 0x207000 = 0x48" "m' 0x207001 = 0x0a" "m' 0x207002 = 0"
    using b [of "0x207000"] b [of "0x207001"] b [of "0x207002"] by (simp_all add: demo_stub_bytes_def span_iff write32_byte_sep)
qed

lemma identity_stack:
  assumes "\<forall>va. translate m d va = Some va" "unat d mod 4096 = 0" "walk_region m d \<inter> span a (4 * n) = {}" "unat a + 4 * n \<le> 4294967296"
  shows "stack_at m d a a n"
  using assms by (simp add: stack_at_def)

definition demo_ready :: "idtstate \<Rightarrow> (u32 \<Rightarrow> nat option) \<Rightarrow> u32 \<Rightarrow> u32 \<Rightarrow> u32 list \<Rightarrow> u32 \<Rightarrow> bool" where
  "demo_ready s A c d ts q \<longleftrightarrow>
     call_setting (print_regions s) s A c d ts 0x20c000 0x20d000 0x20b000 0x20a000 0x20a000 \<and>
     call_setting [\<Union>p \<in> {q}. span p 8192] s A c d ts 0x20c000 0x20d000 0x20b000 0x20a000 0x20a000 \<and>
     0 < kheap_avail s \<and> isr80h_commands s = isr80h_commands demo_system \<and> slot (kmem s) 0x20a000 2 = 0x400123 \<and>
     user_string (kmem s) d (slot (kmem s) 0x20a000 3) [0x48, 0x0a]
       (kheap_spare s \<union> space_pages c d ts \<union> span (current_task s) 64 \<union> span 0x20b000 60 \<union> span 0x20a000 16) \<and>
     console_fits s \<and> terminal_row s = 0 \<and> terminal_col s = 79 \<and> procs_ok s A {q} \<and> q = task_process (kmem s) (current_task s) \<and>
     0 \<in> set (alloc_table (kmem s) q)"

lemma demo_setting: obtains s A c d ts q where "demo_ready s A c d ts q"
proof -
  obtain m A c d ts q where f: "\<forall>m'. agree_off demo_room m m' \<longrightarrow> demo_space m' A c d ts q" by (rule demo_system_space)
  let ?m = "demo_overlay m (demo_stub_bytes c q)" let ?s0 = "put_kmem ?m demo_system" let ?s = "switched 0x23 d ?s0"
  note o = demo_stub_overlay [of m c q]
  let ?H = "kheap_spare ?s0 \<union> space_pages c d ts"
  note g = demo_spaceD [OF f [rule_format, OF o(1)]]
  have al: "unat d mod 4096 = 0" by (rule space_pages_cover(3) [OF g(1)])
  have H: "?H \<inter> demo_room = {}" "?H \<inter> span 0xb8000 3200 = {}" using g(5-7) unfolding space_pages_def by (auto simp: Int_Un_distrib2)
  have room: "X \<inter> span a k = {}" "span a k \<subseteq> demo_room" if "0x200000 \<le> unat a" "unat a + k \<le> 0x210000" "X \<inter> demo_room = {}" for a k X
    using demo_room_span [OF that(1,2)] that(3) by blast+
  have w: "walk_region ?m d \<inter> demo_room = {}" using g(5) by (simp add: Int_Un_distrib2)
  have id: "stack_at ?m d a a n" if "0x200000 \<le> unat a" "unat a + 4 * n \<le> 0x210000" for a n
    using that room(1) [OF that w] by (intro identity_stack al g(4)) auto
  have far: "span (a :: u32) j \<inter> span b k = {}" if "unat a + j \<le> unat b \<or> unat b + k \<le> unat a" "unat a + j \<le> 0x210000" "unat b + k \<le> 0x210000" for a b j k
    using that span_disjoint [of a j b k] span_disjoint_sym [of b k a j] by auto
  have HS: "?H \<inter> span a k = {}" if "0x200000 \<le> unat a" "unat a + k \<le> 0x210000" for a k by (rule room(1) [OF that H(1)])
  have qS: "span a k \<inter> (\<Union>p \<in> {q}. span p 8192) = {}" if "0x200000 \<le> unat a" "unat a + k \<le> 0x210000" for a k
    using room(1) [OF that g(10)] by (simp add: Int_commute)
  have qH: "?H \<inter> (\<Union>p \<in> {q}. span p 8192) = {}"
  proof -
    note k = procs_okD(1) [OF g(8)] and qA = procs_okD(2) [OF g(8), of q, OF singletonI]
    have "span p 4096 \<inter> span q 8192 = {}" if "p \<in> set (c # d # ts)" for p
      using kh.live_disjoint [OF k conjunct1 [OF chunk_owns_page [OF g(1) that]] qA] bspec [OF g(11) that] by simp
    then show ?thesis using kh.live_spare [OF k qA] unfolding space_pages_def by (auto simp: Int_Un_distrib2)
  qed
  have "(?H \<union> span 0x202000 64 \<union> span 0x20b000 60 \<union> span 0x20a000 16) \<inter> span 0x207000 3 = {}"
    unfolding Int_Un_distrib2 Un_empty using HS [of "0x207000" 3, unfolded Int_Un_distrib2 Un_empty]
    by (intro conjI far) simp_all
  note us = demo_call_string [OF g(4) o(7-9) this]
  have ap: "apart ([?H, span 0x202000 64, span 0x20b000 60, span 0x20d000 4, span 0x20c000 12, span 0x20a000 16] @
      [span 0x209000 4, span 0x208000 1024, span 0xb8000 3200])"
    "apart ([?H, span 0x202000 64, span 0x20b000 60, span 0x20d000 4, span 0x20c000 12, span 0x20a000 16] @ [\<Union>p \<in> {q}. span p 8192])"
    unfolding append.simps apart.simps list.set ball_simps by (intro conjI TrueI HS H(2) far qS qH; simp)+
  have tmp: "span 0x20d000 4 \<inter> span (0x20b000 :: u32) 60 = {}" by (rule far) simp_all
  have "trap_ready 0x20c000 0x20d000 0x20b000 ?m d" using id o(6) tmp by (simp add: trap_ready_def)
  then have "call_setting Xs ?s A c d ts 0x20c000 0x20d000 0x20b000 0x20a000 0x20a000"
    if "apart ([?H, span 0x202000 64, span 0x20b000 60, span 0x20d000 4, span 0x20c000 12, span 0x20a000 16] @ Xs)" for Xs
    using g(1,3) o(2) id that by (simp add: call_setting_def task_page_directory_def)
  note cs = this [OF ap(1)] this [OF ap(2)]
  have "procs_ok ?s A {q}" using g(8) by (simp add: procs_ok_def)
  then have "demo_ready ?s A c d ts q"
    using cs us g(2,9) o(3-5) unfolding demo_ready_def
    by (simp add: console_fits_def cursor_def task_process_def) (simp add: switched_def put_kmem_def)
  then show ?thesis by (rule that)
qed

theorem print_from_program_witness:
  "\<exists>(s :: idtstate) s' tss tmp f g. run (int80 tss tmp) print_stub (demo_user, s) =
     Some (demo_user\<lparr>uc_eax := 0, uc_esp := 0x20a00c, uc_ip := 0x400123, uc_flags := f\<rparr>, s') \<and>
   screen s = (g, 0, 79) \<and> screen s' = (g(79 := 0x0f48), 2, 0) \<and> data_segments s' = 0x23"
proof -
  obtain s A c d ts q where r: "demo_ready s A c d ts q" by (rule demo_setting)
  note s = r [unfolded demo_ready_def]
  obtain g where scr: "screen s = (g, 0, 79)" using s by (simp add: screen_def)
  have p: "call_setting (print_regions s) s A c d ts 0x20c000 0x20d000 0x20b000 0x20a000 0x20a000" "0 < kheap_avail s"
    "isr80h_commands s ! 1 = Some Command1_Print" "slot (kmem s) 0x20a000 2 = 0x400123"
    "user_string (kmem s) d (slot (kmem s) 0x20a000 3) [0x48, 0x0a]
       (kheap_spare s \<union> space_pages c d ts \<union> span (current_task s) 64 \<union> span 0x20b000 60 \<union> span 0x20a000 16)"
    "console_fits s" "text_fits [0x48, 0x0a] (screen s)" using s by (simp_all add: scr)
  obtain s' where "run (int80 0x20c000 0x20d000) print_stub (demo_user, s) = Some (demo_user\<lparr>uc_eax := 0, uc_esp := 0x20a00c,
      uc_ip := 0x400123, uc_flags := add_flags 0x20a000 4 0x200\<rparr>, s')" "screen s' = fold show_char [0x48, 0x0a] (screen s)"
    "data_segments s' = 0x23"
    using print_from_program [OF p(1,2) _ p(3) refl p(5,6), of demo_user "[0x48, 0x0a]"] p(4,7)
    by (auto simp: demo_user_def)
  then show ?thesis using scr
    by - (rule exI [of _ s], rule exI [of _ s'], rule exI [of _ "0x20c000"], rule exI [of _ "0x20d000"],
      rule exI [of _ "add_flags 0x20a000 4 0x200"], rule exI [of _ g], simp add: terminal_make_char_def)
qed

theorem malloc_from_program_witness:
  "\<exists>(s :: idtstate) s' tss tmp f q p. malloc (int80 tss tmp) 100 (demo_user\<lparr>uc_esp := 0x20a010\<rparr>, s) =
     Some (demo_user\<lparr>uc_esp := 0x20a010, uc_eax := q, uc_flags := f\<rparr>, s') \<and> q \<noteq> 0 \<and> q \<in> set (alloc_table (kmem s') p)"
proof -
  obtain s A c d ts q where r: "demo_ready s A c d ts q" by (rule demo_setting)
  note s = r [unfolded demo_ready_def]
  have p: "call_setting [\<Union>p \<in> {q}. span p 8192] s A c d ts 0x20c000 0x20d000 0x20b000 0x20a000 0x20a000"
    "isr80h_commands s = isr80h_commands demo_system" "procs_ok s A {q}" "q = task_process (kmem s) (current_task s)"
    "0 \<in> set (alloc_table (kmem s) q)" "0 < kheap_avail s" using s by - (elim conjE, assumption)+
  have cmd: "isr80h_commands s ! 4 = Some Command4_Malloc" by (simp add: p(2))
  have "kheap_room s 1" by (rule kh.avail_room [OF procs_okD(1) [OF p(3)] p(6)])
  then have rm: "kheap_room s (blocks_of 100)" by simp
  obtain q' f s' where "malloc (int80 0x20c000 0x20d000) 100 (demo_user\<lparr>uc_esp := 0x20a010\<rparr>, s) =
      Some (demo_user\<lparr>uc_esp := 0x20a010, uc_eax := q', uc_flags := f\<rparr>, s')" "q' \<noteq> 0" "q' \<in> set (alloc_table (kmem s') q)"
    using malloc_from_program [OF p(1) _ cmd p(3,4) singletonI p(5) _ _ rm, of "demo_user\<lparr>uc_esp := 0x20a010\<rparr>"] by auto
  then show ?thesis by blast
qed

end
