(* ===== verification/SystemRuns.thy ===== *)
theory SystemRuns
  imports UserCalls
begin

text \<open>
  The kernel as a running system: the system calls of \<^verbatim>\<open>src/isr80h\<close>, the interrupts of \<^verbatim>\<open>src/idt/idt.c\<close> and the steps
  that a program makes by itself, as one step relation on the state of the kernel. \<open>system_ok\<close> is the invariant that
  composes those of the components: the heap, the allocation tables of the processes, the page tables of the running
  task, the task structure, the registered commands. The theory shows that every step keeps it, that processes stay
  isolated in every run, and that the calls come back.
\<close>

section \<open>The state of a running system\<close>

text \<open>The commands and the keyboard handler are registered.\<close>

definition registered :: "'z idtstate_scheme \<Rightarrow> bool" where
  "registered s \<longleftrightarrow> isr80h_commands s ! 0 = Some Command0_Sum \<and> isr80h_commands s ! 1 = Some Command1_Print \<and>
     isr80h_commands s ! 2 = Some Command2_Getkey \<and> isr80h_commands s ! 3 = Some Command3_Putchar \<and>
     isr80h_commands s ! 4 = Some Command4_Malloc \<and> isr80h_commands s ! 5 = Some Command5_Free \<and>
     interrupt_callbacks s ! 0x21 = Some Classic_Keyboard_Handle_Interrupt"

text \<open>Memory \<open>S\<close> that no process has been given, that the heap will not hand out, and that is no process structure.\<close>

definition guarded :: "'z kstate_scheme \<Rightarrow> (u32 \<Rightarrow> nat option) \<Rightarrow> u32 set \<Rightarrow> u32 set \<Rightarrow> bool" where
  "guarded s A P S \<longleftrightarrow> S \<inter> kheap_spare s = {} \<and> (\<forall>p \<in> P. S \<inter> span p 8192 = {} \<and>
     (\<forall>q n. q \<noteq> 0 \<longrightarrow> q \<in> set (alloc_table (kmem s) p) \<longrightarrow> A q = Some n \<longrightarrow> S \<inter> span q (n * 4096) = {}))"

lemma guardedD:
  assumes "guarded s A P S"
  shows "S \<inter> kheap_spare s = {}" "p \<in> P \<Longrightarrow> S \<inter> span p 8192 = {}"
    "p \<in> P \<Longrightarrow> q \<noteq> 0 \<Longrightarrow> q \<in> set (alloc_table (kmem s) p) \<Longrightarrow> A q = Some n \<Longrightarrow> S \<inter> span q (n * 4096) = {}"
  using assms unfolding guarded_def by blast+

lemma guardedI:
  assumes "S \<inter> kheap_spare s = {}" "\<And>p. p \<in> P \<Longrightarrow> S \<inter> span p 8192 = {}"
    "\<And>p q n. p \<in> P \<Longrightarrow> q \<noteq> 0 \<Longrightarrow> q \<in> set (alloc_table (kmem s) p) \<Longrightarrow> A q = Some n \<Longrightarrow> S \<inter> span q (n * 4096) = {}"
  shows "guarded s A P S"
  unfolding guarded_def by (intro conjI ballI allI impI assms)

lemma guarded_same:
  assumes "guarded s A P S" "kheap_spare s' = kheap_spare s" "\<And>p. p \<in> P \<Longrightarrow> alloc_table (kmem s') p = alloc_table (kmem s) p"
  shows "guarded s' A P S"
  using assms by (simp add: guarded_def)

lemma guarded_given:
  assumes "guarded s A P S" "procs_ok s A P" "procs_ok s' (A(q \<mapsto> n)) P" "kernel_heap s' = kernel_heap s" "A q = None"
    "\<And>p. p \<in> P \<Longrightarrow> set (alloc_table (kmem s') p) \<subseteq> insert q (set (alloc_table (kmem s) p))"
  shows "guarded s' (A(q \<mapsto> n)) P S"
proof -
  note sp = new_was_spare [OF procs_okD(1) [OF assms(2)] procs_okD(1) [OF assms(3)] assms(4,5)]
  have "S \<inter> span q' (k * 4096) = {}" if "p \<in> P" "q' \<noteq> 0" "q' \<in> set (alloc_table (kmem s') p)" "(A(q \<mapsto> n)) q' = Some k" for p q' k
  proof (cases "q' = q")
    case True
    then show ?thesis using sp(1) guardedD(1) [OF assms(1)] that(4) by auto
  next
    case False
    then show ?thesis using guardedD(3) [OF assms(1) that(1,2)] that(3,4) assms(6) [OF that(1)] by auto
  qed
  moreover have "S \<inter> kheap_spare s' = {}" using sp(2) guardedD(1) [OF assms(1)] by blast
  ultimately show ?thesis using guardedD(2) [OF assms(1)] by (intro guardedI)
qed

lemma guarded_taken:
  assumes "guarded s A P S" "procs_ok s A P" "procs_ok s' (A(q := None)) P" "kernel_heap s' = kernel_heap s" "p \<in> P" "q \<noteq> 0"
    "q \<in> set (alloc_table (kmem s) p)" "\<And>p. p \<in> P \<Longrightarrow> set (alloc_table (kmem s') p) - {0} \<subseteq> set (alloc_table (kmem s) p)"
  shows "guarded s' (A(q := None)) P S"
proof -
  have "x \<notin> kheap_spare s'" if x: "x \<in> S" for x
  proof
    assume "x \<in> kheap_spare s'"
    from spare_shift [OF procs_okD(1) [OF assms(2)] procs_okD(1) [OF assms(3)] assms(4) this]
    have "x \<in> kheap_spare s \<or> (\<exists>n. A q = Some n \<and> x \<in> span q (n * 4096))" by (metis fun_upd_other)
    then show False using guardedD(1) [OF assms(1)] guardedD(3) [OF assms(1,5,6,7)] x by blast
  qed
  moreover have "S \<inter> span q' (k * 4096) = {}" if "p' \<in> P" "q' \<noteq> 0" "q' \<in> set (alloc_table (kmem s') p')" "(A(q := None)) q' = Some k" for p' q' k
  proof -
    have "q' \<in> set (alloc_table (kmem s) p')" using assms(8) [OF that(1)] that(2,3) by blast
    moreover have "A q' = Some k" using that(4) by (auto split: if_splits)
    ultimately show ?thesis by (rule guardedD(3) [OF assms(1) that(1,2)])
  qed
  ultimately show ?thesis using guardedD(2) [OF assms(1)] by (intro guardedI) blast+
qed

text \<open>What the kernel keeps besides its heap and the processes: the page tables of the running task, the task, the buffer
  of the print call, the screen, the pointer to its own address space and the interrupt frame.\<close>

definition kernel_areas :: "u32 \<Rightarrow> 'z idtstate_scheme \<Rightarrow> u32 \<Rightarrow> u32 \<Rightarrow> u32 list \<Rightarrow> u32 set list" where
  "kernel_areas frame s c d ts = [space_pages c d ts, span (current_task s) 64, span (print_buf_at s) 1024, span (video_mem s) 3200,
     span (kernel_chunk s) 4, span frame 52]"

definition system_ok :: "u32 \<Rightarrow> u32 \<Rightarrow> u32 \<Rightarrow> u32 list \<Rightarrow> 'z idtstate_scheme \<Rightarrow> (u32 \<Rightarrow> nat option) \<Rightarrow> u32 set \<Rightarrow> bool" where
  "system_ok frame c d ts s A P \<longleftrightarrow> procs_ok s A P \<and> registered s \<and>
     chunk_owns s A c d ts \<and> (\<forall>i < 1024. read32 (kmem s) (d + 4 * word_of_nat i) AND 1 \<noteq> 0) \<and>
     current_task s \<noteq> 0 \<and> unat (current_task s) + 64 \<le> 4294967296 \<and> task_page_directory (kmem s) (current_task s) = c \<and>
     current_process s \<in> P \<and> task_process (kmem s) (current_task s) \<in> P \<and> unat frame + 52 \<le> 4294967296 \<and> console_fits s \<and>
     apart (kernel_areas frame s c d ts) \<and> guarded s A P (\<Union> (set (kernel_areas frame s c d ts)))"

lemma system_okD:
  assumes "system_ok frame c d ts s A P"
  shows "procs_ok s A P" "registered s" "chunk_owns s A c d ts" "\<forall>i < 1024. read32 (kmem s) (d + 4 * word_of_nat i) AND 1 \<noteq> 0"
    "current_task s \<noteq> 0" "unat (current_task s) + 64 \<le> 4294967296" "task_page_directory (kmem s) (current_task s) = c"
    "current_process s \<in> P" "task_process (kmem s) (current_task s) \<in> P" "unat frame + 52 \<le> 4294967296" "console_fits s"
    "apart (kernel_areas frame s c d ts)" "guarded s A P (\<Union> (set (kernel_areas frame s c d ts)))"
  using assms unfolding system_ok_def by - (elim conjE, assumption)+

lemma system_guarded:
  assumes "system_ok frame c d ts s A P" "S \<in> set (kernel_areas frame s c d ts)"
  shows "S \<inter> kheap_spare s = {}" "S \<inter> kheap_reserved s = {}" "p \<in> P \<Longrightarrow> S \<inter> span p 8192 = {}"
    "p \<in> P \<Longrightarrow> S \<inter> span (process_allocations p) 4096 = {}"
proof -
  note g = guardedD [OF system_okD(13) [OF assms(1)]] and r = procs_okD(1) [OF system_okD(1) [OF assms(1)]]
  have sub: "S \<subseteq> \<Union> (set (kernel_areas frame s c d ts))" using assms(2) by blast
  show "S \<inter> kheap_spare s = {}" by (rule sub_disjoint [OF sub order_refl g(1)])
  then show "S \<inter> kheap_reserved s = {}" using kh.reserved_spare [OF r] by blast
  show p8: "S \<inter> span p 8192 = {}" if "p \<in> P" for p by (rule sub_disjoint [OF sub order_refl g(2) [OF that]])
  assume p: "p \<in> P"
  have "span (process_allocations p) 4096 \<subseteq> span p 8192"
    using alloc_table_room(2) [OF r procs_okD(2) [OF system_okD(1) [OF assms(1)] p]] by simp
  then show "S \<inter> span (process_allocations p) 4096 = {}" using p8 [OF p] by blast
qed

text \<open>The fields that the steps of a running system leave alone.\<close>

definition same_globals :: "'z idtstate_scheme \<Rightarrow> 'z idtstate_scheme \<Rightarrow> bool" where
  "same_globals s s' \<longleftrightarrow> current_task s' = current_task s \<and> current_process s' = current_process s \<and>
     isr80h_commands s' = isr80h_commands s \<and> interrupt_callbacks s' = interrupt_callbacks s \<and> video_mem s' = video_mem s \<and>
     kernel_heap s' = kernel_heap s \<and> print_buf_at s' = print_buf_at s \<and> kernel_chunk s' = kernel_chunk s"

lemma same_globals_refl [simp]: "same_globals s s"
  by (simp add: same_globals_def)

lemma same_globals_trans: "same_globals s s' \<Longrightarrow> same_globals s' s'' \<Longrightarrow> same_globals s s''"
  by (simp add: same_globals_def)

lemma same_globals_simps [simp]:
  "same_globals s (put_kmem m s)" "same_globals s (switched sel d s)" "same_globals s (in_kernel s)" "same_globals s (in_task s)"
  "same_globals s (saved frame s)" "same_globals s (outb a v s)" "same_globals s (s\<lparr>iolog := l\<rparr>)"
  by (simp_all add: same_globals_def switched_def in_kernel_def in_task_def saved_def outb_def put_kmem_def)

lemma same_globals_screen: "same_globals s (s\<lparr>kmem := m, terminal_row := row, terminal_col := col\<rparr>)"
  by (simp add: same_globals_def)

lemma same_globals_areas: "same_globals s s' \<Longrightarrow> kernel_areas frame s' c d ts = kernel_areas frame s c d ts"
  by (simp add: same_globals_def kernel_areas_def)

lemma chunk_owns_carry:
  assumes "chunk_owns s A c d ts" "kheap_ready s' A'" "\<And>k. k \<in> set (c # d # ts) \<Longrightarrow> A' k = A k"
    "agree_off R (kmem s) (kmem s')" "space_pages c d ts \<inter> R = {}"
  shows "chunk_owns s' A' c d ts" "i < 1024 \<Longrightarrow> read32 (kmem s') (d + 4 * word_of_nat i) = read32 (kmem s) (d + 4 * word_of_nat i)"
proof -
  note sp = space_pages_cover [OF assms(1)]
  have c: "directory_entry (kmem s') c = directory_entry (kmem s) c"
    unfolding directory_entry_def by (rule read32_agree [OF assms(4)]) (use sp(2) assms(5) in blast)
  show e: "read32 (kmem s') (d + 4 * word_of_nat i) = read32 (kmem s) (d + 4 * word_of_nat i)" if "i < 1024" for i
    using slot_in_page [OF sp(3) that] sp(1) assms(5) unfolding walk_region_def by (intro read32_agree [OF assms(4)]) blast
  have "table_of (kmem s') d i = table_of (kmem s) d i" if "i < 1024" for i unfolding table_of_def e [OF that] ..
  then show "chunk_owns s' A' c d ts" using assms(1-3) c unfolding chunk_owns_def by auto
qed

lemma system_okI:
  assumes "system_ok frame c d ts s A P" "same_globals s s'" "procs_ok s' A' P" "\<And>k. k \<in> set (c # d # ts) \<Longrightarrow> A' k = A k"
    "agree_off R (kmem s) (kmem s')" "space_pages c d ts \<inter> R = {}"
    "task_page_directory (kmem s') (current_task s) = task_page_directory (kmem s) (current_task s)"
    "task_process (kmem s') (current_task s) = task_process (kmem s) (current_task s)"
    "guarded s' A' P (\<Union> (set (kernel_areas frame s c d ts)))"
  shows "system_ok frame c d ts s' A' P"
proof -
  note o = system_okD [OF assms(1)] and g = same_globals_areas [OF assms(2)]
  note w = chunk_owns_carry [OF o(3) procs_okD(1) [OF assms(3)] assms(4-6)]
  have "console_fits s' = console_fits s" "registered s' = registered s" using assms(2) by (simp_all add: same_globals_def console_fits_def registered_def)
  moreover have "\<forall>i < 1024. read32 (kmem s') (d + 4 * word_of_nat i) AND 1 \<noteq> 0" using o(4) w(2) by simp
  ultimately show ?thesis using o w(1) assms(2,3,7-9) g unfolding system_ok_def same_globals_def by simp
qed

text \<open>A write that leaves alone the tables of the processes, the heap's table, the page tables and the task's first words.\<close>

lemma system_write:
  assumes "system_ok frame c d ts s A P" "same_globals s s'" "agree_off R (kmem s) (kmem s')" "R \<inter> kheap_reserved s = {}"
    "\<And>p. p \<in> P \<Longrightarrow> span (process_allocations p) 4096 \<inter> R = {}" "space_pages c d ts \<inter> R = {}"
    "task_page_directory (kmem s') (current_task s) = task_page_directory (kmem s) (current_task s)"
    "task_process (kmem s') (current_task s) = task_process (kmem s) (current_task s)"
  shows "system_ok frame c d ts s' A P" "p \<in> P \<Longrightarrow> alloc_table (kmem s') p = alloc_table (kmem s) p"
    "kheap_spare s' = kheap_spare s"
proof -
  note o = system_okD [OF assms(1)]
  note t = procs_ok_tables [OF o(1) assms(3,4) assms(5)]
  have kh: "kernel_heap s' = kernel_heap s" using assms(2) by (simp add: same_globals_def)
  have p: "procs_ok s' A P" using t(1) kh by (simp add: procs_ok_def kheap_ready_def)
  show sp: "kheap_spare s' = kheap_spare s"
    using kh.put_spare [OF procs_okD(1) [OF o(1)] assms(3,4)] kh by (simp add: kheap_spare_def kheap_reserved_def)
  show tb: "alloc_table (kmem s') p = alloc_table (kmem s) p" if "p \<in> P" for p by (rule t(2) [OF _ that])
  show "system_ok frame c d ts s' A P"
    by (rule system_okI [OF assms(1,2) p refl assms(3,6-8) guarded_same [OF o(13) sp tb]])
qed

text \<open>A write apart from all of these.\<close>

lemma system_write_apart:
  assumes "system_ok frame c d ts s A P" "same_globals s s'" "agree_off R (kmem s) (kmem s')" "R \<inter> kheap_reserved s = {}"
    "\<And>p. p \<in> P \<Longrightarrow> span (process_allocations p) 4096 \<inter> R = {}" "(space_pages c d ts \<union> span (current_task s) 64) \<inter> R = {}"
  shows "system_ok frame c d ts s' A P" "p \<in> P \<Longrightarrow> alloc_table (kmem s') p = alloc_table (kmem s) p"
proof -
  have d: "space_pages c d ts \<inter> R = {}" "span (current_task s) 64 \<inter> R = {}" using assms(6) by blast+
  note w = system_write [OF assms(1-5) d(1) task_words_kept [OF assms(3) d(2)]]
  show "system_ok frame c d ts s' A P" "p \<in> P \<Longrightarrow> alloc_table (kmem s') p = alloc_table (kmem s) p" using w(1,2) by blast+
qed

lemma system_same:
  assumes "system_ok frame c d ts s A P" "same_globals s s'" "kmem s' = kmem s"
  shows "system_ok frame c d ts s' A P"
  by (rule system_write_apart(1) [OF assms(1,2), of "{}"]) (simp_all add: assms(3))

section \<open>The steps\<close>

lemma areas_apart:
  assumes "system_ok frame c d ts s A P"
  shows "space_pages c d ts \<inter> span (current_task s) 64 = {}" "space_pages c d ts \<inter> span (print_buf_at s) 1024 = {}"
    "space_pages c d ts \<inter> span (video_mem s) 3200 = {}" "span (current_task s) 64 \<inter> span (print_buf_at s) 1024 = {}"
    "span (current_task s) 64 \<inter> span (video_mem s) 3200 = {}" "span (current_task s) 64 \<inter> span frame 52 = {}"
    "space_pages c d ts \<inter> span (kernel_chunk s) 4 = {}" "span (print_buf_at s) 1024 \<inter> span (video_mem s) 3200 = {}"
    "space_pages c d ts \<inter> span frame 52 = {}"
  using system_okD(12) [OF assms] unfolding kernel_areas_def by simp_all

text \<open>The entry into the kernel.\<close>

lemma system_saved:
  assumes "system_ok frame c d ts s A P"
  shows "system_ok frame c d ts (saved frame s) A P" "p \<in> P \<Longrightarrow> alloc_table (kmem (saved frame s)) p = alloc_table (kmem s) p"
    "task_process (kmem (saved frame s)) (current_task s) = task_process (kmem s) (current_task s)"
    "kheap_spare (saved frame s) = kheap_spare s" "agree_off (span (current_task s) 64) (kmem s) (kmem (saved frame s))"
proof -
  note o = system_okD [OF assms] and ap = areas_apart [OF assms]
  have T: "span (current_task s) 64 \<in> set (kernel_areas frame s c d ts)" by (simp add: kernel_areas_def)
  note g = system_guarded [OF assms T]
  have fr: "span frame 52 \<inter> span (current_task s) 64 = {}" using ap(6) by blast
  note sv = task_save_state_spec [OF o(6,10) fr, of "kmem s"]
  show a: "agree_off (span (current_task s) 64) (kmem s) (kmem (saved frame s))" using sv by simp
  show tp: "task_process (kmem (saved frame s)) (current_task s) = task_process (kmem s) (current_task s)"
    using sv by (simp add: task_words)
  have td: "task_page_directory (kmem (saved frame s)) (current_task s) = task_page_directory (kmem s) (current_task s)"
    using sv by (simp add: task_words)
  have t: "span (process_allocations p) 4096 \<inter> span (current_task s) 64 = {}" if "p \<in> P" for p using g(4) [OF that] by blast
  note w = system_write [OF assms same_globals_simps(5) a g(2) t ap(1) td tp]
  show "system_ok frame c d ts (saved frame s) A P" "p \<in> P \<Longrightarrow> alloc_table (kmem (saved frame s)) p = alloc_table (kmem s) p"
    "kheap_spare (saved frame s) = kheap_spare s" using w by blast+
qed

text \<open>The state in which a command of the system call runs.\<close>

definition entered :: "u32 \<Rightarrow> 'z idtstate_scheme \<Rightarrow> 'z idtstate_scheme" where
  "entered frame s = switched 0x10 (directory_entry (kmem s) (kernel_chunk s)) (saved frame s)"

lemma entered_simps [simp]:
  "kmem (entered frame s) = kmem (saved frame s)" "current_task (entered frame s) = current_task s"
  "current_process (entered frame s) = current_process s" "isr80h_commands (entered frame s) = isr80h_commands s"
  "same_globals s (entered frame s)" "iolog (entered frame s) = iolog s" "scan_set_one_next (entered frame s) = scan_set_one_next s"
  "interrupt_callbacks (entered frame s) = interrupt_callbacks s" "kernel_heap (entered frame s) = kernel_heap s"
  by (simp_all add: entered_def same_globals_trans [OF same_globals_simps(5) same_globals_simps(2)])
    (simp add: saved_def)

lemma system_entered:
  assumes "system_ok frame c d ts s A P"
  shows "system_ok frame c d ts (entered frame s) A P" "p \<in> P \<Longrightarrow> alloc_table (kmem (entered frame s)) p = alloc_table (kmem s) p"
    "task_process (kmem (entered frame s)) (current_task s) = task_process (kmem s) (current_task s)"
  using system_same [OF system_saved(1) [OF assms], of "entered frame s"] system_saved(2,3) [OF assms] by (simp_all add: entered_def)

lemma handler_entered:
  assumes "current_task s \<noteq> 0"
  shows "isr80h_handler command frame s = map_option (\<lambda>(r, s'). (r, in_task s')) (isr80h_handle_command command (entered frame s))"
  unfolding entered_def by (rule handler_eq [OF assms])

lemma system_in_task: "system_ok frame c d ts s A P \<Longrightarrow> system_ok frame c d ts (in_task s) A P"
  by (rule system_same) simp_all

lemma system_in_kernel: "system_ok frame c d ts s A P \<Longrightarrow> system_ok frame c d ts (in_kernel s) A P"
  by (rule system_same) simp_all

text \<open>Writing to the screen, and to the buffer of the print call.\<close>

lemma system_screen:
  assumes "system_ok frame c d ts s A P" "same_globals s s'" "agree_off (span (print_buf_at s) 1024 \<union> span (video_mem s) 3200) (kmem s) (kmem s')"
  shows "system_ok frame c d ts s' A P"
proof -
  note ap = areas_apart [OF assms(1)]
  have k: "span (print_buf_at s) 1024 \<in> set (kernel_areas frame s c d ts)" "span (video_mem s) 3200 \<in> set (kernel_areas frame s c d ts)"
    by (simp_all add: kernel_areas_def)
  note g = system_guarded [OF assms(1) k(1)] system_guarded [OF assms(1) k(2)]
  have "span (process_allocations p) 4096 \<inter> (span (print_buf_at s) 1024 \<union> span (video_mem s) 3200) = {}" if "p \<in> P" for p
    using g(4,8) [OF that] by blast
  moreover have "(span (print_buf_at s) 1024 \<union> span (video_mem s) 3200) \<inter> kheap_reserved s = {}" using g(2,6) by blast
  moreover have "(space_pages c d ts \<union> span (current_task s) 64) \<inter> (span (print_buf_at s) 1024 \<union> span (video_mem s) 3200) = {}"
    using ap(2-5) by blast
  ultimately show ?thesis by (intro system_write_apart(1) [OF assms])
qed

text \<open>Writing to the keyboard buffer of a process.\<close>

lemma system_keyboard:
  assumes "system_ok frame c d ts s A P" "p \<in> P" "same_globals s s'" "agree_off (span (p + 4228) 1032) (kmem s) (kmem s')"
  shows "system_ok frame c d ts s' A P"
proof -
  note o = system_okD [OF assms(1)] and r = procs_okD(1) [OF system_okD(1) [OF assms(1)]]
  have Ap: "A p' = Some 2" if "p' \<in> P" for p' by (rule procs_okD(2) [OF o(1) that])
  have K: "span (p + 4228) 1032 \<subseteq> span p 8192" using word_offset_in [of 4228 4228 1032 8192 p] by simp
  have b: "unat p + 8192 \<le> 4294967296" using kh.live_bounds [OF r Ap [OF assms(2)]] by simp
  have k: "space_pages c d ts \<in> set (kernel_areas frame s c d ts)" "span (current_task s) 64 \<in> set (kernel_areas frame s c d ts)"
    by (simp_all add: kernel_areas_def)
  have "(space_pages c d ts \<union> span (current_task s) 64) \<inter> span (p + 4228) 1032 = {}"
    using system_guarded(3) [OF assms(1) k(1) assms(2)] system_guarded(3) [OF assms(1) k(2) assms(2)] K by blast
  moreover have "span (process_allocations p') 4096 \<inter> span (p + 4228) 1032 = {}" if p': "p' \<in> P" for p'
  proof (cases "p' = p")
    case True
    have "unat (p + 116) = unat p + 116" "unat (p + 4228) = unat p + 4228" using b by (simp_all add: unat_word_ariths)
    then show ?thesis using b unfolding True process_allocations_def by (intro span_disjoint) simp_all
  next
    case False
    have "span (process_allocations p') 4096 \<subseteq> span p' 8192" using alloc_table_room(2) [OF r Ap [OF p']] by simp
    moreover have "span p' 8192 \<inter> span p 8192 = {}" using kh.live_disjoint [OF r Ap [OF p'] Ap [OF assms(2)] False] by simp
    ultimately show ?thesis using K by blast
  qed
  moreover have "span (p + 4228) 1032 \<inter> kheap_reserved s = {}" using K kh.live_reserved [OF r Ap [OF assms(2)]] by auto
  ultimately show ?thesis by (intro system_write_apart(1) [OF assms(1,3,4)])
qed

lemma process_room:
  assumes "system_ok frame c d ts s A P" "p \<in> P"
  shows "kb_room p"
  using kh.live_bounds [OF procs_okD(1,2) [OF system_okD(1) [OF assms(1)]], OF assms(2)] by (simp add: kb_room_def)

lemma system_writechar:
  assumes "system_ok frame c d ts s A P" "cursor_visible s"
  shows "system_ok frame c d ts (terminal_writechar ch colour s) A P" "same_globals s (terminal_writechar ch colour s)"
proof -
  note o = system_okD(11) [OF assms(1)]
  show g: "same_globals s (terminal_writechar ch colour s)"
    using terminal_writechar_shape [OF o, of ch colour] same_globals_screen by (elim exE conjE) simp
  show "system_ok frame c d ts (terminal_writechar ch colour s) A P"
    by (rule system_screen [OF assms(1) g agree_off_mono [OF writechar_visible [OF o assms(2)]]]) blast
qed

lemma system_newline:
  assumes "system_ok frame c d ts s A P"
  shows "system_ok frame c d ts (terminal_writechar 0x0a colour s) A P"
  by (rule system_same [OF assms]) (simp_all add: terminal_writechar.simps [of "0x0a"] same_globals_def)

text \<open>The word on top of the program's stack, and the process that calls.\<close>

definition call_argument :: "u32 \<Rightarrow> 'z idtstate_scheme \<Rightarrow> u32 option" where
  "call_argument frame s = stack_word (kmem (entered frame s)) (current_task s) 0"

abbreviation caller :: "'z idtstate_scheme \<Rightarrow> u32" where
  "caller s \<equiv> task_process (kmem s) (current_task s)"

lemma screen_saved:
  assumes "system_ok frame c d ts s A P"
  shows "screen (saved frame s) = screen s"
proof -
  have "saved frame s = put_kmem (kmem (saved frame s)) s" by (simp add: saved_def put_kmem_def)
  moreover have "span (video_mem s) 3200 \<inter> span (current_task s) 64 = {}" using areas_apart(5) [OF assms] by blast
  ultimately show ?thesis using screen_kept [OF system_saved(5) [OF assms] _ system_okD(11) [OF assms]] by metis
qed

text \<open>The calls that write no memory of the programs: the sum, a key and a character.\<close>

lemma quiet_call:
  assumes "system_ok frame c d ts s A P" "command \<in> {0, 2, 3}" "command = 3 \<longrightarrow> cursor_visible s \<or> call_argument frame s = Some 0x0a" "isr80h_handler command frame s = Some (res, s')"
  shows "system_ok frame c d ts s' A P"
proof -
  let ?u = "entered frame s"
  note o = system_okD [OF assms(1)] and u = system_entered(1) [OF assms(1)]
  obtain s2 where s2: "isr80h_handle_command command ?u = Some (res, s2)" "s' = in_task s2"
    using assms(4) by (auto simp: handler_entered [OF o(5)])
  have reg: "isr80h_commands s ! 0 = Some Command0_Sum" "isr80h_commands s ! 2 = Some Command2_Getkey" "isr80h_commands s ! 3 = Some Command3_Putchar"
    using o(2) by (simp_all add: registered_def)
  have "system_ok frame c d ts s2 A P"
  proof -
    consider "command = 0" | "command = 2" | "command = 3" using assms(2) by blast
    then show ?thesis
    proof cases
      case 1
      then have "s2 = in_kernel ?u" using s2(1) reg
        by (auto simp: isr80h_handle_command_def isr80h_command0_sum_def task_get_stack_item_eq split: bind_splits)
      then show ?thesis using system_in_kernel [OF u] by simp
    next
      case 2
      obtain ch m where k: "keyboard_pop ?u = (ch, put_kmem m ?u)"
          "agree_off (span (task_process (kmem ?u) (current_task ?u) + 4228) 1032) (kmem ?u) m"
        using keyboard_pop_shape [OF process_room [OF u system_okD(9) [OF u]] refl] by blast
      then have "s2 = put_kmem m ?u" using 2 s2(1) reg by (simp add: isr80h_handle_command_def isr80h_command2_getkey_def)
      then show ?thesis using system_keyboard [OF u system_okD(9) [OF u]] k(2) by simp
    next
      case 3
      then obtain ch where ch: "call_argument frame s = Some ch" "s2 = terminal_writechar (ucast (ch :: u32)) 15 (in_kernel ?u)" using s2(1) reg
        by (auto simp: isr80h_handle_command_def isr80h_command3_putchar_def task_get_stack_item_eq call_argument_def split: bind_splits)
      note ok = system_in_kernel [OF u]
      have "cursor_visible (in_kernel ?u) \<longleftrightarrow> cursor_visible s"
        by (simp add: cursor_visible_def in_kernel_def entered_def switched_def saved_def put_kmem_def)
      then show ?thesis
        using system_writechar(1) [OF ok, of "ucast ch" 15] system_newline [OF ok, of 15] assms(3) 3 ch by (cases "ch = 0x0a") auto
    qed
  qed
  then show ?thesis unfolding s2(2) by (rule system_in_task)
qed

text \<open>What an operation on the heap and on the table of the process \<open>p\<close> may write.\<close>

lemma system_heap_write:
  assumes "system_ok frame c d ts s A P" "p \<in> P" "agree_off (kheap_spare s \<union> span p 8192) (kmem s) m"
  shows "space_pages c d ts \<inter> (kheap_spare s \<union> span p 8192) = {}"
    "task_page_directory m (current_task s) = task_page_directory (kmem s) (current_task s)"
    "task_process m (current_task s) = task_process (kmem s) (current_task s)"
proof -
  have k: "space_pages c d ts \<in> set (kernel_areas frame s c d ts)" "span (current_task s) 64 \<in> set (kernel_areas frame s c d ts)"
    by (simp_all add: kernel_areas_def)
  note g = system_guarded(1,3) [OF assms(1) k(1)] system_guarded(1,3) [OF assms(1) k(2)]
  show "space_pages c d ts \<inter> (kheap_spare s \<union> span p 8192) = {}" using g(1,2) assms(2) by blast
  have "span (current_task s) 64 \<inter> (kheap_spare s \<union> span p 8192) = {}" using g(3,4) assms(2) by blast
  from task_words_kept [OF assms(3) this]
  show "task_page_directory m (current_task s) = task_page_directory (kmem s) (current_task s)"
    "task_process m (current_task s) = task_process (kmem s) (current_task s)" .
qed

lemma pages_kept:
  assumes "system_ok frame c d ts s A P" "k \<in> set (c # d # ts)"
  shows "A k = Some 1" "p \<in> P \<Longrightarrow> k \<notin> set (alloc_table (kmem s) p) - {0}"
proof -
  show Ak: "A k = Some 1" using chunk_owns_page [OF system_okD(3) [OF assms(1)] assms(2)] by simp
  assume p: "p \<in> P"
  have "k \<in> span k 4096" by (simp add: span_iff)
  then have "k \<in> space_pages c d ts" unfolding space_pages_def using assms(2) by blast
  then have "k \<in> \<Union> (set (kernel_areas frame s c d ts))" by (simp add: kernel_areas_def)
  moreover have "k \<in> span k (1 * 4096)" by (simp add: span_iff)
  ultimately show "k \<notin> set (alloc_table (kmem s) p) - {0}" using guardedD(3) [OF system_okD(13) [OF assms(1)] p _ _ Ak] by blast
qed

text \<open>A block that the heap hands out, recorded or not.\<close>

lemma heap_given:
  assumes "system_ok frame c d ts s A P" "p \<in> P" "same_globals s s'" "procs_ok s' (A(q \<mapsto> n)) P" "A q = None"
    "agree_off (kheap_spare s \<union> span p 8192) (kmem s) (kmem s')"
    "\<And>p. p \<in> P \<Longrightarrow> set (alloc_table (kmem s') p) \<subseteq> insert q (set (alloc_table (kmem s) p))"
  shows "system_ok frame c d ts s' (A(q \<mapsto> n)) P"
proof -
  note o = system_okD [OF assms(1)] and hw = system_heap_write [OF assms(1,2,6)]
  have gd: "guarded s' (A(q \<mapsto> n)) P (\<Union> (set (kernel_areas frame s c d ts)))"
    using assms(3) by (intro guarded_given [OF o(13,1) assms(4) _ assms(5,7)]) (simp_all add: same_globals_def)
  have Ak: "(A(q \<mapsto> n)) k = A k" if "k \<in> set (c # d # ts)" for k using pages_kept(1) [OF assms(1) that] assms(5) by auto
  show ?thesis by (rule system_okI [OF assms(1,3,4) Ak assms(6) hw gd])
qed

lemma room_entered:
  assumes "system_ok frame c d ts s A P" "kheap_room s n"
  shows "kheap_room (in_kernel (entered frame s)) n"
proof -
  let ?v = "in_kernel (entered frame s)"
  have k: "span (current_task s) 64 \<in> set (kernel_areas frame s c d ts)" by (simp add: kernel_areas_def)
  have "kheap_room (put_kmem (kmem ?v) s) n"
    using kheap_put_room [OF procs_okD(1) [OF system_okD(1) [OF assms(1)]] _ system_guarded(2) [OF assms(1) k], of "kmem ?v"]
      system_saved(5) [OF assms(1)] assms(2) by simp
  then show ?thesis by (simp add: kheap_room_def in_kernel_def switched_def entered_def saved_def put_kmem_def)
qed

lemma process_malloc_ok:
  assumes "system_ok frame c d ts s A P" "p \<in> P" "sz \<noteq> 0" "unat sz \<le> 4294963200" "kheap_room s (blocks_of sz)" "0 \<in> set (alloc_table (kmem s) p)"
  obtains i q s' where "process_malloc p sz s = (q, s')" "q \<noteq> 0" "A q = None" "system_ok frame c d ts s' (A(q \<mapsto> blocks_of sz)) P"
    "i < 1024" "alloc_table (kmem s) p ! i = 0" "alloc_table (kmem s') p = (alloc_table (kmem s) p)[i := q]"
    "kheap_avail s' + blocks_of sz = kheap_avail s"
proof -
  note o = system_okD [OF assms(1)]
  obtain i where i: "i < 1024" "alloc_table (kmem s) p ! i = 0" "\<forall>j < i. alloc_table (kmem s) p ! j \<noteq> 0"
    using first_zero [of "alloc_table (kmem s) p"] assms(6) by auto
  obtain q s3 where q: "process_malloc p sz s = (q, s3)" "q \<noteq> 0" "A q = None" "procs_ok s3 (A(q \<mapsto> blocks_of sz)) P"
    "alloc_table (kmem s3) p = (alloc_table (kmem s) p)[i := q]" "\<forall>p' \<in> P - {p}. alloc_table (kmem s3) p' = alloc_table (kmem s) p'"
    "s3 = put_kmem (kmem s3) s" "agree_off (kheap_spare s \<union> span p 8192) (kmem s) (kmem s3)" "kheap_avail s3 + blocks_of sz = kheap_avail s"
    using procs_malloc [OF o(1) assms(2-5) i] by metis
  have g: "same_globals s s3" using same_globals_simps(1) [of s "kmem s3"] by (simp only: q(7) [symmetric])
  have "set (alloc_table (kmem s3) p') \<subseteq> insert q (set (alloc_table (kmem s) p'))" if "p' \<in> P" for p'
    using q(5,6) that set_update_subset_insert [of "alloc_table (kmem s) p" i q] by (cases "p' = p") auto
  then have "system_ok frame c d ts s3 (A(q \<mapsto> blocks_of sz)) P" by (rule heap_given [OF assms(1,2) g q(4,3,8)])
  then show ?thesis by (rule that [OF q(1-3) _ i(1,2) q(5,9)])
qed

lemma malloc_step:
  assumes "system_ok frame c d ts s A P" "call_argument frame s = Some sz" "sz \<noteq> 0" "unat sz \<le> 4294963200"
    "kheap_room s (blocks_of sz)" "0 \<in> set (alloc_table (kmem s) (caller s))"
  obtains q s' where "isr80h_handler 4 frame s = Some (q, s')" "q \<noteq> 0" "A q = None" "system_ok frame c d ts s' (A(q \<mapsto> blocks_of sz)) P"
    "q \<in> set (alloc_table (kmem s') (caller s))"
proof -
  let ?v = "in_kernel (entered frame s)" and ?p = "caller s"
  note o = system_okD [OF assms(1)] and u = system_entered [OF assms(1)]
  have v: "system_ok frame c d ts ?v A P" by (rule system_in_kernel [OF u(1)])
  have z: "0 \<in> set (alloc_table (kmem ?v) ?p)" using u(2) [OF o(9)] assms(6) by simp
  obtain i q s3 where q: "process_malloc ?p sz ?v = (q, s3)" "q \<noteq> 0" "A q = None" "system_ok frame c d ts s3 (A(q \<mapsto> blocks_of sz)) P"
    "i < 1024" "alloc_table (kmem s3) ?p = (alloc_table (kmem ?v) ?p)[i := q]"
    by (rule process_malloc_ok [OF v o(9) assms(3,4) room_entered [OF assms(1,5)] z])
  have "isr80h_handler 4 frame s = Some (q, in_task s3)"
    using o(2,5) assms(2) q(1) u(3) by (simp add: handler_entered isr80h_handle_command_def registered_def isr80h_command4_malloc_def
      task_get_stack_item_eq call_argument_def)
  moreover have "q \<in> set (alloc_table (kmem s3) ?p)" unfolding q(6) using q(5) by (simp add: set_update_memI)
  ultimately show ?thesis using that [OF _ q(2,3) system_in_task [OF q(4)]] by simp
qed

text \<open>A block for which the table of the process has no entry left: it stays allocated, the program gets 0.\<close>

lemma malloc_full_step:
  assumes "system_ok frame c d ts s A P" "call_argument frame s = Some sz" "sz \<noteq> 0" "unat sz \<le> 4294963200"
    "kheap_room s (blocks_of sz)" "0 \<notin> set (alloc_table (kmem s) (caller s))"
  obtains q s' where "isr80h_handler 4 frame s = Some (0, s')" "A q = None" "system_ok frame c d ts s' (A(q \<mapsto> blocks_of sz)) P"
proof -
  let ?v = "in_kernel (entered frame s)" and ?p = "caller s"
  note o = system_okD [OF assms(1)] and u = system_entered [OF assms(1)]
  have v: "system_ok frame c d ts ?v A P" by (rule system_in_kernel [OF u(1)])
  note ov = system_okD [OF v] and rm = room_entered [OF assms(1,5)]
  have full: "0 \<notin> set (alloc_table (kmem ?v) ?p)" using u(2) [OF o(9)] assms(6) by simp
  obtain q s3 where q: "process_malloc ?p sz ?v = (0, s3)" "A q = None" "procs_ok s3 (A(q \<mapsto> blocks_of sz)) P"
    "\<forall>p' \<in> P. alloc_table (kmem s3) p' = alloc_table (kmem ?v) p'" "s3 = put_kmem (kmem s3) ?v" "agree_off (kheap_spare ?v) (kmem ?v) (kmem s3)"
    by (rule procs_malloc_full [OF ov(1) o(9) assms(3,4) rm full])
  have g: "same_globals ?v s3" using same_globals_simps(1) [of ?v "kmem s3"] by (simp only: q(5) [symmetric])
  have ok: "system_ok frame c d ts s3 (A(q \<mapsto> blocks_of sz)) P"
    by (rule heap_given [OF v o(9) g q(3,2) agree_off_mono [OF q(6)]]) (use q(4) in auto)
  have "isr80h_handler 4 frame s = Some (0, in_task s3)"
    using o(2,5) assms(2) q(1) u(3) by (simp add: handler_entered isr80h_handle_command_def registered_def isr80h_command4_malloc_def
      task_get_stack_item_eq call_argument_def)
  then show ?thesis using that [OF _ q(2) system_in_task [OF ok]] by simp
qed

text \<open>A request that the heap refuses, because the last block of its table is taken: nothing is allocated.\<close>

definition heap_answers :: "'z kstate_scheme \<Rightarrow> u32 \<Rightarrow> bool" where
  "heap_answers s sz \<longleftrightarrow> last_block_taken s \<or> sz \<noteq> 0 \<and> unat sz \<le> 4294963200 \<and> kheap_room s (blocks_of sz)"

lemma malloc_refused_step:
  assumes "system_ok frame c d ts s A P" "call_argument frame s = Some sz" "last_block_taken s"
    "\<not> (sz \<noteq> 0 \<and> unat sz \<le> 4294963200 \<and> kheap_room s (blocks_of sz))"
  obtains s' where "isr80h_handler 4 frame s = Some (0, s')" "system_ok frame c d ts s' A P"
    "alloc_table (kmem s') (caller s) = alloc_table (kmem s) (caller s)"
proof -
  let ?v = "in_kernel (entered frame s)"
  note o = system_okD [OF assms(1)] and u = system_entered [OF assms(1)]
  have v: "system_ok frame c d ts ?v A P" by (rule system_in_kernel [OF u(1)])
  have k: "span (current_task s) 64 \<in> set (kernel_areas frame s c d ts)" by (simp add: kernel_areas_def)
  have Ac: "A c = Some 1" by (rule pages_kept(1) [OF assms(1)]) simp
  note r = procs_okD(1) [OF o(1)] and rv = procs_okD(1) [OF system_okD(1) [OF v]]
  have a: "agree_off (span (current_task s) 64) (kmem s) (kmem ?v)" using system_saved(5) [OF assms(1)] by simp
  have kh: "kernel_heap ?v = kernel_heap s" by (simp add: in_kernel_def)
  have "last_block_taken ?v"
    using kheap_put_last [OF r Ac a system_guarded(2) [OF assms(1) k]] assms(3) kh by (simp add: last_block_taken_def)
  moreover have "kheap_room ?v n = kheap_room s n" for n
    using kheap_put_room [OF r a system_guarded(2) [OF assms(1) k]] kh by (simp add: kheap_room_def)
  ultimately have "kzalloc sz ?v = (0, ?v)" using assms(4) by (intro kzalloc_refused [OF rv Ac]) auto
  then have "isr80h_handler 4 frame s = Some (0, in_task ?v)"
    using o(2,5) assms(2) u(3) by (simp add: handler_entered isr80h_handle_command_def registered_def isr80h_command4_malloc_def
      task_get_stack_item_eq call_argument_def process_malloc_def)
  moreover have "alloc_table (kmem (in_task ?v)) (caller s) = alloc_table (kmem s) (caller s)" using u(2) [OF o(9)] by simp
  ultimately show ?thesis by (rule that [OF _ system_in_task [OF v]])
qed

lemma free_step:
  assumes "system_ok frame c d ts s A P" "call_argument frame s = Some q" "q \<noteq> 0 \<or> 0 \<notin> set (alloc_table (kmem s) (caller s))"
  obtains s' where "isr80h_handler 5 frame s = Some (0, s')"
    "system_ok frame c d ts s' (if q \<in> set (alloc_table (kmem s) (caller s)) then A(q := None) else A) P"
    "q \<notin> set (alloc_table (kmem s') (caller s))"
proof -
  let ?v = "in_kernel (entered frame s)" and ?p = "caller s"
  note o = system_okD [OF assms(1)] and u = system_entered [OF assms(1)]
  have v: "system_ok frame c d ts ?v A P" by (rule system_in_kernel [OF u(1)])
  note ov = system_okD [OF v]
  have al: "alloc_table (kmem ?v) ?p = alloc_table (kmem s) ?p" using u(2) [OF o(9)] by simp
  have run: "isr80h_handler 5 frame s = Some (0, in_task (process_free ?p q ?v))"
    using o(2,5) assms(2) u(3) by (simp add: handler_entered isr80h_handle_command_def registered_def isr80h_command5_free_def
      task_get_stack_item_eq call_argument_def)
  show ?thesis
  proof (cases "q \<in> set (alloc_table (kmem ?v) ?p)")
    case False
    then have "process_free ?p q ?v = ?v" by (rule procs_free_denied)
    then show ?thesis using that [OF run] False system_in_task [OF v] al by simp
  next
    case True
    then obtain i where i: "i < 1024" "q = alloc_table (kmem ?v) ?p ! i" by (auto simp: in_set_conv_nth)
    have q0: "q \<noteq> 0" using assms(3) True al by auto
    obtain s3 where s3: "process_free ?p q ?v = s3" "procs_ok s3 (A(q := None)) P" "alloc_table (kmem s3) ?p = (alloc_table (kmem ?v) ?p)[i := 0]"
      "\<forall>p' \<in> P - {?p}. alloc_table (kmem s3) p' = alloc_table (kmem ?v) p'" "s3 = put_kmem (kmem s3) ?v"
      "agree_off (kheap_reserved ?v \<union> span ?p 8192) (kmem ?v) (kmem s3)"
      by (rule procs_free [OF ov(1) o(9) i q0])
    have g: "same_globals ?v s3" using same_globals_simps(1) [of ?v "kmem s3"] by (simp only: s3(5) [symmetric])
    have a: "agree_off (kheap_spare ?v \<union> span ?p 8192) (kmem ?v) (kmem s3)"
      using kh.reserved_spare [OF procs_okD(1) [OF ov(1)]] by (intro agree_off_mono [OF s3(6)]) blast
    have "set (alloc_table (kmem s3) p) - {0} \<subseteq> set (alloc_table (kmem ?v) p)" if "p \<in> P" for p
      using s3(3,4) that set_update_subset_insert [of "alloc_table (kmem ?v) ?p" i 0] by (cases "p = ?p") auto
    then have gd: "guarded s3 (A(q := None)) P (\<Union> (set (kernel_areas frame ?v c d ts)))"
      using g by (intro guarded_taken [OF ov(13,1) s3(2) _ o(9) q0 True]) (simp_all add: same_globals_def)
    have Ak: "(A(q := None)) k = A k" if "k \<in> set (c # d # ts)" for k
      using pages_kept(2) [OF v that o(9)] True q0 by auto
    note hw = system_heap_write [OF v o(9) a]
    have ok: "system_ok frame c d ts s3 (A(q := None)) P" by (rule system_okI [OF v g s3(2) Ak a hw gd])
    have "q \<notin> set (alloc_table (kmem s3) ?p)"
    proof
      assume "q \<in> set (alloc_table (kmem s3) ?p)"
      then obtain j where "j < 1024" "alloc_table (kmem s3) ?p ! j = q" by (auto simp: in_set_conv_nth)
      then show False using procs_okD(3) [OF s3(2) o(9), of j] q0 by auto
    qed
    then show ?thesis using that [OF run] system_in_task [OF ok] True unfolding s3(1) al by simp
  qed
qed

lemma print_step:
  assumes "system_ok frame c d ts s A P" "call_argument frame s = Some msg" "0 < kheap_avail s"
    "user_string (kmem (entered frame s)) d msg cs (kheap_spare s \<union> space_pages c d ts)"
    "text_fits (take 1023 cs) (screen s)"
  obtains s' where "isr80h_handler 1 frame s = Some (0, s')" "system_ok frame c d ts s' A P" "screen s' = fold show_char (take 1023 cs) (screen s)"
proof -
  define t where "t = saved frame s"
  let ?B = "span (print_buf_at s) 1024" and ?V = "span (video_mem s) 3200" and ?U = "kheap_spare t \<union> walk_region (kmem t) d"
  note o = system_okD [OF assms(1)] and ap = areas_apart [OF assms(1)] and sv = system_saved [OF assms(1), folded t_def]
  note ot = system_okD [OF sv(1)] and cov = space_pages_cover [OF system_okD(3) [OF sv(1)]]
  have sel: "current_task t = current_task s" "print_buf_at t = print_buf_at s" "video_mem t = video_mem s"
    "kernel_chunk t = kernel_chunk s" by (simp_all add: t_def)
  have k: "span (current_task s) 64 \<in> set (kernel_areas frame s c d ts)" "?B \<in> set (kernel_areas frame s c d ts)"
    "?V \<in> set (kernel_areas frame s c d ts)" "span (kernel_chunk s) 4 \<in> set (kernel_areas frame s c d ts)"
    by (simp_all add: kernel_areas_def)
  note g = k [THEN system_guarded(1) [OF assms(1)]]
  have U: "?U \<subseteq> kheap_spare s \<union> space_pages c d ts" using cov(1) sv(4) by blast
  have T: "span (current_task s) 4 \<subseteq> span (current_task s) 64" by (rule span_mono) simp
  have ap': "space_pages c d ts \<inter> span (current_task s) 4 = {}" "span (kernel_chunk s) 4 \<inter> space_pages c d ts = {}" using ap(1,7) T by blast+
  have dj: "span (current_task s) 4 \<inter> ?U = {}" "span (kernel_chunk s) 4 \<inter> ?U = {}" "?B \<inter> kheap_spare t = {}" "?V \<inter> (kheap_spare t \<union> ?B) = {}"
    using g U T ap' ap(8) sv(4) by blast+
  have av: "0 < kheap_avail t"
    using kh.put_ready [OF procs_okD(1) [OF o(1)] sv(5) system_guarded(2) [OF assms(1) k(1)]] assms(3) by (simp add: t_def saved_def)
  have arg: "stack_word (kmem t) (current_task s) 0 = Some msg" using assms(2) by (simp add: call_argument_def t_def)
  have us: "user_string (kmem t) d msg cs ?U"
    using assms(4) user_string_agree [OF _ agree_off_refl, of "kmem t" d msg cs "kheap_spare s \<union> space_pages c d ts" "{}" ?U] cov(3) U by (simp add: t_def)
  have c1: "isr80h_commands s ! 1 = Some Command1_Print" using o(2) by (simp add: registered_def)
  have td: "task_page_directory (kmem t) (current_task s) = c" using ot(7) sel(1) by simp
  have scr: "screen t = screen s" unfolding t_def by (rule screen_saved [OF assms(1)])
  have fit: "text_fits (take 1023 cs) (screen t)" using assms(5) by (simp only: scr)
  obtain s3 where s3: "isr80h_handler 1 frame s = Some (0, in_task s3)" "agree_off (kheap_spare t \<union> ?B \<union> ?V) (kmem t) (kmem s3)"
    "kheap_ready s3 A" "\<exists>k m row col. s3 = (switched 0x10 k t)\<lparr>kmem := m, terminal_row := row, terminal_col := col\<rparr>"
    "screen s3 = fold show_char (take 1023 cs) (screen s)"
    using print_reaches_screen [OF o(5) c1 t_def ot(3) td ot(4) av refl dj(1,2) arg us dj(3,4) o(11) refl fit, unfolded scr]
    by (elim exE conjE) (rule that, assumption+, intro exI, assumption)
  have "same_globals t s3" using s3(4) same_globals_trans [OF same_globals_simps(2) same_globals_screen] by blast
  moreover have "system_ok frame c d ts s3 A P" if gl: "same_globals t s3"
  proof -
    let ?R = "kheap_spare t \<union> ?B \<union> ?V"
    have tb: "alloc_table (kmem s3) p = alloc_table (kmem t) p" if p: "p \<in> P" for p
    proof -
      have "span p (2 * 4096) \<inter> ?R = {}"
        using kh.live_spare [OF procs_okD(1,2) [OF ot(1)], OF p] system_guarded(3) [OF assms(1) k(2) p] system_guarded(3) [OF assms(1) k(3) p] by auto
      then show ?thesis by (rule alloc_table_agree [OF procs_okD(1,2) [OF ot(1)] s3(2), OF p])
    qed
    have pk: "procs_ok s3 A P"
      using procs_okI_frame [OF ot(1) s3(3)] procs_okD(2) [OF ot(1)] tb by simp
    have kh': "kernel_heap s3 = kernel_heap t" using gl by (simp add: same_globals_def)
    have "kheap_spare s3 \<subseteq> kheap_spare t" using spare_shift [OF procs_okD(1) [OF ot(1)] s3(3) kh'] by blast
    then have gd: "guarded s3 A P (\<Union> (set (kernel_areas frame t c d ts)))"
      using guardedD [OF ot(13)] tb by (intro guardedI) (blast, blast, simp)
    have TR: "span (current_task t) 64 \<inter> ?R = {}" "space_pages c d ts \<inter> ?R = {}"
      using g(1) ap(2-5) sv(4) system_guarded(1) [OF assms(1), of "space_pages c d ts"] unfolding sel by (auto simp: kernel_areas_def)
    show ?thesis by (rule system_okI [OF sv(1) gl pk refl s3(2) TR(2) task_words_kept [OF s3(2) TR(1)] gd])
  qed
  ultimately have "system_ok frame c d ts (in_task s3) A P" using system_in_task by blast
  then show ?thesis using that [OF s3(1)] s3(5) by simp
qed

text \<open>Keys, the other interrupts, calls without a command, and the program itself.\<close>

lemma key_step:
  assumes "system_ok frame c d ts s A P"
  obtains s' where "interrupt_handler dev 0x21 frame s = Some s'" "system_ok frame c d ts s' A P"
proof -
  define s2 where "s2 = (in_kernel (entered frame s))\<lparr>iolog := Insb 0x60 # Insb 0x60 # iolog s\<rparr>"
  note o = system_okD [OF assms]
  have cb: "interrupt_callbacks s ! 0x21 = Some Classic_Keyboard_Handle_Interrupt" using o(2) by (simp add: registered_def)
  have ok: "system_ok frame c d ts s2 A P"
    unfolding s2_def by (rule system_same [OF system_in_kernel [OF system_entered(1) [OF assms]]]) simp_all
  have push: "system_ok frame c d ts (keyboard_push ch s2) A P" for ch
    using keyboard_push_shape [OF process_room [OF ok system_okD(8) [OF ok]], of ch]
      system_keyboard [OF ok system_okD(8) [OF ok] same_globals_simps(1)] by (elim exE conjE) simp
  note run = key_interrupt_eq [OF o(5) cb refl refl, folded entered_def, OF s2_def, of dev]
  show ?thesis
    by (rule that [OF run]) (rule system_same [OF system_in_task], use ok push in \<open>simp_all add: outb_def\<close>)
qed

lemma other_interrupt_step:
  assumes "system_ok frame c d ts s A P" "interrupt_callbacks s ! n = None"
  obtains s' where "interrupt_handler dev n frame s = Some s'" "system_ok frame c d ts s' A P"
proof (rule that)
  have "interrupt_callbacks (in_kernel s) ! n = None" using assms(2) by simp
  then show "interrupt_handler dev n frame s = Some (outb 0x20 0x20 (in_task (in_kernel s)))"
    by (simp add: interrupt_handler_def kernel_page_eq task_page_eq)
  show "system_ok frame c d ts (outb 0x20 0x20 (in_task (in_kernel s))) A P"
    by (rule system_same [OF system_in_task [OF system_in_kernel [OF assms(1)]]]) (simp_all add: outb_def)
qed

lemma unknown_call_step:
  assumes "system_ok frame c d ts s A P" "command < 0 \<or> command \<ge> 1024 \<or> isr80h_commands s ! nat command = None"
  shows "isr80h_handler command frame s = Some (0, in_task (entered frame s))" "system_ok frame c d ts (in_task (entered frame s)) A P"
  using handler_entered [OF system_okD(5) [OF assms(1)], of command frame] assms(2) system_in_task [OF system_entered(1) [OF assms(1)]]
  by (auto simp: isr80h_handle_command_def)

definition kernel_only :: "u32 \<Rightarrow> u32 \<Rightarrow> u32 list \<Rightarrow> u32 set \<Rightarrow> 'z idtstate_scheme \<Rightarrow> u32 set" where
  "kernel_only c d ts P s = kheap_reserved s \<union> space_pages c d ts \<union> span (current_task s) 64 \<union> (\<Union>p \<in> P. span p 8192)"

lemma program_step:
  assumes "system_ok frame c d ts s A P" "agree_off R (kmem s) m" "R \<inter> kernel_only c d ts P s = {}"
  shows "system_ok frame c d ts (put_kmem m s) A P"
proof (rule system_write_apart(1) [OF assms(1) same_globals_simps(1)])
  show "agree_off R (kmem s) (kmem (put_kmem m s))" using assms(2) by simp
  show "R \<inter> kheap_reserved s = {}" "(space_pages c d ts \<union> span (current_task s) 64) \<inter> R = {}"
    using assms(3) unfolding kernel_only_def by blast+
  fix p assume p: "p \<in> P"
  have "span (process_allocations p) 4096 \<subseteq> span p 8192"
    using alloc_table_room(2) [OF procs_okD(1,2) [OF system_okD(1) [OF assms(1)]], OF p] by simp
  then show "span (process_allocations p) 4096 \<inter> R = {}" using assms(3) p unfolding kernel_only_def by blast
qed

section \<open>Runs\<close>

text \<open>The steps of a running system, with its interrupt frame, the running task's address space and the processes \<open>P\<close>: the
  system calls, with any number that has no command, key presses and other interrupts, and what the program does by
  itself. The conditions leave out what makes the code itself write over structures of the kernel or hand out memory
  that it has not reserved:
  \<^item> a print of a string that is not NUL-terminated in mapped memory apart from the free memory of the heap and from
    the page tables, with no free block to copy it through, or whose first 1023 characters do not fit the screen (there is
    no scrolling, and a backspace in the first column of a line loses the column);
  \<^item> a character other than a newline, put while the cursor is behind the last line;
  \<^item> a request for memory when the last block of the heap's table is free, if it is for zero bytes, for more than
    \<open>2 ^ 32 - 4096\<close>, or for more than the heap has room for (\<open>heap_answers\<close>; \<^verbatim>\<open>heap_malloc\<close> then returns a block that it has
    not reserved, or marks entries past its table);
  \<^item> a free of NULL by a process whose table of allocations has an empty entry;
  \<^item> a write of the program into the kernel's structures: the pages of an address space are read-only but for the program's
    image and its stack, and the fault that such a write raises is not modelled.\<close>

inductive system_step :: "device \<Rightarrow> u32 \<Rightarrow> u32 \<Rightarrow> u32 \<Rightarrow> u32 list \<Rightarrow> u32 set \<Rightarrow> 'z idtstate_scheme \<Rightarrow> 'z idtstate_scheme \<Rightarrow> bool"
  for dev :: device and frame c d :: u32 and ts :: "u32 list" and P :: "u32 set" where
  sum: "isr80h_handler 0 frame s = Some (r, s') \<Longrightarrow> system_step dev frame c d ts P s s'"
| print: "call_argument frame s = Some msg \<Longrightarrow> user_string (kmem (entered frame s)) d msg cs (kheap_spare s \<union> space_pages c d ts) \<Longrightarrow>
    0 < kheap_avail s \<Longrightarrow> text_fits (take 1023 cs) (screen s) \<Longrightarrow> isr80h_handler 1 frame s = Some (r, s') \<Longrightarrow> system_step dev frame c d ts P s s'"
| getkey: "isr80h_handler 2 frame s = Some (r, s') \<Longrightarrow> system_step dev frame c d ts P s s'"
| putchar: "cursor_visible s \<or> call_argument frame s = Some 0x0a \<Longrightarrow> isr80h_handler 3 frame s = Some (r, s') \<Longrightarrow> system_step dev frame c d ts P s s'"
| malloc: "call_argument frame s = Some sz \<Longrightarrow> heap_answers s sz \<Longrightarrow> isr80h_handler 4 frame s = Some (r, s') \<Longrightarrow> system_step dev frame c d ts P s s'"
| free: "call_argument frame s = Some q \<Longrightarrow> q \<noteq> 0 \<or> 0 \<notin> set (alloc_table (kmem s) (caller s)) \<Longrightarrow>
    isr80h_handler 5 frame s = Some (r, s') \<Longrightarrow> system_step dev frame c d ts P s s'"
| unknown: "command < 0 \<or> command \<ge> 1024 \<or> isr80h_commands s ! nat command = None \<Longrightarrow>
    isr80h_handler command frame s = Some (r, s') \<Longrightarrow> system_step dev frame c d ts P s s'"
| key: "interrupt_handler dev 0x21 frame s = Some s' \<Longrightarrow> system_step dev frame c d ts P s s'"
| interrupt: "interrupt_callbacks s ! n = None \<Longrightarrow> interrupt_handler dev n frame s = Some s' \<Longrightarrow> system_step dev frame c d ts P s s'"
| program: "agree_off R (kmem s) m \<Longrightarrow> R \<inter> kernel_only c d ts P s = {} \<Longrightarrow> system_step dev frame c d ts P s (put_kmem m s)"

lemma system_step_ok:
  assumes "system_step dev frame c d ts P s s'" "system_ok frame c d ts s A P"
  shows "\<exists>A'. system_ok frame c d ts s' A' P"
  using assms
proof (induction rule: system_step.induct)
  case (sum s r s')
  then show ?case using quiet_call [of frame c d ts s A P 0 r s'] by auto
next
  case (print s msg cs r s')
  obtain t where "isr80h_handler 1 frame s = Some (0, t)" "system_ok frame c d ts t A P"
    by (rule print_step [OF print.prems print.hyps(1,3,2,4)])
  then show ?case using print.hyps(5) by auto
next
  case (getkey s r s')
  then show ?case using quiet_call [of frame c d ts s A P 2 r s'] by auto
next
  case (putchar s r s')
  then show ?case using quiet_call [of frame c d ts s A P 3 r s'] by auto
next
  case (malloc s sz r s')
  show ?case
  proof (cases "sz \<noteq> 0 \<and> unat sz \<le> 4294963200 \<and> kheap_room s (blocks_of sz)")
    case False
    then have "last_block_taken s" using malloc.hyps(2) by (auto simp: heap_answers_def)
    then show ?thesis using malloc.hyps(3) by - (rule malloc_refused_step [OF malloc.prems malloc.hyps(1) _ False], auto)
  next
    case True
    then have sz: "sz \<noteq> 0" "unat sz \<le> 4294963200" "kheap_room s (blocks_of sz)" by blast+
    show ?thesis
    proof (cases "0 \<in> set (alloc_table (kmem s) (caller s))")
      case True
      then show ?thesis using malloc.hyps(3) by - (rule malloc_step [OF malloc.prems malloc.hyps(1) sz True], auto)
    next
      case False
      then show ?thesis using malloc.hyps(3) by - (rule malloc_full_step [OF malloc.prems malloc.hyps(1) sz False], auto)
    qed
  qed
next
  case (free s q r s')
  then show ?case by - (rule free_step [OF free.prems free.hyps(1,2)], auto)
next
  case (unknown command s r s')
  then show ?case using unknown_call_step [OF unknown.prems unknown.hyps(1)] by auto
next
  case (key s s')
  then show ?case using key_step [OF key.prems] by (metis option.inject)
next
  case (interrupt s n s')
  then show ?case using other_interrupt_step [OF interrupt.prems interrupt.hyps(1)] by (metis option.inject)
next
  case (program R s m)
  then show ?case using program_step [OF program.prems program.hyps] by blast
qed

text \<open>C2: The kernel keeps its structures: in every run of the steps of \<open>system_step\<close> (system
  calls, interrupts and what the program does, under the conditions listed there) from a well-formed state, every
  state is well-formed, with some map of live allocations. The heap's table is in order, the processes' tables record
  live blocks, each once, the page tables of the running task stand with every table present, the commands and the
  keyboard handler are registered, and the kernel's own memory is apart from everything that a process has been given.
  Outside these conditions (memory asked for that the heap cannot reserve while the last block of its table is free, a
  free of NULL with an empty entry in the table of allocations, output behind the last line of the screen, a string
  that cannot be copied) the code does not keep them. A program step writes anywhere but in the kernel's structures:
  the protection of their pages is not modelled.\<close>

theorem system_runs_well_formed:
  assumes "(system_step dev frame c d ts P)\<^sup>*\<^sup>* s s'" "system_ok frame c d ts s A P"
  shows "\<exists>A'. system_ok frame c d ts s' A' P"
  using assms
proof (induction rule: rtranclp_induct)
  case (step y z)
  then show ?case using system_step_ok by blast
qed blast

lemma system_reaches_ok:
  assumes "(system_step dev frame c d ts P)\<^sup>*\<^sup>* s s'" "system_ok frame c d ts s A P"
  obtains A' where "system_ok frame c d ts s' A' P"
  using assms by (induction rule: rtranclp_induct) (blast dest: system_step_ok)+

text \<open>C1: Isolation in a running system: after any run of the steps of \<open>system_step\<close> from a
  well-formed state, two blocks that processes have recorded, of two processes or two of one, are live and disjoint,
  and no block that a process has recorded meets the structure of a process, the heap's table, the page tables and the
  task that are running, the buffer of the print call, the screen or the frame. The steps are all system calls,
  interrupts and program steps except those with which the code itself breaks this: a malloc while the last block of
  the heap's table is free, of zero or nearly \<open>2 ^ 32\<close> bytes or without room; a free of NULL while the
  caller's table of allocations has an empty entry; a character behind the last line of the screen; and a print of a
  string that cannot be copied or does not fit the screen. A program step writes anywhere but in the kernel's
  structures: the protection of their pages is not modelled.\<close>

theorem system_runs_isolated:
  assumes "(system_step dev frame c d ts P)\<^sup>*\<^sup>* s s'" "system_ok frame c d ts s A P" "p \<in> P" "p' \<in> P"
    "a \<in> set (alloc_table (kmem s') p)" "b \<in> set (alloc_table (kmem s') p')" "a \<noteq> 0" "b \<noteq> 0" "p \<noteq> p' \<or> a \<noteq> b"
  shows "\<exists>A' n k. A' a = Some n \<and> A' b = Some k \<and> kheap_ready s' A' \<and> span a (n * 4096) \<inter> span b (k * 4096) = {} \<and>
    span a (n * 4096) \<inter> (kernel_only c d ts P s' \<union> \<Union> (set (kernel_areas frame s' c d ts))) = {}"
proof -
  obtain A' where ok: "system_ok frame c d ts s' A' P" by (rule system_reaches_ok [OF assms(1,2)])
  note o = system_okD [OF ok] and r = procs_okD(1) [OF system_okD(1) [OF ok]]
  obtain i j where i: "i < 1024" "alloc_table (kmem s') p ! i = a" "j < 1024" "alloc_table (kmem s') p' ! j = b"
    using assms(5,6) by (auto simp: in_set_conv_nth)
  obtain n where n: "A' a = Some n" "a \<notin> P" using procs_okD(3) [OF o(1) assms(3) i(1)] i(2) assms(7) by auto
  obtain k where k: "A' b = Some k" using procs_okD(3) [OF o(1) assms(4) i(3)] i(4) assms(8) by auto
  have "a \<noteq> b" using procs_okD(4) [OF o(1) assms(3) i(1) _ assms(4) i(3)] i(2,4) assms(7,9) by auto
  then have d: "span a (n * 4096) \<inter> span b (k * 4096) = {}" by (rule kh.live_disjoint [OF r n(1) k])
  have pr: "span a (n * 4096) \<inter> span q 8192 = {}" if "q \<in> P" for q
    using kh.live_disjoint [OF r n(1) procs_okD(2) [OF o(1) that]] n(2) that by auto
  have g: "span a (n * 4096) \<inter> \<Union> (set (kernel_areas frame s' c d ts)) = {}"
    using guardedD(3) [OF o(13) assms(3,7,5) n(1)] by blast
  have "span a (n * 4096) \<inter> kernel_only c d ts P s' = {}"
    using pr g kh.live_reserved [OF r n(1)] unfolding kernel_only_def by (auto simp: kernel_areas_def)
  then have "span a (n * 4096) \<inter> (kernel_only c d ts P s' \<union> \<Union> (set (kernel_areas frame s' c d ts))) = {}" using g by (simp only: Int_Un_distrib Un_empty)
  then show ?thesis by (intro exI [of _ A'] exI [of _ n] exI [of _ k] conjI n(1) k r d)
qed

section \<open>What the calls return\<close>

lemma keyboard_pop_queue:
  assumes "kb_room p" "p = task_process (kmem s) (current_task s)" "current_task s \<noteq> 0" "kb_queue (kmem s) p q"
  shows "\<exists>m. keyboard_pop s = (if q = [] then 0 else hd q, put_kmem m s) \<and> kb_queue m p (tl q)"
proof (cases q)
  case Nil
  have "s = put_kmem (kmem s) s" by (simp add: put_kmem_def)
  then show ?thesis using kb_empty [of "kmem s" p] assms Nil by (intro exI [of _ "kmem s"]) (simp add: keyboard_pop_def)
next
  case (Cons c q')
  let ?a = "p + 4228 + keyboard_head (kmem s) p mod 1024"
  let ?m = "write32 ((kmem s)(?a := 0)) (p + 5256) (keyboard_head ((kmem s)(?a := 0)) p + 1)"
  have t: "kmem s ?a = c" "c \<noteq> 0" "kb_queue ?m p q'" using kb_take [of p "kmem s" c q'] assms(1,4) Cons by simp_all
  have "keyboard_pop s = (c, put_kmem ?m s)" using assms(2,3) t(1,2) by (simp add: keyboard_pop_def Let_def)
  then show ?thesis using t(3) Cons by (intro exI [of _ ?m]) simp
qed

lemma getkey_step:
  assumes "system_ok frame c d ts s A P" "kb_queue (kmem s) (caller s) q"
  obtains s' where "isr80h_handler 2 frame s = Some (if q = [] then 0 else scast (hd q), s')" "kb_queue (kmem s') (caller s) (tl q)"
proof -
  let ?u = "entered frame s"
  note o = system_okD [OF assms(1)] and u = system_entered [OF assms(1)] and room = process_room [OF assms(1) system_okD(9) [OF assms(1)]]
  have T: "span (current_task s) 64 \<in> set (kernel_areas frame s c d ts)" by (simp add: kernel_areas_def)
  have "span (caller s + 4228) 1032 \<subseteq> span (caller s) 8192" using word_offset_in [of 4228 4228 1032 8192 "caller s"] by simp
  then have "span (caller s + 4228) 1032 \<inter> span (current_task s) 64 = {}" using system_guarded(3) [OF assms(1) T o(9)] by blast
  then have "kb_queue (kmem ?u) (caller s) q"
    using kb_queue_agree [OF room system_saved(5) [OF assms(1)]] assms(2) by simp
  then obtain m where m: "keyboard_pop ?u = (if q = [] then 0 else hd q, put_kmem m ?u)" "kb_queue m (caller s) (tl q)"
    using keyboard_pop_queue [OF room, of ?u q] u(3) o(5) by auto
  have "isr80h_handler 2 frame s = Some (if q = [] then 0 else scast (hd q), in_task (put_kmem m ?u))"
    using o(2,5) m(1) by (simp add: handler_entered isr80h_handle_command_def registered_def isr80h_command2_getkey_def)
  then show ?thesis by (rule that) (simp add: m(2))
qed

lemma putchar_step:
  assumes "system_ok frame c d ts s A P" "call_argument frame s = Some ch" "char_fits (ucast ch) (screen s)"
  obtains s' where "isr80h_handler 3 frame s = Some (0, s')" "screen s' = show_char (ucast ch) (screen s)"
proof -
  let ?v = "in_kernel (entered frame s)"
  note o = system_okD [OF assms(1)]
  have v: "screen ?v = screen s" "console_fits ?v"
    using screen_saved [OF assms(1)] system_okD(11) [OF system_in_kernel [OF system_entered(1) [OF assms(1)]]] by (simp_all add: entered_def)
  have "isr80h_handler 3 frame s = Some (0, in_task (terminal_writechar (ucast ch) 15 ?v))"
    using o(2,5) assms(2) by (simp add: handler_entered isr80h_handle_command_def registered_def isr80h_command3_putchar_def
      task_get_stack_item_eq call_argument_def)
  moreover have "screen (terminal_writechar (ucast ch) 15 ?v) = show_char (ucast ch) (screen s)"
    using writechar_screen [OF v(2), of "ucast ch"] assms(3) by (simp only: v(1))
  ultimately show ?thesis using that [of "in_task (terminal_writechar (ucast ch) 15 ?v)"] by simp
qed

lemma sum_step:
  assumes "system_ok frame c d ts s A P" "call_argument frame s = Some a" "stack_word (kmem (entered frame s)) (current_task s) 1 = Some b"
  obtains s' where "isr80h_handler 0 frame s = Some (a + b, s')"
  using system_okD(2,5) [OF assms(1)] assms(2,3) that by (simp add: handler_entered isr80h_handle_command_def registered_def
    isr80h_command0_sum_def task_get_stack_item_eq call_argument_def)

text \<open>C15: What the system calls return, in a well-formed state, which they keep: the sum of the two words on
  top of the program's stack; 0 from print, which shows the first 1023 characters of the string at the address on top
  of the stack, if they fit the screen; the oldest character typed to the calling process, sign-extended and taken out
  of its buffer, or 0 if there is none; 0 from putchar, which shows the character on top of the stack, if it fits the
  screen; the address of a block that was not live for a size for which the heap has room, recorded for the calling
  process, or 0 if its table is full; 0 for a size that the heap refuses; 0 from free of a pointer other than NULL,
  which releases the block just when the calling process had recorded it, and the process then has it no longer; and 0
  for a number without a command.\<close>

theorem system_calls_answer:
  assumes "system_ok frame c d ts s A P"
  shows "(\<forall>a b. call_argument frame s = Some a \<longrightarrow> stack_word (kmem (entered frame s)) (current_task s) 1 = Some b \<longrightarrow>
      (\<exists>s'. isr80h_handler 0 frame s = Some (a + b, s') \<and> system_ok frame c d ts s' A P)) \<and>
    (\<forall>msg cs. call_argument frame s = Some msg \<longrightarrow> user_string (kmem (entered frame s)) d msg cs (kheap_spare s \<union> space_pages c d ts) \<longrightarrow>
      0 < kheap_avail s \<longrightarrow> text_fits (take 1023 cs) (screen s) \<longrightarrow>
      (\<exists>s'. isr80h_handler 1 frame s = Some (0, s') \<and> screen s' = fold show_char (take 1023 cs) (screen s) \<and> system_ok frame c d ts s' A P)) \<and>
    (\<forall>q. kb_queue (kmem s) (caller s) q \<longrightarrow> (\<exists>s'. isr80h_handler 2 frame s = Some (if q = [] then 0 else scast (hd q), s') \<and>
      kb_queue (kmem s') (caller s) (tl q) \<and> system_ok frame c d ts s' A P)) \<and>
    (\<forall>ch. call_argument frame s = Some ch \<longrightarrow> char_fits (ucast ch) (screen s) \<longrightarrow> (\<exists>s'. isr80h_handler 3 frame s = Some (0, s') \<and>
      screen s' = show_char (ucast ch) (screen s) \<and> system_ok frame c d ts s' A P)) \<and>
    (\<forall>sz. call_argument frame s = Some sz \<longrightarrow> sz \<noteq> 0 \<longrightarrow> unat sz \<le> 4294963200 \<longrightarrow> kheap_room s (blocks_of sz) \<longrightarrow>
      (\<exists>q s'. isr80h_handler 4 frame s = Some (if 0 \<in> set (alloc_table (kmem s) (caller s)) then q else 0, s') \<and> A q = None \<and>
        (0 \<in> set (alloc_table (kmem s) (caller s)) \<longrightarrow> q \<noteq> 0 \<and> q \<in> set (alloc_table (kmem s') (caller s))) \<and>
        system_ok frame c d ts s' (A(q \<mapsto> blocks_of sz)) P)) \<and>
    (\<forall>sz. call_argument frame s = Some sz \<longrightarrow> last_block_taken s \<longrightarrow> \<not> (sz \<noteq> 0 \<and> unat sz \<le> 4294963200 \<and> kheap_room s (blocks_of sz)) \<longrightarrow>
      (\<exists>s'. isr80h_handler 4 frame s = Some (0, s') \<and> system_ok frame c d ts s' A P)) \<and>
    (\<forall>q. call_argument frame s = Some q \<longrightarrow> q \<noteq> 0 \<longrightarrow> (\<exists>s'. isr80h_handler 5 frame s = Some (0, s') \<and> q \<notin> set (alloc_table (kmem s') (caller s)) \<and>
      system_ok frame c d ts s' (if q \<in> set (alloc_table (kmem s) (caller s)) then A(q := None) else A) P)) \<and>
    (\<forall>command. command < 0 \<or> command \<ge> 1024 \<or> isr80h_commands s ! nat command = None \<longrightarrow>
      (\<exists>s'. isr80h_handler command frame s = Some (0, s') \<and> system_ok frame c d ts s' A P))"
proof (intro conjI allI impI)
  note quiet = quiet_call [OF assms]
  show "\<exists>s'. isr80h_handler 0 frame s = Some (a + b, s') \<and> system_ok frame c d ts s' A P"
    if "call_argument frame s = Some a" "stack_word (kmem (entered frame s)) (current_task s) 1 = Some b" for a b
    by (rule sum_step [OF assms that]) (use quiet [of 0] in auto)
  show "\<exists>s'. isr80h_handler 1 frame s = Some (0, s') \<and> screen s' = fold show_char (take 1023 cs) (screen s) \<and> system_ok frame c d ts s' A P"
    if "call_argument frame s = Some msg" "user_string (kmem (entered frame s)) d msg cs (kheap_spare s \<union> space_pages c d ts)"
      "0 < kheap_avail s" "text_fits (take 1023 cs) (screen s)" for msg cs
    by (rule print_step [OF assms that(1,3,2,4)]) blast
  show "\<exists>s'. isr80h_handler 2 frame s = Some (if q = [] then 0 else scast (hd q), s') \<and>
      kb_queue (kmem s') (caller s) (tl q) \<and> system_ok frame c d ts s' A P" if "kb_queue (kmem s) (caller s) q" for q
    by (rule getkey_step [OF assms that]) (use quiet [of 2] in auto)
  show "\<exists>s'. isr80h_handler 3 frame s = Some (0, s') \<and> screen s' = show_char (ucast ch) (screen s) \<and> system_ok frame c d ts s' A P"
    if "call_argument frame s = Some ch" "char_fits (ucast ch) (screen s)" for ch
    by (rule putchar_step [OF assms that]) (use quiet [of 3] char_fits_visible [OF that(2)] in auto)
  show "\<exists>q s'. isr80h_handler 4 frame s = Some (if 0 \<in> set (alloc_table (kmem s) (caller s)) then q else 0, s') \<and> A q = None \<and>
        (0 \<in> set (alloc_table (kmem s) (caller s)) \<longrightarrow> q \<noteq> 0 \<and> q \<in> set (alloc_table (kmem s') (caller s))) \<and>
        system_ok frame c d ts s' (A(q \<mapsto> blocks_of sz)) P"
    if sz: "call_argument frame s = Some sz" "sz \<noteq> 0" "unat sz \<le> 4294963200" "kheap_room s (blocks_of sz)" for sz
  proof (cases "0 \<in> set (alloc_table (kmem s) (caller s))")
    case True
    then show ?thesis by (simp only: if_True simp_thms) (rule malloc_step [OF assms sz True], blast)
  next
    case False
    then show ?thesis by (simp only: if_False simp_thms) (rule malloc_full_step [OF assms sz False], blast)
  qed
  show "\<exists>s'. isr80h_handler 4 frame s = Some (0, s') \<and> system_ok frame c d ts s' A P"
    if "call_argument frame s = Some sz" "last_block_taken s" "\<not> (sz \<noteq> 0 \<and> unat sz \<le> 4294963200 \<and> kheap_room s (blocks_of sz))" for sz
    by (rule malloc_refused_step [OF assms that]) blast
  show "\<exists>s'. isr80h_handler 5 frame s = Some (0, s') \<and> q \<notin> set (alloc_table (kmem s') (caller s)) \<and>
      system_ok frame c d ts s' (if q \<in> set (alloc_table (kmem s) (caller s)) then A(q := None) else A) P"
    if "call_argument frame s = Some q" "q \<noteq> 0" for q
    by (rule free_step [OF assms that(1) disjI1 [OF that(2)]]) blast
  show "\<exists>s'. isr80h_handler command frame s = Some (0, s') \<and> system_ok frame c d ts s' A P"
    if "command < 0 \<or> command \<ge> 1024 \<or> isr80h_commands s ! nat command = None" for command
    using unknown_call_step [OF assms that] by blast
qed

section \<open>Witnesses\<close>

text \<open>The booted system with a task of the process \<open>q\<close>, whose structure is in the room left to the example. The interrupt frame
  at 0x205000 has the stack of the program at 0x206000, with the words 7 and 5 on it.\<close>

definition demo_running_bytes :: "u32 \<Rightarrow> u32 \<Rightarrow> mem" where
  "demo_running_bytes c q = write32 (write32 ((\<lambda>_. 0)(0x20502d := 0x60, 0x20502e := 0x20, 0x206000 := 7, 0x206004 := 5)) 0x202000 c) 0x202034 q"

definition demo_running :: "mem \<Rightarrow> u32 \<Rightarrow> u32 \<Rightarrow> idtstate" where
  "demo_running m c q = (put_kmem (demo_overlay m (demo_running_bytes c q)) demo_system)\<lparr>current_process := q\<rparr>"

lemma callbacks_init: "interrupt_callbacks (kheap_init s) = interrupt_callbacks s"
  using kheap_init_eq [of s] by auto

lemma demo_running_simps [simp]:
  "kmem (demo_running m c q) = demo_overlay m (demo_running_bytes c q)" "current_process (demo_running m c q) = q"
  "current_task (demo_running m c q) = 0x202000" "print_buf_at (demo_running m c q) = 0x208000" "kernel_chunk (demo_running m c q) = 0x209000"
  "video_mem (demo_running m c q) = 0xb8000" "registered (demo_running m c q)" "console_fits (demo_running m c q)"
  "kernel_heap (demo_running m c q) = boot_heap"
proof -
  have "interrupt_callbacks demo_system ! 0x21 = Some Classic_Keyboard_Handle_Interrupt"
    unfolding demo_system_def callbacks_init by simp
  then show "registered (demo_running m c q)" by (simp add: registered_def demo_running_def put_kmem_def)
  show "console_fits (demo_running m c q)" by (simp add: console_fits_def demo_running_def put_kmem_def)
qed (simp_all add: demo_running_def put_kmem_def)

lemma demo_running_task:
  "task_page_directory (kmem (demo_running m c q)) 0x202000 = c" "task_process (kmem (demo_running m c q)) 0x202000 = q"
  "slot (kmem (demo_running m c q)) 0x205000 11 = 0x206000" "read32 (kmem (demo_running m c q)) 0x206000 = 7"
  "read32 (kmem (demo_running m c q)) 0x206004 = 5"
proof -
  let ?f = "demo_running_bytes c q"
  have r: "read32 (demo_overlay m ?f) x = read32 ?f x" if "span x 4 \<subseteq> demo_room" for x
    using that by (intro read32_span) (auto simp: demo_overlay_def)
  have "span 0x202000 4 \<inter> span (0x202034 :: u32) 4 = {}" by (intro span_disjoint) simp_all
  then show "task_page_directory (kmem (demo_running m c q)) 0x202000 = c"
    using r [OF demo_room_span [of "0x202000" 4]] by (simp add: task_page_directory_def demo_running_bytes_def read32_write32_sep)
  show "task_process (kmem (demo_running m c q)) 0x202000 = q"
    using r [OF demo_room_span [of "0x202034" 4]] by (simp add: task_process_def demo_running_bytes_def)
  have far: "read32 ?f x = read32 ((\<lambda>_. 0)(0x20502d := 0x60, 0x20502e := 0x20, 0x206000 := 7, 0x206004 := 5)) x"
    if "0x202038 \<le> unat x" "unat x + 4 \<le> 0x210000" for x :: u32
  proof -
    have "span x 4 \<inter> span 0x202000 4 = {}" "span x 4 \<inter> span 0x202034 4 = {}" using that by (intro span_disjoint_sym; simp)+
    then show ?thesis by (simp add: demo_running_bytes_def read32_write32_sep)
  qed
  show "slot (kmem (demo_running m c q)) 0x205000 11 = 0x206000"
    using r [OF demo_room_span [of "0x20502c" 4]] far [of "0x20502c"] by (simp add: slot_def) (simp add: read32_def)
  show "read32 (kmem (demo_running m c q)) 0x206000 = 7" "read32 (kmem (demo_running m c q)) 0x206004 = 5"
    using r [OF demo_room_span [of "0x206000" 4]] far [of "0x206000"] r [OF demo_room_span [of "0x206004" 4]] far [of "0x206004"]
    by simp_all (simp_all add: read32_def)
qed

lemma heap_cong:
  assumes "kmem s = kmem t" "kernel_heap s = kernel_heap t"
  shows "procs_ok s A P = procs_ok t A P" "chunk_owns s A c d ts = chunk_owns t A c d ts" "kheap_avail s = kheap_avail t"
    "kheap_spare s = kheap_spare t"
  using assms by (simp_all add: procs_ok_def chunk_owns_def kheap_ready_def kheap_avail_def kheap_spare_def kheap_reserved_def)

lemma demo_running_ok:
  obtains m A c d ts q where "system_ok 0x205000 c d ts (demo_running m c q) A {q}" "set (alloc_table (kmem (demo_running m c q)) q) = {0}"
    "1000 \<le> kheap_avail (demo_running m c q)" "\<forall>va. translate (kmem (demo_running m c q)) d va = Some va"
proof -
  obtain m A c d ts q where f: "\<forall>m'. agree_off demo_room m m' \<longrightarrow> demo_space m' A c d ts q" by (rule demo_system_space)
  let ?s = "demo_running m c q"
  define b where "b = kmem ?s"
  have "agree_off demo_room m b" by (simp add: b_def agree_off_def demo_overlay_def)
  then have sp: "demo_space b A c d ts q" using f by blast
  note D = demo_spaceD [OF sp]
  let ?t = "put_kmem b demo_system"
  have kb: "kmem ?s = b" by (simp only: b_def)
  then have e: "kernel_heap ?s = kernel_heap ?t" "kmem ?s = kmem ?t" by simp_all
  note h' = heap_cong [of ?s ?t, OF e(2,1)]
  have h: "procs_ok ?s A {q}" "chunk_owns ?s A c d ts" "kheap_avail ?s = kheap_avail ?t" "kheap_spare ?s = kheap_spare ?t"
    unfolding h' by (rule D(8) D(1) refl)+
  have r: "kheap_ready ?s A" and Aq: "A q = Some 2" using procs_okD(1,2) [OF h(1)] by simp_all
  have room: "span 0x202000 64 \<subseteq> demo_room" "span 0x208000 1024 \<subseteq> demo_room" "span 0x209000 4 \<subseteq> demo_room" "span 0x205000 52 \<subseteq> demo_room"
    by (rule demo_room_span; simp)+
  have vr: "span (0xb8000 :: u32) 3200 \<inter> demo_room = {}" unfolding demo_room_def by (intro span_disjoint) simp_all
  have pg: "space_pages c d ts \<inter> (demo_room \<union> span 0xb8000 3200) = {}" using D(7) unfolding space_pages_def by blast
  have ap: "apart (kernel_areas 0x205000 ?s c d ts)"
  proof -
    have "span 0x202000 64 \<inter> span 0x208000 1024 = {}" "span 0x202000 64 \<inter> span 0x209000 4 = {}" "span 0x202000 64 \<inter> span 0x205000 52 = {}"
      "span 0x208000 1024 \<inter> span (0x209000 :: u32) 4 = {}" by (intro span_disjoint; simp)+
    moreover have "span 0x208000 1024 \<inter> span 0x205000 52 = {}" "span 0x209000 4 \<inter> span (0x205000 :: u32) 52 = {}" by (intro span_disjoint_sym; simp)+
    moreover have "space_pages c d ts \<inter> X = {}" "X \<inter> span 0xb8000 3200 = {}" if "X \<subseteq> demo_room" for X
      using that pg vr by blast+
    note this [OF room(1)] this [OF room(2)] this [OF room(3)] this [OF room(4)]
    moreover have "space_pages c d ts \<inter> span 0xb8000 3200 = {}" using pg by blast
    ultimately show ?thesis unfolding kernel_areas_def by (simp add: Int_commute)
  qed
  have ps: "space_pages c d ts \<inter> kheap_spare ?s = {}" "space_pages c d ts \<inter> span q 8192 = {}"
  proof -
    have "span p 4096 \<inter> kheap_spare ?s = {} \<and> span p 4096 \<inter> span q 8192 = {}" if "p \<in> set (c # d # ts)" for p
    proof -
      have "A p = Some 1" "p \<noteq> q" using chunk_owns_page [OF h(2) that] D(11) that by auto
      then show ?thesis using kh.live_spare [OF r] kh.live_disjoint [OF r _ Aq] by fastforce
    qed
    then show "space_pages c d ts \<inter> kheap_spare ?s = {}" "space_pages c d ts \<inter> span q 8192 = {}" unfolding space_pages_def by blast+
  qed
  have "unat q + 8192 \<le> 4294967296" "0x1000000 \<le> unat q" using kh.live_bounds [OF r Aq] kheap_live_above [OF r Aq] by simp_all
  then have vq: "span (0xb8000 :: u32) 3200 \<inter> span q 8192 = {}" by (intro span_disjoint) simp_all
  have gd: "guarded ?s A {q} (\<Union> (set (kernel_areas 0x205000 ?s c d ts)))"
  proof (intro guardedI)
    have "X \<inter> kheap_spare ?s = {}" "X \<inter> span q 8192 = {}" if "X \<subseteq> demo_room" for X using that D(5,10) unfolding h(4) by blast+
    note d = this [OF room(1)] this [OF room(2)] this [OF room(3)] this [OF room(4)]
    show "\<Union> (set (kernel_areas 0x205000 ?s c d ts)) \<inter> kheap_spare ?s = {}"
      using d ps(1) D(6) [folded h(4)] unfolding kernel_areas_def by (simp add: Int_Un_distrib2)
    show "\<Union> (set (kernel_areas 0x205000 ?s c d ts)) \<inter> span p 8192 = {}" if "p \<in> {q}" for p
      using d ps(2) vq that unfolding kernel_areas_def by (simp add: Int_Un_distrib2)
  qed (use D(13) [folded kb] in auto)
  have "system_ok 0x205000 c d ts ?s A {q}"
    unfolding system_ok_def using h ap gd D(3) [folded kb] demo_running_task [of m c q] by simp
  then show ?thesis using that D(12) D(4,13) [folded kb] h(3) by simp
qed

lemma identity_word:
  assumes "\<forall>va. translate m (task_directory m t) va = Some va" "slot m t 11 = a" "read32 m (a + 4 * word_of_int i) = v"
  shows "stack_word m t i = Some v"
  using assms by (simp add: stack_word_def vread32_def vread_def read32_def)

lemma demo_running_stack:
  assumes "system_ok 0x205000 c d ts (demo_running m c q) A {q}" "\<forall>va. translate (kmem (demo_running m c q)) d va = Some va"
  shows "call_argument 0x205000 (demo_running m c q) = Some 7"
    "stack_word (kmem (entered 0x205000 (demo_running m c q))) 0x202000 1 = Some 5"
proof -
  let ?s = "demo_running m c q" let ?t = "saved 0x205000 ?s" let ?T = "span (0x202000 :: u32) 64"
  note o = system_okD [OF assms(1)] and ct = demo_running_simps(3) [of m c q]
  note sv = system_saved(1,5) [OF assms(1), unfolded ct] and ap = areas_apart(1,6) [OF assms(1), unfolded ct]
  note cov = space_pages_cover [OF o(3)]
  have w: "walk_region (kmem ?s) d \<inter> ?T = {}" using cov(1) ap(1) by blast
  have tr: "translate (kmem ?t) d va = Some va" for va using translate_agree(1) [OF sv(2) w cov(3)] assms(2) by (simp only: simp_thms)
  have td: "task_directory (kmem ?t) 0x202000 = d"
    using system_okD(3) [OF sv(1)] system_okD(7) [OF sv(1), unfolded saved_simps(2) ct] by (simp add: task_directory_def chunk_owns_def del: saved_simps)
  have "span (0x205000 :: u32) 52 \<inter> ?T = {}" using ap(2) by blast
  from task_save_state_spec [of "0x202000" "0x205000" "kmem ?s", simplified, OF this]
  have sp: "slot (kmem ?t) 0x202000 11 = 0x206000" using demo_running_task(3) [of m c q] by (auto simp: saved_registers_def saved_def)
  have r: "read32 (kmem ?t) x = read32 (kmem ?s) x" if "0x202040 \<le> unat x" "unat x \<le> 0x210000" for x
    using that by (intro read32_agree [OF sv(2)] span_disjoint_sym) simp_all
  note id = tr [folded td]
  have "stack_word (kmem ?t) 0x202000 0 = Some 7" "stack_word (kmem ?t) 0x202000 1 = Some 5"
    using identity_word [where i = 0, OF _ sp] identity_word [where i = 1, OF _ sp] id r [of "0x206000"] r [of "0x206004"] demo_running_task(4,5) [of m c q]
    by (simp_all del: saved_simps)
  then show "call_argument 0x205000 ?s = Some 7" "stack_word (kmem (entered 0x205000 ?s)) 0x202000 1 = Some 5"
    by (simp_all add: call_argument_def)
qed

theorem system_calls_answer_witness:
  "\<exists>(s :: idtstate) s' t q. isr80h_handler 0 0x205000 s = Some (12, s') \<and> isr80h_handler 4 0x205000 s = Some (q, t) \<and> q \<noteq> 0 \<and>
     q \<in> set (alloc_table (kmem t) (caller s))"
proof -
  obtain m A c d ts q where s: "system_ok 0x205000 c d ts (demo_running m c q) A {q}" "set (alloc_table (kmem (demo_running m c q)) q) = {0}"
    "1000 \<le> kheap_avail (demo_running m c q)" "\<forall>va. translate (kmem (demo_running m c q)) d va = Some va" by (rule demo_running_ok)
  let ?s = "demo_running m c q"
  note a = demo_running_stack [OF s(1,4)] and ans = system_calls_answer [OF s(1)]
  have rm: "kheap_room ?s (blocks_of 7)" using kh.avail_room [OF procs_okD(1) [OF system_okD(1) [OF s(1)]]] s(3) by simp
  have tp: "task_process (kmem ?s) (current_task ?s) = q" using demo_running_task(2) by simp
  have z: "0 \<in> set (alloc_table (kmem ?s) (caller ?s))" unfolding tp using s(2) by simp
  have "\<exists>s'. isr80h_handler 0 0x205000 ?s = Some (7 + 5, s')" using conjunct1 [OF ans] a by auto
  moreover have "\<exists>q t. isr80h_handler 4 0x205000 ?s = Some (q, t) \<and> q \<noteq> 0 \<and> q \<in> set (alloc_table (kmem t) (caller ?s))"
  proof -
    have "(7 :: u32) \<noteq> 0" "unat (7 :: u32) \<le> 4294963200" by simp_all
    with ans a(1) rm have "\<exists>q s'. isr80h_handler 4 0x205000 ?s = Some (if 0 \<in> set (alloc_table (kmem ?s) (caller ?s)) then q else 0, s') \<and>
        (0 \<in> set (alloc_table (kmem ?s) (caller ?s)) \<longrightarrow> q \<noteq> 0 \<and> q \<in> set (alloc_table (kmem s') (caller ?s)))" by blast
    then show ?thesis unfolding if_P [OF z] using z by blast
  qed
  ultimately show ?thesis by auto
qed

text \<open>A key is pressed, and the program asks for it.\<close>

theorem system_runs_well_formed_witness:
  "\<exists>(s :: idtstate) s' c d ts A A' q. system_ok 0x205000 c d ts s A {q} \<and> system_ok 0x205000 c d ts s' A' {q} \<and>
     (\<exists>t r. interrupt_handler (\<lambda>_ _. 0x1e) 0x21 0x205000 s = Some t \<and> isr80h_handler 2 0x205000 t = Some (r, s'))"
proof -
  obtain m A c d ts q where s: "system_ok 0x205000 c d ts (demo_running m c q) A {q}" by (rule demo_running_ok)
  let ?dev = "\<lambda>_ _. 0x1e" and ?s = "demo_running m c q"
  obtain t where t: "interrupt_handler ?dev 0x21 0x205000 ?s = Some t" "system_ok 0x205000 c d ts t A {q}" by (rule key_step [OF s])
  have "isr80h_handler 2 0x205000 t \<noteq> None"
    using handler_entered [OF system_okD(5) [OF t(2)]] system_okD(2) [OF t(2)]
    by (simp add: registered_def isr80h_handle_command_def isr80h_command2_getkey_def split: prod.splits)
  then obtain r u where u: "isr80h_handler 2 0x205000 t = Some (r, u)" by auto
  have "(system_step ?dev 0x205000 c d ts {q})\<^sup>*\<^sup>* ?s u"
    using system_step.key [OF t(1)] system_step.getkey [OF u] by (meson rtranclp.rtrancl_into_rtrancl rtranclp.rtrancl_refl)
  from system_runs_well_formed [OF this s] show ?thesis using s t(1) u by blast
qed

text \<open>A process with two blocks writes into the first.\<close>

theorem system_runs_isolated_witness:
  "\<exists>(s :: idtstate) A' c d ts q a b. kmem s a = 0x41 \<and> a \<in> set (alloc_table (kmem s) q) \<and> b \<in> set (alloc_table (kmem s) q) \<and> a \<noteq> b \<and>
     (\<exists>n k. A' a = Some n \<and> A' b = Some k \<and> span a (n * 4096) \<inter> span b (k * 4096) = {} \<and> span a (n * 4096) \<inter> kernel_only c d ts {q} s = {})"
proof -
  obtain m A c d ts q where s: "system_ok 0x205000 c d ts (demo_running m c q) A {q}" "set (alloc_table (kmem (demo_running m c q)) q) = {0}"
    "1000 \<le> kheap_avail (demo_running m c q)" by (rule demo_running_ok)
  have rm: "kheap_room t (blocks_of 100)" if "system_ok 0x205000 c d ts t B {q}" "0 < kheap_avail t" for t :: idtstate and B
    using kh.avail_room [OF procs_okD(1) [OF system_okD(1) [OF that(1)]] that(2)] by simp
  have c: "q \<in> {q}" "(100 :: u32) \<noteq> 0" "unat (100 :: u32) \<le> 4294963200" by simp_all
  have av: "0 < kheap_avail (demo_running m c q)" using s(3) by simp
  have z: "0 \<in> set (alloc_table (kmem (demo_running m c q)) q)" using s(2) by simp
  obtain i a t where a: "process_malloc q 100 (demo_running m c q) = (a, t)" "a \<noteq> 0" "A a = None"
    "system_ok 0x205000 c d ts t (A(a \<mapsto> blocks_of 100)) {q}" "i < 1024" "alloc_table (kmem (demo_running m c q)) q ! i = 0"
    "alloc_table (kmem t) q = (alloc_table (kmem (demo_running m c q)) q)[i := a]" "kheap_avail t + blocks_of 100 = kheap_avail (demo_running m c q)"
    by (rule process_malloc_ok [OF s(1) c rm [OF s(1) av] z])
  have av2: "0 < kheap_avail t" using a(8) s(3) by simp
  have "alloc_table (kmem t) q ! (if i = 0 then 1 else 0) = 0"
    unfolding a(7) using s(2) nth_mem [of "if i = 0 then 1 else 0" "alloc_table (kmem (demo_running m c q)) q"] a(5) by auto
  then have z2: "0 \<in> set (alloc_table (kmem t) q)" using nth_mem [of "if i = 0 then 1 else 0" "alloc_table (kmem t) q"] by (auto split: if_splits)
  obtain j b u where b: "process_malloc q 100 t = (b, u)" "b \<noteq> 0" "(A(a \<mapsto> blocks_of 100)) b = None" "system_ok 0x205000 c d ts u (A(a \<mapsto> blocks_of 100, b \<mapsto> blocks_of 100)) {q}" "j < 1024"
    "alloc_table (kmem t) q ! j = 0" "alloc_table (kmem u) q = (alloc_table (kmem t) q)[j := b]"
    "kheap_avail u + blocks_of 100 = kheap_avail t"
    by (rule process_malloc_ok [OF a(4) c rm [OF a(4) av2] z2])
  have "i \<noteq> j" using a(2,5,7) b(6) by auto
  then have "alloc_table (kmem u) q ! i = a" "alloc_table (kmem u) q ! j = b" using a(5,7) b(5,7) by simp_all
  then have ab: "a \<in> set (alloc_table (kmem u) q)" "b \<in> set (alloc_table (kmem u) q)" "a \<noteq> b"
    using a(3,5) b(3,5) nth_mem [of i "alloc_table (kmem u) q"] nth_mem [of j "alloc_table (kmem u) q"] by auto
  let ?v = "put_kmem ((kmem u)(a := 0x41)) u" and ?dev = "\<lambda>_ _. 0"
  note iso = system_runs_isolated [OF _ b(4) c(1) c(1) _ _ a(2) b(2) disjI2 [OF ab(3)]]
  obtain A1 n1 where l: "A1 a = Some n1" "kheap_ready u A1" "span a (n1 * 4096) \<inter> kernel_only c d ts {q} u = {}"
    using iso [OF rtranclp.rtrancl_refl ab(1,2)] by auto
  have "a \<in> span a (n1 * 4096)" by (rule span_base_in) (use kh.live_bounds [OF l(2,1)] in simp)
  then have w: "{a} \<inter> kernel_only c d ts {q} u = {}" using l(3) by blast
  have st: "system_step ?dev 0x205000 c d ts {q} u ?v"
    by (rule system_step.program [OF _ w]) (simp add: agree_off_def)
  have tb: "alloc_table (kmem ?v) q = alloc_table (kmem u) q"
    by (rule alloc_table_agree [OF procs_okD(1,2) [OF system_okD(1) [OF b(4)]], OF c(1), of "{a}"]) (use w in \<open>auto simp: agree_off_def kernel_only_def\<close>)
  have "(system_step ?dev 0x205000 c d ts {q})\<^sup>*\<^sup>* u ?v" using st by (rule r_into_rtranclp)
  from iso [OF this] ab tb obtain A' n k where "A' a = Some n" "A' b = Some k" "span a (n * 4096) \<inter> span b (k * 4096) = {}"
    "span a (n * 4096) \<inter> kernel_only c d ts {q} ?v = {}"
    by (auto simp: Int_Un_distrib)
  then show ?thesis using ab tb by (intro exI [of _ ?v] exI [of _ A'] exI [of _ c] exI [of _ d] exI [of _ ts] exI [of _ q] exI [of _ a] exI [of _ b]) simp
qed

end
