(* ===== verification/UserInterrupts.thy ===== *)
theory UserInterrupts
  imports UserCalls
begin

text \<open>Interrupts of a running program: the entry stub of \<^verbatim>\<open>src/idt/idt.asm\<close> around the handler of \<open>Interrupts\<close>, on
  the machine of \<open>UserCalls\<close> that also runs the program. A key press is shown to be invisible to the program it
  interrupts: it changes the keyboard buffer, and the program's registers and address space are as before. The program
  then gets the key by the \<^verbatim>\<open>getkey\<close> routine of \<^verbatim>\<open>programs/stdlib/src/peachos.asm\<close>.\<close>

section \<open>Leaving the kernel\<close>

lemma interrupt_leaves:
  assumes "stack_at (kmem s) (cr3 s) kb kb 15" "\<forall>i \<in> {2..<15}. slot (kmem s) kb i = rev (entry_words kb n r) ! i"
  shows "run out [ADD_IMM ESP 8, POPAD, IRETD] (r1\<lparr>uc_esp := kb, uc_eax := res\<rparr>, s) = Some (r, s)"
proof -
  let ?w = "rev (entry_words kb n r)"
  have p8: "pop_all 8 (r0, s) = Some (map ((!) ?w) [2..<10], (r0\<lparr>uc_esp := kb + 40\<rparr>, s))" if "uc_esp r0 = kb + 8" for r0
    using pop_all_stack [of s kb kb 15 2 8 r0] assms that by simp
  have p5: "pop_all 5 (r0, s) = Some (map ((!) ?w) [10..<15], (r0\<lparr>uc_esp := kb + 60\<rparr>, s))" if "uc_esp r0 = kb + 40" for r0
    using pop_all_stack [of s kb kb 15 10 5 r0] assms that by simp
  show ?thesis by (simp add: p8 p5) (simp add: entry_words_def upt_rec)
qed

text \<open>The kernel's stack below \<open>kb + 60\<close> is where the task state segment says, and both are mapped to themselves.\<close>

definition kernel_stack :: "u32 \<Rightarrow> u32 \<Rightarrow> mem \<Rightarrow> u32 \<Rightarrow> bool" where
  "kernel_stack tss kb m d \<longleftrightarrow> stack_at m d kb kb 15 \<and> stack_at m d tss tss 3 \<and> slot m tss 1 = kb + 60"

text \<open>An interrupt whose handler leaves the kernel's stack, the page tables and the loaded address space alone returns to the
  program with every register as it was.\<close>

lemma interrupt_returns:
  assumes "kernel_stack tss kb (kmem s) (cr3 s)" "n < 512" "m = entry_mem kb (word_of_nat n) r (kmem s)"
    and "interrupt_handler dev n (kb + 8) (put_kmem m s) = Some s1"
    and "agree_off S m (kmem s1)" "cr3 s1 = cr3 s" "(walk_region (kmem s) (cr3 s) \<union> span kb 60) \<inter> S = {}"
  shows "raise_interrupt dev tss n (r, s) = Some (r, s1)"
proof -
  let ?n = "word_of_nat n :: u32" let ?f = "\<lambda>i frame s. map_option (Pair (0 :: u32)) (interrupt_handler dev (unat (i :: u32)) frame s)"
  note t = assms(1) [unfolded kernel_stack_def]
  have n: "unat ?n = n" using assms(2) by (simp add: unat_of_nat)
  have k: "unat kb + 60 \<le> 4294967296" "walk_region (kmem s) (cr3 s) \<inter> span kb 60 = {}" "unat (cr3 s) mod 4096 = 0"
    using t by (simp_all add: stack_at_def)
  note tm = entry_mem_spec [OF k(1), where n = ?n and r = r and m = "kmem s", folded assms(3)]
  have ld: "load (tss + 4) (r, s) = Some (kb + 60)" "load (tss + 8) (r, s) = Some (slot (kmem s) tss 2)"
    using t stack_load [of "kmem s" "cr3 s" tss tss 3 1] stack_load [of "kmem s" "cr3 s" tss tss 3 2] by (simp_all add: load_def)
  have "?f ?n (kb + 8) (put_kmem (entry_mem kb ?n r (kmem s)) s) = Some (0, s1)" using assms(3,4) n by simp
  from kernel_entered [where f = ?f and n = ?n, OF conjunct1 [OF t] ld this disjI2 [OF refl], of "[ADD_IMM ESP 8, POPAD, IRETD]"]
  obtain r1 where r1: "raise_interrupt dev tss n (r, s) = run (call_c ?f) [ADD_IMM ESP 8, POPAD, IRETD] (r1\<lparr>uc_esp := kb, uc_eax := 0\<rparr>, s1)"
    unfolding raise_interrupt_def interrupt_entry_def by blast
  have w: "walk_region m (cr3 s) \<inter> S = {}" using walk_region_agree [OF tm(1) k(2,3)] assms(7) by blast
  have st: "stack_at (kmem s1) (cr3 s1) kb kb 15"
    using stack_agree [OF stack_entry_mem [OF conjunct1 [OF t]] assms(5) [unfolded assms(3)]] w by (simp add: assms(3,6))
  have "span kb 60 \<inter> S = {}" using assms(7) by blast
  then have "slot (kmem s1) kb i = rev (entry_words kb ?n r) ! i" if "i < 15" for i
    using slot_agree [of kb 15 i, OF _ that assms(5)] k(1) tm(2) [OF that] by simp
  then have "\<forall>i \<in> {2..<15}. slot (kmem s1) kb i = rev (entry_words kb ?n r) ! i" by simp
  from interrupt_leaves [OF st this] show ?thesis unfolding r1 .
qed

section \<open>A key press under a running program\<close>

lemma key_press_effect:
  assumes "keyboard_holds p s q" "length q < 1024" "interrupt_callbacks s ! 0x21 = Some Classic_Keyboard_Handle_Interrupt"
    and "scancode = ucast (dev (iolog s) 0x60)" "c = classic_keyboard_scancode_to_char (scan_set_one_next s) scancode"
    and "kernel_stack tss kb (kmem s) (cr3 s)" "cr3 s = task_directory (kmem s) (current_task s)" "unat (current_task s) + 64 \<le> 4294967296"
    and "apart [walk_region (kmem s) (cr3 s) \<union> span (task_page_directory (kmem s) (current_task s)) 4, span (current_task s) 64,
      span kb 60, span (p + 4228) 1032]"
  shows "\<exists>s'. raise_interrupt dev tss 0x21 (r, s) = Some (r, s') \<and>
    keyboard_holds p s' (if scancode AND 0x80 = 0 \<and> c \<noteq> 0 then q @ [c] else q) \<and> cr3 s' = cr3 s \<and>
    (\<forall>va. translate (kmem s') (cr3 s) va = translate (kmem s) (cr3 s) va) \<and>
    agree_off (span kb 60 \<union> span (current_task s) 64 \<union> span (p + 4228) 1032) (kmem s) (kmem s') \<and>
    current_task s' = current_task s \<and> isr80h_commands s' = isr80h_commands s \<and>
    task_page_directory (kmem s') (current_task s) = task_page_directory (kmem s) (current_task s) \<and> data_segments s' = 0x23"
proof -
  let ?t = "current_task s" and ?D = "span (task_page_directory (kmem s) (current_task s)) 4" and ?K = "span (p + 4228) 1032" and ?W = "walk_region (kmem s) (cr3 s)"
  define m where "m = entry_mem kb (word_of_nat 0x21) r (kmem s)"
  let ?s0 = "put_kmem m s" and ?S = "span ?t 64 \<union> ?K"
  note ks = assms(6) [unfolded kernel_stack_def]
  have kb: "unat kb + 60 \<le> 4294967296" "unat (cr3 s) mod 4096 = 0" using ks by (simp_all add: stack_at_def)
  have D: "(?W \<union> ?D) \<inter> span ?t 64 = {}" "(?W \<union> ?D) \<inter> span kb 60 = {}" "(?W \<union> ?D) \<inter> ?K = {}" "span ?t 64 \<inter> span kb 60 = {}"
    "span ?t 64 \<inter> ?K = {}" "span kb 60 \<inter> ?K = {}" using assms(9) by simp_all
  have a0: "agree_off (span kb 60) (kmem s) m" unfolding m_def by (rule entry_mem_spec(1) [OF kb(1)])
  note tk = task_words_kept [OF a0 D(4)]
  have h0: "keyboard_holds p ?s0 q"
    using assms(1) tk(2) kb_queue_agree [OF _ a0, of p q] D(6) by (simp add: keyboard_holds_def Int_commute)
  have kb8: "unat (kb + 8) = unat kb + 8" using kb(1) by (simp add: unat_word_ariths)
  have "span (kb + 8) 52 \<subseteq> span kb 60" using kb8 kb(1) by (intro span_subset) simp_all
  then have fr: "frame_fits p (current_task ?s0) (kb + 8)" using kb8 kb(1) assms(8) D(4,5) by (auto simp: frame_fits_def)
  have e0: "interrupt_callbacks ?s0 ! 0x21 = Some Classic_Keyboard_Handle_Interrupt" "scancode = ucast (dev (iolog ?s0) 0x60)"
    "c = classic_keyboard_scancode_to_char (scan_set_one_next ?s0) scancode" using assms(3-5) by (simp_all add: put_kmem_def)
  obtain s1 where s1: "interrupt_handler dev 0x21 (kb + 8) ?s0 = Some s1"
    "keyboard_holds p s1 (if scancode AND 0x80 = 0 \<and> c \<noteq> 0 then q @ [c] else q)" "current_task s1 = current_task ?s0" "isr80h_commands s1 = isr80h_commands ?s0"
    "cr3 s1 = task_directory (kmem s1) (current_task s1)" "task_page_directory (kmem s1) (current_task ?s0) = task_page_directory (kmem ?s0) (current_task ?s0)"
    "agree_off (span (current_task ?s0) 64 \<union> ?K) (kmem ?s0) (kmem s1)" "data_segments s1 = 0x23"
    using key_interrupt_effect [where dev = dev, OF h0 fr assms(2) e0] by (elim exE conjE) (rule that, assumption+)
  have a1: "agree_off ?S m (kmem s1)" using s1(7) by simp
  have a: "agree_off (span kb 60 \<union> ?S) (kmem s) (kmem s1)" by (rule agree_off_trans [OF a0 a1])
  have "directory_entry (kmem s1) (task_page_directory (kmem s) ?t) = directory_entry (kmem s) (task_page_directory (kmem s) ?t)"
    unfolding directory_entry_def by (rule read32_agree [OF a]) (use D in blast)
  then have cr: "cr3 s1 = cr3 s" using s1(3,5,6) tk(1) assms(7) by (simp add: task_directory_def)
  have "raise_interrupt dev tss 0x21 (r, s) = Some (r, s1)"
    by (rule interrupt_returns [OF assms(6) _ m_def s1(1) a1 cr]) (use D in \<open>auto\<close>)
  moreover have "translate (kmem s1) (cr3 s) va = translate (kmem s) (cr3 s) va" for va
    by (rule translate_agree(1) [OF a _ kb(2)]) (use D in blast)
  ultimately show ?thesis using s1(2-4,6,8) tk(1) cr a by (intro exI [of _ s1]) (simp add: Un_assoc)
qed

text \<open>C14: An interrupt is transparent to the program: a key is pressed while a program runs in the address
  space of the current task. The processor enters the kernel, the handler puts the key's character into the keyboard
  buffer of the current process and the program goes on with every register as it was, the flags, the stack and the
  instruction pointer included, with the user's selector in the data segment registers, as a running program has it,
  and in the same address space, in which every address is translated as before; memory is changed only in the
  kernel's stack, the task structure and that keyboard buffer.\<close>

theorem key_press_transparent:
  assumes "keyboard_holds p s q" "length q < 1024" "interrupt_callbacks s ! 0x21 = Some Classic_Keyboard_Handle_Interrupt"
    and "scancode = ucast (dev (iolog s) 0x60)" "c = classic_keyboard_scancode_to_char (scan_set_one_next s) scancode"
    and "kernel_stack tss kb (kmem s) (cr3 s)" "cr3 s = task_directory (kmem s) (current_task s)" "unat (current_task s) + 64 \<le> 4294967296"
    and "apart [walk_region (kmem s) (cr3 s) \<union> span (task_page_directory (kmem s) (current_task s)) 4, span (current_task s) 64,
      span kb 60, span (p + 4228) 1032]"
  shows "\<exists>s'. raise_interrupt dev tss 0x21 (r, s) = Some (r, s') \<and>
    keyboard_holds p s' (if scancode AND 0x80 = 0 \<and> c \<noteq> 0 then q @ [c] else q) \<and> cr3 s' = cr3 s \<and> data_segments s' = 0x23 \<and>
    (\<forall>va. translate (kmem s') (cr3 s) va = translate (kmem s) (cr3 s) va) \<and>
    agree_off (span kb 60 \<union> span (current_task s) 64 \<union> span (p + 4228) 1032) (kmem s) (kmem s')"
  using key_press_effect [where dev = dev and r = r, OF assms] by (elim exE conjE) (intro exI conjI, assumption+)

section \<open>Asking for a key\<close>

text \<open>A program of the current task about to call \<^verbatim>\<open>getkey\<close>, where \<open>p\<close> is its process: its address space is loaded, the two
  words of its stack that the routine uses and what the trap uses are mapped, and these parts of memory are apart.\<close>

definition key_setting :: "u32 \<Rightarrow> u32 \<Rightarrow> u32 \<Rightarrow> u32 \<Rightarrow> u32 \<Rightarrow> u32 \<Rightarrow> 'z idtstate_scheme \<Rightarrow> bool" where
  "key_setting p tss tmp kb va pa s \<longleftrightarrow> trap_ready tss tmp kb (kmem s) (cr3 s) \<and> cr3 s = task_directory (kmem s) (current_task s) \<and>
     unat (current_task s) + 64 \<le> 4294967296 \<and> stack_at (kmem s) (cr3 s) va pa 2 \<and> isr80h_commands s ! 2 = Some Command2_Getkey \<and>
     apart [walk_region (kmem s) (cr3 s) \<union> span (task_page_directory (kmem s) (current_task s)) 4, span (current_task s) 64,
       span kb 60, span (p + 4228) 1032, span tmp 4, span tss 12, span pa 8]"

lemma key_settingD:
  assumes "key_setting p tss tmp kb va pa s"
  shows "trap_ready tss tmp kb (kmem s) (cr3 s)" "cr3 s = task_directory (kmem s) (current_task s)"
    "unat (current_task s) + 64 \<le> 4294967296" "stack_at (kmem s) (cr3 s) va pa 2" "isr80h_commands s ! 2 = Some Command2_Getkey"
    "apart [walk_region (kmem s) (cr3 s) \<union> span (task_page_directory (kmem s) (current_task s)) 4, span (current_task s) 64,
       span kb 60, span (p + 4228) 1032, span tmp 4, span tss 12, span pa 8]"
    "unat kb + 60 \<le> 4294967296" "unat pa + 8 \<le> 4294967296" "unat (cr3 s) mod 4096 = 0"
proof -
  show "trap_ready tss tmp kb (kmem s) (cr3 s)" "stack_at (kmem s) (cr3 s) va pa 2" using assms unfolding key_setting_def by blast+
  then show "unat kb + 60 \<le> 4294967296" "unat pa + 8 \<le> 4294967296" "unat (cr3 s) mod 4096 = 0"
    unfolding trap_ready_def stack_at_def by simp_all
qed (use assms in \<open>unfold key_setting_def, blast+\<close>)

lemma directory_agree:
  assumes "agree_off S m m'" "task_page_directory m' t = task_page_directory m t" "span (task_page_directory m t) 4 \<inter> S = {}"
  shows "task_directory m' t = task_directory m t"
  using read32_agree [OF assms(1,3)] assms(2) by (simp add: task_directory_def directory_entry_def)

text \<open>What the trap, the handlers and the routine write leaves the setting as it is.\<close>

definition key_writes :: "u32 \<Rightarrow> u32 \<Rightarrow> u32 \<Rightarrow> 'z idtstate_scheme \<Rightarrow> u32 set" where
  "key_writes p tmp kb s = span kb 60 \<union> span (current_task s) 64 \<union> span (p + 4228) 1032 \<union> span tmp 4"

lemma key_setting_kept:
  assumes "key_setting p tss tmp kb va pa s" "agree_off (key_writes p tmp kb s \<union> span pa 8) (kmem s) (kmem s')"
    "current_task s' = current_task s" "isr80h_commands s' = isr80h_commands s" "cr3 s' = cr3 s"
    "task_page_directory (kmem s') (current_task s) = task_page_directory (kmem s) (current_task s)"
  shows "key_setting p tss tmp kb va pa s'"
proof -
  note k = key_settingD [OF assms(1)] and a = assms(2)
  let ?W = "walk_region (kmem s) (cr3 s)" and ?D = "span (task_page_directory (kmem s) (current_task s)) 4"
  let ?S = "key_writes p tmp kb s \<union> span pa 8"
  have D: "?W \<inter> ?S = {}" "?D \<inter> ?S = {}" "span tss 12 \<inter> ?S = {}"
    using k(6) unfolding key_writes_def by (simp_all add: Int_Un_distrib Int_Un_distrib2 Int_commute)
  have w: "walk_region (kmem s') (cr3 s) = ?W" by (rule walk_region_agree [OF a D(1) k(9)])
  have "trap_ready tss tmp kb (kmem s') (cr3 s)" using D(1,3) by (intro trap_ready_agree [OF k(1) a]) blast
  moreover have "stack_at (kmem s') (cr3 s) va pa 2" by (rule stack_agree [OF k(4) a D(1)])
  moreover have "cr3 s = task_directory (kmem s') (current_task s)" using directory_agree [OF a assms(6) D(2)] k(2) by simp
  ultimately show "key_setting p tss tmp kb va pa s'" using k(3,5,6) w assms(3-6) unfolding key_setting_def by simp
qed

lemma key_setting_slots:
  assumes "key_setting p tss tmp kb va pa s" "agree_off (key_writes p tmp kb s) (kmem s) m" "i < 2"
  shows "slot m pa i = slot (kmem s) pa i"
proof -
  note k = key_settingD [OF assms(1)]
  have "span pa 8 \<inter> key_writes p tmp kb s = {}" using k(6) unfolding key_writes_def by (simp add: Int_Un_distrib Int_commute)
  then show ?thesis using slot_agree [of pa 2 i, OF _ assms(3,2)] k(8) by simp
qed

text \<open>The getkey call from the trap to the return into the routine.\<close>

lemma getkey_trap:
  assumes "keyboard_holds p s q" "key_setting p tss tmp kb va pa s" "uc_eax r = 2" "res = (if q = [] then 0 else scast (hd q))"
  shows "\<exists>s'. int80 tss tmp (r, s) = Some (r\<lparr>uc_eax := res\<rparr>, s') \<and> keyboard_holds p s' (tl q) \<and> cr3 s' = cr3 s \<and>
    agree_off (key_writes p tmp kb s) (kmem s) (kmem s') \<and> data_segments s' = 0x23"
proof -
  note k = key_settingD [OF assms(2)]
  let ?t = "current_task s" and ?K = "span (p + 4228) 1032" and ?W = "walk_region (kmem s) (cr3 s)"
  let ?D = "span (task_page_directory (kmem s) (current_task s)) 4" and ?S = "span (current_task s) 64 \<union> span (p + 4228) 1032"
  define m where "m = trap_mem kb r (kmem s)"
  have D: "(?W \<union> ?D) \<inter> span ?t 64 = {}" "(?W \<union> ?D) \<inter> span kb 60 = {}" "(?W \<union> ?D) \<inter> ?K = {}" "span ?t 64 \<inter> span kb 60 = {}"
    "span ?t 64 \<inter> ?K = {}" "span kb 60 \<inter> ?K = {}" "?K \<inter> span tmp 4 = {}" "span ?t 64 \<inter> span tmp 4 = {}" using k(6) by simp_all
  have a0: "agree_off (span kb 60) (kmem s) m" unfolding m_def by (rule entry_mem_spec(1) [OF k(7)])
  note tk = task_words_kept [OF a0 D(4)]
  have h0: "keyboard_holds p (put_kmem m s) q"
    using assms(1) tk(2) kb_queue_agree [OF _ a0, of p q] D(6) by (simp add: keyboard_holds_def Int_commute)
  have kb8: "unat (kb + 8) = unat kb + 8" using k(7) by (simp add: unat_word_ariths)
  have "span (kb + 8) 52 \<subseteq> span kb 60" using kb8 k(7) by (intro span_subset) simp_all
  then have fr: "frame_fits p (current_task (put_kmem m s)) (kb + 8)" using kb8 k(3,7) D(4,5) by (auto simp: frame_fits_def)
  have cm: "isr80h_commands (put_kmem m s) ! 2 = Some Command2_Getkey" using k(5) by simp
  obtain s1 where s1: "isr80h_handler 2 (kb + 8) (put_kmem m s) = Some (res, s1)" "keyboard_holds p s1 (tl q)"
    "current_task s1 = current_task (put_kmem m s)" "cr3 s1 = task_directory (kmem s1) (current_task s1)"
    "task_page_directory (kmem s1) (current_task (put_kmem m s)) = task_page_directory (kmem (put_kmem m s)) (current_task (put_kmem m s))"
    "agree_off (span (current_task (put_kmem m s)) 64 \<union> ?K) (kmem (put_kmem m s)) (kmem s1)" "data_segments s1 = 0x23"
    using getkey_effect [OF h0 fr cm, folded assms(4)] by (elim exE conjE) (rule that, assumption+)
  have a1: "agree_off ?S m (kmem s1)" using s1(6) by simp
  have a: "agree_off (span kb 60 \<union> ?S) (kmem s) (kmem s1)" by (rule agree_off_trans [OF a0 a1])
  have "task_page_directory (kmem s1) ?t = task_page_directory (kmem s) ?t" using s1(5) tk(1) by simp
  then have cr: "cr3 s1 = cr3 s" using directory_agree [OF a] D s1(3,4) k(2) by (simp add: Int_Un_distrib Int_Un_distrib2)
  have "int80 tss tmp (r, s) = Some (r\<lparr>uc_eax := res\<rparr>, put_kmem (write32 (kmem s1) tmp res) s1)"
    by (rule int80_frame [OF k(1) _ a1 [unfolded m_def] cr]) (use s1(1) assms(3) D in \<open>auto simp: m_def\<close>)
  moreover have "keyboard_holds p (put_kmem (write32 (kmem s1) tmp res) s1) (tl q)"
  proof -
    have "span (current_task s1) 64 \<inter> span tmp 4 = {}" using s1(3) D(8) by simp
    from task_words_kept(2) [OF write32_agree this] show ?thesis
      using s1(2) kb_queue_agree [OF _ write32_agree D(7)] by (simp add: keyboard_holds_def)
  qed
  moreover have "agree_off (span kb 60 \<union> ?S \<union> span tmp 4) (kmem s) (write32 (kmem s1) tmp res)"
    by (rule agree_off_trans [OF a write32_agree])
  ultimately show ?thesis using cr s1(7) by (intro exI [of _ "put_kmem (write32 (kmem s1) tmp res) s1"]) (simp add: Un_assoc key_writes_def put_kmem_def)
qed

text \<open>The routine around it.\<close>

lemma getkey_routine:
  assumes "keyboard_holds p s q" "key_setting p tss tmp kb va pa s" "uc_esp r = va + 4" "res = (if q = [] then 0 else scast (hd q))"
  shows "\<exists>s'. run (int80 tss tmp) getkey_stub (r, s) = Some (r\<lparr>uc_eax := res, uc_esp := va + 8, uc_ip := slot (kmem s) pa 1\<rparr>, s') \<and>
    keyboard_holds p s' (tl q) \<and> cr3 s' = cr3 s \<and> agree_off (key_writes p tmp kb s \<union> span pa 8) (kmem s) (kmem s') \<and> data_segments s' = 0x23"
proof -
  note k = key_settingD [OF assms(2)]
  let ?s = "put_kmem (set_slot (kmem s) pa 0 (uc_ebp r)) s" and ?r = "r\<lparr>uc_esp := va, uc_ebp := va, uc_eax := 2\<rparr>"
  have b: "unat pa + 4 * 2 \<le> 4294967296" using k(8) by simp
  have a: "agree_off (span pa 8) (kmem s) (kmem ?s)" using set_slot_agree [OF b, of 0] by simp
  have p: "push (uc_ebp r) (r, s) = Some (r\<lparr>uc_esp := va\<rparr>, ?s)" using push_stack [OF k(4), of 0 r] assms(3) by simp
  have D: "span (current_task s) 64 \<inter> span pa 8 = {}" "span (p + 4228) 1032 \<inter> span pa 8 = {}" using k(6) by simp_all
  note tk = task_words_kept [OF a D(1)]
  have c: "cr3 ?s = cr3 s" by (simp add: put_kmem_def)
  have ks: "key_setting p tss tmp kb va pa ?s"
    by (rule key_setting_kept [OF assms(2) agree_off_mono [OF a]]) (use tk c in simp_all)
  have h: "keyboard_holds p ?s q" using assms(1) tk(2) kb_queue_agree [OF _ a D(2)] by (simp add: keyboard_holds_def)
  obtain s' where s': "int80 tss tmp (?r, ?s) = Some (?r\<lparr>uc_eax := res\<rparr>, s')" "keyboard_holds p s' (tl q)" "cr3 s' = cr3 ?s"
    "agree_off (key_writes p tmp kb ?s) (kmem ?s) (kmem s')" "data_segments s' = 0x23"
    using getkey_trap [OF h ks _ assms(4), of ?r] by auto
  have kw: "key_writes p tmp kb ?s = key_writes p tmp kb s" by (simp add: key_writes_def)
  note sl = key_setting_slots [OF ks s'(4)]
  have v: "slot (kmem s') pa 0 = uc_ebp r" "slot (kmem s') pa 1 = slot (kmem s) pa 1"
    using sl [of 0] sl [of 1] slot_set_slot [OF b, of 0 0] slot_set_slot [OF b, of 0 1] by simp_all
  have "walk_region (kmem ?s) (cr3 s) \<inter> key_writes p tmp kb s = {}"
    using key_settingD(6) [OF ks] c by (simp add: key_writes_def Int_Un_distrib Int_Un_distrib2)
  then have st: "stack_at (kmem s') (cr3 s') va pa 2"
    using stack_agree [OF key_settingD(4) [OF ks] s'(4)] s'(3) c kw by simp
  have l: "load va (r0, s') = Some (uc_ebp r)" "load (va + 4) (r0, s') = Some (slot (kmem s) pa 1)" for r0
    using stack_load [OF st, of 0] stack_load [OF st, of 1] v by (simp_all add: load_def)
  have "run (int80 tss tmp) getkey_stub (r, s) = Some (r\<lparr>uc_eax := res, uc_esp := va + 8, uc_ip := slot (kmem s) pa 1\<rparr>, s')"
    by (simp add: getkey_stub_def p s'(1) l)
  moreover have "agree_off (key_writes p tmp kb s \<union> span pa 8) (kmem s) (kmem s')"
    using agree_off_trans [OF a s'(4)] kw by (simp add: Un_commute)
  ultimately show ?thesis using s'(2,3,5) c by (intro exI [of _ s']) simp
qed

text \<open>C13: From the keyboard to a program: a key is pressed while a program is about to call
  \<^verbatim>\<open>getkey\<close>. The interrupt queues the key's character behind those typed before and leaves the
  program as it was; the routine of the library traps, the kernel takes the oldest character out of the buffer of the
  program's process, and the routine returns to its caller with that character, sign-extended, in
  \<^verbatim>\<open>eax\<close>, the return address popped, and every other register, the flags included, as before,
  the user's selector in the data segment registers and the program's address space loaded.\<close>

theorem typed_key_reaches_program:
  assumes "keyboard_holds p s q" "length q < 1024" "interrupt_callbacks s ! 0x21 = Some Classic_Keyboard_Handle_Interrupt"
    and "scancode = ucast (dev (iolog s) 0x60)" "c = classic_keyboard_scancode_to_char (scan_set_one_next s) scancode"
    and "scancode AND 0x80 = 0" "c \<noteq> 0" "key_setting p tss tmp kb va pa s" "uc_esp r = va + 4"
  shows "\<exists>s' s''. raise_interrupt dev tss 0x21 (r, s) = Some (r, s') \<and>
    run (int80 tss tmp) getkey_stub (r, s') =
      Some (r\<lparr>uc_eax := scast (hd (q @ [c])), uc_esp := va + 8, uc_ip := slot (kmem s) pa 1\<rparr>, s'') \<and>
    keyboard_holds p s'' (tl (q @ [c])) \<and> cr3 s'' = cr3 s \<and> data_segments s' = 0x23 \<and> data_segments s'' = 0x23"
proof -
  note k = key_settingD [OF assms(8)]
  have ks: "kernel_stack tss kb (kmem s) (cr3 s)" using k(1) by (simp add: trap_ready_def kernel_stack_def)
  have ap: "apart [walk_region (kmem s) (cr3 s) \<union> span (task_page_directory (kmem s) (current_task s)) 4, span (current_task s) 64,
      span kb 60, span (p + 4228) 1032]" using k(6) by simp
  obtain s' where s': "raise_interrupt dev tss 0x21 (r, s) = Some (r, s')"
    "keyboard_holds p s' (if scancode AND 0x80 = 0 \<and> c \<noteq> 0 then q @ [c] else q)" "cr3 s' = cr3 s"
    "\<forall>va. translate (kmem s') (cr3 s) va = translate (kmem s) (cr3 s) va"
    "agree_off (span kb 60 \<union> span (current_task s) 64 \<union> span (p + 4228) 1032) (kmem s) (kmem s')"
    "current_task s' = current_task s" "isr80h_commands s' = isr80h_commands s"
    "task_page_directory (kmem s') (current_task s) = task_page_directory (kmem s) (current_task s)" "data_segments s' = 0x23"
    using key_press_effect [where dev = dev and r = r, OF assms(1-5) ks k(2,3) ap] by (elim exE conjE) (rule that, assumption+)
  have h: "keyboard_holds p s' (q @ [c])" using s'(2) assms(6,7) by simp
  have a: "agree_off (key_writes p tmp kb s) (kmem s) (kmem s')" by (rule agree_off_mono [OF s'(5)]) (auto simp: key_writes_def)
  have ks': "key_setting p tss tmp kb va pa s'"
    by (rule key_setting_kept [OF assms(8) agree_off_mono [OF a] s'(6,7,3,8)]) simp
  have "slot (kmem s') pa 1 = slot (kmem s) pa 1" by (rule key_setting_slots [OF assms(8) a]) simp
  then show ?thesis using getkey_routine [OF h ks' assms(9) refl] s'(1,3,9) by auto
qed

section \<open>Witness\<close>

text \<open>The system of the witnesses of \<open>UserCalls\<close>, running a process whose structure is at 0x20e000: the key A is pressed.\<close>

definition demo_interrupted :: "mem \<Rightarrow> u32 \<Rightarrow> u32 \<Rightarrow> idtstate" where
  "demo_interrupted m c d = (switched 0x23 d (put_kmem (demo_overlay m (demo_stub_bytes c 0x20e000)) demo_system))\<lparr>current_process := 0x20e000\<rparr>"

lemma demo_interrupted_simps [simp]:
  "kmem (demo_interrupted m c d) = demo_overlay m (demo_stub_bytes c 0x20e000)" "current_process (demo_interrupted m c d) = 0x20e000"
  "current_task (demo_interrupted m c d) = 0x202000" "cr3 (demo_interrupted m c d) = d"
  "interrupt_callbacks (demo_interrupted m c d) ! 0x21 = Some Classic_Keyboard_Handle_Interrupt" "scan_set_one_next (demo_interrupted m c d) = 0"
  "isr80h_commands (demo_interrupted m c d) ! 2 = Some Command2_Getkey"
proof -
  have k: "interrupt_callbacks (kheap_init s) = interrupt_callbacks s" "isr80h_commands (kheap_init s) = isr80h_commands s" "scan_set_one_next (kheap_init s) = scan_set_one_next s" for s :: idtstate
    using kheap_init_eq [of s] by auto
  show "interrupt_callbacks (demo_interrupted m c d) ! 0x21 = Some Classic_Keyboard_Handle_Interrupt" "scan_set_one_next (demo_interrupted m c d) = 0"
    "isr80h_commands (demo_interrupted m c d) ! 2 = Some Command2_Getkey"
    by (simp_all add: demo_interrupted_def switched_def put_kmem_def demo_system_def k)
qed (simp_all add: demo_interrupted_def switched_def)

lemma demo_queue_empty: "kb_queue (demo_overlay m (demo_stub_bytes c 0x20e000)) 0x20e000 []"
proof -
  let ?K = "span (0x20f084 :: u32) 1032"
  have "demo_overlay m (demo_stub_bytes c 0x20e000) x = 0" if "x \<in> ?K" for x
  proof -
    have b: "0x20f084 \<le> unat x" "unat x < 0x20f48c" using that by (simp_all add: span_iff)
    then have "x \<in> demo_room" "x \<notin> span 0x202000 4" "x \<notin> span 0x202034 4" by (simp_all add: demo_room_def span_iff)
    moreover have "x \<noteq> a" if "unat a < 0x20f084" for a using b that by auto
    ultimately show ?thesis by (simp add: demo_overlay_def demo_stub_bytes_def write32_byte_sep)
  qed
  then have "agree_off (- ?K) (\<lambda>_. 0) (demo_overlay m (demo_stub_bytes c 0x20e000))" by (simp add: agree_off_def)
  from kb_queue_agree [OF _ this, of "0x20e000" "[]"] show ?thesis using kb_queue_blank by (simp add: kb_room_def)
qed

lemma demo_key_ready:
  obtains m c d where "keyboard_holds 0x20e000 (demo_interrupted m c d) []"
    "key_setting 0x20e000 0x20c000 0x20d000 0x20b000 0x20a004 0x20a004 (demo_interrupted m c d)"
    "slot (kmem (demo_interrupted m c d)) 0x20a004 1 = 0x400123"
proof -
  obtain m A c d ts q where f: "\<forall>m'. agree_off demo_room m m' \<longrightarrow> demo_space m' A c d ts q" by (rule demo_system_space)
  let ?s = "demo_interrupted m c d"
  define b where "b = demo_overlay m (demo_stub_bytes c 0x20e000)"
  have kb: "kmem ?s = b" by (simp add: b_def)
  note o = demo_stub_overlay [of m c "0x20e000", folded b_def]
  note g = demo_spaceD [OF f [rule_format, OF o(1)]]
  have sp: "walk_region b d \<subseteq> space_pages c d ts" "span c 4 \<subseteq> space_pages c d ts" "unat d mod 4096 = 0" using space_pages_cover(1-3) [OF g(1)] by simp_all
  have "space_pages c d ts \<inter> demo_room = {}" using g(7) unfolding space_pages_def by blast
  then have w: "(walk_region b d \<union> span c 4) \<inter> span a k = {}" if "0x200000 \<le> unat a" "unat a + k \<le> 0x210000" for a k
    using demo_room_span [OF that] sp(1,2) by blast
  have w': "walk_region b d \<inter> span a k = {}" if "0x200000 \<le> unat a" "unat a + k \<le> 0x210000" for a k using w [OF that] by blast
  have id: "stack_at b d a a n" if "0x200000 \<le> unat a" "unat a + 4 * n \<le> 0x210000" for a n
    using that w' by (intro identity_stack sp(3) g(4)) auto
  have h: "keyboard_holds 0x20e000 ?s []"
  proof -
    have "span 0x202034 4 \<inter> span (0x20f084 :: u32) 1032 = {}" by (rule span_disjoint) simp_all
    then show ?thesis using demo_queue_empty [of m c] o(3) by (simp add: keyboard_holds_def kb_room_def task_process_def b_def)
  qed
  have td: "task_page_directory (kmem ?s) (current_task ?s) = c" unfolding kb using o(2) by (simp add: task_page_directory_def)
  have dir: "cr3 ?s = task_directory (kmem ?s) (current_task ?s)" unfolding task_directory_def td unfolding kb using g(1) by (simp add: chunk_owns_def)
  have ap: "apart [walk_region b d \<union> span c 4, span 0x202000 64, span 0x20b000 60, span 0x20f084 1032, span 0x20d000 4, span 0x20c000 12, span 0x20a004 8]"
    unfolding apart.simps list.set ball_simps
    by (intro conjI TrueI w; simp?) (rule span_disjoint span_disjoint_sym; simp; fail)+
  have tmp: "span 0x20d000 4 \<inter> span (0x20b000 :: u32) 60 = {}" by (rule span_disjoint_sym) simp_all
  have "trap_ready 0x20c000 0x20d000 0x20b000 b d" using id o(6) tmp by (simp add: trap_ready_def)
  then have "key_setting 0x20e000 0x20c000 0x20d000 0x20b000 0x20a004 0x20a004 ?s"
    using ap dir td id unfolding key_setting_def td unfolding kb by simp
  moreover have "slot (kmem ?s) 0x20a004 1 = 0x400123" unfolding kb using o(4) by (simp add: slot_def)
  ultimately show ?thesis using h by (intro that)
qed

theorem key_press_transparent_witness:
  "\<exists>(s :: idtstate) s' tss. raise_interrupt (\<lambda>_ _. 0x1e) tss 0x21 (demo_user, s) = Some (demo_user, s') \<and> keyboard_holds 0x20e000 s [] \<and>
     keyboard_holds 0x20e000 s' [0x41]"
proof -
  obtain m c d where k: "keyboard_holds 0x20e000 (demo_interrupted m c d) []"
    "key_setting 0x20e000 0x20c000 0x20d000 0x20b000 0x20a004 0x20a004 (demo_interrupted m c d)" by (rule demo_key_ready)
  let ?s = "demo_interrupted m c d"
  note D = key_settingD [OF k(2)]
  have ks: "kernel_stack 0x20c000 0x20b000 (kmem ?s) (cr3 ?s)" using D(1) unfolding trap_ready_def kernel_stack_def by blast
  have ap: "apart [walk_region (kmem ?s) (cr3 ?s) \<union> span (task_page_directory (kmem ?s) (current_task ?s)) 4, span (current_task ?s) 64,
      span 0x20b000 60, span (0x20e000 + 4228) 1032]" using D(6) by simp
  have c: "0x41 = classic_keyboard_scancode_to_char (scan_set_one_next ?s) 0x1e" by (simp add: classic_keyboard_scancode_to_char_def keyboard_scan_set_one_def)
  have l: "length ([] :: u8 list) < 1024" by simp
  obtain s' where "raise_interrupt (\<lambda>_ _. 0x1e) 0x20c000 0x21 (demo_user, ?s) = Some (demo_user, s')"
    "keyboard_holds 0x20e000 s' (if (0x1e :: u8) AND 0x80 = 0 \<and> (0x41 :: u8) \<noteq> 0 then [] @ [0x41] else [])"
    using key_press_transparent [where dev = "\<lambda>_ _. 0x1e" and scancode = "0x1e", OF k(1) l _ _ c ks D(2,3) ap, of demo_user] by auto
  then show ?thesis using k(1) by (intro exI [of _ ?s] exI [of _ s'] exI [of _ "0x20c000"]) simp
qed

text \<open>The program asks for the key.\<close>

theorem typed_key_reaches_program_witness:
  "\<exists>(s :: idtstate) s' s'' tss tmp. raise_interrupt (\<lambda>_ _. 0x1e) tss 0x21 (demo_user, s) = Some (demo_user, s') \<and>
     run (int80 tss tmp) getkey_stub (demo_user, s') = Some (demo_user\<lparr>uc_eax := 0x41, uc_esp := 0x20a00c, uc_ip := 0x400123\<rparr>, s'')"
proof -
  obtain m c d where k: "keyboard_holds 0x20e000 (demo_interrupted m c d) []"
    "key_setting 0x20e000 0x20c000 0x20d000 0x20b000 0x20a004 0x20a004 (demo_interrupted m c d)"
    "slot (kmem (demo_interrupted m c d)) 0x20a004 1 = 0x400123" by (rule demo_key_ready)
  let ?s = "demo_interrupted m c d"
  have c: "0x41 = classic_keyboard_scancode_to_char (scan_set_one_next ?s) 0x1e" by (simp add: classic_keyboard_scancode_to_char_def keyboard_scan_set_one_def)
  have l: "length ([] :: u8 list) < 1024" and e: "uc_esp demo_user = 0x20a004 + 4" by (simp_all add: demo_user_def)
  obtain s' s'' where "raise_interrupt (\<lambda>_ _. 0x1e) 0x20c000 0x21 (demo_user, ?s) = Some (demo_user, s')"
    "run (int80 0x20c000 0x20d000) getkey_stub (demo_user, s') = Some (demo_user\<lparr>uc_eax := scast (hd ([] @ [0x41 :: u8])),
      uc_esp := 0x20a004 + 8, uc_ip := slot (kmem ?s) 0x20a004 1\<rparr>, s'')"
    using typed_key_reaches_program [where dev = "\<lambda>_ _. 0x1e" and scancode = "0x1e", OF k(1) l _ _ c _ _ k(2) e] by auto
  then show ?thesis unfolding k(3)
    by (intro exI [of _ ?s] exI [of _ s'] exI [of _ s''] exI [of _ "0x20c000"] exI [of _ "0x20d000"]) simp
qed

end
