(* ===== verification/ProcessCreate.thy ===== *)
theory ProcessCreate
  imports Keyboard
begin

text \<open>
  The creation of a process, from the loaded ELF image to the slot in the table: \<open>process_set_up\<close> of \<open>Process\<close>, the part of
  \<^verbatim>\<open>process_load_for_slot\<close> in \<^verbatim>\<open>src/task/process.c\<close> behind \<^verbatim>\<open>process_load_data\<close>. It composes the contracts of the heap, of
  \<^verbatim>\<open>task_new\<close>, which builds an address space and appends to the task list, and of \<^verbatim>\<open>process_map_memory\<close>, which maps the
  segments and the stack into it: what each part promises is framed against what the later ones write.
\<close>

section \<open>The image of a program\<close>

text \<open>The process \<open>p\<close>, the loader's record \<open>f\<close> and the file \<open>em\<close>, of \<open>k\<close> pages, are live on the heap, and the ELF header
  and the program headers are inside the file.\<close>

definition image_live :: "mem \<Rightarrow> (u32 \<Rightarrow> nat option) \<Rightarrow> u32 \<Rightarrow> u32 \<Rightarrow> u32 \<Rightarrow> nat \<Rightarrow> bool" where
  "image_live m A p f em k \<longleftrightarrow> A p = Some 2 \<and> process_filetype m p = PROCESS_FILETYPE_ELF \<and> process_ptr m p = f \<and>
     A f = Some 1 \<and> elf_memory m f = em \<and> A em = Some k \<and> em \<noteq> p \<and> 52 \<le> k * 4096 \<and>
     (\<forall>j < unat (e_phnum m em). span (phdr_at m em j) 32 \<subseteq> span em (k * 4096))"

definition image_region :: "u32 \<Rightarrow> u32 \<Rightarrow> nat \<Rightarrow> u32 set" where
  "image_region f em k = span f 4096 \<union> span em (k * 4096)"

lemma image_liveD:
  assumes "image_live m A p f em k"
  shows "A p = Some 2" "process_filetype m p = PROCESS_FILETYPE_ELF" "process_ptr m p = f" "A f = Some 1" "elf_memory m f = em"
    "A em = Some k" "52 \<le> k * 4096" "em \<noteq> p" "\<And>j. j < unat (e_phnum m em) \<Longrightarrow> span (phdr_at m em j) 32 \<subseteq> span em (k * 4096)"
  using assms unfolding image_live_def by blast+

lemma image_region_apart:
  assumes "image_live m A p f em k" "image_region f em k \<inter> S = {}"
  shows "elf_apart m f S" "span (f + 112) 4 \<inter> S = {}" "span em 52 \<inter> S = {}"
proof -
  note i = image_liveD [OF assms(1)]
  have s: "span f 4096 \<inter> S = {}" "span em (k * 4096) \<inter> S = {}" using assms(2) unfolding image_region_def by blast+
  have "span (f + 112) 4 \<subseteq> span f 4096" "span em 52 \<subseteq> span em (k * 4096)"
    using word_offset_in [of 112 112 4 4096 f] span_mono [OF i(7)] by simp_all
  then show d: "span (f + 112) 4 \<inter> S = {}" "span em 52 \<inter> S = {}" using s by blast+
  have "span (phdr_at m em j) 32 \<inter> S = {}" if "j < unat (e_phnum m em)" for j using i(9) [OF that] s(2) by blast
  then show "elf_apart m f S" unfolding elf_apart_def i(5) using d by blast
qed

text \<open>Memory that agrees on the image maps its segments alike.\<close>

lemma image_agree:
  assumes "image_live m A p f em k" "agree_off S m m'" "image_region f em k \<inter> S = {}"
  shows "elf_memory m' f = em" "elf_phdrs m' f = elf_phdrs m f" "e_entry m' em = e_entry m em"
    "ph \<in> set (elf_phdrs m f) \<Longrightarrow> segment_mapped m' f w ph = segment_mapped m f w ph"
    "ph \<in> set (elf_phdrs m f) \<Longrightarrow> segment_fits m' f ph = segment_fits m f ph"
    "process_filetype m' p = PROCESS_FILETYPE_ELF \<Longrightarrow> process_ptr m' p = f \<Longrightarrow> (\<And>q. q \<in> {p, f, em} \<Longrightarrow> A' q = A q) \<Longrightarrow>
     image_live m' A' p f em k"
proof -
  note i = image_liveD [OF assms(1)] and r = image_region_apart [OF assms(1,3)]
  show em: "elf_memory m' f = em" using read32_agree [OF assms(2) r(2)] i(5) by (simp add: elf_memory_def)
  note h = header_agree [OF assms(2) r(3)]
  show ph: "elf_phdrs m' f = elf_phdrs m f" unfolding em i(5) by (simp add: h)
  have "span (em + 24) 4 \<subseteq> span em 52" using word_offset_in [of 24 24 4 52 em] by simp
  then show "e_entry m' em = e_entry m em" unfolding e_entry_def by (intro read32_agree [OF assms(2)]) (use r(3) in blast)
  show "segment_mapped m' f w ph = segment_mapped m f w ph" "segment_fits m' f ph = segment_fits m f ph" if "ph \<in> set (elf_phdrs m f)"
  proof -
    obtain j where j: "j < unat (e_phnum m (elf_memory m f))" "ph = phdr_at m (elf_memory m f) j" using \<open>ph \<in> _\<close> by auto
    note s = segment_agree [OF assms(2) r(1) j]
    have "(if p_flags m' ph AND PF_W \<noteq> 0 then 7 else 5) = (if p_flags m ph AND PF_W \<noteq> 0 then 7 else 5 :: int)"
      using s(3) by (simp add: process_phdr_flags_def)
    then show "segment_mapped m' f w ph = segment_mapped m f w ph" "segment_fits m' f ph = segment_fits m f ph"
      unfolding segment_mapped_def segment_fits_def Let_def s by simp_all
  qed
  show "image_live m' A' p f em k"
    if "process_filetype m' p = PROCESS_FILETYPE_ELF" "process_ptr m' p = f" "\<And>q. q \<in> {p, f, em} \<Longrightarrow> A' q = A q"
    unfolding image_live_def em h using that(1,2) that(3) [of p] that(3) [of f] that(3) [of em] i by simp
qed

section \<open>The stack, the name and the number\<close>

text \<open>The fields of a live process, by their offsets.\<close>

lemma process_part:
  assumes "kheap_ready s A" "A p = Some 2"
  shows "span p 5260 \<subseteq> span p (2 * 4096)" "unat p + 8192 \<le> 4294967296"
    "n + l \<le> 5260 \<Longrightarrow> span (p + word_of_nat n) l \<subseteq> span p (2 * 4096)"
    "n + l \<le> n' \<or> n' + l' \<le> n \<Longrightarrow> n + l \<le> 5260 \<Longrightarrow> n' + l' \<le> 5260 \<Longrightarrow>
     span (p + word_of_nat n) l \<inter> span (p + word_of_nat n') l' = {}"
proof -
  show b: "unat p + 8192 \<le> 4294967296" using kh.live_bounds [OF assms] by simp
  show s: "span p 5260 \<subseteq> span p (2 * 4096)" by (rule span_mono) simp
  show "n + l \<le> 5260 \<Longrightarrow> span (p + word_of_nat n) l \<subseteq> span p (2 * 4096)" using process_field_in [of n l "word_of_nat n" p] s by blast
  have u: "unat (p + word_of_nat n) = unat p + n" if "n \<le> 5260" for n
    using b that by (simp add: unat_word_ariths unat_of_nat)
  show "span (p + word_of_nat n) l \<inter> span (p + word_of_nat n') l' = {}" if "n + l \<le> n' \<or> n' + l' \<le> n" "n + l \<le> 5260" "n' + l' \<le> 5260"
  proof (cases "n + l \<le> n'")
    case True
    then show ?thesis using that b by (intro span_disjoint) (simp_all add: u)
  next
    case False
    then show ?thesis using that b by (intro span_disjoint_sym) (simp_all add: u)
  qed
qed

lemma set_up_prepared:
  assumes "kheap_ready s A" "kheap_room s 4" "A p = Some 2" "cstr (kmem s) filename name" "heap_apart s A (span filename (Suc (length name)))"
  obtains stk m1 m where "kzalloc PEACHOS_USER_PROGRAM_STACK_SIZE s = (stk, put_kmem m1 s)" "stk \<noteq> 0" "A stk = None"
    "m = write16 (write32 (strncpy m1 (process_filename p) filename 108) (p + 4220) stk) p v"
    "kheap_ready (put_kmem m s) (A(stk \<mapsto> 4))" "kheap_avail (put_kmem m s) + 4 = kheap_avail s" "kept (A(p := None)) (kmem s) m"
    "process_filetype m p = process_filetype (kmem s) p" "process_ptr m p = process_ptr (kmem s) p" "process_stack m p = stk" "process_id m p = v"
    "cstr m (process_filename p) (take 107 name)" "agree_off (kheap_spare s \<union> span p (2 * 4096)) (kmem s) m"
proof -
  let ?P = "span p (2 * 4096)" and ?nm = "process_filename p"
  have n: "(unat (16384 :: u32) + 4095) div 4096 = 4" by simp
  obtain stk m1 where k: "kzalloc 16384 s = (stk, put_kmem m1 s)" "stk \<noteq> 0" "A stk = None" "kheap_ready (put_kmem m1 s) (A(stk \<mapsto> 4))"
    "kheap_avail (put_kmem m1 s) + 4 = kheap_avail s" "agree_off (kheap_reserved s \<union> span stk 16384) (kmem s) m1"
    using kh.zalloc_fresh [OF assms(1), of 16384, unfolded n, OF _ _ assms(2)] by auto
  have pA: "(A(stk \<mapsto> 4)) p = Some 2" using assms(3) k(3) by auto
  note pp = process_part [OF k(4) pA]
  have sp: "span stk 16384 \<subseteq> kheap_spare s"
    using kh.zalloc_spare [OF assms(1) _ _ _ k(1), unfolded n, OF _ _ assms(2)] by simp
  have a1: "agree_off (kheap_spare s) (kmem s) m1"
    by (rule agree_off_mono [OF k(6)]) (use sp kh.reserved_spare [OF assms(1)] in blast)
  have F: "span filename (Suc (length name)) \<inter> kheap_spare s = {}" "span filename (Suc (length name)) \<inter> ?P = {}"
    using heap_apart_spare [OF assms(5)] heap_apart_live [OF assms(5,3)] by (simp_all add: Int_commute)
  have cs: "cstr m1 filename name" by (rule cstr_agree [OF assms(4) a1 F(1)])
  have nm: "?nm = p + word_of_nat 2" by (simp add: process_filename_def)
  have ni: "span ?nm 108 \<subseteq> ?P" unfolding nm by (rule pp(3)) simp
  have "span ?nm (nat 108) \<inter> span filename (Suc (length name)) = {}" using F(2) ni by auto
  from strncpy_cstr [OF cs _ _ this] have st: "cstr (strncpy m1 ?nm filename 108) ?nm (take 107 name)"
    "agree_off (span ?nm 108) m1 (strncpy m1 ?nm filename 108)" by simp_all
  define m2 where "m2 = strncpy m1 ?nm filename 108"
  define m3 where "m3 = write32 m2 (p + 4220) stk"
  define m where "m = write16 m3 p v"
  have a3: "agree_off (span (p + 4220) 4) m2 m3" and a4: "agree_off (span p 2) m3 m" unfolding m3_def m_def by (rule write32_agree write16_agree)+
  have a24: "agree_off (span (p + 4220) 4 \<union> span p 2) m2 m" by (rule agree_off_trans [OF a3 a4])
  have a14: "agree_off (span ?nm 108 \<union> (span (p + 4220) 4 \<union> span p 2)) m1 m" by (rule agree_off_trans [OF st(2) [folded m2_def] a24])
  have in4: "span (p + 4220) 4 \<subseteq> ?P" "span p 2 \<subseteq> ?P" using pp(3) [of 4220 4] pp(3) [of 0 2] by simp_all
  have aP: "agree_off ?P m1 m" by (rule agree_off_mono [OF a14]) (use ni in4 in blast)
  have r: "kheap_ready (put_kmem m s) (A(stk \<mapsto> 4))" "kheap_avail (put_kmem m s) + 4 = kheap_avail s"
    using kh.write_live [OF k(4) pA, of m] aP k(5) by (simp_all del: fun_upd_apply)
  have k1: "kept A (kmem s) m1" by (rule kzalloc_kept [OF assms(1) k(4) k(3) k(6)]) simp
  have k2: "kept (A(p := None)) m1 m"
  proof (rule kept_off [OF aP])
    fix q j assume "(A(p := None)) q = Some j"
    then have "q \<noteq> p" "(A(stk \<mapsto> 4)) q = Some j" using k(3) by (auto split: if_splits)
    then show "span q (j * 4096) \<inter> ?P = {}" using kh.live_disjoint [OF k(4) _ pA] by blast
  qed
  have far: "span (p + word_of_nat o') l \<inter> (span ?nm 108 \<union> (span (p + 4220) 4 \<union> span p 2)) = {}"
    if "110 \<le> o'" "o' + l \<le> 4220 \<or> 4224 \<le> o'" "o' + l \<le> 5260" for o' l
    using pp(4) [of 2 108 o' l] pp(4) [of 4220 4 o' l] pp(4) [of 0 2 o' l] that unfolding nm by (auto simp: Int_commute)
  have ft: "m (p + 4212) = kmem s (p + 4212)"
  proof -
    have b: "p + 4212 \<in> span (p + word_of_nat 4212) 1" by simp
    have f: "span (p + word_of_nat 4212) 1 \<inter> (span ?nm 108 \<union> (span (p + 4220) 4 \<union> span p 2)) = {}" "span (p + word_of_nat 4212) 1 \<subseteq> ?P"
      by (rule far pp(3); simp)+
    have "m (p + 4212) = m1 (p + 4212)" by (rule agree_offD [OF a14]) (use b f(1) in blast)
    also have "\<dots> = kmem s (p + 4212)" by (rule keptD [OF k1 assms(3)]) (use b f(2) in blast)
    finally show ?thesis .
  qed
  have pt: "read32 m (p + 4216) = read32 (kmem s) (p + 4216)"
  proof -
    have "read32 m (p + 4216) = read32 m1 (p + 4216)" using far [of 4216 4] by (intro read32_agree [OF a14]) simp
    also have "\<dots> = read32 (kmem s) (p + 4216)" using keptD [OF k1 assms(3)] pp(3) [of 4216 4] by (intro read32_span) auto
    finally show ?thesis .
  qed
  have c2: "cstr m ?nm (take 107 name)"
  proof (rule cstr_agree [OF st(1) [folded m2_def] a24])
    have "span ?nm (Suc (length (take 107 name))) \<subseteq> span ?nm 108" by (rule span_mono) simp
    moreover have "span ?nm 108 \<inter> (span (p + 4220) 4 \<union> span p 2) = {}"
      using pp(4) [of 2 108 4220 4] pp(4) [of 2 108 0 2] unfolding nm by auto
    ultimately show "span ?nm (Suc (length (take 107 name))) \<inter> (span (p + 4220) 4 \<union> span p 2) = {}" by blast
  qed
  have "span (p + word_of_nat 4220) 4 \<inter> span (p + word_of_nat 0) 2 = {}" by (rule pp(4)) simp_all
  then have stack: "process_stack m p = stk" using read32_agree [OF a4] by (simp add: process_stack_def m3_def)
  have ag: "agree_off (kheap_spare s \<union> ?P) (kmem s) m" by (rule agree_off_trans [OF a1 aP])
  show ?thesis
    by (rule that [OF k(1-3) _ r kept_trans [OF kept_except [OF k1] k2] _ _ stack _ c2 ag])
      (use ft pt in \<open>simp_all add: m_def m3_def m2_def process_filetype_def process_ptr_def process_id_def\<close>)
qed

section \<open>The task\<close>

lemma task_queue_frame:
  assumes "task_queue s ts" "agree_off S (kmem s) (kmem s')" "\<And>x. x \<in> set ts \<Longrightarrow> span x 64 \<inter> S = {}"
    "task_head s' = task_head s" "task_tail s' = task_tail s" "current_task s' = current_task s"
  shows "task_queue s' ts"
proof -
  have "task_next (kmem s') x = task_next (kmem s) x \<and> task_prev (kmem s') x = task_prev (kmem s) x" if x: "x \<in> set ts" for x
  proof -
    have "span (x + 56) 4 \<subseteq> span x 64" "span (x + 60) 4 \<subseteq> span x 64"
      using word_offset_in [of 56 56 4 64 x] word_offset_in [of 60 60 4 64 x] by simp_all
    then show ?thesis unfolding task_next_def task_prev_def using assms(3) [OF x] by (blast intro: read32_agree [OF assms(2)])
  qed
  then have "task_chain (kmem s') (task_head s') 0 ts = task_chain (kmem s) (task_head s) 0 ts"
    unfolding assms(4) by (rule task_chain_cong)
  then show ?thesis using assms(1,5,6) by (simp add: task_queue_def)
qed

text \<open>The words of the task that the switch to it reads.\<close>

lemma task_slot_frame:
  assumes "kheap_ready s A" "A t = Some 1" "agree_off S m m'" "span t 64 \<inter> S = {}" "i < 16"
  shows "slot m' t i = slot m t i"
proof -
  have "unat t + 4 * 16 \<le> 4294967296" using task_page_room [OF assms(1,2)] by simp
  then show ?thesis using slot_agree [of t 16 i S m m'] assms(3-5) by simp
qed

lemma set_up_task:
  assumes "kheap_ready s A" "1027 \<le> kheap_avail s" "task_queue s ts" "\<forall>x \<in> set ts. A x = Some 1"
    "image_live (kmem s) A p f em k" "{f, em} \<inter> set ts = {}"
  obtains t c d ps s' where "task_new p s = (t, s')" "t \<noteq> 0" "A t = None" "chunk_owns s' (with_pages A (t # c # d # ps)) c d ps"
    "t \<notin> set (c # d # ps)" "\<forall>v. paging_is_aligned v \<longrightarrow> paging_get (kmem s') d v = v OR 5" "task_queue s' (ts @ [t])"
    "current_task s' = (if ts = [] then t else current_task s)" "task_page_directory (kmem s') t = c" "task_process (kmem s') t = p"
    "slot (kmem s') t 8 = e_entry (kmem s) em" "slot (kmem s') t 9 = USER_CODE_SEGMENT"
    "slot (kmem s') t 11 = PEACHOS_PROGRAM_VIRTUAL_STACK_ADDRESS_START" "slot (kmem s') t 12 = USER_DATA_SEGMENT"
    "s' = s\<lparr>kmem := kmem s', task_head := task_head s', task_tail := task_tail s', current_task := current_task s'\<rparr>"
    "agree_off (- (span p (2 * 4096) \<union> image_region f em k)) (kmem s) (kmem s')" "\<forall>q \<in> set (c # d # ps). A q = None"
proof -
  obtain t c d ps s' where t: "task_new p s = (t, s')" "A t = None" "c \<noteq> 0"
    "chunk_owns s' (with_pages A (t # c # d # ps)) c d ps" "t \<notin> set (c # d # ps)" "\<forall>p \<in> set (c # d # ps). A p = None"
    "kheap_avail s' + 1027 = kheap_avail s" "\<forall>v. paging_is_aligned v \<longrightarrow> paging_get (kmem s') d v = v OR 5"
    "task_queue s' (ts @ [t])" "current_task s' = (if ts = [] then t else current_task s)"
    "task_page_directory (kmem s') t = c" "task_process (kmem s') t = p" "slot (kmem s') t 9 = USER_CODE_SEGMENT"
    "slot (kmem s') t 11 = PEACHOS_PROGRAM_VIRTUAL_STACK_ADDRESS_START" "slot (kmem s') t 12 = USER_DATA_SEGMENT"
    "s' = s\<lparr>kmem := kmem s', task_head := task_head s', task_tail := task_tail s', current_task := current_task s'\<rparr>"
    "kept (A |` (- set ts)) (kmem s) (kmem s')"
    "\<exists>m4. agree_off (\<Union>x \<in> insert t (set ts). span x 64) (kmem s') m4 \<and> slot (kmem s') t 8 = entry_point m4 p"
    by (rule task_new_spec [OF assms(1-4), of p]) (rule that; assumption)
  let ?A = "with_pages A (t # c # d # ps)" and ?P = "span p (2 * 4096)" and ?I = "image_region f em k" and ?T = "\<Union>x \<in> insert t (set ts). span x 64"
  note i = image_liveD [OF assms(5)]
  have r: "kheap_ready s' ?A" using t(4) by (simp add: chunk_owns_def)
  have old: "?A q = A q" if "A q \<noteq> None" for q using that t(2,6) by (auto simp: with_pages_def)
  have nts: "p \<notin> set ts" "f \<notin> set ts" "em \<notin> set ts" using assms(4,6) i(1) by auto
  have kp: "kmem s' x = kmem s x" if "A q = Some j" "q \<notin> set ts" "x \<in> span q (j * 4096)" for q j x
    by (rule keptD [OF t(17) _ that(3)]) (use that in \<open>simp add: restrict_map_def\<close>)
  have ag: "agree_off (- (?P \<union> ?I)) (kmem s) (kmem s')"
    using kp [OF i(1) nts(1)] kp [OF i(4) nts(2)] kp [OF i(6) nts(3)] unfolding agree_off_def image_region_def by auto
  have tz: "t \<noteq> 0" using t(9) task_chain_nonzero unfolding task_queue_def by fastforce
  have dj: "span q (j * 4096) \<inter> ?T = {}" if q: "A q = Some j" "q \<notin> set ts" for q j
  proof -
    have "span q (j * 4096) \<inter> span x 64 = {}" if x: "x \<in> insert t (set ts)" for x
    proof -
      have xA: "?A x = Some 1" using x assms(4) by (auto simp: with_pages_def)
      moreover have "?A q = Some j" "q \<noteq> x" using q x t(2) old by auto
      ultimately have "span q (j * 4096) \<inter> span x (1 * 4096) = {}" using kh.live_disjoint [OF r] by blast
      then show ?thesis using span_mono [of 64 4096 x] by auto
    qed
    then show ?thesis by blast
  qed
  obtain m4 where m4: "agree_off ?T (kmem s') m4" "slot (kmem s') t 8 = entry_point m4 p" using t(18) by blast
  have dI: "?P \<inter> ?T = {}" "?I \<inter> ?T = {}"
    using dj [OF i(1) nts(1)] dj [OF i(4) nts(2)] dj [OF i(6) nts(3)] unfolding image_region_def by auto
  have a4: "agree_off (- (?P \<union> ?I)) (kmem s) m4"
  proof -
    have "m4 x = kmem s x" if x: "x \<in> ?P \<union> ?I" for x
    proof -
      have "x \<notin> ?T" using x dI by blast
      then have "m4 x = kmem s' x" by (rule agree_offD [OF m4(1)])
      also have "\<dots> = kmem s x" by (rule agree_offD [OF ag]) (use x in blast)
      finally show ?thesis .
    qed
    then show ?thesis by (simp add: agree_off_def)
  qed
  have fl: "m4 x = kmem s x" if "x \<in> ?P" for x using a4 that by (simp add: agree_off_def)
  have "span (p + word_of_nat n) l \<subseteq> ?P" if "n + l \<le> 5260" for n l by (rule process_part(3) [OF assms(1) i(1) that])
  note in4 = this [of 4212 1] this [of 4216 4]
  have "p + 4212 \<in> span (p + word_of_nat 4212) 1" by simp
  then have "p + 4212 \<in> ?P" using in4(1) by (simp add: subset_iff)
  then have ft: "process_filetype m4 p = PROCESS_FILETYPE_ELF" using fl i(2) by (simp add: process_filetype_def)
  have pt: "process_ptr m4 p = f" unfolding process_ptr_def i(3) [symmetric]
    by (rule read32_span) (use fl in4(2) in \<open>simp add: subset_iff\<close>)
  have "?I \<inter> - (?P \<union> ?I) = {}" by blast
  note g = image_agree [OF assms(5) a4 this]
  have ip: "slot (kmem s') t 8 = e_entry (kmem s) em"
    using m4(2) ft pt g(1,3) by (simp add: entry_point_def elf_header_def)
  show ?thesis by (rule that [OF t(1) tz t(2,4,5,8-12) ip t(13-16) ag t(6)])
qed

section \<open>The address space\<close>

lemma chunk_owns_region:
  assumes "chunk_owns s A c d ts"
  shows "tables_region (kmem s) d \<subseteq> (\<Union>x \<in> set ts. span x 4096)"
proof -
  have "\<forall>i < 1024. table_of (kmem s) d i = ts ! i" "length ts = 1024" using assms by (simp_all add: chunk_owns_def)
  then have "table_of (kmem s) d i \<in> set ts" if "i < 1024" for i using that by simp
  then show ?thesis unfolding tables_region_def by blast
qed

text \<open>The process \<open>p\<close> whose task is \<open>t\<close>, and the page tables of the task.\<close>

lemma set_up_map:
  assumes "chunk_owns s A c d ps" "image_live (kmem s) A p f em k" "A t = Some 1" "t \<notin> set (c # d # ps)" "{f, em} \<inter> set (c # d # ps) = {}"
    "task_page_directory (kmem s) t = c" "process_task (kmem s) p = t" "paging_is_aligned (process_stack (kmem s) p)"
    "process_stack (kmem s) p \<le> 0xffffb000" "list_all (segment_fits (kmem s) f) (elf_phdrs (kmem s) f)"
  obtains m where "process_map_memory (kmem s) p = Some (0, m)" "chunk_wf m c d" "tables_region m d \<subseteq> (\<Union>x \<in> set ps. span x 4096)"
    "agree_off (\<Union>x \<in> set (c # d # ps). span x 4096) (kmem s) m"
    "\<forall>w. paging_is_aligned w \<longrightarrow> paging_get m d w = mapped 0x3fb000 (process_stack (kmem s) p) 16384 7 w
       (fold (segment_mapped (kmem s) f w) (elf_phdrs (kmem s) f) (paging_get (kmem s) d w))"
proof -
  let ?m = "kmem s" and ?R = "tables_region (kmem s) d" and ?pages = "\<Union>x \<in> set (c # d # ps). span x 4096"
  note i = image_liveD [OF assms(2)]
  have r: "kheap_ready s A" using assms(1) by (simp add: chunk_owns_def)
  have RP: "?R \<subseteq> ?pages" using chunk_owns_region [OF assms(1)] by auto
  have dj: "span q (j * 4096) \<inter> ?pages = {}" if q: "A q = Some j" "q \<notin> set (c # d # ps)" for q j
  proof -
    have "span q (j * 4096) \<inter> span x 4096 = {}" if x: "x \<in> set (c # d # ps)" for x
      using kh.live_disjoint [OF r q(1), of x 1] chunk_owns_page [OF assms(1) x] q(2) x by auto
    then show ?thesis by blast
  qed
  have pn: "p \<notin> set (c # d # ps)" using chunk_owns_page [OF assms(1), of p] i(1) by auto
  have fn: "f \<notin> set (c # d # ps)" "em \<notin> set (c # d # ps)" using assms(5) by auto
  have pP: "span p (2 * 4096) \<inter> ?R = {}" using dj [OF i(1) pn] RP by blast
  have tP: "span t 4096 \<inter> ?R = {}" using dj [OF assms(3,4)] RP by auto
  have "span t 4 \<inter> ?R = {}" using tP span_mono [of 4 4096 t] by auto
  moreover have "span p 5260 \<inter> ?R = {}" using pP process_part(1) [OF r i(1)] by blast
  ultimately have ra: "reads_apart ?m p ?R" by (simp add: reads_apart_def assms(7))
  have "image_region f em k \<inter> ?R = {}"
    using dj [OF i(4) fn(1)] dj [OF i(6) fn(2)] RP unfolding image_region_def by auto
  note ea = image_region_apart(1) [OF assms(2) this]
  have pd: "process_page_directory ?m p = c" by (simp add: process_page_directory_def assms(6,7))
  obtain m where m: "process_map_memory ?m p = Some (0, m)" "chunk_wf m c d" "agree_off ?R ?m m"
    "\<forall>w. paging_is_aligned w \<longrightarrow> paging_get m d w = mapped 0x3fb000 (process_stack ?m p) 16384 7 w
       (fold (segment_mapped ?m f w) (elf_phdrs ?m f) (paging_get ?m d w))"
    using map_memory_elf [OF chunk_owns_wf [OF assms(1)] pd i(3) [symmetric] i(2) ra ea assms(8,9)] assms(10) by auto
  have tr: "tables_region m d \<subseteq> (\<Union>x \<in> set ps. span x 4096)"
    using tables_region_frame [OF chunk_owns_wf [OF assms(1)] m(3)] chunk_owns_region [OF assms(1)] by simp
  show ?thesis by (rule that [OF m(1,2) tr agree_off_mono [OF m(3) RP] m(4)])
qed

text \<open>The task of the process is stored, and its address space filled.\<close>

lemma set_up_space:
  assumes "chunk_owns s A c d ps" "image_live (kmem s) A p f em k" "A t = Some 1" "t \<notin> set (c # d # ps)" "{f, em} \<inter> set (c # d # ps) = {}"
    "task_page_directory (kmem s) t = c" "paging_is_aligned (process_stack (kmem s) p)"
    "process_stack (kmem s) p \<le> 0xffffb000" "list_all (segment_fits (kmem s) f) (elf_phdrs (kmem s) f)"
    "\<forall>v. paging_is_aligned v \<longrightarrow> paging_get (kmem s) d v = v OR 5"
  obtains m where "process_map_memory (write32 (kmem s) (p + 112) t) p = Some (0, m)" "chunk_wf m c d" "tables_region m d \<subseteq> (\<Union>x \<in> set ps. span x 4096)"
    "agree_off (span (p + 112) 4 \<union> (\<Union>x \<in> set (c # d # ps). span x 4096)) (kmem s) m" "process_task m p = t"
    "\<forall>w. paging_is_aligned w \<longrightarrow> paging_get m d w = mapped 0x3fb000 (process_stack (kmem s) p) 16384 7 w
       (fold (segment_mapped (kmem s) f w) (elf_phdrs (kmem s) f) (w OR 5))"
proof -
  let ?m = "write32 (kmem s) (p + 112) t" and ?pages = "\<Union>x \<in> set (c # d # ps). span x 4096"
  let ?s = "put_kmem ?m s"
  note i = image_liveD [OF assms(2)]
  have r: "kheap_ready s A" using assms(1) by (simp add: chunk_owns_def)
  note pp = process_part [OF r i(1)]
  have a: "agree_off (span (p + 112) 4) (kmem s) ?m" by (rule write32_agree)
  have sub: "span (p + 112) 4 \<subseteq> span p (2 * 4096)" using pp(3) [of 112 4] by simp
  have dj: "span q (j * 4096) \<inter> span (p + 112) 4 = {}" if "A q = Some j" "q \<noteq> p" for q j
    using kh.live_disjoint [OF r that(1) i(1)] that(2) sub by blast
  have pn: "p \<notin> set (c # d # ps)" using chunk_owns_page [OF assms(1), of p] i(1) by auto
  have np: "span x 4096 \<inter> span (p + 112) 4 = {}" if "x \<in> set (c # d # ps)" for x
    using dj [of x 1] chunk_owns_page [OF assms(1) that] that pn by auto
  have res: "span (p + 112) 4 \<inter> kheap_reserved s = {}" using kh.live_reserved [OF r i(1)] sub by blast
  have "\<forall>x \<in> set (c # d # ps). span x 4096 \<inter> span (p + 112) 4 = {}" using np by blast
  note o = chunk_owns_frame [OF assms(1) a res this]
  have "f \<noteq> p" using i(1,4) by auto
  then have ir: "image_region f em k \<inter> span (p + 112) 4 = {}"
    using dj [OF i(4)] dj [OF i(6) i(8)] unfolding image_region_def by auto
  have fld: "read32 ?m (p + word_of_nat n) = read32 (kmem s) (p + word_of_nat n)" if "116 \<le> n" "n + 4 \<le> 5260" for n
    using pp(4) [of 112 4 n 4] that by (intro read32_agree [OF a]) (simp add: Int_commute)
  have ft: "process_filetype ?m p = process_filetype (kmem s) p"
  proof -
    have "p + 4212 \<in> span (p + word_of_nat 4212) 1" by simp
    moreover have "span (p + word_of_nat 112) 4 \<inter> span (p + word_of_nat 4212) 1 = {}" by (rule pp(4)) simp_all
    ultimately have "p + 4212 \<notin> span (p + 112) 4" by auto
    then show ?thesis unfolding process_filetype_def by (rule agree_offD [OF a])
  qed
  have im: "image_live ?m A p f em k" using image_agree(6) [OF assms(2) a ir] ft i(2,3) fld [of 4216] by (simp add: process_ptr_def)
  note g = image_agree [OF assms(2) a ir]
  have st: "process_stack ?m p = process_stack (kmem s) p" using fld [of 4220] by (simp add: process_stack_def)
  have "p \<noteq> t" using i(1) assms(3) by auto
  then have "span t 4 \<inter> span (p + 112) 4 = {}" using dj [OF assms(3)] span_mono [of 4 4096 t] by auto
  then have td: "task_page_directory ?m t = c" using assms(6) read32_agree [OF a] by (simp add: task_page_directory_def)
  have sm: "fold (segment_mapped ?m f w) (elf_phdrs (kmem s) f) x = fold (segment_mapped (kmem s) f w) (elf_phdrs (kmem s) f) x" for w x
    by (rule fold_cong [OF refl refl]) (rule ext, metis g(4))
  have la: "list_all (segment_fits ?m f) (elf_phdrs ?m f)" using assms(9) g(5) unfolding g(2) list_all_iff by blast
  have km: "kmem ?s = ?m" by simp
  have pt: "process_task ?m p = t" by (simp add: process_task_def)
  obtain m where m: "process_map_memory ?m p = Some (0, m)" "chunk_wf m c d" "tables_region m d \<subseteq> (\<Union>x \<in> set ps. span x 4096)" "agree_off ?pages ?m m"
    "\<forall>w. paging_is_aligned w \<longrightarrow> paging_get m d w = mapped 0x3fb000 (process_stack ?m p) 16384 7 w
       (fold (segment_mapped ?m f w) (elf_phdrs ?m f) (paging_get ?m d w))"
    using set_up_map [OF o(1), unfolded km, OF im assms(3,4,5) td pt _ _ la] assms(7,8) unfolding st by blast
  have "span p (2 * 4096) \<inter> ?pages = {}" using kh.live_disjoint [OF r i(1), of _ 1] chunk_owns_page [OF assms(1)] pn by fastforce
  then have "span (p + 112) 4 \<inter> ?pages = {}" using sub by blast
  then have t2: "process_task m p = t" using pt read32_agree [OF m(4)] by (simp add: process_task_def)
  have pg: "\<forall>w. paging_is_aligned w \<longrightarrow> paging_get m d w = mapped 0x3fb000 (process_stack (kmem s) p) 16384 7 w
       (fold (segment_mapped (kmem s) f w) (elf_phdrs (kmem s) f) (w OR 5))"
    using m(5) o(3) assms(10) unfolding st g(2) sm by simp
  show ?thesis by (rule that [OF m(1-3) agree_off_trans [OF a m(4)] t2 pg])
qed

section \<open>The process as a whole\<close>

text \<open>Memory that agrees off free memory and the structure of the process.\<close>

lemma image_off_spare:
  assumes "kheap_ready s A" "image_live m A p f em k"
  shows "image_region f em k \<inter> (kheap_spare s \<union> span p (2 * 4096)) = {}"
proof -
  note i = image_liveD [OF assms(2)]
  have "f \<noteq> p" using i(1,4) by auto
  then show ?thesis
    using kh.live_spare [OF assms(1) i(4)] kh.live_spare [OF assms(1) i(6)] kh.live_disjoint [OF assms(1) i(4,1)]
      kh.live_disjoint [OF assms(1) i(6,1,8)] unfolding image_region_def by auto
qed

text \<open>The stack, the task and the page tables of a process being made, before they are put together: \<open>s\<close> is the state
  before, \<open>s'\<close> the one after \<^verbatim>\<open>task_new\<close>.\<close>

lemma set_up_parts:
  assumes "kheap_ready s A" "kheap_room s 4" "1031 \<le> kheap_avail s" "task_queue s ts" "\<forall>x \<in> set ts. A x = Some 1"
    "image_live (kmem s) A p f em k" "{f, em} \<inter> set ts = {}" "cstr (kmem s) filename name"
    "heap_apart s A (span filename (Suc (length name)))"
  obtains stk m1 t c d ps s' where "kzalloc PEACHOS_USER_PROGRAM_STACK_SIZE s = (stk, put_kmem m1 s)" "stk \<noteq> 0" "A stk = None"
    "task_new p (put_kmem (write16 (write32 (strncpy m1 (process_filename p) filename 108) (p + 4220) stk) p v) s) = (t, s')"
    "t \<noteq> 0" "chunk_owns s' (with_pages (A(stk \<mapsto> 4)) (t # c # d # ps)) c d ps" "\<forall>x \<in> set (t # c # d # ps). (A(stk \<mapsto> 4)) x = None"
    "t \<notin> set (c # d # ps)" "\<forall>v. paging_is_aligned v \<longrightarrow> paging_get (kmem s') d v = v OR 5" "task_queue s' (ts @ [t])"
    "task_page_directory (kmem s') t = c" "task_process (kmem s') t = p"
    "slot (kmem s') t 8 = e_entry (kmem s) em" "slot (kmem s') t 9 = USER_CODE_SEGMENT"
    "slot (kmem s') t 11 = PEACHOS_PROGRAM_VIRTUAL_STACK_ADDRESS_START" "slot (kmem s') t 12 = USER_DATA_SEGMENT"
    "s' = s\<lparr>kmem := kmem s', task_head := task_head s', task_tail := task_tail s', current_task := current_task s'\<rparr>"
    "image_live (kmem s') (with_pages (A(stk \<mapsto> 4)) (t # c # d # ps)) p f em k" "process_stack (kmem s') p = stk"
    "process_id (kmem s') p = v" "cstr (kmem s') (process_filename p) (take 107 name)"
    "elf_phdrs (kmem s') f = elf_phdrs (kmem s) f"
    "\<And>w ph. ph \<in> set (elf_phdrs (kmem s) f) \<Longrightarrow> segment_mapped (kmem s') f w ph = segment_mapped (kmem s) f w ph"
    "\<And>ph. ph \<in> set (elf_phdrs (kmem s) f) \<Longrightarrow> segment_fits (kmem s') f ph = segment_fits (kmem s) f ph"
proof -
  note i = image_liveD [OF assms(6)]
  obtain stk m1 m where a: "kzalloc PEACHOS_USER_PROGRAM_STACK_SIZE s = (stk, put_kmem m1 s)" "stk \<noteq> 0" "A stk = None"
    "m = write16 (write32 (strncpy m1 (process_filename p) filename 108) (p + 4220) stk) p v"
    "kheap_ready (put_kmem m s) (A(stk \<mapsto> 4))" "kheap_avail (put_kmem m s) + 4 = kheap_avail s" "kept (A(p := None)) (kmem s) m"
    "process_filetype m p = process_filetype (kmem s) p" "process_ptr m p = process_ptr (kmem s) p" "process_stack m p = stk" "process_id m p = v"
    "cstr m (process_filename p) (take 107 name)" "agree_off (kheap_spare s \<union> span p (2 * 4096)) (kmem s) m"
    using set_up_prepared [OF assms(1,2) i(1) assms(8,9), of v thesis] by blast
  let ?s = "put_kmem m s" and ?A = "A(stk \<mapsto> 4)"
  have keep: "?A q = A q" if "A q \<noteq> None" for q using that a(3) by auto
  have pn: "p \<notin> set ts" using assms(5) i(1) by auto
  have "span x 64 \<inter> (kheap_spare s \<union> span p (2 * 4096)) = {}" if x: "x \<in> set ts" for x
  proof -
    have "A x = Some 1" "x \<noteq> p" using x assms(5) pn by auto
    then have "span x (1 * 4096) \<inter> (kheap_spare s \<union> span p (2 * 4096)) = {}"
      using kh.live_spare [OF assms(1)] kh.live_disjoint [OF assms(1) _ i(1)] by blast
    then show ?thesis using span_mono [of 64 4096 x] by auto
  qed
  then have q: "task_queue ?s ts" using task_queue_frame [OF assms(4), of _ ?s] a(13) by simp
  note g = image_agree [OF assms(6) a(13) image_off_spare [OF assms(1,6)]]
  have fem: "?A q = A q" if "q \<in> {p, f, em}" for q by (rule keep) (use that i(1,4,6) in auto)
  have im: "image_live (kmem ?s) ?A p f em k" using g(6) [OF _ _ fem] a(8,9) i(2,3) by (simp del: fun_upd_apply)
  have av: "1027 \<le> kheap_avail ?s" using a(6) assms(3) by simp
  have lt: "\<forall>x \<in> set ts. ?A x = Some 1" using assms(5) keep by simp
  obtain t c d ps s' where t: "task_new p ?s = (t, s')" "t \<noteq> 0" "?A t = None" "chunk_owns s' (with_pages ?A (t # c # d # ps)) c d ps"
    "t \<notin> set (c # d # ps)" "\<forall>v. paging_is_aligned v \<longrightarrow> paging_get (kmem s') d v = v OR 5" "task_queue s' (ts @ [t])"
    "current_task s' = (if ts = [] then t else current_task ?s)" "task_page_directory (kmem s') t = c" "task_process (kmem s') t = p"
    "slot (kmem s') t 8 = e_entry (kmem ?s) em" "slot (kmem s') t 9 = USER_CODE_SEGMENT"
    "slot (kmem s') t 11 = PEACHOS_PROGRAM_VIRTUAL_STACK_ADDRESS_START" "slot (kmem s') t 12 = USER_DATA_SEGMENT"
    "s' = ?s\<lparr>kmem := kmem s', task_head := task_head s', task_tail := task_tail s', current_task := current_task s'\<rparr>"
    "agree_off (- (span p (2 * 4096) \<union> image_region f em k)) (kmem ?s) (kmem s')" "\<forall>q \<in> set (c # d # ps). ?A q = None"
    by (rule set_up_task [OF a(5) av q lt im assms(7)]) (rule that; assumption)
  let ?B = "with_pages ?A (t # c # d # ps)"
  have fr: "\<forall>x \<in> set (t # c # d # ps). ?A x = None" using t(3,17) by simp
  have keepB: "?B q = ?A q" if "q \<in> {p, f, em}" for q
  proof -
    have "?A q \<noteq> None" using fem [OF that] that i(1,4,6) by auto
    then show ?thesis using fr by (auto simp: with_pages_def)
  qed
  have same: "kmem s' x = m x" if "x \<in> span p (2 * 4096)" for x using agree_offD [OF t(16)] that by simp
  have I: "image_region f em k \<inter> - (span p (2 * 4096) \<union> image_region f em k) = {}" by blast
  have t16: "agree_off (- (span p (2 * 4096) \<union> image_region f em k)) m (kmem s')" using t(16) by simp
  note h = image_agree [OF im t(16) I]
  note pp = process_part [OF assms(1) i(1)]
  have fld: "read32 (kmem s') (p + word_of_nat n) = read32 m (p + word_of_nat n)" if "n + 4 \<le> 5260" for n
    using pp(3) [of n 4] that same by (intro read32_span) auto
  have "p + 4212 \<in> span (p + word_of_nat 4212) 1" by simp
  then have "p + 4212 \<in> span p (2 * 4096)" using pp(3) [of 4212 1] by (simp add: subset_iff)
  then have ft: "process_filetype (kmem s') p = process_filetype m p" unfolding process_filetype_def by (rule same)
  have pt: "process_ptr (kmem s') p = f" "process_stack (kmem s') p = stk"
    using fld [of 4216] fld [of 4220] a(9,10) i(3) by (simp_all add: process_ptr_def process_stack_def)
  have imB: "image_live (kmem s') ?B p f em k" using h(6) [OF _ pt(1) keepB] ft a(8) i(2) by simp
  have "process_id (kmem s') p = process_id m p" unfolding process_id_def
    by (rule read16_agree [OF t16]) (use pp(3) [of 0 2] in auto)
  then have id: "process_id (kmem s') p = v" using a(11) by simp
  have nm: "cstr (kmem s') (process_filename p) (take 107 name)"
  proof (rule cstr_agree [OF a(12) t16])
    have "span (process_filename p) (Suc (length (take 107 name))) \<subseteq> span (process_filename p) 108" by (rule span_mono) simp
    then show "span (process_filename p) (Suc (length (take 107 name))) \<inter> - (span p (2 * 4096) \<union> image_region f em k) = {}"
      using pp(3) [of 2 108] by (auto simp: process_filename_def)
  qed
  have gm: "elf_phdrs (kmem ?s) f = elf_phdrs (kmem s) f" "e_entry (kmem ?s) em = e_entry (kmem s) em" using g(2,3) by simp_all
  have e: "s' = s\<lparr>kmem := kmem s', task_head := task_head s', task_tail := task_tail s', current_task := current_task s'\<rparr>"
    by (subst t(15)) (simp add: put_kmem_def)
  have seg: "segment_mapped (kmem s') f w ph = segment_mapped (kmem s) f w ph" "segment_fits (kmem s') f ph = segment_fits (kmem s) f ph"
    if "ph \<in> set (elf_phdrs (kmem s) f)" for w ph
    using g(4,5) [OF that] h(4,5) that unfolding gm(1) by simp_all
  show ?thesis
    by (rule that [OF a(1-3) t(1) [unfolded a(4)] t(2,4) fr t(5-7,9,10) _ t(12-14) e imB pt(2) id nm _ seg])
      (use t(11) gm h(2) in simp_all)
qed

text \<open>What writing the task pointer, the page tables and the table of processes leaves as it was: the rest of the process,
  the tasks, and the directory.\<close>

lemma set_up_frame:
  assumes "chunk_owns s A c d ps" "A p = Some 2" "A x = Some 1" "x \<notin> set (c # d # ps)" "heap_apart s A T" "X = span (p + 112) 4 \<union> (\<Union>x \<in> set (c # d # ps). span x 4096) \<union> T"
  shows "span x 64 \<inter> X = {}" "116 \<le> n \<Longrightarrow> n + l \<le> 5260 \<Longrightarrow> span (p + word_of_nat n) l \<inter> X = {}"
    "n + l \<le> 112 \<Longrightarrow> span (p + word_of_nat n) l \<inter> X = {}"
    "span c 4 \<inter> T = {}" "(span d 4096 \<union> (\<Union>x \<in> set ps. span x 4096)) \<inter> T = {}" "X \<inter> kheap_reserved s = {}"
proof -
  let ?pages = "\<Union>x \<in> set (c # d # ps). span x 4096"
  have r: "kheap_ready s A" using assms(1) by (simp add: chunk_owns_def)
  note pp = process_part [OF r assms(2)]
  have pg: "A y = Some 1" if "y \<in> set (c # d # ps)" for y using chunk_owns_page [OF assms(1) that] by simp
  have dj: "span q (j * 4096) \<inter> ?pages = {}" if q: "A q = Some j" "q \<notin> set (c # d # ps)" for q j
    using kh.live_disjoint [OF r q(1) pg] q(2) by fastforce
  have sub: "span (p + 112) 4 \<subseteq> span p (2 * 4096)" using pp(3) [of 112 4] by simp
  have "x \<noteq> p" using assms(2,3) by auto
  then have "span x (1 * 4096) \<inter> X = {}"
    using dj [OF assms(3,4)] heap_apart_live [OF assms(5) assms(3)] kh.live_disjoint [OF r assms(3,2)] sub unfolding assms(6) by blast
  then show "span x 64 \<inter> X = {}" using span_mono [of 64 4096 x] by auto
  have pn: "p \<notin> set (c # d # ps)" using pg [of p] assms(2) by auto
  have P: "span p (2 * 4096) \<inter> (?pages \<union> T) = {}" using dj [OF assms(2) pn] heap_apart_live [OF assms(5) assms(2)] by blast
  show "116 \<le> n \<Longrightarrow> n + l \<le> 5260 \<Longrightarrow> span (p + word_of_nat n) l \<inter> X = {}"
    using P pp(3) [of n l] pp(4) [of 112 4 n l] unfolding assms(6) by auto
  show "n + l \<le> 112 \<Longrightarrow> span (p + word_of_nat n) l \<inter> X = {}"
    using P pp(3) [of n l] pp(4) [of 112 4 n l] unfolding assms(6) by auto
  have PT: "span y 4096 \<inter> T = {}" if "y \<in> set (c # d # ps)" for y using heap_apart_live [OF assms(5) pg [OF that]] by simp
  have "span c 4 \<subseteq> span c 4096" by (rule span_mono) simp
  then show "span c 4 \<inter> T = {}" using PT [of c] by auto
  show "(span d 4096 \<union> (\<Union>x \<in> set ps. span x 4096)) \<inter> T = {}" using PT by auto
  have "span y 4096 \<inter> kheap_reserved s = {}" if "y \<in> set (c # d # ps)" for y using kh.live_reserved [OF r pg [OF that]] by simp
  then show "X \<inter> kheap_reserved s = {}"
    using kh.live_reserved [OF r assms(2)] sub kh.reserved_spare [OF r] heap_apart_spare [OF assms(5)] unfolding assms(6) by blast
qed

lemma set_up_runs:
  assumes "kheap_ready s A" "kernel_heap s = boot_heap" "kheap_room s 4" "1031 \<le> kheap_avail s" "task_queue s ts" "\<forall>x \<in> set ts. A x = Some 1"
    "image_live (kmem s) A p f em k" "{f, em} \<inter> set ts = {}" "list_all (segment_fits (kmem s) f) (elf_phdrs (kmem s) f)"
    "cstr (kmem s) filename name" "heap_apart s A (span filename (Suc (length name)))"
    "heap_apart s A (span (processes_at s) 48)" "unat (processes_at s) + 48 \<le> 4294967296" "0 \<le> i" "i < 12"
  obtains t c d ps stk s' m where "process_set_up filename p i s = Some (0, True, put_kmem m s')"
    "chunk_owns s' (with_pages (A(stk \<mapsto> 4)) (t # c # d # ps)) c d ps" "\<forall>x \<in> set (stk # t # c # d # ps). A x = None"
    "t \<notin> set (c # d # ps)" "heap_apart s' (with_pages (A(stk \<mapsto> 4)) (t # c # d # ps)) (span (processes_at s) 48)"
    "agree_off (span (p + 112) 4 \<union> (\<Union>x \<in> set (c # d # ps). span x 4096) \<union> span (processes_at s) 48) (kmem s') m"
    "directory_entry m c = d" "process_task m p = t"
    "\<forall>w. paging_is_aligned w \<longrightarrow> paging_get m d w = mapped 0x3fb000 stk 16384 7 w
       (fold (segment_mapped (kmem s) f w) (elf_phdrs (kmem s) f) (w OR 5))"
    "process_get i (put_kmem m s') = p" "task_queue s' (ts @ [t])" "task_page_directory (kmem s') t = c" "task_process (kmem s') t = p"
    "slot (kmem s') t 8 = e_entry (kmem s) em" "slot (kmem s') t 9 = USER_CODE_SEGMENT"
    "slot (kmem s') t 11 = PEACHOS_PROGRAM_VIRTUAL_STACK_ADDRESS_START" "slot (kmem s') t 12 = USER_DATA_SEGMENT"
    "process_stack (kmem s') p = stk" "process_id (kmem s') p = word_of_int i" "cstr (kmem s') (process_filename p) (take 107 name)"
proof -
  note i = image_liveD [OF assms(7)]
  let ?v = "word_of_int i :: u16"
  obtain stk m1 t c d ps s' where a: "kzalloc PEACHOS_USER_PROGRAM_STACK_SIZE s = (stk, put_kmem m1 s)" "stk \<noteq> 0" "A stk = None"
    "task_new p (put_kmem (write16 (write32 (strncpy m1 (process_filename p) filename 108) (p + 4220) stk) p ?v) s) = (t, s')"
    "t \<noteq> 0" "chunk_owns s' (with_pages (A(stk \<mapsto> 4)) (t # c # d # ps)) c d ps" "\<forall>x \<in> set (t # c # d # ps). (A(stk \<mapsto> 4)) x = None"
    "t \<notin> set (c # d # ps)" "\<forall>v. paging_is_aligned v \<longrightarrow> paging_get (kmem s') d v = v OR 5" "task_queue s' (ts @ [t])"
    "task_page_directory (kmem s') t = c" "task_process (kmem s') t = p"
    "slot (kmem s') t 8 = e_entry (kmem s) em" "slot (kmem s') t 9 = USER_CODE_SEGMENT"
    "slot (kmem s') t 11 = PEACHOS_PROGRAM_VIRTUAL_STACK_ADDRESS_START" "slot (kmem s') t 12 = USER_DATA_SEGMENT"
    "s' = s\<lparr>kmem := kmem s', task_head := task_head s', task_tail := task_tail s', current_task := current_task s'\<rparr>"
    "image_live (kmem s') (with_pages (A(stk \<mapsto> 4)) (t # c # d # ps)) p f em k" "process_stack (kmem s') p = stk"
    "process_id (kmem s') p = ?v" "cstr (kmem s') (process_filename p) (take 107 name)"
    "elf_phdrs (kmem s') f = elf_phdrs (kmem s) f"
    and seg: "\<And>w ph. ph \<in> set (elf_phdrs (kmem s) f) \<Longrightarrow> segment_mapped (kmem s') f w ph = segment_mapped (kmem s) f w ph"
    "\<And>ph. ph \<in> set (elf_phdrs (kmem s) f) \<Longrightarrow> segment_fits (kmem s') f ph = segment_fits (kmem s) f ph"
    using set_up_parts [OF assms(1,3,4-8,10,11), of ?v thesis] by blast
  let ?A = "A(stk \<mapsto> 4)" and ?B = "with_pages (A(stk \<mapsto> 4)) (t # c # d # ps)" and ?T = "span (processes_at s) 48"
  have r: "kheap_ready s' ?B" using a(6) by (simp add: chunk_owns_def)
  have kh: "kernel_heap s' = kernel_heap s" "processes_at s' = processes_at s" by (subst a(17); simp)+
  have old: "?B q = A q" if "A q \<noteq> None" for q using that a(3,7) by (auto simp: with_pages_def)
  have new: "\<forall>x \<in> set (stk # t # c # d # ps). A x = None" using a(3,7) by (auto split: if_splits)
  have Bs: "?B stk = Some 4" using a(7) by (auto simp: with_pages_def)
  have stk: "paging_is_aligned (process_stack (kmem s') p)" "process_stack (kmem s') p \<le> 0xffffb000"
    using kh.live_bounds [OF r Bs] boot_heap_below [OF r Bs] kh(1) assms(2) unfolding a(19) by (simp_all add: aligned_iff word_le_nat_alt)
  have Bt: "?B t = Some 1" by (simp add: with_pages_def)
  have "A f \<noteq> None" "A em \<noteq> None" using i(4,6) by simp_all
  then have fe: "{f, em} \<inter> set (c # d # ps) = {}" using new by auto
  have la: "list_all (segment_fits (kmem s') f) (elf_phdrs (kmem s') f)" using assms(9) seg(2) unfolding a(22) list_all_iff by blast
  have sm: "fold (segment_mapped (kmem s') f w) (elf_phdrs (kmem s) f) x = fold (segment_mapped (kmem s) f w) (elf_phdrs (kmem s) f) x" for w x
    by (rule fold_cong [OF refl refl]) (rule ext, metis seg(1))
  obtain m where m: "process_map_memory (write32 (kmem s') (p + 112) t) p = Some (0, m)" "chunk_wf m c d"
    "tables_region m d \<subseteq> (\<Union>x \<in> set ps. span x 4096)"
    "agree_off (span (p + 112) 4 \<union> (\<Union>x \<in> set (c # d # ps). span x 4096)) (kmem s') m" "process_task m p = t"
    "\<forall>w. paging_is_aligned w \<longrightarrow> paging_get m d w = mapped 0x3fb000 stk 16384 7 w
       (fold (segment_mapped (kmem s) f w) (elf_phdrs (kmem s) f) (w OR 5))"
    using set_up_space [OF a(6,18) Bt a(8) fe a(11) stk la a(9)] unfolding a(19,22) sm by blast
  define m' where "m' = set_slot m (processes_at s) (nat i) p"
  have i12: "nat i < 12" using assms(15) by simp
  have ap: "heap_apart s' ?B ?T" by (rule static_apart [OF assms(1,12) r kh(1) old])
  have aT: "agree_off ?T m m'" using set_slot_agree [of "processes_at s" 12 "nat i" m p] assms(13) i12 by (simp add: m'_def)
  have aX: "agree_off (span (p + 112) 4 \<union> (\<Union>x \<in> set (c # d # ps). span x 4096) \<union> ?T) (kmem s') m'" by (rule agree_off_trans [OF m(4) aT])
  have Bp: "?B p = Some 2" using old [of p] i(1) by simp
  note fr = set_up_frame [OF a(6) Bp Bt a(8) ap refl]
  have da: "unat d mod 4096 = 0" using chunk_owns_page [OF a(6), of d] by simp
  have pg: "paging_get m' d w = paging_get m d w" if "paging_is_aligned w" for w
    by (rule paging_get_agree [OF that _ da]) (use m(3) fr(5) agree_offD [OF aT] in blast)
  have tz: "sint t \<noteq> 0" using a(5) by (simp add: signed_eq_0_iff)
  have run: "process_set_up filename p i s = Some (0, True, put_kmem m' s')"
    using a(1,2,4) m(1) kh(2) tz by (simp add: process_set_up_def m'_def)
  have get: "process_get i (put_kmem m' s') = p" using slot_set_slot [of "processes_at s" 12 "nat i" "nat i" m p] assms(13,14,15) i12 kh(2)
    by (simp add: process_get_def m'_def)
  have tm: "process_task m' p = t"
    using m(5) read32_agree [OF aT, of "p + 112"] heap_apart_live [OF ap Bp] process_part(3) [OF r Bp, of 112 4]
    by (auto simp: process_task_def)
  have "read32 m' c = read32 m c" by (rule read32_agree [OF aT fr(4)])
  then have de: "directory_entry m' c = d" using m(2) by (simp add: chunk_wf_def directory_entry_def)
  have pm: "\<forall>w. paging_is_aligned w \<longrightarrow> paging_get m' d w = mapped 0x3fb000 stk 16384 7 w
       (fold (segment_mapped (kmem s) f w) (elf_phdrs (kmem s) f) (w OR 5))" using m(6) pg by simp
  show ?thesis by (rule that [OF run a(6) new a(8) ap aX de tm pm get a(10-16,19-21)])
qed

text \<open>A new process: what the code has made of \<open>p\<close> and its task.\<close>

lemma set_up_creates:
  assumes "kheap_ready s A" "kernel_heap s = boot_heap" "kheap_room s 4" "1031 \<le> kheap_avail s" "task_queue s ts" "\<forall>x \<in> set ts. A x = Some 1"
    "image_live (kmem s) A p f em k" "{f, em} \<inter> set ts = {}" "list_all (segment_fits (kmem s) f) (elf_phdrs (kmem s) f)"
    "cstr (kmem s) filename name" "heap_apart s A (span filename (Suc (length name)))"
    "heap_apart s A (span (processes_at s) 48)" "unat (processes_at s) + 48 \<le> 4294967296" "0 \<le> i" "i < 12"
  obtains t c d ps stk s' where "process_set_up filename p i s = Some (0, True, s')"
    "kheap_ready s' (with_pages (A(stk \<mapsto> 4)) (t # c # d # ps))" "\<forall>x \<in> set (stk # t # c # d # ps). A x = None"
    "process_get i s' = p" "process_id (kmem s') p = word_of_int i" "process_task (kmem s') p = t" "process_stack (kmem s') p = stk"
    "cstr (kmem s') (process_filename p) (take 107 name)" "task_queue s' (ts @ [t])" "task_process (kmem s') t = p"
    "slot (kmem s') t 8 = e_entry (kmem s) em" "slot (kmem s') t 9 = USER_CODE_SEGMENT"
    "slot (kmem s') t 11 = PEACHOS_PROGRAM_VIRTUAL_STACK_ADDRESS_START" "slot (kmem s') t 12 = USER_DATA_SEGMENT"
    "task_page_directory (kmem s') t = c" "directory_entry (kmem s') c = d"
    "\<forall>w. paging_is_aligned w \<longrightarrow> paging_get (kmem s') d w = mapped 0x3fb000 stk 16384 7 w
       (fold (segment_mapped (kmem s) f w) (elf_phdrs (kmem s) f) (w OR 5))"
proof -
  obtain t c d ps stk s' m where u: "process_set_up filename p i s = Some (0, True, put_kmem m s')"
    "chunk_owns s' (with_pages (A(stk \<mapsto> 4)) (t # c # d # ps)) c d ps" "\<forall>x \<in> set (stk # t # c # d # ps). A x = None"
    "t \<notin> set (c # d # ps)" "heap_apart s' (with_pages (A(stk \<mapsto> 4)) (t # c # d # ps)) (span (processes_at s) 48)"
    "agree_off (span (p + 112) 4 \<union> (\<Union>x \<in> set (c # d # ps). span x 4096) \<union> span (processes_at s) 48) (kmem s') m"
    "directory_entry m c = d" "process_task m p = t"
    "\<forall>w. paging_is_aligned w \<longrightarrow> paging_get m d w = mapped 0x3fb000 stk 16384 7 w
       (fold (segment_mapped (kmem s) f w) (elf_phdrs (kmem s) f) (w OR 5))"
    "process_get i (put_kmem m s') = p" "task_queue s' (ts @ [t])" "task_page_directory (kmem s') t = c" "task_process (kmem s') t = p"
    "slot (kmem s') t 8 = e_entry (kmem s) em" "slot (kmem s') t 9 = USER_CODE_SEGMENT"
    "slot (kmem s') t 11 = PEACHOS_PROGRAM_VIRTUAL_STACK_ADDRESS_START" "slot (kmem s') t 12 = USER_DATA_SEGMENT"
    "process_stack (kmem s') p = stk" "process_id (kmem s') p = word_of_int i" "cstr (kmem s') (process_filename p) (take 107 name)"
    by (rule set_up_runs [OF assms]) (rule that; assumption)
  let ?B = "with_pages (A(stk \<mapsto> 4)) (t # c # d # ps)" and ?T = "span (processes_at s) 48"
  let ?X = "span (p + 112) 4 \<union> (\<Union>x \<in> set (c # d # ps). span x 4096) \<union> ?T"
  have r: "kheap_ready s' ?B" using u(2) by (simp add: chunk_owns_def)
  have old: "?B q = A q" if "A q \<noteq> None" for q using that u(3) by (auto simp: with_pages_def)
  have Bp: "?B p = Some 2" using old [of p] image_liveD(1) [OF assms(7)] by simp
  have Bt: "?B x = Some 1" if "x \<in> set (ts @ [t])" for x using that old [of x] assms(6) by (cases "x = t") simp_all
  have nx: "x \<notin> set (c # d # ps)" if "x \<in> set (ts @ [t])" for x using that u(3,4) assms(6) by auto
  note fr = set_up_frame [OF u(2) Bp Bt nx u(5) refl]
  have t: "t \<in> set (ts @ [t])" by simp
  have rr: "kheap_ready (put_kmem m s') ?B" using kh.put_ready [OF r u(6) fr(6) [OF t t]] by simp
  have x: "span x 64 \<inter> ?X = {}" if "x \<in> set (ts @ [t])" for x by (rule fr(1) [OF that that])
  have "agree_off ?X (kmem s') (kmem (put_kmem m s'))" using u(6) by (simp only: put_kmem_simps)
  then have q: "task_queue (put_kmem m s') (ts @ [t])" by (rule task_queue_frame [OF u(11) _ x]) simp_all
  have sl: "slot m t j = slot (kmem s') t j" if "j < 16" for j
    by (rule task_slot_frame [OF r Bt [OF t] u(6) x [OF t] that])
  have id: "process_id m p = word_of_int i" unfolding process_id_def u(19) [unfolded process_id_def, symmetric]
    by (rule read16_agree [OF u(6)]) (use fr(3) [OF t t, of 0 2] in simp)
  have stk: "process_stack m p = stk" unfolding process_stack_def u(18) [unfolded process_stack_def, symmetric]
    by (rule read32_agree [OF u(6)]) (use fr(2) [OF t t, of 4220 4] in simp)
  have "span (process_filename p) (Suc (length (take 107 name))) \<subseteq> span (process_filename p) 108" by (rule span_mono) simp
  then have nm: "cstr m (process_filename p) (take 107 name)"
    using fr(3) [OF t t, of 2 108] by (intro cstr_agree [OF u(20,6)]) (auto simp: process_filename_def)
  show ?thesis
    by (rule that [OF u(1) rr u(3,10) _ _ _ _ q]) (use u sl id stk nm in \<open>simp_all add: task_words\<close>)
qed

section \<open>An image on the booted heap\<close>

definition demo_launch :: procstate where
  "demo_launch = kheap_init (taskstate.extend (put_kmem ((\<lambda>_. 0)(0x600 := 0x61)) demo_taskstate)
     \<lparr>current_process = 0, processes_at = 0x3000, process_stat_at = 0x6100, process_mode_r_at = 0x504\<rparr>)"

lemma demo_launch_boot:
  "kheap_ready demo_launch (\<lambda>_. None)" "kheap_avail demo_launch = 25600" "kernel_heap demo_launch = boot_heap"
  "task_head demo_launch = 0" "task_tail demo_launch = 0" "current_task demo_launch = 0" "processes_at demo_launch = 0x3000"
  "cstr (kmem demo_launch) 0x600 [0x61]" "heap_apart demo_launch (\<lambda>_. None) (span 0x600 2)" "heap_apart demo_launch (\<lambda>_. None) (span 0x3000 48)"
proof -
  let ?s = "taskstate.extend (put_kmem ((\<lambda>_. 0)(0x600 := 0x61)) demo_taskstate)
     \<lparr>current_process = 0, processes_at = 0x3000, process_stat_at = 0x6100, process_mode_r_at = 0x504\<rparr>"
  show "kheap_ready demo_launch (\<lambda>_. None)" "kheap_avail demo_launch = 25600" "kernel_heap demo_launch = boot_heap"
    unfolding demo_launch_def using kheap_init_avail [of ?s] by simp_all
  obtain m where m: "kheap_init ?s = ?s\<lparr>kmem := m, kernel_heap := boot_heap\<rparr>" using kheap_init_eq by blast
  then show "task_head demo_launch = 0" "task_tail demo_launch = 0" "current_task demo_launch = 0" "processes_at demo_launch = 0x3000"
    by (simp_all add: demo_launch_def taskstate.defs demo_taskstate_def loadstate.defs put_kmem_def)
  show "heap_apart demo_launch (\<lambda>_. None) (span 0x600 2)" "heap_apart demo_launch (\<lambda>_. None) (span 0x3000 48)"
    unfolding demo_launch_def by (rule boot_apart; simp)+
  have a: "agree_off (span PEACHOS_HEAP_TABLE_ADDRESS 25600) (kmem ?s) (kmem demo_launch)"
    using kheap_init_empty [of ?s] by (simp add: demo_launch_def)
  have d: "span (0x600 :: u32) (Suc (length [0x61 :: u8])) \<inter> span PEACHOS_HEAP_TABLE_ADDRESS 25600 = {}"
    by (rule span_disjoint) simp_all
  have c: "cstr (kmem ?s) 0x600 [0x61]" by (simp add: taskstate.defs put_kmem_def)
  show "cstr (kmem demo_launch) 0x600 [0x61]" by (rule cstr_agree [OF c a d])
qed

lemma demo_alloc:
  assumes "kheap_ready s A" "sz \<noteq> 0" "unat sz = k" "blocks_of sz = n" "n \<le> 2" "25000 \<le> kheap_avail s" "kernel_heap s = boot_heap"
  obtains q m where "A q = None" "kheap_ready (put_kmem m s) (A(q \<mapsto> n))" "kheap_avail (put_kmem m s) + n = kheap_avail s"
    "\<forall>x \<in> span q k. m x = 0" "kept A (kmem s) m" "agree_off (kheap_spare s) (kmem s) m"
proof -
  have w: "800 * blocks_of sz \<le> num_blocks (kernel_heap s)" "num_blocks (kernel_heap s) < 800 + kheap_avail s"
    using assms(4-7) by simp_all
  note r = kheap_room_count [OF w]
  have l: "unat sz \<le> blocks_of sz * 4096" by linarith
  then have sz: "unat sz \<le> 4294963200" using assms(4,5) by simp
  obtain q m where q: "kzalloc sz s = (q, put_kmem m s)" "A q = None" "kheap_ready (put_kmem m s) (A(q \<mapsto> blocks_of sz))"
    "kheap_avail (put_kmem m s) + blocks_of sz = kheap_avail s" "\<forall>x \<in> span q (unat sz). m x = 0"
    "agree_off (kheap_reserved s \<union> span q (unat sz)) (kmem s) m"
    using kh.zalloc_fresh [OF assms(1,2) sz r] by auto
  have "span q (blocks_of sz * 4096) \<subseteq> kheap_spare s" using kh.zalloc_spare [OF assms(1,2) sz r q(1)] by simp
  then have "agree_off (kheap_spare s) (kmem s) m"
    using span_mono [OF l, of q] kh.reserved_spare [OF assms(1)] by (intro agree_off_mono [OF q(6)]) blast
  then show ?thesis using that [of q m] q(2-5) kzalloc_kept [OF assms(1) q(3,2,6) l] assms(3,4) by simp
qed

text \<open>An ELF file of one page with one segment: entry point 0x400000, program header at 52.\<close>

definition demo_image_at :: "u32 \<Rightarrow> mem \<Rightarrow> mem" where
  "demo_image_at em m = m(em + 26 := 0x40, em + 28 := 52, em + 44 := 1, em + 62 := 0x40, em + 73 := 0x10)"

lemma demo_image_reads:
  assumes "\<forall>x \<in> span em 84. m x = 0" "elf_memory m f = em" "span (f + 112) 4 \<inter> span em 84 = {}" "unat em mod 4096 = 0"
    "unat em + 4096 \<le> 0x7400000" "m' = demo_image_at em m"
  shows "agree_off (span em 84) m m'" "e_entry m' em = 0x400000" "elf_memory m' f = em" "elf_phdrs m' f = [em + 52]" "e_phnum m' em = 1"
    "segment_mapped m' f 0x400000 (em + 52) v = em OR 5" "segment_fits m' f (em + 52)"
proof -
  have z: "m (em + k) = 0" if "unat k < 84" for k using assms(1) that by (simp add: span_def)
  have b: "m' (em + 26) = 0x40" "m' (em + 28) = 52" "m' (em + 44) = 1" "m' (em + 62) = 0x40" "m' (em + 73) = 0x10"
    by (simp_all add: assms(6) demo_image_at_def)
  have o: "m' (em + k) = 0" if "unat k < 84" "k \<notin> {26, 28, 44, 62, 73}" for k
    using z [OF that(1)] that(2) by (simp add: assms(6) demo_image_at_def)
  show a: "agree_off (span em 84) m m'" by (auto simp: agree_off_def assms(6) demo_image_at_def span_def)
  show en: "e_entry m' em = 0x400000" by (simp add: e_entry_def read32_def b o add.assoc)
  show em: "elf_memory m' f = em" using read32_agree [OF a assms(3)] assms(2) by (simp add: elf_memory_def)
  show n: "e_phnum m' em = 1" by (simp add: e_phnum_def read16_def b o add.assoc)
  have "read32 m' (em + 28) = 52" by (simp add: read32_def b o add.assoc)
  then have "elf_pheader m' em = em + 52" by (simp add: elf_pheader_def e_phoff_def)
  then have ph: "phdr_at m' em 0 = em + 52" by (simp add: phdr_at_def elf_program_header_def)
  then show "elf_phdrs m' f = [em + 52]" by (simp add: em n)
  have h: "p_offset m' (em + 52) = 0" "p_vaddr m' (em + 52) = 0x400000" "p_memsz m' (em + 52) = 0x1000" "p_flags m' (em + 52) = 0"
    by (simp_all add: p_offset_def p_vaddr_def p_memsz_def p_flags_def read32_def b o add.assoc)
  have al: "paging_is_aligned em" "paging_is_aligned (4096 :: u32)" using assms(4) by (simp_all add: aligned_iff)
  have e: "paging_is_aligned (em + 4096)" by (rule aligned_add [OF al])
  have lo: "paging_align_to_lower_page em = em" "paging_align_to_lower_page (0x400000 :: u32) = 0x400000"
    using al(1) by (simp_all add: paging_align_to_lower_page_def paging_is_aligned_def)
  have hi: "paging_align_address (em + 4096) = em + 4096"
    using e by (simp add: paging_align_address_def paging_is_aligned_def)
  show "segment_mapped m' f 0x400000 (em + 52) v = em OR 5"
    by (simp add: segment_mapped_def elf_phdr_phys_address_def em h lo hi mapped_def)
  have "em \<le> em + 4096" using assms(5) by (simp add: word_le_nat_alt unat_word_ariths)
  then show "segment_fits m' f (em + 52)" by (simp add: segment_fits_def elf_phdr_phys_address_def em h lo hi)
qed

text \<open>Room for a process, the record of the loader and a file of one page.\<close>

lemma demo_image_space:
  obtains m p f em A where "A = [p \<mapsto> 2, f \<mapsto> 1, em \<mapsto> 1]" "A p = Some 2" "A f = Some 1" "A em = Some 1" "em \<noteq> p" "f \<noteq> p" "em \<noteq> f"
    "kheap_ready (put_kmem m demo_launch) A" "25000 \<le> kheap_avail (put_kmem m demo_launch)"
    "\<forall>x \<in> span p 5260. m x = 0" "\<forall>x \<in> span em 84. m x = 0" "cstr m 0x600 [0x61]"
    "heap_apart (put_kmem m demo_launch) A (span 0x600 2)" "heap_apart (put_kmem m demo_launch) A (span 0x3000 48)"
proof -
  note d = demo_launch_boot
  let ?s0 = demo_launch
  obtain p m1 where p: "kheap_ready (put_kmem m1 ?s0) [p \<mapsto> 2]" "kheap_avail (put_kmem m1 ?s0) + 2 = kheap_avail ?s0"
    "\<forall>x \<in> span p 5260. m1 x = 0" "agree_off (kheap_spare ?s0) (kmem ?s0) m1"
    by (rule demo_alloc [OF d(1), of 5260 5260 2]) (use d in simp_all)
  let ?s1 = "put_kmem m1 ?s0" and ?A1 = "[p \<mapsto> 2] :: u32 \<Rightarrow> nat option"
  have b1: "25000 \<le> kheap_avail ?s1" "kernel_heap ?s1 = boot_heap" using p(2) d(2,3) by simp_all
  obtain f m2 where f: "?A1 f = None" "kheap_ready (put_kmem m2 ?s1) (?A1(f \<mapsto> 1))" "kheap_avail (put_kmem m2 ?s1) + 1 = kheap_avail ?s1"
    "\<forall>x \<in> span f 132. m2 x = 0" "kept ?A1 (kmem ?s1) m2" "agree_off (kheap_spare ?s1) (kmem ?s1) m2"
    by (rule demo_alloc [OF p(1) _ _ _ _ b1, of 132 132 1]) simp_all
  let ?s2 = "put_kmem m2 ?s0" and ?A2 = "?A1(f \<mapsto> 1)"
  have r2: "kheap_ready ?s2 ?A2" using f(2) by simp
  have b2: "25000 \<le> kheap_avail ?s2" "kernel_heap ?s2 = boot_heap" using f(3) p(2) d(2,3) by simp_all
  obtain em m3 where e: "?A2 em = None" "kheap_ready (put_kmem m3 ?s2) (?A2(em \<mapsto> 1))" "kheap_avail (put_kmem m3 ?s2) + 1 = kheap_avail ?s2"
    "\<forall>x \<in> span em 84. m3 x = 0" "kept ?A2 (kmem ?s2) m3" "agree_off (kheap_spare ?s2) (kmem ?s2) m3"
    by (rule demo_alloc [OF r2 _ _ _ _ b2, of 84 84 1]) simp_all
  let ?s3 = "put_kmem m3 ?s0" and ?A = "?A2(em \<mapsto> 1)"
  have r3: "kheap_ready ?s3 ?A" using e(2) by simp
  have av: "25000 \<le> kheap_avail ?s3" using e(3) f(3) p(2) d(2) by simp
  have L: "?A p = Some 2" "?A f = Some 1" "?A em = Some 1" "em \<noteq> p" "f \<noteq> p" "em \<noteq> f"
    using f(1) e(1) by (auto split: if_splits)
  note pp = process_part [OF r3 L(1)]
  have pz: "m3 x = 0" if "x \<in> span p 5260" for x
  proof -
    have x: "x \<in> span p (2 * 4096)" using that pp(1) by blast
    have "m3 x = m2 x" using keptD [OF e(5), of p 2] x L by simp
    also have "\<dots> = m1 x" using keptD [OF f(5), of p 2] x by simp
    finally show ?thesis using p(3) that by simp
  qed
  have ap: "heap_apart t B T" if "heap_apart demo_launch (\<lambda>_. None) T" "kheap_ready t B" "kernel_heap t = boot_heap" for t :: procstate and B T
    by (rule static_apart [OF d(1) that(1,2)]) (use that(3) d(3) in simp_all)
  have T: "heap_apart ?s1 ?A1 (span 0x600 2)" "heap_apart ?s2 ?A2 (span 0x600 2)" "heap_apart ?s3 ?A (span 0x600 2)" "heap_apart ?s3 ?A (span 0x3000 48)"
    using ap [OF d(9) p(1)] ap [OF d(9) r2] ap [OF d(9) r3] ap [OF d(10) r3] d(3) by simp_all
  have len: "Suc (length [0x61 :: u8]) = 2" by simp
  have "cstr m1 0x600 [0x61]" using cstr_agree [OF d(8) p(4)] heap_apart_spare [OF d(9)] unfolding len by blast
  moreover have "agree_off (kheap_spare ?s1) m1 m2" "agree_off (kheap_spare ?s2) m2 m3" using f(6) e(6) by simp_all
  ultimately have cs: "cstr m3 0x600 [0x61]"
    using cstr_agree heap_apart_spare [OF T(1)] heap_apart_spare [OF T(2)] unfolding len [symmetric] by metis
  show ?thesis by (rule that [OF refl L r3 av _ e(4) cs T(3,4)]) (use pz in blast)
qed

lemma demo_image_built:
  obtains s A p f em where "kheap_ready (s :: procstate) A" "kernel_heap s = boot_heap" "25000 \<le> kheap_avail s" "task_queue s []"
    "image_live (kmem s) A p f em 1" "elf_phdrs (kmem s) f = [em + 52]" "segment_fits (kmem s) f (em + 52)"
    "\<forall>v. segment_mapped (kmem s) f 0x400000 (em + 52) v = em OR 5" "e_entry (kmem s) em = 0x400000"
    "cstr (kmem s) 0x600 [0x61]" "processes_at s = 0x3000" "heap_apart s A (span 0x600 2)" "heap_apart s A (span 0x3000 48)"
proof -
  note d = demo_launch_boot
  obtain m3 p f em A where g: "A = [p \<mapsto> 2, f \<mapsto> 1, em \<mapsto> 1]" and L: "A p = Some 2" "A f = Some 1" "A em = Some 1" "em \<noteq> p" "f \<noteq> p" "em \<noteq> f"
    and r3: "kheap_ready (put_kmem m3 demo_launch) A" and av: "25000 \<le> kheap_avail (put_kmem m3 demo_launch)"
    and pz: "\<forall>x \<in> span p 5260. m3 x = 0" and ez: "\<forall>x \<in> span em 84. m3 x = 0" and cs3: "cstr m3 0x600 [0x61]"
    and T: "heap_apart (put_kmem m3 demo_launch) A (span 0x600 2)" "heap_apart (put_kmem m3 demo_launch) A (span 0x3000 48)"
    by (rule demo_image_space)
  let ?s3 = "put_kmem m3 demo_launch"
  note pp = process_part [OF r3 L(1)]
  have dj: "span p 8192 \<inter> span f 4096 = {}" "span p 8192 \<inter> span em 4096 = {}" "span f 4096 \<inter> span em 4096 = {}"
    using kh.live_disjoint [OF r3 L(1,2)] kh.live_disjoint [OF r3 L(1,3)] kh.live_disjoint [OF r3 L(2,3)] L(4-6) by simp_all
  define ma where "ma = write32 m3 (p + 4216) f"
  define mb where "mb = write32 ma (f + 112) em"
  define mc where "mc = demo_image_at em mb"
  have in3: "span (p + 4216) 4 \<subseteq> span p 8192" "span (f + 112) 4 \<subseteq> span f 4096" "span em 84 \<subseteq> span em 4096"
    using pp(3) [of 4216 4] word_offset_in [of 112 112 4 4096 f] span_mono [of 84 4096 em] by simp_all
  have a: "agree_off (span (p + 4216) 4) m3 ma" "agree_off (span (f + 112) 4) ma mb" unfolding ma_def mb_def by (rule write32_agree)+
  have z: "\<forall>x \<in> span em 84. mb x = 0"
  proof
    fix x assume x: "x \<in> span em 84"
    then have n: "x \<notin> span (p + 4216) 4" "x \<notin> span (f + 112) 4" using dj in3 by blast+
    have "mb x = m3 x" using agree_offD [OF a(2) n(2)] agree_offD [OF a(1) n(1)] by simp
    then show "mb x = 0" using ez x by simp
  qed
  have fe: "span (f + 112) 4 \<inter> span em 84 = {}" using dj in3 by blast
  have eb: "unat em mod 4096 = 0" "unat em + 4096 \<le> 0x7400000"
    using kh.live_bounds [OF r3 L(3)] boot_heap_below [OF r3 L(3)] d(3) by simp_all
  have "elf_memory mb f = em" by (simp add: mb_def elf_memory_def)
  note im = demo_image_reads [OF z this fe eb mc_def]
  let ?s = "put_kmem mc demo_launch" and ?S = "span p 8192 \<union> span f 4096 \<union> span em 4096"
  have ac: "agree_off (span (f + 112) 4 \<union> span em 84) ma mc" by (rule agree_off_trans [OF a(2) im(1)])
  have aS: "agree_off ?S m3 mc"
    by (rule agree_off_mono [OF agree_off_trans [OF a(1) ac]]) (use in3 in blast)
  have res: "?S \<inter> kheap_reserved ?s3 = {}"
    using kh.live_reserved [OF r3 L(1)] kh.live_reserved [OF r3 L(2)] kh.live_reserved [OF r3 L(3)] by (simp add: Int_Un_distrib2)
  have "agree_off ?S (kmem ?s3) mc" using aS by simp
  from kh.put_ready [OF r3 this res] have r: "kheap_ready ?s A" "kheap_avail ?s = kheap_avail ?s3" by simp_all
  have pf: "process_ptr mc p = f" "process_filetype mc p = PROCESS_FILETYPE_ELF"
  proof -
    have "span (p + 4216) 4 \<inter> (span (f + 112) 4 \<union> span em 84) = {}" using dj in3 by blast
    then show "process_ptr mc p = f" using read32_agree [OF ac, of "p + 4216"] by (simp add: process_ptr_def ma_def)
    have x: "p + 4212 \<in> span p 5260" "p + 4212 \<notin> span (p + 4216) 4" by (simp_all add: span_def)
    then have "p + 4212 \<notin> span (f + 112) 4 \<union> span em 84" using pp(1) dj in3 by auto
    then have "mc (p + 4212) = m3 (p + 4212)" using agree_offD [OF ac] agree_offD [OF a(1) x(2)] by metis
    then show "process_filetype mc p = PROCESS_FILETYPE_ELF" using pz x(1) by (simp add: process_filetype_def)
  qed
  have ph: "phdr_at mc em 0 = em + 52" using im(4) unfolding im(3) by (simp add: im(5))
  have "span (em + 52) 32 \<subseteq> span em 4096" using word_offset_in [of 52 52 32 4096 em] by simp
  then have il: "image_live mc A p f em 1" unfolding image_live_def using L(4,5) by (auto simp: L(1-3) pf im(3,5) ph)
  have ap: "heap_apart ?s A S" if "heap_apart ?s3 A S" for S by (rule static_apart [OF r3 that r(1)]) simp_all
  have len: "Suc (length [0x61 :: u8]) = 2" by simp
  have "span 0x600 2 \<inter> ?S = {}"
    using heap_apart_live [OF T(1) L(1)] heap_apart_live [OF T(1) L(2)] heap_apart_live [OF T(1) L(3)] by auto
  then have cs: "cstr mc 0x600 [0x61]" using cstr_agree [OF cs3 aS] unfolding len by blast
  have q: "task_queue ?s []" using d(4-6) by (simp add: task_queue_def put_kmem_def)
  show ?thesis by (rule that [of ?s A p f em]) (use r av q il im cs ap [OF T(1)] ap [OF T(2)] d(3,7) in simp_all)
qed

text \<open>\<^verbatim>\<open>process_load_for_slot\<close> is \<open>process_set_up\<close> once the structure is allocated and the program loaded.\<close>

lemma process_load_for_slot_set_up:
  assumes "process_get i s = 0" "kzalloc 5260 s = (p, s1)" "p \<noteq> 0"
    "process_load_data dev filename p (put_kmem (process_init p (kmem s1)) s1) = Some (r, s2)" "0 \<le> r"
    "process_set_up filename p i s2 = Some (0, True, s')"
  shows "process_load_for_slot dev uninit filename i s = Some (0, Some p, s')"
  using assms by (simp add: process_load_for_slot_def process_load_into_def)

text \<open>C5: A process is created. With an ELF image on the heap whose segments fit, room for the stack and the
  address space, and an ordered task list, \<^verbatim>\<open>process_load_for_slot\<close> behind the loading returns
  0 and stores the process: in its slot of the table, with its number, the first 107 characters of its name, a new
  stack and a new task. The task is at the end of the task list, belongs to the process, and starts in user mode at
  the entry point of the image on the user stack. Its page tables map the segments of the image, writable only where
  they ask for it, and the stack below the stack address; every other page is the identity, readable.\<close>

theorem process_set_up_creates:
  assumes "kheap_ready s A" "kernel_heap s = boot_heap" "kheap_room s 4" "1031 \<le> kheap_avail s" "task_queue s ts" "\<forall>x \<in> set ts. A x = Some 1"
    "image_live (kmem s) A p f em k" "{f, em} \<inter> set ts = {}" "list_all (segment_fits (kmem s) f) (elf_phdrs (kmem s) f)"
    "cstr (kmem s) filename name" "heap_apart s A (span filename (Suc (length name)))"
    "heap_apart s A (span (processes_at s) 48)" "unat (processes_at s) + 48 \<le> 4294967296" "0 \<le> i" "i < 12"
  shows "\<exists>t d stk s'. process_set_up filename p i s = Some (0, True, s') \<and> A t = None \<and> A stk = None \<and>
    process_get i s' = p \<and> process_id (kmem s') p = word_of_int i \<and> process_task (kmem s') p = t \<and> process_stack (kmem s') p = stk \<and>
    cstr (kmem s') (process_filename p) (take 107 name) \<and> task_queue s' (ts @ [t]) \<and> task_process (kmem s') t = p \<and>
    slot (kmem s') t 8 = e_entry (kmem s) em \<and> slot (kmem s') t 9 = USER_CODE_SEGMENT \<and>
    slot (kmem s') t 11 = PEACHOS_PROGRAM_VIRTUAL_STACK_ADDRESS_START \<and> slot (kmem s') t 12 = USER_DATA_SEGMENT \<and>
    directory_entry (kmem s') (process_page_directory (kmem s') p) = d \<and>
    (\<forall>w. paging_is_aligned w \<longrightarrow> paging_get (kmem s') d w = mapped 0x3fb000 stk 16384 7 w
       (fold (segment_mapped (kmem s) f w) (elf_phdrs (kmem s) f) (w OR 5)))"
proof -
  obtain t c d ps stk s' where u: "process_set_up filename p i s = Some (0, True, s')"
    "kheap_ready s' (with_pages (A(stk \<mapsto> 4)) (t # c # d # ps))" "\<forall>x \<in> set (stk # t # c # d # ps). A x = None"
    "process_get i s' = p" "process_id (kmem s') p = word_of_int i" "process_task (kmem s') p = t" "process_stack (kmem s') p = stk"
    "cstr (kmem s') (process_filename p) (take 107 name)" "task_queue s' (ts @ [t])" "task_process (kmem s') t = p"
    "slot (kmem s') t 8 = e_entry (kmem s) em" "slot (kmem s') t 9 = USER_CODE_SEGMENT"
    "slot (kmem s') t 11 = PEACHOS_PROGRAM_VIRTUAL_STACK_ADDRESS_START" "slot (kmem s') t 12 = USER_DATA_SEGMENT"
    "task_page_directory (kmem s') t = c" "directory_entry (kmem s') c = d"
    "\<forall>w. paging_is_aligned w \<longrightarrow> paging_get (kmem s') d w = mapped 0x3fb000 stk 16384 7 w
       (fold (segment_mapped (kmem s) f w) (elf_phdrs (kmem s) f) (w OR 5))"
    by (rule set_up_creates [OF assms]) (rule that; assumption)
  have "A t = None" "A stk = None" using u(3) by simp_all
  moreover have "directory_entry (kmem s') (process_page_directory (kmem s') p) = d" using u(6,15,16) by (simp add: process_page_directory_def)
  ultimately show ?thesis using u(1,4-14,17) by - (intro exI conjI; assumption)
qed

theorem process_set_up_creates_witness:
  "\<exists>s p em t d s'. process_set_up 0x600 p 3 (s :: procstate) = Some (0, True, s') \<and> process_get 3 s' = p \<and> task_queue s' [t] \<and>
     task_process (kmem s') t = p \<and> slot (kmem s') t 8 = 0x400000 \<and>
     directory_entry (kmem s') (process_page_directory (kmem s') p) = d \<and> paging_get (kmem s') d 0x400000 = em OR 5"
proof -
  obtain s A p f em where i: "kheap_ready (s :: procstate) A" "kernel_heap s = boot_heap" "25000 \<le> kheap_avail s" "task_queue s []"
    "image_live (kmem s) A p f em 1" "elf_phdrs (kmem s) f = [em + 52]" "segment_fits (kmem s) f (em + 52)"
    "\<forall>v. segment_mapped (kmem s) f 0x400000 (em + 52) v = em OR 5" "e_entry (kmem s) em = 0x400000"
    "cstr (kmem s) 0x600 [0x61]" "processes_at s = 0x3000" "heap_apart s A (span 0x600 2)" "heap_apart s A (span 0x3000 48)"
    by (rule demo_image_built)
  have w: "800 * 4 \<le> num_blocks (kernel_heap s)" "num_blocks (kernel_heap s) < 800 + kheap_avail s" using i(2,3) by simp_all
  have h: "1031 \<le> kheap_avail s" "\<forall>x \<in> set []. A x = Some 1" "{f, em} \<inter> set [] = {}"
    "list_all (segment_fits (kmem s) f) (elf_phdrs (kmem s) f)"
    "heap_apart s A (span (processes_at s) 48)" "unat (processes_at s) + 48 \<le> 4294967296" "0 \<le> (3 :: int)" "(3 :: int) < 12"
    unfolding i(6) using i(3,7,11,13) by simp_all
  have "Suc (length [0x61 :: u8]) = 2" by simp
  then have nm: "heap_apart s A (span 0x600 (Suc (length [0x61 :: u8])))" by (simp only: i(12))
  obtain t d stk s' where u: "process_set_up 0x600 p 3 s = Some (0, True, s')" "process_get 3 s' = p" "task_queue s' ([] @ [t])"
    "task_process (kmem s') t = p" "slot (kmem s') t 8 = e_entry (kmem s) em" "directory_entry (kmem s') (process_page_directory (kmem s') p) = d"
    "\<forall>w. paging_is_aligned w \<longrightarrow> paging_get (kmem s') d w = mapped 0x3fb000 stk 16384 7 w
       (fold (segment_mapped (kmem s) f w) (elf_phdrs (kmem s) f) (w OR 5))"
    using process_set_up_creates [OF i(1,2) kheap_room_count [OF w] h(1) i(4) h(2) i(5) h(3,4) i(10) nm h(5-8)]
    by (elim exE conjE) (rule that; assumption)
  have "paging_is_aligned (0x400000 :: u32)" by (simp add: paging_is_aligned_def)
  then have "paging_get (kmem s') d 0x400000 = em OR 5" using u(7) i(6,8) by (simp add: mapped_def)
  then show ?thesis using u i(9) by (intro exI [of _ s] exI [of _ p] exI [of _ em] exI [of _ t] exI [of _ d] exI [of _ s']) simp
qed

end
