(* ===== verification/FileOpen.thy ===== *)
theory FileOpen
  imports File
begin

text \<open>
  From a path to the bytes of a file: what the path parser, the search of a FAT16 directory, the table of descriptors and
  the reads of \<^verbatim>\<open>src/fs/file.c\<close> and \<^verbatim>\<open>src/fs/fat/fat16.c\<close> do together. The search is a \<open>partial_function\<close> over the entries
  of a directory in memory; \<open>hits_from\<close> is the list of entries that it finds. Every allocation is followed through the
  heap (\<open>grows\<close>), so that what is opened is made of new pages and the directory, the paths and the other descriptors
  stay as they are.
\<close>

section \<open>The item of a file\<close>

text \<open>A \<^verbatim>\<open>struct fat_item\<close> of a file with its copy of the directory entry, both pages of their own.\<close>

definition file_item :: "mem \<Rightarrow> (u32 \<Rightarrow> nat option) \<Rightarrow> u32 \<Rightarrow> u8 list \<Rightarrow> bool" where
  "file_item m A f entry \<longleftrightarrow> f \<noteq> 0 \<and> A f = Some 1 \<and> fitem_type m f = FAT_ITEM_TYPE_FILE \<and> fitem_ptr m f \<noteq> f \<and>
     A (fitem_ptr m f) = Some 1 \<and> bytes m (fitem_ptr m f) 32 = entry"

lemma page_part: "A q = Some 1 \<Longrightarrow> kheap_ready s A \<Longrightarrow> n + l \<le> 4096 \<Longrightarrow> span (q + word_of_nat n) l \<inter> kheap_spare s = {}"
  using kh.live_spare [of s A q 1] word_offset_in [of "word_of_nat n" n l 4096 q] by fastforce

lemma file_item_frame:
  assumes "file_item (kmem s) A f e" "kheap_ready s A" "agree_off (kheap_spare s \<union> T) (kmem s) m" "heap_apart s A T" "map_le A A'"
  shows "file_item m A' f e" "fitem_ptr m f = fitem_ptr (kmem s) f"
proof -
  note i = assms(1) [unfolded file_item_def]
  have u: "A' q = Some 1" if "A q = Some 1" for q using that assms(5) by (auto simp: map_le_def dom_def)
  have r: "read32 m (f + word_of_nat n) = read32 (kmem s) (f + word_of_nat n)" if "n + 4 \<le> 4096" for n
  proof (rule read32_agree [OF assms(3)])
    have "span (f + word_of_nat n) 4 \<subseteq> span f 4096" using word_offset_in [of "word_of_nat n" n 4 4096 f] that by simp
    then show "span (f + word_of_nat n) 4 \<inter> (kheap_spare s \<union> T) = {}"
      using page_part [OF _ assms(2) that] heap_apart_page [OF assms(4), of f] i by blast
  qed
  have p: "fitem_ptr m f = fitem_ptr (kmem s) f" "fitem_type m f = fitem_type (kmem s) f"
    using r [of 0] r [of 4] by (simp_all add: fitem_ptr_def fitem_type_def)
  have "bytes m (fitem_ptr (kmem s) f) 32 = bytes (kmem s) (fitem_ptr (kmem s) f) 32"
  proof (rule bytes_agree [OF assms(3)])
    have "span (fitem_ptr (kmem s) f) 32 \<subseteq> span (fitem_ptr (kmem s) f) 4096" by (rule span_mono) simp
    then show "span (fitem_ptr (kmem s) f) 32 \<inter> (kheap_spare s \<union> T) = {}"
      using kh.live_spare [OF assms(2), of "fitem_ptr (kmem s) f" 1] heap_apart_page [OF assms(4)] i by fastforce
  qed simp
  then show "file_item m A' f e" unfolding file_item_def p using i u by simp
  show "fitem_ptr m f = fitem_ptr (kmem s) f" by (rule p(1))
qed

text \<open>An item made of what was not live in \<open>A\<close>.\<close>

definition fresh_item :: "(u32 \<Rightarrow> nat option) \<Rightarrow> mem \<Rightarrow> (u32 \<Rightarrow> nat option) \<Rightarrow> u32 \<Rightarrow> u8 list \<Rightarrow> bool" where
  "fresh_item A m A' f entry \<longleftrightarrow> A f = None \<and> A (fitem_ptr m f) = None \<and> file_item m A' f entry"

lemma fresh_item_sub: "fresh_item B m A' f e \<Longrightarrow> map_le A B \<Longrightarrow> fresh_item A m A' f e"
  unfolding fresh_item_def by (metis domIff map_le_def)

text \<open>An entry that is not a subdirectory becomes the item of a file.\<close>

lemma new_file_item:
  assumes "kheap_ready s A" "2 \<le> kheap_avail s" "item_attribute (kmem s) item AND FAT_FILE_SUBDIRECTORY = 0"
    "span item 32 \<inter> kheap_spare s = {}"
  obtains f s' A' where "fat16_new_fat_item_for_directory_item dev item s = Some (f, s')" "grows {} s s' A'"
    "kheap_avail s' + 2 = kheap_avail s" "map_le A A'" "fresh_item A (kmem s') A' f (bytes (kmem s) item 32)"
proof -
  have av: "0 < kheap_avail s" using assms(2) by simp
  obtain f s1 where f: "kzalloc 8 s = (f, s1)" "f \<noteq> 0" "A f = None" "grows {} s s1 (A(f \<mapsto> 1))" "kheap_avail s1 + 1 = kheap_avail s"
    "span f 4096 \<subseteq> kheap_spare s" "kheap_spare s1 \<inter> span f 4096 = {}"
    by (rule kzalloc_grows [OF assms(1) _ _ av, of 8]) simp_all
  let ?A1 = "A(f \<mapsto> 1)"
  have kept: "m' x = kmem s x" if "agree_off (kheap_spare s) (kmem s) m'" "x \<in> span item 32" for m' x
    using agree_offD [OF that(1)] that(2) assms(4) by blast
  have attr: "item_attribute (kmem s1) item = item_attribute (kmem s) item"
    using kept [OF growsD(3) [OF f(4), simplified], of "item + 11"] by (simp add: item_attribute_def span_def)
  define s4 where "s4 = put_kmem (write32 (kmem s1) (f + 4) FAT_ITEM_TYPE_FILE) s1"
  have in4: "span (f + 4) 4 \<subseteq> span f 4096" "span f 4 \<subseteq> span f 4096" using word_offset_in [of 4 4 4 4096 f] span_mono [of 4 4096 f] by simp_all
  have g4: "grows {} s s4 ?A1" "kheap_avail s4 = kheap_avail s1" "kheap_spare s4 = kheap_spare s1"
    unfolding s4_def by (rule grows_page [OF f(4) _ in4(1) _ write32_agree]; use in4(1) f(6) in auto)+
  have av4: "0 < kheap_avail s4" using f(5) g4(2) assms(2) by simp
  obtain c s5 where c: "kzalloc 32 s4 = (c, s5)" "c \<noteq> 0" "?A1 c = None" "grows {} s4 s5 (?A1(c \<mapsto> 1))" "kheap_avail s5 + 1 = kheap_avail s4"
    "span c 4096 \<subseteq> kheap_spare s4" "kheap_spare s5 \<inter> span c 4096 = {}"
    by (rule kzalloc_grows [OF growsD(1) [OF g4(1)] _ _ av4, of 32]) simp_all
  let ?A2 = "?A1(c \<mapsto> 1)"
  have g5: "grows {} s s5 ?A2" by (rule grows_trans [OF g4(1) c(4)]) simp
  have cs: "span c 4096 \<subseteq> kheap_spare s" using c(6) growsD(2) [OF g4(1)] by blast
  have c32: "span c 32 \<subseteq> span c 4096" by (rule span_mono) simp
  define m6 where "m6 = memcpy (kmem s5) c item 32"
  have a6: "agree_off (span c 32) (kmem s5) m6" using memcpy_loop_agree [of 32 c "kmem s5" item] by (simp add: m6_def memcpy_def)
  have ic: "span c 32 \<inter> span item 32 = {}" using c32 cs assms(4) by blast
  have b6: "bytes m6 c 32 = bytes (kmem s) item 32"
  proof -
    have "bytes m6 c 32 = bytes (kmem s5) item 32" using memcpy_loop_bytes [of 32 c item "kmem s5"] ic by (simp add: m6_def memcpy_def)
    also have "\<dots> = bytes (kmem s) item 32" by (rule bytes_agree [OF growsD(3) [OF g5]]) (use assms(4) in simp_all)
    finally show ?thesis .
  qed
  have g6: "grows {} s (put_kmem m6 s5) ?A2" "kheap_avail (put_kmem m6 s5) = kheap_avail s5"
    by (rule grows_page [OF g5 _ c32 _ a6]; use c32 cs in auto)+
  define m7 where "m7 = write32 m6 f c"
  have a7: "agree_off (span f 4) (kmem (put_kmem m6 s5)) m7" by (simp add: m7_def write32_agree)
  let ?s = "put_kmem m7 (put_kmem m6 s5)"
  have g7: "grows {} s ?s ?A2" "kheap_avail ?s = kheap_avail (put_kmem m6 s5)"
    by (rule grows_page [OF g6(1) _ in4(2) _ a7]; use in4(2) f(6) c(3) in auto)+
  have run: "fat16_new_fat_item_for_directory_item dev item s = Some (f, ?s)"
    using f(1,2) c(1,2) assms(3) attr
    by (simp add: fat16_new_fat_item_for_directory_item_def fat16_clone_directory_item_def s4_def [symmetric] m6_def m7_def)
  have fc: "f \<noteq> c" "?A2 f = Some 1" "?A2 c = Some 1" using c(3) by (auto split: if_splits)
  have dj: "span f 4096 \<inter> span c 4096 = {}"
    using kh.live_disjoint [OF growsD(1) [OF g7(1)] fc(2,3,1)] by simp
  have ft: "fitem_type m7 f = FAT_ITEM_TYPE_FILE"
  proof -
    have s4: "span (f + 4) 4 \<inter> span f 4 = {}" by (rule fields_apart)
    have "read32 m7 (f + 4) = read32 m6 (f + 4)" using s4 by (simp add: m7_def mem_simps)
    also have "\<dots> = read32 (kmem s5) (f + 4)" by (rule read32_agree [OF a6]) (use dj in4 c32 in blast)
    also have "\<dots> = read32 (kmem s4) (f + 4)"
      by (rule read32_agree [OF growsD(3) [OF c(4)]]) (use in4(1) f(7) g4(3) in auto)
    finally show ?thesis by (simp add: fitem_type_def s4_def)
  qed
  have pc: "fitem_ptr m7 f = c" by (simp add: fitem_ptr_def m7_def)
  moreover have "bytes m7 c 32 = bytes m6 c 32"
    by (rule bytes_agree [of "span f 4"]) (use a7 dj in4(2) c32 in auto)
  ultimately have fi: "file_item (kmem ?s) ?A2 f (bytes (kmem s) item 32)" using f(2) ft fc b6 by (simp add: file_item_def)
  have "map_le A ?A2" using f(3) c(3) by (auto simp: map_le_def dom_def split: if_splits)
  moreover have "A c = None" using c(3) by (auto split: if_splits)
  ultimately show ?thesis using that [of f ?s ?A2] run g7(1) f(3) fi pc fresh_item_def [of A m7] g7(2) g6(2) c(5) g4(2) f(5) by simp
qed

section \<open>Searching a directory\<close>

text \<open>The name of a directory entry, as \<open>fat16_get_full_relative_filename\<close> builds it; the runs end inside the entry.\<close>

definition entry_name :: "mem \<Rightarrow> u32 \<Rightarrow> u8 list \<Rightarrow> bool" where
  "entry_name m item name \<longleftrightarrow> (\<exists>b e. name = b @ (if e = [] then [] else 0x2e # e) \<and> field_run m item b \<and> field_run m (item + 8) e \<and>
     length b < 32 \<and> length e < 24)"

abbreviation entry_at :: "u32 \<Rightarrow> nat \<Rightarrow> u32" where
  "entry_at items i \<equiv> items + 32 * word_of_nat i"

text \<open>A directory with the entries \<open>names\<close> at \<open>items\<close>, and where it is.\<close>

definition dir_listing :: "mem \<Rightarrow> u32 \<Rightarrow> u32 \<Rightarrow> u8 list list \<Rightarrow> bool" where
  "dir_listing m directory items names \<longleftrightarrow> dir_item m directory = items \<and> dir_total m directory = int (length names) \<and>
     unat items + 32 * length names \<le> 4294967296 \<and> (\<forall>i < length names. entry_name m (entry_at items i) (names ! i))"

definition listing_region :: "u32 \<Rightarrow> u32 \<Rightarrow> nat \<Rightarrow> u32 set" where
  "listing_region directory items n = span directory 8 \<union> span items (32 * n)"

text \<open>The entries that a name finds, from entry \<open>i\<close> on: names are compared without regard to case.\<close>

definition hits_from :: "nat \<Rightarrow> u8 list list \<Rightarrow> u8 list \<Rightarrow> nat list" where
  "hits_from i names name = filter (\<lambda>j. map tolower (names ! j) = map tolower name) [i..<length names]"

lemma hits_from_step:
  assumes "i < length names"
  shows "hits_from i names name =
    (if map tolower (names ! i) = map tolower name then i # hits_from (Suc i) names name else hits_from (Suc i) names name)"
  using assms by (simp add: hits_from_def upt_conv_Cons)

lemma hits_from_end: "hits_from (length names) names name = []"
  by (simp add: hits_from_def)

lemma entry_span:
  assumes "unat items + 32 * n \<le> 4294967296" "i < n"
  shows "span (entry_at items i) 32 \<subseteq> span items (32 * n)"
proof -
  have "unat (word_of_nat (32 * i) :: u32) = 32 * i" using assms by (simp add: unat_of_nat del: of_nat_mult)
  then have "unat (32 * word_of_nat i :: u32) = 32 * i" by simp
  then have "unat (entry_at items i) = unat items + 32 * i" using assms by (simp add: unat_word_ariths)
  then show ?thesis using assms by (intro span_subset) simp_all
qed

lemma entry_name_agree:
  assumes "entry_name m item name" "agree_off S m m'" "span item 32 \<inter> S = {}"
  shows "entry_name m' item name"
proof -
  obtain b e where e: "name = b @ (if e = [] then [] else 0x2e # e)" "field_run m item b" "field_run m (item + 8) e" "length b < 32" "length e < 24"
    using assms(1) by (auto simp: entry_name_def)
  have "span item (Suc (length b)) \<subseteq> span item 32" "span (item + 8) (Suc (length e)) \<subseteq> span item 32"
    using e(4,5) span_mono [of "Suc (length b)" 32 item] word_offset_in [of 8 8 "Suc (length e)" 32 item] by simp_all
  then have "span item (Suc (length b)) \<inter> S = {}" "span (item + 8) (Suc (length e)) \<inter> S = {}" using assms(3) by blast+
  then have "field_run m' item b" "field_run m' (item + 8) e"
    using field_run_agree [OF assms(2) _ _ e(2)] field_run_agree [OF assms(2) _ _ e(3)] e(4,5) by simp_all
  then show ?thesis unfolding entry_name_def using e by blast
qed

lemma entry_name_length: "entry_name m item name \<Longrightarrow> length name < 56"
  by (auto simp: entry_name_def)

text \<open>One comparison: the buffer is filled with the name of the entry.\<close>

lemma entry_compared:
  assumes "entry_name m item nm" "span out 108 \<inter> span item 32 = {}" "cstr m q name" "length name < 108"
    "span out 108 \<inter> span q (Suc (length name)) = {}"
  obtains m' where "fat16_get_full_relative_filename m item out 108 = Some m'" "agree_off (span out 108) m m'"
    "istrncmp m' out q 108 = 0 \<longleftrightarrow> map tolower nm = map tolower name"
proof -
  obtain b e where e: "nm = b @ (if e = [] then [] else 0x2e # e)" "field_run m item b" "field_run m (item + 8) e" "length b < 32" "length e < 24"
    using assms(1) by (auto simp: entry_name_def)
  have "span item (Suc (length b)) \<subseteq> span item 32" "span (item + 8) (Suc (length e)) \<subseteq> span item 32"
    using e(4,5) span_mono [of "Suc (length b)" 32 item] word_offset_in [of 8 8 "Suc (length e)" 32 item] by simp_all
  then have s: "span out 108 \<inter> span item (Suc (length b)) = {}" "span out 108 \<inter> span (item + 8) (Suc (length e)) = {}" using assms(2) by blast+
  have l: "length b + length e < 107" using e(4,5) by simp
  obtain m' where m': "fat16_get_full_relative_filename m item out 108 = Some m'" "cstr m' out nm" "agree_off (span out 108) m m'"
    using full_relative_filename_spec [OF e(2,3) l s] e(1) by blast
  have "cstr m' q name" by (rule cstr_agree [OF assms(3) m'(3)]) (use assms(5) in blast)
  then have "upto_nul m' q 108 = name" using upto_nul_cstr assms(4) by simp
  moreover have "upto_nul m' out 108 = nm" using upto_nul_cstr [OF m'(2)] entry_name_length [OF assms(1)] by simp
  ultimately have "istrncmp m' out q 108 = 0 \<longleftrightarrow> map tolower nm = map tolower name"
    unfolding istrncmp_def istrncmp_loop_0_iff by simp
  then show ?thesis using that m' by blast
qed

lemma dir_listing_agree:
  assumes "dir_listing m d items names" "agree_off S m m'" "listing_region d items (length names) \<inter> S = {}"
  shows "dir_listing m' d items names"
proof -
  note l = assms(1) [unfolded dir_listing_def]
  have s: "span d 8 \<inter> S = {}" "span items (32 * length names) \<inter> S = {}" using assms(3) unfolding listing_region_def by blast+
  have "span d 4 \<subseteq> span d 8" "span (d + 4) 4 \<subseteq> span d 8" using span_mono [of 4 8 d] word_offset_in [of 4 4 4 8 d] by simp_all
  then have "dir_item m' d = dir_item m d" "dir_total m' d = dir_total m d"
    using s(1) unfolding dir_item_def dir_total_def by (auto intro!: read32_agree [OF assms(2)] arg_cong [of _ _ sint])
  moreover have "entry_name m' (entry_at items i) (names ! i)" if "i < length names" for i
    using entry_name_agree [OF _ assms(2)] entry_span [of items "length names" i] l s(2) that by blast
  ultimately show ?thesis using l by (simp add: dir_listing_def)
qed

text \<open>A search: the directory and the name are where neither the heap nor the buffer for names writes.\<close>

definition search_ok :: "'z fatstate_scheme \<Rightarrow> (u32 \<Rightarrow> nat option) \<Rightarrow> u32 \<Rightarrow> u32 \<Rightarrow> u8 list list \<Rightarrow> u32 \<Rightarrow> u8 list \<Rightarrow> bool" where
  "search_ok s A directory items names q name \<longleftrightarrow> kheap_ready s A \<and> dir_listing (kmem s) directory items names \<and>
     cstr (kmem s) q name \<and> length name < 108 \<and> heap_apart s A (span (tmp_filename_at s) 108) \<and>
     (listing_region directory items (length names) \<union> span q (Suc (length name))) \<inter> (kheap_spare s \<union> span (tmp_filename_at s) 108) = {}"

lemma search_okD:
  assumes "search_ok s A directory items names q name"
  shows "kheap_ready s A" "dir_listing (kmem s) directory items names" "cstr (kmem s) q name" "length name < 108"
    "heap_apart s A (span (tmp_filename_at s) 108)"
    "listing_region directory items (length names) \<inter> (kheap_spare s \<union> span (tmp_filename_at s) 108) = {}"
    "span q (Suc (length name)) \<inter> (kheap_spare s \<union> span (tmp_filename_at s) 108) = {}"
    "i < length names \<Longrightarrow> span (entry_at items i) 32 \<inter> (kheap_spare s \<union> span (tmp_filename_at s) 108) = {}"
proof -
  note u = assms [unfolded search_ok_def]
  show l: "dir_listing (kmem s) directory items names" using u by blast
  show "kheap_ready s A" "cstr (kmem s) q name" "length name < 108" "heap_apart s A (span (tmp_filename_at s) 108)" using u by blast+
  show r: "listing_region directory items (length names) \<inter> (kheap_spare s \<union> span (tmp_filename_at s) 108) = {}"
    "span q (Suc (length name)) \<inter> (kheap_spare s \<union> span (tmp_filename_at s) 108) = {}" using u by (simp_all add: Int_Un_distrib2)
  show "i < length names \<Longrightarrow> span (entry_at items i) 32 \<inter> (kheap_spare s \<union> span (tmp_filename_at s) 108) = {}"
    using entry_span [of items "length names" i] l r(1) unfolding dir_listing_def listing_region_def by blast
qed

text \<open>It stays one while the heap grows and the buffer is written, and the entries stay as they are.\<close>

lemma search_ok_grows:
  assumes "search_ok s A d items names q name" "grows (span (tmp_filename_at s) 108) s s' A'" "map_le A A'"
  shows "search_ok s' A' d items names q name" "tmp_filename_at s' = tmp_filename_at s"
    "i < length names \<Longrightarrow> bytes (kmem s') (entry_at items i) 32 = bytes (kmem s) (entry_at items i) 32"
    "i < length names \<Longrightarrow> item_attribute (kmem s') (entry_at items i) = item_attribute (kmem s) (entry_at items i)"
proof -
  note o = search_okD [OF assms(1)] and g = growsD [OF assms(2)]
  show t: "tmp_filename_at s' = tmp_filename_at s" by (subst g(4)) (simp add: put_kmem_def)
  have "kernel_heap s' = kernel_heap s" by (subst g(4)) simp
  moreover have "A' x = A x" if "A x \<noteq> None" for x using assms(3) that by (auto simp: map_le_def dom_def)
  ultimately have ap: "heap_apart s' A' (span (tmp_filename_at s) 108)" by (intro static_apart [OF o(1,5) g(1)]) simp_all
  have "cstr (kmem s') q name" by (rule cstr_agree [OF o(3) g(3) o(7)])
  moreover have "dir_listing (kmem s') d items names" by (rule dir_listing_agree [OF o(2) g(3) o(6)])
  ultimately show "search_ok s' A' d items names q name" unfolding search_ok_def t using g(1,2) o(4,6,7) ap by blast
  show "i < length names \<Longrightarrow> bytes (kmem s') (entry_at items i) 32 = bytes (kmem s) (entry_at items i) 32"
    using bytes_agree [OF g(3) o(8)] by simp
  show "i < length names \<Longrightarrow> item_attribute (kmem s') (entry_at items i) = item_attribute (kmem s) (entry_at items i)"
  proof -
    assume i: "i < length names"
    have "entry_at items i + 11 \<in> span (entry_at items i) 32" by (simp add: span_def)
    then have "entry_at items i + 11 \<notin> kheap_spare s \<union> span (tmp_filename_at s) 108" using o(8) [OF i] by blast
    then show ?thesis unfolding item_attribute_def by (rule agree_offD [OF g(3)])
  qed
qed

lemma search_compares:
  assumes "search_ok s A d items names q name" "i < length names"
  obtains m where "fat16_get_full_relative_filename (kmem s) (entry_at items i) (tmp_filename_at s) 108 = Some m"
    "istrncmp m (tmp_filename_at s) q 108 = 0 \<longleftrightarrow> map tolower (names ! i) = map tolower name"
    "grows (span (tmp_filename_at s) 108) s (put_kmem m s) A" "kheap_avail (put_kmem m s) = kheap_avail s"
proof -
  note o = search_okD [OF assms(1)]
  let ?T = "span (tmp_filename_at s) 108"
  have "entry_name (kmem s) (entry_at items i) (names ! i)" using o(2) assms(2) by (simp add: dir_listing_def)
  then obtain m where m: "fat16_get_full_relative_filename (kmem s) (entry_at items i) (tmp_filename_at s) 108 = Some m" "agree_off ?T (kmem s) m"
    "istrncmp m (tmp_filename_at s) q 108 = 0 \<longleftrightarrow> map tolower (names ! i) = map tolower name"
    by (rule entry_compared [OF _ _ o(3,4)]) (use o(7,8) assms(2) in blast)+
  have "?T \<inter> kheap_reserved s = {}" using heap_apart_spare [OF o(5)] kh.reserved_spare [OF o(1)] by blast
  note p = kh.put_ready [OF o(1) m(2) this] kh.put_spare [OF o(1) m(2) this]
  have "agree_off (kheap_spare s \<union> ?T) (kmem s) m" by (rule agree_off_mono [OF m(2)]) blast
  then have "grows ?T s (put_kmem m s) A" unfolding grows_def using p by blast
  then show ?thesis using that m p by blast
qed

lemma find_item_loop_spec:
  fixes s :: "'z fatstate_scheme"
  assumes "search_ok s A d items names q name" "i \<le> length names"
    "\<forall>j \<in> set (hits_from i names name). item_attribute (kmem s) (entry_at items j) AND FAT_FILE_SUBDIRECTORY = 0"
    "2 * length (hits_from i names name) \<le> kheap_avail s"
  shows "\<exists>f' s' A'. find_item_loop dev d q (int i) f s = Some (f', s') \<and> grows (span (tmp_filename_at s) 108) s s' A' \<and>
    kheap_avail s' + 2 * length (hits_from i names name) = kheap_avail s \<and> map_le A A' \<and>
    (if hits_from i names name = [] then f' = f \<and> A' = A
     else fresh_item A (kmem s') A' f' (bytes (kmem s) (entry_at items (last (hits_from i names name))) 32))"
  using assms
proof (induction "length names - i" arbitrary: i s A f)
  case 0
  have "i = length names" using 0 by simp
  moreover have "dir_total (kmem s) d = int (length names)" using search_okD(2) [OF 0(2)] by (simp add: dir_listing_def)
  ultimately have "find_item_loop dev d q (int i) f s = Some (f, s)" by (subst find_item_loop.simps) simp
  moreover have "grows (span (tmp_filename_at s) 108) s s A"
    using search_okD(1) [OF 0(2)] unfolding grows_def by (intro conjI exI [of _ "kmem s"]) (simp_all add: put_kmem_def)
  ultimately show ?case using \<open>i = length names\<close> by (simp add: hits_from_end)
next
  case (Suc k)
  have i: "i < length names" "k = length names - Suc i" "Suc i \<le> length names" using Suc.hyps(2) by simp_all
  have e1: "int (Suc i) = int i + 1" by simp
  note o = search_okD [OF Suc.prems(1)]
  let ?T = "span (tmp_filename_at s) 108" and ?item = "entry_at items i" and ?H = "hits_from (Suc i) names name"
  have d: "dir_total (kmem s) d = int (length names)" "dir_item (kmem s) d = items" using o(2) by (simp_all add: dir_listing_def)
  obtain m where m: "fat16_get_full_relative_filename (kmem s) ?item (tmp_filename_at s) 108 = Some m"
    "istrncmp m (tmp_filename_at s) q 108 = 0 \<longleftrightarrow> map tolower (names ! i) = map tolower name"
    "grows ?T s (put_kmem m s) A" "kheap_avail (put_kmem m s) = kheap_avail s"
    by (rule search_compares [OF Suc.prems(1) i(1)])
  let ?s1 = "put_kmem m s"
  note s1 = search_ok_grows [OF Suc.prems(1) m(3) map_le_refl]
  have d1: "dir_item m d = items" using search_okD(2) [OF s1(1)] by (simp add: dir_listing_def)
  have in_names: "j < length names" if "j \<in> set (hits_from i' names name)" for j i' using that by (simp add: hits_from_def)
  show ?case
  proof (cases "map tolower (names ! i) = map tolower name")
    case False
    then have h: "hits_from i names name = ?H" using hits_from_step [OF i(1)] by simp
    have at: "\<forall>j \<in> set ?H. item_attribute (kmem ?s1) (entry_at items j) AND FAT_FILE_SUBDIRECTORY = 0"
      using Suc.prems(3) s1(4) in_names unfolding h by simp
    have av: "2 * length ?H \<le> kheap_avail ?s1" using Suc.prems(4) m(4) unfolding h by simp
    obtain f' s' A' where r: "find_item_loop dev d q (int (Suc i)) f ?s1 = Some (f', s')" "grows (span (tmp_filename_at ?s1) 108) ?s1 s' A'"
      "kheap_avail s' + 2 * length ?H = kheap_avail ?s1" "map_le A A'"
      "if ?H = [] then f' = f \<and> A' = A else fresh_item A (kmem s') A' f' (bytes (kmem ?s1) (entry_at items (last ?H)) 32)"
      using Suc.hyps(1) [OF i(2) s1(1) i(3) at av, of f] by blast
    have g: "grows ?T s s' A'" by (rule grows_trans [OF m(3) r(2) [unfolded s1(2)]]) simp
    have b: "bytes (kmem ?s1) (entry_at items (last ?H)) 32 = bytes (kmem s) (entry_at items (last ?H)) 32" if "?H \<noteq> []"
      using s1(3) in_names [OF last_in_set [OF that]] .
    have "find_item_loop dev d q (int i) f s = Some (f', s')"
      using r(1) [unfolded e1] m(1,2) False i(1) d by (subst find_item_loop.simps) simp
    then show ?thesis using g r(3-5) m(4) b unfolding h by (intro exI [of _ f'] exI [of _ s'] exI [of _ A']) auto
  next
    case True
    then have h: "hits_from i names name = i # ?H" using hits_from_step [OF i(1)] by simp
    have "item_attribute (kmem ?s1) ?item AND FAT_FILE_SUBDIRECTORY = 0" using Suc.prems(3) s1(4) [OF i(1)] unfolding h by simp
    moreover have "2 \<le> kheap_avail ?s1" using Suc.prems(4) m(4) unfolding h by simp
    moreover have "span ?item 32 \<inter> kheap_spare ?s1 = {}" using search_okD(8) [OF s1(1) i(1)] by blast
    ultimately obtain f1 s2 A2 where f: "fat16_new_fat_item_for_directory_item dev ?item ?s1 = Some (f1, s2)" "grows {} ?s1 s2 A2"
      "kheap_avail s2 + 2 = kheap_avail ?s1" "map_le A A2" "fresh_item A (kmem s2) A2 f1 (bytes (kmem ?s1) ?item 32)"
      using new_file_item [OF search_okD(1) [OF s1(1)]] by metis
    note s2 = search_ok_grows [OF s1(1) grows_mono [OF f(2) empty_subsetI] f(4)]
    have at: "\<forall>j \<in> set ?H. item_attribute (kmem s2) (entry_at items j) AND FAT_FILE_SUBDIRECTORY = 0"
      using Suc.prems(3) s1(4) s2(4) in_names unfolding h by simp
    have av: "2 * length ?H \<le> kheap_avail s2" using Suc.prems(4) m(4) f(3) unfolding h by simp
    obtain f' s' A' where r: "find_item_loop dev d q (int (Suc i)) f1 s2 = Some (f', s')" "grows (span (tmp_filename_at s2) 108) s2 s' A'"
      "kheap_avail s' + 2 * length ?H = kheap_avail s2" "map_le A2 A'"
      "if ?H = [] then f' = f1 \<and> A' = A2 else fresh_item A2 (kmem s') A' f' (bytes (kmem s2) (entry_at items (last ?H)) 32)"
      using Suc.hyps(1) [OF i(2) s2(1) i(3) at av, of f1] by blast
    have T: "span (tmp_filename_at s2) 108 = ?T" using s1(2) s2(2) by simp
    have g: "grows ?T s s' A'"
      by (rule grows_trans [OF grows_trans [OF m(3) f(2)] r(2) [unfolded T]]) simp_all
    have run: "find_item_loop dev d q (int i) f s = Some (f', s')"
      using r(1) [unfolded e1] m(1,2) True i(1) d d1 f(1) by (subst find_item_loop.simps) simp
    have le: "map_le A A'" using f(4) r(4) by (rule map_le_trans)
    have fin: "fresh_item A (kmem s') A' f' (bytes (kmem s) (entry_at items (last (i # ?H))) 32)"
    proof (cases "?H = []")
      case True
      then have e: "f' = f1" "A' = A2" using r(5) by simp_all
      have "file_item (kmem s2) A2 f1 (bytes (kmem ?s1) ?item 32)" using f(5) by (simp add: fresh_item_def)
      note file_item_frame [OF this growsD(1) [OF f(2)] growsD(3) [OF r(2)] search_okD(5) [OF s2(1)] map_le_refl]
      then show ?thesis using f(5) s1(3) [OF i(1)] unfolding e True by (simp add: fresh_item_def)
    next
      case False
      then have "fresh_item A (kmem s') A' f' (bytes (kmem s2) (entry_at items (last ?H)) 32)" using r(5) fresh_item_sub [OF _ f(4)] by simp
      moreover have l: "last ?H < length names" using in_names [OF last_in_set [OF False]] .
      ultimately show ?thesis using s1(3) [OF l] s2(3) [OF l] False by simp
    qed
    show ?thesis using run g r(3) f(3) m(4) le fin unfolding h by (intro exI [of _ f'] exI [of _ s'] exI [of _ A']) simp
  qed
qed

section \<open>Opening a file\<close>

lemma part_agree:
  assumes "agree_off S m m'" "span p 8 \<inter> S = {}"
  shows "part_str m' p = part_str m p" "part_next m' p = part_next m p"
proof -
  have "span p 4 \<subseteq> span p 8" "span (p + 4) 4 \<subseteq> span p 8" using span_mono [of 4 8 p] word_offset_in [of 4 4 4 8 p] by simp_all
  then show "part_str m' p = part_str m p" "part_next m' p = part_next m p"
    using assms(2) unfolding part_str_def part_next_def by (auto intro!: read32_agree [OF assms(1)])
qed

text \<open>Everything is a file: an item that is found in the root directory does not lead on to a second part.\<close>

lemma get_directory_entry_spec:
  fixes s :: "'z fatstate_scheme"
  assumes "search_ok s A (root_directory (disk_fs_private (the_disk s))) items names (part_str (kmem s) p) name"
    "span p 8 \<inter> (kheap_spare s \<union> span (tmp_filename_at s) 108) = {}" "H = hits_from 0 names name"
    "\<forall>j \<in> set H. item_attribute (kmem s) (entry_at items j) AND FAT_FILE_SUBDIRECTORY = 0" "2 * length H \<le> kheap_avail s"
  obtains f s' A' where "fat16_get_directory_entry dev p s = Some (if H = [] \<or> part_next (kmem s) p \<noteq> 0 then 0 else f, s')"
    "grows (span (tmp_filename_at s) 108) s s' A'" "kheap_avail s' + 2 * length H = kheap_avail s" "map_le A A'"
    "H \<noteq> [] \<longrightarrow> fresh_item A (kmem s') A' f (bytes (kmem s) (entry_at items (last H)) 32)"
proof -
  let ?d = "root_directory (disk_fs_private (the_disk s))" and ?T = "span (tmp_filename_at s) 108"
  obtain f s' A' where f: "find_item_loop dev ?d (part_str (kmem s) p) (int 0) 0 s = Some (f, s')" "grows ?T s s' A'"
    "kheap_avail s' + 2 * length H = kheap_avail s" "map_le A A'"
    "if H = [] then f = 0 \<and> A' = A else fresh_item A (kmem s') A' f (bytes (kmem s) (entry_at items (last H)) 32)"
    using find_item_loop_spec [OF assms(1) le0, folded assms(3), OF assms(4,5), of dev 0] by blast
  note pt = part_agree [OF growsD(3) [OF f(2)] assms(2)]
  have run: "fat16_find_item_in_directory dev ?d (part_str (kmem s) p) s = Some (f, s')"
    using f(1) by (simp add: fat16_find_item_in_directory_def)
  have "fat16_get_directory_entry dev p s = Some (if H = [] \<or> part_next (kmem s) p \<noteq> 0 then 0 else f, s')"
  proof (cases "H = []")
    case True
    then show ?thesis using run f(5) by (simp add: fat16_get_directory_entry_def)
  next
    case False
    then have i: "f \<noteq> 0" "fitem_type (kmem s') f = FAT_ITEM_TYPE_FILE" using f(5) by (simp_all add: fresh_item_def file_item_def)
    have "descend dev f (part_next (kmem s) p) s' = Some (if part_next (kmem s) p \<noteq> 0 then 0 else f, s')"
      using i(2) by (subst descend.simps) simp
    then show ?thesis using run i(1) pt(2) False by (simp add: fat16_get_directory_entry_def)
  qed
  then show ?thesis using that f(2-5) by simp
qed

text \<open>An open descriptor of the driver: at the start of a file with the directory entry \<open>e\<close>.\<close>

definition opened_file :: "mem \<Rightarrow> (u32 \<Rightarrow> nat option) \<Rightarrow> u32 \<Rightarrow> u8 list \<Rightarrow> bool" where
  "opened_file m A r e \<longleftrightarrow> r \<noteq> 0 \<and> A r = Some 1 \<and> fdesc_pos m r = 0 \<and> file_item m A (fdesc_item m r) e"

lemma opened_file_frame:
  assumes "opened_file (kmem s) A r e" "kheap_ready s A" "agree_off (kheap_spare s \<union> T) (kmem s) m" "heap_apart s A T" "map_le A A'"
  shows "opened_file m A' r e" "fitem_ptr m (fdesc_item m r) = fitem_ptr (kmem s) (fdesc_item (kmem s) r)"
proof -
  note o = assms(1) [unfolded opened_file_def]
  have f: "span (r + word_of_nat n) 4 \<inter> (kheap_spare s \<union> T) = {}" if "n + 4 \<le> 4096" for n
  proof -
    have "span (r + word_of_nat n) 4 \<subseteq> span r 4096" using word_offset_in [of "word_of_nat n" n 4 4096 r] that by simp
    then show ?thesis using page_part [OF _ assms(2) that] heap_apart_page [OF assms(4), of r] o by blast
  qed
  have i: "fdesc_item m r = fdesc_item (kmem s) r" "fdesc_pos m r = fdesc_pos (kmem s) r"
    using read32_agree [OF assms(3)] f [of 0] f [of 4] by (simp_all add: fdesc_item_def fdesc_pos_def)
  moreover have "A' r = Some 1" using o assms(5) by (auto simp: map_le_def dom_def)
  moreover have fi: "file_item (kmem s) A (fdesc_item (kmem s) r) e" using o by blast
  ultimately show "opened_file m A' r e" using o file_item_frame(1) [OF fi assms(2-5)] by (simp add: opened_file_def)
  show "fitem_ptr m (fdesc_item m r) = fitem_ptr (kmem s) (fdesc_item (kmem s) r)" using file_item_frame(2) [OF fi assms(2-5)] i by simp
qed

text \<open>One that is made of what was not live in \<open>A\<close>.\<close>

definition fresh_file :: "(u32 \<Rightarrow> nat option) \<Rightarrow> mem \<Rightarrow> (u32 \<Rightarrow> nat option) \<Rightarrow> u32 \<Rightarrow> u8 list \<Rightarrow> bool" where
  "fresh_file A m A' r e \<longleftrightarrow> A r = None \<and> A (fitem_ptr m (fdesc_item m r)) = None \<and> opened_file m A' r e"

lemma fresh_file_sub: "fresh_file B m A' r e \<Longrightarrow> map_le A B \<Longrightarrow> fresh_file A m A' r e"
  unfolding fresh_file_def by (metis domIff map_le_def)

text \<open>The descriptor is filled in.\<close>

lemma descriptor_filled:
  assumes "kheap_ready s A" "file_item (kmem s) A f e" "A r = Some 1" "r \<noteq> 0" "f \<noteq> r" "fitem_ptr (kmem s) f \<noteq> r"
  shows "opened_file (write32 (write32 (kmem s) r f) (r + 4) 0) A r e"
    "fitem_ptr (write32 (write32 (kmem s) r f) (r + 4) 0) (fdesc_item (write32 (write32 (kmem s) r f) (r + 4) 0) r) = fitem_ptr (kmem s) f"
proof -
  let ?c = "fitem_ptr (kmem s) f" and ?m3 = "write32 (kmem s) r f" and ?m4 = "write32 (write32 (kmem s) r f) (r + 4) 0"
  have fi: "A f = Some 1" "A ?c = Some 1" using assms(2) by (simp_all add: file_item_def)
  have sub: "span r 4 \<union> span (r + 4) 4 \<subseteq> span r 8" using span_mono [of 4 8 r] word_offset_in [of 4 4 4 8 r] by simp
  have a: "agree_off (span r 4) (kmem s) ?m3" "agree_off (span (r + 4) 4) ?m3 ?m4" by (rule write32_agree)+
  have af: "agree_off (span r 8) (kmem s) ?m4" by (rule agree_off_mono [OF agree_off_trans [OF a] sub])
  have r8: "span r 8 \<subseteq> span r 4096" by (rule span_mono) simp
  have dj: "span f 4096 \<inter> span r 8 = {}" "span ?c 4096 \<inter> span r 8 = {}"
    using kh.live_disjoint [OF assms(1) fi(1) assms(3,5)] kh.live_disjoint [OF assms(1) fi(2) assms(3,6)] r8 by auto
  have "span f 4 \<subseteq> span f 4096" "span (f + 4) 4 \<subseteq> span f 4096" "span ?c 32 \<subseteq> span ?c 4096"
    using span_mono [of 4 4096 f] word_offset_in [of 4 4 4 4096 f] span_mono [of 32 4096 ?c] by simp_all
  then have s: "span f 4 \<inter> span r 8 = {}" "span (f + 4) 4 \<inter> span r 8 = {}" "span ?c 32 \<inter> span r 8 = {}" using dj by blast+
  have pc: "fitem_ptr ?m4 f = ?c" "fitem_type ?m4 f = fitem_type (kmem s) f"
    using read32_agree [OF af s(1)] read32_agree [OF af s(2)] by (simp_all add: fitem_ptr_def fitem_type_def)
  then have "file_item ?m4 A f e" using assms(2) bytes_agree [OF af s(3)] by (simp add: file_item_def)
  moreover have it: "fdesc_item ?m4 r = f" using fields_apart(1) [of r] by (simp add: fdesc_item_def mem_simps)
  ultimately show "opened_file ?m4 A r e" using assms(3,4) by (simp add: opened_file_def fdesc_pos_def)
  show "fitem_ptr ?m4 (fdesc_item ?m4 r) = ?c" unfolding it by (rule pc(1))
qed

lemma open_spec:
  fixes s :: "'z fatstate_scheme"
  assumes "search_ok s A (root_directory (disk_fs_private (the_disk s))) items names (part_str (kmem s) p) name"
    "span p 8 \<inter> (kheap_spare s \<union> span (tmp_filename_at s) 108) = {}" "H = hits_from 0 names name"
    "\<forall>j \<in> set H. item_attribute (kmem s) (entry_at items j) AND FAT_FILE_SUBDIRECTORY = 0" "1 + 2 * length H \<le> kheap_avail s"
  obtains r s' A' where "fat16_open dev p FILE_MODE_READ s = Some (if H = [] \<or> part_next (kmem s) p \<noteq> 0 then word_of_int (- EIO) else r, s')"
    "grows (span (tmp_filename_at s) 108) s s' A'" "kheap_avail s' + 1 + 2 * length H = kheap_avail s" "map_le A A'"
    "H \<noteq> [] \<and> part_next (kmem s) p = 0 \<longrightarrow> fresh_file A (kmem s') A' r (bytes (kmem s) (entry_at items (last H)) 32)"
proof -
  let ?T = "span (tmp_filename_at s) 108" and ?d = "root_directory (disk_fs_private (the_disk s))" and ?ok = "H \<noteq> [] \<and> part_next (kmem s) p = 0"
  note o = search_okD [OF assms(1)]
  have av: "0 < kheap_avail s" using assms(5) by simp
  obtain r s1 where r: "kzalloc 8 s = (r, s1)" "r \<noteq> 0" "A r = None" "grows {} s s1 (A(r \<mapsto> 1))" "kheap_avail s1 + 1 = kheap_avail s"
    "span r 4096 \<subseteq> kheap_spare s" "kheap_spare s1 \<inter> span r 4096 = {}"
    by (rule kzalloc_grows [OF o(1) _ _ av, of 8]) simp_all
  let ?A1 = "A(r \<mapsto> 1)"
  have le1: "map_le A ?A1" using r(3) by (auto simp: map_le_def dom_def)
  note s1 = search_ok_grows [OF assms(1) grows_mono [OF r(4) empty_subsetI] le1]
  have eq: "the_disk s1 = the_disk s" by (subst growsD(4) [OF r(4)]) (simp add: put_kmem_def)
  have p8: "span p 8 \<inter> kheap_spare s = {}" using assms(2) by blast
  note pt = part_agree [OF growsD(3) [OF r(4), simplified] p8]
  have ok1: "search_ok s1 ?A1 (root_directory (disk_fs_private (the_disk s1))) items names (part_str (kmem s1) p) name"
    using s1(1) unfolding eq pt .
  have p1: "span p 8 \<inter> (kheap_spare s1 \<union> span (tmp_filename_at s1) 108) = {}"
    using assms(2) growsD(2) [OF r(4)] unfolding s1(2) by blast
  have in_names: "j < length names" if "j \<in> set H" for j using that assms(3) by (simp add: hits_from_def)
  have at1: "\<forall>j \<in> set H. item_attribute (kmem s1) (entry_at items j) AND FAT_FILE_SUBDIRECTORY = 0"
    using assms(4) s1(4) in_names by simp
  have av1: "2 * length H \<le> kheap_avail s1" using assms(5) r(5) by simp
  obtain f s2 A2 where f: "fat16_get_directory_entry dev p s1 = Some (if H = [] \<or> part_next (kmem s1) p \<noteq> 0 then 0 else f, s2)"
    "grows (span (tmp_filename_at s1) 108) s1 s2 A2" "kheap_avail s2 + 2 * length H = kheap_avail s1" "map_le ?A1 A2"
    "H \<noteq> [] \<longrightarrow> fresh_item ?A1 (kmem s2) A2 f (bytes (kmem s1) (entry_at items (last H)) 32)"
    by (rule get_directory_entry_spec [OF ok1 p1 assms(3) at1 av1, where dev = dev])
  let ?i = "if ?ok then f else 0"
  have run2: "fat16_get_directory_entry dev p s1 = Some (?i, s2)" using f(1) unfolding pt by simp
  have g2: "grows ?T s s2 A2" using grows_trans [OF grows_mono [OF r(4) empty_subsetI] f(2)] by (simp add: s1(2))
  have r2: "A2 r = Some 1" using f(4) by (auto simp: map_le_def dom_def)
  have in8: "span r 4 \<subseteq> span r 4096" "span (r + 4) 4 \<subseteq> span r 4096" using span_mono [of 4 4096 r] word_offset_in [of 4 4 4 4096 r] by simp_all
  define m3 where "m3 = write32 (kmem s2) r ?i"
  have g3: "grows ?T s (put_kmem m3 s2) A2" "kheap_avail (put_kmem m3 s2) = kheap_avail s2"
    unfolding m3_def by (rule grows_page [OF g2 r2 in8(1) _ write32_agree]; use in8(1) r(6) in auto)+
  define m4 where "m4 = write32 m3 (r + 4) 0"
  have a4: "agree_off (span (r + 4) 4) (kmem (put_kmem m3 s2)) m4" by (simp add: m4_def write32_agree)
  have g4: "grows ?T s (put_kmem m4 (put_kmem m3 s2)) A2" "kheap_avail (put_kmem m4 (put_kmem m3 s2)) = kheap_avail (put_kmem m3 s2)"
    by (rule grows_page [OF g3(1) r2 in8(2) _ a4]; use in8(2) r(6) in auto)+
  have le: "map_le A A2" by (rule map_le_trans [OF le1 f(4)])
  have item: "fdesc_item m3 r = ?i" by (simp add: fdesc_item_def m3_def)
  show ?thesis
  proof (cases ?ok)
    case False
    then have z: "?i = 0" by auto
    have "fat16_open dev p FILE_MODE_READ s = Some (word_of_int (- EIO), put_kmem m3 s2)"
      using r(1,2) run2 item unfolding m3_def z by (simp add: fat16_open_def)
    then show ?thesis using that [of r "put_kmem m3 s2" A2] False g3 le f(3) r(5) by auto
  next
    case True
    then have fi: "file_item (kmem s2) A2 f (bytes (kmem s1) (entry_at items (last H)) 32)" "f \<noteq> 0" "A2 f = Some 1" "f \<noteq> r"
      "fitem_ptr (kmem s2) f \<noteq> r" "A (fitem_ptr (kmem s2) f) = None"
      using f(5) by (auto simp: fresh_item_def file_item_def split: if_splits)
    have l: "last H < length names" using in_names True by simp
    let ?s = "put_kmem m4 s2"
    have z: "?i = f" using True by simp
    have run: "fat16_open dev p FILE_MODE_READ s = Some (r, ?s)"
      using r(1,2) run2 item fi(2) unfolding m4_def m3_def z by (simp add: fat16_open_def)
    have m4: "m4 = write32 (write32 (kmem s2) r f) (r + 4) 0" by (simp add: m4_def m3_def z)
    note df = descriptor_filled [OF growsD(1) [OF g2] fi(1) r2 r(2) fi(4,5), folded m4]
    then have "fresh_file A m4 A2 r (bytes (kmem s) (entry_at items (last H)) 32)" using s1(3) [OF l] r(3) fi(6) by (simp add: fresh_file_def)
    then show ?thesis using that [of r ?s A2] True g4 g3 le f(3) r(3,5) run by auto
  qed
qed

section \<open>Opening a path\<close>

text \<open>The file system is mounted and its root directory holds the entries \<open>names\<close>; the descriptor table is in order.\<close>

definition fs_ready :: "'z filestate_scheme \<Rightarrow> (u32 \<Rightarrow> nat option) \<Rightarrow> u32 \<Rightarrow> u8 list list \<Rightarrow> bool" where
  "fs_ready s A items names \<longleftrightarrow> fd_ok s A \<and> kernel_heap s = boot_heap \<and> disk_at s \<noteq> 0 \<and> fat16_fs_at s \<noteq> 0 \<and>
     disk_filesystem (the_disk s) = fat16_fs_at s \<and>
     dir_listing (kmem s) (root_directory (disk_fs_private (the_disk s))) items names \<and>
     listing_region (root_directory (disk_fs_private (the_disk s))) items (length names) \<inter>
       (kheap_spare s \<union> span (tmp_filename_at s) 108) = {} \<and>
     heap_apart s A (span (tmp_filename_at s) 108) \<and> span (file_descriptors_at s) 2048 \<inter> span (tmp_filename_at s) 108 = {} \<and>
     listing_region (root_directory (disk_fs_private (the_disk s))) items (length names) \<inter> span (file_descriptors_at s) 2048 = {}"

lemma fs_readyD:
  assumes "fs_ready s A items names"
  shows "fd_ok s A" "kernel_heap s = boot_heap" "disk_at s \<noteq> 0" "fat16_fs_at s \<noteq> 0" "disk_filesystem (the_disk s) = fat16_fs_at s"
    "dir_listing (kmem s) (root_directory (disk_fs_private (the_disk s))) items names"
    "listing_region (root_directory (disk_fs_private (the_disk s))) items (length names) \<inter>
       (kheap_spare s \<union> span (tmp_filename_at s) 108) = {}"
    "heap_apart s A (span (tmp_filename_at s) 108)" "span (file_descriptors_at s) 2048 \<inter> span (tmp_filename_at s) 108 = {}"
    "kheap_ready s A" "listing_region (root_directory (disk_fs_private (the_disk s))) items (length names) \<inter> span (file_descriptors_at s) 2048 = {}"
  using assms unfolding fs_ready_def
  by (blast, blast, blast, blast, blast, blast, blast, blast, blast, auto simp: fd_ok_def fd_room_def)

lemma grows_fields:
  assumes "grows L s s' A'"
  shows "kernel_heap s' = kernel_heap s" "disk_at s' = disk_at s" "fat16_fs_at s' = fat16_fs_at s" "the_disk s' = the_disk s"
    "tmp_filename_at s' = tmp_filename_at s" "file_descriptors_at s' = file_descriptors_at s"
  by (subst growsD(4) [OF assms]; simp add: put_kmem_def)+

lemma fs_ready_grows:
  assumes "fs_ready s A items names" "grows (span (tmp_filename_at s) 108) s s' A'" "map_le A A'"
  shows "fs_ready s' A' items names"
    "i < length names \<Longrightarrow> bytes (kmem s') (entry_at items i) 32 = bytes (kmem s) (entry_at items i) 32"
    "i < length names \<Longrightarrow> item_attribute (kmem s') (entry_at items i) = item_attribute (kmem s) (entry_at items i)"
proof -
  note f = fs_readyD [OF assms(1)] and g = growsD [OF assms(2)] and e = grows_fields [OF assms(2)]
  let ?T = "span (tmp_filename_at s) 108"
  have le: "A' q = A q" if "A q \<noteq> None" for q using assms(3) that by (auto simp: map_le_def dom_def)
  have st: "heap_apart s' A' S" if "heap_apart s A S" for S by (rule static_apart [OF f(10) that g(1) e(1) le])
  have fd: "fd_ok s' A'"
  proof (rule fd_ok_frame [OF f(1) assms(2) e(6)])
    show "heap_apart s' A' (span (file_descriptors_at s) 2048)" using st fd_ok_room [OF f(1)] by (simp add: fd_room_def)
    show "span (file_descriptors_at s) 2048 \<inter> ?T = {}" by (rule f(9))
    show "\<forall>i < 512. fd_table s ! i \<noteq> 0 \<longrightarrow> A' (fd_table s ! i) = Some 1 \<and> span (fd_table s ! i) 4 \<inter> ?T = {}"
    proof (intro allI impI conjI)
      fix i assume i: "i < (512 :: nat)" "fd_table s ! i \<noteq> 0"
      note a = fd_okD(1) [OF f(1) i]
      show "A' (fd_table s ! i) = Some 1" using le a by simp
      show "span (fd_table s ! i) 4 \<inter> ?T = {}" using heap_apart_page [OF f(8) a] span_mono [of 4 4096 "fd_table s ! i"] by auto
    qed
  qed
  have "dir_listing (kmem s') (root_directory (disk_fs_private (the_disk s))) items names" by (rule dir_listing_agree [OF f(6) g(3) f(7)])
  then show "fs_ready s' A' items names" unfolding fs_ready_def e using fd f g(2) st [OF f(8)] by blast
  have sub: "span (entry_at items i) 32 \<inter> (kheap_spare s \<union> ?T) = {}" if "i < length names"
    using entry_span [of items "length names" i] f(6,7) that unfolding dir_listing_def listing_region_def by blast
  show "i < length names \<Longrightarrow> bytes (kmem s') (entry_at items i) 32 = bytes (kmem s) (entry_at items i) 32"
    using bytes_agree [OF g(3) sub] by simp
  have "entry_at items i + 11 \<in> span (entry_at items i) 32" by (simp add: span_def)
  then show "i < length names \<Longrightarrow> item_attribute (kmem s') (entry_at items i) = item_attribute (kmem s) (entry_at items i)"
    using agree_offD [OF g(3)] sub unfolding item_attribute_def by blast
qed

text \<open>A path with a drive and a first part: what the parser leaves for the driver.\<close>

lemma fopen_parsed:
  fixes s :: "'z filestate_scheme"
  assumes "fs_ready s A items names" "cstr (kmem s) path (0x30 # 0x3a # 0x2f # cs)" "length cs \<le> 105" "path_parts cs = name # rest"
    "span path (length cs + 4) \<inter> kheap_spare s = {}" "2 * length (path_parts cs) + 2 \<le> kheap_avail s"
  obtains root p s1 A1 where "pathparser_parse path 0 s = Some (root, s1)" "root \<noteq> 0" "root_first (kmem s1) root = p" "p \<noteq> 0"
    "root_drive (kmem s1) root = 0" "grows {} s s1 A1" "map_le A A1" "kheap_avail s1 + 1 + 2 * length (path_parts cs) = kheap_avail s"
    "search_ok s1 A1 (root_directory (disk_fs_private (the_disk s1))) items names (part_str (kmem s1) p) name"
    "span p 8 \<inter> (kheap_spare s1 \<union> span (tmp_filename_at s1) 108) = {}" "part_next (kmem s1) p = 0 \<longleftrightarrow> rest = []"
    "fs_ready s1 A1 items names"
proof -
  note f = fs_readyD [OF assms(1)]
  have d: "isdigit 0x30" "tonumericdigit 0x30 = 0" by (simp_all add: isdigit_def tonumericdigit_def)
  obtain root s1 cells where r: "pathparser_parse path 0 s = Some (root, s1)" "root \<noteq> 0" "root_drive (kmem s1) root = tonumericdigit 0x30"
    "chain_strs cells = path_parts cs" "path_owned s1 (with_pages A (root # chain_pages cells)) root cells"
    "\<forall>x \<in> set (root # chain_pages cells). A x = None" "kheap_avail s1 + 1 + 2 * length cells = kheap_avail s"
    "grows {} s s1 (with_pages A (root # chain_pages cells))"
    using pathparser_parse_spec [OF f(10) assms(2) d(1) assms(3,5,6), of 0] by (elim exE conjE) (rule that, assumption+)
  let ?A1 = "with_pages A (root # chain_pages cells)"
  have "length (path_parts cs) = length cells" unfolding r(4) [symmetric] by (simp add: chain_strs_def)
  then have av: "kheap_avail s1 + 1 + 2 * length (path_parts cs) = kheap_avail s" using r(7) by simp
  obtain p q cells' where c: "cells = (p, q, name) # cells'" "chain_strs cells' = rest"
    using r(4) assms(4) by (cases cells) auto
  have ch: "root_first (kmem s1) root = p" "p \<noteq> 0" "part_str (kmem s1) p = q" "cstr (kmem s1) q name" "parts_chain (kmem s1) (part_next (kmem s1) p) cells'"
    "?A1 p = Some 1" "?A1 q = Some 1"
    using r(5) unfolding path_owned_def c(1) by auto
  have nx: "part_next (kmem s1) p = 0 \<longleftrightarrow> rest = []" using ch(5) c(2) by (cases cells') auto
  have le: "map_le A ?A1" using r(6) by (auto simp: map_le_def dom_def with_pages_def)
  have fr: "fs_ready s1 ?A1 items names" by (rule fs_ready_grows(1) [OF assms(1) grows_mono [OF r(8)] le]) simp
  note f1 = fs_readyD [OF fr]
  have pg: "span x n \<inter> (kheap_spare s1 \<union> span (tmp_filename_at s1) 108) = {}" if "?A1 x = Some 1" "n \<le> 4096" for x n
    using kh.live_spare [OF f1(10) that(1)] heap_apart_page [OF f1(8) that(1)] span_mono [OF that(2), of x] by auto
  have "length name \<le> length cs"
  proof -
    have "name = takeWhile (\<lambda>c. c \<noteq> 0x2f) cs" using assms(4) by (subst (asm) path_parts.simps) (simp add: Let_def split: if_splits)
    then show ?thesis by (simp add: length_takeWhile_le)
  qed
  then have ln: "length name < 108" using assms(3) by simp
  have "search_ok s1 ?A1 (root_directory (disk_fs_private (the_disk s1))) items names (part_str (kmem s1) p) name"
    unfolding search_ok_def ch(3) using f1 ch(4) ln pg [OF ch(7), of "Suc (length name)"] by (simp add: Int_Un_distrib2)
  then show ?thesis using that [OF r(1,2) ch(1,2) _ r(8) le av] r(3) d(2) pg [OF ch(6), of 8] nx fr by simp
qed

text \<open>The fields of a descriptor.\<close>

lemma descriptor_fields:
  assumes "unat d + 4096 \<le> 4294967296" "m' = write32 (write32 (write32 m (d + 4) a) (d + 8) b) (d + 12) c"
  shows "fd_filesystem m' d = a" "fd_private m' d = b" "agree_off (span (d + 4) 12) m m'" "fd_index m' d = fd_index m d"
    "span d 4 \<inter> span (d + 4) 12 = {}"
proof -
  have u: "unat (d + 4) = unat d + 4" "unat (d + 8) = unat d + 8" "unat (d + 12) = unat d + 12" using assms(1) by (simp_all add: unat_word_ariths)
  have s: "span (d + 4) 4 \<inter> span (d + 8) 4 = {}" "span (d + 4) 4 \<inter> span (d + 12) 4 = {}" "span (d + 8) 4 \<inter> span (d + 12) 4 = {}"
    using assms(1) u by (intro span_disjoint; simp)+
  show "fd_filesystem m' d = a" "fd_private m' d = b" using s by (simp_all add: fd_filesystem_def fd_private_def assms(2) mem_simps)
  have sub: "span (d + 4) 4 \<subseteq> span (d + 4) 12" "span (d + 8) 4 \<subseteq> span (d + 4) 12" "span (d + 12) 4 \<subseteq> span (d + 4) 12"
    using assms(1) u by (intro span_subset; simp)+
  have "agree_off (span (d + 4) 4 \<union> (span (d + 8) 4 \<union> span (d + 12) 4)) m m'" unfolding assms(2)
    by (intro agree_off_trans [OF write32_agree agree_off_trans [OF write32_agree write32_agree]])
  then show a: "agree_off (span (d + 4) 12) m m'" by (rule agree_off_mono) (use sub in blast)
  show d: "span d 4 \<inter> span (d + 4) 12 = {}" using assms(1) u by (intro span_disjoint) simp_all
  show "fd_index m' d = fd_index m d" by (rule fd_index_agree [OF a d])
qed

text \<open>The driver's descriptor gets a number.\<close>

lemma descriptor_installed:
  fixes s :: "'z filestate_scheme"
  assumes "fs_ready s A items names" "0 < kheap_avail s" "i < 512" "fd_table s ! i = 0" "\<forall>j < i. fd_table s ! j \<noteq> 0"
    "opened_file (kmem s) A r e"
  obtains d s' m where "file_new_descriptor s = (0, d, s')" "the_disk s' = the_disk s" "disk_at s' = disk_at s"
    "m = write32 (write32 (write32 (kmem s') (d + 4) (disk_filesystem (the_disk s))) (d + 8) r) (d + 12) (disk_at s)"
    "fs_ready (put_kmem m s') (A(d \<mapsto> 1)) items names" "A d = None" "fd_table (put_kmem m s') = (fd_table s)[i := d]" "fd_index m d = int i + 1"
    "fd_filesystem m d = fat16_fs_at s" "fd_private m d = r" "opened_file m (A(d \<mapsto> 1)) r e" "d \<noteq> 0"
    "fitem_ptr m (fdesc_item m r) = fitem_ptr (kmem s) (fdesc_item (kmem s) r)"
    "grows (span (file_descriptors_at s) 2048) s (put_kmem m s') (A(d \<mapsto> 1))"
proof -
  note f = fs_readyD [OF assms(1)]
  let ?F = "span (file_descriptors_at s) 2048" and ?T = "span (tmp_filename_at s) 108"
  have room: "fd_room s A" by (rule fd_ok_room [OF f(1)])
  obtain d s' where d: "file_new_descriptor s = (0, d, s')" "d \<noteq> 0" "A d = None" "fd_ok s' (A(d \<mapsto> 1))"
    "fd_table s' = (fd_table s)[i := d]" "fd_index (kmem s') d = int i + 1"
    by (rule fd_ok_new [OF f(1) assms(2-5)]) (rule that; assumption)
  have g: "grows ?F s s' (A(d \<mapsto> 1))"
    by (rule file_new_descriptor_step [OF room assms(2-5)]) (use d(1) in simp)
  let ?A = "A(d \<mapsto> 1)"
  note e = grows_fields [OF g] and gd = growsD [OF g]
  have Ad: "?A d = Some 1" by simp
  have db: "unat d + 4096 \<le> 4294967296" using kh.live_bounds [OF gd(1) Ad] by simp
  define m where "m = write32 (write32 (write32 (kmem s') (d + 4) (disk_filesystem (the_disk s))) (d + 8) r) (d + 12) (disk_at s)"
  note fl = descriptor_fields [OF db m_def]
  have in12: "span (d + 4) 12 \<subseteq> span d 4096" using word_offset_in [of 4 4 12 4096 d] by simp
  have sp: "span d 4096 \<subseteq> kheap_spare s" using new_was_spare(1) [OF f(10) gd(1) e(1) d(3)] by simp
  have gw: "grows (span (d + 4) 12) s' (put_kmem m s') ?A"
    by (rule grows_store(1) [OF gd(1) Ad]) (use in12 fl(3) in simp_all)
  have g2: "grows ?F s (put_kmem m s') ?A" by (rule grows_trans [OF g gw]) (use in12 sp in blast)
  note k = growsD [OF g2] and e2 = grows_fields [OF g2]
  have le: "map_le A ?A" using d(3) by (auto simp: map_le_def dom_def)
  then have le': "?A q = A q" if "A q \<noteq> None" for q using that by (auto simp: map_le_def dom_def)
  have st: "heap_apart (put_kmem m s') ?A S" if "heap_apart s A S" for S by (rule static_apart [OF f(10) that k(1) e2(1) le'])
  have tab: "fd_table (put_kmem m s') = (fd_table s)[i := d]"
  proof -
    have apF: "heap_apart s' ?A ?F" using d(4) by (simp add: fd_ok_def fd_room_def e(6))
    have "span (d + 4) 12 \<inter> ?F = {}" using heap_apart_page [OF apF Ad] in12 by blast
    then have "slots m (file_descriptors_at s) 512 = slots (kmem s') (file_descriptors_at s) 512"
      using room by (intro slots_agree [OF _ fl(3)]) (auto simp: fd_room_def)
    then show ?thesis using d(5) by (simp add: fd_table_def e(6))
  qed
  have "fd_ok (put_kmem m s') ?A"
  proof (rule fd_ok_frame [OF d(4) gw])
    have apF: "heap_apart s' ?A ?F" using d(4) by (simp add: fd_ok_def fd_room_def e(6))
    show "file_descriptors_at (put_kmem m s') = file_descriptors_at s'" by simp
    show "span (file_descriptors_at s') 2048 \<inter> span (d + 4) 12 = {}" using heap_apart_page [OF apF Ad] in12 unfolding e(6) by blast
    show "heap_apart (put_kmem m s') ?A (span (file_descriptors_at s') 2048)" unfolding e(6) using st room by (simp add: fd_room_def)
    show "\<forall>i < 512. fd_table s' ! i \<noteq> 0 \<longrightarrow> ?A (fd_table s' ! i) = Some 1 \<and> span (fd_table s' ! i) 4 \<inter> span (d + 4) 12 = {}"
    proof (intro allI impI conjI)
      fix j assume j: "j < (512 :: nat)" "fd_table s' ! j \<noteq> 0"
      note a = fd_okD(1) [OF d(4) j]
      show "?A (fd_table s' ! j) = Some 1" by (rule a)
      show "span (fd_table s' ! j) 4 \<inter> span (d + 4) 12 = {}"
      proof (cases "fd_table s' ! j = d")
        case False
        then have "span (fd_table s' ! j) 4096 \<inter> span d 4096 = {}" using kh.live_disjoint [OF gd(1) a Ad] by simp
        then show ?thesis using in12 span_mono [of 4 4096 "fd_table s' ! j"] by auto
      qed (use fl(5) in simp)
    qed
  qed
  moreover have "dir_listing m (root_directory (disk_fs_private (the_disk s))) items names"
    using dir_listing_agree [OF f(6) k(3)] f(7,11) by (simp add: Int_Un_distrib)
  ultimately have "fs_ready (put_kmem m s') ?A items names"
    unfolding fs_ready_def e2 using f st [OF f(8)] k(2) by (simp add: Int_Un_distrib) blast
  moreover have "opened_file m ?A r e" "fitem_ptr m (fdesc_item m r) = fitem_ptr (kmem s) (fdesc_item (kmem s) r)"
    using opened_file_frame [OF assms(6) f(10) k(3) _ le] room by (simp_all add: fd_room_def)
  ultimately show ?thesis using that [OF d(1) e(4,2) m_def] d(2,3,6) tab fl(1,2,4) f(5) g2 by simp
qed

text \<open>The path and the driver: what \<^verbatim>\<open>fopen\<close> does before it takes a descriptor.\<close>

lemma fopen_driver:
  fixes s :: "'z filestate_scheme"
  assumes "fs_ready s A items names" "cstr (kmem s) path (0x30 # 0x3a # 0x2f # cs)" "length cs \<le> 105" "path_parts cs = name # rest"
    "span path (length cs + 4) \<inter> kheap_spare s = {}" "kmem s mode = 0x72" "mode \<notin> kheap_spare s" "H = hits_from 0 names name"
    "\<forall>j \<in> set H. item_attribute (kmem s) (entry_at items j) AND FAT_FILE_SUBDIRECTORY = 0"
    "2 * length (path_parts cs) + 2 * length H + 3 \<le> kheap_avail s" "found \<longleftrightarrow> H \<noteq> [] \<and> rest = []"
  obtains r s2 A2 where "fs_ready s2 A2 items names" "map_le A A2" "grows (span (tmp_filename_at s) 108) s s2 A2" "fd_table s2 = fd_table s"
    "0 < kheap_avail s2" "found \<longrightarrow> fresh_file A (kmem s2) A2 r (bytes (kmem s) (entry_at items (last H)) 32)"
    "fopen_result dev path mode s =
       (if found then let (res, d, s3) = file_new_descriptor s2 in
          if res < 0 then Some (res, s3)
          else let m = write32 (write32 (write32 (kmem s3) (d + 4) (disk_filesystem (the_disk s3))) (d + 8) r) (d + 12) (disk_at s3) in
            Some (fd_index m d, put_kmem m s3)
        else Some (- EIO, s2))"
proof -
  have av0: "2 * length (path_parts cs) + 2 \<le> kheap_avail s" using assms(10) by simp
  obtain root p s1 A1 where p: "pathparser_parse path 0 s = Some (root, s1)" "root \<noteq> 0" "root_first (kmem s1) root = p" "p \<noteq> 0"
    "root_drive (kmem s1) root = 0" "grows {} s s1 A1" "map_le A A1" "kheap_avail s1 + 1 + 2 * length (path_parts cs) = kheap_avail s"
    "search_ok s1 A1 (root_directory (disk_fs_private (the_disk s1))) items names (part_str (kmem s1) p) name"
    "span p 8 \<inter> (kheap_spare s1 \<union> span (tmp_filename_at s1) 108) = {}" "part_next (kmem s1) p = 0 \<longleftrightarrow> rest = []"
    "fs_ready s1 A1 items names"
    by (rule fopen_parsed [OF assms(1-5) av0])
  note e1 = grows_fields [OF p(6)]
  note s1 = fs_ready_grows [OF assms(1) grows_mono [OF p(6) empty_subsetI] p(7)]
  have in_names: "j < length names" if "j \<in> set H" for j using that assms(8) by (simp add: hits_from_def)
  have at1: "\<forall>j \<in> set H. item_attribute (kmem s1) (entry_at items j) AND FAT_FILE_SUBDIRECTORY = 0" using assms(9) s1(3) in_names by simp
  have av1: "1 + 2 * length H \<le> kheap_avail s1" using p(8) assms(10) by simp
  obtain r s2 A2 where r: "fat16_open dev p FILE_MODE_READ s1 = Some (if H = [] \<or> part_next (kmem s1) p \<noteq> 0 then word_of_int (- EIO) else r, s2)"
    "grows (span (tmp_filename_at s1) 108) s1 s2 A2" "kheap_avail s2 + 1 + 2 * length H = kheap_avail s1" "map_le A1 A2"
    "H \<noteq> [] \<and> part_next (kmem s1) p = 0 \<longrightarrow> fresh_file A1 (kmem s2) A2 r (bytes (kmem s1) (entry_at items (last H)) 32)"
    by (rule open_spec [OF p(9,10) assms(8) at1 av1, where dev = dev])
  note e2 = grows_fields [OF r(2)]
  note s2 = fs_ready_grows [OF p(12) r(2,4)]
  note f = fs_readyD [OF assms(1)] and f2 = fs_readyD [OF s2(1)]
  have "kmem s1 mode = 0x72" using agree_offD [OF growsD(3) [OF p(6)], of mode] assms(6,7) by simp
  then have md: "file_get_mode_by_string (kmem s1) mode = FILE_MODE_READ" by (simp add: file_get_mode_by_string_def Let_def lit_def)
  have drv: "disk_get (root_drive (kmem s1) root) s1 \<noteq> 0" "disk_filesystem (the_disk s1) = fat16_fs_at s1" "fat16_fs_at s1 \<noteq> 0"
    using p(5) f(3-5) by (simp_all add: disk_get_def e1)
  have opn: "call_open dev (disk_filesystem (the_disk s1)) p FILE_MODE_READ s1 = Some (if found then r else word_of_int (- EIO), s2)"
    using r(1) p(11) assms(11) drv by (simp add: call_open_def)
  have g12: "grows (span (tmp_filename_at s) 108) s s2 A2"
    by (rule grows_trans [OF grows_mono [OF p(6) empty_subsetI] r(2)]) (simp add: e1(5))
  have tab: "fd_table s2 = fd_table s"
  proof -
    from growsD(3) [OF g12] have "agree_off (kheap_spare s \<union> span (tmp_filename_at s) 108) (kmem s) (kmem s2)" .
    moreover have "span (file_descriptors_at s) 2048 \<inter> (kheap_spare s \<union> span (tmp_filename_at s) 108) = {}"
      using heap_apart_spare f(9) fd_ok_room [OF f(1)] unfolding fd_room_def by blast
    ultimately show ?thesis using fd_ok_room [OF f(1)] unfolding fd_table_def e1(6) e2(6)
      by (intro slots_agree) (simp_all add: fd_room_def)
  qed
  have le2: "map_le A A2" by (rule map_le_trans [OF p(7) r(4)])
  have fr: "fresh_file A (kmem s2) A2 r (bytes (kmem s) (entry_at items (last H)) 32)" if found
    using r(5) p(11) assms(11) that fresh_file_sub [OF _ p(7)] s1(2) in_names by simp
  have nn: "\<not> sint r < 0" if found
  proof -
    have "A2 r = Some 1" using fr [OF that] by (simp add: fresh_file_def opened_file_def)
    then have "unat r + 1 * 4096 \<le> 0x7400000" using boot_heap_below [OF f2(10) _ f2(2)] by blast
    then show ?thesis using sint_small [of "unat r"] by simp
  qed
  have "sint (word_of_int (- EIO) :: u32) = - EIO" by simp
  then have run: "fopen_result dev path mode s =
       (if found then let (res, d, s3) = file_new_descriptor s2 in
          if res < 0 then Some (res, s3)
          else let m = write32 (write32 (write32 (kmem s3) (d + 4) (disk_filesystem (the_disk s3))) (d + 8) r) (d + 12) (disk_at s3) in
            Some (fd_index m d, put_kmem m s3)
        else Some (- EIO, s2))"
    using p(1-4) drv md opn nn by (simp add: fopen_result_def Let_def split: prod.split)
  have av2: "0 < kheap_avail s2" using p(8) r(3) assms(10) by simp
  have "found \<longrightarrow> fresh_file A (kmem s2) A2 r (bytes (kmem s) (entry_at items (last H)) 32)" using fr by blast
  then show ?thesis by (rule that [OF s2(1) le2 g12 tab av2 _ run])
qed

text \<open>What \<^verbatim>\<open>fopen\<close> does with a path: the driver's answer, then a descriptor.\<close>

lemma fopen_spec:
  fixes s :: "'z filestate_scheme"
  assumes "fs_ready s A items names" "cstr (kmem s) path (0x30 # 0x3a # 0x2f # cs)" "length cs \<le> 105" "path_parts cs = name # rest"
    "span path (length cs + 4) \<inter> kheap_spare s = {}" "kmem s mode = 0x72" "mode \<notin> kheap_spare s" "H = hits_from 0 names name"
    "\<forall>j \<in> set H. item_attribute (kmem s) (entry_at items j) AND FAT_FILE_SUBDIRECTORY = 0"
    "2 * length (path_parts cs) + 2 * length H + 3 \<le> kheap_avail s" "i < 512" "fd_table s ! i = 0" "\<forall>j < i. fd_table s ! j \<noteq> 0"
    "found \<longleftrightarrow> H \<noteq> [] \<and> rest = []"
  obtains s' A' d where "fopen dev path mode s = Some (if found then int i + 1 else 0, s')" "map_le A A'" "fs_ready s' A' items names"
    "fd_table s' = (if found then (fd_table s)[i := d] else fd_table s)"
    "grows (span (tmp_filename_at s) 108 \<union> span (file_descriptors_at s) 2048) s s' A'"
    "found \<longrightarrow> d \<noteq> 0 \<and> fd_index (kmem s') d = int i + 1 \<and> fd_filesystem (kmem s') d = fat16_fs_at s \<and>
       fresh_file A (kmem s') A' (fd_private (kmem s') d) (bytes (kmem s) (entry_at items (last H)) 32)"
proof -
  obtain r s2 A2 where o: "fs_ready s2 A2 items names" "map_le A A2" "grows (span (tmp_filename_at s) 108) s s2 A2" "fd_table s2 = fd_table s"
    "0 < kheap_avail s2" "found \<longrightarrow> fresh_file A (kmem s2) A2 r (bytes (kmem s) (entry_at items (last H)) 32)"
    "fopen_result dev path mode s =
       (if found then let (res, d, s3) = file_new_descriptor s2 in
          if res < 0 then Some (res, s3)
          else let m = write32 (write32 (write32 (kmem s3) (d + 4) (disk_filesystem (the_disk s3))) (d + 8) r) (d + 12) (disk_at s3) in
            Some (fd_index m d, put_kmem m s3)
        else Some (- EIO, s2))"
    by (rule fopen_driver [OF assms(1-10,14)])
  note e2 = grows_fields [OF o(3)]
  note gT = grows_mono [OF o(3) Un_upper1 [of _ "span (file_descriptors_at s) 2048"]]
  show ?thesis
  proof (cases found)
    case False
    then have "fopen dev path mode s = Some (0, s2)" using o(7) by (simp add: fopen_def)
    then show ?thesis using that [of s2 A2 0] False o(1,2,4) gT by simp
  next
    case True
    then have fr: "fresh_file A (kmem s2) A2 r (bytes (kmem s) (entry_at items (last H)) 32)" using o(6) by simp
    then have op: "opened_file (kmem s2) A2 r (bytes (kmem s) (entry_at items (last H)) 32)" by (simp add: fresh_file_def)
    from descriptor_installed [OF o(1,5) assms(11) assms(12,13) [folded o(4)] op]
    obtain d s3 m where d: "file_new_descriptor s2 = (0, d, s3)" "the_disk s3 = the_disk s2" "disk_at s3 = disk_at s2"
      "m = write32 (write32 (write32 (kmem s3) (d + 4) (disk_filesystem (the_disk s2))) (d + 8) r) (d + 12) (disk_at s2)"
      "fs_ready (put_kmem m s3) (A2(d \<mapsto> 1)) items names" "A2 d = None" "fd_table (put_kmem m s3) = (fd_table s2)[i := d]" "fd_index m d = int i + 1"
      "fd_filesystem m d = fat16_fs_at s2" "fd_private m d = r" "opened_file m (A2(d \<mapsto> 1)) r (bytes (kmem s) (entry_at items (last H)) 32)" "d \<noteq> 0"
      "fitem_ptr m (fdesc_item m r) = fitem_ptr (kmem s2) (fdesc_item (kmem s2) r)" "grows (span (file_descriptors_at s2) 2048) s2 (put_kmem m s3) (A2(d \<mapsto> 1))"
      by metis
    have run: "fopen dev path mode s = Some (int i + 1, put_kmem m s3)"
      using o(7) True d(1-3) d(8) unfolding d(4) by (simp add: fopen_def)
    have "map_le A2 (A2(d \<mapsto> 1))" using d(6) by (auto simp: map_le_def dom_def)
    then have "map_le A (A2(d \<mapsto> 1))" by (rule map_le_trans [OF o(2)])
    moreover have "grows (span (tmp_filename_at s) 108 \<union> span (file_descriptors_at s) 2048) s (put_kmem m s3) (A2(d \<mapsto> 1))"
      by (rule grows_trans [OF gT d(14)]) (simp add: e2(6) le_supI1)
    ultimately show ?thesis using that [of "put_kmem m s3" "A2(d \<mapsto> 1)" d] run True d(5,7-13) o(4) fr by (simp add: e2 fresh_file_def)
  qed
qed

text \<open>A path that the parser accepts.\<close>

lemma parsed_ready:
  fixes s :: "'z filestate_scheme"
  assumes "fs_ready s A items names" "cstr (kmem s) path (d # 0x3a # 0x2f # cs)" "isdigit d" "length cs \<le> 105"
    "span path (length cs + 4) \<inter> kheap_spare s = {}" "2 * length (path_parts cs) + 2 \<le> kheap_avail s" "mode \<notin> kheap_spare s"
  obtains root s1 A1 where "pathparser_parse path 0 s = Some (root, s1)" "root \<noteq> 0" "root_drive (kmem s1) root = tonumericdigit d"
    "root_first (kmem s1) root = 0 \<longleftrightarrow> path_parts cs = []" "fs_ready s1 A1 items names" "fd_table s1 = fd_table s" "kmem s1 mode = kmem s mode"
proof -
  note f = fs_readyD [OF assms(1)]
  obtain root s1 cells where r: "pathparser_parse path 0 s = Some (root, s1)" "root \<noteq> 0" "root_drive (kmem s1) root = tonumericdigit d"
    "chain_strs cells = path_parts cs" "path_owned s1 (with_pages A (root # chain_pages cells)) root cells"
    "\<forall>x \<in> set (root # chain_pages cells). A x = None" "grows {} s s1 (with_pages A (root # chain_pages cells))"
    using pathparser_parse_spec [OF f(10) assms(2-6), of 0] by (elim exE conjE) (rule that, assumption+)
  have le: "map_le A (with_pages A (root # chain_pages cells))" using r(6) by (auto simp: map_le_def dom_def with_pages_def)
  have fr: "fs_ready s1 (with_pages A (root # chain_pages cells)) items names" by (rule fs_ready_grows(1) [OF assms(1) grows_mono [OF r(7)] le]) simp
  have "root_first (kmem s1) root = 0 \<longleftrightarrow> path_parts cs = []"
    using r(5) unfolding path_owned_def r(4) [symmetric] by (cases cells) (auto simp: chain_strs_def)
  moreover have a: "agree_off (kheap_spare s) (kmem s) (kmem s1)" using growsD(3) [OF r(7)] by simp
  have "fd_table s1 = fd_table s"
  proof -
    have "span (file_descriptors_at s) 2048 \<inter> kheap_spare s = {}"
      using heap_apart_spare fd_ok_room [OF f(1)] unfolding fd_room_def by blast
    then show ?thesis using fd_ok_room [OF f(1)] unfolding fd_table_def grows_fields(6) [OF r(7)]
      by (intro slots_agree [OF _ a]) (simp_all add: fd_room_def)
  qed
  moreover have "kmem s1 mode = kmem s mode" by (rule agree_offD [OF a assms(7)])
  ultimately show ?thesis by (intro that [OF r(1-3) _ fr])
qed

lemma mode_read_iff: "file_get_mode_by_string m mode = FILE_MODE_READ \<longleftrightarrow> m mode = 0x72"
  by (simp add: file_get_mode_by_string_def Let_def lit_def word_uint_eq_iff [of "m mode" 114] word_uint_eq_iff [of "m mode" 119])

text \<open>A path without a part, another drive, or another mode than reading: the parsed path stays allocated.\<close>

lemma fopen_unparsed:
  fixes s :: "'z filestate_scheme"
  assumes "fs_ready s A items names" "cstr (kmem s) path (d # 0x3a # 0x2f # cs)" "isdigit d" "length cs \<le> 105"
    "span path (length cs + 4) \<inter> kheap_spare s = {}" "2 * length (path_parts cs) + 2 \<le> kheap_avail s" "mode \<notin> kheap_spare s"
    "d \<noteq> 0x30 \<or> path_parts cs = [] \<or> kmem s mode \<noteq> 0x72"
  obtains s' A' where "fopen dev path mode s = Some (0, s')" "fs_ready s' A' items names" "fd_table s' = fd_table s"
proof -
  obtain root s1 A1 where r: "pathparser_parse path 0 s = Some (root, s1)" "root \<noteq> 0" "root_drive (kmem s1) root = tonumericdigit d"
    "root_first (kmem s1) root = 0 \<longleftrightarrow> path_parts cs = []" "fs_ready s1 A1 items names" "fd_table s1 = fd_table s" "kmem s1 mode = kmem s mode"
    by (rule parsed_ready [OF assms(1-7)])
  note f = fs_readyD [OF r(5)]
  have "d \<noteq> 0x30 \<Longrightarrow> tonumericdigit d \<noteq> 0" using signed_word_eqI [of d "0x30"] by (auto simp: tonumericdigit_def)
  then have "\<exists>e < 0. fopen_result dev path mode s = Some (e, s1)"
    using r(1-4,7) assms(8) f(5) mode_read_iff [of "kmem s1" mode]
    by (auto simp: fopen_result_def disk_get_def Let_def call_open_def fat16_open_def)
  then have "fopen dev path mode s = Some (0, s1)" by (auto simp: fopen_def)
  then show ?thesis by (rule that [OF _ r(5,6)])
qed

text \<open>Reading from drive 0: the answer is a number just when the path has one part, an entry has that name, and a
  descriptor is free.\<close>

lemma fopen_reading:
  fixes s :: "'z filestate_scheme"
  assumes "fs_ready s A items names" "cstr (kmem s) path (0x30 # 0x3a # 0x2f # cs)" "length cs \<le> 105" "path_parts cs = name # rest"
    "span path (length cs + 4) \<inter> kheap_spare s = {}" "kmem s mode = 0x72" "mode \<notin> kheap_spare s" "H = hits_from 0 names name"
    "\<forall>j \<in> set H. item_attribute (kmem s) (entry_at items j) AND FAT_FILE_SUBDIRECTORY = 0"
    "2 * length (path_parts cs) + 2 * length H + 3 \<le> kheap_avail s"
  shows "\<exists>r s' A'. fopen dev path mode s = Some (r, s') \<and> fs_ready s' A' items names \<and> 0 \<le> r \<and>
    (r = 0 \<longrightarrow> fd_table s' = fd_table s) \<and> (r \<noteq> 0 \<longleftrightarrow> rest = [] \<and> H \<noteq> [] \<and> 0 \<in> set (fd_table s))"
proof (cases "0 \<in> set (fd_table s)")
  case True
  obtain i where i: "i < 512" "fd_table s ! i = 0" "\<forall>j < i. fd_table s ! j \<noteq> 0" using first_zero [OF True] by (auto simp: fd_table_def)
  obtain s' A' d where "fopen dev path mode s = Some (if H \<noteq> [] \<and> rest = [] then int i + 1 else 0, s')" "fs_ready s' A' items names"
    "fd_table s' = (if H \<noteq> [] \<and> rest = [] then (fd_table s)[i := d] else fd_table s)"
    by (rule fopen_spec [OF assms i refl, where dev = dev])
  then show ?thesis using True by (cases "H \<noteq> [] \<and> rest = []") auto
next
  case False
  obtain r s2 A2 where o: "fs_ready s2 A2 items names" "fd_table s2 = fd_table s"
    "fopen_result dev path mode s =
     (if H \<noteq> [] \<and> rest = [] then let (res, d, s3) = file_new_descriptor s2 in
        if res < 0 then Some (res, s3)
        else let m = write32 (write32 (write32 (kmem s3) (d + 4) (disk_filesystem (the_disk s3))) (d + 8) r) (d + 12) (disk_at s3) in
          Some (fd_index m d, put_kmem m s3)
      else Some (- EIO, s2))"
    by (rule fopen_driver [OF assms refl, where dev = dev])
  have "file_new_descriptor s2 = (- ENOMEM, 0, s2)" using file_new_descriptor_full [of s2] o(2) False by simp
  then have "fopen dev path mode s = Some (0, s2)" using o(3) by (auto simp: fopen_def)
  then show ?thesis using o(1,2) False by blast
qed

section \<open>Reading a file by its path\<close>

lemma reads_at_copied:
  assumes "reads_at s item st cb base" "agree_off S (kmem s) (kmem s')" "span (disk_fs_private (the_disk s)) 92 \<inter> S = {}"
    "span (st + 4) 4 \<inter> S = {}" "the_disk s' = the_disk s" "disk_at s' = disk_at s" "bytes (kmem s') c 32 = bytes (kmem s) item 32"
  shows "reads_at s' c st cb base"
proof -
  let ?p = "disk_fs_private (the_disk s)"
  have sub: "span (?p + 13) 1 \<subseteq> span ?p 92" "span (?p + 76) 4 \<subseteq> span ?p 92" "span (?p + 80) 4 \<subseteq> span ?p 92"
    using word_offset_in [of 13 13 1 92 ?p] word_offset_in [of 76 76 4 92 ?p] word_offset_in [of 80 80 4 92 ?p] by simp_all
  have "?p + 13 \<in> span (?p + 13) 1" by simp
  then have a: "kmem s' (?p + 13) = kmem s (?p + 13)" using assms(3) sub(1) by (intro agree_offD [OF assms(2)]) blast
  have "read32 (kmem s') (?p + 76) = read32 (kmem s) (?p + 76)" "read32 (kmem s') (?p + 80) = read32 (kmem s) (?p + 80)"
    "read32 (kmem s') (st + 4) = read32 (kmem s) (st + 4)"
    using assms(3,4) sub by (blast intro: read32_agree [OF assms(2)])+
  then have b: "read32 (kmem s') (76 + ?p) = read32 (kmem s) (76 + ?p)" "read32 (kmem s') (?p + 80) = read32 (kmem s) (?p + 80)"
    "read32 (kmem s') (st + 4) = read32 (kmem s) (st + 4)" by (simp_all only: add.commute)
  have i: "kmem s' (c + word_of_nat k) = kmem s (item + word_of_nat k)" if "k < 32" for k
    using assms(7) that unfolding bytes_eq_iff by blast
  have w: "read16 (kmem s') (c + word_of_nat k) = read16 (kmem s) (item + word_of_nat k)" if "k < 31" for k
    using i [of k] i [of "Suc k"] that by (simp add: read16_def ac_simps)
  have "fat16_get_first_cluster (kmem s') c = fat16_get_first_cluster (kmem s) item"
    using w [of 20] w [of 26] by (simp add: fat16_get_first_cluster_def item_high_cluster_def item_low_cluster_def)
  then show ?thesis using assms(1,5,6) a b
    by (auto simp: reads_at_def Let_def cluster_read_stream_def stream_disk_def cluster_bytes_def hdr_sectors_per_cluster_def
      fat16_cluster_to_sector_def dir_ending_sector_pos_def)
qed

lemma fopen_fread_spec:
  fixes s :: "'z filestate_scheme"
  assumes "fs_ready s A items names" "cstr (kmem s) path (0x30 # 0x3a # 0x2f # cs)" "length cs \<le> 105" "path_parts cs = [name]"
    "span path (length cs + 4) \<inter> kheap_spare s = {}" "kmem s mode = 0x72" "mode \<notin> kheap_spare s"
    "hits_from 0 names name = H" "H \<noteq> []" "\<forall>j \<in> set H. item_attribute (kmem s) (entry_at items j) AND FAT_FILE_SUBDIRECTORY = 0"
    "2 * length H + 5 \<le> kheap_avail s" "i < 511" "fd_table s ! i = 0" "\<forall>j < i. fd_table s ! j \<noteq> 0"
    and "ata_disk dev D" "reads_at s (entry_at items (last H)) st cb (int start)" "n \<noteq> 0" "sz \<noteq> 0"
    "int ((unat n - 1) * unat sz) < cb" "uint sz \<le> cb" "start + unat n * unat sz < 2147483648"
    and "span (disk_fs_private (the_disk s)) 92 \<inter> (span st 4 \<union> span out (unat n * unat sz)) = {}" "span st 8 \<inter> span out (unat n * unat sz) = {}"
    "(span (disk_fs_private (the_disk s)) 92 \<union> span st 8) \<inter>
       (kheap_spare s \<union> (span (tmp_filename_at s) 108 \<union> span (file_descriptors_at s) 2048)) = {}"
    "span out (unat n * unat sz) \<inter> kheap_spare s = {}"
  shows "\<exists>s' s''. fopen dev path mode s = Some (int i + 1, s') \<and> fread dev out sz n (int i + 1) s' = Some (sint n, s'') \<and>
    bytes (kmem s'') out (unat n * unat sz) = disk_bytes D start (unat n * unat sz)"
proof -
  let ?L = "unat n * unat sz" and ?X = "kheap_spare s \<union> (span (tmp_filename_at s) 108 \<union> span (file_descriptors_at s) 2048)"
  let ?pr = "disk_fs_private (the_disk s)"
  have h: "H = hits_from 0 names name" "2 * length (path_parts cs) + 2 * length H + 3 \<le> kheap_avail s" "i < 512" "True \<longleftrightarrow> H \<noteq> [] \<and> [] = []"
    using assms(4,8,9,11,12) by simp_all
  obtain s' A' d where o: "fopen dev path mode s = Some (int i + 1, s')" "map_le A A'" "fs_ready s' A' items names"
    "fd_table s' = (fd_table s)[i := d]" "grows (span (tmp_filename_at s) 108 \<union> span (file_descriptors_at s) 2048) s s' A'"
    "d \<noteq> 0" "fd_filesystem (kmem s') d = fat16_fs_at s" "fresh_file A (kmem s') A' (fd_private (kmem s') d) (bytes (kmem s) (entry_at items (last H)) 32)"
    by (rule fopen_spec [OF assms(1-7) h(1) assms(10) h(2,3) assms(13,14) h(4), where dev = dev]) simp
  note e = grows_fields [OF o(5)] and f = fs_readyD [OF assms(1)] and f' = fs_readyD [OF o(3)]
  let ?r = "fd_private (kmem s') d"
  let ?c = "fitem_ptr (kmem s') (fdesc_item (kmem s') ?r)"
  have r: "fdesc_pos (kmem s') ?r = 0" "A' ?c = Some 1" "bytes (kmem s') ?c 32 = bytes (kmem s) (entry_at items (last H)) 32" "A ?c = None"
    using o(8) by (simp_all add: fresh_file_def opened_file_def file_item_def)
  have st8: "span st 4 \<subseteq> span st 8" "span (st + 4) 4 \<subseteq> span st 8" using span_mono [of 4 8 st] word_offset_in [of 4 4 4 8 st] by simp_all
  have ra: "reads_at s' ?c st cb (int start)"
    by (rule reads_at_copied [OF assms(16) growsD(3) [OF o(5)] _ _ e(4,2) r(3)]) (use assms(24) st8 in blast)+
  have c: "span ?c 32 \<subseteq> kheap_spare s"
  proof -
    have "A' q = A q" if "A q \<noteq> None" for q using o(2) that by (auto simp: map_le_def dom_def)
    then have "span ?c (1 * 4096) \<subseteq> kheap_spare s" by (intro later_live [OF f(10) f'(10) e(1) r(2)]) (simp_all add: r(4))
    then show ?thesis using span_mono [of 32 4096 ?c] by auto
  qed
  have "span st 8 \<inter> kheap_spare s = {}" using assms(24) by blast
  then have ci: "span ?c 32 \<inter> (span st 4 \<union> span out ?L) = {}" using c assms(25) st8(1) by blast
  have sto: "span (st + 4) 4 \<inter> span out ?L = {}" "span st 4 \<inter> span out ?L = {}" using assms(23) st8 by blast+
  have p92: "span (disk_fs_private (the_disk s')) 92 \<inter> (span st 4 \<union> span out ?L) = {}" unfolding e(4) by (rule assms(22))
  have "?L < 2147483648" using assms(21) by linarith
  then have "0 + int ?L < 2147483648" by (simp only: of_nat_less_numeral_iff add_0)
  moreover have "unat n = 0 \<or> 0 + int ((unat n - 1) * unat sz) < cb" by (rule disjI2) (simp only: add_0 assms(19))
  moreover have "int start = int start + 0" "(0 :: int) \<le> 0" by simp_all
  ultimately have lim: "unat n = 0 \<or> 0 + int ((unat n - 1) * unat sz) < cb" "int start = int start + 0" "(0 :: int) \<le> 0"
    "0 + int ?L < 2147483648" by blast+
  obtain m L where m: "fat16_read_loop dev ?c sz (unat n) 0 out s' = Some (None, s'\<lparr>kmem := m, iolog := L\<rparr>)"
    "bytes m out ?L = disk_bytes D start ?L"
    using fat16_read_loop_spec [OF assms(15) ra lim(2,3,1) assms(20) lim(4) assms(21) p92 ci sto] by blast
  have "fat16_read dev ?r sz n out s' = Some (sint n, s'\<lparr>kmem := m, iolog := L\<rparr>)"
    using m(1) by (simp add: fat16_read_def r(1))
  moreover have "file_get_descriptor (int i + 1) s' = d"
  proof -
    have "slot (kmem s') (file_descriptors_at s') i = fd_table s' ! i" using assms(12) by (simp add: fd_table_def slots_def)
    moreover have "length (fd_table s) = 512" by (simp add: fd_table_def)
    then have "fd_table s' ! i = d" using assms(12) unfolding o(4) by simp
    ultimately show ?thesis using assms(12) by (simp add: file_get_descriptor_def)
  qed
  ultimately have "fread dev out sz n (int i + 1) s' = Some (sint n, s'\<lparr>kmem := m, iolog := L\<rparr>)"
    using o(6,7) assms(17,18) by (simp add: fread_def call_read_def e(3))
  then show ?thesis using o(1) m(2) by auto
qed

section \<open>Properties\<close>

text \<open>C7: \<^verbatim>\<open>fopen\<close> with mode r, of a path of at most 108 characters that names drive 0
  and has at least one part, with a free descriptor and room on the heap, where the entries of the root directory that
  have the name of the first part, upper or lower case, are files: none has the subdirectory attribute. If there is
  such an entry and the path has no second part, the answer is the number of the first free descriptor, and the
  descriptor belongs to the driver and stands for a new open file at position 0 with a copy of the last of these
  entries. If there is none, or the path has a second part, the answer is 0 and no descriptor is taken. The file
  system stays mounted and the table of descriptors in order.\<close>

theorem fopen_opens:
  assumes "fs_ready s A items names" "cstr (kmem s) path (0x30 # 0x3a # 0x2f # cs)" "length cs \<le> 105" "path_parts cs = name # rest"
    "span path (length cs + 4) \<inter> kheap_spare s = {}" "kmem s mode = 0x72" "mode \<notin> kheap_spare s" "H = hits_from 0 names name"
    "\<forall>j \<in> set H. item_attribute (kmem s) (entry_at items j) AND FAT_FILE_SUBDIRECTORY = 0"
    "2 * length (path_parts cs) + 2 * length H + 3 \<le> kheap_avail s" "i < 512" "fd_table s ! i = 0" "\<forall>j < i. fd_table s ! j \<noteq> 0"
  shows "\<exists>s' A' d. fopen dev path mode s = Some (if H \<noteq> [] \<and> rest = [] then int i + 1 else 0, s') \<and> fs_ready s' A' items names \<and>
    fd_table s' = (if H \<noteq> [] \<and> rest = [] then (fd_table s)[i := d] else fd_table s) \<and>
    (H \<noteq> [] \<and> rest = [] \<longrightarrow> d \<noteq> 0 \<and> fd_index (kmem s') d = int i + 1 \<and> fd_filesystem (kmem s') d = fat16_fs_at s \<and>
       fresh_file A (kmem s') A' (fd_private (kmem s') d) (bytes (kmem s) (entry_at items (last H)) 32))"
proof -
  obtain s' A' d where "fopen dev path mode s = Some (if H \<noteq> [] \<and> rest = [] then int i + 1 else 0, s')" "map_le A A'" "fs_ready s' A' items names"
    "fd_table s' = (if H \<noteq> [] \<and> rest = [] then (fd_table s)[i := d] else fd_table s)"
    "grows (span (tmp_filename_at s) 108 \<union> span (file_descriptors_at s) 2048) s s' A'"
    "(H \<noteq> [] \<and> rest = []) \<longrightarrow> d \<noteq> 0 \<and> fd_index (kmem s') d = int i + 1 \<and> fd_filesystem (kmem s') d = fat16_fs_at s \<and>
       fresh_file A (kmem s') A' (fd_private (kmem s') d) (bytes (kmem s) (entry_at items (last H)) 32)"
    by (rule fopen_spec [OF assms refl, where dev = dev])
  then show ?thesis by blast
qed

text \<open>C38: When \<^verbatim>\<open>fopen\<close> answers 0. For any path and any mode, on a mounted file system,
  with room on the heap and where the entries of the root directory that have the name of the path's first part are
  files, \<^verbatim>\<open>fopen\<close> returns, never a negative number, and it returns a descriptor's number just
  when the path has at most 108 characters, starts with \<^verbatim>\<open>0:/\<close> and has exactly one part behind
  it, an entry has that name, the mode is r, and the table of descriptors has an empty entry. In every other case the
  answer is 0 and the table is as before.\<close>

theorem fopen_opens_iff:
  assumes "fs_ready s A items names" "cstr (kmem s) path cs" "length cs < 2147483648" "span path (Suc (length cs)) \<inter> kheap_spare s = {}"
    "mode \<notin> kheap_spare s" "parts = path_parts (drop 3 cs)" "H = hits_from 0 names (hd parts)"
    "\<forall>j \<in> set H. item_attribute (kmem s) (entry_at items j) AND FAT_FILE_SUBDIRECTORY = 0"
    "2 * length parts + 2 * length H + 3 \<le> kheap_avail s"
  shows "\<exists>r s' A'. fopen dev path mode s = Some (r, s') \<and> fs_ready s' A' items names \<and> 0 \<le> r \<and>
    (r = 0 \<longrightarrow> fd_table s' = fd_table s) \<and>
    (r \<noteq> 0 \<longleftrightarrow> length cs \<le> 108 \<and> take 3 cs = [0x30, 0x3a, 0x2f] \<and> length parts = 1 \<and> H \<noteq> [] \<and> kmem s mode = 0x72 \<and> 0 \<in> set (fd_table s))"
proof (cases "108 < length cs \<or> (\<nexists>d rest. cs = d # 0x3a # 0x2f # rest \<and> isdigit d)")
  case True
  have "fopen dev path mode s = Some (0, s)" using parse_refused [OF assms(2,3) True] by (simp add: fopen_def fopen_result_def)
  moreover have "\<not> (length cs \<le> 108 \<and> take 3 cs = [0x30, 0x3a, 0x2f])"
  proof
    assume a: "length cs \<le> 108 \<and> take 3 cs = [0x30, 0x3a, 0x2f]"
    then have "cs = [0x30, 0x3a, 0x2f] @ drop 3 cs" using append_take_drop_id [of 3 cs] by simp
    moreover have "isdigit 0x30" by (simp add: isdigit_def)
    ultimately show False using True a by auto
  qed
  ultimately show ?thesis using assms(1) by blast
next
  case False
  then obtain d rest where c: "cs = d # 0x3a # 0x2f # rest" "isdigit d" "length rest \<le> 105" by auto
  have p: "parts = path_parts rest" using assms(6) c(1) by simp
  have sp: "span path (length rest + 4) \<inter> kheap_spare s = {}" using assms(4) c(1) by (simp add: eval_nat_numeral)
  have st: "cstr (kmem s) path (d # 0x3a # 0x2f # rest)" using assms(2) c(1) by simp
  have av: "2 * length (path_parts rest) + 2 \<le> kheap_avail s" using assms(9) p by simp
  have tk: "take 3 cs = [0x30, 0x3a, 0x2f] \<longleftrightarrow> d = 0x30" "length cs \<le> 108" using c(3) by (simp_all add: c(1) numeral_3_eq_3)
  consider (other) "d \<noteq> 0x30 \<or> path_parts rest = [] \<or> kmem s mode \<noteq> 0x72"
    | (reading) name more where "path_parts rest = name # more" "d = 0x30" "kmem s mode = 0x72" by (cases "path_parts rest") auto
  then show ?thesis
  proof cases
    case other
    then show ?thesis using fopen_unparsed [OF assms(1) st c(2,3) sp av assms(5) other, where dev = dev] p tk by fastforce
  next
    case reading
    have "H = hits_from 0 names name" "2 * length (path_parts rest) + 2 * length H + 3 \<le> kheap_avail s" using assms(7,9) p reading(1) by simp_all
    from fopen_reading [OF assms(1) st [unfolded reading(2)] c(3) reading(1) sp reading(3) assms(5) this(1) assms(8) this(2), where dev = dev]
    show ?thesis using p tk reading by simp
  qed
qed

text \<open>C6: A file is read by its path. On a drive that behaves as documented, \<^verbatim>\<open>fopen\<close> of
  the name of an entry of the root directory returns the first free number, and \<^verbatim>\<open>fread\<close> of
  \<open>n\<close> elements through that number, all starting inside the first cluster, returns \<open>n\<close> and
  leaves in the buffer the bytes of the disk from the start of the cluster on that the entry names.\<close>

theorem fopen_fread_reads:
  fixes s :: "'z filestate_scheme"
  assumes "fs_ready s A items names" "cstr (kmem s) path (0x30 # 0x3a # 0x2f # cs)" "length cs \<le> 105" "path_parts cs = [name]"
    "span path (length cs + 4) \<inter> kheap_spare s = {}" "kmem s mode = 0x72" "mode \<notin> kheap_spare s"
    "hits_from 0 names name = H" "H \<noteq> []" "\<forall>j \<in> set H. item_attribute (kmem s) (entry_at items j) AND FAT_FILE_SUBDIRECTORY = 0"
    "2 * length H + 5 \<le> kheap_avail s" "i < 511" "fd_table s ! i = 0" "\<forall>j < i. fd_table s ! j \<noteq> 0"
    and "ata_disk dev D" "reads_at s (entry_at items (last H)) st cb (int start)" "n \<noteq> 0" "sz \<noteq> 0"
    "int ((unat n - 1) * unat sz) < cb" "uint sz \<le> cb" "start + unat n * unat sz < 2147483648"
    and "span (disk_fs_private (the_disk s)) 92 \<inter> (span st 4 \<union> span out (unat n * unat sz)) = {}" "span st 8 \<inter> span out (unat n * unat sz) = {}"
    "(span (disk_fs_private (the_disk s)) 92 \<union> span st 8) \<inter>
       (kheap_spare s \<union> (span (tmp_filename_at s) 108 \<union> span (file_descriptors_at s) 2048)) = {}"
    "span out (unat n * unat sz) \<inter> kheap_spare s = {}"
  shows "\<exists>s' s''. fopen dev path mode s = Some (int i + 1, s') \<and> fread dev out sz n (int i + 1) s' = Some (sint n, s'') \<and>
    bytes (kmem s'') out (unat n * unat sz) = disk_bytes D start (unat n * unat sz)"
  by (rule fopen_fread_spec [OF assms])

section \<open>Witnesses\<close>

text \<open>A mounted disk with the file \<^verbatim>\<open>HELLO.TXT\<close>, whose data is cluster 2, sector 10, and the paths \<^verbatim>\<open>0:/hello.txt\<close> and
  \<^verbatim>\<open>0:/other\<close>.\<close>

definition demo_files_mem :: mem where
  "demo_files_mem = store_bytes (store_bytes (store_bytes ((\<lambda>_. 0)(0x680 := 0x72, 0x300D := 1, 0x3041 := 0x40, 0x3044 := 1, 0x304C := 10,
       0x3051 := 0x31, 0x3105 := 3, 0x400B := 0x20, 0x401A := 2))
     0x600 [0x30, 0x3a, 0x2f, 0x68, 0x65, 0x6c, 0x6c, 0x6f, 0x2e, 0x74, 0x78, 0x74])
     0x640 [0x30, 0x3a, 0x2f, 0x6f, 0x74, 0x68, 0x65, 0x72])
     0x4000 [0x48, 0x45, 0x4c, 0x4c, 0x4f, 0x20, 0x20, 0x20, 0x54, 0x58, 0x54]"

definition demo_files_base :: filestate where
  "demo_files_base = \<lparr>kmem = demo_files_mem, video_mem = 0, terminal_row = 0, terminal_col = 0, kernel_heap = boot_heap,
     current_directory = 0, cr3 = 0, iolog = [],
     the_disk = \<lparr>disk_type = 0, sector_size = 512, disk_id = 0, disk_filesystem = 0x3200, disk_fs_private = 0x3000\<rparr>,
     disk_at = 0x300, fat16_fs_at = 0x3200, tmp_filename_at = 0x2000, filesystems_at = 0x3300, file_descriptors_at = 0x1000\<rparr>"

definition demo_files :: filestate where
  "demo_files = kheap_init demo_files_base"

abbreviation hello_name :: "u8 list" where
  "hello_name \<equiv> [0x48, 0x45, 0x4c, 0x4c, 0x4f, 0x2e, 0x54, 0x58, 0x54]"

lemma demo_files_mem_facts:
  "cstr demo_files_mem 0x600 (0x30 # 0x3a # 0x2f # [0x68, 0x65, 0x6c, 0x6c, 0x6f, 0x2e, 0x74, 0x78, 0x74])"
  "cstr demo_files_mem 0x640 (0x30 # 0x3a # 0x2f # [0x6f, 0x74, 0x68, 0x65, 0x72])"
  "demo_files_mem 0x680 = 0x72" "entry_name demo_files_mem 0x4000 hello_name" "item_attribute demo_files_mem 0x4000 = 0x20"
  "dir_listing demo_files_mem 0x3040 0x4000 [hello_name]"
proof -
  show "cstr demo_files_mem 0x600 (0x30 # 0x3a # 0x2f # [0x68, 0x65, 0x6c, 0x6c, 0x6f, 0x2e, 0x74, 0x78, 0x74])"
    "cstr demo_files_mem 0x640 (0x30 # 0x3a # 0x2f # [0x6f, 0x74, 0x68, 0x65, 0x72])"
    "demo_files_mem 0x680 = 0x72" "item_attribute demo_files_mem 0x4000 = 0x20"
    by (simp_all add: demo_files_mem_def item_attribute_def)
  have "field_run demo_files_mem 0x4000 [0x48, 0x45, 0x4c, 0x4c, 0x4f]" "field_run demo_files_mem (0x4000 + 8) [0x54, 0x58, 0x54]"
    by (simp_all add: demo_files_mem_def)
  then show n: "entry_name demo_files_mem 0x4000 hello_name"
    unfolding entry_name_def by (intro exI [of _ "[0x48, 0x45, 0x4c, 0x4c, 0x4f]"] exI [of _ "[0x54, 0x58, 0x54]"]) simp
  have "read32 demo_files_mem 0x3040 = 0x4000" "read32 demo_files_mem 0x3044 = 1" by (simp_all add: read32_def demo_files_mem_def)
  then show "dir_listing demo_files_mem 0x3040 0x4000 [hello_name]"
    using n by (simp add: dir_listing_def dir_item_def dir_total_def)
qed

lemma demo_files_boot:
  "agree_off (span 0x7e00 25600) demo_files_mem (kmem demo_files)" "kheap_ready demo_files (\<lambda>_. None)" "kheap_avail demo_files = 25600"
  "kernel_heap demo_files = boot_heap" "the_disk demo_files = the_disk demo_files_base" "disk_at demo_files = 0x300" "fat16_fs_at demo_files = 0x3200"
  "tmp_filename_at demo_files = 0x2000" "file_descriptors_at demo_files = 0x1000"
  "unat a + n \<le> 0x7e00 \<Longrightarrow> heap_apart demo_files (\<lambda>_. None) (span a n)" "unat a + n \<le> 0x7e00 \<Longrightarrow> span a n \<inter> kheap_spare demo_files = {}"
  "unat a + n \<le> 0x7e00 \<Longrightarrow> span a n \<inter> span 0x7e00 25600 = {}"
proof -
  show "kheap_ready demo_files (\<lambda>_. None)" "kheap_avail demo_files = 25600" "kernel_heap demo_files = boot_heap"
    unfolding demo_files_def using kheap_init_avail [of demo_files_base] by simp_all
  obtain m where m: "kheap_init demo_files_base = demo_files_base\<lparr>kmem := m, kernel_heap := boot_heap\<rparr>" using kheap_init_eq by blast
  then show "the_disk demo_files = the_disk demo_files_base" "disk_at demo_files = 0x300" "fat16_fs_at demo_files = 0x3200"
    "tmp_filename_at demo_files = 0x2000" "file_descriptors_at demo_files = 0x1000"
    by (simp_all add: demo_files_def demo_files_base_def)
  show "agree_off (span 0x7e00 25600) demo_files_mem (kmem demo_files)"
    using kheap_init_empty [of demo_files_base] unfolding demo_files_def by (simp add: demo_files_base_def)
  show "unat a + n \<le> 0x7e00 \<Longrightarrow> heap_apart demo_files (\<lambda>_. None) (span a n)" unfolding demo_files_def by (rule boot_apart)
  then show "unat a + n \<le> 0x7e00 \<Longrightarrow> span a n \<inter> kheap_spare demo_files = {}" using heap_apart_spare by blast
  show "unat a + n \<le> 0x7e00 \<Longrightarrow> span a n \<inter> span 0x7e00 25600 = {}" by (intro span_disjoint) simp_all
qed

lemma demo_files_read:
  "unat a + 1 \<le> 0x7e00 \<Longrightarrow> kmem demo_files a = demo_files_mem a"
  using agree_offD [OF demo_files_boot(1)] demo_files_boot(12) [of a 1] span_base_in [OF zero_less_one, of a] by blast

lemma demo_files_table: "fd_table demo_files = replicate 512 0"
proof -
  have z: "slot demo_files_mem 0x1000 i = 0" if "i < 512" for i
  proof -
    have "demo_files_mem x = 0" if "x \<in> span 0x1000 2048" for x
      using that by (auto simp: demo_files_mem_def span_def)
    moreover have "span (0x1000 + 4 * word_of_nat i :: u32) 4 \<subseteq> span 0x1000 (4 * 512)" by (rule array_span_subset) (use that in simp_all)
    ultimately have "\<forall>x \<in> span (0x1000 + 4 * word_of_nat i) 4. demo_files_mem x = 0" by auto
    then show ?thesis by (simp add: slot_def read32_def span4_cases)
  qed
  have "slots (kmem demo_files) 0x1000 512 = slots demo_files_mem 0x1000 512"
    by (rule slots_agree [OF _ demo_files_boot(1)]) (use demo_files_boot(12) [of "0x1000" 2048] in simp_all)
  then show ?thesis using z unfolding fd_table_def demo_files_boot(9) by (simp add: slots_def list_eq_iff_nth_eq)
qed

lemma demo_files_ready: "fs_ready demo_files (\<lambda>_. None) 0x4000 [hello_name]"
proof -
  note b = demo_files_boot
  have dd: "root_directory (disk_fs_private (the_disk demo_files)) = 0x3040" "disk_filesystem (the_disk demo_files) = 0x3200"
    by (simp_all add: b(5) demo_files_base_def)
  have fd: "fd_ok demo_files (\<lambda>_. None)"
    using b(2) b(10) [of "0x1000" 2048] by (simp add: fd_ok_def fd_room_def demo_files_table b(9))
  have lr: "listing_region 0x3040 0x4000 (length [hello_name]) = span 0x3040 8 \<union> span 0x4000 32" by (simp add: listing_region_def)
  have t: "span (0x3040 :: u32) 8 \<inter> span 0x7e00 25600 = {}" "span (0x4000 :: u32) 32 \<inter> span 0x7e00 25600 = {}" by (rule b(12); simp)+
  have sp: "span 0x3040 8 \<inter> kheap_spare demo_files = {}" "span 0x4000 32 \<inter> kheap_spare demo_files = {}" by (rule b(11); simp)+
  have dj: "span (0x3040 :: u32) 8 \<inter> span 0x2000 108 = {}" "span (0x4000 :: u32) 32 \<inter> span 0x2000 108 = {}"
    "span (0x3040 :: u32) 8 \<inter> span 0x1000 2048 = {}" "span (0x4000 :: u32) 32 \<inter> span 0x1000 2048 = {}"
    by (rule span_disjoint_sym; simp)+
  have df: "span (0x1000 :: u32) 2048 \<inter> span 0x2000 108 = {}" by (rule span_disjoint) simp_all
  have "listing_region 0x3040 0x4000 (length [hello_name]) \<inter> span 0x7e00 25600 = {}" unfolding lr using t by blast
  note l = dir_listing_agree [OF demo_files_mem_facts(6) b(1) this]
  have r: "listing_region 0x3040 0x4000 (length [hello_name]) \<inter> (kheap_spare demo_files \<union> span 0x2000 108) = {}"
    "listing_region 0x3040 0x4000 (length [hello_name]) \<inter> span 0x1000 2048 = {}"
    unfolding lr using sp dj by blast+
  have ht: "heap_apart demo_files (\<lambda>_. None) (span 0x2000 108)" by (rule b(10)) simp
  show ?thesis unfolding fs_ready_def dd b(6-9) using fd l r ht df b(4) by (intro conjI) simp_all
qed

lemma demo_files_paths:
  "cstr (kmem demo_files) 0x600 (0x30 # 0x3a # 0x2f # [0x68, 0x65, 0x6c, 0x6c, 0x6f, 0x2e, 0x74, 0x78, 0x74])"
  "cstr (kmem demo_files) 0x640 (0x30 # 0x3a # 0x2f # [0x6f, 0x74, 0x68, 0x65, 0x72])"
  "kmem demo_files 0x680 = 0x72" "0x680 \<notin> kheap_spare demo_files" "item_attribute (kmem demo_files) 0x4000 = 0x20"
proof -
  have d: "span (0x600 :: u32) (Suc (length (0x30 # 0x3a # 0x2f # [0x68, 0x65, 0x6c, 0x6c, 0x6f, 0x2e, 0x74, 0x78, 0x74 :: u8]))) \<inter> span 0x7e00 25600 = {}"
    "span (0x640 :: u32) (Suc (length (0x30 # 0x3a # 0x2f # [0x6f, 0x74, 0x68, 0x65, 0x72 :: u8]))) \<inter> span 0x7e00 25600 = {}"
    by (rule demo_files_boot(12); simp)+
  show "cstr (kmem demo_files) 0x600 (0x30 # 0x3a # 0x2f # [0x68, 0x65, 0x6c, 0x6c, 0x6f, 0x2e, 0x74, 0x78, 0x74])"
    by (rule cstr_agree [OF demo_files_mem_facts(1) demo_files_boot(1) d(1)])
  show "cstr (kmem demo_files) 0x640 (0x30 # 0x3a # 0x2f # [0x6f, 0x74, 0x68, 0x65, 0x72])"
    by (rule cstr_agree [OF demo_files_mem_facts(2) demo_files_boot(1) d(2)])
  show "kmem demo_files 0x680 = 0x72" using demo_files_read [of "0x680"] demo_files_mem_facts(3) by simp
  have "span 0x680 1 \<inter> kheap_spare demo_files = {}" by (rule demo_files_boot(11)) simp
  then show "0x680 \<notin> kheap_spare demo_files" using span_base_in [OF zero_less_one, of "0x680 :: u32"] by blast
  show "item_attribute (kmem demo_files) 0x4000 = 0x20"
    using demo_files_read [of "0x400b"] demo_files_mem_facts(5) by (simp add: item_attribute_def)
qed

lemma demo_files_reads: "reads_at demo_files 0x4000 0x3100 512 5120"
proof -
  have w: "read16 demo_files_mem 0x4014 = 0" "read16 demo_files_mem 0x401A = 2" "read32 demo_files_mem 0x3050 = 0x3100"
    "read32 demo_files_mem 0x304C = 10" "read32 demo_files_mem 0x3104 = 0x300" "demo_files_mem 0x300D = 1"
    by (simp_all add: demo_files_mem_def read16_def read32_def)
  have s0: "reads_at demo_files_base 0x4000 0x3100 512 5120"
    using w by (simp add: reads_at_def demo_files_base_def cluster_read_stream_def stream_disk_def cluster_bytes_def hdr_sectors_per_cluster_def
      fat16_cluster_to_sector_def dir_ending_sector_pos_def fat16_get_first_cluster_def item_high_cluster_def item_low_cluster_def)
  have k: "kmem demo_files_base = demo_files_mem" "the_disk demo_files_base = the_disk demo_files" "disk_at demo_files = disk_at demo_files_base"
    by (simp_all add: demo_files_boot demo_files_base_def)
  have p: "disk_fs_private (the_disk demo_files_base) = 0x3000" by (simp add: demo_files_base_def)
  have d: "span (0x3000 :: u32) 92 \<inter> span 0x7e00 25600 = {}" "span (0x3100 + 4 :: u32) 4 \<inter> span 0x7e00 25600 = {}"
    "span (0x4000 :: u32) 32 \<inter> span 0x7e00 25600 = {}" by (rule demo_files_boot(12); simp)+
  have b: "bytes (kmem demo_files) 0x4000 32 = bytes (kmem demo_files_base) 0x4000 32"
    unfolding k(1) by (rule bytes_agree [OF demo_files_boot(1) d(3)]) simp
  have a: "agree_off (span 0x7e00 25600) (kmem demo_files_base) (kmem demo_files)" unfolding k(1) by (rule demo_files_boot(1))
  show ?thesis by (rule reads_at_copied [OF s0 a d(1) [folded p] d(2) k(2) [symmetric] k(3) b])
qed

lemma hello_found:
  "hits_from 0 [hello_name] [0x68, 0x65, 0x6c, 0x6c, 0x6f, 0x2e, 0x74, 0x78, 0x74] = [0]"
  "hits_from 0 [hello_name] [0x6f, 0x74, 0x68, 0x65, 0x72] = []"
  "path_parts [0x68, 0x65, 0x6c, 0x6c, 0x6f, 0x2e, 0x74, 0x78, 0x74] = [[0x68, 0x65, 0x6c, 0x6c, 0x6f, 0x2e, 0x74, 0x78, 0x74]]"
  "path_parts [0x6f, 0x74, 0x68, 0x65, 0x72] = [[0x6f, 0x74, 0x68, 0x65, 0x72]]"
  by (simp_all add: hits_from_def tolower_def path_parts.simps)

theorem fopen_opens_witness:
  "\<exists>s s'. fopen demo_drive 0x600 0x680 demo_files = Some (1, s) \<and> fd_table s \<noteq> fd_table demo_files \<and>
     fopen demo_drive 0x640 0x680 demo_files = Some (0, s') \<and> fd_table s' = fd_table demo_files"
proof -
  note b = demo_files_boot
  let ?cs = "[0x68, 0x65, 0x6c, 0x6c, 0x6f, 0x2e, 0x74, 0x78, 0x74] :: u8 list" and ?ds = "[0x6f, 0x74, 0x68, 0x65, 0x72] :: u8 list"
  have sp: "span 0x600 (length ?cs + 4) \<inter> kheap_spare demo_files = {}" "span 0x640 (length ?ds + 4) \<inter> kheap_spare demo_files = {}"
    by (rule b(11); simp)+
  have at: "\<forall>j \<in> set [0]. item_attribute (kmem demo_files) (entry_at 0x4000 j) AND 0x10 = 0" using demo_files_paths(5) by simp
  have t: "fd_table demo_files ! 0 = 0" "length (fd_table demo_files) = 512" by (simp_all add: demo_files_table)
  have 1: "length ?cs \<le> 105" "2 * length (path_parts ?cs) + 2 * length [0 :: nat] + 3 \<le> kheap_avail demo_files" "(0 :: nat) < 512"
    "\<forall>j < (0 :: nat). fd_table demo_files ! j \<noteq> 0" using b(3) by (simp_all add: hello_found(3))
  obtain s A' d where s: "fopen demo_drive 0x600 0x680 demo_files = Some (1, s)" "fs_ready s A' 0x4000 [hello_name]" "fd_table s = (fd_table demo_files)[0 := d]"
    "d \<noteq> 0"
    using fopen_opens [OF demo_files_ready demo_files_paths(1) 1(1) hello_found(3) sp(1) demo_files_paths(3,4) hello_found(1) [symmetric] at 1(2,3) t(1) 1(4), of demo_drive]
    by auto
  have 2: "length ?ds \<le> 105" "2 * length (path_parts ?ds) + 2 * length ([] :: nat list) + 3 \<le> kheap_avail demo_files"
    "\<forall>j \<in> set []. item_attribute (kmem demo_files) (entry_at 0x4000 j) AND 0x10 = 0" using b(3) by (simp_all add: hello_found(4))
  obtain s' where s': "fopen demo_drive 0x640 0x680 demo_files = Some (0, s')" "fd_table s' = fd_table demo_files"
    using fopen_opens [OF demo_files_ready demo_files_paths(2) 2(1) hello_found(4) sp(2) demo_files_paths(3,4) hello_found(2) [symmetric] 2(3,2) 1(3) t(1) 1(4), of demo_drive]
    by auto
  have "fd_table s ! 0 = d" unfolding s(3) using t(2) by simp
  then have "fd_table s \<noteq> fd_table demo_files" using s(4) t(1) by metis
  then show ?thesis using s(1) s' by blast
qed

theorem fopen_opens_iff_witness:
  "\<exists>s s' r. fopen demo_drive 0x600 0x680 demo_files = Some (r, s) \<and> 0 < r \<and>
     fopen demo_drive 0x640 0x680 demo_files = Some (0, s') \<and> fd_table s' = fd_table demo_files"
proof -
  note b = demo_files_boot
  let ?cs = "[0x68, 0x65, 0x6c, 0x6c, 0x6f, 0x2e, 0x74, 0x78, 0x74] :: u8 list" and ?ds = "[0x6f, 0x74, 0x68, 0x65, 0x72] :: u8 list"
  have sp: "span 0x600 (Suc (length (0x30 # 0x3a # 0x2f # ?cs))) \<inter> kheap_spare demo_files = {}"
    "span 0x640 (Suc (length (0x30 # 0x3a # 0x2f # ?ds))) \<inter> kheap_spare demo_files = {}" by (rule b(11); simp)+
  have p: "path_parts (drop 3 (0x30 # 0x3a # 0x2f # ?cs)) = [?cs]" "path_parts (drop 3 (0x30 # 0x3a # 0x2f # ?ds)) = [?ds]"
    using hello_found(3,4) by simp_all
  obtain r s where "fopen demo_drive 0x600 0x680 demo_files = Some (r, s)" "0 \<le> r" "r \<noteq> 0"
    using fopen_opens_iff [OF demo_files_ready demo_files_paths(1) _ sp(1) demo_files_paths(4) refl refl, of demo_drive] b(3) demo_files_paths(3,5)
    by (simp only: p) (auto simp: hello_found(1) demo_files_table)
  moreover obtain s' where "fopen demo_drive 0x640 0x680 demo_files = Some (0, s')" "fd_table s' = fd_table demo_files"
    using fopen_opens_iff [OF demo_files_ready demo_files_paths(2) _ sp(2) demo_files_paths(4) refl refl, of demo_drive] b(3)
    by (simp only: p) (auto simp: hello_found(2))
  ultimately show ?thesis by (metis order_le_imp_less_or_eq)
qed

theorem fopen_fread_reads_witness:
  "\<exists>s s'. fopen demo_drive 0x600 0x680 demo_files = Some (1, s) \<and> fread demo_drive 0x5000 4 1 1 s = Some (1, s') \<and>
     bytes (kmem s') 0x5000 4 = [10, 0, 10, 0]"
proof -
  note b = demo_files_boot
  let ?cs = "[0x68, 0x65, 0x6c, 0x6c, 0x6f, 0x2e, 0x74, 0x78, 0x74] :: u8 list"
  have o: "unat (1 :: u32) * unat (4 :: u32) = 4" by simp
  have pr: "disk_fs_private (the_disk demo_files) = 0x3000" by (simp add: b(5) demo_files_base_def)
  have sp: "span 0x600 (length ?cs + 4) \<inter> kheap_spare demo_files = {}" "span 0x5000 4 \<inter> kheap_spare demo_files = {}"
    "span 0x3000 92 \<inter> kheap_spare demo_files = {}" "span 0x3100 8 \<inter> kheap_spare demo_files = {}" by (rule b(11); simp)+
  have dj: "span (0x3000 :: u32) 92 \<inter> span 0x3100 4 = {}" "span (0x3000 :: u32) 92 \<inter> span 0x5000 4 = {}" "span (0x3100 :: u32) 8 \<inter> span 0x5000 4 = {}"
    by (rule span_disjoint; simp)+
  have dj': "span (0x3000 :: u32) 92 \<inter> span 0x2000 108 = {}" "span (0x3000 :: u32) 92 \<inter> span 0x1000 2048 = {}"
    "span (0x3100 :: u32) 8 \<inter> span 0x2000 108 = {}" "span (0x3100 :: u32) 8 \<inter> span 0x1000 2048 = {}"
    by (rule span_disjoint_sym; simp)+
  have r: "reads_at demo_files (entry_at 0x4000 (last [0])) 0x3100 512 (int 5120)" using demo_files_reads by simp
  have at: "\<forall>j \<in> set [0]. item_attribute (kmem demo_files) (entry_at 0x4000 j) AND 0x10 = 0" using demo_files_paths(5) by simp
  have t: "fd_table demo_files ! 0 = 0" by (simp add: demo_files_table)
  have "\<exists>s' s''. fopen demo_drive 0x600 0x680 demo_files = Some (int 0 + 1, s') \<and> fread demo_drive 0x5000 4 1 (int 0 + 1) s' = Some (sint (1 :: u32), s'') \<and>
    bytes (kmem s'') 0x5000 (unat (1 :: u32) * unat (4 :: u32)) = disk_bytes demo_sectors 5120 (unat (1 :: u32) * unat (4 :: u32))"
    by (rule fopen_fread_reads [OF demo_files_ready demo_files_paths(1) _ hello_found(3) sp(1) demo_files_paths(3,4) hello_found(1) _ at _ _ t _ demo_drive_ok r])
      (use b(3) sp dj dj' in \<open>simp_all add: o pr b(8,9) Int_Un_distrib Int_Un_distrib2\<close>)
  moreover have "disk_bytes demo_sectors 5120 4 = [10, 0, 10, 0]"
    by (simp add: disk_bytes_def demo_sectors_def word_bytes_replicate_nth upt_rec)
  ultimately show ?thesis by simp
qed

end
