(* ===== verification/Layouts.thy ===== *)
theory Layouts
  imports Kernel
begin

text \<open>
  The data layout behind the other theories: the structures of the headers under \<^verbatim>\<open>src/\<close> with their fields in order,
  and the rules by which the C compiler places fields on the i386: each at the next multiple of its alignment, nothing
  padded in a packed structure, the size a multiple of the alignment of the structure. The offsets and sizes at which the
  theories of the components read and write memory are shown to be the ones these rules give.
\<close>

section \<open>Types and their placement\<close>

text \<open>\<open>C_Int n\<close> is an integer of \<open>n\<close> bytes; the flag of a structure says that it is packed.\<close>

datatype ctype = C_Int int | C_Ptr | C_Array ctype int | C_Struct bool "(string \<times> ctype) list" | C_Union "(string \<times> ctype) list"

abbreviation uint8_t :: ctype where "uint8_t \<equiv> C_Int 1"
abbreviation uint16_t :: ctype where "uint16_t \<equiv> C_Int 2"
abbreviation uint32_t :: ctype where "uint32_t \<equiv> C_Int 4"
abbreviation c_char :: ctype where "c_char \<equiv> C_Int 1"
abbreviation c_int :: ctype where "c_int \<equiv> C_Int 4"

definition align_up :: "int \<Rightarrow> int \<Rightarrow> int" where
  "align_up pos a = (pos + a - 1) div a * a"

fun alignof :: "ctype \<Rightarrow> int" where
  "alignof (C_Int n) = n"
| "alignof C_Ptr = 4"
| "alignof (C_Array t n) = alignof t"
| "alignof (C_Struct packed fs) = (if packed then 1 else foldr (\<lambda>(f, t) a. max (alignof t) a) fs 1)"
| "alignof (C_Union fs) = foldr (\<lambda>(f, t) a. max (alignof t) a) fs 1"

text \<open>The position of a field, and the position after the last one, from the position of the first on.\<close>

definition field_start :: "bool \<Rightarrow> int \<Rightarrow> ctype \<Rightarrow> int" where
  "field_start packed pos t = (if packed then pos else align_up pos (alignof t))"

fun sizeof :: "ctype \<Rightarrow> int" where
  "sizeof (C_Int n) = n"
| "sizeof C_Ptr = 4"
| "sizeof (C_Array t n) = n * sizeof t"
| "sizeof (C_Struct packed fs) =
     align_up (fold (\<lambda>(f, t) pos. field_start packed pos t + sizeof t) fs 0) (alignof (C_Struct packed fs))"
| "sizeof (C_Union fs) = align_up (foldr (\<lambda>(f, t) n. max (sizeof t) n) fs 0) (alignof (C_Union fs))"

fun place :: "bool \<Rightarrow> int \<Rightarrow> (string \<times> ctype) list \<Rightarrow> string \<Rightarrow> (int \<times> ctype) option" where
  "place packed pos [] f = None"
| "place packed pos ((g, t) # fs) f =
     (if f = g then Some (field_start packed pos t, t) else place packed (field_start packed pos t + sizeof t) fs f)"

text \<open>\<open>offsetof path t\<close>: the members named by the path, one inside the other.\<close>

fun offsetof :: "string list \<Rightarrow> ctype \<Rightarrow> int option" where
  "offsetof [] t = Some 0"
| "offsetof (f # path) (C_Struct packed fs) =
     (case place packed 0 fs f of None \<Rightarrow> None | Some (pos, t) \<Rightarrow> map_option ((+) pos) (offsetof path t))"
| "offsetof (f # path) (C_Union fs) = (case map_of fs f of None \<Rightarrow> None | Some t \<Rightarrow> offsetof path t)"
| "offsetof (f # path) t = None"

section \<open>The structures\<close>

definition paging_4gb_chunk_t :: ctype where
  "paging_4gb_chunk_t = C_Struct False [(''directory_entry'', C_Ptr)]"

definition path_root_t :: ctype where
  "path_root_t = C_Struct False [(''drive_no'', c_int), (''first'', C_Ptr)]"

definition path_part_t :: ctype where
  "path_part_t = C_Struct False [(''part'', C_Ptr), (''next'', C_Ptr)]"

definition disk_stream_t :: ctype where
  "disk_stream_t = C_Struct False [(''pos'', c_int), (''disk'', C_Ptr)]"

definition file_stat_t :: ctype where
  "file_stat_t = C_Struct False [(''flags'', c_int), (''filesize'', uint32_t)]"

definition file_descriptor_t :: ctype where
  "file_descriptor_t = C_Struct False [(''index'', c_int), (''filesystem'', C_Ptr), (''private'', C_Ptr), (''disk'', C_Ptr)]"

definition fat_header_extended_t :: ctype where
  "fat_header_extended_t = C_Struct True [(''drive_number'', uint8_t), (''win_nt_bit'', uint8_t), (''signature'', uint8_t),
     (''volume_id'', uint32_t), (''volume_id_string'', C_Array uint8_t 11), (''system_id_string'', C_Array uint8_t 8)]"

definition fat_header_t :: ctype where
  "fat_header_t = C_Struct True [(''short_jmp_ins'', C_Array uint8_t 3), (''oem_identifier'', C_Array uint8_t 8),
     (''bytes_per_sector'', uint16_t), (''sectors_per_cluster'', uint8_t), (''reserved_sectors'', uint16_t),
     (''fat_copies'', uint8_t), (''root_dir_entries'', uint16_t), (''number_of_sectors'', uint16_t), (''media_type'', uint8_t),
     (''sectors_per_fat'', uint16_t), (''sectors_per_track'', uint16_t), (''number_of_heads'', uint16_t),
     (''hidden_sectors'', uint32_t), (''sectors_big'', uint32_t)]"

definition fat_h_t :: ctype where
  "fat_h_t = C_Struct False [(''primary_header'', fat_header_t), (''shared'', C_Union [(''extended_header'', fat_header_extended_t)])]"

definition fat_directory_item_t :: ctype where
  "fat_directory_item_t = C_Struct True [(''filename'', C_Array uint8_t 8), (''ext'', C_Array uint8_t 3), (''attribute'', uint8_t),
     (''reserved'', uint8_t), (''creation_time_tenths_of_a_sec'', uint8_t), (''creation_time'', uint16_t),
     (''creation_date'', uint16_t), (''last_access'', uint16_t), (''high_16_bits_first_cluster'', uint16_t),
     (''last_mod_time'', uint16_t), (''last_mod_date'', uint16_t), (''low_16_bits_first_cluster'', uint16_t), (''filesize'', uint32_t)]"

definition fat_directory_t :: ctype where
  "fat_directory_t = C_Struct False [(''item'', C_Ptr), (''total'', c_int), (''sector_pos'', c_int), (''ending_sector_pos'', c_int)]"

text \<open>A union without a name is given that of its first member.\<close>

definition fat_item_t :: ctype where
  "fat_item_t = C_Struct False [(''item'', C_Union [(''item'', C_Ptr), (''directory'', C_Ptr)]), (''type'', c_int)]"

definition fat_file_descriptor_t :: ctype where
  "fat_file_descriptor_t = C_Struct False [(''item'', C_Ptr), (''pos'', uint32_t)]"

definition fat_private_t :: ctype where
  "fat_private_t = C_Struct False [(''header'', fat_h_t), (''root_directory'', fat_directory_t), (''cluster_read_stream'', C_Ptr),
     (''fat_read_stream'', C_Ptr), (''directory_stream'', C_Ptr)]"

definition gdt_t :: ctype where
  "gdt_t = C_Struct True [(''segment'', uint16_t), (''base_first'', uint16_t), (''base'', uint8_t), (''access'', uint8_t),
     (''high_flags'', uint8_t), (''base_24_31_bits'', uint8_t)]"

definition gdt_structured_t :: ctype where
  "gdt_structured_t = C_Struct False [(''base'', uint32_t), (''limit'', uint32_t), (''type'', uint8_t)]"

definition tss_t :: ctype where
  "tss_t = C_Struct True [(''link'', uint32_t), (''esp0'', uint32_t), (''ss0'', uint32_t), (''esp1'', uint32_t), (''esp2'', uint32_t),
     (''ss2'', uint32_t), (''sr3'', uint32_t), (''eip'', uint32_t), (''eflags'', uint32_t), (''eax'', uint32_t), (''ecx'', uint32_t),
     (''edx'', uint32_t), (''ebx'', uint32_t), (''esp'', uint32_t), (''ebp'', uint32_t), (''esi'', uint32_t), (''edi'', uint32_t),
     (''es'', uint32_t), (''cs'', uint32_t), (''ss'', uint32_t), (''ds'', uint32_t), (''fs'', uint32_t), (''gs'', uint32_t),
     (''ldtr'', uint32_t), (''iopb'', uint32_t)]"

definition elf_header_t :: ctype where
  "elf_header_t = C_Struct True [(''e_ident'', C_Array uint8_t 16), (''e_type'', uint16_t), (''e_machine'', uint16_t),
     (''e_version'', uint32_t), (''e_entry'', uint32_t), (''e_phoff'', c_int), (''e_shoff'', c_int), (''e_flags'', uint32_t),
     (''e_ehsize'', uint16_t), (''e_phentsize'', uint16_t), (''e_phnum'', uint16_t), (''e_shentsize'', uint16_t),
     (''e_shnum'', uint16_t), (''e_shstrndx'', uint16_t)]"

definition elf32_phdr_t :: ctype where
  "elf32_phdr_t = C_Struct True [(''p_type'', uint32_t), (''p_offset'', c_int), (''p_vaddr'', uint32_t), (''p_paddr'', uint32_t),
     (''p_filesz'', uint32_t), (''p_memsz'', uint32_t), (''p_flags'', uint32_t), (''p_align'', uint32_t)]"

definition elf32_shdr_t :: ctype where
  "elf32_shdr_t = C_Struct True [(''sh_name'', uint32_t), (''sh_type'', uint32_t), (''sh_flags'', uint32_t), (''sh_addr'', uint32_t),
     (''sh_offset'', c_int), (''sh_size'', uint32_t), (''sh_link'', uint32_t), (''sh_info'', uint32_t),
     (''sh_addralign'', uint32_t), (''sh_entsize'', uint32_t)]"

definition elf_file_t :: ctype where
  "elf_file_t = C_Struct False [(''filename'', C_Array c_char 108), (''in_memory_size'', c_int), (''elf_memory'', C_Ptr),
     (''virtual_base_address'', C_Ptr), (''virtual_end_address'', C_Ptr), (''physical_base_address'', C_Ptr), (''physical_end_address'', C_Ptr)]"

definition registers_t :: ctype where
  "registers_t = C_Struct False [(''edi'', uint32_t), (''esi'', uint32_t), (''ebp'', uint32_t), (''ebx'', uint32_t), (''edx'', uint32_t),
     (''ecx'', uint32_t), (''eax'', uint32_t), (''ip'', uint32_t), (''cs'', uint32_t), (''flags'', uint32_t), (''esp'', uint32_t),
     (''ss'', uint32_t)]"

definition task_t :: ctype where
  "task_t = C_Struct False [(''page_directory'', C_Ptr), (''registers'', registers_t), (''process'', C_Ptr), (''next'', C_Ptr), (''prev'', C_Ptr)]"

definition keyboard_buffer_t :: ctype where
  "keyboard_buffer_t = C_Struct False [(''buffer'', C_Array c_char 1024), (''tail'', c_int), (''head'', c_int)]"

definition process_t :: ctype where
  "process_t = C_Struct False [(''id'', uint16_t), (''filename'', C_Array c_char 108), (''task'', C_Ptr), (''allocations'', C_Array C_Ptr 1024),
     (''filetype'', uint8_t), (''ptr'', C_Union [(''ptr'', C_Ptr), (''elf_file'', C_Ptr)]), (''stack'', C_Ptr), (''size'', uint32_t),
     (''keyboard'', keyboard_buffer_t)]"

definition keyboard_t :: ctype where
  "keyboard_t = C_Struct False [(''init'', C_Ptr), (''name'', C_Array c_char 20), (''next'', C_Ptr)]"

definition idt_desc_t :: ctype where
  "idt_desc_t = C_Struct True [(''offset_1'', uint16_t), (''selector'', uint16_t), (''zero'', uint8_t), (''type_attr'', uint8_t),
     (''offset_2'', uint16_t)]"

definition idtr_desc_t :: ctype where
  "idtr_desc_t = C_Struct True [(''limit'', uint16_t), (''base'', uint32_t)]"

definition interrupt_frame_t :: ctype where
  "interrupt_frame_t = C_Struct True [(''edi'', uint32_t), (''esi'', uint32_t), (''ebp'', uint32_t), (''reserved'', uint32_t),
     (''ebx'', uint32_t), (''edx'', uint32_t), (''ecx'', uint32_t), (''eax'', uint32_t), (''ip'', uint32_t), (''cs'', uint32_t),
     (''flags'', uint32_t), (''esp'', uint32_t), (''ss'', uint32_t)]"

section \<open>The offsets of the model\<close>

definition at_field :: "ctype \<Rightarrow> string list \<Rightarrow> u32 \<Rightarrow> u32" where
  "at_field t path p = p + word_of_int (the (offsetof path t))"

lemma at_fieldI: "offsetof path t = Some n \<Longrightarrow> at_field t path p = p + word_of_int n"
  by (simp add: at_field_def)

text \<open>The chunk of an address space, paths, streams and file descriptors.\<close>

lemma file_offsets [THEN at_fieldI, simp]:
  "offsetof [''directory_entry''] paging_4gb_chunk_t = Some 0"
  "offsetof [''drive_no''] path_root_t = Some 0" "offsetof [''first''] path_root_t = Some 4"
  "offsetof [''part''] path_part_t = Some 0" "offsetof [''next''] path_part_t = Some 4"
  "offsetof [''pos''] disk_stream_t = Some 0" "offsetof [''disk''] disk_stream_t = Some 4"
  "offsetof [''index''] file_descriptor_t = Some 0" "offsetof [''filesystem''] file_descriptor_t = Some 4"
  "offsetof [''private''] file_descriptor_t = Some 8"
  by code_simp+

lemma file_layout:
  "directory_entry m p = read32 m (at_field paging_4gb_chunk_t [''directory_entry''] p)"
  "root_drive m p = sint (read32 m (at_field path_root_t [''drive_no''] p))"
  "root_first m p = read32 m (at_field path_root_t [''first''] p)"
  "part_str m p = read32 m (at_field path_part_t [''part''] p)" "part_next m p = read32 m (at_field path_part_t [''next''] p)"
  "stream_pos m p = sint (read32 m (at_field disk_stream_t [''pos''] p))"
  "stream_disk m p = read32 m (at_field disk_stream_t [''disk''] p)"
  "fd_index m p = sint (read32 m (at_field file_descriptor_t [''index''] p))"
  "fd_filesystem m p = read32 m (at_field file_descriptor_t [''filesystem''] p)"
  "fd_private m p = read32 m (at_field file_descriptor_t [''private''] p)"
  by (simp_all add: directory_entry_def root_drive_def root_first_def part_str_def part_next_def stream_pos_def stream_disk_def
    fd_index_def fd_filesystem_def fd_private_def)

text \<open>The FAT16 file system: the header on the disk inside \<^verbatim>\<open>struct fat_private\<close>, directories and their items.\<close>

lemma fat_offsets [THEN at_fieldI, simp]:
  "offsetof [''header'', ''primary_header'', ''sectors_per_cluster''] fat_private_t = Some 13"
  "offsetof [''header'', ''primary_header'', ''reserved_sectors''] fat_private_t = Some 14"
  "offsetof [''header'', ''primary_header'', ''fat_copies''] fat_private_t = Some 16"
  "offsetof [''header'', ''primary_header'', ''root_dir_entries''] fat_private_t = Some 17"
  "offsetof [''header'', ''primary_header'', ''sectors_per_fat''] fat_private_t = Some 22"
  "offsetof [''header'', ''shared'', ''extended_header'', ''signature''] fat_private_t = Some 38"
  "offsetof [''root_directory''] fat_private_t = Some 64" "offsetof [''cluster_read_stream''] fat_private_t = Some 80"
  "offsetof [''fat_read_stream''] fat_private_t = Some 84" "offsetof [''directory_stream''] fat_private_t = Some 88"
  "offsetof [''item''] fat_directory_t = Some 0" "offsetof [''total''] fat_directory_t = Some 4"
  "offsetof [''ending_sector_pos''] fat_directory_t = Some 12"
  "offsetof [''ext''] fat_directory_item_t = Some 8" "offsetof [''attribute''] fat_directory_item_t = Some 11"
  "offsetof [''high_16_bits_first_cluster''] fat_directory_item_t = Some 20"
  "offsetof [''low_16_bits_first_cluster''] fat_directory_item_t = Some 26" "offsetof [''filesize''] fat_directory_item_t = Some 28"
  "offsetof [''item'', ''directory''] fat_item_t = Some 0" "offsetof [''type''] fat_item_t = Some 4"
  "offsetof [''item''] fat_file_descriptor_t = Some 0" "offsetof [''pos''] fat_file_descriptor_t = Some 4"
  by code_simp+

lemma fat_layout:
  "hdr_sectors_per_cluster m p = uint (m (at_field fat_private_t [''header'', ''primary_header'', ''sectors_per_cluster''] p))"
  "hdr_reserved_sectors m p = uint (read16 m (at_field fat_private_t [''header'', ''primary_header'', ''reserved_sectors''] p))"
  "hdr_fat_copies m p = uint (m (at_field fat_private_t [''header'', ''primary_header'', ''fat_copies''] p))"
  "hdr_root_dir_entries m p = uint (read16 m (at_field fat_private_t [''header'', ''primary_header'', ''root_dir_entries''] p))"
  "hdr_sectors_per_fat m p = uint (read16 m (at_field fat_private_t [''header'', ''primary_header'', ''sectors_per_fat''] p))"
  "hdr_signature m p = m (at_field fat_private_t [''header'', ''shared'', ''extended_header'', ''signature''] p)"
  "root_directory p = at_field fat_private_t [''root_directory''] p"
  "cluster_read_stream m p = read32 m (at_field fat_private_t [''cluster_read_stream''] p)"
  "fat_read_stream m p = read32 m (at_field fat_private_t [''fat_read_stream''] p)"
  "directory_stream m p = read32 m (at_field fat_private_t [''directory_stream''] p)"
  "dir_item m p = read32 m (at_field fat_directory_t [''item''] p)" "dir_total m p = sint (read32 m (at_field fat_directory_t [''total''] p))"
  "dir_ending_sector_pos m p = sint (read32 m (at_field fat_directory_t [''ending_sector_pos''] p))"
  "item_ext p = at_field fat_directory_item_t [''ext''] p" "item_attribute m p = m (at_field fat_directory_item_t [''attribute''] p)"
  "item_high_cluster m p = read16 m (at_field fat_directory_item_t [''high_16_bits_first_cluster''] p)"
  "item_low_cluster m p = read16 m (at_field fat_directory_item_t [''low_16_bits_first_cluster''] p)"
  "item_filesize m p = read32 m (at_field fat_directory_item_t [''filesize''] p)"
  "fitem_ptr m p = read32 m (at_field fat_item_t [''item'', ''directory''] p)" "fitem_type m p = read32 m (at_field fat_item_t [''type''] p)"
  "fdesc_item m p = read32 m (at_field fat_file_descriptor_t [''item''] p)" "fdesc_pos m p = read32 m (at_field fat_file_descriptor_t [''pos''] p)"
  by (simp_all add: hdr_sectors_per_cluster_def hdr_reserved_sectors_def hdr_fat_copies_def hdr_root_dir_entries_def hdr_sectors_per_fat_def
    hdr_signature_def cluster_read_stream_def fat_read_stream_def directory_stream_def dir_item_def dir_total_def dir_ending_sector_pos_def
    item_attribute_def item_high_cluster_def item_low_cluster_def item_filesize_def fitem_ptr_def fitem_type_def fdesc_item_def fdesc_pos_def)

text \<open>ELF images and the loader's record of one.\<close>

lemma elf_offsets [THEN at_fieldI, simp]:
  "offsetof [''e_ident''] elf_header_t = Some 0" "offsetof [''e_type''] elf_header_t = Some 16" "offsetof [''e_entry''] elf_header_t = Some 24"
  "offsetof [''e_phoff''] elf_header_t = Some 28" "offsetof [''e_shoff''] elf_header_t = Some 32" "offsetof [''e_phnum''] elf_header_t = Some 44"
  "offsetof [''e_shstrndx''] elf_header_t = Some 50"
  "offsetof [''p_type''] elf32_phdr_t = Some 0" "offsetof [''p_offset''] elf32_phdr_t = Some 4" "offsetof [''p_vaddr''] elf32_phdr_t = Some 8"
  "offsetof [''p_filesz''] elf32_phdr_t = Some 16" "offsetof [''p_memsz''] elf32_phdr_t = Some 20" "offsetof [''p_flags''] elf32_phdr_t = Some 24"
  "offsetof [''sh_offset''] elf32_shdr_t = Some 16"
  "offsetof [''elf_memory''] elf_file_t = Some 112" "offsetof [''virtual_base_address''] elf_file_t = Some 116"
  "offsetof [''virtual_end_address''] elf_file_t = Some 120" "offsetof [''physical_base_address''] elf_file_t = Some 124"
  "offsetof [''physical_end_address''] elf_file_t = Some 128"
  by code_simp+

lemma elf_layout:
  "e_ident m p i = m (at_field elf_header_t [''e_ident''] p + word_of_nat i)" "e_type m p = read16 m (at_field elf_header_t [''e_type''] p)"
  "e_entry m p = read32 m (at_field elf_header_t [''e_entry''] p)" "e_phoff m p = sint (read32 m (at_field elf_header_t [''e_phoff''] p))"
  "e_shoff m p = sint (read32 m (at_field elf_header_t [''e_shoff''] p))" "e_phnum m p = read16 m (at_field elf_header_t [''e_phnum''] p)"
  "e_shstrndx m p = read16 m (at_field elf_header_t [''e_shstrndx''] p)"
  "p_type m p = read32 m (at_field elf32_phdr_t [''p_type''] p)" "p_offset m p = read32 m (at_field elf32_phdr_t [''p_offset''] p)"
  "p_vaddr m p = read32 m (at_field elf32_phdr_t [''p_vaddr''] p)" "p_filesz m p = read32 m (at_field elf32_phdr_t [''p_filesz''] p)"
  "p_memsz m p = read32 m (at_field elf32_phdr_t [''p_memsz''] p)" "p_flags m p = read32 m (at_field elf32_phdr_t [''p_flags''] p)"
  "sh_offset m p = read32 m (at_field elf32_shdr_t [''sh_offset''] p)"
  "elf_memory m p = read32 m (at_field elf_file_t [''elf_memory''] p)"
  "elf_virtual_base m p = read32 m (at_field elf_file_t [''virtual_base_address''] p)"
  "elf_virtual_end m p = read32 m (at_field elf_file_t [''virtual_end_address''] p)"
  "elf_phys_base m p = read32 m (at_field elf_file_t [''physical_base_address''] p)"
  "elf_phys_end m p = read32 m (at_field elf_file_t [''physical_end_address''] p)"
  by (simp_all add: e_ident_def e_type_def e_entry_def e_phoff_def e_shoff_def e_phnum_def e_shstrndx_def p_type_def p_offset_def p_vaddr_def
    p_filesz_def p_memsz_def p_flags_def sh_offset_def elf_memory_def elf_virtual_base_def elf_virtual_end_def elf_phys_base_def elf_phys_end_def)

text \<open>Tasks, processes and the interrupt frame. The registers that are saved are, by name, those that the assignments of
  \<^verbatim>\<open>task_save_state\<close> copy.\<close>

lemma process_offsets [THEN at_fieldI, simp]:
  "offsetof [''page_directory''] task_t = Some 0" "offsetof [''registers''] task_t = Some 4" "offsetof [''process''] task_t = Some 52"
  "offsetof [''next''] task_t = Some 56" "offsetof [''prev''] task_t = Some 60"
  "offsetof [''id''] process_t = Some 0" "offsetof [''filename''] process_t = Some 2" "offsetof [''task''] process_t = Some 112"
  "offsetof [''allocations''] process_t = Some 116" "offsetof [''filetype''] process_t = Some 4212" "offsetof [''ptr'', ''elf_file''] process_t = Some 4216"
  "offsetof [''stack''] process_t = Some 4220" "offsetof [''size''] process_t = Some 4224"
  "offsetof [''keyboard'', ''buffer''] process_t = Some 4228" "offsetof [''keyboard'', ''tail''] process_t = Some 5252"
  "offsetof [''keyboard'', ''head''] process_t = Some 5256"
  by code_simp+

lemma register_offsets [THEN at_fieldI, simp]:
  "offsetof [''edi''] registers_t = Some 0" "offsetof [''esi''] registers_t = Some 4" "offsetof [''ebx''] registers_t = Some 12"
  "offsetof [''edx''] registers_t = Some 16" "offsetof [''ecx''] registers_t = Some 20" "offsetof [''eax''] registers_t = Some 24"
  "offsetof [''ip''] registers_t = Some 28" "offsetof [''cs''] registers_t = Some 32" "offsetof [''esp''] registers_t = Some 40"
  "offsetof [''ss''] registers_t = Some 44"
  by code_simp+

lemma process_layout:
  "task_page_directory m t = read32 m (at_field task_t [''page_directory''] t)" "task_process m t = read32 m (at_field task_t [''process''] t)"
  "task_next m t = read32 m (at_field task_t [''next''] t)" "task_prev m t = read32 m (at_field task_t [''prev''] t)"
  "process_id m p = read16 m (at_field process_t [''id''] p)" "process_filename p = at_field process_t [''filename''] p"
  "process_task m p = read32 m (at_field process_t [''task''] p)" "process_allocations p = at_field process_t [''allocations''] p"
  "process_filetype m p = m (at_field process_t [''filetype''] p)" "process_ptr m p = read32 m (at_field process_t [''ptr'', ''elf_file''] p)"
  "process_stack m p = read32 m (at_field process_t [''stack''] p)" "process_size m p = read32 m (at_field process_t [''size''] p)"
  "keyboard_tail m p = read32 m (at_field process_t [''keyboard'', ''tail''] p)"
  "keyboard_head m p = read32 m (at_field process_t [''keyboard'', ''head''] p)"
  by (simp_all add: task_page_directory_def task_process_def task_next_def task_prev_def process_id_def process_filename_def process_task_def
    process_allocations_def process_filetype_def process_ptr_def process_stack_def process_size_def keyboard_tail_def keyboard_head_def)

lemma saved_registers_named:
  "map (\<lambda>(to, from). (Some (4 * int to), Some (4 * int from))) saved_registers =
     map (\<lambda>f. (offsetof [''registers'', f] task_t, offsetof [f] interrupt_frame_t))
       [''ip'', ''cs'', ''flags'', ''esp'', ''ss'', ''eax'', ''ebp'', ''ebx'', ''ecx'', ''edi'', ''edx'', ''esi'']"
  by code_simp

lemma task_return_named:
  "task_return regs flags ebp s = (let reg = (\<lambda>f. read32 (kmem s) (at_field registers_t [f] regs)) in
     (\<lparr>uc_edi = reg ''edi'', uc_esi = reg ''esi'', uc_ebp = ebp, uc_ebx = reg ''ebx'', uc_edx = reg ''edx'', uc_ecx = reg ''ecx'',
      uc_eax = reg ''eax'', uc_ip = reg ''ip'', uc_cs = reg ''cs'', uc_flags = flags OR 0x200, uc_esp = reg ''esp'', uc_ss = reg ''ss''\<rparr>,
      s\<lparr>data_segments := ucast (reg ''ss'')\<rparr>))"
  by (simp add: task_return_def restore_general_purpose_registers_def)

text \<open>The tables of the processor.\<close>

lemma descriptor_offsets [THEN at_fieldI, simp]:
  "offsetof [''offset_1''] idt_desc_t = Some 0" "offsetof [''selector''] idt_desc_t = Some 2" "offsetof [''zero''] idt_desc_t = Some 4"
  "offsetof [''type_attr''] idt_desc_t = Some 5" "offsetof [''offset_2''] idt_desc_t = Some 6"
  "offsetof [''base''] gdt_structured_t = Some 0" "offsetof [''limit''] gdt_structured_t = Some 4" "offsetof [''type''] gdt_structured_t = Some 8"
  "offsetof [''esp0''] tss_t = Some 4" "offsetof [''ss0''] tss_t = Some 8" "offsetof [''next''] keyboard_t = Some 24"
  by code_simp+

lemma descriptor_sizes [simp]: "sizeof idt_desc_t = 8" "sizeof tss_t = 100"
  by code_simp+

lemma descriptor_layout:
  "gate m table i = (let d = table + word_of_int (sizeof idt_desc_t) * word_of_nat i in
     (ucast (read16 m (at_field idt_desc_t [''offset_1''] d)) OR push_bit 16 (ucast (read16 m (at_field idt_desc_t [''offset_2''] d))),
      read16 m (at_field idt_desc_t [''selector''] d), m (at_field idt_desc_t [''zero''] d), m (at_field idt_desc_t [''type_attr''] d)))"
  "read_gdt_structured m p = \<lparr>gdt_base = read32 m (at_field gdt_structured_t [''base''] p),
     gdt_limit = read32 m (at_field gdt_structured_t [''limit''] p), gdt_type = m (at_field gdt_structured_t [''type''] p)\<rparr>"
  "kernel_tss s = tss_load 0x28 (put_kmem (write32 (write32 (memset (kmem s) (tss_at s) 0 (word_of_int (sizeof tss_t)))
     (at_field tss_t [''esp0''] (tss_at s)) 0x600000) (at_field tss_t [''ss0''] (tss_at s)) 0x10) s)"
  by (simp_all add: gate_def read_gdt_structured_def kernel_tss_def)

text \<open>The sizes of the structures that are allocated, cleared or kept in arrays.\<close>

lemma structure_sizes:
  "map sizeof [paging_4gb_chunk_t, path_root_t, path_part_t, disk_stream_t, file_stat_t, file_descriptor_t] = [4, 8, 8, 8, 8, 16]"
  "map sizeof [fat_h_t, fat_directory_item_t, fat_directory_t, fat_item_t, fat_file_descriptor_t, fat_private_t] = [62, 32, 16, 8, 8, 92]"
  "map sizeof [elf_header_t, elf32_phdr_t, elf32_shdr_t, elf_file_t] = [52, 32, 40, 132]"
  "map sizeof [task_t, process_t, interrupt_frame_t, registers_t, keyboard_buffer_t] = [64, 5260, 52, 48, 1032]"
  "map sizeof [gdt_t, gdt_structured_t, tss_t, idt_desc_t, idtr_desc_t, keyboard_t] = [8, 12, 100, 8, 6, 28]"
  by code_simp+

end
