(* ===== verification/Stdlib.thy ===== *)
theory Stdlib
  imports CString "HOL-Library.Signed_Division"
begin

text \<open>
  The number formatting of the user programs' library, \<^verbatim>\<open>programs/stdlib/src/stdlib.c\<close>. The buffer \<^verbatim>\<open>text\<close> is at
  an address of the program's memory. Every intermediate value of a 32-bit \<^verbatim>\<open>int\<close> argument is in range (the
  argument is made negative, never positive), so the integers are unbounded here and the theorem states the range.
  \<open>sdiv\<close> and \<open>smod\<close> are the truncating division and remainder of the language.
\<close>

section \<open>Operations\<close>

lemma sdiv_smaller:
  assumes i: "(i :: int) \<noteq> 0"
  shows "\<bar>i sdiv 10\<bar> < \<bar>i\<bar>"
proof -
  have "\<bar>i sdiv 10\<bar> = \<bar>i\<bar> div 10" using i by (simp add: signed_divide_int_def abs_mult abs_sgn_eq)
  then show ?thesis using i by auto
qed

text \<open>The loop: the index of the first character written, and the memory.\<close>

function itoa_loop :: "u32 \<Rightarrow> int \<Rightarrow> int \<Rightarrow> mem \<Rightarrow> int \<times> mem" where
  "itoa_loop text_at loc i m =
     (if i = 0 then (loc, m)
      else itoa_loop text_at (loc - 1) (i sdiv 10) (m(text_at + word_of_int (loc - 1) := word_of_int (0x30 - i smod 10))))"
  by pat_completeness auto

termination
  by (relation "measure (\<lambda>(text_at, loc, i, m). nat \<bar>i\<bar>)") (auto simp: sdiv_smaller)

declare itoa_loop.simps [simp del]

definition itoa :: "u32 \<Rightarrow> int \<Rightarrow> mem \<Rightarrow> u32 \<times> mem" where
  "itoa text_at i m =
     (let m1 = m(text_at + 11 := 0);
          neg = i < 0;
          i1 = (if i \<ge> 0 then - i else i);
          (loc2, m2) = itoa_loop text_at 11 i1 m1;
          (loc3, m3) = (if loc2 = 11 then (loc2 - 1, m2(text_at + word_of_int (loc2 - 1) := 0x30)) else (loc2, m2));
          (loc4, m4) = (if neg then (loc3 - 1, m3(text_at + word_of_int (loc3 - 1) := 0x2d)) else (loc3, m3))
      in (text_at + word_of_int loc4, m4))"

section \<open>The reference\<close>

fun digits :: "nat \<Rightarrow> u8 list" where
  "digits n = (if n < 10 then [0x30 + word_of_nat n] else digits (n div 10) @ [0x30 + word_of_nat (n mod 10)])"

declare digits.simps [simp del]

definition decimal :: "int \<Rightarrow> u8 list" where
  "decimal i = (if i < 0 then [0x2d] else []) @ digits (nat \<bar>i\<bar>)"

lemma digits_length: "n < 10 ^ d \<Longrightarrow> 0 < d \<Longrightarrow> length (digits n) \<le> d"
proof (induction n arbitrary: d rule: digits.induct)
  case (1 n)
  show ?case
  proof (cases "n < 10")
    case False
    then obtain e where e: "d = Suc e" "0 < e" using 1(2,3) by (cases d; cases "d - 1") auto
    then have "n div 10 < 10 ^ e" using 1(2) by (simp add: less_mult_imp_div_less)
    then have "length (digits (n div 10)) \<le> e" using 1(1) False e(2) by simp
    then show ?thesis using e(1) False by (subst digits.simps) simp
  qed (use 1 in \<open>subst digits.simps, simp\<close>)
qed

text \<open>One character in front of a string.\<close>

lemma cstr_prepend:
  assumes "cstr m (text + word_of_nat (Suc k)) cs" "c \<noteq> 0" "k + length cs < 12"
  shows "cstr (m(text + word_of_nat k := c)) (text + word_of_nat k) (c # cs)"
proof -
  have "cstr (m(text + word_of_nat k := c)) (text + word_of_nat (Suc k)) cs"
  proof (rule cstr_agree [OF assms(1)])
    show "agree_off {text + word_of_nat k} m (m(text + word_of_nat k := c))" by (simp add: agree_off_def)
    show "span (text + word_of_nat (Suc k)) (Suc (length cs)) \<inter> {text + word_of_nat k} = {}"
    proof -
      have "text + word_of_nat k - (text + word_of_nat (Suc k)) = (- 1 :: u32)" by simp
      then have "unat (text + word_of_nat k - (text + word_of_nat (Suc k))) = 4294967295"
        by (simp only: unsigned_minus_1_eq_mask) (simp add: mask_eq_exp_minus_1)
      then show ?thesis using assms(3) by (simp add: span_def)
    qed
  qed
  then show ?thesis using assms(2) by (simp add: ac_simps)
qed

lemma digit_nonzero: "d < 10 \<Longrightarrow> (0x30 + word_of_nat d :: u8) \<noteq> 0"
  by (simp add: word_unat_eq_iff unat_word_ariths unat_of_nat)

lemma last_digit: "0 < n \<Longrightarrow> word_of_int (0x30 - (- int n) smod 10) = (0x30 + word_of_nat (n mod 10) :: u8)"
  by (simp add: signed_modulo_int_def) (metis of_int_of_nat_eq of_nat_mod of_nat_numeral)

lemma rest_digits: "0 < n \<Longrightarrow> (- int n) sdiv 10 = - int (n div 10)"
  by (simp add: signed_divide_int_def zdiv_int)

lemma itoa_loop_digits:
  "0 < n \<Longrightarrow> length (digits n) \<le> k \<Longrightarrow> k + length cs < 12 \<Longrightarrow> cstr m (text + word_of_nat k) cs \<Longrightarrow>
     \<exists>j m'. itoa_loop text (int k) (- int n) m = (int j, m') \<and> j + length (digits n) = k \<and>
       cstr m' (text + word_of_nat j) (digits n @ cs) \<and> agree_off (span text 12) m m'"
proof (induction n arbitrary: k cs m rule: digits.induct)
  case (1 n)
  let ?c = "0x30 + word_of_nat (n mod 10) :: u8"
  obtain k' where k: "k = Suc k'" using 1(3) by (cases k) (auto simp: digits.simps [of n] split: if_splits)
  let ?m = "m(text + word_of_nat k' := ?c)"
  have c: "?c \<noteq> 0" by (rule digit_nonzero) simp
  have m: "cstr ?m (text + word_of_nat k') (?c # cs)"
    using 1(4,5) k by (intro cstr_prepend c) auto
  have "k' < 12" using 1(4) k by simp
  then have a: "agree_off (span text 12) m ?m" by (simp add: agree_off_def)
  have w: "(text + word_of_int (int k - 1) :: u32) = text + word_of_nat k'" using k by simp
  have step: "itoa_loop text (int k) (- int n) m = itoa_loop text (int k') (- int (n div 10)) ?m"
    using 1(2) k by (subst itoa_loop.simps) (simp only: last_digit [OF 1(2)] rest_digits [OF 1(2)] w, simp)
  show ?case
  proof (cases "n < 10")
    case True
    then show ?thesis using step m a k 1(2)
      by (intro exI [of _ k'] exI [of _ ?m]) (simp add: itoa_loop.simps [of _ _ 0] digits.simps [of n] del: fun_upd_apply)
  next
    case False
    have d: "digits n = digits (n div 10) @ [?c]" using False by (simp add: digits.simps [of n])
    have "0 < n div 10" using False by (simp add: div_greater_zero_iff)
    moreover have "length (digits (n div 10)) \<le> k'" "k' + length (?c # cs) < 12" using 1(3,4) d k by simp_all
    ultimately obtain j m' where j: "itoa_loop text (int k') (- int (n div 10)) ?m = (int j, m')"
      "j + length (digits (n div 10)) = k'" "cstr m' (text + word_of_nat j) (digits (n div 10) @ ?c # cs)"
      "agree_off (span text 12) ?m m'"
      using 1(1) [OF False _ _ _ m] by blast
    then show ?thesis using step d k agree_off_trans_same [OF a j(4)]
      by (intro exI [of _ j] exI [of _ m']) simp
  qed
qed

text \<open>The digits of the magnitude, the number zero included.\<close>

lemma itoa_magnitude:
  assumes "length (digits n) \<le> 10"
  shows "\<exists>loc m2 j m3. itoa_loop text 11 (- int n) (m(text + 11 := 0)) = (loc, m2) \<and>
     (if loc = 11 then (loc - 1, m2(text + word_of_int (loc - 1) := 0x30)) else (loc, m2)) = (int j, m3) \<and>
     j + length (digits n) = 11 \<and> cstr m3 (text + word_of_nat j) (digits n) \<and> agree_off (span text 12) m m3"
proof -
  let ?m = "m(text + 11 := 0)"
  have "(11 :: u32) = word_of_nat 11" by simp
  then have a: "agree_off (span text 12) m ?m" and c: "cstr ?m (text + word_of_nat 11) []"
    using span_add_in [of 11 12 "text"] by (auto simp: agree_off_def)
  show ?thesis
  proof (cases "n = 0")
    case True
    have "cstr (?m(text + word_of_nat 10 := 0x30)) (text + word_of_nat 10) [0x30]"
      using c by (intro cstr_prepend) simp_all
    moreover have "agree_off (span text 12) ?m (?m(text + word_of_nat 10 := 0x30))"
      using span_add_in [of 10 12 "text"] by (auto simp: agree_off_def)
    ultimately show ?thesis using True agree_off_trans_same [OF a]
      by (intro exI [of _ 11] exI [of _ ?m] exI [of _ 10] exI [of _ "?m(text + word_of_nat 10 := 0x30)"])
        (simp add: itoa_loop.simps digits.simps del: fun_upd_apply)
  next
    case False
    then obtain j m2 where j: "itoa_loop text 11 (- int n) ?m = (int j, m2)" "j + length (digits n) = 11"
      "cstr m2 (text + word_of_nat j) (digits n)" "agree_off (span text 12) ?m m2"
      using itoa_loop_digits [OF _ _ _ c, of n] assms by auto
    have "digits n \<noteq> []" by (subst digits.simps) simp
    then have "j \<noteq> 11" using j(2) by (cases "digits n") auto
    then show ?thesis using j agree_off_trans_same [OF a j(4)]
      by (intro exI [of _ "int j"] exI [of _ m2] exI [of _ j] exI [of _ m2]) simp
  qed
qed

section \<open>Properties\<close>

text \<open>C37: \<^verbatim>\<open>itoa\<close> of every 32-bit integer, the smallest included, returns a pointer
  into its buffer to the NUL-terminated decimal notation of the number, and writes only the twelve bytes of the
  buffer.\<close>

theorem itoa_decimal:
  assumes "- (2 ^ 31) \<le> i" "i < 2 ^ 31"
  shows "\<exists>j m'. itoa text i m = (text + word_of_nat j, m') \<and> j + length (decimal i) = 11 \<and>
     cstr m' (text + word_of_nat j) (decimal i) \<and> agree_off (span text 12) m m'"
proof -
  let ?n = "nat \<bar>i\<bar>"
  have neg: "(if i \<ge> 0 then - i else i) = - int ?n" by simp
  have "?n < 10 ^ 10" using assms by simp
  then have len: "length (digits ?n) \<le> 10" by (rule digits_length) simp
  obtain loc m2 j m3 where l: "itoa_loop text 11 (- int ?n) (m(text + 11 := 0)) = (loc, m2)"
    and s: "(if loc = 11 then (loc - 1, m2(text + word_of_int (loc - 1) := 0x30)) else (loc, m2)) = (int j, m3)"
      "j + length (digits ?n) = 11" "cstr m3 (text + word_of_nat j) (digits ?n)" "agree_off (span text 12) m m3"
    using itoa_magnitude [OF len, of "text" m] by blast
  show ?thesis
  proof (cases "i < 0")
    case False
    then show ?thesis using s l neg
      by (intro exI [of _ j] exI [of _ m3]) (simp add: itoa_def decimal_def Let_def)
  next
    case True
    obtain k where k: "j = Suc k" "k < 12" using s(2) len by (cases j) auto
    let ?m = "m3(text + word_of_nat k := 0x2d)"
    have "cstr ?m (text + word_of_nat k) (0x2d # digits ?n)"
      using s(2,3) k by (intro cstr_prepend) auto
    moreover have "agree_off (span text 12) m3 ?m" using k(2) by (simp add: agree_off_def)
    ultimately show ?thesis using s l neg k True agree_off_trans_same [OF s(4)]
      by (intro exI [of _ k] exI [of _ ?m]) (simp add: itoa_def decimal_def Let_def del: fun_upd_apply)
  qed
qed

theorem itoa_decimal_witness:
  "\<exists>m'. itoa 0x1000 (-2147483648) (\<lambda>_. 0) = (0x1000, m') \<and>
     cstr m' 0x1000 [0x2d, 0x32, 0x31, 0x34, 0x37, 0x34, 0x38, 0x33, 0x36, 0x34, 0x38]"
proof -
  have "decimal (-2147483648) = [0x2d, 0x32, 0x31, 0x34, 0x37, 0x34, 0x38, 0x33, 0x36, 0x34, 0x38]"
    by (simp add: decimal_def digits.simps)
  then show ?thesis using itoa_decimal [of "-2147483648" "0x1000" "\<lambda>_. 0"] by auto
qed

end
