(* ===== verification/Spec2Isabelle.thy ===== *)
theory Spec2Isabelle
  imports SystemRuns UserInterrupts ProcessCreate FileOpen Layouts Stdlib
begin

text \<open>
  A verification development for PeachOS, a small 32-bit kernel for the PC with protected mode, paging, a FAT16
  file system, user processes, system calls and a keyboard. The C sources are under \<^verbatim>\<open>src/\<close>, the library of the
  user programs under \<^verbatim>\<open>programs/stdlib/\<close>.

  \<^bold>\<open>How the program is put together.\<close> \<^verbatim>\<open>kernel_main\<close> clears the screen, encodes and loads the segment table, sets up
  the kernel heap, the file systems, the disk, the interrupt table, the task state segment and the kernel's address
  space, registers the system calls and the keyboard, loads the first program and enters user mode. From then on the
  kernel runs only in interrupts: a key press queues a character for the current process, interrupt 0x80 carries the
  system calls, which read their arguments from the stack of the task through its page tables.

  \<^bold>\<open>The state.\<close> Memory is a function from 32-bit addresses to bytes. Structures and tables that the code keeps in
  memory are read and written there, at the offsets the compiler gives their fields (\<open>read32\<close>, \<open>write32\<close>), so aliasing
  and out-of-range accesses behave as on the machine. The rest of the kernel's state is a record that each component
  extends with its own globals: \<open>console\<close>, \<open>kstate\<close> (heap), \<open>pstate\<close> (paging), \<open>dstate\<close> (disk), \<open>fatstate\<close>,
  \<open>filestate\<close>, \<open>loadstate\<close>, \<open>taskstate\<close>, \<open>procstate\<close>, \<open>idtstate\<close>, \<open>kernelstate\<close>. Operations are functions on the
  extensible record. Static arrays, constants and local buffers whose address the code takes have their address as a
  field (\<open>file_descriptors_at\<close>, \<open>processes_at\<close>, \<open>print_buf_at\<close>).

  \<^bold>\<open>Conventions.\<close> Machine words are \<open>8\<close>, \<open>16\<close> and \<open>32 word\<close>; a signed \<^verbatim>\<open>int\<close> is an integer where its overflow
  would be undefined, and a cast is written out. Out-parameters are returned. Errors are the negative numbers of
  \<^verbatim>\<open>status.h\<close>. \<open>None\<close> means that the call does not return: a panic, a loop that never ends, a page fault, a division
  by zero, a call through an unknown pointer. Function pointers are constructors of a datatype (\<open>isr80h_command\<close>,
  \<open>interrupt_callback\<close>) or the address of the FAT16 table. What the locals hold before they are assigned is an argument
  (\<open>uninit\<close>). Loops recurse on the iterations left or with a measure; a loop that only data can stop is a
  \<open>partial_function (option)\<close>, and the theorems that use it prove that it returns. An \<^verbatim>\<open>int\<close> counter that would overflow
  (\<^verbatim>\<open>strlen\<close> at the 2147483648th byte) ends in \<open>None\<close>, and strings are shorter than that in the theorems. A function that
  stores as it reads (\<^verbatim>\<open>diskstreamer_read\<close>) stores into memory in the same order, and returns the bytes besides for the
  callers whose destination is a local buffer.
  The disk controller and the keyboard are a parameter: a function from the history of port accesses to what the
  next read returns, with the documented behaviour of an ATA disk as the hypothesis \<open>ata_disk\<close>. Accesses of the kernel
  outside its own address space go through \<open>translate\<close>, the page walk of the processor; under the kernel's own
  directory addresses are physical (\<open>kernel_paging_identity\<close> shows why).

  \<^bold>\<open>The theories.\<close>
  \<^item> \<^verbatim>\<open>Prelude\<close>: memory, little-endian words, spans of addresses, frames (\<open>agree_off\<close>), the collection \<open>mem_simps\<close>.
  \<^item> \<^verbatim>\<open>CMemory\<close> (\<^verbatim>\<open>memory/memory.c\<close>), \<^verbatim>\<open>CString\<close> (\<^verbatim>\<open>string/string.c\<close>): every function, against strings and byte lists.
  \<^item> \<^verbatim>\<open>Slots\<close>: tables of pointers in memory, shared by the file, process and task components.
  \<^item> \<^verbatim>\<open>Terminal\<close> (\<^verbatim>\<open>kernel.c\<close>): the console as an array of cells and a cursor, and as a grid (\<open>screen\<close>) on which \<open>show_char\<close>
    says what a character, a newline or a backspace does and \<open>text_fits\<close> which text stays on it.
  \<^item> \<^verbatim>\<open>Heap\<close> (\<^verbatim>\<open>memory/heap/heap.c\<close>): the block table refines an abstract map of allocations, allocation is first fit.
  \<^item> \<^verbatim>\<open>KHeap\<close> (\<^verbatim>\<open>kheap.c\<close>) and \<^verbatim>\<open>PageSource\<close>: the kernel heap as the interpretation of the locales \<open>page_source\<close> and
    \<open>page_pool\<close>, the interface through which every other component allocates; runs of the heap as an inductive relation.
  \<^item> \<^verbatim>\<open>Paging\<close> (\<^verbatim>\<open>memory/paging\<close>): page tables, lookup after update, mapping ranges, building and freeing address spaces.
  \<^item> \<^verbatim>\<open>PathParser\<close> (\<^verbatim>\<open>fs/pparser.c\<close>): paths to linked lists of components on the heap.
  \<^item> \<^verbatim>\<open>Disk\<close> (\<^verbatim>\<open>disk/\<close>, \<^verbatim>\<open>io/io.asm\<close>), \<^verbatim>\<open>FAT16\<close> (\<^verbatim>\<open>fs/fat/fat16.c\<close>), \<^verbatim>\<open>File\<close> (\<^verbatim>\<open>fs/file.c\<close>): sectors, byte streams, the
    file system driver, the descriptor table with its invariant; the driver interface is the locale \<open>fs_driver\<close>.
  \<^item> \<^verbatim>\<open>FileOpen\<close> (\<^verbatim>\<open>fs/file.c\<close>, \<^verbatim>\<open>fs/fat/fat16.c\<close>): searching the root directory, opening a path, exactly when that is
    answered with a descriptor, reading a file by its path. The entries found are files: entries with the subdirectory
    attribute are modelled, but the theorems leave them out.
  \<^item> \<^verbatim>\<open>Gdt\<close> (\<^verbatim>\<open>gdt/gdt.c\<close>): encoding of descriptors against what the processor decodes.
  \<^item> \<^verbatim>\<open>Elf\<close> (\<^verbatim>\<open>loader/formats\<close>): validation of images and the extent of their segments.
  \<^item> \<^verbatim>\<open>Task\<close> (\<^verbatim>\<open>task/task.c\<close>, \<^verbatim>\<open>task.asm\<close>): the linked list of tasks as a queue (\<open>task_queue\<close>, \<open>task_links\<close>), round
    robin, saved registers, entering user mode, accesses to the memory of a task. The four data segment registers, which
    the code always loads together, are one field of the state (\<open>data_segments\<close>); the other registers of a program are a
    \<open>user_context\<close>.
  \<^item> \<^verbatim>\<open>Process\<close> (\<^verbatim>\<open>task/process.c\<close>): loading and mapping of programs, the allocation table of each process, and
    runs of allocations by several processes (\<open>proc_run\<close>).
  \<^item> \<^verbatim>\<open>ProcessCreate\<close> (\<^verbatim>\<open>task/process.c\<close>): from a loaded image to a process with its task, its address space and its slot.
  \<^item> \<^verbatim>\<open>Keyboard\<close> (\<^verbatim>\<open>keyboard/keyboard.c\<close>): the ring buffer as the interpretation of the locale \<open>bounded_fifo\<close>.
  \<^item> \<^verbatim>\<open>Interrupts\<close> (\<^verbatim>\<open>idt/idt.c\<close>, \<^verbatim>\<open>keyboard/classic.c\<close>, \<^verbatim>\<open>isr80h/\<close>): the gates, the dispatch of interrupts and system
    calls, the keyboard driver.
  \<^item> \<^verbatim>\<open>Kernel\<close> (\<^verbatim>\<open>kernel.c\<close>): \<^verbatim>\<open>kernel_main\<close>, the segments and the identity of the kernel's address space.
  \<^item> \<^verbatim>\<open>UserMemory\<close>: the user's view of its memory through the page tables of its task, and its frames.
  \<^item> \<^verbatim>\<open>UserCalls\<close> (\<^verbatim>\<open>programs/stdlib/src/peachos.asm\<close>, \<^verbatim>\<open>idt/idt.asm\<close>): the assembler routines as lists of instructions
    with an executor, the trap through interrupt 0x80, and calls from the program to the kernel and back.
  \<^item> \<^verbatim>\<open>SystemRuns\<close>: the running system as a step relation of system calls, interrupts and steps of the program; the
    invariant of its state, isolation of the processes and what every call returns. The conditions of the steps are
    stated with the relation: they leave out the calls with which the code writes over its own structures.
  \<^item> \<^verbatim>\<open>UserInterrupts\<close> (\<^verbatim>\<open>idt/idt.asm\<close>): a key press under a running program, and the way of the key to \<^verbatim>\<open>getkey\<close>.
  \<^item> \<^verbatim>\<open>Layouts\<close>: the declarations of the structures in the headers, with their sizes and the offsets of their fields as
    the compiler lays them out; the offsets used by the other theories are these.
  \<^item> \<^verbatim>\<open>Stdlib\<close> (\<^verbatim>\<open>programs/stdlib/src/stdlib.c\<close>): \<^verbatim>\<open>itoa\<close>.

  \<^bold>\<open>What the theorems show.\<close> The heap keeps live allocations aligned, disjoint and off its table in every run, and the
  components above keep their own structures by that interface. Paths, streams, file reads, mappings, the task list and
  the keyboard buffer do what their abstract counterparts (lists of components, bytes of the disk, page maps, queues) do.
  No process can free or be handed memory of another, in every interleaving of system calls and key presses that meets
  the conditions of the step relation; the calls \<^verbatim>\<open>print\<close>, \<^verbatim>\<open>malloc\<close> and \<^verbatim>\<open>getkey\<close> do their work and come back with
  the registers of the caller, the data segment registers included, and a key press in between leaves the program as it was. Where the code does something else than it means to, the theorem
  states what it does: a backspace at the start of a line, a heap request at the end of the table, the FAT position,
  names of eight characters, descriptor 512, requests for zero bytes, the back link of a removed task, the \<^verbatim>\<open>ebp\<close> of a resumed task, a full keyboard
  ring, a full table of processes.

  \<^bold>\<open>Bounds.\<close> Loop counters come from the source: 25600 heap blocks, 1024 entries of directories, tables, allocations and
  the keyboard ring, 512 descriptors and interrupts, 12 processes and file systems, \<^verbatim>\<open>e_phnum\<close> program headers. No
  operation carries fuel.

  \<^bold>\<open>Not modelled.\<close> The boot sector, the call of \<^verbatim>\<open>main\<close> by \<^verbatim>\<open>start.asm\<close> and the example program; \<^verbatim>\<open>enable_interrupts\<close>,
  \<^verbatim>\<open>disable_interrupts\<close> and the empty stub of the unused interrupts, one instruction each on a flag that only the entry of
  the processor touches here; the busy bit that loading the task register sets. Interrupts do not nest: a handler runs to
  its end. The protection of pages is not modelled: \<open>translate\<close> asks only whether a page is present, and a program step of
  the runs writes anywhere outside the kernel's structures. The runs leave out a request for memory that the heap cannot
  reserve while the last block of its table is free, a free of NULL while the table of the caller has an empty entry,
  output that does not stay on the screen (the code does not scroll), and a string that cannot be copied: with these the
  code does not keep the invariant.
\<close>

end
